(* ===== verification/Prelude.thy ===== *)
theory Prelude
  imports Main "HOL-Library.Multiset"
begin

text \<open>
  Shared vocabulary of the development: the crate's error type and its \<open>Result\<close>, the
  sequencing of fallible steps, the fixed-width integer ranges with Rust's checked and
  overflow-trapping operations, ASCII digits and decimal numerals, and the generic lemmas the
  component theories use.
\<close>

section \<open>Errors and results\<close>

text \<open>
  \<open>ledgerlab_core::Error\<close> (\<^verbatim>\<open>lib.rs\<close>) is a static code and a detail text. The workspace is
  built with \<^verbatim>\<open>overflow-checks = true\<close>, so an arithmetic overflow, a failed \<open>expect\<close> or an
  \<open>unreachable!\<close> is a panic: it is a value of its own here, so that its absence can be proved. The sequencing of results is
  shared by the other error types of the workspace (the store's, the outbox's).
\<close>

datatype error = Error (err_code: string) (err_detail: string) | Panic

type_synonym 'a result = "error + 'a"

definition rbind :: "'e + 'a \<Rightarrow> ('a \<Rightarrow> 'e + 'b) \<Rightarrow> 'e + 'b" where
  "rbind m f = (case m of Inl e \<Rightarrow> Inl e | Inr x \<Rightarrow> f x)"

lemma rbind_simps [simp]:
  "rbind (Inl e) f = Inl e"
  "rbind (Inr x) f = f x"
  by (simp_all add: rbind_def)

lemma rbind_Inr_iff: "rbind m f = Inr y \<longleftrightarrow> (\<exists>x. m = Inr x \<and> f x = Inr y)"
  by (cases m) auto

lemma rbind_Inl_iff: "rbind m f = Inl e \<longleftrightarrow> m = Inl e \<or> (\<exists>x. m = Inr x \<and> f x = Inl e)"
  by (cases m) auto

lemma rbind_InrE [elim!]:
  assumes "rbind m f = Inr y"
  obtains x where "m = Inr x" "f x = Inr y"
  using assms by (auto simp: rbind_Inr_iff)

lemma rbind_assoc: "rbind (rbind m f) g = rbind m (\<lambda>x. rbind (f x) g)"
  by (cases m) simp_all

lemma rbind_cong [fundef_cong]:
  assumes "m = m'" and "\<And>x. m' = Inr x \<Longrightarrow> f x = f' x"
  shows "rbind m f = rbind m' f'"
  using assms by (cases m') simp_all

definition ensure :: "bool \<Rightarrow> 'e \<Rightarrow> 'e + unit" where
  "ensure b e = (if b then Inr () else Inl e)"

lemma ensure_simps [simp]:
  "ensure True e = Inr ()"
  "ensure False e = Inl e"
  by (simp_all add: ensure_def)

lemma ensure_Inr_iff [simp]: "ensure b e = Inr u \<longleftrightarrow> b"
  by (simp add: ensure_def)

lemma ensure_Inl_iff [simp]: "ensure b e = Inl e' \<longleftrightarrow> \<not> b \<and> e' = e"
  by (auto simp: ensure_def)

definition ok_or :: "'a option \<Rightarrow> 'e \<Rightarrow> 'e + 'a" where
  "ok_or m e = (case m of None \<Rightarrow> Inl e | Some x \<Rightarrow> Inr x)"

lemma ok_or_simps [simp]:
  "ok_or None e = Inl e"
  "ok_or (Some x) e = Inr x"
  by (simp_all add: ok_or_def)

lemma ok_or_Inr_iff [simp]: "ok_or m e = Inr x \<longleftrightarrow> m = Some x"
  by (cases m) auto

fun rmap :: "('a \<Rightarrow> 'e + 'b) \<Rightarrow> 'a list \<Rightarrow> 'e + 'b list" where
  "rmap f [] = Inr []"
| "rmap f (x # xs) = rbind (f x) (\<lambda>y. rbind (rmap f xs) (\<lambda>ys. Inr (y # ys)))"

fun rfold :: "('a \<Rightarrow> 's \<Rightarrow> 'e + 's) \<Rightarrow> 'a list \<Rightarrow> 's \<Rightarrow> 'e + 's" where
  "rfold f [] s = Inr s"
| "rfold f (x # xs) s = rbind (f x s) (rfold f xs)"

lemma rmap_Inr_length: "rmap f xs = Inr ys \<Longrightarrow> length ys = length xs"
  by (induction xs arbitrary: ys) auto

lemma rmap_Inr_nth: "rmap f xs = Inr ys \<Longrightarrow> i < length xs \<Longrightarrow> f (xs ! i) = Inr (ys ! i)"
  by (induction xs arbitrary: ys i) (auto simp: nth_Cons split: nat.splits)

lemma rmap_cong [fundef_cong]:
  assumes "xs = ys" and "\<And>x. x \<in> set ys \<Longrightarrow> f x = g x"
  shows "rmap f xs = rmap g ys"
  unfolding assms(1) using assms(2) by (induction ys) auto

lemma rfold_cong [fundef_cong]:
  assumes "xs = ys" and "s = t" and "\<And>x u. x \<in> set ys \<Longrightarrow> f x u = g x u"
  shows "rfold f xs s = rfold g ys t"
  unfolding assms(1,2) using assms(3) by (induction ys arbitrary: t) (auto intro: rbind_cong)

lemma rfold_append: "rfold f (xs @ ys) s = rbind (rfold f xs s) (rfold f ys)"
proof (induction xs arbitrary: s)
  case (Cons x xs)
  then show ?case by (cases "f x s") simp_all
qed simp

text \<open>An invariant of the loop body is an invariant of the loop.\<close>

lemma rfold_invariant:
  assumes "rfold f xs s = Inr s'" and "P s"
    and "\<And>x t t'. x \<in> set xs \<Longrightarrow> P t \<Longrightarrow> f x t = Inr t' \<Longrightarrow> P t'"
  shows "P s'"
  using assms by (induction xs arbitrary: s) auto

section \<open>Fixed-width integers\<close>

text \<open>
  Rust's integers are mathematical integers with a range; \<open>checked_\<close> operations return \<open>None\<close>
  outside it and the plain operators panic. A type is given by its bounds.
\<close>

definition i64_min :: int where "i64_min = -9223372036854775808"
definition i64_max :: int where "i64_max = 9223372036854775807"
definition u64_max :: nat where "u64_max = 18446744073709551615"
definition isize_max :: nat where "isize_max = 9223372036854775807"
definition i128_max :: int where "i128_max = 170141183460469231731687303715884105727"
definition u128_max :: nat where "u128_max = 340282366920938463463374607431768211455"

definition in_i64 :: "int \<Rightarrow> bool" where "in_i64 n \<longleftrightarrow> i64_min \<le> n \<and> n \<le> i64_max"
definition in_i128 :: "int \<Rightarrow> bool" where "in_i128 n \<longleftrightarrow> - i128_max - 1 \<le> n \<and> n \<le> i128_max"

definition checked_i64 :: "int \<Rightarrow> int option" where
  "checked_i64 n = (if in_i64 n then Some n else None)"

definition checked_i128 :: "int \<Rightarrow> int option" where
  "checked_i128 n = (if in_i128 n then Some n else None)"

definition checked_u64 :: "nat \<Rightarrow> nat option" where
  "checked_u64 n = (if n \<le> u64_max then Some n else None)"

definition checked_u128 :: "nat \<Rightarrow> nat option" where
  "checked_u128 n = (if n \<le> u128_max then Some n else None)"

text \<open>The plain operators of a profile with overflow checks: the value or a panic.\<close>

definition trap_i64 :: "int \<Rightarrow> int result" where
  "trap_i64 n = (if in_i64 n then Inr n else Inl Panic)"

definition trap_u64 :: "nat \<Rightarrow> nat result" where
  "trap_u64 n = (if n \<le> u64_max then Inr n else Inl Panic)"

definition trap_sub_u64 :: "nat \<Rightarrow> nat \<Rightarrow> nat result" where
  "trap_sub_u64 a b = (if b \<le> a then Inr (a - b) else Inl Panic)"

text \<open>Rust's \<open>/\<close> and \<open>%\<close> truncate towards zero; Isabelle's round down.\<close>

definition tdiv :: "int \<Rightarrow> int \<Rightarrow> int" where
  "tdiv a b = sgn a * sgn b * (\<bar>a\<bar> div \<bar>b\<bar>)"

definition tmod :: "int \<Rightarrow> int \<Rightarrow> int" where
  "tmod a b = sgn a * (\<bar>a\<bar> mod \<bar>b\<bar>)"

lemma tdiv_nonneg [simp]: "0 \<le> a \<Longrightarrow> 0 < b \<Longrightarrow> tdiv a b = a div b"
  by (cases "a = 0") (simp_all add: tdiv_def)

lemma tmod_nonneg [simp]: "0 \<le> a \<Longrightarrow> 0 < b \<Longrightarrow> tmod a b = a mod b"
  by (cases "a = 0") (simp_all add: tmod_def)

lemma tdiv_tmod: "tdiv a b * b + tmod a b = a"
proof -
  have "tdiv a b * b = sgn a * (\<bar>a\<bar> div \<bar>b\<bar> * \<bar>b\<bar>)"
    by (simp add: tdiv_def abs_sgn mult_ac)
  then have "tdiv a b * b + tmod a b = sgn a * (\<bar>a\<bar> div \<bar>b\<bar> * \<bar>b\<bar> + \<bar>a\<bar> mod \<bar>b\<bar>)"
    by (simp only: tmod_def distrib_left)
  also have "\<dots> = a"
    by (simp only: div_mult_mod_eq sgn_mult_abs)
  finally show ?thesis .
qed

named_theorems int_ranges

declare i64_min_def [int_ranges] i64_max_def [int_ranges] u64_max_def [int_ranges]
  isize_max_def [int_ranges]
  i128_max_def [int_ranges] u128_max_def [int_ranges] in_i64_def [int_ranges]
  in_i128_def [int_ranges]

lemma checked_i64_Some [simp]: "checked_i64 n = Some m \<longleftrightarrow> m = n \<and> in_i64 n"
  by (auto simp: checked_i64_def)

lemma checked_i128_Some [simp]: "checked_i128 n = Some m \<longleftrightarrow> m = n \<and> in_i128 n"
  by (auto simp: checked_i128_def)

lemma checked_u128_Some [simp]: "checked_u128 n = Some m \<longleftrightarrow> m = n \<and> n \<le> u128_max"
  by (auto simp: checked_u128_def)

lemma checked_u64_Some [simp]: "checked_u64 n = Some m \<longleftrightarrow> m = n \<and> n \<le> u64_max"
  by (auto simp: checked_u64_def)

lemma trap_i64_Inr [simp]: "trap_i64 n = Inr m \<longleftrightarrow> m = n \<and> in_i64 n"
  by (auto simp: trap_i64_def)

lemma trap_i64_in [simp]: "in_i64 n \<Longrightarrow> trap_i64 n = Inr n"
  by (simp add: trap_i64_def)

lemma trap_u64_Inr [simp]: "trap_u64 n = Inr m \<longleftrightarrow> m = n \<and> n \<le> u64_max"
  by (auto simp: trap_u64_def)

lemma trap_sub_u64_Inr [simp]: "trap_sub_u64 a b = Inr m \<longleftrightarrow> b \<le> a \<and> m = a - b"
  by (auto simp: trap_sub_u64_def)

section \<open>Comparison results\<close>

datatype ordering = OrdLess | OrdEqual | OrdGreater

definition cmp_of :: "'a::linorder \<Rightarrow> 'a \<Rightarrow> ordering" where
  "cmp_of a b = (if a < b then OrdLess else if a = b then OrdEqual else OrdGreater)"

lemma cmp_of_simps [simp]:
  "cmp_of a b = OrdLess \<longleftrightarrow> a < b"
  "cmp_of a b = OrdEqual \<longleftrightarrow> a = b"
  "cmp_of a b = OrdGreater \<longleftrightarrow> b < a"
  by (auto simp: cmp_of_def)

section \<open>Text: bytes, digits, decimal numerals\<close>

text \<open>
  A Rust \<open>str\<close> is its UTF-8 bytes; a HOL \<open>char\<close> is a byte, so \<open>length\<close> is Rust's \<open>len\<close>.
\<close>

definition byte :: "char \<Rightarrow> nat" where "byte c = of_char c"

definition is_digit :: "char \<Rightarrow> bool" where
  "is_digit c \<longleftrightarrow> 48 \<le> byte c \<and> byte c \<le> 57"

definition digit_val :: "char \<Rightarrow> nat" where "digit_val c = byte c - 48"

definition digit_char :: "nat \<Rightarrow> char" where "digit_char d = char_of (48 + d)"

lemma digit_char_props:
  assumes "d < 10"
  shows "is_digit (digit_char d)" "digit_val (digit_char d) = d"
proof -
  have "byte (digit_char d) = 48 + d"
    using assms by (simp add: byte_def digit_char_def of_char_of take_bit_eq_mod)
  then show "is_digit (digit_char d)" "digit_val (digit_char d) = d"
    using assms by (simp_all add: is_digit_def digit_val_def)
qed

lemma digit_val_less: "is_digit c \<Longrightarrow> digit_val c < 10"
  unfolding is_digit_def digit_val_def by linarith

lemma digit_char_val: "is_digit c \<Longrightarrow> digit_char (digit_val c) = c"
  by (simp add: is_digit_def digit_val_def digit_char_def byte_def)

text \<open>The value a string of digits denotes: the loop \<open>value = value * 10 + digit\<close>.\<close>

definition digits_step :: "nat \<Rightarrow> char \<Rightarrow> nat" where
  "digits_step v c = v * 10 + digit_val c"

definition digits_val :: "string \<Rightarrow> nat" where
  "digits_val s = foldl digits_step 0 s"

lemma foldl_digits_step: "foldl digits_step v s = v * 10 ^ length s + digits_val s"
proof (induction s arbitrary: v)
  case Nil
  then show ?case by (simp add: digits_val_def)
next
  case (Cons c s)
  have "digits_val (c # s) = digits_step 0 c * 10 ^ length s + digits_val s"
    using Cons.IH[of "digits_step 0 c"] by (simp add: digits_val_def)
  then show ?case
    using Cons.IH[of "digits_step v c"] by (simp add: digits_step_def algebra_simps)
qed

lemma digits_val_Nil [simp]: "digits_val [] = 0"
  by (simp add: digits_val_def)

lemma digits_val_Cons: "digits_val (c # s) = digit_val c * 10 ^ length s + digits_val s"
  using foldl_digits_step[of "digits_step 0 c" s] by (simp add: digits_val_def digits_step_def)

lemma digits_val_append:
  "digits_val (s @ t) = digits_val s * 10 ^ length t + digits_val t"
  using foldl_digits_step[of "digits_val s" t] by (simp add: digits_val_def)

lemma digits_val_bound: "list_all is_digit s \<Longrightarrow> digits_val s < 10 ^ length s"
proof (induction s)
  case (Cons c s)
  then have "digit_val c \<le> 9" using digit_val_less[of c] by simp
  then have "digit_val c * 10 ^ length s \<le> 9 * 10 ^ length s" by simp
  moreover have "digits_val s < 10 ^ length s" using Cons by simp
  ultimately have "digit_val c * 10 ^ length s + digits_val s < 10 * 10 ^ length s" by linarith
  then show ?case by (simp add: digits_val_Cons)
qed simp

lemma digits_val_ge:
  assumes "list_all is_digit (c # s)" and "c \<noteq> CHR ''0''"
  shows "10 ^ length s \<le> digits_val (c # s)"
proof -
  have "digit_val c \<noteq> 0"
  proof
    assume "digit_val c = 0"
    then have "c = digit_char 0" using assms digit_char_val[of c] by simp
    moreover have "digit_char 0 = CHR ''0''" by code_simp
    ultimately show False using assms(2) by simp
  qed
  then have "10 ^ length s \<le> digit_val c * 10 ^ length s" by (cases "digit_val c") auto
  then show ?thesis unfolding digits_val_Cons by (rule trans_le_add1)
qed

text \<open>The numeral of a number, as \<open>to_string\<close> writes it.\<close>

fun nat_str :: "nat \<Rightarrow> string" where
  "nat_str n = (if n < 10 then [digit_char n] else nat_str (n div 10) @ [digit_char (n mod 10)])"

declare nat_str.simps [simp del]

definition int_str :: "int \<Rightarrow> string" where
  "int_str n = (if n < 0 then CHR ''-'' # nat_str (nat (- n)) else nat_str (nat n))"

lemma nat_str_digits: "list_all is_digit (nat_str n)"
proof (induction n rule: nat_str.induct)
  case (1 n)
  then show ?case
    by (subst nat_str.simps) (auto simp: digit_char_props)
qed

lemma nat_str_val: "digits_val (nat_str n) = n"
proof (induction n rule: nat_str.induct)
  case (1 n)
  then show ?case
    by (subst nat_str.simps) (auto simp: digits_val_append digits_val_Cons digit_char_props)
qed

lemma nat_str_nonempty [simp]: "nat_str n \<noteq> []"
  by (subst nat_str.simps) simp

lemma nat_str_no_zero:
  "nat_str n = CHR ''0'' # s \<Longrightarrow> n = 0 \<and> s = []"
proof (induction n arbitrary: s rule: nat_str.induct)
  case (1 n)
  show ?case
  proof (cases "n < 10")
    case True
    then have "digit_char n = CHR ''0''" "s = []"
      using "1.prems" by (simp_all add: nat_str.simps[of n])
    then have "n = digit_val (CHR ''0'')" using digit_char_props(2)[OF True] by simp
    with \<open>s = []\<close> show ?thesis by (simp add: digit_val_def byte_def)
  next
    case False
    then have eq: "nat_str (n div 10) @ [digit_char (n mod 10)] = CHR ''0'' # s"
      using "1.prems" by (simp add: nat_str.simps[of n])
    then obtain s' where "nat_str (n div 10) = CHR ''0'' # s'"
      using nat_str_nonempty[of "n div 10"] by (cases "nat_str (n div 10)") auto
    then have "n div 10 = 0" using "1.IH"[OF False] by blast
    with False show ?thesis by simp
  qed
qed

text \<open>A canonical digit string is the numeral of its value.\<close>

lemma nat_str_digits_val:
  assumes "list_all is_digit s" and "s \<noteq> []" and "length s > 1 \<Longrightarrow> hd s \<noteq> CHR ''0''"
  shows "nat_str (digits_val s) = s"
  using assms
proof (induction s rule: rev_induct)
  case (snoc c s)
  have c: "digit_val c < 10" "digit_char (digit_val c) = c"
    using snoc.prems by (simp_all add: digit_val_less digit_char_val)
  have v: "digits_val (s @ [c]) = digits_val s * 10 + digit_val c"
    by (simp add: digits_val_append digits_val_Cons)
  show ?case
  proof (cases s)
    case Nil
    with v c show ?thesis by (subst nat_str.simps) simp
  next
    case (Cons d s')
    have d: "d \<noteq> CHR ''0''" using snoc.prems(3) Cons by simp
    have "(1::nat) \<le> 10 ^ length s'" by simp
    also have "\<dots> \<le> digits_val s"
      using digits_val_ge[of d s'] d Cons snoc.prems(1) by simp
    finally have "1 \<le> digits_val s" .
    moreover have "nat_str (digits_val s) = s"
      using snoc Cons d by simp
    ultimately show ?thesis
      using v c by (subst nat_str.simps) simp
  qed
qed simp

lemma digits_val_zeros [simp]: "digits_val (replicate k (CHR ''0'')) = 0"
  by (induction k) (simp_all add: digits_val_Cons digit_val_def byte_def)

lemma nat_str_length: "n < 10 ^ k \<Longrightarrow> 0 < k \<Longrightarrow> length (nat_str n) \<le> k"
proof (induction n arbitrary: k rule: nat_str.induct)
  case (1 n)
  show ?case
  proof (cases "n < 10")
    case True
    with "1.prems" show ?thesis by (subst nat_str.simps) simp
  next
    case False
    obtain j where k: "k = Suc j" using "1.prems" by (cases k) auto
    with "1.prems" False have "n div 10 < 10 ^ j" "0 < j" by (cases j; simp; linarith)+
    then show ?thesis using "1.IH"[OF False, of j] False k by (subst nat_str.simps) simp
  qed
qed

end
