(* ===== verification/Money.thy ===== *)
theory Money
  imports Prelude Complex_Main
begin

text \<open>
  \<^verbatim>\<open>money/mod.rs\<close>, the plain operations: signed atoms bounded by \<open>10^30 - 1\<close>, nonnegative
  decimals of at most 30 significant digits and 18 fractional digits, reduced rationals of at
  most 512 bits and the one rounding rule (nearest, ties away from zero), and money in a
  currency and scale. \<open>BigInt\<close> is \<open>int\<close>; a decimal's \<open>u128\<close> and \<open>u8\<close> fields are naturals.
\<close>

section \<open>Atoms\<close>

definition MAX_ATOMS :: int where "MAX_ATOMS = 999999999999999999999999999999"

definition overflow :: error where
  "overflow = Error ''ARITHMETIC_OVERFLOW'' ''bounded exact arithmetic''"

definition not_canonical :: error where
  "not_canonical = Error ''INPUT_PRECISION'' ''canonical integer string required''"

definition checked_atoms :: "int \<Rightarrow> int result" where
  "checked_atoms n = (if - MAX_ATOMS \<le> n \<and> n \<le> MAX_ATOMS then Inr n else Inl overflow)"

definition add_atoms :: "int \<Rightarrow> int \<Rightarrow> int result" where
  "add_atoms a b = rbind (ok_or (checked_i128 (a + b)) overflow) checked_atoms"

definition strip_minus :: "string \<Rightarrow> string" where
  "strip_minus s = (case s of [] \<Rightarrow> [] | c # t \<Rightarrow> if c = CHR ''-'' then t else s)"

definition starts_minus :: "string \<Rightarrow> bool" where
  "starts_minus s = (case s of [] \<Rightarrow> False | c # _ \<Rightarrow> c = CHR ''-'')"

definition starts_zero :: "string \<Rightarrow> bool" where
  "starts_zero s = (case s of [] \<Rightarrow> False | c # _ \<Rightarrow> c = CHR ''0'')"

definition canonical_integer :: "string \<Rightarrow> unit result" where
  "canonical_integer s =
     (let digits = strip_minus s in
      if digits = [] \<or> \<not> list_all is_digit digits
        \<or> length digits > 1 \<and> starts_zero digits \<or> s = ''-0''
      then Inl not_canonical else Inr ())"

text \<open>The value of a canonical integer string, which is what \<open>str::parse\<close> computes on it.\<close>

definition int_val :: "string \<Rightarrow> int" where
  "int_val s = (if starts_minus s then - int (digits_val (strip_minus s))
                else int (digits_val (strip_minus s)))"

definition parse_atoms :: "string \<Rightarrow> int result" where
  "parse_atoms text =
     rbind (canonical_integer text) (\<lambda>_.
     rbind (ok_or (checked_i128 (int_val text)) overflow) checked_atoms)"

section \<open>Decimals\<close>

record decimal =
  coefficient :: nat
  dscale :: nat

definition split_dot :: "string \<Rightarrow> string \<times> string" where
  "split_dot s =
     (if CHR ''.'' \<in> set s
      then (takeWhile (\<lambda>c. c \<noteq> CHR ''.'') s, tl (dropWhile (\<lambda>c. c \<noteq> CHR ''.'') s))
      else (s, []))"

definition trim_end0 :: "string \<Rightarrow> string" where
  "trim_end0 s = rev (dropWhile (\<lambda>c. c = CHR ''0'') (rev s))"

definition trim_start0 :: "string \<Rightarrow> string" where
  "trim_start0 s = dropWhile (\<lambda>c. c = CHR ''0'') s"

definition decimal_length :: error where
  "decimal_length = Error ''INPUT_PRECISION'' ''decimal length''"

definition nonneg_decimal :: error where
  "nonneg_decimal = Error ''INPUT_PRECISION'' ''nonnegative decimal required''"

definition decimal_coefficient :: error where
  "decimal_coefficient = Error ''INPUT_PRECISION'' ''decimal coefficient''"

definition decimal_parse :: "string \<Rightarrow> decimal result" where
  "decimal_parse s =
     (if s = [] \<or> length s > 64 then Inl decimal_length
      else let (whole, fraction) = split_dot s in
        if whole = [] \<or> \<not> list_all is_digit whole \<or> \<not> list_all is_digit fraction
          \<or> length fraction > 18 \<or> CHR ''.'' \<in> set s \<and> fraction = []
        then Inl nonneg_decimal
        else let fraction = trim_end0 fraction;
                 coefficient = trim_start0 (whole @ fraction)
          in if length coefficient > 30 then Inl decimal_coefficient
             else rbind (if coefficient = [] then Inr 0
                         else ok_or (checked_u128 (digits_val coefficient)) overflow) (\<lambda>c.
               Inr \<lparr>coefficient = c, dscale = (if coefficient = [] then 0 else length fraction)\<rparr>))"

definition decimal_is_zero :: "decimal \<Rightarrow> bool" where
  "decimal_is_zero d \<longleftrightarrow> coefficient d = 0"

definition decimal_display :: "decimal \<Rightarrow> string" where
  "decimal_display d =
     (let s = nat_str (coefficient d); scale = dscale d in
      if scale > 0 then
        let s = (if length s \<le> scale then replicate (scale + 1 - length s) (CHR ''0'') @ s else s)
        in take (length s - scale) s @ CHR ''.'' # drop (length s - scale) s
      else s)"

section \<open>Exact ratios\<close>

record ratio =
  numerator :: int
  denominator :: int

definition bounded :: "int \<Rightarrow> unit result" where
  "bounded n = (if \<bar>n\<bar> \<ge> 2 ^ 512 then Inl overflow else Inr ())"

definition ratio_integer :: "int \<Rightarrow> ratio" where
  "ratio_integer n = \<lparr>numerator = n, denominator = 1\<rparr>"

definition positive_denominator :: error where
  "positive_denominator = Error ''INPUT_PRECISION'' ''positive denominator required''"

text \<open>The Euclidean loop of \<open>new_with_work\<close>.\<close>

function euclid :: "int \<Rightarrow> int \<Rightarrow> int" where
  "euclid a b = (if b = 0 then a else euclid b (tmod a b))"
  by pat_completeness auto
termination
proof (relation "measure (\<lambda>(a, b). nat \<bar>b\<bar>)")
  fix a b :: int
  assume "b \<noteq> 0"
  have "\<bar>tmod a b\<bar> \<le> \<bar>a\<bar> mod \<bar>b\<bar>"
    using \<open>b \<noteq> 0\<close> by (simp add: tmod_def abs_mult sgn_if)
  moreover have "\<bar>a\<bar> mod \<bar>b\<bar> < \<bar>b\<bar>" using \<open>b \<noteq> 0\<close> by (intro pos_mod_bound) simp
  ultimately have "\<bar>tmod a b\<bar> < \<bar>b\<bar>" by linarith
  then show "((b, tmod a b), a, b) \<in> measure (\<lambda>(a, b). nat \<bar>b\<bar>)" by simp
qed simp

declare euclid.simps [simp del]

definition ratio_new :: "int \<Rightarrow> int \<Rightarrow> ratio result" where
  "ratio_new n d =
     (if d \<le> 0 then Inl positive_denominator
      else rbind (bounded n) (\<lambda>_.
           rbind (bounded d) (\<lambda>_.
           let a = euclid \<bar>n\<bar> d in
           Inr \<lparr>numerator = tdiv n a, denominator = tdiv d a\<rparr>)))"

definition not_reduced :: error where
  "not_reduced = Error ''INPUT_PRECISION'' ''ratio must be reduced''"

definition from_canonical :: "string \<Rightarrow> string \<Rightarrow> ratio result" where
  "from_canonical n d =
     rbind (canonical_integer n) (\<lambda>_.
     rbind (canonical_integer d) (\<lambda>_.
     if length n > 156 \<or> length d > 155 then Inl overflow
     else rbind (ratio_new (int_val n) (int_val d)) (\<lambda>r.
       if int_str (numerator r) \<noteq> n \<or> int_str (denominator r) \<noteq> d then Inl not_reduced
       else Inr r)))"

definition reduced :: "ratio \<Rightarrow> ratio" where
  "reduced r =
     (let g = gcd (numerator r) (denominator r)
      in \<lparr>numerator = tdiv (numerator r) g, denominator = tdiv (denominator r) g\<rparr>)"

definition is_positive :: "ratio \<Rightarrow> bool" where "is_positive r \<longleftrightarrow> 0 < numerator r"

definition negated :: "ratio \<Rightarrow> ratio" where
  "negated r = \<lparr>numerator = - numerator r, denominator = denominator r\<rparr>"

definition ratio_mul :: "ratio \<Rightarrow> ratio \<Rightarrow> ratio result" where
  "ratio_mul x y =
     (let g1 = gcd (numerator x) (denominator y);
          g2 = gcd (numerator y) (denominator x);
          n = tdiv (numerator x) g1 * tdiv (numerator y) g2;
          d = tdiv (denominator x) g2 * tdiv (denominator y) g1
      in ratio_new n d)"

definition ratio_div :: "ratio \<Rightarrow> ratio \<Rightarrow> ratio result" where
  "ratio_div x y =
     (if numerator y = 0 then Inl (Error ''INPUT_PRECISION'' ''division by zero'')
      else ratio_mul x
        \<lparr>numerator = (if numerator y < 0 then - denominator y else denominator y),
         denominator = \<bar>numerator y\<bar>\<rparr>)"

definition ratio_add :: "ratio \<Rightarrow> ratio \<Rightarrow> ratio result" where
  "ratio_add x y =
     (let g = gcd (denominator x) (denominator y);
          left = numerator x * tdiv (denominator y) g;
          right = numerator y * tdiv (denominator x) g;
          n = left + right;
          d = tdiv (denominator x) g * denominator y
      in rbind (bounded left) (\<lambda>_.
         rbind (bounded right) (\<lambda>_.
         rbind (bounded n) (\<lambda>_.
         rbind (bounded d) (\<lambda>_. ratio_new n d)))))"

definition round_atoms :: "ratio \<Rightarrow> int result" where
  "round_atoms x =
     (let q = tdiv \<bar>numerator x\<bar> (denominator x);
          r = tmod \<bar>numerator x\<bar> (denominator x)
      in rbind (if r \<ge> denominator x - r then rbind (bounded (q + 1)) (\<lambda>_. Inr (q + 1))
                else Inr q) (\<lambda>q.
         let q = (if numerator x < 0 then - q else q)
         in rbind (ok_or (checked_i128 q) overflow) checked_atoms))"

section \<open>Decimals as ratios and atoms\<close>

text \<open>The scale of a parsed decimal is at most 18, so \<open>10u128.pow\<close> cannot overflow.\<close>

definition decimal_ratio :: "decimal \<Rightarrow> ratio" where
  "decimal_ratio d = reduced \<lparr>numerator = int (coefficient d), denominator = 10 ^ dscale d\<rparr>"

definition atoms_ratio :: "decimal \<Rightarrow> nat \<Rightarrow> ratio result" where
  "atoms_ratio d scale =
     (if scale > 18 then Inl (Error ''INPUT_PRECISION'' ''book scale'')
      else ratio_mul (decimal_ratio d) (ratio_integer (10 ^ scale)))"

definition atoms_exact :: "decimal \<Rightarrow> nat \<Rightarrow> int result" where
  "atoms_exact d scale =
     rbind (atoms_ratio d scale) (\<lambda>r.
     if denominator r \<noteq> 1
     then Inl (Error ''INPUT_PRECISION'' ''fixed amount not representable at book scale'')
     else round_atoms r)"

definition percent :: "decimal \<Rightarrow> ratio result" where
  "percent d =
     (let r = decimal_ratio d in
      if numerator r > denominator r * 100
      then Inl (Error ''POLICY_PERCENT_RANGE'' ''percent exceeds 100'')
      else ratio_div r (ratio_integer 100))"

section \<open>Money\<close>

record money =
  currency :: string
  mscale :: nat
  atoms :: int

definition is_upper :: "char \<Rightarrow> bool" where
  "is_upper c \<longleftrightarrow> 65 \<le> byte c \<and> byte c \<le> 90"

definition validate_currency :: "string \<Rightarrow> nat \<Rightarrow> unit result" where
  "validate_currency cur scale =
     (if length cur \<noteq> 3 \<or> \<not> list_all is_upper cur \<or> scale > 18
      then Inl (Error ''CURRENCY_MISMATCH'' ''currency or scale'') else Inr ())"

definition money_new :: "string \<Rightarrow> nat \<Rightarrow> int \<Rightarrow> money result" where
  "money_new cur scale n =
     rbind (validate_currency cur scale) (\<lambda>_.
     rbind (checked_atoms n) (\<lambda>a. Inr \<lparr>currency = cur, mscale = scale, atoms = a\<rparr>))"

definition money_checked_add :: "money \<Rightarrow> money \<Rightarrow> money result" where
  "money_checked_add x y =
     (if currency x \<noteq> currency y \<or> mscale x \<noteq> mscale y
      then Inl (Error ''CURRENCY_MISMATCH'' ''currency and scale must agree'')
      else rbind (add_atoms (atoms x) (atoms y)) (money_new (currency x) (mscale x)))"

text \<open>The \<open>Serialize\<close>/\<open>Deserialize\<close> pair of the wire form: the atoms travel as text.\<close>

definition money_serialize :: "money \<Rightarrow> string \<times> nat \<times> string" where
  "money_serialize m = (currency m, mscale m, int_str (atoms m))"

definition money_deserialize :: "string \<times> nat \<times> string \<Rightarrow> money result" where
  "money_deserialize w =
     (case w of (cur, scale, text) \<Rightarrow> rbind (parse_atoms text) (money_new cur scale))"

section \<open>Laws of the ratio arithmetic\<close>

text \<open>
  The abstract specification: a ratio denotes a rational number, and every operation that
  returns computes exactly the operation on rationals and keeps the representation invariant
  (positive denominator, lowest terms, at most 512 bits).
\<close>

definition ratio_val :: "ratio \<Rightarrow> rat" where
  "ratio_val r = of_int (numerator r) / of_int (denominator r)"

definition ratio_ok :: "ratio \<Rightarrow> bool" where
  "ratio_ok r \<longleftrightarrow> 0 < denominator r \<and> coprime (numerator r) (denominator r)
     \<and> \<bar>numerator r\<bar> < 2 ^ 512 \<and> denominator r < 2 ^ 512"

lemma bounded_Inr [simp]: "bounded n = Inr u \<longleftrightarrow> \<bar>n\<bar> < 2 ^ 512"
  by (auto simp: bounded_def)

lemma bounded_Inl [simp]: "bounded n = Inl e \<longleftrightarrow> 2 ^ 512 \<le> \<bar>n\<bar> \<and> e = overflow"
  by (auto simp: bounded_def)

lemma checked_atoms_Inr [simp]: "checked_atoms n = Inr m \<longleftrightarrow> m = n \<and> \<bar>n\<bar> \<le> MAX_ATOMS"
  by (auto simp: checked_atoms_def)

lemma atoms_in_i128: "\<bar>n\<bar> \<le> MAX_ATOMS \<Longrightarrow> in_i128 n"
  unfolding MAX_ATOMS_def int_ranges by linarith

lemma add_atoms_Inr [simp]: "add_atoms a b = Inr c \<longleftrightarrow> c = a + b \<and> \<bar>a + b\<bar> \<le> MAX_ATOMS"
  by (auto simp: add_atoms_def rbind_Inr_iff atoms_in_i128)

lemma add_atoms_Inl [simp]: "add_atoms a b = Inl e \<longleftrightarrow> MAX_ATOMS < \<bar>a + b\<bar> \<and> e = overflow"
  using atoms_in_i128[of "a + b"]
  by (cases "\<bar>a + b\<bar> \<le> MAX_ATOMS") (auto simp: add_atoms_def checked_i128_def checked_atoms_def)

lemma euclid_gcd: "0 \<le> a \<Longrightarrow> 0 \<le> b \<Longrightarrow> euclid a b = gcd a b"
proof (induction a b rule: euclid.induct)
  case (1 a b)
  show ?case
  proof (cases "b = 0")
    case False
    with "1.prems" have b: "0 < b" by simp
    then have m: "tmod a b = a mod b" using "1.prems" by simp
    have "euclid b (tmod a b) = gcd b (tmod a b)"
      using "1.IH"[OF False] "1.prems" b by (simp add: m)
    then show ?thesis
      using False by (subst euclid.simps) (simp add: m gcd.commute[of b] gcd_red_int[symmetric])
  qed (use "1.prems" in \<open>simp add: euclid.simps\<close>)
qed

lemma tdiv_dvd:
  assumes "b dvd a" and "0 < b"
  shows "tdiv a b = a div b"
proof -
  obtain k where "a = b * k" using assms(1) by (rule dvdE)
  then show ?thesis using assms(2) by (simp add: tdiv_def abs_mult sgn_mult sgn_mult_abs)
qed

lemma ratio_new_Inr:
  "ratio_new n d = Inr r \<longleftrightarrow> 0 < d \<and> \<bar>n\<bar> < 2 ^ 512 \<and> d < 2 ^ 512
     \<and> r = \<lparr>numerator = n div gcd n d, denominator = d div gcd n d\<rparr>"
  by (auto simp: ratio_new_def rbind_Inr_iff euclid_gcd tdiv_dvd Let_def)

lemma div_gcd_le: "\<bar>n div gcd n d\<bar> \<le> \<bar>n :: int\<bar>"
proof -
  obtain k where k: "n = gcd n d * k" by (metis dvd_def gcd_dvd1)
  show ?thesis
  proof (cases "gcd n d = 0")
    case False
    then have g: "1 \<le> gcd n d" using gcd_ge_0_int[of n d] by linarith
    have "n div gcd n d = k" using k False by (metis nonzero_mult_div_cancel_left)
    moreover have "\<bar>n\<bar> = gcd n d * \<bar>k\<bar>" using k by (metis abs_gcd_int abs_mult)
    moreover have "1 * \<bar>k\<bar> \<le> gcd n d * \<bar>k\<bar>" using g by (intro mult_right_mono) auto
    ultimately show ?thesis by simp
  qed simp
qed

lemma ratio_new_ok:
  assumes "ratio_new n d = Inr r"
  shows "ratio_ok r" and "ratio_val r = of_int n / of_int d"
proof -
  have d: "0 < d" and b: "\<bar>n\<bar> < 2 ^ 512" "d < 2 ^ 512"
    and r: "r = \<lparr>numerator = n div gcd n d, denominator = d div gcd n d\<rparr>"
    using assms by (auto simp: ratio_new_Inr)
  let ?g = "gcd n d"
  have g: "0 < ?g" using d by (simp add: gcd_pos_int)
  have "0 < d div ?g" using d g by (simp add: pos_imp_zdiv_pos_iff zdvd_imp_le)
  moreover have "coprime (n div ?g) (d div ?g)" using d by (intro div_gcd_coprime) auto
  moreover have "\<bar>n div ?g\<bar> < 2 ^ 512" using div_gcd_le[of n d] b by linarith
  moreover have "d div ?g < 2 ^ 512"
    using div_gcd_le[of d n] b d unfolding gcd.commute[of d n] by linarith
  ultimately show "ratio_ok r" by (simp add: ratio_ok_def r)
  have n': "n = ?g * (n div ?g)" and d': "d = ?g * (d div ?g)" by simp_all
  have "(of_int n :: rat) / of_int d = (of_int ?g * of_int (n div ?g)) / (of_int ?g * of_int (d div ?g))"
    by (metis n' d' of_int_mult)
  also have "\<dots> = of_int (n div ?g) / of_int (d div ?g)" using g by simp
  finally show "ratio_val r = of_int n / of_int d" by (simp add: ratio_val_def r)
qed

lemma of_int_div_dvd: "g dvd a \<Longrightarrow> 0 < g \<Longrightarrow> (of_int (a div g) :: rat) = of_int a / of_int g"
  by (auto elim!: dvdE)

lemma ratio_mul_exact:
  assumes "ratio_mul x y = Inr z" and "0 < denominator x" and "0 < denominator y"
  shows "ratio_ok z" and "ratio_val z = ratio_val x * ratio_val y"
proof -
  define g1 g2 where g: "g1 = gcd (numerator x) (denominator y)" "g2 = gcd (numerator y) (denominator x)"
  have pos: "0 < g1" "0 < g2" using assms(2,3) by (simp_all add: g gcd_pos_int)
  have dvd: "g1 dvd numerator x" "g1 dvd denominator y" "g2 dvd numerator y" "g2 dvd denominator x"
    by (simp_all add: g)
  have z: "ratio_new (numerator x div g1 * (numerator y div g2))
      (denominator x div g2 * (denominator y div g1)) = Inr z"
    using assms(1) pos dvd by (simp add: ratio_mul_def Let_def g[symmetric] tdiv_dvd)
  from ratio_new_ok(1)[OF z] show "ratio_ok z" .
  from ratio_new_ok(2)[OF z] show "ratio_val z = ratio_val x * ratio_val y"
    using pos dvd assms(2,3) by (simp add: ratio_val_def of_int_div_dvd field_simps)
qed

lemma common_denominator:
  fixes p q g a c :: rat
  assumes "p \<noteq> 0" and "q \<noteq> 0" and "g \<noteq> 0"
  shows "(a * (q / g) + c * (p / g)) / (p / g * q) = a / p + c / q"
  using assms by (simp add: field_simps)

lemma ratio_add_exact:
  assumes "ratio_add x y = Inr z" and "0 < denominator x" and "0 < denominator y"
  shows "ratio_ok z" and "ratio_val z = ratio_val x + ratio_val y"
proof -
  define g where g: "g = gcd (denominator x) (denominator y)"
  have pos: "0 < g" using assms(2) by (simp add: g gcd_pos_int)
  have dvd: "g dvd denominator x" "g dvd denominator y" by (simp_all add: g)
  have z: "ratio_new (numerator x * (denominator y div g) + numerator y * (denominator x div g))
      (denominator x div g * denominator y) = Inr z"
    using assms(1) pos dvd by (auto simp: ratio_add_def Let_def g[symmetric] tdiv_dvd)
  from ratio_new_ok(1)[OF z] show "ratio_ok z" .
  from ratio_new_ok(2)[OF z] show "ratio_val z = ratio_val x + ratio_val y"
    using pos dvd assms(2,3)
      common_denominator[of "of_int (denominator x)" "of_int (denominator y)" "of_int g"]
    by (simp add: ratio_val_def of_int_div_dvd)
qed

lemma ratio_div_exact:
  assumes "ratio_div x y = Inr z" and "0 < denominator x" and "0 < denominator y"
  shows "ratio_ok z" and "ratio_val z = ratio_val x / ratio_val y" and "numerator y \<noteq> 0"
proof -
  show y: "numerator y \<noteq> 0" using assms(1) by (auto simp: ratio_div_def split: if_splits)
  let ?y = "\<lparr>numerator = (if numerator y < 0 then - denominator y else denominator y),
         denominator = \<bar>numerator y\<bar>\<rparr>"
  have m: "ratio_mul x ?y = Inr z" using assms(1) y by (simp add: ratio_div_def)
  have "ratio_val ?y = 1 / ratio_val y"
    using y assms(3) by (auto simp: ratio_val_def field_simps abs_if)
  with ratio_mul_exact[OF m assms(2)] y
  show "ratio_ok z" "ratio_val z = ratio_val x / ratio_val y" by simp_all
qed

lemma ratio_integer_simps [simp]:
  "numerator (ratio_integer n) = n" "denominator (ratio_integer n) = 1"
  "ratio_val (ratio_integer n) = of_int n"
  by (simp_all add: ratio_integer_def ratio_val_def)

lemma abs_tdiv_le:
  assumes "0 < g" and "g dvd a"
  shows "\<bar>tdiv a g\<bar> \<le> \<bar>a\<bar>"
proof -
  obtain k where k: "a = g * k" using assms(2) by (rule dvdE)
  have "1 * \<bar>k\<bar> \<le> g * \<bar>k\<bar>" using assms(1) by (intro mult_right_mono) auto
  with k assms show ?thesis by (simp add: tdiv_dvd abs_mult)
qed

text \<open>A product that fits in 512 bits is returned; nothing else can refuse it.\<close>

lemma ratio_mul_returns:
  assumes "0 < denominator x" and "0 < denominator y"
    and "\<bar>numerator x\<bar> * \<bar>numerator y\<bar> < 2 ^ 512" and "denominator x * denominator y < 2 ^ 512"
  obtains z where "ratio_mul x y = Inr z"
proof -
  define g1 g2 where g: "g1 = gcd (numerator x) (denominator y)" "g2 = gcd (numerator y) (denominator x)"
  have pos: "0 < g1" "0 < g2" using assms(1,2) by (simp_all add: g gcd_pos_int)
  have dvd: "g1 dvd numerator x" "g1 dvd denominator y" "g2 dvd numerator y" "g2 dvd denominator x"
    by (simp_all add: g)
  let ?n = "tdiv (numerator x) g1 * tdiv (numerator y) g2"
  let ?d = "tdiv (denominator x) g2 * tdiv (denominator y) g1"
  have "\<bar>?n\<bar> \<le> \<bar>numerator x\<bar> * \<bar>numerator y\<bar>"
    unfolding abs_mult using abs_tdiv_le pos dvd by (intro mult_mono) auto
  moreover have "\<bar>?d\<bar> \<le> \<bar>denominator x\<bar> * \<bar>denominator y\<bar>"
    unfolding abs_mult using abs_tdiv_le pos dvd by (intro mult_mono) auto
  moreover have "0 < ?d"
    using pos dvd assms(1,2) by (auto simp: tdiv_dvd zdvd_imp_le pos_imp_zdiv_pos_iff)
  ultimately have "\<exists>z. ratio_new ?n ?d = Inr z"
    using assms by (simp add: ratio_new_Inr)
  then show thesis using that by (auto simp: ratio_mul_def Let_def g)
qed

lemma reduced_val:
  assumes "0 < denominator r"
  shows "ratio_val (reduced r) = ratio_val r" and "0 < denominator (reduced r)"
    and "coprime (numerator (reduced r)) (denominator (reduced r))"
    and "\<bar>numerator (reduced r)\<bar> \<le> \<bar>numerator r\<bar>" and "denominator (reduced r) \<le> denominator r"
proof -
  let ?g = "gcd (numerator r) (denominator r)"
  have g: "0 < ?g" using assms by (simp add: gcd_pos_int)
  then have red: "reduced r = \<lparr>numerator = numerator r div ?g, denominator = denominator r div ?g\<rparr>"
    by (simp add: reduced_def tdiv_dvd Let_def)
  show "ratio_val (reduced r) = ratio_val r"
    using g assms by (simp add: red ratio_val_def of_int_div_dvd)
  show p: "0 < denominator (reduced r)"
    using assms g by (simp add: red pos_imp_zdiv_pos_iff zdvd_imp_le)
  show "coprime (numerator (reduced r)) (denominator (reduced r))"
    using assms unfolding red by (simp add: div_gcd_coprime)
  show "\<bar>numerator (reduced r)\<bar> \<le> \<bar>numerator r\<bar>" by (simp add: red div_gcd_le)
  show "denominator (reduced r) \<le> denominator r"
    using div_gcd_le[of "denominator r" "numerator r"] p assms
    by (simp add: red gcd.commute[of "denominator r"])
qed

section \<open>Rounding\<close>

definition round_half_away :: "rat \<Rightarrow> int" where
  "round_half_away x = (if x < 0 then - \<lfloor>- x + 1 / 2\<rfloor> else \<lfloor>x + 1 / 2\<rfloor>)"

lemma floor_half:
  fixes n d :: int
  assumes "0 < d" and "0 \<le> n"
  shows "\<lfloor>(of_int n / of_int d :: rat) + 1 / 2\<rfloor> =
    (if d - n mod d \<le> n mod d then n div d + 1 else n div d)"
proof -
  let ?q = "n div d" and ?m = "n mod d"
  have n: "(of_int n :: rat) = of_int ?q * of_int d + of_int ?m"
    by (metis div_mult_mod_eq of_int_add of_int_mult)
  define t :: rat where "t = of_int ?m / of_int d"
  have x: "(of_int n / of_int d :: rat) = of_int ?q + t"
    using assms by (simp add: n add_divide_distrib t_def)
  have m: "0 \<le> ?m" "?m < d" using assms by simp_all
  have dr: "(0::rat) < of_int d" using assms by simp
  have mr: "(0::rat) \<le> of_int ?m" "(of_int ?m :: rat) < of_int d"
    using m by (simp_all only: of_int_0_le_iff of_int_less_iff)
  show ?thesis
  proof (cases "d - ?m \<le> ?m")
    case True
    then have "(of_int d :: rat) \<le> of_int (2 * ?m)" by (simp only: of_int_le_iff)
    then have "1 / 2 \<le> t" using dr by (simp add: t_def field_simps)
    moreover have "t < 1" using mr dr by (simp add: t_def)
    ultimately show ?thesis using True by (intro floor_unique) (auto simp: x)
  next
    case False
    then have "(of_int (2 * ?m) :: rat) < of_int d" by (simp only: of_int_less_iff)
    then have "t < 1 / 2" using dr by (simp add: t_def field_simps)
    moreover have "0 \<le> t" using mr dr by (simp add: t_def)
    ultimately show ?thesis using False by (intro floor_unique) (auto simp: x)
  qed
qed

lemma round_atoms_spec:
  assumes "0 < denominator r"
  shows "round_atoms r =
    (if \<bar>round_half_away (ratio_val r)\<bar> \<le> MAX_ATOMS then Inr (round_half_away (ratio_val r))
     else Inl overflow)"
proof -
  let ?n = "\<bar>numerator r\<bar>" and ?d = "denominator r"
  define q where "q = (if ?d - ?n mod ?d \<le> ?n mod ?d then ?n div ?d + 1 else ?n div ?d)"
  have q: "\<lfloor>(of_int ?n / of_int ?d :: rat) + 1 / 2\<rfloor> = q"
    using floor_half[of ?d ?n] assms by (simp add: q_def)
  have q0: "0 \<le> ?n div ?d" using assms by (simp add: pos_imp_zdiv_nonneg_iff)
  then have qpos: "0 \<le> q" by (simp add: q_def)
  have r: "round_half_away (ratio_val r) = (if numerator r < 0 then - q else q)"
  proof (cases "numerator r < 0")
    case True
    then have "ratio_val r < 0" using assms by (simp add: ratio_val_def divide_less_0_iff)
    moreover have "- ratio_val r = of_int ?n / of_int ?d" using True by (simp add: ratio_val_def)
    ultimately show ?thesis using True q by (simp add: round_half_away_def)
  next
    case False
    then have "\<not> ratio_val r < 0" using assms by (simp add: ratio_val_def divide_less_0_iff)
    then show ?thesis using False q by (simp add: round_half_away_def ratio_val_def)
  qed
  have big: "MAX_ATOMS < 2 ^ 512" by (simp add: MAX_ATOMS_def)
  have "in_i128 m" if "\<bar>m\<bar> \<le> MAX_ATOMS" for m using that by (rule atoms_in_i128)
  then have fin: "rbind (ok_or (checked_i128 m) overflow) checked_atoms =
      (if \<bar>m\<bar> \<le> MAX_ATOMS then Inr m else Inl overflow)" for m
    by (cases "\<bar>m\<bar> \<le> MAX_ATOMS") (auto simp: checked_i128_def checked_atoms_def)
  have step: "(if ?d - ?n mod ?d \<le> ?n mod ?d
        then rbind (bounded (?n div ?d + 1)) (\<lambda>_. Inr (?n div ?d + 1)) else Inr (?n div ?d)) =
      (if ?d - ?n mod ?d \<le> ?n mod ?d \<and> 2 ^ 512 \<le> q then Inl overflow else Inr q)"
    using q0 by (auto simp: q_def bounded_def)
  have td: "tdiv ?n ?d = ?n div ?d" "tmod ?n ?d = ?n mod ?d" using assms by simp_all
  have "round_atoms r = rbind (if ?d - ?n mod ?d \<le> ?n mod ?d \<and> 2 ^ 512 \<le> q then Inl overflow else Inr q)
      (\<lambda>q. rbind (ok_or (checked_i128 (if numerator r < 0 then - q else q)) overflow) checked_atoms)"
    by (simp only: round_atoms_def Let_def td step)
  then show ?thesis using big qpos unfolding r fin by (simp split: if_split)
qed

end
