(* ===== verification/Money_Laws.thy ===== *)
theory Money_Laws
  imports Money
begin

text \<open>
  The decimal and wire laws of \<^verbatim>\<open>money/mod.rs\<close>: what a parsed decimal denotes, the round trips
  of atoms, decimals and money through their text, and the exact conversions to atoms.
\<close>

section \<open>Atoms as text\<close>

lemma digit_not_minus: "is_digit c \<Longrightarrow> c \<noteq> CHR ''-''"
  by (auto simp: is_digit_def byte_def)

lemma digit_not_dot: "is_digit c \<Longrightarrow> c \<noteq> CHR ''.''"
  by (auto simp: is_digit_def byte_def)

lemma nat_str_hd_digit: "is_digit (hd (nat_str n))"
  using nat_str_digits[of n] nat_str_nonempty[of n] by (cases "nat_str n") simp_all

lemma strip_minus_nat_str [simp]:
  "strip_minus (nat_str n) = nat_str n" "starts_minus (nat_str n) = False"
  using nat_str_hd_digit[of n] nat_str_nonempty[of n] digit_not_minus
  by (cases "nat_str n"; auto simp: strip_minus_def starts_minus_def)+

lemma nat_str_starts_zero: "starts_zero (nat_str n) \<Longrightarrow> nat_str n = ''0'' \<and> n = 0"
  using nat_str_no_zero[of n] by (cases "nat_str n") (auto simp: starts_zero_def)

lemma minus_Cons [simp]:
  "strip_minus (CHR ''-'' # s) = s" "starts_minus (CHR ''-'' # s) = True"
  by (simp_all add: strip_minus_def starts_minus_def)

lemma canonical_nat_str_ok:
  "nat_str n \<noteq> [] \<and> list_all is_digit (nat_str n)
   \<and> \<not> (length (nat_str n) > 1 \<and> starts_zero (nat_str n)) \<and> nat_str n \<noteq> ''-0''"
proof -
  have "nat_str n \<noteq> ''-0''" using nat_str_hd_digit[of n] digit_not_minus by fastforce
  then show ?thesis using nat_str_digits nat_str_starts_zero[of n] by auto
qed

lemma canonical_int_str: "canonical_integer (int_str n) = Inr ()"
proof (cases "n < 0")
  case True
  have "nat_str (nat (- n)) \<noteq> ''0''"
    using True nat_str_val[of "nat (- n)"] by (auto simp: digits_val_Cons digit_val_def byte_def)
  with True show ?thesis
    using canonical_nat_str_ok[of "nat (- n)"] by (auto simp: canonical_integer_def int_str_def Let_def)
next
  case False
  then show ?thesis
    using canonical_nat_str_ok[of "nat n"] by (auto simp: canonical_integer_def int_str_def Let_def)
qed

lemma int_val_int_str: "int_val (int_str n) = n"
  by (simp add: int_val_def int_str_def nat_str_val)

lemma canonical_unique:
  assumes "canonical_integer s = Inr ()"
  shows "int_str (int_val s) = s"
proof -
  let ?d = "strip_minus s"
  have d: "?d \<noteq> []" "list_all is_digit ?d" "length ?d > 1 \<Longrightarrow> \<not> starts_zero ?d" "s \<noteq> ''-0''"
    using assms by (auto simp: canonical_integer_def Let_def split: if_splits)
  have str: "nat_str (digits_val ?d) = ?d"
    using d by (intro nat_str_digits_val) (auto simp: starts_zero_def split: list.splits)
  show ?thesis
  proof (cases "starts_minus s")
    case True
    then have s: "s = CHR ''-'' # ?d"
      by (auto simp: starts_minus_def strip_minus_def split: list.splits)
    have "digits_val ?d \<noteq> 0"
    proof
      assume "digits_val ?d = 0"
      then have "?d = nat_str 0" using str by simp
      moreover have "nat_str 0 = ''0''" by code_simp
      ultimately have "s = ''-0''" using s by simp
      with d(4) show False by simp
    qed
    then show ?thesis using True s str by (simp add: int_val_def int_str_def)
  next
    case False
    then have "s = ?d" by (auto simp: starts_minus_def strip_minus_def split: list.splits)
    then show ?thesis using False str by (simp add: int_val_def int_str_def)
  qed
qed

lemma parse_atoms_Inr:
  "parse_atoms s = Inr n \<longleftrightarrow> s = int_str n \<and> \<bar>n\<bar> \<le> MAX_ATOMS"
proof
  assume "parse_atoms s = Inr n"
  then show "s = int_str n \<and> \<bar>n\<bar> \<le> MAX_ATOMS"
    using canonical_unique[of s] by (auto simp: parse_atoms_def rbind_Inr_iff)
next
  assume "s = int_str n \<and> \<bar>n\<bar> \<le> MAX_ATOMS"
  then show "parse_atoms s = Inr n"
    using atoms_in_i128[of n]
    by (simp add: parse_atoms_def canonical_int_str int_val_int_str rbind_Inr_iff)
qed

section \<open>Decimals\<close>

text \<open>What every constructed \<open>Decimal\<close> satisfies: the bounds, and no trailing zero fraction digit.\<close>

definition decimal_ok :: "decimal \<Rightarrow> bool" where
  "decimal_ok d \<longleftrightarrow> coefficient d < 10 ^ 30 \<and> dscale d \<le> 18
     \<and> (0 < dscale d \<longrightarrow> coefficient d mod 10 \<noteq> 0)"

definition decimal_val :: "decimal \<Rightarrow> rat" where
  "decimal_val d = of_nat (coefficient d) / 10 ^ dscale d"

text \<open>The number a decimal text denotes.\<close>

definition text_val :: "string \<Rightarrow> rat" where
  "text_val s = (case split_dot s of (w, f) \<Rightarrow> of_nat (digits_val (w @ f)) / 10 ^ length f)"

lemma takeWhile_zeros: "takeWhile (\<lambda>c. c = x) s = replicate (length (takeWhile (\<lambda>c. c = x) s)) x"
  by (induction s) auto

lemma trim_start0_split: "\<exists>k. s = replicate k (CHR ''0'') @ trim_start0 s"
  using takeWhile_dropWhile_id[of "\<lambda>c. c = CHR ''0''" s] takeWhile_zeros[of "CHR ''0''" s]
  unfolding trim_start0_def by metis

lemma trim_end0_split: "\<exists>k. s = trim_end0 s @ replicate k (CHR ''0'')"
proof -
  obtain k where "rev s = replicate k (CHR ''0'') @ trim_start0 (rev s)"
    using trim_start0_split by blast
  then have "s = rev (trim_start0 (rev s)) @ rev (replicate k (CHR ''0''))"
    by (metis rev_append rev_rev_ident)
  then show ?thesis unfolding trim_end0_def trim_start0_def by (metis rev_replicate)
qed

lemma trim_start0_val: "digits_val (trim_start0 s) = digits_val s"
  using trim_start0_split[of s] digits_val_append[of _ "trim_start0 s"]
  by (metis add_0 digits_val_zeros mult_zero_left)

lemma trim_start0_hd: "trim_start0 s \<noteq> [] \<Longrightarrow> hd (trim_start0 s) \<noteq> CHR ''0''"
  unfolding trim_start0_def by (rule hd_dropWhile)

lemma trim_start0_id: "s = [] \<or> hd s \<noteq> CHR ''0'' \<Longrightarrow> trim_start0 s = s"
  by (cases s) (auto simp: trim_start0_def)

lemma trim_start0_zeros: "trim_start0 (replicate k (CHR ''0'') @ s) = trim_start0 s"
  by (induction k) (auto simp: trim_start0_def)

lemma trim_end0_last: "trim_end0 s \<noteq> [] \<Longrightarrow> last (trim_end0 s) \<noteq> CHR ''0''"
  unfolding trim_end0_def
  using hd_dropWhile[of "\<lambda>c. c = CHR ''0''" "rev s"] by (simp add: last_rev)

lemma trim_end0_id: "s = [] \<or> last s \<noteq> CHR ''0'' \<Longrightarrow> trim_end0 s = s"
  by (cases s rule: rev_cases) (auto simp: trim_end0_def)

lemma trim_digits:
  "list_all is_digit s \<Longrightarrow> list_all is_digit (trim_end0 s)"
  "list_all is_digit s \<Longrightarrow> list_all is_digit (trim_start0 s)"
  using trim_end0_split[of s] trim_start0_split[of s]
  by (metis list_all_append)+

lemma length_trim_end0: "length (trim_end0 s) \<le> length s"
  using trim_end0_split[of s] by (metis le_add1 length_append)

lemma digits_val_mod10:
  assumes "list_all is_digit (s @ [c])" and "c \<noteq> CHR ''0''"
  shows "digits_val (s @ [c]) mod 10 \<noteq> 0"
proof -
  have "digit_val c < 10" using assms(1) by (simp add: digit_val_less)
  moreover have "digit_val c \<noteq> 0" using digits_val_ge[of c "[]"] assms by (simp add: digits_val_Cons)
  moreover have "digits_val (s @ [c]) mod 10 = digit_val c mod 10"
    by (simp add: digits_val_append digits_val_Cons mod_simps)
  ultimately show ?thesis by simp
qed

text \<open>The parts \<open>parse\<close> computes from an accepted text.\<close>

lemma decimal_parse_parts:
  assumes "decimal_parse s = Inr d"
  obtains w f where "split_dot s = (w, f)" "list_all is_digit w" "list_all is_digit f"
    "length f \<le> 18" "length (trim_start0 (w @ trim_end0 f)) \<le> 30"
    "coefficient d = digits_val (w @ trim_end0 f)"
    "dscale d = (if trim_start0 (w @ trim_end0 f) = [] then 0 else length (trim_end0 f))"
proof -
  obtain w f where wf: "split_dot s = (w, f)" by (cases "split_dot s")
  have ok: "list_all is_digit w" "list_all is_digit f" "length f \<le> 18"
    "length (trim_start0 (w @ trim_end0 f)) \<le> 30"
    using assms wf by (auto simp: decimal_parse_def Let_def split: if_splits)
  have "coefficient d = digits_val (trim_start0 (w @ trim_end0 f))"
    "dscale d = (if trim_start0 (w @ trim_end0 f) = [] then 0 else length (trim_end0 f))"
    using assms wf by (auto simp: decimal_parse_def Let_def split: if_splits)
  then show thesis using that[OF wf ok] by (simp add: trim_start0_val)
qed

lemma decimal_parse_ok:
  assumes "decimal_parse s = Inr d"
  shows "decimal_ok d"
proof -
  from assms obtain w f where p: "list_all is_digit w" "list_all is_digit f" "length f \<le> 18"
    "length (trim_start0 (w @ trim_end0 f)) \<le> 30" "coefficient d = digits_val (w @ trim_end0 f)"
    "dscale d = (if trim_start0 (w @ trim_end0 f) = [] then 0 else length (trim_end0 f))"
    by (rule decimal_parse_parts)
  let ?t = "trim_start0 (w @ trim_end0 f)"
  have dig: "list_all is_digit (w @ trim_end0 f)" using p trim_digits by simp
  have "digits_val ?t < 10 ^ length ?t" using digits_val_bound trim_digits(2)[OF dig] by blast
  also have "\<dots> \<le> 10 ^ 30" using p(4) by (intro power_increasing) simp_all
  finally have "coefficient d < 10 ^ 30" using p(5) by (simp add: trim_start0_val)
  moreover have "dscale d \<le> 18" using p(3,6) length_trim_end0[of f] by auto
  moreover have "coefficient d mod 10 \<noteq> 0" if "0 < dscale d"
  proof -
    have ne: "trim_end0 f \<noteq> []" using that p(6) by (auto split: if_splits)
    then obtain g c where gc: "trim_end0 f = g @ [c]" by (cases "trim_end0 f" rule: rev_cases) auto
    then have "c \<noteq> CHR ''0''" using trim_end0_last[OF ne] by simp
    then show ?thesis using digits_val_mod10[of "w @ g" c] dig p(5) gc by simp
  qed
  ultimately show ?thesis by (simp add: decimal_ok_def)
qed

lemma decimal_parse_val:
  assumes "decimal_parse s = Inr d"
  shows "decimal_val d = text_val s"
proof -
  from assms obtain w f where p: "split_dot s = (w, f)" "list_all is_digit w" "list_all is_digit f"
    "coefficient d = digits_val (w @ trim_end0 f)"
    "dscale d = (if trim_start0 (w @ trim_end0 f) = [] then 0 else length (trim_end0 f))"
    by (rule decimal_parse_parts)
  obtain k where k: "f = trim_end0 f @ replicate k (CHR ''0'')" using trim_end0_split by blast
  have "digits_val (w @ f) = digits_val ((w @ trim_end0 f) @ replicate k (CHR ''0''))"
    using k by (metis append.assoc)
  then have v: "digits_val (w @ f) = digits_val (w @ trim_end0 f) * 10 ^ k"
    by (simp only: digits_val_append[of "w @ trim_end0 f"]) simp
  have l: "length f = length (trim_end0 f) + k" using k by (metis length_append length_replicate)
  have "text_val s = of_nat (digits_val (w @ trim_end0 f)) / 10 ^ length (trim_end0 f)"
    by (simp add: text_val_def p(1) v l power_add)
  moreover have "digits_val (w @ trim_end0 f) = 0" if "trim_start0 (w @ trim_end0 f) = []"
    using that trim_start0_val[of "w @ trim_end0 f"] by simp
  ultimately show ?thesis using p(4,5) by (auto simp: decimal_val_def)
qed

section \<open>Display and parse\<close>

lemma split_dot_join:
  assumes "list_all is_digit w"
  shows "split_dot (w @ CHR ''.'' # f) = (w, f)"
proof -
  have w: "\<forall>c \<in> set w. c \<noteq> CHR ''.''" using assms digit_not_dot by (auto simp: list_all_iff)
  then have "takeWhile (\<lambda>c. c \<noteq> CHR ''.'') (w @ CHR ''.'' # f) = w" by (subst takeWhile_append2) auto
  moreover have "dropWhile (\<lambda>c. c \<noteq> CHR ''.'') (w @ CHR ''.'' # f) = CHR ''.'' # f"
    using w by (subst dropWhile_append2) auto
  ultimately show ?thesis by (simp add: split_dot_def)
qed

lemma split_dot_digits: "list_all is_digit s \<Longrightarrow> split_dot s = (s, [])"
  using digit_not_dot by (auto simp: split_dot_def list_all_iff)

lemma nat_str_last: "n mod 10 \<noteq> 0 \<Longrightarrow> last (nat_str n) \<noteq> CHR ''0''"
proof -
  assume n: "n mod 10 \<noteq> 0"
  have "last (nat_str n) = digit_char (n mod 10)" by (subst nat_str.simps) simp
  moreover have "digit_val (digit_char (n mod 10)) = n mod 10" by (simp add: digit_char_props)
  moreover have "digit_val (CHR ''0'') = 0" by (simp add: digit_val_def byte_def)
  ultimately show ?thesis using n by metis
qed

lemma nat_str_trim: "n \<noteq> 0 \<Longrightarrow> trim_start0 (replicate k (CHR ''0'') @ nat_str n) = nat_str n"
  using nat_str_no_zero[of n] nat_str_nonempty[of n]
  by (cases "nat_str n") (auto simp: trim_start0_zeros intro: trim_start0_id)

lemma nat_str_zero: "nat_str 0 = ''0''"
  by code_simp

text \<open>The padded digits \<open>Display\<close> splits, and what \<open>parse\<close> makes of them.\<close>

lemma decimal_roundtrip:
  assumes "decimal_ok d"
  shows "decimal_parse (decimal_display d) = Inr d"
proof -
  let ?c = "coefficient d" and ?k = "dscale d"
  have b: "?c < 10 ^ 30" "?k \<le> 18" using assms by (simp_all add: decimal_ok_def)
  then have len: "length (nat_str ?c) \<le> 30" by (intro nat_str_length) simp_all
  have u: "?c \<le> u128_max" using b(1) by (simp add: u128_max_def)
  show ?thesis
  proof (cases "?k = 0")
    case True
    have disp: "decimal_display d = nat_str ?c" using True by (simp add: decimal_display_def Let_def)
    have sp: "split_dot (nat_str ?c) = (nat_str ?c, [])" by (simp add: split_dot_digits nat_str_digits)
    have nd: "CHR ''.'' \<notin> set (nat_str ?c)"
      using nat_str_digits[of ?c] digit_not_dot by (auto simp: list_all_iff)
    have t: "trim_end0 [] = []" by (simp add: trim_end0_def)
    show ?thesis
    proof (cases "?c = 0")
      case True
      then have "trim_start0 (nat_str ?c) = []" by (simp add: nat_str_zero trim_start0_def)
      then show ?thesis
        using len sp nd t True \<open>?k = 0\<close> by (simp add: disp decimal_parse_def nat_str_digits Let_def)
    next
      case False
      then have "trim_start0 (nat_str ?c) = nat_str ?c" using nat_str_trim[of ?c 0] by simp
      then show ?thesis
        using len sp nd t u \<open>?k = 0\<close>
        by (simp add: disp decimal_parse_def nat_str_digits nat_str_val Let_def checked_u128_def)
    qed
  next
    case False
    then have c0: "?c mod 10 \<noteq> 0" "?c \<noteq> 0" using assms by (auto simp: decimal_ok_def intro: ccontr)
    define p where "p = (if length (nat_str ?c) \<le> ?k then ?k + 1 - length (nat_str ?c) else 0)"
    define s where "s = replicate p (CHR ''0'') @ nat_str ?c"
    define w f where wf: "w = take (length s - ?k) s" "f = drop (length s - ?k) s"
    have disp: "decimal_display d = w @ CHR ''.'' # f"
      using False by (auto simp: decimal_display_def Let_def wf s_def p_def)
    have ls: "?k < length s" "length s \<le> 30" using len b(2) by (auto simp: s_def p_def)
    have ws: "w @ f = s" by (simp add: wf)
    have dig: "list_all is_digit s"
      using nat_str_digits[of ?c] by (auto simp: s_def list_all_iff is_digit_def byte_def)
    then have dw: "list_all is_digit w" "list_all is_digit f" using ws by (metis list_all_append)+
    have lw: "w \<noteq> []" "length f = ?k" using ls by (auto simp: wf)
    have "last s \<noteq> CHR ''0''" using nat_str_last[OF c0(1)] by (simp add: s_def)
    then have "last f \<noteq> CHR ''0''" using ws lw False by (metis last_appendR length_0_conv)
    then have tf: "trim_end0 f = f" by (intro trim_end0_id) simp
    have ts: "trim_start0 (w @ f) = nat_str ?c" unfolding ws s_def using c0(2) by (rule nat_str_trim)
    have f0: "f \<noteq> []" using lw False by auto
    have "length w + length f = length s" using ws by (metis length_append)
    then have l: "length (w @ CHR ''.'' # f) \<le> 64" using ls by simp
    show ?thesis
      using l lw f0 dw b len u False unfolding disp decimal_parse_def split_dot_join[OF dw(1)] Let_def
      by (simp add: tf ts nat_str_val checked_u128_def)
  qed
qed

section \<open>Exact conversion to atoms\<close>

lemma decimal_ratio_facts:
  shows "ratio_val (decimal_ratio d) = decimal_val d" and "0 < denominator (decimal_ratio d)"
    and "0 \<le> numerator (decimal_ratio d)" and "numerator (decimal_ratio d) \<le> int (coefficient d)"
    and "denominator (decimal_ratio d) \<le> 10 ^ dscale d"
proof -
  let ?r = "\<lparr>numerator = int (coefficient d), denominator = 10 ^ dscale d\<rparr>"
  have p: "0 < denominator ?r" by simp
  have "0 \<le> numerator (reduced ?r)" by (simp add: reduced_def Let_def tdiv_dvd gcd_pos_int pos_imp_zdiv_nonneg_iff)
  then show "0 \<le> numerator (decimal_ratio d)" by (simp add: decimal_ratio_def)
  then show "numerator (decimal_ratio d) \<le> int (coefficient d)"
    using reduced_val(4)[OF p] by (simp add: decimal_ratio_def)
  show "ratio_val (decimal_ratio d) = decimal_val d"
    using reduced_val(1)[OF p] by (simp add: decimal_ratio_def ratio_val_def decimal_val_def)
  show "0 < denominator (decimal_ratio d)" "denominator (decimal_ratio d) \<le> 10 ^ dscale d"
    using reduced_val(2,5)[OF p] by (simp_all add: decimal_ratio_def)
qed

lemma atoms_ratio_returns:
  assumes "decimal_ok d" and "scale \<le> 18"
  obtains r where "atoms_ratio d scale = Inr r" "ratio_ok r"
    "ratio_val r = decimal_val d * 10 ^ scale"
proof -
  let ?x = "decimal_ratio d" and ?y = "ratio_integer (10 ^ scale)"
  note f = decimal_ratio_facts[of d]
  have ok: "coefficient d < 10 ^ 30" "dscale d \<le> 18" using assms(1) by (simp_all add: decimal_ok_def)
  then have "numerator ?x < 10 ^ 30" using f(4) by simp
  moreover have "(10 :: int) ^ scale \<le> 10 ^ 18" using assms(2) by (intro power_increasing) auto
  ultimately have "\<bar>numerator ?x\<bar> * \<bar>numerator ?y\<bar> \<le> 10 ^ 30 * 10 ^ 18"
    using f(3) by (intro mult_mono) auto
  then have n: "\<bar>numerator ?x\<bar> * \<bar>numerator ?y\<bar> < 2 ^ 512" by simp
  have "(10 :: int) ^ dscale d \<le> 10 ^ 18" using ok(2) by (intro power_increasing) auto
  then have d: "denominator ?x * denominator ?y < 2 ^ 512" using f(5) by simp
  have py: "0 < denominator ?y" by simp
  from ratio_mul_returns[OF f(2) py n d] obtain r where r: "ratio_mul ?x ?y = Inr r" by blast
  then have "atoms_ratio d scale = Inr r" using assms(2) by (simp add: atoms_ratio_def)
  then show thesis using that[of r] ratio_mul_exact[OF r f(2) py] f(1) by simp
qed

lemma ratio_integral:
  assumes "ratio_ok r" and "ratio_val r = of_int n"
  shows "r = ratio_integer n"
proof -
  have d: "0 < denominator r" "coprime (numerator r) (denominator r)"
    using assms(1) by (simp_all add: ratio_ok_def)
  then have "(of_int (numerator r) :: rat) = of_int (n * denominator r)"
    using assms(2) by (simp add: ratio_val_def field_simps)
  then have n: "numerator r = n * denominator r" by (simp only: of_int_eq_iff)
  then have "denominator r dvd numerator r" by simp
  then have "is_unit (denominator r)" using d(2) by (meson coprime_common_divisor dvd_refl)
  then have "denominator r = 1" using d(1) by simp
  with n show ?thesis by (simp add: ratio_integer_def)
qed

lemma round_integer: "round_half_away (of_int n) = n"
  by (simp add: round_half_away_def floor_eq_iff)

lemma round_atoms_integer: "round_atoms (ratio_integer n) = checked_atoms n"
proof -
  have "0 < denominator (ratio_integer n)" by simp
  then show ?thesis
    by (simp only: round_atoms_spec ratio_integer_simps round_integer) (auto simp: checked_atoms_def)
qed

lemma decimal_val_scaled:
  assumes "dscale d \<le> scale"
  shows "decimal_val d * 10 ^ scale = of_int (int (coefficient d) * 10 ^ (scale - dscale d))"
proof -
  have "(10 :: rat) ^ scale = 10 ^ (scale - dscale d) * 10 ^ dscale d"
    using assms by (simp add: power_add[symmetric])
  then show ?thesis by (simp add: decimal_val_def)
qed

lemma decimal_val_fraction:
  assumes "decimal_ok d" and "scale < dscale d"
  shows "decimal_val d * 10 ^ scale \<noteq> of_int n"
proof
  assume eq: "decimal_val d * 10 ^ scale = of_int n"
  define k where "k = dscale d - scale"
  then have k: "dscale d = scale + k" "0 < k" using assms(2) by simp_all
  have "of_nat (coefficient d) = (of_int n :: rat) * 10 ^ k"
    using eq by (simp add: decimal_val_def k(1) power_add field_simps)
  then have "(of_int (int (coefficient d)) :: rat) = of_int (n * 10 ^ k)" by simp
  then have c: "int (coefficient d) = n * 10 ^ k" by (simp only: of_int_eq_iff)
  have "(10::int) dvd 10 ^ k" using k(2) by (simp add: dvd_power)
  then have "10 dvd int (coefficient d)" unfolding c by simp
  then have "10 dvd coefficient d" by presburger
  then show False using assms by (auto simp: decimal_ok_def mod_eq_0_iff_dvd)
qed

definition not_representable :: error where
  "not_representable = Error ''INPUT_PRECISION'' ''fixed amount not representable at book scale''"

lemma atoms_exact_eq:
  assumes d: "decimal_ok d" and s: "scale \<le> 18"
  shows "atoms_exact d scale =
    (if dscale d \<le> scale then checked_atoms (int (coefficient d) * 10 ^ (scale - dscale d))
     else Inl not_representable)"
proof -
  obtain r where r: "atoms_ratio d scale = Inr r" "ratio_ok r"
      "ratio_val r = decimal_val d * 10 ^ scale"
    using atoms_ratio_returns[OF d s] .
  show ?thesis
  proof (cases "dscale d \<le> scale")
    case True
    let ?n = "int (coefficient d) * 10 ^ (scale - dscale d)"
    have "r = ratio_integer ?n"
      using r decimal_val_scaled[OF True] by (intro ratio_integral) simp_all
    then show ?thesis using True r by (simp add: atoms_exact_def round_atoms_integer)
  next
    case False
    have "denominator r \<noteq> 1"
    proof
      assume "denominator r = 1"
      then have "decimal_val d * 10 ^ scale = of_int (numerator r)"
        using r(3) by (simp add: ratio_val_def)
      then show False using decimal_val_fraction[OF d] False by simp
    qed
    with False r show ?thesis by (simp add: atoms_exact_def not_representable_def)
  qed
qed

text \<open>A percentage is a fraction of at most one.\<close>

lemma percent_Inr:
  assumes "percent d = Inr r"
  shows "ratio_ok r" and "ratio_val r = decimal_val d / 100" and "0 \<le> ratio_val r"
    and "ratio_val r \<le> 1"
proof -
  let ?x = "decimal_ratio d"
  note f = decimal_ratio_facts[of d]
  have le: "numerator ?x \<le> denominator ?x * 100" and dv: "ratio_div ?x (ratio_integer 100) = Inr r"
    using assms by (auto simp: percent_def Let_def split: if_splits)
  have p: "0 < denominator (ratio_integer 100)" by simp
  note e = ratio_div_exact[OF dv f(2) p]
  show "ratio_ok r" by (rule e(1))
  show v: "ratio_val r = decimal_val d / 100" using e(2) f(1) by simp
  show "0 \<le> ratio_val r" unfolding v by (simp add: decimal_val_def)
  have "(of_int (numerator ?x) :: rat) \<le> of_int (denominator ?x * 100)" using le by (simp only: of_int_le_iff)
  then have "ratio_val ?x \<le> 100" using f(2) by (simp add: ratio_val_def field_simps)
  then show "ratio_val r \<le> 1" using v f(1) by simp
qed

lemma percent_refuses:
  "100 < decimal_val d \<Longrightarrow> percent d = Inl (Error ''POLICY_PERCENT_RANGE'' ''percent exceeds 100'')"
proof -
  assume a: "100 < decimal_val d"
  note f = decimal_ratio_facts[of d]
  have "(of_int (denominator (decimal_ratio d) * 100) :: rat) < of_int (numerator (decimal_ratio d))"
    using a f(2) unfolding f(1)[symmetric] by (simp add: ratio_val_def field_simps)
  then have "denominator (decimal_ratio d) * 100 < numerator (decimal_ratio d)" by (simp only: of_int_less_iff)
  then show ?thesis by (simp add: percent_def Let_def)
qed

lemma percent_returns:
  assumes "decimal_ok d" and "decimal_val d \<le> 100"
  obtains r where "percent d = Inr r"
proof -
  let ?x = "decimal_ratio d" and ?y = "\<lparr>numerator = 1, denominator = 100\<rparr> :: ratio"
  note f = decimal_ratio_facts[of d]
  have "(of_int (numerator ?x) :: rat) \<le> of_int (denominator ?x * 100)"
    using assms(2) f(2) unfolding f(1)[symmetric] by (simp add: ratio_val_def field_simps)
  then have le: "numerator ?x \<le> denominator ?x * 100" by (simp only: of_int_le_iff)
  have ok: "coefficient d < 10 ^ 30" "dscale d \<le> 18" using assms(1) by (simp_all add: decimal_ok_def)
  have n: "\<bar>numerator ?x\<bar> * \<bar>numerator ?y\<bar> < 2 ^ 512" using ok f(3,4) by simp
  have "(10 :: int) ^ dscale d \<le> 10 ^ 18" using ok(2) by (intro power_increasing) auto
  then have dn: "denominator ?x * denominator ?y < 2 ^ 512" using f(5) by simp
  have py: "0 < denominator ?y" by simp
  from ratio_mul_returns[OF f(2) py n dn] obtain r where "ratio_mul ?x ?y = Inr r" by blast
  then have "percent d = Inr r"
    using le by (simp add: percent_def Let_def ratio_div_def)
  then show thesis by (rule that)
qed

section \<open>Money\<close>

definition money_ok :: "money \<Rightarrow> bool" where
  "money_ok m \<longleftrightarrow> length (currency m) = 3 \<and> list_all is_upper (currency m) \<and> mscale m \<le> 18
     \<and> \<bar>atoms m\<bar> \<le> MAX_ATOMS"

lemma validate_currency_Inr [simp]:
  "validate_currency c k = Inr u \<longleftrightarrow> length c = 3 \<and> list_all is_upper c \<and> k \<le> 18"
  by (auto simp: validate_currency_def)

lemma money_new_Inr [simp]:
  "money_new c k n = Inr m \<longleftrightarrow> m = \<lparr>currency = c, mscale = k, atoms = n\<rparr> \<and> money_ok m"
  by (auto simp: money_new_def rbind_Inr_iff money_ok_def)

lemma money_checked_add_Inr:
  assumes "money_ok x"
  shows "money_checked_add x y = Inr z \<longleftrightarrow>
    currency x = currency y \<and> mscale x = mscale y \<and> \<bar>atoms x + atoms y\<bar> \<le> MAX_ATOMS
    \<and> z = x\<lparr>atoms := atoms x + atoms y\<rparr>"
  using assms by (cases x) (auto simp: money_checked_add_def rbind_Inr_iff money_ok_def)

lemma money_wire:
  "money_deserialize w = Inr m \<longleftrightarrow> money_ok m \<and> w = money_serialize m"
  by (cases w; cases m) (auto simp: money_deserialize_def money_serialize_def rbind_Inr_iff
      parse_atoms_Inr money_ok_def)

section \<open>Properties\<close>

text \<open>
  Atoms are read exactly from their canonical numerals: the text of every integer within
  \<open>10^30 - 1\<close> is accepted with that value, and nothing else is (no leading zeros, no plus
  sign, no \<open>-0\<close>, nothing out of range).
\<close>

theorem parse_atoms_canonical:
  "parse_atoms s = Inr n \<longleftrightarrow> s = int_str n \<and> \<bar>n\<bar> \<le> MAX_ATOMS"
  by (rule parse_atoms_Inr)

text \<open>
  C22: a text accepted by \<open>Decimal::parse\<close> denotes the decimal's value exactly, and the decimal
  is in normal form: at most 30 significant digits, at most 18 fractional ones, the last of
  them not zero.
\<close>

theorem decimal_parse_exact:
  assumes "decimal_parse s = Inr d"
  shows "decimal_ok d \<and> decimal_val d = text_val s"
  using assms by (simp add: decimal_parse_ok decimal_parse_val)

theorem decimal_parse_exact_witness:
  "decimal_ok \<lparr>coefficient = 125, dscale = 1\<rparr>
   \<and> decimal_val \<lparr>coefficient = 125, dscale = 1\<rparr> = text_val ''012.500''"
  using decimal_parse_exact[of "''012.500''" "\<lparr>coefficient = 125, dscale = 1\<rparr>"]
  by (simp add: decimal_parse_def split_dot_def Let_def is_digit_def byte_def trim_end0_def
      trim_start0_def digits_val_def digits_step_def digit_val_def checked_u128_def u128_max_def)

text \<open>
  C23: \<open>Display\<close> and \<open>parse\<close> are inverse on decimals: the printed text of a normal decimal is
  read back as the same coefficient and scale.
\<close>

theorem decimal_display_parse:
  assumes "decimal_ok d"
  shows "decimal_parse (decimal_display d) = Inr d"
  using assms by (rule decimal_roundtrip)

theorem decimal_display_parse_witness:
  "decimal_parse (decimal_display \<lparr>coefficient = 7, dscale = 3\<rparr>) = Inr \<lparr>coefficient = 7, dscale = 3\<rparr>"
  by (rule decimal_display_parse) (simp add: decimal_ok_def)

text \<open>
  C20: the ratio arithmetic is exact. Whenever \<open>mul\<close>, \<open>div\<close> or \<open>add\<close> returns, the result is
  the rational product, quotient or sum, in lowest terms with a positive denominator and both
  parts below \<open>2^512\<close>; nothing is ever rounded or wrapped.
\<close>

theorem ratio_arithmetic_exact:
  assumes "ratio_ok x" and "ratio_ok y"
  shows "(\<forall>z. ratio_mul x y = Inr z \<longrightarrow> ratio_ok z \<and> ratio_val z = ratio_val x * ratio_val y)
    \<and> (\<forall>z. ratio_div x y = Inr z \<longrightarrow>
         ratio_ok z \<and> ratio_val y \<noteq> 0 \<and> ratio_val z = ratio_val x / ratio_val y)
    \<and> (\<forall>z. ratio_add x y = Inr z \<longrightarrow> ratio_ok z \<and> ratio_val z = ratio_val x + ratio_val y)"
proof -
  have d: "0 < denominator x" "0 < denominator y" using assms by (simp_all add: ratio_ok_def)
  show ?thesis
    using d ratio_mul_exact[of x y] ratio_div_exact[of x y] ratio_add_exact[of x y]
    by (auto simp: ratio_val_def)
qed

theorem ratio_arithmetic_exact_witness:
  "ratio_add \<lparr>numerator = 1, denominator = 6\<rparr> \<lparr>numerator = 1, denominator = 3\<rparr> =
     Inr \<lparr>numerator = 1, denominator = 2\<rparr>
   \<and> ratio_ok \<lparr>numerator = 1, denominator = 2\<rparr>
   \<and> ratio_val \<lparr>numerator = 1, denominator = 2\<rparr> =
       ratio_val \<lparr>numerator = 1, denominator = 6\<rparr> + ratio_val \<lparr>numerator = 1, denominator = 3\<rparr>"
proof -
  let ?x = "\<lparr>numerator = 1, denominator = 6\<rparr> :: ratio"
  let ?y = "\<lparr>numerator = 1, denominator = 3\<rparr> :: ratio"
  have "ratio_add ?x ?y = Inr \<lparr>numerator = 1, denominator = 2\<rparr>" by code_simp
  then show ?thesis
    using ratio_arithmetic_exact[of ?x ?y] by (simp add: ratio_ok_def)
qed

text \<open>
  C21: \<open>round_atoms\<close> rounds to the nearest integer with ties away from zero, on both signs, and
  refuses exactly the results beyond \<open>10^30 - 1\<close> atoms.
\<close>

theorem round_atoms_nearest:
  assumes "ratio_ok r"
  shows "round_atoms r =
    (if \<bar>round_half_away (ratio_val r)\<bar> \<le> MAX_ATOMS then Inr (round_half_away (ratio_val r))
     else Inl overflow)"
  using assms by (intro round_atoms_spec) (simp add: ratio_ok_def)

theorem round_atoms_nearest_witness:
  "round_atoms \<lparr>numerator = - 5, denominator = 2\<rparr> = Inr (- 3)"
proof -
  have "ratio_ok \<lparr>numerator = - 5, denominator = 2\<rparr>" by code_simp
  then have "round_atoms \<lparr>numerator = - 5, denominator = 2\<rparr> =
    (if \<bar>round_half_away (ratio_val \<lparr>numerator = - 5, denominator = 2\<rparr>)\<bar> \<le> MAX_ATOMS
     then Inr (round_half_away (ratio_val \<lparr>numerator = - 5, denominator = 2\<rparr>)) else Inl overflow)"
    by (rule round_atoms_nearest)
  then show ?thesis by (simp add: round_half_away_def ratio_val_def MAX_ATOMS_def)
qed

text \<open>
  The function \<open>atoms_exact\<close> converts a decimal to atoms of a book scale without rounding: it returns
  the scaled coefficient when the decimal has no more fractional digits than the scale, refuses
  a decimal with more, and refuses more than \<open>10^30 - 1\<close> atoms. No other outcome exists.
\<close>

theorem atoms_exact_conversion:
  assumes "decimal_ok d" and "scale \<le> 18"
  shows "atoms_exact d scale =
    (if dscale d \<le> scale then checked_atoms (int (coefficient d) * 10 ^ (scale - dscale d))
     else Inl not_representable)"
  using assms by (rule atoms_exact_eq)

theorem atoms_exact_conversion_witness:
  "atoms_exact \<lparr>coefficient = 125, dscale = 1\<rparr> 2 = Inr 1250"
  using atoms_exact_conversion[of "\<lparr>coefficient = 125, dscale = 1\<rparr>" 2]
  by (simp add: decimal_ok_def MAX_ATOMS_def)

text \<open>
  A percentage policy parameter becomes the exact fraction \<open>d / 100\<close>, between 0 and 1; a
  decimal above 100 is refused with \<open>POLICY_PERCENT_RANGE\<close>, and one up to 100 never is.
\<close>

theorem percent_fraction:
  assumes "decimal_ok d"
  shows "(decimal_val d \<le> 100 \<and>
           (\<exists>r. percent d = Inr r \<and> ratio_ok r \<and> ratio_val r = decimal_val d / 100
              \<and> 0 \<le> ratio_val r \<and> ratio_val r \<le> 1))
       \<or> (100 < decimal_val d \<and>
           percent d = Inl (Error ''POLICY_PERCENT_RANGE'' ''percent exceeds 100''))"
proof (cases "decimal_val d \<le> 100")
  case True
  with assms obtain r where "percent d = Inr r" by (rule percent_returns)
  with True percent_Inr[of d r] show ?thesis by blast
qed (simp add: percent_refuses)

theorem percent_fraction_witness:
  "\<exists>r. percent \<lparr>coefficient = 125, dscale = 1\<rparr> = Inr r \<and> ratio_val r = 125 / 1000"
  using percent_fraction[of "\<lparr>coefficient = 125, dscale = 1\<rparr>"]
  by (auto simp: decimal_ok_def decimal_val_def)

text \<open>
  Money survives its wire form and adds exactly: a wire value is accepted iff it is the
  serialization of a valid amount (ISO-shaped currency, scale up to 18, atoms in range), and
  \<open>checked_add\<close> returns iff both amounts are in the same currency and scale and the sum is in
  range; it is then the exact sum, itself valid.
\<close>

theorem money_wire_and_add:
  "(money_deserialize w = Inr m \<longleftrightarrow> money_ok m \<and> w = money_serialize m)
   \<and> (money_ok x \<and> money_checked_add x y = Inr z \<longleftrightarrow>
        money_ok x \<and> currency x = currency y \<and> mscale x = mscale y \<and> money_ok z
        \<and> z = x\<lparr>atoms := atoms x + atoms y\<rparr>)"
proof (rule conjI)
  show "money_ok x \<and> money_checked_add x y = Inr z \<longleftrightarrow>
        money_ok x \<and> currency x = currency y \<and> mscale x = mscale y \<and> money_ok z
        \<and> z = x\<lparr>atoms := atoms x + atoms y\<rparr>"
    by (cases "money_ok x") (auto simp: money_checked_add_Inr money_ok_def)
qed (rule money_wire)

end
