(* ===== verification/Work.thy ===== *)
theory Work
  imports Prelude
begin

text \<open>
  The work callbacks of \<^verbatim>\<open>validation_work.rs\<close>. A validator that takes
  \<open>&mut dyn ValidationWork\<close> is a function of the callback table and the meter's state; it
  returns its result and the meter's new state, on the error path too. The theory defines the
  monad of such functions, the erasure relation between a metered function and its plain
  counterpart, and the helpers of the file: comparison, checked calendar arithmetic, powers of
  ten, decimal text and the fallible insertion sort.
\<close>

section \<open>The callback interface\<close>

datatype visit_kind =
    VValue | VField | VElement | VConstraint | VScalarDigit | VMemberCompare
  | VRefLookup | VEdge | VSortMove

datatype arith_op =
    OpAdd | OpSubtract | OpMultiply | OpDivideRemainder | OpCompare | OpNegate
  | OpAbsolute | OpBitOr | OpBitAnd | OpPopulationCount | OpLeadingZeros

type_synonym ('w, 'a) metered = "'w \<Rightarrow> 'a result \<times> 'w"

text \<open>The trait object: one function per method of \<open>ValidationWork\<close>.\<close>

record 'w validation_work =
  visit :: "visit_kind \<Rightarrow> ('w, unit) metered"
  arithmetic :: "arith_op \<Rightarrow> int list \<Rightarrow> ('w, unit) metered"
  scan_bytes :: "nat \<Rightarrow> ('w, unit) metered"
  write_bytes :: "nat \<Rightarrow> ('w, unit) metered"
  hash_bytes :: "nat \<Rightarrow> ('w, unit) metered"

definition noop_work :: "unit validation_work" where
  "noop_work =
     \<lparr>visit = \<lambda>_ w. (Inr (), w),
      arithmetic = \<lambda>_ _ w. (Inr (), w),
      scan_bytes = \<lambda>_ w. (Inr (), w),
      write_bytes = \<lambda>_ w. (Inr (), w),
      hash_bytes = \<lambda>_ w. (Inr (), w)\<rparr>"

definition mbind :: "('w, 'a) metered \<Rightarrow> ('a \<Rightarrow> ('w, 'b) metered) \<Rightarrow> ('w, 'b) metered" where
  "mbind m f = (\<lambda>w. case m w of (Inl e, w') \<Rightarrow> (Inl e, w') | (Inr x, w') \<Rightarrow> f x w')"

text \<open>\<open>mthen m f\<close> is \<open>m?; f\<close> for a callback \<open>m\<close>.\<close>

definition mthen :: "('w, unit) metered \<Rightarrow> ('w, 'b) metered \<Rightarrow> ('w, 'b) metered" where
  "mthen m f = mbind m (\<lambda>_. f)"

definition mlift :: "'a result \<Rightarrow> ('w, 'a) metered" where
  "mlift r = (\<lambda>w. (r, w))"

definition mok :: "'a \<Rightarrow> ('w, 'a) metered" where "mok x = mlift (Inr x)"
definition merr :: "error \<Rightarrow> ('w, 'a) metered" where "merr e = mlift (Inl e)"

lemma mbind_cong [fundef_cong]:
  assumes "m = m'" and "\<And>x w. fst (m' w) = Inr x \<Longrightarrow> f x = f' x"
  shows "mbind m f = mbind m' f'"
proof
  fix w
  show "mbind m f w = mbind m' f' w"
    using assms(2)[of w] unfolding assms(1)
    by (cases "m' w") (auto simp: mbind_def split: sum.splits)
qed

lemma metered_simps [simp]:
  "mbind (mlift (Inr x)) f = f x" "mbind (mlift (Inl e)) f = merr e"
  "mbind (mok x) f = f x" "mbind (merr e) f = merr e" "mthen (mok ()) m = m"
  by (simp_all add: mbind_def mlift_def mok_def merr_def mthen_def)

lemma mthen_cong [fundef_cong]:
  assumes "m = m'" and "\<And>w. fst (m' w) = Inr () \<Longrightarrow> f = f'"
  shows "mthen m f = mthen m' f'"
  unfolding mthen_def using assms by (intro mbind_cong) auto

section \<open>Erasure\<close>

text \<open>
  The errors a callback table can raise. A metered function \<^emph>\<open>erases to\<close> a plain result when
  from every meter state it returns that very result, unless a callback refused first. With
  \<open>noop_work\<close> nothing is refused, so the two agree outright (\<open>erases_noop\<close>).
\<close>

definition refusals :: "'w validation_work \<Rightarrow> error set" where
  "refusals ops =
     {e. (\<exists>k w. fst (visit ops k w) = Inl e) \<or> (\<exists>k xs w. fst (arithmetic ops k xs w) = Inl e)
       \<or> (\<exists>n w. fst (scan_bytes ops n w) = Inl e) \<or> (\<exists>n w. fst (write_bytes ops n w) = Inl e)
       \<or> (\<exists>n w. fst (hash_bytes ops n w) = Inl e)}"

definition erases_in :: "error set \<Rightarrow> ('w, 'a) metered \<Rightarrow> 'a result \<Rightarrow> bool" where
  "erases_in E m r \<longleftrightarrow> (\<forall>w. fst (m w) = r \<or> (\<exists>e \<in> E. fst (m w) = Inl e))"

abbreviation erases :: "'w validation_work \<Rightarrow> ('w, 'a) metered \<Rightarrow> 'a result \<Rightarrow> bool" where
  "erases ops \<equiv> erases_in (refusals ops)"

lemma erases_mono: "erases_in E m r \<Longrightarrow> E \<subseteq> E' \<Longrightarrow> erases_in E' m r"
  by (fastforce simp: erases_in_def)

named_theorems erasure

lemma refusals_noop: "refusals noop_work = {}"
  by (auto simp: refusals_def noop_work_def)

lemma erases_noop: "erases noop_work m r \<Longrightarrow> m () = (r, ())"
  by (cases "m ()") (auto simp: erases_in_def refusals_noop)

lemma erases_Inr: "erases_in E m r \<Longrightarrow> fst (m w) = Inr x \<Longrightarrow> r = Inr x"
  by (fastforce simp: erases_in_def)

lemma erases_callback:
  assumes "\<And>e w. fst (m w) = Inl e \<Longrightarrow> e \<in> refusals ops"
  shows "erases ops m (Inr ())"
  unfolding erases_in_def
proof
  fix w
  show "fst (m w) = Inr () \<or> (\<exists>e\<in>refusals ops. fst (m w) = Inl e)"
    using assms[of w] by (cases "fst (m w)") auto
qed

lemma erases_visit [erasure]: "erases ops (visit ops k) (Inr ())"
  by (rule erases_callback) (auto simp: refusals_def)

lemma erases_arithmetic [erasure]: "erases ops (arithmetic ops k xs) (Inr ())"
  by (rule erases_callback) (auto simp: refusals_def)

lemma erases_scan [erasure]: "erases ops (scan_bytes ops n) (Inr ())"
  by (rule erases_callback) (auto simp: refusals_def)

lemma erases_write [erasure]: "erases ops (write_bytes ops n) (Inr ())"
  by (rule erases_callback) (auto simp: refusals_def)

lemma erases_lift [erasure]: "erases_in E (mlift r) r"
  by (simp add: erases_in_def mlift_def)

lemma erases_ok [erasure]: "erases_in E (mok x) (Inr x)"
  by (simp add: mok_def erases_lift)

lemma erases_err [erasure]: "erases_in E (merr e) (Inl e)"
  by (simp add: merr_def erases_lift)

lemma erases_bind [erasure]:
  assumes m: "erases_in E m r" and f: "\<And>x. r = Inr x \<Longrightarrow> erases_in E (f x) (g x)"
  shows "erases_in E (mbind m f) (rbind r g)"
  unfolding erases_in_def
proof
  fix w
  show "fst (mbind m f w) = rbind r g \<or> (\<exists>e\<in>E. fst (mbind m f w) = Inl e)"
  proof (cases "fst (m w)")
    case (Inl e)
    then show ?thesis
      using m[unfolded erases_in_def, rule_format, of w]
      by (auto simp: mbind_def split: prod.splits)
  next
    case (Inr x)
    then have "r = Inr x" using erases_Inr[OF m] by blast
    with Inr f[of x] show ?thesis
      by (cases "m w") (auto simp: mbind_def erases_in_def)
  qed
qed

lemma erases_then [erasure]:
  assumes "erases_in E m (Inr ())" and "erases_in E f r"
  shows "erases_in E (mthen m f) r"
  using erases_bind[OF assms(1), of "\<lambda>_. f" "\<lambda>_. r"] assms(2) by (simp add: mthen_def)

lemma erases_if [erasure]:
  assumes "b \<Longrightarrow> erases_in E m r" and "\<not> b \<Longrightarrow> erases_in E m' r'"
  shows "erases_in E (if b then m else m') (if b then r else r')"
  using assms by simp

text \<open>For a step whose plain result is known to succeed.\<close>

lemma erases_bind_ok:
  assumes "erases_in E m (Inr x)" and "erases_in E (f x) r"
  shows "erases_in E (mbind m f) r"
  using erases_bind[OF assms(1), of f "\<lambda>_. r"] assms(2) by simp

text \<open>Two callback loops: over the bytes of a string and a bounded repetition.\<close>

fun mall :: "('a \<Rightarrow> ('w, bool) metered) \<Rightarrow> 'a list \<Rightarrow> ('w, bool) metered" where
  "mall p [] = mok True"
| "mall p (x # xs) = mbind (p x) (\<lambda>b. if b then mall p xs else mok False)"

lemma erases_mall:
  assumes "\<And>x. erases_in E (p x) (Inr (q x))"
  shows "erases_in E (mall p xs) (Inr (list_all q xs))"
proof (induction xs)
  case Nil
  show ?case by (simp add: erases_ok)
next
  case (Cons x xs)
  show ?case
    using erases_bind[OF assms[of x], of "\<lambda>b. if b then mall p xs else mok False"
        "\<lambda>b. if b then Inr (list_all q xs) else Inr False"] Cons
    by (cases "q x") (simp_all add: erases_ok)
qed

fun mfold :: "('a \<Rightarrow> 's \<Rightarrow> ('w, 's) metered) \<Rightarrow> 'a list \<Rightarrow> 's \<Rightarrow> ('w, 's) metered" where
  "mfold f [] s = mok s"
| "mfold f (x # xs) s = mbind (f x s) (mfold f xs)"

lemma mfold_cong [fundef_cong]:
  assumes "xs = ys" and "s = t" and "\<And>x u. x \<in> set ys \<Longrightarrow> f x u = g x u"
  shows "mfold f xs s = mfold g ys t"
  unfolding assms(1,2) using assms(3) by (induction ys arbitrary: t) (auto intro: mbind_cong)

lemma erases_mfold:
  assumes "\<And>x s. x \<in> set xs \<Longrightarrow> erases_in E (f x s) (g x s)"
  shows "erases_in E (mfold f xs s) (rfold g xs s)"
  using assms
proof (induction xs arbitrary: s)
  case Nil
  then show ?case by (simp add: erases_ok)
next
  case (Cons x xs)
  then show ?case by (auto intro!: erases_bind)
qed

section \<open>Results of metered functions\<close>

text \<open>\<open>yields m P\<close>: whenever \<open>m\<close> returns a value, the value satisfies \<open>P\<close>.\<close>

definition yields :: "('w, 'a) metered \<Rightarrow> ('a \<Rightarrow> bool) \<Rightarrow> bool" where
  "yields m P \<longleftrightarrow> (\<forall>w x. fst (m w) = Inr x \<longrightarrow> P x)"

named_theorems yield

lemma yields_D: "yields m P \<Longrightarrow> fst (m w) = Inr x \<Longrightarrow> P x"
  by (auto simp: yields_def)

lemma yields_True [yield]: "yields m (\<lambda>_. True)"
  by (simp add: yields_def)

lemma yields_weaken: "yields m P \<Longrightarrow> (\<And>x. P x \<Longrightarrow> Q x) \<Longrightarrow> yields m Q"
  by (auto simp: yields_def)

lemma yields_lift: "(\<And>x. r = Inr x \<Longrightarrow> P x) \<Longrightarrow> yields (mlift r) P"
  by (auto simp: yields_def mlift_def)

lemma yields_ok: "P x \<Longrightarrow> yields (mok x) P"
  by (auto simp: yields_def mok_def mlift_def)

lemma yields_err: "yields (merr e) P"
  by (auto simp: yields_def merr_def mlift_def)

lemma yields_bind:
  assumes "yields m P" and "\<And>x. P x \<Longrightarrow> yields (f x) Q"
  shows "yields (mbind m f) Q"
  unfolding yields_def
proof (intro allI impI)
  fix w y assume "fst (mbind m f w) = Inr y"
  then obtain x w' where "m w = (Inr x, w')" "fst (f x w') = Inr y"
    by (cases "m w") (auto simp: mbind_def split: sum.splits)
  with assms show "Q y" unfolding yields_def by (metis fst_conv)
qed

lemma yields_then: "yields f Q \<Longrightarrow> yields (mthen m f) Q"
  unfolding mthen_def by (rule yields_bind[OF yields_True])

lemma yields_if: "(b \<Longrightarrow> yields m P) \<Longrightarrow> (\<not> b \<Longrightarrow> yields m' P) \<Longrightarrow> yields (if b then m else m') P"
  by simp

lemma erases_yields: "erases_in E m (Inr x) \<Longrightarrow> yields m (\<lambda>y. y = x)"
  unfolding yields_def using erases_Inr by fastforce

section \<open>Budgets\<close>

text \<open>
  What a client may rely on of a meter: a measure of the work charged, which no callback
  decreases, and a bound that every reachable state respects. Whatever a metered function does,
  it leaves the meter within its bound. The contract is discharged for the crate's meter in the
  theory of that meter.
\<close>

definition keeps :: "('w \<Rightarrow> bool) \<Rightarrow> ('w \<Rightarrow> nat) \<Rightarrow> ('w, 'a) metered \<Rightarrow> bool" where
  "keeps P \<mu> m \<longleftrightarrow> (\<forall>w. P w \<longrightarrow> P (snd (m w)) \<and> \<mu> w \<le> \<mu> (snd (m w)))"

lemma keeps_lift: "keeps P \<mu> (mlift r)"
  by (simp add: keeps_def mlift_def)

lemma keeps_bind:
  assumes m: "keeps P \<mu> m" and f: "\<And>x. keeps P \<mu> (f x)"
  shows "keeps P \<mu> (mbind m f)"
  unfolding keeps_def
proof (intro allI impI)
  fix w assume P: "P w"
  obtain r w' where mw: "m w = (r, w')" by (cases "m w")
  have 1: "P w'" "\<mu> w \<le> \<mu> w'" using m P mw unfolding keeps_def by (metis snd_conv)+
  show "P (snd (mbind m f w)) \<and> \<mu> w \<le> \<mu> (snd (mbind m f w))"
  proof (cases r)
    case (Inl e)
    with mw 1 show ?thesis by (simp add: mbind_def)
  next
    case (Inr x)
    with mw have "mbind m f w = f x w'" by (simp add: mbind_def)
    moreover have "P (snd (f x w')) \<and> \<mu> w' \<le> \<mu> (snd (f x w'))"
      using f[of x] 1 unfolding keeps_def by blast
    ultimately show ?thesis using 1 by (metis le_trans)
  qed
qed

locale budget =
  fixes ops :: "'w validation_work" and ok :: "'w \<Rightarrow> bool" and spent :: "'w \<Rightarrow> nat"
  assumes keeps_visit: "keeps ok spent (visit ops k)"
    and keeps_arithmetic: "keeps ok spent (arithmetic ops op xs)"
    and keeps_scan: "keeps ok spent (scan_bytes ops n)"
    and keeps_write: "keeps ok spent (write_bytes ops n)"
    and keeps_hash: "keeps ok spent (hash_bytes ops n)"
begin

lemma keeps_ok: "keeps ok spent (mok x)" and keeps_err: "keeps ok spent (merr e)"
  by (simp_all add: mok_def merr_def keeps_lift)

lemma keeps_mthen:
  assumes "keeps ok spent m" and "keeps ok spent f"
  shows "keeps ok spent (mthen m f)"
  using assms by (simp add: mthen_def keeps_bind)

lemma keeps_mall: "(\<And>x. keeps ok spent (p x)) \<Longrightarrow> keeps ok spent (mall p xs)"
  by (induction xs) (auto intro!: keeps_bind simp: keeps_ok)

lemma keeps_mfold: "(\<And>x s. keeps ok spent (f x s)) \<Longrightarrow> keeps ok spent (mfold f xs s)"
  by (induction xs arbitrary: s) (auto intro!: keeps_bind simp: keeps_ok)

lemmas keeps_callbacks = keeps_visit keeps_arithmetic keeps_scan keeps_write keeps_hash

end

interpretation noop: budget noop_work "\<lambda>_. True" "\<lambda>_. 0"
  by unfold_locales (auto simp: keeps_def noop_work_def)

section \<open>Helpers of the file\<close>

definition compare :: "'w validation_work \<Rightarrow> int \<Rightarrow> int \<Rightarrow> ('w, ordering) metered" where
  "compare ops left right =
     mthen (arithmetic ops OpCompare [left, right]) (mok (cmp_of left right))"

definition i64_operation ::
    "'w validation_work \<Rightarrow> arith_op \<Rightarrow> int \<Rightarrow> int \<Rightarrow> ('w, int) metered" where
  "i64_operation ops kind left right =
     mthen (arithmetic ops kind [left, right])
       (mlift (case kind of
           OpAdd \<Rightarrow> trap_i64 (left + right)
         | OpSubtract \<Rightarrow> trap_i64 (left - right)
         | OpMultiply \<Rightarrow> trap_i64 (left * right)
         | OpDivideRemainder \<Rightarrow> if right = 0 then Inl Panic else trap_i64 (tdiv left right)
         | _ \<Rightarrow> Inl Panic))"

definition i64_remainder :: "'w validation_work \<Rightarrow> int \<Rightarrow> int \<Rightarrow> ('w, int) metered" where
  "i64_remainder ops left right =
     mthen (arithmetic ops OpDivideRemainder [left, right])
       (mlift (if right = 0 \<or> left = i64_min \<and> right = -1 then Inl Panic
               else Inr (tmod left right)))"

definition usize_add :: "'w validation_work \<Rightarrow> nat \<Rightarrow> nat \<Rightarrow> ('w, nat) metered" where
  "usize_add ops left right =
     mthen (arithmetic ops OpAdd [int left, int right]) (mlift (trap_u64 (left + right)))"

definition usize_sub :: "'w validation_work \<Rightarrow> nat \<Rightarrow> nat \<Rightarrow> ('w, nat) metered" where
  "usize_sub ops left right =
     mthen (arithmetic ops OpSubtract [int left, int right]) (mlift (trap_sub_u64 left right))"

definition power_ten :: "'w validation_work \<Rightarrow> nat \<Rightarrow> ('w, int) metered" where
  "power_ten ops scale =
     mfold (\<lambda>_ value. mthen (arithmetic ops OpMultiply [value, 10]) (mok (value * 10)))
       [0..<scale] 1"

text \<open>
  The digit loop of \<open>unsigned_string\<close>; \<open>digits\<close> is the vector so far, least significant digit
  first. The loop runs until the comparison (\<open>compare\<close>, unfolded) finds the quotient zero.
\<close>

fun unsigned_digits :: "'w validation_work \<Rightarrow> nat \<Rightarrow> string \<Rightarrow> ('w, string) metered" where
  "unsigned_digits ops value digits =
     mthen (arithmetic ops OpDivideRemainder [int value, 10])
    (mthen (arithmetic ops OpAdd [int (value mod 10), 48])
    (mthen (write_bytes ops 1)
    (mthen (arithmetic ops OpDivideRemainder [int value, 10])
    (mthen (arithmetic ops OpCompare [int (value div 10), 0])
      (if value div 10 = 0 then mok (digits @ [digit_char (value mod 10)])
       else unsigned_digits ops (value div 10) (digits @ [digit_char (value mod 10)]))))))"

declare unsigned_digits.simps [simp del]

definition unsigned_string :: "'w validation_work \<Rightarrow> nat \<Rightarrow> ('w, string) metered" where
  "unsigned_string ops value =
     mbind (unsigned_digits ops value []) (\<lambda>digits.
       mthen (write_bytes ops (length digits)) (mok (rev digits)))"

lemma erases_compare [erasure]: "erases ops (compare ops a b) (Inr (cmp_of a b))"
  unfolding compare_def by (intro erasure)

lemma power_ten_loop:
  "rfold (\<lambda>_ (v::int). Inr (v * 10)) xs v = Inr (v * 10 ^ length xs)"
  by (induction xs arbitrary: v) (simp_all add: algebra_simps)

lemma erases_power_ten [erasure]: "erases ops (power_ten ops scale) (Inr (10 ^ scale))"
proof -
  have "erases ops (power_ten ops scale) (rfold (\<lambda>_ v. Inr (v * 10)) [0..<scale] 1)"
    unfolding power_ten_def by (intro erases_mfold erasure)
  then show ?thesis by (simp add: power_ten_loop)
qed

lemma erases_unsigned_digits:
  "erases ops (unsigned_digits ops n digits) (Inr (digits @ rev (nat_str n)))"
proof (induction n arbitrary: digits rule: nat_str.induct)
  case (1 n)
  show ?case
  proof (cases "n div 10 = 0")
    case True
    then have n: "n < 10" by simp
    have "nat_str n = [digit_char (n mod 10)]" using n by (simp add: nat_str.simps[of n])
    then show ?thesis
      using True by (subst unsigned_digits.simps)
        (auto intro!: erasure)
  next
    case False
    then have n: "\<not> n < 10" by simp
    have "digits @ rev (nat_str n) =
        (digits @ [digit_char (n mod 10)]) @ rev (nat_str (n div 10))"
      using n by (simp add: nat_str.simps[of n])
    then show ?thesis
      using False "1.IH"[OF n, of "digits @ [digit_char (n mod 10)]"]
      by (subst unsigned_digits.simps)
        (auto intro!: erasure)
  qed
qed

lemma erases_unsigned_string [erasure]:
  "erases ops (unsigned_string ops value) (Inr (nat_str value))"
  unfolding unsigned_string_def
  by (rule erases_bind_ok[OF erases_unsigned_digits]) (auto intro!: erasure)

section \<open>The fallible insertion sort\<close>

text \<open>
  \<open>try_sort_by\<close> sorts a slice in place and stops at the first refused comparison or move. The
  slice is returned with the result, on the error path too. \<open>sort_inner\<close> is the \<open>while j > 0\<close>
  loop, \<open>sort_outer\<close> the loop over \<open>i\<close>.
\<close>

fun sort_inner :: "'w validation_work \<Rightarrow> ('a \<Rightarrow> 'a \<Rightarrow> ('w, ordering) metered) \<Rightarrow> nat \<Rightarrow>
    'a list \<Rightarrow> 'w \<Rightarrow> unit result \<times> 'a list \<times> 'w" where
  "sort_inner ops cmp 0 xs w = (Inr (), xs, w)"
| "sort_inner ops cmp (Suc j) xs w =
     (case cmp (xs ! j) (xs ! Suc j) w of
        (Inl e, w') \<Rightarrow> (Inl e, xs, w')
      | (Inr c, w') \<Rightarrow>
          if c \<noteq> OrdGreater then (Inr (), xs, w')
          else (case visit ops VSortMove w' of
                  (Inl e, w'') \<Rightarrow> (Inl e, xs, w'')
                | (Inr _, w'') \<Rightarrow>
                    sort_inner ops cmp j (xs[j := xs ! Suc j, Suc j := xs ! j]) w''))"

fun sort_outer :: "'w validation_work \<Rightarrow> ('a \<Rightarrow> 'a \<Rightarrow> ('w, ordering) metered) \<Rightarrow> nat list \<Rightarrow>
    'a list \<Rightarrow> 'w \<Rightarrow> unit result \<times> 'a list \<times> 'w" where
  "sort_outer ops cmp [] xs w = (Inr (), xs, w)"
| "sort_outer ops cmp (i # is) xs w =
     (case sort_inner ops cmp i xs w of
        (Inl e, r) \<Rightarrow> (Inl e, r)
      | (Inr _, xs', w') \<Rightarrow> sort_outer ops cmp is xs' w')"

definition try_sort_by :: "'w validation_work \<Rightarrow> ('a \<Rightarrow> 'a \<Rightarrow> ('w, ordering) metered) \<Rightarrow>
    'a list \<Rightarrow> 'w \<Rightarrow> unit result \<times> 'a list \<times> 'w" where
  "try_sort_by ops cmp xs w = sort_outer ops cmp [1..<length xs] xs w"

lemma sort_inner_mset:
  "sort_inner ops cmp j xs w = (r, ys, w') \<Longrightarrow> j < length xs \<or> j = 0 \<Longrightarrow>
   mset ys = mset xs \<and> length ys = length xs"
proof (induction j arbitrary: xs w)
  case (Suc j)
  let ?zs = "xs[j := xs ! Suc j, Suc j := xs ! j]"
  have swap: "mset ?zs = mset xs"
    using Suc.prems(2) by (intro mset_swap) auto
  have IH: "sort_inner ops cmp j ?zs v = (r, ys, w') \<Longrightarrow>
      mset ys = mset ?zs \<and> length ys = length ?zs" for v
    using Suc.IH Suc.prems(2) by fastforce
  show ?case
    using Suc.prems(1) IH swap
    by (auto split: prod.splits sum.splits if_splits)
qed simp

lemma sort_outer_mset:
  assumes "sort_outer ops cmp is xs w = (r, ys, w')" and "\<forall>i \<in> set is. i < length xs"
  shows "mset ys = mset xs"
  using assms
proof (induction "is" arbitrary: xs w)
  case (Cons i "is")
  obtain r1 zs w1 where 1: "sort_inner ops cmp i xs w = (r1, zs, w1)"
    by (cases "sort_inner ops cmp i xs w") auto
  have "mset zs = mset xs" "length zs = length xs"
    using sort_inner_mset[OF 1] Cons.prems(2) by auto
  then show ?case
    using Cons.prems 1 Cons.IH[of zs w1] by (cases r1) auto
qed simp

text \<open>One inner loop inserts the element after the last element that is not greater.\<close>

definition insert_after :: "('a \<Rightarrow> 'k::linorder) \<Rightarrow> 'a \<Rightarrow> 'a list \<Rightarrow> 'a list" where
  "insert_after f x us = filter (\<lambda>u. f u \<le> f x) us @ [x] @ filter (\<lambda>u. f x < f u) us"

lemma sort_inner_inserts:
  assumes cmp: "\<And>x y. x \<in> S \<Longrightarrow> y \<in> S \<Longrightarrow> erases ops (cmp x y) (Inr (cmp_of (f x) (f y)))"
    and S: "set us \<subseteq> S" "x \<in> S"
    and run: "sort_inner ops cmp (length us) (us @ [x] @ vs) w = (Inr (), ys, w')"
    and srt: "sorted (map f us)"
  shows "ys = insert_after f x us @ vs"
  using run srt S(1)
proof (induction us arbitrary: vs w rule: rev_induct)
  case Nil
  then show ?case by (simp add: insert_after_def)
next
  case (snoc u us)
  let ?xs = "(us @ [u]) @ [x] @ vs"
  have nth: "?xs ! length us = u" "?xs ! Suc (length us) = x" by (simp_all add: nth_append)
  have swap: "?xs[length us := x, Suc (length us) := u] = us @ [x] @ u # vs"
    by (simp add: list_update_append)
  obtain r1 w1 where c: "cmp u x w = (r1, w1)" by (cases "cmp u x w")
  from snoc.prems(1) c nth obtain o1 where r1: "r1 = Inr o1" by (cases r1) auto
  have o1: "o1 = cmp_of (f u) (f x)" using erases_Inr[OF cmp, of u x w o1] c r1 snoc.prems(3) S(2) by simp
  have le: "\<forall>v \<in> set us. f v \<le> f u" and s: "sorted (map f us)"
    using snoc.prems(2) by (auto simp: sorted_append)
  show ?case
  proof (cases "f x < f u")
    case False
    then have "ys = ?xs" using snoc.prems(1) c nth r1 o1 by simp
    moreover have "filter (\<lambda>v. f v \<le> f x) us = us" "filter (\<lambda>v. f x < f v) us = []"
      using le False by (force simp: filter_id_conv filter_empty_conv)+
    ultimately show ?thesis using False by (simp add: insert_after_def)
  next
    case True
    obtain r2 w2 where v: "visit ops VSortMove w1 = (r2, w2)" by (cases "visit ops VSortMove w1")
    with snoc.prems(1) c nth r1 o1 True obtain
      "sort_inner ops cmp (length us) (us @ [x] @ u # vs) w2 = (Inr (), ys, w')"
      using swap by (cases r2) auto
    then have "ys = insert_after f x us @ u # vs" using snoc.IH s snoc.prems(3) by simp
    with True show ?thesis by (simp add: insert_after_def)
  qed
qed

lemma sort_key_snoc: "sort_key f (xs @ [x]) = insert_after f x (sort_key f xs)"
proof (rule properties_for_sort_key)
  let ?ss = "sort_key f xs"
  show "mset (insert_after f x ?ss) = mset (xs @ [x])"
  proof -
    have "mset (filter (\<lambda>u. f u \<le> f x) ?ss) + mset (filter (\<lambda>u. \<not> f u \<le> f x) ?ss) = mset ?ss"
      by (simp add: mset_filter multiset_partition[symmetric])
    then show ?thesis by (simp add: insert_after_def not_le)
  qed
  show "filter (\<lambda>y. f k = f y) (insert_after f x ?ss) = filter (\<lambda>y. f k = f y) (xs @ [x])" for k
  proof -
    have split: "filter (\<lambda>y. f k = f y) (filter (\<lambda>u. f u \<le> f x) ?ss) =
        (if f k \<le> f x then filter (\<lambda>y. f k = f y) ?ss else [])"
      "filter (\<lambda>y. f k = f y) (filter (\<lambda>u. f x < f u) ?ss) =
        (if f x < f k then filter (\<lambda>y. f k = f y) ?ss else [])"
      by (auto simp: filter_empty_conv intro: filter_cong)
    have "filter (\<lambda>y. f k = f y) ?ss = filter (\<lambda>y. f k = f y) xs"
      using sort_key_stable[of f "f k" xs] by (simp add: eq_commute[of "f k"])
    with split show ?thesis by (auto simp: insert_after_def)
  qed
  have "sorted (map f ?ss)" by simp
  then have "sorted (map f (filter P ?ss))" for P by (rule sorted_filter)
  then show "sorted (map f (insert_after f x ?ss))"
    by (fastforce simp: insert_after_def sorted_append)
qed

lemma sort_outer_sorts:
  assumes cmp: "\<And>x y. x \<in> S \<Longrightarrow> y \<in> S \<Longrightarrow> erases ops (cmp x y) (Inr (cmp_of (f x) (f y)))"
    and S: "set us \<subseteq> S" "set vs \<subseteq> S"
    and "sort_outer ops cmp [length us..<length us + length vs] (sort_key f us @ vs) w =
      (Inr (), ys, w')"
  shows "ys = sort_key f (us @ vs)"
  using assms(4) S
proof (induction vs arbitrary: us w)
  case (Cons v vs)
  let ?run = "sort_inner ops cmp (length us) (sort_key f us @ [v] @ vs) w"
  obtain r1 zs w1 where 1: "?run = (r1, zs, w1)" by (cases ?run) auto
  have upt: "[length us..<length us + length (v # vs)] =
      length us # [length (us @ [v])..<length (us @ [v]) + length vs]"
    by (subst upt_rec) simp
  from Cons.prems 1 upt have r1: "r1 = Inr ()" by (cases r1) auto
  have "zs = insert_after f v (sort_key f us) @ vs"
    by (rule sort_inner_inserts[where S=S, OF cmp]) (use 1 r1 Cons.prems in auto)
  then have "zs = sort_key f (us @ [v]) @ vs" by (simp only: sort_key_snoc)
  with Cons.prems 1 upt r1 Cons.IH[of "us @ [v]" w1] show ?case by simp
qed simp

text \<open>The sort refuses only where a comparison or a move was refused.\<close>

lemma sort_inner_refusal:
  assumes cmp: "\<And>x y. x \<in> S \<Longrightarrow> y \<in> S \<Longrightarrow> erases ops (cmp x y) (Inr (g x y))"
  shows "sort_inner ops cmp j xs w = (Inl e, r) \<Longrightarrow> set xs \<subseteq> S \<Longrightarrow> j < length xs \<or> j = 0 \<Longrightarrow>
    e \<in> refusals ops"
proof (induction j arbitrary: xs w)
  case (Suc j)
  let ?zs = "xs[j := xs ! Suc j, Suc j := xs ! j]"
  have j: "xs ! j \<in> S" "xs ! Suc j \<in> S" "Suc j < length xs"
    using Suc.prems(2,3) by (auto simp: subset_iff)
  have zs: "set ?zs \<subseteq> S" "j < length ?zs \<or> j = 0"
    using Suc.prems(2) j by (auto simp: set_swap)
  obtain r1 w1 where c: "cmp (xs ! j) (xs ! Suc j) w = (r1, w1)" by (cases "cmp (xs ! j) (xs ! Suc j) w")
  have "r1 = Inr (g (xs ! j) (xs ! Suc j)) \<or> (\<exists>e \<in> refusals ops. r1 = Inl e)"
    using cmp[OF j(1,2)] c unfolding erases_in_def by (metis fst_conv)
  moreover have "fst (visit ops VSortMove w1) = Inr () \<or> (\<exists>e \<in> refusals ops. fst (visit ops VSortMove w1) = Inl e)"
    using erases_visit[of ops VSortMove] unfolding erases_in_def by blast
  ultimately show ?case
    using Suc.prems(1) c Suc.IH[OF _ zs] by (cases "visit ops VSortMove w1") (auto split: if_splits)
qed simp

lemma sort_outer_refusal:
  assumes cmp: "\<And>x y. x \<in> S \<Longrightarrow> y \<in> S \<Longrightarrow> erases ops (cmp x y) (Inr (g x y))"
  shows "sort_outer ops cmp is xs w = (Inl e, r) \<Longrightarrow> set xs \<subseteq> S \<Longrightarrow> \<forall>i \<in> set is. i < length xs \<Longrightarrow>
    e \<in> refusals ops"
proof (induction "is" arbitrary: xs w)
  case (Cons i "is")
  obtain r1 zs w1 where 1: "sort_inner ops cmp i xs w = (r1, zs, w1)"
    by (cases "sort_inner ops cmp i xs w") auto
  show ?case
  proof (cases r1)
    case (Inl e')
    then show ?thesis
      using sort_inner_refusal[where S=S and g=g and e=e and r="(zs, w1)", OF cmp _ Cons.prems(2)]
        Cons.prems 1 by auto
  next
    case (Inr u)
    have "mset zs = mset xs" "length zs = length xs"
      using sort_inner_mset[OF 1] Cons.prems(3) by auto
    then have "set zs \<subseteq> S" "\<forall>i \<in> set is. i < length zs"
      using Cons.prems(2,3) by (auto dest: mset_eq_setD)
    with Inr 1 Cons.prems(1) show ?thesis using Cons.IH[of zs w1] by auto
  qed
qed simp

text \<open>\<open>try_sort_by\<close> on a vector that the caller owns: the sorted vector, or the refusal.\<close>

definition sorted_by :: "'w validation_work \<Rightarrow> ('a \<Rightarrow> 'a \<Rightarrow> ('w, ordering) metered) \<Rightarrow>
    'a list \<Rightarrow> ('w, 'a list) metered" where
  "sorted_by ops cmp xs =
     (\<lambda>w. case try_sort_by ops cmp xs w of
        (Inl e, _, w') \<Rightarrow> (Inl e, w')
      | (Inr _, ys, w') \<Rightarrow> (Inr ys, w'))"

lemma try_sort_by_keys:
  assumes cmp: "\<And>x y. x \<in> set xs \<Longrightarrow> y \<in> set xs \<Longrightarrow> erases ops (cmp x y) (Inr (cmp_of (f x) (f y)))"
    and run: "try_sort_by ops cmp xs w = (Inr (), ys, w')"
  shows "ys = sort_key f xs"
proof (cases xs)
  case Nil
  with run show ?thesis by (simp add: try_sort_by_def)
next
  case (Cons x zs)
  have "sort_outer ops cmp [length [x]..<length [x] + length zs] (sort_key f [x] @ zs) w = (Inr (), ys, w')"
    using run Cons by (simp add: try_sort_by_def)
  from sort_outer_sorts[where S="set xs", OF cmp _ _ this] show ?thesis
    using Cons by (simp add: subset_insertI)
qed

lemma erases_sorted_by:
  assumes cmp: "\<And>x y. x \<in> set xs \<Longrightarrow> y \<in> set xs \<Longrightarrow> erases ops (cmp x y) (Inr (cmp_of (f x) (f y)))"
  shows "erases ops (sorted_by ops cmp xs) (Inr (sort_key f xs))"
  unfolding erases_in_def
proof
  fix w
  obtain r ys w' where run: "try_sort_by ops cmp xs w = (r, ys, w')"
    by (cases "try_sort_by ops cmp xs w") auto
  show "fst (sorted_by ops cmp xs w) = Inr (sort_key f xs)
    \<or> (\<exists>e \<in> refusals ops. fst (sorted_by ops cmp xs w) = Inl e)"
  proof (cases r)
    case (Inl e)
    then have "e \<in> refusals ops"
      using sort_outer_refusal[of "set xs" ops cmp "\<lambda>x y. cmp_of (f x) (f y)", OF cmp] run
      by (fastforce simp: try_sort_by_def)
    with Inl run show ?thesis by (simp add: sorted_by_def)
  next
    case (Inr u)
    with run have "try_sort_by ops cmp xs w = (Inr (), ys, w')" by simp
    from try_sort_by_keys[OF cmp this] Inr run show ?thesis by (simp add: sorted_by_def)
  qed
qed

section \<open>Properties\<close>

text \<open>
  \<open>try_sort_by\<close> never loses or duplicates an element, even when it stops at a refused
  comparison or move; and when it succeeds with a comparison that orders by a key, the result
  is the stable sort by that key.
\<close>

theorem try_sort_by_sorts:
  assumes "\<forall>x \<in> set xs. \<forall>y \<in> set xs. erases ops (cmp x y) (Inr (cmp_of (f x) (f y)))"
    and "try_sort_by ops cmp xs w = (r, ys, w')"
  shows "mset ys = mset xs \<and> (r = Inr () \<longrightarrow> ys = sort_key f xs)"
proof
  show "mset ys = mset xs"
    using assms(2) unfolding try_sort_by_def by (rule sort_outer_mset) simp
  show "r = Inr () \<longrightarrow> ys = sort_key f xs"
    using try_sort_by_keys[of xs ops cmp f w ys w'] assms by blast
qed

theorem try_sort_by_sorts_witness:
  "fst (snd (try_sort_by noop_work (compare noop_work) [3, 1, 2 :: int] ())) = [1, 2, 3]"
proof -
  obtain r ys w where run: "try_sort_by noop_work (compare noop_work) [3, 1, 2 :: int] () = (r, ys, w)"
    by (cases "try_sort_by noop_work (compare noop_work) [3, 1, 2 :: int] ()") auto
  have "fst (try_sort_by noop_work (compare noop_work) [3, 1, 2 :: int] ()) = Inr ()" by code_simp
  with run have "r = Inr ()" by simp
  then have "ys = sort_key (\<lambda>x. x) [3, 1, 2]"
    using try_sort_by_sorts[of "[3, 1, 2]" noop_work "compare noop_work" "\<lambda>x. x", OF _ run]
    by (simp add: erases_compare)
  then show ?thesis using run by simp
qed

end
