(* ===== verification/Text.thy ===== *)
theory Text
  imports Prelude
begin

text \<open>
  Rust text. A \<open>str\<close> is held as its UTF-8 bytes; this theory has what the crates use of it
  beyond bytes: \<open>str::from_utf8\<close>, \<open>chars\<close>, the scalar value of a character and \<open>encode_utf16\<close>.
\<close>

section \<open>Characters of a UTF-8 string\<close>

definition lead_width :: "nat \<Rightarrow> nat" where
  "lead_width b = (if b < 128 then 1 else if b < 224 then 2 else if b < 240 then 3 else 4)"

text \<open>\<open>chars\<close> splits a string into the byte sequences of its characters.\<close>

function chars :: "string \<Rightarrow> string list" where
  "chars [] = []"
| "chars (c # s) =
     (let n = lead_width (byte c) - 1 in (c # take n s) # chars (drop n s))"
  by pat_completeness auto
termination by (relation "measure length") auto

lemma concat_chars: "concat (chars s) = s"
  by (induction s rule: chars.induct) (auto simp: Let_def)

definition is_cont :: "char \<Rightarrow> bool" where
  "is_cont c \<longleftrightarrow> 128 \<le> byte c \<and> byte c < 192"

text \<open>The well-formed byte sequences (no overlong forms, no surrogates, at most U+10FFFF).\<close>

definition valid_char :: "string \<Rightarrow> bool" where
  "valid_char u = (case u of
       [a] \<Rightarrow> byte a < 128
     | [a, b] \<Rightarrow> 194 \<le> byte a \<and> byte a < 224 \<and> is_cont b
     | [a, b, c] \<Rightarrow> 224 \<le> byte a \<and> byte a < 240 \<and> is_cont b \<and> is_cont c
         \<and> (byte a = 224 \<longrightarrow> 160 \<le> byte b) \<and> (byte a = 237 \<longrightarrow> byte b < 160)
     | [a, b, c, d] \<Rightarrow> 240 \<le> byte a \<and> byte a < 245 \<and> is_cont b \<and> is_cont c \<and> is_cont d
         \<and> (byte a = 240 \<longrightarrow> 144 \<le> byte b) \<and> (byte a = 244 \<longrightarrow> byte b < 144)
     | _ \<Rightarrow> False)"

definition valid_utf8 :: "string \<Rightarrow> bool" where
  "valid_utf8 s \<longleftrightarrow> list_all valid_char (chars s)"

lemma valid_char_width:
  assumes "valid_char u"
  obtains c t where "u = c # t" "length t = lead_width (byte c) - 1"
proof -
  from assms obtain c t where u: "u = c # t" by (cases u) (auto simp: valid_char_def)
  then have "length t = lead_width (byte c) - 1"
    using assms by (auto simp: valid_char_def lead_width_def split: list.splits)
  with u that show thesis by blast
qed

lemma chars_valid_append: "valid_char u \<Longrightarrow> chars (u @ s) = u # chars s"
  by (elim valid_char_width) (simp add: Let_def)

lemma chars_concat: "list_all valid_char us \<Longrightarrow> chars (concat us @ s) = us @ chars s"
  by (induction us) (simp_all add: chars_valid_append)

lemma chars_append: "valid_utf8 s \<Longrightarrow> chars (s @ t) = chars s @ chars t"
  unfolding valid_utf8_def using chars_concat[of "chars s" t] by (simp add: concat_chars)

lemma valid_utf8_append: "valid_utf8 s \<Longrightarrow> valid_utf8 (s @ t) \<longleftrightarrow> valid_utf8 t"
  using chars_append[of s t] by (simp add: valid_utf8_def)

lemma valid_utf8_Nil [simp]: "valid_utf8 []"
  by (simp add: valid_utf8_def)

definition ascii :: "string \<Rightarrow> bool" where
  "ascii s \<longleftrightarrow> list_all (\<lambda>c. byte c < 128) s"

lemma chars_ascii: "ascii s \<Longrightarrow> chars s = map (\<lambda>c. [c]) s"
  by (induction s) (simp_all add: ascii_def lead_width_def)

lemma ascii_valid: "ascii s \<Longrightarrow> valid_utf8 s"
  unfolding valid_utf8_def by (simp add: chars_ascii) (simp add: ascii_def valid_char_def list_all_iff)

lemma ascii_append [simp]: "ascii (s @ t) \<longleftrightarrow> ascii s \<and> ascii t"
  by (simp add: ascii_def)

lemma ascii_Cons [simp]: "ascii (c # s) \<longleftrightarrow> byte c < 128 \<and> ascii s"
  by (simp add: ascii_def)

lemma ascii_Nil [simp]: "ascii []"
  by (simp add: ascii_def)

lemma digits_ascii: "list_all is_digit s \<Longrightarrow> ascii s"
  by (auto simp: ascii_def list_all_iff is_digit_def)

text \<open>A byte of a multi-byte character is never an ASCII byte.\<close>

lemma valid_char_cases:
  assumes "valid_char u"
  obtains (ascii) c where "u = [c]" "byte c < 128"
  | (multi) "2 \<le> length u" "\<forall>c \<in> set u. 128 \<le> byte c"
  using assms by (auto simp: valid_char_def is_cont_def split: list.splits)

section \<open>Scalar values and UTF-16\<close>

definition scalar :: "string \<Rightarrow> nat" where
  "scalar u = (case map byte u of
       [a] \<Rightarrow> a
     | [a, b] \<Rightarrow> (a - 192) * 64 + (b - 128)
     | [a, b, c] \<Rightarrow> (a - 224) * 4096 + (b - 128) * 64 + (c - 128)
     | [a, b, c, d] \<Rightarrow> (a - 240) * 262144 + (b - 128) * 4096 + (c - 128) * 64 + (d - 128)
     | _ \<Rightarrow> 0)"

definition utf16_units :: "nat \<Rightarrow> nat list" where
  "utf16_units n =
     (if n < 65536 then [n]
      else [55296 + (n - 65536) div 1024, 56320 + (n - 65536) mod 1024])"

definition encode_utf16 :: "string \<Rightarrow> nat list" where
  "encode_utf16 s = concat (map (\<lambda>u. utf16_units (scalar u)) (chars s))"

lemma encode_utf16_ascii: "ascii s \<Longrightarrow> encode_utf16 s = map byte s"
  by (induction s) (simp_all add: encode_utf16_def lead_width_def scalar_def utf16_units_def byte_def)

text \<open>\<open>char::is_control\<close> is the category Cc, \<open>trim\<close> removes the characters with White_Space.\<close>

definition is_control :: "string \<Rightarrow> bool" where
  "is_control u \<longleftrightarrow> scalar u < 32 \<or> 127 \<le> scalar u \<and> scalar u < 160"

definition is_white :: "string \<Rightarrow> bool" where
  "is_white u \<longleftrightarrow> scalar u \<in> {9, 10, 11, 12, 13, 32, 133, 160, 5760, 8232, 8233, 8239, 8287, 12288}
     \<or> 8192 \<le> scalar u \<and> scalar u \<le> 8202"

section \<open>Hexadecimal text\<close>

definition hex_digit :: "nat \<Rightarrow> char" where
  "hex_digit n = (if n < 10 then char_of (48 + n) else char_of (87 + n))"

definition hex_byte :: "char \<Rightarrow> string" where
  "hex_byte c = [hex_digit (byte c div 16), hex_digit (byte c mod 16)]"

definition hex :: "string \<Rightarrow> string" where
  "hex s = concat (map hex_byte s)"

lemma byte_hex_digit: "n < 16 \<Longrightarrow> byte (hex_digit n) = (if n < 10 then 48 + n else 87 + n)"
  by (auto simp: hex_digit_def byte_def of_char_of take_bit_eq_mod)

lemma hex_digit_inj:
  assumes "a < 16" and "b < 16"
  shows "hex_digit a = hex_digit b \<longleftrightarrow> a = b"
proof
  assume "hex_digit a = hex_digit b"
  then have "byte (hex_digit a) = byte (hex_digit b)" by (rule arg_cong)
  then show "a = b" unfolding byte_hex_digit[OF assms(1)] byte_hex_digit[OF assms(2)]
    by (simp split: if_splits)
qed simp

lemma byte_less: "byte c < 256"
  by (simp add: byte_def)

lemma byte_inj: "byte a = byte b \<longleftrightarrow> a = b"
  by (simp add: byte_def)

lemma hex_byte_inj: "hex_byte a = hex_byte b \<longleftrightarrow> a = b"
proof
  assume eq: "hex_byte a = hex_byte b"
  have "byte a div 16 < 16" "byte b div 16 < 16" using byte_less[of a] byte_less[of b] by simp_all
  then have "byte a div 16 = byte b div 16" "byte a mod 16 = byte b mod 16"
    using eq by (simp_all add: hex_byte_def hex_digit_inj)
  then have "byte a = byte b" by (metis div_mult_mod_eq)
  then show "a = b" by (simp add: byte_inj)
qed simp

lemma hex_length [simp]: "length (hex s) = 2 * length s"
  by (induction s) (simp_all add: hex_def hex_byte_def)

lemma hex_inj: "hex s = hex t \<longleftrightarrow> s = t"
proof
  assume "hex s = hex t"
  then show "s = t"
  proof (induction s arbitrary: t)
    case Nil
    then have "length (hex t) = 0" by (simp add: hex_def)
    then show ?case by simp
  next
    case (Cons a s)
    then have "length (hex t) \<noteq> 0" by (metis hex_length length_Cons nat.simps(3) mult_is_0 numeral_2_eq_2)
    then obtain b t' where t: "t = b # t'" by (cases t) auto
    then have "hex_byte a @ hex s = hex_byte b @ hex t'" using Cons.prems by (simp add: hex_def)
    moreover have "length (hex_byte a) = length (hex_byte b)" by (simp add: hex_byte_def)
    ultimately have "hex_byte a = hex_byte b" "hex s = hex t'" by auto
    then show ?case using Cons.IH t by (simp add: hex_byte_inj)
  qed
qed simp

lemma hex_ascii: "ascii (hex s)"
proof -
  have "byte (hex_digit n) < 128" if "n < 16" for n
    using that by (simp add: byte_hex_digit)
  moreover have "byte c div 16 < 16" "byte c mod 16 < 16" for c
    using byte_less[of c] by simp_all
  ultimately have "byte (hex_digit (byte c div 16)) < 128" "byte (hex_digit (byte c mod 16)) < 128" for c
    by blast+
  then show ?thesis by (induction s) (simp_all add: hex_def hex_byte_def)
qed

end
