(* ===== verification/Ordered_Map.thy ===== *)
theory Ordered_Map
  imports Prelude "HOL-Library.Char_ord" "HOL-Library.List_Lexorder" "HOL-Library.Product_Lexorder"
begin

text \<open>
  Rust's \<open>BTreeMap\<close>, and the object map of \<open>serde_json\<close> which is one: an association list in
  strictly ascending key order. Strings are ordered by their bytes, pairs lexicographically. The
  interface is a locale; its clients use the laws only.
\<close>

section \<open>The interface\<close>

locale key_map =
  fixes nothing :: 'm and insert_at :: "'k \<Rightarrow> 'v \<Rightarrow> 'm \<Rightarrow> 'm" and get :: "'m \<Rightarrow> 'k \<Rightarrow> 'v option"
    and inv :: "'m \<Rightarrow> bool"
  assumes inv_nothing: "inv nothing"
    and inv_insert: "inv m \<Longrightarrow> inv (insert_at k v m)"
    and get_nothing: "get nothing k = None"
    and get_insert: "inv m \<Longrightarrow> get (insert_at k v m) = (get m)(k \<mapsto> v)"
begin

lemma get_same: "inv m \<Longrightarrow> get (insert_at k v m) k = Some v"
  by (simp add: get_insert)

lemma get_other: "inv m \<Longrightarrow> k' \<noteq> k \<Longrightarrow> get (insert_at k v m) k' = get m k'"
  by (simp add: get_insert)

text \<open>Inserting a list of distinct new keys adds exactly those entries.\<close>

lemma fold_inserts:
  assumes "inv m" and "distinct (map fst es)"
  shows "inv (fold (\<lambda>(k, v). insert_at k v) es m)
    \<and> get (fold (\<lambda>(k, v). insert_at k v) es m) = get m ++ map_of es"
  using assms
proof (induction es arbitrary: m)
  case (Cons e es)
  obtain k v where e: "e = (k, v)" by (cases e)
  have new: "map_of es k = None"
    using Cons.prems(2) e by (metis distinct.simps(2) fst_conv list.simps(9) map_of_eq_None_iff
        image_set)
  have "inv (insert_at k v m)" using Cons.prems(1) by (rule inv_insert)
  moreover have "(get m)(k \<mapsto> v) ++ map_of es = get m ++ map_of (e # es)"
    using new e by (auto simp: fun_eq_iff map_add_def split: option.splits)
  ultimately show ?case
    using Cons.IH[of "insert_at k v m"] Cons.prems e get_insert[of m k v]
    by (simp del: map_of.simps fun_upd_apply add: fun_upd_def[symmetric])
qed simp

end

text \<open>An ordered map is determined by what it contains: two equal contents are equal values.\<close>

locale ordered_key_map = key_map nothing insert_at get inv
  for nothing :: 'm and insert_at :: "'k \<Rightarrow> 'v \<Rightarrow> 'm \<Rightarrow> 'm" and get inv +
  assumes determined: "inv m \<Longrightarrow> inv m' \<Longrightarrow> get m = get m' \<Longrightarrow> m = m'"
begin

lemma insert_commute:
  assumes "inv m" and "k \<noteq> k'"
  shows "insert_at k v (insert_at k' v' m) = insert_at k' v' (insert_at k v m)"
proof (rule determined)
  show "get (insert_at k v (insert_at k' v' m)) = get (insert_at k' v' (insert_at k v m))"
    using assms by (simp add: get_insert inv_insert fun_upd_twist)
qed (use assms in \<open>simp_all add: inv_insert\<close>)

text \<open>Building a map from its own entries, in any order, gives it back.\<close>

lemma rebuild:
  assumes "inv m" and "distinct (map fst es)" and "get m = map_of es"
  shows "fold (\<lambda>(k, v). insert_at k v) es nothing = m"
proof (rule determined)
  note f = fold_inserts[OF inv_nothing assms(2)]
  show "inv (fold (\<lambda>(k, v). insert_at k v) es nothing)" using f by blast
  have "get nothing = Map.empty" by (simp add: get_nothing fun_eq_iff)
  then show "get (fold (\<lambda>(k, v). insert_at k v) es nothing) = get m" using f assms(3) by simp
qed (rule assms(1))

end

section \<open>Sorted association lists\<close>

type_synonym ('k, 'v) omap = "('k \<times> 'v) list"

definition om_ok :: "('k::linorder, 'v) omap \<Rightarrow> bool" where
  "om_ok m \<longleftrightarrow> sorted_wrt (<) (map fst m)"

fun om_insert :: "'k::linorder \<Rightarrow> 'v \<Rightarrow> ('k, 'v) omap \<Rightarrow> ('k, 'v) omap" where
  "om_insert k v [] = [(k, v)]"
| "om_insert k v ((k', v') # m) =
     (if k < k' then (k, v) # (k', v') # m
      else if k = k' then (k, v) # m
      else (k', v') # om_insert k v m)"

lemma om_insert_keys: "set (map fst (om_insert k v m)) = insert k (set (map fst m))"
proof (induction m)
  case (Cons e m)
  then show ?case by (cases e) (auto simp: insert_commute)
qed simp

lemma om_insert_ok: "om_ok m \<Longrightarrow> om_ok (om_insert k v m)"
proof (induction m)
  case (Cons e m)
  obtain k' v' where e: "e = (k', v')" by (cases e)
  have t: "om_ok m" "\<And>x. x \<in> set (map fst m) \<Longrightarrow> k' < x"
    using Cons.prems by (auto simp: om_ok_def e)
  show ?case
  proof (cases "k' < k")
    case True
    then have "om_insert k v (e # m) = (k', v') # om_insert k v m" by (auto simp: e)
    moreover have "\<And>x. x \<in> set (map fst (om_insert k v m)) \<Longrightarrow> k' < x"
      unfolding om_insert_keys using t(2) True by blast
    ultimately show ?thesis using Cons.IH[OF t(1)] by (simp add: om_ok_def)
  next
    case False
    then show ?thesis using Cons.prems by (auto simp: om_ok_def e intro: less_trans)
  qed
qed (simp add: om_ok_def)

lemma om_insert_get: "om_ok m \<Longrightarrow> map_of (om_insert k v m) = (map_of m)(k \<mapsto> v)"
proof (induction m)
  case (Cons e m)
  obtain k' v' where e: "e = (k', v')" by (cases e)
  have "om_ok m" "\<And>x. x \<in> set (map fst m) \<Longrightarrow> k' < x"
    using Cons.prems by (auto simp: om_ok_def e)
  then show ?case
    using Cons.IH by (auto simp: e fun_eq_iff)
qed simp

lemma om_ok_distinct: "om_ok m \<Longrightarrow> distinct (map fst m)"
  unfolding om_ok_def by (simp add: strict_sorted_iff)

lemma map_of_nth_fst:
  assumes "distinct (map fst m)" and "i < length m"
  shows "m ! i = (fst (m ! i), the (map_of m (fst (m ! i))))"
proof -
  have "(fst (m ! i), snd (m ! i)) \<in> set m" using assms(2) by simp
  with assms(1) have "map_of m (fst (m ! i)) = Some (snd (m ! i))" by (rule map_of_is_SomeI)
  then show ?thesis by simp
qed

lemma om_determined:
  assumes "om_ok m" and "om_ok m'" and "map_of m = map_of m'"
  shows "m = m'"
proof -
  have d: "distinct (map fst m)" "distinct (map fst m')" using assms(1,2) by (simp_all add: om_ok_distinct)
  then have s: "set m = set m'" using assms(3) by (metis map_of_eq_Some_iff subrelI subset_antisym)
  have "map fst m = map fst m'"
    using assms(1,2) s unfolding om_ok_def by (metis list.set_map strict_sorted_equal)
  have entries: "m = map (\<lambda>k. (k, the (map_of m k))) (map fst m)" if "om_ok m" for m :: "('a, 'b) omap"
  proof (rule nth_equalityI)
    fix i assume "i < length m"
    then show "m ! i = map (\<lambda>k. (k, the (map_of m k))) (map fst m) ! i"
      using map_of_nth_fst[OF om_ok_distinct[OF that]] by simp
  qed simp
  have "m = map (\<lambda>k. (k, the (map_of m' k))) (map fst m')"
    using entries[OF assms(1)] \<open>map fst m = map fst m'\<close> assms(3) by simp
  also have "\<dots> = m'" using entries[OF assms(2)] by simp
  finally show ?thesis .
qed

interpretation om: ordered_key_map "[]" om_insert map_of om_ok
proof unfold_locales
  show "om_ok []" by (simp add: om_ok_def)
qed (simp_all add: om_insert_ok om_insert_get om_determined)

text \<open>The keys after a bound, as \<open>range((Excluded(k), Unbounded))\<close> enumerates them.\<close>

definition om_after :: "'k::linorder \<Rightarrow> ('k, 'v) omap \<Rightarrow> ('k, 'v) omap" where
  "om_after k m = filter (\<lambda>e. k < fst e) m"

lemma om_after_ok: "om_ok m \<Longrightarrow> om_ok (om_after k m)"
  by (induction m) (auto simp: om_ok_def om_after_def)

end
