(* ===== verification/Canonical.thy ===== *)
theory Canonical
  imports Work Text Ordered_Map
begin

text \<open>
  The canonical JSON emitter of \<^verbatim>\<open>canonical/mod.rs\<close> (the integer-only profile of RFC 8785):
  values, destinations with their bounds, the metered emitter, and the text it produces. An
  object is a \<open>BTreeMap\<close> and hence ordered by bytes; its members are emitted in the order of
  their UTF-16 code units.
\<close>

section \<open>Values\<close>

text \<open>
  \<open>serde_json::Value\<close>. An integer is what \<open>as_i64\<close> or \<open>as_u64\<close> gives; a number that is neither
  is a float, whose text is kept.
\<close>

datatype json =
    JNull | JBool bool | JInt int | JFloat string | JString string
  | JArray "json list" | JObject "(string \<times> json) list"

definition SAFE :: int where "SAFE = 9007199254740991"

definition CANDIDATE_LIMIT :: nat where "CANDIDATE_LIMIT = 262144"

definition BUNDLE_LIMIT :: nat where "BUNDLE_LIMIT = 4 * 1024 * 1024"

datatype container_bound = BoundOperation | BoundManifest | BoundReceipt

fun container_maximum :: "container_bound \<Rightarrow> nat" where
  "container_maximum BoundOperation = 8 * 1024 * 1024"
| "container_maximum BoundManifest = 4 * 1024 * 1024"
| "container_maximum BoundReceipt = 1024 * 1024"

section \<open>Destinations\<close>

text \<open>
  \<open>dcapacity\<close> is the capacity of the byte vector; it is read by the growth guard of a bounded
  destination only, where \<open>reserve_exact\<close> makes it the length asked for.
\<close>

record destination =
  dbytes :: string
  dmaximum :: "nat option"
  dcomplete :: bool
  dcapacity :: nat

definition dest_legacy :: destination where
  "dest_legacy = \<lparr>dbytes = [], dmaximum = None, dcomplete = False, dcapacity = 0\<rparr>"

definition dest_bounded :: "nat \<Rightarrow> destination" where
  "dest_bounded m = \<lparr>dbytes = [], dmaximum = Some m, dcomplete = False, dcapacity = 0\<rparr>"

definition dest_representation :: "nat \<Rightarrow> destination" where
  "dest_representation m = \<lparr>dbytes = [], dmaximum = Some m, dcomplete = True, dcapacity = 0\<rparr>"

definition destination_limit :: error where
  "destination_limit = Error ''PROGRAM_BUDGET_EXCEEDED'' ''canonical destination bound''"

definition over :: "'w validation_work \<Rightarrow> bool \<Rightarrow> nat \<Rightarrow> nat \<Rightarrow> ('w, bool) metered" where
  "over ops paid a b =
     (if paid then mbind (compare ops (int a) (int b)) (\<lambda>c. mok (c = OrdGreater)) else mok (a > b))"

definition prepare :: "'w validation_work \<Rightarrow> nat \<Rightarrow> destination \<Rightarrow> ('w, destination) metered" where
  "prepare ops n out =
     (case dmaximum out of
        None \<Rightarrow> mthen (write_bytes ops n) (mok out)
      | Some maximum \<Rightarrow>
          mthen (if dcomplete out
                 then arithmetic ops OpAdd [int (length (dbytes out)), int n] else mok ())
         (mbind (mlift (ok_or (checked_u64 (length (dbytes out) + n)) destination_limit)) (\<lambda>next'.
          mbind (over ops (dcomplete out) next' maximum) (\<lambda>oversized.
          if oversized then merr destination_limit
          else mthen (write_bytes ops n)
              (mbind (over ops (dcomplete out) next' (dcapacity out)) (\<lambda>growth.
               mok (if growth then out\<lparr>dcapacity := next'\<rparr> else out)))))))"

definition append_to :: "'w validation_work \<Rightarrow> string \<Rightarrow> destination \<Rightarrow> ('w, destination) metered" where
  "append_to ops bs out =
     mbind (prepare ops (length bs) out) (\<lambda>out. mok (out\<lparr>dbytes := dbytes out @ bs\<rparr>))"

section \<open>Strings and integers\<close>

text \<open>The escape of one character, as the arms of the match give it.\<close>

definition escape :: "string \<Rightarrow> string" where
  "escape u =
     (if u = ''\"'' then [CHR 92, CHR ''\"'']
      else if u = [CHR 92] then [CHR 92, CHR 92]
      else if u = [CHR 8] then [CHR 92, CHR ''b'']
      else if u = [CHR 12] then [CHR 92, CHR ''f'']
      else if u = [CHR 10] then [CHR 92, CHR ''n'']
      else if u = [CHR 13] then [CHR 92, CHR ''r'']
      else if u = [CHR 9] then [CHR 92, CHR ''t'']
      else case u of
        [c] \<Rightarrow> if byte c < 32 then [CHR 92, CHR ''u'', CHR ''0'', CHR ''0''] @ hex_byte c else u
      | _ \<Rightarrow> u)"

definition emit_string :: "'w validation_work \<Rightarrow> string \<Rightarrow> destination \<Rightarrow> ('w, destination) metered" where
  "emit_string ops s out =
     mbind (append_to ops ''\"'' out) (\<lambda>out.
     mbind (mfold (\<lambda>u out. mthen (scan_bytes ops (length u)) (append_to ops (escape u) out))
              (chars s) out) (\<lambda>out.
     append_to ops ''\"'' out))"

text \<open>
  The digit loop of \<open>emit_integer\<close>. It ends because the quotient read back from the metered
  division is the truncated quotient by ten.
\<close>

lemma i64_operation_div:
  "fst (i64_operation ops OpDivideRemainder v 10 w) = Inr q \<Longrightarrow> q = tdiv v 10"
  by (auto simp: i64_operation_def mthen_def mbind_def mlift_def split: prod.splits sum.splits)

lemma compare_result: "fst (compare ops a b w) = Inr c \<Longrightarrow> c = cmp_of a b"
  by (auto simp: compare_def mthen_def mbind_def mok_def mlift_def split: prod.splits sum.splits)

lemma tdiv10_smaller:
  assumes "tdiv v 10 \<noteq> 0"
  shows "\<bar>tdiv v 10\<bar> < \<bar>v\<bar>"
proof -
  have "v \<noteq> 0" using assms by (auto simp: tdiv_def)
  then have "\<bar>tdiv v 10\<bar> = \<bar>v\<bar> div 10" by (simp add: tdiv_def abs_mult)
  with \<open>v \<noteq> 0\<close> show ?thesis by linarith
qed

function integer_digits :: "'w validation_work \<Rightarrow> int \<Rightarrow> string \<Rightarrow> ('w, string) metered" where
  "integer_digits ops v digits =
     mbind (i64_remainder ops v 10) (\<lambda>digit.
     mbind (i64_operation ops OpAdd digit 48) (\<lambda>digit.
     mthen (write_bytes ops 1)
     (mbind (i64_operation ops OpDivideRemainder v 10) (\<lambda>q.
      mbind (compare ops q 0) (\<lambda>c.
      if c = OrdEqual then mok (digits @ [char_of (nat digit)])
      else integer_digits ops q (digits @ [char_of (nat digit)]))))))"
  by pat_completeness auto
termination
  by (relation "measure (\<lambda>(_, v, _). nat \<bar>v\<bar>)")
    (auto dest!: i64_operation_div compare_result tdiv10_smaller)

declare integer_digits.simps [simp del]

definition emit_integer :: "'w validation_work \<Rightarrow> int \<Rightarrow> destination \<Rightarrow> ('w, destination) metered" where
  "emit_integer ops i out =
     mbind (compare ops i 0) (\<lambda>c.
     mbind (if c = OrdLess then mthen (arithmetic ops OpNegate [i]) (mlift (trap_i64 (- i)))
            else mok i) (\<lambda>v.
     mbind (integer_digits ops v []) (\<lambda>digits.
     mbind (if c = OrdLess then append_to ops ''-'' out else mok out) (\<lambda>out.
     mfold (\<lambda>d out. append_to ops [d] out) (rev digits) out))))"

section \<open>Values\<close>

definition key_comparison_bytes :: "'w validation_work \<Rightarrow> string \<Rightarrow> string \<Rightarrow> ('w, unit) metered" where
  "key_comparison_bytes ops left right =
     mbind (usize_add ops (length left) (length right)) (\<lambda>possible. scan_bytes ops possible)"

definition compare_keys :: "'w validation_work \<Rightarrow> string \<Rightarrow> string \<Rightarrow> ('w, ordering) metered" where
  "compare_keys ops a b =
     mthen (visit ops VMemberCompare)
    (mthen (key_comparison_bytes ops a b) (mok (cmp_of (encode_utf16 a) (encode_utf16 b))))"

definition depth_error :: "destination \<Rightarrow> error" where
  "depth_error out = (case dmaximum out of
       Some _ \<Rightarrow> destination_limit | None \<Rightarrow> Error ''LIMIT'' ''JSON depth'')"

definition unsafe_integer :: error where
  "unsafe_integer = Error ''JSON_NUMBER'' ''unsafe integer''"

definition emit_number :: "'w validation_work \<Rightarrow> json \<Rightarrow> destination \<Rightarrow> ('w, destination) metered" where
  "emit_number ops v out =
     mthen (visit ops VConstraint)
       (case v of
          JInt i \<Rightarrow>
            if in_i64 i then
              mbind (compare ops i (- SAFE)) (\<lambda>lower.
              if lower = OrdLess then merr unsafe_integer
              else mbind (compare ops i SAFE) (\<lambda>upper.
                if upper = OrdGreater then merr unsafe_integer
                else emit_integer ops i out))
            else if dmaximum out \<noteq> None then mthen (visit ops VConstraint) (merr unsafe_integer)
            else merr unsafe_integer
        | _ \<Rightarrow>
            if dmaximum out \<noteq> None
            then mthen (visit ops VConstraint) (merr (Error ''INVALID_SCALAR'' ''noninteger JSON''))
            else merr unsafe_integer)"

text \<open>
  The body of \<open>emit\<close> with its recursive call abstracted; \<open>emit_at k\<close> is \<open>emit\<close> unfolded \<open>k\<close>
  levels deep. The depth check stops the recursion below level 32, so 33 levels are enough
  for every value (lemma \<open>emit_at_enough\<close> below) and the innermost call is never made.
\<close>

definition emit_value ::
    "'w validation_work \<Rightarrow> (json \<Rightarrow> destination \<Rightarrow> nat \<Rightarrow> ('w, destination) metered) \<Rightarrow>
     json \<Rightarrow> destination \<Rightarrow> nat \<Rightarrow> ('w, destination) metered" where
  "emit_value ops emit v out depth =
     mthen (visit ops VValue)
    (mbind (compare ops (int depth) 32) (\<lambda>c.
     if c = OrdGreater then merr (depth_error out)
     else case v of
       JNull \<Rightarrow>
         if dmaximum out \<noteq> None then merr (Error ''INVALID_SHAPE'' ''null selected body'')
         else append_to ops ''null'' out
     | JBool b \<Rightarrow> append_to ops (if b then ''true'' else ''false'') out
     | JInt _ \<Rightarrow> emit_number ops v out
     | JFloat _ \<Rightarrow> emit_number ops v out
     | JString s \<Rightarrow> emit_string ops s out
     | JArray items \<Rightarrow>
         mbind (append_to ops ''['' out) (\<lambda>out.
         mbind (mfold (\<lambda>(i, item) out.
              mthen (visit ops VElement)
             (mbind (if i > 0 then append_to ops '','' out else mok out) (\<lambda>out.
              mbind (usize_add ops depth 1) (\<lambda>next'.
              emit item out next')))) (enumerate 0 items) out) (\<lambda>out.
         append_to ops '']'' out))
     | JObject m \<Rightarrow>
         mbind (sorted_by ops (compare_keys ops) (map fst m)) (\<lambda>keys.
         mbind (append_to ops ''{'' out) (\<lambda>out.
         mbind (mfold (\<lambda>(i, key) out.
              mthen (visit ops VField)
             (mbind (if i > 0 then append_to ops '','' out else mok out) (\<lambda>out.
              mbind (emit_string ops key out) (\<lambda>out.
              mbind (append_to ops '':'' out) (\<lambda>out.
              mthen (visit ops VRefLookup)
             (mbind (usize_add ops depth 1) (\<lambda>next'.
              mbind (mlift (ok_or (map_of m key) Panic)) (\<lambda>item.
              emit item out next')))))))) (enumerate 0 keys) out) (\<lambda>out.
         append_to ops ''}'' out)))))"

primrec emit_at :: "'w validation_work \<Rightarrow> nat \<Rightarrow>
    json \<Rightarrow> destination \<Rightarrow> nat \<Rightarrow> ('w, destination) metered" where
  "emit_at ops 0 = emit_value ops (\<lambda>_ _ _. merr Panic)"
| "emit_at ops (Suc k) = emit_value ops (emit_at ops k)"

definition emit :: "'w validation_work \<Rightarrow> json \<Rightarrow> destination \<Rightarrow> nat \<Rightarrow> ('w, destination) metered" where
  "emit ops v out depth = emit_at ops (33 - depth) v out depth"

section \<open>Entry points\<close>

text \<open>
  \<open>from_value_with_work\<close> first turns its argument into a \<open>Value\<close>; for a \<open>Value\<close> that is the
  identity, which is the case modelled.
\<close>

definition from_value_with_work :: "'w validation_work \<Rightarrow> json \<Rightarrow> ('w, string) metered" where
  "from_value_with_work ops v =
     mbind (emit ops v dest_legacy 0) (\<lambda>d.
     mbind (compare ops (int (length (dbytes d))) (int BUNDLE_LIMIT)) (\<lambda>c.
     if c = OrdGreater then merr (Error ''LIMIT'' ''canonical bundle bytes'')
     else mok (dbytes d)))"

definition from_value :: "json \<Rightarrow> string result" where
  "from_value v = fst (from_value_with_work noop_work v ())"

definition from_value_with_work_bounded :: "'w validation_work \<Rightarrow> json \<Rightarrow> nat \<Rightarrow> ('w, string) metered" where
  "from_value_with_work_bounded ops v maximum =
     mbind (emit ops v (dest_bounded (min maximum BUNDLE_LIMIT)) 0) (\<lambda>d. mok (dbytes d))"

definition from_container_with_work ::
    "'w validation_work \<Rightarrow> json \<Rightarrow> container_bound \<Rightarrow> ('w, string) metered" where
  "from_container_with_work ops v bound =
     mbind (emit ops v (dest_bounded (container_maximum bound)) 0) (\<lambda>d. mok (dbytes d))"

definition from_representation_with_work :: "'w validation_work \<Rightarrow> json \<Rightarrow> nat \<Rightarrow> ('w, string) metered" where
  "from_representation_with_work ops v maximum =
     mbind (emit ops v (dest_representation (min maximum BUNDLE_LIMIT)) 0) (\<lambda>d. mok (dbytes d))"

definition from_representation_container_with_work ::
    "'w validation_work \<Rightarrow> json \<Rightarrow> container_bound \<Rightarrow> ('w, string) metered" where
  "from_representation_container_with_work ops v bound =
     mbind (emit ops v (dest_representation (container_maximum bound)) 0) (\<lambda>d. mok (dbytes d))"

section \<open>Null and sets\<close>

fun no_null :: "json \<Rightarrow> unit result" where
  "no_null JNull = Inl (Error ''SCHEMA'' ''null is forbidden'')"
| "no_null (JArray vs) = rfold (\<lambda>v _. no_null v) vs ()"
| "no_null (JObject m) = rfold (\<lambda>v _. no_null v) (map snd m) ()"
| "no_null _ = Inr ()"

text \<open>
  \<open>sort_set_with_work\<close> on values of a type with this serializer: sorted by canonical bytes,
  duplicates refused. On an error the drained vector is lost to the caller too.
\<close>

fun windows2 :: "'a list \<Rightarrow> ('a \<times> 'a) list" where
  "windows2 (x # y # xs) = (x, y) # windows2 (y # xs)"
| "windows2 _ = []"

definition sort_set_with_work ::
    "'w validation_work \<Rightarrow> ('a \<Rightarrow> json) \<Rightarrow> 'a list \<Rightarrow> ('w, 'a list) metered" where
  "sort_set_with_work ops enc values =
     mbind (mfold (\<lambda>v keyed.
          mthen (visit ops VElement)
         (mbind (from_value_with_work ops (enc v)) (\<lambda>key. mok (keyed @ [(key, v)])))) values []) (\<lambda>keyed.
     mbind (sorted_by ops (\<lambda>a b. mthen (visit ops VMemberCompare) (mok (cmp_of (fst a) (fst b)))) keyed) (\<lambda>keyed.
     mthen (mfold (\<lambda>(a, b) _.
          mthen (visit ops VMemberCompare)
            (if fst a = fst b then merr (Error ''DUPLICATE'' ''set member'') else mok ()))
          (windows2 keyed) ())
     (mok (map snd keyed))))"

definition sort_set :: "('a \<Rightarrow> json) \<Rightarrow> 'a list \<Rightarrow> 'a list result" where
  "sort_set enc values = fst (sort_set_with_work noop_work enc values ())"

section \<open>Hash domains\<close>

datatype domain =
    DomEvent | DomIngress | DomEventContent | DomDocument | DomClaim | DomClaimFacts | DomLink
  | DomDecision | DomEffect | DomEffectFacts | DomAction | DomObligation | DomIntention
  | DomReceipt | DomDecisionContent | DomRecordContent | DomChain | DomSnapshotRef
  | DomExplanation | DomControlTransition | DomIntentionPayload | DomReversalEffect

fun domain_name :: "domain \<Rightarrow> string" where
  "domain_name DomEvent = ''event''"
| "domain_name DomIngress = ''ingress''"
| "domain_name DomEventContent = ''event-content''"
| "domain_name DomDocument = ''document''"
| "domain_name DomClaim = ''claim''"
| "domain_name DomClaimFacts = ''claim-facts''"
| "domain_name DomLink = ''link''"
| "domain_name DomDecision = ''decision''"
| "domain_name DomEffect = ''effect''"
| "domain_name DomEffectFacts = ''effect-facts''"
| "domain_name DomAction = ''action''"
| "domain_name DomObligation = ''obligation''"
| "domain_name DomIntention = ''intention''"
| "domain_name DomReceipt = ''receipt''"
| "domain_name DomDecisionContent = ''decision-content''"
| "domain_name DomRecordContent = ''record-content''"
| "domain_name DomChain = ''chain''"
| "domain_name DomSnapshotRef = ''snapshot-ref''"
| "domain_name DomExplanation = ''explanation''"
| "domain_name DomControlTransition = ''control-transition''"
| "domain_name DomIntentionPayload = ''intention-payload''"
| "domain_name DomReversalEffect = ''reversal-effect''"

definition all_domains :: "domain list" where
  "all_domains = [DomEvent, DomIngress, DomEventContent, DomDocument, DomClaim, DomClaimFacts,
     DomLink, DomDecision, DomEffect, DomEffectFacts, DomAction, DomObligation, DomIntention,
     DomReceipt, DomDecisionContent, DomRecordContent, DomChain, DomSnapshotRef, DomExplanation,
     DomControlTransition, DomIntentionPayload, DomReversalEffect]"

definition domain_parse :: "string \<Rightarrow> domain result" where
  "domain_parse name = ok_or (find (\<lambda>d. domain_name d = name) all_domains) (Error ''HASH_DOMAIN'' name)"

definition no_id :: error where
  "no_id = Error ''HASH_DOMAIN'' ''domain has no ID''"

fun domain_prefix :: "domain \<Rightarrow> string result" where
  "domain_prefix DomEvent = Inr ''ev''"
| "domain_prefix DomDocument = Inr ''doc''"
| "domain_prefix DomClaim = Inr ''cl''"
| "domain_prefix DomLink = Inr ''ln''"
| "domain_prefix DomDecision = Inr ''dc''"
| "domain_prefix DomEffect = Inr ''ef''"
| "domain_prefix DomReversalEffect = Inr ''ef''"
| "domain_prefix DomAction = Inr ''ac''"
| "domain_prefix DomObligation = Inr ''ob''"
| "domain_prefix DomIntention = Inr ''in''"
| "domain_prefix DomReceipt = Inr ''rc''"
| "domain_prefix DomSnapshotRef = Inr ''sr''"
| "domain_prefix DomExplanation = Inr ''xp''"
| "domain_prefix DomControlTransition = Inr ''ct''"
| "domain_prefix _ = Inl no_id"

definition hash_input :: "domain \<Rightarrow> json \<Rightarrow> string result" where
  "hash_input d v =
     rbind (from_value v) (\<lambda>bytes. Inr (''ledgerlab/'' @ domain_name d @ ''/1'' @ [CHR 0x00] @ bytes))"

text \<open>SHA-256 is a function of another crate: a parameter, returning the 32 digest bytes.\<close>

definition hash_hex :: "(string \<Rightarrow> string) \<Rightarrow> domain \<Rightarrow> json \<Rightarrow> string result" where
  "hash_hex sha256 d v = rbind (hash_input d v) (\<lambda>bytes. Inr (hex (sha256 bytes)))"

definition digest :: "(string \<Rightarrow> string) \<Rightarrow> domain \<Rightarrow> json \<Rightarrow> string result" where
  "digest sha256 d v = rbind (hash_hex sha256 d v) (\<lambda>h. Inr (''sha256:'' @ h))"

definition identity :: "(string \<Rightarrow> string) \<Rightarrow> domain \<Rightarrow> json \<Rightarrow> string result" where
  "identity sha256 d v =
     rbind (domain_prefix d) (\<lambda>p. rbind (hash_hex sha256 d v) (\<lambda>h. Inr (p @ ''_'' @ h)))"

definition is_lower :: "char \<Rightarrow> bool" where
  "is_lower c \<longleftrightarrow> 97 \<le> byte c \<and> byte c \<le> 122"

definition outcome_digest :: "(string \<Rightarrow> string) \<Rightarrow> string \<Rightarrow> string \<Rightarrow> json \<Rightarrow> string result" where
  "outcome_digest sha256 profile label v =
     (if profile \<notin> set [''2-candidate.4'', ''reservation-settlement/1'']
        \<or> label = [] \<or> \<not> list_all (\<lambda>c. is_lower c \<or> c = CHR ''-'') label
      then Inl (Error ''HASH_DOMAIN'' ''unsupported outcome domain'')
      else rbind (from_value v) (\<lambda>bytes.
        Inr (''sha256:'' @ hex (sha256 (''ledgerlab/'' @ label @ ''/'' @ profile @ [CHR 0x00] @ bytes)))))"

definition hex_with_work :: "'w validation_work \<Rightarrow> string \<Rightarrow> ('w, string) metered" where
  "hex_with_work ops bytes =
     mfold (\<lambda>b out. mthen (scan_bytes ops 1) (mthen (write_bytes ops 2) (mok (out @ hex_byte b)))) bytes []"

end
