(* ===== verification/Json_Parser.thy ===== *)
theory Json_Parser
  imports Canonical
begin

text \<open>
  The bounded JSON parser of \<^verbatim>\<open>canonical/mod.rs\<close>: the lexical scanner, its allocation and work
  callbacks, and the entry points. The parser's position is the remaining input; the absolute
  position, which a few work callbacks are told, is the input length less that of the rest.
\<close>

section \<open>Callbacks and parameters\<close>

datatype parse_allocation =
    ArrayCapacity nat nat nat
  | ObjectEntry nat nat nat nat
  | StringDecode nat

record 'w alloc_work =
  validation :: "'w validation_work"
  before_allocation :: "parse_allocation \<Rightarrow> ('w, unit) metered"
  finish_allocation :: "parse_allocation \<Rightarrow> nat \<Rightarrow> ('w, unit) metered"

definition noop_alloc :: "unit alloc_work" where
  "noop_alloc =
     \<lparr>validation = noop_work,
      before_allocation = \<lambda>_ w. (Inr (), w),
      finish_allocation = \<lambda>_ _ w. (Inr (), w)\<rparr>"

text \<open>
  What the parser takes from elsewhere: \<open>serde_json\<close>'s decoding of one string token (the
  decoded text or the message of its error), the capacity of the string it returns, and the
  sizes of \<open>Value\<close> and \<open>String\<close>.
\<close>

record pinned =
  decode_token :: "string \<Rightarrow> string + string"
  string_capacity :: "string \<Rightarrow> nat"
  value_size :: nat
  string_size :: nat

record 'w parser =
  pin :: pinned
  alloc :: "'w alloc_work"
  audit_duplicates :: bool
  complete :: bool
  total :: nat

definition json_error :: "string \<Rightarrow> error" where
  "json_error detail = Error ''JSON'' detail"

definition number_error :: "string \<Rightarrow> error" where
  "number_error detail = Error ''JSON_NUMBER'' detail"

definition duplicate_key :: error where
  "duplicate_key = Error ''JSON_DUPLICATE_KEY'' ''duplicate object key''"

definition byte_pass_bound :: "'w validation_work \<Rightarrow> nat \<Rightarrow> nat \<Rightarrow> nat \<Rightarrow> ('w, nat) metered" where
  "byte_pass_bound ops n multiplier fixed =
     mthen (arithmetic ops OpMultiply [int n, int multiplier])
    (mbind (mlift (ok_or (checked_u64 (n * multiplier)) (Error ''LIMIT'' ''JSON byte accounting''))) (\<lambda>scaled.
     mthen (arithmetic ops OpAdd [int scaled, int fixed])
       (mlift (ok_or (checked_u64 (scaled + fixed)) (Error ''LIMIT'' ''JSON byte accounting'')))))"

section \<open>Tokens\<close>

definition is_space :: "char \<Rightarrow> bool" where
  "is_space c \<longleftrightarrow> c = CHR '' '' \<or> c = CHR 9 \<or> c = CHR 13 \<or> c = CHR 10"

definition space :: "string \<Rightarrow> string" where
  "space = dropWhile is_space"

definition take_token :: "char \<Rightarrow> string \<Rightarrow> string result" where
  "take_token c s = (case space s of
       c' # r \<Rightarrow> if c' = c then Inr r else Inl (json_error ''unexpected token'')
     | [] \<Rightarrow> Inl (json_error ''unexpected token''))"

text \<open>The loop over the body of a string; an escape skips two bytes, even past the end.\<close>

function scan_string :: "string \<Rightarrow> string result" where
  "scan_string [] = Inl (json_error ''unterminated string'')"
| "scan_string (c # r) =
     (if c = CHR ''\"'' then Inr r
      else if c = CHR 92 then scan_string (drop 1 r)
      else scan_string r)"
  by pat_completeness auto
termination by (relation "measure length") auto

definition position :: "'w parser \<Rightarrow> string \<Rightarrow> int" where
  "position p s = int (total p) - int (length s)"

definition parse_string :: "'w parser \<Rightarrow> string \<Rightarrow> ('w, string \<times> string) metered" where
  "parse_string p s =
     (let ops = validation (alloc p); start = space s in
      mbind (mlift (take_token (CHR ''\"'') start)) (\<lambda>body.
      mbind (mlift (scan_string body)) (\<lambda>rest.
      mbind (if complete p
             then usize_sub ops (nat (position p rest)) (nat (position p start))
             else mok (length start - length rest)) (\<lambda>encoded.
      mthen (before_allocation (alloc p) (StringDecode encoded))
     (mthen (if complete p then
               mbind (byte_pass_bound ops encoded 16 64) (\<lambda>scans.
               mthen (scan_bytes ops scans)
              (mbind (byte_pass_bound ops encoded 8 64) (\<lambda>writes. write_bytes ops writes)))
             else mok ())
     (mbind (mlift (case decode_token (pin p) (take (length start - length rest) start) of
               Inl message \<Rightarrow> Inl (json_error message)
             | Inr text \<Rightarrow> Inr text)) (\<lambda>decoded.
      mthen (finish_allocation (alloc p) (StringDecode encoded) (string_capacity (pin p) decoded))
      (mok (decoded, rest)))))))))"

definition literal :: "string \<Rightarrow> json \<Rightarrow> string \<Rightarrow> (json \<times> string) result" where
  "literal token v s =
     (if take (length token) s = token then Inr (v, drop (length token) s)
      else Inl (json_error ''literal''))"

text \<open>The digit loop of a number, with its checked \<open>i64\<close> arithmetic.\<close>

definition number_step :: "'w validation_work \<Rightarrow> bool \<Rightarrow> char \<Rightarrow> int \<Rightarrow> ('w, int) metered" where
  "number_step ops negative c n =
     mthen (visit ops VScalarDigit)
    (mthen (arithmetic ops OpMultiply [n, 10])
    (mbind (mlift (ok_or (checked_i64 (n * 10)) (number_error ''unsafe integer''))) (\<lambda>n.
     mthen (arithmetic ops (if negative then OpSubtract else OpAdd) [n, int (digit_val c)])
       (mlift (ok_or (checked_i64 (if negative then n - int (digit_val c) else n + int (digit_val c)))
                 (number_error ''unsafe integer''))))))"

definition parse_number :: "'w parser \<Rightarrow> string \<Rightarrow> ('w, json \<times> string) metered" where
  "parse_number p s =
     (let ops = validation (alloc p);
          negative = (case s of c # _ \<Rightarrow> c = CHR ''-'' | [] \<Rightarrow> False);
          body = (if negative then tl s else s);
          digits = takeWhile is_digit body;
          rest = dropWhile is_digit body in
      mthen (if complete p then
               mbind (usize_sub ops (nat (position p rest)) (nat (position p s))) (\<lambda>n. scan_bytes ops n)
             else mok ())
     (mthen (visit ops VConstraint)
     (mbind (if digits \<noteq> [] then
               mbind (compare ops (int (length digits)) 1) (\<lambda>c.
               if c = OrdGreater then mthen (visit ops VConstraint) (mok (hd digits = CHR ''0''))
               else mok False)
             else mok False) (\<lambda>leading.
      mthen (visit ops VConstraint)
     (if digits = [] \<or> leading \<or> negative \<and> digits = ''0''
      then merr (number_error ''noncanonical numeric token'')
      else
        mthen (visit ops VConstraint)
       (mthen (if complete p then scan_bytes ops (length digits) else mok ())
       (mbind (mfold (number_step ops negative) digits 0) (\<lambda>n.
        mbind (compare ops n (- SAFE)) (\<lambda>lower.
        mbind (if lower = OrdLess then mok True
               else mbind (compare ops n SAFE) (\<lambda>c. mok (c = OrdGreater))) (\<lambda>unsafe.
        if unsafe \<or> (case rest of c # _ \<Rightarrow> c = CHR ''.'' \<or> c = CHR ''e'' \<or> c = CHR ''E'' | [] \<Rightarrow> False)
        then merr (number_error ''only safe integer tokens allowed'')
        else mok (JInt n, rest)))))))))))"

section \<open>Values\<close>

text \<open>
  The loops of an object and of an array take the parser of a nested value as an argument. Each
  turn consumes at least one byte, so as many turns as there are bytes left are enough; the
  turn that would follow is never reached (\<open>parse_no_panic\<close>).
\<close>

definition check_duplicate :: "'w parser \<Rightarrow> (string \<times> json) list \<Rightarrow> string \<Rightarrow> ('w, unit) metered" where
  "check_duplicate p m key =
     (let ops = validation (alloc p) in
      if audit_duplicates p then
        mfold (\<lambda>existing _.
          mthen (visit ops VMemberCompare)
         (mthen (key_comparison_bytes ops existing key)
         (mthen (if complete p then key_comparison_bytes ops existing key else mok ())
         (if existing = key then merr duplicate_key else mok ()))))
          (map fst m) ()
      else mok ())"

definition insert_member ::
    "'w parser \<Rightarrow> string \<Rightarrow> json \<Rightarrow> (string \<times> json) list \<Rightarrow> ('w, (string \<times> json) list) metered" where
  "insert_member p key v m =
     mthen (check_duplicate p m key)
    (mthen (before_allocation (alloc p)
        (ObjectEntry (length m) (length key) (value_size (pin p)) (string_size (pin p))))
    (if \<not> audit_duplicates p \<and> map_of m key \<noteq> None then merr duplicate_key
     else mok (om_insert key v m)))"

primrec object_loop ::
    "'w parser \<Rightarrow> (string \<Rightarrow> nat \<Rightarrow> ('w, json \<times> string) metered) \<Rightarrow> nat \<Rightarrow> nat \<Rightarrow>
     (string \<times> json) list \<Rightarrow> string \<Rightarrow> ('w, json \<times> string) metered" where
  "object_loop p rec depth 0 m s = merr Panic"
| "object_loop p rec depth (Suc n) m s =
     (let ops = validation (alloc p) in
      mthen (visit ops VField)
     (mbind (parse_string p s) (\<lambda>(key, s).
      mbind (mlift (take_token (CHR '':'') s)) (\<lambda>s.
      mbind (usize_add ops depth 1) (\<lambda>child.
      mbind (rec s child) (\<lambda>(v, s).
      mbind (insert_member p key v m) (\<lambda>m.
      case space s of
        [] \<Rightarrow> merr (json_error ''unexpected token'')
      | c # r \<Rightarrow>
          if c = CHR ''}'' then mok (JObject m, r)
          else mbind (mlift (take_token (CHR '','') s)) (object_loop p rec depth n m))))))))"

definition reserve_element :: "'w parser \<Rightarrow> nat \<Rightarrow> nat \<Rightarrow> ('w, nat) metered" where
  "reserve_element p len capacity =
     (let ops = validation (alloc p) in
      mbind (compare ops (int len) (int capacity)) (\<lambda>full.
      if full = OrdEqual then
        mthen (arithmetic ops OpMultiply [int capacity, 2])
       (let doubled = min (capacity * 2) u64_max in
        mbind (compare ops (int doubled) 4) (\<lambda>small.
        let requested = (if small = OrdLess then 4 else doubled);
            request = ArrayCapacity capacity requested (value_size (pin p)) in
        mthen (before_allocation (alloc p) request)
       (mthen (arithmetic ops OpSubtract [int requested, int len])
       (mthen (arithmetic ops OpMultiply [int requested, int (value_size (pin p))])
       (mbind (mlift (ok_or (checked_u64 (requested * value_size (pin p)))
            (Error ''LIMIT'' ''JSON array allocation''))) (\<lambda>retained.
        mthen (finish_allocation (alloc p) request retained) (mok requested)))))))
      else mok capacity))"

primrec array_loop ::
    "'w parser \<Rightarrow> (string \<Rightarrow> nat \<Rightarrow> ('w, json \<times> string) metered) \<Rightarrow> nat \<Rightarrow> nat \<Rightarrow>
     json list \<Rightarrow> nat \<Rightarrow> string \<Rightarrow> ('w, json \<times> string) metered" where
  "array_loop p rec depth 0 vs capacity s = merr Panic"
| "array_loop p rec depth (Suc n) vs capacity s =
     (let ops = validation (alloc p) in
      mthen (visit ops VElement)
     (mbind (usize_add ops depth 1) (\<lambda>child.
      mbind (rec s child) (\<lambda>(v, s).
      mbind (reserve_element p (length vs) capacity) (\<lambda>capacity.
      case space s of
        [] \<Rightarrow> merr (json_error ''unexpected token'')
      | c # r \<Rightarrow>
          if c = CHR '']'' then mok (JArray (vs @ [v]), r)
          else mbind (mlift (take_token (CHR '','') s))
                 (array_loop p rec depth n (vs @ [v]) capacity))))))"

definition deep_json :: error where "deep_json = Error ''LIMIT'' ''JSON depth''"

definition parse_body ::
    "'w parser \<Rightarrow> (string \<Rightarrow> nat \<Rightarrow> ('w, json \<times> string) metered) \<Rightarrow>
     string \<Rightarrow> nat \<Rightarrow> ('w, json \<times> string) metered" where
  "parse_body p rec s depth =
     (let ops = validation (alloc p) in
      mthen (visit ops VValue)
     (case space s of
        [] \<Rightarrow> merr (json_error ''unexpected token or BOM'')
      | c # r \<Rightarrow>
          if c = CHR ''{'' then
            mbind (compare ops (int depth) 32) (\<lambda>ord.
            if ord \<noteq> OrdLess then merr deep_json
            else case space r of
              [] \<Rightarrow> object_loop p rec depth (Suc (length r)) [] []
            | c' # r' \<Rightarrow>
                if c' = CHR ''}'' then mok (JObject [], r')
                else object_loop p rec depth (Suc (length r)) [] (c' # r'))
          else if c = CHR ''['' then
            mbind (compare ops (int depth) 32) (\<lambda>ord.
            if ord \<noteq> OrdLess then merr deep_json
            else case space r of
              [] \<Rightarrow> array_loop p rec depth (Suc (length r)) [] 0 []
            | c' # r' \<Rightarrow>
                if c' = CHR '']'' then mok (JArray [], r')
                else array_loop p rec depth (Suc (length r)) [] 0 (c' # r'))
          else if c = CHR ''\"'' then
            mbind (parse_string p (c # r)) (\<lambda>(text, s). mok (JString text, s))
          else if c = CHR ''t'' then mlift (literal ''true'' (JBool True) (c # r))
          else if c = CHR ''f'' then mlift (literal ''false'' (JBool False) (c # r))
          else if c = CHR ''n'' then mlift (literal ''null'' JNull (c # r))
          else if c = CHR ''-'' \<or> is_digit c then parse_number p (c # r)
          else merr (json_error ''unexpected token or BOM'')))"

text \<open>\<open>value\<close> unfolded: a value at depth 32 has no children, so 33 levels are enough.\<close>

primrec parse_value :: "'w parser \<Rightarrow> nat \<Rightarrow> string \<Rightarrow> nat \<Rightarrow> ('w, json \<times> string) metered" where
  "parse_value p 0 = parse_body p (\<lambda>_ _. merr Panic)"
| "parse_value p (Suc k) = parse_body p (parse_value p k)"

section \<open>Entry points\<close>

definition parse_bounded_impl ::
    "pinned \<Rightarrow> 'w alloc_work \<Rightarrow> bool \<Rightarrow> bool \<Rightarrow> string \<Rightarrow> nat \<Rightarrow> ('w, json) metered" where
  "parse_bounded_impl serde aw audit compl bytes limit =
     (let ops = validation aw;
          p = \<lparr>pin = serde, alloc = aw, audit_duplicates = audit, complete = compl, total = length bytes\<rparr> in
      mbind (compare ops (int (length bytes)) (int limit)) (\<lambda>c.
      if c = OrdGreater then merr (Error ''LIMIT'' ''JSON bytes'')
      else
        mthen (scan_bytes ops (length bytes))
       (if \<not> valid_utf8 bytes then merr (json_error ''invalid UTF-8'')
        else
          mthen (if compl then
                   mbind (byte_pass_bound ops (length bytes) 32 16) (\<lambda>lexical. scan_bytes ops lexical)
                 else mok ())
         (mbind (parse_value p 33 bytes 0) (\<lambda>(v, rest).
          if space rest \<noteq> [] then merr (json_error ''trailing input'') else mok v)))))"

definition parse_bounded :: "pinned \<Rightarrow> string \<Rightarrow> nat \<Rightarrow> json result" where
  "parse_bounded serde bytes limit = fst (parse_bounded_impl serde noop_alloc False False bytes limit ())"

definition parse :: "pinned \<Rightarrow> string \<Rightarrow> json result" where
  "parse serde bytes = parse_bounded serde bytes CANDIDATE_LIMIT"

definition parse_bounded_with_allocations ::
    "pinned \<Rightarrow> 'w alloc_work \<Rightarrow> string \<Rightarrow> nat \<Rightarrow> ('w, json) metered" where
  "parse_bounded_with_allocations serde aw bytes limit = parse_bounded_impl serde aw True False bytes limit"

definition parse_bounded_with_allocations_complete ::
    "pinned \<Rightarrow> 'w alloc_work \<Rightarrow> string \<Rightarrow> nat \<Rightarrow> ('w, json) metered" where
  "parse_bounded_with_allocations_complete serde aw bytes limit = parse_bounded_impl serde aw True True bytes limit"

end
