(* ===== verification/Canonical_Laws.thy ===== *)
theory Canonical_Laws
  imports Canonical
begin

text \<open>
  The text the canonical emitter produces, as a function of the value, and the emitter's
  agreement with it under every meter and every destination.
\<close>

section \<open>The canonical text\<close>

definition jstring :: "string \<Rightarrow> string" where
  "jstring s = ''\"'' @ concat (map escape (chars s)) @ ''\"''"

fun join :: "string \<Rightarrow> string list \<Rightarrow> string" where
  "join sep [] = []"
| "join sep [x] = x"
| "join sep (x # y # xs) = x @ sep @ join sep (y # xs)"

lemma map_of_size:
  assumes "k \<in> fst ` set m"
  shows "size (the (map_of m k)) < Suc (size_list (size_prod (\<lambda>_. 0) size) m)"
proof -
  from assms have "map_of m k \<noteq> None" by (simp add: map_of_eq_None_iff)
  then obtain v where v: "map_of m k = Some v" by blast
  then have "(k, v) \<in> set m" by (rule map_of_SomeD)
  then have "size_prod (\<lambda>_. 0) size (k, v) \<le> size_list (size_prod (\<lambda>_. 0) size) m"
    by (intro size_list_estimation') auto
  with v show ?thesis by simp
qed

function jtext :: "json \<Rightarrow> string" where
  "jtext JNull = ''null''"
| "jtext (JBool b) = (if b then ''true'' else ''false'')"
| "jtext (JInt i) = int_str i"
| "jtext (JFloat s) = s"
| "jtext (JString s) = jstring s"
| "jtext (JArray vs) = ''['' @ join '','' (map jtext vs) @ '']''"
| "jtext (JObject m) =
     ''{'' @ join '','' (map (\<lambda>k. jstring k @ '':'' @ jtext (the (map_of m k)))
                          (sort_key encode_utf16 (map fst m))) @ ''}''"
  by pat_completeness auto
termination
proof (relation "measure size")
  fix m :: "(string \<times> json) list" and k
  assume "k \<in> set (sort_key encode_utf16 (map fst m))"
  then have "k \<in> fst ` set m" by simp
  from map_of_size[OF this] show "(the (map_of m k), JObject m) \<in> measure size" by simp
qed (auto simp: size_list_estimation less_Suc_eq_le intro!: size_list_estimation')

text \<open>
  What the emitter accepts: at most 32 levels of nesting, safe integers, no floats, and no null
  where the destination is bounded (\<open>strict\<close>).
\<close>

function emittable :: "bool \<Rightarrow> nat \<Rightarrow> json \<Rightarrow> bool" where
  "emittable strict d JNull \<longleftrightarrow> d \<le> 32 \<and> \<not> strict"
| "emittable strict d (JBool _) \<longleftrightarrow> d \<le> 32"
| "emittable strict d (JInt i) \<longleftrightarrow> d \<le> 32 \<and> \<bar>i\<bar> \<le> SAFE"
| "emittable strict d (JFloat _) \<longleftrightarrow> False"
| "emittable strict d (JString _) \<longleftrightarrow> d \<le> 32"
| "emittable strict d (JArray vs) \<longleftrightarrow> d \<le> 32 \<and> (\<forall>v \<in> set vs. emittable strict (Suc d) v)"
| "emittable strict d (JObject m) \<longleftrightarrow>
     d \<le> 32 \<and> (\<forall>k \<in> fst ` set m. emittable strict (Suc d) (the (map_of m k)))"
  by pat_completeness auto
termination
proof (relation "measure (\<lambda>(_, _, v). size v)")
  fix strict d and m :: "(string \<times> json) list" and k
  assume "k \<in> fst ` set m"
  from map_of_size[OF this]
  show "((strict, Suc d, the (map_of m k)), strict, d, JObject m) \<in> measure (\<lambda>(_, _, v). size v)"
    by simp
qed (auto simp: less_Suc_eq_le intro!: size_list_estimation')

lemma emittable_depth: "emittable strict d v \<Longrightarrow> d \<le> 32"
  by (cases v) auto

lemma emittable_lower: "emittable strict d v \<Longrightarrow> d' \<le> d \<Longrightarrow> emittable strict d' v"
proof (induction strict d v arbitrary: d' rule: emittable.induct)
  case (6 strict d vs)
  then show ?case by auto
next
  case (7 strict d m)
  then show ?case by auto
qed auto

section \<open>Appending to a destination\<close>

definition fits :: "destination \<Rightarrow> nat \<Rightarrow> bool" where
  "fits out n \<longleftrightarrow> (case dmaximum out of
       None \<Rightarrow> True
     | Some m \<Rightarrow> length (dbytes out) + n \<le> m \<and> length (dbytes out) + n \<le> u64_max)"

definition grow :: "destination \<Rightarrow> string \<Rightarrow> destination" where
  "grow out s = out\<lparr>
     dcapacity := (if dmaximum out = None then dcapacity out
                   else max (dcapacity out) (length (dbytes out @ s))),
     dbytes := dbytes out @ s\<rparr>"

lemma grow_fields [simp]:
  "dbytes (grow out s) = dbytes out @ s" "dmaximum (grow out s) = dmaximum out"
  "dcomplete (grow out s) = dcomplete out"
  by (simp_all add: grow_def)

lemma grow_grow [simp]: "grow (grow out s) t = grow out (s @ t)"
  by (auto simp: grow_def max_def)

lemma fits_grow [simp]: "fits out (length s) \<Longrightarrow> fits (grow out s) n \<longleftrightarrow> fits out (length s + n)"
  by (auto simp: fits_def add.assoc split: option.splits)

lemma fits_le: "fits out n \<Longrightarrow> k \<le> n \<Longrightarrow> fits out k"
  by (auto simp: fits_def split: option.splits)

lemma erases_over: "erases ops (over ops paid a b) (Inr (a > b))"
proof (cases paid)
  case True
  have "erases ops (mbind (compare ops (int a) (int b)) (\<lambda>c. mok (c = OrdGreater)))
      (Inr (cmp_of (int a) (int b) = OrdGreater))"
    by (rule erases_bind_ok[OF erases_compare]) (rule erases_ok)
  with True show ?thesis by (simp add: over_def)
next
  case False
  then show ?thesis by (simp add: over_def erases_ok)
qed

lemma prepare_erases:
  "erases ops (prepare ops n out)
     (if fits out n
      then Inr (out\<lparr>dcapacity := (if dmaximum out = None then dcapacity out
                  else max (dcapacity out) (length (dbytes out) + n))\<rparr>)
      else Inl destination_limit)"
proof (cases "dmaximum out")
  case None
  then show ?thesis by (auto simp: prepare_def fits_def intro!: erasure)
next
  case (Some m)
  let ?n = "length (dbytes out) + n"
  have guard: "erases ops (if dcomplete out then arithmetic ops OpAdd [int (length (dbytes out)), int n]
      else mok ()) (Inr ())" by (auto intro: erasure)
  show ?thesis
  proof (cases "?n \<le> u64_max")
    case False
    then have "checked_u64 ?n = None" by (simp add: checked_u64_def)
    then have "erases ops (prepare ops n out) (Inl destination_limit)"
      using Some by (simp add: prepare_def erases_then[OF guard erases_err])
    with Some False show ?thesis by (simp add: fits_def)
  next
    case True
    then have c: "checked_u64 ?n = Some ?n" by simp
    have over: "erases ops (if ?n > m then merr destination_limit
        else mthen (write_bytes ops n) (mbind (over ops (dcomplete out) ?n (dcapacity out)) (\<lambda>growth.
               mok (if growth then out\<lparr>dcapacity := ?n\<rparr> else out))))
        (if ?n > m then Inl destination_limit
         else Inr (out\<lparr>dcapacity := max (dcapacity out) ?n\<rparr>))"
      by (intro erases_if erases_err erases_then erases_write erases_bind_ok[OF erases_over])
        (auto simp: max_def intro!: erases_ok)
    have "erases ops (prepare ops n out) (if ?n > m then Inl destination_limit
         else Inr (out\<lparr>dcapacity := max (dcapacity out) ?n\<rparr>))"
      unfolding prepare_def Some option.case c ok_or_simps metered_simps
      by (rule erases_then[OF guard], rule erases_bind_ok[OF erases_over], rule over)
    with Some True show ?thesis by (cases "?n \<le> m") (simp_all add: fits_def)
  qed
qed

lemma append_erases:
  "erases ops (append_to ops s out)
     (if fits out (length s) then Inr (grow out s) else Inl destination_limit)"
proof -
  have "erases ops (append_to ops s out)
     (rbind (if fits out (length s)
        then Inr (out\<lparr>dcapacity := (if dmaximum out = None then dcapacity out
                  else max (dcapacity out) (length (dbytes out) + length s))\<rparr>)
        else Inl destination_limit) (\<lambda>d. Inr (d\<lparr>dbytes := dbytes d @ s\<rparr>)))"
    unfolding append_to_def by (rule erases_bind[OF prepare_erases erases_ok])
  then show ?thesis by (cases "dmaximum out") (simp_all add: grow_def split: if_splits)
qed

text \<open>
  \<open>emits ops m out t Q\<close>: the emitting step \<open>m\<close> appends the text \<open>t\<close> to \<open>out\<close>. It returns
  nothing else, and nothing at all unless \<open>Q\<close> holds and \<open>t\<close> fits; if both are so, only a
  refusal of the meter can stop it.
\<close>

definition emits ::
    "'w validation_work \<Rightarrow> ('w, destination) metered \<Rightarrow> destination \<Rightarrow> string \<Rightarrow> bool \<Rightarrow> bool" where
  "emits ops m out t Q \<longleftrightarrow>
     (Q \<and> fits out (length t) \<longrightarrow> erases ops m (Inr (grow out t)))
     \<and> yields m (\<lambda>d. d = grow out t \<and> fits out (length t) \<and> Q)"

lemma emits_append: "emits ops (append_to ops s out) out s True"
  unfolding emits_def using append_erases[of ops s out] erases_Inr[OF append_erases]
  by (fastforce simp: yields_def split: if_splits)

lemma emits_ok: "fits out (length s) \<Longrightarrow> emits ops (mok (grow out s)) (grow out s) [] True"
  by (auto simp: emits_def intro!: erases_ok yields_ok)

lemma emits_err: "emits ops (merr e) out t False"
  by (simp add: emits_def yields_err)

lemma emits_then:
  "erases ops m (Inr ()) \<Longrightarrow> emits ops f out t Q \<Longrightarrow> emits ops (mthen m f) out t Q"
  by (auto simp: emits_def intro: erases_then yields_then)

lemma emits_pure:
  assumes "erases ops m (Inr x)" and "emits ops (f x) out t Q"
  shows "emits ops (mbind m f) out t Q"
  using assms erases_yields[OF assms(1)]
  by (auto simp: emits_def intro: erases_bind_ok yields_bind)

lemma emits_bind:
  assumes m: "emits ops m out s P"
    and f: "fits out (length s) \<Longrightarrow> emits ops (f (grow out s)) (grow out s) t Q"
  shows "emits ops (mbind m f) out (s @ t) (P \<and> Q)"
  unfolding emits_def
proof (intro conjI impI)
  assume a: "(P \<and> Q) \<and> fits out (length (s @ t))"
  then have "fits out (length s)" by (auto elim: fits_le)
  with a m f show "erases ops (mbind m f) (Inr (grow out (s @ t)))"
    by (auto simp: emits_def intro: erases_bind_ok)
next
  have y: "yields m (\<lambda>d. d = grow out s \<and> fits out (length s) \<and> P)"
    using m by (simp add: emits_def)
  show "yields (mbind m f) (\<lambda>d. d = grow out (s @ t) \<and> fits out (length (s @ t)) \<and> P \<and> Q)"
  proof (rule yields_bind[OF y])
    fix x assume x: "x = grow out s \<and> fits out (length s) \<and> P"
    then have "yields (f (grow out s)) (\<lambda>d. d = grow (grow out s) t \<and> fits (grow out s) (length t) \<and> Q)"
      using f by (simp add: emits_def)
    with x show "yields (f x) (\<lambda>d. d = grow out (s @ t) \<and> fits out (length (s @ t)) \<and> P \<and> Q)"
      by (auto elim: yields_weaken)
  qed
qed

lemma emits_cong: "emits ops m out t Q \<Longrightarrow> t = t' \<Longrightarrow> Q = Q' \<Longrightarrow> emits ops m out t' Q'"
  by simp

lemma emits_mfold:
  assumes "\<And>x s. x \<in> set xs \<Longrightarrow> fits out (length s) \<Longrightarrow>
      emits ops (f x (grow out s)) (grow out s) (t x) (Q x)"
    and "fits out (length s)"
  shows "emits ops (mfold f xs (grow out s)) (grow out s) (concat (map t xs)) (\<forall>x \<in> set xs. Q x)"
  using assms
proof (induction xs arbitrary: s)
  case Nil
  then show ?case by (simp add: emits_ok)
next
  case (Cons x xs)
  have 1: "emits ops (f x (grow out s)) (grow out s) (t x) (Q x)"
    using Cons.prems by simp
  have 2: "emits ops (mfold f xs (grow (grow out s) (t x))) (grow (grow out s) (t x))
      (concat (map t xs)) (\<forall>x \<in> set xs. Q x)" if "fits (grow out s) (length (t x))"
    using Cons.IH[of "s @ t x"] Cons.prems that by simp
  have "emits ops (mbind (f x (grow out s)) (mfold f xs)) (grow out s)
      (t x @ concat (map t xs)) (Q x \<and> (\<forall>x \<in> set xs. Q x))"
    by (rule emits_bind[OF 1]) (rule 2)
  then show ?case by simp
qed

section \<open>Strings, integers and values\<close>

lemma emits_string: "emits ops (emit_string ops s out) out (jstring s) True"
proof -
  let ?body = "\<lambda>u out. mthen (scan_bytes ops (length u)) (append_to ops (escape u) out)"
  have loop: "emits ops (mfold ?body (chars s) (grow out q)) (grow out q)
      (concat (map escape (chars s))) (\<forall>u \<in> set (chars s). True)"
    if "fits out (length q)" for q
    using that by (intro emits_mfold emits_then erases_scan emits_append)
  have rest: "emits ops (mbind (mfold ?body (chars s) (grow out q)) (append_to ops ''\"'')) (grow out q)
      (concat (map escape (chars s)) @ ''\"'') ((\<forall>u \<in> set (chars s). True) \<and> True)"
    if "fits out (length q)" for q
    by (rule emits_bind[OF loop[OF that]]) (rule emits_append)
  have "emits ops (emit_string ops s out) out (''\"'' @ (concat (map escape (chars s)) @ ''\"''))
      (True \<and> ((\<forall>u \<in> set (chars s). True) \<and> True))"
    unfolding emit_string_def by (rule emits_bind[OF emits_append]) (rule rest)
  then show ?thesis by (simp add: jstring_def)
qed

lemma erases_usize_add [erasure]: "a + b \<le> u64_max \<Longrightarrow> erases ops (usize_add ops a b) (Inr (a + b))"
  unfolding usize_add_def by (intro erases_then erases_arithmetic) (simp add: trap_u64_def erases_lift)

lemma erases_remainder:
  "0 \<le> v \<Longrightarrow> erases ops (i64_remainder ops v 10) (Inr (v mod 10))"
  unfolding i64_remainder_def by (intro erases_then erases_arithmetic) (simp add: erases_lift)

lemma erases_divide:
  "0 \<le> v \<Longrightarrow> in_i64 v \<Longrightarrow> erases ops (i64_operation ops OpDivideRemainder v 10) (Inr (v div 10))"
proof -
  assume v: "0 \<le> v" "in_i64 v"
  then have "in_i64 (v div 10)" unfolding int_ranges by linarith
  with v show ?thesis
    unfolding i64_operation_def by (intro erases_then erases_arithmetic) (simp add: erases_lift)
qed

lemma erases_digit:
  "0 \<le> d \<Longrightarrow> d < 10 \<Longrightarrow> erases ops (i64_operation ops OpAdd d 48) (Inr (d + 48))"
proof -
  assume d: "0 \<le> d" "d < 10"
  then have "in_i64 (d + 48)" unfolding int_ranges by linarith
  then show ?thesis
    unfolding i64_operation_def by (intro erases_then erases_arithmetic) (simp add: erases_lift)
qed

lemma erases_integer_digits:
  assumes "in_i64 (int n)"
  shows "erases ops (integer_digits ops (int n) ds) (Inr (ds @ rev (nat_str n)))"
  using assms
proof (induction n arbitrary: ds rule: nat_str.induct)
  case (1 n)
  let ?d = "int n mod 10"
  have d: "char_of (nat (?d + 48)) = digit_char (n mod 10)"
  proof -
    have "nat (?d + 48) = 48 + n mod 10" unfolding zmod_int[of n 10, simplified, symmetric] by simp
    then show ?thesis by (simp only: digit_char_def)
  qed
  have q: "int n div 10 = int (n div 10)" by simp
  have rest: "erases ops (if cmp_of (int n div 10) 0 = OrdEqual then mok (ds @ [char_of (nat (?d + 48))])
      else integer_digits ops (int n div 10) (ds @ [char_of (nat (?d + 48))])) (Inr (ds @ rev (nat_str n)))"
  proof (cases "n < 10")
    case True
    then show ?thesis unfolding d by (simp add: nat_str.simps[of n] erases_ok)
  next
    case False
    have "in_i64 (int (n div 10))" using "1.prems" unfolding int_ranges by linarith
    from "1.IH"[OF False this, of "ds @ [digit_char (n mod 10)]"] False show ?thesis
      unfolding d q by (simp add: nat_str.simps[of n] div_eq_0_iff)
  qed
  show ?case
    unfolding integer_digits.simps[of ops "int n" ds]
    by (rule erases_bind_ok[OF erases_remainder] erases_bind_ok[OF erases_digit]
        erases_then[OF erases_write] erases_bind_ok[OF erases_divide]
        erases_bind_ok[OF erases_compare] rest | simp add: "1.prems")+
qed

lemma emits_digits:
  assumes "fits out (length q)"
  shows "emits ops (mfold (\<lambda>d out. append_to ops [d] out) s (grow out q)) (grow out q) s True"
proof -
  have "emits ops (mfold (\<lambda>d out. append_to ops [d] out) s (grow out q)) (grow out q)
      (concat (map (\<lambda>d. [d]) s)) (\<forall>d \<in> set s. True)"
    using assms by (intro emits_mfold emits_append)
  then show ?thesis by simp
qed

lemma emits_integer:
  assumes i: "\<bar>i\<bar> \<le> SAFE" and that: "fits out (length q)"
  shows "emits ops (emit_integer ops i (grow out q)) (grow out q) (int_str i) True"
proof -
  have r: "in_i64 \<bar>i\<bar>" "in_i64 (- i)" using i unfolding int_ranges SAFE_def by linarith+
  show ?thesis
  proof (cases "i < 0")
    case True
    then have v: "- i = int (nat (- i))" by simp
    then have dig: "erases ops (integer_digits ops (- i) []) (Inr (rev (nat_str (nat (- i)))))"
      using erases_integer_digits[of "nat (- i)" ops "[]"] r(2) by simp
    have neg: "erases ops (mthen (arithmetic ops OpNegate [i]) (mlift (trap_i64 (- i)))) (Inr (- i))"
      using r(2) by (simp add: erases_then erases_arithmetic erases_lift)
    have em: "emits ops (mbind (append_to ops ''-'' (grow out q)) (\<lambda>out.
        mfold (\<lambda>d out. append_to ops [d] out) (rev (rev (nat_str (nat (- i))))) out))
        (grow out q) (''-'' @ nat_str (nat (- i))) (True \<and> True)"
      by (rule emits_bind[OF emits_append]) (use that in \<open>simp add: emits_digits\<close>)
    show ?thesis
      using True em
      by (simp add: emit_integer_def int_str_def emits_pure[OF erases_compare] emits_pure[OF neg] emits_pure[OF dig])
  next
    case False
    then have dig: "erases ops (integer_digits ops i []) (Inr (rev (nat_str (nat i))))"
      using erases_integer_digits[of "nat i" ops "[]"] r(1) by simp
    show ?thesis
      using False emits_digits[OF that, of ops "nat_str (nat i)"]
      by (simp add: emit_integer_def int_str_def emits_pure[OF erases_compare] emits_pure[OF dig])
  qed
qed

text \<open>
  The representation invariant of a value: integers of the \<open>i64\<close> or \<open>u64\<close> range, well-formed
  strings no longer than \<open>isize::MAX\<close>, and objects in key order.
\<close>

definition str_ok :: "string \<Rightarrow> bool" where
  "str_ok s \<longleftrightarrow> valid_utf8 s \<and> length s \<le> isize_max"

fun json_ok :: "json \<Rightarrow> bool" where
  "json_ok JNull = True"
| "json_ok (JBool _) = True"
| "json_ok (JInt i) = (i64_min \<le> i \<and> i \<le> int u64_max)"
| "json_ok (JFloat _) = True"
| "json_ok (JString s) = str_ok s"
| "json_ok (JArray vs) = (\<forall>v \<in> set vs. json_ok v)"
| "json_ok (JObject m) = (om_ok m \<and> (\<forall>(k, v) \<in> set m. str_ok k \<and> json_ok v))"

lemma erases_compare_keys:
  assumes "str_ok a" and "str_ok b"
  shows "erases ops (compare_keys ops a b) (Inr (cmp_of (encode_utf16 a) (encode_utf16 b)))"
proof -
  have "length a + length b \<le> u64_max" using assms unfolding str_ok_def int_ranges by linarith
  then show ?thesis
    unfolding compare_keys_def key_comparison_bytes_def
    by (intro erases_then erases_visit erases_bind_ok[OF erases_usize_add] erases_scan erases_ok)
qed

text \<open>The members of a list separated by commas, as the indexed loops write them.\<close>

lemma concat_separated:
  "concat (map (\<lambda>(i, x). (if 0 < i then sep else []) @ t x) (enumerate n xs)) =
    (if 0 < n \<and> xs \<noteq> [] then sep else []) @ join sep (map t xs)"
proof (induction xs arbitrary: n)
  case (Cons x xs)
  show ?case
    using Cons.IH[of "Suc n"] by (cases xs) simp_all
qed simp

lemma emits_comma:
  "fits out (length q) \<Longrightarrow>
   emits ops (if 0 < i then append_to ops sep (grow out q) else mok (grow out q)) (grow out q)
     (if 0 < (i::nat) then sep else []) True"
  by (simp add: emits_append emits_ok)

lemma emits_number:
  assumes "fits out (length q)" and "json_ok (JInt i)"
  shows "emits ops (emit_number ops (JInt i) (grow out q)) (grow out q) (int_str i) (\<bar>i\<bar> \<le> SAFE)"
proof -
  have in64: "\<bar>i\<bar> \<le> SAFE \<Longrightarrow> in_i64 i" unfolding SAFE_def int_ranges by linarith
  show ?thesis
  proof (cases "\<bar>i\<bar> \<le> SAFE")
    case True
    then have "cmp_of i (- SAFE) \<noteq> OrdLess" "cmp_of i SAFE \<noteq> OrdGreater" by simp_all
    with True in64 emits_integer[OF True assms(1), of ops] show ?thesis
      unfolding emit_number_def json.case
      by (intro emits_then erases_visit)
        (simp add: emits_pure[OF erases_compare])
  next
    case False
    then have b: "i < - SAFE \<or> SAFE < i" by linarith
    have "emits ops (if in_i64 i then
              mbind (compare ops i (- SAFE)) (\<lambda>lower.
              if lower = OrdLess then merr unsafe_integer
              else mbind (compare ops i SAFE) (\<lambda>upper.
                if upper = OrdGreater then merr unsafe_integer
                else emit_integer ops i (grow out q)))
            else if dmaximum (grow out q) \<noteq> None then mthen (visit ops VConstraint) (merr unsafe_integer)
            else merr unsafe_integer) (grow out q) (int_str i) False"
      using False b
      by (auto intro!: emits_pure[OF erases_compare] emits_then[OF erases_visit] emits_err)
    with False show ?thesis
      unfolding emit_number_def json.case by (intro emits_then erases_visit) simp
  qed
qed

section \<open>The emitter writes the canonical text\<close>


lemma emits_separated:
  assumes g: "\<And>x s. x \<in> set xs \<Longrightarrow> fits out (length s) \<Longrightarrow>
      emits ops (g x (grow out s)) (grow out s) (u x) (Q x)"
    and q: "fits out (length q)"
  shows "emits ops (mfold (\<lambda>(i, x) out. mthen (visit ops K)
      (mbind (if 0 < i then append_to ops '','' out else mok out) (\<lambda>out. g x out)))
      (enumerate 0 xs) (grow out q)) (grow out q) (join '','' (map u xs)) (\<forall>x \<in> set xs. Q x)"
proof -
  let ?body = "\<lambda>(i, x) out. mthen (visit ops K)
      (mbind (if 0 < i then append_to ops '','' out else mok out) (\<lambda>out. g x out))"
  let ?sep = "\<lambda>i::nat. if 0 < i then '','' else []"
  let ?t = "\<lambda>(i, x). ?sep i @ u x"
  have "emits ops (mfold ?body (enumerate 0 xs) (grow out q)) (grow out q)
      (concat (map ?t (enumerate 0 xs))) (\<forall>x \<in> set (enumerate 0 xs). Q (snd x))"
  proof (rule emits_mfold[OF _ q])
    fix p and s :: string
    assume p: "p \<in> set (enumerate 0 xs)" and s: "fits out (length s)"
    obtain i x where x: "p = (i, x)" by (cases p)
    from p have "snd p \<in> set (map snd (enumerate 0 xs))" by (simp del: map_snd_enumerate)
    then have xs: "x \<in> set xs" by (simp add: x)
    have "emits ops (g x (grow (grow out s) (?sep i))) (grow (grow out s) (?sep i)) (u x) (Q x)"
      if "fits (grow out s) (length (?sep i))"
      using g[OF xs, of "s @ ?sep i"] that s by simp
    then have "emits ops (mbind (if 0 < i then append_to ops '','' (grow out s) else mok (grow out s))
        (\<lambda>out. g x out)) (grow out s) (?sep i @ u x) (True \<and> Q x)"
      by (rule emits_bind[OF emits_comma[OF s]])
    then show "emits ops (?body p (grow out s)) (grow out s) (?t p) (Q (snd p))"
      unfolding x prod.case snd_conv by (intro emits_then[OF erases_visit]) simp
  qed
  moreover have "(\<forall>x \<in> set (enumerate 0 xs). Q (snd x)) \<longleftrightarrow> (\<forall>x \<in> set xs. Q x)"
  proof -
    have "set xs = snd ` set (enumerate 0 xs)" by (metis list.set_map map_snd_enumerate)
    then show ?thesis by (simp only: ball_simps(9))
  qed
  moreover have "concat (map ?t (enumerate 0 xs)) = join '','' (map u xs)"
    using concat_separated[of "'',''" u 0 xs] by simp
  ultimately show ?thesis by simp
qed

lemma emits_brackets:
  assumes "\<And>s. fits out (length s) \<Longrightarrow> emits ops (m (grow out s)) (grow out s) t Q"
    and q: "fits out (length q)"
  shows "emits ops (mbind (append_to ops a (grow out q)) (\<lambda>out.
      mbind (m out) (\<lambda>out. append_to ops b out))) (grow out q) (a @ t @ b) Q"
proof -
  have "emits ops (mbind (m (grow (grow out q) a)) (\<lambda>out. append_to ops b out)) (grow (grow out q) a)
      (t @ b) (Q \<and> True)" if "fits (grow out q) (length a)"
    using assms that by (intro emits_bind emits_append) simp
  then have "emits ops (mbind (append_to ops a (grow out q)) (\<lambda>out.
      mbind (m out) (\<lambda>out. append_to ops b out))) (grow out q) (a @ (t @ b)) (True \<and> (Q \<and> True))"
    by (rule emits_bind[OF emits_append])
  then show ?thesis by simp
qed

lemma depth_next: "d \<le> 32 \<Longrightarrow> erases ops (usize_add ops d 1) (Inr (Suc d))"
  using erases_usize_add[of d 1 ops] by (simp add: int_ranges)

lemma emits_array:
  assumes v: "\<And>v q. v \<in> set vs \<Longrightarrow> fits out (length q) \<Longrightarrow>
      emits ops (rec v (grow out q) (Suc d)) (grow out q) (jtext v) (E v)"
    and d: "d \<le> 32" and q: "fits out (length q)"
  shows "emits ops (emit_value ops rec (JArray vs) (grow out q) d) (grow out q)
    (jtext (JArray vs)) (\<forall>v \<in> set vs. E v)"
proof -
  have item: "emits ops (mbind (usize_add ops d 1) (\<lambda>next'. rec v (grow out s) next')) (grow out s) (jtext v) (E v)"
    if "v \<in> set vs" "fits out (length s)" for v s
    using v[OF that] by (rule emits_pure[OF depth_next[OF d]])
  have loop: "emits ops (mfold (\<lambda>(i, v) out. mthen (visit ops VElement)
      (mbind (if 0 < i then append_to ops '','' out else mok out) (\<lambda>out.
       mbind (usize_add ops d 1) (\<lambda>next'. rec v out next')))) (enumerate 0 vs) (grow out s))
      (grow out s) (join '','' (map jtext vs)) (\<forall>v \<in> set vs. E v)" if "fits out (length s)" for s
    by (rule emits_separated[OF item that])
  have c: "(cmp_of (int d) 32 = OrdGreater) = False" using d by simp
  show ?thesis
    unfolding emit_value_def jtext.simps
    by (rule emits_then[OF erases_visit], rule emits_pure[OF erases_compare],
        simp only: c if_False json.case, rule emits_brackets[OF _ q], rule loop)
qed

lemma emits_object:
  assumes v: "\<And>k v q. (k, v) \<in> set m \<Longrightarrow> fits out (length q) \<Longrightarrow>
      emits ops (rec v (grow out q) (Suc d)) (grow out q) (jtext v) (E v)"
    and ok: "\<forall>k \<in> fst ` set m. str_ok k"
    and d: "d \<le> 32" and q: "fits out (length q)"
  shows "emits ops (emit_value ops rec (JObject m) (grow out q) d) (grow out q)
    (jtext (JObject m)) (\<forall>k \<in> fst ` set m. E (the (map_of m k)))"
proof -
  let ?keys = "sort_key encode_utf16 (map fst m)"
  let ?val = "\<lambda>k. the (map_of m k)"
  have sorted: "erases ops (sorted_by ops (compare_keys ops) (map fst m)) (Inr ?keys)"
    using ok by (intro erases_sorted_by erases_compare_keys) auto
  let ?g = "\<lambda>k out. mbind (emit_string ops k out) (\<lambda>out. mbind (append_to ops '':'' out) (\<lambda>out.
      mthen (visit ops VRefLookup) (mbind (usize_add ops d 1) (\<lambda>next'.
      mbind (mlift (ok_or (map_of m k) Panic)) (\<lambda>item. rec item out next')))))"
  have member: "emits ops (?g k (grow out s)) (grow out s) (jstring k @ '':'' @ jtext (?val k)) (E (?val k))"
    if "k \<in> set ?keys" "fits out (length s)" for k s
  proof -
    from that(1) have "map_of m k \<noteq> None" by (simp add: map_of_eq_None_iff)
    then obtain v where mv: "map_of m k = Some v" by blast
    then have kv: "(k, v) \<in> set m" by (rule map_of_SomeD)
    have 1: "emits ops (mthen (visit ops VRefLookup) (mbind (usize_add ops d 1) (\<lambda>next'.
        mbind (mlift (ok_or (map_of m k) Panic)) (\<lambda>item. rec item (grow out s') next'))))
        (grow out s') (jtext v) (E v)" if "fits out (length s')" for s'
      using v[OF kv that] mv by (intro emits_then[OF erases_visit] emits_pure[OF depth_next[OF d]]) simp
    have 2: "emits ops (mbind (append_to ops '':'' (grow out s')) (\<lambda>out.
        mthen (visit ops VRefLookup) (mbind (usize_add ops d 1) (\<lambda>next'.
        mbind (mlift (ok_or (map_of m k) Panic)) (\<lambda>item. rec item out next')))))
        (grow out s') ('':'' @ jtext v) (True \<and> E v)" if "fits out (length s')" for s'
      using that by (intro emits_bind[OF emits_append]) (use 1[of "s' @ '':''"] in simp)
    have "emits ops (?g k (grow out s)) (grow out s) (jstring k @ ('':'' @ jtext v)) (True \<and> (True \<and> E v))"
      using that(2) by (intro emits_bind[OF emits_string]) (use 2[of "s @ jstring k"] in simp)
    with mv show ?thesis by simp
  qed
  have loop: "emits ops (mfold (\<lambda>(i, k) out. mthen (visit ops VField)
      (mbind (if 0 < i then append_to ops '','' out else mok out) (\<lambda>out. ?g k out)))
      (enumerate 0 ?keys) (grow out s)) (grow out s)
      (join '','' (map (\<lambda>k. jstring k @ '':'' @ jtext (?val k)) ?keys)) (\<forall>k \<in> set ?keys. E (?val k))"
    if "fits out (length s)" for s
    by (rule emits_separated[OF member that])
  have c: "(cmp_of (int d) 32 = OrdGreater) = False" using d by simp
  have keys: "fst ` set m = set ?keys" by simp
  show ?thesis
    unfolding emit_value_def jtext.simps keys
    by (rule emits_then[OF erases_visit], rule emits_pure[OF erases_compare],
        simp only: c if_False json.case, rule emits_pure[OF sorted],
        rule emits_brackets[OF _ q], rule loop)
qed

lemma emits_too_deep:
  "32 < d \<Longrightarrow> emits ops (emit_value ops rec v out d) out t (emittable strict d v)"
proof -
  assume d: "32 < d"
  then have "\<not> emittable strict d v" using emittable_depth by fastforce
  moreover have "cmp_of (int d) 32 = OrdGreater" using d by simp
  ultimately show ?thesis
    unfolding emit_value_def
    by (intro emits_then[OF erases_visit] emits_pure[OF erases_compare]) (simp add: emits_err)
qed

lemma emits_leaf:
  assumes "d \<le> 32" and "fits out (length q)" and "json_ok v"
    and "\<And>vs. v \<noteq> JArray vs" and "\<And>m. v \<noteq> JObject m"
  shows "emits ops (emit_value ops rec v (grow out q) d) (grow out q) (jtext v)
    (emittable (dmaximum out \<noteq> None) d v)"
proof -
  have c: "cmp_of (int d) 32 \<noteq> OrdGreater" using assms(1) by simp
  have fl: "emits ops (emit_number ops (JFloat x) (grow out q)) (grow out q) t False" for x t
    unfolding emit_number_def json.case
    by (auto intro!: emits_then[OF erases_visit] emits_err)
  show ?thesis
    unfolding emit_value_def
    by (intro emits_then[OF erases_visit] emits_pure[OF erases_compare])
      (use assms c in \<open>cases v; auto simp: emits_append emits_string emits_number emits_err fl
        simp del: json_ok.simps(3)\<close>)
qed

text \<open>
  The emitter, under any meter and into any destination, appends exactly the canonical text of
  the value; it accepts exactly the emittable values whose text fits.
\<close>

lemma emits_emit_at:
  assumes "json_ok v" and "fits out (length q)" and "33 \<le> k + d"
  shows "emits ops (emit_at ops k v (grow out q) d) (grow out q) (jtext v)
    (emittable (dmaximum out \<noteq> None) d v)"
  using assms
proof (induction k arbitrary: v d q)
  case 0
  then show ?case by (simp add: emits_too_deep)
next
  case (Suc k)
  show ?case
  proof (cases "32 < d")
    case True
    then show ?thesis by (simp add: emits_too_deep)
  next
    case False
    then have d: "d \<le> 32" by simp
    have IH: "emits ops (emit_at ops k v' (grow out q') (Suc d)) (grow out q') (jtext v')
        (emittable (dmaximum out \<noteq> None) (Suc d) v')" if "json_ok v'" "fits out (length q')" for v' q'
      using Suc.IH[OF that] Suc.prems(3) by simp
    show ?thesis
    proof (cases v)
      case (JArray vs)
      have "emits ops (emit_value ops (emit_at ops k) (JArray vs) (grow out q) d) (grow out q)
          (jtext (JArray vs)) (\<forall>v \<in> set vs. emittable (dmaximum out \<noteq> None) (Suc d) v)"
        by (rule emits_array[OF _ d Suc.prems(2)], rule IH) (use Suc.prems(1) JArray in auto)
      with JArray d show ?thesis by simp
    next
      case (JObject m)
      have "emits ops (emit_value ops (emit_at ops k) (JObject m) (grow out q) d) (grow out q)
          (jtext (JObject m)) (\<forall>x \<in> fst ` set m. emittable (dmaximum out \<noteq> None) (Suc d) (the (map_of m x)))"
        by (rule emits_object[OF _ _ d Suc.prems(2)], rule IH) (use Suc.prems(1) JObject in auto)
      with JObject d show ?thesis by simp
    qed (use emits_leaf[OF d Suc.prems(2,1)] in \<open>simp_all split del: if_split\<close>)
  qed
qed

lemma emits_emit:
  assumes "json_ok v" and "dbytes out = []" and "dcapacity out = 0"
  shows "emits ops (emit ops v out 0) out (jtext v) (emittable (dmaximum out \<noteq> None) 0 v)"
proof -
  have "grow out [] = out" using assms by (cases out) (simp add: grow_def)
  moreover have "fits out (length [])" if "fits out (length (jtext v))" using that by (auto elim: fits_le)
  moreover have "\<not> fits out 0 \<Longrightarrow> \<exists>m. dmaximum out = Some m" by (auto simp: fits_def split: option.splits)
  moreover have "fits out 0" using assms(2) by (auto simp: fits_def split: option.splits)
  ultimately show ?thesis
    using emits_emit_at[OF assms(1), of out "[]" 33 0 ops] by (simp add: emit_def)
qed

end
