(* ===== verification/Json_Laws.thy ===== *)
theory Json_Laws
  imports Json_Parser Canonical_Laws
begin

text \<open>
  The parser's laws: a reference parser without callbacks that every metered or audited run
  agrees with, freedom from panics, the shape of what is accepted, and the round trip with the
  canonical emitter.
\<close>

section \<open>The reference parser\<close>

definition q_string :: "pinned \<Rightarrow> string \<Rightarrow> (string \<times> string) result" where
  "q_string serde s =
     rbind (take_token (CHR ''\"'') (space s)) (\<lambda>body.
     rbind (scan_string body) (\<lambda>rest.
     case decode_token serde (take (length (space s) - length rest) (space s)) of
       Inl message \<Rightarrow> Inl (json_error message)
     | Inr text \<Rightarrow> Inr (text, rest)))"

definition q_step :: "bool \<Rightarrow> char \<Rightarrow> int \<Rightarrow> int result" where
  "q_step negative c n =
     rbind (ok_or (checked_i64 (n * 10)) (number_error ''unsafe integer'')) (\<lambda>n.
     ok_or (checked_i64 (if negative then n - int (digit_val c) else n + int (digit_val c)))
       (number_error ''unsafe integer''))"

definition ends_fraction :: "string \<Rightarrow> bool" where
  "ends_fraction s = (case s of
     c # _ \<Rightarrow> c = CHR ''.'' \<or> c = CHR ''e'' \<or> c = CHR ''E'' | [] \<Rightarrow> False)"

definition q_number :: "string \<Rightarrow> (json \<times> string) result" where
  "q_number s =
     (let negative = (case s of c # _ \<Rightarrow> c = CHR ''-'' | [] \<Rightarrow> False);
          body = (if negative then tl s else s);
          digits = takeWhile is_digit body;
          rest = dropWhile is_digit body in
      if digits = [] \<or> length digits > 1 \<and> hd digits = CHR ''0'' \<or> negative \<and> digits = ''0''
      then Inl (number_error ''noncanonical numeric token'')
      else rbind (rfold (q_step negative) digits 0) (\<lambda>n.
        if \<bar>n\<bar> > SAFE \<or> ends_fraction rest
        then Inl (number_error ''only safe integer tokens allowed'')
        else Inr (JInt n, rest)))"

definition q_insert :: "string \<Rightarrow> json \<Rightarrow> (string \<times> json) list \<Rightarrow> (string \<times> json) list result" where
  "q_insert key v m =
     (if map_of m key \<noteq> None then Inl duplicate_key else Inr (om_insert key v m))"

primrec q_object :: "pinned \<Rightarrow> (string \<Rightarrow> nat \<Rightarrow> (json \<times> string) result) \<Rightarrow> nat \<Rightarrow> nat \<Rightarrow>
     (string \<times> json) list \<Rightarrow> string \<Rightarrow> (json \<times> string) result" where
  "q_object serde rec d 0 m s = Inl Panic"
| "q_object serde rec d (Suc n) m s =
     rbind (q_string serde s) (\<lambda>(key, s).
     rbind (take_token (CHR '':'') s) (\<lambda>s.
     rbind (rec s (Suc d)) (\<lambda>(v, s).
     rbind (q_insert key v m) (\<lambda>m.
     case space s of
       [] \<Rightarrow> Inl (json_error ''unexpected token'')
     | c # r \<Rightarrow>
         if c = CHR ''}'' then Inr (JObject m, r)
         else rbind (take_token (CHR '','') s) (q_object serde rec d n m)))))"

primrec q_array :: "(string \<Rightarrow> nat \<Rightarrow> (json \<times> string) result) \<Rightarrow> nat \<Rightarrow> nat \<Rightarrow>
     json list \<Rightarrow> string \<Rightarrow> (json \<times> string) result" where
  "q_array rec d 0 vs s = Inl Panic"
| "q_array rec d (Suc n) vs s =
     rbind (rec s (Suc d)) (\<lambda>(v, s).
     case space s of
       [] \<Rightarrow> Inl (json_error ''unexpected token'')
     | c # r \<Rightarrow>
         if c = CHR '']'' then Inr (JArray (vs @ [v]), r)
         else rbind (take_token (CHR '','') s) (q_array rec d n (vs @ [v])))"

definition q_body :: "pinned \<Rightarrow> (string \<Rightarrow> nat \<Rightarrow> (json \<times> string) result) \<Rightarrow>
     string \<Rightarrow> nat \<Rightarrow> (json \<times> string) result" where
  "q_body serde rec s d =
     (case space s of
        [] \<Rightarrow> Inl (json_error ''unexpected token or BOM'')
      | c # r \<Rightarrow>
          if c = CHR ''{'' then
            if d \<ge> 32 then Inl deep_json
            else case space r of
              [] \<Rightarrow> q_object serde rec d (Suc (length r)) [] []
            | c' # r' \<Rightarrow>
                if c' = CHR ''}'' then Inr (JObject [], r')
                else q_object serde rec d (Suc (length r)) [] (c' # r')
          else if c = CHR ''['' then
            if d \<ge> 32 then Inl deep_json
            else case space r of
              [] \<Rightarrow> q_array rec d (Suc (length r)) [] []
            | c' # r' \<Rightarrow>
                if c' = CHR '']'' then Inr (JArray [], r')
                else q_array rec d (Suc (length r)) [] (c' # r')
          else if c = CHR ''\"'' then rbind (q_string serde (c # r)) (\<lambda>(text, s). Inr (JString text, s))
          else if c = CHR ''t'' then literal ''true'' (JBool True) (c # r)
          else if c = CHR ''f'' then literal ''false'' (JBool False) (c # r)
          else if c = CHR ''n'' then literal ''null'' JNull (c # r)
          else if c = CHR ''-'' \<or> is_digit c then q_number (c # r)
          else Inl (json_error ''unexpected token or BOM''))"

primrec q_value :: "pinned \<Rightarrow> nat \<Rightarrow> string \<Rightarrow> nat \<Rightarrow> (json \<times> string) result" where
  "q_value serde 0 = q_body serde (\<lambda>_ _. Inl Panic)"
| "q_value serde (Suc k) = q_body serde (q_value serde k)"

definition q_parse :: "pinned \<Rightarrow> string \<Rightarrow> nat \<Rightarrow> json result" where
  "q_parse serde bytes limit =
     (if length bytes > limit then Inl (Error ''LIMIT'' ''JSON bytes'')
      else if \<not> valid_utf8 bytes then Inl (json_error ''invalid UTF-8'')
      else rbind (q_value serde 33 bytes 0) (\<lambda>(v, rest).
        if space rest \<noteq> [] then Inl (json_error ''trailing input'') else Inr v))"

section \<open>Consumption\<close>

lemma space_length: "length (space s) \<le> length s"
  by (simp add: space_def length_dropWhile_le)

lemma space_space [simp]: "space (space s) = space s"
  by (induction s) (simp_all add: space_def)

lemma take_token_length: "take_token c s = Inr r \<Longrightarrow> length r < length s"
  using space_length[of s] by (auto simp: take_token_def split: list.splits if_splits)

lemma scan_string_length: "scan_string s = Inr r \<Longrightarrow> length r < length s"
  by (induction s rule: scan_string.induct) (fastforce split: if_splits)+

lemma q_string_length: "q_string serde s = Inr (t, r) \<Longrightarrow> length r < length s"
  using space_length[of s]
  by (fastforce simp: q_string_def dest!: take_token_length scan_string_length split: sum.splits)

text \<open>A parser of nested values consumes input; then so do the loops over it.\<close>

definition shrinks :: "(string \<Rightarrow> nat \<Rightarrow> (json \<times> string) result) \<Rightarrow> bool" where
  "shrinks rec \<longleftrightarrow> (\<forall>s d v r. rec s d = Inr (v, r) \<longrightarrow> length r < length s)"

lemma space_Cons_length: "space s = c # r \<Longrightarrow> length r < length s"
  using space_length[of s] by simp

lemma q_object_length:
  "shrinks rec \<Longrightarrow> q_object serde rec d n m s = Inr (v, r) \<Longrightarrow> length r < length s"
proof (induction n arbitrary: m s)
  case (Suc n)
  from Suc.prems(2) obtain key s1 s2 v1 s3 m1 where
    1: "q_string serde s = Inr (key, s1)" and 2: "take_token (CHR '':'') s1 = Inr s2"
    and 3: "rec s2 (Suc d) = Inr (v1, s3)"
    and 4: "(case space s3 of [] \<Rightarrow> Inl (json_error ''unexpected token'')
      | c # r \<Rightarrow> if c = CHR ''}'' then Inr (JObject m1, r)
         else rbind (take_token (CHR '','') s3) (q_object serde rec d n m1)) = Inr (v, r)"
    by (fastforce split: prod.splits)
  have len: "length s3 < length s"
    using q_string_length[OF 1] take_token_length[OF 2] 3 Suc.prems(1)[unfolded shrinks_def] by fastforce
  from 4 obtain c r' where sp: "space s3 = c # r'" by (cases "space s3") auto
  show ?case
  proof (cases "c = CHR ''}''")
    case True
    with 4 sp len space_Cons_length[OF sp] show ?thesis by simp
  next
    case False
    with 4 sp obtain s4 where "take_token (CHR '','') s3 = Inr s4" "q_object serde rec d n m1 s4 = Inr (v, r)"
      by auto
    with Suc.IH[OF Suc.prems(1), of m1 s4] len take_token_length[of _ s3 s4] show ?thesis by fastforce
  qed
qed simp

lemma q_array_length:
  "shrinks rec \<Longrightarrow> q_array rec d n vs s = Inr (v, r) \<Longrightarrow> length r < length s"
proof (induction n arbitrary: vs s)
  case (Suc n)
  from Suc.prems(2) obtain v1 s3 where 3: "rec s (Suc d) = Inr (v1, s3)"
    and 4: "(case space s3 of [] \<Rightarrow> Inl (json_error ''unexpected token'')
      | c # r \<Rightarrow> if c = CHR '']'' then Inr (JArray (vs @ [v1]), r)
         else rbind (take_token (CHR '','') s3) (q_array rec d n (vs @ [v1]))) = Inr (v, r)"
    by (fastforce split: prod.splits)
  have len: "length s3 < length s" using 3 Suc.prems(1)[unfolded shrinks_def] by fastforce
  from 4 obtain c r' where sp: "space s3 = c # r'" by (cases "space s3") auto
  show ?case
  proof (cases "c = CHR '']''")
    case True
    with 4 sp len space_Cons_length[OF sp] show ?thesis by simp
  next
    case False
    with 4 sp obtain s4 where "take_token (CHR '','') s3 = Inr s4" "q_array rec d n (vs @ [v1]) s4 = Inr (v, r)"
      by auto
    with Suc.IH[OF Suc.prems(1), of "vs @ [v1]" s4] len take_token_length[of _ s3 s4] show ?thesis by fastforce
  qed
qed simp

lemma literal_length: "literal t v s = Inr (v', r) \<Longrightarrow> t \<noteq> [] \<Longrightarrow> length r < length s"
  by (cases s) (auto simp: literal_def split: if_splits)

lemma q_number_length: "q_number s = Inr (v, r) \<Longrightarrow> length r < length s"
proof -
  assume a: "q_number s = Inr (v, r)"
  let ?neg = "case s of c # _ \<Rightarrow> c = CHR ''-'' | [] \<Rightarrow> False"
  let ?body = "if ?neg then tl s else s"
  have d: "takeWhile is_digit ?body \<noteq> []" and r: "r = dropWhile is_digit ?body"
    using a by (auto simp: q_number_def Let_def split: if_splits)
  have "length (takeWhile is_digit ?body) + length (dropWhile is_digit ?body) = length ?body"
    by (metis length_append takeWhile_dropWhile_id)
  then have "length r < length ?body" using d r by (cases "takeWhile is_digit ?body") auto
  then show ?thesis by (simp split: if_splits)
qed

text \<open>What a successful turn of the value parser read.\<close>

lemma q_body_Inr_cases:
  assumes "q_body serde rec s d = Inr (v, r)"
  obtains
    (empty_object) u where "space s = CHR ''{'' # u" "d < 32" "space u = CHR ''}'' # r" "v = JObject []"
  | (object) u where "space s = CHR ''{'' # u" "d < 32"
      "q_object serde rec d (Suc (length u)) [] (space u) = Inr (v, r)"
  | (empty_array) u where "space s = CHR ''['' # u" "d < 32" "space u = CHR '']'' # r" "v = JArray []"
  | (array) u where "space s = CHR ''['' # u" "d < 32"
      "q_array rec d (Suc (length u)) [] (space u) = Inr (v, r)"
  | (string) t where "q_string serde (space s) = Inr (t, r)" "v = JString t"
  | (literal) t w where "literal t w (space s) = Inr (v, r)" "t \<noteq> []" "w \<in> {JBool True, JBool False, JNull}"
  | (number) "q_number (space s) = Inr (v, r)"
proof (cases "space s")
  case Nil
  with assms show thesis by (simp add: q_body_def)
next
  case (Cons c u)
  note q = assms[unfolded q_body_def Cons list.case]
  consider "c = CHR ''{''" | "c = CHR ''[''" | "c = CHR ''\"''" | "c = CHR ''t''" | "c = CHR ''f''"
    | "c = CHR ''n''" | "c \<notin> {CHR ''{'', CHR ''['', CHR ''\"'', CHR ''t'', CHR ''f'', CHR ''n''}"
    by blast
  then show thesis
  proof cases
    case 1
    then have d: "d < 32" using q by (auto simp del: q_object.simps split: if_splits)
    show thesis
      using q 1 d Cons empty_object object
      by (cases "space u") (auto simp del: q_object.simps split: if_splits)
  next
    case 2
    then have d: "d < 32" using q by (auto simp del: q_array.simps split: if_splits)
    show thesis
      using q 2 d Cons empty_array array
      by (cases "space u") (auto simp del: q_array.simps split: if_splits)
  next
    case 3
    with q Cons string show thesis by auto
  next
    case 4
    with q Cons literal[of "''true''" "JBool True"] show thesis by simp
  next
    case 5
    with q Cons literal[of "''false''" "JBool False"] show thesis by simp
  next
    case 6
    with q Cons literal[of "''null''" JNull] show thesis by simp
  next
    case 7
    with q Cons number show thesis by (simp split: if_splits)
  qed
qed

lemma q_body_shrinks: "shrinks rec \<Longrightarrow> shrinks (q_body serde rec)"
  unfolding shrinks_def[of "q_body serde rec"]
proof (intro allI impI)
  fix s d v r
  assume rec: "shrinks rec" and q: "q_body serde rec s d = Inr (v, r)"
  have sub: "length u < length s" "length (space u) < length s" if "space s = c # u" for c u
    using space_Cons_length[OF that] space_length[of u] by simp_all
  note le = space_length[of s]
  from q show "length r < length s"
  proof (cases rule: q_body_Inr_cases)
    case (empty_object u)
    with sub[of _ u] space_Cons_length[of u] show ?thesis by fastforce
  next
    case (object u)
    with sub[of _ u] q_object_length[OF rec object(3)] show ?thesis by simp
  next
    case (empty_array u)
    with sub[of _ u] space_Cons_length[of u] show ?thesis by fastforce
  next
    case (array u)
    with sub[of _ u] q_array_length[OF rec array(3)] show ?thesis by simp
  next
    case (string t)
    with le q_string_length[OF string(1)] show ?thesis by simp
  next
    case (literal t w)
    with le literal_length[OF literal(1,2)] show ?thesis by simp
  next
    case number
    with le q_number_length[OF number] show ?thesis by simp
  qed
qed

lemma q_value_shrinks: "shrinks (q_value serde k)"
proof (induction k)
  case 0
  show ?case unfolding q_value.simps by (rule q_body_shrinks) (simp add: shrinks_def)
next
  case (Suc k)
  then show ?case by (simp add: q_body_shrinks)
qed

section \<open>Every run agrees with the reference parser\<close>

text \<open>
  The errors a run may add: refusals of a callback, the byte accounting limit of the complete
  mode, and the array allocation limit where an array of one element per input byte could
  reach it.
\<close>

definition alloc_refusals :: "'w alloc_work \<Rightarrow> error set" where
  "alloc_refusals aw =
     refusals (validation aw)
     \<union> {e. \<exists>q w. fst (before_allocation aw q w) = Inl e}
     \<union> {e. \<exists>q n w. fst (finish_allocation aw q n w) = Inl e}"

definition byte_limit :: error where "byte_limit = Error ''LIMIT'' ''JSON byte accounting''"
definition array_limit :: error where "array_limit = Error ''LIMIT'' ''JSON array allocation''"

definition arrays_fit :: "pinned \<Rightarrow> nat \<Rightarrow> bool" where
  "arrays_fit serde n \<longleftrightarrow> (2 * n + 4) * value_size serde \<le> u64_max"

definition run_refusals :: "'w parser \<Rightarrow> error set" where
  "run_refusals p =
     alloc_refusals (alloc p) \<union> (if complete p then {byte_limit} else {})
     \<union> (if arrays_fit (pin p) (total p) then {} else {array_limit})"

text \<open>A decoded token is a Rust string.\<close>

definition serde_ok :: "pinned \<Rightarrow> bool" where
  "serde_ok serde \<longleftrightarrow> (\<forall>t s. decode_token serde t = Inr s \<longrightarrow> str_ok s)"

abbreviation agrees :: "'w parser \<Rightarrow> ('w, 'a) metered \<Rightarrow> 'a result \<Rightarrow> bool" where
  "agrees p \<equiv> erases_in (run_refusals p)"

lemma er_work: "erases (validation (alloc p)) m r \<Longrightarrow> agrees p m r"
  by (erule erases_mono) (auto simp: run_refusals_def alloc_refusals_def)

lemmas er_visit = er_work[OF erases_visit] and er_arith = er_work[OF erases_arithmetic]
  and er_scan = er_work[OF erases_scan] and er_write = er_work[OF erases_write]
  and er_compare = er_work[OF erases_compare] and er_add = er_work[OF erases_usize_add]

lemma er_before: "agrees p (before_allocation (alloc p) q) (Inr ())"
  unfolding erases_in_def
proof
  fix w show "fst (before_allocation (alloc p) q w) = Inr () \<or>
      (\<exists>e\<in>run_refusals p. fst (before_allocation (alloc p) q w) = Inl e)"
    by (cases "fst (before_allocation (alloc p) q w)") (auto simp: run_refusals_def alloc_refusals_def)
qed

lemma er_finish: "agrees p (finish_allocation (alloc p) q n) (Inr ())"
  unfolding erases_in_def
proof
  fix w show "fst (finish_allocation (alloc p) q n w) = Inr () \<or>
      (\<exists>e\<in>run_refusals p. fst (finish_allocation (alloc p) q n w) = Inl e)"
    by (cases "fst (finish_allocation (alloc p) q n w)") (auto simp: run_refusals_def alloc_refusals_def)
qed

lemma er_refused: "e \<in> run_refusals p \<Longrightarrow> agrees p (merr e) r"
  by (auto simp: erases_in_def merr_def mlift_def)

lemma er_limit:
  assumes "e \<in> run_refusals p" and "agrees p (f n) r"
  shows "agrees p (mbind (mlift (ok_or (checked_u64 n) e)) f) r"
proof (cases "checked_u64 n")
  case None
  then show ?thesis using er_refused[OF assms(1)] by simp
next
  case (Some m)
  then have "m = n" by simp
  with Some have "ok_or (checked_u64 n) e = Inr n" by simp
  with assms(2) show ?thesis by (simp only: metered_simps)
qed

lemma er_pass:
  assumes "complete p" and "\<And>n. agrees p (f n) r"
  shows "agrees p (mbind (byte_pass_bound (validation (alloc p)) n k c) f) r"
proof -
  have bl: "byte_limit \<in> run_refusals p" using assms(1) by (simp add: run_refusals_def)
  have l: "agrees p (mlift (ok_or (checked_u64 m) byte_limit)) (Inr m)" for m
    using er_limit[OF bl, of mok m "Inr m"] by (cases "checked_u64 m")
      (auto simp: mlift_def mok_def mbind_def erases_in_def)
  have "agrees p (byte_pass_bound (validation (alloc p)) n k c) (Inr (n * k + c))"
    unfolding byte_pass_bound_def byte_limit_def[symmetric]
    by (intro erases_then[OF er_arith] er_limit[OF bl] erases_then[OF er_arith] l)
  then show ?thesis using assms(2) by (rule erases_bind_ok)
qed

lemma er_sub:
  assumes "length r \<le> length s" and "length s \<le> total p"
  shows "agrees p (usize_sub (validation (alloc p)) (nat (position p r)) (nat (position p s)))
     (Inr (length s - length r))"
proof -
  have "trap_sub_u64 (nat (position p r)) (nat (position p s)) = Inr (length s - length r)"
    using assms by (simp add: position_def flip: of_nat_diff)
  then show ?thesis
    unfolding usize_sub_def by (simp only:) (intro erases_then[OF er_arith] erases_lift)
qed

lemma er_string:
  assumes "length s \<le> total p"
  shows "agrees p (parse_string p s) (q_string (pin p) s)"
proof -
  let ?ops = "validation (alloc p)" and ?start = "space s"
  have tail: "agrees p (mbind (if complete p
             then usize_sub ?ops (nat (position p rest)) (nat (position p ?start))
             else mok (length ?start - length rest)) (\<lambda>encoded.
      mthen (before_allocation (alloc p) (StringDecode encoded))
     (mthen (if complete p then
               mbind (byte_pass_bound ?ops encoded 16 64) (\<lambda>scans.
               mthen (scan_bytes ?ops scans)
              (mbind (byte_pass_bound ?ops encoded 8 64) (\<lambda>writes. write_bytes ?ops writes)))
             else mok ())
     (mbind (mlift (case decode_token (pin p) (take (length ?start - length rest) ?start) of
               Inl message \<Rightarrow> Inl (json_error message)
             | Inr text \<Rightarrow> Inr text)) (\<lambda>decoded.
      mthen (finish_allocation (alloc p) (StringDecode encoded) (string_capacity (pin p) decoded))
      (mok (decoded, rest)))))))
      (case decode_token (pin p) (take (length ?start - length rest) ?start) of
         Inl message \<Rightarrow> Inl (json_error message) | Inr text \<Rightarrow> Inr (text, rest))"
    if "length rest \<le> length ?start" for rest
  proof (rule erases_bind_ok)
    show "agrees p (if complete p
             then usize_sub ?ops (nat (position p rest)) (nat (position p ?start))
             else mok (length ?start - length rest)) (Inr (length ?start - length rest))"
      using er_sub[OF that, of p] space_length[of s] assms by (simp add: erases_ok)
  next
    show "agrees p (mthen (before_allocation (alloc p) (StringDecode (length ?start - length rest)))
     (mthen (if complete p then
               mbind (byte_pass_bound ?ops (length ?start - length rest) 16 64) (\<lambda>scans.
               mthen (scan_bytes ?ops scans)
              (mbind (byte_pass_bound ?ops (length ?start - length rest) 8 64) (\<lambda>writes. write_bytes ?ops writes)))
             else mok ())
     (mbind (mlift (case decode_token (pin p) (take (length ?start - length rest) ?start) of
               Inl message \<Rightarrow> Inl (json_error message)
             | Inr text \<Rightarrow> Inr text)) (\<lambda>decoded.
      mthen (finish_allocation (alloc p) (StringDecode (length ?start - length rest)) (string_capacity (pin p) decoded))
      (mok (decoded, rest))))))
      (case decode_token (pin p) (take (length ?start - length rest) ?start) of
         Inl message \<Rightarrow> Inl (json_error message) | Inr text \<Rightarrow> Inr (text, rest))"
      by (intro erases_then[OF er_before] erases_then)
        (auto intro!: er_pass erases_then[OF er_scan] er_write erases_ok erases_err erases_then[OF er_finish]
          split: sum.splits)
  qed
  have le: "length rest \<le> length ?start"
    if "take_token (CHR ''\"'') ?start = Inr body" "scan_string body = Inr rest" for body rest
    using take_token_length[OF that(1)] scan_string_length[OF that(2)] by simp
  show ?thesis
    unfolding parse_string_def q_string_def Let_def
    by (intro erases_bind[OF erases_lift] tail le)
qed

lemma er_step: "agrees p (number_step (validation (alloc p)) negative c n) (q_step negative c n)"
  unfolding number_step_def q_step_def
  by (intro erases_then[OF er_visit] erases_then[OF er_arith] erases_bind[OF erases_lift]) (rule erases_lift)

lemma er_number:
  assumes "length s \<le> total p"
  shows "agrees p (parse_number p s) (q_number s)"
proof -
  let ?ops = "validation (alloc p)"
  define negative where "negative = (case s of c # _ \<Rightarrow> c = CHR ''-'' | [] \<Rightarrow> False)"
  define body where "body = (if negative then tl s else s)"
  define digits rest where "digits = takeWhile is_digit body" and "rest = dropWhile is_digit body"
  have "length rest \<le> length s"
    using length_dropWhile_le[of is_digit body] by (auto simp: rest_def body_def)
  note sub = er_sub[OF this assms]
  have pay: "agrees p (if complete p then
      mbind (usize_sub ?ops (nat (position p rest)) (nat (position p s))) (\<lambda>n. scan_bytes ?ops n)
      else mok ()) (Inr ())"
    by (auto intro!: erases_bind_ok[OF sub] er_scan erases_ok)
  have leading: "agrees p (if digits \<noteq> [] then
         mbind (compare ?ops (int (length digits)) 1) (\<lambda>c.
         if c = OrdGreater then mthen (visit ?ops VConstraint) (mok (hd digits = CHR ''0'')) else mok False)
       else mok False) (Inr (length digits > 1 \<and> hd digits = CHR ''0''))"
    by (auto intro!: erases_bind_ok[OF er_compare] erases_then[OF er_visit]
        simp: erases_ok not_less le_Suc_eq split: if_splits)
  have range: "agrees p (mbind (compare ?ops n (- SAFE)) (\<lambda>lower.
        mbind (if lower = OrdLess then mok True else mbind (compare ?ops n SAFE) (\<lambda>c. mok (c = OrdGreater))) (\<lambda>unsafe.
        if unsafe \<or> (case rest of c # _ \<Rightarrow> c = CHR ''.'' \<or> c = CHR ''e'' \<or> c = CHR ''E'' | [] \<Rightarrow> False)
        then merr (number_error ''only safe integer tokens allowed'')
        else mok (JInt n, rest))))
      (if \<bar>n\<bar> > SAFE \<or> ends_fraction rest
        then Inl (number_error ''only safe integer tokens allowed'') else Inr (JInt n, rest))" for n
  proof (rule erases_bind_ok[OF er_compare], rule erases_bind_ok)
    show "agrees p (if cmp_of n (- SAFE) = OrdLess then mok True
        else mbind (compare ?ops n SAFE) (\<lambda>c. mok (c = OrdGreater))) (Inr (\<bar>n\<bar> > SAFE))"
    proof (cases "n < - SAFE")
      case True
      then have "SAFE < \<bar>n\<bar>" by linarith
      with True show ?thesis by (simp add: erases_ok)
    next
      case False
      then have "(cmp_of n SAFE = OrdGreater) = (\<bar>n\<bar> > SAFE)" by auto
      then have "agrees p (mbind (compare ?ops n SAFE) (\<lambda>c. mok (c = OrdGreater))) (Inr (\<bar>n\<bar> > SAFE))"
        by (intro erases_bind_ok[OF er_compare]) (simp add: erases_ok)
      with False show ?thesis by simp
    qed
  qed (simp add: ends_fraction_def[symmetric] erases_ok erases_err)
  have scan: "agrees p (if complete p then scan_bytes ?ops (length digits) else mok ()) (Inr ())"
    by (simp add: er_scan erases_ok)
  have loop: "agrees p (mfold (number_step ?ops negative) digits 0) (rfold (q_step negative) digits 0)"
    by (intro erases_mfold er_step)
  show ?thesis
    unfolding parse_number_def q_number_def Let_def negative_def[symmetric] body_def[symmetric]
      digits_def[symmetric] rest_def[symmetric]
    by (intro erases_then[OF pay] erases_then[OF er_visit] erases_bind_ok[OF leading] erases_if erases_err
        erases_then[OF scan] erases_bind[OF loop] range)
qed

lemma er_key_bytes:
  assumes "str_ok a" and "str_ok b"
  shows "agrees p (key_comparison_bytes (validation (alloc p)) a b) (Inr ())"
proof -
  have "length a + length b \<le> u64_max" using assms unfolding str_ok_def int_ranges by linarith
  then show ?thesis
    unfolding key_comparison_bytes_def by (intro erases_bind_ok[OF er_add] er_scan)
qed

lemma er_duplicate:
  assumes "\<forall>k \<in> set ks. str_ok k" and "str_ok key"
  shows "agrees p (mfold (\<lambda>existing _.
          mthen (visit (validation (alloc p)) VMemberCompare)
         (mthen (key_comparison_bytes (validation (alloc p)) existing key)
         (mthen (if complete p then key_comparison_bytes (validation (alloc p)) existing key else mok ())
         (if existing = key then merr duplicate_key else mok ())))) ks ())
    (if key \<in> set ks then Inl duplicate_key else Inr ())"
proof -
  have "agrees p (mfold (\<lambda>existing _.
          mthen (visit (validation (alloc p)) VMemberCompare)
         (mthen (key_comparison_bytes (validation (alloc p)) existing key)
         (mthen (if complete p then key_comparison_bytes (validation (alloc p)) existing key else mok ())
         (if existing = key then merr duplicate_key else mok ())))) ks ())
    (rfold (\<lambda>existing _. if existing = key then Inl duplicate_key else Inr ()) ks ())"
  proof (rule erases_mfold)
    fix k and s :: unit
    assume "k \<in> set ks"
    then have kb: "agrees p (key_comparison_bytes (validation (alloc p)) k key) (Inr ())"
      using assms by (intro er_key_bytes) auto
    have kc: "agrees p (if complete p then key_comparison_bytes (validation (alloc p)) k key else mok ()) (Inr ())"
      using kb by (simp add: erases_ok)
    show "agrees p (mthen (visit (validation (alloc p)) VMemberCompare)
         (mthen (key_comparison_bytes (validation (alloc p)) k key)
         (mthen (if complete p then key_comparison_bytes (validation (alloc p)) k key else mok ())
         (if k = key then merr duplicate_key else mok ()))))
      (if k = key then Inl duplicate_key else Inr ())"
      by (intro erases_then[OF er_visit] erases_then[OF kb] erases_then[OF kc] erases_if erases_err erases_ok)
  qed
  moreover have "rfold (\<lambda>existing _. if existing = key then Inl duplicate_key else Inr ()) ks () =
      (if key \<in> set ks then Inl duplicate_key else Inr ())"
    by (induction ks) auto
  ultimately show ?thesis by simp
qed

lemma er_insert:
  assumes "\<forall>k \<in> fst ` set m. str_ok k" and "str_ok key"
  shows "agrees p (insert_member p key v m) (q_insert key v m)"
proof -
  have dup: "map_of m key \<noteq> None \<longleftrightarrow> key \<in> set (map fst m)" by (simp add: map_of_eq_None_iff)
  have fin: "agrees p (mthen (before_allocation (alloc p) r)
      (if \<not> audit_duplicates p \<and> map_of m key \<noteq> None then merr duplicate_key else mok (om_insert key v m)))
      (if \<not> audit_duplicates p \<and> map_of m key \<noteq> None then Inl duplicate_key else Inr (om_insert key v m))" for r
    by (intro erases_then[OF er_before] erases_if erases_err erases_ok)
  show ?thesis
  proof (cases "audit_duplicates p")
    case True
    then have "agrees p (check_duplicate p m key) (if map_of m key \<noteq> None then Inl duplicate_key else Inr ())"
      using er_duplicate[of "map fst m" key p] assms unfolding check_duplicate_def dup Let_def by simp
    then have "agrees p (insert_member p key v m)
        (rbind (if map_of m key \<noteq> None then Inl duplicate_key else Inr ()) (\<lambda>_. Inr (om_insert key v m)))"
      unfolding insert_member_def mthen_def[of "check_duplicate p m key"]
      using fin True by (intro erases_bind) (auto split: if_splits)
    then show ?thesis by (cases "map_of m key") (simp_all add: q_insert_def)
  next
    case False
    then show ?thesis
      using fin unfolding insert_member_def check_duplicate_def q_insert_def by (simp add: Let_def)
  qed
qed

lemma q_string_ok: "serde_ok serde \<Longrightarrow> q_string serde s = Inr (t, r) \<Longrightarrow> str_ok t"
  by (auto simp: q_string_def serde_ok_def split: sum.splits)

lemma om_insert_str_ok:
  "q_insert key v m = Inr m' \<Longrightarrow> \<forall>k \<in> fst ` set m. str_ok k \<Longrightarrow> str_ok key \<Longrightarrow> \<forall>k \<in> fst ` set m'. str_ok k"
proof -
  assume a: "q_insert key v m = Inr m'" "\<forall>k \<in> fst ` set m. str_ok k" "str_ok key"
  then have "set (map fst m') = insert key (set (map fst m))"
    using om_insert_keys[of key v m] by (simp add: q_insert_def split: if_splits)
  then have "fst ` set m' = insert key (fst ` set m)" by simp
  then show "\<forall>k \<in> fst ` set m'. str_ok k" using a(2,3) by (simp only: ball_simps)
qed

text \<open>What the loops need of the parser of nested values.\<close>

definition nested_agrees :: "'w parser \<Rightarrow> nat \<Rightarrow> (string \<Rightarrow> nat \<Rightarrow> ('w, json \<times> string) metered) \<Rightarrow>
    (string \<Rightarrow> nat \<Rightarrow> (json \<times> string) result) \<Rightarrow> bool" where
  "nested_agrees p d rec q \<longleftrightarrow>
     shrinks q \<and> (\<forall>s. length s \<le> total p \<longrightarrow> agrees p (rec s (Suc d)) (q s (Suc d)))"

lemma er_next: "d < 32 \<Longrightarrow> agrees p (usize_add (validation (alloc p)) d 1) (Inr (Suc d))"
  using er_add[of d 1 p] by (simp add: int_ranges)

lemma er_object:
  assumes serde: "serde_ok (pin p)" and rec: "nested_agrees p d rec q" and d: "d < 32"
  shows "length s \<le> total p \<Longrightarrow> \<forall>k \<in> fst ` set m. str_ok k \<Longrightarrow>
    agrees p (object_loop p rec d n m s) (q_object (pin p) q d n m s)"
proof (induction n arbitrary: m s)
  case 0
  then show ?case by (simp add: erases_err)
next
  case (Suc n)
  have shr: "shrinks q" using rec by (simp add: nested_agrees_def)
  have close: "agrees p (case space s3 of [] \<Rightarrow> merr (json_error ''unexpected token'')
      | c # r \<Rightarrow> if c = CHR ''}'' then mok (JObject m1, r)
          else mbind (mlift (take_token (CHR '','') s3)) (object_loop p rec d n m1))
      (case space s3 of [] \<Rightarrow> Inl (json_error ''unexpected token'')
      | c # r \<Rightarrow> if c = CHR ''}'' then Inr (JObject m1, r)
         else rbind (take_token (CHR '','') s3) (q_object (pin p) q d n m1))"
    if "length s3 \<le> total p" "\<forall>k \<in> fst ` set m1. str_ok k" for s3 m1
  proof (cases "space s3")
    case Nil
    then show ?thesis by (simp add: erases_err)
  next
    case (Cons c r)
    have "agrees p (mbind (mlift (take_token (CHR '','') s3)) (object_loop p rec d n m1))
        (rbind (take_token (CHR '','') s3) (q_object (pin p) q d n m1))"
      using Suc.IH that take_token_length[of "CHR '',''" s3]
      by (intro erases_bind[OF erases_lift]) fastforce
    with Cons show ?thesis by (simp add: erases_ok)
  qed
  show ?case
    unfolding object_loop.simps q_object.simps Let_def
  proof (intro erases_then[OF er_visit] erases_bind[OF er_string[OF Suc.prems(1)]], clarsimp)
    fix key s1 assume 1: "q_string (pin p) s = Inr (key, s1)"
    have key: "str_ok key" using q_string_ok[OF serde 1] .
    show "agrees p (mbind (mlift (take_token CHR '':'' s1)) (\<lambda>s.
        mbind (usize_add (validation (alloc p)) d (Suc 0)) (\<lambda>child. mbind (rec s child) (\<lambda>(v, s).
        mbind (insert_member p key v m) (\<lambda>m. case space s of [] \<Rightarrow> merr (json_error ''unexpected token'')
          | c # r \<Rightarrow> if c = CHR ''}'' then mok (JObject m, r)
              else mbind (mlift (take_token CHR '','' s)) (object_loop p rec d n m))))))
      (rbind (take_token CHR '':'' s1) (\<lambda>s. rbind (q s (Suc d)) (\<lambda>(v, s).
        rbind (q_insert key v m) (\<lambda>m. case space s of [] \<Rightarrow> Inl (json_error ''unexpected token'')
          | c # r \<Rightarrow> if c = CHR ''}'' then Inr (JObject m, r)
              else rbind (take_token CHR '','' s) (q_object (pin p) q d n m)))))"
    proof (intro erases_bind[OF erases_lift] erases_bind_ok[OF er_next[OF d, simplified]])
      fix s2 assume 2: "take_token CHR '':'' s1 = Inr s2"
      have l2: "length s2 \<le> total p"
        using q_string_length[OF 1] take_token_length[OF 2] Suc.prems(1) by simp
      have r2: "agrees p (rec s2 (Suc d)) (q s2 (Suc d))"
        using rec l2 d by (simp add: nested_agrees_def)
      show "agrees p (mbind (rec s2 (Suc d)) (\<lambda>(v, s).
          mbind (insert_member p key v m) (\<lambda>m. case space s of [] \<Rightarrow> merr (json_error ''unexpected token'')
          | c # r \<Rightarrow> if c = CHR ''}'' then mok (JObject m, r)
              else mbind (mlift (take_token CHR '','' s)) (object_loop p rec d n m))))
        (rbind (q s2 (Suc d)) (\<lambda>(v, s).
          rbind (q_insert key v m) (\<lambda>m. case space s of [] \<Rightarrow> Inl (json_error ''unexpected token'')
          | c # r \<Rightarrow> if c = CHR ''}'' then Inr (JObject m, r)
              else rbind (take_token CHR '','' s) (q_object (pin p) q d n m))))"
      proof (intro erases_bind[OF r2], clarsimp)
        fix v s3 assume 3: "q s2 (Suc d) = Inr (v, s3)"
        have l3: "length s3 \<le> total p" using 3 shr l2 by (fastforce simp: shrinks_def)
        show "agrees p (mbind (insert_member p key v m) (\<lambda>m. case space s3 of
              [] \<Rightarrow> merr (json_error ''unexpected token'')
            | c # r \<Rightarrow> if c = CHR ''}'' then mok (JObject m, r)
                else mbind (mlift (take_token CHR '','' s3)) (object_loop p rec d n m)))
          (rbind (q_insert key v m) (\<lambda>m. case space s3 of [] \<Rightarrow> Inl (json_error ''unexpected token'')
            | c # r \<Rightarrow> if c = CHR ''}'' then Inr (JObject m, r)
                else rbind (take_token CHR '','' s3) (q_object (pin p) q d n m)))"
          using close[OF l3] om_insert_str_ok[of key v m] Suc.prems(2) key
          by (intro erases_bind[OF er_insert]) auto
      qed
    qed
  qed
qed

lemma er_retained:
  assumes "n \<le> 2 * total p + 4" and "agrees p (f (n * value_size (pin p))) r"
  shows "agrees p (mbind (mlift (ok_or (checked_u64 (n * value_size (pin p))) array_limit)) f) r"
proof (cases "arrays_fit (pin p) (total p)")
  case True
  have "n * value_size (pin p) \<le> (2 * total p + 4) * value_size (pin p)"
    using assms(1) by (intro mult_right_mono) auto
  also have "\<dots> \<le> u64_max" using True by (simp only: arrays_fit_def)
  finally have "n * value_size (pin p) \<le> u64_max" .
  then have "checked_u64 (n * value_size (pin p)) = Some (n * value_size (pin p))" by simp
  then show ?thesis using assms(2) by (simp only: ok_or_simps metered_simps)
next
  case False
  then show ?thesis using assms(2) by (intro er_limit) (simp_all add: run_refusals_def)
qed

lemma er_reserve:
  assumes "\<And>n. agrees p (f n) r" and len: "len \<le> total p"
  shows "agrees p (mbind (reserve_element p len cap) f) r"
proof -
  have "\<exists>n. agrees p (reserve_element p len cap) (Inr n)"
  proof (cases "cmp_of (int len) (int cap) = OrdEqual")
    case True
    define doubled where "doubled = min (cap * 2) u64_max"
    define requested where "requested = (if cmp_of (int doubled) 4 = OrdLess then 4 else doubled)"
    have r: "requested \<le> 2 * total p + 4" using True len by (auto simp: requested_def doubled_def)
    have "agrees p (reserve_element p len cap) (Inr requested)"
      unfolding reserve_element_def Let_def array_limit_def[symmetric] doubled_def[symmetric]
      apply (rule erases_bind_ok[OF er_compare])
      apply (subst if_P[OF True])
      apply (rule erases_then[OF er_arith])
      apply (rule erases_bind_ok[OF er_compare])
      apply (fold requested_def)
      apply (intro erases_then[OF er_before] erases_then[OF er_arith] er_retained[OF r]
            erases_then[OF er_finish] erases_ok)
      done
    then show ?thesis ..
  next
    case False
    then show ?thesis
      unfolding reserve_element_def Let_def
      by (intro exI[of _ cap] erases_bind_ok[OF er_compare]) (simp add: erases_ok)
  qed
  then obtain n where "agrees p (reserve_element p len cap) (Inr n)" ..
  then show ?thesis using assms(1)[of n] by (rule erases_bind_ok)
qed

lemma er_array:
  assumes rec: "nested_agrees p d rec q" and d: "d < 32"
  shows "length vs + length s \<le> total p \<Longrightarrow> agrees p (array_loop p rec d n vs cap s) (q_array q d n vs s)"
proof (induction n arbitrary: vs cap s)
  case 0
  then show ?case by (simp add: erases_err)
next
  case (Suc n)
  have shr: "shrinks q" using rec by (simp add: nested_agrees_def)
  have close: "agrees p (case space s3 of [] \<Rightarrow> merr (json_error ''unexpected token'')
      | c # r \<Rightarrow> if c = CHR '']'' then mok (JArray ws, r)
          else mbind (mlift (take_token (CHR '','') s3)) (array_loop p rec d n ws cap'))
      (case space s3 of [] \<Rightarrow> Inl (json_error ''unexpected token'')
      | c # r \<Rightarrow> if c = CHR '']'' then Inr (JArray ws, r)
         else rbind (take_token (CHR '','') s3) (q_array q d n ws))"
    if "length ws + length s3 \<le> total p" for s3 ws cap'
  proof (cases "space s3")
    case Nil
    then show ?thesis by (simp add: erases_err)
  next
    case (Cons c r)
    have "agrees p (mbind (mlift (take_token (CHR '','') s3)) (array_loop p rec d n ws cap'))
        (rbind (take_token (CHR '','') s3) (q_array q d n ws))"
      using Suc.IH that take_token_length[of "CHR '',''" s3]
      by (intro erases_bind[OF erases_lift]) fastforce
    with Cons show ?thesis by (simp add: erases_ok)
  qed
  have r1: "agrees p (rec s (Suc d)) (q s (Suc d))"
    using rec Suc.prems d by (simp add: nested_agrees_def)
  have l3: "length (vs @ [v]) + length s3 \<le> total p" if "q s (Suc d) = Inr (v, s3)" for v s3
    using that shr Suc.prems by (fastforce simp: shrinks_def)
  show ?case
    unfolding array_loop.simps q_array.simps Let_def
  proof (intro erases_then[OF er_visit] erases_bind_ok[OF er_next[OF d]] erases_bind[OF r1], clarsimp)
    fix v s3 assume 3: "q s (Suc d) = Inr (v, s3)"
    show "agrees p (mbind (reserve_element p (length vs) cap) (\<lambda>capacity. case space s3 of
              [] \<Rightarrow> merr (json_error ''unexpected token'')
            | c # r \<Rightarrow> if c = CHR '']'' then mok (JArray (vs @ [v]), r)
                else mbind (mlift (take_token CHR '','' s3)) (array_loop p rec d n (vs @ [v]) capacity)))
          (case space s3 of [] \<Rightarrow> Inl (json_error ''unexpected token'')
            | c # r \<Rightarrow> if c = CHR '']'' then Inr (JArray (vs @ [v]), r)
                else rbind (take_token CHR '','' s3) (q_array q d n (vs @ [v])))"
      by (rule er_reserve, rule close[OF l3[OF 3]]) (use Suc.prems in simp)
  qed
qed

lemma er_depth:
  assumes "d < 32 \<Longrightarrow> agrees p m r"
  shows "agrees p (mbind (compare (validation (alloc p)) (int d) 32) (\<lambda>ord. if ord \<noteq> OrdLess then merr deep_json else m))
    (if d \<ge> 32 then Inl deep_json else r)"
  by (rule erases_bind_ok[OF er_compare]) (use assms in \<open>auto simp: erases_err\<close>)

lemma er_body:
  assumes serde: "serde_ok (pin p)" and rec: "d < 32 \<Longrightarrow> nested_agrees p d rec q" and s: "length s \<le> total p"
  shows "agrees p (parse_body p rec s d) (q_body (pin p) q s d)"
proof (cases "space s")
  case Nil
  then show ?thesis
    unfolding parse_body_def q_body_def Let_def by (intro erases_then[OF er_visit]) (simp add: erases_err)
next
  case (Cons c r)
  have l: "length (c # r) \<le> total p" "length r \<le> total p" "length (space r) \<le> total p"
    using space_length[of s] space_length[of r] s Cons by simp_all
  have obj: "agrees p (object_loop p rec d n [] u) (q_object (pin p) q d n [] u)"
    if "d < 32" "length u \<le> total p" for n u
    using er_object[OF serde rec[OF that(1)] that] by simp
  have arr: "agrees p (array_loop p rec d n [] 0 u) (q_array q d n [] u)"
    if "d < 32" "length u \<le> total p" for n u
    using er_array[OF rec[OF that(1)] that(1), of "[]" u] that(2) by simp
  have 1: "agrees p (case space r of [] \<Rightarrow> object_loop p rec d (Suc (length r)) [] []
            | c' # r' \<Rightarrow> if c' = CHR ''}'' then mok (JObject [], r')
                else object_loop p rec d (Suc (length r)) [] (c' # r'))
      (case space r of [] \<Rightarrow> q_object (pin p) q d (Suc (length r)) [] []
            | c' # r' \<Rightarrow> if c' = CHR ''}'' then Inr (JObject [], r')
                else q_object (pin p) q d (Suc (length r)) [] (c' # r'))" if "d < 32"
    using obj[OF that] l(3)
    by (cases "space r") (simp_all add: erases_ok del: object_loop.simps q_object.simps)
  have 2: "agrees p (case space r of [] \<Rightarrow> array_loop p rec d (Suc (length r)) [] 0 []
            | c' # r' \<Rightarrow> if c' = CHR '']'' then mok (JArray [], r')
                else array_loop p rec d (Suc (length r)) [] 0 (c' # r'))
      (case space r of [] \<Rightarrow> q_array q d (Suc (length r)) [] []
            | c' # r' \<Rightarrow> if c' = CHR '']'' then Inr (JArray [], r')
                else q_array q d (Suc (length r)) [] (c' # r'))" if "d < 32"
    using arr[OF that] l(3)
    by (cases "space r") (simp_all add: erases_ok del: array_loop.simps q_array.simps)
  have str: "agrees p (mbind (parse_string p (c # r)) (\<lambda>(text, s). mok (JString text, s)))
      (rbind (q_string (pin p) (c # r)) (\<lambda>(text, s). Inr (JString text, s)))"
    by (intro erases_bind[OF er_string[OF l(1)]]) (auto simp: erases_ok)
  show ?thesis
    unfolding parse_body_def q_body_def Let_def Cons list.case(2)
    by (intro erases_then[OF er_visit] erases_if er_depth 1 2 str er_number[OF l(1)] erases_lift erases_err)
qed

lemma er_value:
  assumes serde: "serde_ok (pin p)"
  shows "33 \<le> k + d \<Longrightarrow> length s \<le> total p \<Longrightarrow> agrees p (parse_value p k s d) (q_value (pin p) k s d)"
proof (induction k arbitrary: s d)
  case 0
  then show ?case unfolding parse_value.simps q_value.simps by (intro er_body[OF serde]) auto
next
  case (Suc k)
  show ?case unfolding parse_value.simps q_value.simps
  proof (intro er_body[OF serde])
    assume "d < 32"
    show "nested_agrees p d (parse_value p k) (q_value (pin p) k)"
      using Suc.IH[of "Suc d"] Suc.prems(1) q_value_shrinks by (simp add: nested_agrees_def)
  qed (rule Suc.prems)
qed

lemma er_parse:
  assumes serde: "serde_ok serde"
  shows "erases_in (alloc_refusals aw \<union> (if compl then {byte_limit} else {})
      \<union> (if arrays_fit serde (length bytes) then {} else {array_limit}))
    (parse_bounded_impl serde aw audit compl bytes limit) (q_parse serde bytes limit)"
proof -
  define p where "p = \<lparr>pin = serde, alloc = aw, audit_duplicates = audit, complete = compl, total = length bytes\<rparr>"
  have p: "pin p = serde" "alloc p = aw" "total p = length bytes" "complete p = compl" by (simp_all add: p_def)
  have v: "agrees p (parse_value p 33 bytes 0) (q_value serde 33 bytes 0)"
    using er_value[of p 33 0 bytes] serde p by simp
  have tail: "agrees p (mbind (parse_value p 33 bytes 0) (\<lambda>(v, rest).
          if space rest \<noteq> [] then merr (json_error ''trailing input'') else mok v))
      (rbind (q_value serde 33 bytes 0) (\<lambda>(v, rest).
          if space rest \<noteq> [] then Inl (json_error ''trailing input'') else Inr v))"
    by (intro erases_bind[OF v]) (auto simp: erases_ok erases_err)
  have pay: "agrees p (if compl then mbind (byte_pass_bound (validation (alloc p)) (length bytes) 32 16)
        (\<lambda>lexical. scan_bytes (validation (alloc p)) lexical) else mok ()) (Inr ())"
    using p(4) by (auto intro!: er_pass er_scan erases_ok)
  have "agrees p (parse_bounded_impl serde aw audit compl bytes limit) (q_parse serde bytes limit)"
    unfolding parse_bounded_impl_def Let_def p_def[symmetric] q_parse_def
    unfolding p(2)[symmetric]
  proof (rule erases_bind_ok[OF er_compare])
    show "agrees p (if cmp_of (int (length bytes)) (int limit) = OrdGreater then merr (Error ''LIMIT'' ''JSON bytes'')
        else mthen (scan_bytes (validation (alloc p)) (length bytes))
          (if \<not> valid_utf8 bytes then merr (json_error ''invalid UTF-8'')
           else mthen (if compl then mbind (byte_pass_bound (validation (alloc p)) (length bytes) 32 16)
                   (\<lambda>lexical. scan_bytes (validation (alloc p)) lexical) else mok ())
             (mbind (parse_value p 33 bytes 0) (\<lambda>(v, rest).
                if space rest \<noteq> [] then merr (json_error ''trailing input'') else mok v))))
      (if length bytes > limit then Inl (Error ''LIMIT'' ''JSON bytes'')
       else if \<not> valid_utf8 bytes then Inl (json_error ''invalid UTF-8'')
       else rbind (q_value serde 33 bytes 0) (\<lambda>(v, rest).
        if space rest \<noteq> [] then Inl (json_error ''trailing input'') else Inr v))"
      by (simp only: cmp_of_simps of_nat_less_iff)
        (intro erases_if erases_err erases_then[OF er_scan] erases_then[OF pay] tail)
  qed
  then show ?thesis by (simp only: run_refusals_def p)
qed

lemma alloc_refusals_noop: "alloc_refusals noop_alloc = {}"
  by (auto simp: alloc_refusals_def refusals_noop noop_alloc_def)

lemma parse_bounded_eq:
  assumes "serde_ok serde" and "arrays_fit serde (length bytes)"
  shows "parse_bounded serde bytes limit = q_parse serde bytes limit"
  using er_parse[OF assms(1), of noop_alloc False bytes False limit] assms(2)
  by (simp add: alloc_refusals_noop parse_bounded_def erases_in_def)

section \<open>The parser never panics\<close>

lemma q_string_panic: "q_string serde s \<noteq> Inl Panic"
proof -
  have "scan_string u \<noteq> Inl Panic" for u
    by (induction u rule: scan_string.induct) (auto simp: json_error_def)
  moreover have "take_token c u \<noteq> Inl Panic" for c u
    by (auto simp: take_token_def json_error_def split: list.splits)
  ultimately show ?thesis
    by (auto simp: q_string_def rbind_Inl_iff json_error_def split: sum.splits)
qed

lemma take_token_panic: "take_token c u \<noteq> Inl Panic"
  by (auto simp: take_token_def json_error_def split: list.splits)

lemma q_number_panic: "q_number s \<noteq> Inl Panic"
proof -
  have "rfold (q_step b) ds n \<noteq> Inl Panic" for b ds n
    by (induction ds arbitrary: n) (auto simp: q_step_def rbind_Inl_iff ok_or_def number_error_def split: option.splits)
  then show ?thesis by (auto simp: q_number_def Let_def rbind_Inl_iff number_error_def)
qed

definition no_panic_at :: "nat \<Rightarrow> (string \<Rightarrow> nat \<Rightarrow> (json \<times> string) result) \<Rightarrow> bool" where
  "no_panic_at d q \<longleftrightarrow> shrinks q \<and> (\<forall>s. q s (Suc d) \<noteq> Inl Panic)"

lemma q_object_panic:
  assumes q: "no_panic_at d q"
  shows "length s < n \<Longrightarrow> q_object serde q d n m s \<noteq> Inl Panic"
proof (induction n arbitrary: m s)
  case (Suc n)
  show ?case
  proof
    assume "q_object serde q d (Suc n) m s = Inl Panic"
    then obtain key s1 s2 v s3 m1 where
      1: "q_string serde s = Inr (key, s1)" "take_token (CHR '':'') s1 = Inr s2" "q s2 (Suc d) = Inr (v, s3)"
      and 2: "(case space s3 of [] \<Rightarrow> Inl (json_error ''unexpected token'')
        | c # r \<Rightarrow> if c = CHR ''}'' then Inr (JObject m1, r)
           else rbind (take_token (CHR '','') s3) (q_object serde q d n m1)) = Inl Panic"
      using q q_string_panic take_token_panic
      by (auto simp: rbind_Inl_iff no_panic_at_def q_insert_def duplicate_key_def split: if_splits)
    have l: "length s3 < length s"
      using q_string_length[OF 1(1)] take_token_length[OF 1(2)] 1(3) q
      by (fastforce simp: no_panic_at_def shrinks_def)
    from 2 obtain s4 where "take_token (CHR '','') s3 = Inr s4" "q_object serde q d n m1 s4 = Inl Panic"
      using take_token_panic by (auto simp: rbind_Inl_iff json_error_def split: list.splits if_splits)
    with Suc.IH[of s4 m1] Suc.prems l take_token_length[of _ s3 s4] show False by fastforce
  qed
qed simp

lemma q_array_panic:
  assumes q: "no_panic_at d q"
  shows "length s < n \<Longrightarrow> q_array q d n vs s \<noteq> Inl Panic"
proof (induction n arbitrary: vs s)
  case (Suc n)
  show ?case
  proof
    assume "q_array q d (Suc n) vs s = Inl Panic"
    then obtain v s3 where 1: "q s (Suc d) = Inr (v, s3)"
      and 2: "(case space s3 of [] \<Rightarrow> Inl (json_error ''unexpected token'')
        | c # r \<Rightarrow> if c = CHR '']'' then Inr (JArray (vs @ [v]), r)
           else rbind (take_token (CHR '','') s3) (q_array q d n (vs @ [v]))) = Inl Panic"
      using q by (auto simp: rbind_Inl_iff no_panic_at_def)
    have l: "length s3 < length s" using 1 q by (fastforce simp: no_panic_at_def shrinks_def)
    from 2 obtain s4 where "take_token (CHR '','') s3 = Inr s4" "q_array q d n (vs @ [v]) s4 = Inl Panic"
      using take_token_panic by (auto simp: rbind_Inl_iff json_error_def split: list.splits if_splits)
    with Suc.IH[of s4 "vs @ [v]"] Suc.prems l take_token_length[of _ s3 s4] show False by fastforce
  qed
qed simp

lemma q_body_panic:
  assumes "d < 32 \<Longrightarrow> no_panic_at d q"
  shows "q_body serde q s d \<noteq> Inl Panic"
proof (cases "space s")
  case Nil
  then show ?thesis by (simp add: q_body_def json_error_def)
next
  case (Cons c r)
  have "length (space r) < Suc (length r)" using space_length[of r] by simp
  then have ob: "d < 32 \<Longrightarrow> q_object serde q d (Suc (length r)) [] (space r) \<noteq> Inl Panic"
    and a: "d < 32 \<Longrightarrow> q_array q d (Suc (length r)) [] (space r) \<noteq> Inl Panic"
    using assms q_object_panic q_array_panic by blast+
  have l: "literal t v u \<noteq> Inl Panic" for t v u by (simp add: literal_def json_error_def)
  have str: "rbind (q_string serde (c # r)) (\<lambda>(text, s). Inr (JString text, s)) \<noteq> Inl Panic"
    using q_string_panic[of serde "c # r"] by (cases "q_string serde (c # r)") auto
  have if_panic: "(b \<Longrightarrow> x \<noteq> Inl Panic) \<Longrightarrow> (\<not> b \<Longrightarrow> y \<noteq> Inl Panic) \<Longrightarrow> (if b then x else y) \<noteq> Inl Panic"
    for b and x y :: "(json \<times> string) result" by simp
  have objs: "d < 32 \<Longrightarrow> (case space r of [] \<Rightarrow> q_object serde q d (Suc (length r)) [] []
            | c' # r' \<Rightarrow> if c' = CHR ''}'' then Inr (JObject [], r')
                else q_object serde q d (Suc (length r)) [] (c' # r')) \<noteq> Inl Panic"
    using ob by (cases "space r") (simp_all del: q_object.simps)
  have arrs: "d < 32 \<Longrightarrow> (case space r of [] \<Rightarrow> q_array q d (Suc (length r)) [] []
            | c' # r' \<Rightarrow> if c' = CHR '']'' then Inr (JArray [], r')
                else q_array q d (Suc (length r)) [] (c' # r')) \<noteq> Inl Panic"
    using a by (cases "space r") (simp_all del: q_array.simps)
  show ?thesis
    unfolding q_body_def Cons list.case(2)
    by (intro if_panic objs arrs str l q_number_panic) (simp_all add: deep_json_def json_error_def)
qed

lemma q_value_panic: "33 \<le> k + d \<Longrightarrow> q_value serde k s d \<noteq> Inl Panic"
proof (induction k arbitrary: s d)
  case 0
  then show ?case by (simp add: q_body_panic)
next
  case (Suc k)
  have "no_panic_at d (q_value serde k)"
    using Suc.IH[of "Suc d"] Suc.prems q_value_shrinks by (simp add: no_panic_at_def)
  then show ?case by (simp add: q_body_panic)
qed

section \<open>What is accepted\<close>

text \<open>
  The values the parser can return: as \<open>emittable\<close>, except that no container, not even an empty
  one, is at depth 32.
\<close>

function readable :: "nat \<Rightarrow> json \<Rightarrow> bool" where
  "readable d JNull \<longleftrightarrow> d \<le> 32"
| "readable d (JBool _) \<longleftrightarrow> d \<le> 32"
| "readable d (JInt i) \<longleftrightarrow> d \<le> 32 \<and> \<bar>i\<bar> \<le> SAFE"
| "readable d (JFloat _) \<longleftrightarrow> False"
| "readable d (JString _) \<longleftrightarrow> d \<le> 32"
| "readable d (JArray vs) \<longleftrightarrow> d < 32 \<and> (\<forall>v \<in> set vs. readable (Suc d) v)"
| "readable d (JObject m) \<longleftrightarrow>
     d < 32 \<and> (\<forall>k \<in> fst ` set m. readable (Suc d) (the (map_of m k)))"
  by pat_completeness auto
termination
proof (relation "measure (\<lambda>(_, v). size v)")
  fix d and m :: "(string \<times> json) list" and k
  assume "k \<in> fst ` set m"
  from map_of_size[OF this]
  show "((Suc d, the (map_of m k)), d, JObject m) \<in> measure (\<lambda>(_, v). size v)" by simp
qed (auto simp: less_Suc_eq_le intro!: size_list_estimation')

lemma readable_emittable: "readable d v \<Longrightarrow> emittable False d v"
  by (induction d v rule: readable.induct) auto

lemma readable_depth: "readable d v \<Longrightarrow> d \<le> 32"
  by (cases v) auto

definition good :: "nat \<Rightarrow> json \<Rightarrow> bool" where
  "good d v \<longleftrightarrow> json_ok v \<and> readable d v"

definition good_members :: "nat \<Rightarrow> (string \<times> json) list \<Rightarrow> bool" where
  "good_members d m \<longleftrightarrow> om_ok m \<and> (\<forall>(k, v) \<in> set m. str_ok k \<and> good (Suc d) v)"

lemma om_insert_set: "e \<in> set (om_insert k v m) \<Longrightarrow> e = (k, v) \<or> e \<in> set m"
  by (induction m) (auto split: if_splits)

lemma good_insert:
  "good_members d m \<Longrightarrow> str_ok k \<Longrightarrow> good (Suc d) v \<Longrightarrow> good_members d (om_insert k v m)"
  unfolding good_members_def using om_insert_ok[of m k v] by (auto dest: om_insert_set)

lemma good_object:
  assumes "good_members d m" and "d < 32"
  shows "good d (JObject m)"
proof -
  have "readable (Suc d) (the (map_of m k))" if "k \<in> fst ` set m" for k
  proof -
    from that have "map_of m k \<noteq> None" by (simp add: map_of_eq_None_iff)
    then obtain v where "map_of m k = Some v" by blast
    then show ?thesis using assms(1) map_of_SomeD[of m k v] by (auto simp: good_members_def good_def)
  qed
  then show ?thesis using assms by (auto simp: good_def good_members_def)
qed

definition accepts_good :: "nat \<Rightarrow> (string \<Rightarrow> nat \<Rightarrow> (json \<times> string) result) \<Rightarrow> bool" where
  "accepts_good d q \<longleftrightarrow> (\<forall>s v r. q s (Suc d) = Inr (v, r) \<longrightarrow> good (Suc d) v)"

lemma q_object_good:
  assumes serde: "serde_ok serde" and q: "accepts_good d q" and d: "d < 32"
  shows "good_members d m \<Longrightarrow> q_object serde q d n m s = Inr (v, r) \<Longrightarrow> good d v"
proof (induction n arbitrary: m s)
  case (Suc n)
  from Suc.prems(2) obtain key s1 s2 v1 s3 where
    1: "q_string serde s = Inr (key, s1)" "q s2 (Suc d) = Inr (v1, s3)"
    and 2: "(case space s3 of [] \<Rightarrow> Inl (json_error ''unexpected token'')
      | c # r \<Rightarrow> if c = CHR ''}'' then Inr (JObject (om_insert key v1 m), r)
         else rbind (take_token (CHR '','') s3) (q_object serde q d n (om_insert key v1 m))) = Inr (v, r)"
    by (fastforce simp: q_insert_def split: prod.splits if_splits)
  have m: "good_members d (om_insert key v1 m)"
    using Suc.prems(1) q_string_ok[OF serde 1(1)] 1(2) q by (intro good_insert) (auto simp: accepts_good_def)
  from 2 show ?case
    using Suc.IH[OF m] good_object[OF m d] by (auto split: list.splits if_splits)
qed simp

lemma q_array_good:
  assumes q: "accepts_good d q" and d: "d < 32"
  shows "\<forall>v \<in> set vs. good (Suc d) v \<Longrightarrow> q_array q d n vs s = Inr (v, r) \<Longrightarrow> good d v"
proof (induction n arbitrary: vs s)
  case (Suc n)
  from Suc.prems(2) obtain v1 s3 where 1: "q s (Suc d) = Inr (v1, s3)"
    and 2: "(case space s3 of [] \<Rightarrow> Inl (json_error ''unexpected token'')
      | c # r \<Rightarrow> if c = CHR '']'' then Inr (JArray (vs @ [v1]), r)
         else rbind (take_token (CHR '','') s3) (q_array q d n (vs @ [v1]))) = Inr (v, r)"
    by (fastforce split: prod.splits)
  have vs: "\<forall>v \<in> set (vs @ [v1]). good (Suc d) v"
    using Suc.prems(1) 1 q by (auto simp: accepts_good_def)
  then have "good d (JArray (vs @ [v1]))" using d by (auto simp: good_def)
  with 2 show ?case
    using Suc.IH[OF vs] by (auto split: list.splits if_splits)
qed simp

lemma q_body_good:
  assumes serde: "serde_ok serde" and q: "d < 32 \<Longrightarrow> accepts_good d q" and d: "d \<le> 32"
    and run: "q_body serde q s d = Inr (v, r)"
  shows "good d v"
  using run
proof (cases rule: q_body_Inr_cases)
  case (empty_object u)
  then show ?thesis using d by (simp add: good_def om_ok_def)
next
  case (object u)
  have "good_members d []" by (simp add: good_members_def om_ok_def)
  with object(3) show ?thesis using q_object_good[OF serde q object(2)] object(2) by blast
next
  case (empty_array u)
  then show ?thesis using d by (simp add: good_def)
next
  case (array u)
  show ?thesis using q_array_good[OF q[OF array(2)] array(2) _ array(3)] by simp
next
  case (string t)
  then show ?thesis using d q_string_ok[OF serde] by (simp add: good_def)
next
  case (literal t w)
  then show ?thesis using d by (auto simp: literal_def good_def split: if_splits)
next
  case number
  then obtain n where "v = JInt n" "\<bar>n\<bar> \<le> SAFE"
    by (auto simp: q_number_def Let_def split: if_splits)
  then show ?thesis using d by (simp add: good_def) (simp add: SAFE_def int_ranges, linarith)
qed

lemma q_value_good:
  assumes serde: "serde_ok serde"
  shows "d \<le> 32 \<Longrightarrow> 33 \<le> k + d \<Longrightarrow> q_value serde k s d = Inr (v, r) \<Longrightarrow> good d v"
proof (induction k arbitrary: s d v r)
  case 0
  then show ?case by simp
next
  case (Suc k)
  have "accepts_good d (q_value serde k)" if "d < 32"
    using Suc.IH[of "Suc d"] Suc.prems(2) that by (simp add: accepts_good_def)
  then show ?case using q_body_good[OF serde _ Suc.prems(1)] Suc.prems(3) unfolding q_value.simps by blast
qed

section \<open>Round trip with the canonical emitter\<close>

text \<open>What is relied on of \<open>serde_json\<close>: it decodes a canonically escaped string to that string.\<close>

definition decodes_canonical :: "pinned \<Rightarrow> bool" where
  "decodes_canonical serde \<longleftrightarrow> (\<forall>s. str_ok s \<longrightarrow> decode_token serde (jstring s) = Inr s)"

definition plain_byte :: "char \<Rightarrow> bool" where
  "plain_byte c \<longleftrightarrow> c \<noteq> CHR ''\"'' \<and> c \<noteq> CHR 92"

lemma scan_plain: "list_all plain_byte u \<Longrightarrow> scan_string (u @ t) = scan_string t"
  by (induction u) (simp_all add: plain_byte_def)

lemma plain_big: "128 \<le> byte c \<Longrightarrow> plain_byte c"
  by (auto simp: plain_byte_def byte_def)

lemma plain_hex:
  assumes "n < 16"
  shows "plain_byte (hex_digit n)"
proof -
  have "byte (hex_digit n) \<noteq> 34 \<and> byte (hex_digit n) \<noteq> 92" using assms by (simp add: byte_hex_digit)
  then show ?thesis by (auto simp: plain_byte_def byte_def)
qed

lemma scan_escape:
  assumes "valid_char u"
  shows "scan_string (escape u @ t) = scan_string t"
  using assms
proof (cases rule: valid_char_cases)
  case (multi)
  then have "escape u = u" by (cases u; cases "tl u") (auto simp: escape_def)
  moreover have "list_all plain_byte u" using multi(2) plain_big by (auto simp: list_all_iff)
  ultimately show ?thesis by (simp add: scan_plain)
next
  case (ascii c)
  have h: "plain_byte (hex_digit (byte c div 16))" "plain_byte (hex_digit (byte c mod 16))"
    using ascii(2) by (auto intro!: plain_hex)
  have z: "plain_byte (CHR ''0'')" by (simp add: plain_byte_def)
  have u: "scan_string (CHR 92 # CHR ''u'' # CHR ''0'' # CHR ''0'' # hex_byte c @ t) = scan_string t"
    using scan_plain[of "[CHR ''0'', CHR ''0''] @ hex_byte c" t] h z by (simp add: hex_byte_def)
  have p: "scan_string (c # t) = scan_string t" if "c \<noteq> CHR ''\"''" "c \<noteq> CHR 92"
    using that by simp
  show ?thesis
    unfolding ascii(1) escape_def using u p by simp
qed

lemma q_string_jstring:
  assumes "decodes_canonical serde" and "str_ok s"
  shows "q_string serde (jstring s @ r) = Inr (s, r)"
proof -
  have scan: "scan_string (concat (map escape us) @ CHR ''\"'' # r) = Inr r" if "list_all valid_char us" for us
    using that by (induction us) (simp_all add: scan_escape)
  have sp: "space (jstring s @ r) = jstring s @ r"
    by (simp add: jstring_def space_def is_space_def)
  have "list_all valid_char (chars s)" using assms(2) by (simp add: str_ok_def valid_utf8_def)
  from scan[OF this] have body: "scan_string (concat (map escape (chars s)) @ CHR ''\"'' # r) = Inr r" .
  have "take_token (CHR ''\"'') (jstring s @ r) = Inr (concat (map escape (chars s)) @ CHR ''\"'' # r)"
    by (simp add: take_token_def sp) (simp add: jstring_def)
  with body sp show ?thesis
    using assms by (simp add: q_string_def decodes_canonical_def)
qed

definition follows :: "string \<Rightarrow> bool" where
  "follows r \<longleftrightarrow> (case r of [] \<Rightarrow> True | c # _ \<Rightarrow> c = CHR '','' \<or> c = CHR '']'' \<or> c = CHR ''}'')"

lemma follows_Nil: "follows []"
  by (simp add: follows_def)

lemma follows_Cons [simp]: "follows (c # r) \<longleftrightarrow> c = CHR '','' \<or> c = CHR '']'' \<or> c = CHR ''}''"
  by (simp add: follows_def)

lemma follows_not_digit:
  assumes "follows r"
  shows "takeWhile is_digit r = []" "dropWhile is_digit r = r" "\<not> ends_fraction r"
  using assms by (cases r; auto simp: follows_def is_digit_def byte_def ends_fraction_def)+

lemma digits_span:
  assumes "list_all is_digit ds" and "follows r"
  shows "takeWhile is_digit (ds @ r) = ds" "dropWhile is_digit (ds @ r) = r"
  using assms follows_not_digit[OF assms(2)] by (induction ds) auto

lemma q_steps:
  assumes "list_all is_digit ds" and "0 \<le> n" and "n * 10 ^ length ds + int (digits_val ds) \<le> i64_max"
  shows "rfold (q_step False) ds n = Inr (n * 10 ^ length ds + int (digits_val ds))
    \<and> rfold (q_step True) ds (- n) = Inr (- (n * 10 ^ length ds + int (digits_val ds)))"
  using assms
proof (induction ds arbitrary: n)
  case (Cons c ds)
  let ?n = "n * 10 + int (digit_val c)"
  have eq: "?n * 10 ^ length ds + int (digits_val ds) = n * 10 ^ length (c # ds) + int (digits_val (c # ds))"
    by (simp add: digits_val_Cons algebra_simps)
  have n: "0 \<le> ?n" using Cons.prems by simp
  have "?n * 1 \<le> ?n * 10 ^ length ds" using n by (intro mult_left_mono) simp_all
  then have "?n \<le> i64_max" using Cons.prems eq by simp
  then have b: "in_i64 (n * 10)" "in_i64 ?n" "in_i64 (- n * 10)" "in_i64 (- n * 10 - int (digit_val c))"
    using Cons.prems(2) unfolding int_ranges by auto
  then have s: "q_step False c n = Inr ?n" "q_step True c (- n) = Inr (- ?n)"
    by (simp_all add: q_step_def checked_i64_def)
  have le: "?n * 10 ^ length ds + int (digits_val ds) \<le> i64_max" using Cons.prems(3) eq by simp
  have d: "list_all is_digit ds" using Cons.prems by simp
  show ?case using s Cons.IH[OF d n le] eq by simp
qed simp

lemma nat_str_canonical: "\<not> (length (nat_str n) > 1 \<and> hd (nat_str n) = CHR ''0'')"
  using nat_str_no_zero[of n] by (cases "nat_str n") auto

lemma q_number_int:
  assumes n: "\<bar>n\<bar> \<le> SAFE" and r: "follows r"
  shows "q_number (int_str n @ r) = Inr (JInt n, r)"
proof (cases "n < 0")
  case True
  let ?ds = "nat_str (nat (- n))"
  have "0 * 10 ^ length ?ds + int (digits_val ?ds) \<le> i64_max"
    using n True by (simp add: nat_str_val SAFE_def int_ranges)
  then have "rfold (q_step True) ?ds (- 0) = Inr (- (0 * 10 ^ length ?ds + int (digits_val ?ds)))"
    using q_steps[OF nat_str_digits] by blast
  then have loop: "rfold (q_step True) ?ds 0 = Inr n" using True by (simp add: nat_str_val)
  have "?ds \<noteq> ''0''"
    using True nat_str_val[of "nat (- n)"] by (auto simp: digits_val_Cons digit_val_def byte_def)
  then show ?thesis
    using True n loop nat_str_canonical[of "nat (- n)"] follows_not_digit(3)[OF r]
    by (simp add: q_number_def int_str_def Let_def digits_span[OF nat_str_digits r])
next
  case False
  let ?ds = "nat_str (nat n)"
  have "0 * 10 ^ length ?ds + int (digits_val ?ds) \<le> i64_max"
    using n False by (simp add: nat_str_val SAFE_def int_ranges)
  then have "rfold (q_step False) ?ds 0 = Inr (0 * 10 ^ length ?ds + int (digits_val ?ds))"
    using q_steps[OF nat_str_digits, of 0] by blast
  then have loop: "rfold (q_step False) ?ds 0 = Inr n" using False by (simp add: nat_str_val)
  obtain c t where ct: "?ds = c # t" using nat_str_nonempty[of "nat n"] by (cases ?ds) auto
  then have "c \<noteq> CHR ''-''" using nat_str_digits[of "nat n"] by (auto simp: is_digit_def byte_def)
  then have "(case ?ds @ r of [] \<Rightarrow> False | c # _ \<Rightarrow> c = CHR ''-'') = False" by (simp add: ct)
  then show ?thesis
    using False n loop nat_str_canonical[of "nat n"] follows_not_digit(3)[OF r]
    by (simp add: q_number_def int_str_def Let_def digits_span[OF nat_str_digits r])
qed

text \<open>A value's text starts with the byte that selects its parser, and no white space.\<close>

lemma int_str_start: "\<exists>c t. int_str n = c # t \<and> (c = CHR ''-'' \<or> is_digit c)"
proof (cases "n < 0")
  case False
  obtain c t where ct: "nat_str (nat n) = c # t" using nat_str_nonempty[of "nat n"] by (cases "nat_str (nat n)") auto
  then have "is_digit c" using nat_str_digits[of "nat n"] by simp
  with False ct show ?thesis by (simp add: int_str_def)
qed (simp add: int_str_def)

definition q_yields :: "(string \<Rightarrow> nat \<Rightarrow> (json \<times> string) result) \<Rightarrow> nat \<Rightarrow> json \<Rightarrow> bool" where
  "q_yields q d v \<longleftrightarrow> (\<forall>r. follows r \<longrightarrow> q (jtext v @ r) d = Inr (v, r))"

lemma join_Cons: "xs \<noteq> [] \<Longrightarrow> join sep (x # xs) = x @ sep @ join sep xs"
  by (cases xs) simp_all

lemma take_token_hit: "\<not> is_space c \<Longrightarrow> take_token c (c # r) = Inr r"
  by (simp add: take_token_def space_def)

lemma space_hit: "\<not> is_space c \<Longrightarrow> space (c # r) = c # r"
  by (simp add: space_def)

lemma punct_not_space [simp]:
  "\<not> is_space (CHR '','')" "\<not> is_space (CHR '']'')" "\<not> is_space (CHR ''}'')"
  "\<not> is_space (CHR '':'')" "\<not> is_space (CHR ''{'')" "\<not> is_space (CHR ''['')" "\<not> is_space (CHR ''\"'')"
  by (simp_all add: is_space_def)

lemma q_array_text:
  assumes "\<forall>w \<in> set ws. q_yields q (Suc d) w" and "ws \<noteq> []" and "length ws \<le> n"
  shows "q_array q d n vs (join '','' (map jtext ws) @ CHR '']'' # r) = Inr (JArray (vs @ ws), r)"
  using assms
proof (induction ws arbitrary: n vs)
  case (Cons w ws)
  obtain n' where n: "n = Suc n'" using Cons.prems(3) by (cases n) auto
  show ?case
  proof (cases "ws = []")
    case True
    have "q (jtext w @ CHR '']'' # r) (Suc d) = Inr (w, CHR '']'' # r)"
      using Cons.prems(1) by (simp add: q_yields_def)
    then show ?thesis by (simp add: True n space_hit)
  next
    case False
    let ?rest = "join '','' (map jtext ws) @ CHR '']'' # r"
    have "q (jtext w @ CHR '','' # ?rest) (Suc d) = Inr (w, CHR '','' # ?rest)"
      using Cons.prems(1) by (simp add: q_yields_def)
    moreover have "q_array q d n' (vs @ [w]) ?rest = Inr (JArray ((vs @ [w]) @ ws), r)"
      using Cons.prems n False by (intro Cons.IH) auto
    ultimately show ?thesis
      by (simp add: join_Cons False n space_hit take_token_hit)
  qed
qed simp

lemma q_object_text:
  assumes dec: "decodes_canonical serde"
    and "\<forall>(k, v) \<in> set es. str_ok k \<and> q_yields q (Suc d) v" and "es \<noteq> []" and "length es \<le> n"
    and "om_ok m" and "distinct (map fst es)" and "\<forall>k \<in> fst ` set es. map_of m k = None"
  shows "q_object serde q d n m
      (join '','' (map (\<lambda>(k, v). jstring k @ '':'' @ jtext v) es) @ CHR ''}'' # r) =
    Inr (JObject (fold (\<lambda>(k, v). om_insert k v) es m), r)"
  using assms(2-)
proof (induction es arbitrary: n m)
  case (Cons e es)
  obtain n' where n: "n = Suc n'" using Cons.prems(3) by (cases n) auto
  obtain k v where e: "e = (k, v)" by (cases e)
  have k: "str_ok k" and v: "q_yields q (Suc d) v" and new: "map_of m k = None"
    using Cons.prems e by auto
  have ins: "q_insert k v m = Inr (om_insert k v m)" using new by (simp add: q_insert_def)
  note str = q_string_jstring[OF dec k]
  show ?case
  proof (cases "es = []")
    case True
    have "q (jtext v @ CHR ''}'' # r) (Suc d) = Inr (v, CHR ''}'' # r)"
      using v by (simp add: q_yields_def)
    then show ?thesis by (simp add: True n e str take_token_hit space_hit ins)
  next
    case False
    let ?rest = "join '','' (map (\<lambda>(k, v). jstring k @ '':'' @ jtext v) es) @ CHR ''}'' # r"
    have val: "q (jtext v @ CHR '','' # ?rest) (Suc d) = Inr (v, CHR '','' # ?rest)"
      using v by (simp add: q_yields_def)
    have "q_object serde q d n' (om_insert k v m) ?rest =
        Inr (JObject (fold (\<lambda>(k, v). om_insert k v) es (om_insert k v m)), r)"
    proof (rule Cons.IH)
      show "\<forall>k' \<in> fst ` set es. map_of (om_insert k v m) k' = None"
        using Cons.prems(4-6) e om_insert_get[OF Cons.prems(4), of k v] by auto
    qed (use Cons.prems n False in \<open>auto simp: om_insert_ok\<close>)
    with val show ?thesis
      by (simp add: join_Cons False n e str take_token_hit space_hit ins)
  qed
qed simp

lemma jtext_start:
  assumes "good d v"
  obtains c t where "jtext v = c # t" "\<not> is_space c" "c \<noteq> CHR '']''"
proof (cases v)
  case (JInt i)
  obtain c t where ct: "int_str i = c # t" "c = CHR ''-'' \<or> is_digit c" using int_str_start[of i] by blast
  have c: "\<not> is_space c" "c \<notin> {CHR '']''}"
    using ct(2) by (auto simp: is_space_def is_digit_def byte_def)
  show thesis by (rule that[of c t]) (use ct(1) c JInt in auto)
next
  case (JBool b)
  then show thesis using that by (cases b) (simp_all add: is_space_def)
qed (use assms that in \<open>auto simp: good_def jstring_def is_space_def\<close>)

lemma jtext_nonempty: "good d v \<Longrightarrow> jtext v \<noteq> []"
  by (erule jtext_start) simp

lemma join_length: "(\<forall>x \<in> set xs. x \<noteq> []) \<Longrightarrow> length xs \<le> length (join sep xs)"
proof (induction xs)
  case (Cons x xs)
  then have "1 \<le> length x" "length xs \<le> length (join sep xs)" by (cases x; simp)+
  then show ?case by (cases xs) simp_all
qed simp

lemma q_body_leaf:
  assumes "good d v" and "decodes_canonical serde" and "follows r"
    and "\<And>vs. v \<noteq> JArray vs" and "\<And>m. v \<noteq> JObject m"
  shows "q_body serde q (jtext v @ r) d = Inr (v, r)"
proof (cases v)
  case (JInt i)
  obtain c t where ct: "int_str i = c # t" "c = CHR ''-'' \<or> is_digit c" using int_str_start[of i] by blast
  have c: "\<not> is_space c" "c \<notin> {CHR ''{'', CHR ''['', CHR ''\"'', CHR ''t'', CHR ''f'', CHR ''n''}"
    using ct(2) by (auto simp: is_space_def is_digit_def byte_def)
  have "\<bar>i\<bar> \<le> SAFE" using assms(1) JInt by (simp add: good_def)
  from q_number_int[OF this assms(3)] have "q_number (c # t @ r) = Inr (JInt i, r)" by (simp add: ct)
  with c ct(2) show ?thesis by (auto simp: JInt ct(1) q_body_def space_def)
next
  case (JString s)
  have "str_ok s" using assms(1) JString by (simp add: good_def)
  from q_string_jstring[OF assms(2) this, of r] show ?thesis
    by (simp add: JString q_body_def jstring_def space_hit)
next
  case (JBool b)
  then show ?thesis by (simp add: q_body_def space_def is_space_def literal_def)
next
  case JNull
  then show ?thesis by (simp add: q_body_def space_def is_space_def literal_def)
qed (use assms in \<open>auto simp: good_def\<close>)

lemma q_body_array:
  assumes d: "d < 32" and w: "\<forall>w \<in> set ws. q_yields q (Suc d) w \<and> good (Suc d) w"
  shows "q_body serde q (jtext (JArray ws) @ r) d = Inr (JArray ws, r)"
proof (cases ws)
  case Nil
  with d show ?thesis by (simp add: q_body_def space_hit)
next
  case (Cons w ws')
  let ?u = "join '','' (map jtext ws) @ CHR '']'' # r"
  obtain c t where ct: "jtext w = c # t" "\<not> is_space c" "c \<noteq> CHR '']''"
    using jtext_start w Cons by (metis list.set_intros(1))
  obtain t' where u: "?u = c # t'" using ct(1) Cons by (cases ws') simp_all
  have ne: "\<forall>x \<in> set (map jtext ws). x \<noteq> []" using w jtext_nonempty by auto
  have len: "length ws \<le> Suc (length ?u)" using join_length[OF ne, of "'',''"] by simp
  have run: "q_array q d (Suc (length ?u)) [] ?u = Inr (JArray ([] @ ws), r)"
    using w Cons by (intro q_array_text[OF _ _ len]) auto
  have tx: "jtext (JArray ws) @ r = CHR ''['' # ?u" by simp
  have "q_body serde q (CHR ''['' # c # t') d = q_array q d (Suc (length (c # t'))) [] (c # t')"
    using d ct(2,3) by (simp add: q_body_def space_hit del: q_array.simps)
  then show ?thesis unfolding tx u using run[unfolded u] by (simp only: append_Nil)
qed

lemma q_body_object:
  assumes dec: "decodes_canonical serde" and d: "d < 32" and m: "good_members d m"
    and w: "\<forall>(k, w) \<in> set m. q_yields q (Suc d) w"
  shows "q_body serde q (jtext (JObject m) @ r) d = Inr (JObject m, r)"
proof (cases "m = []")
  case True
  with d show ?thesis by (simp add: q_body_def space_hit)
next
  case False
  let ?ks = "sort_key encode_utf16 (map fst m)"
  define es where "es = map (\<lambda>k. (k, the (map_of m k))) ?ks"
  have ok: "om_ok m" and mem: "\<forall>(k, v) \<in> set m. str_ok k \<and> good (Suc d) v"
    using m by (simp_all add: good_members_def)
  have dist: "distinct (map fst es)" using om_ok_distinct[OF ok] by (simp add: es_def comp_def)
  have es: "set es = set m"
  proof -
    have s: "(k, v) \<in> set m \<longleftrightarrow> map_of m k = Some v" for k v
      using om_ok_distinct[OF ok] by simp
    have "(k, the (map_of m k)) \<in> set m" if "k \<in> fst ` set m" for k
      using that by (metis map_of_eq_None_iff option.collapse s)
    then have "set es \<subseteq> set m" by (auto simp: es_def)
    moreover have "e \<in> set es" if "e \<in> set m" for e
    proof -
      have "map_of m (fst e) = Some (snd e)" using that s[of "fst e" "snd e"] by simp
      then have "e = (fst e, the (map_of m (fst e)))" by simp
      moreover have "fst e \<in> set ?ks" using that by simp
      ultimately show ?thesis unfolding es_def set_map by (rule image_eqI)
    qed
    ultimately show ?thesis by blast
  qed
  have "map_of es = map_of m"
    using map_of_inject_set[OF dist om_ok_distinct[OF ok]] es by simp
  then have rebuild: "fold (\<lambda>(k, v). om_insert k v) es [] = m"
    using om.rebuild[OF ok dist] by simp
  let ?mem = "\<lambda>(k, v). jstring k @ '':'' @ jtext v"
  let ?u = "join '','' (map ?mem es) @ CHR ''}'' # r"
  have tx: "jtext (JObject m) @ r = CHR ''{'' # ?u" by (simp add: es_def comp_def)
  have ne: "es \<noteq> []" using False es by fastforce
  have nel: "\<forall>x \<in> set (map ?mem es). x \<noteq> []" by (auto simp: jstring_def)
  have len: "length es \<le> Suc (length ?u)" using join_length[OF nel, of "'',''"] by simp
  have run: "q_object serde q d (Suc (length ?u)) [] ?u = Inr (JObject (fold (\<lambda>(k, v). om_insert k v) es []), r)"
    using mem w by (intro q_object_text[OF dec _ ne len _ dist]) (auto simp: es om_ok_def)
  obtain t where u: "?u = CHR ''\"'' # t"
    using ne by (cases es; cases "tl es") (auto simp: jstring_def split: prod.splits)
  have "q_body serde q (CHR ''{'' # CHR ''\"'' # t) d =
      q_object serde q d (Suc (length (CHR ''\"'' # t))) [] (CHR ''\"'' # t)"
    using d by (simp add: q_body_def space_hit del: q_object.simps)
  then show ?thesis unfolding tx u using run[unfolded u rebuild] by simp
qed

lemma q_value_text:
  assumes dec: "decodes_canonical serde"
  shows "good d v \<Longrightarrow> 33 \<le> k + d \<Longrightarrow> q_yields (q_value serde k) d v"
proof (induction k arbitrary: v d)
  case 0
  then have "33 \<le> d" by simp
  moreover have "d \<le> 32" using 0(1) readable_depth unfolding good_def by blast
  ultimately show ?case by simp
next
  case (Suc k)
  have IH: "q_yields (q_value serde k) (Suc d) w" if "good (Suc d) w" for w
    using Suc.IH[OF that] Suc.prems(2) by simp
  show ?case
    unfolding q_yields_def q_value.simps
  proof (intro allI impI)
    fix r assume r: "follows r"
    show "q_body serde (q_value serde k) (jtext v @ r) d = Inr (v, r)"
    proof (cases v)
      case (JArray ws)
      then have "d < 32" "\<forall>w \<in> set ws. good (Suc d) w" using Suc.prems(1) by (auto simp: good_def)
      then show ?thesis unfolding JArray using IH by (intro q_body_array) auto
    next
      case (JObject m)
      then have d: "d < 32" and rd: "\<forall>k \<in> fst ` set m. readable (Suc d) (the (map_of m k))"
        and ok: "om_ok m" "\<forall>(k, v) \<in> set m. str_ok k \<and> json_ok v"
        using Suc.prems(1) by (auto simp: good_def)
      have "readable (Suc d) w" if "(k, w) \<in> set m" for k w
      proof -
        have "map_of m k = Some w" using om_ok_distinct[OF ok(1)] that by simp
        then show ?thesis using rd that by force
      qed
      then have "good_members d m" using ok by (auto simp: good_members_def good_def)
      then show ?thesis
        unfolding JObject using d IH by (intro q_body_object[OF dec]) (auto simp: good_members_def)
    qed (use q_body_leaf[OF Suc.prems(1) dec r] in simp_all)
  qed
qed

section \<open>A decoder that satisfies the hypotheses\<close>

definition hex_val :: "char \<Rightarrow> nat" where
  "hex_val c = (if byte c < 58 then byte c - 48 else byte c - 87)"

function unescape :: "string \<Rightarrow> string option" where
  "unescape [] = Some []"
| "unescape (c # s) =
     (if c \<noteq> CHR 92 then map_option ((#) c) (unescape s)
      else case s of
        [] \<Rightarrow> None
      | e # t \<Rightarrow>
          if e = CHR ''b'' then map_option ((#) (CHR 8)) (unescape t)
          else if e = CHR ''f'' then map_option ((#) (CHR 12)) (unescape t)
          else if e = CHR ''n'' then map_option ((#) (CHR 10)) (unescape t)
          else if e = CHR ''r'' then map_option ((#) (CHR 13)) (unescape t)
          else if e = CHR ''t'' then map_option ((#) (CHR 9)) (unescape t)
          else if e = CHR ''u'' then
            (case t of a # b # x # y # r \<Rightarrow>
               map_option ((#) (char_of (hex_val x * 16 + hex_val y))) (unescape r)
             | _ \<Rightarrow> None)
          else map_option ((#) e) (unescape t))"
  by pat_completeness auto
termination by (relation "measure length") auto

definition model_serde :: pinned where
  "model_serde =
     \<lparr>decode_token = (\<lambda>t. case unescape (butlast (tl t)) of
          Some s \<Rightarrow> if str_ok s then Inr s else Inl ''invalid''
        | None \<Rightarrow> Inl ''invalid''),
      string_capacity = length, value_size = 32, string_size = 24\<rparr>"

lemma hex_val_digit: "n < 16 \<Longrightarrow> hex_val (hex_digit n) = n"
  by (simp add: hex_val_def byte_hex_digit)

lemma unescape_plain: "list_all plain_byte u \<Longrightarrow> unescape (u @ t) = map_option ((@) u) (unescape t)"
proof (induction u)
  case Nil
  then show ?case by (cases "unescape t") simp_all
next
  case (Cons c u)
  then show ?case by (cases "unescape t") (simp_all add: plain_byte_def)
qed

lemma unescape_escape:
  assumes "valid_char u"
  shows "unescape (escape u @ t) = map_option ((@) u) (unescape t)"
  using assms
proof (cases rule: valid_char_cases)
  case (multi)
  then have "escape u = u" by (cases u; cases "tl u") (auto simp: escape_def)
  moreover have "list_all plain_byte u" using multi(2) plain_big by (auto simp: list_all_iff)
  ultimately show ?thesis by (simp add: unescape_plain)
next
  case (ascii c)
  have h: "hex_val (hex_digit (byte c div 16)) = byte c div 16"
    "hex_val (hex_digit (byte c mod 16)) = byte c mod 16"
    using ascii(2) by (simp_all add: hex_val_digit)
  have c: "char_of (byte c div 16 * 16 + byte c mod 16) = c"
    by (simp only: div_mult_mod_eq) (simp add: byte_def)
  have u: "unescape (CHR 92 # CHR ''u'' # CHR ''0'' # CHR ''0'' # hex_byte c @ t) = map_option ((#) c) (unescape t)"
    using c by (simp add: hex_byte_def h)
  have at: "(@) [c] = (#) c" for c :: char by (simp add: fun_eq_iff)
  show ?thesis
    unfolding ascii(1) escape_def using u by (simp add: at)
qed

lemma model_serde_ok: "serde_ok model_serde" "decodes_canonical model_serde"
proof -
  show "serde_ok model_serde"
    by (auto simp: serde_ok_def model_serde_def split: option.splits if_splits)
  have un: "unescape (concat (map escape us)) = Some (concat us)" if "list_all valid_char us" for us
    using that by (induction us) (simp_all add: unescape_escape)
  show "decodes_canonical model_serde"
    unfolding decodes_canonical_def
  proof (intro allI impI)
    fix s assume s: "str_ok s"
    then have "unescape (concat (map escape (chars s))) = Some s"
      using un[of "chars s"] by (simp add: str_ok_def valid_utf8_def concat_chars)
    then show "decode_token model_serde (jstring s) = Inr s"
      using s by (simp add: model_serde_def jstring_def butlast_append)
  qed
qed

section \<open>Emitting and parsing\<close>

lemma from_value_text:
  assumes "json_ok v"
  shows "from_value v = Inr s \<longleftrightarrow> s = jtext v \<and> emittable False 0 v \<and> length s \<le> BUNDLE_LIMIT"
proof -
  have e: "emits noop_work (emit noop_work v dest_legacy 0) dest_legacy (jtext v) (emittable False 0 v)"
    using emits_emit[OF assms, of dest_legacy noop_work] by (simp add: dest_legacy_def)
  have f: "fits dest_legacy n" for n by (simp add: fits_def dest_legacy_def)
  have b: "dbytes dest_legacy = []" by (simp add: dest_legacy_def)
  let ?finish = "\<lambda>d. mbind (compare noop_work (int (length (dbytes d))) (int BUNDLE_LIMIT)) (\<lambda>c.
     if c = OrdGreater then merr (Error ''LIMIT'' ''canonical bundle bytes'') else mok (dbytes d))"
  have fin: "fst (?finish d ()) = (if length (dbytes d) > BUNDLE_LIMIT
      then Inl (Error ''LIMIT'' ''canonical bundle bytes'') else Inr (dbytes d))" for d
    by (simp add: compare_def noop_work_def mthen_def mbind_def mok_def mlift_def merr_def)
  show ?thesis
  proof (cases "emittable False 0 v")
    case True
    then have "erases noop_work (emit noop_work v dest_legacy 0) (Inr (grow dest_legacy (jtext v)))"
      using e f by (simp add: emits_def)
    then have "emit noop_work v dest_legacy 0 () = (Inr (grow dest_legacy (jtext v)), ())" by (rule erases_noop)
    then have "from_value v = fst (?finish (grow dest_legacy (jtext v)) ())"
      by (simp add: from_value_def from_value_with_work_def mbind_def)
    then have "from_value v = (if length (jtext v) > BUNDLE_LIMIT
        then Inl (Error ''LIMIT'' ''canonical bundle bytes'') else Inr (jtext v))"
      unfolding fin by (simp add: b)
    then show ?thesis using True by auto
  next
    case False
    then have "fst (emit noop_work v dest_legacy 0 ()) \<noteq> Inr d" for d
      using e by (auto simp: emits_def yields_def)
    moreover have "\<exists>d. fst (emit noop_work v dest_legacy 0 ()) = Inr d" if "from_value v = Inr s"
      using that by (auto simp: from_value_def from_value_with_work_def mbind_def split: prod.splits sum.splits)
    ultimately show ?thesis using False by blast
  qed
qed

lemma escape_valid:
  assumes "valid_char u"
  shows "valid_utf8 (escape u)"
  using assms
proof (cases rule: valid_char_cases)
  case (multi)
  then have "escape u = u" by (cases u; cases "tl u") (auto simp: escape_def)
  then show ?thesis using chars_valid_append[OF assms, of "[]"] assms by (simp add: valid_utf8_def)
next
  case (ascii c)
  have "byte (hex_digit n) < 128" if "n < 16" for n using that by (simp add: byte_hex_digit)
  then have "ascii (hex_byte c)" using byte_less[of c] by (simp add: hex_byte_def)
  then have "ascii (escape u)" using ascii by (auto simp: escape_def byte_def)
  then show ?thesis by (rule ascii_valid)
qed

lemma valid_utf8_concat: "\<forall>x \<in> set xs. valid_utf8 x \<Longrightarrow> valid_utf8 (concat xs)"
  by (induction xs) (simp_all add: valid_utf8_append)

lemma valid_utf8_join: "valid_utf8 sep \<Longrightarrow> \<forall>x \<in> set xs. valid_utf8 x \<Longrightarrow> valid_utf8 (join sep xs)"
  by (induction sep xs rule: join.induct) (simp_all add: valid_utf8_append)

lemma jstring_valid:
  assumes "str_ok s"
  shows "valid_utf8 (jstring s)"
proof -
  have "list_all valid_char (chars s)" using assms by (simp add: str_ok_def valid_utf8_def)
  then have "valid_utf8 (concat (map escape (chars s)))"
    by (intro valid_utf8_concat) (auto simp: list_all_iff escape_valid)
  moreover have q: "valid_utf8 ''\"''" by (rule ascii_valid) (simp add: byte_def)
  ultimately show ?thesis
    unfolding jstring_def by (simp only: valid_utf8_append q)
qed

lemma jtext_valid: "good d v \<Longrightarrow> valid_utf8 (jtext v)"
proof (induction v arbitrary: d rule: jtext.induct)
  case (3 i)
  have "ascii (int_str i)" using digits_ascii[OF nat_str_digits] by (simp add: int_str_def byte_def)
  then show ?case using ascii_valid by simp
next
  case (5 s)
  then show ?case by (simp add: good_def jstring_valid)
next
  case (6 vs)
  then have v: "\<forall>x \<in> set (map jtext vs). valid_utf8 x" by (auto simp: good_def)
  have p: "valid_utf8 ''[''" "valid_utf8 '','' " "valid_utf8 '']''" by (rule ascii_valid, simp add: byte_def)+
  show ?case unfolding jtext.simps by (simp only: valid_utf8_append p valid_utf8_join[OF p(2) v])
next
  case (7 m)
  have g: "good (Suc d) (the (map_of m k)) \<and> str_ok k" if "k \<in> fst ` set m" for k
  proof -
    from that have "map_of m k \<noteq> None" by (simp add: map_of_eq_None_iff)
    then obtain v where "map_of m k = Some v" by blast
    then show ?thesis using 7(2) that map_of_SomeD[of m k v] by (fastforce simp: good_def)
  qed
  have p: "valid_utf8 ''{''" "valid_utf8 '',''" "valid_utf8 ''}''" "valid_utf8 '':''"
    by (rule ascii_valid, simp add: byte_def)+
  have v: "\<forall>x \<in> set (map (\<lambda>k. jstring k @ '':'' @ jtext (the (map_of m k))) (sort_key encode_utf16 (map fst m))). valid_utf8 x"
    using 7(1) g jstring_valid p(4) by (auto simp: valid_utf8_append[of "'':''"] valid_utf8_append[OF jstring_valid]
        valid_utf8_append[OF p(4), simplified])
  show ?case unfolding jtext.simps by (simp only: valid_utf8_append p valid_utf8_join[OF p(2) v])
qed (auto intro!: ascii_valid simp: byte_def good_def)

lemma q_parse_text:
  assumes "decodes_canonical serde" and "good 0 v" and "length (jtext v) \<le> limit"
  shows "q_parse serde (jtext v) limit = Inr v"
proof -
  have "q_value serde 33 (jtext v @ []) 0 = Inr (v, [])"
    by (rule q_value_text[OF assms(1,2), unfolded q_yields_def, rule_format, OF _ follows_Nil]) simp
  then show ?thesis
    using assms jtext_valid[OF assms(2)] by (simp add: q_parse_def space_def)
qed

lemma jtext_inj: "good 0 v \<Longrightarrow> good 0 w \<Longrightarrow> jtext v = jtext w \<Longrightarrow> v = w"
  using q_parse_text[OF model_serde_ok(2), of v "length (jtext v)"]
    q_parse_text[OF model_serde_ok(2), of w "length (jtext v)"] by simp

lemma hash_input_text:
  "hash_input d v = Inr b \<longleftrightarrow>
     (\<exists>s. from_value v = Inr s \<and> b = ''ledgerlab/'' @ domain_name d @ ''/1'' @ [CHR 0x00] @ s)"
  by (auto simp: hash_input_def rbind_Inr_iff)

lemma domain_name_inj: "domain_name d = domain_name e \<Longrightarrow> d = e"
  by (cases d; cases e; simp)

lemma domain_name_no_slash: "CHR ''/'' \<notin> set (domain_name d)"
  by (cases d) simp_all

lemma split_at_slash:
  assumes "a @ CHR ''/'' # s = b @ CHR ''/'' # t" and "CHR ''/'' \<notin> set a" and "CHR ''/'' \<notin> set b"
  shows "a = b \<and> s = t"
  using assms
proof (induction a arbitrary: b)
  case Nil
  then show ?case by (cases b) auto
next
  case (Cons x a)
  then show ?case by (cases b) auto
qed

text \<open>Every bounded entry point: the canonical text, or nothing.\<close>

lemma emit_into:
  assumes "json_ok v" and "dbytes out = []" and "dcapacity out = 0"
    and "fst (mbind (emit ops v out 0) (\<lambda>d. mok (dbytes d)) w) = Inr s"
  shows "s = jtext v" and "emittable (dmaximum out \<noteq> None) 0 v" and "fits out (length s)"
proof -
  have y: "yields (emit ops v out 0) (\<lambda>d. d = grow out (jtext v) \<and> fits out (length (jtext v))
      \<and> emittable (dmaximum out \<noteq> None) 0 v)"
    using emits_emit[OF assms(1-3), of ops] by (simp add: emits_def)
  have "yields (mbind (emit ops v out 0) (\<lambda>d. mok (dbytes d)))
      (\<lambda>s. s = jtext v \<and> fits out (length s) \<and> emittable (dmaximum out \<noteq> None) 0 v)"
    by (rule yields_bind[OF y], rule yields_ok) (use assms(2) in simp)
  from yields_D[OF this assms(4)]
  show "s = jtext v" "emittable (dmaximum out \<noteq> None) 0 v" "fits out (length s)" by auto
qed

lemma emittable_strict: "emittable True d v \<Longrightarrow> emittable False d v"
  by (induction True d v rule: emittable.induct) auto

end
