(* ===== verification/Canonical_Properties.thy ===== *)
theory Canonical_Properties
  imports Json_Laws
begin

text \<open>
  What the canonical layer promises, stated over the models of \<^verbatim>\<open>canonical/mod.rs\<close> in
  \<^verbatim>\<open>Canonical\<close> and \<^verbatim>\<open>Json_Parser\<close>: one text for each value, transparency of metering and of
  bounds, the round trip through the strict parser and its one exception, and injectivity of
  the domain-separated hash input.
\<close>

section \<open>Emission\<close>

lemma emittable_no_null: "json_ok v \<Longrightarrow> emittable True d v \<Longrightarrow> no_null v = Inr ()"
proof (induction v arbitrary: d rule: no_null.induct)
  case (2 vs)
  then have "\<forall>x \<in> set vs. no_null x = Inr ()" by auto
  then show ?case by (induction vs) (simp_all add: rbind_def)
next
  case (3 m)
  have "no_null v = Inr ()" if "(k, v) \<in> set m" for k v
  proof -
    have "map_of m k = Some v" using 3(2) that by (simp add: map_of_eq_Some_iff om_ok_distinct)
    moreover have "k \<in> fst ` set m" using that by force
    ultimately have "emittable True (Suc d) v" using 3(3) by force
    moreover have "v \<in> set (map snd m)" using that by force
    moreover have "json_ok v" using 3(2) that by auto
    ultimately show ?thesis using 3(1) by blast
  qed
  then have "\<forall>x \<in> set (map snd m). no_null x = Inr ()" by auto
  then have "rfold (\<lambda>v _. no_null v) (map snd m) () = Inr ()"
    by (induction "map snd m" arbitrary: m) (auto simp: rbind_def)
  then show ?case by simp
qed auto

lemma from_value_with_work_text:
  assumes "json_ok v" and "fst (from_value_with_work ops v w) = Inr s"
  shows "s = jtext v \<and> emittable False 0 v \<and> length s \<le> BUNDLE_LIMIT"
proof -
  have y: "yields (emit ops v dest_legacy 0) (\<lambda>d. d = grow dest_legacy (jtext v) \<and> emittable False 0 v)"
    using emits_emit[OF assms(1), of dest_legacy ops] by (simp add: emits_def dest_legacy_def yields_def)
  have "yields (from_value_with_work ops v)
      (\<lambda>s. s = jtext v \<and> emittable False 0 v \<and> length s \<le> BUNDLE_LIMIT)"
    unfolding from_value_with_work_def
  proof (rule yields_bind[OF y])
    fix d assume "d = grow dest_legacy (jtext v) \<and> emittable False 0 v"
    then have d: "dbytes d = jtext v" "emittable False 0 v" by (simp_all add: grow_def dest_legacy_def)
    have c: "yields (compare ops (int (length (dbytes d))) (int BUNDLE_LIMIT))
        (\<lambda>c. c = cmp_of (int (length (jtext v))) (int BUNDLE_LIMIT))"
      unfolding yields_def d(1) by (intro allI impI) (rule compare_result)
    show "yields (mbind (compare ops (int (length (dbytes d))) (int BUNDLE_LIMIT)) (\<lambda>c.
        if c = OrdGreater then merr (Error ''LIMIT'' ''canonical bundle bytes'') else mok (dbytes d)))
      (\<lambda>s. s = jtext v \<and> emittable False 0 v \<and> length s \<le> BUNDLE_LIMIT)"
      by (rule yields_bind[OF c]) (auto simp: d cmp_of_def intro!: yields_ok yields_err split: if_splits)
  qed
  from yields_D[OF this assms(2)] show ?thesis .
qed


lemma from_value_encodable:
  assumes "json_ok v" and "emittable False 0 v"
  shows "from_value v = (if length (jtext v) \<le> BUNDLE_LIMIT then Inr (jtext v)
      else Inl (Error ''LIMIT'' ''canonical bundle bytes''))"
proof -
  have "emits noop_work (emit noop_work v dest_legacy 0) dest_legacy (jtext v) (emittable False 0 v)"
    using emits_emit[OF assms(1), of dest_legacy noop_work] by (simp add: dest_legacy_def)
  then have "erases noop_work (emit noop_work v dest_legacy 0) (Inr (grow dest_legacy (jtext v)))"
    using assms(2) by (simp add: emits_def fits_def dest_legacy_def)
  then have "emit noop_work v dest_legacy 0 () = (Inr (grow dest_legacy (jtext v)), ())" by (rule erases_noop)
  moreover have "dbytes (grow dest_legacy (jtext v)) = jtext v" by (simp add: grow_def dest_legacy_def)
  ultimately show ?thesis
    by (auto simp: from_value_def from_value_with_work_def mbind_def mok_def mlift_def merr_def
        compare_def noop_work_def mthen_def)
qed

text \<open>
  C14: the canonical encoding is a function of the value alone: \<open>from_value\<close> returns exactly the
  string \<open>jtext v\<close> (members in UTF-16 order, canonical escapes and numerals, no white space), and
  refuses exactly the values nested deeper than 32 levels, with an unsafe integer or a float,
  or with a text above the bundle limit.
\<close>

theorem canonical_encoding:
  assumes "json_ok v"
  shows "from_value v = Inr s \<longleftrightarrow> s = jtext v \<and> emittable False 0 v \<and> length s \<le> BUNDLE_LIMIT"
  using assms by (rule from_value_text)

definition sample :: json where
  "sample = JObject [(''a'', JInt (- 1)), (''b'', JArray [JString ''x'', JBool True])]"

lemma om_ok_sample: "om_ok [(''a'', x), (''b'', y)]"
  by (simp add: om_ok_def byte_less byte_def)

lemma sample_ok: "json_ok sample" "emittable True 0 sample" "readable 0 sample"
  by (simp_all add: sample_def SAFE_def str_ok_def valid_utf8_def om_ok_sample valid_char_def
      byte_def int_ranges isize_max_def lead_width_def)

lemma digit_one: "digit_char (Suc 0) = CHR ''1''"
  by code_simp

lemma sample_text: "jtext sample = ''{\"a\":-1,\"b\":[\"x\",true]}''"
  by (simp add: sample_def jstring_def escape_def int_str_def nat_str.simps encode_utf16_def
      utf16_units_def scalar_def lead_width_def byte_def digit_one)

lemma sample_length: "length (jtext sample) = 23"
  by (simp add: sample_text eval_nat_numeral)

theorem canonical_encoding_witness:
  "from_value sample = Inr ''{\"a\":-1,\"b\":[\"x\",true]}''"
  using canonical_encoding[OF sample_ok(1), of "jtext sample"] emittable_strict[OF sample_ok(2)]
  by (simp add: sample_text BUNDLE_LIMIT_def)


section \<open>Bounds and metering\<close>

lemma bounded_text:
  assumes "json_ok v" and "dbytes out = []" and "dcapacity out = 0" and "dmaximum out = Some n"
    and "fst (mbind (emit ops v out 0) (\<lambda>d. mok (dbytes d)) w) = Inr s"
  shows "s = jtext v \<and> emittable True 0 v \<and> no_null v = Inr () \<and> length s \<le> n"
  using emit_into[OF assms(1-3,5)] assms(2,4) emittable_no_null[OF assms(1)]
  by (auto simp: fits_def)

text \<open>
  C16: metering and bounding change no byte: whatever callbacks are passed, an entry point that
  succeeds returns the canonical text of \<open>from_value\<close>. The bounded ones return it only when it
  is within their maximum and the value has no null; a container may exceed the bundle limit of
  \<open>from_value\<close> up to its own bound, and it is then the same text.
\<close>

theorem metered_encoding_transparent:
  assumes "json_ok v"
  shows "(fst (from_value_with_work ops v w) = Inr s \<longrightarrow> from_value v = Inr s) \<and>
    (fst (from_value_with_work_bounded ops v n w) = Inr s \<longrightarrow>
       from_value v = Inr s \<and> length s \<le> n \<and> no_null v = Inr ()) \<and>
    (fst (from_representation_with_work ops v n w) = Inr s \<longrightarrow>
       from_value v = Inr s \<and> length s \<le> n \<and> no_null v = Inr ()) \<and>
    (fst (from_container_with_work ops v bound w) = Inr s \<longrightarrow>
       s = jtext v \<and> length s \<le> container_maximum bound \<and> no_null v = Inr ()) \<and>
    (fst (from_representation_container_with_work ops v bound w) = Inr s \<longrightarrow>
       s = jtext v \<and> length s \<le> container_maximum bound \<and> no_null v = Inr ())"
proof -
  note fv = from_value_text[OF assms, of s] and bt = bounded_text[OF assms]
  have r1: "from_value v = Inr s"
    if "fst (from_value_with_work ops v w) = Inr s"
    using from_value_with_work_text[OF assms that] fv by blast
  have r2: "from_value v = Inr s \<and> length s \<le> n \<and> no_null v = Inr ()"
    if "fst (from_value_with_work_bounded ops v n w) = Inr s"
  proof -
    have "s = jtext v \<and> emittable True 0 v \<and> no_null v = Inr () \<and> length s \<le> min n BUNDLE_LIMIT"
      by (rule bt[OF _ _ _ that[unfolded from_value_with_work_bounded_def]]) (simp_all add: dest_bounded_def)
    then show ?thesis using fv emittable_strict by auto
  qed
  have r3: "from_value v = Inr s \<and> length s \<le> n \<and> no_null v = Inr ()"
    if "fst (from_representation_with_work ops v n w) = Inr s"
  proof -
    have "s = jtext v \<and> emittable True 0 v \<and> no_null v = Inr () \<and> length s \<le> min n BUNDLE_LIMIT"
      by (rule bt[OF _ _ _ that[unfolded from_representation_with_work_def]]) (simp_all add: dest_representation_def)
    then show ?thesis using fv emittable_strict by auto
  qed
  have r4: "s = jtext v \<and> length s \<le> container_maximum bound \<and> no_null v = Inr ()"
    if "fst (from_container_with_work ops v bound w) = Inr s"
  proof -
    have "s = jtext v \<and> emittable True 0 v \<and> no_null v = Inr () \<and> length s \<le> container_maximum bound"
      by (rule bt[OF _ _ _ that[unfolded from_container_with_work_def]]) (simp_all add: dest_bounded_def)
    then show ?thesis by blast
  qed
  have r5: "s = jtext v \<and> length s \<le> container_maximum bound \<and> no_null v = Inr ()"
    if "fst (from_representation_container_with_work ops v bound w) = Inr s"
  proof -
    have "s = jtext v \<and> emittable True 0 v \<and> no_null v = Inr () \<and> length s \<le> container_maximum bound"
      by (rule bt[OF _ _ _ that[unfolded from_representation_container_with_work_def]])
        (simp_all add: dest_representation_def)
    then show ?thesis by blast
  qed
  show ?thesis using r1 r2 r3 r4 r5 by blast
qed

text \<open>
  With callbacks that never refuse, a bounded entry point does succeed on a value that is
  encodable and within the bound.
\<close>

lemma bounded_success:
  assumes "json_ok v" and "dbytes out = []" and "dcapacity out = 0" and "dmaximum out = Some n"
    and "emittable True 0 v" and "length (jtext v) \<le> n" and "length (jtext v) \<le> u64_max"
  shows "fst (mbind (emit noop_work v out 0) (\<lambda>d. mok (dbytes d)) ()) = Inr (jtext v)"
proof -
  have "emits noop_work (emit noop_work v out 0) out (jtext v) (emittable (dmaximum out \<noteq> None) 0 v)"
    using emits_emit[OF assms(1-3)] .
  moreover have "fits out (length (jtext v))" using assms by (simp add: fits_def)
  ultimately have "erases noop_work (emit noop_work v out 0) (Inr (grow out (jtext v)))"
    using assms(4,5) by (simp add: emits_def)
  then have "emit noop_work v out 0 () = (Inr (grow out (jtext v)), ())" by (rule erases_noop)
  then show ?thesis using assms(2) by (simp add: mbind_def mok_def mlift_def grow_def)
qed

theorem metered_encoding_transparent_witness:
  "from_value sample = Inr ''{\"a\":-1,\"b\":[\"x\",true]}'' \<and>
   fst (from_value_with_work_bounded noop_work sample 23 ()) = Inr ''{\"a\":-1,\"b\":[\"x\",true]}''"
proof -
  let ?s = "''{\"a\":-1,\"b\":[\"x\",true]}''"
  have m: "min 23 BUNDLE_LIMIT = 23" by (simp add: BUNDLE_LIMIT_def)
  have u: "23 \<le> u64_max" by (simp add: int_ranges)
  have "fst (from_value_with_work_bounded noop_work sample 23 ()) = Inr ?s"
    unfolding from_value_with_work_bounded_def
    unfolding m sample_text[symmetric]
    by (rule bounded_success[where n = 23, OF sample_ok(1) _ _ _ sample_ok(2)])
      (use u in \<open>simp_all add: dest_bounded_def sample_length\<close>)
  moreover from this have "from_value sample = Inr ?s"
    by (rule metered_encoding_transparent[OF sample_ok(1),
          THEN conjunct2, THEN conjunct1, THEN mp, THEN conjunct1])
  ultimately show ?thesis by simp
qed


section \<open>The strict parser\<close>

lemma parse_good:
  assumes "serde_ok serde" and "arrays_fit serde (length bytes)" and "parse_bounded serde bytes limit = Inr v"
  shows "good 0 v \<and> length bytes \<le> limit \<and> valid_utf8 bytes"
proof -
  have q: "q_parse serde bytes limit = Inr v" using assms parse_bounded_eq by simp
  then obtain r where "q_value serde 33 bytes 0 = Inr (v, r)"
    by (auto simp: q_parse_def rbind_Inr_iff split: if_splits)
  then have "good 0 v" using q_value_good[OF assms(1), of 0 33] by simp
  then show ?thesis using q by (auto simp: q_parse_def split: if_splits)
qed

text \<open>
  C15: parsing is strict and total: it never panics, whatever the bytes; what it accepts was
  within the limit and valid UTF-8, and the value it returns is well formed (every string valid,
  members sorted and unique), has only safe integers and fewer than 33 levels, so that it can be
  encoded again unless its canonical text is above the bundle limit.
\<close>

theorem parse_accepts_wellformed:
  assumes "serde_ok serde" and "arrays_fit serde (length bytes)"
  shows "parse_bounded serde bytes limit \<noteq> Inl Panic \<and>
    (\<forall>v. parse_bounded serde bytes limit = Inr v \<longrightarrow>
       json_ok v \<and> readable 0 v \<and> length bytes \<le> limit \<and> valid_utf8 bytes \<and>
       from_value v = (if length (jtext v) \<le> BUNDLE_LIMIT then Inr (jtext v)
                       else Inl (Error ''LIMIT'' ''canonical bundle bytes'')))"
proof (intro conjI allI impI)
  have "q_parse serde bytes limit \<noteq> Inl Panic"
    using q_value_panic[of 33 0 serde bytes]
    by (auto simp: q_parse_def rbind_def json_error_def split: sum.splits prod.splits if_splits)
  then show "parse_bounded serde bytes limit \<noteq> Inl Panic" using parse_bounded_eq[OF assms] by simp
next
  fix v assume p: "parse_bounded serde bytes limit = Inr v"
  note g = parse_good[OF assms p]
  from g show "json_ok v" "readable 0 v" "length bytes \<le> limit" "valid_utf8 bytes" by (auto simp: good_def)
  show "from_value v = (if length (jtext v) \<le> BUNDLE_LIMIT then Inr (jtext v)
      else Inl (Error ''LIMIT'' ''canonical bundle bytes''))"
    by (rule from_value_encodable) (use g readable_emittable in \<open>auto simp: good_def\<close>)
qed


lemma sample_fit: "n \<le> 1000000 \<Longrightarrow> arrays_fit model_serde n"
  by (simp add: arrays_fit_def model_serde_def u64_max_def)

lemma good_parse:
  assumes "serde_ok serde" and "decodes_canonical serde" and "arrays_fit serde (length (jtext v))"
    and "good 0 v" and "length (jtext v) \<le> limit"
  shows "parse_bounded serde (jtext v) limit = Inr v"
  using parse_bounded_eq[OF assms(1,3)] q_parse_text[OF assms(2,4,5)] by simp

theorem parse_accepts_wellformed_witness:
  "parse_bounded model_serde (jtext sample) 23 = Inr sample \<and>
   json_ok sample \<and> readable 0 sample \<and> valid_utf8 (jtext sample) \<and> from_value sample = Inr (jtext sample)"
proof -
  have fit: "arrays_fit model_serde (length (jtext sample))" by (rule sample_fit) (simp add: sample_length)
  have p: "parse_bounded model_serde (jtext sample) 23 = Inr sample"
    by (rule good_parse[OF model_serde_ok fit]) (simp_all add: good_def sample_ok sample_length)
  have "length (jtext sample) \<le> BUNDLE_LIMIT" by (simp add: sample_length BUNDLE_LIMIT_def)
  with parse_accepts_wellformed[OF model_serde_ok(1) fit, of 23] p show ?thesis by simp
qed

text \<open>
  C13: encoding then parsing gives the value back: for every well-formed value with fewer than
  33 levels, safe integers and no float, the strict parser reads the canonical bytes as exactly
  that value, whenever they are within its limit.
\<close>

theorem canonical_round_trip:
  assumes "serde_ok serde" and "decodes_canonical serde" and "arrays_fit serde (length s)"
    and "json_ok v" and "readable 0 v" and "from_value v = Inr s" and "length s \<le> limit"
  shows "parse_bounded serde s limit = Inr v"
proof -
  have "s = jtext v" using from_value_text[OF assms(4)] assms(6) by blast
  then show ?thesis using good_parse[OF assms(1,2), of v limit] assms by (simp add: good_def)
qed

theorem canonical_round_trip_witness:
  "parse_bounded model_serde ''{\"a\":-1,\"b\":[\"x\",true]}'' 23 = Inr sample"
proof -
  have f: "from_value sample = Inr (jtext sample)"
    using from_value_encodable[OF sample_ok(1) emittable_strict[OF sample_ok(2)]] sample_length
    by (simp add: BUNDLE_LIMIT_def)
  have "parse_bounded model_serde (jtext sample) 23 = Inr sample"
    by (rule canonical_round_trip[OF model_serde_ok sample_fit sample_ok(1,3) f]) (simp_all add: sample_length)
  then show ?thesis by (simp only: sample_text)
qed

text \<open>
  C17: the parse that reports its allocations agrees with the plain one: whatever callbacks it is
  given, it returns the value or the error of \<open>parse_bounded\<close>, or an error of one of its
  callbacks; the complete mode may also refuse with the byte-accounting limit.
\<close>

theorem audited_parse_agrees:
  assumes "serde_ok serde" and "arrays_fit serde (length bytes)"
  shows "let r = fst (parse_bounded_with_allocations serde aw bytes limit w);
             c = fst (parse_bounded_with_allocations_complete serde aw bytes limit w);
             plain = parse_bounded serde bytes limit in
    (r = plain \<or> (\<exists>e \<in> alloc_refusals aw. r = Inl e)) \<and>
    (c = plain \<or> c = Inl byte_limit \<or> (\<exists>e \<in> alloc_refusals aw. c = Inl e))"
  using er_parse[OF assms(1), of aw False bytes True limit] er_parse[OF assms(1), of aw True bytes True limit]
    assms parse_bounded_eq[OF assms, of limit]
  by (auto simp: Let_def erases_in_def parse_bounded_with_allocations_def
      parse_bounded_with_allocations_complete_def)

theorem audited_parse_agrees_witness:
  "fst (parse_bounded_with_allocations model_serde noop_alloc ''[1 }'' 9 ())
     = parse_bounded model_serde ''[1 }'' 9"
  using audited_parse_agrees[OF model_serde_ok(1) sample_fit, of "''[1 }''" noop_alloc 9 "()"]
  by (simp add: Let_def alloc_refusals_noop)


section \<open>Hash inputs\<close>

lemma hash_input_inj:
  assumes "good 0 v" and "good 0 w" and "hash_input d v = Inr b" and "hash_input e w = Inr b"
  shows "d = e \<and> v = w"
proof -
  obtain s where s: "from_value v = Inr s" "b = ''ledgerlab/'' @ domain_name d @ ''/1'' @ [CHR 0x00] @ s"
    using assms(3) hash_input_text by blast
  obtain t where t: "from_value w = Inr t" "b = ''ledgerlab/'' @ domain_name e @ ''/1'' @ [CHR 0x00] @ t"
    using assms(4) hash_input_text by blast
  from s(2) t(2) have "domain_name d @ CHR ''/'' # (CHR ''1'' # CHR 0x00 # s)
      = domain_name e @ CHR ''/'' # (CHR ''1'' # CHR 0x00 # t)" by simp
  from split_at_slash[OF this domain_name_no_slash domain_name_no_slash]
  have "domain_name d = domain_name e" "s = t" by simp_all
  moreover have "s = jtext v" "t = jtext w"
    using s(1) t(1) from_value_text assms(1,2) by (auto simp: good_def)
  ultimately show ?thesis using domain_name_inj jtext_inj[OF assms(1,2)] by simp
qed

text \<open>
  C18: hashing separates domains and values: two readable values with the same digest or the same
  hexadecimal hash, under whatever domains, are the same value in the same domain, or their two
  hash inputs are a collision of SHA-256 itself. No part of the input framing (name, version,
  separator, canonical text) can be shifted into another.
\<close>

theorem hash_separates:
  assumes "json_ok v" and "readable 0 v" and "json_ok w" and "readable 0 w"
    and "digest sha256 d v = Inr h \<and> digest sha256 e w = Inr h
      \<or> hash_hex sha256 d v = Inr h \<and> hash_hex sha256 e w = Inr h"
  shows "d = e \<and> v = w \<or>
    (\<exists>a b. hash_input d v = Inr a \<and> hash_input e w = Inr b \<and> a \<noteq> b \<and> sha256 a = sha256 b)"
proof -
  obtain x where x: "hash_hex sha256 d v = Inr x" "hash_hex sha256 e w = Inr x"
    using assms(5) by (auto simp: digest_def rbind_Inr_iff)
  obtain a where a: "hash_input d v = Inr a" "x = hex (sha256 a)"
    using x(1) by (auto simp: hash_hex_def rbind_Inr_iff)
  obtain b where b: "hash_input e w = Inr b" "x = hex (sha256 b)"
    using x(2) by (auto simp: hash_hex_def rbind_Inr_iff)
  have "sha256 a = sha256 b" using a(2) b(2) hex_inj by simp
  moreover have "d = e \<and> v = w" if "a = b"
    using hash_input_inj[of v w d a e] assms(1-4) a(1) b(1) that by (simp add: good_def)
  ultimately show ?thesis using a(1) b(1) by blast
qed

theorem hash_separates_witness:
  "\<exists>h a b. hash_hex (take 9) DomEvent sample = Inr h \<and> hash_hex (take 9) DomEvent (JBool True) = Inr h
    \<and> hash_input DomEvent sample = Inr a \<and> hash_input DomEvent (JBool True) = Inr b \<and> a \<noteq> b \<and> take 9 a = take 9 b"
proof -
  have v: "from_value sample = Inr (jtext sample)"
    using from_value_encodable[OF sample_ok(1) emittable_strict[OF sample_ok(2)]] sample_length
    by (simp add: BUNDLE_LIMIT_def)
  have t: "json_ok (JBool True)" "readable 0 (JBool True)" by simp_all
  have w: "from_value (JBool True) = Inr (jtext (JBool True))"
    using from_value_encodable[of "JBool True"] by (simp add: BUNDLE_LIMIT_def)
  have h: "hash_hex (take 9) DomEvent u = Inr (hex ''ledgerlab'')" if "from_value u = Inr x" for u x
    using that by (simp add: hash_hex_def hash_input_def)
  have "sample \<noteq> JBool True" by (simp add: sample_def)
  with hash_separates[OF sample_ok(1,3) t, of "take 9" DomEvent _ DomEvent] h[OF v] h[OF w] show ?thesis by blast
qed

section \<open>Where the round trip ends\<close>

text \<open>\<open>nested n\<close> is \<open>n + 1\<close> arrays, each the only element of the next, the innermost empty.\<close>

primrec nested :: "nat \<Rightarrow> json" where
  "nested 0 = JArray []"
| "nested (Suc n) = JArray [nested n]"

lemma nested_text: "jtext (nested n) = replicate (Suc n) (CHR ''['') @ replicate (Suc n) (CHR '']'')"
proof (induction n)
  case (Suc n)
  have "replicate (Suc n) (CHR '']'') @ '']'' = replicate (Suc (Suc n)) (CHR '']'')"
    by (simp add: replicate_append_same)
  then show ?case using Suc by simp
qed simp

lemma nested_emittable: "d + n \<le> 32 \<Longrightarrow> emittable False d (nested n)"
  by (induction n arbitrary: d) auto

lemma nested_ok: "json_ok (nested n)"
  by (induction n) auto

lemma q_body_deep: "32 \<le> d \<Longrightarrow> q_body serde rec (CHR ''['' # r) d = Inl deep_json"
  by (simp add: q_body_def space_hit)

lemma q_value_deep:
  "d + n = 32 \<Longrightarrow> 33 \<le> k + d \<Longrightarrow>
   q_value serde k (replicate (Suc n) (CHR ''['') @ r) d = Inl deep_json"
proof (induction n arbitrary: d k)
  case 0
  then show ?case by (cases k) (simp_all add: q_body_deep)
next
  case (Suc n)
  then obtain j where k: "k = Suc j" by (cases k) auto
  have "q_value serde j (replicate (Suc n) (CHR ''['') @ r) (Suc d) = Inl deep_json"
    using Suc k by simp
  then show ?case using Suc.prems by (simp add: k q_body_def space_hit rbind_def)
qed

lemma replicate_ascii: "byte c < 128 \<Longrightarrow> ascii (replicate n c)"
  by (induction n) (simp_all add: ascii_def)

text \<open>
  C19: the emitter and the parser disagree on one level of nesting: 33 nested arrays, the
  innermost empty, are a well-formed value that \<open>from_value\<close> encodes in 66 bytes, and the strict
  parser refuses those canonical bytes whatever its limit, because it checks the depth of a
  container before looking whether it has members and the emitter checks it after.
\<close>

theorem canonical_depth_mismatch:
  assumes "serde_ok serde" and "arrays_fit serde 66" and "66 \<le> limit"
  shows "json_ok (nested 32) \<and>
    (\<exists>s. from_value (nested 32) = Inr s \<and> length s = 66 \<and>
         parse_bounded serde s limit = Inl (Error ''LIMIT'' ''JSON depth''))"
proof -
  define s where "s = replicate (Suc 32) (CHR ''['') @ replicate (Suc 32) (CHR '']'')"
  have t: "jtext (nested 32) = s" unfolding s_def by (rule nested_text)
  have l: "length s = 66" by (simp add: s_def)
  have f: "from_value (nested 32) = Inr s"
    using from_value_encodable[OF nested_ok nested_emittable, of 32] t l by (simp add: BUNDLE_LIMIT_def)
  have "ascii s" unfolding s_def ascii_append by (simp add: replicate_ascii byte_def)
  then have "valid_utf8 s" by (rule ascii_valid)
  moreover have "q_value serde 33 s 0 = Inl deep_json" unfolding s_def by (rule q_value_deep) simp_all
  ultimately have "q_parse serde s limit = Inl deep_json" using l assms(3) by (simp add: q_parse_def rbind_def)
  then have "parse_bounded serde s limit = Inl deep_json"
    using parse_bounded_eq[OF assms(1), of s limit] assms(2) l by simp
  then show ?thesis using f l nested_ok by (auto simp: deep_json_def)
qed

theorem canonical_depth_mismatch_witness:
  "\<exists>s. from_value (nested 32) = Inr s \<and> parse_bounded model_serde s 66 = Inl (Error ''LIMIT'' ''JSON depth'')"
proof -
  have "arrays_fit model_serde 66" by (rule sample_fit) simp
  from canonical_depth_mismatch[OF model_serde_ok(1) this order_refl] show ?thesis by blast
qed

end
