(* ===== verification/Timestamp.thy ===== *)
theory Timestamp
  imports Work Text
begin

text \<open>
  Timestamps (\<^verbatim>\<open>domain/time.rs\<close>): parsing a Gregorian date and time with an offset into microseconds
  since 1970, and rendering microseconds as the canonical 27-character UTC text. Every arithmetic
  step goes through the work callbacks, so the definitions are metered functions.
\<close>

record timestamp =
  ts_canonical :: string
  ts_micros :: int

definition ts_fail :: error where
  "ts_fail = Error ''TIMESTAMP'' ''expected Gregorian timestamp with explicit offset and at most six fractional digits''"

section \<open>Metered arithmetic\<close>

definition t_add :: "'w validation_work \<Rightarrow> int \<Rightarrow> int \<Rightarrow> ('w, int) metered" where
  "t_add ops = i64_operation ops OpAdd"

definition t_sub :: "'w validation_work \<Rightarrow> int \<Rightarrow> int \<Rightarrow> ('w, int) metered" where
  "t_sub ops = i64_operation ops OpSubtract"

definition t_mul :: "'w validation_work \<Rightarrow> int \<Rightarrow> int \<Rightarrow> ('w, int) metered" where
  "t_mul ops = i64_operation ops OpMultiply"

definition t_div :: "'w validation_work \<Rightarrow> int \<Rightarrow> int \<Rightarrow> ('w, int) metered" where
  "t_div ops = i64_operation ops OpDivideRemainder"

definition t_rem :: "'w validation_work \<Rightarrow> int \<Rightarrow> int \<Rightarrow> ('w, int) metered" where
  "t_rem ops = i64_remainder ops"

definition t_lt :: "'w validation_work \<Rightarrow> int \<Rightarrow> int \<Rightarrow> ('w, bool) metered" where
  "t_lt ops a b = mbind (compare ops a b) (\<lambda>c. mok (c = OrdLess))"

definition t_le :: "'w validation_work \<Rightarrow> int \<Rightarrow> int \<Rightarrow> ('w, bool) metered" where
  "t_le ops a b = mbind (compare ops a b) (\<lambda>c. mok (c \<noteq> OrdGreater))"

definition t_eq :: "'w validation_work \<Rightarrow> int \<Rightarrow> int \<Rightarrow> ('w, bool) metered" where
  "t_eq ops a b = mbind (compare ops a b) (\<lambda>c. mok (c = OrdEqual))"

text \<open>\<open>a? || b?\<close>: the right operand runs only when the left one is false.\<close>

definition mor :: "('w, bool) metered \<Rightarrow> ('w, bool) metered \<Rightarrow> ('w, bool) metered" where
  "mor a b = mbind a (\<lambda>x. if x then mok True else b)"

section \<open>The calendar\<close>

definition number :: "'w validation_work \<Rightarrow> string \<Rightarrow> ('w, int) metered" where
  "number ops s =
     mfold (\<lambda>b v.
       mthen (scan_bytes ops 1)
      (mthen (visit ops VScalarDigit)
        (if \<not> is_digit b then merr ts_fail
         else mbind (t_mul ops v 10) (\<lambda>v.
              mbind (t_sub ops (int (byte b)) 48) (\<lambda>d. t_add ops v d))))) s 0"

definition days_before_year :: "'w validation_work \<Rightarrow> int \<Rightarrow> ('w, int) metered" where
  "days_before_year ops y =
     mbind (t_sub ops y 1) (\<lambda>y.
     mbind (t_mul ops y 365) (\<lambda>days.
     mbind (t_div ops y 4) (\<lambda>leap4.
     mbind (t_add ops days leap4) (\<lambda>days.
     mbind (t_div ops y 100) (\<lambda>leap100.
     mbind (t_sub ops days leap100) (\<lambda>days.
     mbind (t_div ops y 400) (\<lambda>leap400.
     t_add ops days leap400)))))))"

definition month_days :: "'w validation_work \<Rightarrow> int \<Rightarrow> int \<Rightarrow> ('w, int) metered" where
  "month_days ops y m =
     mthen (visit ops VConstraint)
       (if m = 4 \<or> m = 6 \<or> m = 9 \<or> m = 11 then mok 30
        else if m = 2 then
          mbind (t_rem ops y 4) (\<lambda>r4.
          mbind (t_eq ops r4 0) (\<lambda>by4.
          mbind (if by4 then
                   mbind (t_rem ops y 100) (\<lambda>r100.
                   mbind (t_eq ops r100 0) (\<lambda>by100.
                   if \<not> by100 then mok True
                   else mbind (t_rem ops y 400) (\<lambda>r400. t_eq ops r400 0)))
                 else mok False) (\<lambda>leap.
          mok (if leap then 29 else 28))))
        else mok 31)"

lemma t_add_Inr: "fst (t_add ops a b w) = Inr c \<Longrightarrow> c = a + b \<and> in_i64 c"
  by (auto simp: t_add_def i64_operation_def mthen_def mbind_def mlift_def split: prod.splits sum.splits)

text \<open>The two loops of \<open>render\<close>; their counters are bounded by the range of \<open>i64\<close>.\<close>

function year_loop :: "'w validation_work \<Rightarrow> int \<Rightarrow> int \<Rightarrow> ('w, int) metered" where
  "year_loop ops day year =
     mbind (t_add ops year 1) (\<lambda>next_year.
     mbind (days_before_year ops next_year) (\<lambda>next_day.
     mbind (t_le ops next_day day) (\<lambda>passed.
     if \<not> passed then mok year
     else mbind (t_add ops year 1) (year_loop ops day))))"
  by pat_completeness auto
termination
  by (relation "measure (\<lambda>(_, _, year). nat (i64_max - year))") (auto dest!: t_add_Inr simp: in_i64_def)

function month_loop :: "'w validation_work \<Rightarrow> int \<Rightarrow> int \<Rightarrow> int \<Rightarrow> ('w, int \<times> int) metered" where
  "month_loop ops year rest month =
     mbind (month_days ops year month) (\<lambda>days.
     mbind (t_lt ops rest days) (\<lambda>found.
     if found then mok (rest, month)
     else mbind (month_days ops year month) (\<lambda>days.
          mbind (t_sub ops rest days) (\<lambda>rest.
          mbind (t_add ops month 1) (month_loop ops year rest)))))"
  by pat_completeness auto
termination
  by (relation "measure (\<lambda>(_, _, _, month). nat (i64_max - month))") (auto dest!: t_add_Inr simp: in_i64_def)

declare year_loop.simps [simp del] month_loop.simps [simp del]

text \<open>Rust's zero padding puts the zeros after the sign.\<close>

definition zero_pad :: "nat \<Rightarrow> int \<Rightarrow> string" where
  "zero_pad width n =
     (let digits = nat_str (nat \<bar>n\<bar>); sign = (if n < 0 then ''-'' else []) in
      sign @ replicate (width - length sign - length digits) (CHR ''0'') @ digits)"

definition format_utc :: "int \<Rightarrow> int \<Rightarrow> int \<Rightarrow> int \<Rightarrow> int \<Rightarrow> int \<Rightarrow> int \<Rightarrow> string" where
  "format_utc year month date hour minute second fraction =
     zero_pad 4 year @ ''-'' @ zero_pad 2 month @ ''-'' @ zero_pad 2 date @ ''T'' @
     zero_pad 2 hour @ '':'' @ zero_pad 2 minute @ '':'' @ zero_pad 2 second @ ''.'' @
     zero_pad 6 fraction @ ''Z''"

definition render :: "'w validation_work \<Rightarrow> int \<Rightarrow> int \<Rightarrow> int \<Rightarrow> ('w, string) metered" where
  "render ops day within fraction =
     mbind (t_div ops day 366) (\<lambda>year_guess.
     mbind (t_add ops year_guess 1) (\<lambda>year_guess.
     mbind (t_lt ops year_guess 9999) (\<lambda>below.
     mbind (year_loop ops day (if below then year_guess else 9999)) (\<lambda>year.
     mbind (days_before_year ops year) (\<lambda>year_day.
     mbind (t_sub ops day year_day) (\<lambda>rest.
     mbind (month_loop ops year rest 1) (\<lambda>(rest, month).
     mbind (t_add ops rest 1) (\<lambda>date.
     mbind (t_div ops within 3600) (\<lambda>hour.
     mbind (t_div ops within 60) (\<lambda>minute.
     mbind (t_rem ops minute 60) (\<lambda>minute.
     mbind (t_rem ops within 60) (\<lambda>second.
     mthen (write_bytes ops 27)
       (mok (format_utc year month date hour minute second fraction))))))))))))))"

section \<open>Parsing\<close>

definition ascii_scan :: "'w validation_work \<Rightarrow> string \<Rightarrow> ('w, unit) metered" where
  "ascii_scan ops s =
     mfold (\<lambda>b _.
       mthen (scan_bytes ops 1)
      (mthen (visit ops VConstraint)
        (if byte b < 128 then mok () else merr ts_fail))) s ()"

text \<open>
  Slicing a \<open>str\<close>: \<open>get\<close> returns \<open>None\<close> and the index operator panics when the range is not in the
  text or an end of it is inside a character. \<open>as_bytes()[i]\<close> panics out of range.
\<close>

definition slice :: "nat \<Rightarrow> nat \<Rightarrow> string \<Rightarrow> string" where
  "slice a b s = take (b - a) (drop a s)"

definition char_boundary :: "string \<Rightarrow> nat \<Rightarrow> bool" where
  "char_boundary s i \<longleftrightarrow> i = 0 \<or> i = length s \<or> i < length s \<and> \<not> is_cont (s ! i)"

definition str_get :: "nat \<Rightarrow> nat \<Rightarrow> string \<Rightarrow> string option" where
  "str_get a b s =
     (if a \<le> b \<and> b \<le> length s \<and> char_boundary s a \<and> char_boundary s b then Some (slice a b s) else None)"

definition str_index :: "nat \<Rightarrow> nat \<Rightarrow> string \<Rightarrow> ('w, string) metered" where
  "str_index a b s = mlift (ok_or (str_get a b s) Panic)"

definition byte_index :: "nat \<Rightarrow> string \<Rightarrow> ('w, char) metered" where
  "byte_index i s = mlift (if i < length s then Inr (s ! i) else Inl Panic)"

lemma ascii_boundary: "ascii s \<Longrightarrow> i \<le> length s \<Longrightarrow> char_boundary s i"
  by (cases "i = length s") (auto simp: char_boundary_def ascii_def list_all_length is_cont_def not_le)

lemma ascii_get: "ascii s \<Longrightarrow> a \<le> b \<Longrightarrow> b \<le> length s \<Longrightarrow> str_get a b s = Some (slice a b s)"
  by (simp add: str_get_def ascii_boundary)

lemma ascii_index: "ascii s \<Longrightarrow> a \<le> b \<Longrightarrow> b \<le> length s \<Longrightarrow> str_index a b s = mok (slice a b s)"
  by (simp add: str_index_def ascii_get mok_def)

lemma byte_index_ok: "i < length s \<Longrightarrow> byte_index i s = mok (s ! i)"
  by (simp add: byte_index_def mok_def)

definition separators :: "'w validation_work \<Rightarrow> string \<Rightarrow> ('w, unit) metered" where
  "separators ops s =
     mfold (\<lambda>(start, expected) _.
       mthen (visit ops VConstraint)
         (if str_get start (start + 1) s \<noteq> Some expected then merr ts_fail else mok ()))
       [(4, ''-''), (7, ''-''), (10, ''T''), (13, '':''), (16, '':'')] ()"

fun fraction_digits :: "'w validation_work \<Rightarrow> string \<Rightarrow> nat \<Rightarrow> ('w, nat) metered" where
  "fraction_digits ops [] n = mok n"
| "fraction_digits ops (b # t) n =
     mthen (scan_bytes ops 1)
    (mthen (visit ops VScalarDigit)
      (if \<not> is_digit b then mok n else mbind (usize_add ops n 1) (fraction_digits ops t)))"

text \<open>The text after the seconds: the fraction's digits and the offset.\<close>

definition split_fraction :: "'w validation_work \<Rightarrow> string \<Rightarrow> ('w, string \<times> string) metered" where
  "split_fraction ops tail =
     (case tail of
        c # t \<Rightarrow>
          if c = CHR ''.'' then
            mbind (fraction_digits ops t 0) (\<lambda>n.
            mbind (mor (t_eq ops (int n) 0) (t_lt ops 6 (int n))) (\<lambda>bad.
            if bad then merr ts_fail
            else mbind (str_index 0 n t) (\<lambda>fraction.
                 mbind (str_index n (length t) t) (\<lambda>offset. mok (fraction, offset)))))
          else mok ([], tail)
      | [] \<Rightarrow> mok ([], tail))"

definition fraction_micros :: "'w validation_work \<Rightarrow> string \<Rightarrow> ('w, int) metered" where
  "fraction_micros ops fraction =
     (if fraction = [] then mok 0
      else mbind (number ops fraction) (\<lambda>v.
           mbind (t_sub ops 6 (int (length fraction))) (\<lambda>scale.
           mbind (mfold (\<lambda>_ power. t_mul ops power 10) [0..<nat scale] 1) (\<lambda>power.
           t_mul ops v power))))"

definition offset_minutes :: "'w validation_work \<Rightarrow> string \<Rightarrow> ('w, int) metered" where
  "offset_minutes ops offset =
     (if offset = ''Z'' then mok 0
      else mthen (visit ops VConstraint)
        (mbind (t_eq ops (int (length offset)) 6) (\<lambda>six.
         mbind (if \<not> six then mok True
                else mbind (byte_index 0 offset) (\<lambda>sign.
                     if \<not> (sign = CHR ''+'' \<or> sign = CHR ''-'') then mok True
                     else mbind (str_index 3 4 offset) (\<lambda>colon. mok (colon \<noteq> '':'')))) (\<lambda>bad.
         if bad then merr ts_fail
         else
           mbind (mbind (str_index 1 3 offset) (number ops)) (\<lambda>oh.
           mbind (mbind (str_index 4 6 offset) (number ops)) (\<lambda>om.
           mbind (mor (t_lt ops 23 oh) (t_lt ops 59 om)) (\<lambda>bad.
           if bad then merr ts_fail
           else
             mbind (t_mul ops oh 60) (\<lambda>hours.
             mbind (t_add ops hours om) (\<lambda>sum.
             mthen (visit ops VConstraint)
               (t_mul ops sum (if take 1 offset = ''-'' then -1 else 1)))))))))))"

function month_sum :: "'w validation_work \<Rightarrow> int \<Rightarrow> int \<Rightarrow> int \<Rightarrow> int \<Rightarrow> ('w, int) metered" where
  "month_sum ops y m mm acc =
     mbind (t_lt ops mm m) (\<lambda>again.
     if \<not> again then mok acc
     else mbind (month_days ops y mm) (\<lambda>days.
          mbind (t_add ops acc days) (\<lambda>acc.
          mbind (t_add ops mm 1) (\<lambda>mm. month_sum ops y m mm acc))))"
  by pat_completeness auto
termination
  by (relation "measure (\<lambda>(_, _, _, mm, _). nat (i64_max - mm))") (auto dest!: t_add_Inr simp: in_i64_def)

declare month_sum.simps [simp del]

definition date_fields :: "'w validation_work \<Rightarrow> string \<Rightarrow> ('w, int \<times> int \<times> int \<times> int \<times> int \<times> int) metered" where
  "date_fields ops s =
     mbind (mbind (str_index 0 4 s) (number ops)) (\<lambda>y.
     mbind (mbind (str_index 5 7 s) (number ops)) (\<lambda>m.
     mbind (mbind (str_index 8 10 s) (number ops)) (\<lambda>d.
     mbind (mbind (str_index 11 13 s) (number ops)) (\<lambda>h.
     mbind (mbind (str_index 14 16 s) (number ops)) (\<lambda>mi.
     mbind (mbind (str_index 17 19 s) (number ops)) (\<lambda>sec.
     mbind (mor (t_lt ops y 1) (mor (t_lt ops 9999 y) (mor (t_lt ops m 1) (mor (t_lt ops 12 m) (t_lt ops d 1))))) (\<lambda>bad.
     if bad then merr ts_fail
     else
       mbind (month_days ops y m) (\<lambda>days_in_month.
       mbind (mor (t_lt ops days_in_month d) (mor (t_lt ops 23 h) (mor (t_lt ops 59 mi) (t_lt ops 59 sec)))) (\<lambda>bad.
       if bad then merr ts_fail else mok (y, m, d, h, mi, sec))))))))))"

text \<open>The local seconds since year 1 and, with the offset applied, the result.\<close>

definition local_seconds ::
    "'w validation_work \<Rightarrow> int \<times> int \<times> int \<times> int \<times> int \<times> int \<Rightarrow> ('w, int) metered" where
  "local_seconds ops f =
     (case f of (y, m, d, h, mi, sec) \<Rightarrow>
       mbind (month_sum ops y m 1 0) (\<lambda>months.
       mbind (days_before_year ops y) (\<lambda>year_days.
       mbind (t_add ops year_days months) (\<lambda>days.
       mbind (t_add ops days d) (\<lambda>days.
       mbind (t_sub ops days 1) (\<lambda>days.
       mbind (t_mul ops days 86400) (\<lambda>seconds.
       mbind (t_mul ops h 3600) (\<lambda>hours.
       mbind (t_add ops seconds hours) (\<lambda>seconds.
       mbind (t_mul ops mi 60) (\<lambda>minutes.
       mbind (t_add ops seconds minutes) (\<lambda>seconds.
       t_add ops seconds sec)))))))))))"

definition finish_timestamp :: "'w validation_work \<Rightarrow> int \<Rightarrow> int \<Rightarrow> int \<Rightarrow> ('w, timestamp) metered" where
  "finish_timestamp ops seconds frac shift =
     mbind (t_mul ops shift 60) (\<lambda>shift.
     mbind (t_sub ops seconds shift) (\<lambda>seconds.
     mbind (days_before_year ops 10000) (\<lambda>max_day.
     mbind (t_mul ops max_day 86400) (\<lambda>max_seconds.
     mbind (mor (t_lt ops seconds 0) (mbind (t_lt ops seconds max_seconds) (\<lambda>b. mok (\<not> b)))) (\<lambda>bad.
     if bad then merr ts_fail
     else
       mbind (t_div ops seconds 86400) (\<lambda>day.
       mbind (t_rem ops seconds 86400) (\<lambda>within.
       mbind (render ops day within frac) (\<lambda>canonical.
       mbind (days_before_year ops 1970) (\<lambda>epoch.
       mbind (t_mul ops epoch 86400) (\<lambda>epoch.
       mbind (t_sub ops seconds epoch) (\<lambda>micros.
       mbind (t_mul ops micros 1000000) (\<lambda>micros.
       mbind (t_add ops micros frac) (\<lambda>micros.
       mok \<lparr>ts_canonical = canonical, ts_micros = micros\<rparr>)))))))))))))"

definition timestamp_parse_with_work :: "'w validation_work \<Rightarrow> string \<Rightarrow> ('w, timestamp) metered" where
  "timestamp_parse_with_work ops s =
     mbind (ascii_scan ops s) (\<lambda>_.
     mthen (visit ops VConstraint)
    (mbind (t_lt ops (int (length s)) 20) (\<lambda>short.
     if short then merr ts_fail
     else
       mbind (separators ops s) (\<lambda>_.
       mbind (date_fields ops s) (\<lambda>fields.
       mbind (str_index 19 (length s) s) (\<lambda>tail.
       mthen (visit ops VConstraint)
      (mbind (split_fraction ops tail) (\<lambda>(fraction, offset).
       mthen (visit ops VConstraint)
      (mbind (fraction_micros ops fraction) (\<lambda>frac.
       mthen (visit ops VMemberCompare)
      (mbind (offset_minutes ops offset) (\<lambda>shift.
       mbind (local_seconds ops fields) (\<lambda>seconds.
       finish_timestamp ops seconds frac shift)))))))))))))"

definition timestamp_parse :: "string \<Rightarrow> timestamp result" where
  "timestamp_parse s = fst (timestamp_parse_with_work noop_work s ())"

section \<open>From microseconds\<close>

definition timestamp_range :: error where
  "timestamp_range = Error ''TIMESTAMP'' ''timestamp is outside year 0001..9999''"

text \<open>\<open>div_euclid\<close> and \<open>rem_euclid\<close> by a positive number are \<open>div\<close> and \<open>mod\<close>.\<close>

definition from_micros_with_work :: "'w validation_work \<Rightarrow> int \<Rightarrow> ('w, timestamp) metered" where
  "from_micros_with_work ops micros =
     mthen (arithmetic ops OpDivideRemainder [micros, 1000000])
       (let seconds = micros div 1000000 in
     mthen (arithmetic ops OpDivideRemainder [micros, 1000000])
       (let fraction = micros mod 1000000 in
     mthen (arithmetic ops OpDivideRemainder [seconds, 86400])
    (mbind (days_before_year ops 1970) (\<lambda>epoch.
     mbind (t_add ops (seconds div 86400) epoch) (\<lambda>day.
     mthen (arithmetic ops OpDivideRemainder [seconds, 86400])
       (let within = seconds mod 86400 in
     mbind (t_lt ops day 0) (\<lambda>below.
     mbind (if below then mok True
            else mbind (days_before_year ops 10000) (\<lambda>max_day.
                 mbind (t_lt ops day max_day) (\<lambda>b. mok (\<not> b)))) (\<lambda>outside.
     if outside then merr timestamp_range
     else mbind (render ops day within fraction) (timestamp_parse_with_work ops)))))))))"

definition from_micros :: "int \<Rightarrow> timestamp result" where
  "from_micros micros = fst (from_micros_with_work noop_work micros ())"

text \<open>The serde conversions: a timestamp is its canonical text.\<close>

definition timestamp_text :: "timestamp \<Rightarrow> string" where
  "timestamp_text t = ts_canonical t"

end
