(* ===== verification/Timestamp_Laws.thy ===== *)
theory Timestamp_Laws
  imports Timestamp Ordered_Map
begin

text \<open>
  What the calendar of \<open>Timestamp\<close> computes: the proleptic Gregorian calendar, with the number of
  a day as a strictly increasing function of its date, and the erasure of each metered function
  to it. None of the steps overflows on the ranges that reach them.
\<close>

section \<open>Gregorian days\<close>

definition leap :: "int \<Rightarrow> bool" where
  "leap y \<longleftrightarrow> y mod 4 = 0 \<and> (y mod 100 \<noteq> 0 \<or> y mod 400 = 0)"

definition days_in :: "int \<Rightarrow> int \<Rightarrow> int" where
  "days_in y m = (if m \<in> {4, 6, 9, 11} then 30 else if m = 2 then (if leap y then 29 else 28) else 31)"

definition year_start :: "int \<Rightarrow> int" where
  "year_start y = (y - 1) * 365 + (y - 1) div 4 - (y - 1) div 100 + (y - 1) div 400"

text \<open>The days of the first months of a year.\<close>

fun months_before :: "int \<Rightarrow> nat \<Rightarrow> int" where
  "months_before y 0 = 0"
| "months_before y (Suc k) = months_before y k + days_in y (int k + 1)"

definition day_number :: "int \<Rightarrow> int \<Rightarrow> int \<Rightarrow> int" where
  "day_number y m d = year_start y + months_before y (nat (m - 1)) + d - 1"

definition valid_date :: "int \<Rightarrow> int \<Rightarrow> int \<Rightarrow> bool" where
  "valid_date y m d \<longleftrightarrow> 1 \<le> y \<and> y \<le> 9999 \<and> 1 \<le> m \<and> m \<le> 12 \<and> 1 \<le> d \<and> d \<le> days_in y m"

lemma div_step:
  fixes y k :: int
  assumes k: "0 < k"
  shows "y div k = (y - 1) div k + (if y mod k = 0 then 1 else 0)"
proof (cases "y mod k = 0")
  case True
  then have "y - 1 = k * (y div k - 1) + (k - 1)"
    using mult_div_mod_eq[of k y] by (simp add: right_diff_distrib)
  then have "(y - 1) div k = y div k - 1" by (rule int_div_pos_eq) (use k in simp_all)
  with True show ?thesis by simp
next
  case False
  have "y - 1 = k * (y div k) + (y mod k - 1)" using mult_div_mod_eq[of k y] by simp
  moreover have "0 \<le> y mod k - 1" using False pos_mod_sign[OF k, of y] by simp
  moreover have "y mod k - 1 < k" using pos_mod_bound[OF k, of y] by simp
  ultimately have "(y - 1) div k = y div k" by (rule int_div_pos_eq)
  with False show ?thesis by simp
qed

lemma leap_count:
  "(if y mod 4 = 0 then 1 else 0) - (if y mod 100 = 0 then 1 else 0) + (if y mod 400 = 0 then 1 else 0)
   = (if leap y then 1 else 0 :: int)"
proof -
  have "(100::int) dvd 400" "(4::int) dvd 100" by simp_all
  then have "y mod 400 = 0 \<Longrightarrow> y mod 100 = 0" "y mod 100 = 0 \<Longrightarrow> y mod 4 = 0"
    unfolding mod_eq_0_iff_dvd by (metis dvd_trans)+
  then show ?thesis unfolding leap_def by (cases "y mod 400 = 0"; cases "y mod 100 = 0"; cases "y mod 4 = 0") simp_all
qed

lemma year_start_Suc: "year_start (y + 1) = year_start y + (if leap y then 366 else 365)"
proof -
  have d: "y div 4 = (y - 1) div 4 + (if y mod 4 = 0 then 1 else 0)"
    "y div 100 = (y - 1) div 100 + (if y mod 100 = 0 then 1 else 0)"
    "y div 400 = (y - 1) div 400 + (if y mod 400 = 0 then 1 else 0)"
    by (rule div_step, simp)+
  have "year_start (y + 1) = y * 365 + y div 4 - y div 100 + y div 400" by (simp add: year_start_def)
  also have "\<dots> = year_start y + 365 + (if leap y then 1 else 0)"
    unfolding year_start_def d leap_count[symmetric] by (simp only: left_diff_distrib)
  finally show ?thesis by simp
qed

lemma year_start_values: "year_start 1 = 0" "year_start 1970 = 719162" "year_start 10000 = 3652059"
  by (simp_all add: year_start_def)

lemma year_start_less: "y < z \<Longrightarrow> year_start y + 365 \<le> year_start z"
proof (induction "nat (z - y)" arbitrary: z)
  case (Suc n)
  then have s: "year_start z = year_start (z - 1) + (if leap (z - 1) then 366 else 365)"
    using year_start_Suc[of "z - 1"] by simp
  show ?case
  proof (cases "y = z - 1")
    case True
    with s show ?thesis by simp
  next
    case False
    then have "year_start y + 365 \<le> year_start (z - 1)" using Suc by (intro Suc.hyps(1)) auto
    with s show ?thesis by simp
  qed
qed simp

lemma year_start_mono: "y \<le> z \<Longrightarrow> year_start y \<le> year_start z"
  using year_start_less[of y z] by (cases "y = z") auto

lemma year_start_nonneg: "1 \<le> y \<Longrightarrow> 0 \<le> year_start y"
  using year_start_mono[of 1 y] by (simp add: year_start_values)

lemma days_in_bounds: "28 \<le> days_in y m" "days_in y m \<le> 31"
  by (simp_all add: days_in_def)

lemma months_before_12: "months_before y 12 = (if leap y then 366 else 365)"
  by (simp add: eval_nat_numeral days_in_def)

lemma months_before_mono: "i \<le> j \<Longrightarrow> months_before y i \<le> months_before y j"
proof (induction j)
  case (Suc j)
  then show ?case using days_in_bounds(1)[of y "int j + 1"] by (cases "i = Suc j") auto
qed simp

lemma months_before_nonneg: "0 \<le> months_before y k"
  using months_before_mono[of 0 k y] by simp

lemma months_before_next: "1 \<le> m \<Longrightarrow> months_before y (nat m) = months_before y (nat (m - 1)) + days_in y m"
proof -
  assume "1 \<le> m"
  then have "nat m = Suc (nat (m - 1))" "int (nat (m - 1)) + 1 = m" by simp_all
  then show ?thesis by simp
qed

lemma day_in_year:
  assumes "valid_date y m d"
  shows "year_start y \<le> day_number y m d" and "day_number y m d < year_start (y + 1)"
proof -
  show "year_start y \<le> day_number y m d"
    using assms months_before_nonneg[of y "nat (m - 1)"] by (simp add: day_number_def valid_date_def)
  have "months_before y (nat (m - 1)) + d \<le> months_before y (nat m)"
    using assms months_before_next[of m y] by (simp add: valid_date_def)
  also have "\<dots> \<le> months_before y 12"
    using assms by (intro months_before_mono) (simp add: valid_date_def nat_le_iff)
  finally show "day_number y m d < year_start (y + 1)"
    by (simp add: day_number_def year_start_Suc months_before_12)
qed

text \<open>The number of a day orders the days as their dates do.\<close>

lemma day_number_less:
  assumes v: "valid_date y m d" "valid_date y' m' d'"
    and l: "y < y' \<or> y = y' \<and> (m < m' \<or> m = m' \<and> d < d')"
  shows "day_number y m d < day_number y' m' d'"
proof -
  consider "y < y'" | "y = y'" "m < m'" | "y = y'" "m = m'" "d < d'" using l by blast
  then show ?thesis
  proof cases
    case 1
    then have "year_start (y + 1) \<le> year_start y'" by (intro year_start_mono) simp
    with day_in_year(2)[OF v(1)] day_in_year(1)[OF v(2)] show ?thesis by linarith
  next
    case 2
    then have "months_before y (nat m) \<le> months_before y (nat (m' - 1))" by (intro months_before_mono) simp
    moreover have "months_before y (nat m) = months_before y (nat (m - 1)) + days_in y m"
      using v(1) by (intro months_before_next) (simp add: valid_date_def)
    ultimately show ?thesis using 2 v by (simp add: day_number_def valid_date_def)
  next
    case 3
    then show ?thesis by (simp add: day_number_def)
  qed
qed

lemma day_number_inj:
  assumes "valid_date y m d" "valid_date y' m' d'" "day_number y m d = day_number y' m' d'"
  shows "y = y' \<and> m = m' \<and> d = d'"
proof (rule ccontr)
  assume "\<not> (y = y' \<and> m = m' \<and> d = d')"
  then have "(y < y' \<or> y = y' \<and> (m < m' \<or> m = m' \<and> d < d'))
      \<or> (y' < y \<or> y' = y \<and> (m' < m \<or> m' = m \<and> d' < d))" by auto
  then show False using day_number_less[OF assms(1,2)] day_number_less[OF assms(2,1)] assms(3) by auto
qed


section \<open>Steps that do not overflow\<close>

lemma erases_i64:
  "in_i64 (a + b) \<Longrightarrow> erases ops (t_add ops a b) (Inr (a + b))"
  "in_i64 (a - b) \<Longrightarrow> erases ops (t_sub ops a b) (Inr (a - b))"
  "in_i64 (a * b) \<Longrightarrow> erases ops (t_mul ops a b) (Inr (a * b))"
  by (auto simp: t_add_def t_sub_def t_mul_def i64_operation_def intro!: erases_then erases_arithmetic
      intro: erases_lift[of _ "Inr x" for x])

lemma int_div_le: "0 \<le> a \<Longrightarrow> 0 < b \<Longrightarrow> a div b \<le> a" for a b :: int
  using zdiv_mono2[of a 1 b] by simp

lemma erases_div:
  assumes "0 \<le> a" and "0 < b" and "in_i64 a"
  shows "erases ops (t_div ops a b) (Inr (a div b))" and "erases ops (t_rem ops a b) (Inr (a mod b))"
proof -
  have "0 \<le> a div b" "a div b \<le> a"
    using assms by (simp_all add: pos_imp_zdiv_nonneg_iff int_div_le)
  then have "in_i64 (a div b)" using assms by (simp add: int_ranges)
  then show "erases ops (t_div ops a b) (Inr (a div b))"
    using assms by (auto simp: t_div_def i64_operation_def intro!: erases_then erases_arithmetic
        intro: erases_lift[of _ "Inr x" for x])
  show "erases ops (t_rem ops a b) (Inr (a mod b))"
    using assms by (auto simp: t_rem_def i64_remainder_def intro!: erases_then erases_arithmetic
        intro: erases_lift[of _ "Inr x" for x])
qed

lemma erases_order:
  "erases ops (t_lt ops a b) (Inr (a < b))"
  "erases ops (t_le ops a b) (Inr (a \<le> b))"
  "erases ops (t_eq ops a b) (Inr (a = b))"
  unfolding t_lt_def t_le_def t_eq_def
  by (rule erases_bind_ok[OF erases_compare], simp add: cmp_of_def erases_ok not_less[symmetric]
      erases_ok[of _ True] erases_ok[of _ False])+

lemma erases_mor:
  assumes "erases_in E a (Inr x)" and "\<not> x \<Longrightarrow> erases_in E b (Inr y)"
  shows "erases_in E (mor a b) (Inr (x \<or> (\<not> x \<and> y)))"
  unfolding mor_def
  by (rule erases_bind_ok[OF assms(1)]) (cases x; simp add: erases_ok assms(2))

lemma erases_eq: "erases_in E m r \<Longrightarrow> r = r' \<Longrightarrow> erases_in E m r'"
  by simp

lemmas erases_steps = erases_bind_ok[OF erases_i64(1)] erases_bind_ok[OF erases_i64(2)]
  erases_bind_ok[OF erases_i64(3)] erases_bind_ok[OF erases_div(1)] erases_bind_ok[OF erases_div(2)]

section \<open>Erasure of the calendar\<close>

lemma year_bound: "1 \<le> y \<Longrightarrow> y \<le> 10000 \<Longrightarrow> 0 \<le> year_start y \<and> year_start y \<le> 3652059"
  using year_start_mono[of 1 y] year_start_mono[of y 10000] by (simp add: year_start_values)

lemma erases_days_before_year:
  assumes "1 \<le> y" and "y \<le> 10000"
  shows "erases ops (days_before_year ops y) (Inr (year_start y))"
proof -
  have d: "0 \<le> (y - 1) div 4" "(y - 1) div 4 \<le> 10000" "0 \<le> (y - 1) div 100" "(y - 1) div 100 \<le> 10000"
    "0 \<le> (y - 1) div 400" "(y - 1) div 400 \<le> 10000"
    using assms by simp_all
  show ?thesis
    unfolding days_before_year_def year_start_def
    by (rule erases_steps erases_i64; (use assms d in \<open>simp add: int_ranges; fail\<close>)?)+
qed

lemma erases_month_days:
  assumes "1 \<le> y" and "y \<le> 10000"
  shows "erases ops (month_days ops y m) (Inr (days_in y m))"
proof -
  have i: "in_i64 y" "0 \<le> y" using assms by (simp_all add: int_ranges)
  have l: "erases ops (if y mod 4 = 0 then
             mbind (t_rem ops y 100) (\<lambda>r100.
             mbind (t_eq ops r100 0) (\<lambda>by100.
             if \<not> by100 then mok True
             else mbind (t_rem ops y 400) (\<lambda>r400. t_eq ops r400 0)))
           else mok False) (Inr (leap y))"
  proof (cases "y mod 4 = 0")
    case True
    show ?thesis
      using True i
      by (cases "y mod 100 = 0")
        (auto intro!: erases_bind_ok[OF erases_div(2)] erases_bind_ok[OF erases_order(3)] erases_ok
          intro: erases_eq[OF erases_order(3)] erases_eq[OF erases_ok] simp: leap_def)
  next
    case False
    then show ?thesis by (auto intro: erases_eq[OF erases_ok] simp: leap_def)
  qed
  show ?thesis
    unfolding month_days_def days_in_def
    by (auto intro!: erases_then erases_visit erases_bind_ok[OF erases_div(2)[OF i(2) _ i(1)]]
        erases_bind_ok[OF erases_order(3)] erases_bind_ok[OF l] intro: erases_eq[OF erases_ok])
qed

lemma erases_year_loop:
  assumes "1 \<le> g" and "g \<le> 9999" and "year_start g \<le> day" and "day < year_start 10000"
  shows "\<exists>y. g \<le> y \<and> y \<le> 9999 \<and> year_start y \<le> day \<and> day < year_start (y + 1)
    \<and> (\<forall>ops :: 'w validation_work. erases ops (year_loop ops day g) (Inr y))"
  using assms
proof (induction "nat (10000 - g)" arbitrary: g)
  case (Suc n)
  have g1: "1 \<le> g + 1" "g + 1 \<le> 10000" using Suc.prems by simp_all
  have i: "in_i64 (g + 1)" using g1 by (simp add: int_ranges)
  have step: "erases ops (year_loop ops day g) r"
    if "erases ops (if \<not> year_start (g + 1) \<le> day then mok g
           else mbind (t_add ops g 1) (year_loop ops day)) r" for ops :: "'w validation_work" and r
    by (subst year_loop.simps)
      (rule erases_bind_ok[OF erases_i64(1)[OF i]] erases_bind_ok[OF erases_days_before_year[OF g1]]
        erases_bind_ok[OF erases_order(2)] that)+
  show ?case
  proof (cases "year_start (g + 1) \<le> day")
    case True
    have "g + 1 \<noteq> 10000" using True Suc.prems(4) by auto
    then have "n = nat (10000 - (g + 1))" "g + 1 \<le> 9999" using Suc g1 by simp_all
    from Suc.hyps(1)[OF this(1) g1(1) this(2) True Suc.prems(4)] obtain y where
      y: "g + 1 \<le> y" "y \<le> 9999" "year_start y \<le> day" "day < year_start (y + 1)"
      "\<forall>ops :: 'w validation_work. erases ops (year_loop ops day (g + 1)) (Inr y)" by blast
    have "erases ops (year_loop ops day g) (Inr y)" for ops :: "'w validation_work"
      using True y(5) by (intro step) (simp add: erases_bind_ok[OF erases_i64(1)[OF i]])
    with y show ?thesis by (intro exI[of _ y]) auto
  next
    case False
    then have "erases ops (year_loop ops day g) (Inr g)" for ops :: "'w validation_work"
      by (intro step) (simp add: erases_ok)
    with False Suc.prems show ?thesis by (intro exI[of _ g]) auto
  qed
qed simp

lemma erases_month_loop:
  assumes "1 \<le> y" "y \<le> 9999" and "1 \<le> m" "m \<le> 12" and "0 \<le> rest"
    and "months_before y (nat (m - 1)) + rest < months_before y 12"
  shows "\<exists>rest' m'. m \<le> m' \<and> m' \<le> 12 \<and> 0 \<le> rest' \<and> rest' < days_in y m'
    \<and> months_before y (nat (m' - 1)) + rest' = months_before y (nat (m - 1)) + rest
    \<and> (\<forall>ops :: 'w validation_work. erases ops (month_loop ops y rest m) (Inr (rest', m')))"
  using assms
proof (induction "nat (13 - m)" arbitrary: m rest)
  case (Suc n)
  have y: "1 \<le> y" "y \<le> 10000" using Suc.prems by simp_all
  have nx: "months_before y (nat m) = months_before y (nat (m - 1)) + days_in y m"
    using Suc.prems by (intro months_before_next) simp
  have step: "erases ops (month_loop ops y rest m) r"
    if "erases ops (if rest < days_in y m then mok (rest, m)
           else mbind (month_days ops y m) (\<lambda>days. mbind (t_sub ops rest days) (\<lambda>rest.
             mbind (t_add ops m 1) (month_loop ops y rest)))) r" for ops :: "'w validation_work" and r
    by (subst month_loop.simps)
      (rule erases_bind_ok[OF erases_month_days[OF y]] erases_bind_ok[OF erases_order(1)] that)+
  show ?case
  proof (cases "rest < days_in y m")
    case True
    then have "erases ops (month_loop ops y rest m) (Inr (rest, m))" for ops :: "'w validation_work"
      by (intro step) (simp add: erases_ok)
    with True Suc.prems show ?thesis by (intro exI[of _ rest] exI[of _ m]) auto
  next
    case False
    have b: "months_before y (nat m) \<le> months_before y 12"
      using Suc.prems by (intro months_before_mono) (simp add: nat_le_iff)
    have m: "m \<noteq> 12"
    proof
      assume "m = 12"
      then have "months_before y (nat m) = months_before y 12" by simp
      with nx False Suc.prems(6) show False by simp
    qed
    let ?r = "rest - days_in y m"
    have n: "n = nat (13 - (m + 1))" "1 \<le> m + 1" "m + 1 \<le> 12" "0 \<le> ?r" using Suc m False by simp_all
    have s: "months_before y (nat (m + 1 - 1)) + ?r = months_before y (nat (m - 1)) + rest" using nx by simp
    from Suc.hyps(1)[OF n(1) Suc.prems(1,2) n(2,3,4)] s Suc.prems(6) obtain rest' m' where
      r: "m + 1 \<le> m'" "m' \<le> 12" "0 \<le> rest'" "rest' < days_in y m'"
      "months_before y (nat (m' - 1)) + rest' = months_before y (nat (m - 1)) + rest"
      "\<forall>ops :: 'w validation_work. erases ops (month_loop ops y ?r (m + 1)) (Inr (rest', m'))" by auto
    have "rest \<le> 366" using Suc.prems(6) months_before_nonneg[of y "nat (m - 1)"] by (auto simp: months_before_12 split: if_splits)
    then have i: "in_i64 ?r" "in_i64 (m + 1)"
      using n days_in_bounds[of y m] by (auto simp: int_ranges)
    have "erases ops (month_loop ops y rest m) (Inr (rest', m'))" for ops :: "'w validation_work"
    proof (rule step)
      show "erases ops (if rest < days_in y m then mok (rest, m)
           else mbind (month_days ops y m) (\<lambda>days. mbind (t_sub ops rest days) (\<lambda>rest.
             mbind (t_add ops m 1) (month_loop ops y rest)))) (Inr (rest', m'))"
        using False r(6)
        by (simp) (rule erases_bind_ok[OF erases_month_days[OF y]] erases_bind_ok[OF erases_i64(2)[OF i(1)]]
            erases_bind_ok[OF erases_i64(1)[OF i(2)]], blast?)+
    qed
    with r show ?thesis by (intro exI[of _ rest'] exI[of _ m']) auto
  qed
qed simp

text \<open>Rendering a day writes the date with that number.\<close>

definition clock_text :: "int \<Rightarrow> int \<Rightarrow> int \<Rightarrow> int \<Rightarrow> int \<Rightarrow> string" where
  "clock_text y m d within fraction =
     format_utc y m d (within div 3600) (within div 60 mod 60) (within mod 60) fraction"

lemma erases_render:
  assumes "0 \<le> day" "day < year_start 10000" and "0 \<le> within" "within < 86400"
  shows "\<exists>y m d. valid_date y m d \<and> day_number y m d = day
    \<and> (\<forall>ops :: 'w validation_work. erases ops (render ops day within fraction) (Inr (clock_text y m d within fraction)))"
proof -
  let ?g = "if day div 366 + 1 < 9999 then day div 366 + 1 else 9999"
  have bound: "day < 3652059" using assms by (simp add: year_start_values)
  have "year_start g \<le> (g - 1) * 366" if "1 \<le> g" for g
  proof -
    have "(g - 1) div 4 \<le> g - 1" "(g - 1) div 400 \<le> (g - 1) div 100"
      using that by (simp_all add: int_div_le zdiv_mono2)
    then show ?thesis by (simp add: year_start_def algebra_simps)
  qed
  note low = this[of "day div 366 + 1"]
  have q1: "0 \<le> day div 366" using assms(1) by simp
  then have "year_start (day div 366 + 1) \<le> day div 366 * 366" using low by simp
  with q1 have q: "0 \<le> day div 366" "year_start (day div 366 + 1) \<le> day"
    using div_mult_mod_eq[of day 366] pos_mod_sign[of 366 day] by linarith+
  have g: "1 \<le> ?g" "?g \<le> 9999" "year_start ?g \<le> day"
    using q year_start_mono[of 9999 "day div 366 + 1"] by (auto intro: order_trans)
  from erases_year_loop[OF g assms(2), where 'w = 'w] obtain y where
    y: "?g \<le> y" "y \<le> 9999" "year_start y \<le> day" "day < year_start (y + 1)"
    and ye: "\<And>ops :: 'w validation_work. erases ops (year_loop ops day ?g) (Inr y)" by blast
  have y1: "1 \<le> y" using g(1) y(1) by linarith
  have "months_before y (nat (1 - 1)) + (day - year_start y) < months_before y 12"
    using y(4) by (simp add: months_before_12 year_start_Suc)
  from erases_month_loop[OF y1 y(2) _ _ _ this, where 'w = 'w] y(3) obtain rest m where
    r: "1 \<le> m" "m \<le> 12" "0 \<le> rest" "rest < days_in y m" "months_before y (nat (m - 1)) + rest = day - year_start y"
    and me: "\<And>ops :: 'w validation_work. erases ops (month_loop ops y (day - year_start y) 1) (Inr (rest, m))" by auto
  have wm: "0 \<le> within div 60" "within div 60 < 1440" using assms by (simp_all add: div_less_iff_less_mult)
  have "erases ops (render ops day within fraction) (Inr (clock_text y m (rest + 1) within fraction))"
    for ops :: "'w validation_work"
    unfolding render_def
    apply (rule erases_bind_ok[OF erases_div(1)], use assms bound in \<open>simp_all add: int_ranges\<close>)
    apply (rule erases_bind_ok[OF erases_i64(1)], use assms bound in \<open>simp add: int_ranges\<close>)
    apply (rule erases_bind_ok[OF erases_order(1)])
    apply (rule erases_bind_ok[OF ye])
    apply (rule erases_bind_ok[OF erases_days_before_year], use y1 y in simp_all)
    apply (rule erases_bind_ok[OF erases_i64(2)], use assms bound y year_bound[of y] y1 in \<open>simp add: int_ranges\<close>)
    apply (rule erases_bind_ok[OF me], simp)
    apply (rule erases_bind_ok[OF erases_i64(1)], use r days_in_bounds[of y m] in \<open>simp add: int_ranges\<close>)
    apply (rule erases_bind_ok[OF erases_div(1)], use assms in \<open>simp_all add: int_ranges\<close>)
    apply (rule erases_bind_ok[OF erases_div(1)], use assms in \<open>simp_all add: int_ranges\<close>)
    apply (rule erases_bind_ok[OF erases_div(2)], use wm in \<open>simp_all add: int_ranges\<close>)
    apply (rule erases_bind_ok[OF erases_div(2)], use assms in \<open>simp_all add: int_ranges\<close>)
    apply (simp add: clock_text_def erases_then erases_write erases_ok)
    done
  moreover have "valid_date y m (rest + 1)" "day_number y m (rest + 1) = day"
    using r y y1 by (simp_all add: valid_date_def day_number_def)
  ultimately show ?thesis by blast
qed


text \<open>The text of a day and a time of day, and the date it shows.\<close>

definition utc_text :: "int \<Rightarrow> int \<Rightarrow> int \<Rightarrow> string" where
  "utc_text day within fraction =
     (case fst (render noop_work day within fraction ()) of Inr c \<Rightarrow> c | Inl _ \<Rightarrow> [])"

lemma utc_text_shows:
  assumes "0 \<le> day" "day < year_start 10000" and "0 \<le> within" "within < 86400"
  obtains y m d where "valid_date y m d" "day_number y m d = day"
    "utc_text day within fraction = clock_text y m d within fraction"
proof -
  from erases_render[OF assms, where 'w = unit] obtain y m d where
    v: "valid_date y m d" "day_number y m d = day"
    and e: "\<And>ops :: unit validation_work. erases ops (render ops day within fraction) (Inr (clock_text y m d within fraction))"
    by metis
  have "utc_text day within fraction = clock_text y m d within fraction"
    using erases_noop[OF e[of noop_work]] by (simp add: utc_text_def)
  with v that show thesis by blast
qed

lemma erases_utc_text:
  assumes "0 \<le> day" "day < year_start 10000" and "0 \<le> within" "within < 86400"
  shows "erases ops (render ops day within fraction) (Inr (utc_text day within fraction))"
proof -
  from utc_text_shows[OF assms] obtain y m d where
    v: "valid_date y m d" "day_number y m d = day" "utc_text day within fraction = clock_text y m d within fraction" .
  from erases_render[OF assms] obtain y' m' d' where
    w: "valid_date y' m' d'" "day_number y' m' d' = day"
    and e: "\<And>ops :: 'a validation_work. erases ops (render ops day within fraction) (Inr (clock_text y' m' d' within fraction))"
    by metis
  show ?thesis using day_number_inj[OF v(1) w(1)] v w(2) e[of ops] by simp
qed

section \<open>Erasure of the parser\<close>

lemma erases_number_from:
  assumes "(v + 1) * 10 ^ length s \<le> (10 :: nat) ^ 18"
  shows "erases ops
     (mfold (\<lambda>b v.
       mthen (scan_bytes ops 1)
      (mthen (visit ops VScalarDigit)
        (if \<not> is_digit b then merr ts_fail
         else mbind (t_mul ops v 10) (\<lambda>v.
              mbind (t_sub ops (int (byte b)) 48) (\<lambda>d. t_add ops v d))))) s (int v))
     (if list_all is_digit s then Inr (int (foldl digits_step v s)) else Inl ts_fail)"
  using assms
proof (induction s arbitrary: v)
  case Nil
  then show ?case by (simp add: erases_ok)
next
  case (Cons b s)
  have p: "(v + 1) * 10 \<le> (10 :: nat) ^ 18"
  proof -
    have "(v + 1) * 10 * 1 \<le> (v + 1) * 10 * 10 ^ length s" by (intro mult_le_mono2) simp
    also have "\<dots> = (v + 1) * 10 ^ length (b # s)" by (simp only: list.size power_add power_one_right mult.assoc mult.commute[of 10]) (simp add: mult_ac)
    finally show ?thesis using Cons.prems by linarith
  qed
  show ?case
  proof (cases "is_digit b")
    case False
    then show ?thesis
      by (auto intro!: erases_eq[OF erases_bind[where g = "\<lambda>_. Inl ts_fail"]] erases_then
          erases_scan erases_visit erases_err)
  next
    case True
    have d: "digit_val b < 10" by (rule digit_val_less[OF True])
    have i: "in_i64 (int v * 10)" "in_i64 (int (byte b) - 48)" "in_i64 (int v * 10 + (int (byte b) - 48))"
      using p d True by (simp_all add: int_ranges is_digit_def)
    have step: "int v * 10 + (int (byte b) - 48) = int (digits_step v b)"
      using True by (simp add: digits_step_def digit_val_def is_digit_def of_nat_diff)
    have "digits_step v b + 1 \<le> (v + 1) * 10" using d by (simp add: digits_step_def)
    then have "(digits_step v b + 1) * 10 ^ length s \<le> (v + 1) * 10 * 10 ^ length s" by (rule mult_le_mono1)
    also have "\<dots> = (v + 1) * 10 ^ length (b # s)" by (simp only: list.size power_add power_one_right mult.assoc) (simp add: mult_ac)
    finally have ih: "(digits_step v b + 1) * 10 ^ length s \<le> (10 :: nat) ^ 18" using Cons.prems by linarith
    show ?thesis
      using True Cons.IH[OF ih]
      by (auto intro!: erases_bind_ok[where x = "int (digits_step v b)"] erases_then erases_scan erases_visit
          erases_bind_ok[OF erases_i64(3)[OF i(1)]] erases_bind_ok[OF erases_i64(2)[OF i(2)]]
          simp: step[symmetric] intro: erases_i64(1)[OF i(3)])
  qed
qed

lemma erases_number:
  assumes "length s \<le> 18"
  shows "erases ops (number ops s) (if list_all is_digit s then Inr (int (digits_val s)) else Inl ts_fail)"
proof -
  have "(10 :: nat) ^ length s \<le> 10 ^ 18" using assms by (intro power_increasing) simp_all
  then have "(0 + 1) * 10 ^ length s \<le> (10 :: nat) ^ 18" by (simp only: add_0 mult_1)
  from erases_number_from[OF this, of ops] show ?thesis unfolding number_def digits_val_def of_nat_0 .
qed

lemma erases_ascii_scan: "erases ops (ascii_scan ops s) (if ascii s then Inr () else Inl ts_fail)"
proof (induction s)
  case Nil
  show ?case by (simp add: ascii_scan_def erases_ok)
next
  case (Cons c s)
  show ?case
  proof (cases "byte c < 128")
    case True
    then show ?thesis
      using Cons by (auto simp: ascii_scan_def intro!: erases_bind_ok[where x = "()"] erases_then erases_scan erases_visit erases_ok)
  next
    case False
    then show ?thesis
      by (auto simp: ascii_scan_def intro!: erases_eq[OF erases_bind[where g = "\<lambda>_. Inl ts_fail"]] erases_then
          erases_scan erases_visit erases_err)
  qed
qed

definition separated :: "string \<Rightarrow> bool" where
  "separated s \<longleftrightarrow> slice 4 5 s = ''-'' \<and> slice 7 8 s = ''-'' \<and> slice 10 11 s = ''T'' \<and> slice 13 14 s = '':'' \<and> slice 16 17 s = '':''"

lemma erases_separators:
  assumes "ascii s" and "20 \<le> length s"
  shows "erases ops (separators ops s) (if separated s then Inr () else Inl ts_fail)"
proof -
  have "erases ops (separators ops s)
      (rfold (\<lambda>(start, expected) _. if slice start (start + 1) s \<noteq> expected then Inl ts_fail else Inr ())
        [(4, ''-''), (7, ''-''), (10, ''T''), (13, '':''), (16, '':'')] ())"
    unfolding separators_def
    by (rule erases_mfold) (use assms in \<open>auto simp: ascii_get intro!: erases_then erases_visit erases_ok erases_err\<close>)
  then show ?thesis by (rule erases_eq) (simp add: separated_def)
qed

text \<open>The six numbers and the ranges they must have.\<close>

definition field_text :: "string \<Rightarrow> nat \<Rightarrow> nat \<Rightarrow> int" where
  "field_text s a b = int (digits_val (slice a b s))"

definition numeric :: "string \<Rightarrow> bool" where
  "numeric s \<longleftrightarrow> list_all is_digit (slice 0 4 s) \<and> list_all is_digit (slice 5 7 s) \<and> list_all is_digit (slice 8 10 s)
     \<and> list_all is_digit (slice 11 13 s) \<and> list_all is_digit (slice 14 16 s) \<and> list_all is_digit (slice 17 19 s)"

definition valid_fields :: "int \<times> int \<times> int \<times> int \<times> int \<times> int \<Rightarrow> bool" where
  "valid_fields f = (case f of (y, m, d, h, mi, sec) \<Rightarrow>
     valid_date y m d \<and> 0 \<le> h \<and> h \<le> 23 \<and> 0 \<le> mi \<and> mi \<le> 59 \<and> 0 \<le> sec \<and> sec \<le> 59)"

definition fields_of :: "string \<Rightarrow> int \<times> int \<times> int \<times> int \<times> int \<times> int" where
  "fields_of s = (field_text s 0 4, field_text s 5 7, field_text s 8 10, field_text s 11 13, field_text s 14 16,
     field_text s 17 19)"

lemma slice_length: "length (slice a b s) \<le> b - a"
  by (simp add: slice_def)

lemma erases_field:
  assumes "b - a \<le> 18" and "list_all is_digit (slice a b s) \<Longrightarrow> erases ops (f (field_text s a b)) r"
    and "\<not> list_all is_digit (slice a b s) \<Longrightarrow> r = Inl ts_fail"
  shows "erases ops (mbind (number ops (slice a b s)) f) r"
proof (cases "list_all is_digit (slice a b s)")
  case True
  have "erases ops (number ops (slice a b s)) (Inr (field_text s a b))"
    using erases_number[of "slice a b s" ops] slice_length[of a b s] assms(1) True by (simp add: field_text_def)
  then show ?thesis by (rule erases_bind_ok) (rule assms(2)[OF True])
next
  case False
  have "erases ops (number ops (slice a b s)) (Inl ts_fail)"
    using erases_number[of "slice a b s" ops] slice_length[of a b s] assms(1) False by (simp split: if_splits)
  from erases_bind[OF this, of f "\<lambda>_. Inl ts_fail"] assms(3)[OF False] show ?thesis by simp
qed


lemma erases_date_fields:
  assumes "ascii s" and "20 \<le> length s"
  shows "erases ops (date_fields ops s)
     (if numeric s \<and> valid_fields (fields_of s) then Inr (fields_of s) else Inl ts_fail)"
proof -
  have at: "str_index 0 4 s = mok (slice 0 4 s)" "str_index 5 7 s = mok (slice 5 7 s)"
    "str_index 8 10 s = mok (slice 8 10 s)" "str_index 11 13 s = mok (slice 11 13 s)"
    "str_index 14 16 s = mok (slice 14 16 s)" "str_index 17 19 s = mok (slice 17 19 s)"
    using assms by (simp_all add: ascii_index)
  let ?y = "field_text s 0 4" and ?m = "field_text s 5 7" and ?d = "field_text s 8 10"
    and ?h = "field_text s 11 13" and ?mi = "field_text s 14 16" and ?sec = "field_text s 17 19"
  have nn: "0 \<le> field_text s a b" for a b by (simp add: field_text_def)
  have tests: "erases ops (mor a (mor b (mor c (mor d e)))) (Inr (x1 \<or> x2 \<or> x3 \<or> x4 \<or> x5))"
    if "erases ops a (Inr x1)" "erases ops b (Inr x2)" "erases ops c (Inr x3)" "erases ops d (Inr x4)" "erases ops e (Inr x5)"
    for a b c d e x1 x2 x3 x4 x5
    by (rule erases_eq[OF erases_mor[OF that(1) erases_mor[OF that(2) erases_mor[OF that(3) erases_mor[OF that(4,5)]]]]]) auto
  have tests': "erases ops (mor a (mor b (mor c d))) (Inr (x1 \<or> x2 \<or> x3 \<or> x4))"
    if "erases ops a (Inr x1)" "erases ops b (Inr x2)" "erases ops c (Inr x3)" "erases ops d (Inr x4)"
    for a b c d x1 x2 x3 x4
    by (rule erases_eq[OF erases_mor[OF that(1) erases_mor[OF that(2) erases_mor[OF that(3,4)]]]]) auto
  show ?thesis
    unfolding date_fields_def
    apply (simp only: at metered_simps)
    apply (rule erases_field, simp)+
      apply (rule erases_bind_ok[OF tests[OF erases_order(1) erases_order(1) erases_order(1) erases_order(1) erases_order(1)]])
    subgoal
      apply (cases "?y < 1 \<or> 9999 < ?y \<or> ?m < 1 \<or> 12 < ?m \<or> ?d < 1")
       apply (auto simp: valid_fields_def fields_of_def valid_date_def erases_err)[1]
      apply (simp only: if_False)
      apply (rule erases_bind_ok[OF erases_month_days])
        apply simp
       apply simp
      apply (rule erases_bind_ok[OF tests'[OF erases_order(1) erases_order(1) erases_order(1) erases_order(1)]])
      apply (cases "days_in ?y ?m < ?d \<or> 23 < ?h \<or> 59 < ?mi \<or> 59 < ?sec")
       apply (auto simp: valid_fields_def fields_of_def valid_date_def erases_err)[1]
      apply (simp add: valid_fields_def fields_of_def valid_date_def nn not_less numeric_def erases_ok)
      done
         apply (simp_all add: numeric_def)
    done
qed

text \<open>The fraction and the offset.\<close>

definition split_text :: "string \<Rightarrow> (string \<times> string) option" where
  "split_text tail =
     (case tail of
        c # t \<Rightarrow>
          if c = CHR ''.'' then
            (let f = takeWhile is_digit t in
             if f = [] \<or> 6 < length f then None else Some (f, drop (length f) t))
          else Some ([], tail)
      | [] \<Rightarrow> Some ([], []))"

definition fraction_of :: "string \<Rightarrow> int" where
  "fraction_of f = int (digits_val f) * 10 ^ (6 - length f)"

definition offset_of :: "string \<Rightarrow> int option" where
  "offset_of o' =
     (if o' = ''Z'' then Some 0
      else if length o' = 6 \<and> (o' ! 0 = CHR ''+'' \<or> o' ! 0 = CHR ''-'') \<and> slice 3 4 o' = '':''
        \<and> list_all is_digit (slice 1 3 o') \<and> list_all is_digit (slice 4 6 o')
        \<and> field_text o' 1 3 \<le> 23 \<and> field_text o' 4 6 \<le> 59
      then Some ((field_text o' 1 3 * 60 + field_text o' 4 6) * (if o' ! 0 = CHR ''-'' then -1 else 1))
      else None)"

lemma erases_fraction_digits:
  "n + length t \<le> u64_max \<Longrightarrow>
   erases ops (fraction_digits ops t n) (Inr (n + length (takeWhile is_digit t)))"
proof (induction t arbitrary: n)
  case (Cons c t)
  have "n + 1 \<le> u64_max" using Cons.prems by simp
  then have u: "erases ops (usize_add ops n (Suc 0)) (Inr (Suc n))"
    unfolding usize_add_def by (auto intro!: erases_then erases_arithmetic intro: erases_lift[of _ "Inr x" for x] simp: trap_u64_def)
  show ?case
    using Cons.IH[of "n + 1"] Cons.prems
    by (auto intro!: erases_then erases_scan erases_visit erases_ok erases_bind_ok[OF u])
qed (simp add: erases_ok)

lemma erases_split_fraction:
  assumes "length tail \<le> isize_max" and "ascii tail"
  shows "erases ops (split_fraction ops tail) (ok_or (split_text tail) ts_fail)"
proof (cases tail)
  case (Cons c t)
  let ?f = "takeWhile is_digit t"
  have f: "erases ops (fraction_digits ops t 0) (Inr (length ?f))"
    using erases_fraction_digits[of 0 t ops] assms Cons by (simp add: isize_max_def u64_max_def)
  have tk: "take (length ?f) t = ?f" by (rule takeWhile_eq_take[symmetric])
  have at: "str_index 0 (length ?f) t = mok ?f" "str_index (length ?f) (length t) t = mok (drop (length ?f) t)"
    using assms(2) Cons length_takeWhile_le[of is_digit t] by (simp_all add: ascii_index slice_def tk)
  show ?thesis
  proof (cases "c = CHR ''.''")
    case True
    then show ?thesis
      using Cons by (auto simp: split_fraction_def split_text_def Let_def at
          intro!: erases_bind_ok[OF f] erases_bind_ok[OF erases_mor[OF erases_order(3) erases_order(1)]]
          intro: erases_ok erases_err)
  next
    case False
    then show ?thesis using Cons by (simp add: split_fraction_def split_text_def erases_ok)
  qed
qed (simp add: split_fraction_def split_text_def erases_ok)

lemma split_text_ascii: "split_text tail = Some (f, o') \<Longrightarrow> ascii tail \<Longrightarrow> ascii o'"
  by (auto simp: split_text_def Let_def ascii_def list_all_iff split: list.splits if_splits dest: in_set_dropD)

lemma split_text_digits: "split_text tail = Some (f, o') \<Longrightarrow> list_all is_digit f \<and> length f \<le> 6"
  by (auto simp: split_text_def Let_def list_all_iff dest: set_takeWhileD split: list.splits if_splits)

lemma erases_powers:
  assumes "v * 10 ^ length xs \<le> 1000000" and "0 \<le> v"
  shows "erases ops (mfold (\<lambda>_ power. t_mul ops power 10) xs v) (Inr (v * 10 ^ length xs))"
  using assms
proof (induction xs arbitrary: v)
  case (Cons x xs)
  have "v * 10 * 1 \<le> v * 10 * 10 ^ length xs" using Cons.prems by (intro mult_left_mono) simp_all
  then have i: "in_i64 (v * 10)" using Cons.prems by (simp add: int_ranges mult_ac)
  have "erases ops (mfold (\<lambda>_ power. t_mul ops power 10) xs (v * 10)) (Inr (v * 10 * 10 ^ length xs))"
    using Cons.prems by (intro Cons.IH) (simp_all add: mult_ac)
  then show ?case by (simp add: erases_bind_ok[OF erases_i64(3)[OF i]] mult_ac)
qed (simp add: erases_ok)

lemma fraction_bound:
  assumes "list_all is_digit f" and "length f \<le> 6"
  shows "0 \<le> fraction_of f \<and> fraction_of f < 1000000"
proof -
  have "int (digits_val f) < 10 ^ length f" using digits_val_bound[OF assms(1)] by (metis of_nat_less_iff of_nat_numeral of_nat_power)
  then have "fraction_of f < 10 ^ length f * 10 ^ (6 - length f)"
    unfolding fraction_of_def by (rule mult_strict_right_mono) simp
  also have "(10::int) ^ length f * 10 ^ (6 - length f) = 10 ^ 6"
    using assms(2) by (simp flip: power_add)
  finally show ?thesis by (simp add: fraction_of_def)
qed

lemma erases_fraction_micros:
  assumes "list_all is_digit f" and "length f \<le> 6"
  shows "erases ops (fraction_micros ops f) (Inr (fraction_of f))"
proof (cases "f = []")
  case False
  have n: "erases ops (number ops f) (Inr (int (digits_val f)))"
    using erases_number[of f ops] assms by simp
  have "(10 :: int) ^ (6 - length f) \<le> 10 ^ 6" using assms by (intro power_increasing) simp_all
  then have p: "erases ops (mfold (\<lambda>_ power. t_mul ops power 10) [0..<nat (6 - int (length f))] 1) (Inr (10 ^ (6 - length f)))"
    using erases_powers[of 1 "[0..<nat (6 - int (length f))]" ops] by (simp add: nat_diff_distrib')
  have b: "in_i64 (6 - int (length f))" "in_i64 (int (digits_val f) * 10 ^ (6 - length f))"
    using fraction_bound[OF assms] assms(2) unfolding fraction_of_def int_ranges by linarith+
  show ?thesis
    using False unfolding fraction_micros_def fraction_of_def
    by (simp add: erases_bind_ok[OF n] erases_bind_ok[OF erases_i64(2)[OF b(1)]] erases_bind_ok[OF p] erases_i64(3)[OF b(2)])
qed (simp add: fraction_micros_def fraction_of_def erases_ok)

lemma erases_offset:
  assumes "ascii o'"
  shows "erases ops (offset_minutes ops o') (ok_or (offset_of o') ts_fail)"
proof (cases "o' = ''Z''")
  case True
  then show ?thesis by (simp add: offset_minutes_def offset_of_def erases_ok)
next
  case False
  let ?h = "field_text o' 1 3" and ?m = "field_text o' 4 6" and ?s = "if o' ! 0 = CHR ''-'' then -1 else 1 :: int"
  show ?thesis
  proof (cases "length o' = 6 \<and> (o' ! 0 = CHR ''+'' \<or> o' ! 0 = CHR ''-'') \<and> slice 3 4 o' = '':''")
    case shape: True
    have at: "str_index 1 3 o' = mok (slice 1 3 o')" "str_index 3 4 o' = mok (slice 3 4 o')"
      "str_index 4 6 o' = mok (slice 4 6 o')" "byte_index 0 o' = mok (o' ! 0)" "take 1 o' = [o' ! 0]"
      using assms shape by (simp_all add: ascii_index byte_index_ok take_Suc_conv_app_nth)
    have good: "o' ! 0 = CHR ''+'' \<or> o' ! 0 = CHR ''-''" "slice 3 4 o' = '':''" using shape by simp_all
    have r: "erases ops (mor (t_lt ops 23 ?h) (t_lt ops 59 ?m)) (Inr (23 < ?h \<or> (\<not> 23 < ?h \<and> 59 < ?m)))"
      by (rule erases_mor[OF erases_order(1) erases_order(1)])
    have nn: "0 \<le> ?h" "0 \<le> ?m" by (simp_all add: field_text_def)
    have last: "erases ops
        (mbind (t_mul ops ?h 60) (\<lambda>hours. mbind (t_add ops hours ?m) (\<lambda>sum.
           mthen (visit ops VConstraint) (t_mul ops sum ?s)))) (Inr ((?h * 60 + ?m) * ?s))"
      if "?h \<le> 23" "?m \<le> 59"
      using that nn
      by (intro erases_bind_ok[OF erases_i64(3)] erases_bind_ok[OF erases_i64(1)] erases_then erases_visit erases_i64(3))
        (auto simp: int_ranges)
    show ?thesis
      using False shape
      apply (simp only: offset_minutes_def if_False)
      apply (rule erases_then[OF erases_visit])
      apply (rule erases_bind_ok[OF erases_order(3)])
      apply (simp only: of_nat_numeral simp_thms if_False at good metered_simps list.inject)
      apply (rule erases_field, simp)
       apply (rule erases_field, simp)
        apply (rule erases_bind_ok[OF r])
        apply (cases "23 < ?h \<or> 59 < ?m")
         apply (auto simp: offset_of_def erases_err)[1]
        apply (use last good in \<open>simp add: offset_of_def not_less\<close>)
       apply (simp_all add: offset_of_def)
      done
  next
    case bad: False
    then have "offset_of o' = None" using False by (auto simp: offset_of_def)
    moreover have "erases ops (offset_minutes ops o') (Inl ts_fail)"
      unfolding offset_minutes_def
      using False bad assms
      by (auto simp: byte_index_ok ascii_index
          intro!: erases_then erases_visit erases_bind_ok[OF erases_order(3)] erases_err)
    ultimately show ?thesis by simp
  qed
qed


text \<open>The seconds since year 1, and the result for a day and a fraction.\<close>

lemma erases_month_sum:
  assumes "1 \<le> y" "y \<le> 9999" "1 \<le> mm" "mm \<le> m" "m \<le> 12"
  shows "erases ops (month_sum ops y m mm (months_before y (nat (mm - 1)))) (Inr (months_before y (nat (m - 1))))"
  using assms
proof (induction "nat (m - mm)" arbitrary: mm)
  case 0
  then have "mm = m" by simp
  then show ?case by (subst month_sum.simps) (rule erases_bind_ok[OF erases_order(1)], simp add: erases_ok)
next
  case (Suc n)
  then have m: "mm < m" "1 \<le> mm + 1" "mm + 1 \<le> m" "n = nat (m - (mm + 1))" by simp_all
  have nx: "months_before y (nat mm) = months_before y (nat (mm - 1)) + days_in y mm"
    using Suc.prems by (intro months_before_next) simp
  have "months_before y (nat mm) \<le> months_before y 12"
    using Suc.prems by (intro months_before_mono) (simp add: nat_le_iff)
  then have i: "in_i64 (months_before y (nat (mm - 1)) + days_in y mm)" "in_i64 (mm + 1)"
    using months_before_nonneg[of y "nat mm"] nx m(1) Suc.prems
    by (auto simp: int_ranges months_before_12 split: if_splits)
  have y: "1 \<le> y" "y \<le> 10000" using Suc.prems by simp_all
  from Suc.hyps(1)[OF m(4) Suc.prems(1,2) m(2,3) Suc.prems(5)]
  have ih: "erases ops (month_sum ops y m (mm + 1) (months_before y (nat mm))) (Inr (months_before y (nat (m - 1))))" by simp
  show ?case
    by (subst month_sum.simps)
      (use m(1) ih nx in \<open>auto intro!: erases_bind_ok[OF erases_order(1)] erases_bind_ok[OF erases_month_days[OF y]]
        erases_bind_ok[OF erases_i64(1)[OF i(1)]] erases_bind_ok[OF erases_i64(1)[OF i(2)]]\<close>)
qed

definition civil_seconds :: "int \<times> int \<times> int \<times> int \<times> int \<times> int \<Rightarrow> int" where
  "civil_seconds f = (case f of (y, m, d, h, mi, sec) \<Rightarrow> day_number y m d * 86400 + h * 3600 + mi * 60 + sec)"

lemma day_number_bounds:
  assumes "valid_date y m d"
  shows "0 \<le> day_number y m d" and "day_number y m d < year_start 10000"
  using day_in_year[OF assms] assms year_start_nonneg[of y] year_start_mono[of "y + 1" 10000]
  by (auto simp: valid_date_def)

lemma erases_local_seconds:
  assumes "valid_fields f"
  shows "erases ops (local_seconds ops f) (Inr (civil_seconds f))"
proof -
  obtain y m d h mi sec where f: "f = (y, m, d, h, mi, sec)" by (cases f)
  have v: "valid_date y m d" "0 \<le> h" "h \<le> 23" "0 \<le> mi" "mi \<le> 59" "0 \<le> sec" "sec \<le> 59"
    using assms by (simp_all add: f valid_fields_def)
  have y: "1 \<le> y" "y \<le> 9999" "y \<le> 10000" "1 \<le> m" "m \<le> 12" "1 \<le> d" "d \<le> 31"
    using v(1) days_in_bounds(2)[of y m] by (simp_all add: valid_date_def)
  let ?mb = "months_before y (nat (m - 1))"
  have ms: "erases ops (month_sum ops y m 1 0) (Inr ?mb)"
    using erases_month_sum[OF y(1,2) _ y(4,5), of ops] by simp
  have "?mb \<le> months_before y 12" using y by (intro months_before_mono) (simp add: nat_le_iff)
  then have mb: "0 \<le> ?mb" "?mb \<le> 366" using months_before_nonneg by (auto simp: months_before_12 split: if_splits)
  have ys: "0 \<le> year_start y" "year_start y \<le> 3652059" using year_bound[OF y(1,3)] by simp_all
  have "civil_seconds f = (year_start y + ?mb + d - 1) * 86400 + h * 3600 + mi * 60 + sec"
    by (simp add: f civil_seconds_def day_number_def)
  then show ?thesis
    unfolding f local_seconds_def prod.case
    apply (simp only:)
    apply (rule erases_bind_ok[OF ms])
    apply (rule erases_bind_ok[OF erases_days_before_year[OF y(1,3)]])
    apply (rule erases_steps, use ys mb in \<open>simp add: int_ranges\<close>)
    apply (rule erases_steps, use ys mb y in \<open>simp add: int_ranges\<close>)
    apply (rule erases_steps, use ys mb y in \<open>simp add: int_ranges\<close>)
    apply (rule erases_steps, use ys mb y in \<open>simp add: int_ranges\<close>)
    apply (rule erases_steps, use v in \<open>simp add: int_ranges\<close>)
    apply (rule erases_steps, use ys mb y v in \<open>simp add: int_ranges\<close>)
    apply (rule erases_steps, use v in \<open>simp add: int_ranges\<close>)
    apply (rule erases_steps, use ys mb y v in \<open>simp add: int_ranges\<close>)
    apply (rule erases_i64, use ys mb y v in \<open>simp add: int_ranges\<close>)
    done
qed

lemma civil_bounds:
  assumes "valid_fields f"
  shows "0 \<le> civil_seconds f \<and> civil_seconds f < 315537897600"
proof -
  obtain y m d h mi sec where f: "f = (y, m, d, h, mi, sec)" by (cases f)
  show ?thesis
    using assms day_number_bounds[of y m d] by (simp add: f valid_fields_def civil_seconds_def year_start_values)
qed

text \<open>The timestamp of a second since year 1 and a fraction.\<close>

definition stamp :: "int \<Rightarrow> int \<Rightarrow> timestamp" where
  "stamp seconds frac =
     \<lparr>ts_canonical = utc_text (seconds div 86400) (seconds mod 86400) frac,
      ts_micros = (seconds - 62135596800) * 1000000 + frac\<rparr>"

lemma day_split:
  assumes "0 \<le> seconds" "seconds < 315537897600"
  shows "0 \<le> seconds div 86400" "seconds div 86400 < year_start 10000" "0 \<le> seconds mod 86400" "seconds mod 86400 < 86400"
  using assms by (simp_all add: year_start_values pos_imp_zdiv_nonneg_iff div_less_iff_less_mult)

lemma erases_finish:
  assumes "0 \<le> seconds" "seconds < 315537897600" and "\<bar>shift\<bar> \<le> 1439" and "0 \<le> frac" "frac < 1000000"
  shows "erases ops (finish_timestamp ops seconds frac shift)
     (if 0 \<le> seconds - shift * 60 \<and> seconds - shift * 60 < 315537897600
      then Inr (stamp (seconds - shift * 60) frac) else Inl ts_fail)"
proof -
  let ?s = "seconds - shift * 60"
  have max: "erases ops (days_before_year ops 10000) (Inr 3652059)" "erases ops (days_before_year ops 1970) (Inr 719162)"
    using erases_days_before_year[of 10000 ops] erases_days_before_year[of 1970 ops] by (simp_all add: year_start_values)
  have tst: "erases ops (mor (t_lt ops ?s 0) (mbind (t_lt ops ?s (3652059 * 86400)) (\<lambda>b. mok (\<not> b))))
      (Inr (?s < 0 \<or> (\<not> ?s < 0 \<and> \<not> ?s < 3652059 * 86400)))"
    by (rule erases_mor[OF erases_order(1) erases_bind_ok[OF erases_order(1) erases_ok]])
  show ?thesis
    unfolding finish_timestamp_def
    apply (rule erases_steps, use assms in \<open>simp add: int_ranges abs_le_iff\<close>)
    apply (rule erases_steps, use assms in \<open>simp add: int_ranges abs_le_iff\<close>)
    apply (rule erases_bind_ok[OF max(1)])
    apply (rule erases_steps, simp add: int_ranges)
    apply (rule erases_bind_ok[OF tst])
    apply (cases "0 \<le> ?s \<and> ?s < 315537897600")
    subgoal premises r
    proof -
      have r: "0 \<le> ?s" "?s < 315537897600" using r by simp_all
      have "erases ops
        (mbind (t_div ops ?s 86400) (\<lambda>day. mbind (t_rem ops ?s 86400) (\<lambda>within.
         mbind (render ops day within frac) (\<lambda>canonical.
         mbind (days_before_year ops 1970) (\<lambda>epoch.
         mbind (t_mul ops epoch 86400) (\<lambda>epoch.
         mbind (t_sub ops ?s epoch) (\<lambda>micros.
         mbind (t_mul ops micros 1000000) (\<lambda>micros.
         mbind (t_add ops micros frac) (\<lambda>micros.
         mok \<lparr>ts_canonical = canonical, ts_micros = micros\<rparr>))))))))) (Inr (stamp ?s frac))"
        apply (rule erases_steps, use r in \<open>simp_all add: int_ranges\<close>)
        apply (rule erases_steps, use r in \<open>simp_all add: int_ranges\<close>)
        apply (rule erases_bind_ok[OF erases_utc_text], use day_split[OF r] in simp_all)
        apply (rule erases_bind_ok[OF max(2)])
        apply (rule erases_steps, simp add: int_ranges)
        apply (rule erases_steps, use r in \<open>simp add: int_ranges\<close>)
        apply (rule erases_steps, use r in \<open>simp add: int_ranges\<close>)
        apply (rule erases_steps, use r assms in \<open>simp add: int_ranges\<close>)
        apply (rule erases_eq[OF erases_ok], simp add: stamp_def)
        done
      then show ?thesis using r by simp
    qed
    apply (auto simp: erases_err)
    done
qed

text \<open>The whole parser: what it reads, or its one error.\<close>

definition read_timestamp :: "string \<Rightarrow> timestamp option" where
  "read_timestamp s =
     (if ascii s \<and> 20 \<le> length s \<and> separated s \<and> numeric s \<and> valid_fields (fields_of s) then
        case split_text (drop 19 s) of None \<Rightarrow> None
      | Some (f, o') \<Rightarrow> case offset_of o' of None \<Rightarrow> None
      | Some shift \<Rightarrow>
          let seconds = civil_seconds (fields_of s) - shift * 60 in
          if 0 \<le> seconds \<and> seconds < 315537897600 then Some (stamp seconds (fraction_of f)) else None
      else None)"

lemma offset_bound: "offset_of o' = Some shift \<Longrightarrow> \<bar>shift\<bar> \<le> 1439"
  by (auto simp: offset_of_def field_text_def split: if_splits)

lemma erases_parse:
  assumes "length s \<le> isize_max"
  shows "erases ops (timestamp_parse_with_work ops s) (ok_or (read_timestamp s) ts_fail)"
proof -
  have bad: "erases ops (mbind m g) (Inl ts_fail)" if "erases ops m (Inl ts_fail)" for m :: "('a, 'b) metered" and g :: "'b \<Rightarrow> ('a, 'c) metered"
    using erases_bind[OF that, of g "\<lambda>_. Inl ts_fail"] by simp
  have short: "erases ops (t_lt ops (int (length s)) 20) (Inr False)" if "20 \<le> length s"
    using that by (intro erases_eq[OF erases_order(1)]) simp
  show ?thesis
  proof (cases "ascii s \<and> 20 \<le> length s \<and> separated s \<and> numeric s \<and> valid_fields (fields_of s)")
    case True
    have a: "erases ops (ascii_scan ops s) (Inr ())" "erases ops (separators ops s) (Inr ())"
      "erases ops (date_fields ops s) (Inr (fields_of s))"
      using True erases_ascii_scan[of ops s] erases_separators[of s ops] erases_date_fields[of s ops] by simp_all
    have at: "str_index 19 (length s) s = mok (drop 19 s)" using True by (simp add: ascii_index slice_def)
    have ad: "ascii (drop 19 s)" using True by (auto simp: ascii_def list_all_iff dest: in_set_dropD)
    have l: "length (drop 19 s) \<le> isize_max" using assms by simp
    show ?thesis
    proof (cases "split_text (drop 19 s)")
      case None
      then have "erases ops (split_fraction ops (drop 19 s)) (Inl ts_fail)" using erases_split_fraction[OF l ad, of ops] by simp
      then have "erases ops (timestamp_parse_with_work ops s) (Inl ts_fail)"
        unfolding timestamp_parse_with_work_def at metered_simps
        by (intro erases_bind_ok[OF a(1)] erases_then erases_visit erases_bind_ok[OF short])
          (use True in simp, simp, intro erases_bind_ok[OF a(2)] erases_bind_ok[OF a(3)] erases_then erases_visit bad)
      then show ?thesis using True None by (simp add: read_timestamp_def)
    next
      case (Some fo)
      obtain f o' where fo: "fo = (f, o')" by (cases fo)
      have sp: "erases ops (split_fraction ops (drop 19 s)) (Inr (f, o'))" using erases_split_fraction[OF l ad, of ops] Some fo by simp
      have oa: "ascii o'" using split_text_ascii[OF _ ad] Some fo by simp
      have fd: "list_all is_digit f" "length f \<le> 6" using split_text_digits Some fo by auto
      note fr = erases_fraction_micros[OF fd, of ops]
      have ls: "erases ops (local_seconds ops (fields_of s)) (Inr (civil_seconds (fields_of s)))"
        using True by (intro erases_local_seconds) simp
      have rest: "erases ops (mbind (offset_minutes ops o') (\<lambda>shift. mbind (local_seconds ops (fields_of s))
           (\<lambda>seconds. finish_timestamp ops seconds (fraction_of f) shift))) (ok_or (read_timestamp s) ts_fail)"
      proof (cases "offset_of o'")
        case None
        then have "erases ops (offset_minutes ops o') (Inl ts_fail)" using erases_offset[OF oa, of ops] by simp
        moreover have "read_timestamp s = None" using True Some fo None by (simp add: read_timestamp_def)
        ultimately show ?thesis by (simp add: bad)
      next
        case (Some shift)
        then have of1: "erases ops (offset_minutes ops o') (Inr shift)" using erases_offset[OF oa, of ops] by simp
        have "erases ops (finish_timestamp ops (civil_seconds (fields_of s)) (fraction_of f) shift)
            (ok_or (read_timestamp s) ts_fail)"
        proof (rule erases_eq[OF erases_finish])
          show "0 \<le> civil_seconds (fields_of s)" "civil_seconds (fields_of s) < 315537897600"
            using civil_bounds[of "fields_of s"] True by simp_all
          show "\<bar>shift\<bar> \<le> 1439" by (rule offset_bound[OF Some])
          show "0 \<le> fraction_of f" "fraction_of f < 1000000" using fraction_bound[OF fd] by simp_all
        qed (use True Some fo \<open>split_text (drop 19 s) = Some fo\<close> in \<open>simp add: read_timestamp_def Let_def\<close>)
        then show ?thesis by (rule erases_bind_ok[OF of1 erases_bind_ok[OF ls]])
      qed
      show ?thesis
        unfolding timestamp_parse_with_work_def at metered_simps
        by (intro erases_bind_ok[OF a(1)] erases_then erases_visit erases_bind_ok[OF short])
          (use True in simp, simp, intro erases_bind_ok[OF a(2)] erases_bind_ok[OF a(3)] erases_then erases_visit erases_bind_ok[OF sp],
            simp, intro erases_then erases_visit erases_bind_ok[OF fr] rest)
    qed
  next
    case False
    then have n: "read_timestamp s = None" by (auto simp: read_timestamp_def)
    consider "\<not> ascii s" | "ascii s" "length s < 20" | "ascii s" "20 \<le> length s" "\<not> separated s"
      | "ascii s" "20 \<le> length s" "separated s" "\<not> (numeric s \<and> valid_fields (fields_of s))" using False by linarith
    then have "erases ops (timestamp_parse_with_work ops s) (Inl ts_fail)"
    proof cases
      case 1
      then show ?thesis unfolding timestamp_parse_with_work_def using erases_ascii_scan[of ops s] by (intro bad) simp
    next
      case 2
      then have a: "erases ops (ascii_scan ops s) (Inr ())" using erases_ascii_scan[of ops s] by simp
      show ?thesis unfolding timestamp_parse_with_work_def
        using 2 by (auto intro!: erases_bind_ok[OF a] erases_then erases_visit erases_bind_ok[OF erases_order(1)] erases_err)
    next
      case 3
      then have a: "erases ops (ascii_scan ops s) (Inr ())" "erases ops (separators ops s) (Inl ts_fail)"
        using erases_ascii_scan[of ops s] erases_separators[of s ops] by simp_all
      show ?thesis unfolding timestamp_parse_with_work_def
        by (intro erases_bind_ok[OF a(1)] erases_then erases_visit erases_bind_ok[OF short[OF 3(2)]])
          (simp, rule bad[OF a(2)])
    next
      case 4
      then have a: "erases ops (ascii_scan ops s) (Inr ())" "erases ops (separators ops s) (Inr ())"
        "erases ops (date_fields ops s) (Inl ts_fail)"
        using erases_ascii_scan[of ops s] erases_separators[of s ops] erases_date_fields[of s ops] by (simp_all split: if_splits)
      show ?thesis unfolding timestamp_parse_with_work_def
        by (intro erases_bind_ok[OF a(1)] erases_then erases_visit erases_bind_ok[OF short[OF 4(2)]])
          (simp, intro erases_bind_ok[OF a(2)] bad[OF a(3)])
    qed
    with n show ?thesis by simp
  qed
qed


section \<open>Reading what was written\<close>

lemma zero_digit: "is_digit (CHR ''0'')"
  by (simp add: is_digit_def byte_def)

lemma zero_pad_props:
  assumes "0 \<le> n" "n < 10 ^ w" "0 < w"
  shows "length (zero_pad w n) = w" and "list_all is_digit (zero_pad w n)" and "int (digits_val (zero_pad w n)) = n"
proof -
  have "nat n < 10 ^ w" using assms by (simp add: nat_less_iff)
  then have l: "length (nat_str (nat n)) \<le> w" using nat_str_length assms(3) by simp
  have z: "zero_pad w n = replicate (w - length (nat_str (nat n))) (CHR ''0'') @ nat_str (nat n)"
    using assms(1) by (simp add: zero_pad_def Let_def)
  show "length (zero_pad w n) = w" using l by (simp add: z)
  show "list_all is_digit (zero_pad w n)" using nat_str_digits[of "nat n"] by (auto simp: z list_all_iff zero_digit)
  show "int (digits_val (zero_pad w n)) = n" using assms(1) by (simp add: z digits_val_append nat_str_val)
qed

lemma pow10: "(10::int) ^ 2 = 100" "(10::int) ^ 4 = 10000" "(10::int) ^ 6 = 1000000"
  by simp_all

definition clock_ok :: "int \<Rightarrow> int \<Rightarrow> bool" where
  "clock_ok within fraction \<longleftrightarrow> 0 \<le> within \<and> within < 86400 \<and> 0 \<le> fraction \<and> fraction < 1000000"

lemma clock_parts:
  assumes "clock_ok within fraction"
  shows "0 \<le> within div 3600" "within div 3600 \<le> 23" "0 \<le> within div 60 mod 60" "within div 60 mod 60 \<le> 59"
    "0 \<le> within mod 60" "within mod 60 \<le> 59"
    "within div 3600 * 3600 + within div 60 mod 60 * 60 + within mod 60 = within"
proof -
  have "within div 60 div 60 = within div 3600" by (simp flip: zdiv_zmult2_eq)
  then have "within div 60 = within div 3600 * 60 + within div 60 mod 60" using div_mult_mod_eq[of "within div 60" 60] by simp
  then show "within div 3600 * 3600 + within div 60 mod 60 * 60 + within mod 60 = within"
    using div_mult_mod_eq[of within 60] by linarith
  have "0 \<le> within" "within < 86400" using assms by (simp_all add: clock_ok_def)
  then show "0 \<le> within div 3600" "within div 3600 \<le> 23" "0 \<le> within div 60 mod 60" "within div 60 mod 60 \<le> 59"
    "0 \<le> within mod 60" "within mod 60 \<le> 59"
    by simp_all
qed

text \<open>The blocks of the text.\<close>

lemma clock_text_blocks:
  assumes "valid_date y m d" and "clock_ok within fraction"
  obtains Y M D H I S F where
    "clock_text y m d within fraction = Y @ ''-'' @ M @ ''-'' @ D @ ''T'' @ H @ '':'' @ I @ '':'' @ S @ ''.'' @ F @ ''Z''"
    "length Y = 4" "length M = 2" "length D = 2" "length H = 2" "length I = 2" "length S = 2" "length F = 6"
    "list_all is_digit Y" "list_all is_digit M" "list_all is_digit D" "list_all is_digit H" "list_all is_digit I"
    "list_all is_digit S" "list_all is_digit F"
    "int (digits_val Y) = y" "int (digits_val M) = m" "int (digits_val D) = d" "int (digits_val H) = within div 3600"
    "int (digits_val I) = within div 60 mod 60" "int (digits_val S) = within mod 60" "int (digits_val F) = fraction"
proof -
  have v: "0 \<le> y" "y < 10 ^ 4" "0 \<le> m" "m < 10 ^ 2" "0 \<le> d" "d < 10 ^ 2" "0 \<le> fraction" "fraction < 10 ^ 6"
    using assms days_in_bounds(2)[of y m] by (simp_all add: valid_date_def clock_ok_def)
  have c: "within div 3600 < 10 ^ 2" "within div 60 mod 60 < 10 ^ 2" "within mod 60 < 10 ^ 2"
    using clock_parts[OF assms(2)] by simp_all
  note p = clock_parts[OF assms(2)]
  note z = zero_pad_props[OF v(1,2)] zero_pad_props[OF v(3,4)] zero_pad_props[OF v(5,6)] zero_pad_props[OF v(7,8)]
    zero_pad_props[OF p(1) c(1)] zero_pad_props[OF p(3) c(2)] zero_pad_props[OF p(5) c(3)]
  show thesis
    by (rule that[OF clock_text_def[unfolded format_utc_def]]) (simp_all add: z)
qed

lemma digit_not: "is_digit c \<Longrightarrow> c \<noteq> CHR ''Z''"
  by (auto simp: is_digit_def byte_def)

lemma read_clock_text:
  assumes "valid_date y m d" and "clock_ok within fraction"
  shows "length (clock_text y m d within fraction) = 27"
    and "read_timestamp (clock_text y m d within fraction) = Some (stamp (day_number y m d * 86400 + within) fraction)"
proof -
  from clock_text_blocks[OF assms] obtain Y M D H I S F where
    t: "clock_text y m d within fraction = Y @ ''-'' @ M @ ''-'' @ D @ ''T'' @ H @ '':'' @ I @ '':'' @ S @ ''.'' @ F @ ''Z''" (is "?t = _")
    and l: "length Y = 4" "length M = 2" "length D = 2" "length H = 2" "length I = 2" "length S = 2" "length F = 6"
    and g: "list_all is_digit Y" "list_all is_digit M" "list_all is_digit D" "list_all is_digit H" "list_all is_digit I"
      "list_all is_digit S" "list_all is_digit F"
    and v: "int (digits_val Y) = y" "int (digits_val M) = m" "int (digits_val D) = d" "int (digits_val H) = within div 3600"
      "int (digits_val I) = within div 60 mod 60" "int (digits_val S) = within mod 60" "int (digits_val F) = fraction" .
  show "length ?t = 27" using l by (simp add: t)
  have sl: "slice 0 4 ?t = Y" "slice 5 7 ?t = M" "slice 8 10 ?t = D" "slice 11 13 ?t = H" "slice 14 16 ?t = I"
    "slice 17 19 ?t = S" "drop 19 ?t = ''.'' @ F @ ''Z''"
    using l by (simp_all add: t slice_def)
  have "ascii ?t" using g by (simp add: t digits_ascii) (simp add: byte_def)
  moreover have "separated ?t" using l by (simp add: t separated_def slice_def)
  moreover have "numeric ?t" using g by (simp add: numeric_def sl)
  moreover have f: "fields_of ?t = (y, m, d, within div 3600, within div 60 mod 60, within mod 60)"
    by (simp add: fields_of_def field_text_def sl v)
  moreover have "valid_fields (fields_of ?t)"
    unfolding f using assms(1) clock_parts[OF assms(2)] by (simp add: valid_fields_def)
  moreover have "takeWhile is_digit (F @ ''Z'') = F"
    using g(7) by (simp add: takeWhile_append2 list_all_iff is_digit_def byte_def)
  then have "split_text (drop 19 ?t) = Some (F, ''Z'')" using l(7) by (auto simp: split_text_def sl)
  moreover have "offset_of ''Z'' = Some 0" by (simp add: offset_of_def)
  moreover have "fraction_of F = fraction" using l(7) v(7) by (simp add: fraction_of_def)
  moreover have "civil_seconds (fields_of ?t) = day_number y m d * 86400 + within"
    unfolding f civil_seconds_def using clock_parts(7)[OF assms(2)] by simp
  moreover have "0 \<le> day_number y m d * 86400 + within" "day_number y m d * 86400 + within < 315537897600"
    using day_number_bounds[OF assms(1)] assms(2) by (simp_all add: clock_ok_def year_start_values)
  ultimately show "read_timestamp ?t = Some (stamp (day_number y m d * 86400 + within) fraction)"
    using \<open>length ?t = 27\<close> by (simp add: read_timestamp_def Let_def)
qed

lemma read_stamp:
  assumes "0 \<le> seconds" "seconds < 315537897600" "0 \<le> frac" "frac < 1000000"
  shows "length (ts_canonical (stamp seconds frac)) = 27"
    and "read_timestamp (ts_canonical (stamp seconds frac)) = Some (stamp seconds frac)"
proof -
  note s = day_split[OF assms(1,2)]
  from utc_text_shows[OF s] obtain y m d where
    v: "valid_date y m d" "day_number y m d = seconds div 86400"
      "utc_text (seconds div 86400) (seconds mod 86400) frac = clock_text y m d (seconds mod 86400) frac" .
  have "clock_ok (seconds mod 86400) frac" using s assms by (simp add: clock_ok_def)
  from read_clock_text[OF v(1) this] v(2,3) show "length (ts_canonical (stamp seconds frac)) = 27"
    "read_timestamp (ts_canonical (stamp seconds frac)) = Some (stamp seconds frac)"
    by (simp_all add: stamp_def)
qed

text \<open>Every timestamp that was read is the stamp of its microseconds.\<close>

lemma read_timestamp_stamp:
  assumes "read_timestamp s = Some t"
  obtains seconds frac where "t = stamp seconds frac" "0 \<le> seconds" "seconds < 315537897600" "0 \<le> frac" "frac < 1000000"
proof -
  from assms obtain f o' shift where
    "split_text (drop 19 s) = Some (f, o')" "t = stamp (civil_seconds (fields_of s) - shift * 60) (fraction_of f)"
    "0 \<le> civil_seconds (fields_of s) - shift * 60" "civil_seconds (fields_of s) - shift * 60 < 315537897600"
    by (auto simp: read_timestamp_def Let_def split: option.splits if_splits)
  moreover from this(1) have "0 \<le> fraction_of f \<and> fraction_of f < 1000000"
    using fraction_bound split_text_digits by blast
  ultimately show thesis using that by blast
qed

section \<open>From microseconds\<close>

definition micros_in_range :: "int \<Rightarrow> bool" where
  "micros_in_range n \<longleftrightarrow> -62135596800000000 \<le> n \<and> n \<le> 253402300799999999"

definition stamp_of :: "int \<Rightarrow> timestamp" where
  "stamp_of n = stamp (n div 1000000 + 62135596800) (n mod 1000000)"

lemma stamp_micros: "0 \<le> frac \<Longrightarrow> frac < 1000000 \<Longrightarrow> stamp seconds frac = stamp_of (ts_micros (stamp seconds frac))"
proof -
  assume "0 \<le> frac" "frac < 1000000"
  moreover have "(seconds - 62135596800) * 1000000 + frac = frac + (seconds - 62135596800) * 1000000" by simp
  ultimately have "((seconds - 62135596800) * 1000000 + frac) div 1000000 = seconds - 62135596800"
    "((seconds - 62135596800) * 1000000 + frac) mod 1000000 = frac"
    by (simp_all only: div_mult_self1 mod_mult_self1) simp_all
  then show ?thesis by (simp add: stamp_def stamp_of_def)
qed

lemma stamp_of_micros [simp]: "ts_micros (stamp_of n) = n"
  by (simp add: stamp_def stamp_of_def)

lemma range_seconds: "micros_in_range n \<Longrightarrow> 0 \<le> n div 1000000 + 62135596800 \<and> n div 1000000 + 62135596800 < 315537897600"
  unfolding micros_in_range_def by linarith

lemma erases_from_micros:
  assumes "in_i64 n"
  shows "erases ops (from_micros_with_work ops n) (if micros_in_range n then Inr (stamp_of n) else Inl timestamp_range)"
proof -
  let ?s = "n div 1000000"
  have epoch: "erases ops (days_before_year ops 1970) (Inr 719162)" "erases ops (days_before_year ops 10000) (Inr 3652059)"
    using erases_days_before_year[of 10000 ops] erases_days_before_year[of 1970 ops] by (simp_all add: year_start_values)
  have dv: "(?s + 62135596800) div 86400 = ?s div 86400 + 719162" "(?s + 62135596800) mod 86400 = ?s mod 86400"
    using div_mult_self1[of 86400 ?s 719162] mod_mult_self1[of ?s 719162 86400] by simp_all
  have i: "in_i64 (?s div 86400 + 719162)" using assms unfolding int_ranges by linarith
  have out: "(?s div 86400 + 719162 < 0 \<or> \<not> ?s div 86400 + 719162 < 3652059) \<longleftrightarrow> \<not> micros_in_range n"
    unfolding micros_in_range_def by linarith
  have outside: "erases ops (if ?s div 86400 + 719162 < 0 then mok True
            else mbind (days_before_year ops 10000) (\<lambda>max_day.
                 mbind (t_lt ops (?s div 86400 + 719162) max_day) (\<lambda>b. mok (\<not> b)))) (Inr (\<not> micros_in_range n))"
    using out by (auto intro!: erases_bind_ok[OF epoch(2)] erases_bind_ok[OF erases_order(1)] intro: erases_eq[OF erases_ok])
  have last: "erases ops (mbind (render ops (?s div 86400 + 719162) (?s mod 86400) (n mod 1000000)) (timestamp_parse_with_work ops))
      (Inr (stamp_of n))" if r: "micros_in_range n"
  proof -
    note q = range_seconds[OF r]
    note sp = day_split[OF q[THEN conjunct1] q[THEN conjunct2], unfolded dv]
    have c: "utc_text (?s div 86400 + 719162) (?s mod 86400) (n mod 1000000) = ts_canonical (stamp_of n)"
      by (simp add: stamp_of_def stamp_def dv)
    have st: "length (ts_canonical (stamp_of n)) = 27" "read_timestamp (ts_canonical (stamp_of n)) = Some (stamp_of n)"
      using read_stamp[of "?s + 62135596800" "n mod 1000000"] q by (simp_all add: stamp_of_def)
    have "erases ops (timestamp_parse_with_work ops (ts_canonical (stamp_of n))) (Inr (stamp_of n))"
      using erases_parse[of "ts_canonical (stamp_of n)" ops] st by (simp add: isize_max_def)
    then show ?thesis
      using erases_bind_ok[OF erases_utc_text[OF sp]] c by metis
  qed
  show ?thesis
    unfolding from_micros_with_work_def Let_def
    by (intro erases_then erases_arithmetic erases_bind_ok[OF epoch(1)] erases_bind_ok[OF erases_i64(1)[OF i]]
        erases_bind_ok[OF erases_order(1)] erases_bind_ok[OF outside])
      (use last in \<open>auto simp: erases_err\<close>)
qed

end
