(* ===== verification/Timestamp_Properties.thy ===== *)
theory Timestamp_Properties
  imports Timestamp_Laws
begin

text \<open>
  What timestamps promise: parsing and rendering are inverse, the callbacks change nothing but
  whether the parser is refused, and the canonical texts sort as the instants do.
\<close>

section \<open>The order of canonical texts\<close>

lemma append_less:
  "length a = length b \<Longrightarrow> a @ s < b @ t \<longleftrightarrow> a < b \<or> a = b \<and> s < (t :: string)"
  by (induction a b rule: list_induct2) (auto simp: Cons_less_Cons)

lemma char_less_byte: "c < d \<longleftrightarrow> byte c < byte d" for c d :: char
  by (simp add: less_char_def byte_def)

lemma digits_less:
  assumes "length s = length t" "list_all is_digit s" "list_all is_digit t"
  shows "s < t \<longleftrightarrow> digits_val s < digits_val t"
  using assms
proof (induction s t rule: list_induct2)
  case (Cons c s d t)
  have b: "digits_val s < 10 ^ length s" "digits_val t < 10 ^ length s"
    using digits_val_bound[of s] digits_val_bound[of t] Cons by simp_all
  have cd: "is_digit c" "is_digit d" using Cons.prems by simp_all
  have o: "c < d \<longleftrightarrow> digit_val c < digit_val d" "c = d \<longleftrightarrow> digit_val c = digit_val d"
    using cd by (auto simp: char_less_byte is_digit_def digit_val_def byte_inj[symmetric])
  have less: "x * 10 ^ length s + digits_val u < y * 10 ^ length s + digits_val v"
    if "x < y" "digits_val u < 10 ^ length s" for x y u v
  proof -
    have "(x + 1) * 10 ^ length s \<le> y * 10 ^ length s" using that(1) by (intro mult_le_mono1) simp
    with that(2) show ?thesis by simp
  qed
  consider "digit_val c < digit_val d" | "digit_val c = digit_val d" | "digit_val d < digit_val c" by linarith
  then show ?case
  proof cases
    case 1
    then show ?thesis using less[OF 1 b(1)] o Cons.hyps by (simp add: digits_val_Cons Cons_less_Cons)
  next
    case 2
    then show ?thesis using o Cons by (simp add: digits_val_Cons Cons_less_Cons)
  next
    case 3
    then show ?thesis using less[OF 3 b(2), of s] o Cons.hyps by (auto simp: digits_val_Cons Cons_less_Cons)
  qed
qed simp

lemma field_less:
  assumes "0 \<le> a" "a < 10 ^ w" "0 \<le> b" "b < 10 ^ w" "0 < w"
  shows "zero_pad w a @ s < zero_pad w b @ t \<longleftrightarrow> a < b \<or> a = b \<and> s < t"
proof -
  note z = zero_pad_props[OF assms(1,2,5)] zero_pad_props[OF assms(3,4,5)]
  have "zero_pad w a < zero_pad w b \<longleftrightarrow> a < b"
    using z digits_less[of "zero_pad w a" "zero_pad w b"] by (metis of_nat_less_iff)
  moreover have "zero_pad w a = zero_pad w b \<longleftrightarrow> a = b" using z by metis
  ultimately show ?thesis using append_less[of "zero_pad w a" "zero_pad w b" s t] z by simp
qed

lemma sep_less: "[c] @ s < [c] @ t \<longleftrightarrow> s < (t :: string)"
  by (simp add: Cons_less_Cons)

lemma clock_text_less:
  assumes v: "valid_date y m d" "valid_date y' m' d'" and c: "clock_ok w f" "clock_ok w' f'"
  shows "clock_text y m d w f < clock_text y' m' d' w' f' \<longleftrightarrow>
     y < y' \<or> y = y' \<and> (m < m' \<or> m = m' \<and> (d < d' \<or> d = d' \<and>
       (w div 3600 < w' div 3600 \<or> w div 3600 = w' div 3600 \<and>
         (w div 60 mod 60 < w' div 60 mod 60 \<or> w div 60 mod 60 = w' div 60 mod 60 \<and>
           (w mod 60 < w' mod 60 \<or> w mod 60 = w' mod 60 \<and> f < f')))))"
proof -
  have r: "0 \<le> y" "y < 10 ^ 4" "0 \<le> y'" "y' < 10 ^ 4" "0 \<le> m" "m < 10 ^ 2" "0 \<le> m'" "m' < 10 ^ 2"
    "0 \<le> d" "d < 10 ^ 2" "0 \<le> d'" "d' < 10 ^ 2" "0 \<le> f" "f < 10 ^ 6" "0 \<le> f'" "f' < 10 ^ 6"
    using v c days_in_bounds(2)[of y m] days_in_bounds(2)[of y' m'] by (simp_all add: valid_date_def clock_ok_def)
  have small: "x < 10 ^ 2" if "x \<le> u" "u \<le> 59" for x u :: int using that by simp
  have t: "w div 3600 < 10 ^ 2" "w div 60 mod 60 < 10 ^ 2" "w mod 60 < 10 ^ 2"
    "w' div 3600 < 10 ^ 2" "w' div 60 mod 60 < 10 ^ 2" "w' mod 60 < 10 ^ 2"
    by (rule small, rule clock_parts[OF c(1)] clock_parts[OF c(2)], simp)+
  note p = clock_parts[OF c(1)] and q = clock_parts[OF c(2)]
  show ?thesis
    unfolding clock_text_def format_utc_def
    by (simp only: sep_less less_irrefl simp_thms field_less[OF r(1,2,3,4)] field_less[OF r(5,6,7,8)] field_less[OF r(9,10,11,12)]
        field_less[OF r(13,14,15,16)] field_less[OF p(1) t(1) q(1) t(4)] field_less[OF p(3) t(2) q(3) t(5)]
        field_less[OF p(5) t(3) q(5) t(6)] zero_less_numeral)
qed

text \<open>A pair of a quotient and a bounded remainder orders as the number it stands for.\<close>

lemma quotient_order:
  fixes a b :: int
  assumes "0 \<le> r" "r < k" "0 \<le> q" "q < k"
  shows "a * k + r < b * k + q \<longleftrightarrow> a < b \<or> a = b \<and> r < q"
proof -
  have less: "x * k + u < y * k + v" if "x < y" "u < k" "0 \<le> v" for x y u v :: int
  proof -
    have "(x + 1) * k \<le> y * k" using that(1) assms by (intro mult_right_mono) simp_all
    with that show ?thesis by (simp add: distrib_right)
  qed
  consider "a < b" | "a = b" | "b < a" by linarith
  then show ?thesis
  proof cases
    case 1
    then show ?thesis using less[OF 1 assms(2,3)] by simp
  next
    case 3
    then show ?thesis using less[OF 3 assms(4,1)] by simp
  qed simp
qed

lemma quotient_order_div: "0 < k \<Longrightarrow> a < b \<longleftrightarrow> a div k < b div k \<or> a div k = b div k \<and> a mod k < b mod k" for a b k :: int
  using quotient_order[of "a mod k" k "b mod k" "a div k" "b div k"] by simp

lemma clock_order:
  fixes w w' f f' :: int
  assumes "w < w' \<or> w = w' \<and> f < f'"
  shows "w div 3600 < w' div 3600 \<or> w div 3600 = w' div 3600 \<and>
         (w div 60 mod 60 < w' div 60 mod 60 \<or> w div 60 mod 60 = w' div 60 mod 60 \<and>
           (w mod 60 < w' mod 60 \<or> w mod 60 = w' mod 60 \<and> f < f'))"
proof -
  have "x div 60 div 60 = x div 3600" for x :: int by (simp flip: zdiv_zmult2_eq)
  then have o: "w div 60 < w' div 60 \<longleftrightarrow> w div 3600 < w' div 3600 \<or> w div 3600 = w' div 3600 \<and> w div 60 mod 60 < w' div 60 mod 60"
    "w div 60 = w' div 60 \<Longrightarrow> w div 3600 = w' div 3600"
    using quotient_order_div[of 60 "w div 60" "w' div 60"] by (simp, metis)
  show ?thesis
    using assms quotient_order_div[of 60 w w'] o by auto
qed

lemma stamp_less:
  assumes s: "0 \<le> s" "s < 315537897600" "0 \<le> f" "f < 1000000" and t: "0 \<le> t" "t < 315537897600" "0 \<le> g" "g < 1000000"
    and l: "s < t \<or> s = t \<and> f < g"
  shows "ts_canonical (stamp s f) < ts_canonical (stamp t g)"
proof -
  note ds = day_split[OF s(1,2)] and dt = day_split[OF t(1,2)]
  from utc_text_shows[OF ds] obtain y m d where
    v: "valid_date y m d" "day_number y m d = s div 86400" "utc_text (s div 86400) (s mod 86400) f = clock_text y m d (s mod 86400) f" .
  from utc_text_shows[OF dt] obtain y' m' d' where
    v': "valid_date y' m' d'" "day_number y' m' d' = t div 86400" "utc_text (t div 86400) (t mod 86400) g = clock_text y' m' d' (t mod 86400) g" .
  have c: "clock_ok (s mod 86400) f" "clock_ok (t mod 86400) g" using ds dt s t by (simp_all add: clock_ok_def)
  have o: "s div 86400 < t div 86400 \<or> s div 86400 = t div 86400 \<and> (s mod 86400 < t mod 86400 \<or> s mod 86400 = t mod 86400 \<and> f < g)"
    using l quotient_order_div[of 86400 s t] by auto
  from o have "y < y' \<or> y = y' \<and> (m < m' \<or> m = m' \<and> d < d')
     \<or> (y = y' \<and> m = m' \<and> d = d' \<and> (s mod 86400 < t mod 86400 \<or> s mod 86400 = t mod 86400 \<and> f < g))"
  proof (elim disjE conjE)
    assume 1: "s div 86400 < t div 86400"
    then have "\<not> (y' < y \<or> y' = y \<and> (m' < m \<or> m' = m \<and> d' < d))" "\<not> (y = y' \<and> m = m' \<and> d = d')"
      using day_number_less[OF v'(1) v(1)] v(2) v'(2) by auto
    then show ?thesis by linarith
  qed (use day_number_inj[OF v(1) v'(1)] v(2) v'(2) in simp_all)
  then have "clock_text y m d (s mod 86400) f < clock_text y' m' d' (t mod 86400) g"
    unfolding clock_text_less[OF v(1) v'(1) c] using clock_order by blast
  then show ?thesis using v(3) v'(3) by (simp add: stamp_def)
qed

lemma parse_read:
  assumes "length s \<le> isize_max"
  shows "timestamp_parse s = ok_or (read_timestamp s) ts_fail"
  using erases_noop[OF erases_parse[OF assms]] by (simp add: timestamp_parse_def)

lemma stamp_clock:
  assumes "valid_date y m d" and "clock_ok w f"
  shows "timestamp_parse (clock_text y m d w f) = Inr \<lparr>ts_canonical = clock_text y m d w f,
     ts_micros = (day_number y m d * 86400 + w - 62135596800) * 1000000 + f\<rparr>"
proof -
  let ?s = "day_number y m d * 86400 + w"
  have w: "0 \<le> w" "w < 86400" using assms(2) by (simp_all add: clock_ok_def)
  have d: "?s div 86400 = day_number y m d" "?s mod 86400 = w" "w mod 86400 = w" using w by simp_all
  from utc_text_shows[of "day_number y m d" w f] day_number_bounds[OF assms(1)] w obtain y' m' d' where
    "valid_date y' m' d'" "day_number y' m' d' = day_number y m d" "utc_text (day_number y m d) w f = clock_text y' m' d' w f"
    by metis
  then have "utc_text (day_number y m d) w f = clock_text y m d w f" using day_number_inj[OF _ assms(1)] by blast
  then show ?thesis
    using read_clock_text[OF assms] parse_read[of "clock_text y m d w f"] by (simp add: stamp_def d isize_max_def)
qed

lemma digit_chars:
  "digit_char 0 = CHR ''0''" "digit_char 1 = CHR ''1''" "digit_char 2 = CHR ''2''" "digit_char 3 = CHR ''3''"
  "digit_char 5 = CHR ''5''" "digit_char 9 = CHR ''9''" "digit_char (Suc 0) = CHR ''1''"
  by code_simp+

lemmas pad_simps = clock_text_def format_utc_def zero_pad_def nat_str.simps digit_chars

lemma leap_day_text: "clock_text 2000 2 29 83700 120000 = ''2000-02-29T23:15:00.120000Z''"
  by (simp add: pad_simps)

lemma first_day_text: "clock_text 1 1 1 0 0 = ''0001-01-01T00:00:00.000000Z''"
  by (simp add: pad_simps eval_nat_numeral)

lemma sample_stamps:
  "timestamp_parse ''2000-02-29T23:15:00.120000Z'' = Inr \<lparr>ts_canonical = ''2000-02-29T23:15:00.120000Z'', ts_micros = 951866100120000\<rparr>"
  "timestamp_parse ''0001-01-01T00:00:00.000000Z'' = Inr \<lparr>ts_canonical = ''0001-01-01T00:00:00.000000Z'', ts_micros = -62135596800000000\<rparr>"
  using stamp_clock[of 2000 2 29 83700 120000] stamp_clock[of 1 1 1 0 0]
  by (simp_all add: leap_day_text first_day_text valid_date_def days_in_def leap_def clock_ok_def day_number_def year_start_def)

section \<open>Properties\<close>

text \<open>
  C31: parsing a timestamp is total and its result is canonical: on every string the parser returns
  a timestamp or its one error, it never panics (none of its checked operations overflows and no
  slice is out of range), and a timestamp it returns has a text of 27 bytes that parses to the
  same timestamp, lies in the years 1 to 9999, and is the one \<open>from_micros\<close> returns for its
  microseconds.
\<close>

theorem timestamp_parse_canonical:
  assumes "length s \<le> isize_max"
  shows "timestamp_parse s = Inl ts_fail
    \<or> (\<exists>t. timestamp_parse s = Inr t \<and> length (ts_canonical t) = 27
        \<and> timestamp_parse (ts_canonical t) = Inr t
        \<and> -62135596800000000 \<le> ts_micros t \<and> ts_micros t \<le> 253402300799999999
        \<and> from_micros (ts_micros t) = Inr t)"
proof (cases "read_timestamp s")
  case None
  then show ?thesis using parse_read[OF assms] by simp
next
  case (Some t)
  then obtain secs f where t: "t = stamp secs f" and r: "0 \<le> secs" "secs < 315537897600" "0 \<le> f" "f < 1000000"
    by (elim read_timestamp_stamp)
  note c = read_stamp[OF r]
  have m: "micros_in_range (ts_micros t)" using r by (simp add: t stamp_def micros_in_range_def)
  then have i: "in_i64 (ts_micros t)" by (simp add: micros_in_range_def int_ranges)
  have st: "stamp_of (ts_micros t) = t" unfolding t by (rule stamp_micros[OF r(3,4), symmetric])
  have "from_micros (ts_micros t) = Inr t"
    using erases_noop[OF erases_from_micros[OF i]] m st by (simp add: from_micros_def)
  moreover have "timestamp_parse (ts_canonical t) = Inr t"
    using parse_read[of "ts_canonical t"] c by (simp add: t isize_max_def)
  ultimately show ?thesis using parse_read[OF assms] Some c m by (simp add: t micros_in_range_def)
qed

theorem timestamp_parse_canonical_witness:
  "from_micros 951866100120000 = Inr \<lparr>ts_canonical = ''2000-02-29T23:15:00.120000Z'', ts_micros = 951866100120000\<rparr>"
  using timestamp_parse_canonical[of "''2000-02-29T23:15:00.120000Z''"] sample_stamps(1) by (simp add: isize_max_def)

text \<open>
  C30: \<open>from_micros\<close> and the accessors are inverse on exactly the instants of the years 1 to 9999:
  for every \<open>i64\<close> it returns the timestamp with those microseconds, whose text parses back to it,
  or refuses when the instant is outside; it never panics.
\<close>

theorem timestamp_micros_round_trip:
  assumes "in_i64 n"
  shows "(if -62135596800000000 \<le> n \<and> n \<le> 253402300799999999
      then \<exists>t. from_micros n = Inr t \<and> ts_micros t = n \<and> timestamp_parse (timestamp_text t) = Inr t
      else from_micros n = Inl timestamp_range)"
proof -
  have f: "from_micros n = (if micros_in_range n then Inr (stamp_of n) else Inl timestamp_range)"
    using erases_noop[OF erases_from_micros[OF assms]] by (simp add: from_micros_def)
  have "timestamp_parse (ts_canonical (stamp_of n)) = Inr (stamp_of n)" if "micros_in_range n"
    using read_stamp[of "n div 1000000 + 62135596800" "n mod 1000000"] range_seconds[OF that]
      parse_read[of "ts_canonical (stamp_of n)"] by (simp add: stamp_of_def isize_max_def)
  with f show ?thesis by (auto simp: micros_in_range_def timestamp_text_def)
qed

theorem timestamp_micros_round_trip_witness:
  "(\<exists>t. from_micros (-1) = Inr t \<and> ts_micros t = -1 \<and> timestamp_parse (timestamp_text t) = Inr t)
   \<and> from_micros 253402300800000000 = Inl timestamp_range"
  using timestamp_micros_round_trip[of "-1"] timestamp_micros_round_trip[of 253402300800000000] by (simp add: int_ranges)

text \<open>
  C29: the canonical texts of timestamps sort, byte by byte, exactly as the instants they denote, so
  a comparison of stored texts is a comparison of instants.
\<close>

theorem timestamp_text_order:
  assumes "length a \<le> isize_max" "length b \<le> isize_max"
    and "timestamp_parse a = Inr s" "timestamp_parse b = Inr t"
  shows "(timestamp_text s < timestamp_text t \<longleftrightarrow> ts_micros s < ts_micros t)
    \<and> (timestamp_text s = timestamp_text t \<longleftrightarrow> ts_micros s = ts_micros t)"
proof -
  from assms have "read_timestamp a = Some s" "read_timestamp b = Some t"
    using parse_read[OF assms(1)] parse_read[OF assms(2)] by simp_all
  then obtain x f y g where st: "s = stamp x f" "t = stamp y g"
    and r: "0 \<le> x" "x < 315537897600" "0 \<le> f" "f < 1000000" "0 \<le> y" "y < 315537897600" "0 \<le> g" "g < 1000000"
    by (metis read_timestamp_stamp)
  have lt: "ts_micros s < ts_micros t \<longleftrightarrow> x < y \<or> x = y \<and> f < g"
    using quotient_order[OF r(3,4,7,8), of "x - 62135596800" "y - 62135596800"] by (simp add: st stamp_def)
  have gt: "ts_micros t < ts_micros s \<longleftrightarrow> y < x \<or> y = x \<and> g < f"
    using quotient_order[OF r(7,8,3,4), of "y - 62135596800" "x - 62135596800"] by (simp add: st stamp_def)
  have eq: "ts_micros s = ts_micros t \<longleftrightarrow> x = y \<and> f = g" using lt gt by auto
  consider "ts_micros s < ts_micros t" | "ts_micros s = ts_micros t" | "ts_micros t < ts_micros s" by linarith
  then show ?thesis
  proof cases
    case 1
    then have "timestamp_text s < timestamp_text t"
      unfolding timestamp_text_def using stamp_less[OF r] lt st by simp
    with 1 show ?thesis by auto
  next
    case 2
    then show ?thesis using eq by (simp add: st)
  next
    case 3
    then have "timestamp_text t < timestamp_text s"
      unfolding timestamp_text_def using stamp_less[OF r(5,6,7,8,1,2,3,4)] gt st by simp
    with 3 show ?thesis by auto
  qed
qed

theorem timestamp_text_order_witness:
  "''0001-01-01T00:00:00.000000Z'' < ''2000-02-29T23:15:00.120000Z''"
  using timestamp_text_order[OF _ _ sample_stamps(2,1)] by (simp add: isize_max_def timestamp_text_def)

text \<open>
  Metering is transparent: with any callbacks the parser and \<open>from_micros\<close> return what they
  return without, or the error of a callback that refused.
\<close>

theorem timestamp_metering_transparent:
  assumes "length s \<le> isize_max" and "in_i64 n"
  shows "(fst (timestamp_parse_with_work ops s w) = timestamp_parse s
        \<or> (\<exists>e \<in> refusals ops. fst (timestamp_parse_with_work ops s w) = Inl e))
    \<and> (fst (from_micros_with_work ops n w) = from_micros n
        \<or> (\<exists>e \<in> refusals ops. fst (from_micros_with_work ops n w) = Inl e))"
proof -
  have "from_micros n = (if micros_in_range n then Inr (stamp_of n) else Inl timestamp_range)"
    using erases_noop[OF erases_from_micros[OF assms(2)]] by (simp add: from_micros_def)
  then show ?thesis
    using erases_parse[OF assms(1), of ops] erases_from_micros[OF assms(2), of ops] parse_read[OF assms(1)]
    unfolding erases_in_def by metis
qed

theorem timestamp_metering_transparent_witness:
  "fst (timestamp_parse_with_work noop_work ''0001-01-01T00:00:00Z'' ()) = timestamp_parse ''0001-01-01T00:00:00Z''"
  using timestamp_metering_transparent[of "''0001-01-01T00:00:00Z''" 0 noop_work "()"] by (simp add: int_ranges refusals_noop)


end
