(* ===== verification/Identifiers.thy ===== *)
theory Identifiers
  imports Work Text Money_Laws
begin

text \<open>
  Identifiers (\<^verbatim>\<open>domain/mod.rs\<close>, and \<open>validate_source\<close> of \<^verbatim>\<open>domain/event.rs\<close>): the checks of texts, slugs, prefixed
  hashes and source URIs, the tenant and environment scope with its metered constructor, and the
  revision counter, whose wire form is a canonical numeral.
\<close>

section \<open>Checks\<close>

definition invalid_text :: error where
  "invalid_text = Error ''IDENTIFIER'' ''invalid UTF-8 byte length or control character''"

definition text_ok :: "string \<Rightarrow> nat \<Rightarrow> bool" where
  "text_ok s m \<longleftrightarrow> s \<noteq> [] \<and> length s \<le> m \<and> \<not> list_ex is_control (chars s)"

definition check_text :: "string \<Rightarrow> nat \<Rightarrow> unit result" where
  "check_text s m = ensure (text_ok s m) invalid_text"

definition is_lower_ascii :: "char \<Rightarrow> bool" where
  "is_lower_ascii c \<longleftrightarrow> 97 \<le> byte c \<and> byte c \<le> 122"

definition slug_char :: "char \<Rightarrow> bool" where
  "slug_char c \<longleftrightarrow> is_lower_ascii c \<or> is_digit c \<or> c \<in> set ''_.-''"

definition slug_ok :: "string \<Rightarrow> bool" where
  "slug_ok s \<longleftrightarrow> s \<noteq> [] \<and> length s \<le> 64 \<and> is_lower_ascii (hd s) \<and> list_all slug_char s"

definition slug :: "string \<Rightarrow> unit result" where
  "slug s = ensure (slug_ok s) (Error ''IDENTIFIER'' ''invalid slug'')"

definition strip_prefix :: "string \<Rightarrow> string \<Rightarrow> string option" where
  "strip_prefix p s = (if take (length p) s = p then Some (drop (length p) s) else None)"

definition hash_char :: "char \<Rightarrow> bool" where
  "hash_char c \<longleftrightarrow> is_digit c \<or> 97 \<le> byte c \<and> byte c \<le> 102"

definition prefixed :: "string \<Rightarrow> string \<Rightarrow> unit result" where
  "prefixed s p =
     rbind (ok_or (strip_prefix p s) (Error ''IDENTIFIER'' ''wrong internal ID prefix'')) (\<lambda>v.
     ensure (length v = 64 \<and> list_all hash_char v) (Error ''IDENTIFIER'' ''expected lowercase SHA-256''))"

definition is_alpha_ascii :: "char \<Rightarrow> bool" where
  "is_alpha_ascii c \<longleftrightarrow> is_lower_ascii c \<or> 65 \<le> byte c \<and> byte c \<le> 90"

definition validate_source :: "string \<Rightarrow> unit result" where
  "validate_source s =
     rbind (check_text s 256) (\<lambda>_.
     if CHR '':'' \<notin> set s then Inl (Error ''SOURCE'' ''absolute source URI required'')
     else
       let scheme = takeWhile (\<lambda>c. c \<noteq> CHR '':'') s in
       ensure (scheme \<noteq> [] \<and> is_alpha_ascii (hd scheme)
         \<and> list_all (\<lambda>c. is_alpha_ascii c \<or> is_digit c \<or> c \<in> set ''+.-'') scheme
         \<and> \<not> list_ex is_white (chars s)) (Error ''SOURCE'' ''source URI''))"

section \<open>Scopes\<close>

record scope =
  tenant_id :: string
  environment_id :: string

definition scope_new :: "string \<Rightarrow> string \<Rightarrow> scope result" where
  "scope_new t e =
     rbind (check_text t 128) (\<lambda>_. rbind (check_text e 128) (\<lambda>_.
     Inr \<lparr>tenant_id = t, environment_id = e\<rparr>))"

definition scope_check :: "'w validation_work \<Rightarrow> string \<Rightarrow> ('w, unit) metered" where
  "scope_check ops v =
     mthen (visit ops VConstraint)
    (mthen (arithmetic ops OpCompare [int (length v), 128])
      (if v = [] \<or> length v > 128 then merr invalid_text
       else mthen (scan_bytes ops (length v))
         (mfold (\<lambda>u _. mthen (visit ops VConstraint)
            (if is_control u then merr invalid_text else mok ())) (chars v) ())))"

definition scope_new_with_work :: "'w validation_work \<Rightarrow> string \<Rightarrow> string \<Rightarrow> ('w, scope) metered" where
  "scope_new_with_work ops t e =
     mbind (mfold (\<lambda>v _. scope_check ops v) [t, e] ()) (\<lambda>_.
     mbind (mfold (\<lambda>v _. mthen (scan_bytes ops (length v)) (write_bytes ops (length v))) [t, e] ()) (\<lambda>_.
     mok \<lparr>tenant_id = t, environment_id = e\<rparr>))"

section \<open>Revisions\<close>

typedef revision = "{n :: nat. int n \<le> i64_max}"
  by (rule exI[of _ 0]) (simp add: i64_max_def)

setup_lifting type_definition_revision

lift_definition revision_value :: "revision \<Rightarrow> nat" is "\<lambda>n. n" .

definition revision_exhausted :: "string \<Rightarrow> error" where
  "revision_exhausted d = Error ''REVISION_EXHAUSTED'' d"

lift_definition revision_make :: "nat \<Rightarrow> revision" is "\<lambda>n. if int n \<le> i64_max then n else 0"
  by (simp add: i64_max_def)

definition revision_new :: "nat \<Rightarrow> revision result" where
  "revision_new n =
     (if int n > i64_max then Inl (revision_exhausted ''counter bound'') else Inr (revision_make n))"

definition revision_parse :: "string \<Rightarrow> revision result" where
  "revision_parse s =
     (if s = [] \<or> \<not> list_all is_digit s \<or> (length s > 1 \<and> starts_zero s)
      then Inl (Error ''INPUT_PRECISION'' ''counter string'')
      else rbind (ok_or (checked_u64 (digits_val s)) (revision_exhausted ''counter'')) revision_new)"

definition revision_next :: "revision \<Rightarrow> revision result" where
  "revision_next r = rbind (trap_u64 (revision_value r + 1)) revision_new"

definition revision_text :: "revision \<Rightarrow> string" where
  "revision_text r = nat_str (revision_value r)"

instantiation revision :: linorder
begin

definition less_eq_revision :: "revision \<Rightarrow> revision \<Rightarrow> bool" where
  "less_eq_revision a b \<longleftrightarrow> revision_value a \<le> revision_value b"

definition less_revision :: "revision \<Rightarrow> revision \<Rightarrow> bool" where
  "less_revision a b \<longleftrightarrow> revision_value a < revision_value b"

instance
proof
  fix a b :: revision
  show "a \<le> b \<Longrightarrow> b \<le> a \<Longrightarrow> a = b"
    unfolding less_eq_revision_def by transfer simp
qed (auto simp: less_eq_revision_def less_revision_def)

end

section \<open>Laws\<close>

lemma text_ok_ascii:
  assumes "s \<noteq> []" "length s \<le> m" "list_all (\<lambda>c. 32 \<le> byte c \<and> byte c < 127) s"
  shows "text_ok s m"
proof -
  have "ascii s" using assms(3) by (auto simp: ascii_def list_all_iff)
  moreover have "\<not> is_control [c]" if "c \<in> set s" for c
    using assms(3) that by (auto simp: is_control_def scalar_def list_all_iff)
  ultimately show ?thesis using assms(1,2) by (auto simp: text_ok_def chars_ascii list_ex_iff)
qed

lemma source_ok_ascii:
  assumes "length s \<le> 256" "list_all (\<lambda>c. 33 \<le> byte c \<and> byte c < 127) s"
    and "CHR '':'' \<in> set s" "takeWhile (\<lambda>c. c \<noteq> CHR '':'') s = p" "p \<noteq> []" "is_alpha_ascii (hd p)"
    and "list_all (\<lambda>c. is_alpha_ascii c \<or> is_digit c \<or> c \<in> set ''+.-'') p"
  shows "validate_source s = Inr ()"
proof -
  have "s \<noteq> []" using assms(3) by auto
  then have "text_ok s 256" using assms(1,2) by (intro text_ok_ascii) (auto simp: list_all_iff)
  moreover have a: "ascii s" using assms(2) by (auto simp: ascii_def list_all_iff)
  have "\<not> is_white [c]" if "c \<in> set s" for c
    using assms(2) that by (auto simp: is_white_def scalar_def list_all_iff)
  then have "\<not> list_ex is_white (chars s)" using a by (auto simp: chars_ascii list_ex_iff)
  ultimately show ?thesis
    using assms(3,5-7) by (simp add: validate_source_def check_text_def assms(4))
qed

lemma revision_bound: "int (revision_value r) \<le> i64_max"
  by transfer simp

lemma revision_value_make [simp]: "int n \<le> i64_max \<Longrightarrow> revision_value (revision_make n) = n"
  by transfer simp

lemma revision_make_value [simp]: "revision_make (revision_value r) = r"
  by transfer simp

lemma revision_new_Inr: "revision_new n = Inr r \<longleftrightarrow> int n \<le> i64_max \<and> revision_value r = n"
  by (auto simp: revision_new_def)

lemma revision_next_cases:
  "revision_next r = (if int (revision_value r) = i64_max then Inl (revision_exhausted ''counter bound'')
     else Inr (revision_make (revision_value r + 1)))"
  using revision_bound[of r] by (auto simp: revision_next_def trap_u64_def revision_new_def int_ranges)

lemma erases_scope_check:
  "erases ops (scope_check ops v) (check_text v 128)"
proof (cases "v = [] \<or> length v > 128")
  case True
  then show ?thesis
    by (auto simp: scope_check_def check_text_def text_ok_def ensure_def intro!: erases_then erases_visit erases_arithmetic erases_err)
next
  case False
  have "erases ops (mfold (\<lambda>u _. mthen (visit ops VConstraint) (if is_control u then merr invalid_text else mok ())) us ())
      (rfold (\<lambda>u _. if is_control u then Inl invalid_text else Inr ()) us ())" for us
    by (rule erases_mfold) (auto intro!: erases_then erases_visit erases_err erases_ok)
  moreover have "rfold (\<lambda>u _. if is_control u then Inl invalid_text else Inr ()) us ()
      = ensure (\<not> list_ex is_control us) invalid_text" for us
    by (induction us) auto
  ultimately have loop: "erases ops (mfold (\<lambda>u _. mthen (visit ops VConstraint) (if is_control u then merr invalid_text else mok ())) us ())
      (ensure (\<not> list_ex is_control us) invalid_text)" for us by metis
  show ?thesis
    using False loop[of "chars v"]
    by (auto simp: scope_check_def check_text_def text_ok_def intro!: erases_then erases_visit erases_arithmetic erases_scan)
qed

lemma erases_scope_new: "erases ops (scope_new_with_work ops t e) (scope_new t e)"
proof -
  have "erases ops (mfold (\<lambda>v _. scope_check ops v) [t, e] ()) (rfold (\<lambda>v _. check_text v 128) [t, e] ())"
    by (rule erases_mfold) (rule erases_scope_check)
  then have "erases ops (scope_new_with_work ops t e)
      (rbind (rfold (\<lambda>v _. check_text v 128) [t, e] ()) (\<lambda>_. Inr \<lparr>tenant_id = t, environment_id = e\<rparr>))"
    unfolding scope_new_with_work_def
    by (rule erases_bind) (auto intro!: erases_bind_ok[where x = "()"] erases_then erases_scan erases_write erases_ok)
  moreover have "rbind (rfold (\<lambda>v _. check_text v 128) [t, e] ()) (\<lambda>_. Inr \<lparr>tenant_id = t, environment_id = e\<rparr>) = scope_new t e"
    by (cases "check_text t 128"; cases "check_text e 128"; simp add: scope_new_def)
  ultimately show ?thesis by simp
qed

section \<open>Properties\<close>

text \<open>
  Revisions round-trip and never wrap: a text is read as a revision exactly when it is the
  canonical numeral of a number up to the maximum of \<open>i64\<close>, printing gives that text back, and
  \<open>next\<close> is the successor, refused (not wrapped, no panic) at the maximum only.
\<close>

theorem revision_round_trip:
  "(revision_parse s = Inr r \<longleftrightarrow> s = revision_text r)
   \<and> (\<forall>t. revision_next r = Inr t \<longleftrightarrow> revision_value t = revision_value r + 1)
   \<and> (\<forall>t. revision_next r = Inr t \<longrightarrow> r < t)
   \<and> (revision_next r = Inl (revision_exhausted ''counter bound'') \<longleftrightarrow> int (revision_value r) = i64_max)"
proof (intro conjI allI)
  show "revision_parse s = Inr r \<longleftrightarrow> s = revision_text r"
  proof
    assume p: "revision_parse s = Inr r"
    then have s: "s \<noteq> []" "list_all is_digit s" "\<not> (length s > 1 \<and> starts_zero s)"
      and v: "revision_value r = digits_val s"
      by (auto simp: revision_parse_def revision_new_Inr split: if_splits)
    have "length s > 1 \<Longrightarrow> hd s \<noteq> CHR ''0''" using s by (cases s) (auto simp: starts_zero_def)
    then show "s = revision_text r" using nat_str_digits_val[of s] s v by (simp add: revision_text_def)
  next
    assume s: "s = revision_text r"
    have "revision_value r \<le> u64_max" using revision_bound[of r] by (simp add: int_ranges)
    moreover have "length (nat_str (revision_value r)) > 1 \<Longrightarrow> \<not> starts_zero (nat_str (revision_value r))"
      using nat_str_starts_zero[of "revision_value r"] by auto
    ultimately show "revision_parse s = Inr r"
      using nat_str_digits nat_str_val[of "revision_value r"] revision_bound[of r]
      by (auto simp: revision_parse_def s revision_text_def checked_u64_def revision_new_def)
  qed
  show next_iff: "revision_next r = Inr t \<longleftrightarrow> revision_value t = revision_value r + 1" for t
  proof
    assume "revision_value t = revision_value r + 1"
    then have "revision_make (revision_value r + 1) = t" using revision_make_value[of t] by simp
    then show "revision_next r = Inr t"
      using revision_bound[of t] \<open>revision_value t = revision_value r + 1\<close> by (auto simp: revision_next_cases)
  qed (use revision_bound[of r] in \<open>auto simp: revision_next_cases split: if_splits\<close>)
  show "revision_next r = Inr t \<longrightarrow> r < t" for t
    using next_iff[of t] by (simp add: less_revision_def)
  show "revision_next r = Inl (revision_exhausted ''counter bound'') \<longleftrightarrow> int (revision_value r) = i64_max"
    by (simp add: revision_next_cases)
qed

theorem revision_round_trip_witness:
  "revision_next (revision_make 41) = Inr (revision_make 42)"
  using revision_round_trip[of "''41''" "revision_make 41"] by (simp add: int_ranges)

text \<open>
  The metered constructor of a scope is the plain one: with any callbacks it returns the same
  scope or the same error, or the error of a callback that refused; and a scope it returns has
  both texts nonempty, at most 128 bytes long and free of control characters.
\<close>

theorem scope_constructors_agree:
  "(fst (scope_new_with_work ops t e w) = scope_new t e
     \<or> (\<exists>err \<in> refusals ops. fst (scope_new_with_work ops t e w) = Inl err))
   \<and> (\<forall>s. scope_new t e = Inr s \<longleftrightarrow> text_ok t 128 \<and> text_ok e 128 \<and> s = \<lparr>tenant_id = t, environment_id = e\<rparr>)"
  using erases_scope_new[of ops t e]
  by (auto simp: erases_in_def scope_new_def check_text_def rbind_Inr_iff)

end
