(* ===== verification/Json_Values.thy ===== *)
theory Json_Values
  imports Canonical
begin

text \<open>
  JSON values as the crates build and read them: the \<open>json!\<close> objects, indexing, and what
  \<open>serde_json::from_value\<close> makes of a value for the types the derived decoders are used at. A
  struct is read from an object, or from an array with its fields in order; an unknown field is
  an error where the type says \<open>deny_unknown_fields\<close>.
\<close>

section \<open>Building and indexing\<close>

definition jobj :: "(string \<times> json) list \<Rightarrow> json" where
  "jobj kvs = JObject (fold (\<lambda>(k, v). om_insert k v) kvs [])"

fun jlookup :: "json \<Rightarrow> string \<Rightarrow> json option" where
  "jlookup (JObject m) k = map_of m k"
| "jlookup _ k = None"

text \<open>Indexing a \<open>Value\<close> by a string gives null where there is no such member.\<close>

definition jget :: "json \<Rightarrow> string \<Rightarrow> json" where
  "jget v k = (case jlookup v k of Some x \<Rightarrow> x | None \<Rightarrow> JNull)"

definition jstr :: "int \<Rightarrow> json" where "jstr i = JString (int_str i)"

fun jopt :: "string option \<Rightarrow> json" where
  "jopt None = JNull"
| "jopt (Some s) = JString s"

section \<open>Decoding\<close>

text \<open>\<open>from_value::<Vec<String>>\<close>.\<close>

fun json_string :: "json \<Rightarrow> string option" where
  "json_string (JString s) = Some s"
| "json_string _ = None"

fun json_strings :: "json \<Rightarrow> string list option" where
  "json_strings (JArray vs) =
     (if list_all (\<lambda>v. json_string v \<noteq> None) vs then Some (map (the \<circ> json_string) vs) else None)"
| "json_strings _ = None"

fun json_bool :: "json \<Rightarrow> bool option" where
  "json_bool (JBool b) = Some b"
| "json_bool _ = None"

text \<open>An unsigned integer type with this maximum.\<close>

fun json_unsigned :: "nat \<Rightarrow> json \<Rightarrow> nat option" where
  "json_unsigned largest (JInt n) = (if 0 \<le> n \<and> n \<le> int largest then Some (nat n) else None)"
| "json_unsigned _ _ = None"

fun json_list :: "(json \<Rightarrow> 'a option) \<Rightarrow> json \<Rightarrow> 'a list option" where
  "json_list f (JArray vs) =
     (if list_all (\<lambda>v. f v \<noteq> None) vs then Some (map (the \<circ> f) vs) else None)"
| "json_list f _ = None"

text \<open>The fields of a struct with these names, in order: each present or absent.\<close>

fun struct_fields :: "string list \<Rightarrow> json \<Rightarrow> (string \<Rightarrow> json option) option" where
  "struct_fields names (JObject m) =
     (if list_all (\<lambda>(k, _). k \<in> set names) m then Some (map_of m) else None)"
| "struct_fields names (JArray vs) =
     (if length vs \<le> length names then Some (map_of (zip names vs)) else None)"
| "struct_fields names _ = None"

text \<open>A required field, and one with \<open>#[serde(default)]\<close> of an \<open>Option\<close> type.\<close>

definition field :: "(json \<Rightarrow> 'a option) \<Rightarrow> json option \<Rightarrow> 'a option" where
  "field f v = (case v of None \<Rightarrow> None | Some x \<Rightarrow> f x)"

definition optional_field :: "(json \<Rightarrow> 'a option) \<Rightarrow> json option \<Rightarrow> 'a option option" where
  "optional_field f v =
     (case v of None \<Rightarrow> Some None | Some JNull \<Rightarrow> Some None
      | Some x \<Rightarrow> (case f x of None \<Rightarrow> None | Some y \<Rightarrow> Some (Some y)))"

definition obind :: "'a option \<Rightarrow> ('a \<Rightarrow> 'b option) \<Rightarrow> 'b option" where
  "obind m f = (case m of None \<Rightarrow> None | Some x \<Rightarrow> f x)"

lemma obind_simps [simp]: "obind None f = None" "obind (Some x) f = f x"
  by (simp_all add: obind_def)

lemma obind_Some_iff: "obind m f = Some y \<longleftrightarrow> (\<exists>x. m = Some x \<and> f x = Some y)"
  by (cases m) simp_all

text \<open>\<open>canonical::dto\<close>; the text of a decoding error is \<open>serde_json\<close>'s.\<close>

definition dto :: "(json \<Rightarrow> string) \<Rightarrow> (json \<Rightarrow> 'a option) \<Rightarrow> json \<Rightarrow> 'a result" where
  "dto explain decode v =
     rbind (no_null v) (\<lambda>_. ok_or (decode v) (Error ''SCHEMA'' (explain v)))"

lemma dto_Inr: "dto explain decode v = Inr x \<longleftrightarrow> no_null v = Inr () \<and> decode v = Some x"
  by (auto simp: dto_def)

end
