(* ===== verification/Wire.thy ===== *)
theory Wire
  imports Json_Values Money Timestamp
begin

text \<open>
  The event DTO of \<^verbatim>\<open>wire/mod.rs\<close>: its types, the names they have on the wire, and the derived
  decoder and encoder. Fields that are \<open>None\<close> are not written; \<open>extensions\<close> always is.
\<close>

section \<open>Types\<close>

datatype event_kind = Generated | Optimized | Published | ToolCompleted | Acquired | LinkAsserted | EconomicReversal

datatype completion = Succeeded | Failed

datatype relation = GeneratedFrom | OptimizedFrom | PublishedAs | AttributedTo | ConsumesService

definition is_work :: "event_kind \<Rightarrow> bool" where
  "is_work k \<longleftrightarrow> k \<in> {Generated, Optimized, Published, ToolCompleted}"

fun kind_name :: "event_kind \<Rightarrow> string" where
  "kind_name Generated = ''content.generated''"
| "kind_name Optimized = ''tool.optimized''"
| "kind_name Published = ''content.published''"
| "kind_name ToolCompleted = ''tool.completed''"
| "kind_name Acquired = ''outcome.acquired''"
| "kind_name LinkAsserted = ''link.asserted''"
| "kind_name EconomicReversal = ''economic.reversal''"

fun completion_name :: "completion \<Rightarrow> string" where
  "completion_name Succeeded = ''succeeded''"
| "completion_name Failed = ''failed''"

fun relation_name :: "relation \<Rightarrow> string" where
  "relation_name GeneratedFrom = ''generated_from''"
| "relation_name OptimizedFrom = ''optimized_from''"
| "relation_name PublishedAs = ''published_as''"
| "relation_name AttributedTo = ''attributed_to''"
| "relation_name ConsumesService = ''consumes_service''"

record event_ref =
  ref_source :: string
  ref_id :: string

record typed_link =
  link_schema :: string
  link_relation :: relation
  link_from :: event_ref

record event_dto =
  ev_schema :: string
  ev_id :: string
  ev_kind :: event_kind
  ev_customer :: string
  ev_source :: "string option"
  ev_operation_id :: "string option"
  ev_chain :: "string option"
  ev_occurred_at :: "timestamp option"
  ev_status :: "completion option"
  ev_quantity :: "decimal option"
  ev_unit :: "string option"
  ev_binding_id :: "string option"
  ev_invocation_id :: "string option"
  ev_claim_id :: "string option"
  ev_links :: "typed_link list option"
  ev_evidence :: "string list option"
  ev_child :: "event_ref option"
  ev_targets :: "string list option"
  ev_reason :: "string option"
  ev_corrects :: "string option"
  ev_extensions :: "(string, json) omap"

section \<open>Decoding\<close>

text \<open>A unit enum is its name.\<close>

definition by_name :: "('a \<Rightarrow> string) \<Rightarrow> 'a list \<Rightarrow> json \<Rightarrow> 'a option" where
  "by_name name xs v = obind (json_string v) (\<lambda>s. List.find (\<lambda>x. name x = s) xs)"

definition kinds :: "event_kind list" where
  "kinds = [Generated, Optimized, Published, ToolCompleted, Acquired, LinkAsserted, EconomicReversal]"

definition json_kind :: "json \<Rightarrow> event_kind option" where
  "json_kind = by_name kind_name kinds"

definition json_completion :: "json \<Rightarrow> completion option" where
  "json_completion = by_name completion_name [Succeeded, Failed]"

definition relations :: "relation list" where
  "relations = [GeneratedFrom, OptimizedFrom, PublishedAs, AttributedTo, ConsumesService]"

definition json_relation :: "json \<Rightarrow> relation option" where
  "json_relation = by_name relation_name relations"

definition of_result :: "'a result \<Rightarrow> 'a option" where
  "of_result r = (case r of Inl _ \<Rightarrow> None | Inr x \<Rightarrow> Some x)"

definition json_decimal :: "json \<Rightarrow> decimal option" where
  "json_decimal v = obind (json_string v) (\<lambda>s. of_result (decimal_parse s))"

definition json_timestamp :: "json \<Rightarrow> timestamp option" where
  "json_timestamp v = obind (json_string v) (\<lambda>s. of_result (timestamp_parse s))"

fun json_object :: "json \<Rightarrow> (string, json) omap option" where
  "json_object (JObject m) = Some m"
| "json_object _ = None"

definition ref_decode :: "json \<Rightarrow> event_ref option" where
  "ref_decode v =
     obind (struct_fields [''source'', ''id''] v) (\<lambda>f.
     obind (field json_string (f ''source'')) (\<lambda>s.
     obind (field json_string (f ''id'')) (\<lambda>i.
     Some \<lparr>ref_source = s, ref_id = i\<rparr>)))"

definition link_decode :: "json \<Rightarrow> typed_link option" where
  "link_decode v =
     obind (struct_fields [''schema'', ''relation'', ''from''] v) (\<lambda>f.
     obind (case f ''schema'' of None \<Rightarrow> Some ''ledger-link/1'' | Some s \<Rightarrow> json_string s) (\<lambda>s.
     obind (field json_relation (f ''relation'')) (\<lambda>r.
     obind (field ref_decode (f ''from'')) (\<lambda>e.
     Some \<lparr>link_schema = s, link_relation = r, link_from = e\<rparr>))))"

definition event_fields :: "string list" where
  "event_fields = [''schema'', ''id'', ''type'', ''customer'', ''source'', ''operation_id'', ''chain'',
     ''occurred_at'', ''status'', ''quantity'', ''unit'', ''binding_id'', ''invocation_id'', ''claim_id'',
     ''links'', ''evidence'', ''child'', ''targets'', ''reason'', ''corrects'', ''extensions'']"

definition event_decode :: "json \<Rightarrow> event_dto option" where
  "event_decode v =
     obind (struct_fields event_fields v) (\<lambda>f.
     obind (field json_string (f ''schema'')) (\<lambda>schema.
     obind (field json_string (f ''id'')) (\<lambda>ident.
     obind (field json_kind (f ''type'')) (\<lambda>kind.
     obind (field json_string (f ''customer'')) (\<lambda>customer.
     obind (optional_field json_string (f ''source'')) (\<lambda>source.
     obind (optional_field json_string (f ''operation_id'')) (\<lambda>operation.
     obind (optional_field json_string (f ''chain'')) (\<lambda>chain.
     obind (optional_field json_timestamp (f ''occurred_at'')) (\<lambda>occurred.
     obind (optional_field json_completion (f ''status'')) (\<lambda>status.
     obind (optional_field json_decimal (f ''quantity'')) (\<lambda>quantity.
     obind (optional_field json_string (f ''unit'')) (\<lambda>unit_name.
     obind (optional_field json_string (f ''binding_id'')) (\<lambda>binding.
     obind (optional_field json_string (f ''invocation_id'')) (\<lambda>invocation.
     obind (optional_field json_string (f ''claim_id'')) (\<lambda>claim_id.
     obind (optional_field (json_list link_decode) (f ''links'')) (\<lambda>links.
     obind (optional_field json_strings (f ''evidence'')) (\<lambda>evidence.
     obind (optional_field ref_decode (f ''child'')) (\<lambda>child.
     obind (optional_field json_strings (f ''targets'')) (\<lambda>targets.
     obind (optional_field json_string (f ''reason'')) (\<lambda>reason.
     obind (optional_field json_string (f ''corrects'')) (\<lambda>corrects.
     obind (case f ''extensions'' of None \<Rightarrow> Some [] | Some x \<Rightarrow> json_object x) (\<lambda>extensions.
     Some \<lparr>ev_schema = schema, ev_id = ident, ev_kind = kind, ev_customer = customer, ev_source = source,
        ev_operation_id = operation, ev_chain = chain, ev_occurred_at = occurred, ev_status = status,
        ev_quantity = quantity, ev_unit = unit_name, ev_binding_id = binding, ev_invocation_id = invocation,
        ev_claim_id = claim_id, ev_links = links, ev_evidence = evidence, ev_child = child,
        ev_targets = targets, ev_reason = reason, ev_corrects = corrects, ev_extensions = extensions\<rparr>))))))))))))))))))))))"

section \<open>Encoding\<close>

definition member :: "string \<Rightarrow> ('a \<Rightarrow> json) \<Rightarrow> 'a option \<Rightarrow> (string \<times> json) list" where
  "member k enc v = (case v of None \<Rightarrow> [] | Some x \<Rightarrow> [(k, enc x)])"

definition ref_json :: "event_ref \<Rightarrow> json" where
  "ref_json r = jobj [(''source'', JString (ref_source r)), (''id'', JString (ref_id r))]"

definition link_json :: "typed_link \<Rightarrow> json" where
  "link_json l = jobj [(''schema'', JString (link_schema l)), (''relation'', JString (relation_name (link_relation l))),
     (''from'', ref_json (link_from l))]"

definition strings_json :: "string list \<Rightarrow> json" where
  "strings_json ss = JArray (map JString ss)"

definition event_json :: "event_dto \<Rightarrow> json" where
  "event_json e = jobj (
     [(''schema'', JString (ev_schema e)), (''id'', JString (ev_id e)), (''type'', JString (kind_name (ev_kind e))),
      (''customer'', JString (ev_customer e))]
     @ member ''source'' JString (ev_source e)
     @ member ''operation_id'' JString (ev_operation_id e)
     @ member ''chain'' JString (ev_chain e)
     @ member ''occurred_at'' (\<lambda>t. JString (timestamp_text t)) (ev_occurred_at e)
     @ member ''status'' (\<lambda>c. JString (completion_name c)) (ev_status e)
     @ member ''quantity'' (\<lambda>d. JString (decimal_display d)) (ev_quantity e)
     @ member ''unit'' JString (ev_unit e)
     @ member ''binding_id'' JString (ev_binding_id e)
     @ member ''invocation_id'' JString (ev_invocation_id e)
     @ member ''claim_id'' JString (ev_claim_id e)
     @ member ''links'' (\<lambda>ls. JArray (map link_json ls)) (ev_links e)
     @ member ''evidence'' strings_json (ev_evidence e)
     @ member ''child'' ref_json (ev_child e)
     @ member ''targets'' strings_json (ev_targets e)
     @ member ''reason'' JString (ev_reason e)
     @ member ''corrects'' JString (ev_corrects e)
     @ [(''extensions'', JObject (ev_extensions e))])"

section \<open>Names\<close>

lemma by_name_total:
  assumes "x \<in> set xs" and "inj_on name (set xs)"
  shows "by_name name xs (JString (name x)) = Some x"
proof -
  have "List.find (\<lambda>y. name y = name x) xs = Some x"
    using assms by (induction xs) (auto simp: inj_on_def)
  then show ?thesis by (simp add: by_name_def)
qed

lemma json_kind_name: "json_kind (JString (kind_name k)) = Some k"
  by (cases k) (simp_all add: json_kind_def by_name_def kinds_def)

lemma json_completion_name: "json_completion (JString (completion_name c)) = Some c"
  by (cases c) (simp_all add: json_completion_def by_name_def)

lemma json_relation_name: "json_relation (JString (relation_name r)) = Some r"
  by (cases r) (simp_all add: json_relation_def by_name_def relations_def)

end
