(* ===== verification/Policy.thy ===== *)
theory Policy
  imports Wire Identifiers
begin

text \<open>
  The pricing policy of the first slice (\<^verbatim>\<open>policy/mod.rs\<close>): compiling a policy document into rules,
  and evaluating the rules on an event. A base rule books a fixed amount; a discount rule takes a
  percentage of an earlier base, rounded to atoms, and all discounts of a base together may not
  exceed it.
\<close>

section \<open>Documents\<close>

datatype amount_dto = AmountFixed decimal | AmountPercent decimal string

record predicate_dto =
  pd_field :: string
  pd_eq :: string

record rule_dto =
  rd_id :: string
  rd_on :: event_kind
  rd_op :: string
  rd_component :: string
  rd_book :: string
  rd_amount :: amount_dto
  rd_when :: "predicate_dto list option"
  rd_discount_mode :: "string option"

record policy_dto =
  pol_schema :: string
  pol_id :: string
  pol_currency :: string
  pol_scale :: nat
  pol_rounding :: "string option"
  pol_rules :: "rule_dto list"

text \<open>
  An untagged enum tries its variants in order, on an object, ignoring other fields; a variant of
  an untagged enum is not read from an array.
\<close>

fun amount_decode :: "json \<Rightarrow> amount_dto option" where
  "amount_decode (JObject m) =
     (case field json_decimal (map_of m ''fixed'') of
        Some d \<Rightarrow> Some (AmountFixed d)
      | None \<Rightarrow>
          obind (field json_decimal (map_of m ''percent'')) (\<lambda>p.
          obind (field json_string (map_of m ''basis'')) (\<lambda>b.
          Some (AmountPercent p b))))"
| "amount_decode _ = None"

definition predicate_decode :: "json \<Rightarrow> predicate_dto option" where
  "predicate_decode v =
     obind (struct_fields [''field'', ''eq''] v) (\<lambda>f.
     obind (field json_string (f ''field'')) (\<lambda>n.
     obind (field json_string (f ''eq'')) (\<lambda>e.
     Some \<lparr>pd_field = n, pd_eq = e\<rparr>)))"

definition rule_decode :: "json \<Rightarrow> rule_dto option" where
  "rule_decode v =
     obind (struct_fields [''id'', ''on'', ''op'', ''component'', ''book'', ''amount'', ''when'', ''discount_mode''] v) (\<lambda>f.
     obind (field json_string (f ''id'')) (\<lambda>i.
     obind (field json_kind (f ''on'')) (\<lambda>on.
     obind (field json_string (f ''op'')) (\<lambda>op'.
     obind (field json_string (f ''component'')) (\<lambda>c.
     obind (field json_string (f ''book'')) (\<lambda>b.
     obind (field amount_decode (f ''amount'')) (\<lambda>a.
     obind (optional_field (json_list predicate_decode) (f ''when'')) (\<lambda>w.
     obind (optional_field json_string (f ''discount_mode'')) (\<lambda>m.
     Some \<lparr>rd_id = i, rd_on = on, rd_op = op', rd_component = c, rd_book = b, rd_amount = a,
           rd_when = w, rd_discount_mode = m\<rparr>)))))))))"

definition policy_decode :: "json \<Rightarrow> policy_dto option" where
  "policy_decode v =
     obind (struct_fields [''schema'', ''id'', ''currency'', ''scale'', ''rounding'', ''rules''] v) (\<lambda>f.
     obind (field json_string (f ''schema'')) (\<lambda>s.
     obind (field json_string (f ''id'')) (\<lambda>i.
     obind (field json_string (f ''currency'')) (\<lambda>c.
     obind (field (json_unsigned 255) (f ''scale'')) (\<lambda>n.
     obind (optional_field json_string (f ''rounding'')) (\<lambda>r.
     obind (field (json_list rule_decode) (f ''rules'')) (\<lambda>rs.
     Some \<lparr>pol_schema = s, pol_id = i, pol_currency = c, pol_scale = n, pol_rounding = r, pol_rules = rs\<rparr>)))))))"

fun amount_json :: "amount_dto \<Rightarrow> json" where
  "amount_json (AmountFixed d) = jobj [(''fixed'', JString (decimal_display d))]"
| "amount_json (AmountPercent p b) = jobj [(''percent'', JString (decimal_display p)), (''basis'', JString b)]"

definition predicate_json :: "predicate_dto \<Rightarrow> json" where
  "predicate_json p = jobj [(''field'', JString (pd_field p)), (''eq'', JString (pd_eq p))]"

definition rule_json :: "rule_dto \<Rightarrow> json" where
  "rule_json r = jobj (
     [(''id'', JString (rd_id r)), (''on'', JString (kind_name (rd_on r))), (''op'', JString (rd_op r)),
      (''component'', JString (rd_component r)), (''book'', JString (rd_book r)), (''amount'', amount_json (rd_amount r))]
     @ member ''when'' (\<lambda>ps. JArray (map predicate_json ps)) (rd_when r)
     @ member ''discount_mode'' JString (rd_discount_mode r))"

definition policy_json :: "policy_dto \<Rightarrow> json" where
  "policy_json p = jobj (
     [(''schema'', JString (pol_schema p)), (''id'', JString (pol_id p)), (''currency'', JString (pol_currency p)),
      (''scale'', JInt (int (pol_scale p)))]
     @ member ''rounding'' JString (pol_rounding p)
     @ [(''rules'', JArray (map rule_json (pol_rules p)))])"

section \<open>Compiled policies\<close>

datatype operation = Base decimal | Discount decimal nat string

datatype predicate = PTier string | PFunding string | PPriority bool | PSource string | PStatus completion

record rule =
  r_id :: string
  r_component :: string
  r_operation :: operation
  r_predicates :: "predicate list"

record compiled_policy =
  cp_body :: json
  cp_currency :: string
  cp_scale :: nat
  cp_rules :: "rule list"

definition predicate_compile :: "predicate_dto \<Rightarrow> predicate result" where
  "predicate_compile p =
     rbind (check_text (pd_eq p) 128) (\<lambda>_.
     if pd_field p = ''binding.tier'' then rbind (slug (pd_eq p)) (\<lambda>_. Inr (PTier (pd_eq p)))
     else if pd_field p = ''binding.funding'' then
       (if pd_eq p \<notin> {''byok'', ''platform''} then Inl (Error ''POLICY_UNKNOWN_FIELD'' ''funding predicate'')
        else Inr (PFunding (pd_eq p)))
     else if pd_field p = ''binding.priority'' then
       (if pd_eq p = ''true'' then Inr (PPriority True)
        else if pd_eq p = ''false'' then Inr (PPriority False)
        else Inl (Error ''POLICY_UNKNOWN_FIELD'' ''boolean predicate''))
     else if pd_field p = ''source'' then rbind (validate_source (pd_eq p)) (\<lambda>_. Inr (PSource (pd_eq p)))
     else if pd_field p = ''status'' then
       (if pd_eq p = ''succeeded'' then Inr (PStatus Succeeded)
        else Inl (Error ''POLICY_UNSUPPORTED_OP'' ''failed-work pricing''))
     else Inl (Error ''POLICY_UNKNOWN_FIELD'' ''predicate field''))"

fun is_base :: "operation \<Rightarrow> bool" where
  "is_base (Base _) = True"
| "is_base (Discount _ _ _) = False"

fun position :: "('a \<Rightarrow> bool) \<Rightarrow> 'a list \<Rightarrow> nat option" where
  "position P [] = None"
| "position P (x # xs) = (if P x then Some 0 else map_option Suc (position P xs))"

definition ends_with :: "string \<Rightarrow> string \<Rightarrow> bool" where
  "ends_with suffix s \<longleftrightarrow> length suffix \<le> length s \<and> drop (length s - length suffix) s = suffix"

definition missing_basis :: "string \<Rightarrow> error" where
  "missing_basis d = Error ''POLICY_MISSING_BASIS'' d"

text \<open>The operation of a rule; the flag says that a discount has been seen.\<close>

definition operation_compile :: "nat \<Rightarrow> rule list \<Rightarrow> bool \<Rightarrow> rule_dto \<Rightarrow> (bool \<times> operation) result" where
  "operation_compile scale rules discounts raw =
     (case (rd_op raw = ''base'', rd_op raw = ''discount'', rd_amount raw) of
        (True, _, AmountFixed fixed) \<Rightarrow>
          if rd_discount_mode raw \<noteq> None \<or> discounts
          then Inl (Error ''POLICY_CYCLE'' ''base must precede discounts'')
          else rbind (atoms_exact fixed scale) (\<lambda>_. Inr (discounts, Base fixed))
      | (_, True, AmountPercent pct basis) \<Rightarrow>
          rbind (percent pct) (\<lambda>_.
          if rd_discount_mode raw \<noteq> Some ''additive''
          then Inl (Error ''UNSUPPORTED_SLICE'' ''only additive discount in Phase 1'')
          else
            rbind (check_text basis 128) (\<lambda>_.
            rbind (ok_or (case strip_prefix ''self.'' basis of
                      Some c \<Rightarrow> if ends_with ''.base'' c then Some c else None | None \<Rightarrow> None)
                    (missing_basis ''typed self base required'')) (\<lambda>component.
            rbind (ok_or (position (\<lambda>r. r_component r = component \<and> is_base (r_operation r)) rules)
                    (missing_basis ''earlier base component required'')) (\<lambda>index.
            Inr (True, Discount pct index basis)))))
      | _ \<Rightarrow> Inl (Error ''POLICY_UNSUPPORTED_OP'' ''Phase 1 operator/amount''))"

record compile_state =
  cs_rules :: "rule list"
  cs_ids :: "string set"
  cs_components :: "string set"
  cs_discounts :: bool
  cs_nodes :: nat

definition rule_compile :: "nat \<Rightarrow> rule_dto \<Rightarrow> compile_state \<Rightarrow> compile_state result" where
  "rule_compile scale raw st =
     rbind (slug (rd_id raw)) (\<lambda>_.
     rbind (slug (rd_component raw)) (\<lambda>_.
     if rd_id raw \<in> cs_ids st \<or> rd_component raw \<in> cs_components st
     then Inl (Error ''POLICY_AMBIGUOUS_MATCH'' ''duplicate rule/component'')
     else if rd_on raw \<noteq> Generated \<or> rd_book raw \<noteq> ''retail''
     then Inl (Error ''UNSUPPORTED_SLICE'' ''Phase 1 generated retail policy'')
     else
       let predicates = (case rd_when raw of None \<Rightarrow> [] | Some ps \<Rightarrow> ps) in
       if length predicates > 8 then Inl (Error ''POLICY_LIMIT'' ''predicates'')
       else
         rbind (rmap predicate_compile predicates) (\<lambda>compiled.
         rbind (operation_compile scale (cs_rules st) (cs_discounts st) raw) (\<lambda>(discounts, operation).
         Inr \<lparr>cs_rules = cs_rules st @ [\<lparr>r_id = rd_id raw, r_component = rd_component raw,
                 r_operation = operation, r_predicates = compiled\<rparr>],
              cs_ids = insert (rd_id raw) (cs_ids st), cs_components = insert (rd_component raw) (cs_components st),
              cs_discounts = discounts, cs_nodes = cs_nodes st + 2 + length predicates\<rparr>))))"

text \<open>The keys of every amount object are checked before the document is decoded.\<close>

definition legal_amount :: "json \<Rightarrow> bool" where
  "legal_amount rule =
     (case jlookup rule ''amount'' of
        Some (JObject m) \<Rightarrow>
          length m = 1 \<and> map_of m ''fixed'' \<noteq> None
          \<or> length m = 2 \<and> map_of m ''percent'' \<noteq> None \<and> map_of m ''basis'' \<noteq> None
      | _ \<Rightarrow> True)"

definition legal_amounts :: "json \<Rightarrow> bool" where
  "legal_amounts v = (case jlookup v ''rules'' of Some (JArray rules) \<Rightarrow> list_all legal_amount rules | _ \<Rightarrow> True)"

definition policy_compile :: "policy_dto \<Rightarrow> compiled_policy result" where
  "policy_compile d =
     (if pol_schema d \<noteq> ''ledger-policy/1'' \<or> pol_rounding d \<notin> {None, Some ''nearest_ties_away''}
      then Inl (Error ''SCHEMA'' ''policy version/rounding'')
      else
        rbind (slug (pol_id d)) (\<lambda>_.
        rbind (validate_currency (pol_currency d) (pol_scale d)) (\<lambda>_.
        if pol_rules d = [] \<or> length (pol_rules d) > 64 then Inl (Error ''POLICY_LIMIT'' ''rules'')
        else
          rbind (rfold (rule_compile (pol_scale d)) (pol_rules d)
            \<lparr>cs_rules = [], cs_ids = {}, cs_components = {}, cs_discounts = False, cs_nodes = 1\<rparr>) (\<lambda>st.
          if cs_nodes st > 256 then Inl (Error ''POLICY_LIMIT'' ''AST nodes'')
          else Inr \<lparr>cp_body = policy_json d, cp_currency = pol_currency d, cp_scale = pol_scale d,
                    cp_rules = cs_rules st\<rparr>))))"

definition policy_from_value :: "(json \<Rightarrow> string) \<Rightarrow> json \<Rightarrow> compiled_policy result" where
  "policy_from_value explain v =
     (if \<not> legal_amounts v then Inl (Error ''POLICY_UNSUPPORTED_OP'' ''amount form'')
      else rbind (dto explain policy_decode v) policy_compile)"

section \<open>Evaluation\<close>

datatype predicate_value = PVText string | PVBoolean bool | PVSource string

record step =
  st_rule :: "nat option"
  st_code :: string
  st_unrounded :: "ratio option"
  st_rounded :: "int option"
  st_basis :: "(nat \<times> ratio) option"
  st_inputs :: "(string \<times> predicate_value) list"

text \<open>What the rules may look at: the event's source and status, the context's tier, funding and priority.\<close>

record view =
  v_source :: string
  v_status :: "completion option"
  v_tier :: "string option"
  v_funding :: string
  v_priority :: "bool option"

fun predicate_eval :: "view \<Rightarrow> predicate \<Rightarrow> string \<times> predicate_value option \<times> bool" where
  "predicate_eval v (PTier want) = (''binding.tier'', map_option PVText (v_tier v), v_tier v = Some want)"
| "predicate_eval v (PFunding want) = (''binding.funding'', Some (PVText (v_funding v)), v_funding v = want)"
| "predicate_eval v (PPriority want) = (''binding.priority'', map_option PVBoolean (v_priority v), v_priority v = Some want)"
| "predicate_eval v (PSource want) = (''source'', Some (PVSource (v_source v)), v_source v = want)"
| "predicate_eval v (PStatus want) = (''status'', Some (PVText ''succeeded''), v_status v = Some want)"

definition predicate_step ::
    "view \<Rightarrow> predicate \<Rightarrow> bool \<times> (string \<times> predicate_value) list \<Rightarrow> bool \<times> (string \<times> predicate_value) list" where
  "predicate_step v p acc =
     (case predicate_eval v p of (name, value, yes) \<Rightarrow>
       (fst acc \<and> yes, snd acc @ (case value of None \<Rightarrow> [] | Some x \<Rightarrow> [(name, x)])))"

definition predicates_eval :: "view \<Rightarrow> predicate list \<Rightarrow> bool \<times> (string \<times> predicate_value) list" where
  "predicates_eval v ps = fold (predicate_step v) ps (True, [])"

record eval_state =
  es_steps :: "step list"
  es_booked :: "int list"
  es_discounted :: "int list"

text \<open>The amount of a rule before rounding, and the basis a discount was taken of.\<close>

fun amount_of :: "nat \<Rightarrow> eval_state \<Rightarrow> operation \<Rightarrow> (string \<times> ratio \<times> (nat \<times> ratio) option) result" where
  "amount_of scale st (Base fixed) =
     rbind (atoms_ratio fixed scale) (\<lambda>r. Inr (''BASE_APPLIED'', r, None))"
| "amount_of scale st (Discount pct basis _) =
     (if basis \<ge> length (es_booked st) then Inl Panic
      else let amount = es_booked st ! basis in
        if amount < 0 then Inl (Error ''NEGATIVE_BASIS'' ''discount'')
        else
          rbind (percent pct) (\<lambda>p.
          rbind (ratio_mul (ratio_integer amount) p) (\<lambda>m.
          Inr (''DISCOUNT_APPLIED'', negated m, Some (basis, ratio_integer amount)))))"

definition discount_check :: "eval_state \<Rightarrow> (nat \<times> ratio) option \<Rightarrow> int \<Rightarrow> eval_state result" where
  "discount_check st basis rounded =
     (case basis of
        None \<Rightarrow> Inr st
      | Some (b, _) \<Rightarrow>
          rbind (add_atoms (es_discounted st ! b) rounded) (\<lambda>d.
          let st = st\<lparr>es_discounted := (es_discounted st)[b := d]\<rparr> in
          rbind (add_atoms (es_booked st ! b) d) (\<lambda>rest.
          if rest < 0 then Inl (Error ''DISCOUNT_EXCEEDS_BASIS'' ''combined additive discounts'') else Inr st)))"

definition rule_eval :: "compiled_policy \<Rightarrow> view \<Rightarrow> string option \<Rightarrow> nat \<Rightarrow> eval_state \<Rightarrow> eval_state result" where
  "rule_eval p v failure index st =
     (let rule = cp_rules p ! index; (matches, inputs) = predicates_eval v (r_predicates rule) in
      if \<not> matches then
        Inr (st\<lparr>es_steps := es_steps st @ [\<lparr>st_rule = Some index, st_code = ''PREDICATE_FALSE'',
           st_unrounded = None, st_rounded = None, st_basis = None, st_inputs = inputs\<rparr>]\<rparr>)
      else
        rbind (amount_of (cp_scale p) st (r_operation rule)) (\<lambda>(code, unrounded, basis).
        rbind (round_atoms unrounded) (\<lambda>rounded.
        rbind (discount_check st basis rounded) (\<lambda>st.
        let st = st\<lparr>es_booked := (es_booked st)[index := rounded]\<rparr> in
        if code = ''BASE_APPLIED'' \<and> failure \<noteq> None
        then Inl (Error (the failure) ''injected after completed base evaluation'')
        else Inr (st\<lparr>es_steps := es_steps st @ [\<lparr>st_rule = Some index,
               st_code = (if rounded = 0 then ''ZERO_ROUNDED'' else code), st_unrounded = Some unrounded,
               st_rounded = Some rounded, st_basis = basis, st_inputs = inputs\<rparr>]\<rparr>)))))"

definition evaluate_steps :: "compiled_policy \<Rightarrow> view \<Rightarrow> string option \<Rightarrow> step list result" where
  "evaluate_steps p v failure =
     (if v_status v = Some Failed
      then Inr [\<lparr>st_rule = None, st_code = ''FAILED_WORK'', st_unrounded = None, st_rounded = None,
                 st_basis = None, st_inputs = []\<rparr>]
      else
        let n = length (cp_rules p) in
        rbind (rfold (rule_eval p v failure) [0..<n]
            \<lparr>es_steps = [], es_booked = replicate n 0, es_discounted = replicate n 0\<rparr>) (\<lambda>st.
        Inr (es_steps st)))"

end
