(* ===== verification/Policy_Laws.thy ===== *)
theory Policy_Laws
  imports Policy
begin

text \<open>
  What a compiled policy guarantees, and what evaluating one computes: a reference definition of
  the amount of every rule in exact arithmetic, and the loop of \<open>evaluate_steps\<close> as its sum.
\<close>

section \<open>Compiled policies\<close>

definition rule_ok :: "nat \<Rightarrow> rule list \<Rightarrow> rule \<Rightarrow> bool" where
  "rule_ok scale earlier r \<longleftrightarrow>
     (case r_operation r of
        Base d \<Rightarrow> decimal_ok d \<and> (\<exists>n. atoms_exact d scale = Inr n) \<and> list_all (\<lambda>e. is_base (r_operation e)) earlier
      | Discount pct b basis \<Rightarrow> decimal_ok pct \<and> (\<exists>q. percent pct = Inr q) \<and> b < length earlier
          \<and> is_base (r_operation (earlier ! b)) \<and> basis = ''self.'' @ r_component (earlier ! b))"

fun rules_ok :: "nat \<Rightarrow> rule list \<Rightarrow> rule list \<Rightarrow> bool" where
  "rules_ok scale earlier [] \<longleftrightarrow> True"
| "rules_ok scale earlier (r # rs) \<longleftrightarrow> rule_ok scale earlier r \<and> rules_ok scale (earlier @ [r]) rs"

definition policy_ok :: "compiled_policy \<Rightarrow> bool" where
  "policy_ok p \<longleftrightarrow> cp_scale p \<le> 18 \<and> length (cp_currency p) = 3 \<and> list_all is_upper (cp_currency p)
     \<and> 1 \<le> length (cp_rules p) \<and> length (cp_rules p) \<le> 64
     \<and> distinct (map r_id (cp_rules p)) \<and> distinct (map r_component (cp_rules p))
     \<and> list_all (\<lambda>r. length (r_predicates r) \<le> 8 \<and> slug_ok (r_id r) \<and> slug_ok (r_component r)) (cp_rules p)
     \<and> rules_ok (cp_scale p) [] (cp_rules p)"

lemma rules_ok_append: "rules_ok scale e (rs @ [r]) \<longleftrightarrow> rules_ok scale e rs \<and> rule_ok scale (e @ rs) r"
  by (induction rs arbitrary: e) auto

lemma rules_ok_nth: "rules_ok scale e rs \<Longrightarrow> i < length rs \<Longrightarrow> rule_ok scale (e @ take i rs) (rs ! i)"
proof (induction rs arbitrary: e i)
  case (Cons r rs)
  then show ?case by (cases i) force+
qed simp

section \<open>Compilation\<close>

definition cs_inv :: "nat \<Rightarrow> compile_state \<Rightarrow> bool" where
  "cs_inv scale st \<longleftrightarrow> rules_ok scale [] (cs_rules st)
     \<and> cs_ids st = r_id ` set (cs_rules st) \<and> cs_components st = r_component ` set (cs_rules st)
     \<and> distinct (map r_id (cs_rules st)) \<and> distinct (map r_component (cs_rules st))
     \<and> list_all (\<lambda>r. length (r_predicates r) \<le> 8 \<and> slug_ok (r_id r) \<and> slug_ok (r_component r)) (cs_rules st)
     \<and> (\<not> cs_discounts st \<longrightarrow> list_all (\<lambda>e. is_base (r_operation e)) (cs_rules st))
     \<and> cs_nodes st = 1 + sum_list (map (\<lambda>r. 2 + length (r_predicates r)) (cs_rules st))"

fun amount_ok :: "amount_dto \<Rightarrow> bool" where
  "amount_ok (AmountFixed d) = decimal_ok d"
| "amount_ok (AmountPercent d _) = decimal_ok d"

lemma position_Some: "position P xs = Some i \<Longrightarrow> i < length xs \<and> P (xs ! i)"
  by (induction xs arbitrary: i) (auto split: if_splits)

lemma strip_prefix_Some: "strip_prefix p s = Some t \<longleftrightarrow> s = p @ t"
  by (auto simp: strip_prefix_def) (metis append_take_drop_id)

lemma operation_compile_ok:
  assumes "operation_compile scale rules d raw = Inr (d', op)" and "amount_ok (rd_amount raw)"
    and "\<not> d \<longrightarrow> list_all (\<lambda>e. is_base (r_operation e)) rules"
  shows "rule_ok scale rules \<lparr>r_id = i, r_component = c, r_operation = op, r_predicates = ps\<rparr> \<and> (\<not> d' \<longrightarrow> is_base op \<and> \<not> d)"
  using assms
  by (auto simp: operation_compile_def rule_ok_def strip_prefix_Some split: if_splits bool.splits amount_dto.splits option.splits
      dest!: position_Some)

lemma rule_compile_inv:
  assumes "rule_compile scale raw st = Inr st'" and "cs_inv scale st" and "amount_ok (rd_amount raw)"
  shows "cs_inv scale st' \<and> length (cs_rules st') = Suc (length (cs_rules st))"
proof -
  from assms(1) obtain ps compiled discounts op where
    s: "slug (rd_id raw) = Inr ()" "slug (rd_component raw) = Inr ()"
    and n: "rd_id raw \<notin> cs_ids st" "rd_component raw \<notin> cs_components st"
    and ps: "ps = (case rd_when raw of None \<Rightarrow> [] | Some ps \<Rightarrow> ps)" "length ps \<le> 8"
    and c: "rmap predicate_compile ps = Inr compiled"
    and o: "operation_compile scale (cs_rules st) (cs_discounts st) raw = Inr (discounts, op)"
    and st': "st' = \<lparr>cs_rules = cs_rules st @ [\<lparr>r_id = rd_id raw, r_component = rd_component raw,
                 r_operation = op, r_predicates = compiled\<rparr>],
              cs_ids = insert (rd_id raw) (cs_ids st), cs_components = insert (rd_component raw) (cs_components st),
              cs_discounts = discounts, cs_nodes = cs_nodes st + 2 + length ps\<rparr>"
    by (auto simp: rule_compile_def Let_def split: if_splits prod.splits)
  have l: "length compiled = length ps" by (rule rmap_Inr_length[OF c])
  have "rule_ok scale (cs_rules st) \<lparr>r_id = rd_id raw, r_component = rd_component raw, r_operation = op, r_predicates = compiled\<rparr>
      \<and> (\<not> discounts \<longrightarrow> is_base op \<and> \<not> cs_discounts st)"
    by (rule operation_compile_ok[OF o assms(3)]) (use assms(2) in \<open>auto simp: cs_inv_def\<close>)
  with assms(2) s n ps l show ?thesis
    by (auto simp: st' cs_inv_def rules_ok_append slug_def)
qed

lemma rules_compile_inv:
  assumes "rfold (rule_compile scale) raws st = Inr st'" and "cs_inv scale st" and "list_all (\<lambda>raw. amount_ok (rd_amount raw)) raws"
  shows "cs_inv scale st' \<and> length (cs_rules st') = length raws + length (cs_rules st)"
  using assms
proof (induction raws arbitrary: st)
  case (Cons raw raws)
  then obtain st1 where 1: "rule_compile scale raw st = Inr st1" "rfold (rule_compile scale) raws st1 = Inr st'" by auto
  from rule_compile_inv[OF 1(1) Cons.prems(2)] Cons.prems(3) Cons.IH[OF 1(2)] show ?case by auto
qed simp

lemma json_decimal_ok: "json_decimal v = Some d \<Longrightarrow> decimal_ok d"
  unfolding json_decimal_def obind_Some_iff of_result_def
  by (elim exE conjE, split sum.split_asm) (auto intro: decimal_parse_ok)

lemma amount_decode_ok: "amount_decode v = Some a \<Longrightarrow> amount_ok a"
  by (cases v) (auto simp: field_def obind_Some_iff json_decimal_ok split: option.splits)

lemma json_list_all: "json_list f v = Some xs \<Longrightarrow> (\<And>w x. f w = Some x \<Longrightarrow> P x) \<Longrightarrow> list_all P xs"
  by (cases v) (auto simp: list_all_iff split: if_splits)

lemma rule_decode_ok: "rule_decode v = Some r \<Longrightarrow> amount_ok (rd_amount r)"
  by (auto simp: rule_decode_def obind_Some_iff field_def amount_decode_ok split: option.splits)

lemma policy_decode_ok: "policy_decode v = Some d \<Longrightarrow> list_all (\<lambda>raw. amount_ok (rd_amount raw)) (pol_rules d)"
  unfolding policy_decode_def obind_Some_iff
  by (elim exE conjE) (auto simp: field_def split: option.splits intro: json_list_all rule_decode_ok)

lemma policy_compile_ok:
  assumes "policy_from_value explain v = Inr p"
  shows "policy_ok p"
proof -
  from assms obtain d where d: "policy_decode v = Some d" and c: "policy_compile d = Inr p"
    by (auto simp: policy_from_value_def dto_Inr split: if_splits)
  from c obtain st where
    r: "rfold (rule_compile (pol_scale d)) (pol_rules d)
          \<lparr>cs_rules = [], cs_ids = {}, cs_components = {}, cs_discounts = False, cs_nodes = 1\<rparr> = Inr st"
    and v: "validate_currency (pol_currency d) (pol_scale d) = Inr ()"
    and n: "pol_rules d \<noteq> []" "length (pol_rules d) \<le> 64"
    and p: "p = \<lparr>cp_body = policy_json d, cp_currency = pol_currency d, cp_scale = pol_scale d, cp_rules = cs_rules st\<rparr>"
    by (auto simp: policy_compile_def split: if_splits)
  have "cs_inv (pol_scale d) st \<and> length (cs_rules st) = length (pol_rules d) + 0"
    using rules_compile_inv[OF r _ policy_decode_ok[OF d]] by (simp add: cs_inv_def)
  with v n show ?thesis by (cases "pol_rules d") (auto simp: p policy_ok_def cs_inv_def)
qed

section \<open>The reference\<close>

definition rule_matches :: "view \<Rightarrow> rule \<Rightarrow> bool" where
  "rule_matches v r \<longleftrightarrow> list_all (\<lambda>q. snd (snd (predicate_eval v q))) (r_predicates r)"

text \<open>A base books its amount in atoms; a discount the rounded percentage of its base, negated.\<close>

definition base_amount :: "compiled_policy \<Rightarrow> view \<Rightarrow> nat \<Rightarrow> int" where
  "base_amount p v i =
     (if rule_matches v (cp_rules p ! i) then
        (case r_operation (cp_rules p ! i) of
           Base d \<Rightarrow> int (coefficient d) * 10 ^ (cp_scale p - dscale d) | Discount _ _ _ \<Rightarrow> 0)
      else 0)"

definition rule_amount :: "compiled_policy \<Rightarrow> view \<Rightarrow> nat \<Rightarrow> int" where
  "rule_amount p v i =
     (if rule_matches v (cp_rules p ! i) then
        (case r_operation (cp_rules p ! i) of
           Base _ \<Rightarrow> base_amount p v i
         | Discount pct b _ \<Rightarrow> - round_half_away (of_int (base_amount p v b) * decimal_val pct / 100))
      else 0)"

definition discount_of :: "compiled_policy \<Rightarrow> nat \<Rightarrow> nat \<Rightarrow> bool" where
  "discount_of p b i \<longleftrightarrow> (case r_operation (cp_rules p ! i) of Discount _ c _ \<Rightarrow> c = b | Base _ \<Rightarrow> False)"

text \<open>The discounts of base \<open>b\<close> among the first \<open>k\<close> rules.\<close>

definition discounts :: "compiled_policy \<Rightarrow> view \<Rightarrow> nat \<Rightarrow> nat \<Rightarrow> int" where
  "discounts p v k b = (\<Sum>i \<leftarrow> filter (discount_of p b) [0..<k]. rule_amount p v i)"

definition over_discounted :: "compiled_policy \<Rightarrow> view \<Rightarrow> nat \<Rightarrow> bool" where
  "over_discounted p v k \<longleftrightarrow> (\<exists>b < length (cp_rules p). base_amount p v b + discounts p v k b < 0)"

lemma predicates_eval_matches: "fst (predicates_eval v ps) = list_all (\<lambda>q. snd (snd (predicate_eval v q))) ps"
proof -
  have "fst (fold (predicate_step v) ps (b, i)) = (b \<and> list_all (\<lambda>q. snd (snd (predicate_eval v q))) ps)" for b i
    by (induction ps arbitrary: b i) (auto simp: predicate_step_def split: prod.splits)
  then show ?thesis by (simp add: predicates_eval_def)
qed

section \<open>Amounts\<close>

lemma round_half_bounds:
  assumes "0 \<le> x" and "x \<le> of_int n"
  shows "0 \<le> round_half_away x" and "round_half_away x \<le> n"
proof -
  have "(0::int) \<le> \<lfloor>x + 1 / 2\<rfloor>" using assms(1) by simp
  then show "0 \<le> round_half_away x" using assms(1) by (simp add: round_half_away_def)
  have "\<lfloor>x + 1 / 2\<rfloor> \<le> \<lfloor>of_int n + 1 / 2 :: rat\<rfloor>" using assms(2) by (intro floor_mono) simp
  also have "\<lfloor>of_int n + 1 / 2 :: rat\<rfloor> = n" by (simp add: floor_eq_iff)
  finally show "round_half_away x \<le> n" using assms(1) by (simp add: round_half_away_def)
qed

lemma round_half_uminus: "round_half_away (- x) = - round_half_away x"
proof (cases x "0 :: rat" rule: linorder_cases)
  case equal
  then show ?thesis by (simp add: round_half_away_def floor_eq_iff)
qed (simp_all add: round_half_away_def)

lemma negated_val: "ratio_val (negated r) = - ratio_val r" "denominator (negated r) = denominator r"
  by (simp_all add: ratio_val_def negated_def)

lemma percent_small:
  assumes "decimal_ok d" and "percent d = Inr q"
  shows "denominator q \<le> 10 ^ 20" and "0 \<le> numerator q" and "numerator q \<le> denominator q" and "0 < denominator q"
proof -
  note v = percent_Inr[OF assms(2)]
  have ok: "0 < denominator q" "coprime (numerator q) (denominator q)" using v(1) by (simp_all add: ratio_ok_def)
  then show "0 < denominator q" by simp
  show "0 \<le> numerator q" using v(3) ok(1) by (simp add: ratio_val_def zero_le_divide_iff)
  have "(of_int (numerator q) :: rat) \<le> of_int (denominator q)" using v(4) ok(1) by (simp add: ratio_val_def divide_le_eq)
  then show "numerator q \<le> denominator q" by simp
  have "ratio_val q = of_nat (coefficient d) / 10 ^ (dscale d + 2)"
    using v(2) by (simp add: decimal_val_def power_add)
  then have "of_int (numerator q) * 10 ^ (dscale d + 2) = (of_nat (coefficient d) * of_int (denominator q) :: rat)"
    using ok(1) by (simp add: ratio_val_def field_simps)
  then have "(of_int (numerator q * 10 ^ (dscale d + 2)) :: rat) = of_int (int (coefficient d) * denominator q)" by simp
  then have "numerator q * 10 ^ (dscale d + 2) = int (coefficient d) * denominator q" by (simp only: of_int_eq_iff)
  then have "denominator q dvd numerator q * 10 ^ (dscale d + 2)" by simp
  then have "denominator q dvd 10 ^ (dscale d + 2)"
    using ok(2) by (metis coprime_commute coprime_dvd_mult_right_iff)
  then have "denominator q \<le> 10 ^ (dscale d + 2)" by (intro zdvd_imp_le) simp_all
  also have "(10::int) ^ (dscale d + 2) \<le> 10 ^ 20"
    using assms(1) by (intro power_increasing) (simp_all add: decimal_ok_def)
  finally show "denominator q \<le> 10 ^ 20" .
qed


lemma base_atoms:
  assumes "decimal_ok d" "scale \<le> 18" "atoms_exact d scale = Inr n"
  obtains r where "atoms_ratio d scale = Inr r" "round_atoms r = Inr (int (coefficient d) * 10 ^ (scale - dscale d))"
    "\<bar>int (coefficient d) * 10 ^ (scale - dscale d)\<bar> \<le> MAX_ATOMS"
proof -
  from atoms_ratio_returns[OF assms(1,2)] obtain r where r: "atoms_ratio d scale = Inr r" "ratio_ok r"
    "ratio_val r = decimal_val d * 10 ^ scale" .
  have e: "dscale d \<le> scale" "\<bar>int (coefficient d) * 10 ^ (scale - dscale d)\<bar> \<le> MAX_ATOMS"
    using assms(3) atoms_exact_eq[OF assms(1,2)] by (auto split: if_splits)
  have "0 < denominator r" using r(2) by (simp add: ratio_ok_def)
  from round_atoms_spec[OF this] have "round_atoms r = Inr (int (coefficient d) * 10 ^ (scale - dscale d))"
    unfolding r(3) decimal_val_scaled[OF e(1)] round_integer using e(2) by simp
  with r(1) e(2) that show thesis by blast
qed

lemma discount_atoms:
  assumes "decimal_ok pct" "percent pct = Inr q" and "0 \<le> a" "a \<le> MAX_ATOMS"
  obtains m where "ratio_mul (ratio_integer a) q = Inr m"
    "round_atoms (negated m) = Inr (- round_half_away (of_int a * decimal_val pct / 100))"
    "0 \<le> round_half_away (of_int a * decimal_val pct / 100)" "round_half_away (of_int a * decimal_val pct / 100) \<le> a"
proof -
  note q = percent_small[OF assms(1,2)]
  have big: "(10::int) ^ 30 * 10 ^ 20 < 2 ^ 512" by simp
  have "\<bar>a\<bar> * \<bar>numerator q\<bar> \<le> 10 ^ 30 * 10 ^ 20"
    using assms(3,4) q by (intro mult_mono) (simp_all add: MAX_ATOMS_def)
  then have n: "\<bar>numerator (ratio_integer a)\<bar> * \<bar>numerator q\<bar> < 2 ^ 512" using big by simp
  have "denominator (ratio_integer a) * denominator q < 2 ^ 512" using q(1) by simp
  from ratio_mul_returns[OF _ q(4) n this] obtain m where m: "ratio_mul (ratio_integer a) q = Inr m" by auto
  have e: "ratio_ok m" "ratio_val m = of_int a * decimal_val pct / 100"
    using ratio_mul_exact[OF m _ q(4)] percent_Inr(2)[OF assms(2)] by simp_all
  have v: "0 \<le> decimal_val pct / 100" "decimal_val pct / 100 \<le> 1" using percent_Inr[OF assms(2)] by simp_all
  have "of_int a * (decimal_val pct / 100) \<le> of_int a * 1" using v assms(3) by (intro mult_left_mono) simp_all
  then have b: "0 \<le> of_int a * decimal_val pct / 100" "of_int a * decimal_val pct / 100 \<le> of_int a"
    using v assms(3) by (simp_all add: mult_nonneg_nonneg)
  note rb = round_half_bounds[OF b]
  have "0 < denominator (negated m)" using e(1) by (simp add: negated_val ratio_ok_def)
  from round_atoms_spec[OF this] have "round_atoms (negated m) = Inr (- round_half_away (of_int a * decimal_val pct / 100))"
    using rb assms(4) by (simp add: negated_val e(2) round_half_uminus)
  with m rb that show thesis by blast
qed

section \<open>The loop\<close>

definition exceeds_basis :: error where
  "exceeds_basis = Error ''DISCOUNT_EXCEEDS_BASIS'' ''combined additive discounts''"

lemma rule_at:
  assumes "policy_ok p" "k < length (cp_rules p)"
  shows "rule_ok (cp_scale p) (take k (cp_rules p)) (cp_rules p ! k)" "cp_scale p \<le> 18"
  using rules_ok_nth[of "cp_scale p" "[]" "cp_rules p" k] assms by (simp_all add: policy_ok_def)

lemma base_amount_bounds:
  assumes "policy_ok p" "b < length (cp_rules p)"
  shows "0 \<le> base_amount p v b \<and> base_amount p v b \<le> MAX_ATOMS"
proof (cases "rule_matches v (cp_rules p ! b) \<and> is_base (r_operation (cp_rules p ! b))")
  case True
  then obtain d where d: "r_operation (cp_rules p ! b) = Base d" by (cases "r_operation (cp_rules p ! b)") auto
  obtain n where "decimal_ok d" "atoms_exact d (cp_scale p) = Inr n"
    using rule_at(1)[OF assms] by (auto simp: rule_ok_def d)
  moreover have "cp_scale p \<le> 18" by (rule rule_at(2)[OF assms])
  ultimately have "\<bar>int (coefficient d) * 10 ^ (cp_scale p - dscale d)\<bar> \<le> MAX_ATOMS" by (metis base_atoms)
  then show ?thesis using True by (simp add: base_amount_def d)
next
  case False
  have "(0::int) \<le> MAX_ATOMS" by (simp add: MAX_ATOMS_def)
  moreover have "base_amount p v b = 0" using False by (auto simp: base_amount_def split: operation.splits)
  ultimately show ?thesis by simp
qed

text \<open>The step a rule leaves, as a relation to the reference amounts.\<close>

definition step_shows :: "compiled_policy \<Rightarrow> view \<Rightarrow> nat \<Rightarrow> step \<Rightarrow> bool" where
  "step_shows p v i s \<longleftrightarrow> st_rule s = Some i
     \<and> st_inputs s = snd (predicates_eval v (r_predicates (cp_rules p ! i)))
     \<and> st_rounded s = (if rule_matches v (cp_rules p ! i) then Some (rule_amount p v i) else None)
     \<and> st_code s = (if \<not> rule_matches v (cp_rules p ! i) then ''PREDICATE_FALSE''
          else if rule_amount p v i = 0 then ''ZERO_ROUNDED''
          else if is_base (r_operation (cp_rules p ! i)) then ''BASE_APPLIED'' else ''DISCOUNT_APPLIED'')
     \<and> (case r_operation (cp_rules p ! i) of
          Base _ \<Rightarrow> st_basis s = None
        | Discount _ b _ \<Rightarrow> st_basis s = (if rule_matches v (cp_rules p ! i)
            then Some (b, ratio_integer (base_amount p v b)) else None))"

definition loop_state :: "compiled_policy \<Rightarrow> view \<Rightarrow> nat \<Rightarrow> eval_state \<Rightarrow> bool" where
  "loop_state p v k st \<longleftrightarrow>
     length (es_booked st) = length (cp_rules p) \<and> length (es_discounted st) = length (cp_rules p)
     \<and> (\<forall>i < length (cp_rules p). es_booked st ! i = (if i < k then rule_amount p v i else 0))
     \<and> (\<forall>b < length (cp_rules p). es_discounted st ! b = discounts p v k b)
     \<and> length (es_steps st) = k \<and> (\<forall>i < k. step_shows p v i (es_steps st ! i))"

lemma discounts_Suc: "discounts p v (Suc k) b = discounts p v k b + (if discount_of p b k then rule_amount p v k else 0)"
  by (simp add: discounts_def)

lemma rule_amount_base: "is_base (r_operation (cp_rules p ! i)) \<Longrightarrow> rule_amount p v i = base_amount p v i"
  by (cases "r_operation (cp_rules p ! i)") (auto simp: rule_amount_def base_amount_def)

lemma discount_of_base: "is_base (r_operation (cp_rules p ! i)) \<Longrightarrow> \<not> discount_of p b i"
  by (cases "r_operation (cp_rules p ! i)") (auto simp: discount_of_def)

lemma discount_amount_bounds:
  assumes "policy_ok p" "k < length (cp_rules p)" "discount_of p b k"
  shows "- base_amount p v b \<le> rule_amount p v k \<and> rule_amount p v k \<le> 0 \<and> b < length (cp_rules p)"
proof -
  from assms(3) obtain pct basis where o: "r_operation (cp_rules p ! k) = Discount pct b basis"
    by (auto simp: discount_of_def split: operation.splits)
  note r = rule_at(1)[OF assms(1,2)]
  then obtain q where q: "decimal_ok pct" "percent pct = Inr q" "b < k" by (auto simp: rule_ok_def o)
  have b: "b < length (cp_rules p)" using q(3) assms(2) by simp
  note bb = base_amount_bounds[OF assms(1) b]
  from discount_atoms[OF q(1,2) bb[THEN conjunct1, of v] bb[THEN conjunct2, of v]]
  have "0 \<le> round_half_away (of_int (base_amount p v b) * decimal_val pct / 100)"
    "round_half_away (of_int (base_amount p v b) * decimal_val pct / 100) \<le> base_amount p v b" by metis+
  with bb b show ?thesis by (auto simp: rule_amount_def o)
qed

lemma discounts_nonpos: "policy_ok p \<Longrightarrow> k \<le> length (cp_rules p) \<Longrightarrow> discounts p v k b \<le> 0"
proof (induction k)
  case (Suc k)
  then show ?case using discount_amount_bounds[of p k b v] by (auto simp: discounts_Suc)
qed (simp add: discounts_def)

lemma over_discounted_mono:
  assumes "policy_ok p" "k < length (cp_rules p)" "over_discounted p v k"
  shows "over_discounted p v (Suc k)"
proof -
  from assms(3) obtain b where "b < length (cp_rules p)" "base_amount p v b + discounts p v k b < 0"
    by (auto simp: over_discounted_def)
  then show ?thesis
    using discount_amount_bounds[OF assms(1,2), of b v] by (auto simp: over_discounted_def discounts_Suc intro!: exI[of _ b])
qed


lemma over_discounted_next:
  assumes "policy_ok p" "k < length (cp_rules p)" "\<not> over_discounted p v k" "discount_of p b k"
  shows "over_discounted p v (Suc k) \<longleftrightarrow> base_amount p v b + (discounts p v k b + rule_amount p v k) < 0"
proof -
  have "discount_of p c k \<longleftrightarrow> c = b" for c
    using assms(4) by (auto simp: discount_of_def split: operation.splits)
  then have "discounts p v (Suc k) c = (if c = b then discounts p v k b + rule_amount p v k else discounts p v k c)" for c
    by (simp add: discounts_Suc)
  moreover have "b < length (cp_rules p)" using discount_amount_bounds[OF assms(1,2,4), of v] by simp
  moreover have "0 \<le> base_amount p v c + discounts p v k c" if "c < length (cp_rules p)" for c
    using assms(3) that by (force simp: over_discounted_def)
  ultimately show ?thesis unfolding over_discounted_def by (force simp: not_less)
qed

lemma loop_state_step:
  assumes "loop_state p v k st" "k < length (cp_rules p)"
    and "length bk = length (cp_rules p)" "\<forall>i < length (cp_rules p). bk ! i = (if i < Suc k then rule_amount p v i else 0)"
    and "length dc = length (cp_rules p)" "\<forall>b < length (cp_rules p). dc ! b = discounts p v (Suc k) b"
    and "step_shows p v k s"
  shows "loop_state p v (Suc k) \<lparr>es_steps = es_steps st @ [s], es_booked = bk, es_discounted = dc\<rparr>"
  using assms unfolding loop_state_def by (auto simp: nth_append less_Suc_eq)

lemma discount_check_over:
  assumes "add_atoms (es_discounted st ! b) x = Inr d" "add_atoms (es_booked st ! b) d = Inr rest" "rest < 0"
  shows "discount_check st (Some (b, r)) x = Inl exceeds_basis"
  using assms(3) by (simp add: discount_check_def Let_def assms(1,2) exceeds_basis_def del: add_atoms_Inr)

lemma discount_check_fine:
  assumes "add_atoms (es_discounted st ! b) x = Inr d" "add_atoms (es_booked st ! b) d = Inr rest" "\<not> rest < 0"
  shows "discount_check st (Some (b, r)) x = Inr (st\<lparr>es_discounted := (es_discounted st)[b := d]\<rparr>)"
  using assms(3) by (simp add: discount_check_def Let_def assms(1,2) del: add_atoms_Inr)

lemma rule_eval_step:
  assumes p: "policy_ok p" and k: "k < length (cp_rules p)" and st: "loop_state p v k st" and n: "\<not> over_discounted p v k"
  shows "if over_discounted p v (Suc k) then rule_eval p v None k st \<in> {Inl exceeds_basis, Inl overflow}
    else \<exists>st'. rule_eval p v None k st = Inr st' \<and> loop_state p v (Suc k) st'"
proof -
  let ?r = "cp_rules p ! k"
  obtain ms ins where pe: "predicates_eval v (r_predicates ?r) = (ms, ins)" by (cases "predicates_eval v (r_predicates ?r)")
  have ms: "ms = rule_matches v ?r" using predicates_eval_matches[of v "r_predicates ?r"] pe by (simp add: rule_matches_def)
  have bk: "length (es_booked st) = length (cp_rules p)" "\<forall>i < length (cp_rules p). es_booked st ! i = (if i < k then rule_amount p v i else 0)"
    and dc: "length (es_discounted st) = length (cp_rules p)" "\<forall>b < length (cp_rules p). es_discounted st ! b = discounts p v k b"
    using st by (simp_all add: loop_state_def)
  show ?thesis
  proof (cases "rule_matches v ?r")
    case False
    have z: "rule_amount p v k = 0" using False by (simp add: rule_amount_def)
    then have d: "discounts p v (Suc k) b = discounts p v k b" for b by (simp add: discounts_Suc)
    then have "\<not> over_discounted p v (Suc k)" using n by (simp add: over_discounted_def)
    moreover have "loop_state p v (Suc k) (st\<lparr>es_steps := es_steps st @ [\<lparr>st_rule = Some k, st_code = ''PREDICATE_FALSE'',
           st_unrounded = None, st_rounded = None, st_basis = None, st_inputs = ins\<rparr>]\<rparr>)"
      using loop_state_step[OF st k, of "es_booked st" "es_discounted st"] bk dc z d False pe
      by (cases st) (auto simp: step_shows_def less_Suc_eq split: operation.splits)
    ultimately show ?thesis using False ms pe by (simp add: rule_eval_def Let_def)
  next
    case True
    have bk': "length ((es_booked st)[k := rule_amount p v k]) = length (cp_rules p)"
      "\<forall>i < length (cp_rules p). (es_booked st)[k := rule_amount p v k] ! i = (if i < Suc k then rule_amount p v i else 0)"
      using bk k by (auto simp: nth_list_update less_Suc_eq)
    show ?thesis
    proof (cases "r_operation ?r")
      case (Base d)
      note ok = rule_at[OF p k]
      obtain n' where "decimal_ok d" "atoms_exact d (cp_scale p) = Inr n'" using ok(1) by (auto simp: rule_ok_def Base)
      from base_atoms[OF this(1) ok(2) this(2)] obtain r where
        r: "atoms_ratio d (cp_scale p) = Inr r" "round_atoms r = Inr (int (coefficient d) * 10 ^ (cp_scale p - dscale d))" by metis
      have a: "rule_amount p v k = int (coefficient d) * 10 ^ (cp_scale p - dscale d)"
        using True by (simp add: rule_amount_def base_amount_def Base)
      have nb: "\<not> discount_of p b k" for b by (simp add: discount_of_def Base)
      then have d': "discounts p v (Suc k) b = discounts p v k b" for b by (simp add: discounts_Suc)
      then have no: "\<not> over_discounted p v (Suc k)" using n by (simp add: over_discounted_def)
      have "rule_eval p v None k st = Inr \<lparr>es_steps = es_steps st @ [\<lparr>st_rule = Some k,
               st_code = (if rule_amount p v k = 0 then ''ZERO_ROUNDED'' else ''BASE_APPLIED''), st_unrounded = Some r,
               st_rounded = Some (rule_amount p v k), st_basis = None, st_inputs = ins\<rparr>],
           es_booked = (es_booked st)[k := rule_amount p v k], es_discounted = es_discounted st\<rparr>"
        using True ms pe r a by (cases st) (simp add: rule_eval_def Let_def Base discount_check_def)
      moreover have "loop_state p v (Suc k) \<lparr>es_steps = es_steps st @ [\<lparr>st_rule = Some k,
               st_code = (if rule_amount p v k = 0 then ''ZERO_ROUNDED'' else ''BASE_APPLIED''), st_unrounded = Some r,
               st_rounded = Some (rule_amount p v k), st_basis = None, st_inputs = ins\<rparr>],
           es_booked = (es_booked st)[k := rule_amount p v k], es_discounted = es_discounted st\<rparr>"
        by (rule loop_state_step[OF st k bk' dc(1)]) (use dc(2) d' True pe in \<open>auto simp: step_shows_def Base\<close>)
      ultimately show ?thesis using no by simp
    next
      case (Discount pct b basis)
      have dof: "discount_of p b k" by (simp add: discount_of_def Discount)
      obtain q where q: "decimal_ok pct" "percent pct = Inr q" "b < k" "is_base (r_operation (cp_rules p ! b))"
        using rule_at(1)[OF p k] by (auto simp: rule_ok_def Discount)
      have b: "b < length (cp_rules p)" using q(3) k by simp
      note bb = base_amount_bounds[OF p b, of v]
      from discount_atoms[OF q(1,2) bb[THEN conjunct1] bb[THEN conjunct2]] obtain m where
        m: "ratio_mul (ratio_integer (base_amount p v b)) q = Inr m"
        "round_atoms (negated m) = Inr (- round_half_away (of_int (base_amount p v b) * decimal_val pct / 100))" by metis
      have a: "- round_half_away (of_int (base_amount p v b) * decimal_val pct / 100) = rule_amount p v k"
        using True by (simp add: rule_amount_def Discount)
      have booked: "es_booked st ! b = base_amount p v b" using bk(2) b q(3,4) by (simp add: rule_amount_base)
      let ?d = "discounts p v k b + rule_amount p v k"
      have ab: "- base_amount p v b \<le> rule_amount p v k" "rule_amount p v k \<le> 0"
        using discount_amount_bounds[OF p k dof, of v] by simp_all
      have dn: "discounts p v k b \<le> 0" using discounts_nonpos[OF p, of k v b] k by simp
      have ov: "over_discounted p v (Suc k) \<longleftrightarrow> base_amount p v b + ?d < 0" by (rule over_discounted_next[OF p k n dof])
      have amt: "amount_of (cp_scale p) st (r_operation ?r) =
          Inr (''DISCOUNT_APPLIED'', negated m, Some (b, ratio_integer (base_amount p v b)))"
        using booked bb m(1) q(2) b bk(1) by (simp add: Discount Let_def)
      have ev: "rule_eval p v None k st = rbind (discount_check st (Some (b, ratio_integer (base_amount p v b))) (rule_amount p v k))
          (\<lambda>st. Inr (st\<lparr>es_booked := (es_booked st)[k := rule_amount p v k],
             es_steps := es_steps st @ [\<lparr>st_rule = Some k,
               st_code = (if rule_amount p v k = 0 then ''ZERO_ROUNDED'' else ''DISCOUNT_APPLIED''), st_unrounded = Some (negated m),
               st_rounded = Some (rule_amount p v k), st_basis = Some (b, ratio_integer (base_amount p v b)), st_inputs = ins\<rparr>]\<rparr>))"
        using True ms pe amt m(2) a by (simp add: rule_eval_def Let_def)
      show ?thesis
      proof (cases "\<bar>?d\<bar> \<le> MAX_ATOMS")
        case False
        have "add_atoms (es_discounted st ! b) (rule_amount p v k) = Inl overflow" using False dc(2) b by simp
        then have "discount_check st (Some (b, ratio_integer (base_amount p v b))) (rule_amount p v k) = Inl overflow"
          unfolding discount_check_def option.case prod.case by (simp only: rbind_simps)
        then have "rule_eval p v None k st = Inl overflow" unfolding ev by (simp only: rbind_simps)
        moreover have "base_amount p v b + ?d < 0" using False bb ab dn by linarith
        ultimately show ?thesis using ov by simp
      next
        case small: True
        then have 1: "add_atoms (es_discounted st ! b) (rule_amount p v k) = Inr ?d" using dc(2) b by simp
        have "\<bar>base_amount p v b + ?d\<bar> \<le> MAX_ATOMS" using small bb ab dn by linarith
        then have 2: "add_atoms (es_booked st ! b) ?d = Inr (base_amount p v b + ?d)" using booked by simp
        show ?thesis
        proof (cases "base_amount p v b + ?d < 0")
          case True
          then have "rule_eval p v None k st = Inl exceeds_basis"
            unfolding ev by (simp only: discount_check_over[OF 1 2] rbind_simps)
          then show ?thesis using ov True by simp
        next
          case fine: False
          let ?st = "\<lparr>es_steps = es_steps st @ [\<lparr>st_rule = Some k,
               st_code = (if rule_amount p v k = 0 then ''ZERO_ROUNDED'' else ''DISCOUNT_APPLIED''), st_unrounded = Some (negated m),
               st_rounded = Some (rule_amount p v k), st_basis = Some (b, ratio_integer (base_amount p v b)), st_inputs = ins\<rparr>],
             es_booked = (es_booked st)[k := rule_amount p v k], es_discounted = (es_discounted st)[b := ?d]\<rparr>"
          have "rule_eval p v None k st = Inr ?st"
            unfolding ev discount_check_fine[OF 1 2 fine] by (cases st) simp
          moreover have "discount_of p c k \<longleftrightarrow> c = b" for c
            using dof by (auto simp: discount_of_def split: operation.splits)
          then have "\<forall>c < length (cp_rules p). (es_discounted st)[b := ?d] ! c = discounts p v (Suc k) c"
            using dc b by (auto simp: nth_list_update discounts_Suc)
          then have "loop_state p v (Suc k) ?st"
            by (intro loop_state_step[OF st k bk']) (use dc(1) True pe in \<open>auto simp: step_shows_def Discount\<close>)
          ultimately show ?thesis using ov fine by simp
        qed
      qed
    qed
  qed
qed

lemma evaluate_loop:
  assumes p: "policy_ok p" and k: "k \<le> length (cp_rules p)"
  shows "if over_discounted p v k
     then rfold (rule_eval p v None) [0..<k] \<lparr>es_steps = [], es_booked = replicate (length (cp_rules p)) 0,
            es_discounted = replicate (length (cp_rules p)) 0\<rparr> \<in> {Inl exceeds_basis, Inl overflow}
     else \<exists>st. rfold (rule_eval p v None) [0..<k] \<lparr>es_steps = [], es_booked = replicate (length (cp_rules p)) 0,
            es_discounted = replicate (length (cp_rules p)) 0\<rparr> = Inr st \<and> loop_state p v k st"
  using k
proof (induction k)
  case 0
  have "\<not> over_discounted p v 0" using base_amount_bounds[OF p, of _ v] by (force simp: over_discounted_def discounts_def)
  then show ?case by (simp add: loop_state_def discounts_def)
next
  case (Suc k)
  then have k: "k < length (cp_rules p)" by simp
  show ?case
  proof (cases "over_discounted p v k")
    case True
    then show ?thesis
      using Suc over_discounted_mono[OF p k True] by (auto simp: rfold_append)
  next
    case False
    with Suc obtain st where st: "rfold (rule_eval p v None) [0..<k] \<lparr>es_steps = [], es_booked = replicate (length (cp_rules p)) 0,
            es_discounted = replicate (length (cp_rules p)) 0\<rparr> = Inr st" "loop_state p v k st" by auto
    show ?thesis
      using rule_eval_step[OF p k st(2) False] st(1) by (auto simp: rfold_append split: if_splits)
  qed
qed

end
