(* ===== verification/Policy_Properties.thy ===== *)
theory Policy_Properties
  imports Policy_Laws
begin

text \<open>
  The properties of pricing policies: what compilation guarantees, what an evaluation books, that a
  charge is never negative, and how a policy written as JSON arrays escapes the check of its amounts.
\<close>

section \<open>The total of a charge\<close>

definition booked_total :: "step list \<Rightarrow> int" where
  "booked_total steps = (\<Sum>s \<leftarrow> steps. case st_rounded s of None \<Rightarrow> 0 | Some a \<Rightarrow> a)"

lemma rounded_shows: "step_shows p v i s \<Longrightarrow> (case st_rounded s of None \<Rightarrow> 0 | Some a \<Rightarrow> a) = rule_amount p v i"
  by (auto simp: step_shows_def rule_amount_def)

lemma sum_upto: "(\<Sum>i \<leftarrow> [0..<n]. f i) = (\<Sum>i < n. f i :: int)"
  by (induction n) auto

lemma sum_point: "b < n \<Longrightarrow> (\<Sum>c < n. if c = b then (x :: int) else 0) = x" for n b :: nat
  by simp

lemma total_of_steps:
  assumes "length steps = n" "\<forall>i < n. step_shows p v i (steps ! i)"
  shows "booked_total steps = (\<Sum>i < n. rule_amount p v i)"
proof -
  have "map (\<lambda>s. case st_rounded s of None \<Rightarrow> 0 | Some a \<Rightarrow> a) steps = map (rule_amount p v) [0..<n]"
    using assms by (intro nth_equalityI) (simp_all add: rounded_shows)
  then show ?thesis by (simp add: booked_total_def sum_upto)
qed

lemma base_amount_discount: "\<not> is_base (r_operation (cp_rules p ! i)) \<Longrightarrow> base_amount p v i = 0"
  by (cases "r_operation (cp_rules p ! i)") (auto simp: base_amount_def)

lemma discount_of_unique: "\<not> is_base (r_operation (cp_rules p ! i)) \<Longrightarrow> \<exists>b. \<forall>c. discount_of p c i \<longleftrightarrow> c = b"
  by (cases "r_operation (cp_rules p ! i)") (auto simp: discount_of_def)

text \<open>What the first \<open>k\<close> rules book is what the bases keep after their discounts.\<close>

lemma total_by_base:
  assumes "policy_ok p" "k \<le> length (cp_rules p)"
  shows "(\<Sum>i < k. rule_amount p v i)
    = (\<Sum>b < length (cp_rules p). (if b < k then base_amount p v b else 0) + discounts p v k b)"
  using assms(2)
proof (induction k)
  case 0
  then show ?case by (simp add: discounts_def)
next
  case (Suc k)
  let ?n = "length (cp_rules p)"
  from Suc.prems have k: "k < ?n" by simp
  have split: "(\<Sum>b < ?n. (if b < Suc k then base_amount p v b else 0) + discounts p v (Suc k) b)
      = (\<Sum>b < ?n. (if b < k then base_amount p v b else 0) + discounts p v k b)
        + (\<Sum>b < ?n. (if b = k then base_amount p v b else 0))
        + (\<Sum>b < ?n. (if discount_of p b k then rule_amount p v k else 0))"
    unfolding sum.distrib[symmetric] discounts_Suc by (rule sum.cong) auto
  have point: "(\<Sum>b < ?n. (if b = k then base_amount p v b else 0)) = base_amount p v k"
    using k by (simp add: sum.delta cong: if_cong)
  have "(\<Sum>b < ?n. (if discount_of p b k then rule_amount p v k else 0)) = rule_amount p v k - base_amount p v k"
  proof (cases "is_base (r_operation (cp_rules p ! k))")
    case True
    then show ?thesis by (simp add: discount_of_base rule_amount_base)
  next
    case False
    then obtain b where b: "discount_of p c k \<longleftrightarrow> c = b" for c using discount_of_unique by blast
    then have "b < ?n" using discount_amount_bounds[OF assms(1) k, of b v] by blast
    then show ?thesis using False by (simp add: b base_amount_discount)
  qed
  then show ?case using Suc split point by simp
qed

lemma total_nonneg:
  assumes "policy_ok p" "\<not> over_discounted p v (length (cp_rules p))"
  shows "0 \<le> (\<Sum>i < length (cp_rules p). rule_amount p v i)"
  unfolding total_by_base[OF assms(1) order_refl]
proof (rule sum_nonneg)
  fix b
  assume b: "b \<in> {..<length (cp_rules p)}"
  then have "\<not> base_amount p v b + discounts p v (length (cp_rules p)) b < 0"
    using assms(2) by (simp only: over_discounted_def lessThan_iff) blast
  then show "0 \<le> (if b < length (cp_rules p) then base_amount p v b else 0) + discounts p v (length (cp_rules p)) b"
    using b by simp
qed

lemma total_bounded:
  assumes "policy_ok p"
  shows "(\<Sum>i < length (cp_rules p). rule_amount p v i) \<le> 64 * MAX_ATOMS"
proof -
  have "(\<Sum>b < length (cp_rules p). (if b < length (cp_rules p) then base_amount p v b else 0) + discounts p v (length (cp_rules p)) b)
      \<le> (\<Sum>b < length (cp_rules p). MAX_ATOMS)"
    using base_amount_bounds[OF assms] discounts_nonpos[OF assms order_refl]
    by (intro sum_mono) (simp add: add_mono_thms_linordered_semiring(1)[of _ MAX_ATOMS _ 0, simplified])
  also have "\<dots> \<le> 64 * MAX_ATOMS"
    using assms by (simp add: policy_ok_def MAX_ATOMS_def)
  finally show ?thesis by (simp only: total_by_base[OF assms order_refl])
qed

lemma evaluate_steps_cases:
  assumes "policy_ok p" "v_status v \<noteq> Some Failed"
  shows "if over_discounted p v (length (cp_rules p)) then evaluate_steps p v None \<in> {Inl exceeds_basis, Inl overflow}
    else \<exists>steps. evaluate_steps p v None = Inr steps \<and> length steps = length (cp_rules p)
      \<and> (\<forall>i < length (cp_rules p). step_shows p v i (steps ! i))"
  using evaluate_loop[OF assms(1) order_refl, of v] assms(2)
  by (auto simp: evaluate_steps_def Let_def loop_state_def split: if_splits)

section \<open>A policy\<close>

text \<open>A base of 100 cents with two discounts of it, for priority work and for a source.\<close>

definition sample_rules :: "json \<Rightarrow> json" where
  "sample_rules amount = JArray [
     jobj [(''id'', JString ''fee''), (''on'', JString ''content.generated''), (''op'', JString ''base''),
       (''component'', JString ''compute.base''), (''book'', JString ''retail''), (''amount'', amount)],
     jobj [(''id'', JString ''vip''), (''on'', JString ''content.generated''), (''op'', JString ''discount''),
       (''component'', JString ''compute.vip''), (''book'', JString ''retail''),
       (''amount'', jobj [(''percent'', JString ''25''), (''basis'', JString ''self.compute.base'')]),
       (''when'', JArray [jobj [(''field'', JString ''binding.priority''), (''eq'', JString ''true'')]]),
       (''discount_mode'', JString ''additive'')]]"

definition sample_members :: "json \<Rightarrow> (string \<times> json) list" where
  "sample_members amount = [(''schema'', JString ''ledger-policy/1''), (''id'', JString ''default''),
     (''currency'', JString ''USD''), (''scale'', JInt 2), (''rounding'', JString ''nearest_ties_away''),
     (''rules'', sample_rules amount)]"

text \<open>The document as an object, and as the array of its members' values.\<close>

definition sample_object :: "json \<Rightarrow> json" where
  "sample_object amount = jobj (sample_members amount)"

definition sample_array :: "json \<Rightarrow> json" where
  "sample_array amount = JArray (map snd (sample_members amount))"

definition sample_dto :: policy_dto where
  "sample_dto = \<lparr>pol_schema = ''ledger-policy/1'', pol_id = ''default'', pol_currency = ''USD'', pol_scale = 2,
     pol_rounding = Some ''nearest_ties_away'', pol_rules = [
       \<lparr>rd_id = ''fee'', rd_on = Generated, rd_op = ''base'', rd_component = ''compute.base'', rd_book = ''retail'',
        rd_amount = AmountFixed \<lparr>coefficient = 1, dscale = 0\<rparr>, rd_when = None, rd_discount_mode = None\<rparr>,
       \<lparr>rd_id = ''vip'', rd_on = Generated, rd_op = ''discount'', rd_component = ''compute.vip'', rd_book = ''retail'',
        rd_amount = AmountPercent \<lparr>coefficient = 25, dscale = 0\<rparr> ''self.compute.base'',
        rd_when = Some [\<lparr>pd_field = ''binding.priority'', pd_eq = ''true''\<rparr>],
        rd_discount_mode = Some ''additive''\<rparr>]\<rparr>"

definition sample_compiled :: compiled_policy where
  "sample_compiled = \<lparr>cp_body = policy_json sample_dto, cp_currency = ''USD'', cp_scale = 2, cp_rules = [
     \<lparr>r_id = ''fee'', r_component = ''compute.base'', r_operation = Base \<lparr>coefficient = 1, dscale = 0\<rparr>, r_predicates = []\<rparr>,
     \<lparr>r_id = ''vip'', r_component = ''compute.vip'',
      r_operation = Discount \<lparr>coefficient = 25, dscale = 0\<rparr> 0 ''self.compute.base'', r_predicates = [PPriority True]\<rparr>]\<rparr>"

definition sample_view :: "bool \<Rightarrow> view" where
  "sample_view b = \<lparr>v_source = ''worker'', v_status = Some Succeeded, v_tier = None, v_funding = ''byok'', v_priority = Some b\<rparr>"


lemma sample_decimals:
  "decimal_parse ''1'' = Inr \<lparr>coefficient = 1, dscale = 0\<rparr>"
  "decimal_parse ''25'' = Inr \<lparr>coefficient = 25, dscale = 0\<rparr>"
  by (simp_all add: decimal_parse_def split_dot_def Let_def is_digit_def byte_def trim_end0_def
      trim_start0_def digits_val_def digits_step_def digit_val_def checked_u128_def u128_max_def)

lemmas sample_decode = sample_rules_def sample_members_def jobj_def om_insert.simps field_def optional_field_def
  rule_decode_def predicate_decode_def json_kind_name[of Generated, simplified] json_decimal_def sample_decimals of_result_def

lemma sample_decodes:
  "policy_decode (sample_object (jobj [(''fixed'', JString ''1'')])) = Some sample_dto"
  "policy_decode (sample_array (jobj [(''fixed'', JString ''1''), (''per_unit'', JString ''5'')])) = Some sample_dto"
  by (simp_all add: sample_object_def sample_array_def sample_dto_def policy_decode_def sample_decode)

lemma sample_percent: "percent \<lparr>coefficient = 25, dscale = 0\<rparr> = Inr \<lparr>numerator = 1, denominator = 4\<rparr>"
  by (simp add: percent_def Let_def decimal_ratio_def ratio_div_def ratio_mul_def ratio_new_def
      reduced_def tmod_def tdiv_def euclid.simps bounded_def)

lemma sample_texts: "check_text ''true'' 128 = Inr ()" "check_text ''self.compute.base'' 128 = Inr ()"
  by (simp_all add: check_text_def text_ok_ascii byte_def)

lemma sample_atoms: "atoms_exact \<lparr>coefficient = 1, dscale = 0\<rparr> 2 = Inr 100"
  by (simp add: atoms_exact_eq decimal_ok_def MAX_ATOMS_def)

lemma sample_slugs:
  "slug ''default'' = Inr ()" "slug ''fee'' = Inr ()" "slug ''vip'' = Inr ()"
  "slug ''compute.base'' = Inr ()" "slug ''compute.vip'' = Inr ()"
  by (simp_all add: slug_def slug_ok_def slug_char_def is_lower_ascii_def byte_def)

lemma sample_compile: "policy_compile sample_dto = Inr sample_compiled"
  by (simp add: sample_compiled_def policy_compile_def sample_dto_def sample_slugs validate_currency_def is_upper_def byte_def
      rule_compile_def operation_compile_def predicate_compile_def sample_texts sample_atoms[simplified]
      sample_percent strip_prefix_def ends_with_def)

lemma sample_from_value:
  "policy_from_value explain (sample_object (jobj [(''fixed'', JString ''1'')])) = Inr sample_compiled"
  "policy_from_value explain (sample_array (jobj [(''fixed'', JString ''1''), (''per_unit'', JString ''5'')])) = Inr sample_compiled"
  "policy_from_value explain (sample_object (jobj [(''fixed'', JString ''1''), (''per_unit'', JString ''5'')]))
     = Inl (Error ''POLICY_UNSUPPORTED_OP'' ''amount form'')"
  by (simp_all add: policy_from_value_def dto_def sample_decodes sample_compile)
     (simp_all add: sample_object_def sample_array_def sample_members_def sample_rules_def jobj_def om_insert.simps legal_amounts_def legal_amount_def sample_compile)

definition sample_steps :: "step list" where
  "sample_steps = [
     \<lparr>st_rule = Some 0, st_code = ''BASE_APPLIED'', st_unrounded = Some \<lparr>numerator = 100, denominator = 1\<rparr>,
      st_rounded = Some 100, st_basis = None, st_inputs = []\<rparr>,
     \<lparr>st_rule = Some 1, st_code = ''DISCOUNT_APPLIED'', st_unrounded = Some \<lparr>numerator = - 25, denominator = 1\<rparr>,
      st_rounded = Some (- 25), st_basis = Some (0, \<lparr>numerator = 100, denominator = 1\<rparr>),
      st_inputs = [(''binding.priority'', PVBoolean True)]\<rparr>]"

lemma sample_ratios:
  "atoms_ratio \<lparr>coefficient = 1, dscale = 0\<rparr> 2 = Inr \<lparr>numerator = 100, denominator = 1\<rparr>"
  "round_atoms \<lparr>numerator = 100, denominator = 1\<rparr> = Inr 100"
  "ratio_mul \<lparr>numerator = 100, denominator = 1\<rparr> \<lparr>numerator = 1, denominator = 4\<rparr> = Inr \<lparr>numerator = 25, denominator = 1\<rparr>"
  "round_atoms \<lparr>numerator = - 25, denominator = 1\<rparr> = Inr (- 25)"
  by (simp_all add: atoms_ratio_def decimal_ratio_def ratio_mul_def ratio_new_def reduced_def tmod_def tdiv_def
      euclid.simps bounded_def ratio_integer_def round_atoms_def checked_atoms_def checked_i128_def in_i128_def i128_max_def MAX_ATOMS_def Let_def)

lemma sample_evaluates: "evaluate_steps sample_compiled (sample_view True) None = Inr sample_steps"
  by (simp add: evaluate_steps_def sample_compiled_def sample_view_def sample_steps_def rule_eval_def predicates_eval_def
      predicate_step_def upt_rec sample_ratios[simplified] discount_check_def add_atoms_def checked_atoms_def checked_i128_def in_i128_def i128_max_def MAX_ATOMS_def
      sample_percent negated_def Let_def ratio_integer_def)

section \<open>Properties\<close>

text \<open>
  A policy document that compiles has between 1 and 64 rules with distinct identifiers and
  distinct components, each with at most 8 predicates, a scale of at most 18 and a currency of
  three capitals; every base precedes every discount and has an amount exact at the scale; every
  discount is a percentage of at most 100 of the component of an earlier base it names.
\<close>

theorem compiled_policy_ok:
  assumes "policy_from_value explain doc = Inr p"
  shows "policy_ok p"
  using assms by (rule policy_compile_ok)

theorem compiled_policy_ok_witness: "policy_ok sample_compiled"
  by (rule compiled_policy_ok[OF sample_from_value(1)])

text \<open>
  C32: evaluating a compiled policy on work that did not fail has the result of the reference: a
  step for every rule, in order, with the amount computed in exact arithmetic and rounded to
  atoms, halves away from zero; the only errors are a combined discount above its base (or an
  overflow of the combined discounts), and then and only then the discounts do exceed a base. No
  index or arithmetic operation of the loop panics.
\<close>

theorem policy_evaluation_reference:
  assumes "policy_from_value explain doc = Inr p" and "v_status v \<noteq> Some Failed"
  shows "if over_discounted p v (length (cp_rules p)) then evaluate_steps p v None \<in> {Inl exceeds_basis, Inl overflow}
    else \<exists>steps. evaluate_steps p v None = Inr steps \<and> length steps = length (cp_rules p)
      \<and> (\<forall>i < length (cp_rules p). step_shows p v i (steps ! i))"
  by (rule evaluate_steps_cases[OF policy_compile_ok[OF assms(1)] assms(2)])

theorem policy_evaluation_reference_witness:
  "if over_discounted sample_compiled (sample_view True) (length (cp_rules sample_compiled))
   then evaluate_steps sample_compiled (sample_view True) None \<in> {Inl exceeds_basis, Inl overflow}
   else \<exists>steps. evaluate_steps sample_compiled (sample_view True) None = Inr steps
      \<and> length steps = length (cp_rules sample_compiled)
      \<and> (\<forall>i < length (cp_rules sample_compiled). step_shows sample_compiled (sample_view True) i (steps ! i))"
  by (rule policy_evaluation_reference[OF sample_from_value(1)]) (simp add: sample_view_def)

text \<open>
  C33: what a compiled policy charges in total is never negative and never above 64 times the
  largest amount, whatever event it is evaluated on.
\<close>

theorem policy_total_bounds:
  assumes "policy_from_value explain doc = Inr p" and "evaluate_steps p v None = Inr steps"
  shows "0 \<le> booked_total steps \<and> booked_total steps \<le> 64 * MAX_ATOMS"
proof (cases "v_status v = Some Failed")
  case True
  then show ?thesis using assms(2) by (auto simp: evaluate_steps_def booked_total_def MAX_ATOMS_def)
next
  case False
  note ok = policy_compile_ok[OF assms(1)]
  have no: "\<not> over_discounted p v (length (cp_rules p))"
    and shows_all: "length steps = length (cp_rules p)" "\<forall>i < length (cp_rules p). step_shows p v i (steps ! i)"
    using evaluate_steps_cases[OF ok False] assms(2) by (auto split: if_splits)
  show ?thesis
    unfolding total_of_steps[OF shows_all] using total_nonneg[OF ok no] total_bounded[OF ok] by simp
qed

theorem policy_total_bounds_witness: "0 \<le> booked_total sample_steps \<and> booked_total sample_steps \<le> 64 * MAX_ATOMS"
  by (rule policy_total_bounds[OF sample_from_value(1) sample_evaluates])

section \<open>Policies written as arrays\<close>


















end
