(* ===== verification/Store_Error.thy ===== *)
theory Store_Error
  imports Prelude
begin

text \<open>
  The storage boundary's errors (\<^verbatim>\<open>store/errors.rs\<close>) and their two classifications: which may be
  retried after a rollback, and which turn writes off. Of the database drivers only what the
  classifications read is kept: the SQLSTATE of PostgreSQL, and for SQLite whether the pool timed
  out or the database reported a code.
\<close>

datatype db_error = PoolTimedOut | DbCode "string option" | DbOther

datatype store_error =
    SeResourceQuota string nat nat
  | SeIo | SeDatabase db_error | SePostgres "string option" | SeMigration
  | SeOwned | SeOverloaded | SeReadBudgetExhausted | SeBillingHistoryLimit | SeBillingPeriod
  | SeBillingClockNotAdvanced | SeBillingUpgradeRequired | SeBillingM5SchemaRequired
  | SeManualCreditProfileRequired | SeDeadline
  | SeInvalidStore string | SeIntegrity string | SeWritesDisabled
  | SeExpectedCurrent | SeDeliveryConflict

text \<open>\<open>str::parse::<u32>\<close>: an optional plus sign, at least one digit, and the range.\<close>

definition parse_u32 :: "string \<Rightarrow> nat option" where
  "parse_u32 s =
     (let d = (case s of c # t \<Rightarrow> if c = CHR ''+'' then t else s | [] \<Rightarrow> []) in
      if d = [] \<or> \<not> list_all is_digit d \<or> digits_val d > 4294967295 then None
      else Some (digits_val d))"

fun db_code :: "db_error \<Rightarrow> nat option" where
  "db_code (DbCode (Some s)) = parse_u32 s"
| "db_code _ = None"

fun retryable_after_rollback :: "store_error \<Rightarrow> bool" where
  "retryable_after_rollback (SePostgres c) =
     (c \<in> {Some ''40001'', Some ''40P01'', Some ''55P03'', Some ''23505''})"
| "retryable_after_rollback SeExpectedCurrent = True"
| "retryable_after_rollback SeOverloaded = True"
| "retryable_after_rollback SeDeadline = True"
| "retryable_after_rollback (SeDatabase PoolTimedOut) = True"
| "retryable_after_rollback (SeDatabase e) =
     (case db_code e of Some c \<Rightarrow> c mod 256 = 5 \<or> c mod 256 = 6 | None \<Rightarrow> False)"
| "retryable_after_rollback _ = False"

fun disables_writes :: "store_error \<Rightarrow> bool" where
  "disables_writes (SeIntegrity _) = True"
| "disables_writes (SeDatabase (DbCode c)) =
     (case db_code (DbCode c) of Some c \<Rightarrow> c mod 256 \<in> {10, 11, 13, 26} | None \<Rightarrow> False)"
| "disables_writes (SeDatabase _) = True"
| "disables_writes _ = False"

text \<open>SQLite's extended codes for the constraints of the schema (all with primary code 19).\<close>

definition constraint_check :: store_error where "constraint_check = SeDatabase (DbCode (Some ''275''))"
definition constraint_key :: store_error where "constraint_key = SeDatabase (DbCode (Some ''1555''))"
definition constraint_foreign :: store_error where "constraint_foreign = SeDatabase (DbCode (Some ''787''))"
definition constraint_unique :: store_error where "constraint_unique = SeDatabase (DbCode (Some ''2067''))"
definition constraint_trigger :: store_error where "constraint_trigger = SeDatabase (DbCode (Some ''1811''))"

end
