(* ===== verification/Outbox_Types.thy ===== *)
theory Outbox_Types
  imports Canonical_Properties Json_Values Store_Error
begin

text \<open>
  The data of the outbox (\<^verbatim>\<open>outbox/mod.rs\<close>): delivery rows and their states, leases, attempts,
  requests, the snapshot a transaction reads and the mutation it writes; and the functions of that
  file: decoding an intention into the request it asks for, the operational digests, the retry
  delay and the state a reconciliation assigns.

  SHA-256, \<open>serde_json\<close>'s string decoder and its general parser are other crates: the record
  \<open>external\<close> carries them.
\<close>

section \<open>Other crates\<close>

record external =
  sha256 :: "string \<Rightarrow> string"
  serde :: pinned
  from_slice :: "string \<Rightarrow> json option"

section \<open>Types\<close>

datatype oerror = OHeld | OOwned | OFenced | OStaleReport | ONeedsReview | OInvalidInput | OScanLimit
  | ORetryable | OOutcomeUnknown | OUnavailable | OIntegrity

datatype dstate = DHeld | DPending | DLeased | DDelivered | DRetry | DUnknown | DRejected

fun state_name :: "dstate \<Rightarrow> string" where
  "state_name DHeld = ''held''"
| "state_name DPending = ''pending''"
| "state_name DLeased = ''leased''"
| "state_name DDelivered = ''delivered''"
| "state_name DRetry = ''retry''"
| "state_name DUnknown = ''unknown''"
| "state_name DRejected = ''rejected''"

definition state_parse :: "string \<Rightarrow> store_error + dstate" where
  "state_parse s =
     (if s = ''held'' then Inr DHeld else if s = ''pending'' then Inr DPending
      else if s = ''leased'' then Inr DLeased else if s = ''delivered'' then Inr DDelivered
      else if s = ''retry'' then Inr DRetry else if s = ''unknown'' then Inr DUnknown
      else if s = ''rejected'' then Inr DRejected else Inl (SeIntegrity ''delivery state''))"

lemma state_parse_name: "state_parse (state_name s) = Inr s"
  by (cases s) (simp_all add: state_parse_def)

record delivery =
  intention_id :: string
  dstate :: dstate
  attempts :: int
  next_attempt_us :: int
  downer :: "string option"
  dgeneration :: int
  duntil :: "int option"
  last_observation :: "string option"
  dquarantine :: "string option"

record lease =
  lstore :: string
  lowner :: string
  lgeneration :: int
  restore_generation :: int

record request =
  store_id :: string
  rkey :: string
  request_hash :: string
  payload :: string

record attempt =
  alease :: lease
  anumber :: int
  auntil :: int
  arequest :: request

record report =
  rdigest :: string
  unresolved :: "string list"
  orphan_keys :: "string list"
  unresolved_count :: int
  orphan_count :: int
  intention_count :: int

record intention =
  iid :: string
  idestination :: string
  ikey :: string
  ibytes :: string
  ihash :: string

record head =
  howner :: "string option"
  hgeneration :: int
  huntil :: "int option"
  henabled :: bool
  revision :: int

record installation =
  tenant :: string
  environment :: string
  logical_store_id :: string
  imode :: string
  admission :: string
  dispatch_hold :: bool
  dispatch_enabled :: bool
  igeneration :: int

record snapshot =
  sinstallation :: installation
  shead :: head
  items :: "(intention \<times> delivery) list"
  sreport :: "(string \<times> string) option"

definition PAGE_SIZE :: nat where "PAGE_SIZE = 64"

datatype query = QControl | QPage string "int option" | QKey string

definition query_page :: "string \<Rightarrow> query" where "query_page after = QPage after None"

datatype sweep = SweepLeases | SweepExpired int | SweepRestore

record mutation =
  msnapshot :: snapshot
  msweep :: "sweep option"
  mquarantine :: "(string \<times> string \<times> string) option"
  mattempt :: "(string \<times> int \<times> int \<times> string \<times> string) option"
  mobservation :: string
  mreport :: "(string \<times> string) option"

section \<open>Functions\<close>

text \<open>Every error of the canonical layer is \<open>Integrity\<close> here.\<close>

definition integrity :: "'a result \<Rightarrow> oerror + 'a" where
  "integrity r = (case r of Inl _ \<Rightarrow> Inl OIntegrity | Inr x \<Rightarrow> Inr x)"

lemma integrity_Inr [simp]: "integrity r = Inr x \<longleftrightarrow> r = Inr x"
  by (simp add: integrity_def split: sum.splits)

definition obytes :: "json \<Rightarrow> oerror + string" where
  "obytes v = integrity (from_value v)"

definition odigest :: "external \<Rightarrow> json \<Rightarrow> oerror + string" where
  "odigest x v =
     integrity (digest (sha256 x) DomRecordContent (JArray [JString ''outbox-operational'', JInt 1, v]))"

definition intention_request :: "external \<Rightarrow> intention \<Rightarrow> snapshot \<Rightarrow> oerror + (request \<times> string list)" where
  "intention_request x i s =
     rbind (integrity (parse_bounded (serde x) (ibytes i) BUNDLE_LIMIT)) (\<lambda>v.
     let inst = sinstallation s in
     rbind (obytes v) (\<lambda>again.
     if again \<noteq> ibytes i then Inl OIntegrity
     else rbind (integrity (digest (sha256 x) DomRecordContent (JArray [JString ''intention'', JInt 1, v]))) (\<lambda>hash.
     if hash \<noteq> ihash i
        \<or> jget v ''id'' \<noteq> JString (iid i)
        \<or> jget v ''idempotency_key'' \<noteq> JString (ikey i)
        \<or> ikey i \<noteq> iid i
        \<or> idestination i \<noteq> ''fake''
        \<or> jget v ''destination_id'' \<noteq> JString (idestination i)
        \<or> jget v ''scope'' \<noteq> JArray [JString (tenant inst), JString (environment inst)]
        \<or> jget v ''schema'' \<noteq> JString ''ledger-intention/1''
     then Inl OIntegrity
     else
       rbind (ok_or (json_strings (jget v ''depends_on'')) OIntegrity) (\<lambda>dependencies.
       rbind (ok_or (jlookup v ''payload'') OIntegrity) (\<lambda>body.
       rbind (integrity (digest (sha256 x) DomIntentionPayload body)) (\<lambda>rhash.
       rbind (obytes body) (\<lambda>bs.
       Inr (\<lparr>store_id = logical_store_id inst, rkey = ikey i, request_hash = rhash, payload = bs\<rparr>,
            dependencies))))))))"

definition plus :: "int \<Rightarrow> int \<Rightarrow> oerror + int" where
  "plus v n = ok_or (checked_i64 (v + n)) OInvalidInput"

definition retry_delay :: "int \<Rightarrow> int" where
  "retry_delay attempt = min (push_bit (nat (max 0 (min 9 (attempt - 1)))) 1000000) 300000000"

definition fingerprint_start :: "external \<Rightarrow> snapshot \<Rightarrow> oerror + string" where
  "fingerprint_start x s =
     odigest x (JArray [JString ''reconciliation-v2'', JString (logical_store_id (sinstallation s)),
       jstr (igeneration (sinstallation s)), jstr (hgeneration (shead s))])"

definition fingerprint_item :: "external \<Rightarrow> string \<Rightarrow> intention \<Rightarrow> delivery \<Rightarrow> oerror + string" where
  "fingerprint_item x previous i d =
     odigest x (JArray [JString previous, JString (iid i), JString (ihash i),
       JString (state_name (dstate d)), jstr (attempts d), jstr (next_attempt_us d),
       jopt (last_observation d), jopt (dquarantine d)])"

definition request_value :: "request \<Rightarrow> json" where
  "request_value r = jobj [(''store_id'', JString (store_id r)), (''key'', JString (rkey r)),
     (''request_hash'', JString (request_hash r)), (''payload_hex'', JString (hex (payload r)))]"

end
