(* ===== verification/Destination.thy ===== *)
theory Destination
  imports Outbox_Types
begin

text \<open>
  The independent in-memory destination of \<^verbatim>\<open>outbox/fake.rs\<close>: a fence for each store (the
  dispatcher generation allowed to send, and until when) and a receipt for each store and key.
  Its lock is never poisoned here; each operation is atomic. The laws the dispatcher relies on
  are a locale, interpreted on the model.
\<close>

datatype mode = Normal | FailBeforeReceipt | LoseResponse | Reject | UnknownLookup

record receipt =
  receipt_request :: request
  remote_id :: string

datatype outcome = Delivered receipt | Absent | Unknown | Rejected | Fenced

record destination_data =
  fences :: "(string, int \<times> int) omap"
  receipts :: "(string \<times> string, receipt) omap"

definition new_destination :: destination_data where
  "new_destination = \<lparr>fences = [], receipts = []\<rparr>"

definition fence :: "string \<Rightarrow> int \<Rightarrow> int \<Rightarrow> destination_data \<Rightarrow> (oerror + unit) \<times> destination_data" where
  "fence store generation until d =
     (if (case map_of (fences d) store of Some (g, _) \<Rightarrow> g > generation | None \<Rightarrow> False)
      then (Inl OFenced, d)
      else (Inr (), d\<lparr>fences := om_insert store (generation, until) (fences d)\<rparr>))"

definition generation :: "string \<Rightarrow> destination_data \<Rightarrow> int" where
  "generation store d = (case map_of (fences d) store of Some (g, _) \<Rightarrow> g | None \<Rightarrow> 0)"

definition fake_receipt :: "attempt \<Rightarrow> receipt" where
  "fake_receipt a = \<lparr>receipt_request = arequest a, remote_id = ''fake:'' @ rkey (arequest a)\<rparr>"

definition dest_send :: "attempt \<Rightarrow> int \<Rightarrow> mode \<Rightarrow> destination_data \<Rightarrow> outcome \<times> destination_data" where
  "dest_send a now mode d =
     (if now \<ge> auntil a
       \<or> \<not> (case map_of (fences d) (store_id (arequest a)) of
              Some (g, until) \<Rightarrow> g = lgeneration (alease a) \<and> now < until | None \<Rightarrow> False)
      then (Fenced, d)
      else
        let key = (store_id (arequest a), rkey (arequest a));
            answer = (\<lambda>r. if mode = LoseResponse then Unknown else Delivered r) in
        case map_of (receipts d) key of
          Some r \<Rightarrow> if receipt_request r \<noteq> arequest a then (Rejected, d) else (answer r, d)
        | None \<Rightarrow>
            if mode = FailBeforeReceipt then (Absent, d)
            else if mode = Reject then (Rejected, d)
            else
              (answer (fake_receipt a), d\<lparr>receipts := om_insert key (fake_receipt a) (receipts d)\<rparr>))"

definition store_receipts :: "string \<Rightarrow> destination_data \<Rightarrow> receipt list" where
  "store_receipts store d = map snd (filter (\<lambda>((s, _), _). s = store) (receipts d))"

definition lookup :: "string \<Rightarrow> string \<Rightarrow> mode \<Rightarrow> destination_data \<Rightarrow> outcome" where
  "lookup store key mode d =
     (if mode = UnknownLookup then Unknown
      else case map_of (receipts d) (store, key) of None \<Rightarrow> Absent | Some r \<Rightarrow> Delivered r)"

definition keys_page :: "string \<Rightarrow> string \<Rightarrow> destination_data \<Rightarrow> string list" where
  "keys_page store after d =
     map (snd \<circ> fst) (take PAGE_SIZE (takeWhile (\<lambda>((s, _), _). s = store) (om_after (store, after) (receipts d))))"

text \<open>The entries at or after a key, as \<open>range(k..)\<close> enumerates them.\<close>

definition om_from :: "'k::linorder \<Rightarrow> ('k, 'v) omap \<Rightarrow> ('k, 'v) omap" where
  "om_from k m = filter (\<lambda>e. k \<le> fst e) m"

definition inventory_digest :: "external \<Rightarrow> string \<Rightarrow> mode \<Rightarrow> destination_data \<Rightarrow> oerror + string option" where
  "inventory_digest x store mode d =
     (if mode = UnknownLookup then Inr None
      else
        rbind (odigest x (JArray [JString ''fake-inventory-v2'', JString store])) (\<lambda>start.
        rbind (rfold (\<lambda>(_, r) hash.
             odigest x (JArray [JString hash, request_value (receipt_request r), JString (remote_id r)]))
           (takeWhile (\<lambda>((s, _), _). s = store) (om_from (store, []) (receipts d))) start) (\<lambda>hash.
        Inr (Some hash))))"

text \<open>
  The state a reconciliation assigns (\<open>reconciled_state\<close> of \<^verbatim>\<open>outbox/mod.rs\<close>).
\<close>

definition reconciled_state :: "delivery \<Rightarrow> request \<Rightarrow> outcome \<Rightarrow> dstate" where
  "reconciled_state d request outcome =
     (if dstate d = DRejected then DRejected
      else case outcome of
        Delivered r \<Rightarrow> if receipt_request r = request then DDelivered else DRejected
      | Rejected \<Rightarrow> DRejected
      | Absent \<Rightarrow> if attempts d \<ge> 20 then DRejected else DPending
      | Unknown \<Rightarrow> DUnknown
      | Fenced \<Rightarrow> DUnknown)"


section \<open>What a sender relies on\<close>

definition receipt_key :: "attempt \<Rightarrow> string \<times> string" where
  "receipt_key a = (store_id (arequest a), rkey (arequest a))"

text \<open>
  The contract of a fenced receiver. A fence only moves to a generation at least as high; an
  attempt is received only under a fence of its own generation that has not run out; a request is
  recorded once under its key, and a second request under the key is answered from the record.
\<close>

locale fenced_receiver =
  fixes inv :: "'d \<Rightarrow> bool"
    and fence_of :: "'d \<Rightarrow> string \<Rightarrow> (int \<times> int) option"
    and receipt_of :: "'d \<Rightarrow> string \<times> string \<Rightarrow> receipt option"
    and set_fence :: "string \<Rightarrow> int \<Rightarrow> int \<Rightarrow> 'd \<Rightarrow> (oerror + unit) \<times> 'd"
    and receive :: "attempt \<Rightarrow> int \<Rightarrow> mode \<Rightarrow> 'd \<Rightarrow> outcome \<times> 'd"
  assumes fence_refused: "set_fence s g u d = (Inl e, d') \<Longrightarrow> d' = d"
    and fence_set: "inv d \<Longrightarrow> set_fence s g u d = (Inr v, d') \<Longrightarrow>
      inv d' \<and> fence_of d' = (fence_of d)(s \<mapsto> (g, u)) \<and> receipt_of d' = receipt_of d
      \<and> (\<forall>h w. fence_of d s = Some (h, w) \<longrightarrow> h \<le> g)"
    and receive_frame: "inv d \<Longrightarrow> receive a now m d = (oc, d') \<Longrightarrow> inv d' \<and> fence_of d' = fence_of d"
    and receive_fenced:
      "\<not> (\<exists>u. fence_of d (store_id (arequest a)) = Some (lgeneration (alease a), u)) \<Longrightarrow>
       receive a now m d = (Fenced, d)"
    and receive_known: "receipt_of d (receipt_key a) = Some r \<Longrightarrow> receive a now m d = (oc, d') \<Longrightarrow>
      d' = d \<and> (oc = Delivered q \<longrightarrow> q = r \<and> receipt_request r = arequest a)"
    and receive_new: "inv d \<Longrightarrow> receipt_of d (receipt_key a) = None \<Longrightarrow> receive a now m d = (oc, d') \<Longrightarrow>
      d' = d \<and> (\<forall>q. oc \<noteq> Delivered q)
      \<or> (\<exists>r. receipt_request r = arequest a \<and> receipt_of d' = (receipt_of d)(receipt_key a \<mapsto> r)
             \<and> (oc = Unknown \<or> oc = Delivered r))"
begin

text \<open>What can only be added to as operations follow one another.\<close>

definition later :: "'d \<Rightarrow> 'd \<Rightarrow> bool" where
  "later d d' \<longleftrightarrow> (inv d \<longrightarrow> inv d')
     \<and> (\<forall>s g u. fence_of d s = Some (g, u) \<longrightarrow> (\<exists>g' u'. fence_of d' s = Some (g', u') \<and> g \<le> g'))
     \<and> receipt_of d \<subseteq>\<^sub>m receipt_of d'"

lemma later_refl: "later d d"
  by (simp add: later_def)

lemma later_trans: "later a b \<Longrightarrow> later b c \<Longrightarrow> later a c"
  unfolding later_def by (meson map_le_trans order_trans)

lemma fence_later: "inv d \<Longrightarrow> set_fence s g u d = (r, d') \<Longrightarrow> later d d'"
proof (cases r)
  case (Inl e)
  assume "set_fence s g u d = (r, d')"
  then show ?thesis using fence_refused Inl later_refl by blast
next
  case (Inr v)
  assume "inv d" and "set_fence s g u d = (r, d')"
  then show ?thesis using fence_set[of d s g u v d'] Inr by (auto simp: later_def)
qed

lemma receive_later:
  assumes "inv d" and "receive a now m d = (oc, d')"
  shows "later d d'"
proof (cases "receipt_of d (receipt_key a)")
  case (Some r)
  then show ?thesis using receive_known[OF Some assms(2)] later_refl by blast
next
  case None
  then show ?thesis
    using receive_new[OF assms(1) None assms(2)] receive_frame[OF assms]
    by (auto simp: later_def map_le_def)
qed

lemma later_fence:
  "later d d' \<Longrightarrow> fence_of d s = Some (g, u) \<Longrightarrow> \<exists>g' u'. fence_of d' s = Some (g', u') \<and> g \<le> g'"
  unfolding later_def by blast

lemma later_receipt: "later d d' \<Longrightarrow> receipt_of d k = Some r \<Longrightarrow> receipt_of d' k = Some r"
  unfolding later_def map_le_def by (metis domI)

text \<open>A lease that has been superseded once is refused for ever.\<close>

lemma stale_forever:
  assumes "fence_of d (store_id (arequest a)) = Some (g, u)" and "lgeneration (alease a) < g" and "later d d'"
  shows "receive a now m d' = (Fenced, d')"
proof -
  obtain g' u' where "fence_of d' (store_id (arequest a)) = Some (g', u')" "g \<le> g'"
    using later_fence[OF assms(3,1)] by blast
  with assms(2) show ?thesis by (intro receive_fenced) auto
qed

lemma delivered_recorded:
  assumes "inv d" and "receive a now m d = (Delivered r, d')"
  shows "receipt_of d' (receipt_key a) = Some r" and "receipt_request r = arequest a"
proof -
  have "receipt_of d' (receipt_key a) = Some r \<and> receipt_request r = arequest a"
  proof (cases "receipt_of d (receipt_key a)")
    case (Some q)
    then show ?thesis using receive_known[OF Some assms(2)] by auto
  next
    case None
    then show ?thesis using receive_new[OF assms(1) None assms(2)] by auto
  qed
  then show "receipt_of d' (receipt_key a) = Some r" "receipt_request r = arequest a" by simp_all
qed

text \<open>Two deliveries under one key, however far apart, are of one receipt and one request.\<close>

lemma delivered_once:
  assumes "inv d" and "receive a now m d = (Delivered r, d1)" and "later d1 d2"
    and "receive b now' m' d2 = (Delivered q, d3)" and "receipt_key b = receipt_key a"
  shows "q = r" and "arequest b = arequest a"
proof -
  have "receipt_of d1 (receipt_key a) = Some r" by (rule delivered_recorded[OF assms(1,2)])
  then have "receipt_of d2 (receipt_key a) = Some r" by (rule later_receipt[OF assms(3)])
  then have k: "receipt_of d2 (receipt_key b) = Some r" using assms(5) by simp
  then show "q = r" using receive_known[OF k assms(4)] by simp
  with receive_known[OF k assms(4), of r] delivered_recorded(2)[OF assms(1,2)]
  show "arequest b = arequest a" by simp
qed

end

definition dest_ok :: "destination_data \<Rightarrow> bool" where
  "dest_ok d \<longleftrightarrow> om_ok (fences d) \<and> om_ok (receipts d)"

interpretation receiver: fenced_receiver dest_ok "\<lambda>d. map_of (fences d)" "\<lambda>d. map_of (receipts d)" fence dest_send
proof (unfold_locales, goal_cases)
  case (1 s g u d e d')
  then show ?case by (auto simp: fence_def split: if_splits)
next
  case (2 d s g u v d')
  then show ?case
    by (auto simp: fence_def dest_ok_def om_insert_ok om_insert_get split: if_splits option.splits)
next
  case (3 d a now m oc d')
  then show ?case
    by (auto simp: dest_send_def dest_ok_def om_insert_ok Let_def split: if_splits option.splits)
next
  case (4 d a now m)
  then show ?case by (auto simp: dest_send_def split: option.splits)
next
  case (5 d a r now m oc d' q)
  then show ?case by (auto simp: dest_send_def receipt_key_def Let_def split: if_splits option.splits)
next
  case (6 d a now m oc d')
  have "receipt_request (fake_receipt a) = arequest a" by (simp add: fake_receipt_def)
  with 6 show ?case
    by (auto simp: dest_send_def dest_ok_def receipt_key_def om_insert_get Let_def
        intro!: exI[of _ "fake_receipt a"] split: if_splits option.splits)
qed

end
