(* ===== verification/Outbox_Store.thy ===== *)
theory Outbox_Store
  imports Outbox_Types
begin

text \<open>
  The outbox tables of one installation and their two operations, \<open>read\<close> and \<open>write\<close> of
  \<^verbatim>\<open>store/sqlite/outbox.rs\<close>, with the constraints and triggers of the migrations as errors. Every
  row belongs to the installation's scope, which the queries select by. A statement that violates
  a constraint fails as a whole and its transaction is rolled back.
\<close>

section \<open>Tables\<close>

text \<open>A row of \<open>delivery_state\<close>; the quarantine digest of \<open>delivery\<close> comes from a join.\<close>

record row =
  row_state :: dstate
  row_attempts :: int
  row_next :: int
  row_owner :: "string option"
  row_generation :: int
  row_until :: "int option"
  row_observation :: "string option"

record attempt_row =
  at_generation :: int
  at_started :: int
  at_request_hash :: string
  at_bytes :: string

record tables =
  t_installation :: installation
  t_head :: head
  t_intentions :: "(string, intention) omap"
  t_deliveries :: "(string, row) omap"
  t_quarantines :: "(string, string \<times> string) omap"
  t_attempts :: "(string \<times> int, attempt_row) omap"
  t_observations :: "(int, int \<times> string) omap"
  t_reports :: "(int \<times> string \<times> int \<times> string) list"

text \<open>
  What the schema gives: every table is ordered by its primary key, and every row satisfies the
  checks of its table.
\<close>

definition row_ok :: "row \<Rightarrow> bool" where
  "row_ok r \<longleftrightarrow> 0 \<le> row_attempts r \<and> 0 \<le> row_generation r
     \<and> (if row_state r = DLeased then row_owner r \<noteq> None \<and> row_until r \<noteq> None
        else row_owner r = None \<and> row_until r = None)"

definition head_ok :: "head \<Rightarrow> bool" where
  "head_ok h \<longleftrightarrow> 0 \<le> hgeneration h \<and> 0 \<le> revision h \<and> (howner h = None) = (huntil h = None)"

definition tables_ok :: "tables \<Rightarrow> bool" where
  "tables_ok t \<longleftrightarrow> om_ok (t_intentions t) \<and> om_ok (t_deliveries t) \<and> om_ok (t_quarantines t)
     \<and> om_ok (t_attempts t) \<and> om_ok (t_observations t)
     \<and> (\<forall>k r. map_of (t_deliveries t) k = Some r \<longrightarrow> row_ok r)
     \<and> head_ok (t_head t) \<and> 0 \<le> igeneration (t_installation t)"

section \<open>Reading\<close>

text \<open>The rows a query selects, in the order of their identifiers, before the byte limit.\<close>

definition is_due :: "tables \<Rightarrow> int \<Rightarrow> string \<Rightarrow> bool" where
  "is_due t now ident =
     (case map_of (t_deliveries t) ident of
        None \<Rightarrow> False
      | Some r \<Rightarrow> row_state r \<in> {DHeld, DPending, DRetry} \<and> row_attempts r < 20 \<and> row_next r \<le> now
          \<and> map_of (t_quarantines t) ident = None)"

fun query_parts :: "query \<Rightarrow> string \<times> string option \<times> int option \<times> nat" where
  "query_parts QControl = ([], None, None, 0)"
| "query_parts (QPage after due) = (after, None, due, PAGE_SIZE)"
| "query_parts (QKey key) = ([], Some key, None, 1)"

definition selected :: "tables \<Rightarrow> query \<Rightarrow> (string \<times> intention) list" where
  "selected t q =
     (case query_parts q of (after, key, due, limit) \<Rightarrow>
        take limit (filter (\<lambda>(ident, _). after < ident
            \<and> (case key of None \<Rightarrow> True | Some k \<Rightarrow> ident = k)
            \<and> (case due of None \<Rightarrow> True | Some now \<Rightarrow> is_due t now ident)) (t_intentions t)))"

definition row_delivery :: "tables \<Rightarrow> string \<Rightarrow> row \<Rightarrow> delivery" where
  "row_delivery t ident r =
     \<lparr>intention_id = ident, dstate = row_state r, attempts = row_attempts r,
      next_attempt_us = row_next r, downer = row_owner r, dgeneration = row_generation r,
      duntil = row_until r, last_observation = row_observation r,
      dquarantine = map_option fst (map_of (t_quarantines t) ident)\<rparr>"

definition SCAN_BYTES :: nat where "SCAN_BYTES = 8 * 1024 * 1024"

text \<open>A missing delivery row shows as a null column, which does not decode.\<close>

fun read_items :: "tables \<Rightarrow> nat \<Rightarrow> (string \<times> intention) list \<Rightarrow> store_error + (intention \<times> delivery) list" where
  "read_items t acc [] = Inr []"
| "read_items t acc ((ident, i) # rest) =
     (let size = length (ibytes i) in
      if size > BUNDLE_LIMIT then Inl (SeInvalidStore ''outbox scan limit'')
      else if acc + size > SCAN_BYTES then Inr []
      else
        rbind (ok_or (map_of (t_deliveries t) ident) (SeDatabase DbOther)) (\<lambda>r.
        rbind (read_items t (acc + size) rest) (\<lambda>its.
        Inr ((i\<lparr>iid := ident\<rparr>, row_delivery t ident r) # its))))"

definition last_report :: "tables \<Rightarrow> (string \<times> string) option" where
  "last_report t =
     (if t_reports t = [] then None
      else (case last (sort_key fst (t_reports t)) of (_, hash, _, body) \<Rightarrow> Some (hash, body)))"

definition load_outbox :: "tables \<Rightarrow> query \<Rightarrow> store_error + snapshot" where
  "load_outbox t q =
     rbind (read_items t 0 (selected t q)) (\<lambda>its.
     Inr \<lparr>sinstallation = t_installation t, shead = t_head t, items = its, sreport = last_report t\<rparr>)"

section \<open>Writing\<close>

text \<open>One update of \<open>delivery_state\<close>: the terminal guard, then the row's own checks.\<close>

definition guard_delivery :: "tables \<Rightarrow> string \<Rightarrow> row \<Rightarrow> row \<Rightarrow> store_error + unit" where
  "guard_delivery t ident old new =
     (if row_state old = DRejected \<and> row_state new \<noteq> DRejected
         \<or> row_attempts new < row_attempts old
         \<or> row_state new = DLeased \<and> map_of (t_quarantines t) ident \<noteq> None
      then Inl constraint_trigger
      else if \<not> row_ok new then Inl constraint_check
      else Inr ())"

definition update_delivery :: "string \<Rightarrow> (row \<Rightarrow> row) \<Rightarrow> tables \<Rightarrow> store_error + tables" where
  "update_delivery ident f t =
     (case map_of (t_deliveries t) ident of
        None \<Rightarrow> Inr t
      | Some old \<Rightarrow>
          rbind (guard_delivery t ident old (f old)) (\<lambda>_.
          Inr (t\<lparr>t_deliveries := om_insert ident (f old) (t_deliveries t)\<rparr>)))"

definition update_installation :: "installation \<Rightarrow> tables \<Rightarrow> store_error + tables" where
  "update_installation i t =
     (if igeneration i < 0 then Inl constraint_check
      else Inr (t\<lparr>t_installation := (t_installation t)
             \<lparr>igeneration := igeneration i, dispatch_hold := dispatch_hold i,
              dispatch_enabled := dispatch_enabled i\<rparr>\<rparr>))"

definition update_head :: "head \<Rightarrow> tables \<Rightarrow> store_error + tables" where
  "update_head h t =
     (if \<not> head_ok h then Inl constraint_check else Inr (t\<lparr>t_head := h\<rparr>))"

definition swept :: "sweep \<Rightarrow> row \<Rightarrow> bool" where
  "swept sw r =
     (case sw of
        SweepLeases \<Rightarrow> row_state r = DLeased
      | SweepExpired now \<Rightarrow> row_state r = DLeased \<and> (case row_until r of Some u \<Rightarrow> u \<le> now | None \<Rightarrow> False)
      | SweepRestore \<Rightarrow> row_state r \<noteq> DRejected)"

definition sweep_row :: "row \<Rightarrow> row" where
  "sweep_row r = r\<lparr>row_state := DUnknown, row_owner := None, row_until := None\<rparr>"

definition sweep_tables :: "sweep \<Rightarrow> tables \<Rightarrow> store_error + tables" where
  "sweep_tables sw t =
     rfold (\<lambda>(ident, r) t. if swept sw r then update_delivery ident sweep_row t else Inr t) (t_deliveries t) t"

definition set_row :: "delivery \<Rightarrow> row \<Rightarrow> row" where
  "set_row d _ =
     \<lparr>row_state = dstate d, row_attempts = attempts d, row_next = next_attempt_us d,
      row_owner = downer d, row_generation = dgeneration d, row_until = duntil d,
      row_observation = last_observation d\<rparr>"

definition insert_quarantine :: "string \<times> string \<times> string \<Rightarrow> tables \<Rightarrow> store_error + tables" where
  "insert_quarantine q t =
     (case q of (ident, hash, body) \<Rightarrow>
        if map_of (t_quarantines t) ident \<noteq> None then Inl constraint_key
        else if map_of (t_intentions t) ident = None then Inl constraint_foreign
        else Inr (t\<lparr>t_quarantines := om_insert ident (hash, body) (t_quarantines t)\<rparr>))"

definition insert_attempt :: "string \<times> int \<times> int \<times> string \<times> string \<Rightarrow> tables \<Rightarrow> store_error + tables" where
  "insert_attempt a t =
     (case a of (ident, n, started, hash, body) \<Rightarrow>
        if n \<le> 0 \<or> hgeneration (t_head t) \<le> 0 then Inl constraint_check
        else if map_of (t_attempts t) (ident, n) \<noteq> None then Inl constraint_key
        else if map_of (t_intentions t) ident = None then Inl constraint_foreign
        else Inr (t\<lparr>t_attempts := om_insert (ident, n)
               \<lparr>at_generation = hgeneration (t_head t), at_started = started,
                at_request_hash = hash, at_bytes = body\<rparr> (t_attempts t)\<rparr>))"

definition insert_observation :: "string \<Rightarrow> tables \<Rightarrow> store_error + tables" where
  "insert_observation body t =
     (let seq = revision (t_head t) in
      if seq \<le> 0 \<or> igeneration (t_installation t) < 0 then Inl constraint_check
      else if map_of (t_observations t) seq \<noteq> None then Inl constraint_key
      else Inr (t\<lparr>t_observations := om_insert seq (igeneration (t_installation t), body) (t_observations t)\<rparr>))"

definition insert_report :: "string \<times> string \<Rightarrow> tables \<Rightarrow> store_error + tables" where
  "insert_report r t =
     (case r of (hash, body) \<Rightarrow>
        let seq = revision (t_head t) in
        if hash \<in> (\<lambda>(_, h, _). h) ` set (t_reports t) then Inr t
        else if seq \<in> fst ` set (t_reports t) then Inl constraint_unique
        else Inr (t\<lparr>t_reports := t_reports t @ [(seq, hash, igeneration (t_installation t), body)]\<rparr>))"

definition optionally :: "('a \<Rightarrow> tables \<Rightarrow> store_error + tables) \<Rightarrow> 'a option \<Rightarrow> tables \<Rightarrow> store_error + tables" where
  "optionally f m t = (case m of None \<Rightarrow> Inr t | Some x \<Rightarrow> f x t)"

text \<open>
  The values bound by the inserts are those of the mutation's snapshot; they are the values the
  two updates before them have just written to the installation and the head.
\<close>

definition write_outbox :: "mutation \<Rightarrow> tables \<Rightarrow> store_error + tables" where
  "write_outbox m t =
     rbind (update_installation (sinstallation (msnapshot m)) t) (\<lambda>t.
     rbind (update_head (shead (msnapshot m)) t) (\<lambda>t.
     rbind (optionally sweep_tables (msweep m) t) (\<lambda>t.
     rbind (rfold (\<lambda>(_, d). update_delivery (intention_id d) (set_row d)) (items (msnapshot m)) t) (\<lambda>t.
     rbind (optionally insert_quarantine (mquarantine m) t) (\<lambda>t.
     rbind (optionally insert_attempt (mattempt m) t) (\<lambda>t.
     rbind (insert_observation (mobservation m) t) (\<lambda>t.
     optionally insert_report (mreport m) t)))))))"


section \<open>What a page holds\<close>

text \<open>An item of a page is an intention of the selection beside its delivery row.\<close>

definition page_entry :: "tables \<Rightarrow> (string \<times> intention) list \<Rightarrow> intention \<times> delivery \<Rightarrow> bool" where
  "page_entry t xs e \<longleftrightarrow> (\<exists>k j r. (k, j) \<in> set xs \<and> map_of (t_deliveries t) k = Some r
     \<and> e = (j\<lparr>iid := k\<rparr>, row_delivery t k r))"

lemma page_entry_Cons: "page_entry t xs e \<Longrightarrow> page_entry t (x # xs) e"
  by (auto simp: page_entry_def)

lemma read_items_rows:
  "read_items t acc xs = Inr its \<Longrightarrow>
   map (\<lambda>e. iid (fst e)) its = take (length its) (map fst xs) \<and> list_all (page_entry t xs) its"
proof (induction t acc xs arbitrary: its rule: read_items.induct)
  case (2 t acc ident i rest)
  show ?case
  proof (cases "length (ibytes i) > BUNDLE_LIMIT \<or> acc + length (ibytes i) > SCAN_BYTES")
    case True
    then show ?thesis using 2(2) by (auto simp: Let_def split: if_splits)
  next
    case False
    then obtain r rs where r: "map_of (t_deliveries t) ident = Some r"
      and rs: "read_items t (acc + length (ibytes i)) rest = Inr rs"
      and its: "its = (i\<lparr>iid := ident\<rparr>, row_delivery t ident r) # rs"
      using 2(2) by (auto simp: Let_def split: if_splits)
    have o: "ok_or (map_of (t_deliveries t) ident) (SeDatabase DbOther) = Inr r" using r by simp
    have ih: "map (\<lambda>e. iid (fst e)) rs = take (length rs) (map fst rest) \<and> list_all (page_entry t rest) rs"
      by (rule 2(1)[OF refl _ _ o rs]) (use False in simp_all)
    then have "list_all (page_entry t ((ident, i) # rest)) rs"
      by (auto simp: list_all_iff intro: page_entry_Cons)
    moreover have "page_entry t ((ident, i) # rest) (i\<lparr>iid := ident\<rparr>, row_delivery t ident r)"
      using r by (auto simp: page_entry_def)
    ultimately show ?thesis using ih its by simp
  qed
qed auto

lemma selected_sub:
  "(k, i) \<in> set (selected t (QPage after due)) \<Longrightarrow>
   (k, i) \<in> set (t_intentions t) \<and> after < k"
  by (auto simp: selected_def dest!: in_set_takeD)

lemma load_items:
  assumes "load_outbox t q = Inr s"
  shows "read_items t 0 (selected t q) = Inr (items s)" and "sinstallation s = t_installation t"
    and "shead s = t_head t" and "sreport s = last_report t"
  using assms by (auto simp: load_outbox_def)

text \<open>Every page ends after the bound it was asked for: scanning makes progress.\<close>

definition rest_after :: "tables \<Rightarrow> string \<Rightarrow> nat" where
  "rest_after t after = length (filter (\<lambda>(k, _). after < k) (t_intentions t))"

lemma page_item:
  assumes "load_outbox t (QPage after due) = Inr s" and "(i, d) \<in> set (items s)"
  shows "after < iid i \<and> iid i \<in> fst ` set (t_intentions t)"
proof -
  have "page_entry t (selected t (QPage after due)) (i, d)"
    using read_items_rows[OF load_items(1)[OF assms(1)]] assms(2) by (auto simp: list_all_iff)
  then obtain j where "(iid i, j) \<in> set (selected t (QPage after due))"
    by (auto simp: page_entry_def)
  from selected_sub[OF this] show ?thesis by force
qed

lemma page_progress:
  assumes "load_outbox t (QPage after due) = Inr s" and "items s \<noteq> []"
  shows "rest_after t (iid (fst (last (items s)))) < rest_after t after"
proof -
  define k where "k = iid (fst (last (items s)))"
  obtain i d where l: "last (items s) = (i, d)" by (cases "last (items s)")
  then have "(i, d) \<in> set (items s)" using assms(2) last_in_set by metis
  then have k: "after < k" "k \<in> fst ` set (t_intentions t)"
    using page_item[OF assms(1)] l by (auto simp: k_def)
  have "length (filter (\<lambda>(j, _). k < j) m) < length (filter (\<lambda>(j, _). after < j) m)"
    if "k \<in> fst ` set m" for m :: "(string \<times> intention) list"
    using that
  proof (induction m)
    case (Cons e m)
    obtain j v where e: "e = (j, v)" by (cases e)
    have le: "length (filter (\<lambda>(j, _). k < j) m) \<le> length (filter (\<lambda>(j, _). after < j) m)" for m :: "(string \<times> intention) list"
      using k(1) by (induction m) (auto intro: less_trans)
    show ?case
    proof (cases "k \<in> fst ` set m")
      case True
      then show ?thesis using Cons.IH k(1) e by (auto intro: less_trans)
    next
      case False
      then have "j = k" using Cons.prems e by auto
      then show ?thesis using le[of m] k(1) e by (simp add: less_Suc_eq_le)
    qed
  qed simp
  from this[OF k(2)] show ?thesis by (simp add: rest_after_def k_def)
qed


section \<open>What a write keeps\<close>

text \<open>
  An operation on a state that keeps an invariant and moves the state up in a preorder; folding
  it over a list does the same. The tables are such a state, and \<open>write_outbox\<close> and its parts are
  such operations.
\<close>

locale monotone_op =
  fixes ok :: "'s \<Rightarrow> bool" and le :: "'s \<Rightarrow> 's \<Rightarrow> bool" and f :: "'a \<Rightarrow> 's \<Rightarrow> 'e + 's"
  assumes le_refl: "le s s"
    and le_trans: "le s s' \<Longrightarrow> le s' s'' \<Longrightarrow> le s s''"
    and op_ok: "ok s \<Longrightarrow> f x s = Inr s' \<Longrightarrow> ok s'"
    and op_le: "ok s \<Longrightarrow> f x s = Inr s' \<Longrightarrow> le s s'"
begin

lemma fold_keeps: "ok s \<Longrightarrow> rfold f xs s = Inr s' \<Longrightarrow> ok s' \<and> le s s'"
proof (induction xs arbitrary: s)
  case Nil
  then show ?case by (simp add: le_refl)
next
  case (Cons x xs)
  then obtain s1 where "f x s = Inr s1" "rfold f xs s1 = Inr s'" by auto
  then show ?case using Cons.IH[of s1] Cons.prems(1) op_ok op_le le_trans by blast
qed

end

definition row_le :: "row \<Rightarrow> row \<Rightarrow> bool" where
  "row_le r r' \<longleftrightarrow> (row_state r = DRejected \<longrightarrow> row_state r' = DRejected) \<and> row_attempts r \<le> row_attempts r'"

definition rows_le :: "(string, row) omap \<Rightarrow> (string, row) omap \<Rightarrow> bool" where
  "rows_le m m' \<longleftrightarrow> (\<forall>k. rel_option row_le (map_of m k) (map_of m' k))"

lemma row_le_refl: "row_le r r"
  by (simp add: row_le_def)

lemma row_le_trans: "row_le a b \<Longrightarrow> row_le b c \<Longrightarrow> row_le a c"
  by (auto simp: row_le_def)

lemma rows_le_refl: "rows_le m m"
  by (simp add: rows_le_def option.rel_refl row_le_refl)

lemma rows_le_trans:
  assumes "rows_le a b" and "rows_le b c"
  shows "rows_le a c"
  unfolding rows_le_def
proof
  fix k
  from assms have "rel_option row_le (map_of a k) (map_of b k)" "rel_option row_le (map_of b k) (map_of c k)"
    by (simp_all add: rows_le_def)
  then show "rel_option row_le (map_of a k) (map_of c k)"
    by (auto simp: option_rel_Some1 option_rel_Some2 elim!: option.rel_cases intro: row_le_trans)
qed

lemma rows_le_update:
  "om_ok m \<Longrightarrow> map_of m k = Some r \<Longrightarrow> row_le r r' \<Longrightarrow> rows_le m (om_insert k r' m)"
  by (simp add: rows_le_def om_insert_get option.rel_refl row_le_refl)

text \<open>
  \<open>grows t t'\<close>: the identity of the store and the intentions are the same, no delivery row appears
  or goes away, a rejected row is still rejected and no attempt count went down, and nothing is
  removed from or changed in the append-only tables.
\<close>

definition same_store :: "installation \<Rightarrow> installation \<Rightarrow> bool" where
  "same_store i j \<longleftrightarrow> tenant i = tenant j \<and> environment i = environment j
     \<and> logical_store_id i = logical_store_id j \<and> imode i = imode j \<and> admission i = admission j"

definition grows :: "tables \<Rightarrow> tables \<Rightarrow> bool" where
  "grows t t' \<longleftrightarrow> same_store (t_installation t) (t_installation t')
     \<and> t_intentions t' = t_intentions t
     \<and> rows_le (t_deliveries t) (t_deliveries t')
     \<and> map_of (t_quarantines t) \<subseteq>\<^sub>m map_of (t_quarantines t')
     \<and> map_of (t_attempts t) \<subseteq>\<^sub>m map_of (t_attempts t')
     \<and> map_of (t_observations t) \<subseteq>\<^sub>m map_of (t_observations t')
     \<and> set (t_reports t) \<subseteq> set (t_reports t')"

lemma grows_refl: "grows t t"
  by (simp add: grows_def same_store_def rows_le_refl)

lemma grows_trans: "grows a b \<Longrightarrow> grows b c \<Longrightarrow> grows a c"
  unfolding grows_def same_store_def
  by (intro conjI) (auto intro: rows_le_trans map_le_trans)

lemma map_le_insert: "om_ok m \<Longrightarrow> map_of m k = None \<Longrightarrow> map_of m \<subseteq>\<^sub>m map_of (om_insert k v m)"
  by (auto simp: om_insert_get map_le_def)

lemma map_le_insert_pair:
  "om_ok m \<Longrightarrow> \<forall>a b. map_of m k \<noteq> Some (a, b) \<Longrightarrow> map_of m \<subseteq>\<^sub>m map_of (om_insert k v m)"
  using map_le_insert[of m k] by (cases "map_of m k") auto

named_theorems table_ops
declare tables_ok_def [table_ops] grows_def [table_ops] same_store_def [table_ops]

lemma guard_Inr: "guard_delivery t k old new = Inr u \<longleftrightarrow>
    row_le old new \<and> \<not> (row_state new = DLeased \<and> map_of (t_quarantines t) k \<noteq> None) \<and> row_ok new"
  by (auto simp: guard_delivery_def row_le_def)

lemma update_delivery_keeps:
  assumes "tables_ok t" and "update_delivery k f t = Inr t'"
  shows "tables_ok t'" and "grows t t'"
proof -
  have "tables_ok t' \<and> grows t t'"
  proof (cases "map_of (t_deliveries t) k")
    case None
    then show ?thesis using assms by (simp add: update_delivery_def grows_refl)
  next
    case (Some old)
    then have t': "t' = t\<lparr>t_deliveries := om_insert k (f old) (t_deliveries t)\<rparr>"
      and g: "row_le old (f old)" "row_ok (f old)"
      using assms(2) by (auto simp: update_delivery_def guard_Inr)
    have m: "om_ok (t_deliveries t)" using assms(1) by (simp add: tables_ok_def)
    show ?thesis
      using assms(1) g rows_le_update[OF m Some g(1)] m
      by (auto simp: t' table_ops om_insert_ok om_insert_get)
  qed
  then show "tables_ok t'" "grows t t'" by simp_all
qed

interpretation rows: monotone_op tables_ok grows "\<lambda>(k, f). update_delivery k f"
  by unfold_locales (auto intro: grows_refl grows_trans update_delivery_keeps)

lemma update_installation_keeps:
  "tables_ok t \<Longrightarrow> update_installation i t = Inr t' \<Longrightarrow> tables_ok t' \<and> grows t t'"
  by (auto simp: update_installation_def table_ops rows_le_refl split: if_splits)

lemma update_head_keeps: "tables_ok t \<Longrightarrow> update_head h t = Inr t' \<Longrightarrow> tables_ok t' \<and> grows t t'"
  by (auto simp: update_head_def table_ops rows_le_refl split: if_splits)

interpretation sweeping: monotone_op tables_ok grows
  "\<lambda>(k, r) t. if swept sw r then update_delivery k sweep_row t else Inr t" for sw
  by unfold_locales (auto intro: grows_refl grows_trans update_delivery_keeps split: if_splits)

lemma sweep_tables_keeps: "tables_ok t \<Longrightarrow> sweep_tables sw t = Inr t' \<Longrightarrow> tables_ok t' \<and> grows t t'"
  unfolding sweep_tables_def by (rule sweeping.fold_keeps)

interpretation setting: monotone_op tables_ok grows
  "\<lambda>(i, d). update_delivery (intention_id d) (set_row d)"
  by unfold_locales (auto intro: grows_refl grows_trans update_delivery_keeps)

lemma insert_quarantine_keeps:
  "tables_ok t \<Longrightarrow> insert_quarantine q t = Inr t' \<Longrightarrow> tables_ok t' \<and> grows t t'"
  by (auto simp: insert_quarantine_def table_ops rows_le_refl om_insert_ok map_le_insert_pair split: prod.splits if_splits)

lemma insert_attempt_keeps:
  "tables_ok t \<Longrightarrow> insert_attempt a t = Inr t' \<Longrightarrow> tables_ok t' \<and> grows t t'"
  by (auto simp: insert_attempt_def table_ops rows_le_refl om_insert_ok map_le_insert split: prod.splits if_splits)

lemma insert_observation_keeps:
  "tables_ok t \<Longrightarrow> insert_observation b t = Inr t' \<Longrightarrow> tables_ok t' \<and> grows t t'"
  by (auto simp: insert_observation_def table_ops rows_le_refl om_insert_ok map_le_insert_pair Let_def split: if_splits)

lemma insert_report_keeps:
  "tables_ok t \<Longrightarrow> insert_report r t = Inr t' \<Longrightarrow> tables_ok t' \<and> grows t t'"
  by (auto simp: insert_report_def table_ops rows_le_refl Let_def split: prod.splits if_splits)

lemma optionally_keeps:
  assumes "\<And>x t t'. tables_ok t \<Longrightarrow> f x t = Inr t' \<Longrightarrow> tables_ok t' \<and> grows t t'"
    and "tables_ok t" and "optionally f m t = Inr t'"
  shows "tables_ok t' \<and> grows t t'"
  using assms by (auto simp: optionally_def grows_refl split: option.splits)

lemma write_keeps:
  assumes "tables_ok t" and "write_outbox m t = Inr t'"
  shows "tables_ok t'" and "grows t t'"
proof -
  from assms(2) obtain t1 t2 t3 t4 t5 t6 t7 where w:
    "update_installation (sinstallation (msnapshot m)) t = Inr t1"
    "update_head (shead (msnapshot m)) t1 = Inr t2"
    "optionally sweep_tables (msweep m) t2 = Inr t3"
    "rfold (\<lambda>(_, d). update_delivery (intention_id d) (set_row d)) (items (msnapshot m)) t3 = Inr t4"
    "optionally insert_quarantine (mquarantine m) t4 = Inr t5"
    "optionally insert_attempt (mattempt m) t5 = Inr t6"
    "insert_observation (mobservation m) t6 = Inr t7"
    "optionally insert_report (mreport m) t7 = Inr t'"
    by (auto simp: write_outbox_def)
  have 1: "tables_ok t1 \<and> grows t t1" by (rule update_installation_keeps[OF assms(1) w(1)])
  then have 2: "tables_ok t2 \<and> grows t1 t2" using update_head_keeps w(2) by blast
  have 3: "tables_ok t3 \<and> grows t2 t3"
    by (rule optionally_keeps[OF _ _ w(3)], erule (1) sweep_tables_keeps) (use 2 in blast)
  from 3 have 4: "tables_ok t4 \<and> grows t3 t4" using setting.fold_keeps w(4) by blast
  have 5: "tables_ok t5 \<and> grows t4 t5"
    by (rule optionally_keeps[OF _ _ w(5)], erule (1) insert_quarantine_keeps) (use 4 in blast)
  have 6: "tables_ok t6 \<and> grows t5 t6"
    by (rule optionally_keeps[OF _ _ w(6)], erule (1) insert_attempt_keeps) (use 5 in blast)
  from 6 have 7: "tables_ok t7 \<and> grows t6 t7" using insert_observation_keeps w(7) by blast
  have 8: "tables_ok t' \<and> grows t7 t'"
    by (rule optionally_keeps[OF _ _ w(8)], erule (1) insert_report_keeps) (use 7 in blast)
  show "tables_ok t'" using 8 by blast
  show "grows t t'" using 1 2 3 4 5 6 7 8 grows_trans by meson
qed


text \<open>The updates of delivery rows touch nothing else.\<close>

definition only_rows :: "tables \<Rightarrow> tables \<Rightarrow> bool" where
  "only_rows t t' \<longleftrightarrow> (\<exists>m. t' = t\<lparr>t_deliveries := m\<rparr>)"

lemma only_rows_refl: "only_rows t t"
  unfolding only_rows_def by (rule exI[of _ "t_deliveries t"]) simp

lemma only_rows_trans: "only_rows a b \<Longrightarrow> only_rows b c \<Longrightarrow> only_rows a c"
  by (auto simp: only_rows_def)

lemma update_delivery_only: "update_delivery k f t = Inr t' \<Longrightarrow> only_rows t t'"
  by (auto simp: update_delivery_def only_rows_refl split: option.splits) (auto simp: only_rows_def)

lemma only_rows_frame:
  assumes "only_rows t t'"
  shows "t_installation t' = t_installation t" and "t_head t' = t_head t" and "t_intentions t' = t_intentions t"
    and "t_quarantines t' = t_quarantines t" and "t_attempts t' = t_attempts t"
    and "t_observations t' = t_observations t" and "t_reports t' = t_reports t"
  using assms by (auto simp: only_rows_def)

interpretation sweep_frame: monotone_op "\<lambda>_. True" only_rows
  "\<lambda>(k, r) t. if swept sw r then update_delivery k sweep_row t else Inr t" for sw
  by unfold_locales
    (auto intro: only_rows_refl only_rows_trans dest: update_delivery_only split: if_splits)

interpretation item_frame: monotone_op "\<lambda>_. True" only_rows
  "\<lambda>(i, d). update_delivery (intention_id d) (set_row d)"
  by unfold_locales (auto intro: only_rows_refl only_rows_trans dest: update_delivery_only)

text \<open>The parts of a write, named, with what each leaves alone.\<close>

lemma write_parts:
  assumes "write_outbox m t = Inr t'"
  obtains t2 t3 t4 where
    "t2 = t\<lparr>t_installation := (t_installation t)\<lparr>igeneration := igeneration (sinstallation (msnapshot m)),
              dispatch_hold := dispatch_hold (sinstallation (msnapshot m)),
              dispatch_enabled := dispatch_enabled (sinstallation (msnapshot m))\<rparr>,
            t_head := shead (msnapshot m)\<rparr>"
    "0 \<le> igeneration (sinstallation (msnapshot m))" "head_ok (shead (msnapshot m))"
    "optionally sweep_tables (msweep m) t2 = Inr t3" "only_rows t2 t3"
    "rfold (\<lambda>(_, d). update_delivery (intention_id d) (set_row d)) (items (msnapshot m)) t3 = Inr t4"
    "only_rows t3 t4"
    "t_deliveries t' = t_deliveries t4" "t_head t' = t_head t4" "t_installation t' = t_installation t4"
    "t_intentions t' = t_intentions t4"
    "t_quarantines t' = (case mquarantine m of None \<Rightarrow> t_quarantines t
       | Some (k, h, b) \<Rightarrow> om_insert k (h, b) (t_quarantines t))"
    "t_attempts t' = (case mattempt m of None \<Rightarrow> t_attempts t
       | Some (k, n, st, h, b) \<Rightarrow> om_insert (k, n) \<lparr>at_generation = hgeneration (shead (msnapshot m)),
             at_started = st, at_request_hash = h, at_bytes = b\<rparr> (t_attempts t))"
    "t_observations t' = om_insert (revision (shead (msnapshot m)))
       (igeneration (sinstallation (msnapshot m)), mobservation m) (t_observations t)"
proof -
  from assms obtain t1 t2 t3 t4 t5 t6 t7 where w:
    "update_installation (sinstallation (msnapshot m)) t = Inr t1"
    "update_head (shead (msnapshot m)) t1 = Inr t2"
    "optionally sweep_tables (msweep m) t2 = Inr t3"
    "rfold (\<lambda>(_, d). update_delivery (intention_id d) (set_row d)) (items (msnapshot m)) t3 = Inr t4"
    "optionally insert_quarantine (mquarantine m) t4 = Inr t5"
    "optionally insert_attempt (mattempt m) t5 = Inr t6"
    "insert_observation (mobservation m) t6 = Inr t7"
    "optionally insert_report (mreport m) t7 = Inr t'"
    by (auto simp: write_outbox_def)
  have t2: "t2 = t\<lparr>t_installation := (t_installation t)\<lparr>igeneration := igeneration (sinstallation (msnapshot m)),
              dispatch_hold := dispatch_hold (sinstallation (msnapshot m)),
              dispatch_enabled := dispatch_enabled (sinstallation (msnapshot m))\<rparr>,
            t_head := shead (msnapshot m)\<rparr>"
    and ok: "0 \<le> igeneration (sinstallation (msnapshot m))" "head_ok (shead (msnapshot m))"
    using w(1,2) by (auto simp: update_installation_def update_head_def split: if_splits)
  have o3: "only_rows t2 t3"
    using w(3) sweep_frame.fold_keeps by (auto simp: optionally_def sweep_tables_def only_rows_refl split: option.splits)
  have o4: "only_rows t3 t4" using w(4) item_frame.fold_keeps by blast
  note frame = only_rows_frame[OF o4] only_rows_frame[OF o3]
  have t5: "t5 = t4\<lparr>t_quarantines := (case mquarantine m of None \<Rightarrow> t_quarantines t4
       | Some (k, h, b) \<Rightarrow> om_insert k (h, b) (t_quarantines t4))\<rparr>"
    using w(5) by (auto simp: optionally_def insert_quarantine_def split: option.splits prod.splits if_splits)
  have t6: "t6 = t5\<lparr>t_attempts := (case mattempt m of None \<Rightarrow> t_attempts t5
       | Some (k, n, st, h, b) \<Rightarrow> om_insert (k, n) \<lparr>at_generation = hgeneration (t_head t5),
             at_started = st, at_request_hash = h, at_bytes = b\<rparr> (t_attempts t5))\<rparr>"
    using w(6) by (auto simp: optionally_def insert_attempt_def split: option.splits prod.splits if_splits)
  have t7: "t7 = t6\<lparr>t_observations := om_insert (revision (t_head t6))
       (igeneration (t_installation t6), mobservation m) (t_observations t6)\<rparr>"
    using w(7) by (auto simp: insert_observation_def Let_def split: if_splits)
  have t': "\<exists>rs. t' = t7\<lparr>t_reports := rs\<rparr>"
  proof (cases "t' = t7")
    case True
    then show ?thesis by (intro exI[of _ "t_reports t7"]) simp
  next
    case False
    then show ?thesis
      using w(8) by (auto simp: optionally_def insert_report_def Let_def split: option.splits prod.splits if_splits)
  qed
  show thesis
    by (rule that[OF t2 ok w(3) o3 w(4) o4]) (use t' in \<open>auto simp: t7 t6 t5 frame t2 split: option.splits\<close>)
qed

lemma write_intentions: "write_outbox m t = Inr t' \<Longrightarrow> t_intentions t' = t_intentions t"
  by (elim write_parts) (simp add: only_rows_frame)

lemma write_rest_after: "write_outbox m t = Inr t' \<Longrightarrow> rest_after t' after = rest_after t after"
  by (simp add: rest_after_def write_intentions)

end
