(* ===== verification/Outbox.thy ===== *)
theory Outbox
  imports Destination Outbox_Store
begin

text \<open>
  The dispatcher of \<^verbatim>\<open>outbox/workflow.rs\<close>: every public operation as a function of the tables,
  the destination and what the environment does. A transaction reads and writes its own copy of
  the tables, which becomes the state only when the commit succeeds; the destination is outside
  it, so what it did stays done when the transaction rolls back.
\<close>

section \<open>Transactions\<close>

definition oerror_of :: "store_error \<Rightarrow> oerror" where
  "oerror_of e =
     (if e = SeInvalidStore ''outbox scan limit'' then OScanLimit
      else if retryable_after_rollback e then ORetryable
      else case e of SeIntegrity _ \<Rightarrow> OIntegrity | SeInvalidStore _ \<Rightarrow> OIntegrity | _ \<Rightarrow> OUnavailable)"

definition of_store :: "store_error + 'a \<Rightarrow> oerror + 'a" where
  "of_store r = (case r of Inl e \<Rightarrow> Inl (oerror_of e) | Inr v \<Rightarrow> Inr v)"

lemma of_store_Inr [simp]: "of_store r = Inr v \<longleftrightarrow> r = Inr v"
  by (simp add: of_store_def split: sum.splits)

record sys =
  tables :: tables
  dest :: destination_data

text \<open>
  What the environment decides in a transaction: whether it begins, whether a write or the
  rollback fails in the database, and what becomes of the commit. A commit of unknown outcome may
  have been applied or not.
\<close>

datatype fate = Committed | RolledBack store_error | OutcomeUnknown bool

record env =
  begin_fault :: "store_error option"
  write_fault :: "store_error option"
  rollback_fault :: "store_error option"
  commit_fate :: fate

definition calm :: env where
  "calm = \<lparr>begin_fault = None, write_fault = None, rollback_fault = None, commit_fate = Committed\<rparr>"

text \<open>The body of a transaction acts on its own tables and on the destination.\<close>

type_synonym 'a body = "snapshot \<Rightarrow> tables \<Rightarrow> destination_data \<Rightarrow> (oerror + ('a \<times> mutation) \<times> tables) \<times> destination_data"

definition rolled_back :: "env \<Rightarrow> oerror \<Rightarrow> oerror" where
  "rolled_back v e = (case rollback_fault v of None \<Rightarrow> e | Some f \<Rightarrow> oerror_of f)"

definition transaction :: "env \<Rightarrow> query \<Rightarrow> 'a body \<Rightarrow> sys \<Rightarrow> (oerror + 'a) \<times> sys" where
  "transaction v q body s =
     (case begin_fault v of
        Some e \<Rightarrow> (Inl (oerror_of e), s)
      | None \<Rightarrow>
          case of_store (load_outbox (tables s) q) of
            Inl e \<Rightarrow> (Inl (rolled_back v e), s)
          | Inr snap \<Rightarrow>
              let (r, d) = body snap (tables s) (dest s); s' = s\<lparr>dest := d\<rparr> in
              case r of
                Inl e \<Rightarrow> (Inl (rolled_back v e), s')
              | Inr ((x, m), t) \<Rightarrow>
                  case (case write_fault v of None \<Rightarrow> write_outbox m t | Some f \<Rightarrow> Inl f) of
                    Inl e \<Rightarrow> (Inl (rolled_back v (oerror_of e)), s')
                  | Inr t' \<Rightarrow>
                      case commit_fate v of
                        Committed \<Rightarrow> (Inr x, s'\<lparr>tables := t'\<rparr>)
                      | RolledBack e \<Rightarrow> (Inl (oerror_of e), s')
                      | OutcomeUnknown applied \<Rightarrow>
                          (Inl OOutcomeUnknown, if applied then s'\<lparr>tables := t'\<rparr> else s'))"

text \<open>A read runs in a transaction that is rolled back.\<close>

definition reading :: "env \<Rightarrow> (tables \<Rightarrow> oerror + 'a) \<Rightarrow> sys \<Rightarrow> oerror + 'a" where
  "reading v f s =
     (case begin_fault v of
        Some e \<Rightarrow> Inl (oerror_of e)
      | None \<Rightarrow> (case rollback_fault v of Some e \<Rightarrow> Inl (oerror_of e) | None \<Rightarrow> f (tables s)))"

definition read_snapshot :: "env \<Rightarrow> query \<Rightarrow> sys \<Rightarrow> oerror + snapshot" where
  "read_snapshot v q = reading v (\<lambda>t. of_store (load_outbox t q))"

text \<open>The loop of \<open>read_deliveries\<close>: every page starts after the last row of the one before.\<close>

definition last_id :: "snapshot \<Rightarrow> string" where
  "last_id s = iid (fst (last (items s)))"

function deliveries_from :: "tables \<Rightarrow> string \<Rightarrow> delivery list \<Rightarrow> oerror + delivery list" where
  "deliveries_from t after rows =
     rbind (of_store (load_outbox t (query_page after))) (\<lambda>page.
     if items page = [] then Inr rows
     else if length rows + length (items page) > 1000 then Inl OScanLimit
     else deliveries_from t (last_id page) (rows @ map snd (items page)))"
  by pat_completeness auto
termination
  by (relation "measure (\<lambda>(t, after, _). rest_after t after)")
    (auto simp: query_page_def last_id_def page_progress)

declare deliveries_from.simps [simp del]

definition deliveries :: "env \<Rightarrow> sys \<Rightarrow> oerror + delivery list" where
  "deliveries v = reading v (\<lambda>t. deliveries_from t [] [])"

definition deliveries_after :: "env \<Rightarrow> string \<Rightarrow> sys \<Rightarrow> oerror + delivery list" where
  "deliveries_after v after s =
     rbind (read_snapshot v (query_page after) s) (\<lambda>page. Inr (map snd (items page)))"

section \<open>Leases\<close>

definition mutation_of :: "snapshot \<Rightarrow> json \<Rightarrow> oerror + mutation" where
  "mutation_of s event =
     rbind (plus (revision (shead s)) 1) (\<lambda>n.
     rbind (obytes event) (\<lambda>b.
     Inr \<lparr>msnapshot = s\<lparr>shead := (shead s)\<lparr>revision := n\<rparr>\<rparr>, msweep = None, mquarantine = None,
          mattempt = None, mobservation = b, mreport = None\<rparr>))"

definition clear :: "delivery \<Rightarrow> dstate \<Rightarrow> delivery" where
  "clear d s = d\<lparr>dstate := s, downer := None, duntil := None\<rparr>"

definition before :: "int \<Rightarrow> int option \<Rightarrow> bool" where
  "before now u = (case u of Some u \<Rightarrow> now < u | None \<Rightarrow> False)"

definition valid :: "snapshot \<Rightarrow> lease \<Rightarrow> int \<Rightarrow> bool" where
  "valid s l now \<longleftrightarrow>
     logical_store_id (sinstallation s) = lstore l
     \<and> igeneration (sinstallation s) = restore_generation l
     \<and> admission (sinstallation s) = ''open''
     \<and> \<not> dispatch_hold (sinstallation s)
     \<and> dispatch_enabled (sinstallation s)
     \<and> henabled (shead s)
     \<and> howner (shead s) = Some (lowner l)
     \<and> hgeneration (shead s) = lgeneration l
     \<and> before now (huntil (shead s))"

definition current_attempt :: "snapshot \<Rightarrow> attempt \<Rightarrow> int \<Rightarrow> bool" where
  "current_attempt s a now \<longleftrightarrow>
     now < auntil a
     \<and> list_ex (\<lambda>(i, d). iid i = rkey (arequest a)
         \<and> dstate d = DLeased
         \<and> dquarantine d = None
         \<and> attempts d = anumber a
         \<and> dgeneration d = lgeneration (alease a)
         \<and> downer d = Some (lowner (alease a))
         \<and> duntil d = Some (auntil a)) (items s)"

definition at_event :: "string \<Rightarrow> int \<Rightarrow> json" where
  "at_event kind now = jobj [(''kind'', JString kind), (''at'', jstr now)]"

definition acquire_body :: "string \<Rightarrow> int \<Rightarrow> lease body" where
  "acquire_body owner now s t d =
     (let inst = sinstallation s; h = shead s; store = logical_store_id inst in
      if dispatch_hold inst \<or> \<not> dispatch_enabled inst \<or> admission inst \<noteq> ''open'' then (Inl OHeld, d)
      else if howner h \<noteq> None \<and> before now (huntil h) then (Inl OOwned, d)
      else case plus (max (hgeneration h) (generation store d)) 1 of
        Inl e \<Rightarrow> (Inl e, d)
      | Inr g \<Rightarrow> case plus now 15000000 of
          Inl e \<Rightarrow> (Inl e, d)
        | Inr u \<Rightarrow> case fence store g u d of
            (Inl e, d) \<Rightarrow> (Inl e, d)
          | (Inr _, d) \<Rightarrow>
              (let s = s\<lparr>shead := h\<lparr>hgeneration := g, howner := Some owner, huntil := Some u, henabled := True\<rparr>\<rparr>;
                   lease = \<lparr>lstore = store, lowner = owner, lgeneration = g,
                            restore_generation = igeneration inst\<rparr> in
               (rbind (mutation_of s (at_event ''acquired'' now)) (\<lambda>m.
                Inr ((lease, m\<lparr>msweep := Some SweepLeases\<rparr>), t)), d)))"

definition acquire :: "env \<Rightarrow> string \<Rightarrow> int \<Rightarrow> sys \<Rightarrow> (oerror + lease) \<times> sys" where
  "acquire v owner now s =
     (if owner = [] \<or> length owner > 128 \<or> list_ex is_control (chars owner) then (Inl OInvalidInput, s)
      else transaction v QControl (acquire_body owner now) s)"

definition renew_body :: "lease \<Rightarrow> int \<Rightarrow> unit body" where
  "renew_body l now s t d =
     (if \<not> valid s l now then (Inl OFenced, d)
      else case plus now 15000000 of
        Inl e \<Rightarrow> (Inl e, d)
      | Inr u \<Rightarrow> case fence (lstore l) (lgeneration l) u d of
          (Inl e, d) \<Rightarrow> (Inl e, d)
        | (Inr _, d) \<Rightarrow>
            (rbind (mutation_of (s\<lparr>shead := (shead s)\<lparr>huntil := Some u\<rparr>\<rparr>) (at_event ''renewed'' now)) (\<lambda>m.
             Inr (((), m), t)), d))"

definition renew :: "env \<Rightarrow> lease \<Rightarrow> int \<Rightarrow> sys \<Rightarrow> (oerror + unit) \<times> sys" where
  "renew v l now = transaction v QControl (renew_body l now)"

section \<open>Claiming\<close>

definition dependency_ready :: "tables \<Rightarrow> string \<Rightarrow> oerror + bool" where
  "dependency_ready t key =
     rbind (of_store (load_outbox t (QKey key))) (\<lambda>s.
     case items s of
       [] \<Rightarrow> Inl OIntegrity
     | (_, d) # _ \<Rightarrow> Inr (dstate d = DDelivered \<and> dquarantine d = None))"

text \<open>The first intention of a page whose dependencies are all delivered; each is read anew.\<close>

fun pick :: "external \<Rightarrow> tables \<Rightarrow> snapshot \<Rightarrow> nat \<Rightarrow> (intention \<times> delivery) list \<Rightarrow> oerror + (nat \<times> request) option" where
  "pick x t s n [] = Inr None"
| "pick x t s n ((i, _) # rest) =
     rbind (intention_request x i s) (\<lambda>(request, deps).
     rbind (rfold (\<lambda>k ready. rbind (dependency_ready t k) (\<lambda>b. Inr (ready \<and> b))) deps True) (\<lambda>ready.
     if ready then Inr (Some (n, request)) else pick x t s (Suc n) rest))"

function claim_scan :: "external \<Rightarrow> tables \<Rightarrow> int \<Rightarrow> string \<Rightarrow> oerror + snapshot \<times> (nat \<times> request) option" where
  "claim_scan x t now after =
     rbind (of_store (load_outbox t (QPage after (Some now)))) (\<lambda>s.
     if items s = [] then Inr (s, None)
     else rbind (pick x t s 0 (items s)) (\<lambda>picked.
       if picked \<noteq> None then Inr (s, picked) else claim_scan x t now (last_id s)))"
  by pat_completeness auto
termination
  by (relation "measure (\<lambda>(_, t, _, after). rest_after t after)") (auto simp: last_id_def page_progress)

declare claim_scan.simps [simp del]

definition claimed :: "lease \<Rightarrow> int \<Rightarrow> int \<Rightarrow> delivery \<Rightarrow> delivery" where
  "claimed l n u d =
     d\<lparr>attempts := n, dstate := DLeased, downer := Some (lowner l), dgeneration := lgeneration l, duntil := Some u\<rparr>"

definition attempt_value :: "request \<Rightarrow> int \<Rightarrow> int \<Rightarrow> json" where
  "attempt_value r n g = jobj [(''request'', request_value r), (''attempt'', jstr n), (''generation'', jstr g)]"

definition claim_body :: "external \<Rightarrow> lease \<Rightarrow> int \<Rightarrow> attempt option body" where
  "claim_body x l now s t d =
     ((if \<not> valid s l now then Inl OFenced
       else rbind (claim_scan x t now []) (\<lambda>(s, picked).
         case picked of
           None \<Rightarrow>
             rbind (mutation_of s (at_event ''claim'' now)) (\<lambda>m.
             Inr ((None, m\<lparr>msweep := Some (SweepExpired now)\<rparr>), t))
         | Some (n, request) \<Rightarrow>
             rbind (plus (attempts (snd (items s ! n))) 1) (\<lambda>number.
             rbind (plus now 30000000) (\<lambda>u.
             rbind (obytes (attempt_value request number (lgeneration l))) (\<lambda>evidence.
             rbind (mutation_of (s\<lparr>items := (items s)[n := (fst (items s ! n), claimed l number u (snd (items s ! n)))]\<rparr>)
                      (at_event ''claim'' now)) (\<lambda>m.
             Inr ((Some \<lparr>alease = l, anumber = number, auntil = u, arequest = request\<rparr>,
                   m\<lparr>mattempt := Some (rkey request, number, now, request_hash request, evidence),
                     msweep := Some (SweepExpired now)\<rparr>), t))))))), d)"

definition claim :: "env \<Rightarrow> external \<Rightarrow> lease \<Rightarrow> int \<Rightarrow> sys \<Rightarrow> (oerror + attempt option) \<times> sys" where
  "claim v x l now = transaction v QControl (claim_body x l now)"


section \<open>Sending and observing\<close>

text \<open>Sending happens outside any transaction, after a fresh read of the attempt's row.\<close>

definition send :: "env \<Rightarrow> attempt \<Rightarrow> int \<Rightarrow> mode \<Rightarrow> sys \<Rightarrow> (oerror + outcome) \<times> sys" where
  "send v a now mode s =
     (case read_snapshot v (QKey (rkey (arequest a))) s of
        Inl e \<Rightarrow> (Inl e, s)
      | Inr snap \<Rightarrow>
          if \<not> valid snap (alease a) now \<or> \<not> current_attempt snap a now then (Inl OFenced, s)
          else let (oc, d) = dest_send a now mode (dest s) in (Inr oc, s\<lparr>dest := d\<rparr>))"

text \<open>
  No lock spans the read and the sending: other operations may run between them, even the
  dispatcher's process may end. \<open>arrive\<close> is the second half by itself, the destination receiving an
  attempt whatever the ledger holds by then.
\<close>

definition arrive :: "attempt \<Rightarrow> int \<Rightarrow> mode \<Rightarrow> sys \<Rightarrow> sys" where
  "arrive a now mode s = s\<lparr>dest := snd (dest_send a now mode (dest s))\<rparr>"

fun outcome_value :: "outcome \<Rightarrow> json" where
  "outcome_value (Delivered r) =
     jobj [(''delivered'', request_value (receipt_request r)), (''remote_id'', JString (remote_id r))]"
| "outcome_value Absent = JString ''confirmed_absent''"
| "outcome_value Unknown = JString ''unknown''"
| "outcome_value Rejected = JString ''rejected''"
| "outcome_value Fenced = JString ''fenced''"

text \<open>The state a current response leads to, and when to try again.\<close>

fun response :: "attempt \<Rightarrow> int \<Rightarrow> outcome \<Rightarrow> delivery \<Rightarrow> oerror + dstate \<times> delivery" where
  "response a now (Delivered r) d =
     Inr (if receipt_request r = arequest a then DDelivered else DRejected, d)"
| "response a now Rejected d = Inr (DRejected, d)"
| "response a now Absent d =
     (if attempts d < 20
      then rbind (plus now (retry_delay (attempts d))) (\<lambda>n. Inr (DRetry, d\<lparr>next_attempt_us := n\<rparr>))
      else Inr (DRejected, d))"
| "response a now Unknown d = Inr (DUnknown, d)"
| "response a now Fenced d = Inr (DUnknown, d)"

fun find_index :: "('a \<Rightarrow> bool) \<Rightarrow> 'a list \<Rightarrow> nat option" where
  "find_index p [] = None"
| "find_index p (x # xs) = (if p x then Some 0 else map_option Suc (find_index p xs))"

definition observation_value :: "bool \<Rightarrow> attempt \<Rightarrow> int \<Rightarrow> outcome \<Rightarrow> json" where
  "observation_value current a now result =
     jobj [(''kind'', JString (if current then ''response'' else ''late_response'')),
       (''key'', JString (rkey (arequest a))), (''attempt'', jstr (anumber a)),
       (''generation'', jstr (lgeneration (alease a))), (''at'', jstr now),
       (''outcome'', outcome_value result)]"

definition observe_body :: "external \<Rightarrow> attempt \<Rightarrow> int \<Rightarrow> outcome \<Rightarrow> (oerror + dstate) body" where
  "observe_body x a now result s t d =
     (let current = valid s (alease a) now \<and> current_attempt s a now;
          observation = observation_value current a now result in
      (if \<not> current then
         rbind (mutation_of s observation) (\<lambda>m. Inr ((Inl OFenced, m), t))
       else
         rbind (ok_or (find_index (\<lambda>(i, _). iid i = rkey (arequest a)) (items s)) OIntegrity) (\<lambda>n.
         rbind (response a now result (snd (items s ! n))) (\<lambda>(state, e).
         rbind (odigest x observation) (\<lambda>hash.
         rbind (mutation_of (s\<lparr>items := (items s)[n := (fst (items s ! n), (clear e state)\<lparr>last_observation := Some hash\<rparr>)]\<rparr>)
                  observation) (\<lambda>m.
         Inr ((Inr state, m), t))))), d))"

text \<open>The transaction commits the observation of a late response too, then reports \<open>Fenced\<close>.\<close>

definition observe :: "env \<Rightarrow> external \<Rightarrow> attempt \<Rightarrow> int \<Rightarrow> outcome \<Rightarrow> sys \<Rightarrow> (oerror + dstate) \<times> sys" where
  "observe v x a now result s =
     (case transaction v (QKey (rkey (arequest a))) (observe_body x a now result) s of
        (r, s') \<Rightarrow> (rbind r (\<lambda>inner. inner), s'))"

definition dispatch_one ::
    "env \<Rightarrow> env \<Rightarrow> env \<Rightarrow> external \<Rightarrow> lease \<Rightarrow> int \<Rightarrow> mode \<Rightarrow> sys \<Rightarrow> (oerror + dstate option) \<times> sys" where
  "dispatch_one v1 v2 v3 x l now mode s =
     (case claim v1 x l now s of
        (Inl e, s) \<Rightarrow> (Inl e, s)
      | (Inr None, s) \<Rightarrow> (Inr None, s)
      | (Inr (Some a), s) \<Rightarrow>
          (case send v2 a now mode s of
             (Inl e, s) \<Rightarrow> (Inl e, s)
           | (Inr oc, s) \<Rightarrow>
               (case observe v3 x a now oc s of (r, s) \<Rightarrow> (rbind r (\<lambda>st. Inr (Some st)), s))))"

section \<open>Holding\<close>

definition hold_body :: "bool \<Rightarrow> int \<Rightarrow> unit body" where
  "hold_body restore now s t d =
     (let inst = sinstallation s; h = shead s; store = logical_store_id inst in
      case (if restore then plus (igeneration inst) 1 else Inr (igeneration inst)) of
        Inl e \<Rightarrow> (Inl e, d)
      | Inr ig \<Rightarrow> case plus (max (hgeneration h) (generation store d)) 1 of
          Inl e \<Rightarrow> (Inl e, d)
        | Inr g \<Rightarrow> case fence store g i64_min d of
            (Inl e, d) \<Rightarrow> (Inl e, d)
          | (Inr _, d) \<Rightarrow>
              (let s = s\<lparr>sinstallation := inst\<lparr>igeneration := ig, dispatch_hold := True, dispatch_enabled := False\<rparr>,
                         shead := h\<lparr>hgeneration := g, howner := None, huntil := None, henabled := False\<rparr>\<rparr> in
               (rbind (mutation_of s (at_event (if restore then ''restore_hold'' else ''pause'') now)) (\<lambda>m.
                Inr (((), m\<lparr>msweep := Some (if restore then SweepRestore else SweepLeases)\<rparr>), t)), d)))"

definition hold :: "env \<Rightarrow> bool \<Rightarrow> int \<Rightarrow> sys \<Rightarrow> (oerror + unit) \<times> sys" where
  "hold v restore now = transaction v QControl (hold_body restore now)"

section \<open>Reconciliation\<close>

record progress =
  p_report :: report
  p_fingerprint :: string
  p_observations :: "json list"

definition empty_report :: report where
  "empty_report = \<lparr>rdigest = [], unresolved = [], orphan_keys = [], unresolved_count = 0,
     orphan_count = 0, intention_count = 0\<rparr>"

text \<open>A bounded sample: an element is kept while there is room.\<close>

definition sample_add :: "'a \<Rightarrow> 'a list \<Rightarrow> 'a list" where
  "sample_add e xs = (if length xs < PAGE_SIZE then xs @ [e] else xs)"

definition evidence_value :: "request \<Rightarrow> dstate \<Rightarrow> delivery \<Rightarrow> outcome \<Rightarrow> int \<Rightarrow> json" where
  "evidence_value request state d outcome now =
     (let remote = (case outcome of Delivered r \<Rightarrow> Some r | _ \<Rightarrow> None) in
      jobj [(''key'', JString (rkey request)), (''state'', JString (state_name state)),
        (''quarantine'', jopt (dquarantine d)),
        (''expected_request_hash'', JString (request_hash request)),
        (''remote_request_hash'', jopt (map_option (\<lambda>r. request_hash (receipt_request r)) remote)),
        (''remote_id'', jopt (map_option remote_id remote)), (''observed_us'', jstr now)])"

definition reconcile_item ::
    "external \<Rightarrow> snapshot \<Rightarrow> destination_data \<Rightarrow> int \<Rightarrow> mode \<Rightarrow> intention \<times> delivery \<Rightarrow>
     progress \<times> json list \<times> (intention \<times> delivery) list \<Rightarrow>
     oerror + progress \<times> json list \<times> (intention \<times> delivery) list" where
  "reconcile_item x s dst now mode e st =
     (case (e, st) of ((i, d), p, page, done) \<Rightarrow>
       rbind (intention_request x i s) (\<lambda>(request, _).
       let outcome = lookup (logical_store_id (sinstallation s)) (rkey request) mode dst;
           state = reconciled_state d request outcome; rep = p_report p in
       rbind (if state \<in> {DUnknown, DRejected} \<and> dquarantine d = None then
                rbind (plus (unresolved_count rep) 1) (\<lambda>n.
                Inr (rep\<lparr>unresolved_count := n, unresolved := sample_add (iid i) (unresolved rep)\<rparr>))
              else Inr rep) (\<lambda>rep.
       let evidence = evidence_value request state d outcome now in
       rbind (odigest x evidence) (\<lambda>hash.
       let d' = (clear d state)\<lparr>last_observation := Some hash\<rparr> in
       rbind (fingerprint_item x (p_fingerprint p) i d') (\<lambda>fp.
       rbind (plus (intention_count rep) 1) (\<lambda>n.
       Inr (\<lparr>p_report = rep\<lparr>intention_count := n\<rparr>, p_fingerprint = fp,
             p_observations = sample_add evidence (p_observations p)\<rparr>,
            page @ [evidence], done @ [(i, d')])))))))"

definition reconcile_page ::
    "external \<Rightarrow> snapshot \<Rightarrow> destination_data \<Rightarrow> int \<Rightarrow> mode \<Rightarrow> tables \<Rightarrow> progress \<Rightarrow> oerror + progress \<times> tables" where
  "reconcile_page x s dst now mode t p =
     rbind (rfold (reconcile_item x s dst now mode) (items s) (p, [], [])) (\<lambda>(p, page, done).
     rbind (mutation_of (s\<lparr>items := done\<rparr>)
              (jobj [(''kind'', JString ''reconciliation_page''), (''at'', jstr now), (''observations'', JArray page)])) (\<lambda>m.
     rbind (of_store (write_outbox m t)) (\<lambda>t.
     Inr (p, t))))"


lemma reconcile_page_rest:
  "reconcile_page x s dst now mode t p = Inr (q, t') \<Longrightarrow> rest_after t' after = rest_after t after"
  by (auto simp: reconcile_page_def write_rest_after split: prod.splits)

function reconcile_pages ::
    "external \<Rightarrow> destination_data \<Rightarrow> int \<Rightarrow> mode \<Rightarrow> tables \<Rightarrow> string \<Rightarrow> progress \<Rightarrow>
     oerror + snapshot \<times> progress \<times> tables" where
  "reconcile_pages x dst now mode t after p =
     rbind (of_store (load_outbox t (query_page after))) (\<lambda>s.
     if items s = [] then Inr (s, p, t)
     else rbind (reconcile_page x s dst now mode t p) (\<lambda>(p, t).
       reconcile_pages x dst now mode t (last_id s) p))"
  by pat_completeness auto
termination
  by (relation "measure (\<lambda>(_, _, _, _, t, after, _). rest_after t after)")
    (auto simp: query_page_def last_id_def reconcile_page_rest page_progress)

declare reconcile_pages.simps [simp del]

text \<open>The second loop pages through the receipts and counts the keys without an intention.\<close>

definition orphan :: "tables \<Rightarrow> string \<Rightarrow> report \<Rightarrow> oerror + report" where
  "orphan t key rep =
     rbind (of_store (load_outbox t (QKey key))) (\<lambda>s.
     if items s = [] then
       rbind (plus (orphan_count rep) 1) (\<lambda>n.
       Inr (rep\<lparr>orphan_count := n, orphan_keys := sample_add key (orphan_keys rep)\<rparr>))
     else Inr rep)"

definition keys_left :: "destination_data \<Rightarrow> string \<Rightarrow> string \<Rightarrow> nat" where
  "keys_left d store after = length (filter (\<lambda>e. (store, after) < fst e) (receipts d))"

lemma filter_less_length:
  assumes "k \<in> fst ` set m" and "\<And>j. Q j \<Longrightarrow> P j" and "P k" and "\<not> Q k"
  shows "length (filter (\<lambda>e. Q (fst e)) m) < length (filter (\<lambda>e. P (fst e)) m)"
  using assms(1)
proof (induction m)
  case (Cons e m)
  have le: "length (filter (\<lambda>e. Q (fst e)) m) \<le> length (filter (\<lambda>e. P (fst e)) m)" for m :: "('a \<times> 'b) list"
    using assms(2) by (induction m) auto
  show ?case
  proof (cases "k \<in> fst ` set m")
    case True
    then show ?thesis using Cons.IH assms(2) by auto
  next
    case False
    then have "fst e = k" using Cons.prems by auto
    then show ?thesis using le[of m] assms(3,4) by (simp add: less_Suc_eq_le)
  qed
qed simp

lemma keys_page_progress:
  assumes "keys_page store after d \<noteq> []"
  shows "keys_left d store (last (keys_page store after d)) < keys_left d store after"
proof -
  define k where "k = last (keys_page store after d)"
  define es where "es = take PAGE_SIZE (takeWhile (\<lambda>((s, _), _). s = store) (om_after (store, after) (receipts d)))"
  have "es \<noteq> []" and k: "k = snd (fst (last es))"
    using assms by (auto simp: k_def keys_page_def es_def last_map)
  then have "last es \<in> set (takeWhile (\<lambda>((s, _), _). s = store) (om_after (store, after) (receipts d)))"
    using last_in_set[of es] in_set_takeD unfolding es_def by metis
  then have "fst (fst (last es)) = store" and l: "last es \<in> set (om_after (store, after) (receipts d))"
    by (auto dest!: set_takeWhileD)
  then have "(store, k) \<in> fst ` set (receipts d)" "(store, after) < (store, k)"
    using k by (cases "last es"; force simp: om_after_def)+
  then show ?thesis
    unfolding keys_left_def k_def[symmetric]
    by (intro filter_less_length[where k = "(store, k)"]) (auto intro: less_trans)
qed

function orphans :: "tables \<Rightarrow> destination_data \<Rightarrow> string \<Rightarrow> string \<Rightarrow> report \<Rightarrow> oerror + report" where
  "orphans t d store after rep =
     (let keys = keys_page store after d in
      if keys = [] then Inr rep
      else rbind (rfold (orphan t) keys rep) (orphans t d store (last keys)))"
  by pat_completeness auto
termination
  by (relation "measure (\<lambda>(_, d, store, after, _). keys_left d store after)") (auto simp: keys_page_progress)

declare orphans.simps [simp del]

definition report_value ::
    "snapshot \<Rightarrow> int \<Rightarrow> string \<Rightarrow> string option \<Rightarrow> report \<Rightarrow> json list \<Rightarrow> json" where
  "report_value s seq fingerprint inventory rep observations =
     jobj [(''kind'', JString ''reconciliation''), (''version'', JInt 2), (''sequence'', jstr seq),
       (''store'', JString (logical_store_id (sinstallation s))),
       (''generation'', jstr (igeneration (sinstallation s))),
       (''fingerprint'', JString fingerprint), (''inventory'', jopt inventory),
       (''complete'', JBool (inventory \<noteq> None \<and> unresolved_count rep = 0 \<and> orphan_count rep = 0)),
       (''unresolved'', JArray (map JString (unresolved rep))),
       (''orphans'', JArray (map JString (orphan_keys rep))),
       (''observations'', JArray observations),
       (''intention_count'', jstr (intention_count rep)),
       (''unresolved_count'', jstr (unresolved_count rep)),
       (''orphan_count'', jstr (orphan_count rep))]"

definition reconcile_body :: "external \<Rightarrow> int \<Rightarrow> mode \<Rightarrow> report body" where
  "reconcile_body x now mode s t d =
     (let store = logical_store_id (sinstallation s) in
      (if \<not> dispatch_hold (sinstallation s) \<or> howner (shead s) \<noteq> None then Inl OHeld
       else
         rbind (inventory_digest x store mode d) (\<lambda>inventory.
         rbind (fingerprint_start x s) (\<lambda>start.
         rbind (reconcile_pages x d now mode t []
                  \<lparr>p_report = empty_report, p_fingerprint = start, p_observations = []\<rparr>) (\<lambda>(s, p, t).
         rbind (orphans t d store [] (p_report p)) (\<lambda>rep.
         rbind (inventory_digest x store mode d) (\<lambda>again.
         if again \<noteq> inventory then Inl OStaleReport
         else
           rbind (plus (revision (shead s)) 1) (\<lambda>seq.
           let body = report_value s seq (p_fingerprint p) inventory rep (p_observations p) in
           rbind (odigest x body) (\<lambda>hash.
           rbind (mutation_of s (jobj [(''kind'', JString ''reconciled''), (''digest'', JString hash), (''at'', jstr now)])) (\<lambda>m.
           rbind (obytes body) (\<lambda>b.
           Inr ((rep\<lparr>rdigest := hash\<rparr>, m\<lparr>mreport := Some (hash, b)\<rparr>), t)))))))))), d))"

definition reconcile :: "env \<Rightarrow> external \<Rightarrow> int \<Rightarrow> mode \<Rightarrow> sys \<Rightarrow> (oerror + report) \<times> sys" where
  "reconcile v x now mode = transaction v QControl (reconcile_body x now mode)"

section \<open>Quarantine and resume\<close>

definition blank :: "string \<Rightarrow> bool" where
  "blank s \<longleftrightarrow> list_all is_white (chars s)"

definition quarantine_body ::
    "external \<Rightarrow> string \<Rightarrow> string \<Rightarrow> string \<Rightarrow> string \<Rightarrow> int \<Rightarrow> string body" where
  "quarantine_body x key expected operator reason now s t dst =
     ((if \<not> dispatch_hold (sinstallation s) \<or> howner (shead s) \<noteq> None then Inl OHeld
       else case items s of
         [] \<Rightarrow> Inl OInvalidInput
       | (i, d) # _ \<Rightarrow>
           if dquarantine d \<noteq> None \<or> last_observation d \<noteq> Some expected then Inl OStaleReport
           else if dstate d \<notin> {DRejected, DUnknown} then Inl OInvalidInput
           else
             let event = jobj [(''kind'', JString ''quarantine''),
                   (''store'', JString (logical_store_id (sinstallation s))),
                   (''generation'', jstr (igeneration (sinstallation s))), (''key'', JString (iid i)),
                   (''intention_hash'', JString (ihash i)),
                   (''previous_state'', JString (state_name (dstate d))), (''attempts'', jstr (attempts d)),
                   (''observation'', JString expected), (''operator'', JString operator),
                   (''reason'', JString reason), (''at'', jstr now)] in
             rbind (odigest x event) (\<lambda>hash.
             rbind (mutation_of s event) (\<lambda>m.
             rbind (obytes event) (\<lambda>b.
             Inr ((hash, m\<lparr>mquarantine := Some (key, hash, b)\<rparr>), t))))), dst)"

definition quarantine ::
    "env \<Rightarrow> external \<Rightarrow> string \<Rightarrow> string \<Rightarrow> string \<Rightarrow> string \<Rightarrow> int \<Rightarrow> sys \<Rightarrow> (oerror + string) \<times> sys" where
  "quarantine v x key expected operator reason now s =
     (if blank operator \<or> length operator > 128 \<or> list_ex is_control (chars operator)
        \<or> blank reason \<or> length reason > 2048 \<or> list_ex is_control (chars reason)
      then (Inl OInvalidInput, s)
      else transaction v (QKey key) (quarantine_body x key expected operator reason now) s)"

text \<open>The fingerprint of the whole delivery table, page by page.\<close>

function fingerprint_pages :: "external \<Rightarrow> tables \<Rightarrow> string \<Rightarrow> string \<Rightarrow> oerror + string" where
  "fingerprint_pages x t after fp =
     rbind (of_store (load_outbox t (query_page after))) (\<lambda>page.
     if items page = [] then Inr fp
     else rbind (rfold (\<lambda>(i, d) fp. fingerprint_item x fp i d) (items page) fp) (\<lambda>fp.
       fingerprint_pages x t (last_id page) fp))"
  by pat_completeness auto
termination
  by (relation "measure (\<lambda>(_, t, after, _). rest_after t after)")
    (auto simp: query_page_def last_id_def page_progress)

declare fingerprint_pages.simps [simp del]

definition resume_body :: "external \<Rightarrow> string \<Rightarrow> int \<Rightarrow> unit body" where
  "resume_body x expected now s t d =
     ((if \<not> dispatch_hold (sinstallation s) \<or> admission (sinstallation s) \<noteq> ''open'' then Inl OHeld
       else case sreport s of
         None \<Rightarrow> Inl OStaleReport
       | Some (hash, body) \<Rightarrow>
           rbind (ok_or (from_slice x body) OIntegrity) (\<lambda>v.
           if hash \<noteq> expected then Inl OStaleReport
           else rbind (odigest x v) (\<lambda>again.
             if again \<noteq> hash \<or> jget v ''version'' \<noteq> JInt 2 then Inl OStaleReport
             else
               rbind (fingerprint_start x s) (\<lambda>start.
               rbind (fingerprint_pages x t [] start) (\<lambda>fp.
               if jget v ''fingerprint'' \<noteq> JString fp then Inl OStaleReport
               else rbind (inventory_digest x (logical_store_id (sinstallation s)) Normal d) (\<lambda>inventory.
                 if jget v ''inventory'' \<noteq> jopt inventory then Inl OStaleReport
                 else if jget v ''complete'' \<noteq> JBool True then Inl ONeedsReview
                 else
                   rbind (mutation_of
                       (s\<lparr>sinstallation := (sinstallation s)\<lparr>dispatch_hold := False, dispatch_enabled := True\<rparr>,
                          shead := (shead s)\<lparr>henabled := True\<rparr>\<rparr>)
                       (jobj [(''kind'', JString ''resumed''), (''digest'', JString expected), (''at'', jstr now)])) (\<lambda>m.
                   Inr (((), m), t)))))))), d)"

definition resume :: "env \<Rightarrow> external \<Rightarrow> string \<Rightarrow> int \<Rightarrow> sys \<Rightarrow> (oerror + unit) \<times> sys" where
  "resume v x expected now = transaction v QControl (resume_body x expected now)"

section \<open>Opening a restored store\<close>

text \<open>
  \<open>open_restored_sqlite\<close> and \<open>open_restored_postgres\<close> after the store is open: the handle is
  returned only when the restore hold has been committed.
\<close>

definition open_restored :: "env \<Rightarrow> int \<Rightarrow> sys \<Rightarrow> (oerror + unit) \<times> sys" where
  "open_restored v now s = hold v True now s"


section \<open>New intentions\<close>

text \<open>
  What the ledger's own transactions add (\<^verbatim>\<open>store/sqlite/write.rs\<close>): an intention, with the checks of
  its table, and its delivery row, held and without attempts.
\<close>

definition hex_text :: "string \<Rightarrow> bool" where
  "hex_text s \<longleftrightarrow> list_all (\<lambda>c. is_digit c \<or> 97 \<le> byte c \<and> byte c \<le> 102) s"

definition insert_intention :: "intention \<Rightarrow> tables \<Rightarrow> store_error + tables" where
  "insert_intention i t =
     (if \<not> (length (iid i) = 67 \<and> take 3 (iid i) = ''in_'' \<and> hex_text (drop 3 (iid i)))
        \<or> \<not> (2 \<le> length (ibytes i) \<and> length (ibytes i) \<le> BUNDLE_LIMIT)
        \<or> \<not> (length (ihash i) = 71 \<and> take 7 (ihash i) = ''sha256:'' \<and> hex_text (drop 7 (ihash i)))
      then Inl constraint_check
      else if map_of (t_intentions t) (iid i) \<noteq> None then Inl constraint_key
      else if list_ex (\<lambda>(_, j). idestination j = idestination i \<and> ikey j = ikey i) (t_intentions t)
      then Inl constraint_unique
      else Inr (t\<lparr>t_intentions := om_insert (iid i) i (t_intentions t)\<rparr>))"

definition held_row :: "int \<Rightarrow> row" where
  "held_row due = \<lparr>row_state = DHeld, row_attempts = 0, row_next = due, row_owner = None,
     row_generation = 0, row_until = None, row_observation = None\<rparr>"

definition hold_delivery :: "string \<Rightarrow> int \<Rightarrow> tables \<Rightarrow> store_error + tables" where
  "hold_delivery k due t =
     (if map_of (t_deliveries t) k \<noteq> None then Inl constraint_key
      else Inr (t\<lparr>t_deliveries := om_insert k (held_row due) (t_deliveries t)\<rparr>))"

definition ledger_intend :: "intention \<Rightarrow> int \<Rightarrow> sys \<Rightarrow> sys" where
  "ledger_intend i due s =
     (case rbind (insert_intention i (tables s)) (hold_delivery (iid i) due) of
        Inl _ \<Rightarrow> s | Inr t \<Rightarrow> s\<lparr>tables := t\<rparr>)"

end
