(* ===== verification/Outbox_Safety.thy ===== *)
theory Outbox_Safety
  imports Outbox
begin

text \<open>
  What the outbox promises, over any sequence of its operations and whatever the environment does
  to their transactions: an invariant of the tables, the permanence of rejections, quarantines and
  logs, the revocation of superseded leases, and the correctness of claiming, observing, paging
  and resuming.
\<close>

section \<open>Rows after a write\<close>

text \<open>
  Each step of a write changes the delivery rows one at a time; a property of rows that a sweep
  and the items of the mutation keep is kept by the write.
\<close>

definition all_rows :: "(string \<Rightarrow> row \<Rightarrow> bool) \<Rightarrow> tables \<Rightarrow> bool" where
  "all_rows P t \<longleftrightarrow> (\<forall>k r. map_of (t_deliveries t) k = Some r \<longrightarrow> P k r)"

lemma update_all_rows:
  assumes "tables_ok t" and "update_delivery k f t = Inr t'" and "all_rows P t"
    and "\<And>r. map_of (t_deliveries t) k = Some r \<Longrightarrow> P k (f r)"
  shows "all_rows P t'"
  using assms by (auto simp: update_delivery_def all_rows_def tables_ok_def om_insert_get split: option.splits if_splits)

lemma update_quarantines: "update_delivery k f t = Inr t' \<Longrightarrow> t_quarantines t' = t_quarantines t"
  by (auto simp: update_delivery_def split: option.splits)

lemma sweep_all_rows:
  assumes "tables_ok t" and "sweep_tables sw t = Inr t'" and "all_rows P t" and "\<And>k r. P k r \<Longrightarrow> P k (sweep_row r)"
  shows "all_rows P t'"
proof -
  have "rfold (\<lambda>(k, r) t. if swept sw r then update_delivery k sweep_row t else Inr t) xs t = Inr t' \<Longrightarrow> all_rows P t'" for xs
    using assms(1,3)
  proof (induction xs arbitrary: t)
    case (Cons e xs)
    obtain k r where e: "e = (k, r)" by (cases e)
    then obtain t1 where t1: "(if swept sw r then update_delivery k sweep_row t else Inr t) = Inr t1"
      and rest: "rfold (\<lambda>(k, r) t. if swept sw r then update_delivery k sweep_row t else Inr t) xs t1 = Inr t'"
      using Cons.prems(1) by auto
    have "tables_ok t1 \<and> all_rows P t1"
    proof (cases "swept sw r")
      case True
      then have u: "update_delivery k sweep_row t = Inr t1" using t1 by simp
      have "all_rows P t1"
        by (rule update_all_rows[OF Cons.prems(2) u Cons.prems(3)])
          (use Cons.prems(3) assms(4) in \<open>auto simp: all_rows_def\<close>)
      then show ?thesis using update_delivery_keeps(1)[OF Cons.prems(2) u] by simp
    next
      case False
      then show ?thesis using t1 Cons.prems by simp
    qed
    then show ?case using Cons.IH[OF rest] by blast
  qed simp
  then show ?thesis using assms(2) unfolding sweep_tables_def by blast
qed

lemma items_all_rows:
  assumes "tables_ok t" and "rfold (\<lambda>(i, d). update_delivery (intention_id d) (set_row d)) its t = Inr t'"
    and "all_rows P t" and "\<And>i d r. (i, d) \<in> set its \<Longrightarrow> P (intention_id d) (set_row d r)"
  shows "all_rows P t'"
  using assms
proof (induction its arbitrary: t)
  case (Cons e its)
  obtain i d where e: "e = (i, d)" by (cases e)
  then obtain t1 where t1: "update_delivery (intention_id d) (set_row d) t = Inr t1"
    and rest: "rfold (\<lambda>(i, d). update_delivery (intention_id d) (set_row d)) its t1 = Inr t'"
    using Cons.prems(2) by auto
  have "all_rows P t1" by (rule update_all_rows[OF Cons.prems(1) t1 Cons.prems(3)]) (use Cons.prems(4) e in auto)
  then show ?case
    using Cons.IH[OF update_delivery_keeps(1)[OF Cons.prems(1) t1] rest] Cons.prems(4) by auto
qed simp

text \<open>A property of rows that sweeping keeps and the written items have holds after a write.\<close>

lemma write_all_rows:
  assumes ok: "tables_ok t" and w: "write_outbox m t = Inr t'" and "all_rows P t"
    and sw: "\<And>k r. P k r \<Longrightarrow> P k (sweep_row r)"
    and it: "\<And>i d r. (i, d) \<in> set (items (msnapshot m)) \<Longrightarrow> P (intention_id d) (set_row d r)"
  shows "all_rows P t'"
proof -
  from w obtain t2 t3 t4 where t2: "t2 = t\<lparr>t_installation := (t_installation t)\<lparr>igeneration := igeneration (sinstallation (msnapshot m)),
              dispatch_hold := dispatch_hold (sinstallation (msnapshot m)),
              dispatch_enabled := dispatch_enabled (sinstallation (msnapshot m))\<rparr>,
            t_head := shead (msnapshot m)\<rparr>"
    and g: "0 \<le> igeneration (sinstallation (msnapshot m))" "head_ok (shead (msnapshot m))"
    and s3: "optionally sweep_tables (msweep m) t2 = Inr t3"
    and s4: "rfold (\<lambda>(_, d). update_delivery (intention_id d) (set_row d)) (items (msnapshot m)) t3 = Inr t4"
    and t': "t_deliveries t' = t_deliveries t4"
    by (elim write_parts)
  have ok2: "tables_ok t2" using ok g by (simp add: tables_ok_def t2)
  have p2: "all_rows P t2" using assms(3) by (simp add: all_rows_def t2)
  have 3: "tables_ok t3 \<and> all_rows P t3"
  proof (cases "msweep m")
    case None
    then show ?thesis using s3 ok2 p2 by (simp add: optionally_def)
  next
    case (Some sw')
    then have s: "sweep_tables sw' t2 = Inr t3" using s3 by (simp add: optionally_def)
    have "all_rows P t3" by (rule sweep_all_rows[OF ok2 s p2]) (rule sw)
    then show ?thesis using sweep_tables_keeps[OF ok2 s] by simp
  qed
  have "all_rows P t4"
    by (rule items_all_rows[OF conjunct1[OF 3] s4 conjunct2[OF 3]]) (rule it)
  then show ?thesis using t' by (simp add: all_rows_def)
qed


section \<open>What a read returns\<close>

lemma selected_distinct: "tables_ok t \<Longrightarrow> distinct (map fst (selected t q))"
proof -
  assume "tables_ok t"
  then have "distinct (map fst (t_intentions t))" by (simp add: tables_ok_def om_ok_distinct)
  then show ?thesis
    by (auto simp: selected_def distinct_map_filter take_map[symmetric] split: prod.splits intro: distinct_take)
qed

lemma selected_sub_all: "set (selected t q) \<subseteq> set (t_intentions t)"
  by (auto simp: selected_def split: prod.splits dest!: in_set_takeD)

lemma selected_due: "(k, i) \<in> set (selected t (QPage after (Some now))) \<Longrightarrow> is_due t now k"
  by (auto simp: selected_def dest!: in_set_takeD)

lemma loaded_ids:
  assumes "load_outbox t q = Inr s"
  shows "map (\<lambda>e. intention_id (snd e)) (items s) = map (\<lambda>e. iid (fst e)) (items s)"
    and "map (\<lambda>e. iid (fst e)) (items s) = take (length (items s)) (map fst (selected t q))"
proof -
  note r = read_items_rows[OF load_items(1)[OF assms]]
  show "map (\<lambda>e. iid (fst e)) (items s) = take (length (items s)) (map fst (selected t q))" using r by blast
  show "map (\<lambda>e. intention_id (snd e)) (items s) = map (\<lambda>e. iid (fst e)) (items s)"
  proof (rule map_cong)
    fix e assume "e \<in> set (items s)"
    then have "page_entry t (selected t q) e" using r by (simp add: list_all_iff)
    then show "intention_id (snd e) = iid (fst e)" by (auto simp: page_entry_def row_delivery_def)
  qed simp
qed

lemma loaded_distinct:
  "tables_ok t \<Longrightarrow> load_outbox t q = Inr s \<Longrightarrow> distinct (map (\<lambda>e. intention_id (snd e)) (items s))"
  using loaded_ids[of t q s] selected_distinct[of t q] by (metis distinct_take)

lemma loaded_item:
  assumes "tables_ok t" and "load_outbox t q = Inr s" and "(i, d) \<in> set (items s)"
  obtains j r where "(iid i, j) \<in> set (selected t q)" and "map_of (t_intentions t) (iid i) = Some j"
    and "i = j\<lparr>iid := iid i\<rparr>" and "map_of (t_deliveries t) (iid i) = Some r"
    and "d = row_delivery t (iid i) r" and "intention_id d = iid i"
proof -
  have "page_entry t (selected t q) (i, d)"
    using read_items_rows[OF load_items(1)[OF assms(2)]] assms(3) by (auto simp: list_all_iff)
  then obtain k j r where k: "(k, j) \<in> set (selected t q)" "map_of (t_deliveries t) k = Some r"
    "i = j\<lparr>iid := k\<rparr>" "d = row_delivery t k r"
    by (auto simp: page_entry_def)
  then have "iid i = k" by simp
  moreover have "map_of (t_intentions t) k = Some j"
    using k(1) selected_sub_all[of t q] assms(1) by (auto simp: tables_ok_def om_ok_distinct map_of_eq_Some_iff)
  ultimately show thesis using that k by (simp add: row_delivery_def)
qed

text \<open>Setting distinct rows sets each of them.\<close>

lemma update_other: "om_ok (t_deliveries t) \<Longrightarrow> update_delivery k f t = Inr t' \<Longrightarrow> k' \<noteq> k \<Longrightarrow>
    map_of (t_deliveries t') k' = map_of (t_deliveries t) k'"
  by (auto simp: update_delivery_def om_insert_get split: option.splits)

lemma update_same: "om_ok (t_deliveries t) \<Longrightarrow> update_delivery k f t = Inr t' \<Longrightarrow>
    map_of (t_deliveries t') k = map_option f (map_of (t_deliveries t) k)"
  by (auto simp: update_delivery_def om_insert_get split: option.splits)

lemma items_other:
  assumes "tables_ok t" and "rfold (\<lambda>(_, d). update_delivery (intention_id d) (set_row d)) its t = Inr t'"
    and "k \<notin> (\<lambda>e. intention_id (snd e)) ` set its"
  shows "map_of (t_deliveries t') k = map_of (t_deliveries t) k"
  using assms
proof (induction its arbitrary: t)
  case (Cons e its)
  obtain i d where e: "e = (i, d)" by (cases e)
  then obtain t1 where t1: "update_delivery (intention_id d) (set_row d) t = Inr t1"
    and rest: "rfold (\<lambda>(i, d). update_delivery (intention_id d) (set_row d)) its t1 = Inr t'"
    using Cons.prems(2) by auto
  have "k \<noteq> intention_id d" using Cons.prems(3) e by auto
  then have "map_of (t_deliveries t1) k = map_of (t_deliveries t) k"
    using update_other[OF _ t1] Cons.prems(1) by (simp add: tables_ok_def)
  then show ?case
    using Cons.IH[OF update_delivery_keeps(1)[OF Cons.prems(1) t1] rest] Cons.prems(3) by simp
qed simp

lemma items_set:
  assumes "tables_ok t" and "rfold (\<lambda>(_, d). update_delivery (intention_id d) (set_row d)) its t = Inr t'"
    and "distinct (map (\<lambda>e. intention_id (snd e)) its)" and "(i, d) \<in> set its"
  shows "map_of (t_deliveries t') (intention_id d) = map_option (set_row d) (map_of (t_deliveries t) (intention_id d))"
  using assms
proof (induction its arbitrary: t)
  case (Cons e its)
  obtain j c where e: "e = (j, c)" by (cases e)
  then obtain t1 where t1: "update_delivery (intention_id c) (set_row c) t = Inr t1"
    and rest: "rfold (\<lambda>(i, d). update_delivery (intention_id d) (set_row d)) its t1 = Inr t'"
    using Cons.prems(2) by auto
  note ok1 = update_delivery_keeps(1)[OF Cons.prems(1) t1]
  have m: "om_ok (t_deliveries t)" using Cons.prems(1) by (simp add: tables_ok_def)
  show ?case
  proof (cases "(i, d) \<in> set its")
    case True
    then have "intention_id d \<noteq> intention_id c" using Cons.prems(3) e by force
    then show ?thesis using Cons.IH[OF ok1 rest _ True] Cons.prems(3) update_other[OF m t1] by simp
  next
    case False
    then have "i = j" "d = c" using Cons.prems(4) e by auto
    then have "intention_id d \<notin> (\<lambda>e. intention_id (snd e)) ` set its" using Cons.prems(3) e by auto
    then show ?thesis using items_other[OF ok1 rest] update_same[OF m t1] \<open>d = c\<close> by simp
  qed
qed simp


section \<open>The invariant\<close>

text \<open>
  Every row has at most twenty attempts and is not leased when it is quarantined; every logged
  attempt is counted by its row; every observation is numbered at most the revision of the head.
\<close>

definition sound_row :: "(string \<Rightarrow> bool) \<Rightarrow> string \<Rightarrow> row \<Rightarrow> bool" where
  "sound_row q k r \<longleftrightarrow> row_attempts r \<le> 20 \<and> (q k \<longrightarrow> row_state r \<noteq> DLeased)"

definition quarantined :: "tables \<Rightarrow> string \<Rightarrow> bool" where
  "quarantined t k \<longleftrightarrow> map_of (t_quarantines t) k \<noteq> None"

definition tables_sound :: "tables \<Rightarrow> bool" where
  "tables_sound t \<longleftrightarrow> tables_ok t \<and> all_rows (sound_row (quarantined t)) t
     \<and> (\<forall>k n. map_of (t_attempts t) (k, n) \<noteq> None \<longrightarrow>
          (\<exists>r. map_of (t_deliveries t) k = Some r \<and> n \<le> row_attempts r))
     \<and> (\<forall>n. map_of (t_observations t) n \<noteq> None \<longrightarrow> n \<le> revision (t_head t))"

text \<open>What a mutation must satisfy for its write to keep the invariant.\<close>

definition sound_mutation :: "tables \<Rightarrow> mutation \<Rightarrow> bool" where
  "sound_mutation t m \<longleftrightarrow>
     revision (shead (msnapshot m)) = revision (t_head t) + 1
     \<and> distinct (map (\<lambda>e. intention_id (snd e)) (items (msnapshot m)))
     \<and> (\<forall>(i, d) \<in> set (items (msnapshot m)). attempts d \<le> 20
          \<and> (quarantined t (intention_id d) \<longrightarrow> dstate d \<noteq> DLeased)
          \<and> map_of (t_deliveries t) (intention_id d) \<noteq> None)
     \<and> (case mquarantine m of None \<Rightarrow> True | Some (k, _) \<Rightarrow>
          (\<forall>r. map_of (t_deliveries t) k = Some r \<longrightarrow> row_state r \<noteq> DLeased)
          \<and> (\<forall>(i, d) \<in> set (items (msnapshot m)). intention_id d = k \<longrightarrow> dstate d \<noteq> DLeased))
     \<and> (case mattempt m of None \<Rightarrow> True | Some (k, n, _) \<Rightarrow>
          (\<exists>(i, d) \<in> set (items (msnapshot m)). intention_id d = k \<and> attempts d = n))"

lemma write_row_le:
  assumes "tables_ok t" and "write_outbox m t = Inr t'" and "map_of (t_deliveries t) k = Some r"
  obtains r' where "map_of (t_deliveries t') k = Some r'" and "row_le r r'"
proof -
  have "rows_le (t_deliveries t) (t_deliveries t')" using write_keeps(2)[OF assms(1,2)] by (simp add: grows_def)
  then have "rel_option row_le (Some r) (map_of (t_deliveries t') k)"
    using assms(3) unfolding rows_le_def by metis
  then show thesis using that by (auto simp: option_rel_Some1)
qed

lemma write_item_row:
  assumes ok: "tables_ok t" and w: "write_outbox m t = Inr t'"
    and "distinct (map (\<lambda>e. intention_id (snd e)) (items (msnapshot m)))"
    and "(i, d) \<in> set (items (msnapshot m))" and "map_of (t_deliveries t) (intention_id d) \<noteq> None"
  shows "map_of (t_deliveries t') (intention_id d) = Some (set_row d r)"
proof -
  from w obtain t2 t3 t4 where t2: "t2 = t\<lparr>t_installation := (t_installation t)\<lparr>igeneration := igeneration (sinstallation (msnapshot m)),
              dispatch_hold := dispatch_hold (sinstallation (msnapshot m)),
              dispatch_enabled := dispatch_enabled (sinstallation (msnapshot m))\<rparr>,
            t_head := shead (msnapshot m)\<rparr>"
    and g: "0 \<le> igeneration (sinstallation (msnapshot m))" "head_ok (shead (msnapshot m))"
    and s3: "optionally sweep_tables (msweep m) t2 = Inr t3"
    and s4: "rfold (\<lambda>(_, d). update_delivery (intention_id d) (set_row d)) (items (msnapshot m)) t3 = Inr t4"
    and t': "t_deliveries t' = t_deliveries t4"
    by (elim write_parts)
  have ok2: "tables_ok t2" using ok g by (simp add: tables_ok_def t2)
  have 3: "tables_ok t3 \<and> grows t2 t3"
    by (rule optionally_keeps[OF _ ok2 s3], erule (1) sweep_tables_keeps)
  then have "rel_option row_le (map_of (t_deliveries t) (intention_id d)) (map_of (t_deliveries t3) (intention_id d))"
    by (simp add: grows_def rows_le_def t2)
  then obtain r3 where "map_of (t_deliveries t3) (intention_id d) = Some r3"
    using assms(5) by (auto simp: option_rel_Some1)
  then have "map_of (t_deliveries t4) (intention_id d) = Some (set_row d r3)"
    using items_set[OF conjunct1[OF 3] s4 assms(3,4)] by simp
  then show ?thesis using t' by (simp add: set_row_def)
qed

lemma write_sound:
  assumes "tables_sound t" and "sound_mutation t m" and w: "write_outbox m t = Inr t'"
  shows "tables_sound t'"
proof -
  have ok: "tables_ok t" using assms(1) by (simp add: tables_sound_def)
  note ok' = write_keeps[OF ok w]
  from w have f: "t_quarantines t' = (case mquarantine m of None \<Rightarrow> t_quarantines t
       | Some (k, h, b) \<Rightarrow> om_insert k (h, b) (t_quarantines t))"
    "t_attempts t' = (case mattempt m of None \<Rightarrow> t_attempts t
       | Some (k, n, st, h, b) \<Rightarrow> om_insert (k, n) \<lparr>at_generation = hgeneration (shead (msnapshot m)),
             at_started = st, at_request_hash = h, at_bytes = b\<rparr> (t_attempts t))"
    "t_observations t' = om_insert (revision (shead (msnapshot m)))
       (igeneration (sinstallation (msnapshot m)), mobservation m) (t_observations t)"
    "t_head t' = shead (msnapshot m)"
    by (elim write_parts; simp add: only_rows_frame)+
  have q: "quarantined t' k \<longleftrightarrow> quarantined t k \<or> (\<exists>h b. mquarantine m = Some (k, h, b))" for k
    using f(1) ok by (auto simp: quarantined_def om_insert_get tables_ok_def split: option.splits)
  have "all_rows (sound_row (quarantined t')) t'"
  proof (rule write_all_rows[OF ok w])
    show "all_rows (sound_row (quarantined t')) t"
      using assms(1,2) by (fastforce simp: tables_sound_def all_rows_def sound_row_def q sound_mutation_def)
  next
    show "\<And>k r. sound_row (quarantined t') k r \<Longrightarrow> sound_row (quarantined t') k (sweep_row r)"
      by (simp add: sound_row_def sweep_row_def)
  next
    fix i d r assume "(i, d) \<in> set (items (msnapshot m))"
    then show "sound_row (quarantined t') (intention_id d) (set_row d r)"
      using assms(2) by (fastforce simp: sound_row_def q set_row_def sound_mutation_def)
  qed
  moreover have "\<exists>r. map_of (t_deliveries t') k = Some r \<and> n \<le> row_attempts r"
    if "map_of (t_attempts t') (k, n) \<noteq> None" for k n
  proof (cases "map_of (t_attempts t) (k, n)")
    case None
    have "\<exists>st h b. mattempt m = Some (k, n, st, h, b)"
      using that None f(2) ok by (auto simp: om_insert_get tables_ok_def split: option.splits prod.splits if_splits)
    then obtain i d where d: "(i, d) \<in> set (items (msnapshot m))" "intention_id d = k" "attempts d = n"
      using assms(2) by (auto simp: sound_mutation_def)
    have "map_of (t_deliveries t') (intention_id d) = Some (set_row d undefined)"
      by (rule write_item_row[OF ok w _ d(1)]) (use assms(2) d in \<open>auto simp: sound_mutation_def\<close>)
    then show ?thesis using d by (simp add: set_row_def)
  next
    case (Some a)
    then obtain r where "map_of (t_deliveries t) k = Some r" "n \<le> row_attempts r"
      using assms(1) by (fastforce simp: tables_sound_def)
    then show ?thesis using write_row_le[OF ok w] by (force simp: row_le_def)
  qed
  moreover have "n \<le> revision (t_head t')" if "map_of (t_observations t') n \<noteq> None" for n
    using that f(3,4) assms(1,2) ok
    by (fastforce simp: om_insert_get tables_ok_def tables_sound_def sound_mutation_def split: if_splits)
  ultimately show ?thesis using ok' by (simp add: tables_sound_def)
qed


section \<open>Transactions\<close>

definition sys_ok :: "sys \<Rightarrow> bool" where
  "sys_ok s \<longleftrightarrow> tables_sound (tables s) \<and> dest_ok (dest s)"

text \<open>
  \<open>advance s s'\<close>: what is never lost. A rejected delivery stays rejected, no attempt count goes
  down, quarantines, attempts, observations and reports are only added, fences only rise and a
  receipt at the destination never changes.
\<close>

definition history :: "tables \<Rightarrow> tables \<Rightarrow> bool" where
  "history t t' \<longleftrightarrow> same_store (t_installation t) (t_installation t')
     \<and> map_of (t_intentions t) \<subseteq>\<^sub>m map_of (t_intentions t')
     \<and> (\<forall>k r. map_of (t_deliveries t) k = Some r \<longrightarrow>
          (\<exists>r'. map_of (t_deliveries t') k = Some r' \<and> row_le r r'))
     \<and> map_of (t_quarantines t) \<subseteq>\<^sub>m map_of (t_quarantines t')
     \<and> map_of (t_attempts t) \<subseteq>\<^sub>m map_of (t_attempts t')
     \<and> map_of (t_observations t) \<subseteq>\<^sub>m map_of (t_observations t')
     \<and> set (t_reports t) \<subseteq> set (t_reports t')"

definition advance :: "sys \<Rightarrow> sys \<Rightarrow> bool" where
  "advance s s' \<longleftrightarrow> history (tables s) (tables s') \<and> receiver.later (dest s) (dest s')"

lemma grows_history: "grows t t' \<Longrightarrow> history t t'"
  by (auto simp: grows_def history_def rows_le_def option_rel_Some1) (metis option_rel_Some1)

lemma history_refl: "history t t"
  by (rule grows_history) (rule grows_refl)

lemma history_row: "history t t' \<Longrightarrow> map_of (t_deliveries t) k = Some r \<Longrightarrow>
    \<exists>r'. map_of (t_deliveries t') k = Some r' \<and> row_le r r'"
  by (simp add: history_def)

lemma same_store_trans: "same_store i j \<Longrightarrow> same_store j k \<Longrightarrow> same_store i k"
  by (simp add: same_store_def)

lemma history_trans:
  assumes "history a b" and "history b c"
  shows "history a c"
proof -
  have "\<exists>r'. map_of (t_deliveries c) k = Some r' \<and> row_le r r'" if "map_of (t_deliveries a) k = Some r" for k r
    using history_row[OF assms(1) that] history_row[OF assms(2)] row_le_trans by blast
  then show ?thesis
    using assms unfolding history_def by (auto intro: map_le_trans same_store_trans)
qed

lemma advance_refl: "advance s s"
  by (simp add: advance_def history_refl receiver.later_refl)

lemma advance_trans: "advance a b \<Longrightarrow> advance b c \<Longrightarrow> advance a c"
  unfolding advance_def using history_trans receiver.later_trans by blast

text \<open>A body is safe when what it did to the destination, and what its mutation would write, are.\<close>

definition body_safe :: "query \<Rightarrow> 'a body \<Rightarrow> bool" where
  "body_safe q body \<longleftrightarrow> (\<forall>t d s r d'. tables_sound t \<and> dest_ok d \<and> load_outbox t q = Inr s \<and> body s t d = (r, d')
     \<longrightarrow> receiver.later d d' \<and> (\<forall>y m t1. r = Inr ((y, m), t1) \<longrightarrow> tables_sound t1 \<and> grows t t1 \<and> sound_mutation t1 m))"

lemma write_safe: "tables_sound t \<Longrightarrow> sound_mutation t m \<Longrightarrow> write_outbox m t = Inr t' \<Longrightarrow>
    tables_sound t' \<and> grows t t'"
  using write_sound write_keeps(2) tables_sound_def by blast

text \<open>What a transaction can do to the state: nothing, only the destination's part, or all.\<close>

lemma transaction_cases:
  assumes "transaction v q body s = (r, s')"
  obtains (untouched) e where "r = Inl e" "s' = s"
  | (outside) snap b d e where "load_outbox (tables s) q = Inr snap" "body snap (tables s) (dest s) = (b, d)"
      "r = Inl e" "s' = s\<lparr>dest := d\<rparr>"
  | (all) snap y m t d t' where "load_outbox (tables s) q = Inr snap"
      "body snap (tables s) (dest s) = (Inr ((y, m), t), d)" "write_outbox m t = Inr t'"
      "s' = s\<lparr>dest := d, tables := t'\<rparr>" "r = Inr y \<or> r = Inl OOutcomeUnknown"
proof (cases "begin_fault v")
  case (Some e)
  then have "r = Inl (oerror_of e) \<and> s' = s" using assms by (simp add: transaction_def)
  then show ?thesis using untouched by blast
next
  case None
  show ?thesis
  proof (cases "load_outbox (tables s) q")
    case (Inl e)
    then have "r = Inl (rolled_back v (oerror_of e)) \<and> s' = s"
      using assms None by (simp add: transaction_def of_store_def)
    then show ?thesis using untouched by blast
  next
    case (Inr snap)
    obtain b d where b: "body snap (tables s) (dest s) = (b, d)" by fastforce
    show ?thesis
    proof (cases b)
      case (Inl e)
      then have "r = Inl (rolled_back v e) \<and> s' = s\<lparr>dest := d\<rparr>"
        using assms None Inr b by (simp add: transaction_def of_store_def)
      then show ?thesis using outside[OF Inr b] by blast
    next
      case c: (Inr c)
      obtain y m t where c': "c = ((y, m), t)" by (metis surj_pair)
      show ?thesis
      proof (cases "case write_fault v of None \<Rightarrow> write_outbox m t | Some f \<Rightarrow> Inl f")
        case (Inl e)
        then have "r = Inl (rolled_back v (oerror_of e)) \<and> s' = s\<lparr>dest := d\<rparr>"
          using assms None Inr b c c' by (simp add: transaction_def of_store_def)
        then show ?thesis using outside[OF Inr b] by blast
      next
        case w: (Inr t')
        then have wr: "write_outbox m t = Inr t'" by (simp split: option.splits)
        have bd: "body snap (tables s) (dest s) = (Inr ((y, m), t), d)" using b c c' by simp
        have "r = Inl OOutcomeUnknown \<and> s' = s\<lparr>dest := d, tables := t'\<rparr>
          \<or> r = Inr y \<and> s' = s\<lparr>dest := d, tables := t'\<rparr> \<or> (\<exists>e. r = Inl e \<and> s' = s\<lparr>dest := d\<rparr>)"
          using assms None Inr bd w
          by (cases "commit_fate v") (auto simp: transaction_def of_store_def Let_def split: if_splits)
        then show ?thesis using outside[OF Inr bd] all[OF Inr bd wr] by blast
      qed
    qed
  qed
qed

lemma transaction_safe:
  assumes "body_safe q body" and "sys_ok s" and "transaction v q body s = (r, s')"
  shows "sys_ok s' \<and> advance s s'"
  using assms(3)
proof (cases rule: transaction_cases)
  case untouched
  then show ?thesis using assms(2) by (simp add: advance_refl)
next
  case (outside snap b d e)
  then have "receiver.later (dest s) d" using assms(1,2) unfolding body_safe_def sys_ok_def by blast
  then show ?thesis
    using outside assms(2) by (auto simp: advance_def sys_ok_def history_refl receiver.later_def)
next
  case (all snap y m t d t')
  then have b: "receiver.later (dest s) d" "tables_sound t" "grows (tables s) t" "sound_mutation t m"
    using assms(1,2) unfolding body_safe_def sys_ok_def by blast+
  then have "tables_sound t' \<and> grows t t'" using all(3) write_safe by blast
  then show ?thesis
    using b all assms(2) grows_trans grows_history
    by (auto simp: advance_def sys_ok_def receiver.later_def)
qed

section \<open>The operations are safe\<close>

lemma mutation_of_Inr:
  assumes "mutation_of s e = Inr m"
  shows "\<exists>b. obytes e = Inr b \<and> m = \<lparr>msnapshot = s\<lparr>shead := (shead s)\<lparr>revision := revision (shead s) + 1\<rparr>\<rparr>,
    msweep = None, mquarantine = None, mattempt = None, mobservation = b, mreport = None\<rparr>"
  using assms by (auto simp: mutation_of_def plus_def checked_i64_def ok_or_def split: if_splits)

lemma control_items: "load_outbox t QControl = Inr s \<Longrightarrow> items s = []"
  using load_items(1)[of t QControl s] by (simp add: selected_def)

lemma sound_control:
  assumes "load_outbox t q = Inr s" and "mutation_of s' e = Inr m"
    and "items s' = []" and "revision (shead s') = revision (shead s)"
  shows "sound_mutation t (m\<lparr>msweep := w\<rparr>)" and "sound_mutation t m"
    and "sound_mutation t (m\<lparr>mreport := rep\<rparr>)"
  using mutation_of_Inr[OF assms(2)] assms load_items(3)[OF assms(1)]
  by (auto simp: sound_mutation_def)

lemma fence_safe: "dest_ok d \<Longrightarrow> fence s g u d = (r, d') \<Longrightarrow> receiver.later d d'"
  by (rule receiver.fence_later)

lemma acquire_safe: "body_safe QControl (acquire_body owner now)"
  unfolding body_safe_def
proof (intro allI impI, elim conjE)
  fix t d s r d'
  assume t: "tables_sound t" and d: "dest_ok d" and l: "load_outbox t QControl = Inr s"
    and b: "acquire_body owner now s t d = (r, d')"
  show "receiver.later d d' \<and> (\<forall>y m t1. r = Inr ((y, m), t1) \<longrightarrow> tables_sound t1 \<and> grows t t1 \<and> sound_mutation t1 m)"
    using b d t control_items[OF l]
    by (auto simp: acquire_body_def Let_def receiver.later_refl grows_refl
        intro: sound_control(1)[OF l] fence_safe split: if_splits sum.splits prod.splits)
qed

lemma renew_safe: "body_safe QControl (renew_body l now)"
  unfolding body_safe_def
proof (intro allI impI, elim conjE)
  fix t d s r d'
  assume t: "tables_sound t" and d: "dest_ok d" and l: "load_outbox t QControl = Inr s"
    and b: "renew_body l now s t d = (r, d')"
  show "receiver.later d d' \<and> (\<forall>y m t1. r = Inr ((y, m), t1) \<longrightarrow> tables_sound t1 \<and> grows t t1 \<and> sound_mutation t1 m)"
    using b d t control_items[OF l]
    by (auto simp: renew_body_def Let_def receiver.later_refl grows_refl
        intro: sound_control(2)[OF l] fence_safe split: if_splits sum.splits prod.splits)
qed

lemma hold_safe: "body_safe QControl (hold_body restore now)"
  unfolding body_safe_def
proof (intro allI impI, elim conjE)
  fix t d s r d'
  assume t: "tables_sound t" and d: "dest_ok d" and l: "load_outbox t QControl = Inr s"
    and b: "hold_body restore now s t d = (r, d')"
  show "receiver.later d d' \<and> (\<forall>y m t1. r = Inr ((y, m), t1) \<longrightarrow> tables_sound t1 \<and> grows t t1 \<and> sound_mutation t1 m)"
    using b d t control_items[OF l]
    by (auto simp: hold_body_def Let_def receiver.later_refl grows_refl
        intro: sound_control(1)[OF l] fence_safe split: if_splits sum.splits prod.splits)
qed


text \<open>The state a committed write leaves for an item of a page, and the bounds on it.\<close>

lemma loaded_bounds:
  assumes "tables_sound t" and "load_outbox t q = Inr s" and "(i, d) \<in> set (items s)"
  shows "attempts d \<le> 20" and "quarantined t (intention_id d) \<longleftrightarrow> dquarantine d \<noteq> None"
    and "dquarantine d \<noteq> None \<longrightarrow> dstate d \<noteq> DLeased"
    and "map_of (t_deliveries t) (intention_id d) \<noteq> None"
proof -
  have ok: "tables_ok t" using assms(1) by (simp add: tables_sound_def)
  from loaded_item[OF ok assms(2,3)] obtain r where r: "map_of (t_deliveries t) (iid i) = Some r"
    "d = row_delivery t (iid i) r" "intention_id d = iid i" by metis
  then have "sound_row (quarantined t) (iid i) r"
    using assms(1) by (simp add: tables_sound_def all_rows_def)
  then show "attempts d \<le> 20" "quarantined t (intention_id d) \<longleftrightarrow> dquarantine d \<noteq> None"
    "dquarantine d \<noteq> None \<longrightarrow> dstate d \<noteq> DLeased" "map_of (t_deliveries t) (intention_id d) \<noteq> None"
    using r by (auto simp: sound_row_def row_delivery_def quarantined_def)
qed

text \<open>Replacing one item by a delivery of the same intention that is sound.\<close>

lemma sound_replaced:
  assumes t: "tables_sound t" and l: "load_outbox t q = Inr s" and n: "n < length (items s)"
    and e: "intention_id e = intention_id (snd (items s ! n))" "attempts e \<le> 20"
      "dquarantine (snd (items s ! n)) \<noteq> None \<longrightarrow> dstate e \<noteq> DLeased"
    and m: "mutation_of (s\<lparr>items := (items s)[n := (fst (items s ! n), e)]\<rparr>) ev = Inr m"
  shows "sound_mutation t m" and "sound_mutation t (m\<lparr>mattempt := Some (intention_id e, attempts e, z), msweep := w\<rparr>)"
proof -
  have ok: "tables_ok t" using t by (simp add: tables_sound_def)
  let ?its = "(items s)[n := (fst (items s ! n), e)]"
  have ids: "map (\<lambda>e. intention_id (snd e)) ?its = map (\<lambda>e. intention_id (snd e)) (items s)"
    using n e(1) by (intro nth_equalityI) (auto simp: nth_list_update)
  have in_n: "(fst (items s ! n), snd (items s ! n)) \<in> set (items s)" using n by simp
  have bnd: "attempts d \<le> 20 \<and> (quarantined t (intention_id d) \<longrightarrow> dstate d \<noteq> DLeased)
      \<and> map_of (t_deliveries t) (intention_id d) \<noteq> None" if "(i, d) \<in> set ?its" for i d
  proof -
    from that consider "(i, d) \<in> set (items s)" | "d = e"
      by (auto dest!: set_update_subset_insert[THEN subsetD])
    then show ?thesis
    proof cases
      case 1
      then show ?thesis using loaded_bounds[OF t l 1] by simp
    next
      case 2
      then show ?thesis using loaded_bounds[OF t l in_n] e by simp
    qed
  qed
  have mem: "(fst (items s ! n), e) \<in> set ?its" using n by (simp add: set_update_memI)
  show "sound_mutation t m" "sound_mutation t (m\<lparr>mattempt := Some (intention_id e, attempts e, z), msweep := w\<rparr>)"
    using mutation_of_Inr[OF m] bnd ids loaded_distinct[OF ok l] load_items(3)[OF l]
    by (auto simp: sound_mutation_def intro!: bexI[OF _ mem])
qed

lemma pick_Inr:
  "pick x t s n its = Inr (Some (j, req)) \<Longrightarrow>
   n \<le> j \<and> j < n + length its \<and> (\<exists>deps. intention_request x (fst (its ! (j - n))) s = Inr (req, deps)
     \<and> rfold (\<lambda>k ready. rbind (dependency_ready t k) (\<lambda>b. Inr (ready \<and> b))) deps True = Inr True)"
proof (induction x t s n its rule: pick.induct)
  case (2 x t s n i d rest)
  obtain r deps where r: "intention_request x i s = Inr (r, deps)"
    using 2(2) by auto
  then obtain ready where ready: "rfold (\<lambda>k ready. rbind (dependency_ready t k) (\<lambda>b. Inr (ready \<and> b))) deps True = Inr ready"
    using 2(2) by auto
  show ?case
  proof (cases ready)
    case True
    then show ?thesis using 2(2) r ready by auto
  next
    case False
    then have "pick x t s (Suc n) rest = Inr (Some (j, req))" using 2(2) r ready by simp
    then show ?thesis using 2(1)[OF r[THEN sym, THEN sym] refl ready False] by (auto simp: nth_Cons' Suc_diff_le)
  qed
qed simp


lemma scan_Inr:
  assumes "claim_scan x t now after = Inr (s, picked)"
  obtains a where "load_outbox t (QPage a (Some now)) = Inr s"
    and "items s = [] \<and> picked = None \<or> pick x t s 0 (items s) = Inr picked \<and> picked \<noteq> None"
  using assms
proof (induction x t now after arbitrary: thesis rule: claim_scan.induct)
  case (1 x t now after)
  from 1(3) obtain pg where pg: "load_outbox t (QPage after (Some now)) = Inr pg"
    by (subst (asm) claim_scan.simps) auto
  show ?case
  proof (cases "items pg = []")
    case True
    then have "s = pg \<and> picked = None" using 1(3) pg by (subst (asm) claim_scan.simps) auto
    then show ?thesis using 1(2) pg True by blast
  next
    case False
    then obtain p where p: "pick x t pg 0 (items pg) = Inr p"
      using 1(3) pg by (subst (asm) claim_scan.simps) auto
    show ?thesis
    proof (cases p)
      case None
      then have "claim_scan x t now (last_id pg) = Inr (s, picked)"
        using 1(3) pg False p by (subst (asm) claim_scan.simps) auto
      moreover have "of_store (load_outbox t (QPage after (Some now))) = Inr pg" using pg by simp
      ultimately show ?thesis using 1(1)[OF _ False p] None 1(2) by blast
    next
      case (Some y)
      then have "s = pg \<and> picked = p" using 1(3) pg False p by (subst (asm) claim_scan.simps) auto
      then show ?thesis using 1(2) pg p Some by blast
    qed
  qed
qed

lemma request_key: "intention_request x i s = Inr (req, deps) \<Longrightarrow> rkey req = iid i"
  by (auto simp: intention_request_def Let_def split: if_splits)

lemma claim_body_Inr:
  assumes t: "tables_ok t" and b: "claim_body x l now s0 t d = (Inr ((y, m), t1), d')"
  obtains (nothing_due) s a where "t1 = t" "d' = d" "y = None" "load_outbox t (QPage a (Some now)) = Inr s"
      "items s = []" "\<exists>m0. mutation_of s (at_event ''claim'' now) = Inr m0 \<and> m = m0\<lparr>msweep := Some (SweepExpired now)\<rparr>"
  | (one) s a n req deps where "t1 = t" "d' = d" "load_outbox t (QPage a (Some now)) = Inr s" "n < length (items s)"
      "intention_request x (fst (items s ! n)) s = Inr (req, deps)"
      "rfold (\<lambda>k ready. rbind (dependency_ready t k) (\<lambda>b. Inr (ready \<and> b))) deps True = Inr True"
      "in_i64 (now + 30000000)"
      "y = Some \<lparr>alease = l, anumber = attempts (snd (items s ! n)) + 1, auntil = now + 30000000, arequest = req\<rparr>"
      "\<exists>m0 ev. mutation_of (s\<lparr>items := (items s)[n := (fst (items s ! n),
            claimed l (attempts (snd (items s ! n)) + 1) (now + 30000000) (snd (items s ! n)))]\<rparr>) (at_event ''claim'' now) = Inr m0
        \<and> m = m0\<lparr>mattempt := Some (rkey req, attempts (snd (items s ! n)) + 1, now, request_hash req, ev),
                 msweep := Some (SweepExpired now)\<rparr>"
proof -
  from b have v: "valid s0 l now" by (auto simp: claim_body_def split: if_splits)
  with b obtain s picked where sc: "claim_scan x t now [] = Inr (s, picked)"
    by (auto simp: claim_body_def)
  from scan_Inr[OF sc] obtain a where l: "load_outbox t (QPage a (Some now)) = Inr s"
    and p: "items s = [] \<and> picked = None \<or> pick x t s 0 (items s) = Inr picked \<and> picked \<noteq> None" by blast
  show thesis
  proof (cases picked)
    case None
    then have "items s = []" using p by simp
    moreover have "t1 = t \<and> d' = d \<and> y = None \<and>
        (\<exists>m0. mutation_of s (at_event ''claim'' now) = Inr m0 \<and> m = m0\<lparr>msweep := Some (SweepExpired now)\<rparr>)"
      using b v sc None by (auto simp: claim_body_def)
    ultimately show thesis using nothing_due l by blast
  next
    case (Some nr)
    obtain n req where nr: "nr = (n, req)" by fastforce
    then have "pick x t s 0 (items s) = Inr (Some (n, req))" using p Some by simp
    from pick_Inr[OF this] obtain deps where n: "n < length (items s)"
      "intention_request x (fst (items s ! n)) s = Inr (req, deps)"
      "rfold (\<lambda>k ready. rbind (dependency_ready t k) (\<lambda>b. Inr (ready \<and> b))) deps True = Inr True" by auto
    have "t1 = t \<and> d' = d \<and> in_i64 (now + 30000000)
      \<and> y = Some \<lparr>alease = l, anumber = attempts (snd (items s ! n)) + 1, auntil = now + 30000000, arequest = req\<rparr>
      \<and> (\<exists>m0 ev. mutation_of (s\<lparr>items := (items s)[n := (fst (items s ! n),
            claimed l (attempts (snd (items s ! n)) + 1) (now + 30000000) (snd (items s ! n)))]\<rparr>) (at_event ''claim'' now) = Inr m0
        \<and> m = m0\<lparr>mattempt := Some (rkey req, attempts (snd (items s ! n)) + 1, now, request_hash req, ev),
                 msweep := Some (SweepExpired now)\<rparr>)"
      using b v sc Some nr
      by (auto simp: claim_body_def plus_def checked_i64_def ok_or_def split: if_splits)
    then show thesis using one l n by blast
  qed
qed


lemma claim_safe: "body_safe QControl (claim_body x l now)"
  unfolding body_safe_def
proof (intro allI impI, elim conjE)
  fix t d s0 r d'
  assume t: "tables_sound t" and "load_outbox t QControl = Inr s0" and b: "claim_body x l now s0 t d = (r, d')"
  have ok: "tables_ok t" using t by (simp add: tables_sound_def)
  have "d' = d" using b by (simp add: claim_body_def)
  moreover have "tables_sound t1 \<and> grows t t1 \<and> sound_mutation t1 m" if "r = Inr ((y, m), t1)" for y m t1
  proof -
    have b': "claim_body x l now s0 t d = (Inr ((y, m), t1), d')" using b that by simp
    from ok b' show ?thesis
    proof (cases rule: claim_body_Inr)
      case (nothing_due s a)
      then have "sound_mutation t m" using sound_control(1)[OF nothing_due(4)] by auto
      then show ?thesis using nothing_due t by (simp add: grows_refl)
    next
      case (one s a n req deps)
      let ?d = "snd (items s ! n)" and ?i = "fst (items s ! n)"
      let ?e = "claimed l (attempts ?d + 1) (now + 30000000) ?d"
      have i: "(?i, ?d) \<in> set (items s)" using one(4) by simp
      from loaded_item[OF ok one(3) i] obtain j r where j: "(iid ?i, j) \<in> set (selected t (QPage a (Some now)))"
        "map_of (t_deliveries t) (iid ?i) = Some r" "?d = row_delivery t (iid ?i) r" "intention_id ?d = iid ?i" by metis
      have due: "row_attempts r < 20" "map_of (t_quarantines t) (iid ?i) = None"
        using selected_due[OF j(1)] j(2) by (simp_all add: is_due_def)
      have e: "intention_id ?e = intention_id ?d" "attempts ?e = attempts ?d + 1" by (simp_all add: claimed_def)
      have key: "rkey req = intention_id ?e" using request_key[OF one(5)] j(4) e(1) by simp
      have "attempts ?d < 20" "dquarantine ?d = None"
        unfolding j(3) using due by (simp_all add: row_delivery_def)
      then have "sound_mutation t m"
        using sound_replaced(2)[OF t one(3,4) e(1)] one(9) key e(2) by auto
      then show ?thesis using one t by (simp add: grows_refl)
    qed
  qed
  ultimately show "receiver.later d d' \<and> (\<forall>y m t1. r = Inr ((y, m), t1) \<longrightarrow> tables_sound t1 \<and> grows t t1 \<and> sound_mutation t1 m)"
    by (simp add: receiver.later_refl)
qed

lemma find_index_Some: "find_index p xs = Some n \<Longrightarrow> n < length xs \<and> p (xs ! n)"
  by (induction xs arbitrary: n) (auto split: if_splits)

lemma response_Inr:
  "response a now oc d = Inr (st, e) \<Longrightarrow>
   intention_id e = intention_id d \<and> attempts e = attempts d \<and> st \<noteq> DLeased \<and> st \<noteq> DHeld \<and> st \<noteq> DPending"
  by (cases "(a, now, oc, d)" rule: response.cases) (auto split: if_splits)

lemma observe_safe: "body_safe (QKey k) (observe_body x a now result)"
  unfolding body_safe_def
proof (intro allI impI, elim conjE)
  fix t d s r d'
  assume t: "tables_sound t" and l: "load_outbox t (QKey k) = Inr s" and b: "observe_body x a now result s t d = (r, d')"
  have ok: "tables_ok t" using t by (simp add: tables_sound_def)
  have "d' = d" using b by (simp add: observe_body_def Let_def)
  moreover have "tables_sound t1 \<and> grows t t1 \<and> sound_mutation t1 m" if r: "r = Inr ((y, m), t1)" for y m t1
  proof (cases "valid s (alease a) now \<and> current_attempt s a now")
    case True
    then obtain n st e hash where n: "find_index (\<lambda>(i, _). iid i = rkey (arequest a)) (items s) = Some n"
      and e: "response a now result (snd (items s ! n)) = Inr (st, e)"
      and m: "mutation_of (s\<lparr>items := (items s)[n := (fst (items s ! n), (clear e st)\<lparr>last_observation := Some hash\<rparr>)]\<rparr>)
                (observation_value True a now result) = Inr m" and "t1 = t"
      using b r by (auto simp: observe_body_def Let_def)
    have len: "n < length (items s)" using find_index_Some[OF n] by simp
    then have i: "(fst (items s ! n), snd (items s ! n)) \<in> set (items s)" by simp
    have "sound_mutation t m"
      by (rule sound_replaced(1)[OF t l len _ _ _ m])
        (use response_Inr[OF e] loaded_bounds(1)[OF t l i] in \<open>auto simp: clear_def\<close>)
    then show ?thesis using t \<open>t1 = t\<close> by (simp add: grows_refl)
  next
    case False
    then have m: "mutation_of s (observation_value False a now result) = Inr m" and "t1 = t"
      using b r by (auto simp: observe_body_def Let_def)
    have "sound_mutation t m"
      using mutation_of_Inr[OF m] loaded_distinct[OF ok l] load_items(3)[OF l] loaded_bounds[OF t l]
      by (fastforce simp: sound_mutation_def)
    then show ?thesis using t \<open>t1 = t\<close> by (simp add: grows_refl)
  qed
  ultimately show "receiver.later d d' \<and> (\<forall>y m t1. r = Inr ((y, m), t1) \<longrightarrow> tables_sound t1 \<and> grows t t1 \<and> sound_mutation t1 m)"
    by (simp add: receiver.later_refl)
qed

text \<open>A body that leaves the tables to the mutation and the destination alone.\<close>

lemma body_safe_pure:
  assumes "\<And>t d s y m t1. tables_sound t \<Longrightarrow> load_outbox t q = Inr s \<Longrightarrow> fst (body s t d) = Inr ((y, m), t1) \<Longrightarrow>
      tables_sound t1 \<and> grows t t1 \<and> sound_mutation t1 m"
    and "\<And>s t d. snd (body s t d) = d"
  shows "body_safe q body"
  unfolding body_safe_def
proof (intro allI impI, elim conjE)
  fix t d s r d'
  assume t: "tables_sound t" and l: "load_outbox t q = Inr s" and b: "body s t d = (r, d')"
  have "d' = d" using assms(2)[of s t d] b by simp
  moreover have "tables_sound t1 \<and> grows t t1 \<and> sound_mutation t1 m" if "r = Inr ((y, m), t1)" for y m t1
    using assms(1)[OF t l, of d y m t1] b that by simp
  ultimately show "receiver.later d d' \<and> (\<forall>y m t1. r = Inr ((y, m), t1) \<longrightarrow> tables_sound t1 \<and> grows t t1 \<and> sound_mutation t1 m)"
    by (simp add: receiver.later_refl)
qed

lemma quarantine_safe: "body_safe (QKey key) (quarantine_body x key expected operator reason now)"
proof (rule body_safe_pure)
  fix t d s y m t1
  assume t: "tables_sound t" and l: "load_outbox t (QKey key) = Inr s"
    and b: "fst (quarantine_body x key expected operator reason now s t d) = Inr ((y, m), t1)"
  have ok: "tables_ok t" using t by (simp add: tables_sound_def)
  from b obtain i dl rest m0 ev h bb where its: "items s = (i, dl) # rest" "dstate dl \<in> {DRejected, DUnknown}"
    and m: "mutation_of s ev = Inr m0" "m = m0\<lparr>mquarantine := Some (key, h, bb)\<rparr>" "t1 = t"
    by (auto simp: quarantine_body_def Let_def split: if_splits list.splits)
  have i: "(i, dl) \<in> set (items s)" using its by simp
  from loaded_item[OF ok l i] obtain j r where j: "(iid i, j) \<in> set (selected t (QKey key))"
    "map_of (t_deliveries t) (iid i) = Some r" "dl = row_delivery t (iid i) r" by metis
  have "iid i = key" using j(1) by (auto simp: selected_def dest!: in_set_takeD)
  moreover have "rest = []"
  proof -
    have "length (selected t (QKey key)) \<le> 1" by (simp add: selected_def)
    moreover have "length (items s) \<le> length (selected t (QKey key))"
      using arg_cong[OF loaded_ids(2)[OF l], of length] by simp
    ultimately show ?thesis using its by (cases rest) auto
  qed
  ultimately have "sound_mutation t m"
    using mutation_of_Inr[OF m(1)] m(2) its j(2,3) loaded_distinct[OF ok l] load_items(3)[OF l]
      loaded_bounds[OF t l i]
    by (auto simp: sound_mutation_def row_delivery_def)
  then show "tables_sound t1 \<and> grows t t1 \<and> sound_mutation t1 m" using t m(3) by (simp add: grows_refl)
qed (simp add: quarantine_body_def)

lemma resume_safe: "body_safe QControl (resume_body x expected now)"
proof (rule body_safe_pure)
  fix t d s y m t1
  assume t: "tables_sound t" and l: "load_outbox t QControl = Inr s"
    and b: "fst (resume_body x expected now s t d) = Inr ((y, m), t1)"
  from b obtain ev where
    "mutation_of (s\<lparr>sinstallation := (sinstallation s)\<lparr>dispatch_hold := False, dispatch_enabled := True\<rparr>,
       shead := (shead s)\<lparr>henabled := True\<rparr>\<rparr>) ev = Inr m" "t1 = t"
    by (auto simp: resume_body_def Let_def split: if_splits option.splits)
  then show "tables_sound t1 \<and> grows t t1 \<and> sound_mutation t1 m"
    using t sound_control(2)[OF l] control_items[OF l] by (auto simp: grows_refl)
qed (simp add: resume_body_def)


text \<open>What a reconciliation makes of a page: every item gets the state its receipt calls for.\<close>

definition reconciled ::
    "external \<Rightarrow> snapshot \<Rightarrow> destination_data \<Rightarrow> mode \<Rightarrow> intention \<times> delivery \<Rightarrow> intention \<times> delivery \<Rightarrow> bool" where
  "reconciled x s dst mode e e' \<longleftrightarrow> fst e' = fst e \<and>
     (\<exists>req deps hash. intention_request x (fst e) s = Inr (req, deps)
        \<and> snd e' = (clear (snd e) (reconciled_state (snd e) req
              (lookup (logical_store_id (sinstallation s)) (rkey req) mode dst)))\<lparr>last_observation := Some hash\<rparr>)"

lemma reconcile_item_Inr:
  assumes "reconcile_item x s dst now mode e (p, pg, dn) = Inr (p', pg', dn')"
  shows "\<exists>e' ev. dn' = dn @ [e'] \<and> pg' = pg @ [ev] \<and> reconciled x s dst mode e e'"
  using assms by (cases e) (auto simp: reconcile_item_def Let_def reconciled_def split: if_splits)

lemma reconcile_items_Inr:
  assumes "rfold (reconcile_item x s dst now mode) its (p, pg, dn) = Inr (p', pg', dn')"
  shows "\<exists>es. dn' = dn @ es \<and> list_all2 (reconciled x s dst mode) its es"
  using assms
proof (induction its arbitrary: p pg dn)
  case (Cons e its)
  then obtain st where st: "reconcile_item x s dst now mode e (p, pg, dn) = Inr st"
    "rfold (reconcile_item x s dst now mode) its st = Inr (p', pg', dn')" by auto
  obtain p1 pg1 dn1 where "st = (p1, pg1, dn1)" by (rule prod_cases3)
  with st have e: "reconcile_item x s dst now mode e (p, pg, dn) = Inr (p1, pg1, dn1)"
    and rest: "rfold (reconcile_item x s dst now mode) its (p1, pg1, dn1) = Inr (p', pg', dn')" by simp_all
  obtain e' where "dn1 = dn @ [e']" "reconciled x s dst mode e e'" using reconcile_item_Inr[OF e] by blast
  moreover obtain es where "dn' = dn1 @ es" "list_all2 (reconciled x s dst mode) its es" using Cons.IH[OF rest] by blast
  ultimately show ?case by (intro exI[of _ "e' # es"]) simp
qed simp

lemma reconciled_fields:
  assumes "reconciled x s dst mode e e'"
  shows "intention_id (snd e') = intention_id (snd e)" and "attempts (snd e') = attempts (snd e)"
    and "dstate (snd e') \<noteq> DLeased" and "iid (fst e') = iid (fst e)"
proof -
  have "reconciled_state d r oc \<noteq> DLeased" for d r oc
    by (cases oc) (simp_all add: reconciled_state_def)
  moreover obtain st hash where "snd e' = (clear (snd e) st)\<lparr>last_observation := Some hash\<rparr>"
    "\<exists>req oc. st = reconciled_state (snd e) req oc" "fst e' = fst e"
    using assms unfolding reconciled_def by blast
  ultimately show "intention_id (snd e') = intention_id (snd e)" "attempts (snd e') = attempts (snd e)"
    "dstate (snd e') \<noteq> DLeased" "iid (fst e') = iid (fst e)"
    by (auto simp: clear_def)
qed

lemma list_all2_map_eq:
  "list_all2 R xs ys \<Longrightarrow> (\<And>a b. R a b \<Longrightarrow> f b = f a) \<Longrightarrow> map f ys = map f xs"
  by (induction rule: list_all2_induct) auto

lemma reconcile_page_sound:
  assumes t: "tables_sound t" and l: "load_outbox t q = Inr s"
    and p: "reconcile_page x s dst now mode t pr = Inr (pr', t')"
  shows "tables_sound t'" and "grows t t'"
proof -
  have ok: "tables_ok t" using t by (simp add: tables_sound_def)
  from p obtain pg es m ev where r: "rfold (reconcile_item x s dst now mode) (items s) (pr, [], []) = Inr (pr', pg, es)"
    and m: "mutation_of (s\<lparr>items := es\<rparr>) ev = Inr m" and w: "write_outbox m t = Inr t'"
    by (auto simp: reconcile_page_def)
  have es: "list_all2 (reconciled x s dst mode) (items s) es" using reconcile_items_Inr[OF r] by simp
  have ids: "map (\<lambda>e. intention_id (snd e)) es = map (\<lambda>e. intention_id (snd e)) (items s)"
    by (rule list_all2_map_eq[OF es]) (rule reconciled_fields)
  have "attempts (snd e') \<le> 20 \<and> dstate (snd e') \<noteq> DLeased \<and> map_of (t_deliveries t) (intention_id (snd e')) \<noteq> None"
    if "e' \<in> set es" for e'
  proof -
    from es that obtain e where e: "e \<in> set (items s)" "reconciled x s dst mode e e'"
      by (metis in_set_conv_nth list_all2_conv_all_nth)
    then have "(fst e, snd e) \<in> set (items s)" by simp
    from loaded_bounds[OF t l this] reconciled_fields[OF e(2)] show ?thesis by simp
  qed
  then have "sound_mutation t m"
    using mutation_of_Inr[OF m] ids loaded_distinct[OF ok l] load_items(3)[OF l]
    by (fastforce simp: sound_mutation_def)
  then show "tables_sound t'" "grows t t'" using write_safe[OF t _ w] by blast+
qed

lemma reconcile_pages_sound:
  "reconcile_pages x dst now mode t after p = Inr (s, p', t') \<Longrightarrow> tables_sound t \<Longrightarrow>
   tables_sound t' \<and> grows t t' \<and> items s = [] \<and> (\<exists>a. load_outbox t' (query_page a) = Inr s)"
proof (induction x dst now mode t after p rule: reconcile_pages.induct)
  case (1 x dst now mode t after p)
  from 1(2) obtain pg where pg: "load_outbox t (query_page after) = Inr pg"
    by (subst (asm) reconcile_pages.simps) auto
  show ?case
  proof (cases "items pg = []")
    case True
    then have "s = pg \<and> t' = t" using 1(2) pg by (subst (asm) reconcile_pages.simps) auto
    then show ?thesis using True pg 1(3) by (auto simp: grows_refl)
  next
    case False
    then obtain p1 t1 where r: "reconcile_page x pg dst now mode t p = Inr (p1, t1)"
      and rest: "reconcile_pages x dst now mode t1 (last_id pg) p1 = Inr (s, p', t')"
      using 1(2) pg by (subst (asm) reconcile_pages.simps) auto
    have o: "of_store (load_outbox t (query_page after)) = Inr pg" using pg by simp
    note s1 = reconcile_page_sound[OF 1(3) pg r]
    have "tables_sound t' \<and> grows t1 t' \<and> items s = [] \<and> (\<exists>a. load_outbox t' (query_page a) = Inr s)"
      by (rule 1(1)[OF o False r refl rest s1(1)])
    then show ?thesis using s1(2) grows_trans by blast
  qed
qed

lemma reconcile_safe: "body_safe QControl (reconcile_body x now mode)"
proof (rule body_safe_pure)
  fix t d s y m t1
  assume t: "tables_sound t" and "load_outbox t QControl = Inr s"
    and b: "fst (reconcile_body x now mode s t d) = Inr ((y, m), t1)"
  from b obtain start sn p ev m0 rep where
    r: "reconcile_pages x d now mode t [] \<lparr>p_report = empty_report, p_fingerprint = start, p_observations = []\<rparr> = Inr (sn, p, t1)"
    and m: "mutation_of sn ev = Inr m0" "m = m0\<lparr>mreport := rep\<rparr>"
    by (auto simp: reconcile_body_def Let_def split: if_splits)
  from reconcile_pages_sound[OF r t] obtain a where "tables_sound t1" "grows t t1" "items sn = []"
    "load_outbox t1 (query_page a) = Inr sn" by blast
  then show "tables_sound t1 \<and> grows t t1 \<and> sound_mutation t1 m"
    using sound_control(3)[of t1 "query_page a" sn sn ev m0 rep] m by simp
qed (simp add: reconcile_body_def Let_def)


section \<open>Any sequence of operations\<close>

text \<open>One operation, with whatever the environment and the caller decide; dispatching is three, and an attempt
  whose ledger check passed may arrive at the destination at any later time.\<close>

inductive step :: "external \<Rightarrow> sys \<Rightarrow> sys \<Rightarrow> bool" for x where
  acquire_step: "acquire v owner now s = (r, s') \<Longrightarrow> step x s s'"
| renew_step: "renew v l now s = (r, s') \<Longrightarrow> step x s s'"
| claim_step: "claim v x l now s = (r, s') \<Longrightarrow> step x s s'"
| send_step: "send v a now mode s = (r, s') \<Longrightarrow> step x s s'"
| arrive_step: "step x s (arrive a now mode s)"
| observe_step: "observe v x a now oc s = (r, s') \<Longrightarrow> step x s s'"
| hold_step: "hold v restore now s = (r, s') \<Longrightarrow> step x s s'"
| reconcile_step: "reconcile v x now mode s = (r, s') \<Longrightarrow> step x s s'"
| quarantine_step: "quarantine v x key expected operator reason now s = (r, s') \<Longrightarrow> step x s s'"
| resume_step: "resume v x report now s = (r, s') \<Longrightarrow> step x s s'"
| intend_step: "step x s (ledger_intend i due s)"

abbreviation steps :: "external \<Rightarrow> sys \<Rightarrow> sys \<Rightarrow> bool" where
  "steps x \<equiv> (step x)\<^sup>*\<^sup>*"

lemmas body_safes = acquire_safe renew_safe claim_safe observe_safe hold_safe reconcile_safe
  quarantine_safe resume_safe

lemma send_safe:
  assumes "sys_ok s" and "send v a now mode s = (r, s')"
  shows "sys_ok s' \<and> advance s s'"
proof (cases "s' = s")
  case True
  then show ?thesis using assms(1) by (simp add: advance_refl)
next
  case False
  then obtain oc d where d: "dest_send a now mode (dest s) = (oc, d)" "s' = s\<lparr>dest := d\<rparr>"
    using assms(2) by (auto simp: send_def split: sum.splits if_splits prod.splits)
  have "receiver.later (dest s) d"
    using receiver.receive_later[OF _ d(1)] assms(1) by (simp add: sys_ok_def)
  then show ?thesis
    using d(2) assms(1) by (auto simp: sys_ok_def advance_def history_refl receiver.later_def)
qed

lemma arrive_safe: "sys_ok s \<Longrightarrow> sys_ok (arrive a now mode s) \<and> advance s (arrive a now mode s)"
  using receiver.receive_later[of "dest s" a now mode "fst (dest_send a now mode (dest s))" "snd (dest_send a now mode (dest s))"]
  by (auto simp: arrive_def sys_ok_def advance_def history_refl receiver.later_def)

lemma intend_safe:
  assumes "sys_ok s"
  shows "sys_ok (ledger_intend i due s) \<and> advance s (ledger_intend i due s)"
proof (cases "rbind (insert_intention i (tables s)) (hold_delivery (iid i) due)")
  case (Inl e)
  then show ?thesis using assms by (simp add: ledger_intend_def advance_refl)
next
  case (Inr t)
  let ?t = "tables s"
  from Inr have new: "map_of (t_intentions ?t) (iid i) = None" "map_of (t_deliveries ?t) (iid i) = None"
    and r4: "t = ?t\<lparr>t_intentions := om_insert (iid i) i (t_intentions ?t),
                   t_deliveries := om_insert (iid i) (held_row due) (t_deliveries ?t)\<rparr>"
    by (auto simp: insert_intention_def hold_delivery_def split: if_splits)
  define r where "r = held_row due"
  have r: "row_ok r" "row_attempts r = 0" "row_state r = DHeld"
    "t = ?t\<lparr>t_intentions := om_insert (iid i) i (t_intentions ?t), t_deliveries := om_insert (iid i) r (t_deliveries ?t)\<rparr>"
    using r4 by (simp_all add: r_def held_row_def row_ok_def)
  have ok: "tables_ok ?t" using assms by (simp add: sys_ok_def tables_sound_def)
  have m: "map_of (t_deliveries t) = (map_of (t_deliveries ?t))(iid i \<mapsto> r)"
    "map_of (t_intentions t) = (map_of (t_intentions ?t))(iid i \<mapsto> i)"
    using r(4) ok by (simp_all add: om_insert_get tables_ok_def)
  have q: "quarantined t = quarantined ?t" using r(4) by (simp add: quarantined_def fun_eq_iff)
  have "tables_ok t" using ok r(1,4) by (simp add: tables_ok_def om_insert_ok om_insert_get)
  moreover have "all_rows (sound_row (quarantined t)) t"
    using assms r(2,3) by (auto simp: all_rows_def m q sound_row_def sys_ok_def tables_sound_def)
  moreover have "\<exists>r'. map_of (t_deliveries t) k = Some r' \<and> n \<le> row_attempts r'"
    if "map_of (t_attempts t) (k, n) \<noteq> None" for k n
  proof -
    have "map_of (t_attempts ?t) (k, n) \<noteq> None" using that r(4) by simp
    then have "\<exists>r'. map_of (t_deliveries ?t) k = Some r' \<and> n \<le> row_attempts r'"
      using assms unfolding sys_ok_def tables_sound_def by blast
    then show ?thesis using new(2) by (auto simp: m)
  qed
  moreover have "n \<le> revision (t_head t)" if "map_of (t_observations t) n \<noteq> None" for n
    using that assms r(4) by (simp add: sys_ok_def tables_sound_def)
  ultimately have "tables_sound t" by (simp add: tables_sound_def)
  have f: "t_quarantines t = t_quarantines ?t" "t_attempts t = t_attempts ?t" "t_reports t = t_reports ?t"
    "t_observations t = t_observations ?t" "t_installation t = t_installation ?t"
    by (simp_all add: r(4))
  have "history ?t t"
    using new by (auto simp: history_def same_store_def f m map_le_def row_le_refl)
  with \<open>tables_sound t\<close> show ?thesis
    using Inr assms by (simp add: ledger_intend_def sys_ok_def advance_def receiver.later_refl)
qed

lemma step_safe: "step x s s' \<Longrightarrow> sys_ok s \<Longrightarrow> sys_ok s' \<and> advance s s'"
proof (induction rule: step.induct)
  case (acquire_step v owner now s r s')
  then show ?case using transaction_safe[OF acquire_safe] by (auto simp: acquire_def advance_refl split: if_splits)
next
  case (observe_step v a now oc s r s')
  then show ?case using transaction_safe[OF observe_safe] by (auto simp: observe_def split: prod.splits)
next
  case (quarantine_step v key expected operator reason now s r s')
  then show ?case using transaction_safe[OF quarantine_safe] by (auto simp: quarantine_def advance_refl split: if_splits)
next
  case (renew_step v l now s r s')
  then show ?case using transaction_safe[OF renew_safe] by (simp add: renew_def)
next
  case (claim_step v l now s r s')
  then show ?case using transaction_safe[OF claim_safe] by (simp add: claim_def)
next
  case (send_step v a now mode s r s')
  then show ?case using send_safe by simp
next
  case (hold_step v restore now s r s')
  then show ?case using transaction_safe[OF hold_safe] by (simp add: hold_def)
next
  case (reconcile_step v now mode s r s')
  then show ?case using transaction_safe[OF reconcile_safe] by (simp add: reconcile_def)
next
  case (resume_step v report now s r s')
  then show ?case using transaction_safe[OF resume_safe] by (simp add: resume_def)
next
  case (arrive_step s a now mode)
  then show ?case by (rule arrive_safe)
next
  case (intend_step s i due)
  then show ?case using intend_safe by simp
qed

lemma steps_safe: "steps x s s' \<Longrightarrow> sys_ok s \<Longrightarrow> sys_ok s' \<and> advance s s'"
proof (induction rule: rtranclp_induct)
  case (step y z)
  then show ?case using step_safe advance_trans by blast
qed (simp add: advance_refl)

end
