(* ===== verification/Outbox_Properties.thy ===== *)
theory Outbox_Properties
  imports Outbox_Safety
begin

text \<open>
  The outbox's promises as theorems over its operations: the invariant of every reachable state,
  what is permanent, revocation of superseded leases, one receipt for each key, and what claiming
  and observing do.
\<close>

section \<open>A reachable state\<close>

definition sample_installation :: installation where
  "sample_installation = \<lparr>tenant = ''t'', environment = ''e'', logical_store_id = ''store'', imode = ''sandbox'',
     admission = ''open'', dispatch_hold = False, dispatch_enabled = True, igeneration = 0\<rparr>"

definition sample_sys :: sys where
  "sample_sys = \<lparr>tables = \<lparr>t_installation = sample_installation,
       t_head = \<lparr>howner = None, hgeneration = 0, huntil = None, henabled = False, revision = 0\<rparr>,
       t_intentions = [], t_deliveries = [], t_quarantines = [], t_attempts = [], t_observations = [],
       t_reports = []\<rparr>,
     dest = new_destination\<rparr>"

lemma sample_sys_ok: "sys_ok sample_sys"
  by (simp add: sys_ok_def sample_sys_def tables_sound_def tables_ok_def om_ok_def all_rows_def head_ok_def
      sample_installation_def dest_ok_def new_destination_def)

definition model_external :: external where
  "model_external = \<lparr>sha256 = rev, serde = model_serde, from_slice = (\<lambda>_. None)\<rparr>"

definition acquired_sys :: sys where
  "acquired_sys = snd (acquire calm ''worker'' 0 sample_sys)"

lemma steps_refl: "steps x s s"
  by simp

lemma acquired_steps: "steps model_external sample_sys acquired_sys"
  unfolding acquired_sys_def by (rule r_into_rtranclp, rule acquire_step) (rule prod.collapse[symmetric])

text \<open>Two operations run to their results, for the witnesses.\<close>

named_theorems run_simps
declare transaction_def [run_simps] calm_def [run_simps] load_outbox_def [run_simps] selected_def [run_simps]
  last_report_def [run_simps] of_store_def [run_simps] plus_def [run_simps] checked_i64_def [run_simps]
  in_i64_def [run_simps] i64_min_def [run_simps] i64_max_def [run_simps] mutation_of_def [run_simps]
  write_outbox_def [run_simps] update_installation_def [run_simps] update_head_def [run_simps] head_ok_def [run_simps]
  optionally_def [run_simps] sweep_tables_def [run_simps] insert_observation_def [run_simps] fence_def [run_simps]
  generation_def [run_simps] Let_def [run_simps]

lemma obytes_ok: "json_ok v \<Longrightarrow> emittable False 0 v \<Longrightarrow> length (jtext v) \<le> BUNDLE_LIMIT \<Longrightarrow> obytes v = Inr (jtext v)"
  by (simp add: obytes_def from_value_encodable)
lemma zero_str: "int_str 0 = ''0''" by code_simp
lemma event_value: "at_event k 0 = JObject [(''at'', JString ''0''), (''kind'', JString k)]"
  by (simp add: at_event_def jobj_def jstr_def zero_str)
lemma event_text: "jtext (at_event k 0) = ''{\"at\":\"0\",\"kind\":'' @ jstring k @ ''}''"
  by (simp add: event_value jstring_def escape_def encode_utf16_def utf16_units_def scalar_def lead_width_def byte_def)
lemma event_ok: "str_ok k \<Longrightarrow> json_ok (at_event k 0)" "emittable False 0 (at_event k 0)"
  by (simp_all add: event_value str_ok_def valid_utf8_def om_ok_def valid_char_def
      byte_def int_ranges isize_max_def lead_width_def)
lemma event_bytes:
  assumes "str_ok k" and "jstring k = j" and "length j \<le> 1000"
  shows "obytes (at_event k 0) = Inr (''{\"at\":\"0\",\"kind\":'' @ j @ ''}'')"
proof -
  have "length (jtext (at_event k 0)) \<le> BUNDLE_LIMIT"
    unfolding event_text using assms(2,3) by (simp add: BUNDLE_LIMIT_def)
  from obytes_ok[OF event_ok(1)[OF assms(1)] event_ok(2) this] show ?thesis unfolding event_text assms(2) .
qed
lemma acquired_bytes: "obytes (at_event ''acquired'' 0) = Inr (''{\"at\":\"0\",\"kind\":'' @ ''\"acquired\"'' @ ''}'')"
  by (rule event_bytes) (simp_all add: str_ok_def valid_utf8_def valid_char_def byte_def isize_max_def lead_width_def jstring_def escape_def)
lemma paused_bytes: "obytes (at_event ''pause'' 0) = Inr (''{\"at\":\"0\",\"kind\":'' @ ''\"pause\"'' @ ''}'')"
  by (rule event_bytes) (simp_all add: str_ok_def valid_utf8_def valid_char_def byte_def isize_max_def lead_width_def jstring_def escape_def)
lemma worker_ok: "\<not> list_ex is_control (chars ''worker'')"
  by (simp add: lead_width_def byte_def is_control_def scalar_def)
lemma acquire_worker: "acquire v ''worker'' now s = transaction v QControl (acquire_body ''worker'' now) s"
  using worker_ok by (simp add: acquire_def del: chars.simps)
lemma acquire_sample: "acquire calm ''worker'' 0 sample_sys =
  (Inr \<lparr>lstore = ''store'', lowner = ''worker'', lgeneration = 1, restore_generation = 0\<rparr>,
   \<lparr>tables = (tables sample_sys)\<lparr>t_head := \<lparr>howner = Some ''worker'', hgeneration = 1, huntil = Some 15000000, henabled = True, revision = 1\<rparr>,
       t_observations := [(1, 0, ''{\"at\":\"0\",\"kind\":'' @ ''\"acquired\"'' @ ''}'')]\<rparr>,
    dest = \<lparr>fences = [(''store'', (1, 15000000))], receipts = []\<rparr>\<rparr>)"
  by (simp add: acquire_worker acquire_body_def acquired_bytes sample_sys_def sample_installation_def
     new_destination_def run_simps del: append.simps)
lemma hold_acquired: "fst (hold calm False 0 acquired_sys) = Inr ()"
  unfolding acquired_sys_def acquire_sample snd_conv
  by (simp add: hold_def hold_body_def paused_bytes sample_sys_def sample_installation_def
     new_destination_def run_simps del: append.simps)

section \<open>Invariants\<close>

text \<open>
  C27: in every state the outbox can reach, whatever operations run, fail, roll back or end with an
  unknown commit, no delivery has had more than twenty attempts, a quarantined delivery is never
  leased, every logged attempt is counted by its row, a row is leased exactly when it has an owner
  and a deadline, and the dispatcher's owner and deadline are both set or both absent.
\<close>

theorem outbox_invariant:
  assumes "sys_ok s" and "steps x s s'"
  shows "(\<forall>k r. map_of (t_deliveries (tables s')) k = Some r \<longrightarrow>
            0 \<le> row_attempts r \<and> row_attempts r \<le> 20
            \<and> (map_of (t_quarantines (tables s')) k \<noteq> None \<longrightarrow> row_state r \<noteq> DLeased)
            \<and> (row_state r = DLeased \<longleftrightarrow> row_owner r \<noteq> None \<and> row_until r \<noteq> None))
    \<and> (\<forall>k n. map_of (t_attempts (tables s')) (k, n) \<noteq> None \<longrightarrow>
            (\<exists>r. map_of (t_deliveries (tables s')) k = Some r \<and> n \<le> row_attempts r))
    \<and> (howner (t_head (tables s')) = None \<longleftrightarrow> huntil (t_head (tables s')) = None)"
proof -
  have "tables_sound (tables s')" using steps_safe[OF assms(2,1)] by (simp add: sys_ok_def)
  then have t: "tables_ok (tables s')" "all_rows (sound_row (quarantined (tables s'))) (tables s')"
    "\<forall>k n. map_of (t_attempts (tables s')) (k, n) \<noteq> None \<longrightarrow>
          (\<exists>r. map_of (t_deliveries (tables s')) k = Some r \<and> n \<le> row_attempts r)"
    by (simp_all add: tables_sound_def)
  have "0 \<le> row_attempts r \<and> row_attempts r \<le> 20
      \<and> (map_of (t_quarantines (tables s')) k \<noteq> None \<longrightarrow> row_state r \<noteq> DLeased)
      \<and> (row_state r = DLeased \<longleftrightarrow> row_owner r \<noteq> None \<and> row_until r \<noteq> None)"
    if "map_of (t_deliveries (tables s')) k = Some r" for k r
  proof -
    have "row_ok r" using t(1) that by (auto simp: tables_ok_def)
    moreover have "sound_row (quarantined (tables s')) k r" using t(2) that by (simp add: all_rows_def)
    ultimately show ?thesis by (auto simp: row_ok_def sound_row_def quarantined_def split: if_splits)
  qed
  then show ?thesis using t(1,3) by (simp add: tables_ok_def head_ok_def)
qed

theorem outbox_invariant_witness:
  "howner (t_head (tables acquired_sys)) = None \<longleftrightarrow> huntil (t_head (tables acquired_sys)) = None"
  using outbox_invariant[OF sample_sys_ok acquired_steps] by blast

text \<open>
  C28: nothing decided is undone: along any sequence of operations a rejected delivery stays
  rejected and attempt counts never go down, quarantines, logged attempts, observations and
  reports are never changed or removed, and neither is a receipt at the destination, whose fence
  for a store never goes back to an earlier generation.
\<close>

theorem decisions_are_permanent:
  assumes "sys_ok s" and "steps x s s'"
  shows "(\<forall>k r. map_of (t_deliveries (tables s)) k = Some r \<longrightarrow>
            (\<exists>r'. map_of (t_deliveries (tables s')) k = Some r' \<and> row_attempts r \<le> row_attempts r'
               \<and> (row_state r = DRejected \<longrightarrow> row_state r' = DRejected)))
    \<and> map_of (t_quarantines (tables s)) \<subseteq>\<^sub>m map_of (t_quarantines (tables s'))
    \<and> map_of (t_attempts (tables s)) \<subseteq>\<^sub>m map_of (t_attempts (tables s'))
    \<and> map_of (t_observations (tables s)) \<subseteq>\<^sub>m map_of (t_observations (tables s'))
    \<and> set (t_reports (tables s)) \<subseteq> set (t_reports (tables s'))
    \<and> map_of (receipts (dest s)) \<subseteq>\<^sub>m map_of (receipts (dest s'))
    \<and> (\<forall>store g u. map_of (fences (dest s)) store = Some (g, u) \<longrightarrow>
            (\<exists>g' u'. map_of (fences (dest s')) store = Some (g', u') \<and> g \<le> g'))"
proof -
  have a: "history (tables s) (tables s')" "receiver.later (dest s) (dest s')"
    using steps_safe[OF assms(2,1)] by (simp_all add: advance_def)
  from a(1) have "\<exists>r'. map_of (t_deliveries (tables s')) k = Some r' \<and> row_attempts r \<le> row_attempts r'
       \<and> (row_state r = DRejected \<longrightarrow> row_state r' = DRejected)"
    if "map_of (t_deliveries (tables s)) k = Some r" for k r
    using history_row[OF a(1) that] by (auto simp: row_le_def)
  moreover note a(1)[unfolded history_def] a(2)[unfolded receiver.later_def]
  ultimately show ?thesis by blast
qed

lemma map_le_Some: "m \<subseteq>\<^sub>m m' \<Longrightarrow> m k = Some v \<Longrightarrow> m' k = Some v"
  by (auto simp: map_le_def dom_def)

text \<open>
  For the witness, a store with a rejected and a pending delivery, and with an entry of every kind;
  a restore hold then resets what is not decided.
\<close>

definition decided_row :: row where
  "decided_row = \<lparr>row_state = DRejected, row_attempts = 2, row_next = 0, row_owner = None, row_generation = 1,
     row_until = None, row_observation = None\<rparr>"

definition decided_sys :: sys where
  "decided_sys = \<lparr>tables = (tables sample_sys)\<lparr>
       t_head := \<lparr>howner = None, hgeneration = 1, huntil = None, henabled = True, revision = 4\<rparr>,
       t_intentions := [(''a'', \<lparr>iid = ''a'', idestination = ''fake'', ikey = ''a'', ibytes = [], ihash = []\<rparr>),
         (''b'', \<lparr>iid = ''b'', idestination = ''fake'', ikey = ''b'', ibytes = [], ihash = []\<rparr>)],
       t_deliveries := [(''a'', decided_row), (''b'', held_row 0)],
       t_quarantines := [(''a'', (''sha256:00'', ''{}''))],
       t_attempts := [((''a'', 1), \<lparr>at_generation = 1, at_started = 0, at_request_hash = ''sha256:11'', at_bytes = ''{}''\<rparr>)],
       t_observations := [(3, (0, ''{}''))],
       t_reports := [(3, ''sha256:22'', 0, ''{}'')]\<rparr>,
     dest = \<lparr>fences = [(''store'', (1, 50))], receipts = [((''store'', ''a''),
       \<lparr>receipt_request = \<lparr>store_id = ''store'', rkey = ''a'', request_hash = [], payload = []\<rparr>, remote_id = ''fake:a''\<rparr>)]\<rparr>\<rparr>"

lemma decided_sys_ok: "sys_ok decided_sys"
  by (simp add: sys_ok_def decided_sys_def sample_sys_def tables_sound_def tables_ok_def om_ok_def all_rows_def
      head_ok_def sample_installation_def dest_ok_def sound_row_def quarantined_def row_ok_def decided_row_def held_row_def)

lemma restore_bytes: "obytes (at_event ''restore_hold'' 0) = Inr (''{\"at\":\"0\",\"kind\":'' @ ''\"restore_hold\"'' @ ''}'')"
  by (rule event_bytes) (simp_all add: str_ok_def valid_utf8_def valid_char_def byte_def isize_max_def lead_width_def jstring_def escape_def)

lemma hold_decided: "fst (hold calm True 0 decided_sys) = Inr ()"
  "map_option row_state (map_of (t_deliveries (tables (snd (hold calm True 0 decided_sys)))) ''b'') = Some DUnknown"
  by (simp_all add: hold_def hold_body_def restore_bytes decided_sys_def sample_sys_def sample_installation_def run_simps
     decided_row_def held_row_def swept_def sweep_row_def update_delivery_def guard_delivery_def row_ok_def del: append.simps)

theorem decisions_are_permanent_witness:
  "\<exists>s'. hold calm True 0 decided_sys = (Inr (), s')
    \<and> map_option row_state (map_of (t_deliveries (tables s')) ''b'') = Some DUnknown
    \<and> (\<exists>r. map_of (t_deliveries (tables s')) ''a'' = Some r \<and> row_state r = DRejected \<and> 2 \<le> row_attempts r)
    \<and> map_of (t_quarantines (tables s')) ''a'' = Some (''sha256:00'', ''{}'')
    \<and> (\<exists>e. map_of (t_attempts (tables s')) (''a'', 1) = Some e \<and> at_request_hash e = ''sha256:11'')
    \<and> map_of (t_observations (tables s')) 3 = Some (0, ''{}'')
    \<and> (3, ''sha256:22'', 0, ''{}'') \<in> set (t_reports (tables s'))
    \<and> (\<exists>r. map_of (receipts (dest s')) (''store'', ''a'') = Some r \<and> remote_id r = ''fake:a'')
    \<and> (\<exists>g u. map_of (fences (dest s')) ''store'' = Some (g, u) \<and> 1 \<le> g)"
proof -
  define s' where "s' = snd (hold calm True 0 decided_sys)"
  have h: "hold calm True 0 decided_sys = (Inr (), s')" unfolding s'_def by (metis hold_decided(1) prod.collapse)
  have "steps model_external decided_sys s'" by (rule r_into_rtranclp, rule hold_step[OF h])
  note p = decisions_are_permanent[OF decided_sys_ok this]
  have d: "map_of (t_deliveries (tables decided_sys)) ''a'' = Some decided_row"
    "map_of (t_quarantines (tables decided_sys)) ''a'' = Some (''sha256:00'', ''{}'')"
    "map_of (t_attempts (tables decided_sys)) (''a'', 1)
      = Some \<lparr>at_generation = 1, at_started = 0, at_request_hash = ''sha256:11'', at_bytes = ''{}''\<rparr>"
    "map_of (t_observations (tables decided_sys)) 3 = Some (0, ''{}'')"
    "(3, ''sha256:22'', 0, ''{}'') \<in> set (t_reports (tables decided_sys))"
    "map_of (receipts (dest decided_sys)) (''store'', ''a'') = Some
      \<lparr>receipt_request = \<lparr>store_id = ''store'', rkey = ''a'', request_hash = [], payload = []\<rparr>, remote_id = ''fake:a''\<rparr>"
    "map_of (fences (dest decided_sys)) ''store'' = Some (1, 50)"
    by (simp_all add: decided_sys_def)
  from p[THEN conjunct1, rule_format, OF d(1)] obtain r' where r: "map_of (t_deliveries (tables s')) ''a'' = Some r'"
    "row_attempts decided_row \<le> row_attempts r' \<and> (row_state decided_row = DRejected \<longrightarrow> row_state r' = DRejected)" by blast
  have sub: "map_of (t_quarantines (tables decided_sys)) \<subseteq>\<^sub>m map_of (t_quarantines (tables s'))"
    "map_of (t_attempts (tables decided_sys)) \<subseteq>\<^sub>m map_of (t_attempts (tables s'))"
    "map_of (t_observations (tables decided_sys)) \<subseteq>\<^sub>m map_of (t_observations (tables s'))"
    "map_of (receipts (dest decided_sys)) \<subseteq>\<^sub>m map_of (receipts (dest s'))" using p by blast+
  have "map_option row_state (map_of (t_deliveries (tables s')) ''b'') = Some DUnknown" unfolding s'_def by (rule hold_decided(2))
  moreover have "\<exists>r. map_of (t_deliveries (tables s')) ''a'' = Some r \<and> row_state r = DRejected \<and> 2 \<le> row_attempts r"
    using r by (simp add: decided_row_def)
  moreover have "\<exists>e. map_of (t_attempts (tables s')) (''a'', 1) = Some e \<and> at_request_hash e = ''sha256:11''"
    by (rule exI, rule conjI, rule sub(2)[THEN map_le_Some, OF d(3)]) simp
  moreover have "\<exists>r. map_of (receipts (dest s')) (''store'', ''a'') = Some r \<and> remote_id r = ''fake:a''"
    by (rule exI, rule conjI, rule sub(4)[THEN map_le_Some, OF d(6)]) simp
  moreover have "(3, ''sha256:22'', 0, ''{}'') \<in> set (t_reports (tables s'))" using p d(5) by blast
  moreover have "\<exists>g u. map_of (fences (dest s')) ''store'' = Some (g, u) \<and> 1 \<le> g" using p d(7) by blast
  moreover note h sub(1)[THEN map_le_Some, OF d(2)] sub(3)[THEN map_le_Some, OF d(4)]
  ultimately show ?thesis by (intro exI[of _ s'] conjI)
qed

section \<open>Leases\<close>

text \<open>What a committed or possibly committed acquisition or hold did to the fence.\<close>

lemma fence_Inr:
  assumes "fence st g u d = (Inr v, d')" and "dest_ok d"
  shows "map_of (fences d') st = Some (g, u)"
  using receiver.fence_set[OF assms(2,1)] by simp

lemma generation_fence: "map_of (fences d) st = Some (g, u) \<Longrightarrow> generation st d = g"
  by (simp add: generation_def)

lemma plus_Inr: "plus a b = Inr c \<longleftrightarrow> c = a + b \<and> in_i64 (a + b)"
  by (auto simp: plus_def checked_i64_def ok_or_def)

abbreviation the_store :: "sys \<Rightarrow> string" where
  "the_store s \<equiv> logical_store_id (t_installation (tables s))"

lemma acquire_body_fence:
  assumes "acquire_body owner now s t d = (Inr r, d')" and "dest_ok d"
  shows "\<exists>g u m. r = ((\<lparr>lstore = logical_store_id (sinstallation s), lowner = owner, lgeneration = g,
              restore_generation = igeneration (sinstallation s)\<rparr>, m), t)
      \<and> map_of (fences d') (logical_store_id (sinstallation s)) = Some (g, u)
      \<and> generation (logical_store_id (sinstallation s)) d < g"
  using assms fence_Inr[OF _ assms(2)]
  by (auto simp: acquire_body_def Let_def plus_Inr split: if_splits sum.splits prod.splits)

lemma hold_body_fence:
  assumes "hold_body restore now s t d = (Inr r, d')" and "dest_ok d"
  shows "\<exists>g u. map_of (fences d') (logical_store_id (sinstallation s)) = Some (g, u)
      \<and> generation (logical_store_id (sinstallation s)) d < g"
  using assms fence_Inr[OF _ assms(2)]
  by (auto simp: hold_body_def Let_def plus_Inr split: if_splits sum.splits prod.splits)

text \<open>A result of success or of an unknown commit means that the body ran to its end.\<close>

lemma oerror_of_known: "oerror_of e \<noteq> OOutcomeUnknown"
  by (auto simp: oerror_of_def split: store_error.splits)

lemma rolled_back_known: "e \<noteq> OOutcomeUnknown \<Longrightarrow> rolled_back v e \<noteq> OOutcomeUnknown"
  by (auto simp: rolled_back_def oerror_of_known split: option.splits)

lemma transaction_ran:
  assumes "transaction v q body s = (r, s')" and "(\<exists>y. r = Inr y) \<or> r = Inl OOutcomeUnknown"
    and "\<And>sn t d. fst (body sn t d) \<noteq> Inl OOutcomeUnknown"
  obtains snap y m t d t' where "load_outbox (tables s) q = Inr snap"
    "body snap (tables s) (dest s) = (Inr ((y, m), t), d)" "write_outbox m t = Inr t'"
    "dest s' = d" "\<forall>z. r = Inr z \<longrightarrow> z = y \<and> tables s' = t'"
proof -
  have u: "rolled_back v x \<noteq> OOutcomeUnknown" if "body sn t d = (Inl x, d')" for sn t d d' x
    using assms(3)[of sn t d] that by (intro rolled_back_known) auto
  show thesis
    using assms(1,2) that
    by (auto simp: transaction_def of_store_def Let_def oerror_of_known oerror_of_known[symmetric]
        rolled_back_known dest: u
        split: option.splits sum.splits prod.splits fate.splits if_splits)
qed

lemma mutation_known: "mutation_of s e \<noteq> Inl OOutcomeUnknown"
  by (auto simp: mutation_of_def plus_def ok_or_def obytes_def integrity_def rbind_def split: option.splits sum.splits)

lemma fence_known: "fst (fence st g u d) \<noteq> Inl OOutcomeUnknown"
  by (simp add: fence_def)

lemma acquire_known: "fst (acquire_body owner now s t d) \<noteq> Inl OOutcomeUnknown"
  by (auto simp: acquire_body_def Let_def plus_def ok_or_def fence_def rbind_def mutation_known
      split: option.splits sum.splits prod.splits)

lemma hold_known: "fst (hold_body restore now s t d) \<noteq> Inl OOutcomeUnknown"
  by (auto simp: hold_body_def Let_def plus_def ok_or_def fence_def rbind_def mutation_known
      split: option.splits sum.splits prod.splits)

text \<open>An acquisition or a hold that may have happened leaves a fence above every earlier one.\<close>

lemma acquire_raises:
  assumes "sys_ok s" and a: "acquire v owner now s = (r, s')" and r: "(\<exists>l. r = Inr l) \<or> r = Inl OOutcomeUnknown"
  shows "\<exists>g u. map_of (fences (dest s')) (the_store s) = Some (g, u) \<and> generation (the_store s) (dest s) < g
    \<and> (\<forall>l. r = Inr l \<longrightarrow> lstore l = the_store s \<and> lgeneration l = g)"
proof -
  from a r have t: "transaction v QControl (acquire_body owner now) s = (r, s')"
    by (auto simp: acquire_def split: if_splits)
  from transaction_ran[OF t r acquire_known] obtain snap y m t1 d where
    l: "load_outbox (tables s) QControl = Inr snap"
    and b: "acquire_body owner now snap (tables s) (dest s) = (Inr ((y, m), t1), d)"
    and d: "dest s' = d" "\<forall>z. r = Inr z \<longrightarrow> z = y" by metis
  have "dest_ok (dest s)" using assms(1) by (simp add: sys_ok_def)
  from acquire_body_fence[OF b this] d load_items(2)[OF l] show ?thesis by auto
qed

lemma hold_raises:
  assumes "sys_ok s" and a: "hold v restore now s = (r, s')" and r: "(\<exists>l. r = Inr l) \<or> r = Inl OOutcomeUnknown"
  shows "\<exists>g u. map_of (fences (dest s')) (the_store s) = Some (g, u) \<and> generation (the_store s) (dest s) < g"
proof -
  from a have t: "transaction v QControl (hold_body restore now) s = (r, s')" by (simp add: hold_def)
  from transaction_ran[OF t r hold_known] obtain snap y m t1 d where
    l: "load_outbox (tables s) QControl = Inr snap"
    and b: "hold_body restore now snap (tables s) (dest s) = (Inr ((y, m), t1), d)"
    and d: "dest s' = d" by metis
  have "dest_ok (dest s)" using assms(1) by (simp add: sys_ok_def)
  from hold_body_fence[OF b this] d load_items(2)[OF l] show ?thesis by auto
qed

lemma same_store_steps: "sys_ok s \<Longrightarrow> steps x s s' \<Longrightarrow> the_store s' = the_store s"
  using steps_safe by (fastforce simp: advance_def history_def same_store_def)

text \<open>
  C25: a superseded lease can never act again: once a lease has been granted and, any number of
  operations later, another dispatcher acquires or an operator holds dispatch (even when that
  commit's outcome is unknown, so that the ledger may have forgotten it), the destination
  refuses every attempt made under the old lease, at every later time, without recording anything.
\<close>

theorem superseded_lease_revoked:
  assumes ok: "sys_ok s0" and "acquire v owner now s0 = (Inr l, s1)" and "steps x s1 s2"
    and sup: "(\<exists>r. acquire v' owner' now' s2 = (r, s3) \<and> ((\<exists>l'. r = Inr l') \<or> r = Inl OOutcomeUnknown))
       \<or> (\<exists>r. hold v' restore now' s2 = (r, s3) \<and> ((\<exists>u. r = Inr u) \<or> r = Inl OOutcomeUnknown))"
    and "steps x s3 s4" and a: "alease a = l" "store_id (arequest a) = lstore l"
  shows "dest_send a t mode (dest s4) = (Fenced, dest s4)"
proof -
  have "step x s0 s1" using assms(2) by (rule acquire_step)
  then have s1: "sys_ok s1" "the_store s1 = the_store s0"
    using step_safe[OF _ ok] same_store_steps[OF ok r_into_rtranclp] by blast+
  then have s2: "sys_ok s2" "receiver.later (dest s1) (dest s2)" "the_store s2 = the_store s0"
    using steps_safe[OF assms(3)] same_store_steps[OF s1(1) assms(3)] by (simp_all add: advance_def)
  obtain g u where g: "map_of (fences (dest s1)) (the_store s0) = Some (g, u)" "lstore l = the_store s0" "lgeneration l = g"
    using acquire_raises[OF ok assms(2)] by blast
  then obtain g2 u2 where "map_of (fences (dest s2)) (the_store s0) = Some (g2, u2)" "g \<le> g2"
    using receiver.later_fence[OF s2(2)] by blast
  then have "g \<le> generation (the_store s2) (dest s2)" using generation_fence s2(3) by simp
  moreover have "\<exists>g u. map_of (fences (dest s3)) (the_store s2) = Some (g, u) \<and> generation (the_store s2) (dest s2) < g"
    using sup acquire_raises[OF s2(1)] hold_raises[OF s2(1)] by blast
  ultimately obtain g3 u3 where g3: "map_of (fences (dest s3)) (store_id (arequest a)) = Some (g3, u3)" "lgeneration (alease a) < g3"
    using g a s2(3) by auto
  have "step x s2 s3" using sup by (auto intro: acquire_step hold_step)
  then have "receiver.later (dest s3) (dest s4)"
    using step_safe[OF _ s2(1)] steps_safe[OF assms(5)] by (auto simp: advance_def)
  then show ?thesis by (rule receiver.stale_forever[OF g3])
qed

theorem superseded_lease_revoked_witness:
  "dest_send \<lparr>alease = \<lparr>lstore = ''store'', lowner = ''worker'', lgeneration = 1, restore_generation = 0\<rparr>,
       anumber = 1, auntil = 100, arequest = \<lparr>store_id = ''store'', rkey = ''k'', request_hash = [], payload = []\<rparr>\<rparr>
     1 Normal (dest (snd (hold calm False 0 acquired_sys)))
   = (Fenced, dest (snd (hold calm False 0 acquired_sys)))"
proof -
  let ?l = "\<lparr>lstore = ''store'', lowner = ''worker'', lgeneration = 1, restore_generation = 0\<rparr>"
  have a: "acquire calm ''worker'' 0 sample_sys = (Inr ?l, acquired_sys)"
    by (simp add: acquired_sys_def acquire_sample)
  have "hold calm False 0 acquired_sys = (Inr (), snd (hold calm False 0 acquired_sys))"
    by (metis hold_acquired prod.collapse)
  then have "(\<exists>r. acquire calm [] 0 acquired_sys = (r, snd (hold calm False 0 acquired_sys))
        \<and> ((\<exists>l'. r = Inr l') \<or> r = Inl OOutcomeUnknown))
     \<or> (\<exists>r. hold calm False 0 acquired_sys = (r, snd (hold calm False 0 acquired_sys))
        \<and> ((\<exists>u. r = Inr u) \<or> r = Inl OOutcomeUnknown))" by blast
  from superseded_lease_revoked[OF sample_sys_ok a steps_refl[of model_external] this steps_refl[of model_external]]
  show ?thesis by simp
qed

section \<open>One receipt\<close>

lemma send_Delivered:
  assumes "send v a now mode s = (Inr oc, s')"
  shows "dest_send a now mode (dest s) = (oc, dest s')" and "tables s' = tables s"
  using assms by (auto simp: send_def split: sum.splits if_splits prod.splits)

text \<open>
  C24: each key is delivered at most once: if sending an attempt reports \<open>Delivered\<close> and, after any
  operations (restarts, lost commits, other owners, later attempts), sending another attempt under
  the same store and key reports \<open>Delivered\<close>, then it is the same receipt, of the same request; a
  different request under the key is never delivered. The receipt is recorded at the destination
  and found there by every later lookup that answers.
\<close>

theorem delivered_exactly_once:
  assumes "sys_ok s0" and "send v a now mode s0 = (Inr (Delivered r), s1)" and "steps x s1 s2"
  shows "receipt_request r = arequest a
    \<and> map_of (receipts (dest s2)) (store_id (arequest a), rkey (arequest a)) = Some r
    \<and> lookup (store_id (arequest a)) (rkey (arequest a)) Normal (dest s2) = Delivered r
    \<and> (\<forall>v' b now' mode' q s3. send v' b now' mode' s2 = (Inr (Delivered q), s3)
         \<and> store_id (arequest b) = store_id (arequest a) \<and> rkey (arequest b) = rkey (arequest a)
         \<longrightarrow> q = r \<and> arequest b = arequest a)"
proof -
  note d = send_Delivered(1)[OF assms(2)]
  have ok0: "dest_ok (dest s0)" using assms(1) by (simp add: sys_ok_def)
  have s1: "sys_ok s1" using send_safe[OF assms(1,2)] by simp
  then have l: "receiver.later (dest s1) (dest s2)" using steps_safe[OF assms(3)] by (simp add: advance_def)
  have k: "receipt_key a = (store_id (arequest a), rkey (arequest a))" by (simp add: receipt_key_def)
  have "map_of (receipts (dest s1)) (receipt_key a) = Some r" "receipt_request r = arequest a"
    using receiver.delivered_recorded[OF ok0 d] by simp_all
  then have r: "map_of (receipts (dest s2)) (store_id (arequest a), rkey (arequest a)) = Some r"
    using receiver.later_receipt[OF l] k by simp
  have "q = r \<and> arequest b = arequest a"
    if "send v' b now' mode' s2 = (Inr (Delivered q), s3)"
      "store_id (arequest b) = store_id (arequest a)" "rkey (arequest b) = rkey (arequest a)" for v' b now' mode' q s3
  proof -
    have "receipt_key b = receipt_key a" using that(2,3) by (simp add: receipt_key_def)
    from receiver.delivered_once[OF ok0 d l send_Delivered(1)[OF that(1)] this] show ?thesis by (rule conjI)
  qed
  moreover have "lookup (store_id (arequest a)) (rkey (arequest a)) Normal (dest s2) = Delivered r"
    using r by (simp add: lookup_def)
  ultimately show ?thesis
    using r \<open>receipt_request r = arequest a\<close> by (intro conjI allI impI; (elim conjE)?; assumption?; simp)
qed


definition sample_lease :: lease where
  "sample_lease = \<lparr>lstore = ''store'', lowner = ''worker'', lgeneration = 1, restore_generation = 0\<rparr>"

definition sample_attempt :: attempt where
  "sample_attempt = \<lparr>alease = sample_lease, anumber = 1, auntil = 100,
     arequest = \<lparr>store_id = ''store'', rkey = ''k'', request_hash = [], payload = []\<rparr>\<rparr>"

definition leased_sys :: sys where
  "leased_sys = \<lparr>tables = (tables sample_sys)\<lparr>
       t_head := \<lparr>howner = Some ''worker'', hgeneration = 1, huntil = Some 50, henabled = True, revision = 1\<rparr>,
       t_intentions := [(''k'', \<lparr>iid = ''k'', idestination = ''fake'', ikey = ''k'', ibytes = [], ihash = []\<rparr>)],
       t_deliveries := [(''k'', \<lparr>row_state = DLeased, row_attempts = 1, row_next = 0, row_owner = Some ''worker'',
           row_generation = 1, row_until = Some 100, row_observation = None\<rparr>)]\<rparr>,
     dest = \<lparr>fences = [(''store'', (1, 50))], receipts = []\<rparr>\<rparr>"

lemma leased_sys_ok: "sys_ok leased_sys"
  by (simp add: sys_ok_def leased_sys_def sample_sys_def tables_sound_def tables_ok_def om_ok_def all_rows_def
      head_ok_def sample_installation_def dest_ok_def sound_row_def quarantined_def row_ok_def)

lemma send_sample: "send calm sample_attempt 0 Normal leased_sys =
   (Inr (Delivered (fake_receipt sample_attempt)), snd (send calm sample_attempt 0 Normal leased_sys))"
  by (simp add: send_def read_snapshot_def reading_def sample_attempt_def sample_lease_def leased_sys_def sample_sys_def
      sample_installation_def valid_def current_attempt_def before_def dest_send_def fake_receipt_def run_simps
      row_delivery_def BUNDLE_LIMIT_def SCAN_BYTES_def)

theorem delivered_exactly_once_witness:
  "lookup ''store'' ''k'' Normal (dest (snd (send calm sample_attempt 0 Normal leased_sys)))
     = Delivered (fake_receipt sample_attempt)"
  using delivered_exactly_once[OF leased_sys_ok send_sample steps_refl[of model_external]]
  by (simp add: sample_attempt_def)


section \<open>Claiming\<close>

lemma deps_ready:
  "rfold (\<lambda>k ready. rbind (dependency_ready t k) (\<lambda>b. Inr (ready \<and> b))) deps ready = Inr True \<Longrightarrow>
   ready \<and> (\<forall>k \<in> set deps. dependency_ready t k = Inr True)"
proof (induction deps arbitrary: ready)
  case (Cons k deps)
  then obtain b where "dependency_ready t k = Inr b"
    "rfold (\<lambda>k ready. rbind (dependency_ready t k) (\<lambda>b. Inr (ready \<and> b))) deps (ready \<and> b) = Inr True" by auto
  with Cons.IH[OF this(2)] show ?case by auto
qed simp

definition delivered_row :: "tables \<Rightarrow> string \<Rightarrow> bool" where
  "delivered_row t k \<longleftrightarrow> (\<exists>r. map_of (t_deliveries t) k = Some r \<and> row_state r = DDelivered)
     \<and> map_of (t_quarantines t) k = None"

lemma dependency_ready_True:
  assumes "tables_ok t" and "dependency_ready t k = Inr True"
  shows "delivered_row t k"
proof -
  from assms(2) obtain s i d rest where l: "load_outbox t (QKey k) = Inr s" "items s = (i, d) # rest"
    "dstate d = DDelivered" "dquarantine d = None"
    by (auto simp: dependency_ready_def split: list.splits)
  then have "(i, d) \<in> set (items s)" by simp
  from loaded_item[OF assms(1) l(1) this] obtain j r where j: "(iid i, j) \<in> set (selected t (QKey k))"
    "map_of (t_deliveries t) (iid i) = Some r" "d = row_delivery t (iid i) r" by metis
  have "iid i = k" using j(1) by (auto simp: selected_def dest!: in_set_takeD)
  then show ?thesis using j l(3,4) by (auto simp: delivered_row_def row_delivery_def)
qed

text \<open>
  C26: a claim only hands out work that is due and ready, and records it first: when \<open>claim\<close>
  returns an attempt, the lease was the current one, the intention was due (held, pending or to be
  retried, fewer than twenty attempts, its time reached, not quarantined), every intention it
  depends on was delivered and not quarantined, and the request is the one decoded from the stored
  intention. In the committed state the row is leased to the lease's owner and generation for
  thirty seconds with one more attempt, that attempt is logged, and the destination is untouched.
\<close>

theorem claim_due_and_ready:
  assumes "sys_ok s" and "claim v x l now s = (Inr (Some a), s')"
  shows "let t = tables s; t' = tables s'; k = rkey (arequest a) in
    howner (t_head t) = Some (lowner l) \<and> hgeneration (t_head t) = lgeneration l
    \<and> \<not> dispatch_hold (t_installation t) \<and> is_due t now k
    \<and> (\<exists>i sn deps. map_of (t_intentions t) k = Some i \<and> sinstallation sn = t_installation t
         \<and> intention_request x (i\<lparr>iid := k\<rparr>) sn = Inr (arequest a, deps) \<and> list_all (delivered_row t) deps)
    \<and> (\<exists>r. map_of (t_deliveries t) k = Some r \<and> anumber a = row_attempts r + 1
         \<and> map_of (t_deliveries t') k = Some (r\<lparr>row_state := DLeased, row_attempts := anumber a,
              row_owner := Some (lowner l), row_generation := lgeneration l, row_until := Some (auntil a)\<rparr>))
    \<and> (\<exists>e. map_of (t_attempts t') (k, anumber a) = Some e \<and> at_request_hash e = request_hash (arequest a)
         \<and> at_generation e = lgeneration l \<and> at_started e = now)
    \<and> alease a = l \<and> auntil a = now + 30000000 \<and> dest s' = dest s"
proof -
  let ?t = "tables s"
  have t: "tables_ok ?t" using assms(1) by (simp add: sys_ok_def tables_sound_def)
  from assms(2) have tr: "transaction v QControl (claim_body x l now) s = (Inr (Some a), s')" by (simp add: claim_def)
  then obtain s0 m t1 d t' where l0: "load_outbox ?t QControl = Inr s0"
    and b: "claim_body x l now s0 ?t (dest s) = (Inr ((Some a, m), t1), d)"
    and w: "write_outbox m t1 = Inr t'" and s': "s' = s\<lparr>dest := d, tables := t'\<rparr>"
    by (cases rule: transaction_cases) auto
  have val: "valid s0 l now" using b by (auto simp: claim_body_def split: if_splits)
  from t b show ?thesis
  proof (cases rule: claim_body_Inr)
    case (one sn y n req deps)
    let ?d = "snd (items sn ! n)" and ?i = "fst (items sn ! n)"
    let ?e = "claimed l (attempts ?d + 1) (now + 30000000) ?d"
    have i: "(?i, ?d) \<in> set (items sn)" using one(4) by simp
    from loaded_item[OF t one(3) i] obtain j r where j: "(iid ?i, j) \<in> set (selected ?t (QPage y (Some now)))"
      "map_of (t_intentions ?t) (iid ?i) = Some j" "?i = j\<lparr>iid := iid ?i\<rparr>"
      "map_of (t_deliveries ?t) (iid ?i) = Some r" "?d = row_delivery ?t (iid ?i) r" "intention_id ?d = iid ?i" by metis
    have k: "rkey req = iid ?i" by (rule request_key[OF one(5)])
    have a: "alease a = l" "anumber a = attempts ?d + 1" "auntil a = now + 30000000" "arequest a = req"
      using one(8) by simp_all
    obtain m0 ev where m0: "mutation_of (sn\<lparr>items := (items sn)[n := (?i, ?e)]\<rparr>) (at_event ''claim'' now) = Inr m0"
      and m: "m = m0\<lparr>mattempt := Some (rkey req, attempts ?d + 1, now, request_hash req, ev),
                 msweep := Some (SweepExpired now)\<rparr>"
      using one(9) by blast
    have its: "items (msnapshot m) = (items sn)[n := (?i, ?e)]" "shead (msnapshot m) = (shead sn)\<lparr>revision := revision (shead sn) + 1\<rparr>"
      using mutation_of_Inr[OF m0] m by auto
    have e: "intention_id ?e = iid ?i" using j(6) by (simp add: claimed_def)
    have w': "write_outbox m ?t = Inr t'" using w one(1) by simp
    have "map (\<lambda>e. intention_id (snd e)) (items (msnapshot m)) = map (\<lambda>e. intention_id (snd e)) (items sn)"
      unfolding its using one(4) e j(6) by (intro nth_equalityI) (auto simp: nth_list_update)
    then have dist: "distinct (map (\<lambda>e. intention_id (snd e)) (items (msnapshot m)))"
      using loaded_distinct[OF t one(3)] by simp
    have mem: "(?i, ?e) \<in> set (items (msnapshot m))" unfolding its using one(4) by (simp add: set_update_memI)
    have row: "map_of (t_deliveries t') (iid ?i) = Some (set_row ?e r)"
      using write_item_row[OF t w' dist mem, of r] e j(4) by simp
    have set_e: "set_row ?e r = r\<lparr>row_state := DLeased, row_attempts := attempts ?d + 1,
              row_owner := Some (lowner l), row_generation := lgeneration l, row_until := Some (now + 30000000)\<rparr>"
      unfolding j(5) by (simp add: set_row_def claimed_def row_delivery_def)
    have att: "attempts ?d = row_attempts r" unfolding j(5) by (simp add: row_delivery_def)
    have hd: "shead sn = t_head ?t" "shead s0 = t_head ?t" "sinstallation s0 = t_installation ?t"
      "sinstallation sn = t_installation ?t"
      using load_items[OF one(3)] load_items[OF l0] by simp_all
    have gen: "hgeneration (t_head ?t) = lgeneration l" using val hd by (simp add: valid_def)
    have hg: "hgeneration (shead (msnapshot m0)) = lgeneration l" using its(2) m hd(1) gen by simp
    from w' have at: "t_attempts t' = om_insert (rkey req, attempts ?d + 1)
        \<lparr>at_generation = lgeneration l, at_started = now, at_request_hash = request_hash req, at_bytes = ev\<rparr> (t_attempts ?t)"
      by (elim write_parts) (simp add: m hg)
    have "list_all (delivered_row ?t) deps"
      using deps_ready[OF one(6)] dependency_ready_True[OF t] by (simp add: list_all_iff)
    moreover have "intention_request x (j\<lparr>iid := iid ?i\<rparr>) sn = Inr (req, deps)" using one(5) j(3) by simp
    moreover have "map_of (t_attempts t') (rkey req, attempts ?d + 1) =
        Some \<lparr>at_generation = lgeneration l, at_started = now, at_request_hash = request_hash req, at_bytes = ev\<rparr>"
      using t unfolding at by (simp add: om_insert_get tables_ok_def)
    ultimately show ?thesis
      using val hd gen j(2,4) row set_e att k a selected_due[OF j(1)] s' one(2)
      by (auto simp: Let_def valid_def)
  qed simp
qed


text \<open>A claim that succeeds, for the witness: one intention, due and without dependencies.\<close>

lemma one_str: "int_str 1 = ''1''" by code_simp

definition sample_value :: json where
  "sample_value = JObject [(''depends_on'', JArray []), (''destination_id'', JString ''fake''), (''id'', JString ''k''),
     (''idempotency_key'', JString ''k''), (''payload'', JObject []), (''schema'', JString ''ledger-intention/1''),
     (''scope'', JArray [JString ''t'', JString ''e''])]"

lemmas text_simps = jstring_def escape_def encode_utf16_def utf16_units_def scalar_def lead_width_def byte_def
lemmas ok_simps = str_ok_def valid_utf8_def om_ok_def valid_char_def byte_def int_ranges isize_max_def lead_width_def

lemma sample_value_good: "json_ok sample_value" "readable 0 sample_value" "emittable False d sample_value \<longleftrightarrow> d \<le> 30"
  by (simp_all add: sample_value_def ok_simps) linarith

lemma sample_value_text: "jtext sample_value = ''{\"depends_on\":[],\"destination_id\":\"fake\",\"id\":\"k\",\"idempotency_key\":\"k\",\"payload\":{},\"schema\":\"ledger-intention/1\",\"scope\":[\"t\",\"e\"]}''"
  by (simp add: sample_value_def text_simps)

definition blind_external :: external where
  "blind_external = \<lparr>sha256 = (\<lambda>_. []), serde = model_serde, from_slice = (\<lambda>_. None)\<rparr>"

definition due_intention :: intention where
  "due_intention = \<lparr>iid = ''k'', idestination = ''fake'', ikey = ''k'', ibytes = jtext sample_value, ihash = ''sha256:''\<rparr>"

lemma blind_digest:
  assumes "json_ok v" and "emittable False 0 v" and "length (jtext v) \<le> BUNDLE_LIMIT"
  shows "digest (\<lambda>_. []) d v = Inr ''sha256:''"
  using assms by (simp add: digest_def hash_hex_def hash_input_def from_value_encodable hex_def)

lemma due_request:
  assumes "sinstallation s = sample_installation"
  shows "intention_request blind_external due_intention s =
     Inr (\<lparr>store_id = ''store'', rkey = ''k'', request_hash = ''sha256:'', payload = ''{}''\<rparr>, [])"
proof -
  let ?w = "JArray [JString ''intention'', JInt 1, sample_value]"
  have len: "length (jtext sample_value) = 133" by (simp add: sample_value_text)
  have p: "parse_bounded model_serde (jtext sample_value) BUNDLE_LIMIT = Inr sample_value"
    by (rule good_parse[OF model_serde_ok sample_fit]) (simp_all add: good_def sample_value_good len BUNDLE_LIMIT_def)
  have b: "obytes sample_value = Inr (jtext sample_value)"
    by (rule obytes_ok) (simp_all add: sample_value_good len BUNDLE_LIMIT_def)
  have "json_ok ?w" "emittable False 0 ?w" "length (jtext ?w) \<le> BUNDLE_LIMIT"
    by (simp_all add: sample_value_good ok_simps len BUNDLE_LIMIT_def text_simps one_str SAFE_def)
  then have h: "digest (\<lambda>_. []) DomRecordContent ?w = Inr ''sha256:''" by (rule blind_digest)
  have e: "digest (\<lambda>_. []) DomIntentionPayload (JObject []) = Inr ''sha256:''" "obytes (JObject []) = Inr ''{}''"
    by (simp_all add: blind_digest obytes_ok om_ok_def BUNDLE_LIMIT_def)
  have g: "jget sample_value ''id'' = JString ''k''" "jget sample_value ''idempotency_key'' = JString ''k''"
    "jget sample_value ''destination_id'' = JString ''fake''" "jget sample_value ''schema'' = JString ''ledger-intention/1''"
    "jget sample_value ''scope'' = JArray [JString ''t'', JString ''e'']" "jget sample_value ''depends_on'' = JArray []"
    "jlookup sample_value ''payload'' = Some (JObject [])"
    by (simp_all add: sample_value_def jget_def)
  show ?thesis
    unfolding intention_request_def blind_external_def due_intention_def external.simps intention.simps p
    by (simp add: b h e g assms sample_installation_def integrity_def)
qed

definition due_sys :: sys where
  "due_sys = \<lparr>tables = (tables sample_sys)\<lparr>
       t_head := \<lparr>howner = Some ''worker'', hgeneration = 1, huntil = Some 50, henabled = True, revision = 1\<rparr>,
       t_intentions := [(''k'', due_intention)],
       t_deliveries := [(''k'', held_row 0)]\<rparr>,
     dest = \<lparr>fences = [(''store'', (1, 50))], receipts = []\<rparr>\<rparr>"

lemma due_sys_ok: "sys_ok due_sys"
  by (simp add: sys_ok_def due_sys_def sample_sys_def tables_sound_def tables_ok_def om_ok_def all_rows_def
      head_ok_def sample_installation_def dest_ok_def sound_row_def quarantined_def row_ok_def held_row_def
      due_intention_def)

lemma due_id [simp]: "due_intention\<lparr>iid := ''k''\<rparr> = due_intention"
  by (simp add: due_intention_def)
lemma due_ids [simp]: "iid due_intention = ''k''" "length (ibytes due_intention) = 133"
  by (simp_all add: due_intention_def sample_value_text)

lemma due_scan: "load_outbox (tables due_sys) (QPage [] (Some 0)) =
   Inr \<lparr>sinstallation = sample_installation, shead = t_head (tables due_sys),
        items = [(due_intention, row_delivery (tables due_sys) ''k'' (held_row 0))], sreport = None\<rparr>"
  by (simp add: due_sys_def sample_sys_def run_simps PAGE_SIZE_def is_due_def BUNDLE_LIMIT_def SCAN_BYTES_def held_row_def)


definition due_attempt :: attempt where
  "due_attempt = \<lparr>alease = sample_lease, anumber = 1, auntil = 30000000,
     arequest = \<lparr>store_id = ''store'', rkey = ''k'', request_hash = ''sha256:'', payload = ''{}''\<rparr>\<rparr>"

lemma payload_hex: "hex ''{}'' = ''7b7d''" by code_simp

lemma due_evidence: "\<exists>b. obytes (attempt_value (arequest due_attempt) 1 1) = Inr b"
proof -
  let ?v = "attempt_value (arequest due_attempt) 1 1"
  have v: "?v = JObject [(''attempt'', JString ''1''), (''generation'', JString ''1''), (''request'',
      JObject [(''key'', JString ''k''), (''payload_hex'', JString ''7b7d''), (''request_hash'', JString ''sha256:''),
        (''store_id'', JString ''store'')])]"
    by (simp add: attempt_value_def request_value_def due_attempt_def jobj_def jstr_def one_str payload_hex)
  have "obytes ?v = Inr (jtext ?v)"
    unfolding v by (rule obytes_ok) (simp_all add: ok_simps BUNDLE_LIMIT_def text_simps)
  then show ?thesis by blast
qed

lemma claim_bytes: "obytes (at_event ''claim'' 0) = Inr (''{\"at\":\"0\",\"kind\":'' @ ''\"claim\"'' @ ''}'')"
  by (rule event_bytes) (simp_all add: str_ok_def valid_utf8_def valid_char_def byte_def isize_max_def lead_width_def jstring_def escape_def)

lemma due_claimed: "claim_scan blind_external (tables due_sys) 0 [] =
  Inr (\<lparr>sinstallation = sample_installation, shead = t_head (tables due_sys),
        items = [(due_intention, row_delivery (tables due_sys) ''k'' (held_row 0))], sreport = None\<rparr>,
      Some (0, arequest due_attempt))"
  by (subst claim_scan.simps) (simp add: due_scan due_request due_attempt_def of_store_def)

lemma claim_due: "fst (claim calm blind_external sample_lease 0 due_sys) = Inr (Some due_attempt)"
proof -
  obtain b where "obytes (attempt_value (arequest due_attempt) 1 1) = Inr b" using due_evidence by blast
  note b = this[unfolded due_attempt_def attempt.simps]
  have l: "load_outbox (tables due_sys) QControl = Inr \<lparr>sinstallation = sample_installation, shead = t_head (tables due_sys),
        items = [], sreport = None\<rparr>"
    by (simp add: due_sys_def sample_sys_def run_simps)
  show ?thesis
    unfolding claim_def transaction_def l claim_body_def due_claimed
    by (simp add: b claim_bytes run_simps valid_def before_def due_sys_def sample_sys_def
       sample_installation_def sample_lease_def due_attempt_def row_delivery_def held_row_def claimed_def swept_def
       update_delivery_def guard_delivery_def row_ok_def set_row_def insert_attempt_def del: append.simps)
qed

theorem claim_due_and_ready_witness:
  "is_due (tables due_sys) 0 ''k''
   \<and> map_of (t_deliveries (tables (snd (claim calm blind_external sample_lease 0 due_sys)))) ''k''
     = Some ((held_row 0)\<lparr>row_state := DLeased, row_attempts := 1, row_owner := Some ''worker'',
              row_generation := 1, row_until := Some 30000000\<rparr>)"
proof -
  have "claim calm blind_external sample_lease 0 due_sys =
      (Inr (Some due_attempt), snd (claim calm blind_external sample_lease 0 due_sys))"
    using claim_due by (metis prod.collapse)
  note due = claim_due_and_ready[OF due_sys_ok this]
  have "map_of (t_deliveries (tables due_sys)) ''k'' = Some (held_row 0)" by (simp add: due_sys_def)
  moreover have "rkey (arequest due_attempt) = ''k''" "anumber due_attempt = 1" "auntil due_attempt = 30000000"
    "lowner sample_lease = ''worker''" "lgeneration sample_lease = 1"
    by (simp_all add: due_attempt_def sample_lease_def)
  ultimately show ?thesis using due by (simp add: Let_def)
qed

end
