(* ===== verification/Calendar.thy ===== *)
theory Calendar
  imports Prelude
begin

text \<open>
  The billing calendar (\<^verbatim>\<open>domain/calendar.rs\<close>): the local boundaries a recurring term schedules,
  their UTC instants, and the half-open periods between them. The dates of \<open>chrono\<close> and the zones
  of \<open>chrono_tz\<close> are parameters: records of the operations the code calls.
\<close>

section \<open>Errors\<close>

text \<open>\<open>CalendarError\<close>, and the panic of an \<open>expect\<close> or of an operator of \<open>chrono\<close> that overflows.\<close>

datatype calendar_error = InvalidInterval | UnsupportedBoundaryRules | UnsupportedTimezoneRules
  | UnknownTimezone | WeekStartRequired | InvalidMonthEndAnchor | OutOfRange | NegativePeriod
  | CalendarPanic

type_synonym 'a calendar_result = "calendar_error + 'a"

section \<open>The libraries the calendar is built on\<close>

text \<open>
  What is called of \<open>NaiveDate\<close>: \<open>from_ymd_opt\<close>, the fields, \<open>checked_add_signed\<close> by whole days
  (of which \<open>pred_opt\<close> is the case of minus one day), the days from Monday, the order and the
  signed number of days between two dates; and whether \<open>Duration::days\<close> can represent a number
  of days, which it panics on otherwise.
\<close>

record 'd dates =
  from_ymd :: "int \<Rightarrow> nat \<Rightarrow> nat \<Rightarrow> 'd option"
  year_of :: "'d \<Rightarrow> int"
  month_of :: "'d \<Rightarrow> nat"
  day_of :: "'d \<Rightarrow> nat"
  shift :: "'d \<Rightarrow> int \<Rightarrow> 'd option"
  days_from_monday :: "'d \<Rightarrow> int"
  date_less :: "'d \<Rightarrow> 'd \<Rightarrow> bool"
  days_between :: "'d \<Rightarrow> 'd \<Rightarrow> int"
  days_fit :: "int \<Rightarrow> bool"

text \<open>A \<open>NaiveDateTime\<close>: a date and the nanoseconds since midnight. \<open>NaiveTime::MIN\<close> is zero.\<close>

record 'd local_time =
  lt_date :: 'd
  lt_nanos :: nat

datatype local_result = Single int | Ambiguous int int | NoLocal

text \<open>
  What is called of \<open>chrono_tz\<close>: the version of its data, parsing a name, the instants of a local
  time, the end of the gap a local time falls in, and the local date of an instant. A UTC instant
  is its number of nanoseconds.
\<close>

record ('z, 'd) zones =
  tzdb_version :: string
  zone_parse :: "string \<Rightarrow> 'z option"
  from_local :: "'z \<Rightarrow> 'd local_time \<Rightarrow> local_result"
  gap_end :: "'z \<Rightarrow> 'd local_time \<Rightarrow> int option"
  date_at :: "'z \<Rightarrow> int \<Rightarrow> 'd"

definition local_less :: "'d dates \<Rightarrow> 'd local_time \<Rightarrow> 'd local_time \<Rightarrow> bool" where
  "local_less D a b \<longleftrightarrow> date_less D (lt_date a) (lt_date b)
     \<or> \<not> date_less D (lt_date b) (lt_date a) \<and> lt_nanos a < lt_nanos b"

text \<open>\<open>Duration::days\<close>, then \<open>checked_add_signed\<close>.\<close>

definition shift_days :: "'d dates \<Rightarrow> 'd \<Rightarrow> int \<Rightarrow> 'd calendar_result" where
  "shift_days D d n = (if \<not> days_fit D n then Inl CalendarPanic else ok_or (shift D d n) OutOfRange)"

definition add_days :: "'d dates \<Rightarrow> 'd local_time \<Rightarrow> int \<Rightarrow> 'd local_time calendar_result" where
  "add_days D t n = rbind (shift_days D (lt_date t) n) (\<lambda>d. Inr (t\<lparr>lt_date := d\<rparr>))"

section \<open>Terms\<close>

datatype calendar_unit = CDay | CWeek | CMonth | CYear
datatype alignment = Anchored | CalendarAligned
datatype month_end_rule = PreserveAnchorAndClamp | ExplicitEndOfMonth
datatype weekday = Monday | Tuesday | Wednesday | Thursday | Friday | Saturday | Sunday

fun to_chrono :: "weekday \<Rightarrow> int" where
  "to_chrono Monday = 0"
| "to_chrono Tuesday = 1"
| "to_chrono Wednesday = 2"
| "to_chrono Thursday = 3"
| "to_chrono Friday = 4"
| "to_chrono Saturday = 5"
| "to_chrono Sunday = 6"

record 'd calendar_term =
  ct_interval :: nat
  ct_unit :: calendar_unit
  ct_alignment :: alignment
  ct_anchor :: "'d local_time"
  ct_timezone :: string
  ct_week_start :: "weekday option"
  ct_month_end_rule :: month_end_rule
  ct_effective_at :: int
  ct_boundary_rule_version :: string
  ct_timezone_rules_version :: string

record utc_period =
  up_index :: nat
  up_start :: int
  up_end :: int

definition IANA_TZDB_VERSION :: string where "IANA_TZDB_VERSION = ''IANA-2025b''"
definition BOUNDARY_RULES_VERSION :: string where "BOUNDARY_RULES_VERSION = ''billing-boundary/1''"
definition MAX_BOUNDARY_SEARCH :: nat where "MAX_BOUNDARY_SEARCH = 2000000"

definition pinned_timezone_rules_match :: "('z, 'd) zones \<Rightarrow> string \<Rightarrow> bool" where
  "pinned_timezone_rules_match Z label \<longleftrightarrow> label = IANA_TZDB_VERSION \<and> tzdb_version Z = ''2025b''"

definition resolve_timezone_local :: "('z, 'd) zones \<Rightarrow> 'z \<Rightarrow> 'd local_time \<Rightarrow> int calendar_result" where
  "resolve_timezone_local Z tz t =
     (case from_local Z tz t of
        Single u \<Rightarrow> Inr u
      | Ambiguous a b \<Rightarrow> Inr (min a b)
      | NoLocal \<Rightarrow> ok_or (gap_end Z tz t) OutOfRange)"

definition last_day :: "'d dates \<Rightarrow> int \<Rightarrow> nat \<Rightarrow> nat option" where
  "last_day D y m =
     (let (ny, nm) = (if m = 12 then (y + 1, 1) else (y, m + 1)) in
      if ny > 2147483647 then None
      else case from_ymd D ny nm 1 of
        None \<Rightarrow> None
      | Some d \<Rightarrow> map_option (day_of D) (shift D d (- 1)))"

definition term_validate :: "'d dates \<Rightarrow> ('z, 'd) zones \<Rightarrow> 'd calendar_term \<Rightarrow> 'z calendar_result" where
  "term_validate D Z t =
     (if ct_interval t = 0 then Inl InvalidInterval
      else if ct_boundary_rule_version t \<noteq> BOUNDARY_RULES_VERSION then Inl UnsupportedBoundaryRules
      else if \<not> pinned_timezone_rules_match Z (ct_timezone_rules_version t) then Inl UnsupportedTimezoneRules
      else rbind (ok_or (zone_parse Z (ct_timezone t)) UnknownTimezone) (\<lambda>tz.
        if ct_unit t = CWeek \<and> ct_week_start t = None then Inl WeekStartRequired
        else if ct_month_end_rule t = ExplicitEndOfMonth then
          rbind (ok_or (last_day D (year_of D (lt_date (ct_anchor t))) (month_of D (lt_date (ct_anchor t)))) OutOfRange)
            (\<lambda>last. if day_of D (lt_date (ct_anchor t)) \<noteq> last then Inl InvalidMonthEndAnchor else Inr tz)
        else Inr tz))"

section \<open>The schedule\<close>

text \<open>The local time \<open>months\<close> months after the anchor, its day clamped to the month.\<close>

definition month_at :: "'d dates \<Rightarrow> 'd calendar_term \<Rightarrow> 'd local_time \<Rightarrow> nat \<Rightarrow> 'd local_time calendar_result" where
  "month_at D t anchor months =
     rbind (ok_or (checked_i64 (year_of D (lt_date anchor) * 12)) OutOfRange) (\<lambda>v.
     rbind (ok_or (checked_i64 (v + (int (month_of D (lt_date anchor)) - 1))) OutOfRange) (\<lambda>base.
     rbind (ok_or (checked_i64 (int months)) OutOfRange) (\<lambda>months.
     rbind (ok_or (checked_i64 (base + months)) OutOfRange) (\<lambda>total.
     let year = total div 12; month = nat (total mod 12 + 1) in
     if year < -2147483648 \<or> year > 2147483647 then Inl OutOfRange
     else rbind (ok_or (last_day D year month) OutOfRange) (\<lambda>target_last.
       let day = (if ct_alignment t = Anchored \<and> ct_month_end_rule t = ExplicitEndOfMonth then target_last
                  else min (day_of D (lt_date anchor)) target_last) in
       rbind (ok_or (from_ymd D year month day) OutOfRange) (\<lambda>d.
       Inr \<lparr>lt_date = d, lt_nanos = lt_nanos anchor\<rparr>))))))"

definition first_calendar_boundary :: "'d dates \<Rightarrow> 'd calendar_term \<Rightarrow> 'd local_time calendar_result" where
  "first_calendar_boundary D t =
     (let d = lt_date (ct_anchor t) in
      rbind (case ct_unit t of
           CDay \<Rightarrow> Inr d
         | CWeek \<Rightarrow> rbind (ok_or (ct_week_start t) WeekStartRequired) (\<lambda>w.
             shift_days D d ((to_chrono w - days_from_monday D d) mod 7))
         | CMonth \<Rightarrow> ok_or (from_ymd D (year_of D d) (month_of D d) 1) OutOfRange
         | CYear \<Rightarrow> ok_or (from_ymd D (year_of D d) 1 1) OutOfRange) (\<lambda>date.
      let candidate = \<lparr>lt_date = date, lt_nanos = 0\<rparr> in
      if local_less D candidate (ct_anchor t) then
        (case ct_unit t of
           CDay \<Rightarrow> add_days D candidate 1
         | CWeek \<Rightarrow> add_days D candidate 7
         | CMonth \<Rightarrow> (case month_at D t candidate 1 of Inr x \<Rightarrow> Inr x | Inl _ \<Rightarrow> Inl OutOfRange)
         | CYear \<Rightarrow> (case month_at D t candidate 12 of Inr x \<Rightarrow> Inr x | Inl _ \<Rightarrow> Inl OutOfRange))
      else Inr candidate))"

definition scheduled_local :: "'d dates \<Rightarrow> ('z, 'd) zones \<Rightarrow> 'd calendar_term \<Rightarrow> nat \<Rightarrow> 'd local_time calendar_result" where
  "scheduled_local D Z t ordinal =
     rbind (term_validate D Z t) (\<lambda>_.
     rbind (case ct_alignment t of Anchored \<Rightarrow> Inr (ct_anchor t) | CalendarAligned \<Rightarrow> first_calendar_boundary D t) (\<lambda>anchor.
     rbind (ok_or (checked_u64 (ordinal * ct_interval t)) OutOfRange) (\<lambda>steps.
     case ct_unit t of
       CDay \<Rightarrow> rbind (ok_or (checked_i64 (int steps)) OutOfRange) (add_days D anchor)
     | CWeek \<Rightarrow> rbind (ok_or (checked_i64 (int steps)) OutOfRange) (\<lambda>n. add_days D anchor (7 * n))
     | CMonth \<Rightarrow> month_at D t anchor steps
     | CYear \<Rightarrow> rbind (ok_or (checked_u64 (steps * 12)) OutOfRange) (month_at D t anchor))))"

definition resolve_local :: "'d dates \<Rightarrow> ('z, 'd) zones \<Rightarrow> 'd calendar_term \<Rightarrow> 'd local_time \<Rightarrow> int calendar_result" where
  "resolve_local D Z t x = rbind (term_validate D Z t) (\<lambda>tz. resolve_timezone_local Z tz x)"

section \<open>Periods\<close>

text \<open>The loop of \<open>first_boundary_after\<close>; the first argument counts the turns it has left.\<close>

fun boundary_search :: "'d dates \<Rightarrow> ('z, 'd) zones \<Rightarrow> 'd calendar_term \<Rightarrow> nat \<Rightarrow> int \<Rightarrow> nat \<Rightarrow> (nat \<times> int) calendar_result" where
  "boundary_search D Z t 0 instant ordinal = Inl OutOfRange"
| "boundary_search D Z t (Suc turns) instant ordinal =
     rbind (scheduled_local D Z t ordinal) (\<lambda>x.
     rbind (resolve_local D Z t x) (\<lambda>boundary.
     if boundary > instant then Inr (ordinal, boundary)
     else rbind (ok_or (checked_u64 (ordinal + 1)) OutOfRange) (boundary_search D Z t turns instant)))"

definition first_boundary_after :: "'d dates \<Rightarrow> ('z, 'd) zones \<Rightarrow> 'd calendar_term \<Rightarrow> int \<Rightarrow> nat \<Rightarrow> (nat \<times> int) calendar_result" where
  "first_boundary_after D Z t = boundary_search D Z t MAX_BOUNDARY_SEARCH"

text \<open>The loop of \<open>period\<close>, with the number of turns left.\<close>

fun period_walk :: "'d dates \<Rightarrow> ('z, 'd) zones \<Rightarrow> 'd calendar_term \<Rightarrow> nat \<Rightarrow> int \<Rightarrow> nat \<Rightarrow> (int \<times> int) calendar_result" where
  "period_walk D Z t 0 start next_ordinal = Inl OutOfRange"
| "period_walk D Z t (Suc turns) start next_ordinal =
     rbind (first_boundary_after D Z t start next_ordinal) (\<lambda>(ordinal, end').
     if turns = 0 then Inr (start, end')
     else rbind (ok_or (checked_u64 (ordinal + 1)) OutOfRange) (period_walk D Z t turns end'))"

definition period :: "'d dates \<Rightarrow> ('z, 'd) zones \<Rightarrow> 'd calendar_term \<Rightarrow> int \<Rightarrow> utc_period calendar_result" where
  "period D Z t index =
     (if index < 0 then Inl NegativePeriod
      else if nat index > MAX_BOUNDARY_SEARCH then Inl OutOfRange
      else rbind (first_boundary_after D Z t (ct_effective_at t) 0) (\<lambda>(ordinal, first_end).
        if nat index = 0 then Inr \<lparr>up_index = 0, up_start = ct_effective_at t, up_end = first_end\<rparr>
        else rbind (ok_or (checked_u64 (ordinal + 1)) OutOfRange) (\<lambda>next_ordinal.
          rbind (period_walk D Z t (nat index) first_end next_ordinal) (\<lambda>(start, end').
          Inr \<lparr>up_index = nat index, up_start = start, up_end = end'\<rparr>))))"

text \<open>The loop of \<open>period_for\<close>.\<close>

function locate :: "'d dates \<Rightarrow> ('z, 'd) zones \<Rightarrow> 'd calendar_term \<Rightarrow> int \<Rightarrow> nat \<Rightarrow> int \<Rightarrow> nat \<Rightarrow> utc_period calendar_result" where
  "locate D Z t accepted_at index start next_ordinal =
     (if index \<ge> MAX_BOUNDARY_SEARCH then Inl OutOfRange
      else rbind (first_boundary_after D Z t start next_ordinal) (\<lambda>(ordinal, end').
        if accepted_at < end' then Inr \<lparr>up_index = index + 1, up_start = start, up_end = end'\<rparr>
        else rbind (ok_or (checked_u64 (ordinal + 1)) OutOfRange) (locate D Z t accepted_at (index + 1) end')))"
  by pat_completeness auto
termination
  by (relation "measure (\<lambda>(D, Z, t, accepted_at, index, start, next_ordinal). MAX_BOUNDARY_SEARCH - index)") auto

declare locate.simps [simp del]

definition period_for :: "'d dates \<Rightarrow> ('z, 'd) zones \<Rightarrow> 'd calendar_term \<Rightarrow> int \<Rightarrow> utc_period calendar_result" where
  "period_for D Z t accepted_at =
     (if accepted_at < ct_effective_at t then Inl OutOfRange
      else rbind (first_boundary_after D Z t (ct_effective_at t) 0) (\<lambda>(ordinal, first_end).
        if accepted_at < first_end then Inr \<lparr>up_index = 0, up_start = ct_effective_at t, up_end = first_end\<rparr>
        else rbind (ok_or (checked_u64 (ordinal + 1)) OutOfRange) (locate D Z t accepted_at 0 first_end)))"

end
