(* ===== verification/Calendar_Laws.thy ===== *)
theory Calendar_Laws
  imports Calendar
begin

text \<open>
  The periods of a term as consecutive cuts of the timeline: the boundary after \<open>i\<close> steps, the
  loops of \<open>period\<close> and \<open>period_for\<close> over it, and its list of cuts when the schedule resolves.
\<close>

lemma checked_u64_in [simp]: "n \<le> u64_max \<Longrightarrow> checked_u64 n = Some n"
  by simp

section \<open>The cut after a number of steps\<close>

text \<open>The end of period \<open>i\<close> with its ordinal: what \<open>period\<close> and \<open>period_for\<close> both walk along.\<close>

fun cut_at :: "'d dates \<Rightarrow> ('z, 'd) zones \<Rightarrow> 'd calendar_term \<Rightarrow> nat \<Rightarrow> (nat \<times> int) calendar_result" where
  "cut_at D Z t 0 = first_boundary_after D Z t (ct_effective_at t) 0"
| "cut_at D Z t (Suc i) =
     rbind (cut_at D Z t i) (\<lambda>(ordinal, c).
     rbind (ok_or (checked_u64 (ordinal + 1)) OutOfRange) (first_boundary_after D Z t c))"

definition start_at :: "'d dates \<Rightarrow> ('z, 'd) zones \<Rightarrow> 'd calendar_term \<Rightarrow> nat \<Rightarrow> int calendar_result" where
  "start_at D Z t i =
     (case i of 0 \<Rightarrow> Inr (ct_effective_at t) | Suc j \<Rightarrow> rbind (cut_at D Z t j) (\<lambda>(ordinal, c). Inr c))"

lemma search_after: "boundary_search D Z t n s k = Inr (j, b) \<Longrightarrow> s < b"
  by (induction n arbitrary: k) (auto split: if_splits)

lemma first_boundary_after_less: "first_boundary_after D Z t s k = Inr (j, b) \<Longrightarrow> s < b"
  unfolding first_boundary_after_def by (rule search_after)

lemma cut_at_increases: "cut_at D Z t (Suc i) = Inr (j', c') \<Longrightarrow> \<exists>j c. cut_at D Z t i = Inr (j, c) \<and> c < c'"
  by (auto dest: first_boundary_after_less)

lemma cut_at_effective: "cut_at D Z t i = Inr (j, c) \<Longrightarrow> ct_effective_at t < c"
proof (induction i arbitrary: j c)
  case 0
  then show ?case by (auto dest: first_boundary_after_less)
next
  case (Suc i)
  from cut_at_increases[OF Suc.prems] Suc.IH show ?case by fastforce
qed

lemma cut_at_mono:
  assumes "cut_at D Z t k = Inr (jk, ck)" and "i \<le> k"
  shows "\<exists>j c. cut_at D Z t i = Inr (j, c) \<and> (i < k \<longrightarrow> c < ck) \<and> c \<le> ck"
  using assms
proof (induction k arbitrary: jk ck)
  case (Suc k)
  show ?case
  proof (cases "i = Suc k")
    case False
    with Suc.prems(2) have "i \<le> k" by simp
    from cut_at_increases[OF Suc.prems(1)] obtain j c where "cut_at D Z t k = Inr (j, c)" "c < ck" by auto
    with Suc.IH[OF this(1) \<open>i \<le> k\<close>] show ?thesis by fastforce
  qed (use Suc.prems in auto)
qed simp

section \<open>The loop of \<open>period\<close>\<close>

lemma period_walk_Suc:
  "rbind m (period_walk D Z t (Suc k) c) =
     rbind (rbind m (first_boundary_after D Z t c)) (\<lambda>(ordinal, end').
       if k = 0 then Inr (c, end') else rbind (ok_or (checked_u64 (ordinal + 1)) OutOfRange) (period_walk D Z t k end'))"
  by (cases m) simp_all

lemma period_walk_cuts:
  assumes "cut_at D Z t i = Inr (j, c)"
  shows "rbind (ok_or (checked_u64 (j + 1)) OutOfRange) (period_walk D Z t (Suc k) c)
    = rbind (start_at D Z t (Suc (i + k))) (\<lambda>s. rbind (cut_at D Z t (Suc (i + k))) (\<lambda>(j, e). Inr (s, e)))"
  using assms
proof (induction k arbitrary: i j c)
  case 0
  then show ?case
    by (simp add: start_at_def rbind_assoc)
next
  case (Suc k)
  show ?case
  proof (cases "cut_at D Z t (Suc i)")
    case (Inl e)
    then have "cut_at D Z t (Suc (i + n)) = Inl e" for n by (induction n) auto
    from this[of k] this[of "Suc k"]
    have "cut_at D Z t (Suc (i + Suc k)) = Inl e" "start_at D Z t (Suc (i + Suc k)) = Inl e"
      by (simp_all add: start_at_def)
    moreover have "rbind (ok_or (checked_u64 (j + 1)) OutOfRange) (first_boundary_after D Z t c) = Inl e"
      using Suc.prems Inl by simp
    ultimately show ?thesis unfolding period_walk_Suc by (simp del: cut_at.simps)
  next
    case (Inr r)
    then obtain j' c' where r: "cut_at D Z t (Suc i) = Inr (j', c')" by (cases r) auto
    then have "rbind (ok_or (checked_u64 (j + 1)) OutOfRange) (first_boundary_after D Z t c) = Inr (j', c')"
      using Suc.prems by simp
    then have "rbind (ok_or (checked_u64 (j + 1)) OutOfRange) (period_walk D Z t (Suc (Suc k)) c)
        = rbind (ok_or (checked_u64 (j' + 1)) OutOfRange) (period_walk D Z t (Suc k) c')"
      unfolding period_walk_Suc[of _ _ _ _ "Suc k"] by simp
    then show ?thesis using Suc.IH[OF r] by (simp del: period_walk.simps cut_at.simps)
  qed
qed

text \<open>Period \<open>i\<close> runs from its start to its cut.\<close>

lemma period_cuts:
  assumes "i \<le> MAX_BOUNDARY_SEARCH"
  shows "period D Z t (int i) =
    rbind (start_at D Z t i) (\<lambda>s. rbind (cut_at D Z t i) (\<lambda>(j, e). Inr \<lparr>up_index = i, up_start = s, up_end = e\<rparr>))"
proof (cases i)
  case 0
  then show ?thesis by (auto simp: period_def start_at_def MAX_BOUNDARY_SEARCH_def)
next
  case (Suc k)
  show ?thesis
  proof (cases "cut_at D Z t 0")
    case (Inl e)
    then have "cut_at D Z t n = Inl e" for n by (induction n) auto
    then show ?thesis using assms Inl by (simp add: Suc period_def start_at_def del: of_nat_Suc)
  next
    case (Inr r)
    then obtain j c where r: "cut_at D Z t 0 = Inr (j, c)" by (cases r) auto
    have "period D Z t (int i) = rbind (rbind (ok_or (checked_u64 (j + 1)) OutOfRange) (period_walk D Z t (Suc k) c))
        (\<lambda>(s, e). Inr \<lparr>up_index = i, up_start = s, up_end = e\<rparr>)"
      using r assms by (simp add: period_def Suc rbind_assoc del: of_nat_Suc period_walk.simps)
    also have "\<dots> = rbind (start_at D Z t i) (\<lambda>s. rbind (cut_at D Z t i) (\<lambda>(j, e). Inr \<lparr>up_index = i, up_start = s, up_end = e\<rparr>))"
      unfolding period_walk_cuts[OF r] by (simp add: Suc rbind_assoc case_prod_unfold del: cut_at.simps)
    finally show ?thesis .
  qed
qed

section \<open>The loop of \<open>period_for\<close>\<close>

text \<open>Period \<open>k\<close> with this start and cut contains this instant.\<close>

definition period_contains :: "'d dates \<Rightarrow> ('z, 'd) zones \<Rightarrow> 'd calendar_term \<Rightarrow> int \<Rightarrow> utc_period \<Rightarrow> bool" where
  "period_contains D Z t a p \<longleftrightarrow> up_index p \<le> MAX_BOUNDARY_SEARCH
     \<and> start_at D Z t (up_index p) = Inr (up_start p) \<and> (\<exists>j. cut_at D Z t (up_index p) = Inr (j, up_end p))
     \<and> up_start p \<le> a \<and> a < up_end p"

lemma period_contains_iff:
  "period_contains D Z t a p \<longleftrightarrow> period D Z t (int (up_index p)) = Inr p \<and> up_start p \<le> a \<and> a < up_end p"
proof (cases "up_index p \<le> MAX_BOUNDARY_SEARCH")
  case True
  then show ?thesis unfolding period_contains_def period_cuts[OF True] by (cases p) (auto simp: rbind_Inr_iff)
qed (simp add: period_contains_def period_def)

lemma locate_sound:
  assumes "locate D Z t a i c n = Inr p" and "cut_at D Z t i = Inr (j, c)" and "checked_u64 (j + 1) = Some n" and "c \<le> a"
  shows "period_contains D Z t a p"
  using assms
proof (induction D Z t a i c n arbitrary: j rule: locate.induct)
  case (1 D Z t a i c n)
  then obtain j' c' where i: "i < MAX_BOUNDARY_SEARCH" and f: "first_boundary_after D Z t c n = Inr (j', c')"
    by (subst (asm) (2) locate.simps) (auto split: if_splits)
  have next': "cut_at D Z t (Suc i) = Inr (j', c')" using 1 f by simp
  show ?case
  proof (cases "a < c'")
    case True
    then have "p = \<lparr>up_index = Suc i, up_start = c, up_end = c'\<rparr>"
      using "1.prems"(1) i f by (subst (asm) locate.simps) simp
    then show ?thesis using next' True i 1 by (simp add: period_contains_def start_at_def del: cut_at.simps)
  next
    case False
    then obtain n' where "checked_u64 (j' + 1) = Some n'" "locate D Z t a (Suc i) c' n' = Inr p"
      using "1.prems"(1) i f by (subst (asm) locate.simps) auto
    then show ?thesis using 1(1)[of "(j', c')" j' c' n' j'] i f False next' by simp
  qed
qed

lemma locate_complete:
  assumes "period_contains D Z t a p" and "i < up_index p" and "cut_at D Z t i = Inr (j, c)" and "checked_u64 (j + 1) = Some n"
  shows "locate D Z t a i c n = Inr p"
  using assms(2-)
proof (induction "up_index p - i" arbitrary: i j c n)
  case (Suc d)
  let ?k = "up_index p"
  obtain jk where k: "?k \<le> MAX_BOUNDARY_SEARCH" "start_at D Z t ?k = Inr (up_start p)" "cut_at D Z t ?k = Inr (jk, up_end p)"
    "up_start p \<le> a" "a < up_end p" using assms(1) by (auto simp: period_contains_def)
  from cut_at_mono[OF k(3), of "Suc i"] Suc.prems(1) obtain j' c' where c': "cut_at D Z t (Suc i) = Inr (j', c')" by auto
  with Suc.prems have f: "first_boundary_after D Z t c n = Inr (j', c')" by simp
  show ?case
  proof (cases "?k = Suc i")
    case True
    then have "p = \<lparr>up_index = Suc i, up_start = c, up_end = c'\<rparr>"
      using k c' Suc.prems(2) by (cases p) (simp add: start_at_def del: cut_at.simps)
    then show ?thesis using f k(1,5) True by (subst locate.simps) simp
  next
    case False
    then obtain m where m: "?k = Suc m" "Suc i \<le> m" using Suc.prems(1) by (cases ?k) auto
    then obtain jm where "cut_at D Z t m = Inr (jm, up_start p)" using k(2) by (auto simp: start_at_def)
    from cut_at_mono[OF this m(2)] c' have "c' \<le> up_start p" by auto
    then have le: "\<not> a < c'" using k(4) by simp
    from cut_at_mono[OF k(3), of "Suc (Suc i)"] m obtain x where "cut_at D Z t (Suc (Suc i)) = Inr x" by auto
    then obtain n' where n': "checked_u64 (j' + 1) = Some n'"
      using c' by (subst (asm) cut_at.simps(2)) (auto simp del: cut_at.simps)
    have "locate D Z t a (Suc i) c' n' = Inr p"
      using Suc.hyps(1)[OF _ _ c' n'] Suc.hyps(2) m by simp
    then show ?thesis using f k(1) m le n' by (subst locate.simps) simp
  qed
qed simp

lemma period_for_iff: "period_for D Z t a = Inr p \<longleftrightarrow> period_contains D Z t a p"
proof
  assume a: "period_for D Z t a = Inr p"
  then obtain j c where c: "cut_at D Z t 0 = Inr (j, c)" and e: "ct_effective_at t \<le> a"
    by (auto simp: period_for_def split: if_splits)
  show "period_contains D Z t a p"
  proof (cases "a < c")
    case True
    then have "p = \<lparr>up_index = 0, up_start = ct_effective_at t, up_end = c\<rparr>"
      using a c e by (simp add: period_for_def)
    then show ?thesis using c True e by (simp add: period_contains_def start_at_def)
  next
    case False
    then obtain n where "checked_u64 (j + 1) = Some n" "locate D Z t a 0 c n = Inr p"
      using a c e by (auto simp: period_for_def)
    from locate_sound[OF this(2) c this(1)] False show ?thesis by simp
  qed
next
  assume p: "period_contains D Z t a p"
  then obtain jk where k: "up_index p \<le> MAX_BOUNDARY_SEARCH" "start_at D Z t (up_index p) = Inr (up_start p)"
    "cut_at D Z t (up_index p) = Inr (jk, up_end p)" "up_start p \<le> a" "a < up_end p" by (auto simp: period_contains_def)
  from cut_at_mono[OF k(3), of 0] obtain j c where c: "cut_at D Z t 0 = Inr (j, c)" by auto
  show "period_for D Z t a = Inr p"
  proof (cases "up_index p")
    case 0
    then have "p = \<lparr>up_index = 0, up_start = ct_effective_at t, up_end = c\<rparr>"
      using k c by (cases p) (simp add: start_at_def)
    then show ?thesis using c k by (auto simp: period_for_def)
  next
    case (Suc m)
    then obtain jm where "cut_at D Z t m = Inr (jm, up_start p)" using k(2) by (auto simp: start_at_def)
    note m = this
    from cut_at_mono[OF m, of 0] c have "c \<le> up_start p" by auto
    moreover have "ct_effective_at t < c" by (rule cut_at_effective[OF c])
    ultimately have le: "\<not> a < c" "\<not> a < ct_effective_at t" using k(4) by simp_all
    from cut_at_mono[OF k(3), of "Suc 0"] Suc obtain x where "cut_at D Z t (Suc 0) = Inr x" by auto
    then obtain n where n: "checked_u64 (j + 1) = Some n"
      using c by (subst (asm) cut_at.simps(2)) (auto simp del: cut_at.simps)
    have "locate D Z t a 0 c n = Inr p" by (rule locate_complete[OF p _ c n]) (simp add: Suc)
    then show ?thesis using c le n by (simp add: period_for_def)
  qed
qed

section \<open>The list of cuts\<close>

definition boundary_utc :: "'d dates \<Rightarrow> ('z, 'd) zones \<Rightarrow> 'd calendar_term \<Rightarrow> nat \<Rightarrow> int calendar_result" where
  "boundary_utc D Z t n = rbind (scheduled_local D Z t n) (resolve_local D Z t)"

text \<open>
  The abstract schedule: of the boundaries in order, those later than everything before them. A
  boundary that a jump of the zone maps to an earlier instant, or to the same, is no cut.
\<close>

fun record_cuts :: "int \<Rightarrow> int list \<Rightarrow> int list" where
  "record_cuts s [] = []"
| "record_cuts s (b # bs) = (if s < b then b # record_cuts b bs else record_cuts s bs)"

lemma record_cuts_cover: "b \<in> set bs \<Longrightarrow> a < b \<Longrightarrow> s \<le> a \<Longrightarrow> \<exists>c \<in> set (record_cuts s bs). a < c"
proof (induction bs arbitrary: s)
  case (Cons x bs)
  show ?case
  proof (cases "s < x")
    case True
    show ?thesis
    proof (cases "a < x")
      case False
      then have "b \<in> set bs" "x \<le> a" using Cons.prems by auto
      with Cons.IH[OF this(1) Cons.prems(2) this(2)] True show ?thesis by auto
    qed (use True in auto)
  next
    case False
    then have "b \<in> set bs" using Cons.prems by auto
    with Cons.IH[OF this Cons.prems(2,3)] False show ?thesis by simp
  qed
qed simp

lemma search_cuts:
  assumes "\<forall>n < N. boundary_utc D Z t n = Inr (b n)" and "N \<le> u64_max"
    and "record_cuts s (map b [k..<N]) = c # rest" and "N - k \<le> turns"
  shows "\<exists>j. boundary_search D Z t turns s k = Inr (j, c) \<and> k \<le> j \<and> j < N \<and> rest = record_cuts c (map b [Suc j..<N])"
  using assms(3,4)
proof (induction turns arbitrary: k)
  case (Suc turns)
  have k: "k < N" using Suc.prems(1) by (cases "k < N") auto
  then have l: "[k..<N] = k # [Suc k..<N]" by (rule upt_conv_Cons)
  obtain x where x: "scheduled_local D Z t k = Inr x" "resolve_local D Z t x = Inr (b k)"
    using assms(1) k by (auto simp: boundary_utc_def rbind_Inr_iff)
  show ?case
  proof (cases "s < b k")
    case True
    then show ?thesis using Suc.prems(1) k x by (auto simp: l)
  next
    case False
    then have "record_cuts s (map b [Suc k..<N]) = c # rest" "N - Suc k \<le> turns" using Suc.prems by (simp_all add: l)
    from Suc.IH[OF this] obtain j where "boundary_search D Z t turns s (Suc k) = Inr (j, c)" "Suc k \<le> j" "j < N"
      "rest = record_cuts c (map b [Suc j..<N])" by auto
    then show ?thesis using False x k assms(2) by auto
  qed
qed (cases "k < N"; simp)

lemma cut_at_list:
  assumes "\<forall>n < N. boundary_utc D Z t n = Inr (b n)" and "N \<le> MAX_BOUNDARY_SEARCH"
    and "cs = record_cuts (ct_effective_at t) (map b [0..<N])" and "i < length cs"
  shows "\<exists>j. cut_at D Z t i = Inr (j, cs ! i) \<and> i \<le> j \<and> j < N \<and> drop (Suc i) cs = record_cuts (cs ! i) (map b [Suc j..<N])"
  using assms(4)
proof (induction i)
  case 0
  then obtain c rest where "cs = c # rest" by (cases cs) auto
  moreover have "N \<le> u64_max" using assms(2) by (simp add: MAX_BOUNDARY_SEARCH_def u64_max_def)
  ultimately show ?case
    using search_cuts[OF assms(1) _ _, of "ct_effective_at t" 0 c rest MAX_BOUNDARY_SEARCH] assms(2,3)
    by (auto simp: first_boundary_after_def)
next
  case (Suc i)
  have N: "N \<le> u64_max" using assms(2) by (simp add: MAX_BOUNDARY_SEARCH_def u64_max_def)
  from Suc obtain j where j: "cut_at D Z t i = Inr (j, cs ! i)" "i \<le> j" "j < N"
    "drop (Suc i) cs = record_cuts (cs ! i) (map b [Suc j..<N])" by auto
  have "record_cuts (cs ! i) (map b [Suc j..<N]) = cs ! Suc i # drop (Suc (Suc i)) cs"
    using Suc.prems by (simp only: j(4)[symmetric] Cons_nth_drop_Suc)
  moreover have "N - Suc j \<le> MAX_BOUNDARY_SEARCH" using assms(2) by simp
  ultimately obtain j' where j': "first_boundary_after D Z t (cs ! i) (Suc j) = Inr (j', cs ! Suc i)" "Suc j \<le> j'" "j' < N"
    "drop (Suc (Suc i)) cs = record_cuts (cs ! Suc i) (map b [Suc j'..<N])"
    unfolding first_boundary_after_def by (blast dest: search_cuts[OF assms(1) N])
  have "checked_u64 (j + 1) = Some (Suc j)" using j(3) N by simp
  then have "cut_at D Z t (Suc i) = Inr (j', cs ! Suc i)" using j(1) j'(1) by simp
  then show ?case using j' j(2) by (intro exI[of _ j']) (simp del: cut_at.simps)
qed

lemma record_cuts_length: "length (record_cuts s bs) \<le> length bs"
  by (induction bs arbitrary: s) (auto simp: le_SucI)

lemma period_of_list:
  assumes "\<forall>n < N. boundary_utc D Z t n = Inr (b n)" and "N \<le> MAX_BOUNDARY_SEARCH"
    and "cs = record_cuts (ct_effective_at t) (map b [0..<N])" and "i < length cs"
  shows "period D Z t (int i) = Inr \<lparr>up_index = i, up_start = (ct_effective_at t # cs) ! i, up_end = cs ! i\<rparr>"
proof -
  have "length cs \<le> N" using record_cuts_length[of _ "map b [0..<N]"] by (simp add: assms(3))
  then have i: "i \<le> MAX_BOUNDARY_SEARCH" using assms(2,4) by simp
  obtain j where j: "cut_at D Z t i = Inr (j, cs ! i)" using cut_at_list[OF assms] by auto
  have s: "start_at D Z t i = Inr ((ct_effective_at t # cs) ! i)"
  proof (cases i)
    case (Suc m)
    then have "m < length cs" using assms(4) by simp
    from cut_at_list[OF assms(1-3) this] show ?thesis by (auto simp: start_at_def Suc)
  qed (simp add: start_at_def)
  show ?thesis unfolding period_cuts[OF i] s j by simp
qed

lemma period_for_covers:
  assumes "\<forall>n < N. boundary_utc D Z t n = Inr (b n)" and "N \<le> MAX_BOUNDARY_SEARCH"
    and "ct_effective_at t \<le> a" and "n < N" and "a < b n"
  shows "\<exists>p. period_for D Z t a = Inr p"
proof -
  let ?cs = "record_cuts (ct_effective_at t) (map b [0..<N])"
  have "b n \<in> set (map b [0..<N])" using assms(4) by simp
  from record_cuts_cover[OF this assms(5,3)] have "\<exists>i. i < length ?cs \<and> a < ?cs ! i" by (metis in_set_conv_nth)
  then obtain i where i: "i < length ?cs" "a < ?cs ! i" and least: "\<And>k. k < i \<Longrightarrow> \<not> (k < length ?cs \<and> a < ?cs ! k)"
    using exists_least_iff[of "\<lambda>i. i < length ?cs \<and> a < ?cs ! i"] by auto
  have "(ct_effective_at t # ?cs) ! i \<le> a"
  proof (cases i)
    case (Suc k)
    then show ?thesis using least[of k] i(1) by simp
  qed (use assms(3) in simp)
  then have "period_contains D Z t a \<lparr>up_index = i, up_start = (ct_effective_at t # ?cs) ! i, up_end = ?cs ! i\<rparr>"
    using period_of_list[OF assms(1,2) refl i(1)] i(2) by (simp add: period_contains_iff)
  then show ?thesis by (auto simp: period_for_iff)
qed

end
