(* ===== verification/Civil_Dates.thy ===== *)
theory Civil_Dates
  imports Calendar
begin

text \<open>
  What the calendars rely on of a date library, as the laws of a locale, and the proleptic
  Gregorian calendar with the range and the panics that \<open>chrono\<close> documents, as the instance the
  concrete theorems are about.
\<close>

section \<open>The laws of dates\<close>

locale civil_dates =
  fixes D :: "'d dates" and proper :: "'d \<Rightarrow> bool"
  assumes ymd: "from_ymd D y m d = Some x \<Longrightarrow> proper x \<and> year_of D x = y \<and> month_of D x = m \<and> day_of D x = d"
    and less: "proper a \<Longrightarrow> proper b \<Longrightarrow> date_less D a b \<longleftrightarrow> year_of D a < year_of D b
      \<or> year_of D a = year_of D b \<and> (month_of D a < month_of D b \<or> month_of D a = month_of D b \<and> day_of D a < day_of D b)"
    and shifted: "proper a \<Longrightarrow> shift D a n = Some b \<Longrightarrow> proper b \<and> days_between D a b = n
      \<and> days_from_monday D b = (days_from_monday D a + n) mod 7"
    and less_between: "proper a \<Longrightarrow> proper b \<Longrightarrow> date_less D a b \<longleftrightarrow> 0 < days_between D a b"
    and between_add: "days_between D a c = days_between D a b + days_between D b c"
begin

lemma between_self: "days_between D a a = 0"
  using between_add[of a a a] by simp

lemma between_sym: "days_between D b a = - days_between D a b"
  using between_add[of a a b] between_self by simp

lemma not_less: "proper a \<Longrightarrow> proper b \<Longrightarrow> \<not> date_less D a b \<longleftrightarrow> days_between D a b \<le> 0"
  by (auto simp: less_between)

lemma less_shift: "proper a \<Longrightarrow> proper b \<Longrightarrow> shift D a n = Some c \<Longrightarrow> date_less D b c \<longleftrightarrow> days_between D a b < n"
  using between_add[of a c b] shifted[of a n c] by (auto simp: less_between)

lemma year_less: "proper a \<Longrightarrow> proper b \<Longrightarrow> year_of D a < year_of D b \<Longrightarrow> date_less D a b"
  by (simp add: less)

end

section \<open>The Gregorian calendar\<close>

type_synonym civil = "int \<times> nat \<times> nat"

definition leap :: "int \<Rightarrow> bool" where
  "leap y \<longleftrightarrow> y mod 4 = 0 \<and> (y mod 100 \<noteq> 0 \<or> y mod 400 = 0)"

definition month_len :: "int \<Rightarrow> nat \<Rightarrow> nat" where
  "month_len y m = (if m = 2 then (if leap y then 29 else 28) else if m \<in> {4, 6, 9, 11} then 30 else 31)"

fun civil_ok :: "civil \<Rightarrow> bool" where
  "civil_ok (y, m, d) \<longleftrightarrow> 1 \<le> m \<and> m \<le> 12 \<and> 1 \<le> d \<and> d \<le> month_len y m"

fun in_chrono_range :: "civil \<Rightarrow> bool" where
  "in_chrono_range (y, m, d) \<longleftrightarrow> -262143 \<le> y \<and> y \<le> 262142"

text \<open>The days of a year before a month; the years before a year; the number of a day, 0001-01-01 being 0.\<close>

fun days_before_month :: "int \<Rightarrow> nat \<Rightarrow> nat" where
  "days_before_month y 0 = 0"
| "days_before_month y (Suc m) = (if m = 0 then 0 else days_before_month y m + month_len y m)"

definition days_before :: "int \<Rightarrow> int" where
  "days_before y = 365 * (y - 1) + (y - 1) div 4 - (y - 1) div 100 + (y - 1) div 400"

fun day_number :: "civil \<Rightarrow> int" where
  "day_number (y, m, d) = days_before y + int (days_before_month y m) + int d - 1"

fun next_day :: "civil \<Rightarrow> civil" where
  "next_day (y, m, d) =
     (if d < month_len y m then (y, m, d + 1) else if m < 12 then (y, m + 1, 1) else (y + 1, 1, 1))"

fun previous_day :: "civil \<Rightarrow> civil" where
  "previous_day (y, m, d) =
     (if 1 < d then (y, m, d - 1) else if 1 < m then (y, m - 1, month_len y (m - 1)) else (y - 1, 12, 31))"

fun civil_less :: "civil \<Rightarrow> civil \<Rightarrow> bool" where
  "civil_less (y, m, d) (y', m', d') \<longleftrightarrow> y < y' \<or> y = y' \<and> (m < m' \<or> m = m' \<and> d < d')"

definition civil_shift :: "civil \<Rightarrow> int \<Rightarrow> civil option" where
  "civil_shift x n =
     (let r = (if 0 \<le> n then (next_day ^^ nat n) x else (previous_day ^^ nat (- n)) x)
      in if in_chrono_range r then Some r else None)"

definition gregorian :: "civil dates" where
  "gregorian = \<lparr>from_ymd = (\<lambda>y m d. if civil_ok (y, m, d) \<and> in_chrono_range (y, m, d) then Some (y, m, d) else None),
     year_of = fst, month_of = fst \<circ> snd, day_of = snd \<circ> snd, shift = civil_shift,
     days_from_monday = (\<lambda>x. day_number x mod 7), date_less = civil_less,
     days_between = (\<lambda>a b. day_number b - day_number a), days_fit = (\<lambda>n. \<bar>n\<bar> * 86400 \<le> 9223372036854775)\<rparr>"

lemma gregorian_simps [simp]:
  "from_ymd gregorian y m d = (if civil_ok (y, m, d) \<and> in_chrono_range (y, m, d) then Some (y, m, d) else None)"
  "year_of gregorian (y, m, d) = y" "month_of gregorian (y, m, d) = m" "day_of gregorian (y, m, d) = d"
  "shift gregorian = civil_shift" "days_from_monday gregorian x = day_number x mod 7"
  "date_less gregorian = civil_less" "days_between gregorian a b = day_number b - day_number a"
  "days_fit gregorian n \<longleftrightarrow> \<bar>n\<bar> * 86400 \<le> 9223372036854775"
  by (simp_all add: gregorian_def)

lemma div_pred: "0 < k \<Longrightarrow> y div k = (y - 1) div k + (if y mod k = 0 then 1 else 0)" for y k :: int
proof -
  assume k: "0 < k"
  have e: "y - 1 = k * (y div k) + (y mod k - 1)" by simp
  have m: "0 \<le> y mod k" "y mod k < k" using k by simp_all
  show ?thesis
  proof (cases "y mod k = 0")
    case True
    have "(y - 1) div k = y div k - 1"
      using k True by (intro div_pos_pos_trivial[THEN trans] int_div_pos_eq[of _ _ _ "k - 1"]) (auto simp: algebra_simps)
    then show ?thesis using True by simp
  next
    case False
    have "(y - 1) div k = y div k"
      using k m False e by (intro int_div_pos_eq[of _ _ _ "y mod k - 1"]) auto
    then show ?thesis using False by simp
  qed
qed

lemma civil_leap_count:
  fixes y :: int
  assumes "R \<Longrightarrow> Q" "Q \<Longrightarrow> P" "A = a + (if P then 1 else 0)" "B = b + (if Q then 1 else 0)" "C = c + (if R then 1 else 0)"
  shows "365 * y + A - B + C = 365 * (y - 1) + a - b + c + (if P \<and> (\<not> Q \<or> R) then 366 else 365)"
  using assms by (cases P; cases Q; cases R) simp_all

lemma days_before_Suc: "days_before (y + 1) = days_before y + (if leap y then 366 else 365)"
  unfolding days_before_def leap_def add_diff_cancel_right'
  by (rule civil_leap_count) (rule div_pred | presburger)+

lemma days_before_month_step: "1 \<le> m \<Longrightarrow> days_before_month y (m + 1) = days_before_month y m + month_len y m"
  by simp

lemma days_before_month_mono: "1 \<le> m \<Longrightarrow> m < m' \<Longrightarrow> days_before_month y m + month_len y m \<le> days_before_month y m'"
proof (induction m')
  case (Suc k)
  then show ?case by (cases "m = k") auto
qed simp

lemma year_length: "days_before_month y 12 + 31 = (if leap y then 366 else 365)"
  by (simp add: eval_nat_numeral month_len_def)

lemma december: "month_len y 12 = 31" by (simp add: month_len_def)

lemma month_len_pos: "28 \<le> month_len y m" by (simp add: month_len_def)

lemma next_day_ok: "civil_ok x \<Longrightarrow> civil_ok (next_day x) \<and> day_number (next_day x) = day_number x + 1"
proof (cases x)
  case (fields y m d)
  assume ok: "civil_ok x"
  have l: "1 \<le> month_len y' m'" for y' m' using month_len_pos[of y' m'] by linarith
  show ?thesis
  proof (cases "d < month_len y m \<or> m < 12")
    case True
    then show ?thesis using ok l by (auto simp: fields)
  next
    case False
    then have m: "m = 12" "d = 31" using ok december[of y] by (auto simp: fields)
    have "int (days_before_month y 12) + 31 = (if leap y then 366 else 365)"
      using arg_cong[OF year_length[of y], of int] by (simp split: if_splits)
    then show ?thesis using m l december[of y] days_before_Suc[of y]
      by (simp add: fields eval_nat_numeral del: of_nat_add)
  qed
qed

lemma previous_day_ok: "civil_ok x \<Longrightarrow> civil_ok (previous_day x) \<and> day_number (previous_day x) = day_number x - 1"
proof (cases x)
  case (fields y m d)
  assume ok: "civil_ok x"
  show ?thesis
  proof (cases "1 < d")
    case True
    then show ?thesis using ok by (auto simp: fields)
  next
    case False
    then have d: "d = 1" using ok by (simp add: fields)
    show ?thesis
    proof (cases "1 < m")
      case True
      then obtain k where k: "m = Suc k" "1 \<le> k" by (cases m) auto
      have "1 \<le> month_len y k" using month_len_pos[of y k] by linarith
      then show ?thesis using ok k by (auto simp: fields d)
    next
      case False
      then have m: "m = 1" using ok by (simp add: fields)
      have "int (days_before_month (y - 1) 12) + 31 = (if leap (y - 1) then 366 else 365)"
        using arg_cong[OF year_length[of "y - 1"], of int] by (simp split: if_splits)
      then show ?thesis using december[of "y - 1"] days_before_Suc[of "y - 1"] by (simp add: fields d m)
    qed
  qed
qed

lemma iterate_next: "civil_ok x \<Longrightarrow> civil_ok ((next_day ^^ n) x) \<and> day_number ((next_day ^^ n) x) = day_number x + int n"
  by (induction n) (auto simp: next_day_ok)

lemma iterate_previous:
  "civil_ok x \<Longrightarrow> civil_ok ((previous_day ^^ n) x) \<and> day_number ((previous_day ^^ n) x) = day_number x - int n"
  by (induction n) (auto simp: previous_day_ok)

lemma civil_shift_number: "civil_ok x \<Longrightarrow> civil_shift x n = Some r \<Longrightarrow> civil_ok r \<and> in_chrono_range r \<and> day_number r = day_number x + n"
  using iterate_next[of x "nat n"] iterate_previous[of x "nat (- n)"]
  by (auto simp: civil_shift_def Let_def split: if_splits)

lemma civil_day_in_year:
  assumes "civil_ok (y, m, d)"
  shows "days_before y \<le> day_number (y, m, d)" and "day_number (y, m, d) < days_before (y + 1)"
proof -
  have m: "1 \<le> m" "m \<le> 12" "1 \<le> d" "d \<le> month_len y m" using assms by simp_all
  then show "days_before y \<le> day_number (y, m, d)" by simp
  have "days_before_month y m + d \<le> days_before_month y 12 + 31"
  proof (cases "m = 12")
    case True
    then show ?thesis using m(4) december[of y] by simp
  next
    case False
    then have "m < 12" using m(2) by simp
    from days_before_month_mono[OF m(1) this, of y] m(4) show ?thesis by simp
  qed
  then have "days_before_month y m + d \<le> (if leap y then 366 else 365)" by (simp only: year_length)
  then show "day_number (y, m, d) < days_before (y + 1)" unfolding days_before_Suc by (auto split: if_splits)
qed

lemma days_before_mono: "y < y' \<Longrightarrow> days_before (y + 1) \<le> days_before y'"
proof (induction "nat (y' - y)" arbitrary: y')
  case (Suc n)
  show ?case
  proof (cases "y' = y + 1")
    case False
    then have "days_before (y + 1) \<le> days_before (y' - 1)" using Suc(1)[of "y' - 1"] Suc(2,3) by simp
    then show ?thesis using days_before_Suc[of "y' - 1"] by (simp split: if_splits)
  qed simp
qed simp

lemma civil_less_number:
  assumes "civil_ok a" and "civil_ok b" and "civil_less a b"
  shows "day_number a < day_number b"
proof (cases a; cases b)
  fix y m d y' m' d'
  assume ab: "a = (y, m, d)" "b = (y', m', d')"
  show ?thesis
  proof (cases "y < y'")
    case True
    from civil_day_in_year[of y m d] civil_day_in_year[of y' m' d'] days_before_mono[OF True] assms(1,2)
    show ?thesis by (auto simp: ab)
  next
    case False
    then have y: "y' = y" using assms(3) by (simp add: ab)
    show ?thesis
    proof (cases "m < m'")
      case True
      from days_before_month_mono[OF _ True, of y] assms(1,2) show ?thesis by (auto simp: ab y)
    qed (use assms(3) in \<open>auto simp: ab y\<close>)
  qed
qed

lemma civil_less_total: "civil_less a b \<or> civil_less b a \<or> a = b"
  by (cases a; cases b) auto

lemma civil_less_iff: "civil_ok a \<Longrightarrow> civil_ok b \<Longrightarrow> civil_less a b \<longleftrightarrow> day_number a < day_number b"
  using civil_less_number[of a b] civil_less_number[of b a] civil_less_total[of a b] by fastforce

interpretation gregorian: civil_dates gregorian civil_ok
proof
  fix y m d x
  assume "from_ymd gregorian y m d = Some x"
  then show "civil_ok x \<and> year_of gregorian x = y \<and> month_of gregorian x = m \<and> day_of gregorian x = d"
    by (auto split: if_splits simp del: civil_ok.simps)
next
  fix a b
  show "date_less gregorian a b \<longleftrightarrow> year_of gregorian a < year_of gregorian b
      \<or> year_of gregorian a = year_of gregorian b \<and> (month_of gregorian a < month_of gregorian b
        \<or> month_of gregorian a = month_of gregorian b \<and> day_of gregorian a < day_of gregorian b)"
    by (cases a; cases b) simp
next
  fix a n b
  assume a: "civil_ok a" "shift gregorian a n = Some b"
  from civil_shift_number[OF a(1)] a(2)
  show "civil_ok b \<and> days_between gregorian a b = n
      \<and> days_from_monday gregorian b = (days_from_monday gregorian a + n) mod 7"
    by (simp add: mod_add_left_eq)
next
  fix a b
  assume "civil_ok a" "civil_ok b"
  then show "date_less gregorian a b \<longleftrightarrow> 0 < days_between gregorian a b"
    by (simp add: civil_less_iff)
qed simp

end
