(* ===== verification/Fiscal.thy ===== *)
theory Fiscal
  imports Civil_Dates
begin

text \<open>
  The fiscal calendar of an organization (\<^verbatim>\<open>domain/fiscal_calendar.rs\<close>): the fiscal year a local
  date falls in, the months, quarters or weeks it is divided in, and the period of an instant.
\<close>

section \<open>Configurations\<close>

datatype fiscal_weekday = FMonday | FTuesday | FWednesday | FThursday | FFriday | FSaturday | FSunday

fun fiscal_chrono :: "fiscal_weekday \<Rightarrow> int" where
  "fiscal_chrono FMonday = 0"
| "fiscal_chrono FTuesday = 1"
| "fiscal_chrono FWednesday = 2"
| "fiscal_chrono FThursday = 3"
| "fiscal_chrono FFriday = 4"
| "fiscal_chrono FSaturday = 5"
| "fiscal_chrono FSunday = 6"

datatype week_alignment = Nearest | Last

datatype week_pattern = FourFourFive | FourFiveFour | FiveFourFour

fun lengths :: "week_pattern \<Rightarrow> nat list" where
  "lengths FourFourFive = [4, 4, 5, 4, 4, 5, 4, 4, 5, 4, 4, 5]"
| "lengths FourFiveFour = [4, 5, 4, 4, 5, 4, 4, 5, 4, 4, 5, 4]"
| "lengths FiveFourFour = [5, 4, 4, 5, 4, 4, 5, 4, 4, 5, 4, 4]"

datatype fiscal_calendar =
    GregorianMonths nat nat "fiscal_weekday option"
  | GregorianQuarters nat nat "fiscal_weekday option"
  | GregorianYears nat nat
  | WeekPattern nat nat week_pattern fiscal_weekday week_alignment nat

record fiscal_config =
  fc_timezone :: string
  fc_timezone_rules_version :: string
  fc_calendar :: fiscal_calendar

record fiscal_period =
  fp_fiscal_year :: int
  fp_period :: nat
  fp_start :: int
  fp_end :: int
  fp_weeks :: "nat option"

section \<open>Dates\<close>

definition fiscal_date :: "'d dates \<Rightarrow> int \<Rightarrow> nat \<Rightarrow> nat \<Rightarrow> 'd calendar_result" where
  "fiscal_date D y m d = ok_or (from_ymd D y m d) OutOfRange"

text \<open>The loop of \<open>date_clamped\<close>, from a day downwards.\<close>

fun clamp_down :: "'d dates \<Rightarrow> int \<Rightarrow> nat \<Rightarrow> nat \<Rightarrow> 'd calendar_result" where
  "clamp_down D y m 0 = Inl OutOfRange"
| "clamp_down D y m (Suc n) = (case from_ymd D y m (Suc n) of Some v \<Rightarrow> Inr v | None \<Rightarrow> clamp_down D y m n)"

definition date_clamped :: "'d dates \<Rightarrow> int \<Rightarrow> nat \<Rightarrow> nat \<Rightarrow> 'd calendar_result" where
  "date_clamped D y m d = (case from_ymd D y m d of Some v \<Rightarrow> Inr v | None \<Rightarrow> clamp_down D y m (d - 1))"

definition month_step :: "'d dates \<Rightarrow> 'd \<Rightarrow> nat \<Rightarrow> nat \<Rightarrow> 'd calendar_result" where
  "month_step D d n anchor_day =
     (let t = year_of D d * 12 + (int (month_of D d) - 1) + int n; y = t div 12; m = nat (t mod 12 + 1) in
      if y < -2147483648 \<or> y > 2147483647 then Inl OutOfRange
      else date_clamped D y m (min anchor_day 31))"

text \<open>The operator \<open>date + Duration\<close>, which panics out of range.\<close>

definition plus_days :: "'d dates \<Rightarrow> 'd \<Rightarrow> int \<Rightarrow> 'd calendar_result" where
  "plus_days D d n = (if \<not> days_fit D n then Inl CalendarPanic else ok_or (shift D d n) CalendarPanic)"

definition aligned_end :: "'d dates \<Rightarrow> 'd \<Rightarrow> fiscal_weekday \<Rightarrow> week_alignment \<Rightarrow> 'd calendar_result" where
  "aligned_end D anchor day align =
     (let delta = (fiscal_chrono day - days_from_monday D anchor) mod 7 in
      case align of
        Nearest \<Rightarrow> if delta \<le> 3 then plus_days D anchor delta else plus_days D anchor (- (7 - delta))
      | Last \<Rightarrow> plus_days D anchor (- ((days_from_monday D anchor - fiscal_chrono day) mod 7)))"

section \<open>Fiscal years\<close>

definition gregorian_bounds :: "'d dates \<Rightarrow> 'd \<Rightarrow> nat \<Rightarrow> nat \<Rightarrow> ('d \<times> 'd) calendar_result" where
  "gregorian_bounds D d month day =
     rbind (date_clamped D (year_of D d) month day) (\<lambda>s.
     rbind (if date_less D d s then date_clamped D (year_of D d - 1) month day else Inr s) (\<lambda>s.
     rbind (date_clamped D (year_of D s + 1) month day) (\<lambda>e. Inr (s, e))))"

definition week_bounds :: "'d dates \<Rightarrow> 'd \<Rightarrow> nat \<Rightarrow> nat \<Rightarrow> fiscal_weekday \<Rightarrow> week_alignment \<Rightarrow> ('d \<times> 'd) calendar_result" where
  "week_bounds D d month day week_end_day align =
     rbind (date_clamped D (year_of D d) month day) (\<lambda>anchor.
     rbind (aligned_end D anchor week_end_day align) (\<lambda>end'.
     if date_less D end' d then
       rbind (date_clamped D (year_of D d + 1) month day) (\<lambda>next_anchor.
       rbind (plus_days D end' 1) (\<lambda>s.
       rbind (aligned_end D next_anchor week_end_day align) (\<lambda>next_end.
       rbind (plus_days D next_end 1) (\<lambda>e. Inr (s, e)))))
     else
       rbind (date_clamped D (year_of D d - 1) month day) (\<lambda>prior.
       rbind (aligned_end D prior week_end_day align) (\<lambda>prior_end.
       rbind (plus_days D prior_end 1) (\<lambda>s.
       rbind (plus_days D end' 1) (\<lambda>e. Inr (s, e)))))))"

fun fiscal_year_bounds :: "'d dates \<Rightarrow> fiscal_calendar \<Rightarrow> 'd \<Rightarrow> ('d \<times> 'd \<times> nat) calendar_result" where
  "fiscal_year_bounds D (GregorianMonths m dd _) d = rbind (gregorian_bounds D d m dd) (\<lambda>(s, e). Inr (s, e, 0))"
| "fiscal_year_bounds D (GregorianQuarters m dd _) d = rbind (gregorian_bounds D d m dd) (\<lambda>(s, e). Inr (s, e, 1))"
| "fiscal_year_bounds D (GregorianYears m dd) d = rbind (gregorian_bounds D d m dd) (\<lambda>(s, e). Inr (s, e, 2))"
| "fiscal_year_bounds D (WeekPattern m dd _ w a _) d = rbind (week_bounds D d m dd w a) (\<lambda>(s, e). Inr (s, e, 3))"

section \<open>Periods\<close>

fun calendar_validate :: "'d dates \<Rightarrow> fiscal_calendar \<Rightarrow> unit calendar_result" where
  "calendar_validate D (GregorianMonths m d _) = rbind (fiscal_date D 2000 m d) (\<lambda>_. Inr ())"
| "calendar_validate D (GregorianQuarters m d _) = rbind (fiscal_date D 2000 m d) (\<lambda>_. Inr ())"
| "calendar_validate D (GregorianYears m d) = rbind (fiscal_date D 2000 m d) (\<lambda>_. Inr ())"
| "calendar_validate D (WeekPattern m d _ _ _ extra) =
     rbind (fiscal_date D 2000 m d) (\<lambda>_. if 1 \<le> extra \<and> extra \<le> 12 then Inr () else Inl OutOfRange)"

definition fiscal_validate :: "'d dates \<Rightarrow> ('z, 'd) zones \<Rightarrow> fiscal_config \<Rightarrow> unit calendar_result" where
  "fiscal_validate D Z c =
     (if \<not> pinned_timezone_rules_match Z (fc_timezone_rules_version c) then Inl UnsupportedTimezoneRules
      else rbind (ok_or (zone_parse Z (fc_timezone c)) UnknownTimezone) (\<lambda>_. calendar_validate D (fc_calendar c)))"

definition midnight :: "'d \<Rightarrow> 'd local_time" where
  "midnight d = \<lparr>lt_date = d, lt_nanos = 0\<rparr>"

definition fiscal_result :: "('z, 'd) zones \<Rightarrow> fiscal_config \<Rightarrow> int \<Rightarrow> nat \<Rightarrow> 'd \<Rightarrow> 'd \<Rightarrow> nat option \<Rightarrow> fiscal_period calendar_result" where
  "fiscal_result Z c year n s e weeks =
     rbind (ok_or (zone_parse Z (fc_timezone c)) UnknownTimezone) (\<lambda>tz.
     rbind (resolve_timezone_local Z tz (midnight s)) (\<lambda>start.
     rbind (resolve_timezone_local Z tz (midnight e)) (\<lambda>end'.
     Inr \<lparr>fp_fiscal_year = year, fp_period = n, fp_start = start, fp_end = end', fp_weeks = weeks\<rparr>)))"

text \<open>The loops over months and quarters: the parts already passed, and the number of parts left.\<close>

fun part_walk :: "'d dates \<Rightarrow> 'd \<Rightarrow> nat \<Rightarrow> 'd \<Rightarrow> nat \<Rightarrow> nat \<Rightarrow> nat \<Rightarrow> 'd \<Rightarrow> (nat \<times> 'd \<times> 'd) calendar_result" where
  "part_walk D d anchor_day fy_end step n 0 s = Inl OutOfRange"
| "part_walk D d anchor_day fy_end step n (Suc k) s =
     rbind (if k = 0 then Inr fy_end else month_step D s step anchor_day) (\<lambda>e.
     if \<not> date_less D d s \<and> date_less D d e then Inr (n + 1, s, e)
     else part_walk D d anchor_day fy_end step (n + 1) k e)"

text \<open>The loop over the weeks of each period.\<close>

fun week_walk :: "'d dates \<Rightarrow> 'd \<Rightarrow> nat \<Rightarrow> nat list \<Rightarrow> 'd \<Rightarrow> (nat \<times> 'd \<times> 'd \<times> nat) calendar_result" where
  "week_walk D d i [] s = Inl OutOfRange"
| "week_walk D d i (w # ws) s =
     rbind (plus_days D s (7 * int w)) (\<lambda>e.
     if \<not> date_less D d s \<and> date_less D d e then Inr (i + 1, s, e, w)
     else week_walk D d (i + 1) ws e)"

text \<open>The number of weeks is cast to \<open>u8\<close>.\<close>

definition week_lengths :: "week_pattern \<Rightarrow> nat \<Rightarrow> int \<Rightarrow> nat list calendar_result" where
  "week_lengths pattern extra days =
     (let weeks = nat (tdiv days 7 mod 256); ls = lengths pattern in
      if weeks = 53 then Inr (ls[extra - 1 := ls ! (extra - 1) + 1])
      else if weeks \<noteq> 52 then Inl OutOfRange
      else Inr ls)"

definition fiscal_period_for :: "'d dates \<Rightarrow> ('z, 'd) zones \<Rightarrow> fiscal_config \<Rightarrow> int \<Rightarrow> fiscal_period calendar_result" where
  "fiscal_period_for D Z c instant =
     rbind (fiscal_validate D Z c) (\<lambda>_.
     rbind (ok_or (zone_parse Z (fc_timezone c)) UnknownTimezone) (\<lambda>tz.
     let d = date_at Z tz instant in
     rbind (fiscal_year_bounds D (fc_calendar c) d) (\<lambda>(s, e, kind).
     case fc_calendar c of
       WeekPattern _ _ pattern _ _ extra \<Rightarrow>
         rbind (week_lengths pattern extra (days_between D s e)) (\<lambda>ls.
         rbind (week_walk D d 0 ls s) (\<lambda>(n, a, b, w).
         fiscal_result Z c (year_of D s) n a b (Some w)))
     | _ \<Rightarrow>
         if kind = 2 then fiscal_result Z c (year_of D s) 1 s e None
         else
           rbind (if kind = 0 then part_walk D d (day_of D s) e 1 0 12 s
                  else part_walk D d (day_of D s) e 3 0 4 s) (\<lambda>(n, a, b).
           fiscal_result Z c (year_of D s) n a b None))))"

definition period_for_micros ::
    "(int \<Rightarrow> int option) \<Rightarrow> 'd dates \<Rightarrow> ('z, 'd) zones \<Rightarrow> fiscal_config \<Rightarrow> int \<Rightarrow> fiscal_period calendar_result" where
  "period_for_micros from_timestamp_micros D Z c micros =
     rbind (ok_or (from_timestamp_micros micros) OutOfRange) (fiscal_period_for D Z c)"

end
