(* ===== verification/Fiscal_Laws.thy ===== *)
theory Fiscal_Laws
  imports Fiscal
begin

text \<open>
  The fiscal calendar on the Gregorian calendar: when every date it computes exists, and which
  local dates have a period.
\<close>

section \<open>Dates in range\<close>

abbreviation year_near :: "int \<Rightarrow> int \<Rightarrow> bool" where
  "year_near y k \<equiv> - 262000 + k \<le> y \<and> y \<le> 262000 - k"

lemma days_before_le: "y \<le> y' \<Longrightarrow> days_before y \<le> days_before y'"
proof (cases "y = y'")
  case False
  assume "y \<le> y'"
  with False have "days_before (y + 1) \<le> days_before y'" by (intro days_before_mono) simp
  then show ?thesis by (simp add: days_before_Suc split: if_splits)
qed simp

lemma days_before_year: "days_before y + 365 \<le> days_before (y + 1)"
  by (simp add: days_before_Suc)

lemma year_of_number:
  assumes "civil_ok r" and "days_before a \<le> day_number r" and "day_number r < days_before b"
  shows "a \<le> fst r" and "fst r < b"
proof -
  obtain y m d where r: "r = (y, m, d)" by (cases r)
  note n = civil_day_in_year[of y m d, folded r, OF assms(1)]
  show "a \<le> fst r"
  proof (rule ccontr)
    assume "\<not> a \<le> fst r"
    then have "days_before (y + 1) \<le> days_before a" by (intro days_before_le) (simp add: r)
    with n assms(2) show False by simp
  qed
  show "fst r < b"
  proof (rule ccontr)
    assume "\<not> fst r < b"
    then have "days_before b \<le> days_before y" by (intro days_before_le) (simp add: r)
    with n assms(3) show False by simp
  qed
qed

lemma civil_shift_returns:
  assumes "civil_ok x" and "year_near (fst x) 0" and "\<bar>n\<bar> \<le> 100"
  obtains r where "civil_shift x n = Some r" "civil_ok r" "day_number r = day_number x + n"
    "fst x - 1 \<le> fst r" "fst r \<le> fst x + 1"
proof -
  obtain y m d where x: "x = (y, m, d)" by (cases x)
  define r where "r = (if 0 \<le> n then (next_day ^^ nat n) x else (previous_day ^^ nat (- n)) x)"
  have r: "civil_ok r" "day_number r = day_number x + n"
    using iterate_next[OF assms(1), of "nat n"] iterate_previous[OF assms(1), of "nat (- n)"]
    unfolding r_def by (cases "0 \<le> n"; simp)+
  note in_year = civil_day_in_year[of y m d, folded x, OF assms(1)]
  have "y + 1 + 1 = y + 2" by simp
  then have two: "days_before (y + 1) + 365 \<le> days_before (y + 2)" using days_before_year[of "y + 1"] by (simp only:)
  have b: "days_before (y - 1) \<le> day_number r" "day_number r < days_before (y + 2)"
    using in_year r(2) assms(3) days_before_year[of "y - 1"] two by simp_all
  from year_of_number[OF r(1) b] have yr: "fst x - 1 \<le> fst r" "fst r \<le> fst x + 1" by (simp_all add: x)
  then have "in_chrono_range r" using assms(2) by (cases r) simp
  then have "civil_shift x n = Some r" unfolding civil_shift_def r_def[symmetric] by simp
  with r yr that show thesis by blast
qed

lemma plus_days_returns:
  assumes "civil_ok x" and "year_near (fst x) 0" and "\<bar>n\<bar> \<le> 100"
  obtains r where "plus_days gregorian x n = Inr r" "civil_ok r" "day_number r = day_number x + n"
    "fst x - 1 \<le> fst r" "fst r \<le> fst x + 1"
  using civil_shift_returns[OF assms] assms(3) by (auto simp: plus_days_def)

lemma clamp_down_civil:
  assumes "1 \<le> m" "m \<le> 12" "- 262143 \<le> y" "y \<le> 262142" "1 \<le> n"
  shows "clamp_down gregorian y m n = Inr (y, m, min n (month_len y m))"
  using assms(5)
proof (induction n)
  case (Suc n)
  show ?case
  proof (cases "Suc n \<le> month_len y m")
    case False
    then have "1 \<le> n" using month_len_pos[of y m] by linarith
    with Suc.IH False show ?thesis by (simp add: min_def)
  qed (use assms in simp)
qed simp

lemma date_clamped_civil:
  assumes "1 \<le> m" "m \<le> 12" "- 262143 \<le> y" "y \<le> 262142" "1 \<le> n"
  shows "date_clamped gregorian y m n = Inr (y, m, min n (month_len y m))"
proof (cases "n \<le> month_len y m")
  case False
  then have "1 \<le> n - 1" "month_len y m \<le> n - 1" using month_len_pos[of y m] by linarith+
  with clamp_down_civil[OF assms(1-4) this(1)] False show ?thesis by (simp add: date_clamped_def min_absorb2)
qed (use assms in \<open>simp add: date_clamped_def\<close>)

lemma clamped_ok: "1 \<le> m \<Longrightarrow> m \<le> 12 \<Longrightarrow> 1 \<le> n \<Longrightarrow> civil_ok (y, m, min n (month_len y m))"
  using month_len_pos[of y m] by simp

section \<open>What a fiscal year should be\<close>

text \<open>
  The years and their parts, by counting months and days: an anchor of a year is its day of the
  month or the last one there is; a part starts some months after the first day of the year, on the
  same day or the last there is.
\<close>

definition anchor_date :: "int \<Rightarrow> nat \<Rightarrow> nat \<Rightarrow> civil" where
  "anchor_date y m dd = (y, m, min dd (month_len y m))"

definition months_after :: "civil \<Rightarrow> nat \<Rightarrow> civil" where
  "months_after s n =
     (let t = fst s * 12 + (int (fst (snd s)) - 1) + int n in
      anchor_date (t div 12) (nat (t mod 12 + 1)) (snd (snd s)))"

text \<open>In a quarter of thirteen weeks, the month with five; the long year has a week more.\<close>

fun five_weeks :: "week_pattern \<Rightarrow> nat" where
  "five_weeks FiveFourFour = 1"
| "five_weeks FourFiveFour = 2"
| "five_weeks FourFourFive = 0"

definition period_weeks :: "week_pattern \<Rightarrow> nat \<Rightarrow> bool \<Rightarrow> nat \<Rightarrow> nat" where
  "period_weeks p extra long n =
     4 + (if n mod 3 = five_weeks p then 1 else 0) + (if long \<and> n = extra then 1 else 0)"

text \<open>The last day of the year anchored in \<open>z\<close>: a given weekday, in the seven days of the alignment.\<close>

fun window_low :: "week_alignment \<Rightarrow> int" where
  "window_low Nearest = - 3"
| "window_low Last = - 6"

definition ends_year :: "nat \<Rightarrow> nat \<Rightarrow> fiscal_weekday \<Rightarrow> week_alignment \<Rightarrow> int \<Rightarrow> civil \<Rightarrow> bool" where
  "ends_year m dd w al z r \<longleftrightarrow> civil_ok r \<and> day_number r mod 7 = fiscal_chrono w
     \<and> window_low al \<le> day_number r - day_number (anchor_date z m dd)
     \<and> day_number r - day_number (anchor_date z m dd) \<le> window_low al + 6"

text \<open>The first day of a fiscal year and the first day after it.\<close>

fun year_dates :: "fiscal_calendar \<Rightarrow> civil \<Rightarrow> civil \<Rightarrow> bool" where
  "year_dates (GregorianMonths m dd _) s e \<longleftrightarrow> s = anchor_date (fst s) m dd \<and> e = anchor_date (fst s + 1) m dd"
| "year_dates (GregorianQuarters m dd _) s e \<longleftrightarrow> s = anchor_date (fst s) m dd \<and> e = anchor_date (fst s + 1) m dd"
| "year_dates (GregorianYears m dd) s e \<longleftrightarrow> s = anchor_date (fst s) m dd \<and> e = anchor_date (fst s + 1) m dd"
| "year_dates (WeekPattern m dd _ w al _) s e \<longleftrightarrow> day_number e - day_number s \<in> {364, 371} \<and> civil_ok s \<and> civil_ok e
     \<and> (\<exists>z p q. ends_year m dd w al z p \<and> ends_year m dd w al (z + 1) q
          \<and> day_number s = day_number p + 1 \<and> day_number e = day_number q + 1)"

text \<open>Period \<open>n\<close> of the year from \<open>s\<close> to \<open>e\<close> is the dates from \<open>a\<close> up to \<open>b\<close>.\<close>

fun part_dates :: "fiscal_calendar \<Rightarrow> civil \<Rightarrow> civil \<Rightarrow> nat \<Rightarrow> civil \<Rightarrow> civil \<Rightarrow> nat option \<Rightarrow> bool" where
  "part_dates (GregorianMonths _ _ _) s e n a b w \<longleftrightarrow> 1 \<le> n \<and> n \<le> 12 \<and> w = None
     \<and> a = months_after s (n - 1) \<and> b = (if n = 12 then e else months_after s n)"
| "part_dates (GregorianQuarters _ _ _) s e n a b w \<longleftrightarrow> 1 \<le> n \<and> n \<le> 4 \<and> w = None
     \<and> a = months_after s (3 * (n - 1)) \<and> b = (if n = 4 then e else months_after s (3 * n))"
| "part_dates (GregorianYears _ _) s e n a b w \<longleftrightarrow> n = 1 \<and> w = None \<and> a = s \<and> b = e"
| "part_dates (WeekPattern _ _ p _ _ extra) s e n a b w \<longleftrightarrow> 1 \<le> n \<and> n \<le> 12 \<and> civil_ok a \<and> civil_ok b
     \<and> (let weeks = period_weeks p extra (day_number e = day_number s + 371) in
        w = Some (weeks n) \<and> day_number a = day_number s + 7 * int (sum_list (map weeks [1..<n]))
        \<and> day_number b = day_number a + 7 * int (weeks n))"

section \<open>Gregorian fiscal years\<close>

lemma anchor_ok: "1 \<le> m \<Longrightarrow> m \<le> 12 \<Longrightarrow> 1 \<le> dd \<Longrightarrow> civil_ok (anchor_date y m dd)"
  unfolding anchor_date_def by (rule clamped_ok)

lemma anchor_year [simp]: "fst (anchor_date y m dd) = y"
  by (simp add: anchor_date_def)

lemma gregorian_bounds_civil:
  assumes "1 \<le> m" "m \<le> 12" "1 \<le> dd" and "civil_ok d" "year_near (fst d) 2"
  obtains s e where "gregorian_bounds gregorian d m dd = Inr (s, e)" "civil_ok s" "civil_ok e"
    "\<not> civil_less d s" "civil_less d e" "fst d - 1 \<le> fst s" "fst s \<le> fst d"
    "s = anchor_date (fst s) m dd" "e = anchor_date (fst s + 1) m dd"
proof -
  obtain y k i where d: "d = (y, k, i)" by (cases d)
  have y: "- 262000 + 2 \<le> y" "y \<le> 262000 - 2" using assms(5) by (simp_all add: d)
  let ?a = "\<lambda>z. (z, m, min dd (month_len z m))"
  have c: "date_clamped gregorian z m dd = Inr (?a z)" if "y - 1 \<le> z" "z \<le> y + 1" for z
    using that y assms(1-3) by (intro date_clamped_civil) simp_all
  show thesis
  proof (cases "civil_less d (?a y)")
    case True
    then have "gregorian_bounds gregorian d m dd = Inr (?a (y - 1), ?a y)" by (simp add: gregorian_bounds_def d c)
    then show ?thesis
      by (rule that) (use True clamped_ok[OF assms(1-3)] in \<open>simp_all add: d anchor_date_def\<close>)
  next
    case False
    then have "gregorian_bounds gregorian d m dd = Inr (?a y, ?a (y + 1))" by (simp add: gregorian_bounds_def d c)
    then show ?thesis
      by (rule that) (use False clamped_ok[OF assms(1-3)] in \<open>simp_all add: d anchor_date_def\<close>)
  qed
qed

lemma months_after_0: "civil_ok s \<Longrightarrow> months_after s 0 = s"
  by (cases s) (simp add: months_after_def anchor_date_def min_def)

lemma months_after_ok: "civil_ok s \<Longrightarrow> civil_ok (months_after s n)"
  unfolding months_after_def Let_def by (rule anchor_ok) (cases s, simp)+

text \<open>A step of the loop over months goes from a part to the next one.\<close>

lemma month_step_after:
  assumes s: "civil_ok s" and "- 262000 \<le> fst s" "fst s + 1 \<le> 262000" "n + step \<le> 12"
  shows "month_step gregorian (months_after s n) step (snd (snd s)) = Inr (months_after s (n + step))"
proof -
  obtain y m i where y: "s = (y, m, i)" by (cases s)
  define t where "t = y * 12 + (int m - 1) + int n"
  have m: "1 \<le> m" "m \<le> 12" "1 \<le> i" "i \<le> month_len y m" using s by (simp_all add: y)
  have day: "min i 31 = i" using m(4) by (simp add: month_len_def split: if_splits)
  have a: "months_after s n = (t div 12, nat (t mod 12 + 1), min i (month_len (t div 12) (nat (t mod 12 + 1))))"
    by (simp add: months_after_def anchor_date_def y t_def Let_def)
  have b: "months_after s (n + step) = anchor_date ((t + int step) div 12) (nat ((t + int step) mod 12 + 1)) i"
    by (simp add: months_after_def y t_def Let_def algebra_simps)
  have u: "t div 12 * 12 + (int (nat (t mod 12 + 1)) - 1) + int step = t + int step" by simp
  have "y \<le> (t + int step) div 12" "(t + int step) div 12 \<le> y + 1" using m assms(4) by (auto simp: t_def)
  then have "date_clamped gregorian ((t + int step) div 12) (nat ((t + int step) mod 12 + 1)) i = Inr (months_after s (n + step))"
    unfolding b anchor_date_def using assms(2,3) m(3) by (intro date_clamped_civil) (simp_all add: y)
  then show ?thesis
    using \<open>y \<le> _\<close> \<open>_ \<le> y + 1\<close> assms(2,3) unfolding month_step_def a
    by (simp add: u day y)
qed

lemma part_walk_civil:
  assumes s: "civil_ok s" "- 262000 \<le> fst s" "fst s + 1 \<le> 262000"
    and "\<not> civil_less d (months_after s (n * step))" "civil_less d fy_end" "1 \<le> k" "(n + k) * step = 12"
  shows "\<exists>i a b. part_walk gregorian d (snd (snd s)) fy_end step n k (months_after s (n * step)) = Inr (i, a, b)
    \<and> n < i \<and> i \<le> n + k \<and> a = months_after s ((i - 1) * step)
    \<and> b = (if i = n + k then fy_end else months_after s (i * step)) \<and> \<not> civil_less d a \<and> civil_less d b"
  using assms(4-)
proof (induction k arbitrary: n)
  case (Suc k)
  show ?case
  proof (cases "k = 0")
    case True
    then show ?thesis using Suc.prems by simp
  next
    case False
    have "(n + 1) * step \<le> (n + Suc k) * step" by (rule mult_le_mono1) simp
    then have "(n + 1) * step \<le> 12" using Suc.prems(4) by (simp only:)
    then have "n * step + step \<le> 12" by (simp only: add_mult_distrib mult_1)
    from month_step_after[OF s this]
    have step: "month_step gregorian (months_after s (n * step)) step (snd (snd s)) = Inr (months_after s ((n + 1) * step))"
      by (simp add: add.commute)
    show ?thesis
    proof (cases "civil_less d (months_after s ((n + 1) * step))")
      case True
      then show ?thesis using step False Suc.prems(1) by simp
    next
      case far: False
      from Suc.IH[OF far Suc.prems(2)] False Suc.prems(4) obtain i a b where
        "part_walk gregorian d (snd (snd s)) fy_end step (n + 1) k (months_after s ((n + 1) * step)) = Inr (i, a, b)"
        "n + 1 < i" "i \<le> n + Suc k" "a = months_after s ((i - 1) * step)"
        "b = (if i = n + Suc k then fy_end else months_after s (i * step))" "\<not> civil_less d a" "civil_less d b" by fastforce
      then show ?thesis using step False far by simp
    qed
  qed
qed simp

section \<open>Weeks\<close>

text \<open>The same day in the next year, clamped: 365 or 366 days later.\<close>

lemma days_before_month_leap:
  "1 \<le> m \<Longrightarrow> m \<le> 12 \<Longrightarrow> int (days_before_month y m) = int (days_before_month 1 m) + (if 3 \<le> m \<and> leap y then 1 else 0)"
  by (auto simp: eval_nat_numeral le_Suc_eq month_len_def leap_def)

lemma leap_not_next: "leap y \<Longrightarrow> \<not> leap (y + 1)"
  unfolding leap_def by presburger

lemma month_len_next:
  "int (min dd (month_len (y + 1) m)) - int (min dd (month_len y m)) =
     (if m = 2 \<and> 29 \<le> dd then (if leap (y + 1) then 1 else if leap y then - 1 else 0) else 0)"
  using leap_not_next[of y] by (auto simp: month_len_def)

lemma anchor_next:
  assumes "1 \<le> m" "m \<le> 12"
  shows "day_number (y + 1, m, min dd (month_len (y + 1) m)) - day_number (y, m, min dd (month_len y m)) \<in> {365, 366}"
  using month_len_next[of dd y m] leap_not_next[of y]
  unfolding day_number.simps days_before_Suc days_before_month_leap[OF assms, of y] days_before_month_leap[OF assms, of "y + 1"]
  by (auto split: if_splits)

lemma fiscal_chrono_range: "0 \<le> fiscal_chrono w \<and> fiscal_chrono w < 7"
  by (cases w) simp_all

lemma aligned_end_civil:
  assumes "civil_ok a" and "year_near (fst a) 0"
  obtains r where "aligned_end gregorian a w al = Inr r" "civil_ok r" "day_number r mod 7 = fiscal_chrono w"
    "window_low al \<le> day_number r - day_number a" "day_number r - day_number a \<le> window_low al + 6"
    "fst a - 1 \<le> fst r" "fst r \<le> fst a + 1"
proof -
  define f where "f = fiscal_chrono w"
  define k where "k = day_number a mod 7"
  define n where "n = (case al of Nearest \<Rightarrow> if (f - k) mod 7 \<le> 3 then (f - k) mod 7 else - (7 - (f - k) mod 7)
      | Last \<Rightarrow> - ((k - f) mod 7))"
  have f: "0 \<le> f" "f < 7" using fiscal_chrono_range[of w] by (simp_all add: f_def)
  have pos: "0 \<le> (f - k) mod 7" "(f - k) mod 7 < 7" "0 \<le> (k - f) mod 7" "(k - f) mod 7 < 7" by simp_all
  have n: "window_low al \<le> n" "n \<le> window_low al + 6" "\<bar>n\<bar> \<le> 100"
    using pos by (auto simp: n_def split: week_alignment.splits)
  have "(day_number a + n) mod 7 = (k + n) mod 7" by (simp add: k_def mod_add_left_eq)
  also have "(k + n) mod 7 = f mod 7"
  proof (cases al)
    case Nearest
    have "(k + (f - k) mod 7) mod 7 = f mod 7" by (simp add: mod_add_right_eq)
    moreover have "(k + (- (7 - (f - k) mod 7))) mod 7 = (k + (f - k) mod 7 - 7) mod 7" by (simp add: algebra_simps)
    ultimately show ?thesis by (simp add: n_def Nearest)
  next
    case Last
    have "(k - (k - f) mod 7) mod 7 = f mod 7" by (simp add: mod_diff_right_eq)
    then show ?thesis by (simp add: n_def Last)
  qed
  finally have w: "(day_number a + n) mod 7 = f" using f by simp
  have e: "aligned_end gregorian a w al = plus_days gregorian a n"
    by (auto simp: aligned_end_def n_def f_def k_def Let_def split: week_alignment.splits)
  from plus_days_returns[OF assms n(3)] obtain r where "plus_days gregorian a n = Inr r" "civil_ok r"
    "day_number r = day_number a + n" "fst a - 1 \<le> fst r" "fst r \<le> fst a + 1" .
  with e w n(1,2) show thesis by (intro that[of r]) (simp_all add: f_def)
qed

lemma year_weeks:
  assumes "x \<in> {365, 366 :: int}" "lo \<le> p" "p \<le> lo + 6" "lo \<le> q" "q \<le> lo + 6" "(a + p) mod 7 = f" "(a + x + q) mod 7 = f"
  shows "x + q - p \<in> {364, 371}"
proof -
  have "(x + q - p) mod 7 = 0"
    using mod_eq_dvd_iff[of "a + x + q" 7 "a + p"] assms(6,7) by (simp add: algebra_simps dvd_eq_mod_eq_0)
  moreover have "359 \<le> x + q - p" "x + q - p \<le> 372" using assms(1-5) by auto
  ultimately have "x + q - p = 364 \<or> x + q - p = 371" by presburger
  then show ?thesis by blast
qed

lemma ends_year_weeks:
  assumes m: "1 \<le> m" "m \<le> 12" and "ends_year m dd w al z p" "ends_year m dd w al (z + 1) q"
  shows "day_number q - day_number p \<in> {364, 371}"
proof -
  define A where "A = day_number (anchor_date z m dd)"
  define x where "x = day_number (anchor_date (z + 1) m dd) - A"
  have x: "x \<in> {365, 366}" unfolding x_def A_def anchor_date_def by (rule anchor_next[OF m])
  have A1: "day_number (anchor_date (z + 1) m dd) = A + x" by (simp add: x_def)
  define u where "u = day_number p - A"
  define v where "v = day_number q - (A + x)"
  have e: "window_low al \<le> u" "u \<le> window_low al + 6" "window_low al \<le> v" "v \<le> window_low al + 6"
    "(A + u) mod 7 = fiscal_chrono w" "(A + x + v) mod 7 = fiscal_chrono w"
    using assms(3,4) unfolding ends_year_def A1 A_def[symmetric] by (simp_all add: u_def v_def)
  from year_weeks[OF x e] show ?thesis by (simp add: u_def v_def algebra_simps)
qed

text \<open>The fiscal year of a week pattern: the day after its predecessor's last day, and the day after its own.\<close>

lemma week_bounds_civil:
  assumes m: "1 \<le> m" "m \<le> 12" "1 \<le> dd" and d: "civil_ok d" "year_near (fst d) 4"
  obtains E s e z where
    "\<And>y. fst d - 1 \<le> y \<Longrightarrow> y \<le> fst d + 1 \<Longrightarrow>
       rbind (date_clamped gregorian y m dd) (\<lambda>a. aligned_end gregorian a w al) = Inr (E y) \<and> ends_year m dd w al y (E y)"
    "day_number (E (fst d - 1)) < day_number (E (fst d))" "day_number (E (fst d)) < day_number (E (fst d + 1))"
    "z = (if civil_less (E (fst d)) d then fst d else fst d - 1)"
    "week_bounds gregorian d m dd w al = Inr (s, e)" "civil_ok s" "civil_ok e"
    "day_number s = day_number (E z) + 1" "day_number e = day_number (E (z + 1)) + 1"
    "day_number e - day_number s \<in> {364, 371}" "year_near (fst s) 0" "year_near (fst e) 0"
proof -
  obtain y k i where dd': "d = (y, k, i)" by (cases d)
  have y: "- 262000 + 4 \<le> y" "y \<le> 262000 - 4" using d(2) by (simp_all add: dd')
  let ?a = "\<lambda>z. anchor_date z m dd"
  have c: "date_clamped gregorian z m dd = Inr (?a z)" if "y - 1 \<le> z" "z \<le> y + 1" for z
    unfolding anchor_date_def using that y m by (intro date_clamped_civil) simp_all
  define P where "P z r \<longleftrightarrow> aligned_end gregorian (?a z) w al = Inr r \<and> ends_year m dd w al z r \<and> z - 1 \<le> fst r \<and> fst r \<le> z + 1" for z r
  have "\<exists>r. P z r" if z: "y - 1 \<le> z" "z \<le> y + 1" for z
  proof -
    have "year_near (fst (?a z)) 0" using z y by simp
    from aligned_end_civil[OF anchor_ok[OF m] this, of w al] show ?thesis
      unfolding P_def ends_year_def anchor_year by blast
  qed
  then have "\<forall>z \<in> {y - 1..y + 1}. \<exists>r. P z r" by simp
  from bchoice[OF this] obtain E where EP: "\<forall>z \<in> {y - 1..y + 1}. P z (E z)" by blast
  have E: "aligned_end gregorian (?a z) w al = Inr (E z)" "ends_year m dd w al z (E z)" "z - 1 \<le> fst (E z)" "fst (E z) \<le> z + 1"
    if "y - 1 \<le> z" "z \<le> y + 1" for z
    using bspec[OF EP, of z] that unfolding P_def by simp_all
  define Q where "Q z r \<longleftrightarrow> plus_days gregorian (E z) 1 = Inr r \<and> civil_ok r \<and> day_number r = day_number (E z) + 1
      \<and> z - 2 \<le> fst r \<and> fst r \<le> z + 2" for z r
  have "\<exists>r. Q z r" if z: "y - 1 \<le> z" "z \<le> y + 1" for z
  proof -
    have "year_near (fst (E z)) 0" "civil_ok (E z)" using z y E(2-4)[OF z] by (simp_all add: ends_year_def)
    from plus_days_returns[OF this(2,1), of 1] obtain r where "plus_days gregorian (E z) 1 = Inr r" "civil_ok r"
      "day_number r = day_number (E z) + 1" "fst (E z) - 1 \<le> fst r" "fst r \<le> fst (E z) + 1" by auto
    then show ?thesis unfolding Q_def using E(3,4)[OF z] by (intro exI[of _ r]) simp
  qed
  then have "\<forall>z \<in> {y - 1..y + 1}. \<exists>r. Q z r" by simp
  from bchoice[OF this] obtain F where FP: "\<forall>z \<in> {y - 1..y + 1}. Q z (F z)" by blast
  have F: "plus_days gregorian (E z) 1 = Inr (F z)" "civil_ok (F z)" "day_number (F z) = day_number (E z) + 1"
    "z - 2 \<le> fst (F z)" "fst (F z) \<le> z + 2" if "y - 1 \<le> z" "z \<le> y + 1" for z
    using bspec[OF FP, of z] that unfolding Q_def by simp_all
  have gap: "day_number (E (z + 1)) - day_number (E z) \<in> {364, 371}" if "y - 1 \<le> z" "z \<le> y" for z
    using E(2)[of z] E(2)[of "z + 1"] that by (intro ends_year_weeks[OF m(1,2)]) simp_all
  have days: "day_number (E (y - 1)) < day_number (E y)" "day_number (E y) < day_number (E (y + 1))"
    using gap[of "y - 1"] gap[of y] by auto
  define z where "z = (if civil_less (E y) d then y else y - 1)"
  have z: "y - 1 \<le> z" "z \<le> y" by (simp_all add: z_def)
  have "week_bounds gregorian d m dd w al = Inr (F z, F (z + 1))"
    by (simp add: week_bounds_def dd' c E(1) F(1) z_def)
  moreover have "rbind (date_clamped gregorian x m dd) (\<lambda>a. aligned_end gregorian a w al) = Inr (E x) \<and> ends_year m dd w al x (E x)"
    if "y - 1 \<le> x" "x \<le> y + 1" for x
    using that by (simp add: c E(1,2))
  ultimately show thesis
    by (intro that[of E z "F z" "F (z + 1)"]; (use F[of z] F[of "z + 1"] gap[OF z] z y days in \<open>simp add: dd' z_def\<close>)?)
qed

lemma number_year_le: "civil_ok a \<Longrightarrow> civil_ok b \<Longrightarrow> day_number a \<le> day_number b \<Longrightarrow> fst a \<le> fst b"
  using civil_less_number[of b a] by (cases a; cases b) fastforce

lemma week_walk_civil:
  assumes "civil_ok d" "civil_ok s" "civil_ok e" "day_number s + 7 * int (sum_list ws) = day_number e"
    and "- 262000 \<le> fst s" "fst e \<le> 262000" "list_all (\<lambda>w. w \<le> 14) ws"
  shows "if \<not> civil_less d s \<and> civil_less d e
    then \<exists>n a b. n < length ws \<and> week_walk gregorian d i ws s = Inr (i + n + 1, a, b, ws ! n) \<and> civil_ok a \<and> civil_ok b
      \<and> day_number a = day_number s + 7 * int (sum_list (take n ws)) \<and> day_number b = day_number a + 7 * int (ws ! n)
      \<and> \<not> civil_less d a \<and> civil_less d b
    else week_walk gregorian d i ws s = Inl OutOfRange"
  using assms
proof (induction ws arbitrary: s i)
  case Nil
  then have "civil_less d s \<longleftrightarrow> civil_less d e" by (simp add: civil_less_iff)
  then show ?case by simp
next
  case (Cons w ws)
  have "0 \<le> 7 * int (sum_list (w # ws))" by simp
  then have "fst s \<le> fst e" using Cons.prems(2-4) by (intro number_year_le) simp_all
  then have "year_near (fst s) 0" using Cons.prems(5,6) by simp
  moreover have "\<bar>7 * int w\<bar> \<le> 100" using Cons.prems(7) by simp
  ultimately obtain t where t: "plus_days gregorian s (7 * int w) = Inr t" "civil_ok t" "day_number t = day_number s + 7 * int w"
    by (rule plus_days_returns[OF Cons.prems(2)])
  have "fst s \<le> fst t" using t(2,3) Cons.prems(2) by (intro number_year_le) simp_all
  then have year: "- 262000 \<le> fst t" using Cons.prems(5) by simp
  have sum: "day_number t + 7 * int (sum_list ws) = day_number e" using Cons.prems(4) t(3) by simp
  have mono: "civil_less d s \<Longrightarrow> civil_less d t" "civil_less d t \<Longrightarrow> civil_less d e"
    using t Cons.prems(1-3) sum by (simp_all add: civil_less_iff)
  note IH = Cons.IH[OF Cons.prems(1) t(2) Cons.prems(3) sum year Cons.prems(6), of "i + 1"]
  show ?case
  proof (cases "\<not> civil_less d s \<and> civil_less d t")
    case True
    then have "week_walk gregorian d i (w # ws) s = Inr (i + 0 + 1, s, t, (w # ws) ! 0)" using t(1) by simp
    then show ?thesis using True t mono Cons.prems(2) by (simp del: week_walk.simps)
  next
    case False
    then have skip: "week_walk gregorian d i (w # ws) s = week_walk gregorian d (i + 1) ws t" using t(1) by auto
    show ?thesis
    proof (cases "\<not> civil_less d t \<and> civil_less d e")
      case True
      with IH Cons.prems(7) obtain n a b where "n < length ws" "week_walk gregorian d (i + 1) ws t = Inr (i + 1 + n + 1, a, b, ws ! n)"
        "civil_ok a" "civil_ok b" "day_number a = day_number t + 7 * int (sum_list (take n ws))"
        "day_number b = day_number a + 7 * int (ws ! n)" "\<not> civil_less d a" "civil_less d b" by auto
      moreover have "\<not> civil_less d s" using True mono(1) by blast
      ultimately show ?thesis using True skip t(3)
        by (simp del: week_walk.simps)
    next
      case out: False
      then have "\<not> (\<not> civil_less d s \<and> civil_less d e)" using False mono by blast
      then show ?thesis using IH Cons.prems(7) out skip by (auto simp del: week_walk.simps split: if_splits)
    qed
  qed
qed

lemma lengths_weeks: "lengths p = map (period_weeks p extra False) [1..<13]"
  by (cases p) (simp_all add: upt_rec period_weeks_def)

lemma weeks_sum: "sum_list (lengths p) = 52" "length (lengths p) = 12"
  by (cases p; simp)+

lemma week_lengths_spec:
  assumes "days \<in> {364, 371}" "1 \<le> extra" "extra \<le> 12"
  shows "week_lengths p extra days = Inr (map (period_weeks p extra (days = 371)) [1..<13])"
    and "7 * int (sum_list (map (period_weeks p extra (days = 371)) [1..<13])) = days"
proof -
  let ?ls = "(lengths p)[extra - 1 := lengths p ! (extra - 1) + 1]"
  have long: "?ls = map (period_weeks p extra True) [1..<13]"
  proof (rule nth_equalityI)
    fix i assume "i < length ?ls"
    then have i: "i < 12" by (simp add: weeks_sum)
    then have "lengths p ! i = period_weeks p extra False (i + 1)" by (simp add: lengths_weeks[of p extra] del: upt_Suc)
    then show "?ls ! i = map (period_weeks p extra True) [1..<13] ! i"
      using i assms(2,3) by (auto simp: nth_list_update weeks_sum period_weeks_def simp del: upt_Suc)
  qed (simp add: weeks_sum)
  have "sum_list ?ls = sum_list (lengths p) + 1"
    using elem_le_sum_list[of "extra - 1" "lengths p"] assms(2,3) by (simp add: sum_list_update weeks_sum)
  then have s: "sum_list ?ls = 53" by (simp only: weeks_sum)
  show "week_lengths p extra days = Inr (map (period_weeks p extra (days = 371)) [1..<13])"
    using assms(1) long lengths_weeks[of p extra] by (auto simp: week_lengths_def Let_def simp del: upt_Suc)
  have "days = 364 \<or> days = 371" using assms(1) by simp
  then show "7 * int (sum_list (map (period_weeks p extra (days = 371)) [1..<13])) = days"
  proof
    assume d: "days = 364"
    then show ?thesis using weeks_sum(1)[of p] lengths_weeks[of p extra] by (simp del: upt_Suc)
  next
    assume d: "days = 371"
    then have "sum_list (map (period_weeks p extra (days = 371)) [1..<13]) = 53" using s unfolding long by (simp del: upt_Suc)
    then show ?thesis unfolding d by simp
  qed
qed

lemma weeks_bound: "list_all (\<lambda>w. w \<le> 14) (map (period_weeks p extra long) ns)"
  by (simp add: list_all_iff period_weeks_def)

section \<open>Which instants have a period\<close>

lemma calendar_valid_parts:
  assumes "calendar_validate gregorian cal = Inr ()"
  shows "case cal of GregorianMonths m d _ \<Rightarrow> 1 \<le> m \<and> m \<le> 12 \<and> 1 \<le> d | GregorianQuarters m d _ \<Rightarrow> 1 \<le> m \<and> m \<le> 12 \<and> 1 \<le> d
    | GregorianYears m d \<Rightarrow> 1 \<le> m \<and> m \<le> 12 \<and> 1 \<le> d
    | WeekPattern m d _ _ _ extra \<Rightarrow> 1 \<le> m \<and> m \<le> 12 \<and> 1 \<le> d \<and> 1 \<le> extra \<and> extra \<le> 12"
  using assms by (cases cal) (auto simp: fiscal_date_def split: if_splits)

definition resolves :: "('z, 'd) zones \<Rightarrow> 'z \<Rightarrow> bool" where
  "resolves Z tz \<longleftrightarrow> (\<forall>d. \<exists>u. resolve_timezone_local Z tz (midnight d) = Inr u)"

fun calendar_kind :: "fiscal_calendar \<Rightarrow> nat" where
  "calendar_kind (GregorianMonths _ _ _) = 0"
| "calendar_kind (GregorianQuarters _ _ _) = 1"
| "calendar_kind (GregorianYears _ _) = 2"
| "calendar_kind (WeekPattern _ _ _ _ _ _) = 3"

text \<open>The period is a part of the year from \<open>s\<close> to \<open>e\<close> and contains the local date \<open>d\<close>.\<close>

definition shows_period ::
    "('z, civil) zones \<Rightarrow> 'z \<Rightarrow> fiscal_calendar \<Rightarrow> civil \<Rightarrow> civil \<Rightarrow> civil \<Rightarrow> fiscal_period \<Rightarrow> bool" where
  "shows_period Z tz cal s e d p \<longleftrightarrow> fp_fiscal_year p = fst s
     \<and> (\<exists>a b. part_dates cal s e (fp_period p) a b (fp_weeks p) \<and> \<not> civil_less d a \<and> civil_less d b
         \<and> resolve_timezone_local Z tz (midnight a) = Inr (fp_start p)
         \<and> resolve_timezone_local Z tz (midnight b) = Inr (fp_end p))"

lemma fiscal_result_shows:
  assumes "resolves Z tz" "zone_parse Z (fc_timezone c) = Some tz"
    and "part_dates cal s e n a b w" "\<not> civil_less d a" "civil_less d b"
  shows "\<exists>p. fiscal_result Z c (fst s) n a b w = Inr p \<and> shows_period Z tz cal s e d p"
proof -
  obtain u v where uv: "resolve_timezone_local Z tz (midnight a) = Inr u" "resolve_timezone_local Z tz (midnight b) = Inr v"
    using assms(1) unfolding resolves_def by blast
  let ?p = "\<lparr>fp_fiscal_year = fst s, fp_period = n, fp_start = u, fp_end = v, fp_weeks = w\<rparr>"
  have "fiscal_result Z c (fst s) n a b w = Inr ?p" using assms(2) uv by (simp add: fiscal_result_def)
  moreover have "shows_period Z tz cal s e d ?p"
    unfolding shows_period_def fiscal_period.simps using assms(3-) uv by blast
  ultimately show ?thesis by blast
qed

lemma gregorian_period:
  assumes d: "civil_ok d" "year_near (fst d) 4" and m: "1 \<le> m" "m \<le> 12" "1 \<le> dd"
  obtains s e where "gregorian_bounds gregorian d m dd = Inr (s, e)" "\<not> civil_less d s" "civil_less d e"
    "s = anchor_date (fst s) m dd" "e = anchor_date (fst s + 1) m dd"
    "\<exists>n a b. part_walk gregorian d (day_of gregorian s) e 1 0 12 s = Inr (n, a, b)
        \<and> part_dates (GregorianMonths m dd x) s e n a b None \<and> \<not> civil_less d a \<and> civil_less d b"
    "\<exists>n a b. part_walk gregorian d (day_of gregorian s) e 3 0 4 s = Inr (n, a, b)
        \<and> part_dates (GregorianQuarters m dd x) s e n a b None \<and> \<not> civil_less d a \<and> civil_less d b"
proof -
  have "year_near (fst d) 2" using d(2) by simp
  from gregorian_bounds_civil[OF m d(1) this] obtain s e where
    b: "gregorian_bounds gregorian d m dd = Inr (s, e)" "civil_ok s" "\<not> civil_less d s" "civil_less d e"
      "fst d - 1 \<le> fst s" "fst s \<le> fst d" "s = anchor_date (fst s) m dd" "e = anchor_date (fst s + 1) m dd" by metis
  have day: "day_of gregorian s = snd (snd s)" by (cases s) simp
  have near: "- 262000 \<le> fst s" "fst s + 1 \<le> 262000" using b(5,6) d(2) by simp_all
  have z: "months_after s (0 * k) = s" for k using months_after_0[OF b(2)] by simp
  note walk = part_walk_civil[OF b(2) near, of d 0, unfolded z, OF b(3,4)]
  have c: "(1 :: nat) \<le> 12" "(0 + 12) * 1 = (12 :: nat)" "(1 :: nat) \<le> 4" "(0 + 4) * 3 = (12 :: nat)" by simp_all
  from walk[OF c(1,2)] obtain n a b' where w1: "part_walk gregorian d (day_of gregorian s) e 1 0 12 s = Inr (n, a, b')"
    "0 < n" "n \<le> 0 + 12" "a = months_after s ((n - 1) * 1)" "b' = (if n = 0 + 12 then e else months_after s (n * 1))"
    "\<not> civil_less d a" "civil_less d b'" unfolding day by blast
  from walk[OF c(3,4)] obtain k a' c where w3: "part_walk gregorian d (day_of gregorian s) e 3 0 4 s = Inr (k, a', c)"
    "0 < k" "k \<le> 0 + 4" "a' = months_after s ((k - 1) * 3)" "c = (if k = 0 + 4 then e else months_after s (k * 3))"
    "\<not> civil_less d a'" "civil_less d c" unfolding day by blast
  have "part_dates (GregorianMonths m dd x) s e n a b' None" using w1(2-5) by simp
  moreover have "part_dates (GregorianQuarters m dd x) s e k a' c None" using w3(2-5) by (simp add: mult.commute)
  ultimately show thesis using w1(1,6,7) w3(1,6,7) by (intro that[OF b(1,3,4,7,8)]) blast+
qed

text \<open>
  The period of an instant on the Gregorian calendar: the fiscal year computed for the local date
  is a range of dates; a date in it has a period, and a date outside it is out of range.
\<close>

lemma fiscal_period_cases:
  assumes "fiscal_validate gregorian Z c = Inr ()" "zone_parse Z (fc_timezone c) = Some tz" "resolves Z tz"
    and d: "civil_ok (date_at Z tz u)" "year_near (fst (date_at Z tz u)) 4"
  shows "\<exists>s e. fiscal_year_bounds gregorian (fc_calendar c) (date_at Z tz u) = Inr (s, e, calendar_kind (fc_calendar c))
    \<and> year_dates (fc_calendar c) s e
    \<and> (calendar_kind (fc_calendar c) \<noteq> 3 \<longrightarrow> \<not> civil_less (date_at Z tz u) s \<and> civil_less (date_at Z tz u) e)
    \<and> (if \<not> civil_less (date_at Z tz u) s \<and> civil_less (date_at Z tz u) e
       then \<exists>p. fiscal_period_for gregorian Z c u = Inr p \<and> shows_period Z tz (fc_calendar c) s e (date_at Z tz u) p
       else fiscal_period_for gregorian Z c u = Inl OutOfRange)"
proof -
  let ?d = "date_at Z tz u"
  have valid: "calendar_validate gregorian (fc_calendar c) = Inr ()" "pinned_timezone_rules_match Z (fc_timezone_rules_version c)"
    using assms(1,2) by (auto simp: fiscal_validate_def split: if_splits)
  note parts = calendar_valid_parts[OF valid(1)] and res = fiscal_result_shows[OF assms(3,2)]
  note start = assms(1,2)
  show ?thesis
  proof (cases "fc_calendar c")
    case (GregorianMonths m dd x)
    with parts have "1 \<le> m" "m \<le> 12" "1 \<le> dd" by simp_all
    from gregorian_period[OF d this] obtain s e n a b where b: "gregorian_bounds gregorian ?d m dd = Inr (s, e)"
      "\<not> civil_less ?d s" "civil_less ?d e" "s = anchor_date (fst s) m dd" "e = anchor_date (fst s + 1) m dd"
      "part_walk gregorian ?d (day_of gregorian s) e 1 0 12 s = Inr (n, a, b)"
      "part_dates (GregorianMonths m dd x) s e n a b None" "\<not> civil_less ?d a" "civil_less ?d b" by metis
    have year: "year_of gregorian s = fst s" by (cases s) simp
    obtain p where p: "fiscal_result Z c (fst s) n a b None = Inr p" "shows_period Z tz (fc_calendar c) s e ?d p"
      using res[OF b(7-9)] GregorianMonths by auto
    have "fiscal_period_for gregorian Z c u = Inr p"
      using start b(1,6) p(1) by (simp add: fiscal_period_for_def Let_def GregorianMonths year del: part_walk.simps)
    then show ?thesis using b(1-5) p(2) unfolding GregorianMonths by (intro exI[of _ s] exI[of _ e]) simp
  next
    case (GregorianQuarters m dd x)
    with parts have "1 \<le> m" "m \<le> 12" "1 \<le> dd" by simp_all
    from gregorian_period[OF d this] obtain s e n a b where b: "gregorian_bounds gregorian ?d m dd = Inr (s, e)"
      "\<not> civil_less ?d s" "civil_less ?d e" "s = anchor_date (fst s) m dd" "e = anchor_date (fst s + 1) m dd"
      "part_walk gregorian ?d (day_of gregorian s) e 3 0 4 s = Inr (n, a, b)"
      "part_dates (GregorianQuarters m dd x) s e n a b None" "\<not> civil_less ?d a" "civil_less ?d b" by metis
    have year: "year_of gregorian s = fst s" by (cases s) simp
    obtain p where p: "fiscal_result Z c (fst s) n a b None = Inr p" "shows_period Z tz (fc_calendar c) s e ?d p"
      using res[OF b(7-9)] GregorianQuarters by auto
    have "fiscal_period_for gregorian Z c u = Inr p"
      using start b(1,6) p(1) by (simp add: fiscal_period_for_def Let_def GregorianQuarters year del: part_walk.simps)
    then show ?thesis using b(1-5) p(2) unfolding GregorianQuarters by (intro exI[of _ s] exI[of _ e]) simp
  next
    case (GregorianYears m dd)
    with parts have "1 \<le> m" "m \<le> 12" "1 \<le> dd" by simp_all
    from gregorian_period[OF d this] obtain s e where b: "gregorian_bounds gregorian ?d m dd = Inr (s, e)"
      "\<not> civil_less ?d s" "civil_less ?d e" "s = anchor_date (fst s) m dd" "e = anchor_date (fst s + 1) m dd" by metis
    have year: "year_of gregorian s = fst s" by (cases s) simp
    have "part_dates (GregorianYears m dd) s e 1 s e None" by simp
    from res[OF this b(2,3)] GregorianYears obtain p where
      p: "fiscal_result Z c (fst s) 1 s e None = Inr p" "shows_period Z tz (fc_calendar c) s e ?d p" by auto
    have "fiscal_period_for gregorian Z c u = Inr p"
      using start b(1) p(1) by (simp add: fiscal_period_for_def Let_def GregorianYears year)
    then show ?thesis using b p(2) unfolding GregorianYears by (intro exI[of _ s] exI[of _ e]) simp
  next
    case (WeekPattern m dd pat w al extra)
    with parts have m: "1 \<le> m" "m \<le> 12" "1 \<le> dd" and ex: "1 \<le> extra" "extra \<le> 12" by simp_all
    obtain E s e z where ends: "\<And>y. fst ?d - 1 \<le> y \<Longrightarrow> y \<le> fst ?d + 1 \<Longrightarrow>
        rbind (date_clamped gregorian y m dd) (\<lambda>a. aligned_end gregorian a w al) = Inr (E y) \<and> ends_year m dd w al y (E y)"
      and "day_number (E (fst ?d - 1)) < day_number (E (fst ?d))" "day_number (E (fst ?d)) < day_number (E (fst ?d + 1))"
      and z: "z = (if civil_less (E (fst ?d)) ?d then fst ?d else fst ?d - 1)"
      and b: "week_bounds gregorian ?d m dd w al = Inr (s, e)" "civil_ok s" "civil_ok e"
        "day_number s = day_number (E z) + 1" "day_number e = day_number (E (z + 1)) + 1"
        "day_number e - day_number s \<in> {364, 371}" "year_near (fst s) 0" "year_near (fst e) 0"
      by (rule week_bounds_civil[OF m d, of w al], rule that, assumption+)
    have "ends_year m dd w al z (E z)" "ends_year m dd w al (z + 1) (E (z + 1))" using ends[of z] ends[of "z + 1"] by (simp_all add: z)
    then have yd: "year_dates (fc_calendar c) s e" unfolding WeekPattern year_dates.simps using b(2-6) by blast
    have year: "year_of gregorian s = fst s" by (cases s) simp
    let ?long = "day_number e = day_number s + 371"
    let ?ls = "map (period_weeks pat extra ?long) [1..<13]"
    have l: "day_number e - day_number s = 371 \<longleftrightarrow> ?long" by linarith
    note ls = week_lengths_spec[OF b(6) ex, of pat, unfolded l]
    have "day_number s + 7 * int (sum_list ?ls) = day_number e" "- 262000 \<le> fst s" "fst e \<le> 262000"
      using ls(2) b(7,8) by (simp_all del: upt_Suc)
    note walk = week_walk_civil[OF d(1) b(2,3) this weeks_bound, of 0]
    show ?thesis
    proof (cases "\<not> civil_less ?d s \<and> civil_less ?d e")
      case True
      with walk obtain n a b' where n: "n < 12" and w: "week_walk gregorian ?d 0 ?ls s = Inr (n + 1, a, b', ?ls ! n)"
        and "civil_ok a" "civil_ok b'" "day_number a = day_number s + 7 * int (sum_list (take n ?ls))"
          "day_number b' = day_number a + 7 * int (?ls ! n)" and in': "\<not> civil_less ?d a" "civil_less ?d b'"
        unfolding if_P[OF True] length_map length_upt add_0 by (auto simp del: upt_Suc week_walk.simps civil_less.simps day_number.simps civil_ok.simps)
      moreover have "take n ?ls = map (period_weeks pat extra ?long) [1..<n + 1]" "?ls ! n = period_weeks pat extra ?long (n + 1)"
        using n by (simp_all add: take_map del: upt_Suc)
      ultimately have "part_dates (fc_calendar c) s e (n + 1) a b' (Some (?ls ! n))"
        unfolding WeekPattern part_dates.simps Let_def by (simp del: upt_Suc)
      from res[OF this in'] obtain p where
        p: "fiscal_result Z c (fst s) (n + 1) a b' (Some (?ls ! n)) = Inr p" "shows_period Z tz (fc_calendar c) s e ?d p" by blast
      have "fiscal_period_for gregorian Z c u = Inr p"
        using start b(1) ls(1) w p(1) by (simp add: fiscal_period_for_def Let_def WeekPattern year del: week_walk.simps upt_Suc day_number.simps)
      then show ?thesis using b(1) yd p(2) True unfolding WeekPattern
        by (intro exI[of _ s] exI[of _ e]) (simp del: civil_less.simps year_dates.simps)
    next
      case False
      with walk have "week_walk gregorian ?d 0 ?ls s = Inl OutOfRange" by (simp only: if_False)
      then have "fiscal_period_for gregorian Z c u = Inl OutOfRange"
        using start b(1) ls(1) by (simp add: fiscal_period_for_def Let_def WeekPattern del: week_walk.simps upt_Suc day_number.simps)
      then show ?thesis using b(1) yd False unfolding WeekPattern
        by (intro exI[of _ s] exI[of _ e]) (simp del: civil_less.simps year_dates.simps)
    qed
  qed
qed

end
