(* ===== verification/Calendar_Properties.thy ===== *)
theory Calendar_Properties
  imports Calendar_Laws Fiscal_Laws
begin

text \<open>
  The properties of the calendars: periods tile the time since a term became effective, and which
  instants have a fiscal period. The concrete theorems are about the Gregorian calendar in UTC.
\<close>

section \<open>UTC\<close>

text \<open>The date a number of days after 1970-01-01, counted from 2021-01-01, day 18628.\<close>

definition day_at :: "int \<Rightarrow> civil" where
  "day_at n = (if 18628 \<le> n then (next_day ^^ nat (n - 18628)) (2021, 1, 1)
     else (previous_day ^^ nat (18628 - n)) (2021, 1, 1))"

definition DAY :: int where "DAY = 86400000000000"

definition utc :: "(unit, civil) zones" where
  "utc = \<lparr>tzdb_version = ''2025b'', zone_parse = (\<lambda>s. if s = ''UTC'' then Some () else None),
     from_local = (\<lambda>_ t. Single ((day_number (lt_date t) - 719162) * DAY + int (lt_nanos t))),
     gap_end = (\<lambda>_ _. None), date_at = (\<lambda>_ u. day_at (u div DAY))\<rparr>"

lemma utc_simps [simp]:
  "tzdb_version utc = ''2025b''" "zone_parse utc s = (if s = ''UTC'' then Some () else None)"
  "from_local utc z t = Single ((day_number (lt_date t) - 719162) * DAY + int (lt_nanos t))"
  "date_at utc z u = day_at (u div DAY)"
  by (simp_all add: utc_def)

lemma utc_resolves: "resolves utc ()"
  by (simp add: resolves_def resolve_timezone_local_def)

lemma utc_pinned: "pinned_timezone_rules_match utc ''IANA-2025b''"
  by (simp add: pinned_timezone_rules_match_def IANA_TZDB_VERSION_def)

text \<open>A daily term, effective in the afternoon of its anchor.\<close>

definition daily_term :: "civil calendar_term" where
  "daily_term = \<lparr>ct_interval = 1, ct_unit = CDay, ct_alignment = Anchored,
     ct_anchor = \<lparr>lt_date = (2021, 1, 30), lt_nanos = 0\<rparr>, ct_timezone = ''UTC'', ct_week_start = None,
     ct_month_end_rule = PreserveAnchorAndClamp, ct_effective_at = 18657 * DAY + 7,
     ct_boundary_rule_version = ''billing-boundary/1'', ct_timezone_rules_version = ''IANA-2025b''\<rparr>"

lemma daily_dates:
  "civil_shift (2021, 1, 30) 0 = Some (2021, 1, 30)" "civil_shift (2021, 1, 30) 1 = Some (2021, 1, 31)"
  "civil_shift (2021, 1, 30) 2 = Some (2021, 2, 1)" "civil_shift (2021, 1, 30) 3 = Some (2021, 2, 2)"
  by (simp_all add: civil_shift_def month_len_def numeral_2_eq_2 numeral_3_eq_3)

lemma daily_numbers:
  "day_number (2021, 1, 30) = 737819" "day_number (2021, 1, 31) = 737820"
  "day_number (2021, 2, 1) = 737821" "day_number (2021, 2, 2) = 737822"
  by (simp_all add: days_before_def month_len_def numeral_2_eq_2)

lemma daily_valid: "term_validate gregorian utc daily_term = Inr ()"
  by (simp add: term_validate_def daily_term_def BOUNDARY_RULES_VERSION_def utc_pinned)

lemma daily_boundary: "n < 4 \<Longrightarrow> boundary_utc gregorian utc daily_term n = Inr ((18657 + int n) * DAY)"
proof -
  assume "n < 4"
  then have n: "n = 0 \<or> n = 1 \<or> n = 2 \<or> n = 3" by linarith
  have "scheduled_local gregorian utc daily_term n =
      rbind (ok_or (civil_shift (2021, 1, 30) (int n)) OutOfRange) (\<lambda>d. Inr \<lparr>lt_date = d, lt_nanos = 0\<rparr>)"
    using n by (auto simp: scheduled_local_def daily_valid)
      (simp_all add: daily_term_def checked_u64_def u64_max_def checked_i64_def in_i64_def i64_min_def
        i64_max_def add_days_def shift_days_def)
  then show ?thesis
    using n by (auto simp: boundary_utc_def resolve_local_def daily_valid resolve_timezone_local_def daily_dates daily_numbers
        simp del: day_number.simps One_nat_def)
qed

section \<open>Billing periods\<close>

text \<open>
  C37: consecutive billing periods meet and are not empty: where a period and the next one exist,
  the first ends where the second starts and both have a positive length, and period zero starts
  when the term becomes effective.
\<close>

theorem calendar_periods_tile:
  assumes "period D Z t i = Inr p" and "period D Z t (i + 1) = Inr q"
  shows "up_end p = up_start q \<and> up_start p < up_end p \<and> up_start q < up_end q
    \<and> (i = 0 \<longrightarrow> up_start p = ct_effective_at t)"
proof -
  have i: "0 \<le> i" "nat (i + 1) \<le> MAX_BOUNDARY_SEARCH" using assms by (auto simp: period_def split: if_splits)
  then obtain n where n: "i = int n" "n \<le> MAX_BOUNDARY_SEARCH" "Suc n \<le> MAX_BOUNDARY_SEARCH"
    by (cases i rule: int_cases2) auto
  have "i + 1 = int (Suc n)" by (simp add: n)
  with assms(2) have q: "period D Z t (int (Suc n)) = Inr q" by (simp only:)
  from assms(1) have p: "period D Z t (int n) = Inr p" by (simp only: n(1))
  from p obtain j where pj: "start_at D Z t n = Inr (up_start p)" "cut_at D Z t n = Inr (j, up_end p)"
    unfolding period_cuts[OF n(2)] by auto
  from q obtain k where qk: "start_at D Z t (Suc n) = Inr (up_start q)" "cut_at D Z t (Suc n) = Inr (k, up_end q)"
    unfolding period_cuts[OF n(3)] by (auto simp del: cut_at.simps)
  have meet: "up_end p = up_start q" using qk(1) pj(2) by (simp add: start_at_def)
  have later: "up_end p < up_end q" using cut_at_increases[OF qk(2)] pj(2) by auto
  show ?thesis
  proof (cases n)
    case 0
    then show ?thesis using meet later pj cut_at_effective[OF pj(2)] by (simp add: start_at_def n)
  next
    case (Suc m)
    then show ?thesis using meet later pj cut_at_increases[of D Z t m j "up_end p"]
      by (auto simp: start_at_def n simp del: cut_at.simps)
  qed
qed

theorem calendar_periods_tile_witness:
  "\<exists>p q. period gregorian utc daily_term 0 = Inr p \<and> period gregorian utc daily_term 1 = Inr q
    \<and> up_start p = ct_effective_at daily_term \<and> up_start p < up_end p \<and> up_end p = up_start q \<and> up_start q < up_end q
    \<and> up_end p = 18658 * DAY"
proof -
  have l: "record_cuts (ct_effective_at daily_term) (map (\<lambda>n. (18657 + int n) * DAY) [0..<4]) = [18658 * DAY, 18659 * DAY, 18660 * DAY]"
    by (simp add: upt_rec daily_term_def DAY_def)
  have b: "\<forall>n < 4. boundary_utc gregorian utc daily_term n = Inr ((18657 + int n) * DAY)" by (simp add: daily_boundary)
  have "(4 :: nat) \<le> MAX_BOUNDARY_SEARCH" by (simp add: MAX_BOUNDARY_SEARCH_def)
  note period_of_list[OF b this l[symmetric]]
  from this[of 0] this[of 1]
  have "period gregorian utc daily_term 0 = Inr \<lparr>up_index = 0, up_start = 18657 * DAY + 7, up_end = 18658 * DAY\<rparr>"
    "period gregorian utc daily_term (0 + 1) = Inr \<lparr>up_index = 1, up_start = 18658 * DAY, up_end = 18659 * DAY\<rparr>"
    by (simp_all add: daily_term_def)
  with calendar_periods_tile[OF this] show ?thesis by simp
qed

text \<open>
  C36: \<open>period_for\<close> agrees with \<open>period\<close>: it returns a period exactly when \<open>period\<close> returns it for
  its index and the instant is in its half-open range; so the period of an instant is unique.
\<close>

theorem calendar_membership:
  "period_for D Z t a = Inr p \<longleftrightarrow> period D Z t (int (up_index p)) = Inr p \<and> up_start p \<le> a \<and> a < up_end p"
  unfolding period_for_iff period_contains_iff ..

text \<open>
  C35: the loops over ordinals implement the abstract schedule: where the first boundaries resolve,
  in the limit of the search, the periods are the ranges between the consecutive boundaries that
  are later than all before them and than the effective instant.
\<close>

theorem calendar_schedule_refinement:
  assumes "\<forall>n < N. boundary_utc D Z t n = Inr (b n)" and "N \<le> MAX_BOUNDARY_SEARCH"
    and "i < length (record_cuts (ct_effective_at t) (map b [0..<N]))"
  shows "period D Z t (int i) = Inr \<lparr>up_index = i,
    up_start = (ct_effective_at t # record_cuts (ct_effective_at t) (map b [0..<N])) ! i,
    up_end = record_cuts (ct_effective_at t) (map b [0..<N]) ! i\<rparr>"
  by (rule period_of_list[OF assms(1,2) refl assms(3)])

theorem calendar_schedule_refinement_witness:
  "period gregorian utc daily_term 2 = Inr \<lparr>up_index = 2, up_start = 18659 * DAY, up_end = 18660 * DAY\<rparr>"
proof -
  have l: "record_cuts (ct_effective_at daily_term) (map (\<lambda>n. (18657 + int n) * DAY) [0..<4]) = [18658 * DAY, 18659 * DAY, 18660 * DAY]"
    by (simp add: upt_rec daily_term_def DAY_def)
  have "\<forall>n < 4. boundary_utc gregorian utc daily_term n = Inr ((18657 + int n) * DAY)" by (simp add: daily_boundary)
  from calendar_schedule_refinement[OF this, of 2] show ?thesis unfolding l by (simp add: MAX_BOUNDARY_SEARCH_def)
qed

text \<open>
  C38: every instant since the term became effective has a period, as long as one of the boundaries
  the search reaches is later than it: the loops end and return.
\<close>

theorem calendar_every_instant:
  assumes "\<forall>n < N. boundary_utc D Z t n = Inr (b n)" and "N \<le> MAX_BOUNDARY_SEARCH"
    and "ct_effective_at t \<le> a" and "n < N" and "a < b n"
  shows "\<exists>p. period_for D Z t a = Inr p \<and> up_start p \<le> a \<and> a < up_end p"
  using period_for_covers[OF assms] by (auto simp: period_for_iff period_contains_iff)

theorem calendar_every_instant_witness:
  "\<exists>p. period_for gregorian utc daily_term (18659 * DAY) = Inr p \<and> up_start p \<le> 18659 * DAY \<and> 18659 * DAY < up_end p"
proof -
  have "\<forall>n < 4. boundary_utc gregorian utc daily_term n = Inr ((18657 + int n) * DAY)" by (simp add: daily_boundary)
  from calendar_every_instant[OF this, of "18659 * DAY" 3] show ?thesis
    by (simp add: MAX_BOUNDARY_SEARCH_def daily_term_def DAY_def)
qed

text \<open>A far ordinal panics in \<open>Duration::days\<close> instead of being out of range.\<close>

lemma scheduled_far_ordinal_panics: "scheduled_local gregorian utc daily_term (2 ^ 62) = Inl CalendarPanic"
proof -
  show ?thesis
    using daily_valid
    by (simp add: scheduled_local_def daily_term_def checked_u64_def u64_max_def checked_i64_def in_i64_def i64_min_def
        i64_max_def add_days_def shift_days_def)
qed

section \<open>Fiscal periods\<close>

lemma number_inj: "civil_ok x \<Longrightarrow> civil_ok y \<Longrightarrow> day_number x = day_number y \<Longrightarrow> x = y"
  using civil_less_total[of x y] civil_less_number[of x y] civil_less_number[of y x] by auto

lemma day_at_number: "civil_ok (day_at n) \<and> day_number (day_at n) = n + 719162"
proof -
  have "civil_ok (2021, 1, 1)" "day_number (2021, 1, 1) = 737790" by (simp_all add: month_len_def days_before_def)
  then show ?thesis
    using iterate_next[of "(2021, 1, 1)" "nat (n - 18628)"] iterate_previous[of "(2021, 1, 1)" "nat (18628 - n)"]
    by (auto simp: day_at_def simp del: civil_ok.simps day_number.simps)
qed

lemma day_at_eq: "civil_ok x \<Longrightarrow> day_number x = n + 719162 \<Longrightarrow> day_at n = x"
  using day_at_number[of n] number_inj by auto

lemma civil_shift_eq:
  assumes "civil_ok x" "civil_ok y" "in_chrono_range y" "day_number y = day_number x + n"
  shows "civil_shift x n = Some y"
proof -
  define r where "r = (if 0 \<le> n then (next_day ^^ nat n) x else (previous_day ^^ nat (- n)) x)"
  have "civil_ok r \<and> day_number r = day_number x + n"
    using iterate_next[OF assms(1), of "nat n"] iterate_previous[OF assms(1), of "nat (- n)"]
    unfolding r_def by (cases "0 \<le> n"; simp)
  then have "r = y" using number_inj[of r y] assms by simp
  with assms(3) show ?thesis unfolding civil_shift_def r_def[symmetric] by simp
qed

text \<open>
  C39: on the Gregorian calendar, in a zone that resolves every midnight, a valid fiscal calendar
  gives every local date of the years -261996 to 261996 a fiscal year with the configured first day
  or weekday. An instant whose date is in that range of dates, as it always is with months, quarters
  and years, has a period: it carries the calendar year of the first day and the number \<open>n\<close> of the
  month, quarter or run of weeks (fifth and extra week included) that it is exactly, from local
  midnight to local midnight, and it contains the date. An instant outside the range is out of range.
\<close>

theorem fiscal_periods:
  assumes "fiscal_validate gregorian Z c = Inr ()" and "zone_parse Z (fc_timezone c) = Some tz" and "resolves Z tz"
    and "civil_ok (date_at Z tz u)" and "- 261996 \<le> fst (date_at Z tz u)" and "fst (date_at Z tz u) \<le> 261996"
  shows "\<exists>s e. fiscal_year_bounds gregorian (fc_calendar c) (date_at Z tz u) = Inr (s, e, calendar_kind (fc_calendar c))
    \<and> year_dates (fc_calendar c) s e
    \<and> (calendar_kind (fc_calendar c) \<noteq> 3 \<longrightarrow> \<not> civil_less (date_at Z tz u) s \<and> civil_less (date_at Z tz u) e)
    \<and> (if \<not> civil_less (date_at Z tz u) s \<and> civil_less (date_at Z tz u) e
       then \<exists>p. fiscal_period_for gregorian Z c u = Inr p \<and> shows_period Z tz (fc_calendar c) s e (date_at Z tz u) p
       else fiscal_period_for gregorian Z c u = Inl OutOfRange)"
  using assms(5,6) by (intro fiscal_period_cases[OF assms(1-4)]) simp

text \<open>A retail calendar whose year ends on the Saturday nearest to the end of December.\<close>

definition retail :: fiscal_config where
  "retail = \<lparr>fc_timezone = ''UTC'', fc_timezone_rules_version = ''IANA-2025b'',
     fc_calendar = WeekPattern 12 31 FourFourFive FSaturday Nearest 12\<rparr>"

lemma retail_valid: "fiscal_validate gregorian utc retail = Inr ()"
  by (simp add: fiscal_validate_def retail_def utc_pinned fiscal_date_def month_len_def)

lemma retail_numbers:
  "day_number (2020, 12, 31) = 737789" "day_number (2021, 1, 2) = 737791" "day_number (2021, 1, 3) = 737792"
  "day_number (2021, 12, 31) = 738154" "day_number (2022, 1, 1) = 738155" "day_number (2022, 1, 2) = 738156"
  "day_number (2022, 12, 31) = 738519" "day_number (2023, 1, 1) = 738520" "day_number (2023, 1, 29) = 738548"
  "day_number (2023, 12, 30) = 738883" "day_number (2023, 12, 31) = 738884" "day_number (2024, 1, 28) = 738912"
  "day_number (2024, 12, 28) = 739247" "day_number (2024, 12, 29) = 739248" "day_number (2024, 12, 31) = 739250"
  by (simp_all add: days_before_def month_len_def leap_def eval_nat_numeral)

lemma retail_ok:
  "civil_ok (y, 12, 31)" "civil_ok (y, 12, 30)" "civil_ok (y, 12, 29)" "civil_ok (y, 12, 28)"
  "civil_ok (y, 1, 1)" "civil_ok (y, 1, 2)" "civil_ok (y, 1, 3)" "civil_ok (y, 1, 28)" "civil_ok (y, 1, 29)"
  by (simp_all add: month_len_def)

lemma retail_shifts:
  "civil_shift (2020, 12, 31) 2 = Some (2021, 1, 2)" "civil_shift (2021, 12, 31) 1 = Some (2022, 1, 1)"
  "civil_shift (2021, 1, 2) 1 = Some (2021, 1, 3)" "civil_shift (2022, 1, 1) 1 = Some (2022, 1, 2)"
  "civil_shift (2022, 12, 31) 0 = Some (2022, 12, 31)" "civil_shift (2022, 12, 31) 1 = Some (2023, 1, 1)"
  "civil_shift (2023, 12, 31) (- 1) = Some (2023, 12, 30)" "civil_shift (2023, 12, 30) 1 = Some (2023, 12, 31)"
  "civil_shift (2024, 12, 31) (- 3) = Some (2024, 12, 28)" "civil_shift (2024, 12, 28) 1 = Some (2024, 12, 29)"
  "civil_shift (2023, 1, 1) 28 = Some (2023, 1, 29)" "civil_shift (2023, 12, 31) 28 = Some (2024, 1, 28)"
  by (rule civil_shift_eq[OF retail_ok(1) retail_ok(6)] civil_shift_eq[OF retail_ok(1) retail_ok(5)]
      civil_shift_eq[OF retail_ok(6) retail_ok(7)] civil_shift_eq[OF retail_ok(5) retail_ok(6)]
      civil_shift_eq[OF retail_ok(1) retail_ok(1)] civil_shift_eq[OF retail_ok(1) retail_ok(2)]
      civil_shift_eq[OF retail_ok(2) retail_ok(1)] civil_shift_eq[OF retail_ok(1) retail_ok(4)]
      civil_shift_eq[OF retail_ok(4) retail_ok(3)] civil_shift_eq[OF retail_ok(5) retail_ok(9)]
      civil_shift_eq[OF retail_ok(1) retail_ok(8)]; simp add: retail_numbers del: day_number.simps One_nat_def)+

lemma retail_clamped: "- 262143 \<le> y \<Longrightarrow> y \<le> 262142 \<Longrightarrow> date_clamped gregorian y 12 31 = Inr (y, 12, 31)"
  by (simp add: date_clamped_civil month_len_def)

lemma retail_bounds:
  "week_bounds gregorian (2021, 1, 2) 12 31 FSaturday Nearest = Inr ((2021, 1, 3), (2022, 1, 2))"
  "week_bounds gregorian (2023, 1, 1) 12 31 FSaturday Nearest = Inr ((2023, 1, 1), (2023, 12, 31))"
  "week_bounds gregorian (2023, 12, 31) 12 31 FSaturday Nearest = Inr ((2023, 12, 31), (2024, 12, 29))"
  by (simp_all add: week_bounds_def retail_clamped aligned_end_def plus_days_def retail_numbers retail_shifts
      del: day_number.simps One_nat_def)

lemma retail_dates:
  "day_at 18629 = (2021, 1, 2)" "day_at 19358 = (2023, 1, 1)" "day_at 19722 = (2023, 12, 31)"
  by (rule day_at_eq[OF retail_ok(6)] day_at_eq[OF retail_ok(5)] day_at_eq[OF retail_ok(1)];
      simp add: retail_numbers del: day_number.simps One_nat_def)+

theorem fiscal_periods_witness:
  "\<exists>p. fiscal_period_for gregorian utc retail (19358 * DAY) = Inr p
    \<and> shows_period utc () (fc_calendar retail) (2023, 1, 1) (2023, 12, 31) (2023, 1, 1) p
    \<and> year_dates (fc_calendar retail) (2023, 1, 1) (2023, 12, 31)"
proof -
  have "DAY \<noteq> 0" by (simp add: DAY_def)
  then have d: "date_at utc () (19358 * DAY) = (2023, 1, 1)" by (simp add: retail_dates del: One_nat_def)
  have "civil_ok (date_at utc () (19358 * DAY))" "- 261996 \<le> fst (date_at utc () (19358 * DAY))"
    "fst (date_at utc () (19358 * DAY)) \<le> 261996"
    unfolding d by (simp_all add: month_len_def)
  moreover have "fc_calendar retail = WeekPattern 12 31 FourFourFive FSaturday Nearest 12"
    "zone_parse utc (fc_timezone retail) = Some ()" by (simp_all add: retail_def)
  ultimately show ?thesis
    using fiscal_periods[OF retail_valid _ utc_resolves, of "19358 * DAY"] unfolding d
    by (simp add: retail_bounds del: One_nat_def year_dates.simps)
qed

text \<open>
  C40: which dates of a week pattern have no period. A local date of calendar year \<open>Y\<close> (from -261996
  to 261996) has a period exactly when it is after the last day, as the code aligns it, of the
  fiscal year anchored in \<open>Y - 1\<close> and not after that of the one anchored in \<open>Y + 1\<close>; every other date
  is out of range. So the last days of a fiscal year that ends in the next calendar year have no
  period, and neither have late December days after a year anchored in the next January has ended.
\<close>

theorem fiscal_year_end_gap:
  assumes "fiscal_validate gregorian Z c = Inr ()" and "zone_parse Z (fc_timezone c) = Some tz" and "resolves Z tz"
    and "civil_ok (date_at Z tz u)" and "- 261996 \<le> fst (date_at Z tz u)" and "fst (date_at Z tz u) \<le> 261996"
    and "fc_calendar c = WeekPattern m dd pat w al extra"
  shows "\<exists>last_of. (\<forall>y \<in> {fst (date_at Z tz u) - 1..fst (date_at Z tz u) + 1}.
       rbind (date_clamped gregorian y m dd) (\<lambda>anchor. aligned_end gregorian anchor w al) = Inr (last_of y))
    \<and> (if civil_less (last_of (fst (date_at Z tz u) - 1)) (date_at Z tz u)
         \<and> \<not> civil_less (last_of (fst (date_at Z tz u) + 1)) (date_at Z tz u)
       then \<exists>p. fiscal_period_for gregorian Z c u = Inr p
       else fiscal_period_for gregorian Z c u = Inl OutOfRange)"
proof -
  let ?d = "date_at Z tz u"
  have near: "year_near (fst ?d) 4" using assms(5,6) by simp
  from fiscal_period_cases[OF assms(1-4) near] obtain s e where
    sb: "fiscal_year_bounds gregorian (fc_calendar c) ?d = Inr (s, e, 3)"
    and cases: "if \<not> civil_less ?d s \<and> civil_less ?d e then \<exists>p. fiscal_period_for gregorian Z c u = Inr p
      else fiscal_period_for gregorian Z c u = Inl OutOfRange"
    unfolding assms(7) calendar_kind.simps by (metis (no_types, lifting))
  have m: "1 \<le> m" "m \<le> 12" "1 \<le> dd"
    using calendar_valid_parts[of "fc_calendar c"] assms(1,2,7) by (auto simp: fiscal_validate_def split: if_splits)
  obtain E s' e' z where ends: "\<And>y. fst ?d - 1 \<le> y \<Longrightarrow> y \<le> fst ?d + 1 \<Longrightarrow>
      rbind (date_clamped gregorian y m dd) (\<lambda>a. aligned_end gregorian a w al) = Inr (E y) \<and> ends_year m dd w al y (E y)"
    and days: "day_number (E (fst ?d - 1)) < day_number (E (fst ?d))" "day_number (E (fst ?d)) < day_number (E (fst ?d + 1))"
    and z: "z = (if civil_less (E (fst ?d)) ?d then fst ?d else fst ?d - 1)"
    and b: "week_bounds gregorian ?d m dd w al = Inr (s', e')" "civil_ok s'" "civil_ok e'"
      "day_number s' = day_number (E z) + 1" "day_number e' = day_number (E (z + 1)) + 1"
      "day_number e' - day_number s' \<in> {364, 371}" "year_near (fst s') 0" "year_near (fst e') 0"
    by (rule week_bounds_civil[OF m assms(4) near, of w al], rule that, assumption+)
  have eq: "s = s'" "e = e'" using sb b(1) by (simp_all add: assms(7))
  have ok: "civil_ok (E y)" if "fst ?d - 1 \<le> y" "y \<le> fst ?d + 1" for y using ends[OF that] by (simp add: ends_year_def)
  have less: "civil_less (E y) ?d \<longleftrightarrow> day_number (E y) < day_number ?d" if "fst ?d - 1 \<le> y" "y \<le> fst ?d + 1" for y
    by (rule civil_less_iff[OF ok[OF that] assms(4)])
  have "civil_less (E (fst ?d)) ?d \<longleftrightarrow> day_number (E (fst ?d)) < day_number ?d" by (rule less) simp_all
  then have "\<not> civil_less ?d s \<and> civil_less ?d e \<longleftrightarrow> day_number (E (fst ?d - 1)) < day_number ?d \<and> day_number ?d \<le> day_number (E (fst ?d + 1))"
    unfolding eq civil_less_iff[OF assms(4) b(2)] civil_less_iff[OF assms(4) b(3)] b(4,5) z using days by auto
  also have "\<dots> \<longleftrightarrow> civil_less (E (fst ?d - 1)) ?d \<and> \<not> civil_less (E (fst ?d + 1)) ?d"
    using less[of "fst ?d - 1"] less[of "fst ?d + 1"] by auto
  finally have "if civil_less (E (fst ?d - 1)) ?d \<and> \<not> civil_less (E (fst ?d + 1)) ?d
      then \<exists>p. fiscal_period_for gregorian Z c u = Inr p else fiscal_period_for gregorian Z c u = Inl OutOfRange"
    using cases by (simp only:)
  then show ?thesis using ends by (intro exI[of _ E]) simp
qed

text \<open>2 January 2021 is the last day of the retail year 2020, and has no period.\<close>

theorem fiscal_year_end_gap_witness:
  "aligned_end gregorian (2020, 12, 31) FSaturday Nearest = Inr (2021, 1, 2) \<and> date_at utc () (18629 * DAY) = (2021, 1, 2)
    \<and> fiscal_period_for gregorian utc retail (18629 * DAY) = Inl OutOfRange"
proof -
  have "DAY \<noteq> 0" by (simp add: DAY_def)
  then have d: "date_at utc () (18629 * DAY) = (2021, 1, 2)" by (simp add: retail_dates del: One_nat_def)
  have e: "aligned_end gregorian (2020, 12, 31) FSaturday Nearest = Inr (2021, 1, 2)"
    by (simp add: aligned_end_def plus_days_def retail_numbers retail_shifts del: day_number.simps One_nat_def)
  have v: "fc_calendar retail = WeekPattern 12 31 FourFourFive FSaturday Nearest 12" "zone_parse utc (fc_timezone retail) = Some ()"
    by (simp_all add: retail_def)
  have "civil_ok (date_at utc () (18629 * DAY))" "- 261996 \<le> fst (date_at utc () (18629 * DAY))"
    "fst (date_at utc () (18629 * DAY)) \<le> 261996" unfolding d by (simp_all add: month_len_def)
  from fiscal_year_end_gap[OF retail_valid v(2) utc_resolves this v(1)] obtain last_of where
    l: "\<forall>y \<in> {2020..2022}. rbind (date_clamped gregorian y 12 31) (\<lambda>anchor. aligned_end gregorian anchor FSaturday Nearest) = Inr (last_of y)"
    and c: "if civil_less (last_of 2020) (2021, 1, 2) \<and> \<not> civil_less (last_of 2022) (2021, 1, 2)
      then \<exists>p. fiscal_period_for gregorian utc retail (18629 * DAY) = Inr p
      else fiscal_period_for gregorian utc retail (18629 * DAY) = Inl OutOfRange" unfolding d by auto
  have "last_of 2020 = (2021, 1, 2)" using bspec[OF l, of 2020] e by (simp add: retail_clamped)
  then show ?thesis using c d e by simp
qed

text \<open>
  The year of a period is the calendar year of the fiscal year's first day, so two years that start
  in the same calendar year share it: 1 January 2023 and 31 December 2023 are both in period 1 of
  fiscal year 2023, and the two periods are disjoint.
\<close>

lemma fiscal_year_repeated:
  "\<exists>p q. fiscal_period_for gregorian utc retail (19358 * DAY) = Inr p
       \<and> fiscal_period_for gregorian utc retail (19722 * DAY) = Inr q
       \<and> fp_fiscal_year p = 2023 \<and> fp_fiscal_year q = 2023 \<and> fp_period p = 1 \<and> fp_period q = 1 \<and> fp_end p < fp_start q"
proof -
  have "DAY \<noteq> 0" by (simp add: DAY_def)
  then have d: "n * DAY div DAY = n" for n by simp
  have v: "fc_calendar retail = WeekPattern 12 31 FourFourFive FSaturday Nearest 12" "zone_parse utc (fc_timezone retail) = Some ()"
    "fc_timezone retail = ''UTC''" by (simp_all add: retail_def)
  note eval = fiscal_period_for_def retail_valid v d retail_dates retail_bounds retail_numbers week_lengths_def
    plus_days_def retail_shifts fiscal_result_def resolve_timezone_local_def midnight_def DAY_def
  have "\<exists>p. fiscal_period_for gregorian utc retail (19358 * DAY) = Inr p \<and> fp_fiscal_year p = 2023 \<and> fp_period p = 1
      \<and> fp_end p = (738548 - 719162) * DAY"
    by (simp add: eval del: day_number.simps One_nat_def)
  moreover have "\<exists>p. fiscal_period_for gregorian utc retail (19722 * DAY) = Inr p \<and> fp_fiscal_year p = 2023 \<and> fp_period p = 1
      \<and> fp_start p = (738884 - 719162) * DAY"
    by (simp add: eval del: day_number.simps One_nat_def)
  moreover have "(738548 - 719162) * DAY < (738884 - 719162) * DAY" by (simp add: DAY_def)
  ultimately show ?thesis by fastforce
qed

end
