(* ===== verification/Event.thy ===== *)
theory Event
  imports Identifiers Wire Json_Parser
begin

text \<open>
  Events (\<^verbatim>\<open>domain/event.rs\<close>): the normalization of the bytes a source sends into a candidate, the
  resolution of its chain into an event, and the facts a completion claims. The parser's pinned
  \<open>serde_json\<close>, the text of a decoding error and SHA-256 are parameters.
\<close>

record candidate =
  cd_scope :: scope
  cd_source :: string
  cd_dto :: event_dto
  cd_ingress :: string
  cd_ingress_hash :: string
  cd_event_id :: string

record event =
  e_candidate :: candidate
  e_dto :: event_dto
  e_bytes :: string
  e_content_hash :: string

section \<open>Checks\<close>

definition validate_ref :: "event_ref \<Rightarrow> unit result" where
  "validate_ref r = rbind (validate_source (ref_source r)) (\<lambda>_. check_text (ref_id r) 128)"

definition opt_check :: "('a \<Rightarrow> unit result) \<Rightarrow> 'a option \<Rightarrow> unit result" where
  "opt_check f v = (case v of None \<Rightarrow> Inr () | Some x \<Rightarrow> f x)"

text \<open>How many links of a relation an event of a kind may have, and whether it needs exactly one.\<close>

fun relation_max :: "event_kind \<Rightarrow> relation \<Rightarrow> nat" where
  "relation_max Generated GeneratedFrom = 8"
| "relation_max Optimized OptimizedFrom = 1"
| "relation_max Published PublishedAs = 1"
| "relation_max Acquired AttributedTo = 1"
| "relation_max Generated ConsumesService = 8"
| "relation_max Optimized ConsumesService = 8"
| "relation_max Published ConsumesService = 8"
| "relation_max _ _ = 0"

definition relation_required :: "event_dto \<Rightarrow> relation \<Rightarrow> bool" where
  "relation_required d r \<longleftrightarrow>
     (ev_kind d, r) \<in> {(Optimized, OptimizedFrom), (Published, PublishedAs)} \<and> ev_status d = Some Succeeded
     \<or> ev_kind d = Acquired \<and> r = AttributedTo"

definition links_of :: "event_dto \<Rightarrow> typed_link list" where
  "links_of d = (case ev_links d of None \<Rightarrow> [] | Some ls \<Rightarrow> ls)"

definition relation_count :: "event_dto \<Rightarrow> relation \<Rightarrow> nat" where
  "relation_count d r = length (filter (\<lambda>l. link_relation l = r) (links_of d))"

definition validate_link_cardinality :: "event_dto \<Rightarrow> unit result" where
  "validate_link_cardinality d =
     (if ev_kind d = LinkAsserted then Inr ()
      else rfold (\<lambda>r _.
        if relation_count d r > relation_max (ev_kind d) r
        then Inl (Error ''LINK_CARDINALITY'' ''relation not allowed or too many'')
        else if relation_required d r \<and> relation_count d r \<noteq> 1
        then Inl (Error ''LINK_CARDINALITY'' ''required predecessor missing'')
        else Inr ()) relations ())"

section \<open>Normalization\<close>

fun scalar :: "json \<Rightarrow> bool" where
  "scalar (JString _) = True"
| "scalar (JBool _) = True"
| "scalar (JInt _) = True"
| "scalar (JFloat _) = True"
| "scalar _ = False"

definition extension_limit :: error where
  "extension_limit = Error ''LIMIT'' ''extension scalar/count/bytes''"

definition check_extensions :: "(string, json) omap \<Rightarrow> unit result" where
  "check_extensions m =
     (if length m > 16 then Inl extension_limit
      else rbind (from_value (JObject m)) (\<lambda>bytes.
        ensure (length bytes \<le> 4096 \<and> list_all scalar (map snd m)) extension_limit))"

text \<open>The checks of single fields, from \<open>corrects\<close> to \<open>child\<close>.\<close>

definition check_fields :: "event_dto \<Rightarrow> unit result" where
  "check_fields d =
     rbind (opt_check (\<lambda>s. prefixed s ''ev_'') (ev_corrects d)) (\<lambda>_.
     rbind (opt_check slug (ev_unit d)) (\<lambda>_.
     rbind (opt_check (\<lambda>s. check_text s 256) (ev_reason d)) (\<lambda>_.
     rbind (check_extensions (ev_extensions d)) (\<lambda>_.
     opt_check validate_ref (ev_child d)))))"

definition check_link :: "string \<Rightarrow> string \<Rightarrow> typed_link \<Rightarrow> unit result" where
  "check_link source ident l =
     rbind (ensure (link_schema l = ''ledger-link/1'') (Error ''SCHEMA'' ''link schema'')) (\<lambda>_.
     rbind (validate_ref (link_from l)) (\<lambda>_.
     ensure (\<not> (ref_source (link_from l) = source \<and> ref_id (link_from l) = ident))
       (Error ''LINK_SELF'' ''self reference'')))"

definition opt_set :: "('a list \<Rightarrow> 'a list result) \<Rightarrow> 'a list option \<Rightarrow> 'a list option result" where
  "opt_set f v = (case v of None \<Rightarrow> Inr None | Some xs \<Rightarrow> rbind (f xs) (\<lambda>ys. Inr (Some ys)))"

definition normal_links :: "string \<Rightarrow> string \<Rightarrow> typed_link list \<Rightarrow> typed_link list result" where
  "normal_links source ident ls =
     rbind (ensure (length ls \<le> 32) (Error ''LIMIT'' ''links'')) (\<lambda>_.
     rbind (rfold (\<lambda>l _. check_link source ident l) ls ()) (\<lambda>_.
     sort_set link_json ls))"

definition normal_evidence :: "string list \<Rightarrow> string list result" where
  "normal_evidence ids =
     rbind (ensure (length ids \<le> 16) (Error ''LIMIT'' ''evidence'')) (\<lambda>_.
     rbind (rfold (\<lambda>s _. prefixed s ''doc_'') ids ()) (\<lambda>_.
     sort_set JString ids))"

definition normal_targets :: "string list \<Rightarrow> string list result" where
  "normal_targets ids =
     rbind (ensure (ids \<noteq> [] \<and> length ids \<le> 32) (Error ''LIMIT'' ''reversal targets'')) (\<lambda>_.
     rbind (rfold (\<lambda>s _. prefixed s ''ev_'') ids ()) (\<lambda>_.
     sort_set JString ids))"

definition normal_sets :: "string \<Rightarrow> event_dto \<Rightarrow> event_dto result" where
  "normal_sets source d =
     rbind (opt_set (normal_links source (ev_id d)) (ev_links d)) (\<lambda>links.
     rbind (opt_set normal_evidence (ev_evidence d)) (\<lambda>evidence.
     rbind (opt_set normal_targets (ev_targets d)) (\<lambda>targets.
     Inr (d\<lparr>ev_links := links, ev_evidence := evidence, ev_targets := targets\<rparr>))))"

definition or_default :: "'a option \<Rightarrow> 'a \<Rightarrow> 'a option" where
  "or_default v x = (case v of None \<Rightarrow> Some x | Some y \<Rightarrow> Some y)"

definition one_decimal :: "decimal result" where
  "one_decimal = decimal_parse ''1''"

text \<open>Completions: some fields are forbidden, the others get their defaults.\<close>

definition normal_work :: "event_dto \<Rightarrow> event_dto result" where
  "normal_work d =
     (if ev_claim_id d \<noteq> None \<or> ev_child d \<noteq> None \<or> ev_targets d \<noteq> None \<or> ev_reason d \<noteq> None
      then Inl (Error ''SCHEMA'' ''fields forbidden for completion'')
      else
        let status = (case ev_status d of None \<Rightarrow> Succeeded | Some s \<Rightarrow> s) in
        rbind one_decimal (\<lambda>one.
        let quantity = (case ev_quantity d of None \<Rightarrow> one | Some q \<Rightarrow> q) in
        if status = Succeeded \<and> decimal_is_zero quantity
        then Inl (Error ''QUANTITY'' ''successful work requires positive quantity'')
        else Inr (d\<lparr>ev_status := Some status, ev_quantity := Some quantity,
          ev_unit := or_default (ev_unit d) ''call'', ev_links := or_default (ev_links d) [],
          ev_evidence := or_default (ev_evidence d) []\<rparr>)))"

definition empty_or_none :: "'a list option \<Rightarrow> bool" where
  "empty_or_none v \<longleftrightarrow> (case v of None \<Rightarrow> True | Some xs \<Rightarrow> xs = [])"

definition not_single :: "'a list option \<Rightarrow> bool" where
  "not_single v \<longleftrightarrow> (case v of None \<Rightarrow> True | Some xs \<Rightarrow> length xs \<noteq> 1)"

definition acquisition_wrong :: "event_dto \<Rightarrow> bool" where
  "acquisition_wrong d \<longleftrightarrow> ev_claim_id d = None \<or> ev_occurred_at d = None \<or> empty_or_none (ev_links d)
     \<or> empty_or_none (ev_evidence d) \<or> ev_child d \<noteq> None \<or> ev_targets d \<noteq> None \<or> ev_reason d \<noteq> None"

definition assertion_wrong :: "event_dto \<Rightarrow> bool" where
  "assertion_wrong d \<longleftrightarrow> ev_child d = None \<or> not_single (ev_links d) \<or> ev_claim_id d \<noteq> None
     \<or> ev_targets d \<noteq> None \<or> ev_reason d \<noteq> None"

definition reversal_wrong :: "event_dto \<Rightarrow> bool" where
  "reversal_wrong d \<longleftrightarrow> ev_targets d = None \<or> ev_reason d = None \<or> not_single (ev_evidence d)
     \<or> ev_claim_id d \<noteq> None \<or> ev_child d \<noteq> None \<or> ev_links d \<noteq> None \<or> ev_binding_id d \<noteq> None
     \<or> ev_invocation_id d \<noteq> None"

text \<open>The match on the kind has no case for work: \<open>unreachable!\<close>, a panic.\<close>

definition check_other :: "event_dto \<Rightarrow> unit result" where
  "check_other d =
     (if ev_status d \<noteq> None \<or> ev_quantity d \<noteq> None \<or> ev_unit d \<noteq> None \<or> ev_corrects d \<noteq> None
      then Inl (Error ''SCHEMA'' ''completion fields on non-work event'')
      else case ev_kind d of
        Acquired \<Rightarrow> ensure (\<not> acquisition_wrong d) (Error ''SCHEMA'' ''acquisition fields'')
      | LinkAsserted \<Rightarrow> ensure (\<not> assertion_wrong d) (Error ''SCHEMA'' ''link assertion fields'')
      | EconomicReversal \<Rightarrow> ensure (\<not> reversal_wrong d) (Error ''SCHEMA'' ''reversal fields'')
      | _ \<Rightarrow> Inl Panic)"

definition normal_kind :: "event_dto \<Rightarrow> event_dto result" where
  "normal_kind d = (if is_work (ev_kind d) then normal_work d else rbind (check_other d) (\<lambda>_. Inr d))"

definition given :: "'a option list \<Rightarrow> 'a list" where
  "given vs = concat (map (\<lambda>v. case v of None \<Rightarrow> [] | Some x \<Rightarrow> [x]) vs)"

definition source_of :: "event_dto \<Rightarrow> string \<Rightarrow> string" where
  "source_of d default_source = (case ev_source d of None \<Rightarrow> default_source | Some s \<Rightarrow> s)"

text \<open>The decoded document with every check done and every default filled in.\<close>

definition normal_dto :: "string \<Rightarrow> event_dto \<Rightarrow> event_dto result" where
  "normal_dto default_source d =
     rbind (ensure (ev_schema d = ''ledger-event/1'') (Error ''SCHEMA'' ''event schema'')) (\<lambda>_.
     rbind (check_text (ev_id d) 128) (\<lambda>_.
     rbind (check_text (ev_customer d) 128) (\<lambda>_.
     rbind (validate_source (source_of d default_source)) (\<lambda>_.
     rbind (rfold (\<lambda>s _. check_text s 128)
        (given [ev_operation_id d, ev_chain d, ev_binding_id d, ev_invocation_id d, ev_claim_id d]) ()) (\<lambda>_.
     let d = d\<lparr>ev_operation_id := or_default (ev_operation_id d) (ev_id d)\<rparr> in
     rbind (check_fields d) (\<lambda>_.
     rbind (normal_sets (source_of d default_source) d) (\<lambda>d.
     rbind (normal_kind d) (\<lambda>d.
     rbind (validate_link_cardinality d) (\<lambda>_. Inr d)))))))))"

definition event_key :: "scope \<Rightarrow> string \<Rightarrow> string \<Rightarrow> json" where
  "event_key scope source ident =
     JArray [JString (tenant_id scope), JString (environment_id scope), JString source, JString ident]"

definition normalize :: "pinned \<Rightarrow> (json \<Rightarrow> string) \<Rightarrow> (string \<Rightarrow> string) \<Rightarrow>
    string \<Rightarrow> scope \<Rightarrow> string \<Rightarrow> candidate result" where
  "normalize serde explain sha256 bytes scope default_source =
     rbind (parse serde bytes) (\<lambda>v.
     rbind (dto explain event_decode v) (\<lambda>d0.
     rbind (normal_dto default_source d0) (\<lambda>d.
     rbind (from_value (event_json d)) (\<lambda>ingress.
     rbind (ensure (length ingress \<le> CANDIDATE_LIMIT) (Error ''LIMIT'' ''normalized ingress'')) (\<lambda>_.
     rbind (digest sha256 DomIngress (event_json d)) (\<lambda>ingress_hash.
     rbind (identity sha256 DomEvent (event_key scope (source_of d default_source) (ev_id d))) (\<lambda>event_id.
     Inr \<lparr>cd_scope = scope, cd_source = source_of d default_source, cd_dto = d, cd_ingress = ingress,
       cd_ingress_hash = ingress_hash, cd_event_id = event_id\<rparr>)))))))"

section \<open>Resolution\<close>

text \<open>\<open>expect("normalized operation")\<close> and \<open>expect("resolved chain")\<close>.\<close>

definition operation_id :: "candidate \<Rightarrow> string result" where
  "operation_id c = ok_or (ev_operation_id (cd_dto c)) Panic"

text \<open>A scope is serialized as the array of its two parts.\<close>

definition scope_json :: "scope \<Rightarrow> json" where
  "scope_json s = JArray [JString (tenant_id s), JString (environment_id s)]"

definition auto_chain :: "(string \<Rightarrow> string) \<Rightarrow> candidate \<Rightarrow> string result" where
  "auto_chain sha256 c =
     rbind (operation_id c) (\<lambda>operation.
     rbind (hash_hex sha256 DomChain (JArray [scope_json (cd_scope c), JString (cd_source c), JString operation]))
       (\<lambda>h. Inr (''auto-'' @ h)))"

definition resolved_chain :: "(string \<Rightarrow> string) \<Rightarrow> candidate \<Rightarrow> string option \<Rightarrow> string result" where
  "resolved_chain sha256 c parent_chain =
     (case (ev_chain (cd_dto c), parent_chain) of
        (Some x, _) \<Rightarrow> Inr x
      | (None, Some x) \<Rightarrow> Inr x
      | (None, None) \<Rightarrow>
          if links_of (cd_dto c) \<noteq> [] \<or> ev_kind (cd_dto c) = LinkAsserted
          then Inl (Error ''UNRESOLVED_INPUT'' ''parent chain required'')
          else auto_chain sha256 c)"

definition check_parent :: "candidate \<Rightarrow> string \<Rightarrow> unit result" where
  "check_parent c parent =
     rbind (check_text parent 128) (\<lambda>_.
     ensure (case ev_chain (cd_dto c) of None \<Rightarrow> True | Some x \<Rightarrow> x = parent)
       (Error ''CHAIN_MISMATCH'' ''explicit and parent chain''))"

definition resolve :: "(string \<Rightarrow> string) \<Rightarrow> candidate \<Rightarrow> string option \<Rightarrow> event result" where
  "resolve sha256 c parent_chain =
     rbind (opt_check (check_parent c) parent_chain) (\<lambda>_.
     rbind (resolved_chain sha256 c parent_chain) (\<lambda>chain.
     let d = (cd_dto c)\<lparr>ev_source := Some (cd_source c), ev_chain := Some chain\<rparr> in
     rbind (from_value (event_json d)) (\<lambda>bytes.
     rbind (ensure (length bytes \<le> CANDIDATE_LIMIT) (Error ''LIMIT'' ''canonical event'')) (\<lambda>_.
     rbind (digest sha256 DomEventContent (event_json d)) (\<lambda>content_hash.
     Inr \<lparr>e_candidate = c, e_dto = d, e_bytes = bytes, e_content_hash = content_hash\<rparr>)))))"

definition event_scope :: "event \<Rightarrow> scope" where "event_scope e = cd_scope (e_candidate e)"

definition event_source :: "event \<Rightarrow> string" where "event_source e = cd_source (e_candidate e)"

definition event_ident :: "event \<Rightarrow> string" where "event_ident e = cd_event_id (e_candidate e)"

definition event_chain :: "event \<Rightarrow> string result" where "event_chain e = ok_or (ev_chain (e_dto e)) Panic"

section \<open>Completion claims\<close>

definition completion_claim_id :: "(string \<Rightarrow> string) \<Rightarrow> event \<Rightarrow> string result" where
  "completion_claim_id sha256 e =
     (if \<not> is_work (ev_kind (e_dto e))
      then Inl (Error ''UNSUPPORTED_SLICE'' ''only completion claim encoding is frozen'')
      else rbind (operation_id (e_candidate e)) (\<lambda>operation.
        identity sha256 DomClaim (JArray [scope_json (event_scope e), JString (event_source e),
          JString operation, JString ''completion'', JString ''completion''])))"

definition triple_json :: "relation \<times> string \<times> string \<Rightarrow> json" where
  "triple_json t = (case t of (r, child, parent) \<Rightarrow>
     JArray [JString (relation_name r), JString child, JString parent])"

definition check_triple :: "event \<Rightarrow> relation \<times> string \<times> string \<Rightarrow> unit result" where
  "check_triple e t = (case t of (_, child, parent) \<Rightarrow>
     rbind (prefixed child ''ev_'') (\<lambda>_.
     rbind (prefixed parent ''ev_'') (\<lambda>_.
     ensure (child = event_ident e \<and> parent \<noteq> child) (Error ''LINK_SELF'' ''resolved endpoints''))))"

definition json_opt :: "('a \<Rightarrow> json) \<Rightarrow> 'a option \<Rightarrow> json" where
  "json_opt enc v = (case v of None \<Rightarrow> JNull | Some x \<Rightarrow> enc x)"

definition completion_facts ::
    "(string \<Rightarrow> string) \<Rightarrow> event \<Rightarrow> (relation \<times> string \<times> string) list \<Rightarrow> json result" where
  "completion_facts sha256 e resolved_links =
     rbind (completion_claim_id sha256 e) (\<lambda>_.
     rbind (ensure (length resolved_links = length (links_of (e_dto e)))
        (Error ''UNRESOLVED_INPUT'' ''resolved link projection count'')) (\<lambda>_.
     rbind (rfold (\<lambda>t _. check_triple e t) resolved_links ()) (\<lambda>_.
     rbind (sort_set triple_json resolved_links) (\<lambda>links.
     rbind (event_chain e) (\<lambda>chain.
     let d = e_dto e in
     Inr (jobj (
       [(''schema'', JString ''ledger-claim-facts/1''), (''type'', JString (kind_name (ev_kind d))),
        (''chain'', JString chain), (''customer'', JString (ev_customer d)),
        (''status'', json_opt (\<lambda>s. JString (completion_name s)) (ev_status d)),
        (''quantity'', json_opt (\<lambda>q. JString (decimal_display q)) (ev_quantity d)),
        (''unit'', jopt (ev_unit d)), (''links'', JArray (map triple_json links)),
        (''evidence'', json_opt strings_json (ev_evidence d))]
       @ member ''binding_id'' JString (ev_binding_id d)
       @ member ''invocation_id'' JString (ev_invocation_id d)
       @ member ''corrects'' JString (ev_corrects d)
       @ member ''occurred_at'' (\<lambda>t. JString (timestamp_text t)) (ev_occurred_at d))))))))"

section \<open>Retention\<close>

text \<open>
  \<open>Serialize\<close> of an event. The two byte strings are UTF-8 (the emitter writes nothing else), so
  the \<open>unwrap\<close>s are the identity here.
\<close>

definition retained_event :: "event \<Rightarrow> json" where
  "retained_event e = jobj [
     (''scope'', scope_json (event_scope e)), (''source'', JString (event_source e)),
     (''ingress_utf8'', JString (cd_ingress (e_candidate e))), (''event_utf8'', JString (e_bytes e)),
     (''event_id'', JString (event_ident e)), (''event_hash'', JString (e_content_hash e)),
     (''ingress_hash'', JString (cd_ingress_hash (e_candidate e)))]"

end
