(* ===== verification/Encoding_Laws.thy ===== *)
theory Encoding_Laws
  imports Canonical_Properties Json_Values Wire
begin

text \<open>
  Laws of built values: objects made of fields are well-formed maps with exactly those fields,
  decoders of structs read from well-formed values only well-formed parts, \<open>sort_set\<close> is sorting
  by canonical bytes with unique keys, and the hashes are functions of the value.
\<close>

section \<open>Objects\<close>

lemma jobj_fold:
  "om_ok m \<Longrightarrow> om_ok (fold (\<lambda>(k, v). om_insert k v) kvs m)
     \<and> map_of (fold (\<lambda>(k, v). om_insert k v) kvs m) = map_of m ++ map_of (rev kvs)"
proof (induction kvs arbitrary: m)
  case (Cons e kvs)
  obtain k v where e: "e = (k, v)" by (cases e)
  have "om_ok (om_insert k v m)" using Cons.prems by (rule om_insert_ok)
  from Cons.IH[OF this] om_insert_get[OF Cons.prems] show ?case
    by (simp add: e fun_eq_iff map_add_def split: option.splits)
qed simp

lemma map_of_rev: "distinct (map fst kvs) \<Longrightarrow> map_of (rev kvs) = map_of kvs"
  by (rule map_of_eqI) (auto simp: rev_map[symmetric] map_of_is_SomeI intro!: map_of_eqI)

lemma jobj_object:
  assumes "distinct (map fst kvs)"
  shows "\<exists>m. jobj kvs = JObject m \<and> om_ok m \<and> map_of m = map_of kvs \<and> set m = set kvs"
proof -
  let ?m = "fold (\<lambda>(k, v). om_insert k v) kvs []"
  have ok: "om_ok ?m" and get: "map_of ?m = map_of kvs"
    using jobj_fold[of "[]" kvs] map_of_rev[OF assms] by (simp_all add: om_ok_def)
  have "set ?m = set kvs"
    using get om_ok_distinct[OF ok] assms by (metis map_of_eq_Some_iff subrelI subset_antisym)
  then show ?thesis using ok get by (simp add: jobj_def)
qed

lemma good_jobj:
  assumes "distinct (map fst kvs)" and "d < 32"
    and "list_all (\<lambda>(k, v). str_ok k \<and> good (Suc d) v) kvs"
  shows "good d (jobj kvs)"
proof -
  obtain m where m: "jobj kvs = JObject m" "om_ok m" "set m = set kvs"
    using jobj_object[OF assms(1)] by blast
  then have "good_members d m" using assms(3) by (auto simp: good_members_def list_all_iff)
  then show ?thesis using good_object[OF _ assms(2)] m(1) by simp
qed

lemma good_leaf [simp]:
  "good d (JString s) \<longleftrightarrow> str_ok s \<and> d \<le> 32"
  "good d (JBool b) \<longleftrightarrow> d \<le> 32"
  "good d (JInt i) \<longleftrightarrow> \<bar>i\<bar> \<le> SAFE \<and> d \<le> 32"
  by (auto simp: good_def SAFE_def int_ranges)

lemma good_array: "good d (JArray vs) \<longleftrightarrow> d < 32 \<and> list_all (good (Suc d)) vs"
  by (auto simp: good_def list_all_iff)

lemma str_ok_ascii: "ascii s \<Longrightarrow> length s \<le> 1000000 \<Longrightarrow> str_ok s"
  by (simp add: str_ok_def ascii_valid isize_max_def)

lemma no_null_jobj:
  assumes "distinct (map fst kvs)" and "list_all (\<lambda>(k, v). no_null v = Inr ()) kvs"
  shows "no_null (jobj kvs) = Inr ()"
proof -
  obtain m where m: "jobj kvs = JObject m" "set m = set kvs"
    using jobj_object[OF assms(1)] by blast
  have "rfold (\<lambda>v _. no_null v) vs () = Inr ()" if "\<forall>v \<in> set vs. no_null v = Inr ()" for vs
    using that by (induction vs) auto
  moreover have "\<forall>v \<in> set (map snd m). no_null v = Inr ()" using m(2) assms(2) by (fastforce simp: list_all_iff)
  ultimately show ?thesis using m(1) by simp
qed

lemma no_null_array: "no_null (JArray vs) = Inr () \<longleftrightarrow> (\<forall>v \<in> set vs. no_null v = Inr ())"
  unfolding no_null.simps by (induction vs) (auto simp: rbind_Inr_iff)

section \<open>Sets\<close>

text \<open>The canonical bytes of a value, where it has them.\<close>

definition canon :: "('a \<Rightarrow> json) \<Rightarrow> 'a \<Rightarrow> string" where
  "canon enc x = (case from_value (enc x) of Inl _ \<Rightarrow> [] | Inr s \<Rightarrow> s)"

lemma erases_from_value_noop: "erases noop_work (from_value_with_work noop_work v) (from_value v)"
  by (simp add: erases_in_def from_value_def)

lemma windows_distinct: "sorted xs \<Longrightarrow> (\<forall>(a, b) \<in> set (windows2 xs). a \<noteq> b) \<longleftrightarrow> distinct xs"
  for xs :: "'a::linorder list"
  by (induction xs rule: windows2.induct) (auto simp: less_le)

lemma windows2_map: "windows2 (map f xs) = map (\<lambda>(a, b). (f a, f b)) (windows2 xs)"
  by (induction xs rule: windows2.induct) simp_all

definition duplicate_member :: error where
  "duplicate_member = Error ''DUPLICATE'' ''set member''"

lemma rfold_windows:
  "rfold (\<lambda>(a, b) _. if fst a = fst b then Inl duplicate_member else Inr ()) ws () =
     (if list_all (\<lambda>(a, b). fst a \<noteq> fst b) ws then Inr () else Inl duplicate_member)"
  by (induction ws) (auto simp: rbind_def)

definition keyed_by :: "('a \<Rightarrow> json) \<Rightarrow> 'a list \<Rightarrow> (string \<times> 'a) list result" where
  "keyed_by enc xs = rfold (\<lambda>x keyed. rbind (from_value (enc x)) (\<lambda>k. Inr (keyed @ [(k, x)]))) xs []"

lemma erases_keyed_by:
  "erases noop_work (mfold (\<lambda>v keyed. mthen (visit noop_work VElement)
       (mbind (from_value_with_work noop_work (enc v)) (\<lambda>key. mok (keyed @ [(key, v)])))) xs []) (keyed_by enc xs)"
  unfolding keyed_by_def
  by (rule erases_mfold) (intro erases_then erases_visit erases_bind erases_from_value_noop erases_ok)

lemma erases_windows:
  "erases noop_work (mfold (\<lambda>(a, b) _. mthen (visit noop_work VMemberCompare)
       (if fst a = fst b then merr duplicate_member else mok ())) ws ())
     (rfold (\<lambda>(a, b) _. if fst a = fst b then Inl duplicate_member else Inr ()) ws ())"
  by (rule erases_mfold) (auto intro!: erases_then erases_visit erases_if erases_err erases_ok)

lemma sort_set_plain:
  "sort_set enc xs = rbind (keyed_by enc xs) (\<lambda>keyed.
     if distinct (map fst (sort_key fst keyed)) then Inr (map snd (sort_key fst keyed)) else Inl duplicate_member)"
proof -
  let ?check = "\<lambda>ws :: ((string \<times> 'a) \<times> (string \<times> 'a)) list.
    rfold (\<lambda>(a, b) _. if fst a = fst b then Inl duplicate_member else Inr ()) ws ()"
  have cmp: "erases noop_work (mthen (visit noop_work VMemberCompare) (mok (cmp_of (fst a) (fst b)))) (Inr (cmp_of (fst a) (fst b)))"
    for a b :: "string \<times> 'a"
    by (intro erases_then erases_visit erases_ok)
  have "erases noop_work (sort_set_with_work noop_work enc xs)
     (rbind (keyed_by enc xs) (\<lambda>keyed. rbind (Inr (sort_key fst keyed)) (\<lambda>keyed.
        rbind (?check (windows2 keyed)) (\<lambda>_. Inr (map snd keyed)))))"
    unfolding sort_set_with_work_def duplicate_member_def[symmetric]
    unfolding mthen_def[of "mfold _ _ _" "mok _"]
    by (intro erases_bind erases_keyed_by erases_sorted_by cmp erases_windows erases_ok)
  from erases_noop[OF this] have "sort_set enc xs = rbind (keyed_by enc xs) (\<lambda>keyed.
      rbind (?check (windows2 (sort_key fst keyed))) (\<lambda>_. Inr (map snd (sort_key fst keyed))))"
    by (simp add: sort_set_def)
  moreover have "rbind (?check (windows2 (sort_key fst keyed))) (\<lambda>_. Inr (map snd (sort_key fst keyed)))
     = (if distinct (map fst (sort_key fst keyed)) then Inr (map snd (sort_key fst keyed)) else Inl duplicate_member)"
    for keyed :: "(string \<times> 'a) list"
    using windows_distinct[of "map fst (sort_key fst keyed)"]
    by (auto simp: windows2_map rfold_windows list_all_iff)
  ultimately show ?thesis by simp
qed

text \<open>A type's values are encodable when the emitter accepts them.\<close>

definition encodable :: "('a \<Rightarrow> json) \<Rightarrow> 'a \<Rightarrow> bool" where
  "encodable enc x \<longleftrightarrow> (\<exists>s. from_value (enc x) = Inr s)"

lemma encodable_canon: "encodable enc x \<longleftrightarrow> from_value (enc x) = Inr (canon enc x)"
  by (auto simp: encodable_def canon_def split: sum.splits)

lemma keyed_from:
  "rfold (\<lambda>x keyed. rbind (from_value (enc x)) (\<lambda>k. Inr (keyed @ [(k, x)]))) xs acc = Inr keyed
     \<longleftrightarrow> (\<forall>x \<in> set xs. encodable enc x) \<and> keyed = acc @ map (\<lambda>x. (canon enc x, x)) xs"
proof (induction xs arbitrary: acc)
  case (Cons x xs)
  show ?case
  proof (cases "from_value (enc x)")
    case (Inl e)
    then show ?thesis by (auto simp: encodable_def)
  next
    case (Inr s)
    then have "canon enc x = s" "encodable enc x" by (auto simp: canon_def encodable_def)
    then show ?thesis using Inr Cons.IH[of "acc @ [(s, x)]"] by auto
  qed
qed auto

lemma keyed_by_Inr:
  "keyed_by enc xs = Inr keyed \<longleftrightarrow> (\<forall>x \<in> set xs. encodable enc x) \<and> keyed = map (\<lambda>x. (canon enc x, x)) xs"
  using keyed_from[of enc xs "[]"] by (simp add: keyed_by_def)

lemma sort_key_pairs: "sort_key fst (map (\<lambda>x. (f x, x)) xs) = map (\<lambda>x. (f x, x)) (sort_key f xs)"
proof -
  have "insort_key fst (f x, x) (map (\<lambda>x. (f x, x)) ys) = map (\<lambda>x. (f x, x)) (insort_key f x ys)" for x ys
    by (induction ys) auto
  then show ?thesis unfolding sort_key_def by (induction xs) simp_all
qed

lemma distinct_sort_key: "distinct (map f (sort_key f xs)) \<longleftrightarrow> distinct (map f xs)"
proof -
  have "mset (map f (sort_key f xs)) = mset (map f xs)" by simp
  then show ?thesis by (rule mset_eq_imp_distinct_iff)
qed

text \<open>What \<open>sort_set\<close> returns: the elements sorted by their bytes, which are distinct.\<close>

lemma sort_set_Inr:
  "sort_set enc xs = Inr ys \<longleftrightarrow>
     (\<forall>x \<in> set xs. encodable enc x) \<and> distinct (map (canon enc) xs) \<and> ys = sort_key (canon enc) xs"
proof -
  note d = distinct_sort_key[of "canon enc" xs]
  have p: "map fst (sort_key fst (map (\<lambda>x. (canon enc x, x)) xs)) = map (canon enc) (sort_key (canon enc) xs)"
    "map snd (sort_key fst (map (\<lambda>x. (canon enc x, x)) xs)) = sort_key (canon enc) xs"
    by (simp_all add: sort_key_pairs comp_def)
  show ?thesis
  proof (cases "keyed_by enc xs")
    case (Inl e)
    then show ?thesis using keyed_by_Inr[of enc xs "map (\<lambda>x. (canon enc x, x)) xs"] by (auto simp: sort_set_plain)
  next
    case (Inr keyed)
    then have k: "\<forall>x \<in> set xs. encodable enc x" "keyed = map (\<lambda>x. (canon enc x, x)) xs"
      unfolding keyed_by_Inr by simp_all
    have "sort_set enc xs = (if distinct (map (canon enc) xs) then Inr (sort_key (canon enc) xs) else Inl duplicate_member)"
      unfolding sort_set_plain Inr rbind_simps k(2) p by (simp only: d)
    then show ?thesis using k(1) by auto
  qed
qed

lemma sort_set_again:
  assumes "sort_set enc xs = Inr ys"
  shows "sort_set enc ys = Inr ys"
proof -
  have y: "ys = sort_key (canon enc) xs" using assms by (simp add: sort_set_Inr)
  note distinct_sort_key[of "canon enc" xs]
  moreover have "sort_key (canon enc) (sort_key (canon enc) xs) = sort_key (canon enc) xs"
    by (simp add: sort_key_id_if_sorted)
  ultimately show ?thesis using assms by (simp add: sort_set_Inr y)
qed

lemma sort_key_unique:
  assumes "distinct (map f xs)" and "mset zs = mset xs"
  shows "sort_key f zs = sort_key f xs"
proof -
  have "map f (sort_key f zs) = map f (sort_key f xs)"
  proof (rule sorted_distinct_set_unique)
    have "mset (map f zs) = mset (map f xs)" using assms(2) by simp
    then show "distinct (map f (sort_key f zs))" "distinct (map f (sort_key f xs))"
      using assms(1) distinct_sort_key[of f] mset_eq_imp_distinct_iff by blast+
  qed (use mset_eq_setD[OF assms(2)] in simp_all)
  moreover have "inj_on f (set xs)" using assms(1) by (simp add: distinct_map)
  ultimately show ?thesis using mset_eq_setD[OF assms(2)] by (metis inj_on_map_eq_map set_sort sup.idem)
qed

lemma sort_set_perm:
  assumes "sort_set enc xs = Inr ys" and "mset zs = mset xs"
  shows "sort_set enc zs = Inr ys"
proof -
  have "mset (map (canon enc) zs) = mset (map (canon enc) xs)" using assms(2) by simp
  then have "distinct (map (canon enc) zs) \<longleftrightarrow> distinct (map (canon enc) xs)" by (rule mset_eq_imp_distinct_iff)
  then show ?thesis
    using assms sort_key_unique[OF _ assms(2), of "canon enc"] mset_eq_setD[OF assms(2)] by (simp add: sort_set_Inr)
qed

lemma sort_set_same:
  assumes "sort_set enc xs = Inr ys"
  shows "set ys = set xs" "length ys = length xs" "mset ys = mset xs"
  using assms by (simp_all add: sort_set_Inr)

section \<open>Decoding\<close>

lemma obind_SomeE:
  assumes "obind m f = Some y"
  obtains x where "m = Some x" "f x = Some y"
  using assms by (auto simp: obind_Some_iff)

text \<open>The fields of a well-formed value are well-formed.\<close>

lemma struct_fields_good:
  assumes "good d v" and "struct_fields names v = Some f" and "f k = Some x"
  shows "good (Suc d) x"
proof (cases v)
  case (JArray vs)
  then have "(k, x) \<in> set (zip names vs)" using assms(2,3) by (auto split: if_splits dest: map_of_SomeD)
  then have "x \<in> set vs" by (rule set_zip_rightD)
  then show ?thesis using assms(1) JArray by (auto simp: good_array list_all_iff)
next
  case (JObject m)
  then have "map_of m k = Some x" using assms(2,3) by (auto split: if_splits)
  then show ?thesis using assms(1) JObject map_of_SomeD[of m k x] by (force simp: good_def)
qed (use assms in auto)

lemma struct_fields_no_null:
  assumes "no_null v = Inr ()" and "struct_fields names v = Some f" and "f k = Some x"
  shows "no_null x = Inr ()"
proof (cases v)
  case (JArray vs)
  then have "(k, x) \<in> set (zip names vs)" using assms(2,3) by (auto split: if_splits dest: map_of_SomeD)
  then have "x \<in> set vs" by (rule set_zip_rightD)
  then show ?thesis using assms(1) JArray by (simp only: no_null_array)
next
  case (JObject m)
  then have "(k, x) \<in> set m" using assms(2,3) by (auto split: if_splits dest: map_of_SomeD)
  then have "x \<in> set (map snd m)" by force
  moreover have "no_null (JArray (map snd m)) = Inr ()" using assms(1) JObject by simp
  ultimately show ?thesis by (simp only: no_null_array)
qed (use assms in auto)

text \<open>A decoder yields values with a property from well-formed values.\<close>

definition decodes :: "nat \<Rightarrow> (json \<Rightarrow> 'a option) \<Rightarrow> ('a \<Rightarrow> bool) \<Rightarrow> bool" where
  "decodes d f P \<longleftrightarrow> (\<forall>v x. good d v \<longrightarrow> f v = Some x \<longrightarrow> P x)"

lemma field_decodes:
  assumes "decodes (Suc d) f P" and "good d v" and "struct_fields names v = Some g" and "field f (g k) = Some x"
  shows "P x"
  using assms struct_fields_good[OF assms(2,3)] by (auto simp: field_def decodes_def split: option.splits)

lemma optional_decodes:
  assumes "decodes (Suc d) f P" and "good d v" and "struct_fields names v = Some g"
    and "optional_field f (g k) = Some (Some x)"
  shows "P x"
proof -
  obtain y where "g k = Some y" "f y = Some x"
    using assms(4) by (auto simp: optional_field_def split: option.splits json.splits)
  then show ?thesis using assms(1) struct_fields_good[OF assms(2,3)] by (auto simp: decodes_def)
qed

lemma decodes_string: "decodes d json_string str_ok"
  by (auto simp: decodes_def elim!: json_string.elims)

lemma decodes_list:
  assumes "decodes (Suc d) f P"
  shows "decodes d (json_list f) (list_all P)"
  using assms by (fastforce simp: decodes_def good_array list_all_iff elim!: json_list.elims split: if_splits)

lemma decodes_strings: "decodes d json_strings (list_all str_ok)"
proof -
  have "json_strings v = json_list json_string v" for v by (cases v) (simp_all add: comp_def)
  then show ?thesis using decodes_list[OF decodes_string, of d] by (simp add: decodes_def)
qed

lemma decodes_bind_string:
  assumes "\<And>s x. str_ok s \<Longrightarrow> f s = Some x \<Longrightarrow> P x"
  shows "decodes d (\<lambda>v. obind (json_string v) f) P"
  using assms decodes_string[of d] by (auto simp: decodes_def obind_Some_iff)

section \<open>Encoding and decoding\<close>

lemma map_of_member [simp]:
  "k' \<noteq> k \<Longrightarrow> map_of (member k enc v @ rest) k' = map_of rest k'"
  "k' \<noteq> k \<Longrightarrow> map_of (member k enc v) k' = None"
  "map_of rest k = None \<Longrightarrow> map_of (member k enc v @ rest) k = map_option enc v"
  "map_of (member k enc v) k = map_option enc v"
  by (simp_all add: member_def split: option.split)

lemma fst_member: "map fst (member k enc v) = (if v = None then [] else [k])"
  by (simp add: member_def split: option.split)

text \<open>A property of an optional value, where it is there.\<close>

definition some_ok :: "('a \<Rightarrow> bool) \<Rightarrow> 'a option \<Rightarrow> bool" where
  "some_ok P v \<longleftrightarrow> (case v of None \<Rightarrow> True | Some x \<Rightarrow> P x)"

lemma some_ok_simps [simp]: "some_ok P None" "some_ok P (Some x) = P x"
  by (simp_all add: some_ok_def)

lemma some_ok_mono: "some_ok P v \<Longrightarrow> (\<And>x. P x \<Longrightarrow> Q x) \<Longrightarrow> some_ok Q v"
  by (cases v) simp_all

lemma some_ok_all: "(\<And>x. Q x) \<Longrightarrow> some_ok Q v"
  by (cases v) simp_all

lemma some_ok_D: "some_ok P v \<Longrightarrow> v = Some x \<Longrightarrow> P x"
  by simp

lemma list_all_member:
  "list_all (\<lambda>(k, x). P k x) (member key enc v) \<longleftrightarrow> some_ok (\<lambda>x. P key (enc x)) v"
  by (simp add: member_def split: option.split)

lemma struct_fields_jobj:
  assumes "distinct (map fst kvs)" and "fst ` set kvs \<subseteq> set names"
  shows "struct_fields names (jobj kvs) = Some (map_of kvs)"
proof -
  obtain m where m: "jobj kvs = JObject m" "map_of m = map_of kvs" "set m = set kvs"
    using jobj_object[OF assms(1)] by blast
  then show ?thesis using assms(2) by (auto simp: list_all_iff)
qed

lemma optional_field_none [simp]: "optional_field f None = Some None"
  by (simp add: optional_field_def)

lemma field_some [simp]: "field f (Some x) = f x"
  by (simp add: field_def)

lemma optional_some: "f x = Some y \<Longrightarrow> x \<noteq> JNull \<Longrightarrow> optional_field f (Some x) = Some (Some y)"
  by (cases x) (simp_all add: optional_field_def)

lemma optional_member:
  assumes "\<And>x. v = Some x \<Longrightarrow> f (enc x) = Some x" and "\<And>x. enc x \<noteq> JNull"
  shows "optional_field f (map_option enc v) = Some v"
  using assms by (cases v) (simp_all add: optional_some)

lemma json_list_map: "(\<And>x. x \<in> set xs \<Longrightarrow> f (enc x) = Some x) \<Longrightarrow> json_list f (JArray (map enc xs)) = Some xs"
  by (auto simp: list_all_iff intro!: map_idI)

lemma json_strings_map: "json_strings (strings_json ss) = Some ss"
  by (auto simp: strings_json_def list_all_iff intro!: map_idI)

text \<open>
  The members a serializer writes are some of the struct's fields, in their order: enough for them
  to be distinct and known.
\<close>

fun in_order :: "string list \<Rightarrow> string list \<Rightarrow> bool" where
  "in_order [] ns = True"
| "in_order (k # ks) [] = False"
| "in_order (k # ks) (n # ns) = (if k = n then in_order ks ns else in_order (k # ks) ns)"

lemma in_order_tl: "in_order (k # ks) ns \<Longrightarrow> in_order ks ns"
  and in_order_more: "in_order ks ns \<Longrightarrow> in_order ks (n # ns)"
proof (induction ns arbitrary: k ks n)
  case (Cons m ns)
  { case 1 then show ?case using Cons.IH by (auto split: if_splits) }
  { case 2 then show ?case
    proof (cases ks)
      case (Cons k' ks')
      show ?thesis
      proof (cases "k' = n")
        case True
        have "in_order ks' (m # ns)"
          using 2 Cons Cons.IH(1)[of k' ks'] Cons.IH(2)[of ks' m] by (auto split: if_splits)
        then show ?thesis using Cons True by simp
      next
        case False
        then show ?thesis using 2 Cons by simp
      qed
    qed simp }
next
  case Nil
  { case 1 then show ?case by simp }
  { case 2 then show ?case by (cases ks) simp_all }
qed

lemma in_order_subset: "in_order ks ns \<Longrightarrow> set ks \<subseteq> set ns"
  by (induction ks ns rule: in_order.induct) (auto split: if_splits)

lemma in_order_distinct: "in_order ks ns \<Longrightarrow> distinct ns \<Longrightarrow> distinct ks"
proof (induction ks ns rule: in_order.induct)
  case (3 k ks n ns)
  then show ?case using in_order_subset[of ks ns] by (auto split: if_splits)
qed simp_all

definition shaped :: "(string \<times> json) list \<Rightarrow> string list \<Rightarrow> bool" where
  "shaped kvs names \<longleftrightarrow> in_order (map fst kvs) names"

named_theorems shape

lemma shaped_Nil [shape]: "shaped [] names"
  by (simp add: shaped_def)

lemma shaped_Cons [shape]: "shaped kvs names \<Longrightarrow> shaped ((k, v) # kvs) (k # names)"
  by (simp add: shaped_def)

lemma shaped_member [shape]: "shaped kvs names \<Longrightarrow> shaped (member k enc v @ kvs) (k # names)"
  by (cases v) (simp_all add: shaped_def member_def in_order_more)

lemma shaped_last [shape]: "shaped (member k enc v) (k # names)"
  using shaped_member[OF shaped_Nil, of k enc v names] by simp

lemma shaped_fields:
  assumes "shaped kvs names" and "distinct names"
  shows "distinct (map fst kvs)" and "struct_fields names (jobj kvs) = Some (map_of kvs)"
  using assms in_order_distinct[of "map fst kvs" names] in_order_subset[of "map fst kvs" names]
  by (auto simp: shaped_def intro!: struct_fields_jobj)

section \<open>Sizes\<close>

text \<open>A bound on the length of the canonical text that is computed from the lengths of the strings.\<close>

definition string_bound :: "string \<Rightarrow> nat" where
  "string_bound s = 6 * length s + 2"

fun text_bound :: "json \<Rightarrow> nat" where
  "text_bound (JString s) = string_bound s"
| "text_bound (JArray vs) = sum_list (map text_bound vs) + length vs + 2"
| "text_bound (JObject m) = sum_list (map (\<lambda>(k, v). string_bound k + text_bound v + 2) m) + 2"
| "text_bound _ = 20"

lemma escape_length: "length (escape u) \<le> 6 * length u"
  unfolding escape_def by (auto simp: hex_byte_def split: list.split)

lemma concat_escape_length: "length (concat (map escape us)) \<le> 6 * length (concat us)"
  by (induction us) (auto intro: order_trans[OF add_mono[OF escape_length]])

lemma jstring_length: "length (jstring s) \<le> string_bound s"
proof -
  have "concat (chars s) = s" by (rule concat_chars)
  then show ?thesis using concat_escape_length[of "chars s"] by (simp add: jstring_def string_bound_def)
qed

lemma join_bound: "length (join sep xs) \<le> sum_list (map length xs) + length sep * length xs"
  by (induction sep xs rule: join.induct) auto

lemma int_str_length:
  assumes "\<bar>i\<bar> \<le> SAFE"
  shows "length (int_str i) \<le> 20"
proof -
  have "nat \<bar>i\<bar> < 10 ^ 16" using assms by (simp add: SAFE_def)
  then have "length (nat_str (nat \<bar>i\<bar>)) \<le> 16" by (rule nat_str_length) simp
  then show ?thesis by (cases "i < 0") (simp_all add: int_str_def)
qed

lemma text_bound: "good d v \<Longrightarrow> length (jtext v) \<le> text_bound v"
proof (induction v arbitrary: d rule: jtext.induct)
  case (3 i)
  then show ?case using int_str_length by (simp add: good_def)
next
  case (5 s)
  then show ?case using jstring_length by simp
next
  case (6 vs)
  then have "sum_list (map (length \<circ> jtext) vs) \<le> sum_list (map text_bound vs)"
    by (intro sum_list_mono) (auto simp: good_array list_all_iff)
  then show ?case using join_bound[of "'',''" "map jtext vs"] by simp
next
  case (7 m)
  let ?f = "\<lambda>k. jstring k @ '':'' @ jtext (the (map_of m k))"
  have ok: "om_ok m" using 7(2) by (simp add: good_def)
  have d: "distinct (map fst m)" using ok by (rule om_ok_distinct)
  have b: "length (?f k) \<le> string_bound k + text_bound v + 1" if "(k, v) \<in> set m" for k v
  proof -
    have v: "map_of m k = Some v" using d that by (rule map_of_is_SomeI)
    have k: "k \<in> set (sort_key encode_utf16 (map fst m))" using that by force
    have "good (Suc d) v" using 7(2) that v by (force simp: good_def)
    then have "length (jtext v) \<le> text_bound v" using 7(1)[OF k, of "Suc d"] v by simp
    then show ?thesis using jstring_length[of k] v by simp
  qed
  have "sum_list (map (length \<circ> ?f) (sort_key encode_utf16 (map fst m))) = sum_list (map (length \<circ> ?f) (map fst m))"
    by (simp only: sum_mset_sum_list[symmetric] mset_map mset_sort)
  also have "\<dots> = sum_list (map (\<lambda>(k, v). length (?f k)) m)"
    by (auto simp: comp_def intro!: arg_cong[of _ _ sum_list])
  also have "\<dots> \<le> sum_list (map (\<lambda>(k, v). string_bound k + text_bound v + 1) m)"
    using b by (intro sum_list_mono) auto
  finally have "sum_list (map (length \<circ> ?f) (sort_key encode_utf16 (map fst m)))
    \<le> sum_list (map (\<lambda>(k, v). string_bound k + text_bound v + 1) m)" .
  moreover have "sum_list (map (\<lambda>(k, v). string_bound k + text_bound v + 2) m)
      = sum_list (map (\<lambda>(k, v). string_bound k + text_bound v + 1) m) + length m" by (induction m) auto
  ultimately show ?case
    using join_bound[of "'',''" "map ?f (sort_key encode_utf16 (map fst m))"] by simp
qed (auto simp: good_def)

lemma text_bound_jobj:
  assumes "distinct (map fst kvs)"
  shows "text_bound (jobj kvs) = sum_list (map (\<lambda>(k, v). string_bound k + text_bound v + 2) kvs) + 2"
proof -
  obtain m where m: "jobj kvs = JObject m" "om_ok m" "set m = set kvs"
    using jobj_object[OF assms] by blast
  have "distinct m" "distinct kvs" using m(2) om_ok_distinct assms by (auto simp: distinct_map)
  then have "mset m = mset kvs" using m(3) by (simp add: set_eq_iff_mset_eq_distinct)
  then show ?thesis unfolding m(1) text_bound.simps by (simp only: sum_mset_sum_list[symmetric] mset_map)
qed

text \<open>A well-formed value whose text is short enough by this bound is encoded.\<close>

lemma from_value_small:
  assumes "good 0 v" and "text_bound v \<le> BUNDLE_LIMIT"
  shows "from_value v = Inr (jtext v)"
  using from_value_encodable[of v] text_bound[OF assms(1)] assms readable_emittable by (simp add: good_def)

end
