(* ===== verification/Event_Laws.thy ===== *)
theory Event_Laws
  imports Event Encoding_Laws Timestamp_Properties
begin

text \<open>
  Laws of events: the documents the decoder returns are made of well-formed parts, encoding and
  decoding are inverse on them, and normalization keeps them well formed and changes nothing the
  second time.
\<close>

section \<open>Well-formed documents\<close>

definition stamp_ok :: "timestamp \<Rightarrow> bool" where
  "stamp_ok t \<longleftrightarrow> timestamp_parse (timestamp_text t) = Inr t \<and> str_ok (timestamp_text t)"

definition ref_ok :: "event_ref \<Rightarrow> bool" where
  "ref_ok r \<longleftrightarrow> str_ok (ref_source r) \<and> str_ok (ref_id r)"

definition link_ok :: "typed_link \<Rightarrow> bool" where
  "link_ok l \<longleftrightarrow> str_ok (link_schema l) \<and> ref_ok (link_from l)"

definition extensions_ok :: "(string, json) omap \<Rightarrow> bool" where
  "extensions_ok m \<longleftrightarrow> good 1 (JObject m) \<and> no_null (JObject m) = Inr ()"

definition dto_ok :: "event_dto \<Rightarrow> bool" where
  "dto_ok d \<longleftrightarrow> str_ok (ev_schema d) \<and> str_ok (ev_id d) \<and> str_ok (ev_customer d)
     \<and> some_ok str_ok (ev_source d) \<and> some_ok str_ok (ev_operation_id d) \<and> some_ok str_ok (ev_chain d)
     \<and> some_ok stamp_ok (ev_occurred_at d) \<and> some_ok decimal_ok (ev_quantity d) \<and> some_ok str_ok (ev_unit d)
     \<and> some_ok str_ok (ev_binding_id d) \<and> some_ok str_ok (ev_invocation_id d) \<and> some_ok str_ok (ev_claim_id d)
     \<and> some_ok (list_all link_ok) (ev_links d) \<and> some_ok (list_all str_ok) (ev_evidence d)
     \<and> some_ok ref_ok (ev_child d) \<and> some_ok (list_all str_ok) (ev_targets d)
     \<and> some_ok str_ok (ev_reason d) \<and> some_ok str_ok (ev_corrects d) \<and> extensions_ok (ev_extensions d)"

lemma parsed_stamp_ok:
  assumes "str_ok s" and "timestamp_parse s = Inr t"
  shows "stamp_ok t"
proof -
  have "read_timestamp s = Some t" using assms parse_read[of s] by (simp add: str_ok_def)
  then obtain secs f where t: "t = stamp secs f" and r: "0 \<le> secs" "secs < 315537897600" "0 \<le> f" "f < 1000000"
    by (elim read_timestamp_stamp)
  note c = read_stamp[OF r]
  have "ascii (ts_canonical (stamp secs f))" using c(2) by (auto simp: read_timestamp_def split: if_splits)
  then have "str_ok (ts_canonical t)" using c(1) by (simp add: t str_ok_ascii)
  then show ?thesis
    using parse_read[of "ts_canonical t"] c by (simp add: stamp_ok_def timestamp_text_def t isize_max_def)
qed

lemma decimal_display_ok:
  assumes "decimal_ok d"
  shows "str_ok (decimal_display d)"
proof -
  have n: "list_all is_digit (nat_str (coefficient d))" by (rule nat_str_digits)
  have z: "list_all is_digit (replicate k (CHR ''0''))" for k by (induction k) (simp_all add: is_digit_def byte_def)
  have ascii_take: "ascii s \<Longrightarrow> ascii (take k s) \<and> ascii (drop k s)" for s k
    by (auto simp: ascii_def dest: in_set_takeD in_set_dropD simp: list_all_iff)
  have "ascii (decimal_display d)"
    using digits_ascii[OF n] digits_ascii[OF z] ascii_take by (simp add: decimal_display_def Let_def byte_def)
  moreover have "decimal_parse (decimal_display d) = Inr d" using assms by (rule decimal_roundtrip)
  then have "length (decimal_display d) \<le> 64" by (simp add: decimal_parse_def split: if_splits)
  ultimately show ?thesis by (simp add: str_ok_ascii)
qed

section \<open>Decoding\<close>

lemma decodes_timestamp: "decodes d json_timestamp stamp_ok"
  unfolding json_timestamp_def
  by (rule decodes_bind_string) (auto simp: of_result_def parsed_stamp_ok split: sum.splits)

lemma decodes_decimal: "decodes d json_decimal decimal_ok"
  unfolding json_decimal_def
  by (rule decodes_bind_string) (auto simp: of_result_def decimal_parse_ok split: sum.splits)

lemma decodes_ref: "decodes d ref_decode ref_ok"
  unfolding decodes_def ref_decode_def
  by (auto elim!: obind_SomeE simp: ref_ok_def intro: field_decodes[OF decodes_string])

lemma decodes_link: "decodes d link_decode link_ok"
  unfolding decodes_def
proof (intro allI impI)
  fix v l assume g: "good d v" and "link_decode v = Some l"
  then obtain f s r e where f: "struct_fields [''schema'', ''relation'', ''from''] v = Some f"
    and s: "(case f ''schema'' of None \<Rightarrow> Some ''ledger-link/1'' | Some s \<Rightarrow> json_string s) = Some s"
    and e: "field ref_decode (f ''from'') = Some e" and l: "l = \<lparr>link_schema = s, link_relation = r, link_from = e\<rparr>"
    by (auto simp: link_decode_def elim!: obind_SomeE)
  have "str_ok s"
  proof (cases "f ''schema''")
    case None
    then have "s = ''ledger-link/1''" using s by simp
    then show ?thesis by (auto intro!: str_ok_ascii simp: byte_def)
  next
    case (Some x)
    then show ?thesis
      using s struct_fields_good[OF g f Some] decodes_string[of "Suc d"] by (simp add: decodes_def)
  qed
  then show "link_ok l" using field_decodes[OF decodes_ref g f e] by (simp add: l link_ok_def)
qed

lemma decoded_dto_ok:
  assumes "good 0 v" and "no_null v = Inr ()" and "event_decode v = Some d"
  shows "dto_ok d"
proof -
  obtain f where f: "struct_fields event_fields v = Some f"
    using assms(3) by (auto simp: event_decode_def elim: obind_SomeE)
  have x: "extensions_ok m" if "(case f ''extensions'' of None \<Rightarrow> Some [] | Some x \<Rightarrow> json_object x) = Some m" for m
  proof (cases "f ''extensions''")
    case None
    then show ?thesis using that by (simp add: extensions_ok_def good_def om_ok_def)
  next
    case (Some y)
    then have "y = JObject m" using that by (cases y) simp_all
    then show ?thesis
      using struct_fields_good[OF assms(1) f Some] struct_fields_no_null[OF assms(2) f Some]
      by (simp add: extensions_ok_def)
  qed
  have o: "some_ok P w" if "optional_field g (f k) = Some w" and "decodes (Suc 0) g P"
    for P and g :: "json \<Rightarrow> 'b option" and k and w :: "'b option"
    using that optional_decodes[OF that(2) assms(1) f, of k] by (cases w) auto
  note s = field_decodes[OF decodes_string assms(1) f]
  show ?thesis
    using assms(3) unfolding event_decode_def dto_ok_def f obind_simps
    by (elim obind_SomeE, simp only: option.inject, hypsubst, simp only: event_dto.simps) (intro conjI;
      (erule s | erule x | erule o, rule decodes_string decodes_timestamp decodes_decimal
        decodes_list[OF decodes_link] decodes_strings decodes_ref))
qed

section \<open>Encoding\<close>

lemma kind_name_ok: "str_ok (kind_name k)"
  by (cases k) (auto intro!: str_ok_ascii simp: byte_def)

lemma completion_name_ok: "str_ok (completion_name c)"
  by (cases c) (auto intro!: str_ok_ascii simp: byte_def)

lemma relation_name_ok: "str_ok (relation_name r)"
  by (cases r) (auto intro!: str_ok_ascii simp: byte_def)

lemma ref_json_round: "ref_decode (ref_json r) = Some r"
proof -
  let ?kvs = "[(''source'', JString (ref_source r)), (''id'', JString (ref_id r))]"
  have "shaped ?kvs [''source'', ''id'']" by (intro shape)
  note s = shaped_fields[OF this]
  show ?thesis using s(2) by (simp add: ref_decode_def ref_json_def)
qed

lemma ref_json_good: "ref_ok r \<Longrightarrow> d < 32 \<Longrightarrow> good d (ref_json r)"
  unfolding ref_json_def by (rule good_jobj) (auto simp: ref_ok_def intro!: str_ok_ascii simp: byte_def)

lemma link_json_round: "link_decode (link_json l) = Some l"
proof -
  let ?kvs = "[(''schema'', JString (link_schema l)), (''relation'', JString (relation_name (link_relation l))),
     (''from'', ref_json (link_from l))]"
  have "shaped ?kvs [''schema'', ''relation'', ''from'']" by (intro shape)
  note s = shaped_fields[OF this]
  show ?thesis using s(2) by (simp add: link_decode_def link_json_def json_relation_name ref_json_round)
qed

lemma link_json_good: "link_ok l \<Longrightarrow> d < 31 \<Longrightarrow> good d (link_json l)"
  unfolding link_json_def
  by (rule good_jobj) (auto simp: link_ok_def relation_name_ok ref_json_good intro!: str_ok_ascii simp: byte_def)

lemma no_null_ref: "no_null (ref_json r) = Inr ()"
  unfolding ref_json_def by (rule no_null_jobj) simp_all

lemma no_null_link: "no_null (link_json l) = Inr ()"
  unfolding link_json_def by (rule no_null_jobj) (simp_all add: no_null_ref)

definition event_members :: "event_dto \<Rightarrow> (string \<times> json) list" where
  "event_members e =
     (''schema'', JString (ev_schema e)) # (''id'', JString (ev_id e)) # (''type'', JString (kind_name (ev_kind e)))
     # (''customer'', JString (ev_customer e))
     # member ''source'' JString (ev_source e)
     @ member ''operation_id'' JString (ev_operation_id e)
     @ member ''chain'' JString (ev_chain e)
     @ member ''occurred_at'' (\<lambda>t. JString (timestamp_text t)) (ev_occurred_at e)
     @ member ''status'' (\<lambda>c. JString (completion_name c)) (ev_status e)
     @ member ''quantity'' (\<lambda>d. JString (decimal_display d)) (ev_quantity e)
     @ member ''unit'' JString (ev_unit e)
     @ member ''binding_id'' JString (ev_binding_id e)
     @ member ''invocation_id'' JString (ev_invocation_id e)
     @ member ''claim_id'' JString (ev_claim_id e)
     @ member ''links'' (\<lambda>ls. JArray (map link_json ls)) (ev_links e)
     @ member ''evidence'' strings_json (ev_evidence e)
     @ member ''child'' ref_json (ev_child e)
     @ member ''targets'' strings_json (ev_targets e)
     @ member ''reason'' JString (ev_reason e)
     @ member ''corrects'' JString (ev_corrects e)
     @ [(''extensions'', JObject (ev_extensions e))]"

lemma event_json_members: "event_json e = jobj (event_members e)"
  by (simp add: event_json_def event_members_def)

lemma event_shaped: "shaped (event_members e) event_fields"
  unfolding event_members_def event_fields_def by (intro shape)

lemma event_fields_distinct: "distinct event_fields"
  by (simp add: event_fields_def)

lemmas event_struct = shaped_fields[OF event_shaped event_fields_distinct]

lemma json_decimal_display: "decimal_ok d \<Longrightarrow> json_decimal (JString (decimal_display d)) = Some d"
  by (simp add: json_decimal_def of_result_def decimal_roundtrip)

lemma json_timestamp_text: "stamp_ok t \<Longrightarrow> json_timestamp (JString (timestamp_text t)) = Some t"
  by (simp add: json_timestamp_def of_result_def stamp_ok_def)

lemma obindI: "m = Some x \<Longrightarrow> f x = Some y \<Longrightarrow> obind m f = Some y"
  by simp

lemma event_json_round:
  assumes "dto_ok e"
  shows "event_decode (event_json e) = Some e"
proof -
  have t: "\<And>t. ev_occurred_at e = Some t \<Longrightarrow> stamp_ok t" and q: "\<And>q. ev_quantity e = Some q \<Longrightarrow> decimal_ok q"
    using assms by (auto simp: dto_ok_def)
  let ?m = "map_of (event_members e)"
  have m: "?m ''schema'' = Some (JString (ev_schema e))" "?m ''id'' = Some (JString (ev_id e))"
    "?m ''type'' = Some (JString (kind_name (ev_kind e)))" "?m ''customer'' = Some (JString (ev_customer e))"
    "?m ''source'' = map_option JString (ev_source e)" "?m ''operation_id'' = map_option JString (ev_operation_id e)"
    "?m ''chain'' = map_option JString (ev_chain e)"
    "?m ''occurred_at'' = map_option (\<lambda>t. JString (timestamp_text t)) (ev_occurred_at e)"
    "?m ''status'' = map_option (\<lambda>c. JString (completion_name c)) (ev_status e)"
    "?m ''quantity'' = map_option (\<lambda>d. JString (decimal_display d)) (ev_quantity e)"
    "?m ''unit'' = map_option JString (ev_unit e)" "?m ''binding_id'' = map_option JString (ev_binding_id e)"
    "?m ''invocation_id'' = map_option JString (ev_invocation_id e)" "?m ''claim_id'' = map_option JString (ev_claim_id e)"
    "?m ''links'' = map_option (\<lambda>ls. JArray (map link_json ls)) (ev_links e)"
    "?m ''evidence'' = map_option strings_json (ev_evidence e)" "?m ''child'' = map_option ref_json (ev_child e)"
    "?m ''targets'' = map_option strings_json (ev_targets e)" "?m ''reason'' = map_option JString (ev_reason e)"
    "?m ''corrects'' = map_option JString (ev_corrects e)" "?m ''extensions'' = Some (JObject (ev_extensions e))"
    by (simp_all add: event_members_def del: map_of_append)
  have n: "ref_json r \<noteq> JNull" "strings_json ss \<noteq> JNull" for r ss
    by (simp_all add: ref_json_def jobj_def strings_json_def)
  note o = optional_member[of _ json_string JString] optional_member[of _ json_timestamp, OF json_timestamp_text]
    optional_member[of _ json_completion, OF json_completion_name] optional_member[of _ json_decimal, OF json_decimal_display]
    optional_member[of _ "json_list link_decode", OF json_list_map[OF link_json_round]]
    optional_member[of _ json_strings, OF json_strings_map] optional_member[of _ ref_decode, OF ref_json_round]
  show ?thesis
    unfolding event_json_members event_decode_def event_struct(2) obind_simps m
    by (simp add: o t q n json_kind_name)
qed

lemma literal_ok: "list_all (\<lambda>c. byte c < 128) s \<Longrightarrow> length s \<le> 100 \<Longrightarrow> str_ok s"
  by (rule str_ok_ascii) (simp_all add: ascii_def)

lemma strings_json_good: "list_all str_ok ss \<Longrightarrow> d < 32 \<Longrightarrow> good d (strings_json ss)"
  by (simp add: strings_json_def good_array list_all_iff)

lemma links_json_good: "list_all link_ok ls \<Longrightarrow> d < 30 \<Longrightarrow> good d (JArray (map link_json ls))"
  by (auto simp: good_array list_all_iff intro: link_json_good)

lemma no_null_strings: "no_null (strings_json ss) = Inr ()"
  unfolding strings_json_def no_null_array by auto

lemma event_field_ok: "k \<in> set event_fields \<Longrightarrow> str_ok k"
proof -
  have "list_all (\<lambda>s. list_all (\<lambda>c. byte c < 128) s \<and> length s \<le> 100) event_fields" by code_simp
  then show "k \<in> set event_fields \<Longrightarrow> str_ok k" by (simp only: list_all_iff) (blast intro: literal_ok[unfolded list_all_iff])
qed

lemma event_json_good:
  assumes "dto_ok e"
  shows "good 0 (event_json e)"
  unfolding event_json_members
proof (rule good_jobj[OF event_struct(1)])
  have keys: "fst ` set (event_members e) \<subseteq> set event_fields"
    using event_shaped[of e] in_order_subset[of "map fst (event_members e)"] by (auto simp: shaped_def)
  note parts = kind_name_ok completion_name_ok stamp_ok_def decimal_display_ok
    strings_json_good links_json_good ref_json_good extensions_ok_def
  have "list_all (\<lambda>(k, v). good (Suc 0) v) (event_members e)"
    using assms unfolding event_members_def dto_ok_def
    by (simp only: list.pred_inject list_all_append list_all_member prod.case)
      (elim conjE, intro conjI TrueI; (erule some_ok_mono | rule some_ok_all | succeed); simp add: parts)
  then show "list_all (\<lambda>(k, v). str_ok k \<and> good (Suc 0) v) (event_members e)"
    using keys event_field_ok by (fastforce simp: list_all_iff)
qed simp

lemma event_json_no_null:
  assumes "dto_ok e"
  shows "no_null (event_json e) = Inr ()"
  unfolding event_json_members
proof (rule no_null_jobj[OF event_struct(1)])
  have l: "no_null (JArray (map link_json ls)) = Inr ()" for ls
    unfolding no_null_array by (auto simp: no_null_link)
  show "list_all (\<lambda>(k, v). no_null v = Inr ()) (event_members e)"
    using assms unfolding event_members_def dto_ok_def extensions_ok_def
    by (simp only: list.pred_inject list_all_append list_all_member prod.case)
      (elim conjE, intro conjI TrueI some_ok_all; (simp only: no_null.simps l[unfolded no_null.simps] no_null_ref no_null_strings)?)
qed

text \<open>The decoder reads a document back from its canonical text.\<close>

lemma event_text_round:
  assumes "serde_ok serde" and "decodes_canonical serde" and "arrays_fit serde (length s)"
    and "dto_ok e" and "from_value (event_json e) = Inr s" and "length s \<le> CANDIDATE_LIMIT"
  shows "rbind (parse serde s) (dto explain event_decode) = Inr e"
proof -
  note g = event_json_good[OF assms(4)]
  have s: "s = jtext (event_json e)" using from_value_text[of "event_json e" s] assms(5) g by (simp add: good_def)
  have "parse serde s = Inr (event_json e)"
    unfolding parse_def s by (rule good_parse) (use assms g s in simp_all)
  then show ?thesis using event_json_round[OF assms(4)] event_json_no_null[OF assms(4)] by (simp add: dto_Inr)
qed

section \<open>Normalization\<close>

lemma rfold_unit: "rfold (\<lambda>x _. f x) xs () = Inr () \<longleftrightarrow> (\<forall>x \<in> set xs. f x = Inr ())"
  for f :: "'a \<Rightarrow> 'e + unit"
  by (induction xs) (auto simp: rbind_Inr_iff)

lemma set_given: "set (given vs) = {x. Some x \<in> set vs}"
  by (induction vs) (auto simp: given_def split: option.splits)

lemma opt_check_Inr: "opt_check f v = Inr () \<longleftrightarrow> some_ok (\<lambda>x. f x = Inr ()) v"
  by (cases v) (simp_all add: opt_check_def)

lemma opt_set_Inr: "opt_set f v = Inr w \<longleftrightarrow>
    (case v of None \<Rightarrow> w = None | Some xs \<Rightarrow> \<exists>ys. f xs = Inr ys \<and> w = Some ys)"
  by (cases v) (auto simp: opt_set_def rbind_Inr_iff)

lemma sort_set_Nil: "sort_set enc [] = Inr []"
  by (simp add: sort_set_Inr)

lemma normal_links_Inr:
  "normal_links source ident ls = Inr ms \<longleftrightarrow> length ls \<le> 32
     \<and> (\<forall>l \<in> set ls. check_link source ident l = Inr ()) \<and> sort_set link_json ls = Inr ms"
  by (auto simp: normal_links_def rbind_Inr_iff rfold_unit)

lemma normal_evidence_Inr:
  "normal_evidence ids = Inr ms \<longleftrightarrow> length ids \<le> 16 \<and> (\<forall>s \<in> set ids. prefixed s ''doc_'' = Inr ())
     \<and> sort_set JString ids = Inr ms"
  by (auto simp: normal_evidence_def rbind_Inr_iff rfold_unit)

lemma normal_targets_Inr:
  "normal_targets ids = Inr ms \<longleftrightarrow> ids \<noteq> [] \<and> length ids \<le> 32 \<and> (\<forall>s \<in> set ids. prefixed s ''ev_'' = Inr ())
     \<and> sort_set JString ids = Inr ms"
  by (auto simp: normal_targets_def rbind_Inr_iff rfold_unit)

lemma normal_same:
  "normal_links source ident ls = Inr ms \<Longrightarrow> set ms = set ls"
  "normal_evidence ids = Inr js \<Longrightarrow> set js = set ids"
  "normal_targets ids = Inr js \<Longrightarrow> set js = set ids"
  using sort_set_same(1) by (auto simp: normal_links_Inr normal_evidence_Inr normal_targets_Inr)

lemma normal_again:
  "normal_links source ident ls = Inr ms \<Longrightarrow> normal_links source ident ms = Inr ms"
  "normal_evidence ids = Inr js \<Longrightarrow> normal_evidence js = Inr js"
  "normal_targets ids = Inr js \<Longrightarrow> normal_targets js = Inr js"
  using sort_set_same[of link_json ls ms] sort_set_same[of JString ids js] sort_set_again
  by (auto simp: normal_links_Inr normal_evidence_Inr normal_targets_Inr)

text \<open>Normalizing twice changes nothing.\<close>

lemma normal_sets_Inr:
  "normal_sets source d = Inr d' \<longleftrightarrow> (\<exists>links evidence targets.
     opt_set (normal_links source (ev_id d)) (ev_links d) = Inr links
     \<and> opt_set normal_evidence (ev_evidence d) = Inr evidence \<and> opt_set normal_targets (ev_targets d) = Inr targets
     \<and> d' = d\<lparr>ev_links := links, ev_evidence := evidence, ev_targets := targets\<rparr>)"
  by (auto simp: normal_sets_def rbind_Inr_iff)

lemma opt_set_again:
  assumes "opt_set f v = Inr w" and "\<And>xs ys. f xs = Inr ys \<Longrightarrow> f ys = Inr ys"
  shows "opt_set f w = Inr w"
  using assms by (cases v) (auto simp: opt_set_def)

lemma opt_set_default:
  assumes "opt_set f w = Inr w" and "f [] = Inr []"
  shows "opt_set f (or_default w []) = Inr (or_default w [])"
  using assms by (cases w) (auto simp: opt_set_def or_default_def)

lemma normal_links_Nil: "normal_links source ident [] = Inr []"
  by (simp add: normal_links_Inr sort_set_Nil)

lemma normal_evidence_Nil: "normal_evidence [] = Inr []"
  by (simp add: normal_evidence_Inr sort_set_Nil)

definition default_of :: "'a option \<Rightarrow> 'a \<Rightarrow> 'a" where
  "default_of v x = (case v of None \<Rightarrow> x | Some y \<Rightarrow> y)"

lemma default_of_Some [simp]: "default_of (Some x) y = x"
  by (simp add: default_of_def)

lemma normal_work_Inr:
  "normal_work d = Inr d' \<longleftrightarrow> ev_claim_id d = None \<and> ev_child d = None \<and> ev_targets d = None \<and> ev_reason d = None
     \<and> (\<exists>one. one_decimal = Inr one
        \<and> \<not> (default_of (ev_status d) Succeeded = Succeeded \<and> decimal_is_zero (default_of (ev_quantity d) one))
        \<and> d' = d\<lparr>ev_status := Some (default_of (ev_status d) Succeeded), ev_quantity := Some (default_of (ev_quantity d) one),
            ev_unit := or_default (ev_unit d) ''call'', ev_links := or_default (ev_links d) [],
            ev_evidence := or_default (ev_evidence d) []\<rparr>)"
proof (cases one_decimal)
  case (Inl e)
  show ?thesis unfolding normal_work_def[folded default_of_def] Let_def Inl by simp
next
  case (Inr one)
  show ?thesis unfolding normal_work_def[folded default_of_def] Let_def Inr by auto
qed

lemma or_default_again [simp]: "or_default (or_default v x) y = or_default v x"
  by (cases v) (simp_all add: or_default_def)

lemma or_default_Some [simp]: "or_default (Some x) y = Some x" "or_default v y \<noteq> None"
  by (cases v; simp add: or_default_def)+

lemma normal_work_again:
  assumes "normal_work d = Inr d'"
  shows "normal_work d' = Inr d'"
proof -
  from assms obtain one where o: "one_decimal = Inr one"
    "\<not> (default_of (ev_status d) Succeeded = Succeeded \<and> decimal_is_zero (default_of (ev_quantity d) one))"
    and n: "ev_claim_id d = None" "ev_child d = None" "ev_targets d = None" "ev_reason d = None"
    and d: "d' = d\<lparr>ev_status := Some (default_of (ev_status d) Succeeded), ev_quantity := Some (default_of (ev_quantity d) one),
            ev_unit := or_default (ev_unit d) ''call'', ev_links := or_default (ev_links d) [],
            ev_evidence := or_default (ev_evidence d) []\<rparr>"
    unfolding normal_work_Inr by blast
  show ?thesis unfolding normal_work_Inr by (intro conjI exI[of _ one]) (use o n in \<open>simp_all add: d\<close>)
qed

lemma normal_kind_cases:
  assumes "normal_kind d = Inr d'"
  obtains (work) "is_work (ev_kind d)" "normal_work d = Inr d'" | (other) "\<not> is_work (ev_kind d)" "d' = d"
  using assms by (auto simp: normal_kind_def rbind_Inr_iff split: if_splits)

lemma normal_kind_fields:
  assumes "normal_kind d = Inr d'"
  shows "ev_schema d' = ev_schema d" "ev_id d' = ev_id d" "ev_kind d' = ev_kind d" "ev_customer d' = ev_customer d"
    "ev_source d' = ev_source d" "ev_operation_id d' = ev_operation_id d" "ev_chain d' = ev_chain d"
    "ev_occurred_at d' = ev_occurred_at d" "ev_binding_id d' = ev_binding_id d"
    "ev_invocation_id d' = ev_invocation_id d" "ev_claim_id d' = ev_claim_id d" "ev_child d' = ev_child d"
    "ev_targets d' = ev_targets d" "ev_reason d' = ev_reason d" "ev_corrects d' = ev_corrects d"
    "ev_extensions d' = ev_extensions d"
    and "ev_unit d' \<in> {ev_unit d, or_default (ev_unit d) ''call''}"
    and "ev_links d' \<in> {ev_links d, or_default (ev_links d) []}"
    and "ev_evidence d' \<in> {ev_evidence d, or_default (ev_evidence d) []}"
    and "ev_quantity d' = ev_quantity d \<or> (\<exists>q. ev_quantity d' = Some (default_of (ev_quantity d) q) \<and> one_decimal = Inr q)"
  using assms by (cases rule: normal_kind_cases; auto simp: normal_work_Inr)+

lemma normal_kind_again:
  assumes "normal_kind d = Inr d'"
  shows "normal_kind d' = Inr d'"
  using assms
proof (cases rule: normal_kind_cases)
  case work
  then show ?thesis using normal_work_again[OF work(2)] normal_kind_fields(3)[OF assms] by (simp add: normal_kind_def)
qed (use assms in simp)

definition ident_fields :: "event_dto \<Rightarrow> string option list" where
  "ident_fields d = [ev_operation_id d, ev_chain d, ev_binding_id d, ev_invocation_id d, ev_claim_id d]"

lemma normal_dto_Inr:
  "normal_dto df d = Inr d' \<longleftrightarrow>
     ev_schema d = ''ledger-event/1'' \<and> check_text (ev_id d) 128 = Inr () \<and> check_text (ev_customer d) 128 = Inr ()
     \<and> validate_source (source_of d df) = Inr ()
     \<and> (\<forall>s. Some s \<in> set (ident_fields d) \<longrightarrow> check_text s 128 = Inr ())
     \<and> (\<exists>d1. check_fields (d\<lparr>ev_operation_id := or_default (ev_operation_id d) (ev_id d)\<rparr>) = Inr ()
        \<and> normal_sets (source_of d df) (d\<lparr>ev_operation_id := or_default (ev_operation_id d) (ev_id d)\<rparr>) = Inr d1
        \<and> normal_kind d1 = Inr d' \<and> validate_link_cardinality d' = Inr ())"
proof -
  have s: "source_of (d\<lparr>ev_operation_id := x\<rparr>) df = source_of d df" for x by (simp add: source_of_def)
  show ?thesis
    unfolding normal_dto_def Let_def s
    by (auto simp: rbind_Inr_iff rfold_unit set_given ident_fields_def simp del: list.set)
qed

lemma check_fields_Inr:
  "check_fields d = Inr () \<longleftrightarrow> some_ok (\<lambda>s. prefixed s ''ev_'' = Inr ()) (ev_corrects d)
     \<and> some_ok (\<lambda>s. slug s = Inr ()) (ev_unit d) \<and> some_ok (\<lambda>s. check_text s 256 = Inr ()) (ev_reason d)
     \<and> check_extensions (ev_extensions d) = Inr () \<and> some_ok (\<lambda>r. validate_ref r = Inr ()) (ev_child d)"
  by (auto simp: check_fields_def rbind_Inr_iff opt_check_Inr)

lemma call_slug: "slug ''call'' = Inr ()"
  by (simp add: slug_def slug_ok_def slug_char_def is_lower_ascii_def byte_def)

lemma normal_dto_again:
  assumes "normal_dto df d = Inr d'"
  shows "normal_dto df d' = Inr d'"
proof -
  let ?d0 = "d\<lparr>ev_operation_id := or_default (ev_operation_id d) (ev_id d)\<rparr>"
  from assms obtain d1 where c: "ev_schema d = ''ledger-event/1''" "check_text (ev_id d) 128 = Inr ()"
    "check_text (ev_customer d) 128 = Inr ()" "validate_source (source_of d df) = Inr ()"
    and i: "\<forall>s. Some s \<in> set (ident_fields d) \<longrightarrow> check_text s 128 = Inr ()"
    and f: "check_fields ?d0 = Inr ()" and s: "normal_sets (source_of d df) ?d0 = Inr d1"
    and k: "normal_kind d1 = Inr d'" and v: "validate_link_cardinality d' = Inr ()"
    unfolding normal_dto_Inr by blast
  from s obtain links evidence targets where
    l: "opt_set (normal_links (source_of d df) (ev_id d)) (ev_links d) = Inr links"
    "opt_set normal_evidence (ev_evidence d) = Inr evidence" "opt_set normal_targets (ev_targets d) = Inr targets"
    and d1: "d1 = ?d0\<lparr>ev_links := links, ev_evidence := evidence, ev_targets := targets\<rparr>"
    unfolding normal_sets_Inr by auto
  note l1 = opt_set_again[OF l(1) normal_again(1)] opt_set_again[OF l(2) normal_again(2)] opt_set_again[OF l(3) normal_again(3)]
  note e = normal_kind_fields[OF k]
  have same: "source_of d' df = source_of d df" using e(5) by (simp add: source_of_def d1)
  have op: "ev_operation_id d' = or_default (ev_operation_id d) (ev_id d)" using e(6) by (simp add: d1)
  have d0: "d'\<lparr>ev_operation_id := or_default (ev_operation_id d') (ev_id d')\<rparr> = d'" by (simp add: op)
  have sets: "normal_sets (source_of d' df) d' = Inr d'"
  proof -
    have a: "opt_set (normal_links (source_of d df) (ev_id d)) (ev_links d') = Inr (ev_links d')"
      using e(18) l1(1) opt_set_default[OF l1(1) normal_links_Nil] by (auto simp: d1)
    have b: "opt_set normal_evidence (ev_evidence d') = Inr (ev_evidence d')"
      using e(19) l1(2) opt_set_default[OF l1(2) normal_evidence_Nil] by (auto simp: d1)
    have c: "opt_set normal_targets (ev_targets d') = Inr (ev_targets d')" using e(13) l1(3) by (simp add: d1)
    have "ev_id d' = ev_id d" using e(2) by (simp add: d1)
    with a b c show ?thesis unfolding normal_sets_Inr same
      by (intro exI[of _ "ev_links d'"] exI[of _ "ev_evidence d'"] exI[of _ "ev_targets d'"]) simp
  qed
  have fields: "check_fields d' = Inr ()"
    using f e(12,14-17) call_slug unfolding check_fields_Inr
    by (cases "ev_unit d") (auto simp: d1 or_default_def)
  have idents: "\<forall>s. Some s \<in> set (ident_fields d') \<longrightarrow> check_text s 128 = Inr ()"
    using i e(7,9,10,11) c(2) unfolding ident_fields_def op
    by (cases "ev_operation_id d") (auto simp: d1 or_default_def)
  show ?thesis
    unfolding normal_dto_Inr d0
    using c e(1-4) same fields idents sets normal_kind_again[OF k] v by (auto simp: d1)
qed

lemma one_decimal_ok: "one_decimal = Inr q \<Longrightarrow> decimal_ok q"
  unfolding one_decimal_def by (rule decimal_parse_ok)

lemma opt_set_list_all:
  assumes "opt_set f v = Inr w" and "some_ok (list_all P) v" and "\<And>xs ys. f xs = Inr ys \<Longrightarrow> set ys = set xs"
  shows "some_ok (list_all P) w"
  using assms by (cases v) (auto simp: opt_set_Inr list_all_iff)

lemma normal_dto_ok:
  assumes "normal_dto df d = Inr d'" and "dto_ok d"
  shows "dto_ok d'"
proof -
  let ?d0 = "d\<lparr>ev_operation_id := or_default (ev_operation_id d) (ev_id d)\<rparr>"
  from assms(1) obtain d1 where s: "normal_sets (source_of d df) ?d0 = Inr d1" and k: "normal_kind d1 = Inr d'"
    unfolding normal_dto_Inr by blast
  from s obtain links evidence targets where
    l: "opt_set (normal_links (source_of d df) (ev_id d)) (ev_links d) = Inr links"
    "opt_set normal_evidence (ev_evidence d) = Inr evidence" "opt_set normal_targets (ev_targets d) = Inr targets"
    and d1: "d1 = ?d0\<lparr>ev_links := links, ev_evidence := evidence, ev_targets := targets\<rparr>"
    unfolding normal_sets_Inr by auto
  have p: "some_ok (list_all link_ok) links" "some_ok (list_all str_ok) evidence" "some_ok (list_all str_ok) targets"
    using assms(2) opt_set_list_all[OF l(1) _ normal_same(1)] opt_set_list_all[OF l(2) _ normal_same(2)]
      opt_set_list_all[OF l(3) _ normal_same(3)]
    unfolding dto_ok_def by simp_all
  have call: "str_ok ''call''" by (auto intro!: literal_ok simp: byte_def)
  have d1_ok: "dto_ok d1"
    using assms(2) p unfolding dto_ok_def d1 by (cases "ev_operation_id d") (simp_all add: or_default_def)
  note e = normal_kind_fields[OF k]
  have u: "some_ok str_ok (ev_unit d')" using d1_ok e(17) call unfolding dto_ok_def by (cases "ev_unit d1") (auto simp: or_default_def)
  have ls: "some_ok (list_all link_ok) (ev_links d')" using d1_ok e(18) unfolding dto_ok_def by (cases "ev_links d1") (auto simp: or_default_def)
  have es: "some_ok (list_all str_ok) (ev_evidence d')" using d1_ok e(19) unfolding dto_ok_def by (cases "ev_evidence d1") (auto simp: or_default_def)
  have q: "some_ok decimal_ok (ev_quantity d')"
    using d1_ok e(20) one_decimal_ok unfolding dto_ok_def by (cases "ev_quantity d1") (auto simp: default_of_def)
  show ?thesis using d1_ok u ls es q unfolding dto_ok_def e(1-16) by simp
qed

end
