(* ===== verification/Event_Properties.thy ===== *)
theory Event_Properties
  imports Event_Laws
begin

text \<open>
  Properties of events: normalization is a canonical form, and what identifies an event.
\<close>

lemma parse_within:
  assumes "parse_bounded serde bytes limit = Inr v"
  shows "length bytes \<le> limit"
proof (rule ccontr)
  assume "\<not> length bytes \<le> limit"
  then have "cmp_of (int (length bytes)) (int limit) = OrdGreater" by (simp add: cmp_of_def)
  then have "parse_bounded serde bytes limit = Inl (Error ''LIMIT'' ''JSON bytes'')"
    by (simp add: parse_bounded_def parse_bounded_impl_def Let_def noop_alloc_def compare_def noop_work_def
        mthen_def mbind_def mok_def mlift_def merr_def)
  with assms show False by simp
qed

text \<open>The document in the bytes, before any check.\<close>

definition decoded :: "pinned \<Rightarrow> (json \<Rightarrow> string) \<Rightarrow> string \<Rightarrow> event_dto result" where
  "decoded serde explain bytes = rbind (parse serde bytes) (dto explain event_decode)"

lemma decoded_ok:
  assumes "serde_ok serde" and "arrays_fit serde CANDIDATE_LIMIT" and "decoded serde explain bytes = Inr d"
  shows "dto_ok d"
proof -
  from assms(3) obtain v where v: "parse_bounded serde bytes CANDIDATE_LIMIT = Inr v"
    and d: "no_null v = Inr ()" "event_decode v = Some d"
    by (auto simp: decoded_def parse_def dto_Inr)
  have "arrays_fit serde (length bytes)"
    using assms(2) parse_within[OF v] by (auto simp: arrays_fit_def intro: order_trans[rotated])
  from parse_good[OF assms(1) this v] show ?thesis using decoded_dto_ok d by blast
qed

lemma normalize_Inr:
  "normalize serde explain sha256 bytes scope df = Inr c \<longleftrightarrow> (\<exists>d0.
     decoded serde explain bytes = Inr d0 \<and> normal_dto df d0 = Inr (cd_dto c)
     \<and> from_value (event_json (cd_dto c)) = Inr (cd_ingress c) \<and> length (cd_ingress c) \<le> CANDIDATE_LIMIT
     \<and> digest sha256 DomIngress (event_json (cd_dto c)) = Inr (cd_ingress_hash c)
     \<and> identity sha256 DomEvent (event_key scope (cd_source c) (ev_id (cd_dto c))) = Inr (cd_event_id c)
     \<and> cd_scope c = scope \<and> cd_source c = source_of (cd_dto c) df)"
  (is "?left = ?right")
proof
  assume ?left
  then show ?right by (auto simp: normalize_def decoded_def rbind_Inr_iff)
next
  assume ?right
  then show ?left
    by (auto simp: normalize_def decoded_def rbind_Inr_iff intro!: candidate.equality)
qed

text \<open>Two documents that differ only in the order of their sets.\<close>

definition same_set :: "'a list option \<Rightarrow> 'a list option \<Rightarrow> bool" where
  "same_set v w \<longleftrightarrow> map_option mset v = map_option mset w"

definition reordered :: "event_dto \<Rightarrow> event_dto \<Rightarrow> bool" where
  "reordered d d' \<longleftrightarrow> same_set (ev_links d) (ev_links d') \<and> same_set (ev_evidence d) (ev_evidence d')
     \<and> same_set (ev_targets d) (ev_targets d')
     \<and> d' = d\<lparr>ev_links := ev_links d', ev_evidence := ev_evidence d', ev_targets := ev_targets d'\<rparr>"

lemma same_set_Some: "same_set (Some xs) w \<longleftrightarrow> (\<exists>ys. w = Some ys \<and> mset ys = mset xs)"
  by (cases w) (auto simp: same_set_def)

lemma opt_set_reordered:
  assumes "opt_set f v = Inr r" and "same_set v w" and "\<And>xs ys zs. f xs = Inr ys \<Longrightarrow> mset zs = mset xs \<Longrightarrow> f zs = Inr ys"
  shows "opt_set f w = Inr r"
proof (cases v)
  case None
  then show ?thesis using assms(1,2) by (cases w) (auto simp: same_set_def)
next
  case (Some xs)
  then obtain ys zs where "f xs = Inr ys" "r = Some ys" "w = Some zs" "mset zs = mset xs"
    using assms(1,2) by (auto simp: same_set_Some opt_set_Inr)
  then show ?thesis using assms(3)[of xs ys zs] by (simp add: opt_set_Inr)
qed

lemma normal_links_reordered:
  assumes "normal_links source ident ls = Inr ms" and "mset ns = mset ls"
  shows "normal_links source ident ns = Inr ms"
  using assms(1) sort_set_perm[OF _ assms(2), of link_json ms] mset_eq_setD[OF assms(2)] mset_eq_length[OF assms(2)]
  by (simp add: normal_links_Inr)

lemma normal_strings_reordered:
  assumes "mset ks = mset ids"
  shows "normal_evidence ids = Inr js \<Longrightarrow> normal_evidence ks = Inr js"
    and "normal_targets ids = Inr js \<Longrightarrow> normal_targets ks = Inr js"
  using sort_set_perm[OF _ assms, of JString js] mset_eq_setD[OF assms] mset_eq_length[OF assms]
  by (auto simp: normal_evidence_Inr normal_targets_Inr)

lemma normal_dto_reordered:
  assumes "normal_dto df d = Inr r" and "reordered d d'"
  shows "normal_dto df d' = Inr r"
proof -
  let ?op = "\<lambda>d. d\<lparr>ev_operation_id := or_default (ev_operation_id d) (ev_id d)\<rparr>"
  obtain ls es ts where d': "d' = d\<lparr>ev_links := ls, ev_evidence := es, ev_targets := ts\<rparr>"
    and s: "same_set (ev_links d) ls" "same_set (ev_evidence d) es" "same_set (ev_targets d) ts"
    using assms(2) unfolding reordered_def by metis
  have src: "source_of d' df = source_of d df" by (simp add: source_of_def d')
  have sets: "normal_sets (source_of d df) (?op d) = Inr d1 \<Longrightarrow> normal_sets (source_of d df) (?op d') = Inr d1" for d1
    unfolding normal_sets_Inr
    by (elim exE conjE, intro exI conjI)
      (auto simp: d' intro: opt_set_reordered[OF _ s(1) normal_links_reordered]
        opt_set_reordered[OF _ s(2) normal_strings_reordered(1)] opt_set_reordered[OF _ s(3) normal_strings_reordered(2)])
  have fields: "check_fields (?op d') = check_fields (?op d)" by (simp add: check_fields_def d')
  have "ident_fields d' = ident_fields d" by (simp add: ident_fields_def d')
  then show ?thesis
    using assms(1) sets unfolding normal_dto_Inr src fields by (auto simp: d')
qed

text \<open>
  C11: normalizing an event gives its canonical form. The canonical ingress bytes of an accepted
  event normalize to the same candidate (same document, same bytes, same hashes and identity), so a
  redelivery of what was retained is recognised; and every other rendering of the event is
  normalized to the same candidate too: any bytes whose document has its links, evidence and
  targets in another order, with whatever white space, member order or escapes.
\<close>

theorem event_normal_form:
  assumes "serde_ok serde" and "decodes_canonical serde" and "arrays_fit serde CANDIDATE_LIMIT"
    and "normalize serde explain sha256 bytes scope df = Inr c"
  shows "normalize serde explain sha256 (cd_ingress c) scope df = Inr c
    \<and> (\<forall>bytes' d d'. decoded serde explain bytes = Inr d \<and> decoded serde explain bytes' = Inr d' \<and> reordered d d'
         \<longrightarrow> normalize serde explain sha256 bytes' scope df = Inr c)"
proof -
  from assms(4) obtain d0 where d0: "decoded serde explain bytes = Inr d0" "normal_dto df d0 = Inr (cd_dto c)"
    and f: "from_value (event_json (cd_dto c)) = Inr (cd_ingress c)" "length (cd_ingress c) \<le> CANDIDATE_LIMIT"
    and rest: "digest sha256 DomIngress (event_json (cd_dto c)) = Inr (cd_ingress_hash c)"
      "identity sha256 DomEvent (event_key scope (cd_source c) (ev_id (cd_dto c))) = Inr (cd_event_id c)"
      "cd_scope c = scope" "cd_source c = source_of (cd_dto c) df"
    unfolding normalize_Inr by blast
  have ok: "dto_ok (cd_dto c)" using normal_dto_ok[OF d0(2) decoded_ok[OF assms(1,3) d0(1)]] .
  have fit: "arrays_fit serde (length (cd_ingress c))"
    using assms(3) f(2) by (auto simp: arrays_fit_def intro: order_trans[rotated])
  have again: "decoded serde explain (cd_ingress c) = Inr (cd_dto c)"
    unfolding decoded_def by (rule event_text_round[OF assms(1,2) fit ok f])
  show ?thesis
  proof (intro conjI allI impI)
    show "normalize serde explain sha256 (cd_ingress c) scope df = Inr c"
      unfolding normalize_Inr using again normal_dto_again[OF d0(2)] f rest by blast
  next
    fix bytes' d d'
    assume "decoded serde explain bytes = Inr d \<and> decoded serde explain bytes' = Inr d' \<and> reordered d d'"
    then have "decoded serde explain bytes' = Inr d'" "normal_dto df d' = Inr (cd_dto c)"
      using d0 normal_dto_reordered[OF d0(2)] by auto
    then show "normalize serde explain sha256 bytes' scope df = Inr c"
      unfolding normalize_Inr using f rest by blast
  qed
qed

section \<open>Identity\<close>

text \<open>Two values of a domain with different hash inputs and the same hash: a collision of SHA-256.\<close>

definition clash :: "(string \<Rightarrow> string) \<Rightarrow> domain \<Rightarrow> json \<Rightarrow> json \<Rightarrow> bool" where
  "clash sha256 d v w \<longleftrightarrow> (\<exists>a b. hash_input d v = Inr a \<and> hash_input d w = Inr b \<and> a \<noteq> b \<and> sha256 a = sha256 b)"

lemma same_hash:
  assumes "good 0 v" and "good 0 w" and "hash_hex sha256 d v = Inr h" and "hash_hex sha256 d w = Inr h"
  shows "v = w \<or> clash sha256 d v w"
proof -
  obtain a where a: "hash_input d v = Inr a" "h = hex (sha256 a)"
    using assms(3) by (auto simp: hash_hex_def)
  obtain b where b: "hash_input d w = Inr b" "h = hex (sha256 b)"
    using assms(4) by (auto simp: hash_hex_def)
  have "sha256 a = sha256 b" using a(2) b(2) hex_inj by simp
  then show ?thesis using hash_input_inj[OF assms(1,2)] a(1) b(1) by (auto simp: clash_def)
qed

lemma same_identity:
  assumes "good 0 v" and "good 0 w" and "identity sha256 d v = Inr i" and "identity sha256 d w = Inr i"
  shows "v = w \<or> clash sha256 d v w"
proof -
  obtain p h where "domain_prefix d = Inr p" "hash_hex sha256 d v = Inr h" "i = p @ ''_'' @ h"
    using assms(3) by (auto simp: identity_def)
  moreover obtain h' where "hash_hex sha256 d w = Inr h'" "i = p @ ''_'' @ h'"
    using assms(4) calculation(1) by (auto simp: identity_def)
  ultimately show ?thesis using same_hash[OF assms(1,2), of sha256 d h] by simp
qed

lemma same_digest:
  assumes "good 0 v" and "good 0 w" and "digest sha256 d v = Inr h" and "digest sha256 d w = Inr h"
  shows "v = w \<or> clash sha256 d v w"
  using assms same_hash[OF assms(1,2), of sha256 d] by (auto simp: digest_def)

definition scope_ok :: "scope \<Rightarrow> bool" where
  "scope_ok s \<longleftrightarrow> str_ok (tenant_id s) \<and> str_ok (environment_id s)"

lemma event_key_good: "scope_ok s \<Longrightarrow> str_ok source \<Longrightarrow> str_ok ident \<Longrightarrow> good 0 (event_key s source ident)"
  by (simp add: event_key_def good_array scope_ok_def)

lemma normalize_parts:
  assumes "serde_ok serde" and "arrays_fit serde CANDIDATE_LIMIT" and "str_ok df"
    and "normalize serde explain sha256 bytes scope df = Inr c"
  shows "dto_ok (cd_dto c)" and "str_ok (cd_source c)" and "str_ok (ev_id (cd_dto c))"
proof -
  obtain d0 where d: "decoded serde explain bytes = Inr d0" "normal_dto df d0 = Inr (cd_dto c)"
    "cd_source c = source_of (cd_dto c) df"
    using assms(4) unfolding normalize_Inr by blast
  show ok: "dto_ok (cd_dto c)" using normal_dto_ok[OF d(2) decoded_ok[OF assms(1,2) d(1)]] .
  then show "str_ok (cd_source c)" "str_ok (ev_id (cd_dto c))"
    using assms(3) d(3) by (auto simp: dto_ok_def source_of_def split: option.splits)
qed

text \<open>
  C12: the identity of an event is its tenant, environment, source and external id, and its ingress
  hash its whole document: two accepted events with the same event id agree on the four, and two
  with the same ingress hash have the same normalized document, unless the hash inputs shown are a
  collision of SHA-256.
\<close>

theorem event_identity:
  assumes "serde_ok serde" and "arrays_fit serde CANDIDATE_LIMIT"
    and "normalize serde explain sha256 bytes scope df = Inr c" and "scope_ok scope" and "str_ok df"
    and "normalize serde explain sha256 bytes' scope' df' = Inr c'" and "scope_ok scope'" and "str_ok df'"
  shows "(cd_event_id c = cd_event_id c' \<longrightarrow>
       scope = scope' \<and> cd_source c = cd_source c' \<and> ev_id (cd_dto c) = ev_id (cd_dto c')
       \<or> clash sha256 DomEvent (event_key scope (cd_source c) (ev_id (cd_dto c)))
           (event_key scope' (cd_source c') (ev_id (cd_dto c'))))
    \<and> (cd_ingress_hash c = cd_ingress_hash c' \<longrightarrow>
       cd_dto c = cd_dto c' \<or> clash sha256 DomIngress (event_json (cd_dto c)) (event_json (cd_dto c')))"
proof (intro conjI impI)
  note p = normalize_parts[OF assms(1,2,5,3)] and p' = normalize_parts[OF assms(1,2,8,6)]
  have i: "identity sha256 DomEvent (event_key scope (cd_source c) (ev_id (cd_dto c))) = Inr (cd_event_id c)"
    "identity sha256 DomEvent (event_key scope' (cd_source c') (ev_id (cd_dto c'))) = Inr (cd_event_id c')"
    "digest sha256 DomIngress (event_json (cd_dto c)) = Inr (cd_ingress_hash c)"
    "digest sha256 DomIngress (event_json (cd_dto c')) = Inr (cd_ingress_hash c')"
    using assms(3,6) unfolding normalize_Inr by blast+
  {
    assume "cd_event_id c = cd_event_id c'"
    then show "scope = scope' \<and> cd_source c = cd_source c' \<and> ev_id (cd_dto c) = ev_id (cd_dto c')
       \<or> clash sha256 DomEvent (event_key scope (cd_source c) (ev_id (cd_dto c)))
           (event_key scope' (cd_source c') (ev_id (cd_dto c')))"
      using same_identity[OF event_key_good[OF assms(4) p(2,3)] event_key_good[OF assms(7) p'(2,3)] i(1)] i(2)
      by (auto simp: event_key_def)
  next
    assume "cd_ingress_hash c = cd_ingress_hash c'"
    then have "event_json (cd_dto c) = event_json (cd_dto c')
        \<or> clash sha256 DomIngress (event_json (cd_dto c)) (event_json (cd_dto c'))"
      using same_digest[OF event_json_good[OF p(1)] event_json_good[OF p'(1)] i(3)] i(4) by simp
    then show "cd_dto c = cd_dto c' \<or> clash sha256 DomIngress (event_json (cd_dto c)) (event_json (cd_dto c'))"
      using event_json_round[OF p(1)] event_json_round[OF p'(1)] by (metis option.inject)
  }
qed

section \<open>A sample event\<close>

definition raw_event :: event_dto where
  "raw_event = \<lparr>ev_schema = ''ledger-event/1'', ev_id = ''e1'', ev_kind = Generated, ev_customer = ''acme'',
     ev_source = None, ev_operation_id = None, ev_chain = None, ev_occurred_at = None, ev_status = None,
     ev_quantity = None, ev_unit = None, ev_binding_id = None, ev_invocation_id = None, ev_claim_id = None,
     ev_links = None, ev_evidence = None, ev_child = None, ev_targets = None, ev_reason = None,
     ev_corrects = None, ev_extensions = []\<rparr>"

definition normal_event :: event_dto where
  "normal_event = raw_event\<lparr>ev_operation_id := Some ''e1'', ev_status := Some Succeeded,
     ev_quantity := Some \<lparr>coefficient = 1, dscale = 0\<rparr>, ev_unit := Some ''call'', ev_links := Some [],
     ev_evidence := Some []\<rparr>"

definition demo_scope :: scope where
  "demo_scope = \<lparr>tenant_id = ''t1'', environment_id = ''sandbox''\<rparr>"

definition raw_bytes :: string where
  "raw_bytes = jtext (event_json raw_event)"

lemma raw_event_ok: "dto_ok raw_event"
  by (auto simp: dto_ok_def raw_event_def extensions_ok_def good_def om_ok_def byte_def intro!: literal_ok)

lemma one_decimal_value: "one_decimal = Inr \<lparr>coefficient = 1, dscale = 0\<rparr>"
  unfolding one_decimal_def
  by (simp add: decimal_parse_def split_dot_def Let_def is_digit_def byte_def trim_end0_def
      trim_start0_def digits_val_def digits_step_def digit_val_def checked_u128_def u128_max_def)

lemma empty_object: "from_value (JObject []) = Inr ''{}''"
  using from_value_small[of "JObject []"] by (simp add: good_def om_ok_def BUNDLE_LIMIT_def)

lemma raw_normalized: "normal_dto ''urn:a'' raw_event = Inr normal_event"
proof -
  have t: "check_text ''e1'' 128 = Inr ()" "check_text ''acme'' 128 = Inr ()"
    by (simp_all add: check_text_def text_ok_ascii byte_def)
  have src: "validate_source ''urn:a'' = Inr ()"
    by (rule source_ok_ascii[where p = "''urn''"])
      (simp_all add: byte_def is_alpha_ascii_def is_lower_ascii_def)
  have x: "check_extensions [] = Inr ()" by (simp add: check_extensions_def empty_object)
  show ?thesis
    unfolding normal_dto_def raw_event_def normal_event_def Let_def
    using t src x
    by (simp add: source_of_def given_def check_fields_def opt_check_def or_default_def normal_sets_def opt_set_def
        normal_kind_def is_work_def normal_work_def one_decimal_value[unfolded One_nat_def] decimal_is_zero_def validate_link_cardinality_def relations_def
        relation_count_def links_of_def relation_required_def)
qed

lemma event_text_bound:
  "text_bound (event_json e) = sum_list (map (\<lambda>(k, v). string_bound k + text_bound v + 2) (event_members e)) + 2"
  unfolding event_json_members by (rule text_bound_jobj[OF event_struct(1)])

lemma raw_small: "text_bound (event_json raw_event) \<le> 1000" "text_bound (event_json normal_event) \<le> 2000"
  unfolding event_text_bound event_members_def raw_event_def normal_event_def
  by (simp_all add: member_def string_bound_def strings_json_def decimal_display_def nat_str.simps)

lemma normal_event_ok: "dto_ok normal_event"
  using normal_dto_ok[OF raw_normalized raw_event_ok] .

lemma raw_from_value:
  "from_value (event_json raw_event) = Inr raw_bytes"
  "from_value (event_json normal_event) = Inr (jtext (event_json normal_event))"
  using from_value_small[OF event_json_good[OF raw_event_ok]] from_value_small[OF event_json_good[OF normal_event_ok]] raw_small
  by (simp_all add: raw_bytes_def BUNDLE_LIMIT_def)

lemma raw_length: "length raw_bytes \<le> 1000" "length (jtext (event_json normal_event)) \<le> 2000"
  using text_bound[OF event_json_good[OF raw_event_ok]] text_bound[OF event_json_good[OF normal_event_ok]] raw_small
  by (simp_all add: raw_bytes_def)

lemma raw_decoded: "decoded model_serde explain raw_bytes = Inr raw_event"
  unfolding decoded_def
  by (rule event_text_round[OF model_serde_ok _ raw_event_ok raw_from_value(1)])
    (use raw_length in \<open>simp_all add: sample_fit CANDIDATE_LIMIT_def\<close>)

lemma demo_scope_ok: "scope_ok demo_scope" "str_ok ''urn:a''"
  by (auto simp: scope_ok_def demo_scope_def byte_def intro!: literal_ok)

lemma hash_hex_small: "good 0 v \<Longrightarrow> text_bound v \<le> BUNDLE_LIMIT \<Longrightarrow> \<exists>h. hash_hex sha256 d v = Inr h"
  by (simp add: hash_hex_def hash_input_def from_value_small)

lemma raw_normalize: "\<exists>c. normalize model_serde explain sha256 raw_bytes demo_scope ''urn:a'' = Inr c \<and> cd_dto c = normal_event"
proof -
  obtain h where "digest sha256 DomIngress (event_json normal_event) = Inr h"
    using hash_hex_small[OF event_json_good[OF normal_event_ok], of sha256 DomIngress] raw_small
    by (auto simp: digest_def BUNDLE_LIMIT_def)
  moreover obtain i where "identity sha256 DomEvent (event_key demo_scope ''urn:a'' (ev_id normal_event)) = Inr i"
  proof -
    have "str_ok (ev_id normal_event)" using normal_event_ok by (simp add: dto_ok_def)
    then have "good 0 (event_key demo_scope ''urn:a'' (ev_id normal_event))"
      by (rule event_key_good[OF demo_scope_ok])
    moreover have "text_bound (event_key demo_scope ''urn:a'' (ev_id normal_event)) \<le> BUNDLE_LIMIT"
      by (simp add: event_key_def demo_scope_def normal_event_def raw_event_def string_bound_def BUNDLE_LIMIT_def)
    ultimately obtain h where "hash_hex sha256 DomEvent (event_key demo_scope ''urn:a'' (ev_id normal_event)) = Inr h"
      using hash_hex_small by blast
    then show thesis using that by (simp add: identity_def)
  qed
  moreover have "source_of normal_event ''urn:a'' = ''urn:a''" by (simp add: source_of_def normal_event_def raw_event_def)
  ultimately show ?thesis
    using raw_decoded[of explain] raw_normalized raw_from_value(2) raw_length(2)
    unfolding normalize_Inr
    by (intro exI[of _ "\<lparr>cd_scope = demo_scope, cd_source = ''urn:a'', cd_dto = normal_event,
       cd_ingress = jtext (event_json normal_event), cd_ingress_hash = h, cd_event_id = i\<rparr>"])
      (simp add: CANDIDATE_LIMIT_def)
qed

lemma same_set_refl: "same_set v v" by (simp add: same_set_def)

theorem event_normal_form_witness:
  "\<exists>c. normalize model_serde (\<lambda>_. []) rev raw_bytes demo_scope ''urn:a'' = Inr c \<and> cd_dto c = normal_event
     \<and> normalize model_serde (\<lambda>_. []) rev (cd_ingress c) demo_scope ''urn:a'' = Inr c"
proof -
  obtain c where c: "normalize model_serde (\<lambda>_. []) rev raw_bytes demo_scope ''urn:a'' = Inr c" "cd_dto c = normal_event"
    using raw_normalize by blast
  have fit: "arrays_fit model_serde CANDIDATE_LIMIT" by (rule sample_fit) (simp add: CANDIDATE_LIMIT_def)
  from event_normal_form[OF model_serde_ok fit c(1)] c show ?thesis by blast
qed

theorem event_identity_witness:
  "\<exists>c. normalize model_serde (\<lambda>_. []) rev raw_bytes demo_scope ''urn:a'' = Inr c
     \<and> (demo_scope = demo_scope \<and> cd_source c = cd_source c \<and> ev_id (cd_dto c) = ev_id (cd_dto c)
       \<or> clash rev DomEvent (event_key demo_scope (cd_source c) (ev_id (cd_dto c)))
           (event_key demo_scope (cd_source c) (ev_id (cd_dto c))))"
proof -
  obtain c where c: "normalize model_serde (\<lambda>_. []) rev raw_bytes demo_scope ''urn:a'' = Inr c"
    using raw_normalize by blast
  have fit: "arrays_fit model_serde CANDIDATE_LIMIT" by (rule sample_fit) (simp add: CANDIDATE_LIMIT_def)
  from event_identity[OF model_serde_ok(1) fit c demo_scope_ok c demo_scope_ok] c show ?thesis by blast
qed

end
