(* ===== verification/Documents.thy ===== *)
theory Documents
  imports Event Policy
begin

text \<open>
  The six input documents of a decision (\<^verbatim>\<open>domain/records.rs\<close>): policy, roles, assent, source
  grant, chain context and binding, each decoded by its derived decoder, checked and normalized,
  and identified by the hash of its normalized body.
\<close>

section \<open>Types\<close>

record roles =
  ro_provider :: string
  ro_cost_originator :: string
  ro_bearer :: string
  ro_payer :: string
  ro_beneficiary :: string
  ro_recipient :: string
  ro_payer_delegation :: "string option"

record chain_context =
  cx_schema :: string
  cx_tier :: "string option"
  cx_priority :: "bool option"
  cx_funding :: string
  cx_currency :: string
  cx_scale :: nat
  cx_binding_ids :: "string list"

record assent =
  as_schema :: string
  as_mode :: string
  as_agreement_id :: string
  as_terms_version :: revision
  as_acceptor :: string
  as_bearer :: string
  as_payer :: string
  as_recipient :: string
  as_accepted_at :: timestamp
  as_evidence_ref :: string
  as_evidence_digest :: string

record source_grant =
  gr_schema :: string
  gr_id :: string
  gr_principal_id :: string
  gr_source :: string
  gr_event_types :: "event_kind list"
  gr_relations :: "relation list"
  gr_permissions :: "string list"
  gr_starts_at :: timestamp
  gr_ends_at :: "timestamp option"

record binding =
  bi_schema :: string
  bi_id :: string
  bi_agreement_id :: string
  bi_version :: nat
  bi_policy :: string
  bi_roles :: string
  bi_assent :: string
  bi_context :: string
  bi_acceptor :: string
  bi_accepted_at :: timestamp
  bi_starts_at :: timestamp
  bi_ends_at :: "timestamp option"
  bi_service :: string
  bi_customer :: string
  bi_sources :: "string list"
  bi_event_types :: "event_kind list"
  bi_unit :: string
  bi_maximum_quantity :: decimal
  bi_correction_sources :: "string list"
  bi_allocation_view :: bool

datatype document_data =
    PolicyData compiled_policy | RolesData roles | AssentData assent | GrantData source_grant
  | ContextData chain_context | BindingData binding

record document =
  doc_id :: string
  doc_kind :: string
  doc_purpose :: string
  doc_body :: json
  doc_bytes :: string
  doc_content_hash :: string
  doc_data :: document_data

section \<open>Decoding and encoding\<close>

definition json_revision :: "json \<Rightarrow> revision option" where
  "json_revision v = obind (json_string v) (\<lambda>s. of_result (revision_parse s))"

definition revision_json :: "revision \<Rightarrow> json" where
  "revision_json r = JString (revision_text r)"

definition timestamp_json :: "timestamp \<Rightarrow> json" where
  "timestamp_json t = JString (timestamp_text t)"

definition roles_fields :: "string list" where
  "roles_fields = [''provider'', ''cost_originator'', ''bearer'', ''payer'', ''beneficiary'',
     ''recipient'', ''payer_delegation'']"

definition roles_decode :: "json \<Rightarrow> roles option" where
  "roles_decode v =
     obind (struct_fields roles_fields v) (\<lambda>f.
     obind (field json_string (f ''provider'')) (\<lambda>provider.
     obind (field json_string (f ''cost_originator'')) (\<lambda>originator.
     obind (field json_string (f ''bearer'')) (\<lambda>bearer.
     obind (field json_string (f ''payer'')) (\<lambda>payer.
     obind (field json_string (f ''beneficiary'')) (\<lambda>beneficiary.
     obind (field json_string (f ''recipient'')) (\<lambda>recipient.
     obind (optional_field json_string (f ''payer_delegation'')) (\<lambda>delegation.
     Some \<lparr>ro_provider = provider, ro_cost_originator = originator, ro_bearer = bearer, ro_payer = payer,
        ro_beneficiary = beneficiary, ro_recipient = recipient, ro_payer_delegation = delegation\<rparr>))))))))"

definition roles_json :: "roles \<Rightarrow> json" where
  "roles_json r = jobj (
     [(''provider'', JString (ro_provider r)), (''cost_originator'', JString (ro_cost_originator r)),
      (''bearer'', JString (ro_bearer r)), (''payer'', JString (ro_payer r)),
      (''beneficiary'', JString (ro_beneficiary r)), (''recipient'', JString (ro_recipient r))]
     @ member ''payer_delegation'' JString (ro_payer_delegation r))"

definition context_fields :: "string list" where
  "context_fields = [''schema'', ''tier'', ''priority'', ''funding'', ''currency'', ''scale'', ''binding_ids'']"

definition context_decode :: "json \<Rightarrow> chain_context option" where
  "context_decode v =
     obind (struct_fields context_fields v) (\<lambda>f.
     obind (field json_string (f ''schema'')) (\<lambda>schema.
     obind (optional_field json_string (f ''tier'')) (\<lambda>tier.
     obind (optional_field json_bool (f ''priority'')) (\<lambda>priority.
     obind (field json_string (f ''funding'')) (\<lambda>funding.
     obind (field json_string (f ''currency'')) (\<lambda>cur.
     obind (field (json_unsigned 255) (f ''scale'')) (\<lambda>scale.
     obind (field json_strings (f ''binding_ids'')) (\<lambda>bindings.
     Some \<lparr>cx_schema = schema, cx_tier = tier, cx_priority = priority, cx_funding = funding,
        cx_currency = cur, cx_scale = scale, cx_binding_ids = bindings\<rparr>))))))))"

definition context_json :: "chain_context \<Rightarrow> json" where
  "context_json c = jobj (
     [(''schema'', JString (cx_schema c))]
     @ member ''tier'' JString (cx_tier c) @ member ''priority'' JBool (cx_priority c)
     @ [(''funding'', JString (cx_funding c)), (''currency'', JString (cx_currency c)),
        (''scale'', JInt (int (cx_scale c))), (''binding_ids'', strings_json (cx_binding_ids c))])"

definition assent_fields :: "string list" where
  "assent_fields = [''schema'', ''mode'', ''agreement_id'', ''terms_version'', ''acceptor'', ''bearer'',
     ''payer'', ''recipient'', ''accepted_at'', ''evidence_ref'', ''evidence_digest'']"

definition assent_decode :: "json \<Rightarrow> assent option" where
  "assent_decode v =
     obind (struct_fields assent_fields v) (\<lambda>f.
     obind (field json_string (f ''schema'')) (\<lambda>schema.
     obind (field json_string (f ''mode'')) (\<lambda>mode.
     obind (field json_string (f ''agreement_id'')) (\<lambda>agreement.
     obind (field json_revision (f ''terms_version'')) (\<lambda>version.
     obind (field json_string (f ''acceptor'')) (\<lambda>acceptor.
     obind (field json_string (f ''bearer'')) (\<lambda>bearer.
     obind (field json_string (f ''payer'')) (\<lambda>payer.
     obind (field json_string (f ''recipient'')) (\<lambda>recipient.
     obind (field json_timestamp (f ''accepted_at'')) (\<lambda>accepted.
     obind (field json_string (f ''evidence_ref'')) (\<lambda>evidence.
     obind (field json_string (f ''evidence_digest'')) (\<lambda>digest.
     Some \<lparr>as_schema = schema, as_mode = mode, as_agreement_id = agreement, as_terms_version = version,
        as_acceptor = acceptor, as_bearer = bearer, as_payer = payer, as_recipient = recipient,
        as_accepted_at = accepted, as_evidence_ref = evidence, as_evidence_digest = digest\<rparr>))))))))))))"

definition assent_json :: "assent \<Rightarrow> json" where
  "assent_json a = jobj
     [(''schema'', JString (as_schema a)), (''mode'', JString (as_mode a)),
      (''agreement_id'', JString (as_agreement_id a)), (''terms_version'', revision_json (as_terms_version a)),
      (''acceptor'', JString (as_acceptor a)), (''bearer'', JString (as_bearer a)),
      (''payer'', JString (as_payer a)), (''recipient'', JString (as_recipient a)),
      (''accepted_at'', timestamp_json (as_accepted_at a)), (''evidence_ref'', JString (as_evidence_ref a)),
      (''evidence_digest'', JString (as_evidence_digest a))]"

definition grant_fields :: "string list" where
  "grant_fields = [''schema'', ''id'', ''principal_id'', ''source'', ''event_types'', ''relations'',
     ''permissions'', ''starts_at'', ''ends_at'']"

definition grant_decode :: "json \<Rightarrow> source_grant option" where
  "grant_decode v =
     obind (struct_fields grant_fields v) (\<lambda>f.
     obind (field json_string (f ''schema'')) (\<lambda>schema.
     obind (field json_string (f ''id'')) (\<lambda>ident.
     obind (field json_string (f ''principal_id'')) (\<lambda>principal.
     obind (field json_string (f ''source'')) (\<lambda>source.
     obind (field (json_list json_kind) (f ''event_types'')) (\<lambda>types.
     obind (field (json_list json_relation) (f ''relations'')) (\<lambda>rels.
     obind (field json_strings (f ''permissions'')) (\<lambda>permissions.
     obind (field json_timestamp (f ''starts_at'')) (\<lambda>starts.
     obind (optional_field json_timestamp (f ''ends_at'')) (\<lambda>ends.
     Some \<lparr>gr_schema = schema, gr_id = ident, gr_principal_id = principal, gr_source = source,
        gr_event_types = types, gr_relations = rels, gr_permissions = permissions,
        gr_starts_at = starts, gr_ends_at = ends\<rparr>))))))))))"

definition kind_json :: "event_kind \<Rightarrow> json" where "kind_json k = JString (kind_name k)"

definition relation_json :: "relation \<Rightarrow> json" where "relation_json r = JString (relation_name r)"

definition grant_json :: "source_grant \<Rightarrow> json" where
  "grant_json g = jobj (
     [(''schema'', JString (gr_schema g)), (''id'', JString (gr_id g)),
      (''principal_id'', JString (gr_principal_id g)), (''source'', JString (gr_source g)),
      (''event_types'', JArray (map kind_json (gr_event_types g))),
      (''relations'', JArray (map relation_json (gr_relations g))),
      (''permissions'', strings_json (gr_permissions g)), (''starts_at'', timestamp_json (gr_starts_at g))]
     @ member ''ends_at'' timestamp_json (gr_ends_at g))"

definition binding_fields :: "string list" where
  "binding_fields = [''schema'', ''id'', ''agreement_id'', ''version'', ''policy'', ''roles'', ''assent'',
     ''context'', ''acceptor'', ''accepted_at'', ''starts_at'', ''ends_at'', ''service'', ''customer'',
     ''sources'', ''event_types'', ''unit'', ''maximum_quantity'', ''correction_sources'', ''allocation_view'']"

definition binding_decode :: "json \<Rightarrow> binding option" where
  "binding_decode v =
     obind (struct_fields binding_fields v) (\<lambda>f.
     obind (field json_string (f ''schema'')) (\<lambda>schema.
     obind (field json_string (f ''id'')) (\<lambda>ident.
     obind (field json_string (f ''agreement_id'')) (\<lambda>agreement.
     obind (field (json_unsigned 4294967295) (f ''version'')) (\<lambda>version.
     obind (field json_string (f ''policy'')) (\<lambda>policy.
     obind (field json_string (f ''roles'')) (\<lambda>roles.
     obind (field json_string (f ''assent'')) (\<lambda>assent.
     obind (field json_string (f ''context'')) (\<lambda>chain.
     obind (field json_string (f ''acceptor'')) (\<lambda>acceptor.
     obind (field json_timestamp (f ''accepted_at'')) (\<lambda>accepted.
     obind (field json_timestamp (f ''starts_at'')) (\<lambda>starts.
     obind (optional_field json_timestamp (f ''ends_at'')) (\<lambda>ends.
     obind (field json_string (f ''service'')) (\<lambda>service.
     obind (field json_string (f ''customer'')) (\<lambda>customer.
     obind (field json_strings (f ''sources'')) (\<lambda>sources.
     obind (field (json_list json_kind) (f ''event_types'')) (\<lambda>types.
     obind (field json_string (f ''unit'')) (\<lambda>unit_name.
     obind (field json_decimal (f ''maximum_quantity'')) (\<lambda>maximum.
     obind (field json_strings (f ''correction_sources'')) (\<lambda>corrections.
     obind (field json_bool (f ''allocation_view'')) (\<lambda>allocation.
     Some \<lparr>bi_schema = schema, bi_id = ident, bi_agreement_id = agreement, bi_version = version,
        bi_policy = policy, bi_roles = roles, bi_assent = assent, bi_context = chain,
        bi_acceptor = acceptor, bi_accepted_at = accepted, bi_starts_at = starts, bi_ends_at = ends,
        bi_service = service, bi_customer = customer, bi_sources = sources, bi_event_types = types,
        bi_unit = unit_name, bi_maximum_quantity = maximum, bi_correction_sources = corrections,
        bi_allocation_view = allocation\<rparr>)))))))))))))))))))))"

definition binding_json :: "binding \<Rightarrow> json" where
  "binding_json b = jobj (
     [(''schema'', JString (bi_schema b)), (''id'', JString (bi_id b)),
      (''agreement_id'', JString (bi_agreement_id b)), (''version'', JInt (int (bi_version b))),
      (''policy'', JString (bi_policy b)), (''roles'', JString (bi_roles b)),
      (''assent'', JString (bi_assent b)), (''context'', JString (bi_context b)),
      (''acceptor'', JString (bi_acceptor b)), (''accepted_at'', timestamp_json (bi_accepted_at b)),
      (''starts_at'', timestamp_json (bi_starts_at b))]
     @ member ''ends_at'' timestamp_json (bi_ends_at b)
     @ [(''service'', JString (bi_service b)), (''customer'', JString (bi_customer b)),
        (''sources'', strings_json (bi_sources b)), (''event_types'', JArray (map kind_json (bi_event_types b))),
        (''unit'', JString (bi_unit b)), (''maximum_quantity'', JString (decimal_display (bi_maximum_quantity b))),
        (''correction_sources'', strings_json (bi_correction_sources b)),
        (''allocation_view'', JBool (bi_allocation_view b))])"

section \<open>Parsing\<close>

definition bounded_set :: "('a \<Rightarrow> json) \<Rightarrow> 'a list \<Rightarrow> nat \<Rightarrow> nat \<Rightarrow> 'a list result" where
  "bounded_set enc v least largest =
     (if length v < least \<or> length v > largest then Inl (Error ''LIMIT'' ''document collection'')
      else sort_set enc v)"

definition interval :: "timestamp \<Rightarrow> timestamp option \<Rightarrow> unit result" where
  "interval start finish =
     ensure (case finish of None \<Rightarrow> True | Some t \<Rightarrow> ts_micros start < ts_micros t)
       (Error ''TIMESTAMP'' ''empty validity interval'')"

definition current :: "timestamp \<Rightarrow> timestamp option \<Rightarrow> timestamp \<Rightarrow> bool" where
  "current start finish now \<longleftrightarrow> ts_micros start \<le> ts_micros now
     \<and> (case finish of None \<Rightarrow> True | Some t \<Rightarrow> ts_micros now < ts_micros t)"

definition roles_validate :: "roles \<Rightarrow> unit result" where
  "roles_validate r =
     rbind (rfold (\<lambda>s _. check_text s 128) [ro_provider r, ro_cost_originator r, ro_bearer r, ro_payer r,
        ro_beneficiary r, ro_recipient r] ()) (\<lambda>_.
     opt_check (\<lambda>s. prefixed s ''doc_'') (ro_payer_delegation r))"

text \<open>The six parties come as an array of that length.\<close>

definition roles_new ::
    "string \<times> string \<times> string \<times> string \<times> string \<times> string \<Rightarrow> string option \<Rightarrow> roles result" where
  "roles_new parties delegation =
     (case parties of (provider, originator, bearer, payer, beneficiary, recipient) \<Rightarrow>
       let r = \<lparr>ro_provider = provider, ro_cost_originator = originator, ro_bearer = bearer,
         ro_payer = payer, ro_beneficiary = beneficiary, ro_recipient = recipient, ro_payer_delegation = delegation\<rparr>
       in rbind (roles_validate r) (\<lambda>_. Inr r))"

text \<open>One branch per schema; each returns the data and the normalized body.\<close>

definition om_remove :: "string \<Rightarrow> (string, json) omap \<Rightarrow> (string, json) omap" where
  "om_remove k m = filter (\<lambda>(k', _). k' \<noteq> k) m"

definition parse_roles :: "(json \<Rightarrow> string) \<Rightarrow> string \<Rightarrow> json \<Rightarrow> (document_data \<times> json) result" where
  "parse_roles explain schema v =
     (case v of
        JObject m \<Rightarrow>
          let m = om_remove ''schema'' m in
          rbind (dto explain roles_decode (JObject m)) (\<lambda>r.
          rbind (roles_validate r) (\<lambda>_.
          Inr (RolesData r, JObject (om_insert ''schema'' (JString schema) m))))
      | _ \<Rightarrow> Inl (Error ''SCHEMA'' ''roles object''))"

definition parse_assent :: "(json \<Rightarrow> string) \<Rightarrow> json \<Rightarrow> (document_data \<times> json) result" where
  "parse_assent explain v =
     rbind (dto explain assent_decode v) (\<lambda>a.
     rbind (rfold (\<lambda>s _. check_text s 128)
       [as_agreement_id a, as_acceptor a, as_bearer a, as_payer a, as_recipient a] ()) (\<lambda>_.
     rbind (check_text (as_evidence_ref a) 256) (\<lambda>_.
     rbind (prefixed (as_evidence_digest a) ''sha256:'') (\<lambda>_.
     rbind (ensure (as_mode a \<in> {''demo'', ''real''}) (Error ''SCHEMA'' ''assent mode'')) (\<lambda>_.
     Inr (AssentData a, assent_json a))))))"

definition permission_names :: "string list" where
  "permission_names = [''submit'', ''read'', ''preview'', ''authorize_invocation'', ''terms_admin'',
     ''source_admin'', ''operate'']"

definition parse_grant :: "(json \<Rightarrow> string) \<Rightarrow> json \<Rightarrow> (document_data \<times> json) result" where
  "parse_grant explain v =
     rbind (dto explain grant_decode v) (\<lambda>g.
     rbind (check_text (gr_id g) 128) (\<lambda>_.
     rbind (check_text (gr_principal_id g) 128) (\<lambda>_.
     rbind (validate_source (gr_source g)) (\<lambda>_.
     rbind (bounded_set kind_json (gr_event_types g) 1 7) (\<lambda>types.
     rbind (bounded_set relation_json (gr_relations g) 0 5) (\<lambda>rels.
     rbind (bounded_set JString (gr_permissions g) 1 7) (\<lambda>permissions.
     rbind (ensure (list_all (\<lambda>s. s \<in> set permission_names) permissions) (Error ''SCHEMA'' ''grant permission'')) (\<lambda>_.
     rbind (interval (gr_starts_at g) (gr_ends_at g)) (\<lambda>_.
     let g = g\<lparr>gr_event_types := types, gr_relations := rels, gr_permissions := permissions\<rparr> in
     Inr (GrantData g, grant_json g))))))))))"

definition parse_context :: "(json \<Rightarrow> string) \<Rightarrow> json \<Rightarrow> (document_data \<times> json) result" where
  "parse_context explain v =
     rbind (dto explain context_decode v) (\<lambda>c.
     rbind (validate_currency (cx_currency c) (cx_scale c)) (\<lambda>_.
     rbind (ensure (cx_funding c \<in> {''byok'', ''platform''}) (Error ''SCHEMA'' ''funding'')) (\<lambda>_.
     rbind (opt_check slug (cx_tier c)) (\<lambda>_.
     rbind (rfold (\<lambda>s _. check_text s 128) (cx_binding_ids c) ()) (\<lambda>_.
     rbind (bounded_set JString (cx_binding_ids c) 1 16) (\<lambda>bindings.
     let c = c\<lparr>cx_binding_ids := bindings\<rparr> in
     Inr (ContextData c, context_json c)))))))"

definition parse_binding :: "(json \<Rightarrow> string) \<Rightarrow> json \<Rightarrow> (document_data \<times> json) result" where
  "parse_binding explain v =
     rbind (dto explain binding_decode v) (\<lambda>b.
     rbind (rfold (\<lambda>s _. check_text s 128) [bi_id b, bi_agreement_id b, bi_acceptor b, bi_customer b] ()) (\<lambda>_.
     rbind (rfold (\<lambda>s _. prefixed s ''doc_'') [bi_policy b, bi_roles b, bi_assent b, bi_context b] ()) (\<lambda>_.
     rbind (slug (bi_service b)) (\<lambda>_.
     rbind (slug (bi_unit b)) (\<lambda>_.
     rbind (rfold (\<lambda>s _. validate_source s) (bi_sources b @ bi_correction_sources b) ()) (\<lambda>_.
     rbind (bounded_set JString (bi_sources b) 1 32) (\<lambda>sources.
     rbind (bounded_set JString (bi_correction_sources b) 0 32) (\<lambda>corrections.
     rbind (bounded_set kind_json (bi_event_types b) 1 7) (\<lambda>types.
     rbind (ensure (bi_version b \<noteq> 0) (Error ''SCHEMA'' ''binding version'')) (\<lambda>_.
     rbind (interval (bi_starts_at b) (bi_ends_at b)) (\<lambda>_.
     let b = b\<lparr>bi_sources := sources, bi_correction_sources := corrections, bi_event_types := types\<rparr> in
     Inr (BindingData b, binding_json b))))))))))))"

definition parse_policy :: "(json \<Rightarrow> string) \<Rightarrow> json \<Rightarrow> (document_data \<times> json) result" where
  "parse_policy explain v = rbind (policy_from_value explain v) (\<lambda>p. Inr (PolicyData p, cp_body p))"

text \<open>The document's type and purpose, its data and body.\<close>

definition document_family ::
    "(json \<Rightarrow> string) \<Rightarrow> string \<Rightarrow> json \<Rightarrow> (string \<times> string \<times> document_data \<times> json) result" where
  "document_family explain schema v =
     (if schema = ''ledger-policy/1''
      then rbind (parse_policy explain v) (\<lambda>r. Inr (''policy'', ''policy'', r))
      else if schema = ''ledger-roles/1''
      then rbind (parse_roles explain schema v) (\<lambda>r. Inr (''roles'', ''roles'', r))
      else if schema = ''ledger-assent/1''
      then rbind (parse_assent explain v) (\<lambda>r. Inr (''assent'', ''assent'', r))
      else if schema = ''ledger-source-grant/1''
      then rbind (parse_grant explain v) (\<lambda>r. Inr (''source-grant'', ''source_grant'', r))
      else if schema = ''ledger-context/1''
      then rbind (parse_context explain v) (\<lambda>r. Inr (''context'', ''chain_context'', r))
      else if schema = ''ledger-binding/1''
      then rbind (parse_binding explain v) (\<lambda>r. Inr (''binding'', ''binding'', r))
      else Inl (Error ''UNSUPPORTED_SLICE'' ''document family not in first slice''))"

definition document_parse ::
    "pinned \<Rightarrow> (json \<Rightarrow> string) \<Rightarrow> (string \<Rightarrow> string) \<Rightarrow> string \<Rightarrow> document result" where
  "document_parse serde explain sha256 bytes =
     rbind (parse serde bytes) (\<lambda>v.
     rbind (no_null v) (\<lambda>_.
     rbind (ok_or (obind (jlookup v ''schema'') json_string) (Error ''SCHEMA'' ''document discriminator'')) (\<lambda>schema.
     rbind (document_family explain schema v) (\<lambda>(kind, purpose, data, body).
     rbind (from_value body) (\<lambda>canon.
     rbind (ensure (length canon \<le> CANDIDATE_LIMIT) (Error ''LIMIT'' ''document bytes'')) (\<lambda>_.
     let tuple = JArray [JString kind, JInt 1, body] in
     rbind (identity sha256 DomDocument tuple) (\<lambda>ident.
     rbind (digest sha256 DomDocument tuple) (\<lambda>hash.
     Inr \<lparr>doc_id = ident, doc_kind = kind, doc_purpose = purpose, doc_body = body, doc_bytes = canon,
       doc_content_hash = hash, doc_data = data\<rparr>))))))))"

end
