(* ===== verification/Records.thy ===== *)
theory Records
  imports Documents
begin

text \<open>
  Decisions (\<^verbatim>\<open>domain/records.rs\<close>): the validation of a resolved input, the assembly of the actions,
  explanations, intentions and journal records of a decision from the steps of its policy, and
  the verification of a journal by assembling it again.
\<close>

section \<open>Resolved inputs\<close>

record acceptance_context =
  ac_principal_id :: string
  ac_grant_revision :: revision
  ac_grant_active :: bool
  ac_binding_active :: bool
  ac_chain_revision :: revision
  ac_chain_event_count :: revision
  ac_received_at :: timestamp

record resolved_input =
  ri_event :: event
  ri_documents :: "document list"
  ri_context :: acceptance_context

definition document_for :: "document list \<Rightarrow> string \<Rightarrow> document result" where
  "document_for docs purpose = ok_or (find (\<lambda>d. doc_purpose d = purpose) docs) Panic"

text \<open>The data of the six documents, each by its \<open>let ... else unreachable!\<close>.\<close>

record family =
  fa_policy :: compiled_policy
  fa_roles :: roles
  fa_assent :: assent
  fa_grant :: source_grant
  fa_chain :: chain_context
  fa_binding :: binding

definition data_for :: "document list \<Rightarrow> string \<Rightarrow> (document_data \<Rightarrow> 'a option) \<Rightarrow> 'a result" where
  "data_for docs purpose pick = rbind (document_for docs purpose) (\<lambda>d. ok_or (pick (doc_data d)) Panic)"

definition family_of :: "document list \<Rightarrow> family result" where
  "family_of docs =
     rbind (data_for docs ''policy'' (\<lambda>x. case x of PolicyData p \<Rightarrow> Some p | _ \<Rightarrow> None)) (\<lambda>p.
     rbind (data_for docs ''roles'' (\<lambda>x. case x of RolesData r \<Rightarrow> Some r | _ \<Rightarrow> None)) (\<lambda>r.
     rbind (data_for docs ''assent'' (\<lambda>x. case x of AssentData a \<Rightarrow> Some a | _ \<Rightarrow> None)) (\<lambda>a.
     rbind (data_for docs ''source_grant'' (\<lambda>x. case x of GrantData g \<Rightarrow> Some g | _ \<Rightarrow> None)) (\<lambda>g.
     rbind (data_for docs ''chain_context'' (\<lambda>x. case x of ContextData c \<Rightarrow> Some c | _ \<Rightarrow> None)) (\<lambda>c.
     rbind (data_for docs ''binding'' (\<lambda>x. case x of BindingData b \<Rightarrow> Some b | _ \<Rightarrow> None)) (\<lambda>b.
     Inr \<lparr>fa_policy = p, fa_roles = r, fa_assent = a, fa_grant = g, fa_chain = c, fa_binding = b\<rparr>))))))"

definition check_documents :: "document list \<Rightarrow> unit result" where
  "check_documents docs =
     (if length docs \<noteq> 6 then Inl (Error ''UNRESOLVED_INPUT'' ''six input documents required'')
      else rbind (rfold (\<lambda>d (purposes, bytes).
          if doc_purpose d \<in> purposes then Inl (Error ''DUPLICATE'' ''document purpose'')
          else Inr (insert (doc_purpose d) purposes, bytes + length (doc_bytes d))) docs ({}, 0))
        (\<lambda>(_, bytes). ensure (bytes \<le> 8 * 1024 * 1024) (Error ''LIMIT'' ''resolved bytes'')))"

definition unsupported_event :: "event_dto \<Rightarrow> bool" where
  "unsupported_event d \<longleftrightarrow> ev_kind d \<noteq> Generated \<or> \<not> empty_or_none (ev_links d)
     \<or> \<not> empty_or_none (ev_evidence d) \<or> ev_invocation_id d \<noteq> None \<or> ev_corrects d \<noteq> None"

definition authorized :: "family \<Rightarrow> event \<Rightarrow> acceptance_context \<Rightarrow> bool" where
  "authorized f e x \<longleftrightarrow> ac_grant_active x \<and> ac_binding_active x \<and> revision_value (ac_grant_revision x) \<noteq> 0
     \<and> gr_principal_id (fa_grant f) = ac_principal_id x \<and> gr_source (fa_grant f) = event_source e
     \<and> ev_kind (e_dto e) \<in> set (gr_event_types (fa_grant f))
     \<and> list_all (\<lambda>p. p \<in> set (gr_permissions (fa_grant f))) [''submit'', ''read'']
     \<and> current (gr_starts_at (fa_grant f)) (gr_ends_at (fa_grant f)) (ac_received_at x)"

definition binding_covers :: "binding \<Rightarrow> event \<Rightarrow> acceptance_context \<Rightarrow> bool" where
  "binding_covers b e x \<longleftrightarrow> event_source e \<in> set (bi_sources b) \<and> ev_kind (e_dto e) \<in> set (bi_event_types b)
     \<and> bi_customer b = ev_customer (e_dto e) \<and> bi_service b = ''generation''
     \<and> (case ev_binding_id (e_dto e) of None \<Rightarrow> True | Some i \<Rightarrow> i = bi_id b)
     \<and> current (bi_starts_at b) (bi_ends_at b) (ac_received_at x)
     \<and> ts_micros (bi_accepted_at b) \<le> ts_micros (ac_received_at x)"

definition assent_agrees :: "family \<Rightarrow> bool" where
  "assent_agrees f \<longleftrightarrow>
     (let r = fa_roles f; a = fa_assent f; b = fa_binding f in
      ro_payer_delegation r = None \<and> ro_bearer r = ro_payer r \<and> ro_bearer r = bi_customer b
      \<and> as_agreement_id a = bi_agreement_id b \<and> revision_value (as_terms_version a) = bi_version b
      \<and> as_acceptor a = bi_acceptor b \<and> as_accepted_at a = bi_accepted_at b
      \<and> as_bearer a = ro_bearer r \<and> as_payer a = ro_payer r \<and> as_recipient a = ro_recipient r)"

definition check_references :: "document list \<Rightarrow> binding \<Rightarrow> unit result" where
  "check_references docs b =
     rfold (\<lambda>(actual, purpose) _. rbind (document_for docs purpose) (\<lambda>d.
         ensure (actual = doc_id d) (Error ''DOCUMENT_MISMATCH'' ''binding document reference'')))
       [(bi_policy b, ''policy''), (bi_roles b, ''roles''), (bi_assent b, ''assent''),
        (bi_context b, ''chain_context'')] ()"

definition check_quantity :: "binding \<Rightarrow> event_dto \<Rightarrow> unit result" where
  "check_quantity b d =
     rbind (ok_or (ev_quantity d) Panic) (\<lambda>q.
     rbind (ratio_add (decimal_ratio q) (negated (decimal_ratio (bi_maximum_quantity b)))) (\<lambda>excess.
     ensure (\<not> is_positive excess) (Error ''QUANTITY'' ''binding maximum'')))"

definition check_terms :: "resolved_input \<Rightarrow> family \<Rightarrow> unit result" where
  "check_terms input f =
     (let e = ri_event input; x = ri_context input; b = fa_binding f in
      rbind (check_references (ri_documents input) b) (\<lambda>_.
      rbind (ensure (cx_binding_ids (fa_chain f) = [bi_id b] \<and> \<not> bi_allocation_view b)
        (Error ''UNSUPPORTED_SLICE'' ''one retail binding without allocation view'')) (\<lambda>_.
      rbind (ensure (cx_currency (fa_chain f) = cp_currency (fa_policy f) \<and> cx_scale (fa_chain f) = cp_scale (fa_policy f))
        (Error ''CURRENCY_MISMATCH'' ''context/policy'')) (\<lambda>_.
      rbind (ensure (authorized f e x) (Error ''SOURCE_UNAUTHORIZED'' ''resolved active grant'')) (\<lambda>_.
      rbind (ensure (binding_covers b e x) (Error ''TERMS_NOT_ACCEPTED'' ''binding scope/validity'')) (\<lambda>_.
      rbind (ensure (ev_unit (e_dto e) = Some (bi_unit b)) (Error ''UNIT_MISMATCH'' ''binding unit'')) (\<lambda>_.
      rbind (check_quantity b (e_dto e)) (\<lambda>_.
      rbind (ensure (as_mode (fa_assent f) = ''demo'' \<and> environment_id (event_scope e) = ''sandbox'')
        (Error ''UNSUPPORTED_SLICE'' ''Phase 1 requires explicit sandbox demo assent'')) (\<lambda>_.
      ensure (assent_agrees f) (Error ''TERMS_NOT_ACCEPTED'' ''assent/roles agreement''))))))))))"

definition validate :: "resolved_input \<Rightarrow> unit result" where
  "validate input =
     rbind (check_documents (ri_documents input)) (\<lambda>_.
     rbind (ensure (\<not> unsupported_event (e_dto (ri_event input))) (Error ''UNSUPPORTED_SLICE''
       ''only unlinked generated completion without invocation/correction/evidence'')) (\<lambda>_.
     rbind (family_of (ri_documents input)) (\<lambda>f.
     rbind (check_terms input f) (\<lambda>_.
     rbind (ensure (revision_value (ac_chain_event_count (ri_context input)) < 1000) (Error ''LIMIT'' ''chain events'')) (\<lambda>_.
     rbind (revision_next (ac_chain_revision (ri_context input))) (\<lambda>_.
     rbind (revision_next (ac_chain_event_count (ri_context input))) (\<lambda>_. Inr ())))))))"

definition resolved_new :: "event \<Rightarrow> document list \<Rightarrow> acceptance_context \<Rightarrow> resolved_input result" where
  "resolved_new e docs x =
     (let input = \<lparr>ri_event = e, ri_documents = docs, ri_context = x\<rparr> in
      rbind (validate input) (\<lambda>_. Inr input))"

section \<open>Outputs\<close>

datatype action_kind = ChargeAction | DiscountAction

fun action_kind_json :: "action_kind \<Rightarrow> json" where
  "action_kind_json ChargeAction = JString ''charge''"
| "action_kind_json DiscountAction = JString ''discount''"

definition money_json :: "money \<Rightarrow> json" where
  "money_json m = (case money_serialize m of (cur, scale, text) \<Rightarrow>
     jobj [(''currency'', JString cur), (''scale'', JInt (int scale)), (''atoms'', JString text)])"

definition ratio_json :: "ratio \<Rightarrow> json" where
  "ratio_json r = jobj [(''numerator'', jstr (numerator r)), (''denominator'', jstr (denominator r))]"

definition decimal_json :: "decimal \<Rightarrow> json" where
  "decimal_json d = JString (decimal_display d)"

record action =
  act_id :: string
  act_scope :: scope
  act_event_id :: string
  act_decision_id :: string
  act_effect_id :: string
  act_obligation_id :: string
  act_kind :: action_kind
  act_component :: string
  act_amount :: money
  act_roles :: roles
  act_roles_doc :: string
  act_rule_id :: string
  act_binding_id :: string
  act_snapshot_doc :: string
  act_sources :: "string list"
  act_links :: "string list"
  act_inputs :: "string list"

definition action_json :: "action \<Rightarrow> json" where
  "action_json a = jobj
     [(''schema'', JString ''ledger-action/1''), (''id'', JString (act_id a)), (''scope'', scope_json (act_scope a)),
      (''event_id'', JString (act_event_id a)), (''decision_id'', JString (act_decision_id a)),
      (''effect_id'', JString (act_effect_id a)), (''obligation_id'', JString (act_obligation_id a)),
      (''kind'', action_kind_json (act_kind a)), (''book'', JString ''retail''),
      (''component'', JString (act_component a)), (''amount'', money_json (act_amount a)),
      (''roles'', roles_json (act_roles a)), (''roles_doc'', JString (act_roles_doc a)),
      (''rule_id'', JString (act_rule_id a)), (''binding_id'', JString (act_binding_id a)),
      (''snapshot_doc'', JString (act_snapshot_doc a)), (''sources'', strings_json (act_sources a)),
      (''links'', strings_json (act_links a)), (''inputs'', strings_json (act_inputs a))]"

datatype explanation_input =
    InDecimal string decimal ratio | InBoolean string bool | InSourceId string string
  | InBindingField string string | InActionRef string string

text \<open>The variants \<open>Money\<close> and \<open>DocumentRef\<close> of the type are never built.\<close>

fun explanation_input_json :: "explanation_input \<Rightarrow> json" where
  "explanation_input_json (InDecimal n v r) =
     jobj [(''kind'', JString ''decimal''), (''name'', JString n), (''value'', decimal_json v), (''exact'', ratio_json r)]"
| "explanation_input_json (InBoolean n b) =
     jobj [(''kind'', JString ''boolean''), (''name'', JString n), (''value'', JBool b)]"
| "explanation_input_json (InSourceId n s) =
     jobj [(''kind'', JString ''source_id''), (''name'', JString n), (''value'', JString s)]"
| "explanation_input_json (InBindingField n s) =
     jobj [(''kind'', JString ''binding_field''), (''name'', JString n), (''value'', JString s)]"
| "explanation_input_json (InActionRef n s) =
     jobj [(''kind'', JString ''action_ref''), (''name'', JString n), (''value'', JString s)]"

record explanation =
  ex_id :: string
  ex_scope :: scope
  ex_event_id :: string
  ex_ordinal :: nat
  ex_rule_id :: "string option"
  ex_outcome :: string
  ex_code :: string
  ex_binding_id :: string
  ex_input_refs :: "string list"
  ex_basis_name :: "string option"
  ex_basis :: "ratio option"
  ex_inputs :: "explanation_input list"
  ex_unrounded_atoms :: "ratio option"
  ex_rounded_atoms :: "int option"
  ex_action_ids :: "string list"

definition explanation_json :: "explanation \<Rightarrow> json" where
  "explanation_json x = jobj (
     [(''schema'', JString ''ledger-explanation/1''), (''id'', JString (ex_id x)), (''scope'', scope_json (ex_scope x)),
      (''event_id'', JString (ex_event_id x)), (''ordinal'', JInt (int (ex_ordinal x)))]
     @ member ''rule_id'' JString (ex_rule_id x)
     @ [(''outcome'', JString (ex_outcome x)), (''code'', JString (ex_code x)),
        (''binding_id'', JString (ex_binding_id x)), (''input_refs'', strings_json (ex_input_refs x))]
     @ member ''basis_name'' JString (ex_basis_name x) @ member ''basis'' ratio_json (ex_basis x)
     @ [(''inputs'', JArray (map explanation_input_json (ex_inputs x)))]
     @ member ''unrounded_atoms'' ratio_json (ex_unrounded_atoms x)
     @ member ''rounded_atoms'' jstr (ex_rounded_atoms x)
     @ [(''action_ids'', strings_json (ex_action_ids x))])"

definition breakdown_json :: "action \<Rightarrow> json" where
  "breakdown_json a = jobj [(''action_id'', JString (act_id a)), (''kind'', action_kind_json (act_kind a)),
     (''component'', JString (act_component a)), (''amount'', money_json (act_amount a))]"

text \<open>The payload of an intention; its breakdown is the part of the actions that is written.\<close>

record obligation_delta =
  ob_obligation_id :: string
  ob_agreement_id :: string
  ob_amount :: money
  ob_roles :: roles
  ob_actions :: "action list"

definition obligation_json :: "obligation_delta \<Rightarrow> json" where
  "obligation_json p = jobj
     [(''schema'', JString ''ledger-obligation-delta/1''), (''type'', JString ''obligation_delta''),
      (''obligation_id'', JString (ob_obligation_id p)), (''agreement_id'', JString (ob_agreement_id p)),
      (''book'', JString ''retail''), (''amount'', money_json (ob_amount p)), (''roles'', roles_json (ob_roles p)),
      (''actions'', JArray (map breakdown_json (ob_actions p)))]"

record decision_intention =
  in_id :: string
  in_scope :: scope
  in_event_id :: string
  in_idempotency_key :: string
  in_obligation_id :: string
  in_action_ids :: "string list"
  in_amount :: money
  in_depends_on :: "string list"
  in_payload :: obligation_delta

definition intention_json :: "decision_intention \<Rightarrow> json" where
  "intention_json i = jobj
     [(''schema'', JString ''ledger-intention/1''), (''id'', JString (in_id i)), (''scope'', scope_json (in_scope i)),
      (''event_id'', JString (in_event_id i)), (''destination_id'', JString ''fake''),
      (''idempotency_key'', JString (in_idempotency_key i)), (''obligation_id'', JString (in_obligation_id i)),
      (''action_ids'', strings_json (in_action_ids i)), (''amount'', money_json (in_amount i)),
      (''depends_on'', strings_json (in_depends_on i)), (''payload'', obligation_json (in_payload i))]"

definition payload_bytes :: "decision_intention \<Rightarrow> string result" where
  "payload_bytes i = from_value (obligation_json (in_payload i))"

definition request_digest :: "(string \<Rightarrow> string) \<Rightarrow> decision_intention \<Rightarrow> string result" where
  "request_digest sha256 i = digest sha256 DomIntentionPayload (obligation_json (in_payload i))"

record decision_receipt =
  rc_id :: string
  rc_event_id :: string
  rc_decision_id :: string
  rc_chain_id :: string
  rc_revision :: revision
  rc_action_ids :: "string list"
  rc_intention_ids :: "string list"
  rc_content_hash :: string
  rc_decision_hash :: string

definition receipt_json :: "decision_receipt \<Rightarrow> json" where
  "receipt_json r = jobj
     [(''schema'', JString ''ledger-receipt/1''), (''id'', JString (rc_id r)), (''event_id'', JString (rc_event_id r)),
      (''decision_id'', JString (rc_decision_id r)), (''chain_id'', JString (rc_chain_id r)),
      (''revision'', revision_json (rc_revision r)), (''action_ids'', strings_json (rc_action_ids r)),
      (''intention_ids'', strings_json (rc_intention_ids r)), (''content_hash'', JString (rc_content_hash r)),
      (''decision_hash'', JString (rc_decision_hash r))]"

definition receipt_bytes :: "decision_receipt \<Rightarrow> string result" where
  "receipt_bytes r = from_value (receipt_json r)"

record journal_record =
  jr_kind :: string
  jr_scope :: scope
  jr_id :: json
  jr_body :: json
  jr_content_hash :: string
  jr_document_type :: "string option"

definition record_json :: "journal_record \<Rightarrow> json" where
  "record_json r = jobj (
     [(''kind'', JString (jr_kind r)), (''scope'', scope_json (jr_scope r)), (''id'', jr_id r),
      (''body'', jr_body r), (''content_hash'', JString (jr_content_hash r))]
     @ member ''document_type'' JString (jr_document_type r))"

definition record_bytes :: "journal_record \<Rightarrow> string result" where
  "record_bytes r = from_value (record_json r)"

definition generic :: "(string \<Rightarrow> string) \<Rightarrow> string \<Rightarrow> scope \<Rightarrow> json \<Rightarrow> json \<Rightarrow> journal_record result" where
  "generic sha256 kind s ident body =
     rbind (digest sha256 DomRecordContent (JArray [JString kind, JInt 1, body])) (\<lambda>hash.
     Inr \<lparr>jr_kind = kind, jr_scope = s, jr_id = ident, jr_body = body, jr_content_hash = hash,
       jr_document_type = None\<rparr>)"

definition envelope :: "document \<Rightarrow> scope \<Rightarrow> journal_record" where
  "envelope d s = \<lparr>jr_kind = ''document'', jr_scope = s, jr_id = JString (doc_id d), jr_body = doc_body d,
     jr_content_hash = doc_content_hash d, jr_document_type = Some (doc_kind d)\<rparr>"

record decision_plan =
  dp_records :: "journal_record list"
  dp_actions :: "action list"
  dp_explanations :: "explanation list"
  dp_intentions :: "decision_intention list"
  dp_receipt :: decision_receipt
  dp_claim_facts :: json
  dp_effect_facts :: "json list"

definition journal_bytes :: "decision_plan \<Rightarrow> string result" where
  "journal_bytes plan =
     rbind (rfold (\<lambda>r bytes. rbind (record_bytes r) (\<lambda>b. Inr (bytes @ b @ [CHR 0x0A]))) (dp_records plan) []) (\<lambda>bytes.
     if length bytes > BUNDLE_LIMIT then Inl (Error ''LIMIT'' ''decision bundle'') else Inr bytes)"

text \<open>Records are sorted by their kind and the canonical bytes of their id, which must be unique.\<close>

definition record_key :: "journal_record \<Rightarrow> (string \<times> string) result" where
  "record_key r = rbind (from_value (jr_id r)) (\<lambda>b. Inr (jr_kind r, b))"

definition record_sort :: "journal_record list \<Rightarrow> journal_record list result" where
  "record_sort rs =
     rbind (rfold (\<lambda>r keys. rbind (record_key r) (\<lambda>k.
        if k \<in> keys then Inl (Error ''DUPLICATE'' ''journal kind/ID'') else Inr (insert k keys))) rs {}) (\<lambda>_.
     rbind (rmap (\<lambda>r. case record_key r of Inl _ \<Rightarrow> Inl Panic | Inr k \<Rightarrow> Inr (k, r)) rs) (\<lambda>keyed.
     Inr (map snd (sort_key fst keyed))))"

end
