(* ===== verification/Assembly.thy ===== *)
theory Assembly
  imports Records
begin

text \<open>
  The assembly of a decision (\<open>assemble_inner\<close> of \<^verbatim>\<open>domain/records.rs\<close>) in its four parts: the
  values that do not depend on the steps, the loop over the steps, the intention, and the journal
  with its manifest and receipt; and \<open>verify\<close>, which assembles again and compares.
\<close>

section \<open>Before the steps\<close>

record frame =
  fm_scope :: scope
  fm_event_id :: string
  fm_chain :: string
  fm_decision_id :: string
  fm_receipt_id :: string
  fm_claim_id :: string
  fm_claim_facts :: json
  fm_family :: family
  fm_policy_doc :: string
  fm_roles_doc :: string
  fm_context_doc :: string
  fm_snapshot :: json
  fm_snapshot_id :: string
  fm_snapshot_hash :: string
  fm_obligation_id :: string

definition purpose_json :: "document \<Rightarrow> json" where
  "purpose_json d = jobj [(''purpose'', JString (doc_purpose d)), (''document_id'', JString (doc_id d))]"

definition without_schema :: "json \<Rightarrow> json result" where
  "without_schema v = (case v of JObject m \<Rightarrow> Inr (JObject (om_remove ''schema'' m)) | _ \<Rightarrow> Inl Panic)"

definition snapshot_json ::
    "resolved_input \<Rightarrow> family \<Rightarrow> string \<Rightarrow> json list \<Rightarrow> json \<Rightarrow> json" where
  "snapshot_json input f grant_doc documents context_value =
     (let e = ri_event input; x = ri_context input in
      jobj [(''schema'', JString ''ledger-snapshot/1''), (''scope'', scope_json (event_scope e)),
        (''dsl_version'', JInt 1), (''semantics_version'', JInt 1), (''documents'', JArray documents),
        (''context'', context_value),
        (''authority'', JArray [jobj [(''active'', JBool True), (''grant_document'', JString grant_doc),
           (''grant_id'', JString (gr_id (fa_grant f))), (''principal_id'', JString (ac_principal_id x)),
           (''revision'', revision_json (ac_grant_revision x)), (''source'', JString (event_source e))]]),
        (''prior_actions'', JArray []), (''decision_context'', jobj [])])"

definition frame_of :: "(string \<Rightarrow> string) \<Rightarrow> resolved_input \<Rightarrow> frame result" where
  "frame_of sha256 input =
     (let e = ri_event input; scope = event_scope e; event_id = event_ident e; docs = ri_documents input in
      rbind (identity sha256 DomDecision (JArray [JString event_id])) (\<lambda>decision_id.
      rbind (identity sha256 DomReceipt (JArray [JString event_id])) (\<lambda>receipt_id.
      rbind (completion_claim_id sha256 e) (\<lambda>claim_id.
      rbind (completion_facts sha256 e []) (\<lambda>claim_facts.
      rbind (document_for docs ''policy'') (\<lambda>policy_doc.
      rbind (document_for docs ''roles'') (\<lambda>roles_doc.
      rbind (document_for docs ''chain_context'') (\<lambda>context_doc.
      rbind (document_for docs ''source_grant'') (\<lambda>grant_doc.
      rbind (family_of docs) (\<lambda>f.
      rbind (sort_set (\<lambda>v. v) (map purpose_json docs)) (\<lambda>documents.
      rbind (without_schema (doc_body context_doc)) (\<lambda>context_value.
      let snapshot = snapshot_json input f (doc_id grant_doc) documents context_value;
          tuple = JArray [JString ''snapshot'', JInt 1, snapshot] in
      rbind (identity sha256 DomDocument tuple) (\<lambda>snapshot_id.
      rbind (digest sha256 DomDocument tuple) (\<lambda>snapshot_hash.
      rbind (identity sha256 DomObligation (JArray [scope_json scope, JString (bi_agreement_id (fa_binding f)),
          JString ''retail'', JString (cp_currency (fa_policy f)), JInt (int (cp_scale (fa_policy f))),
          roles_json (fa_roles f)])) (\<lambda>obligation_id.
      rbind (event_chain e) (\<lambda>chain.
      Inr \<lparr>fm_scope = scope, fm_event_id = event_id, fm_chain = chain, fm_decision_id = decision_id,
        fm_receipt_id = receipt_id, fm_claim_id = claim_id, fm_claim_facts = claim_facts, fm_family = f,
        fm_policy_doc = doc_id policy_doc, fm_roles_doc = doc_id roles_doc, fm_context_doc = doc_id context_doc,
        fm_snapshot = snapshot, fm_snapshot_id = snapshot_id, fm_snapshot_hash = snapshot_hash,
        fm_obligation_id = obligation_id\<rparr>))))))))))))))))"

text \<open>The records that come before the steps: the snapshot, its references, the event, its delivery and claim.\<close>

definition snapshot_record :: "frame \<Rightarrow> journal_record" where
  "snapshot_record fm = \<lparr>jr_kind = ''document'', jr_scope = fm_scope fm, jr_id = JString (fm_snapshot_id fm),
     jr_body = fm_snapshot fm, jr_content_hash = fm_snapshot_hash fm, jr_document_type = Some ''snapshot''\<rparr>"

definition snapshot_ref :: "(string \<Rightarrow> string) \<Rightarrow> frame \<Rightarrow> string \<times> string \<Rightarrow> journal_record result" where
  "snapshot_ref sha256 fm entry =
     (case entry of (purpose, ident) \<Rightarrow>
       rbind (identity sha256 DomSnapshotRef
          (JArray [JString (fm_event_id fm), JString purpose, JString ident])) (\<lambda>id_ref.
       generic sha256 ''snapshot-ref'' (fm_scope fm) (JString id_ref)
         (jobj [(''schema'', JString ''ledger-snapshot-ref/1''), (''id'', JString id_ref),
           (''scope'', scope_json (fm_scope fm)), (''event_id'', JString (fm_event_id fm)),
           (''purpose'', JString purpose), (''document_id'', JString ident)])))"

definition event_record :: "event \<Rightarrow> journal_record" where
  "event_record e = \<lparr>jr_kind = ''event'', jr_scope = event_scope e, jr_id = JString (event_ident e),
     jr_body = event_json (e_dto e), jr_content_hash = e_content_hash e, jr_document_type = None\<rparr>"

definition delivery_record :: "pinned \<Rightarrow> (string \<Rightarrow> string) \<Rightarrow> event \<Rightarrow> journal_record result" where
  "delivery_record serde sha256 e =
     rbind (parse serde (cd_ingress (e_candidate e))) (\<lambda>ingress.
     generic sha256 ''delivery-key'' (event_scope e)
       (JArray [scope_json (event_scope e), JString (event_source e), JString (ev_id (e_dto e))])
       (jobj [(''schema'', JString ''ledger-delivery-key/1''), (''scope'', scope_json (event_scope e)),
         (''source'', JString (event_source e)), (''external_id'', JString (ev_id (e_dto e))),
         (''canonical_event_id'', JString (event_ident e)), (''kind'', JString ''original''),
         (''ingress'', ingress), (''ingress_hash'', JString (cd_ingress_hash (e_candidate e)))]))"

definition claim_record :: "(string \<Rightarrow> string) \<Rightarrow> frame \<Rightarrow> event \<Rightarrow> journal_record result" where
  "claim_record sha256 fm e =
     rbind (operation_id (e_candidate e)) (\<lambda>operation.
     rbind (digest sha256 DomClaimFacts (fm_claim_facts fm)) (\<lambda>facts_hash.
     generic sha256 ''claim'' (fm_scope fm) (JString (fm_claim_id fm))
       (jobj [(''schema'', JString ''ledger-claim/1''), (''id'', JString (fm_claim_id fm)),
         (''scope'', scope_json (fm_scope fm)), (''source'', JString (event_source e)),
         (''operation_id'', JString operation), (''kind'', JString ''completion''),
         (''token'', JString ''completion''), (''event_id'', JString (fm_event_id fm)),
         (''facts_hash'', JString facts_hash)])))"

definition opening_records ::
    "pinned \<Rightarrow> (string \<Rightarrow> string) \<Rightarrow> resolved_input \<Rightarrow> frame \<Rightarrow> journal_record list result" where
  "opening_records serde sha256 input fm =
     (let e = ri_event input in
      rbind (rmap (snapshot_ref sha256 fm) (map (\<lambda>d. (doc_purpose d, doc_id d)) (ri_documents input)
         @ [(''decision_snapshot'', fm_snapshot_id fm)])) (\<lambda>refs.
      rbind (delivery_record serde sha256 e) (\<lambda>delivery.
      rbind (claim_record sha256 fm e) (\<lambda>claim.
      Inr (snapshot_record fm # refs @ [event_record e, delivery, claim])))))"

section \<open>The steps\<close>

record assembly =
  al_records :: "journal_record list"
  al_actions :: "action list"
  al_explanations :: "explanation list"
  al_effect_facts :: "json list"
  al_rule_actions :: "string option list"

fun predicate_input :: "string \<times> predicate_value \<Rightarrow> explanation_input" where
  "predicate_input (name, PVText s) = InBindingField name s"
| "predicate_input (name, PVBoolean b) = InBoolean name b"
| "predicate_input (name, PVSource s) = InSourceId name s"

definition binding_refs :: "frame \<Rightarrow> (string \<times> predicate_value) list \<Rightarrow> string list" where
  "binding_refs fm ps = concat (map (\<lambda>(name, _).
     if strip_prefix ''binding.'' name \<noteq> None then [fm_context_doc fm] else []) ps)"

text \<open>What the operation of an applied step adds: inputs, references, dependencies and the name of the basis.\<close>

definition operation_inputs :: "operation \<Rightarrow> step \<Rightarrow> string option list \<Rightarrow>
    (explanation_input list \<times> string list \<times> string list \<times> string option) result" where
  "operation_inputs op s rule_actions =
     (if st_unrounded s = None then Inr ([], [], [], None)
      else case op of
        Base fixed \<Rightarrow> Inr ([InDecimal ''fixed'' fixed (decimal_ratio fixed)], [], [], None)
      | Discount pct basis name \<Rightarrow>
          if basis \<ge> length rule_actions then Inl Panic
          else (case rule_actions ! basis of
              None \<Rightarrow> Inr ([InDecimal ''percent'' pct (decimal_ratio pct)], [], [], Some name)
            | Some action_id \<Rightarrow> Inr ([InDecimal ''percent'' pct (decimal_ratio pct), InActionRef ''basis'' action_id],
                [action_id], [action_id], Some name)))"

definition rule_at :: "compiled_policy \<Rightarrow> nat option \<Rightarrow> rule option result" where
  "rule_at p i = (case i of None \<Rightarrow> Inr None
     | Some i \<Rightarrow> if i < length (cp_rules p) then Inr (Some (cp_rules p ! i)) else Inl Panic)"

definition effect_facts_json :: "frame \<Rightarrow> rule \<Rightarrow> action \<Rightarrow> json" where
  "effect_facts_json fm r a = jobj
     [(''schema'', JString ''ledger-effect-facts/1''), (''scope'', scope_json (fm_scope fm)),
      (''agreement_id'', JString (bi_agreement_id (fa_binding (fm_family fm)))),
      (''component'', JString (r_component r)), (''claim_id'', JString (fm_claim_id fm)),
      (''match_key'', JString ''self''), (''namespace'', JString ''original''),
      (''kind'', action_kind_json (act_kind a)), (''book'', JString ''retail''),
      (''amount'', money_json (act_amount a)), (''roles'', roles_json (fa_roles (fm_family fm))),
      (''sources'', strings_json (act_sources a)), (''links'', strings_json (act_links a)),
      (''inputs'', strings_json (act_inputs a))]"

definition build_action ::
    "(string \<Rightarrow> string) \<Rightarrow> frame \<Rightarrow> rule \<Rightarrow> int \<Rightarrow> string list \<Rightarrow> action result" where
  "build_action sha256 fm r n dependencies =
     (let f = fm_family fm; b = fa_binding f in
      rbind (identity sha256 DomEffect (JArray [scope_json (fm_scope fm), JString (bi_agreement_id b),
        JString (r_component r), JString (fm_claim_id fm), JString ''self'', JString ''original''])) (\<lambda>effect_id.
      rbind (identity sha256 DomAction (JArray [JString effect_id])) (\<lambda>action_id.
      rbind (money_new (cp_currency (fa_policy f)) (cp_scale (fa_policy f)) n) (\<lambda>amount.
      Inr \<lparr>act_id = action_id, act_scope = fm_scope fm, act_event_id = fm_event_id fm,
        act_decision_id = fm_decision_id fm, act_effect_id = effect_id, act_obligation_id = fm_obligation_id fm,
        act_kind = (case r_operation r of Base _ \<Rightarrow> ChargeAction | Discount _ _ _ \<Rightarrow> DiscountAction),
        act_component = r_component r, act_amount = amount, act_roles = fa_roles f,
        act_roles_doc = fm_roles_doc fm, act_rule_id = r_id r, act_binding_id = bi_id b,
        act_snapshot_doc = fm_snapshot_id fm, act_sources = [fm_event_id fm], act_links = [],
        act_inputs = dependencies\<rparr>))))"

definition effect_record ::
    "(string \<Rightarrow> string) \<Rightarrow> frame \<Rightarrow> rule \<Rightarrow> action \<Rightarrow> json \<Rightarrow> journal_record result" where
  "effect_record sha256 fm r a facts =
     rbind (digest sha256 DomEffectFacts facts) (\<lambda>facts_hash.
     generic sha256 ''effect'' (fm_scope fm) (JString (act_effect_id a))
       (jobj [(''schema'', JString ''ledger-effect/1''), (''id'', JString (act_effect_id a)),
         (''scope'', scope_json (fm_scope fm)), (''agreement_id'', JString (bi_agreement_id (fa_binding (fm_family fm)))),
         (''component'', JString (r_component r)), (''claim_id'', JString (fm_claim_id fm)),
         (''match_key'', JString ''self''), (''namespace'', JString ''original''),
         (''facts_hash'', JString facts_hash), (''action_id'', JString (act_id a))]))"

definition dependency_record ::
    "(string \<Rightarrow> string) \<Rightarrow> frame \<Rightarrow> string \<Rightarrow> string \<Rightarrow> journal_record result" where
  "dependency_record sha256 fm action_id predecessor =
     generic sha256 ''action-dependency'' (fm_scope fm)
       (JArray [scope_json (fm_scope fm), JString action_id, JString predecessor])
       (jobj [(''schema'', JString ''ledger-action-dependency/1''), (''scope'', scope_json (fm_scope fm)),
         (''action_id'', JString action_id), (''input_action_id'', JString predecessor)])"

definition action_records ::
    "(string \<Rightarrow> string) \<Rightarrow> frame \<Rightarrow> rule \<Rightarrow> action \<Rightarrow> journal_record list result" where
  "action_records sha256 fm r a =
     rbind (effect_record sha256 fm r a (effect_facts_json fm r a)) (\<lambda>effect.
     rbind (generic sha256 ''action'' (fm_scope fm) (JString (act_id a)) (action_json a)) (\<lambda>body.
     rbind (generic sha256 ''action-source'' (fm_scope fm)
        (JArray [scope_json (fm_scope fm), JString (act_id a), JString (fm_event_id fm)])
        (jobj [(''schema'', JString ''ledger-action-source/1''), (''scope'', scope_json (fm_scope fm)),
          (''action_id'', JString (act_id a)), (''event_id'', JString (fm_event_id fm))])) (\<lambda>src.
     rbind (rmap (dependency_record sha256 fm (act_id a)) (act_inputs a)) (\<lambda>deps.
     Inr ([effect, body, src] @ deps)))))"

text \<open>The action of a step with a nonzero amount, and the state with it.\<close>

definition step_action :: "(string \<Rightarrow> string) \<Rightarrow> frame \<Rightarrow> rule option \<Rightarrow> step \<Rightarrow> string list \<Rightarrow>
    assembly \<Rightarrow> (string list \<times> assembly) result" where
  "step_action sha256 fm rule s dependencies al =
     (case st_rounded s of
        None \<Rightarrow> Inr ([], al)
      | Some n \<Rightarrow>
          if n = 0 then Inr ([], al)
          else rbind (ok_or rule Panic) (\<lambda>r.
            rbind (ok_or (st_rule s) Panic) (\<lambda>i.
            rbind (build_action sha256 fm r n dependencies) (\<lambda>a.
            rbind (action_records sha256 fm r a) (\<lambda>rs.
            if i \<ge> length (al_rule_actions al) then Inl Panic
            else Inr ([act_id a], al\<lparr>al_records := al_records al @ rs, al_actions := al_actions al @ [a],
              al_effect_facts := al_effect_facts al @ [effect_facts_json fm r a],
              al_rule_actions := (al_rule_actions al)[i := Some (act_id a)]\<rparr>))))))"

definition outcome_of :: "string list \<Rightarrow> step \<Rightarrow> string" where
  "outcome_of action_ids s = (if action_ids \<noteq> [] then ''applied''
     else if st_rounded s = Some 0 then ''zero'' else ''skipped'')"

definition step_explanation :: "frame \<Rightarrow> nat \<Rightarrow> step \<Rightarrow> rule option \<Rightarrow> string \<Rightarrow> string list \<Rightarrow>
    string option \<Rightarrow> explanation_input list \<Rightarrow> string list \<Rightarrow> explanation" where
  "step_explanation fm ordinal s rule ident input_refs basis_name extra action_ids =
     \<lparr>ex_id = ident, ex_scope = fm_scope fm, ex_event_id = fm_event_id fm, ex_ordinal = ordinal mod 256,
      ex_rule_id = map_option r_id rule, ex_outcome = outcome_of action_ids s, ex_code = st_code s,
      ex_binding_id = bi_id (fa_binding (fm_family fm)), ex_input_refs = input_refs, ex_basis_name = basis_name,
      ex_basis = map_option snd (st_basis s), ex_inputs = map predicate_input (st_inputs s) @ extra,
      ex_unrounded_atoms = st_unrounded s, ex_rounded_atoms = st_rounded s, ex_action_ids = action_ids\<rparr>"

definition assemble_step ::
    "(string \<Rightarrow> string) \<Rightarrow> frame \<Rightarrow> nat \<times> step \<Rightarrow> assembly \<Rightarrow> assembly result" where
  "assemble_step sha256 fm numbered al =
     (case numbered of (ordinal, s) \<Rightarrow>
       rbind (rule_at (fa_policy (fm_family fm)) (st_rule s)) (\<lambda>rule.
       rbind (identity sha256 DomExplanation (JArray [JString (fm_event_id fm), JInt (int ordinal)])) (\<lambda>explanation_id.
       rbind (case rule of None \<Rightarrow> Inr ([], [], [], None)
              | Some r \<Rightarrow> operation_inputs (r_operation r) s (al_rule_actions al)) (\<lambda>(extra, refs, dependencies, basis_name).
       rbind (sort_set JString (remdups_adj (sort
           (fm_policy_doc fm # binding_refs fm (st_inputs s) @ refs)))) (\<lambda>input_refs.
       rbind (step_action sha256 fm rule s dependencies al) (\<lambda>(action_ids, al).
       let x = step_explanation fm ordinal s rule explanation_id input_refs basis_name extra action_ids in
       rbind (generic sha256 ''explanation'' (fm_scope fm) (JString explanation_id) (explanation_json x)) (\<lambda>r.
       Inr (al\<lparr>al_records := al_records al @ [r], al_explanations := al_explanations al @ [x]\<rparr>))))))))"

definition view_of :: "event \<Rightarrow> chain_context \<Rightarrow> view" where
  "view_of e c = \<lparr>v_source = event_source e, v_status = ev_status (e_dto e), v_tier = cx_tier c,
     v_funding = cx_funding c, v_priority = cx_priority c\<rparr>"

definition assemble_steps :: "(string \<Rightarrow> string) \<Rightarrow> frame \<Rightarrow> journal_record list \<Rightarrow> step list \<Rightarrow> assembly result" where
  "assemble_steps sha256 fm opening steps =
     rfold (assemble_step sha256 fm) (enumerate 0 steps)
       \<lparr>al_records = opening, al_actions = [], al_explanations = [], al_effect_facts = [],
        al_rule_actions = replicate (length (cp_rules (fa_policy (fm_family fm)))) None\<rparr>"

section \<open>The intention\<close>

definition check_outputs :: "assembly \<Rightarrow> unit result" where
  "check_outputs al =
     (if length (al_actions al) > 128 \<or> length (al_explanations al) > 256
      then Inl (Error ''LIMIT'' ''evaluation outputs'')
      else rbind (from_value (JArray (map explanation_json (al_explanations al)))) (\<lambda>bytes.
        ensure (length bytes \<le> 1024 * 1024) (Error ''LIMIT'' ''explanations'')))"

definition net_amount :: "compiled_policy \<Rightarrow> action list \<Rightarrow> money result" where
  "net_amount p actions =
     rbind (money_new (cp_currency p) (cp_scale p) 0) (\<lambda>zero.
     rfold (\<lambda>a sum. money_checked_add sum (act_amount a)) actions zero)"

definition build_intention ::
    "(string \<Rightarrow> string) \<Rightarrow> frame \<Rightarrow> action list \<Rightarrow> string list \<Rightarrow> money \<Rightarrow> decision_intention result" where
  "build_intention sha256 fm actions action_ids amount =
     rbind (identity sha256 DomIntention (JArray [scope_json (fm_scope fm), JString ''fake'',
        JString (fm_obligation_id fm), strings_json action_ids])) (\<lambda>ident.
     rbind (sort_set breakdown_json actions) (\<lambda>breakdown.
     Inr \<lparr>in_id = ident, in_scope = fm_scope fm, in_event_id = fm_event_id fm, in_idempotency_key = ident,
       in_obligation_id = fm_obligation_id fm, in_action_ids = action_ids, in_amount = amount, in_depends_on = [],
       in_payload = \<lparr>ob_obligation_id = fm_obligation_id fm,
         ob_agreement_id = bi_agreement_id (fa_binding (fm_family fm)), ob_amount = amount,
         ob_roles = fa_roles (fm_family fm), ob_actions = breakdown\<rparr>\<rparr>))"

text \<open>A zero net obligation has nothing to deliver.\<close>

definition intentions_of :: "(string \<Rightarrow> string) \<Rightarrow> frame \<Rightarrow> action list \<Rightarrow> string list \<Rightarrow>
    (decision_intention list \<times> journal_record list) result" where
  "intentions_of sha256 fm actions action_ids =
     rbind (net_amount (fa_policy (fm_family fm)) actions) (\<lambda>amount.
     if atoms amount = 0 then Inr ([], [])
     else rbind (build_intention sha256 fm actions action_ids amount) (\<lambda>i.
       rbind (generic sha256 ''intention'' (fm_scope fm) (JString (in_id i)) (intention_json i)) (\<lambda>r.
       Inr ([i], [r]))))"

section \<open>The journal\<close>

definition transition_records :: "(string \<Rightarrow> string) \<Rightarrow> resolved_input \<Rightarrow> frame \<Rightarrow> revision \<Rightarrow> revision \<Rightarrow>
    journal_record list result" where
  "transition_records sha256 input fm revision event_count =
     (let x = ri_context input in
      rbind (identity sha256 DomControlTransition (JArray [scope_json (fm_scope fm), JString ''chain'',
         JString (fm_chain fm), revision_json revision])) (\<lambda>transition.
      rbind (generic sha256 ''control-transition'' (fm_scope fm) (JString transition)
        (jobj [(''schema'', JString ''ledger-control-transition/1''), (''id'', JString transition),
          (''scope'', scope_json (fm_scope fm)), (''control_kind'', JString ''chain''),
          (''control_id'', JString (fm_chain fm)), (''from_revision'', revision_json (ac_chain_revision x)),
          (''to_revision'', revision_json revision), (''event_id'', JString (fm_event_id fm)),
          (''document_id'', JString (fm_snapshot_id fm)),
          (''from_event_count'', revision_json (ac_chain_event_count x)),
          (''to_event_count'', revision_json event_count)])) (\<lambda>control.
      rbind (generic sha256 ''chain-revision'' (fm_scope fm)
        (JArray [scope_json (fm_scope fm), JString (fm_chain fm), revision_json revision])
        (jobj [(''schema'', JString ''ledger-chain-revision/1''), (''scope'', scope_json (fm_scope fm)),
          (''chain_id'', JString (fm_chain fm)), (''revision'', revision_json revision),
          (''event_id'', JString (fm_event_id fm)), (''decision_id'', JString (fm_decision_id fm))])) (\<lambda>chain.
      Inr [control, chain]))))"

definition member_json :: "journal_record \<Rightarrow> json" where
  "member_json r = jobj [(''kind'', JString (jr_kind r)), (''id'', jr_id r),
     (''content_hash'', JString (jr_content_hash r))]"

definition manifest_json :: "frame \<Rightarrow> revision \<Rightarrow> explanation list \<Rightarrow> journal_record list \<Rightarrow> json" where
  "manifest_json fm revision explanations membership = jobj
     [(''schema'', JString ''ledger-decision-manifest/1''), (''id'', JString (fm_decision_id fm)),
      (''scope'', scope_json (fm_scope fm)), (''event_id'', JString (fm_event_id fm)),
      (''chain_id'', JString (fm_chain fm)), (''revision'', revision_json revision),
      (''explanation_ids'', strings_json (map ex_id explanations)),
      (''members'', JArray (map member_json membership))]"

definition manifest_record :: "(string \<Rightarrow> string) \<Rightarrow> resolved_input \<Rightarrow> frame \<Rightarrow> revision \<Rightarrow> explanation list \<Rightarrow>
    journal_record list \<Rightarrow> journal_record result" where
  "manifest_record sha256 input fm revision explanations records =
     rbind (record_sort (records @ map (\<lambda>d. envelope d (fm_scope fm)) (ri_documents input))) (\<lambda>membership.
     let manifest = manifest_json fm revision explanations membership in
     rbind (digest sha256 DomDecisionContent manifest) (\<lambda>decision_hash.
     Inr \<lparr>jr_kind = ''decision-manifest'', jr_scope = fm_scope fm, jr_id = JString (fm_decision_id fm),
       jr_body = manifest, jr_content_hash = decision_hash, jr_document_type = None\<rparr>))"

definition build_receipt :: "event \<Rightarrow> frame \<Rightarrow> revision \<Rightarrow> string list \<Rightarrow> string list \<Rightarrow> string \<Rightarrow> decision_receipt" where
  "build_receipt e fm revision action_ids intention_ids decision_hash =
     \<lparr>rc_id = fm_receipt_id fm, rc_event_id = fm_event_id fm, rc_decision_id = fm_decision_id fm,
      rc_chain_id = fm_chain fm, rc_revision = revision, rc_action_ids = action_ids,
      rc_intention_ids = intention_ids, rc_content_hash = e_content_hash e, rc_decision_hash = decision_hash\<rparr>"

text \<open>From the assembled steps to the plan.\<close>

definition finish_plan :: "(string \<Rightarrow> string) \<Rightarrow> resolved_input \<Rightarrow> frame \<Rightarrow> assembly \<Rightarrow> decision_plan result" where
  "finish_plan sha256 input fm al =
     rbind (check_outputs al) (\<lambda>_.
     rbind (sort_set JString (map act_id (al_actions al))) (\<lambda>action_ids.
     rbind (intentions_of sha256 fm (al_actions al) action_ids) (\<lambda>(intentions, intention_records).
     rbind (revision_next (ac_chain_revision (ri_context input))) (\<lambda>revision.
     rbind (revision_next (ac_chain_event_count (ri_context input))) (\<lambda>event_count.
     rbind (transition_records sha256 input fm revision event_count) (\<lambda>transitions.
     let records = al_records al @ intention_records @ transitions in
     rbind (manifest_record sha256 input fm revision (al_explanations al) records) (\<lambda>manifest.
     rbind (sort_set JString (map in_id intentions)) (\<lambda>intention_ids.
     let receipt = build_receipt (ri_event input) fm revision action_ids intention_ids (jr_content_hash manifest) in
     rbind (generic sha256 ''receipt'' (fm_scope fm) (JString (fm_receipt_id fm)) (receipt_json receipt)) (\<lambda>receipt_record.
     rbind (record_sort (records @ [manifest, receipt_record])) (\<lambda>sorted_records.
     let plan = \<lparr>dp_records = sorted_records, dp_actions = al_actions al, dp_explanations = al_explanations al,
       dp_intentions = intentions, dp_receipt = receipt, dp_claim_facts = fm_claim_facts fm,
       dp_effect_facts = al_effect_facts al\<rparr> in
     rbind (journal_bytes plan) (\<lambda>_. Inr plan)))))))))))"

definition assemble_inner :: "pinned \<Rightarrow> (string \<Rightarrow> string) \<Rightarrow> resolved_input \<Rightarrow> string option \<Rightarrow> decision_plan result" where
  "assemble_inner serde sha256 input failure =
     rbind (validate input) (\<lambda>_.
     rbind (frame_of sha256 input) (\<lambda>fm.
     rbind (opening_records serde sha256 input fm) (\<lambda>opening.
     rbind (evaluate_steps (fa_policy (fm_family fm)) (view_of (ri_event input) (fa_chain (fm_family fm))) failure) (\<lambda>steps.
     rbind (assemble_steps sha256 fm opening steps) (\<lambda>al.
     finish_plan sha256 input fm al)))))"

definition assemble :: "pinned \<Rightarrow> (string \<Rightarrow> string) \<Rightarrow> resolved_input \<Rightarrow> decision_plan result" where
  "assemble serde sha256 input = assemble_inner serde sha256 input None"

section \<open>Verification\<close>

definition verify :: "pinned \<Rightarrow> (string \<Rightarrow> string) \<Rightarrow> resolved_input \<Rightarrow> string \<Rightarrow> decision_plan result" where
  "verify serde sha256 input journal =
     (if length journal > BUNDLE_LIMIT then Inl (Error ''LIMIT'' ''journal bytes'')
      else rbind (assemble serde sha256 input) (\<lambda>plan.
        rbind (journal_bytes plan) (\<lambda>bytes.
        if bytes \<noteq> journal then Inl (Error ''INTEGRITY_FAILURE'' ''original-input journal mismatch'')
        else Inr plan)))"

section \<open>Evaluation of a resolved input\<close>

text \<open>The entry points of \<^verbatim>\<open>policy/mod.rs\<close>; a fault is injected after the first base, for tests.\<close>

definition policy_evaluate :: "pinned \<Rightarrow> (string \<Rightarrow> string) \<Rightarrow> resolved_input \<Rightarrow> decision_plan result" where
  "policy_evaluate serde sha256 input = assemble serde sha256 input"

datatype evaluation_fault = InvalidAfterBase | OverflowAfterBase

definition evaluate_with_fault ::
    "pinned \<Rightarrow> (string \<Rightarrow> string) \<Rightarrow> resolved_input \<Rightarrow> evaluation_fault \<Rightarrow> decision_plan result" where
  "evaluate_with_fault serde sha256 input fault =
     assemble_inner serde sha256 input (Some (case fault of
       InvalidAfterBase \<Rightarrow> ''EVALUATION_INVALID'' | OverflowAfterBase \<Rightarrow> ''ARITHMETIC_OVERFLOW''))"

end
