(* ===== verification/Assembly_Laws.thy ===== *)
theory Assembly_Laws
  imports Assembly Encoding_Laws Policy_Properties
begin

text \<open>
  Laws of the assembly: what the loop over the steps builds, what the intention sums up, and the
  order of the journal.
\<close>

section \<open>The order of records\<close>

definition key_of :: "journal_record \<Rightarrow> string \<times> string" where
  "key_of r = (jr_kind r, canon jr_id r)"

lemma record_key_Inr: "record_key r = Inr k \<longleftrightarrow> encodable jr_id r \<and> k = key_of r"
  by (auto simp: record_key_def encodable_canon key_of_def encodable_def canon_def rbind_Inr_iff)

lemma record_keys:
  "rfold (\<lambda>r keys. rbind (record_key r) (\<lambda>k.
      if k \<in> keys then Inl (Error ''DUPLICATE'' ''journal kind/ID'') else Inr (insert k keys))) rs ks = Inr ks'
   \<longleftrightarrow> (\<forall>r \<in> set rs. encodable jr_id r) \<and> distinct (map key_of rs) \<and> key_of ` set rs \<inter> ks = {}
     \<and> ks' = ks \<union> key_of ` set rs"
proof (induction rs arbitrary: ks)
  case (Cons r rs)
  show ?case
  proof (cases "encodable jr_id r")
    case False
    then obtain e where "record_key r = Inl e" using record_key_Inr[of r "key_of r"] by (cases "record_key r") (auto simp: record_key_Inr)
    then show ?thesis using False by simp
  next
    case True
    then have k: "record_key r = Inr (key_of r)" by (simp add: record_key_Inr)
    show ?thesis using True Cons.IH[of "insert (key_of r) ks"] by (auto simp: k)
  qed
qed auto

lemma record_sort_Inr:
  "record_sort rs = Inr ss \<longleftrightarrow> (\<forall>r \<in> set rs. encodable jr_id r) \<and> distinct (map key_of rs) \<and> ss = sort_key key_of rs"
proof -
  have r: "rmap (\<lambda>r. case record_key r of Inl _ \<Rightarrow> Inl Panic | Inr k \<Rightarrow> Inr (k, r)) rs = Inr (map (\<lambda>r. (key_of r, r)) rs)"
    if "\<forall>r \<in> set rs. encodable jr_id r"
    using that by (induction rs) (simp_all add: record_key_Inr[THEN iffD2])
  have p: "map snd (sort_key fst (map (\<lambda>r. (key_of r, r)) rs)) = sort_key key_of rs"
    by (simp add: sort_key_pairs comp_def)
  show ?thesis
    unfolding record_sort_def using record_keys[of rs "{}"] r p by (auto simp: rbind_Inr_iff)
qed

section \<open>The steps\<close>

text \<open>The nonzero amounts of the steps, in order.\<close>

fun charged :: "step list \<Rightarrow> int list" where
  "charged [] = []"
| "charged (s # ss) = (case st_rounded s of None \<Rightarrow> charged ss | Some n \<Rightarrow> if n = 0 then charged ss else n # charged ss)"

lemma charged_append: "charged (ss @ ts) = charged ss @ charged ts"
  by (induction ss) (auto split: option.splits)

lemma sum_charged: "sum_list (charged ss) = booked_total ss"
  by (induction ss) (auto simp: booked_total_def split: option.splits)

lemma generic_Inr:
  "generic sha256 kind s i body = Inr r \<longleftrightarrow> (\<exists>h. digest sha256 DomRecordContent (JArray [JString kind, JInt 1, body]) = Inr h
     \<and> r = \<lparr>jr_kind = kind, jr_scope = s, jr_id = i, jr_body = body, jr_content_hash = h, jr_document_type = None\<rparr>)"
  by (auto simp: generic_def rbind_Inr_iff)

text \<open>What an action says of its decision.\<close>

definition action_of :: "frame \<Rightarrow> action \<Rightarrow> bool" where
  "action_of fm a \<longleftrightarrow> act_event_id a = fm_event_id fm \<and> act_decision_id a = fm_decision_id fm
     \<and> act_obligation_id a = fm_obligation_id fm \<and> act_scope a = fm_scope fm
     \<and> currency (act_amount a) = cp_currency (fa_policy (fm_family fm))
     \<and> mscale (act_amount a) = cp_scale (fa_policy (fm_family fm)) \<and> act_snapshot_doc a = fm_snapshot_id fm"

text \<open>The journal has the action, the effect it settles, its source event and its inputs.\<close>

definition recorded :: "journal_record list \<Rightarrow> action \<Rightarrow> bool" where
  "recorded rs a \<longleftrightarrow> (\<exists>r \<in> set rs. jr_kind r = ''action'' \<and> jr_id r = JString (act_id a) \<and> jr_body r = action_json a)
     \<and> (\<exists>r \<in> set rs. jr_kind r = ''effect'' \<and> jr_id r = JString (act_effect_id a))
     \<and> (\<exists>r \<in> set rs. jr_kind r = ''action-source''
          \<and> jr_id r = JArray [scope_json (act_scope a), JString (act_id a), JString (act_event_id a)])
     \<and> (\<forall>p \<in> set (act_inputs a). \<exists>r \<in> set rs. jr_kind r = ''action-dependency''
          \<and> jr_id r = JArray [scope_json (act_scope a), JString (act_id a), JString p])"

lemma recorded_mono: "recorded rs a \<Longrightarrow> set rs \<subseteq> set ss \<Longrightarrow> recorded ss a"
  unfolding recorded_def by blast

lemma build_action_Inr:
  assumes "build_action sha256 fm r n deps = Inr a"
  shows "action_of fm a" and "atoms (act_amount a) = n" and "act_inputs a = deps"
  using assms unfolding build_action_def Let_def action_of_def
  by (auto simp: money_new_def rbind_Inr_iff)

lemma action_records_recorded:
  assumes "action_records sha256 fm r a = Inr rs" and "action_of fm a"
  shows "recorded rs a"
proof -
  from assms(1) obtain effect body src deps where
    e: "effect_record sha256 fm r a (effect_facts_json fm r a) = Inr effect"
    and b: "generic sha256 ''action'' (fm_scope fm) (JString (act_id a)) (action_json a) = Inr body"
    and s: "generic sha256 ''action-source'' (fm_scope fm)
        (JArray [scope_json (fm_scope fm), JString (act_id a), JString (fm_event_id fm)])
        (jobj [(''schema'', JString ''ledger-action-source/1''), (''scope'', scope_json (fm_scope fm)),
          (''action_id'', JString (act_id a)), (''event_id'', JString (fm_event_id fm))]) = Inr src"
    and d: "rmap (dependency_record sha256 fm (act_id a)) (act_inputs a) = Inr deps"
    and rs: "rs = [effect, body, src] @ deps"
    unfolding action_records_def by (auto simp: rbind_Inr_iff)
  have "\<exists>r \<in> set deps. jr_kind r = ''action-dependency''
      \<and> jr_id r = JArray [scope_json (act_scope a), JString (act_id a), JString p]" if p: "p \<in> set (act_inputs a)" for p
  proof -
    obtain i where i: "i < length (act_inputs a)" "act_inputs a ! i = p" using p unfolding in_set_conv_nth by blast
    have "dependency_record sha256 fm (act_id a) p = Inr (deps ! i)" "deps ! i \<in> set deps"
      using rmap_Inr_nth[OF d i(1)] rmap_Inr_length[OF d] i by simp_all
    then show ?thesis using assms(2) by (auto simp: dependency_record_def generic_Inr action_of_def intro!: bexI[of _ "deps ! i"])
  qed
  moreover have "jr_kind effect = ''effect''" "jr_id effect = JString (act_effect_id a)"
    using e by (auto simp: effect_record_def generic_Inr rbind_Inr_iff)
  ultimately show ?thesis
    using b s assms(2) unfolding recorded_def rs by (auto simp: generic_Inr action_of_def)
qed

text \<open>An explanation shows its step.\<close>

definition explains :: "frame \<Rightarrow> explanation \<Rightarrow> nat \<times> step \<Rightarrow> bool" where
  "explains fm x numbered = (case numbered of (i, s) \<Rightarrow> ex_code x = st_code s \<and> ex_rounded_atoms x = st_rounded s
     \<and> ex_unrounded_atoms x = st_unrounded s \<and> ex_ordinal x = i mod 256 \<and> ex_event_id x = fm_event_id fm
     \<and> ex_rule_id x = map_option (\<lambda>i. r_id (cp_rules (fa_policy (fm_family fm)) ! i)) (st_rule s)
     \<and> ex_outcome x = (case st_rounded s of None \<Rightarrow> ''skipped'' | Some n \<Rightarrow> if n = 0 then ''zero'' else ''applied''))"

definition step_part :: "frame \<Rightarrow> journal_record list \<Rightarrow> (nat \<times> step) list \<Rightarrow> assembly \<Rightarrow> bool" where
  "step_part fm opening numbered al \<longleftrightarrow>
     map (\<lambda>a. atoms (act_amount a)) (al_actions al) = charged (map snd numbered)
     \<and> list_all2 (explains fm) (al_explanations al) numbered
     \<and> concat (map ex_action_ids (al_explanations al)) = map act_id (al_actions al)
     \<and> (\<forall>a \<in> set (al_actions al). action_of fm a \<and> recorded (al_records al) a)
     \<and> (\<exists>rs. al_records al = opening @ rs)"

lemma step_action_part:
  assumes "step_action sha256 fm rule s deps al = Inr (ids, al')" and "step_part fm opening numbered al"
  shows "map (\<lambda>a. atoms (act_amount a)) (al_actions al') = charged (map snd numbered) @ charged [s]"
    and "al_explanations al' = al_explanations al"
    and "map act_id (al_actions al') = map act_id (al_actions al) @ ids"
    and "\<forall>a \<in> set (al_actions al'). action_of fm a \<and> recorded (al_records al') a"
    and "\<exists>rs. al_records al' = opening @ rs"
    and "ids = [] \<longleftrightarrow> st_rounded s = None \<or> st_rounded s = Some 0"
  using assms(1)
proof -
  consider "ids = []" "al' = al" "charged [s] = []" "st_rounded s = None \<or> st_rounded s = Some 0"
    | n r i a rs where "st_rounded s = Some n" "n \<noteq> 0" "rule = Some r" "build_action sha256 fm r n deps = Inr a"
      "action_records sha256 fm r a = Inr rs" "ids = [act_id a]"
      "al' = al\<lparr>al_records := al_records al @ rs, al_actions := al_actions al @ [a],
              al_effect_facts := al_effect_facts al @ [effect_facts_json fm r a],
              al_rule_actions := (al_rule_actions al)[i := Some (act_id a)]\<rparr>"
    using assms(1) unfolding step_action_def
    by (auto simp: rbind_Inr_iff split: option.splits if_splits)
  then have "map (\<lambda>a. atoms (act_amount a)) (al_actions al') = charged (map snd numbered) @ charged [s]
    \<and> al_explanations al' = al_explanations al \<and> map act_id (al_actions al') = map act_id (al_actions al) @ ids
    \<and> (\<forall>a \<in> set (al_actions al'). action_of fm a \<and> recorded (al_records al') a)
    \<and> (\<exists>rs. al_records al' = opening @ rs) \<and> (ids = [] \<longleftrightarrow> st_rounded s = None \<or> st_rounded s = Some 0)"
  proof cases
    case 1
    then show ?thesis using assms(2) by (simp add: step_part_def)
  next
    case (2 n r i a rs)
    note a = build_action_Inr[OF 2(4)]
    have "recorded (al_records al @ rs) b" if "b \<in> set (al_actions al) \<or> b = a" for b
      using that action_records_recorded[OF 2(5) a(1)] assms(2) recorded_mono[of "al_records al" b "al_records al @ rs"]
        recorded_mono[of rs a "al_records al @ rs"]
      unfolding step_part_def by auto
    then show ?thesis using 2 a assms(2) by (auto simp: step_part_def)
  qed
  then show "map (\<lambda>a. atoms (act_amount a)) (al_actions al') = charged (map snd numbered) @ charged [s]"
    "al_explanations al' = al_explanations al" "map act_id (al_actions al') = map act_id (al_actions al) @ ids"
    "\<forall>a \<in> set (al_actions al'). action_of fm a \<and> recorded (al_records al') a"
    "\<exists>rs. al_records al' = opening @ rs" "ids = [] \<longleftrightarrow> st_rounded s = None \<or> st_rounded s = Some 0"
    by simp_all
qed

lemma rule_at_Inr:
  "rule_at p i = Inr r \<longleftrightarrow> (case i of None \<Rightarrow> r = None | Some i \<Rightarrow> i < length (cp_rules p) \<and> r = Some (cp_rules p ! i))"
  by (cases i) (auto simp: rule_at_def)

lemma assemble_step_part:
  assumes "assemble_step sha256 fm (i, s) al = Inr al'" and "step_part fm opening numbered al"
  shows "step_part fm opening (numbered @ [(i, s)]) al'"
proof -
  obtain rule ident extra refs deps basis input_refs ids al1 r' where
    r: "rule_at (fa_policy (fm_family fm)) (st_rule s) = Inr rule"
    and a: "step_action sha256 fm rule s deps al = Inr (ids, al1)"
    and al': "al' = al1\<lparr>al_records := al_records al1 @ [r'], al_explanations := al_explanations al1
      @ [step_explanation fm i s rule ident input_refs basis extra ids]\<rparr>"
    using assms(1) unfolding assemble_step_def by (auto simp: Let_def rbind_Inr_iff)
  define x where "x = step_explanation fm i s rule ident input_refs basis extra ids"
  note p = step_action_part[OF a assms(2)]
  have "explains fm x (i, s)"
    using r p(6) by (auto simp: explains_def x_def step_explanation_def outcome_of_def rule_at_Inr split: option.splits)
  moreover have "recorded (al_records al1 @ [r']) b" if "b \<in> set (al_actions al1)" for b
    using p(4) that recorded_mono[of "al_records al1" b "al_records al1 @ [r']"] by auto
  moreover have "list_all2 (explains fm) (al_explanations al) numbered" using assms(2) by (simp add: step_part_def)
  moreover have "concat (map ex_action_ids (al_explanations al)) = map act_id (al_actions al)"
    using assms(2) by (simp add: step_part_def)
  ultimately show ?thesis
    using p(1-5) unfolding step_part_def al' x_def[symmetric] by (auto simp: charged_append x_def step_explanation_def intro: list_all2_appendI)
qed

lemma assemble_steps_part:
  assumes "assemble_steps sha256 fm opening steps = Inr al"
  shows "step_part fm opening (enumerate 0 steps) al"
proof -
  have fold: "rfold (assemble_step sha256 fm) todo a0 = Inr al \<Longrightarrow> step_part fm opening numbered a0
      \<Longrightarrow> step_part fm opening (numbered @ todo) al" for todo numbered a0
  proof (induction todo arbitrary: numbered a0)
    case (Cons t todo)
    obtain i s where t: "t = (i, s)" by (cases t)
    with Cons.prems(1) obtain a1 where "assemble_step sha256 fm (i, s) a0 = Inr a1"
      "rfold (assemble_step sha256 fm) todo a1 = Inr al" by auto
    with Cons.IH[of a1 "numbered @ [t]"] assemble_step_part[of sha256 fm i s a0 a1] Cons.prems(2) t
    show ?case by simp
  qed simp
  show ?thesis
    using fold[OF assms[unfolded assemble_steps_def], of "[]"] by (simp add: step_part_def)
qed

section \<open>The net amount\<close>

lemma money_add_Inr:
  "money_checked_add x y = Inr m \<Longrightarrow> currency m = currency x \<and> mscale m = mscale x \<and> atoms m = atoms x + atoms y"
  by (auto simp: money_checked_add_def money_new_def rbind_Inr_iff split: if_splits)

lemma net_amount_Inr:
  assumes "net_amount p actions = Inr m"
  shows "currency m = cp_currency p \<and> mscale m = cp_scale p \<and> atoms m = (\<Sum>a \<leftarrow> actions. atoms (act_amount a))"
proof -
  have sum: "rfold (\<lambda>a sum. money_checked_add sum (act_amount a)) xs z = Inr m \<Longrightarrow>
      currency m = currency z \<and> mscale m = mscale z \<and> atoms m = atoms z + (\<Sum>a \<leftarrow> xs. atoms (act_amount a))" for xs z
  proof (induction xs arbitrary: z)
    case (Cons x xs)
    then obtain y where "money_checked_add z (act_amount x) = Inr y"
      "rfold (\<lambda>a sum. money_checked_add sum (act_amount a)) xs y = Inr m" by auto
    then show ?case using money_add_Inr[of z "act_amount x" y] Cons.IH[of y] by simp
  qed simp
  from assms obtain z where z: "money_new (cp_currency p) (cp_scale p) 0 = Inr z"
    "rfold (\<lambda>a sum. money_checked_add sum (act_amount a)) actions z = Inr m"
    by (auto simp: net_amount_def)
  then show ?thesis using sum[OF z(2)] by (auto simp: money_new_def rbind_Inr_iff)
qed

end
