(* ===== verification/Encoding_Safe.thy ===== *)
theory Encoding_Safe
  imports Encoding_Laws
begin

text \<open>
  Encoding never panics: on a value whose object keys are strings a program can hold, the emitter
  returns its text or one of its errors; so do the functions built on it. Results that are no
  panic compose.
\<close>

section \<open>Results without panics\<close>

definition safe :: "'a result \<Rightarrow> bool" where
  "safe r \<longleftrightarrow> r \<noteq> Inl Panic"

named_theorems calm

lemma safe_simps [simp, calm]: "safe (Inr x)" "safe (Inl (Error c d))"
  by (simp_all add: safe_def)

lemma safe_bind [calm]:
  assumes "safe m" and "\<And>x. m = Inr x \<Longrightarrow> safe (f x)"
  shows "safe (rbind m f)"
  using assms by (cases m) (auto simp: safe_def)

lemma safe_ensure [calm]: "e \<noteq> Panic \<Longrightarrow> safe (ensure b e)"
  by (simp add: safe_def ensure_def)

lemma safe_if [calm]: "(b \<Longrightarrow> safe r) \<Longrightarrow> (\<not> b \<Longrightarrow> safe s) \<Longrightarrow> safe (if b then r else s)"
  by simp

lemma safe_rfold [calm]:
  assumes "\<And>x s. x \<in> set xs \<Longrightarrow> safe (f x s)"
  shows "safe (rfold f xs s)"
  using assms by (induction xs arbitrary: s) (auto intro: safe_bind)

lemma safe_rfold_inv:
  assumes "P s" and "\<And>x s. x \<in> set xs \<Longrightarrow> P s \<Longrightarrow> safe (f x s) \<and> (\<forall>t. f x s = Inr t \<longrightarrow> P t)"
  shows "safe (rfold f xs s)"
  using assms
proof (induction xs arbitrary: s)
  case (Cons x xs)
  show ?case unfolding rfold.simps
  proof (rule safe_bind)
    show "safe (f x s)" using Cons.prems by simp
    fix t assume "f x s = Inr t"
    then have "P t" using Cons.prems by auto
    then show "safe (rfold f xs t)" by (rule Cons.IH) (use Cons.prems(2) in auto)
  qed
qed simp

lemma safe_rmap [calm]:
  assumes "\<And>x. x \<in> set xs \<Longrightarrow> safe (f x)"
  shows "safe (rmap f xs)"
  using assms by (induction xs) (auto intro!: safe_bind)

section \<open>The emitter\<close>

definition quiet :: "(unit, 'a) metered \<Rightarrow> bool" where
  "quiet m \<longleftrightarrow> fst (m ()) \<noteq> Inl Panic"

named_theorems quieting

lemma quiet_ok [quieting]: "quiet (mok x)" by (simp add: quiet_def mok_def mlift_def)

lemma quiet_err [quieting]: "e \<noteq> Panic \<Longrightarrow> quiet (merr e)" by (simp add: quiet_def merr_def mlift_def)

lemma quiet_lift [quieting]: "quiet (mlift (Inr x))"
  by (simp add: quiet_def mlift_def)

lemma fst_lift [simp]: "fst (mlift r w) = r"
  by (simp add: mlift_def)

lemma quiet_erases: "erases noop_work m r \<Longrightarrow> safe r \<Longrightarrow> quiet m"
  using erases_noop[of m r] by (simp add: quiet_def safe_def)

lemma quiet_bind [quieting]:
  assumes "quiet m" and "\<And>x. fst (m ()) = Inr x \<Longrightarrow> quiet (f x)"
  shows "quiet (mbind m f)"
  using assms unfolding quiet_def by (cases "fst (m ())") (auto simp: mbind_def split: prod.splits)

lemma quiet_then [quieting]: "quiet m \<Longrightarrow> quiet f \<Longrightarrow> quiet (mthen m f)"
  unfolding mthen_def by (rule quiet_bind)

lemma quiet_if [quieting]: "(b \<Longrightarrow> quiet m) \<Longrightarrow> (\<not> b \<Longrightarrow> quiet f) \<Longrightarrow> quiet (if b then m else f)"
  by simp

lemma quiet_mfold [quieting]:
  assumes "\<And>x s. x \<in> set xs \<Longrightarrow> quiet (f x s)"
  shows "quiet (mfold f xs s)"
  using assms by (induction xs arbitrary: s) (auto intro!: quiet_bind quiet_ok)

lemma quiet_callbacks [quieting]:
  "quiet (visit noop_work k)" "quiet (arithmetic noop_work k2 xs)" "quiet (scan_bytes noop_work n)"
  by (simp_all add: quiet_def noop_work_def)

lemma quiet_compare [quieting]: "quiet (compare noop_work a b)"
  by (simp add: quiet_def compare_def noop_work_def mthen_def mbind_def mok_def mlift_def)

lemma quiet_append [quieting]: "quiet (append_to noop_work s out)"
  by (rule quiet_erases[OF append_erases]) (simp add: destination_limit_def)

lemma quiet_string [quieting]: "quiet (emit_string noop_work s out)"
  unfolding emit_string_def by (intro quieting)

lemma quiet_number [quieting]: "quiet (emit_number noop_work v out)"
proof -
  have i: "quiet (emit_integer noop_work i out)" if "\<bar>i\<bar> \<le> SAFE" for i
  proof -
    have r: "in_i64 (- i)" using that unfolding int_ranges SAFE_def by linarith
    have d: "quiet (integer_digits noop_work v [])" if "v = \<bar>i\<bar>" for v
    proof -
      have "in_i64 (int (nat \<bar>i\<bar>))" using \<open>\<bar>i\<bar> \<le> SAFE\<close> unfolding int_ranges SAFE_def by linarith
      from quiet_erases[OF erases_integer_digits[OF this]] that show ?thesis by simp
    qed
    have t: "trap_i64 (- i) = Inr (- i)" using r by simp
    show ?thesis
      unfolding emit_integer_def t
      by (intro quieting d)
        (auto simp: mok_def mlift_def quiet_def compare_def noop_work_def mthen_def mbind_def cmp_of_def split: if_splits)
  qed
  show ?thesis
    unfolding emit_number_def unsafe_integer_def by (auto intro!: quieting i dest!: compare_result simp: cmp_of_def split: json.split if_splits)
qed

text \<open>Every object key is a string that a program can hold.\<close>

fun keyed :: "json \<Rightarrow> bool" where
  "keyed (JArray vs) \<longleftrightarrow> (\<forall>v \<in> set vs. keyed v)"
| "keyed (JObject m) \<longleftrightarrow> (\<forall>(k, v) \<in> set m. length k \<le> isize_max \<and> keyed v)"
| "keyed _ \<longleftrightarrow> True"

lemma keyed_nth:
  "keyed (JArray vs) \<Longrightarrow> (i, v) \<in> set (enumerate n vs) \<Longrightarrow> keyed v"
  by (auto simp: in_set_enumerate_eq)

lemma quiet_emit_at: "keyed v \<Longrightarrow> 33 \<le> k + d \<Longrightarrow> quiet (emit_at noop_work k v out d)"
proof (induction k arbitrary: v d out)
  case 0
  then have "cmp_of (int d) 32 = OrdGreater" by (simp add: cmp_of_def)
  then show ?case
    by (simp add: emit_value_def quiet_def compare_def noop_work_def mthen_def mbind_def mok_def mlift_def merr_def
        depth_error_def destination_limit_def split: option.split)
next
  case (Suc k)
  show ?case
  proof (cases "d \<le> 32")
    case False
    then have "cmp_of (int d) 32 = OrdGreater" by (simp add: cmp_of_def)
    then show ?thesis
      by (simp add: emit_value_def quiet_def compare_def noop_work_def mthen_def mbind_def mok_def mlift_def merr_def
        depth_error_def destination_limit_def split: option.split)
  next
    case True
    have add: "quiet (usize_add noop_work d 1)" and add_D: "fst (usize_add noop_work d 1 ()) = Inr n \<Longrightarrow> n = Suc d" for n
      using True erases_noop[OF depth_next[OF True, of noop_work]] by (auto simp: quiet_def)
    have rec: "quiet (emit_at noop_work k w o' n)" if "n = Suc d" "keyed w" for w o' n
      using Suc.IH[OF that(2), of "Suc d"] Suc.prems(2) that(1) by simp
    have depth: "depth_error out \<noteq> Panic" by (simp add: depth_error_def destination_limit_def split: option.split)
    show ?thesis
    proof (cases v)
      case (JArray vs)
      show ?thesis
        unfolding emit_at.simps emit_value_def JArray json.case
        by (intro quieting depth)
          (auto intro!: quieting add[simplified] rec dest!: add_D[simplified] intro: keyed_nth[OF Suc.prems(1)[unfolded JArray]])
    next
      case (JObject m)
      have m: "length key \<le> isize_max" "keyed item" if "(key, item) \<in> set m" for key item
        using Suc.prems(1) that unfolding JObject by auto
      have cmp: "erases noop_work (compare_keys noop_work a b) (Inr (cmp_of (encode_utf16 a) (encode_utf16 b)))"
        if ab: "a \<in> set (map fst m)" "b \<in> set (map fst m)" for a b
      proof -
        have "length a \<le> isize_max" "length b \<le> isize_max" using ab m(1) by auto
        then have "length a + length b \<le> u64_max" unfolding int_ranges by linarith
        then show ?thesis unfolding compare_keys_def key_comparison_bytes_def
          by (intro erases_then erases_visit erases_bind_ok[OF erases_usize_add] erases_scan erases_ok)
      qed
      have keys: "sorted_by noop_work (compare_keys noop_work) (map fst m) () = (Inr (sort_key encode_utf16 (map fst m)), ())"
        by (rule erases_noop, rule erases_sorted_by, rule cmp)
      have s: "quiet (sorted_by noop_work (compare_keys noop_work) (map fst m))" using keys by (simp add: quiet_def)
      have look: "\<exists>item. map_of m key = Some item \<and> keyed item" if "(i, key) \<in> set (enumerate 0 ks)"
        "fst (sorted_by noop_work (compare_keys noop_work) (map fst m) ()) = Inr ks" for i key ks
      proof -
        have "key \<in> fst ` set m" using that keys by (auto simp: in_set_enumerate_eq dest: nth_mem)
        then obtain item where "map_of m key = Some item" by (metis map_of_eq_None_iff not_None_eq)
        then show ?thesis using m(2) map_of_SomeD by metis
      qed
      show ?thesis
        unfolding emit_at.simps emit_value_def JObject json.case
        by (intro quieting depth s) (auto intro!: quieting add[simplified] rec dest!: add_D[simplified] look)
    qed (auto simp: emit_value_def intro!: quieting depth)
  qed
qed

text \<open>The functions built on the emitter.\<close>

lemma safe_from_value [calm]: "keyed v \<Longrightarrow> safe (from_value v)"
proof -
  assume k: "keyed v"
  have "quiet (from_value_with_work noop_work v)"
    unfolding from_value_with_work_def emit_def by (intro quieting quiet_emit_at k) simp_all
  then show ?thesis by (simp add: safe_def quiet_def from_value_def)
qed

lemma safe_keyed_by: "\<forall>x \<in> set xs. keyed (enc x) \<Longrightarrow> safe (keyed_by enc xs)"
  unfolding keyed_by_def by (intro calm) auto

lemma safe_sort_set [calm]: "(\<And>x. x \<in> set xs \<Longrightarrow> keyed (enc x)) \<Longrightarrow> safe (sort_set enc xs)"
  unfolding sort_set_plain duplicate_member_def by (intro calm safe_keyed_by) auto

lemma safe_domain_prefix [calm]: "safe (domain_prefix d)"
  by (cases d) (simp_all add: no_id_def)

lemma safe_hash_hex [calm]: "keyed v \<Longrightarrow> safe (hash_hex sha256 d v)"
  unfolding hash_hex_def hash_input_def by (intro calm)

lemma safe_digest [calm]: "keyed v \<Longrightarrow> safe (digest sha256 d v)"
  unfolding digest_def by (intro calm)

lemma safe_identity [calm]: "keyed v \<Longrightarrow> safe (identity sha256 d v)"
  unfolding identity_def by (intro calm)

lemma keyed_jobj:
  assumes "list_all (\<lambda>(k, v). length k \<le> isize_max \<and> keyed v) kvs"
  shows "keyed (jobj kvs)"
proof -
  define P where "P = (\<lambda>e :: string \<times> json. length (fst e) \<le> isize_max \<and> keyed (snd e))"
  have "\<forall>e \<in> set kvs. P e" using assms by (auto simp: P_def list_all_iff)
  then have "\<forall>e \<in> set m. P e \<Longrightarrow> \<forall>e \<in> set (fold (\<lambda>(k, v). om_insert k v) kvs m). P e" for m
  proof (induction kvs arbitrary: m)
    case (Cons e kvs)
    obtain k v where e: "e = (k, v)" by (cases e)
    have "P x" if "x \<in> set (om_insert k v m)" for x
      using om_insert_set[OF that] Cons.prems e by auto
    then show ?case using Cons.IH[of "om_insert k v m"] Cons.prems by (simp add: e)
  qed simp
  from this[of "[]"] show ?thesis by (auto simp: jobj_def P_def)
qed

lemma good_keyed: "good d v \<Longrightarrow> keyed v"
proof (induction v arbitrary: d rule: keyed.induct)
  case (2 m)
  have "length k \<le> isize_max \<and> keyed v" if e: "(k, v) \<in> set m" for k v
  proof -
    have "om_ok m" using 2(2) by (simp add: good_def)
    from om_ok_distinct[OF this] e have "map_of m k = Some v" by (rule map_of_is_SomeI)
    moreover have "k \<in> fst ` set m" using e by force
    ultimately have "readable (Suc d) v" using 2(2) by (auto simp: good_def)
    moreover have "\<forall>(k, v) \<in> set m. str_ok k \<and> json_ok v" using 2(2) by (simp add: good_def)
    with e have "str_ok k" "json_ok v" by auto
    ultimately have "good (Suc d) v" "str_ok k" by (simp_all add: good_def)
    then show ?thesis using 2(1)[OF e refl] by (simp add: str_ok_def)
  qed
  then show ?case by auto
qed (auto simp: good_array list_all_iff)

lemma short_key: "length k \<le> 100 \<Longrightarrow> length k \<le> isize_max"
  by (simp add: isize_max_def)

end
