(* ===== verification/Assembly_Safe.thy ===== *)
theory Assembly_Safe
  imports Assembly_Laws Encoding_Safe Event_Properties
begin

text \<open>
  The assembly of a decision never panics on an input that the constructors built: the six
  documents are there with their data, the fields that normalization fills in are present, no index
  is out of range, and every value that is encoded has keys a program can hold.
\<close>

section \<open>Values\<close>

lemma keyed_member [simp]:
  "list_all (\<lambda>(k, v). length k \<le> n \<and> keyed v) (member key enc v) \<longleftrightarrow>
     (v \<noteq> None \<longrightarrow> length key \<le> n) \<and> some_ok (\<lambda>x. keyed (enc x)) v"
  by (auto simp: member_def split: option.split)

lemma some_ok_True [simp]: "some_ok (\<lambda>_. True) v"
  by (cases v) simp_all

lemma keyed_leaves [simp]:
  "keyed (jstr n)" "keyed (jopt s)" "keyed (strings_json ss)" "keyed (revision_json r)" "keyed (timestamp_json t)"
  "keyed (scope_json sc)" "keyed (kind_json k)" "keyed (action_kind_json ak)" "keyed (decimal_json d)"
  by (cases s; cases ak; simp add: jstr_def strings_json_def revision_json_def timestamp_json_def scope_json_def
      kind_json_def decimal_json_def)+

lemma keyed_objects [simp]:
  "keyed (roles_json r)" "keyed (money_json m)" "keyed (ratio_json x)" "keyed (purpose_json d)"
  "keyed (context_json c)" "keyed (ref_json er)" "keyed (link_json l)" "keyed (triple_json t)"
  unfolding roles_json_def money_json_def ratio_json_def purpose_json_def context_json_def ref_json_def link_json_def triple_json_def
  by (auto intro!: keyed_jobj simp: isize_max_def ref_json_def split: prod.split)

lemma keyed_input [simp]: "keyed (explanation_input_json i)"
  by (cases i) (auto intro!: keyed_jobj simp: isize_max_def)

lemma keyed_explanation [simp]: "keyed (explanation_json x)"
  unfolding explanation_json_def by (auto intro!: keyed_jobj simp: isize_max_def)

lemma keyed_action [simp]: "keyed (action_json a)" "keyed (breakdown_json a)"
  unfolding action_json_def breakdown_json_def by (auto intro!: keyed_jobj simp: isize_max_def)

lemma keyed_obligation [simp]: "keyed (obligation_json p)"
  unfolding obligation_json_def by (auto intro!: keyed_jobj simp: isize_max_def)

lemma keyed_plan_parts [simp]: "keyed (intention_json n)" "keyed (receipt_json rc)"
  unfolding intention_json_def receipt_json_def by (auto intro!: keyed_jobj simp: isize_max_def)

section \<open>Inputs\<close>

text \<open>What normalization and resolution guarantee of an event.\<close>

definition event_ok :: "event \<Rightarrow> bool" where
  "event_ok e \<longleftrightarrow> dto_ok (e_dto e) \<and> ev_chain (e_dto e) \<noteq> None \<and> ev_operation_id (cd_dto (e_candidate e)) \<noteq> None
     \<and> (is_work (ev_kind (e_dto e)) \<longrightarrow> ev_quantity (e_dto e) \<noteq> None)
     \<and> length (cd_ingress (e_candidate e)) \<le> CANDIDATE_LIMIT"

lemma normal_dto_present:
  assumes "normal_dto df d = Inr d'"
  shows "ev_operation_id d' \<noteq> None" and "is_work (ev_kind d') \<longrightarrow> ev_quantity d' \<noteq> None"
proof -
  let ?d0 = "d\<lparr>ev_operation_id := or_default (ev_operation_id d) (ev_id d)\<rparr>"
  from assms obtain d1 where s: "normal_sets (source_of d df) ?d0 = Inr d1" and k: "normal_kind d1 = Inr d'"
    unfolding normal_dto_Inr by blast
  have "ev_operation_id d1 = or_default (ev_operation_id d) (ev_id d)" using s unfolding normal_sets_Inr by auto
  then show "ev_operation_id d' \<noteq> None" using normal_kind_fields(6)[OF k] by simp
  show "is_work (ev_kind d') \<longrightarrow> ev_quantity d' \<noteq> None"
    using k by (cases rule: normal_kind_cases) (auto simp: normal_work_Inr)
qed

lemma resolve_Inr:
  assumes "resolve sha256 c parent = Inr e"
  obtains chain where "e_candidate e = c" "resolved_chain sha256 c parent = Inr chain"
    "e_dto e = (cd_dto c)\<lparr>ev_source := Some (cd_source c), ev_chain := Some chain\<rparr>"
    "parent \<noteq> None \<Longrightarrow> check_text (the parent) 128 = Inr ()"
    "from_value (event_json (e_dto e)) = Inr (e_bytes e)"
    "digest sha256 DomEventContent (event_json (e_dto e)) = Inr (e_content_hash e)"
  using assms unfolding resolve_def
  by (cases parent) (auto simp: rbind_Inr_iff Let_def opt_check_def check_parent_def)

text \<open>SHA-256 gives 32 bytes.\<close>

definition sha_ok :: "(string \<Rightarrow> string) \<Rightarrow> bool" where
  "sha_ok sha256 \<longleftrightarrow> (\<forall>s. length (sha256 s) = 32)"

lemma hex_ok: "length s = 32 \<Longrightarrow> ascii (hex s) \<and> length (hex s) = 64"
  by (simp add: hex_ascii hex_length)

lemma resolved_event_ok:
  assumes "serde_ok serde" and "arrays_fit serde CANDIDATE_LIMIT" and "str_ok df" and "sha_ok sha256"
    and "normalize serde explain sha256 bytes scope df = Inr c" and "some_ok str_ok parent"
    and "resolve sha256 c parent = Inr e"
  shows "event_ok e"
proof -
  note p = normalize_parts[OF assms(1,2,3,5)]
  obtain d0 where d0: "normal_dto df d0 = Inr (cd_dto c)" and len: "length (cd_ingress c) \<le> CANDIDATE_LIMIT"
    using assms(5) unfolding normalize_Inr by blast
  from assms(7) obtain chain where e: "e_candidate e = c" "resolved_chain sha256 c parent = Inr chain"
    "e_dto e = (cd_dto c)\<lparr>ev_source := Some (cd_source c), ev_chain := Some chain\<rparr>" by (rule resolve_Inr)
  have "str_ok chain"
  proof (cases "ev_chain (cd_dto c)")
    case (Some x)
    then show ?thesis using e(2) p(1) by (auto simp: resolved_chain_def dto_ok_def)
  next
    case none: None
    show ?thesis
    proof (cases parent)
      case (Some x)
      then show ?thesis using e(2) assms(6) none by (auto simp: resolved_chain_def)
    next
      case None
      then obtain h where "chain = ''auto-'' @ h" "ascii h" "length h = 64"
        using e(2) none assms(4)
        by (auto simp: resolved_chain_def auto_chain_def rbind_Inr_iff hash_hex_def hex_ok sha_ok_def split: if_splits)
      then show ?thesis by (auto intro!: str_ok_ascii simp: byte_def)
    qed
  qed
  then show ?thesis
    using p(1,2) e normal_dto_present[OF d0] len by (simp add: event_ok_def dto_ok_def)
qed

text \<open>What parsing guarantees of a document: its purpose is that of its data.\<close>

fun purpose_of :: "document_data \<Rightarrow> string" where
  "purpose_of (PolicyData _) = ''policy''"
| "purpose_of (RolesData _) = ''roles''"
| "purpose_of (AssentData _) = ''assent''"
| "purpose_of (GrantData _) = ''source_grant''"
| "purpose_of (ContextData _) = ''chain_context''"
| "purpose_of (BindingData _) = ''binding''"

definition document_ok :: "document \<Rightarrow> bool" where
  "document_ok d \<longleftrightarrow> doc_purpose d = purpose_of (doc_data d)
     \<and> (case doc_data d of
          PolicyData p \<Rightarrow> policy_ok p
        | ContextData c \<Rightarrow> doc_body d = context_json c
        | _ \<Rightarrow> True)"

lemma parsed_data:
  "parse_policy explain v = Inr (x, b) \<Longrightarrow> \<exists>p. x = PolicyData p \<and> policy_ok p"
  "parse_roles explain schema v = Inr (x, b) \<Longrightarrow> \<exists>r. x = RolesData r"
  "parse_assent explain v = Inr (x, b) \<Longrightarrow> \<exists>a. x = AssentData a"
  "parse_grant explain v = Inr (x, b) \<Longrightarrow> \<exists>g. x = GrantData g"
  "parse_context explain v = Inr (x, b) \<Longrightarrow> \<exists>c. x = ContextData c \<and> b = context_json c"
  "parse_binding explain v = Inr (x, b) \<Longrightarrow> \<exists>bi. x = BindingData bi"
  subgoal by (auto simp: parse_policy_def rbind_Inr_iff policy_compile_ok)
  subgoal by (cases v) (auto simp: parse_roles_def rbind_Inr_iff Let_def)
  subgoal by (auto simp: parse_assent_def rbind_Inr_iff)
  subgoal by (auto simp: parse_grant_def rbind_Inr_iff Let_def)
  subgoal by (auto simp: parse_context_def rbind_Inr_iff Let_def)
  subgoal by (auto simp: parse_binding_def rbind_Inr_iff Let_def)
  done

lemma parsed_document_ok:
  assumes "document_parse serde explain sha256 bytes = Inr d"
  shows "document_ok d"
proof -
  obtain schema v k p x b where f: "document_family explain schema v = Inr (k, p, x, b)"
    and d: "doc_purpose d = p" "doc_data d = x" "doc_body d = b"
    using assms unfolding document_parse_def by (auto simp: Let_def)
  from f have "p = purpose_of x \<and> (case x of PolicyData p \<Rightarrow> policy_ok p | ContextData c \<Rightarrow> b = context_json c | _ \<Rightarrow> True)"
    unfolding document_family_def by (auto split: if_splits dest!: parsed_data)
  then show ?thesis by (cases x) (simp_all add: document_ok_def d)
qed

definition purposes :: "string list" where
  "purposes = [''policy'', ''roles'', ''assent'', ''source_grant'', ''chain_context'', ''binding'']"

lemma purpose_known: "purpose_of x \<in> set purposes"
  by (cases x) (simp_all add: purposes_def)

lemma purposes_fold:
  "rfold (\<lambda>d (seen, bytes). if doc_purpose d \<in> seen then Inl (Error ''DUPLICATE'' ''document purpose'')
      else Inr (insert (doc_purpose d) seen, bytes + length (doc_bytes d))) docs (seen, n) = Inr r
   \<Longrightarrow> distinct (map doc_purpose docs) \<and> doc_purpose ` set docs \<inter> seen = {}"
  by (induction docs arbitrary: seen n) (auto split: if_splits)

lemma checked_documents:
  assumes "check_documents docs = Inr ()"
  shows "length docs = 6" and "distinct (map doc_purpose docs)"
  using assms purposes_fold[of docs "{}" 0] unfolding check_documents_def
  by (auto simp: rbind_Inr_iff split: if_splits)

lemma find_first: "x \<in> set xs \<Longrightarrow> P x \<Longrightarrow> \<exists>y \<in> set xs. P y \<and> find P xs = Some y"
  by (induction xs) auto

text \<open>Six documents of distinct purposes are one of each.\<close>

lemma documents_complete:
  assumes "check_documents docs = Inr ()" and "\<forall>d \<in> set docs. document_ok d" and "p \<in> set purposes"
  shows "\<exists>d. document_for docs p = Inr d \<and> d \<in> set docs \<and> purpose_of (doc_data d) = p"
proof -
  have sub: "doc_purpose ` set docs \<subseteq> set purposes"
    using assms(2) purpose_known by (auto simp: document_ok_def)
  have "card (doc_purpose ` set docs) = 6"
    using checked_documents[OF assms(1)] distinct_card[of "map doc_purpose docs"] by simp
  moreover have "card (set purposes) = 6" by (simp add: purposes_def)
  ultimately have "doc_purpose ` set docs = set purposes" using card_subset_eq[OF _ sub] by simp
  with assms(3) have "p \<in> doc_purpose ` set docs" by (simp only:)
  then obtain d where "d \<in> set docs" "doc_purpose d = p" by auto
  then obtain d' where f: "find (\<lambda>d. doc_purpose d = p) docs = Some d'" "d' \<in> set docs" "doc_purpose d' = p"
    using find_first[of d docs "\<lambda>d. doc_purpose d = p"] by blast
  then show ?thesis using f assms(2) by (auto simp: document_for_def document_ok_def)
qed

lemma data_cases:
  "purpose_of x = ''policy'' \<Longrightarrow> \<exists>p. x = PolicyData p" "purpose_of x = ''roles'' \<Longrightarrow> \<exists>r. x = RolesData r"
  "purpose_of x = ''assent'' \<Longrightarrow> \<exists>a. x = AssentData a" "purpose_of x = ''source_grant'' \<Longrightarrow> \<exists>g. x = GrantData g"
  "purpose_of x = ''chain_context'' \<Longrightarrow> \<exists>c. x = ContextData c" "purpose_of x = ''binding'' \<Longrightarrow> \<exists>b. x = BindingData b"
  by (cases x; simp)+

definition documents_ok :: "document list \<Rightarrow> bool" where
  "documents_ok docs \<longleftrightarrow> check_documents docs = Inr () \<and> (\<forall>d \<in> set docs. document_ok d)"

lemma family_complete:
  assumes "documents_ok docs"
  shows "\<exists>f. family_of docs = Inr f \<and> policy_ok (fa_policy f)"
proof -
  have d: "\<exists>d. document_for docs p = Inr d \<and> document_ok d \<and> purpose_of (doc_data d) = p" if "p \<in> set purposes" for p
    using documents_complete[OF _ _ that, of docs] assms unfolding documents_ok_def by blast
  obtain d1 where 1: "document_for docs ''policy'' = Inr d1" "document_ok d1" "purpose_of (doc_data d1) = ''policy''"
    using d[of "''policy''"] by (auto simp: purposes_def)
  obtain d2 where 2: "document_for docs ''roles'' = Inr d2" "purpose_of (doc_data d2) = ''roles''"
    using d[of "''roles''"] by (auto simp: purposes_def)
  obtain d3 where 3: "document_for docs ''assent'' = Inr d3" "purpose_of (doc_data d3) = ''assent''"
    using d[of "''assent''"] by (auto simp: purposes_def)
  obtain d4 where 4: "document_for docs ''source_grant'' = Inr d4" "purpose_of (doc_data d4) = ''source_grant''"
    using d[of "''source_grant''"] by (auto simp: purposes_def)
  obtain d5 where 5: "document_for docs ''chain_context'' = Inr d5" "purpose_of (doc_data d5) = ''chain_context''"
    using d[of "''chain_context''"] by (auto simp: purposes_def)
  obtain d6 where 6: "document_for docs ''binding'' = Inr d6" "purpose_of (doc_data d6) = ''binding''"
    using d[of "''binding''"] by (auto simp: purposes_def)
  from data_cases(1)[OF 1(3)] data_cases(2)[OF 2(2)] data_cases(3)[OF 3(2)] data_cases(4)[OF 4(2)]
    data_cases(5)[OF 5(2)] data_cases(6)[OF 6(2)]
  show ?thesis
    using 1 2(1) 3(1) 4(1) 5(1) 6(1)
    by (auto simp: family_of_def data_for_def document_ok_def)
qed

section \<open>Validation\<close>

lemma safe_revision_next [calm]: "safe (revision_next r)"
  using revision_next_cases[of r] by (auto simp: revision_exhausted_def)

lemma safe_ratio_new [calm]: "safe (ratio_new n d)"
  unfolding ratio_new_def bounded_def overflow_def positive_denominator_def by (auto simp: Let_def)

lemma safe_ratio_add [calm]: "safe (ratio_add x y)"
  unfolding ratio_add_def bounded_def overflow_def Let_def by (auto intro!: safe_bind safe_ratio_new)

lemma safe_resolved_new:
  assumes "event_ok e" and "\<forall>d \<in> set docs. document_ok d"
  shows "safe (resolved_new e docs x)"
proof -
  let ?input = "\<lparr>ri_event = e, ri_documents = docs, ri_context = x\<rparr>"
  have refs: "safe (check_references docs b)" if ok: "documents_ok docs" for b
    unfolding check_references_def
  proof (intro safe_rfold, clarify)
    fix actual purpose
    assume "(actual, purpose) \<in> set [(bi_policy b, ''policy''), (bi_roles b, ''roles''), (bi_assent b, ''assent''),
        (bi_context b, ''chain_context'')]"
    then have "purpose \<in> set purposes" by (auto simp: purposes_def)
    then obtain d where "document_for docs purpose = Inr d"
      using documents_complete[of docs purpose] ok unfolding documents_ok_def by blast
    then show "safe (rbind (document_for docs purpose) (\<lambda>d. ensure (actual = doc_id d)
        (Error ''DOCUMENT_MISMATCH'' ''binding document reference'')))" by (simp add: safe_ensure)
  qed
  have quantity: "safe (check_quantity b (e_dto e))" if "\<not> unsupported_event (e_dto e)" for b
  proof -
    have "is_work (ev_kind (e_dto e))" using that by (simp add: unsupported_event_def is_work_def)
    then obtain q where "ev_quantity (e_dto e) = Some q" using assms(1) by (auto simp: event_ok_def)
    then show ?thesis unfolding check_quantity_def by (auto intro!: calm)
  qed
  have terms: "safe (check_terms ?input f)" if "documents_ok docs" "\<not> unsupported_event (e_dto e)" for f
    unfolding check_terms_def Let_def
    by (intro calm) (use refs[OF that(1)] quantity[OF that(2)] in \<open>simp_all add: check_references_def\<close>)
  have "safe (validate ?input)"
    unfolding validate_def
  proof (intro safe_bind, goal_cases)
    case 1
    show ?case unfolding check_documents_def by (intro calm) (auto intro!: calm split: prod.split)
  next
    case (3 u v)
    then have "documents_ok docs" using assms(2) by (simp add: documents_ok_def)
    then show ?case using family_complete by fastforce
  next
    case (4 u v f)
    then show ?case using terms assms(2) by (simp add: documents_ok_def)
  qed (auto intro!: calm)
  then show ?thesis unfolding resolved_new_def Let_def by (intro calm)
qed

section \<open>The frame\<close>

lemma safe_parse:
  assumes "serde_ok serde" and "arrays_fit serde (length bytes)"
  shows "safe (parse serde bytes)"
proof -
  have "q_parse serde bytes limit \<noteq> Inl Panic" for limit
    using q_value_panic[of 33 0 serde bytes]
    by (auto simp: q_parse_def rbind_def json_error_def split: sum.splits prod.splits if_splits)
  then show ?thesis using parse_bounded_eq[OF assms] by (simp add: safe_def parse_def)
qed

lemma keyed_event: "dto_ok d \<Longrightarrow> keyed (event_json d)"
  by (rule good_keyed[OF event_json_good])

lemma check_text_safe [calm]: "safe (check_text s n)"
  unfolding check_text_def invalid_text_def by (intro calm) simp

lemma prefixed_safe [calm]: "safe (prefixed s p)"
  unfolding prefixed_def by (cases "strip_prefix p s") (auto intro!: calm)

definition has_operation :: "event \<Rightarrow> bool" where
  "has_operation e \<longleftrightarrow> ev_operation_id (cd_dto (e_candidate e)) \<noteq> None"

lemma safe_claim_id:
  assumes "event_ok e"
  shows "safe (completion_claim_id sha256 e)"
  using assms unfolding completion_claim_id_def operation_id_def event_ok_def
  by (auto intro!: safe_identity)

lemma safe_chain: "event_ok e \<Longrightarrow> \<exists>chain. event_chain e = Inr chain"
  by (auto simp: event_chain_def event_ok_def)

lemma safe_facts:
  assumes "event_ok e"
  shows "safe (completion_facts sha256 e links)"
proof -
  have "safe (check_triple e t)" for t unfolding check_triple_def by (auto intro!: calm split: prod.split)
  then show ?thesis
    unfolding completion_facts_def Let_def
    using safe_chain[OF assms] by (intro calm safe_claim_id[OF assms]) (auto intro!: calm)
qed

lemma keyed_facts:
  assumes "completion_facts sha256 e links = Inr facts"
  shows "keyed facts"
  using assms unfolding completion_facts_def
  by (auto simp: Let_def json_opt_def isize_max_def intro!: keyed_jobj split: option.split)

lemma document_for_ok:
  assumes "documents_ok docs" and "p \<in> set purposes"
  shows "safe (document_for docs p)"
  using documents_complete[of docs p] assms unfolding documents_ok_def by fastforce

lemma context_body:
  assumes "documents_ok docs" and "document_for docs ''chain_context'' = Inr d"
  shows "\<exists>c. doc_body d = context_json c"
proof -
  obtain d' where d: "document_for docs ''chain_context'' = Inr d'" "d' \<in> set docs" "purpose_of (doc_data d') = ''chain_context''"
    using documents_complete[of docs "''chain_context''"] assms(1) unfolding documents_ok_def purposes_def by auto
  obtain c where c: "doc_data d' = ContextData c" using data_cases(5)[OF d(3)] by blast
  have "document_ok d'" using assms(1) d(2) by (simp add: documents_ok_def)
  moreover have "d' = d" using d(1) assms(2) by simp
  ultimately have "doc_body d = context_json c" using c by (simp add: document_ok_def)
  then show ?thesis by blast
qed

lemma without_schema_ok:
  "\<exists>v. without_schema (context_json c) = Inr v \<and> keyed v"
proof -
  have k: "keyed (context_json c)" by simp
  have "\<exists>m. context_json c = JObject m" by (simp add: context_json_def jobj_def)
  then obtain m where m: "context_json c = JObject m" by blast
  then show ?thesis using k by (auto simp: without_schema_def om_remove_def)
qed

lemma context_value:
  assumes "documents_ok docs" and "document_for docs ''chain_context'' = Inr d"
  shows "\<exists>v. without_schema (doc_body d) = Inr v \<and> keyed v"
proof -
  obtain c where "doc_body d = context_json c" using context_body[OF assms] by blast
  then show ?thesis using without_schema_ok[of c] by simp
qed

lemma keyed_purposes:
  assumes "sort_set (\<lambda>v. v) (map purpose_json xs) = Inr ys"
  shows "\<forall>x \<in> set ys. keyed x"
  using sort_set_same(1)[OF assms] by auto

lemma keyed_snapshot:
  assumes "keyed v" and "\<forall>x \<in> set docs. keyed x"
  shows "keyed (snapshot_json input f grant docs v)"
  unfolding snapshot_json_def Let_def using assms
  by (auto intro!: keyed_jobj simp: isize_max_def)

lemma safe_frame:
  assumes e: "event_ok (ri_event input)" and docs: "documents_ok (ri_documents input)"
  shows "safe (frame_of sha256 input)"
proof -
  have d: "safe (document_for (ri_documents input) p)" if "p \<in> set purposes" for p
    using document_for_ok[OF docs that] .
  have f: "safe (family_of (ri_documents input))" using family_complete[OF docs] by auto
  have c: "safe (without_schema (doc_body x))" if x: "document_for (ri_documents input) ''chain_context'' = Inr x" for x
    using context_value[OF docs x] by auto
  have ck: "keyed v" if x: "document_for (ri_documents input) ''chain_context'' = Inr x" "without_schema (doc_body x) = Inr v" for x v
    using context_value[OF docs x(1)] x(2) by auto
  obtain chain where chain: "event_chain (ri_event input) = Inr chain" using safe_chain[OF e] by blast
  show ?thesis
    unfolding frame_of_def Let_def chain
    by (intro calm safe_claim_id[OF e] safe_facts[OF e] d f c)
      (auto simp: purposes_def intro!: keyed_snapshot dest: ck keyed_purposes)
qed

text \<open>What the later parts use of the frame.\<close>

definition frame_ok :: "frame \<Rightarrow> bool" where
  "frame_ok fm \<longleftrightarrow> keyed (fm_snapshot fm) \<and> keyed (fm_claim_facts fm) \<and> policy_ok (fa_policy (fm_family fm))"

lemma frame_ok:
  assumes docs: "documents_ok (ri_documents input)" and "frame_of sha256 input = Inr fm"
  shows "frame_ok fm" and "family_of (ri_documents input) = Inr (fm_family fm)" and "fm_scope fm = event_scope (ri_event input)"
    and "fm_event_id fm = event_ident (ri_event input)"
proof -
  from assms(2) obtain x documents v chain where
    "document_for (ri_documents input) ''chain_context'' = Inr x"
    "sort_set (\<lambda>v. v) (map purpose_json (ri_documents input)) = Inr documents" "without_schema (doc_body x) = Inr v"
    and f: "family_of (ri_documents input) = Inr (fm_family fm)"
    and s: "fm_snapshot fm = snapshot_json input (fm_family fm) chain documents v"
    and facts: "completion_facts sha256 (ri_event input) [] = Inr (fm_claim_facts fm)"
    unfolding frame_of_def Let_def by auto
  then have "keyed v" and "\<forall>x \<in> set documents. keyed x"
    using context_value[OF docs, of x] keyed_purposes[of "ri_documents input" documents] by auto
  then have "keyed (fm_snapshot fm)" unfolding s by (rule keyed_snapshot)
  then show "frame_ok fm"
    using keyed_facts[OF facts] family_complete[OF docs] f by (auto simp: frame_ok_def)
  show "family_of (ri_documents input) = Inr (fm_family fm)" by (rule f)
  show "fm_scope fm = event_scope (ri_event input)" "fm_event_id fm = event_ident (ri_event input)"
    using assms(2) unfolding frame_of_def Let_def by auto
qed

section \<open>Records\<close>

definition keyed_record :: "journal_record \<Rightarrow> bool" where
  "keyed_record r \<longleftrightarrow> keyed (jr_id r) \<and> keyed (jr_body r)"

lemma safe_generic [calm]: "keyed body \<Longrightarrow> safe (generic sha256 kind s i body)"
  unfolding generic_def by (intro calm) simp_all

lemma generic_keyed: "generic sha256 kind s i body = Inr r \<Longrightarrow> keyed i \<Longrightarrow> keyed body \<Longrightarrow> keyed_record r"
  by (auto simp: generic_Inr keyed_record_def)

lemma arrays_fit_le: "arrays_fit serde m \<Longrightarrow> n \<le> m \<Longrightarrow> arrays_fit serde n"
  by (auto simp: arrays_fit_def intro: order_trans[rotated])

text \<open>The members of a journal body are leaves and values known to be keyed.\<close>

lemma keyed_body:
  assumes "\<forall>e \<in> set kvs. length (fst e) \<le> 100 \<and> keyed (snd e)"
  shows "keyed (jobj kvs)"
  using assms by (intro keyed_jobj) (auto simp: list_all_iff isize_max_def)

lemma snapshot_ref_safe:
  "safe (snapshot_ref sha256 fm entry)" "snapshot_ref sha256 fm entry = Inr r \<Longrightarrow> keyed_record r"
  by (cases entry; auto simp: snapshot_ref_def rbind_Inr_iff intro!: calm keyed_body dest!: generic_keyed)+

lemma delivery_safe:
  assumes "serde_ok serde" and "arrays_fit serde CANDIDATE_LIMIT" and "event_ok e"
  shows "safe (delivery_record serde sha256 e)" and "delivery_record serde sha256 e = Inr r \<Longrightarrow> keyed_record r"
proof -
  have fit: "arrays_fit serde (length (cd_ingress (e_candidate e)))"
    using assms(2,3) arrays_fit_le by (auto simp: event_ok_def)
  have k: "keyed v" if v: "parse serde (cd_ingress (e_candidate e)) = Inr v" for v
    using parse_good[OF assms(1) fit v[unfolded parse_def]] good_keyed by blast
  show "safe (delivery_record serde sha256 e)"
    unfolding delivery_record_def by (intro calm safe_parse[OF assms(1) fit] keyed_body) (auto dest: k)
  show "delivery_record serde sha256 e = Inr r \<Longrightarrow> keyed_record r"
    unfolding delivery_record_def by (auto simp: rbind_Inr_iff intro!: keyed_body dest!: generic_keyed dest: k)
qed

lemma claim_record_safe:
  assumes "event_ok e" and "keyed (fm_claim_facts fm)"
  shows "safe (claim_record sha256 fm e)" and "claim_record sha256 fm e = Inr r \<Longrightarrow> keyed_record r"
proof -
  have o: "safe (operation_id (e_candidate e))" using assms(1) by (auto simp: operation_id_def event_ok_def)
  show "safe (claim_record sha256 fm e)"
    unfolding claim_record_def by (intro calm o assms(2) keyed_body) auto
  show "claim_record sha256 fm e = Inr r \<Longrightarrow> keyed_record r"
    unfolding claim_record_def by (auto simp: rbind_Inr_iff intro!: keyed_body dest!: generic_keyed)
qed

lemma rmap_Inr_all:
  assumes "rmap f xs = Inr ys" and "\<And>x y. f x = Inr y \<Longrightarrow> P y"
  shows "\<forall>y \<in> set ys. P y"
  using assms by (induction xs arbitrary: ys) auto

lemma opening_safe:
  assumes "serde_ok serde" and "arrays_fit serde CANDIDATE_LIMIT" and e: "event_ok (ri_event input)" and fm: "frame_ok fm"
  shows "safe (opening_records serde sha256 input fm)"
    and "opening_records serde sha256 input fm = Inr rs \<Longrightarrow> \<forall>r \<in> set rs. keyed_record r"
proof -
  have c: "keyed (fm_claim_facts fm)" using fm by (simp add: frame_ok_def)
  show "safe (opening_records serde sha256 input fm)"
    unfolding opening_records_def Let_def
    by (intro calm snapshot_ref_safe delivery_safe[OF assms(1,2) e] claim_record_safe[OF e c])
  assume "opening_records serde sha256 input fm = Inr rs"
  then obtain refs delivery claim where
    refs: "rmap (snapshot_ref sha256 fm) (map (\<lambda>d. (doc_purpose d, doc_id d)) (ri_documents input)
         @ [(''decision_snapshot'', fm_snapshot_id fm)]) = Inr refs"
    and d: "delivery_record serde sha256 (ri_event input) = Inr delivery"
    and cl: "claim_record sha256 fm (ri_event input) = Inr claim"
    and rs: "rs = snapshot_record fm # refs @ [event_record (ri_event input), delivery, claim]"
    unfolding opening_records_def Let_def by (auto simp: rbind_Inr_iff)
  have "\<forall>r \<in> set refs. keyed_record r" by (rule rmap_Inr_all[OF refs]) (rule snapshot_ref_safe)
  moreover have "keyed_record (snapshot_record fm)" using fm by (simp add: keyed_record_def snapshot_record_def frame_ok_def)
  moreover have "keyed_record (event_record (ri_event input))"
    using e by (simp add: keyed_record_def event_record_def event_ok_def keyed_event)
  ultimately show "\<forall>r \<in> set rs. keyed_record r"
    using delivery_safe(2)[OF assms(1,2) e d] claim_record_safe(2)[OF e c cl] by (simp add: rs)
qed

section \<open>Steps\<close>

text \<open>A step names a rule of the policy, and has an amount only for a rule.\<close>

definition step_ok :: "compiled_policy \<Rightarrow> step \<Rightarrow> bool" where
  "step_ok p s \<longleftrightarrow> (case st_rule s of None \<Rightarrow> st_rounded s = None | Some i \<Rightarrow> i < length (cp_rules p))"

lemma safe_evaluate:
  assumes "policy_ok p"
  shows "safe (evaluate_steps p v None)"
    and "evaluate_steps p v None = Inr steps \<Longrightarrow> \<forall>s \<in> set steps. step_ok p s"
proof -
  have "safe (evaluate_steps p v None) \<and> (\<forall>steps. evaluate_steps p v None = Inr steps \<longrightarrow> (\<forall>s \<in> set steps. step_ok p s))"
  proof (cases "v_status v = Some Failed")
    case True
    then show ?thesis by (simp add: evaluate_steps_def step_ok_def)
  next
    case False
    have s: "step_ok p (steps ! i)" if "\<forall>i < length (cp_rules p). step_shows p v i (steps ! i)" "i < length (cp_rules p)" for steps i
      using that by (auto simp: step_shows_def step_ok_def)
    show ?thesis
      using evaluate_steps_cases[OF assms False]
      by (auto simp: exceeds_basis_def overflow_def in_set_conv_nth s split: if_splits)
  qed
  then show "safe (evaluate_steps p v None)"
    and "evaluate_steps p v None = Inr steps \<Longrightarrow> \<forall>s \<in> set steps. step_ok p s" by blast+
qed

lemma safe_money_new [calm]: "safe (money_new c s n)"
  unfolding money_new_def validate_currency_def checked_atoms_def overflow_def by (intro calm)

lemma safe_build_action [calm]: "safe (build_action sha256 fm r n deps)"
  unfolding build_action_def Let_def by (intro calm) auto

lemma keyed_effect_facts [simp]: "keyed (effect_facts_json fm r a)"
  unfolding effect_facts_json_def by (intro keyed_body) auto

lemma effect_safe:
  "safe (effect_record sha256 fm r a facts)" if "keyed facts"
  unfolding effect_record_def by (intro calm that keyed_body) auto

lemma dependency_safe:
  "safe (dependency_record sha256 fm i p)" "dependency_record sha256 fm i p = Inr r \<Longrightarrow> keyed_record r"
  unfolding dependency_record_def by (auto intro!: calm keyed_body dest!: generic_keyed)

lemma action_records_safe:
  shows "safe (action_records sha256 fm r a)" and "action_records sha256 fm r a = Inr rs \<Longrightarrow> \<forall>x \<in> set rs. keyed_record x"
proof -
  show "safe (action_records sha256 fm r a)"
    unfolding action_records_def by (intro calm effect_safe dependency_safe keyed_body) auto
  assume "action_records sha256 fm r a = Inr rs"
  then obtain effect body src deps where
    e: "effect_record sha256 fm r a (effect_facts_json fm r a) = Inr effect"
    and b: "generic sha256 ''action'' (fm_scope fm) (JString (act_id a)) (action_json a) = Inr body"
    and s: "generic sha256 ''action-source'' (fm_scope fm)
        (JArray [scope_json (fm_scope fm), JString (act_id a), JString (fm_event_id fm)])
        (jobj [(''schema'', JString ''ledger-action-source/1''), (''scope'', scope_json (fm_scope fm)),
          (''action_id'', JString (act_id a)), (''event_id'', JString (fm_event_id fm))]) = Inr src"
    and d: "rmap (dependency_record sha256 fm (act_id a)) (act_inputs a) = Inr deps"
    and rs: "rs = [effect, body, src] @ deps"
    unfolding action_records_def by (auto simp: rbind_Inr_iff)
  have "keyed_record effect"
    using e unfolding effect_record_def by (auto simp: rbind_Inr_iff intro!: keyed_body dest!: generic_keyed)
  moreover have "keyed_record body" using b by (auto dest!: generic_keyed)
  moreover have "keyed_record src" using s by (auto intro!: keyed_body dest!: generic_keyed)
  moreover have "\<forall>x \<in> set deps. keyed_record x" by (rule rmap_Inr_all[OF d]) (rule dependency_safe)
  ultimately show "\<forall>x \<in> set rs. keyed_record x" by (simp add: rs)
qed

definition assembly_ok :: "compiled_policy \<Rightarrow> assembly \<Rightarrow> bool" where
  "assembly_ok p al \<longleftrightarrow> length (al_rule_actions al) = length (cp_rules p) \<and> (\<forall>r \<in> set (al_records al). keyed_record r)"

lemma safe_operation_inputs:
  assumes "policy_ok p" and "assembly_ok p al" and "i < length (cp_rules p)"
  shows "safe (operation_inputs (r_operation (cp_rules p ! i)) s (al_rule_actions al))"
proof (cases "r_operation (cp_rules p ! i)")
  case (Discount pct basis name)
  then have "basis < length (cp_rules p)"
    using Policy_Laws.rule_at(1)[OF assms(1,3)] by (simp add: rule_ok_def)
  then show ?thesis
    using assms(2) Discount by (auto simp: operation_inputs_def assembly_ok_def split: option.split)
qed (simp add: operation_inputs_def)

lemma step_action_safe:
  assumes "assembly_ok p al" and "step_ok p s" and "st_rule s = None \<Longrightarrow> rule = None" and "st_rule s \<noteq> None \<Longrightarrow> rule \<noteq> None"
  shows "safe (step_action sha256 fm rule s deps al)"
    and "step_action sha256 fm rule s deps al = Inr (ids, al') \<Longrightarrow> assembly_ok p al'"
proof -
  have "safe (rbind (build_action sha256 fm r n deps) (\<lambda>a. rbind (action_records sha256 fm r a) (\<lambda>rs.
            if i \<ge> length (al_rule_actions al) then Inl Panic else Inr (g a rs))))" if "i < length (cp_rules p)" for r n i g
    using assms(1) that by (intro calm action_records_safe) (auto simp: assembly_ok_def)
  then show "safe (step_action sha256 fm rule s deps al)"
    unfolding step_action_def using assms(2-)
    by (cases "st_rule s"; cases rule; cases "st_rounded s") (auto simp: step_ok_def ok_or_def)
  assume "step_action sha256 fm rule s deps al = Inr (ids, al')"
  then show "assembly_ok p al'"
    unfolding step_action_def using assms(1)
    by (auto simp: assembly_ok_def rbind_Inr_iff dest!: action_records_safe(2) split: option.splits if_splits)
qed

lemma assemble_step_safe:
  assumes p: "policy_ok (fa_policy (fm_family fm))" and al: "assembly_ok (fa_policy (fm_family fm)) al"
    and s: "step_ok (fa_policy (fm_family fm)) s"
  shows "safe (assemble_step sha256 fm (i, s) al)"
    and "assemble_step sha256 fm (i, s) al = Inr al' \<Longrightarrow> assembly_ok (fa_policy (fm_family fm)) al'"
proof -
  let ?p = "fa_policy (fm_family fm)"
  have r: "safe (rule_at ?p (st_rule s))" using s by (auto simp: rule_at_def step_ok_def split: option.splits)
  have x: "safe (case rule of None \<Rightarrow> Inr ([], [], [], None)
      | Some r \<Rightarrow> operation_inputs (r_operation r) s (al_rule_actions al))" if rr: "rule_at ?p (st_rule s) = Inr rule" for rule
    using safe_operation_inputs[OF p al] rr by (auto simp: rule_at_Inr split: option.splits)
  have a: "(st_rule s = None \<longrightarrow> rule = None) \<and> (st_rule s \<noteq> None \<longrightarrow> rule \<noteq> None)"
    if rr: "rule_at ?p (st_rule s) = Inr rule" for rule
    using rr by (auto simp: rule_at_Inr split: option.splits)
  have act: "safe (step_action sha256 fm rule s deps al)" if rr: "rule_at ?p (st_rule s) = Inr rule" for rule deps
    by (rule step_action_safe(1)[OF al s]) (use a[OF rr] in simp_all)
  show "safe (assemble_step sha256 fm (i, s) al)"
    unfolding assemble_step_def Let_def prod.case
  proof (rule safe_bind[OF r])
    fix rule assume rr: "rule_at ?p (st_rule s) = Inr rule"
    show "safe (rbind (identity sha256 DomExplanation (JArray [JString (fm_event_id fm), JInt (int i)])) (\<lambda>explanation_id.
       rbind (case rule of None \<Rightarrow> Inr ([], [], [], None)
              | Some r \<Rightarrow> operation_inputs (r_operation r) s (al_rule_actions al)) (\<lambda>(extra, refs, dependencies, basis_name).
       rbind (sort_set JString (remdups_adj (sort
           (fm_policy_doc fm # binding_refs fm (st_inputs s) @ refs)))) (\<lambda>input_refs.
       rbind (step_action sha256 fm rule s dependencies al) (\<lambda>(action_ids, al).
       rbind (generic sha256 ''explanation'' (fm_scope fm) (JString explanation_id)
         (explanation_json (step_explanation fm i s rule explanation_id input_refs basis_name extra action_ids))) (\<lambda>r.
       Inr (al\<lparr>al_records := al_records al @ [r], al_explanations := al_explanations al
         @ [step_explanation fm i s rule explanation_id input_refs basis_name extra action_ids]\<rparr>)))))))"
      unfolding split_beta by (intro safe_bind safe_identity safe_sort_set x[OF rr] act[OF rr] safe_generic) simp_all
  qed
  assume "assemble_step sha256 fm (i, s) al = Inr al'"
  then obtain rule ident extra refs deps basis input_refs ids al1 r' where
    rr: "rule_at ?p (st_rule s) = Inr rule"
    and sa: "step_action sha256 fm rule s deps al = Inr (ids, al1)"
    and g: "generic sha256 ''explanation'' (fm_scope fm) (JString ident)
      (explanation_json (step_explanation fm i s rule ident input_refs basis extra ids)) = Inr r'"
    and al': "al' = al1\<lparr>al_records := al_records al1 @ [r'], al_explanations := al_explanations al1
      @ [step_explanation fm i s rule ident input_refs basis extra ids]\<rparr>"
    unfolding assemble_step_def by (auto simp: Let_def rbind_Inr_iff)
  have "assembly_ok ?p al1" by (rule step_action_safe(2)[OF al s _ _ sa]) (use a[OF rr] in simp_all)
  then show "assembly_ok ?p al'" using generic_keyed[OF g] by (auto simp: assembly_ok_def al')
qed

lemma assemble_steps_safe:
  assumes p: "policy_ok (fa_policy (fm_family fm))" and s: "\<forall>s \<in> set steps. step_ok (fa_policy (fm_family fm)) s"
    and o: "\<forall>r \<in> set opening. keyed_record r"
  shows "safe (assemble_steps sha256 fm opening steps)"
    and "assemble_steps sha256 fm opening steps = Inr al \<Longrightarrow> assembly_ok (fa_policy (fm_family fm)) al"
proof -
  let ?al0 = "\<lparr>al_records = opening, al_actions = [], al_explanations = [], al_effect_facts = [],
        al_rule_actions = replicate (length (cp_rules (fa_policy (fm_family fm)))) None\<rparr>"
  have al0: "assembly_ok (fa_policy (fm_family fm)) ?al0" using o by (simp add: assembly_ok_def)
  have step: "safe (assemble_step sha256 fm t al) \<and> (\<forall>al'. assemble_step sha256 fm t al = Inr al'
      \<longrightarrow> assembly_ok (fa_policy (fm_family fm)) al')"
    if "t \<in> set (enumerate 0 steps)" "assembly_ok (fa_policy (fm_family fm)) al" for t al
    using assemble_step_safe[OF p that(2), of "snd t" sha256 "fst t"] that(1) s
    by (cases t) (auto simp: in_set_enumerate_eq)
  show "safe (assemble_steps sha256 fm opening steps)"
    unfolding assemble_steps_def by (rule safe_rfold_inv[of "assembly_ok (fa_policy (fm_family fm))", OF al0 step])
  have "rfold (assemble_step sha256 fm) ts al1 = Inr al \<Longrightarrow> assembly_ok (fa_policy (fm_family fm)) al1
      \<Longrightarrow> set ts \<subseteq> set (enumerate 0 steps) \<Longrightarrow> assembly_ok (fa_policy (fm_family fm)) al" for ts al1
    by (induction ts arbitrary: al1) (auto dest: step)
  then show "assemble_steps sha256 fm opening steps = Inr al \<Longrightarrow> assembly_ok (fa_policy (fm_family fm)) al"
    unfolding assemble_steps_def using al0 by blast
qed

section \<open>The journal\<close>

lemma safe_money_add [calm]: "safe (money_checked_add x y)"
  unfolding money_checked_add_def add_atoms_def ok_or_def checked_atoms_def overflow_def
  by (intro calm) (auto split: option.split)

lemma safe_intentions [calm]: "safe (intentions_of sha256 fm actions ids)"
  unfolding intentions_of_def net_amount_def build_intention_def
  by (intro calm) auto

lemma intentions_keyed: "intentions_of sha256 fm actions ids = Inr (is, rs) \<Longrightarrow> \<forall>r \<in> set rs. keyed_record r"
  unfolding intentions_of_def by (auto simp: rbind_Inr_iff dest!: generic_keyed split: if_splits)

lemma safe_transitions [calm]: "safe (transition_records sha256 input fm r n)"
  unfolding transition_records_def Let_def by (intro calm keyed_body) auto

lemma transitions_keyed: "transition_records sha256 input fm r n = Inr rs \<Longrightarrow> \<forall>x \<in> set rs. keyed_record x"
  unfolding transition_records_def Let_def
  by (auto simp: rbind_Inr_iff intro!: keyed_body dest!: generic_keyed)

lemma safe_record_sort:
  assumes "\<forall>r \<in> set rs. keyed (jr_id r)"
  shows "safe (record_sort rs)"
proof -
  have k: "safe (record_key r)" if "r \<in> set rs" for r
    unfolding record_key_def using assms that by (intro calm) auto
  have ok: "safe (rmap (\<lambda>r. case record_key r of Inl _ \<Rightarrow> Inl Panic | Inr k \<Rightarrow> Inr (k, r)) rs)"
    if e: "\<forall>r \<in> set rs. encodable jr_id r"
    by (intro calm) (simp add: record_key_Inr[THEN iffD2] e)
  show ?thesis unfolding record_sort_def
    by (intro calm k ok) (auto simp: record_keys)
qed

lemma safe_journal:
  assumes "\<forall>r \<in> set (dp_records plan). keyed_record r"
  shows "safe (journal_bytes plan)"
proof -
  have "keyed (record_json r)" if "r \<in> set (dp_records plan)" for r
    unfolding record_json_def using assms that by (intro keyed_jobj) (auto simp: keyed_record_def isize_max_def)
  then show ?thesis unfolding journal_bytes_def record_bytes_def by (intro calm) auto
qed

lemma manifest_safe:
  assumes "\<forall>r \<in> set rs. keyed_record r"
  shows "safe (manifest_record sha256 input fm r xs rs)"
    and "manifest_record sha256 input fm r xs rs = Inr m \<Longrightarrow> keyed_record m"
proof -
  let ?all = "rs @ map (\<lambda>d. envelope d (fm_scope fm)) (ri_documents input)"
  have ids: "\<forall>x \<in> set ?all. keyed (jr_id x)" using assms by (auto simp: keyed_record_def envelope_def)
  have k: "keyed (manifest_json fm r xs ms)" if ms: "record_sort ?all = Inr ms" for ms
  proof -
    have m: "set ms = set ?all" using ms by (simp add: record_sort_Inr)
    have "keyed (member_json x)" if "x \<in> set ms" for x
      unfolding member_json_def using that ids m by (intro keyed_body) auto
    then show ?thesis unfolding manifest_json_def by (intro keyed_body) auto
  qed
  show "safe (manifest_record sha256 input fm r xs rs)"
    unfolding manifest_record_def Let_def by (intro calm safe_record_sort[OF ids] k)
  show "manifest_record sha256 input fm r xs rs = Inr m \<Longrightarrow> keyed_record m"
    unfolding manifest_record_def Let_def by (auto simp: rbind_Inr_iff keyed_record_def dest: k)
qed

lemma safe_check_outputs [calm]: "safe (check_outputs al)"
  unfolding check_outputs_def by (intro calm) auto

lemma finish_safe:
  assumes "\<forall>r \<in> set (al_records al). keyed_record r"
  shows "safe (finish_plan sha256 input fm al)"
  unfolding finish_plan_def Let_def split_beta
proof (intro safe_bind, goal_cases)
  case (7 u ids ins r n ts)
  have k: "\<forall>x \<in> set (al_records al @ snd ins @ ts). keyed_record x"
    using assms intentions_keyed[of sha256 fm "al_actions al" ids "fst ins" "snd ins"] transitions_keyed[OF 7(6)] 7(3) by auto
  show ?case by (rule manifest_safe(1)[OF k])
next
  case (10 u ids ins r n ts m iids rc)
  have k: "\<forall>x \<in> set (al_records al @ snd ins @ ts). keyed_record x"
    using assms intentions_keyed[of sha256 fm "al_actions al" ids "fst ins" "snd ins"] transitions_keyed[OF 10(6)] 10(3) by auto
  show ?case
    by (rule safe_record_sort)
      (use k manifest_safe(2)[OF k 10(7)] generic_keyed[OF 10(9)] in \<open>auto simp: keyed_record_def\<close>)
next
  case (11 u ids ins r n ts m iids rc ss)
  have k: "\<forall>x \<in> set (al_records al @ snd ins @ ts). keyed_record x"
    using assms intentions_keyed[of sha256 fm "al_actions al" ids "fst ins" "snd ins"] transitions_keyed[OF 11(6)] 11(3) by auto
  have "set ss = set ((al_records al @ snd ins @ ts) @ [m, rc])" using 11(10) by (simp add: record_sort_Inr)
  then show ?case
    by (intro safe_journal) (use k manifest_safe(2)[OF k 11(7)] generic_keyed[OF 11(9)] in \<open>auto simp: keyed_record_def\<close>)
qed (auto intro!: calm)

text \<open>Construction and assembly together.\<close>

lemma safe_assembly:
  assumes "serde_ok serde" and "arrays_fit serde CANDIDATE_LIMIT" and e: "event_ok (ri_event input)"
    and docs: "\<forall>d \<in> set (ri_documents input). document_ok d"
  shows "safe (assemble serde sha256 input)"
proof -
  have v: "safe (validate input)"
  proof -
    have i: "\<lparr>ri_event = ri_event input, ri_documents = ri_documents input, ri_context = ri_context input\<rparr> = input" by simp
    show ?thesis
      using safe_resolved_new[OF e docs, of "ri_context input"] unfolding resolved_new_def Let_def i
      by (cases "validate input") (auto simp: safe_def)
  qed
  have dok: "documents_ok (ri_documents input)" if "validate input = Inr u" for u
    using that docs by (auto simp: validate_def documents_ok_def rbind_Inr_iff)
  show ?thesis
    unfolding assemble_def assemble_inner_def
  proof (intro safe_bind[OF v] safe_bind, goal_cases)
    case (1 u)
    then show ?case by (rule safe_frame[OF e dok])
  next
    case (2 u fm)
    note f = frame_ok(1)[OF dok[OF 2(1)] 2(2)]
    show ?case by (rule opening_safe(1)[OF assms(1,2) e f])
  next
    case (3 u fm rs)
    note f = frame_ok(1)[OF dok[OF 3(1)] 3(2)]
    then show ?case by (auto simp: frame_ok_def intro: safe_evaluate)
  next
    case (4 u fm rs steps)
    note f = frame_ok(1)[OF dok[OF 4(1)] 4(2)]
    then have p: "policy_ok (fa_policy (fm_family fm))" by (simp add: frame_ok_def)
    show ?case by (rule assemble_steps_safe(1)[OF p safe_evaluate(2)[OF p 4(4)] opening_safe(2)[OF assms(1,2) e f 4(3)]])
  next
    case (5 u fm rs steps al)
    note f = frame_ok(1)[OF dok[OF 5(1)] 5(2)]
    then have p: "policy_ok (fa_policy (fm_family fm))" by (simp add: frame_ok_def)
    note a = assemble_steps_safe(2)[OF p safe_evaluate(2)[OF p 5(4)] opening_safe(2)[OF assms(1,2) e f 5(3)] 5(5)]
    show ?case by (rule finish_safe) (use a in \<open>simp add: assembly_ok_def\<close>)
  qed
qed

end
