(* ===== verification/Assembly_Properties.thy ===== *)
theory Assembly_Properties
  imports Assembly_Safe
begin

text \<open>
  Properties of decisions: what is charged and delivered, what the journal holds, and that neither
  a decision nor the verification of one ever panics.
\<close>

section \<open>The parts of a plan\<close>

lemma assemble_Inr:
  assumes "assemble serde sha256 input = Inr plan"
  obtains fm first_records steps al where "validate input = Inr ()" "frame_of sha256 input = Inr fm"
    "opening_records serde sha256 input fm = Inr first_records"
    "evaluate_steps (fa_policy (fm_family fm)) (view_of (ri_event input) (fa_chain (fm_family fm))) None = Inr steps"
    "assemble_steps sha256 fm first_records steps = Inr al" "finish_plan sha256 input fm al = Inr plan"
  using assms unfolding assemble_def assemble_inner_def by (auto simp: rbind_Inr_iff)

lemma finish_Inr:
  assumes "finish_plan sha256 input fm al = Inr plan"
  obtains action_ids intentions irecords revision event_count transitions manifest intention_ids receipt rrecord
  where "sort_set JString (map act_id (al_actions al)) = Inr action_ids"
    "intentions_of sha256 fm (al_actions al) action_ids = Inr (intentions, irecords)"
    "revision_next (ac_chain_revision (ri_context input)) = Inr revision"
    "transition_records sha256 input fm revision event_count = Inr transitions"
    "manifest_record sha256 input fm revision (al_explanations al) (al_records al @ irecords @ transitions) = Inr manifest"
    "sort_set JString (map in_id intentions) = Inr intention_ids"
    "receipt = build_receipt (ri_event input) fm revision action_ids intention_ids (jr_content_hash manifest)"
    "generic sha256 ''receipt'' (fm_scope fm) (JString (fm_receipt_id fm)) (receipt_json receipt) = Inr rrecord"
    "record_sort ((al_records al @ irecords @ transitions) @ [manifest, rrecord]) = Inr (dp_records plan)"
    "dp_actions plan = al_actions al" "dp_explanations plan = al_explanations al" "dp_intentions plan = intentions"
    "dp_receipt plan = receipt" "dp_claim_facts plan = fm_claim_facts fm" "dp_effect_facts plan = al_effect_facts al"
    "\<exists>bytes. journal_bytes plan = Inr bytes"
  using assms unfolding finish_plan_def Let_def by (auto simp: rbind_Inr_iff)

lemma intentions_Inr:
  assumes "intentions_of sha256 fm actions ids = Inr (intentions, rs)"
  shows "case intentions of
      [] \<Rightarrow> (\<Sum>a \<leftarrow> actions. atoms (act_amount a)) = 0 \<and> rs = []
    | i # others \<Rightarrow> others = [] \<and> atoms (in_amount i) = (\<Sum>a \<leftarrow> actions. atoms (act_amount a)) \<and> atoms (in_amount i) \<noteq> 0
        \<and> currency (in_amount i) = cp_currency (fa_policy (fm_family fm))
        \<and> mscale (in_amount i) = cp_scale (fa_policy (fm_family fm))
        \<and> in_action_ids i = ids \<and> ob_amount (in_payload i) = in_amount i \<and> in_idempotency_key i = in_id i
        \<and> set (ob_actions (in_payload i)) = set actions"
  using assms unfolding intentions_of_def
  by (auto simp: rbind_Inr_iff build_intention_def sort_set_Inr dest!: net_amount_Inr split: if_splits)

text \<open>
  C1: a decision charges exactly what the policy says: there is one action for every step with a
  nonzero amount, in order and with that amount; one explanation for every step, with its code, its
  amounts and the actions it caused; and one intention, for the total of the steps, unless the
  total is zero, in which case nothing is delivered. The intention, its payload and the receipt
  name the same actions.
\<close>

theorem decision_charges:
  assumes "assemble serde sha256 input = Inr plan"
  shows "\<exists>fm steps. frame_of sha256 input = Inr fm \<and> family_of (ri_documents input) = Inr (fm_family fm)
    \<and> evaluate_steps (fa_policy (fm_family fm)) (view_of (ri_event input) (fa_chain (fm_family fm))) None = Inr steps
    \<and> map (\<lambda>a. atoms (act_amount a)) (dp_actions plan) = charged steps
    \<and> list_all (action_of fm) (dp_actions plan)
    \<and> list_all2 (explains fm) (dp_explanations plan) (enumerate 0 steps)
    \<and> concat (map ex_action_ids (dp_explanations plan)) = map act_id (dp_actions plan)
    \<and> set (rc_action_ids (dp_receipt plan)) = act_id ` set (dp_actions plan)
    \<and> rc_intention_ids (dp_receipt plan) = map in_id (dp_intentions plan)
    \<and> (case dp_intentions plan of
         [] \<Rightarrow> booked_total steps = 0
       | i # others \<Rightarrow> others = [] \<and> booked_total steps \<noteq> 0 \<and> atoms (in_amount i) = booked_total steps
           \<and> currency (in_amount i) = cp_currency (fa_policy (fm_family fm))
           \<and> in_action_ids i = rc_action_ids (dp_receipt plan) \<and> ob_amount (in_payload i) = in_amount i
           \<and> set (ob_actions (in_payload i)) = set (dp_actions plan))"
proof -
  obtain fm first_records steps al where fm: "frame_of sha256 input = Inr fm"
    and ev: "evaluate_steps (fa_policy (fm_family fm)) (view_of (ri_event input) (fa_chain (fm_family fm))) None = Inr steps"
    and al: "assemble_steps sha256 fm first_records steps = Inr al" and fin: "finish_plan sha256 input fm al = Inr plan"
    using assms by (rule assemble_Inr)
  have f: "family_of (ri_documents input) = Inr (fm_family fm)" using fm unfolding frame_of_def Let_def by auto
  note p = assemble_steps_part[OF al, unfolded step_part_def]
  have sum: "(\<Sum>a \<leftarrow> al_actions al. atoms (act_amount a)) = booked_total steps"
    using p sum_charged[of steps] by (simp add: comp_def)
  from fin obtain action_ids irecords intention_ids receipt where
    ids: "sort_set JString (map act_id (al_actions al)) = Inr action_ids"
    and i: "intentions_of sha256 fm (al_actions al) action_ids = Inr (dp_intentions plan, irecords)"
    and iids: "sort_set JString (map in_id (dp_intentions plan)) = Inr intention_ids"
    and plan: "dp_actions plan = al_actions al" "dp_explanations plan = al_explanations al"
      "rc_action_ids (dp_receipt plan) = action_ids" "rc_intention_ids (dp_receipt plan) = intention_ids"
    by (rule finish_Inr) (auto simp: build_receipt_def)
  have "set action_ids = act_id ` set (al_actions al)" using ids by (simp add: sort_set_Inr)
  moreover have "intention_ids = map in_id (dp_intentions plan)"
    using iids intentions_Inr[OF i] by (cases "dp_intentions plan") (auto simp: sort_set_Inr)
  moreover have "list_all (action_of fm) (al_actions al)" using p by (simp add: list_all_iff)
  ultimately show ?thesis
    using fm f ev p intentions_Inr[OF i] unfolding plan sum
    by (intro exI[of _ fm] exI[of _ steps] conjI) (auto split: list.splits)
qed

text \<open>
  C2: the journal of a decision is complete and in order: its records are sorted by kind and
  canonical id without a duplicate; all but the manifest and the receipt, together with the six
  input documents, are the members that the manifest lists in that order with their hashes; the
  receipt carries the manifest's hash and the chain's next revision; and every action of the plan
  is in the journal with its effect, its source event and its inputs.
\<close>

theorem journal_manifest:
  assumes "assemble serde sha256 input = Inr plan"
  shows "\<exists>fm others manifest receipt members. frame_of sha256 input = Inr fm
    \<and> mset (dp_records plan) = mset others + {#manifest, receipt#}
    \<and> distinct (map key_of (dp_records plan)) \<and> sorted (map key_of (dp_records plan))
    \<and> mset members = mset others + mset (map (\<lambda>d. envelope d (fm_scope fm)) (ri_documents input))
    \<and> distinct (map key_of members) \<and> sorted (map key_of members)
    \<and> jr_kind manifest = ''decision-manifest''
    \<and> jr_body manifest = manifest_json fm (rc_revision (dp_receipt plan)) (dp_explanations plan) members
    \<and> digest sha256 DomDecisionContent (jr_body manifest) = Inr (jr_content_hash manifest)
    \<and> rc_decision_hash (dp_receipt plan) = jr_content_hash manifest
    \<and> revision_next (ac_chain_revision (ri_context input)) = Inr (rc_revision (dp_receipt plan))
    \<and> jr_kind receipt = ''receipt'' \<and> jr_body receipt = receipt_json (dp_receipt plan)
    \<and> list_all (recorded (dp_records plan)) (dp_actions plan)"
proof -
  obtain fm first_records steps al where fm: "frame_of sha256 input = Inr fm"
    and al: "assemble_steps sha256 fm first_records steps = Inr al" and fin: "finish_plan sha256 input fm al = Inr plan"
    using assms by (rule assemble_Inr)
  from fin obtain irecords transitions manifest rrecord where
    m: "manifest_record sha256 input fm (rc_revision (dp_receipt plan)) (dp_explanations plan)
        (al_records al @ irecords @ transitions) = Inr manifest"
    and g: "generic sha256 ''receipt'' (fm_scope fm) (JString (fm_receipt_id fm)) (receipt_json (dp_receipt plan)) = Inr rrecord"
    and s: "record_sort ((al_records al @ irecords @ transitions) @ [manifest, rrecord]) = Inr (dp_records plan)"
    and acts: "dp_actions plan = al_actions al"
    and r: "revision_next (ac_chain_revision (ri_context input)) = Inr (rc_revision (dp_receipt plan))"
      "rc_decision_hash (dp_receipt plan) = jr_content_hash manifest"
    by (rule finish_Inr) (auto simp: build_receipt_def)
  define others where "others = al_records al @ irecords @ transitions"
  from m obtain members where
    mem: "record_sort (others @ map (\<lambda>d. envelope d (fm_scope fm)) (ri_documents input)) = Inr members"
    and man: "digest sha256 DomDecisionContent (jr_body manifest) = Inr (jr_content_hash manifest)"
      "jr_kind manifest = ''decision-manifest''"
      "jr_body manifest = manifest_json fm (rc_revision (dp_receipt plan)) (dp_explanations plan) members"
    unfolding manifest_record_def Let_def others_def by (auto simp: rbind_Inr_iff)
  have recs: "dp_records plan = sort_key key_of (others @ [manifest, rrecord])" "distinct (map key_of (others @ [manifest, rrecord]))"
    and mems: "members = sort_key key_of (others @ map (\<lambda>d. envelope d (fm_scope fm)) (ri_documents input))"
      "distinct (map key_of (others @ map (\<lambda>d. envelope d (fm_scope fm)) (ri_documents input)))"
    using s mem unfolding record_sort_Inr others_def by blast+
  have sub: "set (al_records al) \<subseteq> set (dp_records plan)" unfolding recs(1) others_def by auto
  have rec: "list_all (recorded (dp_records plan)) (dp_actions plan)"
    using assemble_steps_part[OF al] recorded_mono[OF _ sub] unfolding step_part_def acts list_all_iff by blast
  have order: "mset (sort_key key_of xs) = mset xs" "sorted (map key_of (sort_key key_of xs))"
    "distinct (map key_of xs) \<Longrightarrow> distinct (map key_of (sort_key key_of xs))" for xs
    using distinct_sort_key by auto
  show ?thesis
    by (rule exI[of _ fm], rule exI[of _ others], rule exI[of _ manifest], rule exI[of _ rrecord], rule exI[of _ members])
      (use fm order recs mems man r g rec in \<open>simp add: generic_Inr; auto\<close>)
qed

text \<open>
  C3: no event, no set of documents and no observation of the coordinator makes a decision panic:
  for an event that was normalized and resolved and documents that were parsed, the construction
  of the input returns it or an error, and the assembly of the decision and the verification of any
  journal against it return a plan or an error. No \<open>expect\<close>, \<open>unreachable!\<close> or index of the code
  can fail.
\<close>

theorem decision_never_panics:
  assumes "serde_ok serde" and "arrays_fit serde CANDIDATE_LIMIT" and "sha_ok sha256" and "str_ok default_source"
    and "normalize serde explain sha256 bytes scope default_source = Inr c" and "some_ok str_ok parent"
    and "resolve sha256 c parent = Inr e"
    and "\<forall>d \<in> set docs. \<exists>b. document_parse serde explain sha256 b = Inr d"
  shows "resolved_new e docs x \<noteq> Inl Panic
    \<and> (\<forall>input. resolved_new e docs x = Inr input \<longrightarrow>
        assemble serde sha256 input \<noteq> Inl Panic \<and> (\<forall>journal. verify serde sha256 input journal \<noteq> Inl Panic))"
proof (intro conjI allI impI)
  note e = resolved_event_ok[OF assms(1,2,4,3,5,6,7)]
  have docs: "\<forall>d \<in> set docs. document_ok d" using assms(8) parsed_document_ok by blast
  show "resolved_new e docs x \<noteq> Inl Panic" using safe_resolved_new[OF e docs] by (simp add: safe_def)
  fix input
  assume "resolved_new e docs x = Inr input"
  then have "input = \<lparr>ri_event = e, ri_documents = docs, ri_context = x\<rparr>"
    by (auto simp: resolved_new_def Let_def rbind_Inr_iff)
  then have a: "safe (assemble serde sha256 input)" using safe_assembly[OF assms(1,2)] e docs by simp
  then show "assemble serde sha256 input \<noteq> Inl Panic" by (simp add: safe_def)
  have j: "safe (journal_bytes plan)" if plan: "assemble serde sha256 input = Inr plan" for plan
  proof -
    obtain fm al where "finish_plan sha256 input fm al = Inr plan" using plan by (rule assemble_Inr)
    then show ?thesis by (rule finish_Inr) (auto simp: safe_def)
  qed
  have "safe (verify serde sha256 input journal)" for journal
    unfolding verify_def by (intro calm a j)
  then show "verify serde sha256 input journal \<noteq> Inl Panic" for journal by (simp add: safe_def)
qed

end
