(* ===== verification/Assembly_Sample.thy ===== *)
theory Assembly_Sample
  imports Assembly_Properties
begin

text \<open>
  A decision computed: an event, six documents and a hash function for which the assembly succeeds,
  so that the properties of decisions are about something. The texts that are hashed stay symbolic;
  only their sizes and, where identities must differ, their lengths are computed.
\<close>

section \<open>Values of known size\<close>

lemma sized_jobj:
  assumes "distinct (map fst kvs)"
  shows "good d (jobj kvs) \<longleftrightarrow> d < 32 \<and> list_all (\<lambda>(k, v). str_ok k \<and> good (Suc d) v) kvs"
    (is "?left \<longleftrightarrow> ?right")
proof
  assume left: ?left
  obtain m where m: "jobj kvs = JObject m" "om_ok m" "set m = set kvs" using jobj_object[OF assms] by blast
  have "map_of m k = Some v" if "(k, v) \<in> set m" for k v
    using om_ok_distinct[OF m(2)] that by (rule map_of_is_SomeI)
  moreover have "k \<in> fst ` set m" if "(k, v) \<in> set m" for k v using that by force
  ultimately show ?right
    using left m by (fastforce simp: good_def list_all_iff)
next
  assume ?right
  then show ?left using good_jobj[OF assms] by simp
qed

text \<open>A hash of 32 bytes that shows the length of what it hashes.\<close>

definition length_hash :: "string \<Rightarrow> string" where
  "length_hash s = replicate 31 (CHR 0x00) @ [char_of (length s)]"

lemma length_hash_ok: "sha_ok length_hash"
  by (simp add: sha_ok_def length_hash_def)

text \<open>The identity and the digest of a value that is small enough to be encoded.\<close>

definition hash_text :: "domain \<Rightarrow> json \<Rightarrow> string" where
  "hash_text d v = hex (length_hash (''ledgerlab/'' @ domain_name d @ ''/1'' @ [CHR 0x00] @ jtext v))"

lemma hash_text [simp]: "length (hash_text d v) = 64" "ascii (hash_text d v)"
  using hex_ok[of "length_hash s" for s] length_hash_ok by (auto simp: hash_text_def sha_ok_def)

lemma hash_small:
  assumes "good 0 v" and "text_bound v \<le> BUNDLE_LIMIT"
  shows "digest length_hash d v = Inr (''sha256:'' @ hash_text d v)"
    and "domain_prefix d = Inr p \<Longrightarrow> identity length_hash d v = Inr (p @ ''_'' @ hash_text d v)"
  using from_value_small[OF assms]
  by (simp_all add: digest_def identity_def hash_hex_def hash_input_def hash_text_def)

lemma str_ok_text: "ascii s \<Longrightarrow> length s \<le> 1000 \<Longrightarrow> str_ok s"
  by (rule str_ok_ascii) simp_all

definition named :: "string \<Rightarrow> domain \<Rightarrow> json \<Rightarrow> string" where
  "named p d v = p @ ''_'' @ hash_text d v"

lemma named_length [simp]: "length (named p d v) = length p + 65"
  by (simp add: named_def)

lemma named_ok [simp]: "ascii p \<Longrightarrow> length p \<le> 100 \<Longrightarrow> str_ok (named p d v)"
  by (rule str_ok_ascii) (simp_all add: named_def byte_def)

text \<open>A string of plain characters is its own escape.\<close>

definition plain :: "string \<Rightarrow> bool" where
  "plain s \<longleftrightarrow> list_all (\<lambda>c. 32 \<le> byte c \<and> byte c < 128 \<and> c \<noteq> CHR ''\"'' \<and> c \<noteq> CHR 92) s"

lemma plain_jstring: "plain s \<Longrightarrow> jstring s = ''\"'' @ s @ ''\"''"
proof -
  assume p: "plain s"
  have a: "ascii s" using p by (auto simp: plain_def list_all_iff ascii_def)
  have low: "byte (CHR 8) < 32" "byte (CHR 12) < 32" "byte (CHR 10) < 32" "byte (CHR 13) < 32" "byte (CHR 9) < 32"
    by (simp_all add: byte_def)
  have "escape [c] = [c]" if c: "c \<in> set s" for c
  proof -
    have "32 \<le> byte c \<and> byte c < 128 \<and> c \<noteq> CHR ''\"'' \<and> c \<noteq> CHR 92"
      using p c unfolding plain_def list_all_iff by (rule bspec)
    then have b: "\<not> byte c < 32" "c \<noteq> CHR ''\"''" "c \<noteq> CHR 92" by linarith+
    then have "c \<noteq> CHR 8" "c \<noteq> CHR 12" "c \<noteq> CHR 10" "c \<noteq> CHR 13" "c \<noteq> CHR 9" using low by blast+
    then show ?thesis using b unfolding escape_def by (simp only: list.inject simp_thms if_False list.case)
  qed
  then have "map escape (map (\<lambda>c. [c]) s) = map (\<lambda>c. [c]) s" by (simp add: comp_def)
  then have "concat (map escape (chars s)) = s" by (simp only: chars_ascii[OF a] concat_map_singleton map_ident)
  then show ?thesis by (simp add: jstring_def)
qed

section \<open>The input\<close>

definition start :: timestamp where
  "start = \<lparr>ts_canonical = ''1970-01-01T00:00:00Z'', ts_micros = 0\<rparr>"

definition sample_policy :: compiled_policy where
  "sample_policy = sample_compiled\<lparr>cp_rules := take 1 (cp_rules sample_compiled)\<rparr>"

definition sample_roles :: roles where
  "sample_roles = \<lparr>ro_provider = ''p'', ro_cost_originator = ''p'', ro_bearer = ''acme'', ro_payer = ''acme'',
     ro_beneficiary = ''acme'', ro_recipient = ''p'', ro_payer_delegation = None\<rparr>"

definition sample_context :: chain_context where
  "sample_context = \<lparr>cx_schema = ''ledger-context/1'', cx_tier = None, cx_priority = Some True, cx_funding = ''byok'',
     cx_currency = ''USD'', cx_scale = 2, cx_binding_ids = [''b1'']\<rparr>"

definition sample_assent :: "revision \<Rightarrow> assent" where
  "sample_assent one = \<lparr>as_schema = ''ledger-assent/1'', as_mode = ''demo'', as_agreement_id = ''a1'', as_terms_version = one,
     as_acceptor = ''acme'', as_bearer = ''acme'', as_payer = ''acme'', as_recipient = ''p'', as_accepted_at = start,
     as_evidence_ref = ''r'', as_evidence_digest = ''sha256:0''\<rparr>"

definition sample_grant :: source_grant where
  "sample_grant = \<lparr>gr_schema = ''ledger-source-grant/1'', gr_id = ''g1'', gr_principal_id = ''u1'', gr_source = ''urn:a'',
     gr_event_types = [Generated], gr_relations = [], gr_permissions = [''read'', ''submit''], gr_starts_at = start,
     gr_ends_at = None\<rparr>"

definition sample_binding :: binding where
  "sample_binding = \<lparr>bi_schema = ''ledger-binding/1'', bi_id = ''b1'', bi_agreement_id = ''a1'', bi_version = 1,
     bi_policy = ''p'', bi_roles = ''r'', bi_assent = ''aaaa'', bi_context = ''c'', bi_acceptor = ''acme'',
     bi_accepted_at = start, bi_starts_at = start, bi_ends_at = None, bi_service = ''generation'', bi_customer = ''acme'',
     bi_sources = [''urn:a''], bi_event_types = [Generated], bi_unit = ''call'',
     bi_maximum_quantity = \<lparr>coefficient = 5, dscale = 0\<rparr>, bi_correction_sources = [], bi_allocation_view = False\<rparr>"

definition sample_document :: "string \<Rightarrow> string \<Rightarrow> string \<Rightarrow> json \<Rightarrow> document_data \<Rightarrow> document" where
  "sample_document ident kind purpose body data = \<lparr>doc_id = ident, doc_kind = kind, doc_purpose = purpose,
     doc_body = body, doc_bytes = [], doc_content_hash = ''sha256:0'', doc_data = data\<rparr>"

definition sample_documents :: "revision \<Rightarrow> document list" where
  "sample_documents one = [
     sample_document ''p'' ''policy'' ''policy'' (jobj []) (PolicyData sample_policy),
     sample_document ''r'' ''roles'' ''roles'' (jobj []) (RolesData sample_roles),
     sample_document ''aaaa'' ''assent'' ''assent'' (jobj []) (AssentData (sample_assent one)),
     sample_document ''g'' ''source-grant'' ''source_grant'' (jobj []) (GrantData sample_grant),
     sample_document ''c'' ''context'' ''chain_context'' (context_json sample_context) (ContextData sample_context),
     sample_document ''b'' ''binding'' ''binding'' (jobj []) (BindingData sample_binding)]"

definition sample_event :: event where
  "sample_event = \<lparr>e_candidate = \<lparr>cd_scope = demo_scope, cd_source = ''urn:a'', cd_dto = normal_event,
       cd_ingress = jtext (event_json normal_event), cd_ingress_hash = ''sha256:0'', cd_event_id = ''ev_1''\<rparr>,
     e_dto = normal_event\<lparr>ev_source := Some ''urn:a'', ev_chain := Some ''main''\<rparr>, e_bytes = [],
     e_content_hash = ''sha256:0''\<rparr>"

definition sample_input :: "revision \<Rightarrow> resolved_input" where
  "sample_input one = \<lparr>ri_event = sample_event, ri_documents = sample_documents one,
     ri_context = \<lparr>ac_principal_id = ''u1'', ac_grant_revision = one, ac_grant_active = True, ac_binding_active = True,
       ac_chain_revision = one, ac_chain_event_count = one, ac_received_at = start\<rparr>\<rparr>"

lemmas sample_defs = sample_input_def sample_event_def sample_documents_def sample_document_def sample_binding_def
  sample_grant_def sample_assent_def sample_context_def sample_roles_def start_def

lemma sample_policy_parts [simp]:
  "cp_currency sample_policy = ''USD''" "cp_scale sample_policy = 2" "cp_rules sample_policy = [\<lparr>r_id = ''fee'',
     r_component = ''compute.base'', r_operation = Base \<lparr>coefficient = 1, dscale = 0\<rparr>, r_predicates = []\<rparr>]"
  by (simp_all add: sample_policy_def sample_compiled_def)

definition sample_family :: "revision \<Rightarrow> family" where
  "sample_family one = \<lparr>fa_policy = sample_policy, fa_roles = sample_roles, fa_assent = sample_assent one,
     fa_grant = sample_grant, fa_chain = sample_context, fa_binding = sample_binding\<rparr>"

lemma sample_family: "family_of (ri_documents (sample_input one)) = Inr (sample_family one)"
  by (simp add: family_of_def data_for_def document_for_def sample_input_def sample_documents_def sample_document_def sample_family_def)

lemma sample_valid:
  assumes "revision_value one = 1"
  shows "validate (sample_input one) = Inr ()"
proof -
  have n: "\<exists>r. revision_next one = Inr r" using revision_next_cases[of one] assms by (auto simp: int_ranges)
  have d: "check_documents (ri_documents (sample_input one)) = Inr ()"
    by (simp add: check_documents_def sample_input_def sample_documents_def sample_document_def)
  have q: "check_quantity sample_binding (e_dto sample_event) = Inr ()"
    by (simp add: check_quantity_def sample_binding_def sample_event_def normal_event_def decimal_ratio_def negated_def
        ratio_add_def ratio_new_def reduced_def bounded_def euclid.simps tmod_def tdiv_def is_positive_def Let_def)
  have t: "check_terms (sample_input one) (sample_family one) = Inr ()"
    using assms q
    by (simp add: check_terms_def check_references_def document_for_def authorized_def binding_covers_def assent_agrees_def
        current_def sample_family_def sample_defs normal_event_def raw_event_def event_source_def event_scope_def demo_scope_def)
  show ?thesis
    unfolding validate_def using d t n sample_family[of one]
    by (auto simp: unsupported_event_def sample_input_def sample_event_def normal_event_def raw_event_def empty_or_none_def assms)
qed

section \<open>Small records\<close>

lemma encode_small:
  "good 0 v \<Longrightarrow> text_bound v \<le> 1000000 \<Longrightarrow> from_value v = Inr (jtext v) \<and> length (jtext v) \<le> text_bound v"
  using from_value_small[of v] text_bound[of 0 v] by (simp add: BUNDLE_LIMIT_def)

lemma digest_small:
  assumes "good 0 v" and "text_bound v \<le> 1000000"
  shows "\<exists>h. digest length_hash d v = Inr h \<and> str_ok h \<and> length h = 71"
  using hash_small(1)[OF assms(1), of d] assms(2)
  by (auto simp: BUNDLE_LIMIT_def byte_def intro!: exI[of _ "''sha256:'' @ hash_text d v"] str_ok_ascii)

lemma identity_small:
  assumes "good 0 v" and "text_bound v \<le> 1000000" and "domain_prefix d = Inr p"
  shows "identity length_hash d v = Inr (named p d v)"
  using hash_small(2)[OF assms(1) _ assms(3)] assms(2) by (simp add: BUNDLE_LIMIT_def named_def)

lemma canon_small: "good 0 (enc x) \<Longrightarrow> text_bound (enc x) \<le> 1000000 \<Longrightarrow> encodable enc x \<and> canon enc x = jtext (enc x)"
  using encode_small[of "enc x"] by (simp add: encodable_def canon_def)

lemma sort_set_small:
  assumes "\<forall>x \<in> set xs. good 0 (enc x) \<and> text_bound (enc x) \<le> 1000000" and "distinct (map enc xs)"
  shows "\<exists>ys. sort_set enc xs = Inr ys \<and> mset ys = mset xs"
proof -
  have c: "encodable enc x \<and> canon enc x = jtext (enc x)" if "x \<in> set xs" for x
    by (rule canon_small) (use assms(1) that in auto)
  have "inj_on jtext (enc ` set xs)" using assms(1) by (auto simp: inj_on_def intro: jtext_inj)
  then have "distinct (map jtext (map enc xs))" using assms(2) by (auto simp: distinct_map comp_inj_on)
  moreover have "map (canon enc) xs = map jtext (map enc xs)" using c by simp
  ultimately have "distinct (map (canon enc) xs)" by (simp only:)
  then show ?thesis using c by (auto simp: sort_set_Inr)
qed

definition small_record :: "journal_record \<Rightarrow> bool" where
  "small_record r \<longleftrightarrow> str_ok (jr_kind r) \<and> length (jr_kind r) \<le> 100 \<and> jr_scope r = demo_scope
     \<and> good 4 (jr_id r) \<and> text_bound (jr_id r) \<le> 2000 \<and> good 1 (jr_body r) \<and> text_bound (jr_body r) \<le> 120000
     \<and> str_ok (jr_content_hash r) \<and> length (jr_content_hash r) \<le> 100
     \<and> some_ok (\<lambda>t. str_ok t \<and> length t \<le> 100) (jr_document_type r)"


lemma good_mono: "good d v \<Longrightarrow> e \<le> d \<Longrightarrow> good e v"
proof -
  have "readable d v \<Longrightarrow> e \<le> d \<Longrightarrow> readable e v" for d e v
    by (induction d v arbitrary: e rule: readable.induct) auto
  then show "good d v \<Longrightarrow> e \<le> d \<Longrightarrow> good e v" by (auto simp: good_def)
qed

lemma small_record_bytes:
  assumes "small_record r"
  shows "\<exists>b. record_bytes r = Inr b \<and> length b \<le> 130000"
proof -
  have k: "distinct (map fst ([(''kind'', JString (jr_kind r)), (''scope'', scope_json (jr_scope r)), (''id'', jr_id r),
      (''body'', jr_body r), (''content_hash'', JString (jr_content_hash r))]
     @ member ''document_type'' JString (jr_document_type r)))"
    by (auto simp: member_def split: option.split)
  have s: "str_ok ''kind''" "str_ok ''scope''" "str_ok ''id''" "str_ok ''body''" "str_ok ''content_hash''" "str_ok ''document_type''"
    "str_ok ''t1''" "str_ok ''sandbox''"
    by (auto intro!: str_ok_ascii simp: byte_def)
  have r: "str_ok (jr_kind r)" "length (jr_kind r) \<le> 100" "jr_scope r = demo_scope" "good 1 (jr_id r)"
    "text_bound (jr_id r) \<le> 2000" "good 1 (jr_body r)" "text_bound (jr_body r) \<le> 120000"
    "str_ok (jr_content_hash r)" "length (jr_content_hash r) \<le> 100"
    "some_ok (\<lambda>t. str_ok t \<and> length t \<le> 100) (jr_document_type r)"
    using assms good_mono[of 4 "jr_id r" 1] by (simp_all add: small_record_def)
  have "good 0 (record_json r) \<and> text_bound (record_json r) \<le> 130000"
  proof (cases "jr_document_type r")
    case None
    show ?thesis
      unfolding record_json_def sized_jobj[OF k] text_bound_jobj[OF k] using r s
      by (simp add: None scope_json_def demo_scope_def good_array string_bound_def member_def)
  next
    case (Some t)
    show ?thesis
      unfolding record_json_def sized_jobj[OF k] text_bound_jobj[OF k] using r s
      by (simp add: Some scope_json_def demo_scope_def good_array string_bound_def member_def)
  qed
  then show ?thesis using encode_small[of "record_json r"] by (auto simp: record_bytes_def)
qed

lemma journal_small:
  assumes "\<forall>r \<in> set (dp_records plan). small_record r" and "length (dp_records plan) \<le> 32"
  shows "\<exists>b. journal_bytes plan = Inr b"
proof -
  have "\<exists>b. rfold (\<lambda>r bytes. rbind (record_bytes r) (\<lambda>b. Inr (bytes @ b @ [CHR 0x0A]))) rs bs = Inr b
      \<and> length b \<le> length bs + length rs * 130001" if "\<forall>r \<in> set rs. small_record r" for rs bs
    using that
  proof (induction rs arbitrary: bs)
    case (Cons r rs)
    obtain b where b: "record_bytes r = Inr b" "length b \<le> 130000" using small_record_bytes Cons.prems by auto
    with Cons.IH[of "bs @ b @ [CHR 0x0A]"] Cons.prems show ?case by auto
  qed simp
  from this[OF assms(1), of "[]"] assms(2) show ?thesis by (auto simp: journal_bytes_def BUNDLE_LIMIT_def)
qed

lemma record_sort_small:
  assumes "\<forall>r \<in> set rs. good 0 (jr_id r) \<and> text_bound (jr_id r) \<le> 2000" and "distinct (map (\<lambda>r. (jr_kind r, jr_id r)) rs)"
  shows "\<exists>ss. record_sort rs = Inr ss \<and> mset ss = mset rs"
proof -
  have c: "encodable jr_id r \<and> canon jr_id r = jtext (jr_id r)" if "r \<in> set rs" for r
    by (rule canon_small) (use assms(1) that in auto)
  let ?key = "\<lambda>r. (jr_kind r, jr_id r)"
  have "inj_on (\<lambda>(k, v). (k :: string, jtext v)) (?key ` set rs)"
    using assms(1) by (auto simp: inj_on_def intro: jtext_inj)
  then have "distinct (map (\<lambda>(k, v). (k, jtext v)) (map ?key rs))" using assms(2) by (auto simp: distinct_map comp_inj_on)
  moreover have "map key_of rs = map (\<lambda>(k, v). (k, jtext v)) (map ?key rs)" using c by (simp add: key_of_def)
  ultimately have "distinct (map key_of rs)" by (simp only:)
  then show ?thesis using c by (auto simp: record_sort_Inr)
qed

lemma generic_small:
  assumes "good 1 body" and "text_bound body \<le> 120000" and "str_ok kind" and "length kind \<le> 100"
    and "good 4 i" and "text_bound i \<le> 2000"
  shows "\<exists>h. generic length_hash kind demo_scope i body = Inr \<lparr>jr_kind = kind, jr_scope = demo_scope, jr_id = i,
      jr_body = body, jr_content_hash = h, jr_document_type = None\<rparr>
    \<and> small_record \<lparr>jr_kind = kind, jr_scope = demo_scope, jr_id = i,
      jr_body = body, jr_content_hash = h, jr_document_type = None\<rparr>"
proof -
  have "good 0 (JArray [JString kind, JInt 1, body])" "text_bound (JArray [JString kind, JInt 1, body]) \<le> 1000000"
    using assms by (simp_all add: good_array string_bound_def SAFE_def)
  then obtain h where "digest length_hash DomRecordContent (JArray [JString kind, JInt 1, body]) = Inr h" "str_ok h" "length h = 71"
    using digest_small by blast
  then show ?thesis using assms by (auto simp: generic_def small_record_def)
qed

section \<open>The frame of the sample\<close>

definition sized :: "string \<Rightarrow> bool" where
  "sized s \<longleftrightarrow> str_ok s \<and> length s \<le> 80"

lemma sized_named: "ascii p \<Longrightarrow> length p \<le> 15 \<Longrightarrow> sized (named p d v)"
  by (simp add: sized_def)

lemmas measure_json = sized_jobj text_bound_jobj good_array string_bound_def SAFE_def


lemma sample_claim:
  "\<exists>p v. completion_claim_id length_hash sample_event = Inr (named p DomClaim v) \<and> p = ''cl''"
proof -
  let ?v = "JArray [scope_json demo_scope, JString ''urn:a'', JString ''e1'', JString ''completion'', JString ''completion'']"
  have "identity length_hash DomClaim ?v = Inr (named ''cl'' DomClaim ?v)"
    by (rule identity_small) (simp_all add: measure_json scope_json_def demo_scope_def literal_ok byte_def)
  then show ?thesis
    by (auto simp: completion_claim_id_def sample_event_def normal_event_def raw_event_def is_work_def event_scope_def
        event_source_def operation_id_def)
qed

lemma sample_facts:
  "\<exists>v. completion_facts length_hash sample_event [] = Inr v \<and> good 1 v \<and> text_bound v \<le> 10000"
proof -
  obtain i where i: "completion_claim_id length_hash sample_event = Inr i" using sample_claim by auto
  show ?thesis
    unfolding completion_facts_def i
    by (simp add: sort_set_Nil event_chain_def sample_event_def normal_event_def raw_event_def links_of_def Let_def
        member_def json_opt_def strings_json_def decimal_display_def nat_str.simps digit_char_def measure_json literal_ok byte_def)
qed

lemma sample_purposes:
  "\<exists>ys. sort_set (\<lambda>v. v) (map purpose_json (sample_documents one)) = Inr ys \<and> mset ys = mset (map purpose_json (sample_documents one))"
proof (rule sort_set_small)
  show "\<forall>x \<in> set (map purpose_json (sample_documents one)). good 0 x \<and> text_bound x \<le> 1000000"
    by (simp add: sample_documents_def sample_document_def purpose_json_def measure_json literal_ok byte_def)
  show "distinct (map (\<lambda>v. v) (map purpose_json (sample_documents one)))"
    by (simp add: sample_documents_def sample_document_def purpose_json_def jobj_def om_insert.simps)
qed

lemma small_revision:
  assumes "revision_value r \<le> 2"
  shows "str_ok (nat_str (revision_value r))" and "length (nat_str (revision_value r)) \<le> 1"
proof -
  have t: "nat_str 0 = ''0''" "nat_str 1 = ''1''" "nat_str 2 = ''2''"
    by code_simp+
  have "revision_value r = 0 \<or> revision_value r = 1 \<or> revision_value r = 2" using assms by linarith
  then have "nat_str (revision_value r) \<in> {''0'', ''1'', ''2''}" using t by (elim disjE) (simp_all only: insert_iff simp_thms)
  then show "str_ok (nat_str (revision_value r))" "length (nat_str (revision_value r)) \<le> 1"
    by (auto simp: literal_ok byte_def)
qed

lemma mset_sizes:
  assumes "mset ys = mset xs"
  shows "text_bound (JArray ys) = text_bound (JArray xs)" and "good d (JArray ys) \<longleftrightarrow> good d (JArray xs)"
proof -
  have "sum_mset (mset (map text_bound ys)) = sum_mset (mset (map text_bound xs))" using assms by simp
  then show "text_bound (JArray ys) = text_bound (JArray xs)"
    using mset_eq_length[OF assms] by (simp only: sum_mset_sum_list text_bound.simps)
  show "good d (JArray ys) \<longleftrightarrow> good d (JArray xs)"
    using mset_eq_setD[OF assms] by (simp add: good_array list_all_iff)
qed

lemma sample_snapshot:
  assumes "revision_value one = 1" and "mset ys = mset (map purpose_json (sample_documents one))"
    and "without_schema (context_json sample_context) = Inr v"
  shows "good 2 (snapshot_json (sample_input one) (sample_family one) ''g'' ys v)"
    and "text_bound (snapshot_json (sample_input one) (sample_family one) ''g'' ys v) \<le> 20000"
proof -
  have v: "v = JObject [(''binding_ids'', strings_json [''b1'']), (''currency'', JString ''USD''), (''funding'', JString ''byok''),
      (''priority'', JBool True), (''scale'', JInt 2)]"
    using assms(3) by (simp add: without_schema_def context_json_def sample_context_def jobj_def member_def om_insert.simps om_remove_def)
  have v': "v = jobj [(''binding_ids'', strings_json [''b1'']), (''currency'', JString ''USD''), (''funding'', JString ''byok''),
      (''priority'', JBool True), (''scale'', JInt 2)]"
    unfolding v by (simp add: jobj_def om_insert.simps)
  have ys: "good 3 (JArray ys)" "text_bound (JArray ys) \<le> 5000"
    unfolding mset_sizes[OF assms(2)]
    by (simp_all add: sample_documents_def sample_document_def purpose_json_def measure_json literal_ok byte_def)
  note r = small_revision[of one]
  show "good 2 (snapshot_json (sample_input one) (sample_family one) ''g'' ys v)"
    unfolding snapshot_json_def v' using ys(1) r assms(1)
    by (simp add: Let_def measure_json scope_json_def strings_json_def revision_json_def revision_text_def literal_ok byte_def
        sample_input_def sample_event_def sample_family_def sample_grant_def event_scope_def event_source_def demo_scope_def)
  show "text_bound (snapshot_json (sample_input one) (sample_family one) ''g'' ys v) \<le> 20000"
    unfolding snapshot_json_def v' using ys(2) r assms(1)
    by (simp add: Let_def measure_json scope_json_def strings_json_def revision_json_def revision_text_def literal_ok byte_def
        sample_input_def sample_event_def sample_family_def sample_grant_def event_scope_def event_source_def demo_scope_def)
qed

definition framed :: "revision \<Rightarrow> frame \<Rightarrow> bool" where
  "framed one fm \<longleftrightarrow> fm_scope fm = demo_scope \<and> fm_event_id fm = ''ev_1'' \<and> fm_chain fm = ''main''
    \<and> fm_family fm = sample_family one \<and> fm_policy_doc fm = ''p'' \<and> fm_roles_doc fm = ''r''
    \<and> (\<exists>v. fm_snapshot_id fm = named ''doc'' DomDocument v) \<and> sized (fm_decision_id fm) \<and> sized (fm_receipt_id fm)
    \<and> sized (fm_claim_id fm) \<and> sized (fm_obligation_id fm) \<and> sized (fm_snapshot_hash fm)
    \<and> good 1 (fm_snapshot fm) \<and> text_bound (fm_snapshot fm) \<le> 20000
    \<and> good 1 (fm_claim_facts fm) \<and> text_bound (fm_claim_facts fm) \<le> 10000"

lemma sample_frame:
  assumes one: "revision_value one = 1"
  shows "\<exists>fm. frame_of length_hash (sample_input one) = Inr fm \<and> framed one fm"
proof -
  let ?docs = "sample_documents one"
  obtain ci where ci: "completion_claim_id length_hash sample_event = Inr (named ''cl'' DomClaim ci)" using sample_claim by auto
  obtain facts where facts: "completion_facts length_hash sample_event [] = Inr facts" "good 1 facts" "text_bound facts \<le> 10000"
    using sample_facts by blast
  obtain ys where ys: "sort_set (\<lambda>v. v) (map purpose_json ?docs) = Inr ys" "mset ys = mset (map purpose_json ?docs)"
    using sample_purposes by blast
  obtain v where v: "without_schema (context_json sample_context) = Inr v" using without_schema_ok by blast
  define sn where "sn = snapshot_json (sample_input one) (sample_family one) ''g'' ys v"
  have sn: "good 2 sn" "text_bound sn \<le> 20000" unfolding sn_def by (rule sample_snapshot[OF one ys(2) v])+
  let ?t = "JArray [JString ''snapshot'', JInt 1, sn]"
  have t: "good 0 ?t" "text_bound ?t \<le> 1000000"
    using sn good_mono[OF sn(1), of 1] by (simp_all add: measure_json literal_ok byte_def)
  obtain h where h: "digest length_hash DomDocument ?t = Inr h" "str_ok h" "length h = 71" using digest_small[OF t] by blast
  let ?ob = "JArray [scope_json demo_scope, JString ''a1'', JString ''retail'', JString ''USD'', JInt 2, roles_json sample_roles]"
  have ob: "good 0 ?ob" "text_bound ?ob \<le> 1000000"
    by (simp_all add: scope_json_def demo_scope_def roles_json_def sample_roles_def member_def measure_json literal_ok byte_def)
  have ev: "good 0 (JArray [JString ''ev_1''])" "text_bound (JArray [JString ''ev_1'']) \<le> 1000000"
    by (simp_all add: measure_json literal_ok byte_def)
  note ids = identity_small[OF ev, of DomDecision "''dc''"] identity_small[OF ev, of DomReceipt "''rc''"]
    identity_small[OF t, of DomDocument "''doc''"] identity_small[OF ob, of DomObligation "''ob''"]
  have docs: "document_for ?docs ''policy'' = Inr (sample_document ''p'' ''policy'' ''policy'' (jobj []) (PolicyData sample_policy))"
    "document_for ?docs ''roles'' = Inr (sample_document ''r'' ''roles'' ''roles'' (jobj []) (RolesData sample_roles))"
    "document_for ?docs ''chain_context'' = Inr (sample_document ''c'' ''context'' ''chain_context''
        (context_json sample_context) (ContextData sample_context))"
    "document_for ?docs ''source_grant'' = Inr (sample_document ''g'' ''source-grant'' ''source_grant'' (jobj []) (GrantData sample_grant))"
    by (simp_all add: sample_documents_def sample_document_def document_for_def)
  have e: "event_scope sample_event = demo_scope" "event_ident sample_event = ''ev_1''" "event_chain sample_event = Inr ''main''"
    by (simp_all add: sample_event_def event_scope_def event_ident_def event_chain_def)
  have fam: "family_of ?docs = Inr (sample_family one)" using sample_family by (simp add: sample_input_def)
  have sz: "sized (named ''dc'' d w)" "sized (named ''rc'' d w)" "sized (named ''cl'' d w)" "sized (named ''ob'' d w)" for d w
    by (rule sized_named; simp add: byte_def)+
  have parts: "bi_agreement_id (fa_binding (sample_family one)) = ''a1''" "fa_roles (sample_family one) = sample_roles"
    "fa_policy (sample_family one) = sample_policy" "ri_event (sample_input one) = sample_event"
    "ri_documents (sample_input one) = ?docs" "doc_id (sample_document i k p b x) = i" "doc_body (sample_document i k p b x) = b"
    for i k p b x
    by (simp_all add: sample_family_def sample_binding_def sample_input_def sample_document_def)
  let ?fm = "\<lparr>fm_scope = demo_scope, fm_event_id = ''ev_1'', fm_chain = ''main'',
    fm_decision_id = named ''dc'' DomDecision (JArray [JString ''ev_1'']),
    fm_receipt_id = named ''rc'' DomReceipt (JArray [JString ''ev_1'']), fm_claim_id = named ''cl'' DomClaim ci,
    fm_claim_facts = facts, fm_family = sample_family one, fm_policy_doc = ''p'', fm_roles_doc = ''r'',
    fm_context_doc = ''c'', fm_snapshot = sn, fm_snapshot_id = named ''doc'' DomDocument ?t, fm_snapshot_hash = h,
    fm_obligation_id = named ''ob'' DomObligation ?ob\<rparr>"
  have "frame_of length_hash (sample_input one) = Inr ?fm"
    unfolding frame_of_def Let_def parts e docs fam ci facts(1) rbind_simps ys(1) v
    by (simp add: parts e docs ids v h(1) sn_def[symmetric])
  moreover have "sized h" using h(2,3) by (simp add: sized_def)
  ultimately show ?thesis
    using sn facts(2,3) good_mono[OF sn(1), of 1] sz by (intro exI[of _ ?fm]) (auto simp: framed_def)
qed

section \<open>The first records of the sample\<close>

definition jkey :: "journal_record \<Rightarrow> string \<times> json" where
  "jkey r = (jr_kind r, jr_id r)"

lemma jkey_fun: "jkey = (\<lambda>r. (jr_kind r, jr_id r))"
  by (rule ext) (simp add: jkey_def)

lemma rmap_small:
  assumes "\<And>x. x \<in> set xs \<Longrightarrow> \<exists>r. f x = Inr r \<and> P r \<and> g r = k x"
  shows "\<exists>rs. rmap f xs = Inr rs \<and> (\<forall>r \<in> set rs. P r) \<and> map g rs = map k xs"
  using assms
proof (induction xs)
  case (Cons x xs)
  obtain r where "f x = Inr r" "P r" "g r = k x" using Cons.prems by force
  moreover obtain rs where "rmap f xs = Inr rs" "\<forall>r \<in> set rs. P r" "map g rs = map k xs"
    using Cons.IH Cons.prems by force
  ultimately show ?case by simp
qed simp

definition ref_tuple :: "string \<times> string \<Rightarrow> json" where
  "ref_tuple entry = JArray [JString ''ev_1'', JString (fst entry), JString (snd entry)]"

lemma plain_named: "plain p \<Longrightarrow> plain (named p d v)"
proof -
  assume p: "plain p"
  have d: "32 \<le> byte (hex_digit n) \<and> byte (hex_digit n) < 128 \<and> hex_digit n \<noteq> CHR ''\"'' \<and> hex_digit n \<noteq> CHR 92" if "n < 16" for n
    using that byte_hex_digit[OF that] by (cases "n < 10") (auto simp: byte_def)
  have "plain (hex s)" for s
    unfolding hex_def
  proof (induction s)
    case (Cons c s)
    have "byte c div 16 < 16" "byte c mod 16 < 16" using byte_less[of c] by simp_all
    from d[OF this(1)] d[OF this(2)] Cons show ?case by (simp add: plain_def hex_byte_def)
  qed (simp add: plain_def)
  then show ?thesis using p by (simp add: named_def hash_text_def plain_def byte_def)
qed

lemma ref_length:
  assumes "plain p" and "plain i"
  shows "length (jtext (ref_tuple (p, i))) = length p + length i + 14"
proof -
  have "plain ''ev_1''" by (simp add: plain_def byte_def)
  then show ?thesis using assms by (simp add: ref_tuple_def plain_jstring)
qed

lemma add_mod_cancel:
  fixes k a b m :: nat
  assumes "(k + a) mod m = (k + b) mod m"
  shows "a mod m = b mod m"
proof -
  have "(int k + int a) mod int m = (int k + int b) mod int m"
    using assms by (metis of_nat_add of_nat_mod)
  then have "int a mod int m = int b mod int m" by (simp add: mod_eq_dvd_iff)
  then show ?thesis by (metis of_nat_eq_iff of_nat_mod)
qed

lemma named_inj:
  assumes "named p d v = named p d w"
  shows "length (jtext v) mod 256 = length (jtext w) mod 256"
proof -
  let ?n = "\<lambda>v. length (''ledgerlab/'' @ domain_name d @ ''/1'' @ [CHR 0x00] @ jtext v)"
  have "(char_of (?n v) :: char) = char_of (?n w)"
    using assms by (simp only: named_def hash_text_def append_same_eq same_append_eq hex_inj length_hash_def list.inject append_Nil2 simp_thms)
  then have "of_char (char_of (?n v) :: char) = (of_char (char_of (?n w) :: char) :: nat)" by (rule arg_cong)
  then have "?n v mod 256 = ?n w mod 256" by (simp only: of_char_of)
  then have "(length (domain_name d) + 13 + length (jtext v)) mod 256 = (length (domain_name d) + 13 + length (jtext w)) mod 256"
    by (simp add: algebra_simps)
  then show ?thesis by (rule add_mod_cancel)
qed

lemma sized_D: "sized s \<Longrightarrow> str_ok s" "sized s \<Longrightarrow> length s \<le> 80" "sized s \<Longrightarrow> string_bound s \<le> 482"
  by (simp_all add: sized_def string_bound_def)

lemma sized_string: "sized s \<Longrightarrow> d \<le> 32 \<Longrightarrow> good d (JString s) \<and> text_bound (JString s) \<le> 482"
  by (simp add: sized_D)

lemma sample_ref:
  assumes "framed one fm" and "sized p" and "sized i"
  shows "\<exists>r. snapshot_ref length_hash fm (p, i) = Inr r \<and> small_record r
    \<and> jkey r = (''snapshot-ref'', JString (named ''sr'' DomSnapshotRef (ref_tuple (p, i))))"
proof -
  let ?v = "ref_tuple (p, i)"
  have v: "good 0 ?v" "text_bound ?v \<le> 1000000"
    using assms(2,3) by (simp_all add: ref_tuple_def measure_json literal_ok byte_def sized_def)
  have sr: "sized (named ''sr'' DomSnapshotRef ?v)" by (rule sized_named) (simp_all add: byte_def)
  let ?body = "jobj [(''schema'', JString ''ledger-snapshot-ref/1''), (''id'', JString (named ''sr'' DomSnapshotRef ?v)),
           (''scope'', scope_json demo_scope), (''event_id'', JString ''ev_1''),
           (''purpose'', JString p), (''document_id'', JString i)]"
  have "\<exists>h. generic length_hash ''snapshot-ref'' demo_scope (JString (named ''sr'' DomSnapshotRef ?v)) ?body
      = Inr \<lparr>jr_kind = ''snapshot-ref'', jr_scope = demo_scope, jr_id = JString (named ''sr'' DomSnapshotRef ?v),
      jr_body = ?body, jr_content_hash = h, jr_document_type = None\<rparr>
    \<and> small_record \<lparr>jr_kind = ''snapshot-ref'', jr_scope = demo_scope, jr_id = JString (named ''sr'' DomSnapshotRef ?v),
      jr_body = ?body, jr_content_hash = h, jr_document_type = None\<rparr>"
    using assms(2,3) sr
    by (intro generic_small) (simp_all add: measure_json scope_json_def demo_scope_def literal_ok byte_def sized_def)
  then show ?thesis
    using assms(1) identity_small[OF v, of DomSnapshotRef "''sr''"]
    by (auto simp: snapshot_ref_def framed_def ref_tuple_def jkey_def)
qed

lemma sample_ingress: "parse model_serde (cd_ingress (e_candidate sample_event)) = Inr (event_json normal_event)"
proof -
  have "length (jtext (event_json normal_event)) \<le> 2000" by (rule raw_length)
  then show ?thesis
    unfolding parse_def sample_event_def
    by (simp add: good_parse[OF model_serde_ok sample_fit event_json_good[OF normal_event_ok]] CANDIDATE_LIMIT_def)
qed

lemma sample_event_json:
  "good 5 (event_json normal_event)" "text_bound (event_json normal_event) \<le> 5000"
  "good 5 (event_json (e_dto sample_event))" "text_bound (event_json (e_dto sample_event)) \<le> 5000"
  unfolding sample_event_def normal_event_def raw_event_def event_json_members event_members_def
  by (simp_all add: member_def measure_json strings_json_def decimal_display_def nat_str.simps digit_char_def literal_ok byte_def
      good_object good_members_def om_ok_def)

lemma sample_delivery:
  "\<exists>r. delivery_record model_serde length_hash sample_event = Inr r \<and> small_record r \<and> fst (jkey r) = ''delivery-key''"
proof -
  let ?i = "JArray [scope_json demo_scope, JString ''urn:a'', JString ''e1'']"
  let ?body = "jobj [(''schema'', JString ''ledger-delivery-key/1''), (''scope'', scope_json demo_scope),
         (''source'', JString ''urn:a''), (''external_id'', JString ''e1''),
         (''canonical_event_id'', JString ''ev_1''), (''kind'', JString ''original''),
         (''ingress'', event_json normal_event), (''ingress_hash'', JString ''sha256:0'')]"
  have "\<exists>h. generic length_hash ''delivery-key'' demo_scope ?i ?body = Inr \<lparr>jr_kind = ''delivery-key'',
      jr_scope = demo_scope, jr_id = ?i, jr_body = ?body, jr_content_hash = h, jr_document_type = None\<rparr>
    \<and> small_record \<lparr>jr_kind = ''delivery-key'', jr_scope = demo_scope, jr_id = ?i, jr_body = ?body, jr_content_hash = h,
      jr_document_type = None\<rparr>"
    using sample_event_json good_mono[OF sample_event_json(1), of 2]
    by (intro generic_small) (simp_all add: measure_json scope_json_def demo_scope_def literal_ok byte_def numeral_2_eq_2)
  moreover have "ev_id (e_dto sample_event) = ''e1''" "event_source sample_event = ''urn:a''" "event_scope sample_event = demo_scope"
    "event_ident sample_event = ''ev_1''" "cd_ingress_hash (e_candidate sample_event) = ''sha256:0''"
    by (simp_all add: sample_event_def normal_event_def raw_event_def event_source_def event_scope_def event_ident_def)
  ultimately show ?thesis by (auto simp: delivery_record_def sample_ingress jkey_def)
qed

lemma sample_claim_record:
  assumes "framed one fm"
  shows "\<exists>r. claim_record length_hash fm sample_event = Inr r \<and> small_record r \<and> fst (jkey r) = ''claim''"
proof -
  note f = assms[unfolded framed_def]
  obtain h where h: "digest length_hash DomClaimFacts (fm_claim_facts fm) = Inr h" "str_ok h" "length h = 71"
    using digest_small[of "fm_claim_facts fm"] f good_mono[of 1 "fm_claim_facts fm" 0] by auto
  let ?i = "JString (fm_claim_id fm)"
  let ?body = "jobj [(''schema'', JString ''ledger-claim/1''), (''id'', JString (fm_claim_id fm)),
         (''scope'', scope_json demo_scope), (''source'', JString ''urn:a''),
         (''operation_id'', JString ''e1''), (''kind'', JString ''completion''),
         (''token'', JString ''completion''), (''event_id'', JString ''ev_1''), (''facts_hash'', JString h)]"
  have "\<exists>h. generic length_hash ''claim'' demo_scope ?i ?body = Inr \<lparr>jr_kind = ''claim'',
      jr_scope = demo_scope, jr_id = ?i, jr_body = ?body, jr_content_hash = h, jr_document_type = None\<rparr>
    \<and> small_record \<lparr>jr_kind = ''claim'', jr_scope = demo_scope, jr_id = ?i, jr_body = ?body, jr_content_hash = h,
      jr_document_type = None\<rparr>"
    using f h by (intro generic_small) (simp_all add: measure_json scope_json_def demo_scope_def literal_ok byte_def sized_def)
  moreover have "operation_id (e_candidate sample_event) = Inr ''e1''" "event_source sample_event = ''urn:a''"
    by (simp_all add: sample_event_def normal_event_def raw_event_def event_source_def operation_id_def)
  ultimately show ?thesis using f h by (auto simp: claim_record_def jkey_def)
qed

text \<open>The keys of the first records: the references have different lengths.\<close>

definition entries :: "frame \<Rightarrow> (string \<times> string) list" where
  "entries fm = [(''policy'', ''p''), (''roles'', ''r''), (''assent'', ''aaaa''), (''source_grant'', ''g''),
     (''chain_context'', ''c''), (''binding'', ''b''), (''decision_snapshot'', fm_snapshot_id fm)]"

definition ref_key :: "string \<times> string \<Rightarrow> string \<times> json" where
  "ref_key entry = (''snapshot-ref'', JString (named ''sr'' DomSnapshotRef (ref_tuple entry)))"

lemma sample_ref_keys:
  assumes "framed one fm"
  shows "distinct (map ref_key (entries fm))"
proof -
  obtain v where v: "fm_snapshot_id fm = named ''doc'' DomDocument v" using assms by (auto simp: framed_def)
  let ?n = "\<lambda>e. length (jtext (ref_tuple e)) mod 256"
  have "plain (fm_snapshot_id fm)" unfolding v by (rule plain_named) (simp add: plain_def byte_def)
  moreover have "plain s" if "s \<in> {''policy'', ''roles'', ''assent'', ''source_grant'', ''chain_context'', ''binding'',
      ''decision_snapshot'', ''p'', ''r'', ''aaaa'', ''g'', ''c'', ''b''}" for s
    using that by (auto simp: plain_def byte_def)
  ultimately have "map ?n (entries fm) = [21, 20, 24, 27, 28, 22, 99]"
    by (simp add: entries_def ref_length v)
  then have "distinct (map ?n (entries fm))" by simp
  then have "distinct (map (\<lambda>e. named ''sr'' DomSnapshotRef (ref_tuple e)) (entries fm))"
    unfolding distinct_map inj_on_def using named_inj by blast
  then show ?thesis unfolding distinct_map inj_on_def ref_key_def by auto
qed

lemma sample_first_records:
  assumes "framed one fm"
  shows "\<exists>rs. opening_records model_serde length_hash (sample_input one) fm = Inr rs \<and> (\<forall>r \<in> set rs. small_record r)
    \<and> (\<exists>i j. map jkey rs = (''document'', JString (fm_snapshot_id fm)) # map ref_key (entries fm)
        @ [(''event'', JString ''ev_1''), (''delivery-key'', i), (''claim'', j)])"
proof -
  note f = assms[unfolded framed_def]
  obtain v where v: "fm_snapshot_id fm = named ''doc'' DomDocument v" using f by auto
  have "sized (fm_snapshot_id fm)" unfolding v by (rule sized_named) (simp_all add: byte_def)
  then have "\<forall>e \<in> set (entries fm). sized (fst e) \<and> sized (snd e)"
    by (simp add: entries_def sized_def literal_ok byte_def)
  then have "\<exists>r. snapshot_ref length_hash fm e = Inr r \<and> small_record r \<and> jkey r = ref_key e" if "e \<in> set (entries fm)" for e
    using sample_ref[OF assms, of "fst e" "snd e"] that by (auto simp: ref_key_def)
  then obtain refs where refs: "rmap (snapshot_ref length_hash fm) (entries fm) = Inr refs"
    "\<forall>r \<in> set refs. small_record r" "map jkey refs = map ref_key (entries fm)"
    using rmap_small[of "entries fm" "snapshot_ref length_hash fm" small_record jkey ref_key] by blast
  have docs: "map (\<lambda>d. (doc_purpose d, doc_id d)) (ri_documents (sample_input one)) @ [(''decision_snapshot'', fm_snapshot_id fm)]
      = entries fm"
    by (simp add: sample_input_def sample_documents_def sample_document_def entries_def)
  obtain d where d: "delivery_record model_serde length_hash sample_event = Inr d" "small_record d" "fst (jkey d) = ''delivery-key''"
    using sample_delivery by blast
  obtain c where c: "claim_record length_hash fm sample_event = Inr c" "small_record c" "fst (jkey c) = ''claim''"
    using sample_claim_record[OF assms] by blast
  have s: "small_record (snapshot_record fm)"
    using f v by (auto simp: small_record_def snapshot_record_def sized_def literal_ok byte_def string_bound_def)
  have e: "small_record (event_record sample_event)"
    using sample_event_json(4) good_mono[OF sample_event_json(3), of 1]
    by (auto simp: small_record_def event_record_def sample_event_def event_scope_def event_ident_def literal_ok byte_def string_bound_def)
  have k: "jkey (snapshot_record fm) = (''document'', JString (fm_snapshot_id fm))"
    "jkey (event_record sample_event) = (''event'', JString ''ev_1'')"
    by (simp_all add: jkey_def snapshot_record_def event_record_def sample_event_def event_ident_def)
  have "ri_event (sample_input one) = sample_event" by (simp add: sample_input_def)
  then show ?thesis
    unfolding opening_records_def Let_def docs
    using refs d c s e k by (cases "jkey d"; cases "jkey c") auto
qed

section \<open>The step of the sample\<close>

definition sample_step :: step where
  "sample_step = \<lparr>st_rule = Some 0, st_code = ''BASE_APPLIED'', st_unrounded = Some \<lparr>numerator = 100, denominator = 1\<rparr>,
      st_rounded = Some 100, st_basis = None, st_inputs = []\<rparr>"

lemma sample_step: "evaluate_steps sample_policy (view_of sample_event sample_context) None = Inr [sample_step]"
proof -
  have "v_status (view_of sample_event sample_context) = Some Succeeded"
    by (simp add: view_of_def sample_event_def normal_event_def)
  then show ?thesis
    by (simp add: evaluate_steps_def sample_step_def rule_eval_def predicates_eval_def upt_rec sample_ratios[simplified] discount_check_def)
qed

lemma small_generic:
  assumes "good 1 body" and "text_bound body \<le> 120000" and "str_ok kind" and "length kind \<le> 100"
    and "good 4 i" and "text_bound i \<le> 2000"
  shows "\<exists>r. generic length_hash kind demo_scope i body = Inr r \<and> small_record r \<and> jkey r = (kind, i)"
  using generic_small[OF assms] by (auto simp: jkey_def)

lemma scope_measure: "good d (scope_json demo_scope) \<longleftrightarrow> d < 32" "text_bound (scope_json demo_scope) = 62"
  by (auto simp: scope_json_def demo_scope_def good_array string_bound_def literal_ok byte_def)

lemma roles_measure: "good d (roles_json sample_roles) \<longleftrightarrow> d < 32" "text_bound (roles_json sample_roles) \<le> 2000"
  by (auto simp: roles_json_def sample_roles_def member_def measure_json literal_ok byte_def)

lemma nat_digits: "nat_str 0 = ''0''" "nat_str 1 = ''1''" "nat_str 2 = ''2''" "nat_str 100 = ''100''"
  by code_simp+

lemma money_measure:
  "good d (money_json \<lparr>currency = ''USD'', mscale = 2, atoms = 100\<rparr>) \<longleftrightarrow> d < 32"
  "text_bound (money_json \<lparr>currency = ''USD'', mscale = 2, atoms = 100\<rparr>) \<le> 500"
  by (auto simp: money_json_def money_serialize_def int_str_def nat_digits measure_json literal_ok byte_def)

lemma sized_lengths: "sized s \<Longrightarrow> str_ok s \<and> length s \<le> 80" by (simp add: sized_def)

lemma sample_action:
  assumes "framed one fm"
  shows "\<exists>a. build_action length_hash fm (cp_rules sample_policy ! 0) 100 [] = Inr a \<and> sized (act_id a) \<and> sized (act_effect_id a)
    \<and> act_amount a = \<lparr>currency = ''USD'', mscale = 2, atoms = 100\<rparr> \<and> act_inputs a = []
    \<and> good 3 (action_json a) \<and> text_bound (action_json a) \<le> 20000
    \<and> good 3 (effect_facts_json fm (cp_rules sample_policy ! 0) a)
    \<and> text_bound (effect_facts_json fm (cp_rules sample_policy ! 0) a) \<le> 20000
    \<and> good 5 (breakdown_json a) \<and> text_bound (breakdown_json a) \<le> 5000"
proof -
  note f = assms[unfolded framed_def]
  obtain v where v: "fm_snapshot_id fm = named ''doc'' DomDocument v" using f by auto
  have sn: "sized (fm_snapshot_id fm)" unfolding v by (rule sized_named) (simp_all add: byte_def)
  let ?e = "JArray [scope_json demo_scope, JString ''a1'', JString ''compute.base'', JString (fm_claim_id fm),
      JString ''self'', JString ''original'']"
  have e: "identity length_hash DomEffect ?e = Inr (named ''ef'' DomEffect ?e)"
    using f by (intro identity_small) (simp_all add: measure_json scope_measure literal_ok byte_def sized_def)
  have se: "sized (named ''ef'' DomEffect ?e)" by (rule sized_named) (simp_all add: byte_def)
  let ?a = "JArray [JString (named ''ef'' DomEffect ?e)]"
  have a: "identity length_hash DomAction ?a = Inr (named ''ac'' DomAction ?a)"
    using sized_lengths[OF se] by (intro identity_small) (simp_all add: measure_json)
  have sa: "sized (named ''ac'' DomAction ?a)" by (rule sized_named) (simp_all add: byte_def)
  have m: "money_new ''USD'' 2 100 = Inr \<lparr>currency = ''USD'', mscale = 2, atoms = 100\<rparr>"
    by (simp add: money_new_def validate_currency_def is_upper_def byte_def checked_atoms_def MAX_ATOMS_def)
  define act where "act = \<lparr>act_id = named ''ac'' DomAction ?a, act_scope = demo_scope, act_event_id = ''ev_1'',
        act_decision_id = fm_decision_id fm, act_effect_id = named ''ef'' DomEffect ?e, act_obligation_id = fm_obligation_id fm,
        act_kind = ChargeAction, act_component = ''compute.base'', act_amount = \<lparr>currency = ''USD'', mscale = 2, atoms = 100\<rparr>,
        act_roles = sample_roles, act_roles_doc = ''r'', act_rule_id = ''fee'', act_binding_id = ''b1'',
        act_snapshot_doc = fm_snapshot_id fm, act_sources = [''ev_1''], act_links = [], act_inputs = []\<rparr>"
  have b: "build_action length_hash fm (cp_rules sample_policy ! 0) 100 [] = Inr act"
  proof -
    have p: "fm_scope fm = demo_scope" "fm_event_id fm = ''ev_1''" "fa_policy (fm_family fm) = sample_policy"
      "fa_roles (fm_family fm) = sample_roles" "bi_agreement_id (fa_binding (fm_family fm)) = ''a1''"
      "bi_id (fa_binding (fm_family fm)) = ''b1''" "fm_roles_doc fm = ''r''"
      using f by (simp_all add: sample_family_def sample_binding_def)
    have r: "r_component (cp_rules sample_policy ! 0) = ''compute.base''" "r_id (cp_rules sample_policy ! 0) = ''fee''"
      "r_operation (cp_rules sample_policy ! 0) = Base \<lparr>coefficient = 1, dscale = 0\<rparr>"
      by simp_all
    show ?thesis
      unfolding build_action_def Let_def p r e rbind_simps a sample_policy_parts(1,2) m act_def by simp
  qed
  have fields: "sized (act_id act)" "sized (act_effect_id act)" "sized (act_decision_id act)" "sized (act_obligation_id act)"
    "sized (act_snapshot_doc act)"
    using se sa f sn by (simp_all add: act_def)
  note l = fields[THEN sized_lengths]
  have fc: "bi_agreement_id (fa_binding (fm_family fm)) = ''a1''" "fa_roles (fm_family fm) = sample_roles" "fm_scope fm = demo_scope"
    "str_ok (fm_claim_id fm)" "length (fm_claim_id fm) \<le> 80"
    using f by (simp_all add: sample_family_def sample_binding_def sized_def)
  have rest: "act_scope act = demo_scope" "act_event_id act = ''ev_1''" "act_kind act = ChargeAction" "act_component act = ''compute.base''"
    "act_amount act = \<lparr>currency = ''USD'', mscale = 2, atoms = 100\<rparr>" "act_roles act = sample_roles" "act_roles_doc act = ''r''"
    "act_rule_id act = ''fee''" "act_binding_id act = ''b1''" "act_sources act = [''ev_1'']" "act_links act = []" "act_inputs act = []"
    by (simp_all add: act_def)
  have j: "good 3 (action_json act)" "good 5 (breakdown_json act)" "good 3 (effect_facts_json fm (cp_rules sample_policy ! 0) act)"
    unfolding action_json_def breakdown_json_def effect_facts_json_def rest fc(1-3) using l fc(4)
    by (simp_all add: measure_json scope_measure roles_measure(1) money_measure(1) strings_json_def literal_ok byte_def)
  have t: "text_bound (action_json act) \<le> 20000" "text_bound (breakdown_json act) \<le> 5000"
    "text_bound (effect_facts_json fm (cp_rules sample_policy ! 0) act) \<le> 20000"
    unfolding action_json_def breakdown_json_def effect_facts_json_def rest fc(1-3) using l fc(5) roles_measure(2) money_measure(2)
    by (simp_all add: measure_json scope_measure strings_json_def)
  show ?thesis using b fields rest j t by blast
qed

lemma sample_action_records:
  assumes fm: "framed one fm" and a: "sized (act_id a)" "sized (act_effect_id a)" "act_inputs a = []"
    and j: "good 3 (action_json a)" "text_bound (action_json a) \<le> 20000"
    and facts: "good 3 (effect_facts_json fm r a)" "text_bound (effect_facts_json fm r a) \<le> 20000"
    and r: "r_component r = ''compute.base''"
  shows "\<exists>rs i. action_records length_hash fm r a = Inr rs \<and> (\<forall>x \<in> set rs. small_record x)
    \<and> map jkey rs = [(''effect'', JString (act_effect_id a)), (''action'', JString (act_id a)), (''action-source'', i)]"
proof -
  note f = fm[unfolded framed_def]
  have fc: "bi_agreement_id (fa_binding (fm_family fm)) = ''a1''" "fm_scope fm = demo_scope" "fm_event_id fm = ''ev_1''"
    "str_ok (fm_claim_id fm)" "length (fm_claim_id fm) \<le> 80"
    using f by (simp_all add: sample_family_def sample_binding_def sized_def)
  note l = a(1,2)[THEN sized_lengths]
  obtain h where h: "digest length_hash DomEffectFacts (effect_facts_json fm r a) = Inr h" "str_ok h" "length h = 71"
    using digest_small[of "effect_facts_json fm r a"] facts good_mono[of 3 "effect_facts_json fm r a" 0] by auto
  obtain r1 where r1: "generic length_hash ''effect'' demo_scope (JString (act_effect_id a))
      (jobj [(''schema'', JString ''ledger-effect/1''), (''id'', JString (act_effect_id a)),
         (''scope'', scope_json demo_scope), (''agreement_id'', JString ''a1''),
         (''component'', JString ''compute.base''), (''claim_id'', JString (fm_claim_id fm)),
         (''match_key'', JString ''self''), (''namespace'', JString ''original''),
         (''facts_hash'', JString h), (''action_id'', JString (act_id a))]) = Inr r1"
    "small_record r1" "jkey r1 = (''effect'', JString (act_effect_id a))"
    using small_generic[of "jobj [(''schema'', JString ''ledger-effect/1''), (''id'', JString (act_effect_id a)),
         (''scope'', scope_json demo_scope), (''agreement_id'', JString ''a1''),
         (''component'', JString ''compute.base''), (''claim_id'', JString (fm_claim_id fm)),
         (''match_key'', JString ''self''), (''namespace'', JString ''original''),
         (''facts_hash'', JString h), (''action_id'', JString (act_id a))]" "''effect''" "JString (act_effect_id a)"]
      l fc(4,5) h(2,3) by (auto simp: measure_json scope_measure literal_ok byte_def)
  obtain r2 where r2: "generic length_hash ''action'' demo_scope (JString (act_id a)) (action_json a) = Inr r2"
    "small_record r2" "jkey r2 = (''action'', JString (act_id a))"
    using small_generic[of "action_json a" "''action''" "JString (act_id a)"] j good_mono[OF j(1), of 1] l
    by (auto simp: measure_json literal_ok byte_def)
  let ?i = "JArray [scope_json demo_scope, JString (act_id a), JString ''ev_1'']"
  obtain r3 where r3: "generic length_hash ''action-source'' demo_scope ?i
        (jobj [(''schema'', JString ''ledger-action-source/1''), (''scope'', scope_json demo_scope),
          (''action_id'', JString (act_id a)), (''event_id'', JString ''ev_1'')]) = Inr r3"
    "small_record r3" "jkey r3 = (''action-source'', ?i)"
    using small_generic[of "jobj [(''schema'', JString ''ledger-action-source/1''), (''scope'', scope_json demo_scope),
          (''action_id'', JString (act_id a)), (''event_id'', JString ''ev_1'')]" "''action-source''" ?i] l
    by (auto simp: measure_json scope_measure literal_ok byte_def)
  have "action_records length_hash fm r a = Inr [r1, r2, r3]"
    unfolding action_records_def effect_record_def h(1) rbind_simps fc(1-3) r r1(1) r2(1) r3(1) a(3) by simp
  then show ?thesis using r1 r2 r3 by auto
qed

definition sample_assembly :: "frame \<Rightarrow> journal_record list \<Rightarrow> action \<Rightarrow> explanation \<Rightarrow> journal_record list \<Rightarrow> assembly" where
  "sample_assembly fm first a x rs = \<lparr>al_records = first @ rs, al_actions = [a], al_explanations = [x],
     al_effect_facts = [effect_facts_json fm (cp_rules sample_policy ! 0) a], al_rule_actions = [Some (act_id a)]\<rparr>"

lemma sample_assembled:
  assumes fm: "framed one fm"
  shows "\<exists>a x rs i. assemble_steps length_hash fm first [sample_step] = Inr (sample_assembly fm first a x rs)
    \<and> (\<forall>r \<in> set rs. small_record r) \<and> sized (act_id a) \<and> sized (ex_id x)
    \<and> act_amount a = \<lparr>currency = ''USD'', mscale = 2, atoms = 100\<rparr>
    \<and> good 5 (breakdown_json a) \<and> text_bound (breakdown_json a) \<le> 5000
    \<and> good 3 (explanation_json x) \<and> text_bound (explanation_json x) \<le> 20000
    \<and> map jkey rs = [(''effect'', JString (act_effect_id a)), (''action'', JString (act_id a)), (''action-source'', i),
        (''explanation'', JString (ex_id x))]"
proof -
  note f = fm[unfolded framed_def]
  let ?r = "cp_rules sample_policy ! 0"
  obtain a where a: "build_action length_hash fm ?r 100 [] = Inr a" "sized (act_id a)" "sized (act_effect_id a)"
    "act_amount a = \<lparr>currency = ''USD'', mscale = 2, atoms = 100\<rparr>" "act_inputs a = []"
    "good 3 (action_json a)" "text_bound (action_json a) \<le> 20000"
    "good 3 (effect_facts_json fm ?r a)" "text_bound (effect_facts_json fm ?r a) \<le> 20000"
    "good 5 (breakdown_json a)" "text_bound (breakdown_json a) \<le> 5000"
    using sample_action[OF fm] by blast
  have rc: "r_component ?r = ''compute.base''" "r_id ?r = ''fee''" "r_operation ?r = Base \<lparr>coefficient = 1, dscale = 0\<rparr>" by simp_all
  obtain rs i where rs: "action_records length_hash fm ?r a = Inr rs" "\<forall>x \<in> set rs. small_record x"
    "map jkey rs = [(''effect'', JString (act_effect_id a)), (''action'', JString (act_id a)), (''action-source'', i)]"
    using sample_action_records[OF fm a(2,3,5,6,7,8,9) rc(1)] by (elim exE conjE) (rule that)
  have p: "fm_scope fm = demo_scope" "fm_event_id fm = ''ev_1''" "fa_policy (fm_family fm) = sample_policy"
    "bi_id (fa_binding (fm_family fm)) = ''b1''" "fm_policy_doc fm = ''p''"
    using f by (simp_all add: sample_family_def sample_binding_def)
  let ?xp = "JArray [JString ''ev_1'', JInt (int 0)]"
  have xp: "identity length_hash DomExplanation ?xp = Inr (named ''xp'' DomExplanation ?xp)"
    by (rule identity_small) (simp_all add: measure_json literal_ok byte_def)
  have sx: "sized (named ''xp'' DomExplanation ?xp)" by (rule sized_named) (simp_all add: byte_def)
  obtain refs where refs: "sort_set JString [''p''] = Inr refs" "mset refs = mset [''p'']"
    using sort_set_small[of "[''p'']" JString] by (auto simp: measure_json literal_ok byte_def)
  have refs': "refs = [''p'']" using refs(2) by simp
  define x where "x = step_explanation fm 0 sample_step (Some ?r) (named ''xp'' DomExplanation ?xp) [''p''] None
    [InDecimal ''fixed'' \<lparr>coefficient = 1, dscale = 0\<rparr> (decimal_ratio \<lparr>coefficient = 1, dscale = 0\<rparr>)] [act_id a]"
  have xf: "ex_id x = named ''xp'' DomExplanation ?xp" "ex_scope x = demo_scope" "ex_event_id x = ''ev_1''" "ex_ordinal x = 0"
    "ex_rule_id x = Some ''fee''" "ex_outcome x = ''applied''" "ex_code x = ''BASE_APPLIED''" "ex_binding_id x = ''b1''"
    "ex_input_refs x = [''p'']" "ex_basis_name x = None" "ex_basis x = None"
    "ex_inputs x = [InDecimal ''fixed'' \<lparr>coefficient = 1, dscale = 0\<rparr> \<lparr>numerator = 1, denominator = 1\<rparr>]"
    "ex_unrounded_atoms x = Some \<lparr>numerator = 100, denominator = 1\<rparr>" "ex_rounded_atoms x = Some 100" "ex_action_ids x = [act_id a]"
    using p rc(2) by (simp_all add: x_def step_explanation_def sample_step_def outcome_of_def decimal_ratio_def reduced_def tdiv_def tmod_def euclid.simps)
  have xj: "good 3 (explanation_json x)" "text_bound (explanation_json x) \<le> 20000"
    unfolding explanation_json_def xf using sized_lengths[OF sx] sized_lengths[OF a(2)]
    by (simp_all add: member_def measure_json scope_measure strings_json_def ratio_json_def decimal_json_def jstr_def
        int_str_def nat_digits[simplified] decimal_display_def literal_ok byte_def)
  obtain rx where rx: "generic length_hash ''explanation'' demo_scope (JString (named ''xp'' DomExplanation ?xp)) (explanation_json x) = Inr rx"
    "small_record rx" "jkey rx = (''explanation'', JString (named ''xp'' DomExplanation ?xp))"
    using small_generic[of "explanation_json x" "''explanation''" "JString (named ''xp'' DomExplanation ?xp)"]
      xj good_mono[OF xj(1), of 1] sized_lengths[OF sx] by (auto simp: measure_json literal_ok byte_def)
  have "assemble_steps length_hash fm first [sample_step] = Inr (sample_assembly fm first a x (rs @ [rx]))"
    using p xp refs(1) refs' a(1) rs(1) rx(1) rc(3)
    by (simp add: assemble_steps_def assemble_step_def rule_at_def sample_step_def operation_inputs_def step_action_def binding_refs_def
        sample_assembly_def ok_or_def Let_def x_def)
  then show ?thesis using a rs rx xj sx xf(1) by (intro exI[of _ a] exI[of _ x] exI[of _ "rs @ [rx]"] exI[of _ i]) auto
qed

section \<open>The plan of the sample\<close>

lemma sample_intention:
  assumes fm: "framed one fm" and a: "sized (act_id a)" "act_amount a = \<lparr>currency = ''USD'', mscale = 2, atoms = 100\<rparr>"
    "good 5 (breakdown_json a)" "text_bound (breakdown_json a) \<le> 5000"
  shows "\<exists>i r. intentions_of length_hash fm [a] [act_id a] = Inr ([i], [r]) \<and> small_record r \<and> sized (in_id i)
    \<and> jkey r = (''intention'', JString (in_id i))"
proof -
  note f = fm[unfolded framed_def]
  have fc: "fm_scope fm = demo_scope" "fm_event_id fm = ''ev_1''" "fa_policy (fm_family fm) = sample_policy"
    "bi_agreement_id (fa_binding (fm_family fm)) = ''a1''" "fa_roles (fm_family fm) = sample_roles"
    using f by (simp_all add: sample_family_def sample_binding_def)
  have ob: "str_ok (fm_obligation_id fm)" "length (fm_obligation_id fm) \<le> 80" using f by (simp_all add: sized_def)
  note l = sized_lengths[OF a(1)]
  have net: "net_amount sample_policy [a] = Inr \<lparr>currency = ''USD'', mscale = 2, atoms = 100\<rparr>"
    by (simp add: net_amount_def money_new_def validate_currency_def is_upper_def byte_def checked_atoms_def MAX_ATOMS_def
        money_checked_add_def a(2) add_atoms_def ok_or_def checked_i128_def in_i128_def i128_max_def)
  let ?v = "JArray [scope_json demo_scope, JString ''fake'', JString (fm_obligation_id fm), strings_json [act_id a]]"
  have v: "identity length_hash DomIntention ?v = Inr (named ''in'' DomIntention ?v)"
    using l ob by (intro identity_small) (simp_all add: measure_json scope_measure strings_json_def literal_ok byte_def)
  have sv: "sized (named ''in'' DomIntention ?v)" by (rule sized_named) (simp_all add: byte_def)
  note lv = sized_lengths[OF sv]
  obtain bs where bs: "sort_set breakdown_json [a] = Inr bs" "mset bs = mset [a]"
    using sort_set_small[of "[a]" breakdown_json] a(3,4) good_mono[of 5 "breakdown_json a" 0] by auto
  have bs': "bs = [a]" using bs(2) by simp
  define i where "i = \<lparr>in_id = named ''in'' DomIntention ?v, in_scope = demo_scope, in_event_id = ''ev_1'',
       in_idempotency_key = named ''in'' DomIntention ?v, in_obligation_id = fm_obligation_id fm, in_action_ids = [act_id a],
       in_amount = \<lparr>currency = ''USD'', mscale = 2, atoms = 100\<rparr>, in_depends_on = [],
       in_payload = \<lparr>ob_obligation_id = fm_obligation_id fm, ob_agreement_id = ''a1'',
         ob_amount = \<lparr>currency = ''USD'', mscale = 2, atoms = 100\<rparr>, ob_roles = sample_roles, ob_actions = [a]\<rparr>\<rparr>"
  have b: "build_intention length_hash fm [a] [act_id a] \<lparr>currency = ''USD'', mscale = 2, atoms = 100\<rparr> = Inr i"
    unfolding build_intention_def fc v rbind_simps bs(1) bs' i_def by simp
  have fi: "in_id i = named ''in'' DomIntention ?v" "in_scope i = demo_scope" "in_event_id i = ''ev_1''"
    "in_idempotency_key i = named ''in'' DomIntention ?v" "in_obligation_id i = fm_obligation_id fm" "in_action_ids i = [act_id a]"
    "in_amount i = \<lparr>currency = ''USD'', mscale = 2, atoms = 100\<rparr>" "in_depends_on i = []"
    "ob_obligation_id (in_payload i) = fm_obligation_id fm" "ob_agreement_id (in_payload i) = ''a1''"
    "ob_amount (in_payload i) = \<lparr>currency = ''USD'', mscale = 2, atoms = 100\<rparr>" "ob_roles (in_payload i) = sample_roles"
    "ob_actions (in_payload i) = [a]"
    by (simp_all add: i_def)
  have j: "good 1 (intention_json i)" "text_bound (intention_json i) \<le> 50000"
    unfolding intention_json_def obligation_json_def fi using l lv ob a(4) money_measure(2) roles_measure(2) good_mono[OF a(3)]
    by (simp_all add: measure_json scope_measure roles_measure(1) money_measure(1) strings_json_def literal_ok byte_def)
  obtain r where "generic length_hash ''intention'' demo_scope (JString (in_id i)) (intention_json i) = Inr r" "small_record r"
    "jkey r = (''intention'', JString (in_id i))"
    using small_generic[OF j(1), of "''intention''" "JString (in_id i)"] j(2) lv fi(1) by (auto simp: measure_json literal_ok byte_def)
  then show ?thesis using net b sv fi(1) by (auto simp: intentions_of_def fc)
qed

lemma next_revision:
  assumes "revision_value one = 1"
  shows "\<exists>two. revision_next one = Inr two \<and> revision_value two = 2"
  using revision_next_cases[of one] assms by (auto simp: int_ranges)

lemma revision_measure:
  assumes "revision_value r \<le> 2"
  shows "good d (revision_json r) \<longleftrightarrow> d \<le> 32" and "text_bound (revision_json r) \<le> 8"
  using small_revision[OF assms] by (auto simp: revision_json_def revision_text_def string_bound_def)

lemma sample_transitions:
  assumes fm: "framed one fm" and one: "revision_value one = 1" and two: "revision_value two = 2"
  shows "\<exists>rs i j. transition_records length_hash (sample_input one) fm two two = Inr rs \<and> (\<forall>r \<in> set rs. small_record r)
    \<and> map jkey rs = [(''control-transition'', i), (''chain-revision'', j)]"
proof -
  note f = fm[unfolded framed_def]
  obtain w where w: "fm_snapshot_id fm = named ''doc'' DomDocument w" using f by auto
  have sn: "sized (fm_snapshot_id fm)" unfolding w by (rule sized_named) (simp_all add: byte_def)
  have fc: "fm_scope fm = demo_scope" "fm_event_id fm = ''ev_1''" "fm_chain fm = ''main''"
    "ac_chain_revision (ri_context (sample_input one)) = one" "ac_chain_event_count (ri_context (sample_input one)) = one"
    using f by (simp_all add: sample_input_def)
  have dc: "str_ok (fm_decision_id fm)" "length (fm_decision_id fm) \<le> 80" using f by (simp_all add: sized_def)
  note r = revision_measure(1)[of one] revision_measure(2)[of one] revision_measure(1)[of two] revision_measure(2)[of two]
  let ?v = "JArray [scope_json demo_scope, JString ''chain'', JString ''main'', revision_json two]"
  have v: "identity length_hash DomControlTransition ?v = Inr (named ''ct'' DomControlTransition ?v)"
    using r one two by (intro identity_small) (simp_all add: measure_json scope_measure literal_ok byte_def)
  have sv: "sized (named ''ct'' DomControlTransition ?v)" by (rule sized_named) (simp_all add: byte_def)
  let ?i = "JString (named ''ct'' DomControlTransition ?v)"
  let ?b = "jobj [(''schema'', JString ''ledger-control-transition/1''), (''id'', ?i),
          (''scope'', scope_json demo_scope), (''control_kind'', JString ''chain''),
          (''control_id'', JString ''main''), (''from_revision'', revision_json one),
          (''to_revision'', revision_json two), (''event_id'', JString ''ev_1''),
          (''document_id'', JString (fm_snapshot_id fm)),
          (''from_event_count'', revision_json one), (''to_event_count'', revision_json two)]"
  obtain r1 where r1: "generic length_hash ''control-transition'' demo_scope ?i ?b = Inr r1" "small_record r1"
    "jkey r1 = (''control-transition'', ?i)"
    using small_generic[of ?b "''control-transition''" ?i] r one two sized_lengths[OF sv] sized_lengths[OF sn]
    by (auto simp: measure_json scope_measure literal_ok byte_def)
  let ?k = "JArray [scope_json demo_scope, JString ''main'', revision_json two]"
  let ?c = "jobj [(''schema'', JString ''ledger-chain-revision/1''), (''scope'', scope_json demo_scope),
          (''chain_id'', JString ''main''), (''revision'', revision_json two),
          (''event_id'', JString ''ev_1''), (''decision_id'', JString (fm_decision_id fm))]"
  obtain r2 where r2: "generic length_hash ''chain-revision'' demo_scope ?k ?c = Inr r2" "small_record r2"
    "jkey r2 = (''chain-revision'', ?k)"
    using small_generic[of ?c "''chain-revision''" ?k] r one two dc
    by (auto simp: measure_json scope_measure literal_ok byte_def)
  have "transition_records length_hash (sample_input one) fm two two = Inr [r1, r2]"
    unfolding transition_records_def Let_def fc v rbind_simps r1(1) r2(1) by simp
  then show ?thesis using r1 r2 by auto
qed

lemma sized_ids_sort: "sized s \<Longrightarrow> sort_set JString [s] = Inr [s]"
  using sort_set_small[of "[s]" JString] sized_lengths[of s] by (auto simp: string_bound_def)

lemma record_D:
  assumes "small_record r"
  shows "good 0 (jr_id r) \<and> text_bound (jr_id r) \<le> 2000"
  using assms good_mono[of 4 "jr_id r" 0] by (simp add: small_record_def)

lemma sample_manifest:
  assumes fm: "framed one fm" and two: "revision_value two = 2" and x: "sized (ex_id x)"
    and rs: "\<forall>r \<in> set rs. small_record r" "length rs \<le> 20"
    and d: "distinct (map jkey rs)" "set (map jkey rs) \<inter> {(''document'', JString i) |i. length i < 10} = {}"
  shows "\<exists>m. manifest_record length_hash (sample_input one) fm two [x] rs = Inr m \<and> small_record m
    \<and> jkey m = (''decision-manifest'', JString (fm_decision_id fm))"
proof -
  note f = fm[unfolded framed_def]
  have fc: "fm_scope fm = demo_scope" "fm_event_id fm = ''ev_1''" "fm_chain fm = ''main''" using f by simp_all
  have dc: "str_ok (fm_decision_id fm)" "length (fm_decision_id fm) \<le> 80" using f by (simp_all add: sized_def)
  let ?env = "map (\<lambda>d. envelope d demo_scope) (sample_documents one)"
  have env: "\<forall>r \<in> set ?env. good 0 (jr_id r) \<and> good 4 (jr_id r) \<and> text_bound (jr_id r) \<le> 2000 \<and> jr_kind r = ''document''
      \<and> jr_content_hash r = ''sha256:0''"
    by (simp add: sample_documents_def sample_document_def envelope_def measure_json literal_ok byte_def)
  have keys: "map (\<lambda>r. (jr_kind r, jr_id r)) ?env = map (\<lambda>i. (''document'', JString i)) [''p'', ''r'', ''aaaa'', ''g'', ''c'', ''b'']"
    by (simp add: sample_documents_def sample_document_def envelope_def)
  have "distinct (map (\<lambda>r. (jr_kind r, jr_id r)) (rs @ ?env))"
  proof -
    have "distinct (map (\<lambda>r. (jr_kind r, jr_id r)) ?env)" unfolding keys by simp
    moreover have "set (map (\<lambda>r. (jr_kind r, jr_id r)) ?env) \<subseteq> {(''document'', JString i) |i. length i < 10}"
      unfolding keys by auto
    ultimately show ?thesis using d unfolding map_append distinct_append jkey_def by blast
  qed
  moreover have "\<forall>r \<in> set (rs @ ?env). good 0 (jr_id r) \<and> text_bound (jr_id r) \<le> 2000"
  proof
    fix r assume "r \<in> set (rs @ ?env)"
    then consider "r \<in> set rs" | "r \<in> set ?env" unfolding set_append by blast
    then show "good 0 (jr_id r) \<and> text_bound (jr_id r) \<le> 2000"
    proof cases
      case 1
      then show ?thesis using rs(1) record_D by blast
    next
      case 2
      then show ?thesis using bspec[OF env 2] by simp
    qed
  qed
  ultimately obtain ms where ms: "record_sort (rs @ ?env) = Inr ms" "mset ms = mset (rs @ ?env)"
    using record_sort_small by blast
  have in_ms: "str_ok (jr_kind r) \<and> length (jr_kind r) \<le> 100 \<and> good 4 (jr_id r) \<and> text_bound (jr_id r) \<le> 2000
      \<and> str_ok (jr_content_hash r) \<and> length (jr_content_hash r) \<le> 100" if "r \<in> set ms" for r
  proof -
    have lit: "str_ok ''document''" "str_ok ''sha256:0''" "length ''document'' \<le> 100" "length ''sha256:0'' \<le> 100"
      by (simp_all add: literal_ok byte_def)
    have "r \<in> set rs \<union> set ?env" using that by (simp only: mset_eq_setD[OF ms(2)] set_append)
    then consider "r \<in> set rs" | "r \<in> set ?env" by (elim UnE)
    then show ?thesis
    proof cases
      case 1
      then show ?thesis using rs(1) by (simp add: small_record_def)
    next
      case 2
      show ?thesis using bspec[OF env 2] lit by (elim conjE) (simp only: simp_thms)
    qed
  qed
  have mem: "good 3 (member_json r) \<and> text_bound (member_json r) \<le> 4000" if "r \<in> set ms" for r
    unfolding member_json_def using in_ms[OF that] by (simp add: measure_json literal_ok byte_def)
  have "length ms \<le> 26" using arg_cong[OF ms(2), of size] rs(2) by (simp add: sample_documents_def)
  moreover have "sum_list (map (text_bound \<circ> member_json) ms) \<le> length ms * 4000"
    using sum_list_mono[of ms "text_bound \<circ> member_json" "\<lambda>_. 4000"] mem by (simp add: sum_list_triv comp_def)
  ultimately have arr: "good 2 (JArray (map member_json ms))" "text_bound (JArray (map member_json ms)) \<le> 104100"
    using mem by (auto simp: good_array list_all_iff numeral_2_eq_2 numeral_3_eq_3)
  let ?m = "manifest_json fm two [x] ms"
  have m: "good 1 ?m" "text_bound ?m \<le> 120000"
    unfolding manifest_json_def fc using arr dc sized_lengths[OF x] revision_measure[of two] two
    by (simp_all add: measure_json scope_measure strings_json_def literal_ok byte_def numeral_2_eq_2)
  obtain h where h: "digest length_hash DomDecisionContent ?m = Inr h" "str_ok h" "length h = 71"
    using digest_small[of ?m] m good_mono[OF m(1), of 0] by auto
  show ?thesis
    using ms(1) h m dc fc
    by (auto simp: manifest_record_def Let_def sample_input_def small_record_def jkey_def string_bound_def literal_ok byte_def)
qed

lemma sample_receipt:
  assumes fm: "framed one fm" and two: "revision_value two = 2" and a: "sized a" and i: "sized i"
    and h: "str_ok h" "length h \<le> 100"
  shows "\<exists>r. generic length_hash ''receipt'' demo_scope (JString (fm_receipt_id fm))
      (receipt_json (build_receipt sample_event fm two [a] [i] h)) = Inr r
    \<and> small_record r \<and> jkey r = (''receipt'', JString (fm_receipt_id fm))"
proof -
  note f = fm[unfolded framed_def]
  have l: "str_ok (fm_receipt_id fm)" "length (fm_receipt_id fm) \<le> 80" "str_ok (fm_decision_id fm)" "length (fm_decision_id fm) \<le> 80"
    using f by (simp_all add: sized_def)
  have e: "e_content_hash sample_event = ''sha256:0''" by (simp add: sample_event_def)
  have "good 1 (receipt_json (build_receipt sample_event fm two [a] [i] h))"
    "text_bound (receipt_json (build_receipt sample_event fm two [a] [i] h)) \<le> 120000"
    unfolding receipt_json_def build_receipt_def using f l h e sized_lengths[OF a] sized_lengths[OF i] revision_measure[of two] two
    by (simp_all add: measure_json scope_measure strings_json_def literal_ok byte_def)
  then show ?thesis using l by (intro small_generic) (simp_all add: measure_json literal_ok byte_def)
qed

lemma sample_finish:
  assumes fm: "framed one fm" and one: "revision_value one = 1" and two: "revision_next one = Inr two" "revision_value two = 2"
    and al: "al = sample_assembly fm first a x rs"
    and small: "\<forall>r \<in> set first. small_record r" "\<forall>r \<in> set rs. small_record r"
    and a: "sized (act_id a)" "sized (ex_id x)" "act_amount a = \<lparr>currency = ''USD'', mscale = 2, atoms = 100\<rparr>"
      "good 5 (breakdown_json a)" "text_bound (breakdown_json a) \<le> 5000"
      "good 3 (explanation_json x)" "text_bound (explanation_json x) \<le> 20000"
    and first: "map jkey first = (''document'', JString (fm_snapshot_id fm)) # map ref_key (entries fm)
        @ [(''event'', JString ''ev_1''), (''delivery-key'', i), (''claim'', j)]"
    and rs: "map jkey rs = [(''effect'', k), (''action'', l), (''action-source'', m), (''explanation'', n)]"
  shows "\<exists>plan. finish_plan length_hash (sample_input one) fm al = Inr plan \<and> dp_actions plan = [a]"
proof -
  note f = fm[unfolded framed_def]
  obtain w where w: "fm_snapshot_id fm = named ''doc'' DomDocument w" using f by auto
  have fc: "fm_scope fm = demo_scope" using f by simp
  have out: "check_outputs al = Inr ()"
    using encode_small[of "JArray [explanation_json x]"] a(6,7) good_mono[of 3 "explanation_json x" 1]
    by (auto simp: check_outputs_def al sample_assembly_def good_array)
  obtain i' ir where int: "intentions_of length_hash fm [a] [act_id a] = Inr ([i'], [ir])" "small_record ir" "sized (in_id i')"
    "jkey ir = (''intention'', JString (in_id i'))"
    using sample_intention[OF fm a(1,3,4,5)] by blast
  obtain ts p q where ts: "transition_records length_hash (sample_input one) fm two two = Inr ts" "\<forall>r \<in> set ts. small_record r"
    "map jkey ts = [(''control-transition'', p), (''chain-revision'', q)]"
    using sample_transitions[OF fm one two(2)] by (elim exE conjE) (rule that)
  let ?rs = "(first @ rs) @ [ir] @ ts"
  have small_rs: "\<forall>r \<in> set ?rs. small_record r" using small int(2) ts(2) by auto
  have keys: "map jkey ?rs = ((''document'', JString (fm_snapshot_id fm)) # map ref_key (entries fm)
        @ [(''event'', JString ''ev_1''), (''delivery-key'', i), (''claim'', j)])
      @ [(''effect'', k), (''action'', l), (''action-source'', m), (''explanation'', n)]
      @ [(''intention'', JString (in_id i')), (''control-transition'', p), (''chain-revision'', q)]"
    using first rs ts(3) int(4) by simp
  have refs: "set (map ref_key (entries fm)) \<subseteq> {''snapshot-ref''} \<times> UNIV" by (auto simp: ref_key_def)
  have dist: "distinct (map jkey ?rs)"
    unfolding keys using sample_ref_keys[OF fm] refs by (auto simp: subset_iff)
  have len: "length ?rs = 18" using arg_cong[OF keys, of length] by (simp add: entries_def)
  have docs: "set (map jkey ?rs) \<inter> {(''document'', JString i) |i. length i < 10} = {}"
    unfolding keys w using refs by (auto simp: subset_iff)
  obtain man where man: "manifest_record length_hash (sample_input one) fm two [x] ?rs = Inr man" "small_record man"
    "jkey man = (''decision-manifest'', JString (fm_decision_id fm))"
    using sample_manifest[OF fm two(2) a(2) small_rs _ dist docs] len by auto
  have mh: "str_ok (jr_content_hash man)" "length (jr_content_hash man) \<le> 100" using man(2) by (simp_all add: small_record_def)
  let ?rc = "build_receipt sample_event fm two [act_id a] [in_id i'] (jr_content_hash man)"
  obtain rr where rr: "generic length_hash ''receipt'' demo_scope (JString (fm_receipt_id fm)) (receipt_json ?rc) = Inr rr"
    "small_record rr" "jkey rr = (''receipt'', JString (fm_receipt_id fm))"
    using sample_receipt[OF fm two(2) a(1) int(3) mh] by blast
  have small_all: "\<forall>r \<in> set (?rs @ [man, rr]). small_record r" using small_rs man(2) rr(2) by auto
  have "distinct (map jkey (?rs @ [man, rr]))"
    unfolding map_append distinct_append using dist man(3) rr(3) keys refs by (auto simp: subset_iff)
  then have "distinct (map (\<lambda>r. (jr_kind r, jr_id r)) (?rs @ [man, rr]))" by (simp only: jkey_fun)
  moreover have "\<forall>r \<in> set (?rs @ [man, rr]). good 0 (jr_id r) \<and> text_bound (jr_id r) \<le> 2000"
    using small_all record_D by blast
  ultimately obtain ss where ss: "record_sort (?rs @ [man, rr]) = Inr ss" "mset ss = mset (?rs @ [man, rr])"
    using record_sort_small by blast
  let ?plan = "\<lparr>dp_records = ss, dp_actions = [a], dp_explanations = [x], dp_intentions = [i'], dp_receipt = ?rc,
       dp_claim_facts = fm_claim_facts fm, dp_effect_facts = [effect_facts_json fm (cp_rules sample_policy ! 0) a]\<rparr>"
  have "set ss = set (?rs @ [man, rr])" using ss(2) by (rule mset_eq_setD)
  moreover have "length ss = 20" using arg_cong[OF ss(2), of size] len by simp
  ultimately obtain b where b: "journal_bytes ?plan = Inr b"
    using journal_small[of ?plan] small_all by auto
  have parts: "al_actions al = [a]" "al_explanations al = [x]" "al_records al = first @ rs"
    "al_effect_facts al = [effect_facts_json fm (cp_rules sample_policy ! 0) a]"
    "ac_chain_revision (ri_context (sample_input one)) = one" "ac_chain_event_count (ri_context (sample_input one)) = one"
    "ri_event (sample_input one) = sample_event"
    by (simp_all add: al sample_assembly_def sample_input_def)
  have "finish_plan length_hash (sample_input one) fm al = Inr ?plan"
    unfolding finish_plan_def Let_def parts out rbind_simps list.map sized_ids_sort[OF a(1)] int(1) prod.case two(1) ts(1)
      man(1) sized_ids_sort[OF int(3)] fc rr(1) ss(1) b
    by simp
  then show ?thesis by (intro exI[of _ ?plan]) simp
qed

lemma sample_plan:
  assumes one: "revision_value one = 1"
  shows "\<exists>plan a. assemble model_serde length_hash (sample_input one) = Inr plan \<and> dp_actions plan = [a] \<and> atoms (act_amount a) = 100"
proof -
  obtain two where two: "revision_next one = Inr two" "revision_value two = 2" using next_revision[OF one] by blast
  obtain fm where fm: "frame_of length_hash (sample_input one) = Inr fm" "framed one fm" using sample_frame[OF one] by blast
  obtain first i j where first: "opening_records model_serde length_hash (sample_input one) fm = Inr first"
    "\<forall>r \<in> set first. small_record r" "map jkey first = (''document'', JString (fm_snapshot_id fm)) # map ref_key (entries fm)
        @ [(''event'', JString ''ev_1''), (''delivery-key'', i), (''claim'', j)]"
    using sample_first_records[OF fm(2)] by (elim exE conjE) (rule that)
  obtain a x rs m where al: "assemble_steps length_hash fm first [sample_step] = Inr (sample_assembly fm first a x rs)"
    "\<forall>r \<in> set rs. small_record r" "sized (act_id a)" "sized (ex_id x)"
    "act_amount a = \<lparr>currency = ''USD'', mscale = 2, atoms = 100\<rparr>"
    "good 5 (breakdown_json a)" "text_bound (breakdown_json a) \<le> 5000"
    "good 3 (explanation_json x)" "text_bound (explanation_json x) \<le> 20000"
    "map jkey rs = [(''effect'', JString (act_effect_id a)), (''action'', JString (act_id a)), (''action-source'', m),
        (''explanation'', JString (ex_id x))]"
    using sample_assembled[OF fm(2), of first] by (elim exE conjE) (rule that)
  obtain plan where plan: "finish_plan length_hash (sample_input one) fm (sample_assembly fm first a x rs) = Inr plan"
    "dp_actions plan = [a]"
    using sample_finish[OF fm(2) one two refl first(2) al(2,3,4,5,6,7,8,9) first(3) al(10)] by blast
  have e: "evaluate_steps (fa_policy (fm_family fm)) (view_of (ri_event (sample_input one)) (fa_chain (fm_family fm))) None = Inr [sample_step]"
    using fm(2) sample_step by (simp add: framed_def sample_family_def sample_input_def)
  have "assemble model_serde length_hash (sample_input one) = Inr plan"
    unfolding assemble_def assemble_inner_def sample_valid[OF one] fm(1) rbind_simps first(1) e al(1) plan(1) by simp
  then show ?thesis using plan(2) al(5) by auto
qed

section \<open>The properties on the sample\<close>

text \<open>The chain is at its first revision.\<close>

definition sample_decision :: resolved_input where
  "sample_decision = sample_input (revision_make 1)"

lemma first_revision: "revision_value (revision_make 1) = 1"
  by (simp add: int_ranges)

lemma sample_runs:
  obtains plan fm where "assemble model_serde length_hash sample_decision = Inr plan" "frame_of length_hash sample_decision = Inr fm"
    "fa_policy (fm_family fm) = sample_policy" "fa_chain (fm_family fm) = sample_context" "ri_event sample_decision = sample_event"
proof -
  obtain plan where "assemble model_serde length_hash sample_decision = Inr plan"
    using sample_plan[OF first_revision] by (auto simp: sample_decision_def)
  moreover obtain fm where "frame_of length_hash sample_decision = Inr fm" "framed (revision_make 1) fm"
    using sample_frame[OF first_revision] by (auto simp: sample_decision_def)
  moreover from this have "fa_policy (fm_family fm) = sample_policy" "fa_chain (fm_family fm) = sample_context"
    by (simp_all add: framed_def sample_family_def)
  moreover have "ri_event sample_decision = sample_event" by (simp add: sample_decision_def sample_input_def)
  ultimately show thesis using that by blast
qed

theorem decision_charges_witness:
  "\<exists>plan fm. assemble model_serde length_hash sample_decision = Inr plan \<and> frame_of length_hash sample_decision = Inr fm
    \<and> map (\<lambda>a. atoms (act_amount a)) (dp_actions plan) = [100] \<and> list_all (action_of fm) (dp_actions plan)
    \<and> map (\<lambda>i. atoms (in_amount i)) (dp_intentions plan) = [100]
    \<and> map (\<lambda>i. currency (in_amount i)) (dp_intentions plan) = [''USD'']
    \<and> rc_intention_ids (dp_receipt plan) = map in_id (dp_intentions plan)"
proof -
  obtain plan fm where plan: "assemble model_serde length_hash sample_decision = Inr plan" and fm: "frame_of length_hash sample_decision = Inr fm"
    and f: "fa_policy (fm_family fm) = sample_policy" "fa_chain (fm_family fm) = sample_context" "ri_event sample_decision = sample_event"
    by (rule sample_runs)
  from decision_charges[OF plan] fm obtain steps where
    steps: "evaluate_steps (fa_policy (fm_family fm)) (view_of (ri_event sample_decision) (fa_chain (fm_family fm))) None = Inr steps"
    and r: "map (\<lambda>a. atoms (act_amount a)) (dp_actions plan) = charged steps" "list_all (action_of fm) (dp_actions plan)"
      "rc_intention_ids (dp_receipt plan) = map in_id (dp_intentions plan)"
    and i: "case dp_intentions plan of
         [] \<Rightarrow> booked_total steps = 0
       | i # others \<Rightarrow> others = [] \<and> booked_total steps \<noteq> 0 \<and> atoms (in_amount i) = booked_total steps
           \<and> currency (in_amount i) = cp_currency (fa_policy (fm_family fm))
           \<and> in_action_ids i = rc_action_ids (dp_receipt plan) \<and> ob_amount (in_payload i) = in_amount i
           \<and> set (ob_actions (in_payload i)) = set (dp_actions plan)"
    by auto
  have s: "steps = [sample_step]" using steps sample_step unfolding f by simp
  have c: "charged steps = [100]" "booked_total steps = 100" by (simp_all add: s sample_step_def booked_total_def)
  obtain n where n: "dp_intentions plan = [n]" "atoms (in_amount n) = 100" "currency (in_amount n) = ''USD''"
    using i c(2) f(1) by (cases "dp_intentions plan") auto
  show ?thesis using plan fm r c n by (intro exI[of _ plan] exI[of _ fm]) simp
qed

theorem journal_manifest_witness:
  "\<exists>plan others manifest receipt. assemble model_serde length_hash sample_decision = Inr plan
    \<and> mset (dp_records plan) = mset others + {#manifest, receipt#}
    \<and> distinct (map key_of (dp_records plan)) \<and> sorted (map key_of (dp_records plan))
    \<and> rc_decision_hash (dp_receipt plan) = jr_content_hash manifest
    \<and> list_all (recorded (dp_records plan)) (dp_actions plan)"
proof -
  obtain plan where plan: "assemble model_serde length_hash sample_decision = Inr plan" by (rule sample_runs)
  from journal_manifest[OF plan] show ?thesis using plan by blast
qed

lemma sample_roles_document: "\<exists>d. document_parse model_serde explain length_hash
    (jtext (JObject (om_insert ''schema'' (JString ''ledger-roles/1'') (case roles_json sample_roles of JObject m \<Rightarrow> m | _ \<Rightarrow> [])))) = Inr d"
proof -
  let ?m = "[(''bearer'', JString ''acme''), (''beneficiary'', JString ''acme''), (''cost_originator'', JString ''p''),
    (''payer'', JString ''acme''), (''provider'', JString ''p''), (''recipient'', JString ''p'')]"
  let ?v = "JObject (?m @ [(''schema'', JString ''ledger-roles/1'')])"
  have r: "roles_json sample_roles = JObject ?m"
    by (simp add: roles_json_def sample_roles_def member_def jobj_def om_insert.simps)
  have i: "om_insert ''schema'' (JString ''ledger-roles/1'') ?m = ?m @ [(''schema'', JString ''ledger-roles/1'')]"
    by (simp add: om_insert.simps)
  have v: "good 1 ?v"
    by (rule good_object) (simp_all add: good_members_def om_ok_def literal_ok byte_def)
  have tb: "text_bound ?v \<le> 2000" by (simp add: string_bound_def)
  have p: "parse model_serde (jtext ?v) = Inr ?v"
    using good_parse[OF model_serde_ok sample_fit good_mono[OF v, of 0]] text_bound[OF good_mono[OF v, of 0]] tb
    by (simp add: parse_def CANDIDATE_LIMIT_def)
  have t: "check_text ''acme'' 128 = Inr ()" "check_text ''p'' 128 = Inr ()" by (simp_all add: check_text_def text_ok_ascii byte_def)
  have d: "roles_decode (JObject ?m) = Some sample_roles"
    by (simp add: roles_decode_def roles_fields_def sample_roles_def field_def optional_field_def)
  have f: "document_family explain ''ledger-roles/1'' ?v = Inr (''roles'', ''roles'', RolesData sample_roles, ?v)"
    by (simp add: document_family_def parse_roles_def om_remove_def dto_def d om_insert.simps roles_validate_def t sample_roles_def opt_check_def)
  let ?t = "JArray [JString ''roles'', JInt 1, ?v]"
  have q: "good 0 ?t" "text_bound ?t \<le> 1000000" using v tb by (simp_all add: measure_json literal_ok byte_def)
  obtain h where "digest length_hash DomDocument ?t = Inr h" using digest_small[OF q] by blast
  moreover have "from_value ?v = Inr (jtext ?v)" "length (jtext ?v) \<le> CANDIDATE_LIMIT"
    using encode_small[OF good_mono[OF v, of 0]] tb by (simp_all add: CANDIDATE_LIMIT_def)
  ultimately show ?thesis
    unfolding document_parse_def r json.case i p
    using f identity_small[OF q, of DomDocument "''doc''"] by (simp add: Let_def)
qed

lemma sample_resolves:
  "\<exists>c e. normalize model_serde explain length_hash raw_bytes demo_scope ''urn:a'' = Inr c \<and> resolve length_hash c (Some ''main'') = Inr e"
proof -
  obtain c where c: "normalize model_serde explain length_hash raw_bytes demo_scope ''urn:a'' = Inr c" "cd_dto c = normal_event"
    using raw_normalize by blast
  have "cd_source c = source_of (cd_dto c) ''urn:a''" using c(1) unfolding normalize_Inr by blast
  then have src: "cd_source c = ''urn:a''" by (simp add: c(2) source_of_def normal_event_def raw_event_def)
  let ?d = "normal_event\<lparr>ev_source := Some ''urn:a'', ev_chain := Some ''main''\<rparr>"
  have j: "good 0 (event_json ?d)" "text_bound (event_json ?d) \<le> 5000"
    using sample_event_json(4) good_mono[OF sample_event_json(3), of 0] by (simp_all add: sample_event_def)
  obtain h where h: "digest length_hash DomEventContent (event_json ?d) = Inr h" using digest_small[OF j(1)] j(2) by auto
  have t: "check_text ''main'' 128 = Inr ()" by (simp add: check_text_def text_ok_ascii byte_def)
  have n: "ev_chain normal_event = None" by (simp add: normal_event_def raw_event_def)
  have "resolve length_hash c (Some ''main'')
      = Inr \<lparr>e_candidate = c, e_dto = ?d, e_bytes = jtext (event_json ?d), e_content_hash = h\<rparr>"
    using encode_small[OF j(1)] j(2) h t n
    by (simp add: resolve_def opt_check_def check_parent_def resolved_chain_def c(2) src Let_def CANDIDATE_LIMIT_def)
  then show ?thesis using c(1) by blast
qed

theorem decision_never_panics_witness:
  "\<exists>c e d. normalize model_serde (\<lambda>_. []) length_hash raw_bytes demo_scope ''urn:a'' = Inr c
    \<and> resolve length_hash c (Some ''main'') = Inr e
    \<and> resolved_new e [d] (ri_context sample_decision) \<noteq> Inl Panic"
proof -
  obtain c e where c: "normalize model_serde (\<lambda>_. []) length_hash raw_bytes demo_scope ''urn:a'' = Inr c"
    "resolve length_hash c (Some ''main'') = Inr e" using sample_resolves by blast
  obtain d where d: "\<exists>b. document_parse model_serde (\<lambda>_. []) length_hash b = Inr d" using sample_roles_document by blast
  have fit: "arrays_fit model_serde CANDIDATE_LIMIT" by (rule sample_fit) (simp add: CANDIDATE_LIMIT_def)
  have "some_ok str_ok (Some ''main'')" by (simp add: literal_ok byte_def)
  from decision_never_panics[OF model_serde_ok(1) fit length_hash_ok demo_scope_ok(2) c(1) this c(2), of "[d]"] d c
  show ?thesis by auto
qed

end
