(* ===== verification/Chaining.thy ===== *)
theory Chaining
  imports Records
begin

text \<open>
  Policy chaining, the data model and the compiler (\<^verbatim>\<open>policy/chaining/model.rs\<close> and
  \<^verbatim>\<open>compile.rs\<close>): the policies of up to sixteen bindings over the events of a chain, checked and
  put in the one order their rules are evaluated in. A \<open>BTreeSet\<close> that is only probed is a set.
\<close>

section \<open>Types\<close>

datatype book = Retail | Supplier | CostObservation | Allocation

fun book_rank :: "book \<Rightarrow> nat" where
  "book_rank Retail = 0"
| "book_rank Supplier = 1"
| "book_rank CostObservation = 2"
| "book_rank Allocation = 3"

lemma book_rank_inj: "book_rank a = book_rank b \<Longrightarrow> a = b"
  by (cases a; cases b) simp_all

text \<open>The derived order is the order of declaration.\<close>

instantiation book :: linorder
begin

definition less_eq_book :: "book \<Rightarrow> book \<Rightarrow> bool" where
  "less_eq_book a b \<longleftrightarrow> book_rank a \<le> book_rank b"

definition less_book :: "book \<Rightarrow> book \<Rightarrow> bool" where
  "less_book a b \<longleftrightarrow> book_rank a < book_rank b"

instance
  by standard (auto simp: less_eq_book_def less_book_def intro: book_rank_inj)

end

datatype funding = Byok | Platform

datatype chain_kind = KCharge | KCost | KPremium | KDiscount | KCredit | KShare | KAllocation | KReversal

datatype chain_predicate = CTier string | CFunding funding | CPriority bool | CSource string

datatype matcher = Direct relation event_kind | AcquisitionOptimization

datatype price = PriceFixed decimal | PriceUnit decimal string | PricePercent decimal string

datatype discount_mode = Additive | Sequential

datatype discount_amount = DiscountFixed decimal | DiscountPercent decimal

text \<open>
  The operations with their operands: a cap's ceiling, stage and component, a share's percentage,
  ceiling and retail component.
\<close>

datatype chain_operation =
    BaseOp price | PremiumOp price
  | DiscountOp discount_amount string discount_mode
  | LinkedDiscountOp discount_amount string
  | CapOp decimal string string
  | ShareOp decimal decimal string
  | ObserveCostOp

record chain_rule =
  cr_id :: string
  cr_on :: event_kind
  cr_component :: string
  cr_when :: "chain_predicate list"
  cr_matcher :: "matcher option"
  cr_operation :: chain_operation

record outcome_terms =
  ot_source :: string
  ot_window_us :: nat
  ot_report_grace_us :: nat
  ot_claim_namespace :: string

record chain_binding =
  cb_id :: string
  cb_agreement :: string
  cb_book :: book
  cb_roles :: roles
  cb_assent :: string
  cb_offer :: "string option"
  cb_sources :: "string list"
  cb_event_types :: "event_kind list"
  cb_unit :: string
  cb_maximum_quantity :: decimal
  cb_maximum_exposure :: "money option"
  cb_outcome :: "outcome_terms option"
  cb_correction_sources :: "string list"
  cb_allowed_modifiers :: "string list"
  cb_allocation_view :: bool

record chain_policy =
  ch_binding :: chain_binding
  ch_rules :: "chain_rule list"

record chain_bundle =
  bu_currency :: string
  bu_scale :: nat
  bu_policies :: "chain_policy list"
  bu_order :: "(nat \<times> nat) list"

record expected_operation =
  eo_source :: string
  eo_operation_id :: string
  eo_kind :: event_kind
  eo_retail_components :: "string list"

record stage =
  sg_id :: string
  sg_expected :: "expected_operation list"
  sg_closure_claim_namespace :: string

record pinned_context =
  pc_document :: string
  pc_customer :: string
  pc_funding :: funding
  pc_tier :: "string option"
  pc_priority :: "bool option"
  pc_stage :: "stage option"

record source_authority =
  sa_source :: string
  sa_grant :: string
  sa_revision :: revision
  sa_active :: bool
  sa_event_types :: "event_kind list"
  sa_relations :: "relation list"

record invocation =
  iv_id :: string
  iv_binding_id :: string
  iv_operation_id :: string
  iv_chain :: string
  iv_customer :: string
  iv_source :: string
  iv_unit :: string
  iv_maximum_quantity :: decimal
  iv_maximum_exposure :: money
  iv_held :: money
  iv_authorized_at :: timestamp
  iv_start_before :: timestamp
  iv_attested_start :: timestamp
  iv_outcome_deadline :: "timestamp option"
  iv_completion_event :: "string option"

record cost_evidence =
  ce_binding_id :: string
  ce_event_id :: string
  ce_document :: string
  ce_amount :: money

record chain_action =
  ca_id :: string
  ca_effect_id :: string
  ca_obligation_id :: string
  ca_binding :: chain_binding
  ca_kind :: chain_kind
  ca_book :: book
  ca_component :: string
  ca_amount :: money
  ca_sources :: "string list"
  ca_links :: "string list"
  ca_inputs :: "string list"
  ca_reverses :: "string option"
  ca_allocation_parent :: "string option"
  ca_allocation_recipient :: "string option"
  ca_discount_target :: "string option"

record chain_explanation =
  xp_binding_id :: string
  xp_rule_id :: "string option"
  xp_code :: string
  xp_basis :: "ratio option"
  xp_unrounded :: "ratio option"
  xp_rounded :: "int option"
  xp_inputs :: "string list"
  xp_action_ids :: "string list"

record chain_obligation =
  od_obligation_id :: string
  od_book :: book
  od_roles :: roles
  od_amount :: money
  od_actions :: "string list"

record consumption =
  cn_invocation_id :: string
  cn_consume :: money
  cn_release :: money

record evaluation =
  va_event :: event
  va_bundle :: chain_bundle
  va_context :: pinned_context
  va_claim_id :: "string option"
  va_actions :: "chain_action list"
  va_explanations :: "chain_explanation list"
  va_deltas :: "chain_obligation list"
  va_consumptions :: "consumption list"
  va_invocations :: "invocation list"
  va_closed_stage :: "string option"
  va_received_at :: "timestamp option"
  va_source_authority :: source_authority
  va_costs :: "cost_evidence list"

record chain_input =
  ip_event :: event
  ip_context :: pinned_context
  ip_history :: "evaluation list"
  ip_source_authority :: source_authority
  ip_invocations :: "invocation list"
  ip_costs :: "cost_evidence list"
  ip_received_at :: timestamp

section \<open>Explanations in JSON\<close>

definition chain_explanation_json :: "chain_explanation \<Rightarrow> json" where
  "chain_explanation_json x = jobj (
     [(''binding_id'', JString (xp_binding_id x)), (''code'', JString (xp_code x)),
      (''inputs'', strings_json (xp_inputs x)), (''action_ids'', strings_json (xp_action_ids x))]
     @ member ''rule_id'' JString (xp_rule_id x)
     @ member ''basis'' ratio_json (xp_basis x)
     @ member ''unrounded'' ratio_json (xp_unrounded x)
     @ member ''rounded'' (\<lambda>n. JString (int_str n)) (xp_rounded x))"

section \<open>Compilation\<close>

fun chain_phase :: "chain_operation \<Rightarrow> nat" where
  "chain_phase (BaseOp _) = 0"
| "chain_phase ObserveCostOp = 0"
| "chain_phase (PremiumOp _) = 1"
| "chain_phase (DiscountOp _ _ _) = 2"
| "chain_phase (LinkedDiscountOp _ _) = 2"
| "chain_phase (CapOp _ _ _) = 3"
| "chain_phase (ShareOp _ _ _) = 4"

fun book_name :: "book \<Rightarrow> string" where
  "book_name Retail = ''retail''"
| "book_name Supplier = ''supplier''"
| "book_name CostObservation = ''cost_observation''"
| "book_name Allocation = ''allocation''"

fun is_base_op :: "chain_operation \<Rightarrow> bool" where
  "is_base_op (BaseOp _) = True"
| "is_base_op _ = False"

fun is_premium_op :: "chain_operation \<Rightarrow> bool" where
  "is_premium_op (PremiumOp _) = True"
| "is_premium_op _ = False"

fun is_share_op :: "chain_operation \<Rightarrow> bool" where
  "is_share_op (ShareOp _ _ _) = True"
| "is_share_op _ = False"

definition modifier :: "chain_binding \<Rightarrow> string \<Rightarrow> unit result" where
  "modifier b component =
     ensure (cb_book b = Retail \<or> cb_book b = Supplier \<and> component \<in> set (cb_allowed_modifiers b))
       (Error ''POLICY_UNAUTHORIZED_MODIFIER'' ''supplier discount requires accepted modifier'')"

fun validate_price :: "price \<Rightarrow> nat \<Rightarrow> unit result" where
  "validate_price (PriceFixed d) scale = rbind (atoms_exact d scale) (\<lambda>_. Inr ())"
| "validate_price (PriceUnit _ unit) scale = slug unit"
| "validate_price (PricePercent pct component) scale = rbind (percent pct) (\<lambda>_. slug component)"

fun validate_discount :: "discount_amount \<Rightarrow> nat \<Rightarrow> unit result" where
  "validate_discount (DiscountFixed d) scale = rbind (atoms_exact d scale) (\<lambda>_. Inr ())"
| "validate_discount (DiscountPercent d) scale = rbind (percent d) (\<lambda>_. Inr ())"

fun matcher_valid :: "event_kind \<Rightarrow> matcher \<Rightarrow> bool" where
  "matcher_valid k AcquisitionOptimization \<longleftrightarrow> k = Acquired"
| "matcher_valid k (Direct r t) \<longleftrightarrow>
     (k, r, t) \<in> {(Optimized, OptimizedFrom, Generated), (Published, PublishedAs, Generated),
                   (Published, PublishedAs, Optimized), (Acquired, AttributedTo, Published)}
     \<or> r = ConsumesService \<and> t = ToolCompleted \<and> k \<in> {Generated, Optimized, Published}"

definition validate_matcher :: "event_kind \<Rightarrow> matcher \<Rightarrow> unit result" where
  "validate_matcher k m = ensure (matcher_valid k m) (Error ''POLICY_AMBIGUOUS_MATCH'' ''unsupported typed path'')"

text \<open>
  The checks of a binding: those before the identities are recorded, and those after. Grouped as
  the code has them; a supplier needs an offer and an exposure, an outcome a bounded window.
\<close>

definition binding_texts :: "chain_binding \<Rightarrow> unit result" where
  "binding_texts b =
     rbind (check_text (cb_id b) 128) (\<lambda>_.
     rbind (check_text (cb_agreement b) 128) (\<lambda>_.
     rbind (roles_validate (cb_roles b)) (\<lambda>_.
     rbind (prefixed (cb_assent b) ''doc_'') (\<lambda>_.
     slug (cb_unit b)))))"

definition binding_limits :: "chain_binding \<Rightarrow> unit result" where
  "binding_limits b =
     rbind (ensure (cb_book b \<noteq> Allocation) (Error ''POLICY_UNSUPPORTED_OP'' ''allocation is internal'')) (\<lambda>_.
     rbind (ensure (\<not> decimal_is_zero (cb_maximum_quantity b)) (Error ''QUANTITY'' ''binding ceiling'')) (\<lambda>_.
     rbind (ensure (ro_bearer (cb_roles b) = ro_payer (cb_roles b) \<or> ro_payer_delegation (cb_roles b) \<noteq> None)
       (Error ''PAYER_DELEGATION_REQUIRED'' ''different payer'')) (\<lambda>_.
     ensure (cb_sources b \<noteq> [] \<and> length (cb_sources b) \<le> 16 \<and> cb_event_types b \<noteq> []
         \<and> length (cb_event_types b) \<le> 5 \<and> length (cb_correction_sources b) \<le> 16
         \<and> length (cb_allowed_modifiers b) \<le> 64)
       (Error ''POLICY_LIMIT'' ''binding permissions''))))"

definition binding_lists :: "chain_binding \<Rightarrow> unit result" where
  "binding_lists b =
     rbind (rfold (\<lambda>source seen.
        rbind (validate_source source) (\<lambda>_.
        if source \<in> seen then Inl (Error ''POLICY_AMBIGUOUS_MATCH'' ''duplicate source'')
        else Inr (insert source seen))) (cb_sources b) {}) (\<lambda>_.
     rbind (rfold (\<lambda>source _. validate_source source) (cb_correction_sources b) ()) (\<lambda>_.
     rbind (rfold (\<lambda>component _. slug component) (cb_allowed_modifiers b) ()) (\<lambda>_.
     rfold (\<lambda>kind _. ensure (is_work kind \<or> kind = Acquired) (Error ''POLICY_UNSUPPORTED_OP'' ''event type''))
       (cb_event_types b) ())))"

definition binding_terms :: "string \<Rightarrow> nat \<Rightarrow> chain_binding \<Rightarrow> unit result" where
  "binding_terms cur scale b =
     rbind (opt_check (\<lambda>offer. prefixed offer ''doc_'') (cb_offer b)) (\<lambda>_.
     rbind (opt_check (\<lambda>limit. ensure (currency limit = cur \<and> mscale limit = scale \<and> atoms limit \<ge> 0)
        (Error ''POLICY_CURRENCY'' ''binding exposure'')) (cb_maximum_exposure b)) (\<lambda>_.
     rbind (if cb_book b = Supplier
        then ensure (cb_offer b \<noteq> None \<and> cb_maximum_exposure b \<noteq> None)
          (Error ''TERMS_NOT_ACCEPTED'' ''supplier offer and exposure'')
        else Inr ()) (\<lambda>_.
     opt_check (\<lambda>o'.
        rbind (validate_source (ot_source o')) (\<lambda>_.
        rbind (slug (ot_claim_namespace o')) (\<lambda>_.
        ensure (ot_window_us o' > 0 \<and> ot_window_us o' \<le> 90 * 86400000000
            \<and> ot_report_grace_us o' \<le> 7 * 86400000000)
          (Error ''OUTCOME_WINDOW'' ''bounded half-open outcome window'')))) (cb_outcome b))))"

text \<open>The basis of a rule: an earlier base or premium of the same policy on the same event.\<close>

definition basis_at :: "chain_policy \<Rightarrow> nat \<Rightarrow> chain_rule \<Rightarrow> string \<Rightarrow> nat \<Rightarrow> nat \<times> chain_rule \<Rightarrow> bool" where
  "basis_at p ri rule component consumer_phase e = (case e of (i, r) \<Rightarrow>
     cr_component r = component \<and> cr_on r = cr_on rule
     \<and> (is_base_op (cr_operation r) \<or> is_premium_op (cr_operation r))
     \<and> (chain_phase (cr_operation r) < consumer_phase
        \<or> chain_phase (cr_operation r) = consumer_phase \<and> i < ri))"

definition local_basis :: "chain_policy \<Rightarrow> nat \<Rightarrow> chain_rule \<Rightarrow> string \<Rightarrow> nat \<Rightarrow> unit result" where
  "local_basis p ri rule component consumer_phase =
     rbind (slug component) (\<lambda>_.
     ensure (list_ex (basis_at p ri rule component consumer_phase) (enumerate 0 (ch_rules p)))
       (Error ''POLICY_MISSING_BASIS'' ''earlier booked base/premium on the same event''))"

definition allocation_suffixes :: "string list" where
  "allocation_suffixes = [''.supplier'', ''.host'']"

definition check_priced :: "nat \<Rightarrow> chain_policy \<Rightarrow> nat \<Rightarrow> chain_rule \<Rightarrow> price \<Rightarrow> unit result" where
  "check_priced scale p ri rule price =
     rbind (ensure (cb_book (ch_binding p) \<in> {Retail, Supplier}) (Error ''POLICY_UNSUPPORTED_OP'' ''priced book'')) (\<lambda>_.
     rbind (if is_base_op (cr_operation rule)
        then ensure (is_work (cr_on rule)) (Error ''POLICY_UNSUPPORTED_OP'' ''base needs work'') else Inr ()) (\<lambda>_.
     rbind (validate_price price scale) (\<lambda>_.
     case price of
       PricePercent _ component \<Rightarrow> local_basis p ri rule component (chain_phase (cr_operation rule))
     | PriceUnit _ unit \<Rightarrow> ensure (is_work (cr_on rule) \<and> unit = cb_unit (ch_binding p))
         (Error ''POLICY_UNIT'' ''unit price requires matching work unit'')
     | PriceFixed _ \<Rightarrow> Inr ())))"

definition check_cap :: "nat \<Rightarrow> chain_policy \<Rightarrow> nat \<Rightarrow> chain_rule \<Rightarrow> decimal \<Rightarrow> string \<Rightarrow> string \<Rightarrow> unit result" where
  "check_cap scale p ri rule top_limit stage component =
     rbind (slug stage) (\<lambda>_.
     rbind (atoms_exact top_limit scale) (\<lambda>_.
     rbind (local_basis p ri rule component 3) (\<lambda>_.
     rbind (ensure (cb_book (ch_binding p) = Retail \<and> cr_on rule = Acquired \<and> cr_when rule = []
         \<and> cr_matcher rule = None) (Error ''POLICY_UNSUPPORTED_OP'' ''one unconditional retail closure cap'')) (\<lambda>_.
     ensure (list_ex (\<lambda>r. cr_component r = component \<and> is_premium_op (cr_operation r)) (ch_rules p))
       (Error ''POLICY_MISSING_BASIS'' ''cap closure premium'')))))"

definition check_share ::
    "nat \<Rightarrow> chain_policy \<Rightarrow> chain_policy \<Rightarrow> chain_rule \<Rightarrow> decimal \<Rightarrow> decimal \<Rightarrow> string \<Rightarrow> unit result" where
  "check_share scale retail p rule pct top_limit component =
     rbind (percent pct) (\<lambda>_.
     rbind (atoms_exact top_limit scale) (\<lambda>_.
     rbind (slug component) (\<lambda>_.
     rbind (ensure (cb_book (ch_binding p) = Supplier \<and> cr_on rule = Acquired \<and> cr_matcher rule \<noteq> None)
       (Error ''POLICY_UNSUPPORTED_OP'' ''supplier closure share'')) (\<lambda>_.
     rbind (ensure (list_ex (\<lambda>r. cr_component r = component \<and> cr_on r = Acquired \<and> is_premium_op (cr_operation r))
         (ch_rules retail)) (Error ''POLICY_MISSING_BASIS'' ''retail closure premium'')) (\<lambda>_.
     rbind (ensure (ro_bearer (cb_roles (ch_binding p)) = ro_recipient (cb_roles (ch_binding retail)))
       (Error ''POLICY_UNAUTHORIZED_MODIFIER'' ''share bearer must be retail recipient'')) (\<lambda>_.
     if cb_allocation_view (ch_binding p)
     then rfold (\<lambda>suffix _. slug (cr_component rule @ suffix)) allocation_suffixes () else Inr ()))))))"

definition check_operation :: "nat \<Rightarrow> chain_policy \<Rightarrow> chain_policy \<Rightarrow> nat \<Rightarrow> chain_rule \<Rightarrow> unit result" where
  "check_operation scale retail p ri rule =
     (case cr_operation rule of
        BaseOp price \<Rightarrow> check_priced scale p ri rule price
      | PremiumOp price \<Rightarrow> check_priced scale p ri rule price
      | DiscountOp amount component _ \<Rightarrow>
          rbind (validate_discount amount scale) (\<lambda>_.
          rbind (local_basis p ri rule component 2) (\<lambda>_.
          modifier (ch_binding p) (cr_component rule)))
      | LinkedDiscountOp _ _ \<Rightarrow> Inl (Error ''OUTCOME_TARGET_REQUIRED''
          ''superseded proposal: use frozen-target outcome families'')
      | CapOp top_limit stage component \<Rightarrow> check_cap scale p ri rule top_limit stage component
      | ShareOp pct top_limit component \<Rightarrow> check_share scale retail p rule pct top_limit component
      | ObserveCostOp \<Rightarrow> ensure (cb_book (ch_binding p) = CostObservation \<and> is_work (cr_on rule))
          (Error ''POLICY_UNSUPPORTED_OP'' ''retained work cost only''))"

text \<open>The counters and the order grow over the whole bundle, the two name sets per policy.\<close>

record bundle_state =
  bs_order :: "(nat \<times> nat) list"
  bs_nodes :: nat
  bs_caps :: nat
  bs_shares :: nat
  bs_bindings :: "string set"
  bs_agreements :: "string set"

fun check_predicate :: "chain_predicate \<Rightarrow> unit result" where
  "check_predicate (CTier t) = slug t"
| "check_predicate (CSource s) = validate_source s"
| "check_predicate _ = Inr ()"

fun is_cap_op :: "chain_operation \<Rightarrow> bool" where
  "is_cap_op (CapOp _ _ _) = True"
| "is_cap_op _ = False"

definition check_rule :: "nat \<Rightarrow> chain_policy \<Rightarrow> chain_policy \<Rightarrow> nat \<Rightarrow> nat \<times> chain_rule \<Rightarrow>
    string set \<times> string set \<times> bundle_state \<Rightarrow> (string set \<times> string set \<times> bundle_state) result" where
  "check_rule scale retail p pn numbered st =
     (case (numbered, st) of ((ri, rule), (ids, components, bs)) \<Rightarrow>
       rbind (slug (cr_id rule)) (\<lambda>_.
       rbind (slug (cr_component rule)) (\<lambda>_.
       rbind (ensure (cr_id rule \<notin> ids \<and> cr_component rule \<notin> components)
         (Error ''POLICY_AMBIGUOUS_MATCH'' ''rule/component'')) (\<lambda>_.
       rbind (ensure (cr_on rule \<in> set (cb_event_types (ch_binding p)))
         (Error ''POLICY_UNAUTHORIZED_MODIFIER'' ''event outside binding'')) (\<lambda>_.
       rbind (ensure (length (cr_when rule) \<le> 8) (Error ''POLICY_LIMIT'' ''predicates'')) (\<lambda>_.
       rbind (rfold (\<lambda>x _. check_predicate x) (cr_when rule) ()) (\<lambda>_.
       rbind (opt_check (validate_matcher (cr_on rule)) (cr_matcher rule)) (\<lambda>_.
       rbind (if cr_on rule = Acquired
          then ensure (cb_outcome (ch_binding p) \<noteq> None) (Error ''OUTCOME_AUTHORITY'' ''outcome terms required'')
          else Inr ()) (\<lambda>_.
       rbind (check_operation scale retail p ri rule) (\<lambda>_.
       Inr (insert (cr_id rule) ids, insert (cr_component rule) components,
         bs\<lparr>bs_order := bs_order bs @ [(pn, ri)], bs_nodes := bs_nodes bs + 2 + length (cr_when rule),
            bs_caps := bs_caps bs + (if is_cap_op (cr_operation rule) then 1 else 0),
            bs_shares := bs_shares bs + (if is_share_op (cr_operation rule) then 1 else 0)\<rparr>)))))))))))"

definition check_reserved :: "chain_policy \<Rightarrow> string set \<Rightarrow> unit result" where
  "check_reserved p components =
     rfold (\<lambda>rule _.
       if cb_allocation_view (ch_binding p) \<and> is_share_op (cr_operation rule)
       then rfold (\<lambda>suffix _. ensure (cr_component rule @ suffix \<notin> components)
           (Error ''POLICY_AMBIGUOUS_MATCH'' ''reserved allocation component'')) allocation_suffixes ()
       else Inr ()) (ch_rules p) ()"

definition check_policy :: "string \<Rightarrow> nat \<Rightarrow> chain_policy \<Rightarrow> nat \<times> chain_policy \<Rightarrow> bundle_state \<Rightarrow> bundle_state result" where
  "check_policy cur scale retail numbered bs =
     (case numbered of (pn, p) \<Rightarrow>
       let b = ch_binding p in
       rbind (binding_texts b) (\<lambda>_.
       rbind (ensure (cb_id b \<notin> bs_bindings bs \<and> cb_agreement b \<notin> bs_agreements bs)
         (Error ''POLICY_AMBIGUOUS_MATCH'' ''binding/agreement'')) (\<lambda>_.
       let bs = bs\<lparr>bs_bindings := insert (cb_id b) (bs_bindings bs),
                   bs_agreements := insert (cb_agreement b) (bs_agreements bs)\<rparr> in
       rbind (binding_limits b) (\<lambda>_.
       rbind (binding_lists b) (\<lambda>_.
       rbind (binding_terms cur scale b) (\<lambda>_.
       rbind (ensure (ch_rules p \<noteq> []) (Error ''POLICY_LIMIT'' ''empty policy'')) (\<lambda>_.
       rbind (rfold (check_rule scale retail p pn) (enumerate 0 (ch_rules p)) ({}, {}, bs)) (\<lambda>(ids, components, bs).
       rbind (check_reserved p components) (\<lambda>_.
       rbind (ensure (\<not> cb_allocation_view b \<or> list_ex (\<lambda>r. is_share_op (cr_operation r)) (ch_rules p))
         (Error ''POLICY_UNSUPPORTED_OP'' ''allocation requires share'')) (\<lambda>_.
       Inr bs))))))))))"

definition policy_key :: "chain_policy \<Rightarrow> book \<times> string" where
  "policy_key p = (cb_book (ch_binding p), cb_agreement (ch_binding p))"

definition order_key :: "chain_policy list \<Rightarrow> nat \<times> nat \<Rightarrow> nat \<times> book \<times> nat \<times> nat" where
  "order_key ps e = (case e of (p, r) \<Rightarrow>
     (chain_phase (cr_operation (ch_rules (ps ! p) ! r)), cb_book (ch_binding (ps ! p)), p, r))"

definition bundle_compile :: "string \<Rightarrow> nat \<Rightarrow> chain_policy list \<Rightarrow> chain_bundle result" where
  "bundle_compile cur scale policies =
     rbind (validate_currency cur scale) (\<lambda>_.
     rbind (ensure (policies \<noteq> [] \<and> length policies \<le> 16) (Error ''POLICY_LIMIT'' ''bindings'')) (\<lambda>_.
     rbind (ensure (length (filter (\<lambda>p. cb_book (ch_binding p) = Retail) policies) = 1)
       (Error ''TERMS_NOT_ACCEPTED'' ''exactly one retail binding'')) (\<lambda>_.
     let policies = sort_key policy_key policies in
     rbind (rfold (check_policy cur scale (hd policies)) (enumerate 0 policies)
       \<lparr>bs_order = [], bs_nodes = 1, bs_caps = 0, bs_shares = 0, bs_bindings = {}, bs_agreements = {}\<rparr>) (\<lambda>bs.
     rbind (ensure (length (bs_order bs) \<le> 64 \<and> bs_nodes bs \<le> 256 \<and> bs_caps bs \<le> 1 \<and> bs_shares bs \<le> 1)
       (Error ''POLICY_LIMIT'' ''rules, AST, one cap/share'')) (\<lambda>_.
     Inr \<lparr>bu_currency = cur, bu_scale = scale, bu_policies = policies,
          bu_order = sort_key (order_key policies) (bs_order bs)\<rparr>)))))"

end
