(* ===== verification/Chain_Evaluation.thy ===== *)
theory Chain_Evaluation
  imports Chaining
begin

text \<open>
  Policy chaining, the evaluator (\<^verbatim>\<open>policy/chaining/evaluate.rs\<close>): one event of a chain against
  the compiled policies, with the retained decisions of the chain, the invocations its suppliers
  were authorized for and the evidence of costs. SHA-256 is a parameter. A \<open>BTreeMap\<close> that is
  only probed and written is a map, one that is enumerated an ordered association list. The
  lengths of texts in memory are naturals: their sums stay far below \<open>usize\<close>.
\<close>

section \<open>Fallible traversals\<close>

fun rfilter :: "('a \<Rightarrow> 'e + bool) \<Rightarrow> 'a list \<Rightarrow> 'e + 'a list" where
  "rfilter f [] = Inr []"
| "rfilter f (x # xs) = rbind (f x) (\<lambda>b. rbind (rfilter f xs) (\<lambda>ys. Inr (if b then x # ys else ys)))"

fun rfind :: "('a \<Rightarrow> 'e + bool) \<Rightarrow> 'a list \<Rightarrow> 'e + 'a option" where
  "rfind f [] = Inr None"
| "rfind f (x # xs) = rbind (f x) (\<lambda>b. if b then Inr (Some x) else rfind f xs)"

definition index :: "'a list \<Rightarrow> nat \<Rightarrow> 'a result" where
  "index xs i = (if i < length xs then Inr (xs ! i) else Inl Panic)"

definition trap_i128 :: "int \<Rightarrow> int result" where
  "trap_i128 n = (if in_i128 n then Inr n else Inl Panic)"

text \<open>The cast of a \<open>u64\<close> to \<open>i64\<close> wraps.\<close>

definition as_i64 :: "nat \<Rightarrow> int" where
  "as_i64 n = (if int n \<le> i64_max then int n else int n - 2 ^ 64)"

definition sorted_set :: "string list \<Rightarrow> string list" where
  "sorted_set xs = remdups_adj (sort xs)"

definition event_kind_of :: "event \<Rightarrow> event_kind" where "event_kind_of e = ev_kind (e_dto e)"

definition is_reversed :: "string \<Rightarrow> evaluation list \<Rightarrow> bool" where
  "is_reversed ident history \<longleftrightarrow>
     list_ex (\<lambda>d. list_ex (\<lambda>a. ca_reverses a = Some ident) (va_actions d)) history"

definition any_reversed :: "chain_action list \<Rightarrow> evaluation list \<Rightarrow> bool" where
  "any_reversed actions history \<longleftrightarrow> list_ex (\<lambda>a. is_reversed (ca_id a) history) actions"

section \<open>Authority and history\<close>

definition chain_claim_id :: "(string \<Rightarrow> string) \<Rightarrow> event \<Rightarrow> string result" where
  "chain_claim_id sha256 e =
     (if is_work (event_kind_of e) then completion_claim_id sha256 e
      else rbind (ok_or (ev_claim_id (e_dto e)) (Error ''SCHEMA'' ''outcome claim'')) (\<lambda>claim.
        identity sha256 DomClaim (JArray [scope_json (event_scope e), JString (event_source e), JString claim,
          JString ''acquisition'', JString claim])))"

definition validate_authority :: "event \<Rightarrow> source_authority \<Rightarrow> unit result" where
  "validate_authority e a =
     rbind (prefixed (sa_grant a) ''doc_'') (\<lambda>_.
     rbind (validate_source (sa_source a)) (\<lambda>_.
     rbind (ensure (sa_active a \<and> sa_source a = event_source e \<and> event_kind_of e \<in> set (sa_event_types a))
       (Error ''SOURCE_UNAUTHORIZED'' ''current authenticated grant'')) (\<lambda>_.
     rbind (ensure (length (sa_event_types a) \<le> 7 \<and> length (sa_relations a) \<le> 5)
       (Error ''LIMIT'' ''source grant'')) (\<lambda>_.
     rfold (\<lambda>l _. ensure (link_relation l \<in> set (sa_relations a))
         (Error ''LINK_UNAUTHORIZED'' ''current relation grant'')) (links_of (e_dto e)) ()))))"

text \<open>The identities seen so far and the estimate of the bytes retained.\<close>

record history_state =
  hs_ids :: "string set"
  hs_claims :: "string set"
  hs_actions :: "string set"
  hs_bytes :: nat

definition same_chain :: "event \<Rightarrow> event \<Rightarrow> bool result" where
  "same_chain e d =
     (if event_scope d = event_scope e then
        rbind (event_chain d) (\<lambda>c. rbind (event_chain e) (\<lambda>c'.
        Inr (c = c' \<and> ev_customer (e_dto d) = ev_customer (e_dto e))))
      else Inr False)"

definition action_bytes :: "chain_action \<Rightarrow> nat" where
  "action_bytes a = length (ca_id a) + length (ca_effect_id a) + length (ca_obligation_id a)
     + length (ca_component a) + (length (ca_inputs a) + length (ca_sources a) + length (ca_links a)) * 128 + 1024"

definition history_action :: "chain_action \<Rightarrow> history_state \<Rightarrow> history_state result" where
  "history_action a h =
     (if ca_id a \<in> hs_actions h then Inl (Error ''EFFECT_CONFLICT'' ''duplicate history effect'')
      else Inr (h\<lparr>hs_actions := insert (ca_id a) (hs_actions h), hs_bytes := hs_bytes h + action_bytes a\<rparr>))"

definition history_entry :: "event \<Rightarrow> evaluation \<Rightarrow> history_state \<Rightarrow> history_state result" where
  "history_entry e d h =
     rbind (same_chain e (va_event d)) (\<lambda>same.
     rbind (ensure same (Error ''CHAIN_MISMATCH'' ''scope/chain/customer'')) (\<lambda>_.
     rbind (ensure (event_ident (va_event d) \<noteq> event_ident e \<and> event_ident (va_event d) \<notin> hs_ids h
         \<and> (case va_claim_id d of None \<Rightarrow> True | Some claim \<Rightarrow> claim \<notin> hs_claims h))
       (Error ''CLAIM_CONFLICT'' ''duplicate history/current identity'')) (\<lambda>_.
     rfold history_action (va_actions d)
       (h\<lparr>hs_ids := insert (event_ident (va_event d)) (hs_ids h),
          hs_claims := hs_claims h \<union> set_option (va_claim_id d),
          hs_bytes := hs_bytes h + length (e_bytes (va_event d))\<rparr>))))"

definition validate_history :: "event \<Rightarrow> evaluation list \<Rightarrow> unit result" where
  "validate_history e history =
     rbind (ensure (length history < 1000) (Error ''LIMIT'' ''chain events'')) (\<lambda>_.
     rbind (rfold (history_entry e) history
       \<lparr>hs_ids = {}, hs_claims = {}, hs_actions = {}, hs_bytes = length (e_bytes e)\<rparr>) (\<lambda>h.
     ensure (hs_bytes h \<le> 8 * 1024 * 1024) (Error ''LIMIT'' ''resolved input'')))"

section \<open>Context and stage\<close>

definition retail_of :: "chain_bundle \<Rightarrow> chain_policy result" where
  "retail_of b = index (bu_policies b) 0"

definition check_expected_component ::
    "chain_bundle \<Rightarrow> event_kind \<Rightarrow> string \<Rightarrow> string set \<Rightarrow> string set result" where
  "check_expected_component b kind component seen =
     rbind (slug component) (\<lambda>_.
     if component \<in> seen then Inl (Error ''STAGE_DEFINITION'' ''declared retail component'')
     else rbind (retail_of b) (\<lambda>retail.
       if list_ex (\<lambda>r. cr_on r = kind \<and> cr_component r = component) (ch_rules retail)
       then Inr (insert component seen)
       else Inl (Error ''STAGE_DEFINITION'' ''declared retail component'')))"

definition check_expected :: "chain_bundle \<Rightarrow> expected_operation \<Rightarrow> (string \<times> string) set \<Rightarrow> (string \<times> string) set result" where
  "check_expected b x ops =
     rbind (validate_source (eo_source x)) (\<lambda>_.
     rbind (check_text (eo_operation_id x) 128) (\<lambda>_.
     rbind (ensure (is_work (eo_kind x) \<and> (eo_source x, eo_operation_id x) \<notin> ops
         \<and> eo_retail_components x \<noteq> [] \<and> length (eo_retail_components x) \<le> 64)
       (Error ''STAGE_DEFINITION'' ''unique complete work set'')) (\<lambda>_.
     rbind (rfold (check_expected_component b (eo_kind x)) (eo_retail_components x) {}) (\<lambda>_.
     Inr (insert (eo_source x, eo_operation_id x) ops)))))"

definition check_stage :: "chain_bundle \<Rightarrow> evaluation list \<Rightarrow> stage \<Rightarrow> unit result" where
  "check_stage b history s =
     rbind (slug (sg_id s)) (\<lambda>_.
     rbind (slug (sg_closure_claim_namespace s)) (\<lambda>_.
     rbind (ensure (sg_expected s \<noteq> [] \<and> length (sg_expected s) \<le> 32) (Error ''LIMIT'' ''stage expected set'')) (\<lambda>_.
     rbind (rfold (check_expected b) (sg_expected s) {}) (\<lambda>_.
     ensure (\<not> list_ex (\<lambda>d. va_closed_stage d = Some (sg_id s)) history)
       (Error ''STAGE_CLOSED'' ''new originals cannot enter a closed stage, even after reversal'')))))"

definition check_cap_stage :: "pinned_context \<Rightarrow> chain_rule \<Rightarrow> unit result" where
  "check_cap_stage c r =
     (case cr_operation r of
        CapOp _ stage _ \<Rightarrow>
          ensure (case pc_stage c of None \<Rightarrow> False | Some s \<Rightarrow> sg_id s = stage)
            (Error ''STAGE_DEFINITION'' ''cap stage pinned before work'')
      | _ \<Rightarrow> Inr ())"

definition validate_context :: "chain_bundle \<Rightarrow> chain_input \<Rightarrow> unit result" where
  "validate_context b input =
     (let c = ip_context input in
      rbind (prefixed (pc_document c) ''doc_'') (\<lambda>_.
      rbind (check_text (pc_customer c) 128) (\<lambda>_.
      rbind (opt_check slug (pc_tier c)) (\<lambda>_.
      rbind (ensure (pc_customer c = ev_customer (e_dto (ip_event input)))
        (Error ''CHAIN_MISMATCH'' ''pinned customer'')) (\<lambda>_.
      rbind (rfold (\<lambda>d _. ensure (va_context d = c \<and> va_bundle d = b)
          (Error ''PINNED_CONTEXT'' ''chain terms/context cannot change'')) (ip_history input) ()) (\<lambda>_.
      rbind (opt_check (check_stage b (ip_history input)) (pc_stage c)) (\<lambda>_.
      rfold (\<lambda>p _. rfold (\<lambda>r _. check_cap_stage c r) (ch_rules p) ()) (bu_policies b) ())))))))"

section \<open>Links\<close>

definition link_target :: "evaluation list \<Rightarrow> typed_link \<Rightarrow> evaluation option" where
  "link_target history l = find (\<lambda>d. event_source (va_event d) = ref_source (link_from l)
     \<and> ev_id (e_dto (va_event d)) = ref_id (link_from l)) history"

text \<open>
  The walk over the predecessors: the events on the current path, and for every event visited the
  greatest number of hops it was visited at. It recurses at most sixteen levels deep.
\<close>

function depth ::
    "evaluation list \<Rightarrow> event \<Rightarrow> nat \<Rightarrow> string set \<times> (string \<Rightarrow> nat option) \<Rightarrow>
     (string set \<times> (string \<Rightarrow> nat option)) result" where
  "depth history e hops st =
     (if hops > 16 then Inl (Error ''LIMIT'' ''chain traversal'')
      else if event_ident e \<in> fst st then Inl (Error ''LINK_CYCLE'' ''predecessor cycle'')
      else if (case snd st (event_ident e) of None \<Rightarrow> False | Some previous \<Rightarrow> previous \<ge> hops) then Inr st
      else rbind (rfold (\<lambda>l st.
          rbind (ok_or (link_target history l) (Error ''WAITING_DEPENDENCIES'' ''history predecessor'')) (\<lambda>p.
          depth history (va_event p) (hops + 1) st)) (links_of (e_dto e))
          (insert (event_ident e) (fst st), (snd st)(event_ident e \<mapsto> hops))) (\<lambda>st.
        Inr (fst st - {event_ident e}, snd st)))"
  by pat_completeness auto
termination
  by (relation "measure (\<lambda>(_, _, hops, _). 17 - hops)") auto

declare depth.simps [simp del]

fun link_allowed :: "relation \<Rightarrow> event_kind \<Rightarrow> bool" where
  "link_allowed GeneratedFrom k \<longleftrightarrow> k = Generated"
| "link_allowed OptimizedFrom k \<longleftrightarrow> k = Generated"
| "link_allowed PublishedAs k \<longleftrightarrow> k = Generated \<or> k = Optimized"
| "link_allowed AttributedTo k \<longleftrightarrow> k = Published"
| "link_allowed ConsumesService k \<longleftrightarrow> k = ToolCompleted"

definition inbound :: "evaluation list \<Rightarrow> event_ref \<Rightarrow> nat" where
  "inbound history r = length (filter (\<lambda>l. link_from l = r)
     (concat (map (\<lambda>d. links_of (e_dto (va_event d))) history)))"

definition validate_link :: "evaluation list \<Rightarrow> typed_link \<Rightarrow> (string \<Rightarrow> nat option) \<Rightarrow> (string \<Rightarrow> nat option) result" where
  "validate_link history l seen =
     rbind (ok_or (link_target history l) (Error ''WAITING_DEPENDENCIES'' ''explicit predecessor missing'')) (\<lambda>p.
     rbind (ensure (link_allowed (link_relation l) (event_kind_of (va_event p)))
       (Error ''LINK_TYPE'' ''typed predecessor'')) (\<lambda>_.
     rbind (ensure (inbound history (link_from l) < 128) (Error ''LIMIT'' ''inbound children'')) (\<lambda>_.
     rbind (depth history (va_event p) 1 ({}, seen)) (\<lambda>st. Inr (snd st)))))"

definition validate_links :: "event \<Rightarrow> evaluation list \<Rightarrow> unit result" where
  "validate_links e history =
     rbind (rfold (validate_link history) (links_of (e_dto e)) Map.empty) (\<lambda>_. Inr ())"

section \<open>Matching\<close>

record chain_match =
  mt_target :: evaluation
  mt_sources :: "string list"
  mt_links :: "string list"

definition parent :: "event \<Rightarrow> relation \<Rightarrow> evaluation list \<Rightarrow> evaluation option result" where
  "parent child r history =
     (case find (\<lambda>l. link_relation l = r) (links_of (e_dto child)) of
        None \<Rightarrow> Inr None
      | Some l \<Rightarrow> rbind (ok_or (link_target history l)
          (Error ''WAITING_DEPENDENCIES'' ''explicit predecessor missing'')) (\<lambda>d. Inr (Some d)))"

definition link_identity :: "(string \<Rightarrow> string) \<Rightarrow> event \<Rightarrow> relation \<Rightarrow> event \<Rightarrow> string result" where
  "link_identity sha256 child r predecessor =
     identity sha256 DomLink (JArray [scope_json (event_scope child), JString (relation_name r),
       JString (event_ident child), JString (event_ident predecessor)])"

fun matcher_path :: "matcher \<Rightarrow> relation \<times> event_kind" where
  "matcher_path (Direct r t) = (r, t)"
| "matcher_path AcquisitionOptimization = (AttributedTo, Published)"

definition match_rule ::
    "(string \<Rightarrow> string) \<Rightarrow> event \<Rightarrow> matcher option \<Rightarrow> evaluation list \<Rightarrow> chain_match option result" where
  "match_rule sha256 e matcher history =
     (case matcher of
        None \<Rightarrow> Inr None
      | Some m \<Rightarrow>
          rbind (ensure (relation_count (e_dto e) (fst (matcher_path m)) \<le> 1)
            (Error ''POLICY_AMBIGUOUS_MATCH'' ''matcher requires one explicit endpoint'')) (\<lambda>_.
          rbind (parent e (fst (matcher_path m)) history) (\<lambda>found.
          case found of
            None \<Rightarrow> Inr None
          | Some first \<Rightarrow>
              if event_kind_of (va_event first) \<noteq> snd (matcher_path m) then Inr None
              else rbind (link_identity sha256 e (fst (matcher_path m)) (va_event first)) (\<lambda>l.
                let found = \<lparr>mt_target = first, mt_sources = [event_ident (va_event first)], mt_links = [l]\<rparr> in
                if m \<noteq> AcquisitionOptimization then Inr (Some found)
                else rbind (parent (va_event first) PublishedAs history) (\<lambda>second.
                  case second of
                    None \<Rightarrow> Inr None
                  | Some d \<Rightarrow>
                      if event_kind_of (va_event d) \<noteq> Optimized then Inr None
                      else rbind (link_identity sha256 (va_event first) PublishedAs (va_event d)) (\<lambda>l'.
                        Inr (Some \<lparr>mt_target = d, mt_sources = [event_ident (va_event first), event_ident (va_event d)],
                          mt_links = [l, l']\<rparr>)))))))"

section \<open>Bindings and invocations\<close>

definition decimal_leq :: "decimal \<Rightarrow> decimal \<Rightarrow> bool result" where
  "decimal_leq a b =
     rbind (ratio_add (decimal_ratio a) (negated (decimal_ratio b))) (\<lambda>r. Inr (\<not> is_positive r))"

definition occurred :: "event \<Rightarrow> timestamp result" where
  "occurred e = ok_or (ev_occurred_at (e_dto e)) Panic"

definition quantity_of :: "event \<Rightarrow> decimal result" where
  "quantity_of e = ok_or (ev_quantity (e_dto e)) Panic"

definition candidate_invocation ::
    "chain_binding \<Rightarrow> event \<Rightarrow> evaluation option \<Rightarrow> invocation \<Rightarrow> bool result" where
  "candidate_invocation b e matched i =
     (if iv_binding_id i \<noteq> cb_id b then Inr False
      else if is_work (event_kind_of e)
      then rbind (operation_id (e_candidate e)) (\<lambda>operation.
        Inr (iv_operation_id i = operation \<and> iv_source i = event_source e))
      else Inr (case matched of None \<Rightarrow> False | Some d \<Rightarrow> iv_completion_event i = Some (event_ident (va_event d))))"

text \<open>What the chain already consumed and released of an invocation, whose terms may not change.\<close>

definition used_by :: "string \<Rightarrow> consumption \<Rightarrow> int \<Rightarrow> int result" where
  "used_by ident c used =
     (if cn_invocation_id c = ident
      then rbind (add_atoms (atoms (cn_consume c)) (atoms (cn_release c))) (add_atoms used) else Inr used)"

definition same_terms :: "invocation \<Rightarrow> invocation \<Rightarrow> bool" where
  "same_terms i previous \<longleftrightarrow>
     i\<lparr>iv_held := iv_held previous, iv_completion_event := iv_completion_event previous\<rparr> = previous"

definition used_in :: "invocation \<Rightarrow> evaluation \<Rightarrow> int \<Rightarrow> int result" where
  "used_in i d used =
     rbind (case find (\<lambda>old. iv_id old = iv_id i) (va_invocations d) of
         None \<Rightarrow> Inr ()
       | Some previous \<Rightarrow> ensure (same_terms i previous)
           (Error ''INVOCATION_CONFLICT'' ''historical authorization cannot be enlarged or replaced'')) (\<lambda>_.
     rfold (used_by (iv_id i)) (va_consumptions d) used)"

definition invocation_limits :: "invocation \<Rightarrow> money \<Rightarrow> bool" where
  "invocation_limits i m \<longleftrightarrow>
     currency (iv_maximum_exposure i) = currency m \<and> mscale (iv_maximum_exposure i) = mscale m
     \<and> atoms (iv_maximum_exposure i) \<ge> 0 \<and> atoms (iv_maximum_exposure i) \<le> atoms m
     \<and> currency (iv_held i) = currency (iv_maximum_exposure i) \<and> mscale (iv_held i) = mscale (iv_maximum_exposure i)
     \<and> atoms (iv_held i) \<ge> 0 \<and> atoms (iv_held i) \<le> atoms (iv_maximum_exposure i)"

definition invocation_work :: "chain_binding \<Rightarrow> event \<Rightarrow> invocation \<Rightarrow> unit result" where
  "invocation_work b e i =
     rbind (ensure (iv_completion_event i = None \<and> ev_invocation_id (e_dto e) = Some (iv_id i)
         \<and> ev_binding_id (e_dto e) = Some (cb_id b))
       (Error ''INVOCATION_CONFLICT'' ''explicit unconsumed work authorization'')) (\<lambda>_.
     rbind (quantity_of e) (\<lambda>q.
     rbind (decimal_leq q (iv_maximum_quantity i)) (\<lambda>ok.
     ensure ok (Error ''QUANTITY'' ''invocation quantity''))))"

definition completed_by :: "event \<Rightarrow> invocation \<Rightarrow> bool result" where
  "completed_by e i =
     (if event_source e \<noteq> iv_source i then Inr False
      else rbind (operation_id (e_candidate e)) (\<lambda>operation.
        Inr (operation = iv_operation_id i \<and> ev_status (e_dto e) = Some Succeeded
          \<and> ev_invocation_id (e_dto e) = Some (iv_id i))))"

definition invocation_outcome :: "event \<Rightarrow> evaluation option \<Rightarrow> invocation \<Rightarrow> unit result" where
  "invocation_outcome e matched i =
     rbind (ok_or matched Panic) (\<lambda>predecessor.
     rbind (completed_by (va_event predecessor) i) (\<lambda>ok.
     rbind (ensure ok (Error ''INVOCATION_SCOPE'' ''historical supplier completion'')) (\<lambda>_.
     rbind (ok_or (iv_outcome_deadline i) (Error ''OUTCOME_AUTHORITY'' ''contingent authorization'')) (\<lambda>deadline.
     rbind (occurred e) (\<lambda>t.
     ensure (ts_micros t < ts_micros deadline) (Error ''OUTCOME_WINDOW'' ''invocation outcome deadline''))))))"

definition find_invocation :: "chain_binding \<Rightarrow> chain_input \<Rightarrow> evaluation option \<Rightarrow> invocation result" where
  "find_invocation b input matched =
     (let e = ip_event input in
      rbind (rfilter (candidate_invocation b e matched) (ip_invocations input)) (\<lambda>candidates.
      case candidates of
        [i] \<Rightarrow>
          rbind (rfold (used_in i) (ip_history input) 0) (\<lambda>used.
          rbind (add_atoms used (atoms (iv_held i))) (\<lambda>total.
          rbind (ensure (total \<le> atoms (iv_maximum_exposure i))
            (Error ''EXPOSURE_EXCEEDED'' ''held capacity cannot be replenished'')) (\<lambda>_.
          rbind (check_text (iv_id i) 128) (\<lambda>_.
          rbind (check_text (iv_operation_id i) 128) (\<lambda>_.
          rbind (validate_source (iv_source i)) (\<lambda>_.
          rbind (event_chain e) (\<lambda>chain.
          rbind (ensure (iv_chain i = chain \<and> iv_customer i = ev_customer (e_dto e) \<and> iv_unit i = cb_unit b)
            (Error ''INVOCATION_SCOPE'' ''chain/customer/unit'')) (\<lambda>_.
          rbind (ok_or (cb_maximum_exposure b) Panic) (\<lambda>m.
          rbind (ensure (invocation_limits i m) (Error ''EXPOSURE_EXCEEDED'' ''invocation/held limits'')) (\<lambda>_.
          rbind (ensure (ts_micros (iv_authorized_at i) \<le> ts_micros (iv_attested_start i)
              \<and> ts_micros (iv_attested_start i) < ts_micros (iv_start_before i))
            (Error ''INVOCATION_EXPIRED'' ''attested work start, not report arrival'')) (\<lambda>_.
          rbind (decimal_leq (iv_maximum_quantity i) (cb_maximum_quantity b)) (\<lambda>ok.
          rbind (ensure ok (Error ''QUANTITY'' ''invocation ceiling'')) (\<lambda>_.
          rbind (if is_work (event_kind_of e) then invocation_work b e i else invocation_outcome e matched i) (\<lambda>_.
          Inr i))))))))))))))
      | _ \<Rightarrow> Inl (Error ''INVOCATION_REQUIRED'' ''one nominated supplier authorization'')))"

text \<open>An outcome lies in the half-open window after the publication it is attributed to.\<close>

definition outcome_window :: "outcome_terms \<Rightarrow> event \<Rightarrow> event \<Rightarrow> timestamp \<Rightarrow> unit result" where
  "outcome_window terms e publication received =
     rbind (ok_or (ev_occurred_at (e_dto publication)) (Error ''OUTCOME_WINDOW'' ''publication timestamp'')) (\<lambda>p.
     let published = ts_micros p in
     rbind (ok_or (checked_i64 (published + as_i64 (ot_window_us terms)))
       (Error ''OUTCOME_WINDOW'' ''timestamp overflow'')) (\<lambda>deadline.
     rbind (occurred e) (\<lambda>t.
     rbind (ensure (ts_micros t \<ge> published \<and> ts_micros t < deadline)
       (Error ''OUTCOME_WINDOW'' ''half-open occurrence interval'')) (\<lambda>_.
     rbind (ensure (ts_micros received \<ge> ts_micros t)
       (Error ''INVALID_RECEIVED_ORDER'' ''outcome receipt precedes occurrence'')) (\<lambda>_.
     rbind (ok_or (checked_i64 (deadline + as_i64 (ot_report_grace_us terms)))
       (Error ''OUTCOME_WINDOW'' ''grace overflow'')) (\<lambda>latest.
     ensure (ts_micros received \<le> latest) (Error ''AUTHORITY_REVIEW_REQUIRED'' ''report deadline'')))))))"

definition binding_work :: "chain_binding \<Rightarrow> event \<Rightarrow> unit result" where
  "binding_work b e =
     rbind (ensure (ev_unit (e_dto e) = Some (cb_unit b)) (Error ''UNIT_MISMATCH'' ''binding unit'')) (\<lambda>_.
     rbind (quantity_of e) (\<lambda>q.
     rbind (decimal_leq q (cb_maximum_quantity b)) (\<lambda>ok.
     ensure ok (Error ''QUANTITY'' ''binding ceiling''))))"

definition binding_outcome :: "chain_binding \<Rightarrow> chain_input \<Rightarrow> evaluation option \<Rightarrow> unit result" where
  "binding_outcome b input matched =
     (let e = ip_event input in
      rbind (ok_or (cb_outcome b) (Error ''OUTCOME_AUTHORITY'' ''accepted outcome terms'')) (\<lambda>terms.
      rbind (ensure (ot_source terms = event_source e) (Error ''OUTCOME_AUTHORITY'' ''designated outcome source'')) (\<lambda>_.
      rbind (parent e AttributedTo (ip_history input)) (\<lambda>found.
      rbind (ok_or found (Error ''OUTCOME_AUTHORITY'' ''publication link'')) (\<lambda>publication.
      rbind (ensure (ev_status (e_dto (va_event publication)) = Some Succeeded)
        (Error ''OUTCOME_AUTHORITY'' ''successful publication'')) (\<lambda>_.
      rbind (ensure (\<not> any_reversed (va_actions publication) (ip_history input))
        (Error ''REVERSED_DEPENDENCY'' ''publication reversed'')) (\<lambda>_.
      rbind (opt_check (\<lambda>target.
         rbind (ensure (ev_status (e_dto (va_event target)) = Some Succeeded)
           (Error ''OUTCOME_AUTHORITY'' ''successful matched work'')) (\<lambda>_.
         ensure (\<not> any_reversed (va_actions target) (ip_history input))
           (Error ''REVERSED_DEPENDENCY'' ''matched work reversed''))) matched) (\<lambda>_.
      outcome_window terms e (va_event publication) (ip_received_at input)))))))))"

definition validate_binding :: "chain_binding \<Rightarrow> chain_input \<Rightarrow> evaluation option \<Rightarrow> unit result" where
  "validate_binding b input matched =
     (let e = ip_event input in
      rbind (ensure (event_source e \<in> set (cb_sources b)) (Error ''SOURCE_UNAUTHORIZED'' ''binding source'')) (\<lambda>_.
      rbind (if is_work (event_kind_of e) then binding_work b e else binding_outcome b input matched) (\<lambda>_.
      if cb_book b = Supplier then rbind (find_invocation b input matched) (\<lambda>_. Inr ()) else Inr ())))"

section \<open>Pricing\<close>

type_synonym slot = "nat \<times> string"

fun predicate_holds :: "chain_input \<Rightarrow> chain_predicate \<Rightarrow> bool" where
  "predicate_holds input (CTier t) \<longleftrightarrow> pc_tier (ip_context input) = Some t"
| "predicate_holds input (CFunding f) \<longleftrightarrow> pc_funding (ip_context input) = f"
| "predicate_holds input (CPriority v) \<longleftrightarrow> pc_priority (ip_context input) = Some v"
| "predicate_holds input (CSource s) \<longleftrightarrow> event_source (ip_event input) = s"

definition predicate_all :: "chain_rule \<Rightarrow> chain_input \<Rightarrow> bool" where
  "predicate_all r input \<longleftrightarrow> list_all (predicate_holds input) (cr_when r)"

definition component_inputs :: "chain_action list \<Rightarrow> string \<Rightarrow> string \<Rightarrow> string list" where
  "component_inputs actions binding component =
     map ca_id (filter (\<lambda>a. cb_id (ca_binding a) = binding \<and> ca_component a = component) actions)"

fun price_value :: "price \<Rightarrow> nat \<Rightarrow> event \<Rightarrow> nat \<Rightarrow> (slot \<Rightarrow> int option) \<Rightarrow> chain_action list \<Rightarrow>
    chain_explanation \<Rightarrow> (ratio \<times> chain_explanation) result" where
  "price_value (PriceFixed d) scale e pn booked actions s = rbind (atoms_ratio d scale) (\<lambda>r. Inr (r, s))"
| "price_value (PriceUnit rate unit) scale e pn booked actions s =
     rbind (ensure (ev_unit (e_dto e) = Some unit) (Error ''UNIT_MISMATCH'' ''unit rate'')) (\<lambda>_.
     rbind (atoms_ratio rate scale) (\<lambda>r.
     rbind (quantity_of e) (\<lambda>q.
     rbind (ratio_mul r (decimal_ratio q)) (\<lambda>r. Inr (r, s)))))"
| "price_value (PricePercent pct component) scale e pn booked actions s =
     rbind (ok_or (booked (pn, component)) (Error ''POLICY_MISSING_BASIS'' component)) (\<lambda>basis.
     rbind (ensure (basis \<ge> 0) (Error ''NEGATIVE_BASIS'' ''percentage'')) (\<lambda>_.
     rbind (percent pct) (\<lambda>p.
     rbind (ratio_mul (ratio_integer basis) p) (\<lambda>r.
     Inr (r, s\<lparr>xp_basis := Some (ratio_integer basis),
       xp_inputs := component_inputs actions (xp_binding_id s) component\<rparr>)))))"

definition discount_value :: "discount_amount \<Rightarrow> nat \<Rightarrow> int \<Rightarrow> ratio result" where
  "discount_value amount scale basis =
     rbind (ensure (basis \<ge> 0) (Error ''NEGATIVE_BASIS'' ''discount'')) (\<lambda>_.
     rbind (case amount of
         DiscountFixed d \<Rightarrow> atoms_ratio d scale
       | DiscountPercent d \<Rightarrow> rbind (percent d) (ratio_mul (ratio_integer basis))) (\<lambda>r.
     Inr (negated r)))"

definition stage_action :: "chain_policy \<Rightarrow> evaluation list \<Rightarrow> expected_operation \<Rightarrow> chain_action \<Rightarrow>
    int \<times> string list \<Rightarrow> (int \<times> string list) result" where
  "stage_action retail history x a acc =
     (if ca_book a \<noteq> Retail then Inr acc
      else
        rbind (ensure (ca_binding a = ch_binding retail \<and> ca_component a \<in> set (eo_retail_components x))
          (Error ''STAGE_DEFINITION'' ''same obligation and complete declared components'')) (\<lambda>_.
        rbind (ensure (\<not> is_reversed (ca_id a) history)
          (Error ''STAGE_DEFINITION'' ''reversed stage input needs newly authorized context'')) (\<lambda>_.
        rbind (add_atoms (fst acc) (atoms (ca_amount a))) (\<lambda>total.
        Inr (total, snd acc @ [ca_id a])))))"

definition stage_operation :: "chain_policy \<Rightarrow> evaluation list \<Rightarrow> expected_operation \<Rightarrow>
    int \<times> string list \<Rightarrow> (int \<times> string list) result" where
  "stage_operation retail history x acc =
     rbind (rfind (\<lambda>d. if event_source (va_event d) \<noteq> eo_source x then Inr False
         else rbind (operation_id (e_candidate (va_event d))) (\<lambda>operation. Inr (operation = eo_operation_id x)))
       history) (\<lambda>found.
     rbind (ok_or found (Error ''WAITING_DEPENDENCIES'' (''stage operation '' @ eo_operation_id x))) (\<lambda>d.
     rbind (ensure (event_kind_of (va_event d) = eo_kind x)
       (Error ''STAGE_DEFINITION'' ''expected completion kind'')) (\<lambda>_.
     rfold (stage_action retail history x) (va_actions d) acc)))"

text \<open>What the stage booked before its closure.\<close>

definition stage_prior :: "chain_bundle \<Rightarrow> chain_input \<Rightarrow> string \<Rightarrow> (int \<times> string list) result" where
  "stage_prior b input stage_id =
     rbind (ok_or (case pc_stage (ip_context input) of None \<Rightarrow> None
         | Some s \<Rightarrow> if sg_id s = stage_id then Some s else None)
       (Error ''STAGE_DEFINITION'' ''missing stage'')) (\<lambda>s.
     rbind (retail_of b) (\<lambda>retail.
     rbind (ensure (case cb_outcome (ch_binding retail) of None \<Rightarrow> False
         | Some terms \<Rightarrow> ot_claim_namespace terms = sg_closure_claim_namespace s)
       (Error ''OUTCOME_AUTHORITY'' ''stage claim namespace'')) (\<lambda>_.
     rbind (rfold (stage_operation retail (ip_history input)) (sg_expected s) (0, [])) (\<lambda>acc.
     rbind (ensure (fst acc \<ge> 0) (Error ''NEGATIVE_BASIS'' ''stage prior'')) (\<lambda>_.
     Inr acc)))))"

section \<open>Actions\<close>

definition action_identity :: "(string \<Rightarrow> string) \<Rightarrow> event \<Rightarrow> string \<Rightarrow> chain_binding \<Rightarrow> string \<Rightarrow> string list \<Rightarrow>
    (string \<times> string) result" where
  "action_identity sha256 e claim b component links =
     (let links = sorted_set links in
      rbind (identity sha256 DomEffect (JArray [scope_json (event_scope e), JString (cb_agreement b),
         JString component, JString claim, if links = [] then JString ''self'' else strings_json links,
         JString ''original''])) (\<lambda>effect.
      rbind (identity sha256 DomAction (JArray [JString effect])) (\<lambda>action.
      Inr (effect, action))))"

definition obligation_identity :: "(string \<Rightarrow> string) \<Rightarrow> chain_bundle \<Rightarrow> event \<Rightarrow> chain_binding \<Rightarrow> book \<Rightarrow> string result" where
  "obligation_identity sha256 bu e b k =
     identity sha256 DomObligation (JArray [scope_json (event_scope e), JString (cb_agreement b),
       JString (book_name k), JString (bu_currency bu), JInt (int (bu_scale bu)), roles_json (cb_roles b)])"

definition make_action :: "(string \<Rightarrow> string) \<Rightarrow> chain_bundle \<Rightarrow> event \<Rightarrow> string \<Rightarrow> chain_binding \<Rightarrow> chain_kind \<Rightarrow>
    book \<Rightarrow> string \<Rightarrow> int \<Rightarrow> string list \<Rightarrow> string list \<Rightarrow> string list \<Rightarrow> string option \<Rightarrow> chain_action result" where
  "make_action sha256 bu e claim b kind k component amount sources links inputs target =
     (let sources = sorted_set sources; links = sorted_set links; inputs = sorted_set inputs in
      rbind (action_identity sha256 e claim b component links) (\<lambda>(effect, ident).
      rbind (obligation_identity sha256 bu e b k) (\<lambda>obligation.
      rbind (money_new (bu_currency bu) (bu_scale bu) amount) (\<lambda>m.
      Inr \<lparr>ca_id = ident, ca_effect_id = effect, ca_obligation_id = obligation, ca_binding = b, ca_kind = kind,
        ca_book = k, ca_component = component, ca_amount = m, ca_sources = sources, ca_links = links,
        ca_inputs = inputs, ca_reverses = None, ca_allocation_parent = None, ca_allocation_recipient = None,
        ca_discount_target = target\<rparr>))))"

section \<open>One rule\<close>

text \<open>
  The state of the loop over the rules: the output so far, and for every policy and component the
  booked amount, the sum of its reductions and the actions that reduced it.
\<close>

record rule_state =
  rs_actions :: "chain_action list"
  rs_explanations :: "chain_explanation list"
  rs_closed :: "string option"
  rs_booked :: "slot \<Rightarrow> int option"
  rs_adjustments :: "slot \<Rightarrow> int option"
  rs_net_inputs :: "slot \<Rightarrow> string list option"

text \<open>What an operation comes to, before rounding; or the explanation of a skipped observation.\<close>

record priced =
  pr_step :: chain_explanation
  pr_kind :: chain_kind
  pr_unrounded :: ratio
  pr_override :: "int option"
  pr_basis :: "(slot \<times> int) option"
  pr_discount_target :: "string option"
  pr_share_basis :: "int option"
  pr_closed :: "string option"

datatype operation_outcome = Skipped chain_explanation | Priced priced

definition adjustment :: "rule_state \<Rightarrow> slot \<Rightarrow> int" where
  "adjustment st target = (case rs_adjustments st target of None \<Rightarrow> 0 | Some n \<Rightarrow> n)"

definition net_inputs_of :: "rule_state \<Rightarrow> slot \<Rightarrow> string list" where
  "net_inputs_of st target = (case rs_net_inputs st target of None \<Rightarrow> [] | Some xs \<Rightarrow> xs)"

definition booked_at :: "rule_state \<Rightarrow> slot \<Rightarrow> int result" where
  "booked_at st target = ok_or (rs_booked st target) (Error ''POLICY_MISSING_BASIS'' (snd target))"

definition price_operation :: "chain_bundle \<Rightarrow> chain_input \<Rightarrow> nat \<Rightarrow> chain_binding \<Rightarrow> price \<Rightarrow> bool \<Rightarrow>
    rule_state \<Rightarrow> chain_explanation \<Rightarrow> operation_outcome result" where
  "price_operation bu input pn b price premium st s =
     rbind (price_value price (bu_scale bu) (ip_event input) pn (rs_booked st) (rs_actions st)
        (s\<lparr>xp_code := if premium then ''PREMIUM_APPLIED'' else ''BASE_APPLIED''\<rparr>)) (\<lambda>(amount, s).
     Inr (Priced \<lparr>pr_step = s,
       pr_kind = (if premium then KPremium else if cb_book b = Retail then KCharge else KCost),
       pr_unrounded = amount, pr_override = None, pr_basis = None, pr_discount_target = None,
       pr_share_basis = None, pr_closed = None\<rparr>))"

definition discount_operation :: "chain_bundle \<Rightarrow> nat \<Rightarrow> chain_binding \<Rightarrow> discount_amount \<Rightarrow> string \<Rightarrow> discount_mode \<Rightarrow>
    rule_state \<Rightarrow> chain_explanation \<Rightarrow> operation_outcome result" where
  "discount_operation bu pn b amount component mode st s =
     (let target = (pn, component) in
      rbind (booked_at st target) (\<lambda>base.
      rbind (add_atoms base (adjustment st target)) (\<lambda>net.
      let basis = (if mode = Sequential then net else base);
          original = find (\<lambda>a. cb_id (ca_binding a) = cb_id b \<and> ca_component a = component) (rs_actions st);
          inputs = xp_inputs s @ map ca_id (case original of None \<Rightarrow> [] | Some a \<Rightarrow> [a])
            @ (if mode = Sequential then net_inputs_of st target else []) in
      rbind (discount_value amount (bu_scale bu) basis) (\<lambda>unrounded.
      Inr (Priced \<lparr>pr_step = s\<lparr>xp_inputs := inputs, xp_basis := Some (ratio_integer basis), xp_code := ''DISCOUNT_APPLIED''\<rparr>,
        pr_kind = KDiscount, pr_unrounded = unrounded, pr_override = None, pr_basis = Some (target, net),
        pr_discount_target = map_option ca_id original, pr_share_basis = None, pr_closed = None\<rparr>)))))"

definition cap_operation :: "chain_bundle \<Rightarrow> chain_input \<Rightarrow> nat \<Rightarrow> chain_binding \<Rightarrow> decimal \<Rightarrow> string \<Rightarrow> string \<Rightarrow>
    rule_state \<Rightarrow> chain_explanation \<Rightarrow> operation_outcome result" where
  "cap_operation bu input pn b top_limit stage component st s =
     (let target = (pn, component) in
      rbind (stage_prior bu input stage) (\<lambda>(prior, refs).
      rbind (booked_at st target) (\<lambda>base.
      rbind (add_atoms base (adjustment st target)) (\<lambda>current.
      rbind (atoms_exact top_limit (bu_scale bu)) (\<lambda>cap.
      rbind (ensure (cap \<ge> prior \<and> current \<ge> 0) (Error ''CAP_BELOW_BOOKED'' ''cap cannot cancel prior obligations'')) (\<lambda>_.
      rbind (add_atoms prior current) (\<lambda>total.
      rbind (if total > cap then rbind (trap_i128 (total - cap)) (\<lambda>n. trap_i128 (- n)) else Inr 0) (\<lambda>credit.
      rbind (trap_i128 (- credit)) (\<lambda>back.
      rbind (ensure (back \<le> current) (Error ''CAP_BELOW_BOOKED'' ''credit exceeds current component'')) (\<lambda>_.
      Inr (Priced \<lparr>pr_step = s\<lparr>xp_inputs := refs @ component_inputs (rs_actions st) (cb_id b) component
            @ net_inputs_of st target, xp_basis := Some (ratio_integer current),
            xp_code := if credit = 0 then ''CAP_NOT_BINDING'' else ''CAP_APPLIED''\<rparr>,
        pr_kind = KCredit, pr_unrounded = ratio_integer credit, pr_override = None, pr_basis = Some (target, current),
        pr_discount_target = None, pr_share_basis = None, pr_closed = Some stage\<rparr>)))))))))))"

definition share_operation :: "chain_bundle \<Rightarrow> decimal \<Rightarrow> decimal \<Rightarrow> string \<Rightarrow>
    rule_state \<Rightarrow> chain_explanation \<Rightarrow> operation_outcome result" where
  "share_operation bu pct top_limit component st s =
     (let target = (0, component) in
      rbind (booked_at st target) (\<lambda>base.
      rbind (add_atoms base (adjustment st target)) (\<lambda>basis.
      rbind (ensure (basis \<ge> 0) (Error ''NEGATIVE_BASIS'' ''share'')) (\<lambda>_.
      rbind (percent pct) (\<lambda>p.
      rbind (ratio_mul (ratio_integer basis) p) (\<lambda>unrounded.
      rbind (round_atoms unrounded) (\<lambda>raw.
      rbind (atoms_exact top_limit (bu_scale bu)) (\<lambda>top.
      rbind (retail_of bu) (\<lambda>retail.
      let limited = min raw top in
      Inr (Priced \<lparr>pr_step = s\<lparr>xp_code := if limited < raw then ''SHARE_CEILING'' else ''SHARE_APPLIED'',
          xp_basis := Some (ratio_integer basis),
          xp_inputs := component_inputs (rs_actions st) (cb_id (ch_binding retail)) component @ net_inputs_of st target\<rparr>,
        pr_kind = KShare, pr_unrounded = unrounded, pr_override = Some limited, pr_basis = None,
        pr_discount_target = None, pr_share_basis = Some basis, pr_closed = None\<rparr>))))))))))"

definition cost_operation :: "chain_bundle \<Rightarrow> chain_input \<Rightarrow> chain_binding \<Rightarrow> chain_explanation \<Rightarrow> operation_outcome result" where
  "cost_operation bu input b s =
     (if pc_funding (ip_context input) = Byok then Inr (Skipped (s\<lparr>xp_code := ''BYOK_NO_HOST_COST''\<rparr>))
      else case find (\<lambda>c. ce_binding_id c = cb_id b \<and> ce_event_id c = event_ident (ip_event input)) (ip_costs input) of
        None \<Rightarrow> Inr (Skipped (s\<lparr>xp_code := ''COST_UNKNOWN''\<rparr>))
      | Some cost \<Rightarrow>
          rbind (prefixed (ce_document cost) ''doc_'') (\<lambda>_.
          rbind (ensure (currency (ce_amount cost) = bu_currency bu \<and> mscale (ce_amount cost) = bu_scale bu
              \<and> atoms (ce_amount cost) \<ge> 0) (Error ''COST_EVIDENCE'' ''retained known cost currency/amount'')) (\<lambda>_.
          Inr (Priced \<lparr>pr_step = s\<lparr>xp_inputs := xp_inputs s @ [ce_document cost], xp_code := ''COST_OBSERVED''\<rparr>,
            pr_kind = KCost, pr_unrounded = ratio_integer (atoms (ce_amount cost)), pr_override = None,
            pr_basis = None, pr_discount_target = None, pr_share_basis = None, pr_closed = None\<rparr>))))"

definition chain_operation_value :: "chain_bundle \<Rightarrow> chain_input \<Rightarrow> nat \<Rightarrow> chain_binding \<Rightarrow> chain_rule \<Rightarrow>
    rule_state \<Rightarrow> chain_explanation \<Rightarrow> operation_outcome result" where
  "chain_operation_value bu input pn b rule st s =
     (case cr_operation rule of
        BaseOp price \<Rightarrow> price_operation bu input pn b price False st s
      | PremiumOp price \<Rightarrow> price_operation bu input pn b price True st s
      | DiscountOp amount component mode \<Rightarrow> discount_operation bu pn b amount component mode st s
      | LinkedDiscountOp _ _ \<Rightarrow> Inl (Error ''OUTCOME_TARGET_REQUIRED'' ''use frozen-target outcome families'')
      | CapOp top_limit stage component \<Rightarrow> cap_operation bu input pn b top_limit stage component st s
      | ShareOp pct top_limit component \<Rightarrow> share_operation bu pct top_limit component st s
      | ObserveCostOp \<Rightarrow> cost_operation bu input b s)"

text \<open>
  The reduction of a basis: the component's net may not go below zero; a nonzero reduction is an
  input of later sequential ones. The action's identity is computed here a first time.
\<close>

definition reduce_basis :: "(string \<Rightarrow> string) \<Rightarrow> event \<Rightarrow> string \<Rightarrow> chain_binding \<Rightarrow> string \<Rightarrow> string list \<Rightarrow>
    int \<Rightarrow> (slot \<times> int) option \<Rightarrow> rule_state \<Rightarrow> rule_state result" where
  "reduce_basis sha256 e claim b component links amount basis st =
     (case basis of
        None \<Rightarrow> Inr st
      | Some (target, net) \<Rightarrow>
          rbind (add_atoms net amount) (\<lambda>rest.
          rbind (ensure (rest \<ge> 0) (Error ''DISCOUNT_EXCEEDS_BASIS'' ''combined component reductions'')) (\<lambda>_.
          rbind (add_atoms (adjustment st target) amount) (\<lambda>v.
          let st = st\<lparr>rs_adjustments := (rs_adjustments st)(target \<mapsto> v)\<rparr> in
          if amount = 0 then Inr st
          else rbind (action_identity sha256 e claim b component links) (\<lambda>(_, ident).
            Inr (st\<lparr>rs_net_inputs := (rs_net_inputs st)(target \<mapsto> net_inputs_of st target @ [ident])\<rparr>))))))"

definition starts_ac :: "string \<Rightarrow> bool" where "starts_ac s \<longleftrightarrow> take 3 s = ''ac_''"

text \<open>The sources of the retained actions that are inputs, in the order of the inputs.\<close>

definition input_sources :: "evaluation list \<Rightarrow> string list \<Rightarrow> string list" where
  "input_sources history inputs = concat (map (\<lambda>ident.
     case find (\<lambda>a. ca_id a = ident) (concat (map va_actions history)) of
       None \<Rightarrow> [] | Some a \<Rightarrow> ca_sources a) inputs)"

text \<open>The two views of a share: what the supplier and what the host keeps of the basis.\<close>

definition allocation_action :: "(string \<Rightarrow> string) \<Rightarrow> chain_bundle \<Rightarrow> event \<Rightarrow> string \<Rightarrow> chain_binding \<Rightarrow> string \<Rightarrow>
    chain_action \<Rightarrow> bool \<times> int \<Rightarrow> chain_action list \<Rightarrow> chain_action list result" where
  "allocation_action sha256 bu e claim b component share part acc =
     (case part of (supplier, amount) \<Rightarrow>
       if amount = 0 then Inr acc
       else
         rbind (make_action sha256 bu e claim b KAllocation Allocation
            (component @ ''.'' @ (if supplier then ''supplier'' else ''host'')) amount (ca_sources share)
            (ca_links share) (ca_inputs share) None) (\<lambda>a.
         rbind (if supplier then Inr (ro_recipient (cb_roles b))
            else rbind (retail_of bu) (\<lambda>retail. Inr (ro_recipient (cb_roles (ch_binding retail))))) (\<lambda>recipient.
         Inr (acc @ [a\<lparr>ca_allocation_recipient := Some recipient, ca_allocation_parent := Some (ca_id share),
           ca_inputs := sorted_set (ca_inputs a @ [ca_id share])\<rparr>]))))"

definition allocation_actions :: "(string \<Rightarrow> string) \<Rightarrow> chain_bundle \<Rightarrow> event \<Rightarrow> string \<Rightarrow> chain_binding \<Rightarrow> string \<Rightarrow>
    chain_action \<Rightarrow> int \<Rightarrow> int option \<Rightarrow> chain_action list result" where
  "allocation_actions sha256 bu e claim b component share amount share_basis =
     (case share_basis of
        None \<Rightarrow> Inr []
      | Some basis \<Rightarrow>
          if \<not> cb_allocation_view b then Inr []
          else rbind (trap_i128 (basis - amount)) (\<lambda>host.
            rfold (allocation_action sha256 bu e claim b component share) [(True, amount), (False, host)] []))"

text \<open>The actions of a rule: its own, and the views of its share.\<close>

definition rule_actions :: "(string \<Rightarrow> string) \<Rightarrow> chain_bundle \<Rightarrow> event \<Rightarrow> string \<Rightarrow> chain_binding \<Rightarrow> string \<Rightarrow>
    priced \<Rightarrow> int \<Rightarrow> string list \<Rightarrow> string list \<Rightarrow> string list \<Rightarrow> chain_action list result" where
  "rule_actions sha256 bu e claim b component p amount sources links inputs =
     (if amount = 0 then Inr []
      else
        rbind (make_action sha256 bu e claim b (pr_kind p) (cb_book b) component amount sources links
           (filter starts_ac inputs) (pr_discount_target p)) (\<lambda>a.
        rbind (allocation_actions sha256 bu e claim b component a amount (pr_share_basis p)) (\<lambda>views.
        Inr (a # views))))"

definition zero_code :: "int \<Rightarrow> string \<Rightarrow> string" where
  "zero_code amount code = (if amount = 0 \<and> code \<noteq> ''CAP_NOT_BINDING'' then ''ZERO_ROUNDED'' else code)"

definition apply_priced :: "(string \<Rightarrow> string) \<Rightarrow> chain_bundle \<Rightarrow> chain_input \<Rightarrow> string \<Rightarrow> slot \<Rightarrow> chain_binding \<Rightarrow>
    string list \<Rightarrow> string list \<Rightarrow> priced \<Rightarrow> rule_state \<Rightarrow> rule_state result" where
  "apply_priced sha256 bu input claim key b sources links p st =
     (let e = ip_event input; component = snd key in
      rbind (round_atoms (pr_unrounded p)) (\<lambda>rounded.
      let amount = (case pr_override p of None \<Rightarrow> rounded | Some n \<Rightarrow> n) in
      rbind (reduce_basis sha256 e claim b component links amount (pr_basis p) st) (\<lambda>st.
      let inputs = sorted_set (xp_inputs (pr_step p));
          sources = sources @ input_sources (ip_history input) inputs in
      rbind (rule_actions sha256 bu e claim b component p amount sources links inputs) (\<lambda>actions.
      Inr (st\<lparr>rs_booked := (rs_booked st)(key \<mapsto> amount),
        rs_closed := (case pr_closed p of None \<Rightarrow> rs_closed st | Some stage \<Rightarrow> Some stage),
        rs_actions := rs_actions st @ actions,
        rs_explanations := rs_explanations st @ [(pr_step p)\<lparr>xp_inputs := inputs,
          xp_code := zero_code amount (xp_code (pr_step p)), xp_unrounded := Some (pr_unrounded p),
          xp_rounded := Some amount, xp_action_ids := map ca_id actions\<rparr>]\<rparr>)))))"

definition blank_step :: "chain_binding \<Rightarrow> string option \<Rightarrow> string \<Rightarrow> chain_explanation" where
  "blank_step b rule_id code = \<lparr>xp_binding_id = cb_id b, xp_rule_id = rule_id, xp_code = code, xp_basis = None,
     xp_unrounded = None, xp_rounded = None, xp_inputs = [], xp_action_ids = []\<rparr>"

definition explain_step :: "chain_explanation \<Rightarrow> rule_state \<Rightarrow> rule_state" where
  "explain_step s st = st\<lparr>rs_explanations := rs_explanations st @ [s]\<rparr>"

definition match_sources :: "event \<Rightarrow> chain_match option \<Rightarrow> string list" where
  "match_sources e matched = event_ident e # (case matched of None \<Rightarrow> [] | Some m \<Rightarrow> mt_sources m)"

definition match_links :: "chain_match option \<Rightarrow> string list" where
  "match_links matched = (case matched of None \<Rightarrow> [] | Some m \<Rightarrow> mt_links m)"

text \<open>The body of the loop for a rule on the event's kind; its slot exists from here on.\<close>

definition applicable_rule :: "(string \<Rightarrow> string) \<Rightarrow> chain_bundle \<Rightarrow> chain_input \<Rightarrow> string \<Rightarrow> nat \<Rightarrow>
    chain_binding \<Rightarrow> chain_rule \<Rightarrow> rule_state \<Rightarrow> rule_state result" where
  "applicable_rule sha256 bu input claim pn b rule st =
     (let e = ip_event input; key = (pn, cr_component rule);
          st = st\<lparr>rs_booked := (rs_booked st)(key \<mapsto> 0)\<rparr>;
          s = blank_step b (Some (cr_id rule)) ''PREDICATE_FALSE'' in
      if \<not> predicate_all rule input then Inr (explain_step s st)
      else
        rbind (match_rule sha256 e (cr_matcher rule) (ip_history input)) (\<lambda>matched.
        if cr_matcher rule \<noteq> None \<and> matched = None
        then rbind (ensure (event_kind_of e \<noteq> Acquired \<or> cb_book b \<noteq> Supplier)
            (Error ''SUPPLIER_TARGET_PATH'' ''supplier outcome requires its declared completion link path'')) (\<lambda>_.
          Inr (explain_step (s\<lparr>xp_code := ''NO_MATCH''\<rparr>) st))
        else
          rbind (validate_binding b input (map_option mt_target matched)) (\<lambda>_.
          rbind (chain_operation_value bu input pn b rule st s) (\<lambda>out.
          case out of
            Skipped s \<Rightarrow> Inr (explain_step s st)
          | Priced p \<Rightarrow> apply_priced sha256 bu input claim key b (match_sources e matched) (match_links matched) p st))))"

definition evaluate_rule :: "(string \<Rightarrow> string) \<Rightarrow> chain_bundle \<Rightarrow> chain_input \<Rightarrow> string \<Rightarrow> nat \<times> nat \<Rightarrow>
    rule_state \<Rightarrow> rule_state result" where
  "evaluate_rule sha256 bu input claim place st =
     (case place of (pn, ri) \<Rightarrow>
       rbind (index (bu_policies bu) pn) (\<lambda>p.
       rbind (index (ch_rules p) ri) (\<lambda>rule.
       if cr_on rule \<noteq> event_kind_of (ip_event input) then Inr st
       else applicable_rule sha256 bu input claim pn (ch_binding p) rule st)))"

section \<open>Obligations and consumptions\<close>

definition delta_of :: "chain_action \<Rightarrow> chain_obligation" where
  "delta_of a = \<lparr>od_obligation_id = ca_obligation_id a, od_book = ca_book a, od_roles = cb_roles (ca_binding a),
     od_amount = ca_amount a, od_actions = [ca_id a]\<rparr>"

definition group_action :: "chain_action \<Rightarrow> (string, chain_obligation) omap \<Rightarrow> (string, chain_obligation) omap result" where
  "group_action a groups =
     (if ca_book a \<notin> {Retail, Supplier} then Inr groups
      else case map_of groups (ca_obligation_id a) of
        None \<Rightarrow> Inr (om_insert (ca_obligation_id a) (delta_of a) groups)
      | Some g \<Rightarrow> rbind (money_checked_add (od_amount g) (ca_amount a)) (\<lambda>sum.
          Inr (om_insert (ca_obligation_id a)
            (g\<lparr>od_amount := sum, od_actions := od_actions g @ [ca_id a]\<rparr>) groups)))"

definition chain_deltas :: "chain_action list \<Rightarrow> chain_obligation list result" where
  "chain_deltas actions =
     rbind (rfold group_action actions []) (\<lambda>groups.
     rbind (ensure (length groups \<le> 32) (Error ''LIMIT'' ''obligation deltas'')) (\<lambda>_.
     Inr (map (\<lambda>g. g\<lparr>od_actions := sort (od_actions g)\<rparr>)
       (filter (\<lambda>g. atoms (od_amount g) \<noteq> 0) (map snd groups)))))"

text \<open>The invocation a supplier's rules agree on, if any of them matched.\<close>

definition choose_invocation :: "(string \<Rightarrow> string) \<Rightarrow> chain_input \<Rightarrow> chain_binding \<Rightarrow> chain_rule \<Rightarrow>
    string option \<Rightarrow> string option result" where
  "choose_invocation sha256 input b r chosen =
     rbind (match_rule sha256 (ip_event input) (cr_matcher r) (ip_history input)) (\<lambda>matched.
     if cr_matcher r \<noteq> None \<and> matched = None \<and> ev_status (e_dto (ip_event input)) \<noteq> Some Failed then Inr chosen
     else rbind (find_invocation b input (map_option mt_target matched)) (\<lambda>i.
       rbind (case chosen of None \<Rightarrow> Inr ()
         | Some previous \<Rightarrow> ensure (previous = iv_id i)
             (Error ''INVOCATION_CONFLICT'' ''one invocation per supplier decision'')) (\<lambda>_.
       Inr (Some (iv_id i)))))"

definition relevant_rules :: "chain_policy \<Rightarrow> chain_input \<Rightarrow> chain_rule list" where
  "relevant_rules p input = filter (\<lambda>r. cr_on r = event_kind_of (ip_event input)
     \<and> (ev_status (e_dto (ip_event input)) = Some Failed \<or> predicate_all r input)) (ch_rules p)"

definition total_atoms :: "(chain_action \<Rightarrow> bool) \<Rightarrow> chain_action list \<Rightarrow> int result" where
  "total_atoms keep actions = rfold (\<lambda>a total. add_atoms total (atoms (ca_amount a))) (filter keep actions) 0"

definition closes :: "chain_policy \<Rightarrow> chain_input \<Rightarrow> bool" where
  "closes p input \<longleftrightarrow> event_kind_of (ip_event input) = Acquired
     \<or> ev_status (e_dto (ip_event input)) = Some Failed
     \<or> \<not> list_ex (\<lambda>r. cr_on r = Acquired) (ch_rules p)"

definition policy_consumption :: "(string \<Rightarrow> string) \<Rightarrow> chain_bundle \<Rightarrow> chain_input \<Rightarrow> chain_action list \<Rightarrow>
    chain_policy \<Rightarrow> consumption list \<Rightarrow> consumption list result" where
  "policy_consumption sha256 bu input actions p acc =
     (let b = ch_binding p in
      if cb_book b \<noteq> Supplier \<or> relevant_rules p input = [] then Inr acc
      else
        rbind (rfold (choose_invocation sha256 input b) (relevant_rules p input) None) (\<lambda>chosen.
        case chosen of
          None \<Rightarrow> Inr acc
        | Some ident \<Rightarrow>
            rbind (ok_or (find (\<lambda>i. iv_id i = ident) (ip_invocations input)) Panic) (\<lambda>i.
            rbind (total_atoms (\<lambda>a. cb_id (ca_binding a) = cb_id b \<and> ca_book a = Supplier) actions) (\<lambda>consume.
            rbind (ensure (consume \<ge> 0 \<and> consume \<le> atoms (iv_held i))
              (Error ''EXPOSURE_EXCEEDED'' ''supplier decision exceeds held authorization'')) (\<lambda>_.
            rbind (money_new (bu_currency bu) (bu_scale bu) consume) (\<lambda>consumed.
            rbind (if closes p input then trap_i128 (atoms (iv_held i) - consume) else Inr 0) (\<lambda>rest.
            rbind (money_new (bu_currency bu) (bu_scale bu) rest) (\<lambda>released.
            Inr (acc @ [\<lparr>cn_invocation_id = iv_id i, cn_consume = consumed, cn_release = released\<rparr>])))))))))"

definition chain_consumptions :: "(string \<Rightarrow> string) \<Rightarrow> chain_bundle \<Rightarrow> chain_input \<Rightarrow> chain_action list \<Rightarrow> consumption list result" where
  "chain_consumptions sha256 bu input actions =
     rbind (rfold (policy_consumption sha256 bu input actions) (bu_policies bu) []) (\<lambda>out.
     Inr (sort_key cn_invocation_id out))"

section \<open>Evaluation\<close>

definition check_correction :: "evaluation list \<Rightarrow> string \<Rightarrow> unit result" where
  "check_correction history ident =
     rbind (ok_or (find (\<lambda>d. event_ident (va_event d) = ident) history)
       (Error ''WAITING_DEPENDENCIES'' ''correction target'')) (\<lambda>original.
     ensure (va_actions original \<noteq> [] \<and> list_all (\<lambda>a. is_reversed (ca_id a) history) (va_actions original))
       (Error ''CORRECTION_REQUIRED'' ''replacement requires full original reversal''))"

text \<open>Everything checked before any rule; the result is the semantic claim.\<close>

definition check_input :: "(string \<Rightarrow> string) \<Rightarrow> chain_bundle \<Rightarrow> chain_input \<Rightarrow> string result" where
  "check_input sha256 bu input =
     (let e = ip_event input in
      rbind (ensure (is_work (event_kind_of e) \<or> event_kind_of e = Acquired)
        (Error ''UNSUPPORTED_SLICE'' ''use reverse for reversal; late assertions require later records'')) (\<lambda>_.
      rbind (validate_authority e (ip_source_authority input)) (\<lambda>_.
      rbind (validate_history e (ip_history input)) (\<lambda>_.
      rbind (validate_context bu input) (\<lambda>_.
      rbind (validate_links e (ip_history input)) (\<lambda>_.
      rbind (opt_check (\<lambda>ident. ensure (list_ex (\<lambda>p. cb_id (ch_binding p) = ident) (bu_policies bu))
         (Error ''TERMS_NOT_ACCEPTED'' ''explicit binding outside pinned set'')) (ev_binding_id (e_dto e))) (\<lambda>_.
      rbind (opt_check (check_correction (ip_history input)) (ev_corrects (e_dto e))) (\<lambda>_.
      rbind (retail_of bu) (\<lambda>retail.
      rbind (ensure (event_kind_of e \<in> set (cb_event_types (ch_binding retail)))
        (Error ''TERMS_NOT_ACCEPTED'' ''retail event scope'')) (\<lambda>_.
      rbind (validate_binding (ch_binding retail) input None) (\<lambda>_.
      rbind (chain_claim_id sha256 e) (\<lambda>claim.
      rbind (ensure (\<not> list_ex (\<lambda>d. va_claim_id d = Some claim) (ip_history input))
        (Error ''CLAIM_CONFLICT'' ''coordinator must resolve existing semantic claim before evaluating'')) (\<lambda>_.
      rbind (ensure (length (ip_invocations input) \<le> 16 \<and> length (ip_costs input) \<le> 16)
        (Error ''LIMIT'' ''resolved authorities'')) (\<lambda>_.
      rbind (ensure (distinct (map iv_id (ip_invocations input)))
        (Error ''INVOCATION_CONFLICT'' ''duplicate invocation'')) (\<lambda>_.
      rbind (ensure (distinct (map (\<lambda>c. (ce_binding_id c, ce_event_id c)) (ip_costs input)))
        (Error ''COST_EVIDENCE'' ''ambiguous cost'')) (\<lambda>_.
      Inr claim))))))))))))))))"

definition decision_with :: "chain_bundle \<Rightarrow> chain_input \<Rightarrow> string \<Rightarrow> rule_state \<Rightarrow> evaluation" where
  "decision_with bu input claim st =
     \<lparr>va_event = ip_event input, va_bundle = bu, va_context = ip_context input, va_claim_id = Some claim,
      va_actions = rs_actions st, va_explanations = rs_explanations st, va_deltas = [], va_consumptions = [],
      va_invocations = ip_invocations input, va_closed_stage = rs_closed st,
      va_received_at = Some (ip_received_at input), va_source_authority = ip_source_authority input,
      va_costs = ip_costs input\<rparr>"

definition empty_state :: rule_state where
  "empty_state = \<lparr>rs_actions = [], rs_explanations = [], rs_closed = None, rs_booked = Map.empty,
     rs_adjustments = Map.empty, rs_net_inputs = Map.empty\<rparr>"

text \<open>Failed work books nothing, but must be inside its scope and may release a reservation.\<close>

definition evaluate_failed :: "(string \<Rightarrow> string) \<Rightarrow> chain_bundle \<Rightarrow> chain_input \<Rightarrow> string \<Rightarrow> evaluation result" where
  "evaluate_failed sha256 bu input claim =
     rbind (rfold (\<lambda>p _. if list_ex (\<lambda>r. cr_on r = event_kind_of (ip_event input)) (ch_rules p)
        then validate_binding (ch_binding p) input None else Inr ()) (bu_policies bu) ()) (\<lambda>_.
     rbind (retail_of bu) (\<lambda>retail.
     let d = decision_with bu input claim
       (explain_step (blank_step (ch_binding retail) None ''FAILED_WORK'') empty_state) in
     rbind (chain_consumptions sha256 bu input (va_actions d)) (\<lambda>out.
     Inr (d\<lparr>va_consumptions := out\<rparr>))))"

definition check_exposure :: "chain_action list \<Rightarrow> chain_policy \<Rightarrow> unit result" where
  "check_exposure actions p =
     opt_check (\<lambda>m.
       rbind (total_atoms (\<lambda>a. cb_id (ca_binding a) = cb_id (ch_binding p) \<and> ca_book a \<noteq> Allocation) actions) (\<lambda>total.
       ensure (total \<le> atoms m) (Error ''EXPOSURE_EXCEEDED'' ''binding decision limit'')))
       (cb_maximum_exposure (ch_binding p))"

definition evaluate_rules :: "(string \<Rightarrow> string) \<Rightarrow> chain_bundle \<Rightarrow> chain_input \<Rightarrow> string \<Rightarrow> rule_state result" where
  "evaluate_rules sha256 bu input claim = rfold (evaluate_rule sha256 bu input claim) (bu_order bu) empty_state"

definition bundle_evaluate :: "(string \<Rightarrow> string) \<Rightarrow> chain_bundle \<Rightarrow> chain_input \<Rightarrow> evaluation result" where
  "bundle_evaluate sha256 bu input =
     rbind (check_input sha256 bu input) (\<lambda>claim.
     if ev_status (e_dto (ip_event input)) = Some Failed then evaluate_failed sha256 bu input claim
     else
       rbind (evaluate_rules sha256 bu input claim) (\<lambda>st.
       rbind (ensure (length (rs_actions st) \<le> 128 \<and> length (rs_explanations st) \<le> 256)
         (Error ''LIMIT'' ''decision size'')) (\<lambda>_.
       rbind (rfold (\<lambda>p _. check_exposure (rs_actions st) p) (bu_policies bu) ()) (\<lambda>_.
       rbind (chain_deltas (rs_actions st)) (\<lambda>deltas.
       rbind (chain_consumptions sha256 bu input (rs_actions st)) (\<lambda>out.
       Inr ((decision_with bu input claim st)\<lparr>va_deltas := deltas, va_consumptions := out\<rparr>)))))))"

section \<open>Reversal\<close>

text \<open>
  \<^verbatim>\<open>policy/chaining/reversal.rs\<close>: the exact reversal of whole decisions, from what was booked.
\<close>

definition check_target_action :: "event \<Rightarrow> evaluation list \<Rightarrow> chain_action \<Rightarrow> string set \<Rightarrow> string set result" where
  "check_target_action e history a ids =
     rbind (ensure (\<not> is_reversed (ca_id a) history) (Error ''ALREADY_REVERSED'' ''original action'')) (\<lambda>_.
     rbind (ensure (event_source e \<in> set (cb_correction_sources (ca_binding a)))
       (Error ''CORRECTION_UNAUTHORIZED'' ''original agreement correction source'')) (\<lambda>_.
     Inr (insert (ca_id a) ids)))"

definition same_pins :: "evaluation \<Rightarrow> evaluation \<Rightarrow> bool" where
  "same_pins d d' \<longleftrightarrow> va_context d = va_context d' \<and> va_bundle d = va_bundle d'"

definition check_target :: "event \<Rightarrow> evaluation list \<Rightarrow> evaluation \<Rightarrow> evaluation \<Rightarrow> string set \<Rightarrow> string set result" where
  "check_target e history first_target d ids =
     rbind (ensure (event_kind_of (va_event d) \<noteq> EconomicReversal \<and> va_actions d \<noteq> [])
       (Error ''NOTHING_TO_REVERSE'' ''original complete economics required'')) (\<lambda>_.
     rbind (ensure (same_pins d first_target) (Error ''PINNED_CONTEXT'' ''reversal chain context'')) (\<lambda>_.
     rfold (check_target_action e history) (va_actions d) ids))"

definition live_economics :: "evaluation list \<Rightarrow> evaluation \<Rightarrow> bool" where
  "live_economics history d \<longleftrightarrow> list_ex (\<lambda>a. \<not> is_reversed (ca_id a) history) (va_actions d)"

definition decision_inputs :: "evaluation \<Rightarrow> string list" where
  "decision_inputs d = concat (map ca_inputs (va_actions d)) @ concat (map xp_inputs (va_explanations d))"

definition check_dependents :: "evaluation list \<Rightarrow> string list \<Rightarrow> string set \<Rightarrow> evaluation \<Rightarrow> unit result" where
  "check_dependents history targets ids d =
     (if event_ident (va_event d) \<in> set targets \<or> event_kind_of (va_event d) = EconomicReversal then Inr ()
      else ensure (\<not> (live_economics history d \<and> list_ex (\<lambda>i. i \<in> ids) (decision_inputs d)))
        (Error ''REVERSAL_DEPENDENTS_REQUIRED'' (event_ident (va_event d))))"

definition reversal_action :: "(string \<Rightarrow> string) \<Rightarrow> event \<Rightarrow> string \<times> chain_action \<Rightarrow> chain_action result" where
  "reversal_action sha256 e original = (case original of (source, a) \<Rightarrow>
     rbind (identity sha256 DomReversalEffect (JArray [scope_json (event_scope e), JString (ca_id a)])) (\<lambda>effect.
     rbind (identity sha256 DomAction (JArray [JString effect])) (\<lambda>ident.
     rbind (trap_i128 (- atoms (ca_amount a))) (\<lambda>n.
     rbind (money_new (currency (ca_amount a)) (mscale (ca_amount a)) n) (\<lambda>m.
     Inr (a\<lparr>ca_id := ident, ca_effect_id := effect, ca_kind := KReversal, ca_amount := m,
       ca_sources := sort [event_ident e, source], ca_inputs := [ca_id a], ca_reverses := Some (ca_id a),
       ca_discount_target := None\<rparr>))))))"

definition reversal_step :: "chain_action \<Rightarrow> chain_explanation" where
  "reversal_step r = \<lparr>xp_binding_id = cb_id (ca_binding r), xp_rule_id = None, xp_code = ''EXACT_REVERSAL'',
     xp_basis = None, xp_unrounded = Some (ratio_integer (atoms (ca_amount r))),
     xp_rounded = Some (atoms (ca_amount r)), xp_inputs = ca_inputs r, xp_action_ids = [ca_id r]\<rparr>"

definition originals_of :: "evaluation list \<Rightarrow> (string \<times> chain_action) list" where
  "originals_of targets = sort_key (\<lambda>x. ca_id (snd x))
     (concat (map (\<lambda>d. map (\<lambda>a. (event_ident (va_event d), a)) (va_actions d)) targets))"

definition select_targets :: "evaluation list \<Rightarrow> string list \<Rightarrow> evaluation list result" where
  "select_targets history = rmap (\<lambda>ident. ok_or (find (\<lambda>d. event_ident (va_event d) = ident) history)
     (Error ''WAITING_DEPENDENCIES'' ''reversal target decision''))"

definition check_reversal :: "event \<Rightarrow> evaluation list \<Rightarrow> source_authority \<Rightarrow> evaluation list result" where
  "check_reversal e history authority =
     rbind (ensure (event_kind_of e = EconomicReversal) (Error ''SCHEMA'' ''reversal event'')) (\<lambda>_.
     rbind (validate_authority e authority) (\<lambda>_.
     rbind (validate_history e history) (\<lambda>_.
     rbind (ok_or (ev_targets (e_dto e)) Panic) (\<lambda>targets.
     rbind (select_targets history targets) (\<lambda>selected.
     rbind (index selected 0) (\<lambda>first_target.
     rbind (rfold (\<lambda>d _. ensure (same_pins d first_target) (Error ''PINNED_CONTEXT''
         ''complete reversal history must share the pinned chain context'')) history ()) (\<lambda>_.
     rbind (rfold (check_target e history first_target) selected {}) (\<lambda>ids.
     rbind (ensure (card ids \<le> 128) (Error ''LIMIT'' ''full reversal actions'')) (\<lambda>_.
     rbind (rfold (\<lambda>d _. check_dependents history targets ids d) history ()) (\<lambda>_.
     Inr selected))))))))))"

definition chain_reverse :: "(string \<Rightarrow> string) \<Rightarrow> event \<Rightarrow> evaluation list \<Rightarrow> source_authority \<Rightarrow> evaluation result" where
  "chain_reverse sha256 e history authority =
     rbind (check_reversal e history authority) (\<lambda>selected.
     rbind (index selected 0) (\<lambda>first_target.
     rbind (rmap (reversal_action sha256 e) (originals_of selected)) (\<lambda>actions.
     rbind (chain_deltas actions) (\<lambda>deltas.
     Inr \<lparr>va_event = e, va_bundle = va_bundle first_target, va_context = va_context first_target, va_claim_id = None,
       va_actions = actions, va_explanations = map reversal_step actions, va_deltas = deltas, va_consumptions = [],
       va_invocations = [], va_closed_stage = None, va_received_at = None, va_source_authority = authority,
       va_costs = []\<rparr>))))"

end
