(* ===== verification/Chain_Links.thy ===== *)
theory Chain_Links
  imports Chain_Evaluation Assembly_Safe
begin

text \<open>
  The links of a chain: the walk over the predecessors of an event decides whether every chain of
  predecessors ends within sixteen hops.
\<close>

section \<open>Chains of predecessors\<close>

definition predecessor :: "evaluation list \<Rightarrow> (event \<times> event) set" where
  "predecessor history = {(e, e'). \<exists>l \<in> set (links_of (e_dto e)). \<exists>d. link_target history l = Some d \<and> e' = va_event d}"

definition resolved_links :: "evaluation list \<Rightarrow> event \<Rightarrow> bool" where
  "resolved_links history e \<longleftrightarrow> (\<forall>l \<in> set (links_of (e_dto e)). link_target history l \<noteq> None)"

text \<open>Every chain from an event has at most so many hops, and no link on it dangles.\<close>

definition bounded_from :: "evaluation list \<Rightarrow> nat \<Rightarrow> event \<Rightarrow> bool" where
  "bounded_from history k e \<longleftrightarrow> (\<forall>n e'. (e, e') \<in> predecessor history ^^ n \<longrightarrow> n \<le> k \<and> resolved_links history e')"

lemma bounded_from_mono: "bounded_from history k e \<Longrightarrow> k \<le> m \<Longrightarrow> bounded_from history m e"
  by (force simp: bounded_from_def)

lemma bounded_from_children:
  "bounded_from history k e \<longleftrightarrow> resolved_links history e
     \<and> (\<forall>e'. (e, e') \<in> predecessor history \<longrightarrow> 0 < k \<and> bounded_from history (k - 1) e')"
proof
  assume left: "bounded_from history k e"
  have "resolved_links history e" using left unfolding bounded_from_def by (metis relpow_0_I)
  moreover have "0 < k \<and> bounded_from history (k - 1) e'" if step: "(e, e') \<in> predecessor history" for e'
  proof -
    have each: "Suc n \<le> k \<and> resolved_links history x" if "(e', x) \<in> predecessor history ^^ n" for n x
      using left relpow_Suc_I2[OF step that] by (simp only: bounded_from_def)
    have "0 < k" using each[where n = 0 and x = e'] by simp
    moreover have "bounded_from history (k - 1) e'" unfolding bounded_from_def using each by fastforce
    ultimately show ?thesis ..
  qed
  ultimately show "resolved_links history e
      \<and> (\<forall>e'. (e, e') \<in> predecessor history \<longrightarrow> 0 < k \<and> bounded_from history (k - 1) e')" by blast
next
  assume right: "resolved_links history e
      \<and> (\<forall>e'. (e, e') \<in> predecessor history \<longrightarrow> 0 < k \<and> bounded_from history (k - 1) e')"
  have "n \<le> k \<and> resolved_links history x" if "(e, x) \<in> predecessor history ^^ n" for n x
  proof (cases n)
    case 0
    then show ?thesis using that right by simp
  next
    case (Suc m)
    then have "(e, x) \<in> predecessor history ^^ Suc m" using that by simp
    then obtain e' where e': "(e, e') \<in> predecessor history" "(e', x) \<in> predecessor history ^^ m"
      by (rule relpow_Suc_E2)
    then have "0 < k" and b: "bounded_from history (k - 1) e'" using right by blast+
    from b e'(2) have "m \<le> k - 1 \<and> resolved_links history x" unfolding bounded_from_def by blast
    then show ?thesis using \<open>0 < k\<close> Suc by (cases k) auto
  qed
  then show "bounded_from history k e" by (simp add: bounded_from_def)
qed

text \<open>A bounded chain does not come back.\<close>

lemma relpow_cycle: "(e, e) \<in> R ^^ n \<Longrightarrow> (e, e) \<in> R ^^ (n * m)"
proof (induction m)
  case (Suc m)
  then have "(e, e) \<in> R ^^ n O R ^^ (n * m)" by blast
  then show ?case by (simp add: relpow_add)
qed simp

lemma bounded_acyclic:
  assumes "bounded_from history k e" and "(e, e) \<in> predecessor history ^^ n"
  shows "n = 0"
proof (rule ccontr)
  assume "n \<noteq> 0"
  have "n * Suc k \<le> k" using relpow_cycle[OF assms(2), of "Suc k"] assms(1) unfolding bounded_from_def by blast
  then show False using \<open>n \<noteq> 0\<close> by (cases n) auto
qed

section \<open>The walk\<close>

definition history_events :: "evaluation list \<Rightarrow> event set" where
  "history_events history = va_event ` set history"

definition identified :: "evaluation list \<Rightarrow> bool" where
  "identified history \<longleftrightarrow> inj_on event_ident (history_events history)"

lemma link_target_event: "link_target history l = Some d \<Longrightarrow> va_event d \<in> history_events history"
  by (auto simp: link_target_def history_events_def find_Some_iff)

lemma predecessor_event: "(e, e') \<in> predecessor history \<Longrightarrow> e' \<in> history_events history"
  by (auto simp: predecessor_def dest: link_target_event)

text \<open>What the memory of the walk means: off the path, an event seen at some hops is bounded by the rest.\<close>

definition memory_ok :: "evaluation list \<Rightarrow> string set \<Rightarrow> (string \<Rightarrow> nat option) \<Rightarrow> bool" where
  "memory_ok history path seen \<longleftrightarrow> (\<forall>e \<in> history_events history. \<forall>h. seen (event_ident e) = Some h \<longrightarrow>
     event_ident e \<notin> path \<longrightarrow> h \<le> 16 \<and> bounded_from history (16 - h) e)"

definition walked :: "evaluation list \<Rightarrow> string set \<Rightarrow> (string \<Rightarrow> nat option) \<Rightarrow> string set \<times> (string \<Rightarrow> nat option) \<Rightarrow> bool" where
  "walked history path seen st \<longleftrightarrow> fst st = path \<and> memory_ok history path (snd st) \<and> (\<forall>x \<in> path. snd st x = seen x)"

lemma rfold_each:
  assumes "rfold f xs s = Inr s'" and "I s"
    and "\<And>x t t'. x \<in> set xs \<Longrightarrow> I t \<Longrightarrow> f x t = Inr t' \<Longrightarrow> I t' \<and> Q x"
  shows "I s' \<and> (\<forall>x \<in> set xs. Q x)"
  using assms
proof (induction xs arbitrary: s)
  case (Cons x xs)
  then obtain t where t: "f x s = Inr t" "rfold f xs t = Inr s'" by (auto simp: rbind_Inr_iff)
  have "I t \<and> Q x" using Cons.prems(3)[of x s t] Cons.prems(2) t(1) by simp
  moreover have "I s' \<and> (\<forall>x \<in> set xs. Q x)"
    by (rule Cons.IH[OF t(2)]) (use \<open>I t \<and> Q x\<close> Cons.prems(3) in auto)
  ultimately show ?case by simp
qed simp

lemma depth_sound:
  assumes "depth history e hops st = Inr st'" and "identified history"
    and "e \<in> history_events history" and "memory_ok history (fst st) (snd st)"
  shows "hops \<le> 16 \<and> bounded_from history (16 - hops) e \<and> walked history (fst st) (snd st) st'"
  using assms
proof (induction history e hops st arbitrary: st' rule: depth.induct)
  case (1 history e hops st)
  let ?i = "event_ident e" and ?path = "fst st" and ?seen = "snd st"
  have low: "\<not> hops > 16" and new: "?i \<notin> ?path"
    using "1.prems"(1) by (auto simp: depth.simps[of history e hops st] split: if_splits)
  show ?case
  proof (cases "case ?seen ?i of None \<Rightarrow> False | Some previous \<Rightarrow> previous \<ge> hops")
    case True
    then obtain h where h: "?seen ?i = Some h" "hops \<le> h" by (auto split: option.split_asm)
    then have "h \<le> 16" "bounded_from history (16 - h) e"
      using "1.prems"(3,4) new by (simp_all add: memory_ok_def)
    then have "bounded_from history (16 - hops) e" using bounded_from_mono[of history "16 - h" e "16 - hops"] h(2) by simp
    moreover have "st' = st" using "1.prems"(1) low new True by (simp add: depth.simps[of history e hops st])
    ultimately show ?thesis using low "1.prems"(4) by (simp add: walked_def)
  next
    case False
    let ?path' = "insert ?i ?path" and ?seen' = "?seen(?i \<mapsto> hops)"
    let ?body = "\<lambda>l st. rbind (ok_or (link_target history l) (Error ''WAITING_DEPENDENCIES'' ''history predecessor'')) (\<lambda>p.
        depth history (va_event p) (hops + 1) st)"
    from "1.prems"(1) low new False obtain st1 where
      loop: "rfold ?body (links_of (e_dto e)) (?path', ?seen') = Inr st1"
      and st': "st' = (fst st1 - {?i}, snd st1)"
      by (auto simp: depth.simps[of history e hops st] simp del: rfold.simps)
    have start: "walked history ?path' ?seen' (?path', ?seen')"
      using "1.prems"(4) by (auto simp: walked_def memory_ok_def)
    have step: "walked history ?path' ?seen' t' \<and> (\<exists>d. link_target history l = Some d \<and> hops + 1 \<le> 16
        \<and> bounded_from history (16 - (hops + 1)) (va_event d))"
      if l: "l \<in> set (links_of (e_dto e))" and t: "walked history ?path' ?seen' t" and run: "?body l t = Inr t'" for l t t'
    proof -
      obtain d where d: "link_target history l = Some d" and rec: "depth history (va_event d) (hops + 1) t = Inr t'"
        using run by auto
      have ft: "fst t = ?path'" and mt: "memory_ok history (fst t) (snd t)" using t by (auto simp: walked_def)
      have "hops + 1 \<le> 16 \<and> bounded_from history (16 - (hops + 1)) (va_event d) \<and> walked history (fst t) (snd t) t'"
        by (rule "1.IH"[OF low new False l _ rec "1.prems"(2) link_target_event[OF d] mt]) (simp add: d)
      then show ?thesis using d t ft by (auto simp: walked_def)
    qed
    have "walked history ?path' ?seen' st1 \<and> (\<forall>l \<in> set (links_of (e_dto e)). \<exists>d. link_target history l = Some d
        \<and> hops + 1 \<le> 16 \<and> bounded_from history (16 - (hops + 1)) (va_event d))"
      by (rule rfold_each[where I = "walked history ?path' ?seen'", OF loop start]) (rule step)
    then have w: "walked history ?path' ?seen' st1"
      and kids: "\<forall>l \<in> set (links_of (e_dto e)). \<exists>d. link_target history l = Some d \<and> hops + 1 \<le> 16
        \<and> bounded_from history (16 - (hops + 1)) (va_event d)" by (rule conjunct1, rule conjunct2)
    have b: "bounded_from history (16 - hops) e"
      unfolding bounded_from_children[of history "16 - hops"]
    proof (intro conjI allI impI)
      show "resolved_links history e" using kids by (auto simp: resolved_links_def)
      fix e' assume "(e, e') \<in> predecessor history"
      then have "hops + 1 \<le> 16 \<and> bounded_from history (16 - (hops + 1)) e'"
        using kids by (fastforce simp: predecessor_def)
      then show "0 < 16 - hops" "bounded_from history (16 - hops - 1) e'" by auto
    qed
    have "memory_ok history ?path (snd st1)"
      unfolding memory_ok_def
    proof (intro ballI allI impI)
      fix x h assume x: "x \<in> history_events history" "snd st1 (event_ident x) = Some h" "event_ident x \<notin> ?path"
      show "h \<le> 16 \<and> bounded_from history (16 - h) x"
      proof (cases "event_ident x = ?i")
        case True
        then have "x = e" using "1.prems"(2,3) x(1) by (simp add: identified_def inj_on_def)
        moreover have "h = hops" using w x(2) True by (auto simp: walked_def)
        ultimately show ?thesis using b low by simp
      next
        case False
        then show ?thesis using w x by (simp add: walked_def memory_ok_def)
      qed
    qed
    moreover have "\<forall>y \<in> ?path. snd st1 y = ?seen y" using w new by (auto simp: walked_def)
    moreover have "fst st1 - {?i} = ?path" using w new by (auto simp: walked_def)
    ultimately have "walked history ?path ?seen st'" by (simp add: walked_def st')
    then show ?thesis using low b by simp
  qed
qed

lemma rfold_succeeds:
  assumes "I s" and "\<And>x t. x \<in> set xs \<Longrightarrow> I t \<Longrightarrow> \<exists>t'. f x t = Inr t' \<and> I t'"
  shows "\<exists>s'. rfold f xs s = Inr s' \<and> I s'"
  using assms
proof (induction xs arbitrary: s)
  case (Cons x xs)
  have "\<exists>t. f x s = Inr t \<and> I t" by (rule Cons.prems(2)) (use Cons.prems(1) in simp_all)
  then obtain t where t: "f x s = Inr t" "I t" by blast
  have "\<exists>s'. rfold f xs t = Inr s' \<and> I s'" by (rule Cons.IH[OF t(2)]) (use Cons.prems(2) in simp)
  then show ?case by (simp add: t(1))
qed simp

text \<open>No event on the path can be reached.\<close>

definition off_path :: "evaluation list \<Rightarrow> string set \<Rightarrow> event \<Rightarrow> bool" where
  "off_path history path e \<longleftrightarrow> (\<forall>e'. (e, e') \<in> (predecessor history)\<^sup>* \<longrightarrow> event_ident e' \<notin> path)"

lemma depth_complete:
  assumes "identified history" and "e \<in> history_events history" and "hops \<le> 16"
    and "bounded_from history (16 - hops) e" and "off_path history (fst st) e"
  shows "\<exists>st'. depth history e hops st = Inr st' \<and> fst st' = fst st"
  using assms
proof (induction history e hops st rule: depth.induct)
  case (1 history e hops st)
  let ?i = "event_ident e" and ?path = "fst st" and ?seen = "snd st"
  have low: "\<not> hops > 16" using "1.prems"(3) by simp
  have new: "?i \<notin> ?path" using "1.prems"(5) by (auto simp: off_path_def)
  show ?case
  proof (cases "case ?seen ?i of None \<Rightarrow> False | Some previous \<Rightarrow> previous \<ge> hops")
    case True
    then show ?thesis using low new by (simp add: depth.simps[of history e hops st])
  next
    case False
    let ?body = "\<lambda>l st. rbind (ok_or (link_target history l) (Error ''WAITING_DEPENDENCIES'' ''history predecessor'')) (\<lambda>p.
        depth history (va_event p) (hops + 1) st)"
    have kids: "resolved_links history e"
      "\<And>e'. (e, e') \<in> predecessor history \<Longrightarrow> 0 < 16 - hops \<and> bounded_from history (16 - hops - 1) e'"
      using "1.prems"(4) unfolding bounded_from_children[of history "16 - hops"] by blast+
    have "\<exists>st1. rfold ?body (links_of (e_dto e)) (insert ?i ?path, ?seen(?i \<mapsto> hops)) = Inr st1 \<and> fst st1 = insert ?i ?path"
    proof (rule rfold_succeeds)
      fix l and t :: "string set \<times> (string \<Rightarrow> nat option)"
      assume l: "l \<in> set (links_of (e_dto e))" and t: "fst t = insert ?i ?path"
      then obtain d where d: "link_target history l = Some d" using kids(1) by (auto simp: resolved_links_def)
      then have step: "(e, va_event d) \<in> predecessor history" using l by (auto simp: predecessor_def)
      have "off_path history (fst t) (va_event d)"
        unfolding off_path_def t
      proof (intro allI impI)
        fix x assume x: "(va_event d, x) \<in> (predecessor history)\<^sup>*"
        then have ex: "(e, x) \<in> (predecessor history)\<^sup>+" using step by simp
        have "event_ident x \<notin> ?path" using "1.prems"(5) trancl_into_rtrancl[OF ex] by (simp add: off_path_def)
        moreover have "event_ident x \<noteq> ?i"
        proof
          assume same: "event_ident x = ?i"
          obtain y where "(y, x) \<in> predecessor history" using tranclD2[OF ex] by blast
          then have "x \<in> history_events history" by (rule predecessor_event)
          then have "x = e" using same "1.prems"(1,2) by (simp add: identified_def inj_on_def)
          then obtain n where "(e, e) \<in> predecessor history ^^ n" "0 < n" using ex by (auto simp: trancl_power)
          then show False using bounded_acyclic[OF "1.prems"(4)] by blast
        qed
        ultimately show "event_ident x \<notin> insert ?i ?path" by simp
      qed
      then have "\<exists>t'. depth history (va_event d) (hops + 1) t = Inr t' \<and> fst t' = fst t"
        using "1.IH"[OF low new False l, of d t] "1.prems"(1) link_target_event[OF d] kids(2)[OF step] d by simp
      then show "\<exists>t'. ?body l t = Inr t' \<and> fst t' = insert ?i ?path" by (simp add: d t)
    qed simp
    then obtain st1 where "rfold ?body (links_of (e_dto e)) (insert ?i ?path, ?seen(?i \<mapsto> hops)) = Inr st1"
      "fst st1 = insert ?i ?path" by blast
    then show ?thesis using low new False by (simp add: depth.simps[of history e hops st])
  qed
qed

section \<open>Links of an accepted event\<close>

lemma history_identified:
  assumes "validate_history e history = Inr ()"
  shows "identified history" "e \<notin> history_events history"
proof -
  obtain h where run: "rfold (history_entry e) history
       \<lparr>hs_ids = {}, hs_claims = {}, hs_actions = {}, hs_bytes = length (e_bytes e)\<rparr> = Inr h"
    using assms by (auto simp: validate_history_def simp del: rfold.simps)
  have entry: "hs_ids h' = insert (event_ident (va_event d)) (hs_ids h1) \<and> event_ident (va_event d) \<notin> hs_ids h1
      \<and> event_ident (va_event d) \<noteq> event_ident e" if "history_entry e d h1 = Inr h'" for d h1 h'
  proof -
    have keep: "hs_ids h3 = hs_ids h2" if "rfold history_action as h2 = Inr h3" for as h2 h3
      using that by (induction as arbitrary: h2) (auto simp: history_action_def rbind_Inr_iff split: if_splits)
    from that obtain h2 where "rfold history_action (va_actions d) h2 = Inr h'"
      "hs_ids h2 = insert (event_ident (va_event d)) (hs_ids h1)" "event_ident (va_event d) \<notin> hs_ids h1"
      "event_ident (va_event d) \<noteq> event_ident e"
      by (auto simp: history_entry_def simp del: rfold.simps)
    then show ?thesis using keep[of "va_actions d" h2 h'] by simp
  qed
  have "distinct (map (\<lambda>d. event_ident (va_event d)) ds)
      \<and> (\<forall>d \<in> set ds. event_ident (va_event d) \<notin> hs_ids h1 \<and> event_ident (va_event d) \<noteq> event_ident e)"
    if "rfold (history_entry e) ds h1 = Inr h'" for ds h1 h'
    using that
  proof (induction ds arbitrary: h1)
    case (Cons d ds)
    then obtain h2 where h2: "history_entry e d h1 = Inr h2" "rfold (history_entry e) ds h2 = Inr h'"
      by (auto simp: rbind_Inr_iff)
    show ?case using entry[OF h2(1)] Cons.IH[OF h2(2)] by auto
  qed simp
  from this[OF run] show "identified history" "e \<notin> history_events history"
    by (auto simp: identified_def history_events_def distinct_map inj_on_def)
qed

text \<open>
  C9: the walk over the predecessors terminates and decides what it should. For an event whose
  history is accepted, its links are accepted exactly when each of them points to a retained event
  of an allowed kind with fewer than 128 inbound links, every chain of predecessors from the event
  ends within sixteen hops, and no link on such a chain dangles. In particular no event on the
  chains of an accepted event is its own predecessor, however the retained events are linked.
\<close>

theorem chain_links_terminate:
  assumes "validate_history e history = Inr ()"
  shows "(validate_links e history = Inr () \<longleftrightarrow>
      (\<forall>l \<in> set (links_of (e_dto e)). \<exists>d. link_target history l = Some d
         \<and> link_allowed (link_relation l) (event_kind_of (va_event d)) \<and> inbound history (link_from l) < 128)
      \<and> (\<forall>n e'. (e, e') \<in> predecessor history ^^ n \<longrightarrow> n \<le> 16
           \<and> (\<forall>l \<in> set (links_of (e_dto e')). link_target history l \<noteq> None)))
    \<and> (\<forall>e'. validate_links e history = Inr () \<and> (e, e') \<in> (predecessor history)\<^sup>*
         \<longrightarrow> (e', e') \<notin> (predecessor history)\<^sup>+)"
proof -
  note ids = history_identified[OF assms]
  let ?each = "\<lambda>l. \<exists>d. link_target history l = Some d
      \<and> link_allowed (link_relation l) (event_kind_of (va_event d)) \<and> inbound history (link_from l) < 128"
  have sound: "(\<forall>l \<in> set (links_of (e_dto e)). ?each l) \<and> bounded_from history 16 e" if ok: "validate_links e history = Inr ()"
  proof -
    obtain m where run: "rfold (validate_link history) (links_of (e_dto e)) Map.empty = Inr m"
      using ok by (auto simp: validate_links_def simp del: rfold.simps)
    have step: "memory_ok history {} seen' \<and> ?each l \<and> (\<forall>d. link_target history l = Some d \<longrightarrow> bounded_from history 15 (va_event d))"
      if "memory_ok history {} seen" and r: "validate_link history l seen = Inr seen'" for l seen seen'
    proof -
      obtain d st where d: "link_target history l = Some d" "link_allowed (link_relation l) (event_kind_of (va_event d))"
        "inbound history (link_from l) < 128" and w: "depth history (va_event d) 1 ({}, seen) = Inr st" "seen' = snd st"
        using r by (auto simp: validate_link_def)
      from depth_sound[OF w(1) ids(1) link_target_event[OF d(1)]] that(1)
      have "bounded_from history 15 (va_event d)" "memory_ok history {} (snd st)" by (auto simp: walked_def)
      then show ?thesis using d w(2) by simp
    qed
    have "memory_ok history {} m \<and> (\<forall>l \<in> set (links_of (e_dto e)). ?each l
        \<and> (\<forall>d. link_target history l = Some d \<longrightarrow> bounded_from history 15 (va_event d)))"
      by (rule rfold_each[where I = "memory_ok history {}", OF run]) (simp add: memory_ok_def, rule step)
    then have kids: "\<And>l. l \<in> set (links_of (e_dto e)) \<Longrightarrow> ?each l
        \<and> (\<forall>d. link_target history l = Some d \<longrightarrow> bounded_from history 15 (va_event d))" by blast
    have "bounded_from history 16 e"
      unfolding bounded_from_children[of history 16]
    proof (intro conjI allI impI)
      show "resolved_links history e" using kids by (fastforce simp: resolved_links_def)
      fix e' assume "(e, e') \<in> predecessor history"
      then show "bounded_from history (16 - 1) e'" using kids by (fastforce simp: predecessor_def)
    qed simp
    then show ?thesis using kids by blast
  qed
  have complete: "validate_links e history = Inr ()"
    if each: "\<forall>l \<in> set (links_of (e_dto e)). ?each l" and b: "bounded_from history 16 e"
  proof -
    have "\<exists>m. rfold (validate_link history) (links_of (e_dto e)) Map.empty = Inr m \<and> True"
    proof (rule rfold_succeeds)
      fix l and seen :: "string \<Rightarrow> nat option" assume l: "l \<in> set (links_of (e_dto e))"
      obtain d where d: "link_target history l = Some d" "link_allowed (link_relation l) (event_kind_of (va_event d))"
        "inbound history (link_from l) < 128" using each l by blast
      have "(e, va_event d) \<in> predecessor history" using l d(1) by (auto simp: predecessor_def)
      then have "bounded_from history (16 - 1) (va_event d)" using b bounded_from_children[of history 16 e] by blast
      then obtain st where "depth history (va_event d) 1 ({}, seen) = Inr st"
        using depth_complete[OF ids(1) link_target_event[OF d(1)], of 1 "({}, seen)"] by (auto simp: off_path_def)
      then show "\<exists>m. validate_link history l seen = Inr m \<and> True" using d by (simp add: validate_link_def)
    qed simp
    then show ?thesis by (auto simp: validate_links_def)
  qed
  have acyclic: "(e', e') \<notin> (predecessor history)\<^sup>+"
    if ok: "validate_links e history = Inr () \<and> (e, e') \<in> (predecessor history)\<^sup>*" for e'
  proof
    assume "(e', e') \<in> (predecessor history)\<^sup>+"
    then obtain n where n: "(e', e') \<in> predecessor history ^^ n" "0 < n" by (auto simp: trancl_power)
    obtain m where m: "(e, e') \<in> predecessor history ^^ m" using ok by (auto dest: rtrancl_imp_relpow)
    have "(e', x) \<in> predecessor history ^^ k \<Longrightarrow> k \<le> 16 \<and> resolved_links history x" for k x
    proof -
      assume "(e', x) \<in> predecessor history ^^ k"
      then have "(e, x) \<in> predecessor history ^^ (m + k)" using m by (auto simp: relpow_add)
      then show ?thesis using sound ok by (fastforce simp: bounded_from_def)
    qed
    then have "bounded_from history 16 e'" by (simp add: bounded_from_def)
    then show False using bounded_acyclic[OF _ n(1)] n(2) by simp
  qed
  have fold: "(\<forall>n e'. (e, e') \<in> predecessor history ^^ n \<longrightarrow> n \<le> 16
      \<and> (\<forall>l \<in> set (links_of (e_dto e')). link_target history l \<noteq> None)) \<longleftrightarrow> bounded_from history 16 e"
    by (simp only: bounded_from_def resolved_links_def)
  show ?thesis unfolding fold using sound complete acyclic by blast
qed

end
