(* ===== verification/Chain_Laws.thy ===== *)
theory Chain_Laws
  imports Chain_Evaluation Assembly_Safe
begin

text \<open>
  What the compiler of the chained policies establishes: every rule is in the order once, sorted,
  and what a rule reads was written by a rule before it.
\<close>

section \<open>The loops of the compiler\<close>

lemma check_rule_Inr:
  assumes "check_rule scale retail p pn (ri, rule) (ids, cs, bs) = Inr (ids', cs', bs')"
  shows "cr_component rule \<notin> cs" "cs' = insert (cr_component rule) cs" "bs_order bs' = bs_order bs @ [(pn, ri)]"
    "bs_bindings bs' = bs_bindings bs" "bs_agreements bs' = bs_agreements bs"
    "check_operation scale retail p ri rule = Inr ()" "cr_on rule \<in> set (cb_event_types (ch_binding p))"
  using assms by (auto simp: check_rule_def)

lemma check_rules_Inr:
  assumes "rfold (check_rule scale retail p pn) (enumerate k rules) (ids, cs, bs) = Inr (ids', cs', bs')"
  shows "bs_order bs' = bs_order bs @ map (Pair pn) [k..<k + length rules]
    \<and> bs_bindings bs' = bs_bindings bs \<and> bs_agreements bs' = bs_agreements bs
    \<and> cs' = cs \<union> set (map cr_component rules) \<and> distinct (map cr_component rules)
    \<and> set (map cr_component rules) \<inter> cs = {}
    \<and> (\<forall>i < length rules. check_operation scale retail p (k + i) (rules ! i) = Inr ()
         \<and> cr_on (rules ! i) \<in> set (cb_event_types (ch_binding p)))"
  using assms
proof (induction rules arbitrary: k ids cs bs)
  case (Cons rule rules)
  from Cons.prems obtain i1 c1 b1 where one: "check_rule scale retail p pn (k, rule) (ids, cs, bs) = Inr (i1, c1, b1)"
    and rest: "rfold (check_rule scale retail p pn) (enumerate (Suc k) rules) (i1, c1, b1) = Inr (ids', cs', bs')"
    by (auto simp: rbind_Inr_iff)
  note r = check_rule_Inr[OF one] and IH = Cons.IH[OF rest]
  have order: "[k..<k + length (rule # rules)] = k # [Suc k..<Suc k + length rules]"
    by (simp add: upt_rec)
  have "check_operation scale retail p (k + i) ((rule # rules) ! i) = Inr ()
      \<and> cr_on ((rule # rules) ! i) \<in> set (cb_event_types (ch_binding p))" if "i < length (rule # rules)" for i
    using that r IH by (cases i) auto
  then show ?case unfolding order using IH r by auto
qed simp

text \<open>What the checks of a policy leave behind.\<close>

definition policy_checked :: "string \<Rightarrow> nat \<Rightarrow> chain_policy \<Rightarrow> chain_policy \<Rightarrow> bool" where
  "policy_checked cur scale retail p \<longleftrightarrow>
     binding_texts (ch_binding p) = Inr () \<and> binding_limits (ch_binding p) = Inr ()
     \<and> binding_lists (ch_binding p) = Inr () \<and> binding_terms cur scale (ch_binding p) = Inr ()
     \<and> ch_rules p \<noteq> [] \<and> distinct (map cr_component (ch_rules p))
     \<and> check_reserved p (set (map cr_component (ch_rules p))) = Inr ()
     \<and> (\<forall>i < length (ch_rules p). check_operation scale retail p i (ch_rules p ! i) = Inr ()
          \<and> cr_on (ch_rules p ! i) \<in> set (cb_event_types (ch_binding p)))"

definition places_of :: "nat \<times> chain_policy \<Rightarrow> (nat \<times> nat) list" where
  "places_of e = map (Pair (fst e)) [0..<length (ch_rules (snd e))]"

lemma check_policy_Inr:
  assumes "check_policy cur scale retail (pn, p) bs = Inr bs'"
  shows "policy_checked cur scale retail p"
    "bs_order bs' = bs_order bs @ places_of (pn, p)"
    "cb_id (ch_binding p) \<notin> bs_bindings bs" "bs_bindings bs' = insert (cb_id (ch_binding p)) (bs_bindings bs)"
    "cb_agreement (ch_binding p) \<notin> bs_agreements bs"
    "bs_agreements bs' = insert (cb_agreement (ch_binding p)) (bs_agreements bs)"
proof -
  define b1 where "b1 = bs\<lparr>bs_bindings := insert (cb_id (ch_binding p)) (bs_bindings bs),
      bs_agreements := insert (cb_agreement (ch_binding p)) (bs_agreements bs)\<rparr>"
  have new: "bs_order b1 = bs_order bs" "bs_bindings b1 = insert (cb_id (ch_binding p)) (bs_bindings bs)"
    "bs_agreements b1 = insert (cb_agreement (ch_binding p)) (bs_agreements bs)" by (simp_all add: b1_def)
  from assms obtain ids cs where texts: "binding_texts (ch_binding p) = Inr ()"
    and fresh: "cb_id (ch_binding p) \<notin> bs_bindings bs" "cb_agreement (ch_binding p) \<notin> bs_agreements bs"
    and rest: "binding_limits (ch_binding p) = Inr ()" "binding_lists (ch_binding p) = Inr ()"
      "binding_terms cur scale (ch_binding p) = Inr ()" "ch_rules p \<noteq> []"
    and rules: "rfold (check_rule scale retail p pn) (enumerate 0 (ch_rules p)) ({}, {}, b1) = Inr (ids, cs, bs')"
    and reserved: "check_reserved p cs = Inr ()"
    by (auto simp: check_policy_def Let_def rbind_Inr_iff b1_def)
  note r = check_rules_Inr[OF rules]
  then have cs: "cs = set (map cr_component (ch_rules p))" by simp
  show "policy_checked cur scale retail p"
    using texts rest reserved r by (simp add: policy_checked_def cs)
  show "bs_order bs' = bs_order bs @ places_of (pn, p)" using r by (simp add: places_of_def new)
  show "cb_id (ch_binding p) \<notin> bs_bindings bs" "cb_agreement (ch_binding p) \<notin> bs_agreements bs" by (fact fresh)+
  show "bs_bindings bs' = insert (cb_id (ch_binding p)) (bs_bindings bs)"
    "bs_agreements bs' = insert (cb_agreement (ch_binding p)) (bs_agreements bs)" using r by (simp_all add: new)
qed

lemma check_policies_Inr:
  assumes "rfold (check_policy cur scale retail) (enumerate k ps) bs = Inr bs'"
  shows "(\<forall>p \<in> set ps. policy_checked cur scale retail p)
    \<and> bs_order bs' = bs_order bs @ concat (map places_of (enumerate k ps))
    \<and> distinct (map (\<lambda>p. cb_id (ch_binding p)) ps) \<and> (\<forall>p \<in> set ps. cb_id (ch_binding p) \<notin> bs_bindings bs)
    \<and> distinct (map (\<lambda>p. cb_agreement (ch_binding p)) ps) \<and> (\<forall>p \<in> set ps. cb_agreement (ch_binding p) \<notin> bs_agreements bs)"
  using assms
proof (induction ps arbitrary: k bs)
  case (Cons p ps)
  from Cons.prems obtain b1 where one: "check_policy cur scale retail (k, p) bs = Inr b1"
    and rest: "rfold (check_policy cur scale retail) (enumerate (Suc k) ps) b1 = Inr bs'"
    by (auto simp: rbind_Inr_iff)
  show ?case using check_policy_Inr[OF one] Cons.IH[OF rest] by auto
qed simp

section \<open>The order\<close>

definition all_places :: "chain_policy list \<Rightarrow> (nat \<times> nat) set" where
  "all_places qs = {(p, r). p < length qs \<and> r < length (ch_rules (qs ! p))}"

lemma places_set: "set (concat (map places_of (enumerate 0 qs))) = all_places qs"
proof -
  have "(a, b) \<in> set (concat (map places_of (enumerate 0 qs))) \<longleftrightarrow> (a, b) \<in> all_places qs" for a b
  proof
    assume "(a, b) \<in> all_places qs"
    then have "(a, qs ! a) \<in> set (enumerate 0 qs)" "(a, b) \<in> set (places_of (a, qs ! a))"
      by (auto simp: all_places_def places_of_def in_set_enumerate_eq)
    then show "(a, b) \<in> set (concat (map places_of (enumerate 0 qs)))" unfolding set_concat set_map by blast
  qed (auto simp: places_of_def all_places_def in_set_enumerate_eq)
  then show ?thesis by auto
qed

lemma places_distinct: "distinct (concat (map places_of (enumerate k qs)))"
proof (induction qs arbitrary: k)
  case (Cons q qs)
  have "fst x \<ge> Suc k" if "x \<in> set (concat (map places_of (enumerate (Suc k) qs)))" for x
    using that by (auto simp: places_of_def in_set_enumerate_eq)
  moreover have "fst x = k" if "x \<in> set (places_of (k, q))" for x
    using that by (auto simp: places_of_def)
  ultimately have "set (places_of (k, q)) \<inter> set (concat (map places_of (enumerate (Suc k) qs))) = {}" by fastforce
  then show ?case using Cons.IH[of "Suc k"] by (auto simp: places_of_def distinct_map inj_on_def)
qed simp

lemma order_key_inj: "order_key qs x = order_key qs y \<Longrightarrow> x = y"
  by (cases x; cases y) (simp add: order_key_def)

lemma sort_key_strict:
  fixes f :: "'a \<Rightarrow> 'b::linorder"
  assumes "distinct xs" and "\<And>x y. f x = f y \<Longrightarrow> x = y"
  shows "sorted_wrt (\<lambda>x y. f x < f y) (sort_key f xs)"
proof -
  have "sorted (map f (sort_key f xs))" by simp
  moreover have "distinct (map f (sort_key f xs))" using assms by (auto simp: distinct_map inj_on_def)
  ultimately have "sorted_wrt (<) (map f (sort_key f xs))" by (simp add: strict_sorted_iff)
  then show ?thesis by (simp add: sorted_wrt_map)
qed

lemma earlier_in_sorted:
  fixes f :: "'a \<Rightarrow> 'b::linorder"
  assumes "sorted_wrt (\<lambda>x y. f x < f y) xs" and "x \<in> set xs" and "n < length xs" and "f x < f (xs ! n)"
  shows "\<exists>m < n. xs ! m = x"
proof -
  obtain m where m: "m < length xs" "xs ! m = x" using assms(2) by (auto simp: in_set_conv_nth)
  have "m < n"
  proof (rule ccontr)
    assume "\<not> m < n"
    then consider "m = n" | "n < m" by linarith
    then show False
    proof cases
      case 2
      then have "f (xs ! n) < f (xs ! m)" using assms(1) m(1) by (auto simp: sorted_wrt_iff_nth_less)
      then show False using assms(4) m(2) by simp
    qed (use assms(4) m(2) in simp)
  qed
  then show ?thesis using m(2) by blast
qed

definition rule_of :: "chain_policy list \<Rightarrow> nat \<times> nat \<Rightarrow> chain_rule" where
  "rule_of qs e = ch_rules (qs ! fst e) ! snd e"

definition slot_of :: "chain_policy list \<Rightarrow> nat \<times> nat \<Rightarrow> slot" where
  "slot_of qs e = (fst e, cr_component (rule_of qs e))"

text \<open>The slots a rule reads the booked amount of.\<close>

fun price_reads :: "nat \<Rightarrow> price \<Rightarrow> slot list" where
  "price_reads pn (PricePercent _ component) = [(pn, component)]"
| "price_reads pn _ = []"

fun operation_reads :: "nat \<Rightarrow> chain_operation \<Rightarrow> slot list" where
  "operation_reads pn (BaseOp price) = price_reads pn price"
| "operation_reads pn (PremiumOp price) = price_reads pn price"
| "operation_reads pn (DiscountOp _ component _) = [(pn, component)]"
| "operation_reads pn (CapOp _ _ component) = [(pn, component)]"
| "operation_reads pn (ShareOp _ _ component) = [(0, component)]"
| "operation_reads pn _ = []"

lemma operation_reads_at: "slot \<in> set (operation_reads pn x) \<Longrightarrow> fst slot = pn \<or> fst slot = 0"
proof (induction pn x rule: operation_reads.induct)
  case (1 pn price) then show ?case by (cases price) auto
next
  case (2 pn price) then show ?case by (cases price) auto
qed auto

definition books :: "chain_operation \<Rightarrow> bool" where
  "books x \<longleftrightarrow> is_base_op x \<or> is_premium_op x"

definition written_before :: "chain_bundle \<Rightarrow> nat \<Rightarrow> slot \<Rightarrow> bool" where
  "written_before b n slot \<longleftrightarrow> (\<exists>m < n. slot_of (bu_policies b) (bu_order b ! m) = slot
     \<and> cr_on (rule_of (bu_policies b) (bu_order b ! m)) = cr_on (rule_of (bu_policies b) (bu_order b ! n))
     \<and> books (cr_operation (rule_of (bu_policies b) (bu_order b ! m))))"

lemma local_basis_place:
  assumes "local_basis p ri rule component ph = Inr ()"
  shows "\<exists>i < length (ch_rules p). cr_component (ch_rules p ! i) = component \<and> cr_on (ch_rules p ! i) = cr_on rule
    \<and> books (cr_operation (ch_rules p ! i))
    \<and> (chain_phase (cr_operation (ch_rules p ! i)) < ph \<or> chain_phase (cr_operation (ch_rules p ! i)) = ph \<and> i < ri)"
proof -
  from assms obtain i r where "(i, r) \<in> set (enumerate 0 (ch_rules p))" "basis_at p ri rule component ph (i, r)"
    by (auto simp: local_basis_def list_ex_iff)
  then show ?thesis by (intro exI[of _ i]) (auto simp: basis_at_def in_set_enumerate_eq books_def)
qed

lemma operation_basis:
  assumes "check_operation scale (qs ! 0) (qs ! pn) ri (ch_rules (qs ! pn) ! ri) = Inr ()"
    and "slot \<in> set (operation_reads pn (cr_operation (ch_rules (qs ! pn) ! ri)))"
  shows "\<exists>i. i < length (ch_rules (qs ! fst slot)) \<and> slot_of qs (fst slot, i) = slot
    \<and> cr_on (rule_of qs (fst slot, i)) = cr_on (ch_rules (qs ! pn) ! ri)
    \<and> books (cr_operation (rule_of qs (fst slot, i)))
    \<and> order_key qs (fst slot, i) < order_key qs (pn, ri)"
proof -
  let ?rule = "ch_rules (qs ! pn) ! ri"
  define ph where "ph = chain_phase (cr_operation ?rule)"
  have own: ?thesis if "slot = (pn, component)" and "local_basis (qs ! pn) ri ?rule component ph = Inr ()" for component
    using local_basis_place[OF that(2)] that(1)
    by (auto simp: slot_of_def rule_of_def order_key_def ph_def)
  show ?thesis
  proof (cases "cr_operation ?rule")
    case (BaseOp price)
    then show ?thesis using assms own by (cases price) (auto simp: check_operation_def check_priced_def ph_def)
  next
    case (PremiumOp price)
    then show ?thesis using assms own by (cases price) (auto simp: check_operation_def check_priced_def ph_def)
  next
    case (DiscountOp amount component mode)
    then show ?thesis using assms own[of component] by (auto simp: check_operation_def ph_def)
  next
    case (CapOp limit stage component)
    then show ?thesis using assms own[of component] by (auto simp: check_operation_def check_cap_def ph_def)
  next
    case (ShareOp pct limit component)
    then have slot: "slot = (0, component)" and on: "cr_on ?rule = Acquired"
      and ex: "list_ex (\<lambda>r. cr_component r = component \<and> cr_on r = Acquired \<and> is_premium_op (cr_operation r)) (ch_rules (qs ! 0))"
      using assms by (auto simp: check_operation_def check_share_def)
    from ex obtain i where i: "i < length (ch_rules (qs ! 0))" "cr_component (ch_rules (qs ! 0) ! i) = component"
      "cr_on (ch_rules (qs ! 0) ! i) = Acquired" "is_premium_op (cr_operation (ch_rules (qs ! 0) ! i))"
      by (auto simp: list_ex_iff in_set_conv_nth)
    have "chain_phase (cr_operation (ch_rules (qs ! 0) ! i)) = 1" using i(4)
      by (cases "cr_operation (ch_rules (qs ! 0) ! i)") auto
    then show ?thesis using i on by (auto simp: slot slot_of_def rule_of_def order_key_def ShareOp books_def)
  qed (use assms in \<open>auto simp: check_operation_def\<close>)
qed

definition compiled_bundle :: "chain_bundle \<Rightarrow> bool" where
  "compiled_bundle b \<longleftrightarrow> bu_policies b \<noteq> []
     \<and> validate_currency (bu_currency b) (bu_scale b) = Inr ()
     \<and> (\<forall>p \<in> set (bu_policies b). policy_checked (bu_currency b) (bu_scale b) (bu_policies b ! 0) p)
     \<and> distinct (map (\<lambda>p. cb_id (ch_binding p)) (bu_policies b))
     \<and> distinct (map (\<lambda>p. cb_agreement (ch_binding p)) (bu_policies b))
     \<and> set (bu_order b) = all_places (bu_policies b)
     \<and> sorted_wrt (\<lambda>x y. order_key (bu_policies b) x < order_key (bu_policies b) y) (bu_order b)"

lemma compile_compiled:
  assumes "bundle_compile cur scale ps = Inr b"
  shows "compiled_bundle b" "bu_currency b = cur" "bu_scale b = scale" "bu_policies b = sort_key policy_key ps"
    "length (filter (\<lambda>p. cb_book (ch_binding p) = Retail) ps) = 1" "length (bu_order b) \<le> 64"
proof -
  let ?qs = "sort_key policy_key ps"
  from assms obtain bs where v: "validate_currency cur scale = Inr ()" and ne: "ps \<noteq> []"
    and one: "length (filter (\<lambda>p. cb_book (ch_binding p) = Retail) ps) = 1"
    and loop: "rfold (check_policy cur scale (hd ?qs)) (enumerate 0 ?qs)
       \<lparr>bs_order = [], bs_nodes = 1, bs_caps = 0, bs_shares = 0, bs_bindings = {}, bs_agreements = {}\<rparr> = Inr bs"
    and lim: "length (bs_order bs) \<le> 64"
    and b: "b = \<lparr>bu_currency = cur, bu_scale = scale, bu_policies = ?qs, bu_order = sort_key (order_key ?qs) (bs_order bs)\<rparr>"
    by (auto simp: bundle_compile_def Let_def rbind_Inr_iff)
  have qs: "?qs \<noteq> []" using ne by (metis length_0_conv length_sort)
  note c = check_policies_Inr[OF loop]
  then have order: "bs_order bs = concat (map places_of (enumerate 0 ?qs))" by simp
  have "set (bu_order b) = all_places ?qs" using places_set[of ?qs] by (simp add: b order)
  moreover have "sorted_wrt (\<lambda>x y. order_key ?qs x < order_key ?qs y) (bu_order b)"
    unfolding b using sort_key_strict[OF places_distinct[of 0 ?qs] order_key_inj[of ?qs]] by (simp add: order)
  ultimately show "compiled_bundle b"
    using c qs v by (simp add: compiled_bundle_def b hd_conv_nth)
  show "bu_currency b = cur" "bu_scale b = scale" "bu_policies b = ?qs" "length (bu_order b) \<le> 64"
    "length (filter (\<lambda>p. cb_book (ch_binding p) = Retail) ps) = 1"
    using one lim by (simp_all add: b)
qed

lemma compiled_place:
  assumes "compiled_bundle b" and "n < length (bu_order b)"
  shows "fst (bu_order b ! n) < length (bu_policies b)"
    "snd (bu_order b ! n) < length (ch_rules (bu_policies b ! fst (bu_order b ! n)))"
proof -
  have "bu_order b ! n \<in> all_places (bu_policies b)"
    using assms nth_mem[OF assms(2)] by (simp add: compiled_bundle_def)
  then show "fst (bu_order b ! n) < length (bu_policies b)"
    "snd (bu_order b ! n) < length (ch_rules (bu_policies b ! fst (bu_order b ! n)))"
    by (auto simp: all_places_def)
qed

lemma compiled_checked:
  assumes "compiled_bundle b" and "pn < length (bu_policies b)" and "ri < length (ch_rules (bu_policies b ! pn))"
  shows "check_operation (bu_scale b) (bu_policies b ! 0) (bu_policies b ! pn) ri (ch_rules (bu_policies b ! pn) ! ri) = Inr ()"
  using assms by (auto simp: compiled_bundle_def policy_checked_def)

lemma compiled_written:
  assumes b: "compiled_bundle b" and n: "n < length (bu_order b)"
    and slot: "slot \<in> set (operation_reads (fst (bu_order b ! n)) (cr_operation (rule_of (bu_policies b) (bu_order b ! n))))"
  shows "written_before b n slot"
proof -
  let ?qs = "bu_policies b"
  obtain pn ri where e: "bu_order b ! n = (pn, ri)" by (cases "bu_order b ! n")
  note place = compiled_place[OF b n]
  have "check_operation (bu_scale b) (?qs ! 0) (?qs ! pn) ri (ch_rules (?qs ! pn) ! ri) = Inr ()"
    using compiled_checked[OF b] place by (simp add: e)
  moreover have "slot \<in> set (operation_reads pn (cr_operation (ch_rules (?qs ! pn) ! ri)))"
    using slot by (simp add: e rule_of_def)
  ultimately obtain i where i: "i < length (ch_rules (?qs ! fst slot))"
    "slot_of ?qs (fst slot, i) = slot" "cr_on (rule_of ?qs (fst slot, i)) = cr_on (ch_rules (?qs ! pn) ! ri)"
    "books (cr_operation (rule_of ?qs (fst slot, i)))" "order_key ?qs (fst slot, i) < order_key ?qs (pn, ri)"
    using operation_basis[of "bu_scale b" ?qs pn ri slot] by blast
  have "fst slot = pn \<or> fst slot = 0" using operation_reads_at[OF slot] by (simp add: e)
  moreover have "0 < length ?qs" using b by (simp add: compiled_bundle_def)
  ultimately have "(fst slot, i) \<in> all_places ?qs" using place i(1) by (auto simp: all_places_def e)
  then have "(fst slot, i) \<in> set (bu_order b)" using b by (simp add: compiled_bundle_def)
  moreover have "sorted_wrt (\<lambda>x y. order_key ?qs x < order_key ?qs y) (bu_order b)"
    using b by (simp add: compiled_bundle_def)
  ultimately obtain m where "m < n" "bu_order b ! m = (fst slot, i)"
    using earlier_in_sorted[of "order_key ?qs" "bu_order b" "(fst slot, i)" n] n i(5) by (auto simp: e)
  then show ?thesis using i by (auto simp: written_before_def e rule_of_def)
qed

end
