(* ===== verification/Chain_Loop.thy ===== *)
theory Chain_Loop
  imports Chain_Laws
begin

text \<open>
  The loop over the compiled rules: what every iteration keeps of the booked amounts, their
  reductions and the actions. The amounts of a binding's actions add up to the nets of its
  components, and no net is negative.
\<close>

section \<open>Signs of amounts\<close>

definition nonneg_ratio :: "ratio \<Rightarrow> bool" where
  "nonneg_ratio r \<longleftrightarrow> 0 \<le> numerator r \<and> 0 < denominator r"

lemma nonneg_ratio_val: "nonneg_ratio r \<Longrightarrow> 0 \<le> ratio_val r"
  by (simp add: nonneg_ratio_def ratio_val_def)

lemma val_nonneg_ratio: "ratio_ok r \<Longrightarrow> 0 \<le> ratio_val r \<Longrightarrow> nonneg_ratio r"
  by (auto simp: nonneg_ratio_def ratio_val_def ratio_ok_def zero_le_divide_iff)

lemma nonneg_mul:
  assumes "ratio_mul x y = Inr z" and "nonneg_ratio x" and "nonneg_ratio y"
  shows "nonneg_ratio z"
proof (rule val_nonneg_ratio)
  have d: "0 < denominator x" "0 < denominator y" using assms by (simp_all add: nonneg_ratio_def)
  show "ratio_ok z" by (rule ratio_mul_exact(1)[OF assms(1) d])
  show "0 \<le> ratio_val z" using ratio_mul_exact(2)[OF assms(1) d] assms(2,3) by (simp add: nonneg_ratio_val)
qed

lemma nonneg_leaves [simp]: "nonneg_ratio (decimal_ratio d)" "0 \<le> n \<Longrightarrow> nonneg_ratio (ratio_integer n)"
  using decimal_ratio_facts[of d] by (simp_all add: nonneg_ratio_def ratio_integer_def)

lemma nonneg_atoms_ratio: "atoms_ratio d scale = Inr r \<Longrightarrow> nonneg_ratio r"
  by (auto simp: atoms_ratio_def split: if_splits intro: nonneg_mul)

lemma nonneg_percent: "percent d = Inr r \<Longrightarrow> nonneg_ratio r"
  using percent_Inr by (intro val_nonneg_ratio) auto

lemma round_atoms_bound:
  assumes "round_atoms r = Inr n"
  shows "\<bar>n\<bar> \<le> MAX_ATOMS"
  using assms by (auto simp: round_atoms_def Let_def rbind_Inr_iff)

lemma round_nonneg:
  assumes "round_atoms r = Inr n" and "nonneg_ratio r"
  shows "0 \<le> n"
proof -
  have d: "0 < denominator r" using assms(2) by (simp add: nonneg_ratio_def)
  have "n = round_half_away (ratio_val r)" using assms(1) round_atoms_spec[OF d] by (simp split: if_splits)
  then show ?thesis using nonneg_ratio_val[OF assms(2)] by (simp add: round_half_away_def)
qed

lemma atoms_exact_nonneg: "atoms_exact d scale = Inr n \<Longrightarrow> 0 \<le> n"
  by (auto simp: atoms_exact_def rbind_Inr_iff split: if_splits intro: round_nonneg nonneg_atoms_ratio)

lemma atoms_exact_bound: "atoms_exact d scale = Inr n \<Longrightarrow> \<bar>n\<bar> \<le> MAX_ATOMS"
  by (auto simp: atoms_exact_def rbind_Inr_iff split: if_splits intro: round_atoms_bound)

section \<open>What an operation comes to\<close>

lemma price_value_Inr:
  assumes "price_value price scale e pn booked actions s = Inr (r, s')"
  shows "nonneg_ratio r" "xp_code s' = xp_code s" "xp_binding_id s' = xp_binding_id s" "xp_rule_id s' = xp_rule_id s"
  using assms
  by (cases price; auto simp: rbind_Inr_iff intro: nonneg_atoms_ratio nonneg_mul nonneg_percent)+

text \<open>
  A priced operation either reduces a slot it reads, by the amount of its net there; or it has a
  nonnegative amount of its own.
\<close>

definition priced_ok :: "nat \<Rightarrow> chain_operation \<Rightarrow> rule_state \<Rightarrow> priced \<Rightarrow> bool" where
  "priced_ok pn x st p \<longleftrightarrow>
     (case pr_basis p of
        Some (target, net) \<Rightarrow> target \<in> set (operation_reads pn x) \<and> \<not> books x \<and> \<not> is_share_op x \<and> x \<noteq> ObserveCostOp
          \<and> (\<exists>v. rs_booked st target = Some v \<and> net = v + adjustment st target)
          \<and> pr_override p = None
      | None \<Rightarrow> (books x \<or> is_share_op x \<or> x = ObserveCostOp)
          \<and> (\<forall>n. pr_override p = Some n \<longrightarrow> 0 \<le> n \<and> n \<le> MAX_ATOMS)
          \<and> (pr_override p = None \<longrightarrow> nonneg_ratio (pr_unrounded p)))"

lemma booked_at_Inr: "booked_at st target = Inr v \<longleftrightarrow> rs_booked st target = Some v"
  by (simp add: booked_at_def)

lemma operation_value_Priced:
  assumes "chain_operation_value bu input pn b rule st s = Inr (Priced p)"
  shows "priced_ok pn (cr_operation rule) st p"
proof (cases "cr_operation rule")
  case (BaseOp price)
  then show ?thesis
    using assms price_value_Inr(1)
    by (auto simp: chain_operation_value_def price_operation_def priced_ok_def books_def)
next
  case (PremiumOp price)
  then show ?thesis
    using assms price_value_Inr(1)
    by (auto simp: chain_operation_value_def price_operation_def priced_ok_def books_def)
next
  case (DiscountOp amount component mode)
  then show ?thesis
    using assms
    by (auto simp: chain_operation_value_def discount_operation_def Let_def booked_at_Inr priced_ok_def books_def)
next
  case (LinkedDiscountOp amount component)
  then show ?thesis using assms by (simp add: chain_operation_value_def)
next
  case (CapOp limit stage component)
  then show ?thesis
    using assms
    by (auto simp: chain_operation_value_def cap_operation_def Let_def booked_at_Inr priced_ok_def books_def)
next
  case (ShareOp pct limit component)
  with assms obtain basis q u raw top where o1: "0 \<le> basis" "percent pct = Inr q" "ratio_mul (ratio_integer basis) q = Inr u"
    "round_atoms u = Inr raw" "atoms_exact limit (bu_scale bu) = Inr top"
    and p: "pr_basis p = None" "pr_override p = Some (min raw top)"
    by (auto simp: chain_operation_value_def share_operation_def Let_def)
  have "nonneg_ratio u" using nonneg_mul[OF o1(3)] o1(1) nonneg_percent[OF o1(2)] by simp
  then have "0 \<le> raw" "0 \<le> top" "\<bar>raw\<bar> \<le> MAX_ATOMS"
    using round_nonneg[OF o1(4)] atoms_exact_nonneg[OF o1(5)] round_atoms_bound[OF o1(4)] by auto
  then show ?thesis by (auto simp: priced_ok_def p ShareOp books_def)
next
  case ObserveCostOp
  then show ?thesis
    using assms
    by (auto simp: chain_operation_value_def cost_operation_def priced_ok_def books_def split: if_splits option.splits)
qed

section \<open>The actions of a rule\<close>

definition made :: "(string \<Rightarrow> string) \<Rightarrow> chain_bundle \<Rightarrow> event \<Rightarrow> chain_binding \<Rightarrow> book \<Rightarrow> chain_action \<Rightarrow> bool" where
  "made sha256 bu e b k a \<longleftrightarrow> ca_binding a = b \<and> ca_book a = k \<and> money_ok (ca_amount a)
     \<and> currency (ca_amount a) = bu_currency bu \<and> mscale (ca_amount a) = bu_scale bu
     \<and> obligation_identity sha256 bu e b k = Inr (ca_obligation_id a) \<and> ca_reverses a = None"

lemma make_action_Inr:
  assumes "make_action sha256 bu e claim b kind k component n sources links inputs target = Inr a"
  shows "made sha256 bu e b k a" "atoms (ca_amount a) = n"
  using assms by (auto simp: make_action_def Let_def made_def)

definition allocation_view :: "chain_action \<Rightarrow> bool" where
  "allocation_view a \<longleftrightarrow> ca_book a = Allocation"

lemma allocation_action_Inr:
  assumes "allocation_action sha256 bu e claim b component share part acc = Inr acc'"
    and "\<forall>a \<in> set acc. made sha256 bu e b Allocation a"
  shows "\<forall>a \<in> set acc'. made sha256 bu e b Allocation a"
proof (cases part)
  case (Pair supplier n)
  show ?thesis
  proof (cases "n = 0")
    case False
    with assms(1) Pair obtain a r where a: "made sha256 bu e b Allocation a"
      and acc: "acc' = acc @ [a\<lparr>ca_allocation_recipient := Some r, ca_allocation_parent := Some (ca_id share),
           ca_inputs := sorted_set (ca_inputs a @ [ca_id share])\<rparr>]"
      by (auto simp: allocation_action_def dest: make_action_Inr)
    show ?thesis unfolding acc using a assms(2) by (simp add: made_def)
  qed (use assms Pair in \<open>simp add: allocation_action_def\<close>)
qed

lemma allocation_actions_Inr:
  assumes "allocation_actions sha256 bu e claim b component share n basis = Inr acts"
  shows "\<forall>a \<in> set acts. made sha256 bu e b Allocation a"
proof (cases "basis = None \<or> \<not> cb_allocation_view b")
  case True
  then show ?thesis using assms by (auto simp: allocation_actions_def split: option.splits)
next
  case False
  then obtain host where "rfold (allocation_action sha256 bu e claim b component share) [(True, n), (False, host)] [] = Inr acts"
    using assms by (auto simp: allocation_actions_def simp del: rfold.simps split: option.splits)
  then show ?thesis
    by (rule rfold_invariant[where P = "\<lambda>acc. \<forall>a \<in> set acc. made sha256 bu e b Allocation a"])
      (use allocation_action_Inr in auto)
qed

lemma rule_actions_Inr:
  assumes "rule_actions sha256 bu e claim b component p n sources links inputs = Inr acts"
  shows "n = 0 \<and> acts = [] \<or> n \<noteq> 0 \<and> (\<exists>a views. acts = a # views \<and> made sha256 bu e b (cb_book b) a
     \<and> atoms (ca_amount a) = n \<and> (\<forall>v \<in> set views. made sha256 bu e b Allocation v))"
proof (cases "n = 0")
  case False
  with assms obtain a views where a: "made sha256 bu e b (cb_book b) a" "atoms (ca_amount a) = n"
    and v: "allocation_actions sha256 bu e claim b component a n (pr_share_basis p) = Inr views" "acts = a # views"
    by (auto simp: rule_actions_def dest: make_action_Inr)
  then show ?thesis using allocation_actions_Inr[OF v(1)] False by blast
qed (use assms in \<open>simp add: rule_actions_def\<close>)

lemma reduce_basis_Inr:
  assumes "reduce_basis sha256 e claim b component links n basis st = Inr st'"
  shows "rs_booked st' = rs_booked st" "rs_actions st' = rs_actions st" "rs_closed st' = rs_closed st"
    "rs_explanations st' = rs_explanations st"
    "case basis of None \<Rightarrow> rs_adjustments st' = rs_adjustments st
     | Some (target, net) \<Rightarrow> 0 \<le> net + n \<and> \<bar>adjustment st target + n\<bar> \<le> MAX_ATOMS
         \<and> rs_adjustments st' = (rs_adjustments st)(target \<mapsto> adjustment st target + n)"
  using assms by (auto simp: reduce_basis_def Let_def split: option.splits if_splits)

text \<open>The effect of a priced rule on the amounts.\<close>

definition new_actions :: "(string \<Rightarrow> string) \<Rightarrow> chain_bundle \<Rightarrow> event \<Rightarrow> chain_binding \<Rightarrow> int \<Rightarrow> chain_action list \<Rightarrow> bool" where
  "new_actions sha256 bu e b n acts \<longleftrightarrow> n = 0 \<and> acts = [] \<or> n \<noteq> 0 \<and> (\<exists>a views. acts = a # views
     \<and> made sha256 bu e b (cb_book b) a \<and> atoms (ca_amount a) = n \<and> (\<forall>v \<in> set views. made sha256 bu e b Allocation v))"

definition priced_amount :: "priced \<Rightarrow> int \<Rightarrow> bool" where
  "priced_amount p n \<longleftrightarrow> (\<exists>r. round_atoms (pr_unrounded p) = Inr r \<and> n = (case pr_override p of None \<Rightarrow> r | Some m \<Rightarrow> m))"

definition reduced_by :: "rule_state \<Rightarrow> (slot \<times> int) option \<Rightarrow> int \<Rightarrow> (slot \<Rightarrow> int option) \<Rightarrow> bool" where
  "reduced_by st basis n adj \<longleftrightarrow> (case basis of
       None \<Rightarrow> adj = rs_adjustments st
     | Some (target, net) \<Rightarrow> 0 \<le> net + n \<and> \<bar>adjustment st target + n\<bar> \<le> MAX_ATOMS
         \<and> adj = (rs_adjustments st)(target \<mapsto> adjustment st target + n))"

lemma apply_priced_Inr:
  assumes "apply_priced sha256 bu input claim key b sources links p st = Inr st'"
  shows "\<exists>n acts. priced_amount p n \<and> reduced_by st (pr_basis p) n (rs_adjustments st')
    \<and> new_actions sha256 bu (ip_event input) b n acts
    \<and> rs_booked st' = (rs_booked st)(key \<mapsto> n) \<and> rs_actions st' = rs_actions st @ acts"
proof -
  from assms obtain r st1 acts where r: "round_atoms (pr_unrounded p) = Inr r"
    and red: "reduce_basis sha256 (ip_event input) claim b (snd key) links
      (case pr_override p of None \<Rightarrow> r | Some m \<Rightarrow> m) (pr_basis p) st = Inr st1"
    and acts: "rule_actions sha256 bu (ip_event input) claim b (snd key) p
      (case pr_override p of None \<Rightarrow> r | Some m \<Rightarrow> m)
      (sources @ input_sources (ip_history input) (sorted_set (xp_inputs (pr_step p)))) links
      (sorted_set (xp_inputs (pr_step p))) = Inr acts"
    and st': "rs_booked st' = (rs_booked st1)(key \<mapsto> (case pr_override p of None \<Rightarrow> r | Some m \<Rightarrow> m))"
      "rs_adjustments st' = rs_adjustments st1" "rs_actions st' = rs_actions st1 @ acts"
    by (auto simp: apply_priced_def Let_def)
  note d = reduce_basis_Inr[OF red]
  show ?thesis
    using r d rule_actions_Inr[OF acts]
    by (intro exI[of _ "case pr_override p of None \<Rightarrow> r | Some m \<Rightarrow> m"] exI[of _ acts])
      (auto simp: priced_amount_def reduced_by_def new_actions_def st' d(1,2) split: option.splits)
qed

text \<open>One iteration: skipped, without effect on the amounts, or priced.\<close>

definition fresh_state :: "slot \<Rightarrow> rule_state \<Rightarrow> rule_state" where
  "fresh_state key st = st\<lparr>rs_booked := (rs_booked st)(key \<mapsto> 0)\<rparr>"

lemma applicable_rule_Inr:
  assumes "applicable_rule sha256 bu input claim pn b rule st = Inr st'"
  shows "(\<exists>s. st' = explain_step s (fresh_state (pn, cr_component rule) st))
    \<or> (\<exists>p sources links. priced_ok pn (cr_operation rule) (fresh_state (pn, cr_component rule) st) p
        \<and> apply_priced sha256 bu input claim (pn, cr_component rule) b sources links p
            (fresh_state (pn, cr_component rule) st) = Inr st')"
proof (cases "predicate_all rule input")
  case True
  note a = assms[unfolded applicable_rule_def Let_def, folded fresh_state_def]
  from a True obtain matched where
    rest: "(if cr_matcher rule \<noteq> None \<and> matched = None
        then rbind (ensure (event_kind_of (ip_event input) \<noteq> Acquired \<or> cb_book b \<noteq> Supplier)
            (Error ''SUPPLIER_TARGET_PATH'' ''supplier outcome requires its declared completion link path'')) (\<lambda>_.
          Inr (explain_step ((blank_step b (Some (cr_id rule)) ''PREDICATE_FALSE'')\<lparr>xp_code := ''NO_MATCH''\<rparr>)
            (fresh_state (pn, cr_component rule) st)))
        else rbind (validate_binding b input (map_option mt_target matched)) (\<lambda>_.
          rbind (chain_operation_value bu input pn b rule (fresh_state (pn, cr_component rule) st)
              (blank_step b (Some (cr_id rule)) ''PREDICATE_FALSE'')) (\<lambda>out.
          case out of
            Skipped s \<Rightarrow> Inr (explain_step s (fresh_state (pn, cr_component rule) st))
          | Priced p \<Rightarrow> apply_priced sha256 bu input claim (pn, cr_component rule) b
              (match_sources (ip_event input) matched) (match_links matched) p
              (fresh_state (pn, cr_component rule) st)))) = Inr st'"
    by auto
  show ?thesis
  proof (cases "cr_matcher rule \<noteq> None \<and> matched = None")
    case False
    then obtain out where out: "chain_operation_value bu input pn b rule (fresh_state (pn, cr_component rule) st)
        (blank_step b (Some (cr_id rule)) ''PREDICATE_FALSE'') = Inr out"
      and cont: "(case out of Skipped s \<Rightarrow> Inr (explain_step s (fresh_state (pn, cr_component rule) st))
          | Priced p \<Rightarrow> apply_priced sha256 bu input claim (pn, cr_component rule) b
              (match_sources (ip_event input) matched) (match_links matched) p
              (fresh_state (pn, cr_component rule) st)) = Inr st'"
      using rest by (auto simp only: if_False simp_thms elim!: rbind_InrE)
    show ?thesis
    proof (cases out)
      case (Priced p)
      then show ?thesis using cont operation_value_Priced[of bu input pn b rule] out by auto
    qed (use cont in auto)
  qed (use rest in auto)
qed (use assms in \<open>auto simp: applicable_rule_def Let_def fresh_state_def\<close>)

section \<open>The invariant of the loop\<close>

definition own_amount :: "chain_operation \<Rightarrow> bool" where
  "own_amount x \<longleftrightarrow> books x \<or> is_share_op x \<or> x = ObserveCostOp"

definition on_kind :: "chain_bundle \<Rightarrow> event_kind \<Rightarrow> nat \<Rightarrow> bool" where
  "on_kind b k m \<longleftrightarrow> cr_on (rule_of (bu_policies b) (bu_order b ! m)) = k"

definition slot_at :: "chain_bundle \<Rightarrow> nat \<Rightarrow> slot" where
  "slot_at b m = slot_of (bu_policies b) (bu_order b ! m)"

definition written :: "chain_bundle \<Rightarrow> event_kind \<Rightarrow> nat \<Rightarrow> slot set" where
  "written b k n = slot_at b ` {m. m < n \<and> on_kind b k m}"

definition own_slots :: "chain_bundle \<Rightarrow> event_kind \<Rightarrow> nat \<Rightarrow> slot set" where
  "own_slots b k n = slot_at b ` {m. m < n \<and> on_kind b k m \<and> own_amount (cr_operation (rule_of (bu_policies b) (bu_order b ! m)))}"

definition net :: "rule_state \<Rightarrow> slot \<Rightarrow> int" where
  "net st s = (case rs_booked st s of None \<Rightarrow> 0 | Some v \<Rightarrow> v) + adjustment st s"

definition slot_binding :: "chain_bundle \<Rightarrow> slot \<Rightarrow> chain_binding" where
  "slot_binding b s = ch_binding (bu_policies b ! fst s)"

definition action_total :: "(chain_binding \<Rightarrow> bool) \<Rightarrow> chain_action list \<Rightarrow> int" where
  "action_total Q actions =
     sum_list (map (\<lambda>a. atoms (ca_amount a)) (filter (\<lambda>a. ca_book a \<noteq> Allocation \<and> Q (ca_binding a)) actions))"

definition action_ok :: "(string \<Rightarrow> string) \<Rightarrow> chain_bundle \<Rightarrow> event \<Rightarrow> chain_action \<Rightarrow> bool" where
  "action_ok sha256 bu e a \<longleftrightarrow> (\<exists>p \<in> set (bu_policies bu). ca_binding a = ch_binding p
      \<and> (made sha256 bu e (ch_binding p) (cb_book (ch_binding p)) a \<or> made sha256 bu e (ch_binding p) Allocation a))"

definition bounded_slots :: "(slot \<Rightarrow> int option) \<Rightarrow> bool" where
  "bounded_slots f \<longleftrightarrow> (\<forall>s v. f s = Some v \<longrightarrow> \<bar>v\<bar> \<le> MAX_ATOMS)"

definition loop_ok :: "(string \<Rightarrow> string) \<Rightarrow> chain_bundle \<Rightarrow> event \<Rightarrow> nat \<Rightarrow> rule_state \<Rightarrow> bool" where
  "loop_ok sha256 bu e n st \<longleftrightarrow>
     dom (rs_booked st) = written bu (event_kind_of e) n
     \<and> dom (rs_adjustments st) \<subseteq> own_slots bu (event_kind_of e) n
     \<and> bounded_slots (rs_booked st) \<and> bounded_slots (rs_adjustments st)
     \<and> (\<forall>s \<in> own_slots bu (event_kind_of e) n. 0 \<le> net st s)
     \<and> (\<forall>a \<in> set (rs_actions st). action_ok sha256 bu e a)
     \<and> (\<forall>Q. action_total Q (rs_actions st)
          = (\<Sum>s \<in> own_slots bu (event_kind_of e) n. if Q (slot_binding bu s) then net st s else 0))"

lemma loop_ok_empty: "loop_ok sha256 bu e 0 empty_state"
  by (simp add: loop_ok_def empty_state_def written_def own_slots_def bounded_slots_def action_total_def)

lemma own_written: "own_slots b k n \<subseteq> written b k n"
  by (auto simp: own_slots_def written_def)

lemma finite_own [simp]: "finite (own_slots b k n)"
proof -
  have "finite {m. m < n \<and> on_kind b k m \<and> own_amount (cr_operation (rule_of (bu_policies b) (bu_order b ! m)))}"
    by (rule finite_subset[of _ "{..<n}"]) auto
  then show ?thesis by (simp add: own_slots_def)
qed

lemma written_Suc: "written b k (Suc n) = (if on_kind b k n then insert (slot_at b n) (written b k n) else written b k n)"
proof -
  have "{m. m < Suc n \<and> on_kind b k m} = {m. m < n \<and> on_kind b k m} \<union> (if on_kind b k n then {n} else {})"
    by (auto simp: less_Suc_eq)
  then show ?thesis by (simp add: written_def)
qed

lemma own_Suc:
  "own_slots b k (Suc n) = (if on_kind b k n \<and> own_amount (cr_operation (rule_of (bu_policies b) (bu_order b ! n)))
     then insert (slot_at b n) (own_slots b k n) else own_slots b k n)"
proof -
  let ?P = "\<lambda>m. on_kind b k m \<and> own_amount (cr_operation (rule_of (bu_policies b) (bu_order b ! m)))"
  have "{m. m < Suc n \<and> ?P m} = {m. m < n \<and> ?P m} \<union> (if ?P n then {n} else {})"
    by (auto simp: less_Suc_eq)
  then show ?thesis by (simp add: own_slots_def)
qed

text \<open>Every place has a slot of its own.\<close>

lemma sorted_key_distinct:
  fixes f :: "'a \<Rightarrow> 'b::linorder"
  assumes "sorted_wrt (\<lambda>x y. f x < f y) xs"
  shows "distinct xs"
  using assms by (induction xs) auto

lemma slot_inj:
  assumes b: "compiled_bundle b" and m: "m < length (bu_order b)" "n < length (bu_order b)"
    and eq: "slot_at b m = slot_at b n"
  shows "m = n"
proof -
  let ?qs = "bu_policies b"
  obtain p i where e: "bu_order b ! m = (p, i)" by (cases "bu_order b ! m")
  obtain q j where f: "bu_order b ! n = (q, j)" by (cases "bu_order b ! n")
  have pq: "p = q" and c: "cr_component (ch_rules (?qs ! p) ! i) = cr_component (ch_rules (?qs ! p) ! j)"
    using eq by (auto simp: slot_at_def slot_of_def rule_of_def e f)
  have len: "p < length ?qs" "i < length (ch_rules (?qs ! p))" "j < length (ch_rules (?qs ! p))"
    using compiled_place[OF b m(1)] compiled_place[OF b m(2)] by (simp_all add: e f pq)
  have "distinct (map cr_component (ch_rules (?qs ! p)))"
    using b len(1) by (simp add: compiled_bundle_def policy_checked_def)
  then have "i = j" using c len by (simp add: distinct_conv_nth) blast
  then have same: "bu_order b ! m = bu_order b ! n" using pq by (simp add: e f)
  have "distinct (bu_order b)"
    using b sorted_key_distinct[of "order_key ?qs" "bu_order b"] by (simp add: compiled_bundle_def)
  then show "m = n" using m same by (simp add: nth_eq_iff_index_eq)
qed

lemma fresh_slot:
  assumes "compiled_bundle b" and "n < length (bu_order b)"
  shows "slot_at b n \<notin> written b k n"
proof
  assume "slot_at b n \<in> written b k n"
  then obtain m where m: "m < n" "slot_at b m = slot_at b n" by (auto simp: written_def)
  then have "m = n" using slot_inj[OF assms(1) _ assms(2)] assms(2) by simp
  then show False using m(1) by simp
qed

lemma adjustment_none: "s \<notin> dom (rs_adjustments st) \<Longrightarrow> adjustment st s = 0"
  by (auto simp: adjustment_def domIff)

text \<open>The sum over the slots after one of them grew, or a new one came.\<close>

lemma sum_grown:
  fixes f g :: "'a \<Rightarrow> int"
  assumes "finite S" and "t \<in> S" and "\<And>s. s \<in> S \<Longrightarrow> s \<noteq> t \<Longrightarrow> g s = f s" and "g t = f t + d"
  shows "(\<Sum>s \<in> S. g s) = (\<Sum>s \<in> S. f s) + d"
proof -
  have "(\<Sum>s \<in> S. g s) = g t + (\<Sum>s \<in> S - {t}. g s)" using assms(1,2) by (rule sum.remove)
  also have "(\<Sum>s \<in> S - {t}. g s) = (\<Sum>s \<in> S - {t}. f s)" by (rule sum.cong) (use assms(3) in auto)
  also have "g t + \<dots> = (f t + (\<Sum>s \<in> S - {t}. f s)) + d" by (simp add: assms(4))
  also have "f t + (\<Sum>s \<in> S - {t}. f s) = (\<Sum>s \<in> S. f s)" using sum.remove[OF assms(1,2), of f] by simp
  finally show ?thesis .
qed

lemma action_total_new:
  assumes "new_actions sha256 bu e b n acts" and "cb_book b \<noteq> Allocation"
  shows "action_total Q (xs @ acts) = action_total Q xs + (if Q b then n else 0)"
proof -
  have "filter (\<lambda>a. ca_book a \<noteq> Allocation \<and> Q (ca_binding a)) views = []"
    if "\<forall>v \<in> set views. made sha256 bu e b Allocation v" for views
    using that by (auto simp: filter_empty_conv made_def)
  then show ?thesis
    using assms by (auto simp: new_actions_def action_total_def made_def)
qed

section \<open>Every iteration keeps the invariant\<close>

lemma loop_ok_explain: "loop_ok sha256 bu e n st \<Longrightarrow> loop_ok sha256 bu e n (explain_step s st)"
proof -
  have "net (explain_step s st) x = net st x" for x by (simp add: explain_step_def net_def adjustment_def)
  then show "loop_ok sha256 bu e n st \<Longrightarrow> ?thesis" by (simp add: loop_ok_def explain_step_def cong: if_cong)
qed

lemma net_fresh:
  assumes "s \<noteq> key"
  shows "net (fresh_state key st) s = net st s"
  using assms by (simp add: net_def fresh_state_def adjustment_def)

lemma loop_ok_fresh:
  assumes b: "compiled_bundle bu" and n: "n < length (bu_order bu)" and on: "on_kind bu (event_kind_of e) n"
    and ok: "loop_ok sha256 bu e n st"
  shows "loop_ok sha256 bu e (Suc n) (fresh_state (slot_at bu n) st)"
    "slot_at bu n \<notin> dom (rs_adjustments st)"
proof -
  let ?k = "event_kind_of e" and ?key = "slot_at bu n"
  let ?st = "fresh_state ?key st"
  have new: "?key \<notin> written bu ?k n" by (rule fresh_slot[OF b n])
  then have out: "?key \<notin> own_slots bu ?k n" using own_written[of bu ?k n] by blast
  show adj: "?key \<notin> dom (rs_adjustments st)" using ok out by (auto simp: loop_ok_def)
  have zero: "net ?st ?key = 0" using adjustment_none[OF adj] by (simp add: net_def fresh_state_def adjustment_def)
  have same: "net ?st s = net st s" if "s \<in> own_slots bu ?k n" for s
    using that out by (intro net_fresh) auto
  have sum: "(\<Sum>s \<in> own_slots bu ?k (Suc n). if Q (slot_binding bu s) then net ?st s else 0)
      = (\<Sum>s \<in> own_slots bu ?k n. if Q (slot_binding bu s) then net st s else 0)" for Q
  proof -
    have "(\<Sum>s \<in> own_slots bu ?k n. if Q (slot_binding bu s) then net ?st s else 0)
        = (\<Sum>s \<in> own_slots bu ?k n. if Q (slot_binding bu s) then net st s else 0)"
      by (rule sum.cong) (simp_all add: same)
    then show ?thesis using out by (simp add: own_Suc zero)
  qed
  have parts: "rs_adjustments ?st = rs_adjustments st" "rs_actions ?st = rs_actions st"
    "rs_booked ?st = (rs_booked st)(?key \<mapsto> 0)" by (simp_all add: fresh_state_def)
  show "loop_ok sha256 bu e (Suc n) ?st"
    unfolding loop_ok_def parts sum
  proof (intro conjI allI ballI)
    show "dom ((rs_booked st)(?key \<mapsto> 0)) = written bu ?k (Suc n)"
      using ok on by (simp add: loop_ok_def written_Suc)
    show "dom (rs_adjustments st) \<subseteq> own_slots bu ?k (Suc n)"
      using ok by (auto simp: loop_ok_def own_Suc)
    show "bounded_slots ((rs_booked st)(?key \<mapsto> 0))"
      using ok by (auto simp: loop_ok_def bounded_slots_def MAX_ATOMS_def)
    show "bounded_slots (rs_adjustments st)" using ok by (simp add: loop_ok_def)
    show "0 \<le> net ?st s" if "s \<in> own_slots bu ?k (Suc n)" for s
    proof (cases "s = ?key")
      case False
      then have "s \<in> own_slots bu ?k n" using that by (auto simp: own_Suc split: if_splits)
      then show ?thesis using same ok by (simp add: loop_ok_def)
    qed (simp add: zero)
    show "action_ok sha256 bu e a" if "a \<in> set (rs_actions st)" for a using ok that by (simp add: loop_ok_def)
    show "action_total Q (rs_actions st)
        = (\<Sum>s \<in> own_slots bu ?k n. if Q (slot_binding bu s) then net st s else 0)" for Q
      using ok by (simp add: loop_ok_def)
  qed
qed

text \<open>The sums after a slot grew by the amount of the new actions.\<close>

lemma loop_ok_grown:
  assumes ok: "loop_ok sha256 bu e n st" and p: "p \<in> set (bu_policies bu)"
    and alloc: "cb_book (ch_binding p) \<noteq> Allocation"
    and acts: "new_actions sha256 bu e (ch_binding p) v acts"
    and t: "t \<in> own_slots bu (event_kind_of e) n" "slot_binding bu t = ch_binding p"
    and same: "\<And>s. s \<in> own_slots bu (event_kind_of e) n \<Longrightarrow> s \<noteq> t \<Longrightarrow> net st' s = net st s"
    and grown: "net st' t = net st t + v" "0 \<le> net st t + v"
    and st': "dom (rs_booked st') = dom (rs_booked st)" "dom (rs_adjustments st') \<subseteq> insert t (dom (rs_adjustments st))"
      "bounded_slots (rs_booked st')" "bounded_slots (rs_adjustments st')" "rs_actions st' = rs_actions st @ acts"
  shows "loop_ok sha256 bu e n st'"
  unfolding loop_ok_def st'(5)
proof (intro conjI allI ballI)
  let ?S = "own_slots bu (event_kind_of e) n"
  show "dom (rs_booked st') = written bu (event_kind_of e) n" using ok st'(1) by (simp add: loop_ok_def)
  have "dom (rs_adjustments st) \<subseteq> ?S" using ok by (simp only: loop_ok_def)
  then show "dom (rs_adjustments st') \<subseteq> ?S" using st'(2) t(1) by blast
  show "bounded_slots (rs_booked st')" "bounded_slots (rs_adjustments st')" by (fact st'(3,4))+
  show "0 \<le> net st' s" if "s \<in> ?S" for s
    using that same grown ok by (cases "s = t") (simp_all add: loop_ok_def)
  show "action_ok sha256 bu e a" if "a \<in> set (rs_actions st @ acts)" for a
  proof (cases "a \<in> set (rs_actions st)")
    case False
    then have "a \<in> set acts" using that by simp
    then have "made sha256 bu e (ch_binding p) (cb_book (ch_binding p)) a \<or> made sha256 bu e (ch_binding p) Allocation a"
      using acts by (auto simp: new_actions_def)
    then show ?thesis using p by (auto simp: action_ok_def made_def)
  qed (use ok in \<open>simp add: loop_ok_def\<close>)
  show "action_total Q (rs_actions st @ acts) = (\<Sum>s \<in> ?S. if Q (slot_binding bu s) then net st' s else 0)" for Q
  proof -
    have "(\<Sum>s \<in> ?S. if Q (slot_binding bu s) then net st' s else 0)
        = (\<Sum>s \<in> ?S. if Q (slot_binding bu s) then net st s else 0) + (if Q (ch_binding p) then v else 0)"
      by (rule sum_grown[OF finite_own t(1)]) (simp_all add: same grown(1) t(2))
    moreover have "action_total Q (rs_actions st) = (\<Sum>s \<in> ?S. if Q (slot_binding bu s) then net st s else 0)"
      using ok by (simp add: loop_ok_def)
    ultimately show ?thesis using action_total_new[OF acts alloc, of Q "rs_actions st"] by simp
  qed
qed

lemma checked_not_allocation: "policy_checked cur scale retail p \<Longrightarrow> cb_book (ch_binding p) \<noteq> Allocation"
  by (auto simp: policy_checked_def binding_limits_def)

lemma compiled_policy:
  assumes "compiled_bundle bu" and "p \<in> set (bu_policies bu)"
  shows "policy_checked (bu_currency bu) (bu_scale bu) (bu_policies bu ! 0) p"
  using assms by (simp add: compiled_bundle_def)

lemma bounded_update: "bounded_slots f \<Longrightarrow> \<bar>v\<bar> \<le> MAX_ATOMS \<Longrightarrow> bounded_slots (f(s \<mapsto> v))"
  by (auto simp: bounded_slots_def)

lemma priced_amount_bound:
  assumes "priced_amount p v" and "priced_ok pn x st p"
  shows "\<bar>v\<bar> \<le> MAX_ATOMS" "pr_basis p = None \<Longrightarrow> 0 \<le> v"
  using assms
  by (auto simp: priced_amount_def priced_ok_def split: option.splits intro: round_atoms_bound round_nonneg)

lemma loop_ok_priced:
  assumes b: "compiled_bundle bu" and n: "n < length (bu_order bu)" and on: "on_kind bu (event_kind_of e) n"
    and pn: "fst (bu_order bu ! n) = pn"
    and ok: "loop_ok sha256 bu e (Suc n) st" and key: "key = slot_at bu n" "rs_booked st key = Some 0" "key \<notin> dom (rs_adjustments st)"
    and p: "priced_ok pn (cr_operation (rule_of (bu_policies bu) (bu_order bu ! n))) st p"
    and v: "priced_amount p v" and red: "reduced_by st (pr_basis p) v (rs_adjustments st')"
    and acts: "new_actions sha256 bu e (ch_binding (bu_policies bu ! pn)) v acts"
    and st': "rs_booked st' = (rs_booked st)(key \<mapsto> v)" "rs_actions st' = rs_actions st @ acts"
  shows "loop_ok sha256 bu e (Suc n) st'"
proof -
  let ?k = "event_kind_of e" and ?q = "bu_policies bu ! pn" and ?x = "cr_operation (rule_of (bu_policies bu) (bu_order bu ! n))"
  have q: "?q \<in> set (bu_policies bu)" using compiled_place(1)[OF b n] by (simp add: pn)
  note alloc = checked_not_allocation[OF compiled_policy[OF b q]]
  note bound = priced_amount_bound[OF v p]
  have fk: "fst key = pn" by (simp add: key slot_at_def slot_of_def pn)
  have dom: "dom (rs_booked st') = dom (rs_booked st)" using key(2) by (auto simp: st')
  have bb: "bounded_slots (rs_booked st')" using ok bound(1) by (simp add: st' bounded_update loop_ok_def)
  have new: "key \<notin> own_slots bu ?k n" using fresh_slot[OF b n] own_written[of bu ?k n] by (auto simp: key(1))
  show ?thesis
  proof (cases "pr_basis p")
    case None
    then have own: "own_amount ?x" and adj: "rs_adjustments st' = rs_adjustments st"
      using p red by (auto simp: priced_ok_def own_amount_def reduced_by_def)
    have t: "key \<in> own_slots bu ?k (Suc n)" using on own by (simp add: own_Suc key)
    have z: "net st key = 0" using key adjustment_none[OF key(3)] by (simp add: net_def)
    show ?thesis
    proof (rule loop_ok_grown[OF ok q alloc acts t])
      show "slot_binding bu key = ch_binding ?q" by (simp add: slot_binding_def fk)
      show "net st' key = net st key + v"
        using adjustment_none[OF key(3)] by (simp add: z) (simp add: net_def adjustment_def st' adj)
      show "0 \<le> net st key + v" using bound(2)[OF None] by (simp add: z)
      show "bounded_slots (rs_adjustments st')" using ok by (simp add: adj loop_ok_def)
      show "dom (rs_adjustments st') \<subseteq> insert key (dom (rs_adjustments st))" by (auto simp: adj)
      show "net st' s = net st s" if "s \<noteq> key" for s using that by (simp add: net_def adjustment_def st' adj)
    qed (fact dom bb st'(2))+
  next
    case (Some basis)
    obtain target m where basis: "basis = (target, m)" by (cases basis)
    have reads: "target \<in> set (operation_reads pn ?x)" and other: "\<not> own_amount ?x"
      and m: "\<exists>w. rs_booked st target = Some w \<and> m = w + adjustment st target"
      using p by (auto simp: priced_ok_def own_amount_def Some basis)
    have r: "0 \<le> m + v" "\<bar>adjustment st target + v\<bar> \<le> MAX_ATOMS"
      "rs_adjustments st' = (rs_adjustments st)(target \<mapsto> adjustment st target + v)"
      using red by (auto simp: reduced_by_def Some basis)
    have "written_before bu n target" using compiled_written[OF b n] reads by (simp add: pn)
    then have t: "target \<in> own_slots bu ?k n"
      using on by (auto simp: written_before_def own_slots_def slot_at_def on_kind_def own_amount_def)
    then have t': "target \<in> own_slots bu ?k (Suc n)" by (simp add: own_Suc)
    have same_own: "own_slots bu ?k (Suc n) = own_slots bu ?k n" using other by (simp add: own_Suc)
    have tk: "target \<noteq> key" using t new by auto
    have ft: "fst target = pn"
      using reads other by (cases ?x) (auto simp: own_amount_def books_def)
    have nt: "net st target = m" using m by (auto simp: net_def)
    show ?thesis
    proof (rule loop_ok_grown[OF ok q alloc acts t'])
      show "slot_binding bu target = ch_binding ?q" by (simp add: slot_binding_def ft)
      show "net st' target = net st target + v" using tk by (simp add: net_def adjustment_def st' r(3))
      show "0 \<le> net st target + v" by (simp add: nt r(1))
      show "bounded_slots (rs_adjustments st')" using ok r(2) by (simp add: r(3) bounded_update loop_ok_def)
      show "dom (rs_adjustments st') \<subseteq> insert target (dom (rs_adjustments st))" by (auto simp: r(3))
      fix s assume "s \<in> own_slots bu ?k (Suc n)" "s \<noteq> target"
      moreover have "s \<noteq> key" using \<open>s \<in> own_slots bu ?k (Suc n)\<close> new same_own by auto
      ultimately show "net st' s = net st s" by (simp add: net_def adjustment_def st' r(3))
    qed (fact dom bb st'(2))+
  qed
qed

theorem loop_ok_step:
  assumes b: "compiled_bundle bu" and n: "n < length (bu_order bu)"
    and ok: "loop_ok sha256 bu (ip_event input) n st"
    and run: "evaluate_rule sha256 bu input claim (bu_order bu ! n) st = Inr st'"
  shows "loop_ok sha256 bu (ip_event input) (Suc n) st'"
proof -
  let ?e = "ip_event input"
  obtain pn ri where e: "bu_order bu ! n = (pn, ri)" by (cases "bu_order bu ! n")
  let ?rule = "ch_rules (bu_policies bu ! pn) ! ri" and ?b = "ch_binding (bu_policies bu ! pn)"
  have rule: "rule_of (bu_policies bu) (bu_order bu ! n) = ?rule" by (simp add: rule_of_def e)
  have key: "(pn, cr_component ?rule) = slot_at bu n" by (simp add: slot_at_def slot_of_def rule_of_def e)
  have run': "(if cr_on ?rule \<noteq> event_kind_of ?e then Inr st
      else applicable_rule sha256 bu input claim pn ?b ?rule st) = Inr st'"
    using run compiled_place[OF b n] by (simp add: evaluate_rule_def index_def e)
  show ?thesis
  proof (cases "on_kind bu (event_kind_of ?e) n")
    case False
    then have "st' = st" using run' by (simp add: on_kind_def rule)
    then show ?thesis using ok False by (simp add: loop_ok_def written_Suc own_Suc)
  next
    case True
    let ?st = "fresh_state (slot_at bu n) st"
    note fresh = loop_ok_fresh[OF b n True ok]
    have "applicable_rule sha256 bu input claim pn ?b ?rule st = Inr st'"
      using run' True by (simp add: on_kind_def rule)
    from applicable_rule_Inr[OF this, unfolded key] consider s where "st' = explain_step s ?st"
      | p sources links where "priced_ok pn (cr_operation ?rule) ?st p"
        "apply_priced sha256 bu input claim (slot_at bu n) ?b sources links p ?st = Inr st'" by blast
    then show ?thesis
    proof cases
      case 1
      then show ?thesis using loop_ok_explain[OF fresh(1)] by simp
    next
      case 2
      from apply_priced_Inr[OF 2(2)] obtain v acts where a: "priced_amount p v"
        "reduced_by ?st (pr_basis p) v (rs_adjustments st')" "new_actions sha256 bu ?e ?b v acts"
        "rs_booked st' = (rs_booked ?st)(slot_at bu n \<mapsto> v)" "rs_actions st' = rs_actions ?st @ acts" by blast
      show ?thesis
        by (rule loop_ok_priced[OF b n True _ fresh(1) refl _ _ _ a(1,2) _ a(4,5)])
          (use 2(1) a(3) fresh(2) in \<open>simp_all add: e rule fresh_state_def rule_of_def\<close>)
    qed
  qed
qed

end
