(* ===== verification/Chain_Properties.thy ===== *)
theory Chain_Properties
  imports Chain_Loop
begin

text \<open>
  Properties of the chained policies: the compiled order, the obligations a decision changes, the
  reservations it consumes.
\<close>

section \<open>Running the loop\<close>

lemma rfold_indexed:
  assumes "rfold f xs s = Inr s'" and "I 0 s"
    and "\<And>n t t'. n < length xs \<Longrightarrow> I n t \<Longrightarrow> f (xs ! n) t = Inr t' \<Longrightarrow> I (Suc n) t'"
  shows "I (length xs) s'"
  using assms
proof (induction xs arbitrary: s I)
  case (Cons x xs)
  from Cons.prems(1) obtain t where t: "f x s = Inr t" "rfold f xs t = Inr s'" by (auto simp: rbind_Inr_iff)
  have "I 1 t" using Cons.prems(3)[of 0 s t] Cons.prems(2) t(1) by simp
  then have "I (Suc 0) t" by simp
  moreover have "I (Suc (Suc n)) u'" if "n < length xs" "I (Suc n) u" "f (xs ! n) u = Inr u'" for n u u'
    using Cons.prems(3)[of "Suc n" u u'] that by simp
  ultimately show ?case using Cons.IH[OF t(2), of "\<lambda>n. I (Suc n)"] by simp
qed simp

lemma evaluate_rules_ok:
  assumes "compiled_bundle bu" and "evaluate_rules sha256 bu input claim = Inr st"
  shows "loop_ok sha256 bu (ip_event input) (length (bu_order bu)) st"
  using assms(2) unfolding evaluate_rules_def
  by (rule rfold_indexed[where I = "loop_ok sha256 bu (ip_event input)"])
    (auto intro: loop_ok_empty loop_ok_step[OF assms(1)])

lemma loop_total_nonneg: "loop_ok sha256 bu e n st \<Longrightarrow> 0 \<le> action_total Q (rs_actions st)"
  by (simp add: loop_ok_def) (rule sum_nonneg, simp)

section \<open>Obligations\<close>

definition payable :: "chain_action \<Rightarrow> bool" where
  "payable a \<longleftrightarrow> ca_book a \<in> {Retail, Supplier}"

definition obligation_actions :: "string \<Rightarrow> chain_action list \<Rightarrow> chain_action list" where
  "obligation_actions ob actions = filter (\<lambda>a. payable a \<and> ca_obligation_id a = ob) actions"

definition obligation_total :: "string \<Rightarrow> chain_action list \<Rightarrow> int" where
  "obligation_total ob actions = sum_list (map (\<lambda>a. atoms (ca_amount a)) (obligation_actions ob actions))"

definition delta_for :: "chain_action list \<Rightarrow> string \<Rightarrow> chain_obligation \<Rightarrow> bool" where
  "delta_for actions ob g \<longleftrightarrow> od_obligation_id g = ob \<and> money_ok (od_amount g)
     \<and> atoms (od_amount g) = obligation_total ob actions
     \<and> od_actions g = map ca_id (obligation_actions ob actions)
     \<and> (\<exists>a \<in> set (obligation_actions ob actions). currency (od_amount g) = currency (ca_amount a)
          \<and> mscale (od_amount g) = mscale (ca_amount a) \<and> od_book g = ca_book a \<and> od_roles g = cb_roles (ca_binding a))"

definition groups_ok :: "chain_action list \<Rightarrow> (string, chain_obligation) omap \<Rightarrow> bool" where
  "groups_ok actions groups \<longleftrightarrow> om_ok groups
     \<and> (\<forall>ob. map_of groups ob = None \<longrightarrow> obligation_actions ob actions = [])
     \<and> (\<forall>ob g. map_of groups ob = Some g \<longrightarrow> delta_for actions ob g)"

lemma obligation_snoc:
  "obligation_actions ob (xs @ [a]) = obligation_actions ob xs @ (if payable a \<and> ca_obligation_id a = ob then [a] else [])"
  "obligation_total ob (xs @ [a]) = obligation_total ob xs + (if payable a \<and> ca_obligation_id a = ob then atoms (ca_amount a) else 0)"
  by (simp_all add: obligation_total_def obligation_actions_def)

lemma delta_for_other:
  assumes "delta_for xs ob g" and "\<not> (payable a \<and> ca_obligation_id a = ob)"
  shows "delta_for (xs @ [a]) ob g"
  using assms by (simp only: delta_for_def obligation_snoc if_False append_Nil2 add_0_right) 

lemma group_action_ok:
  assumes "groups_ok xs groups" and "group_action a groups = Inr groups'" and "money_ok (ca_amount a)"
  shows "groups_ok (xs @ [a]) groups'"
proof (cases "payable a")
  case False
  then have "groups' = groups" using assms(2) by (simp add: group_action_def payable_def)
  moreover have "delta_for (xs @ [a]) ob g" if "delta_for xs ob g" for ob g
    using delta_for_other[OF that] False by blast
  moreover have "obligation_actions ob (xs @ [a]) = obligation_actions ob xs" for ob
    using False by (simp add: obligation_snoc)
  ultimately show ?thesis
    using assms(1) by (simp add: groups_ok_def)
next
  case True
  let ?o = "ca_obligation_id a"
  have om: "om_ok groups" using assms(1) by (simp add: groups_ok_def)
  have run: "(case map_of groups ?o of None \<Rightarrow> Inr (om_insert ?o (delta_of a) groups)
      | Some g \<Rightarrow> rbind (money_checked_add (od_amount g) (ca_amount a)) (\<lambda>sum.
          Inr (om_insert ?o (g\<lparr>od_amount := sum, od_actions := od_actions g @ [ca_id a]\<rparr>) groups))) = Inr groups'"
    using assms(2) True by (auto simp: group_action_def payable_def split: if_splits)
  obtain g' where g': "groups' = om_insert ?o g' groups" and new: "delta_for (xs @ [a]) ?o g'"
  proof (cases "map_of groups ?o")
    case None
    then have "obligation_actions ?o xs = []" using assms(1) by (simp add: groups_ok_def)
    then have "delta_for (xs @ [a]) ?o (delta_of a)"
      using True assms(3) by (simp add: delta_for_def delta_of_def obligation_snoc obligation_total_def)
    moreover have "groups' = om_insert ?o (delta_of a) groups"
      using run None by simp
    ultimately show thesis using that by blast
  next
    case (Some g)
    then have g: "delta_for xs ?o g" using assms(1) by (simp add: groups_ok_def)
    then have mo: "money_ok (od_amount g)" by (simp add: delta_for_def)
    from run Some obtain m where m: "money_checked_add (od_amount g) (ca_amount a) = Inr m"
      and gs: "groups' = om_insert ?o (g\<lparr>od_amount := m, od_actions := od_actions g @ [ca_id a]\<rparr>) groups"
      by auto
    have m': "m = (od_amount g)\<lparr>atoms := atoms (od_amount g) + atoms (ca_amount a)\<rparr>"
      "\<bar>atoms (od_amount g) + atoms (ca_amount a)\<bar> \<le> MAX_ATOMS"
      using m money_checked_add_Inr[OF mo] by simp_all
    obtain x where x: "x \<in> set (obligation_actions ?o xs)" "currency (od_amount g) = currency (ca_amount x)"
      "mscale (od_amount g) = mscale (ca_amount x)" "od_book g = ca_book x" "od_roles g = cb_roles (ca_binding x)"
      using g by (auto simp: delta_for_def)
    have "delta_for (xs @ [a]) ?o (g\<lparr>od_amount := m, od_actions := od_actions g @ [ca_id a]\<rparr>)"
      unfolding delta_for_def
    proof (intro conjI)
      show "\<exists>y \<in> set (obligation_actions ?o (xs @ [a])).
          currency (od_amount (g\<lparr>od_amount := m, od_actions := od_actions g @ [ca_id a]\<rparr>)) = currency (ca_amount y)
          \<and> mscale (od_amount (g\<lparr>od_amount := m, od_actions := od_actions g @ [ca_id a]\<rparr>)) = mscale (ca_amount y)
          \<and> od_book (g\<lparr>od_amount := m, od_actions := od_actions g @ [ca_id a]\<rparr>) = ca_book y
          \<and> od_roles (g\<lparr>od_amount := m, od_actions := od_actions g @ [ca_id a]\<rparr>) = cb_roles (ca_binding y)"
        using x by (intro bexI[of _ x]) (simp_all add: m'(1) obligation_snoc(1))
    qed (use g m'(2) mo True in \<open>auto simp: delta_for_def m'(1) obligation_snoc money_ok_def\<close>)
    then show thesis using that gs by blast
  qed
  have old: "map_of groups ob = None \<Longrightarrow> obligation_actions ob xs = []"
    "map_of groups ob = Some g \<Longrightarrow> delta_for xs ob g" for ob g
    using assms(1) by (simp_all add: groups_ok_def)
  have "(map_of groups' ob = None \<longrightarrow> obligation_actions ob (xs @ [a]) = [])
      \<and> (map_of groups' ob = Some g \<longrightarrow> delta_for (xs @ [a]) ob g)" for ob g
  proof (cases "ob = ?o")
    case True
    then show ?thesis using new by (auto simp: g' om_insert_get[OF om])
  next
    case False
    then show ?thesis
      using old[of ob] delta_for_other[of xs ob g a] by (simp add: g' om_insert_get[OF om] obligation_snoc(1))
  qed
  then show ?thesis by (simp add: groups_ok_def g' om_insert_ok[OF om])
qed

lemma group_actions_ok:
  assumes "rfold group_action xs [] = Inr groups" and "\<forall>a \<in> set xs. money_ok (ca_amount a)"
  shows "groups_ok xs groups"
  using assms
proof (induction xs arbitrary: groups rule: rev_induct)
  case Nil
  then show ?case by (simp add: groups_ok_def om_ok_def obligation_actions_def)
next
  case (snoc a xs)
  then obtain g where "rfold group_action xs [] = Inr g" "group_action a g = Inr groups"
    by (auto simp: rfold_append)
  then show ?case using group_action_ok[of xs g a groups] snoc by simp
qed

text \<open>What \<open>deltas\<close> returns: the nonzero obligation totals, in the order of their identities.\<close>

definition deltas_of :: "chain_action list \<Rightarrow> chain_obligation list \<Rightarrow> bool" where
  "deltas_of actions ds \<longleftrightarrow> sorted_wrt (<) (map od_obligation_id ds)
     \<and> (\<forall>g \<in> set ds. \<exists>g'. delta_for actions (od_obligation_id g) g' \<and> g = g'\<lparr>od_actions := sort (od_actions g')\<rparr>
          \<and> atoms (od_amount g) \<noteq> 0)
     \<and> (\<forall>ob. obligation_total ob actions \<noteq> 0 \<longrightarrow> ob \<in> od_obligation_id ` set ds)"

lemma map_of_entry: "om_ok m \<Longrightarrow> (k, v) \<in> set m \<Longrightarrow> map_of m k = Some v"
  using om_ok_distinct by (rule map_of_is_SomeI)

lemma chain_deltas_of:
  assumes "chain_deltas actions = Inr ds" and "\<forall>a \<in> set actions. money_ok (ca_amount a)"
  shows "deltas_of actions ds"
proof -
  let ?close = "\<lambda>g. g\<lparr>od_actions := sort (od_actions g)\<rparr>"
  from assms(1) obtain groups where run: "rfold group_action actions [] = Inr groups"
    and ds: "ds = map ?close (filter (\<lambda>g. atoms (od_amount g) \<noteq> 0) (map snd groups))"
    by (auto simp: chain_deltas_def)
  have ok: "groups_ok actions groups" using group_actions_ok[OF run assms(2)] .
  then have om: "om_ok groups" and none: "\<And>ob. map_of groups ob = None \<Longrightarrow> obligation_actions ob actions = []"
    and some: "\<And>ob g. map_of groups ob = Some g \<Longrightarrow> delta_for actions ob g" by (simp_all add: groups_ok_def)
  have entry: "delta_for actions k g" if "(k, g) \<in> set groups" for k g
    using some[of k g] map_of_entry[OF om that] by simp
  have keys: "map od_obligation_id (map snd groups) = map fst groups"
    using entry by (auto simp: delta_for_def)
  have "sorted_wrt (<) (map od_obligation_id (map snd groups))" using om by (simp only: keys om_ok_def)
  then have "sorted_wrt (\<lambda>x y. od_obligation_id x < od_obligation_id y) (map snd groups)"
    by (simp only: sorted_wrt_map)
  then have "sorted_wrt (\<lambda>x y. od_obligation_id x < od_obligation_id y) (filter (\<lambda>g. atoms (od_amount g) \<noteq> 0) (map snd groups))"
    by (rule sorted_wrt_filter)
  then have s: "sorted_wrt (<) (map od_obligation_id ds)"
    unfolding ds by (simp add: sorted_wrt_map)
  have members: "\<exists>g'. delta_for actions (od_obligation_id g) g' \<and> g = ?close g' \<and> atoms (od_amount g) \<noteq> 0"
    if "g \<in> set ds" for g
  proof -
    from that obtain k g' where g': "(k, g') \<in> set groups" "atoms (od_amount g') \<noteq> 0" "g = ?close g'"
      by (auto simp: ds)
    from entry[OF g'(1)] have "delta_for actions (od_obligation_id g') g'" by (simp add: delta_for_def)
    then show ?thesis using g' by (intro exI[of _ g']) simp
  qed
  have all: "ob \<in> od_obligation_id ` set ds" if "obligation_total ob actions \<noteq> 0" for ob
  proof -
    have "obligation_actions ob actions \<noteq> []" using that by (auto simp: obligation_total_def)
    then obtain g where g: "map_of groups ob = Some g" "delta_for actions ob g"
      using none[of ob] some[of ob] by (cases "map_of groups ob") auto
    then have "?close g \<in> set ds"
      using that by (auto simp: ds delta_for_def image_iff intro!: bexI[of _ "(ob, g)"] map_of_SomeD)
    moreover have "od_obligation_id (?close g) = ob" using g(2) by (simp add: delta_for_def)
    ultimately show ?thesis by (metis image_eqI)
  qed
  show ?thesis using s members all by (simp add: deltas_of_def)
qed

text \<open>
  C8: what the compiler of the chained policies returns. The policies are the given ones, sorted by
  book and agreement, with the one retail policy first; the order holds every rule of every policy
  exactly once, strictly sorted by phase, book, policy and position; and every slot a rule reads
  the booked amount of (the component of a percentage, a discount or a cap, the retail component
  of a share) is written by a base or premium on the same kind of event that comes before it.
\<close>

theorem chain_compiled_order:
  assumes "bundle_compile cur scale ps = Inr b"
  shows "mset (bu_policies b) = mset ps \<and> sorted (map policy_key (bu_policies b))
    \<and> cb_book (ch_binding (bu_policies b ! 0)) = Retail
    \<and> (\<forall>i. 0 < i \<and> i < length (bu_policies b) \<longrightarrow> cb_book (ch_binding (bu_policies b ! i)) \<noteq> Retail)
    \<and> set (bu_order b) = all_places (bu_policies b)
    \<and> sorted_wrt (\<lambda>x y. order_key (bu_policies b) x < order_key (bu_policies b) y) (bu_order b)
    \<and> (\<forall>n < length (bu_order b). \<forall>slot \<in> set (operation_reads (fst (bu_order b ! n))
          (cr_operation (rule_of (bu_policies b) (bu_order b ! n)))). written_before b n slot)"
proof (intro conjI allI ballI impI)
  note c = compile_compiled[OF assms]
  let ?qs = "bu_policies b" and ?retail = "\<lambda>p. cb_book (ch_binding p) = Retail"
  show perm: "mset ?qs = mset ps" by (simp add: c(4))
  show sorted: "sorted (map policy_key ?qs)" by (simp add: c(4))
  have "length (filter ?retail ?qs) = size (filter_mset ?retail (mset ?qs))" by (metis mset_filter size_mset)
  also have "\<dots> = 1" using c(5) by (simp only: perm) (metis mset_filter size_mset)
  finally have one: "length (filter ?retail ?qs) = 1" .
  have ne: "0 < length ?qs" using c(1) by (simp add: compiled_bundle_def)
  have "filter ?retail ?qs \<noteq> []" using one by (metis length_0_conv zero_neq_one)
  then obtain p where p: "p \<in> set ?qs" "?retail p" unfolding filter_empty_conv by blast
  then obtain i where i: "i < length ?qs" "?qs ! i = p" by (auto simp: in_set_conv_nth)
  have "policy_key (?qs ! 0) \<le> policy_key (?qs ! i)"
    using sorted i(1) ne sorted_nth_mono[of "map policy_key ?qs" 0 i] by simp
  then have "cb_book (ch_binding (?qs ! 0)) \<le> Retail" using p(2) by (auto simp: policy_key_def i(2) less_eq_prod_def)
  then show first: "?retail (?qs ! 0)" by (cases "cb_book (ch_binding (?qs ! 0))") (auto simp: less_eq_book_def)
  show "\<not> ?retail (?qs ! j)" if "0 < j \<and> j < length ?qs" for j
  proof
    assume "?retail (?qs ! j)"
    then have "{0, j} \<subseteq> {i. i < length ?qs \<and> ?retail (?qs ! i)}" using first that ne by auto
    moreover have "finite {i. i < length ?qs \<and> ?retail (?qs ! i)}" by simp
    ultimately have "card {0, j} \<le> card {i. i < length ?qs \<and> ?retail (?qs ! i)}" by (rule card_mono[rotated])
    then show False using that one by (simp add: length_filter_conv_card)
  qed
  show "set (bu_order b) = all_places ?qs"
    "sorted_wrt (\<lambda>x y. order_key ?qs x < order_key ?qs y) (bu_order b)"
    using c(1) by (simp_all add: compiled_bundle_def)
  show "written_before b n slot" if "n < length (bu_order b)"
    "slot \<in> set (operation_reads (fst (bu_order b ! n)) (cr_operation (rule_of ?qs (bu_order b ! n))))" for n slot
    using compiled_written[OF c(1) that] .
qed

section \<open>Decisions\<close>

lemma bundle_evaluate_Inr:
  assumes "bundle_evaluate sha256 bu input = Inr d"
  shows "(\<exists>claim. check_input sha256 bu input = Inr claim
      \<and> ev_status (e_dto (ip_event input)) = Some Failed \<and> evaluate_failed sha256 bu input claim = Inr d)
    \<or> (\<exists>claim st. check_input sha256 bu input = Inr claim \<and> evaluate_rules sha256 bu input claim = Inr st
      \<and> va_actions d = rs_actions st \<and> chain_deltas (rs_actions st) = Inr (va_deltas d)
      \<and> chain_consumptions sha256 bu input (rs_actions st) = Inr (va_consumptions d)
      \<and> rfold (\<lambda>p _. check_exposure (rs_actions st) p) (bu_policies bu) () = Inr ())"
  using assms unfolding bundle_evaluate_def
  by (auto simp: decision_with_def simp del: rfold.simps split: if_splits)

lemma evaluate_failed_Inr:
  assumes "evaluate_failed sha256 bu input claim = Inr d"
  shows "va_actions d = []" "va_deltas d = []" "chain_consumptions sha256 bu input [] = Inr (va_consumptions d)"
  using assms by (auto simp: evaluate_failed_def decision_with_def explain_step_def empty_state_def)

lemma evaluated_actions:
  assumes "compiled_bundle bu" and "bundle_evaluate sha256 bu input = Inr d"
  shows "\<exists>st n. loop_ok sha256 bu (ip_event input) n st \<and> va_actions d = rs_actions st
    \<and> chain_deltas (rs_actions st) = Inr (va_deltas d)
    \<and> chain_consumptions sha256 bu input (rs_actions st) = Inr (va_consumptions d)"
  using bundle_evaluate_Inr[OF assms(2)]
proof
  assume "\<exists>claim. check_input sha256 bu input = Inr claim
      \<and> ev_status (e_dto (ip_event input)) = Some Failed \<and> evaluate_failed sha256 bu input claim = Inr d"
  then obtain claim where "evaluate_failed sha256 bu input claim = Inr d" by blast
  from evaluate_failed_Inr[OF this] show ?thesis
    using loop_ok_empty[of sha256 bu "ip_event input"]
    by (intro exI[of _ empty_state] exI[of _ 0]) (simp add: empty_state_def chain_deltas_def)
next
  assume "\<exists>claim st. check_input sha256 bu input = Inr claim \<and> evaluate_rules sha256 bu input claim = Inr st
      \<and> va_actions d = rs_actions st \<and> chain_deltas (rs_actions st) = Inr (va_deltas d)
      \<and> chain_consumptions sha256 bu input (rs_actions st) = Inr (va_consumptions d)
      \<and> rfold (\<lambda>p _. check_exposure (rs_actions st) p) (bu_policies bu) () = Inr ()"
  then show ?thesis using evaluate_rules_ok[OF assms(1)] by blast
qed

lemma loop_action_facts:
  assumes "loop_ok sha256 bu e n st" and "a \<in> set (rs_actions st)"
  shows "money_ok (ca_amount a)" "currency (ca_amount a) = bu_currency bu" "mscale (ca_amount a) = bu_scale bu"
    "\<exists>p \<in> set (bu_policies bu). ca_binding a = ch_binding p"
  using assms by (auto simp: loop_ok_def action_ok_def made_def)

text \<open>The actions of an obligation are the ones of the bindings with that obligation.\<close>

definition owes :: "(string \<Rightarrow> string) \<Rightarrow> chain_bundle \<Rightarrow> event \<Rightarrow> string \<Rightarrow> chain_binding \<Rightarrow> bool" where
  "owes sha256 bu e ob b \<longleftrightarrow> cb_book b \<in> {Retail, Supplier} \<and> obligation_identity sha256 bu e b (cb_book b) = Inr ob"

lemma obligation_as_bindings:
  assumes "compiled_bundle bu" and "loop_ok sha256 bu e n st"
  shows "obligation_total ob (rs_actions st) = action_total (owes sha256 bu e ob) (rs_actions st)"
proof -
  have "payable a \<and> ca_obligation_id a = ob \<longleftrightarrow> ca_book a \<noteq> Allocation \<and> owes sha256 bu e ob (ca_binding a)"
    if a: "a \<in> set (rs_actions st)" for a
  proof -
    have "action_ok sha256 bu e a" using assms(2) a by (simp add: loop_ok_def)
    then show ?thesis by (auto simp: action_ok_def made_def payable_def owes_def)
  qed
  then have "filter (\<lambda>a. payable a \<and> ca_obligation_id a = ob) (rs_actions st)
      = filter (\<lambda>a. ca_book a \<noteq> Allocation \<and> owes sha256 bu e ob (ca_binding a)) (rs_actions st)"
    by (rule filter_cong[OF refl])
  then show ?thesis by (simp only: obligation_total_def obligation_actions_def action_total_def)
qed

text \<open>
  C5: the obligations of a decision. A decision of a compiled bundle changes an obligation exactly
  when the payable actions with its identity do not cancel out, once, in the order of the
  identities; the change is the exact sum of those actions, in the bundle's currency and scale,
  and lists their identities. No change is negative: within one decision the discounts and caps of
  a binding never exceed what its bases and premiums booked.
\<close>

theorem chain_decision_deltas:
  assumes "bundle_compile cur scale ps = Inr bu" and "bundle_evaluate sha256 bu input = Inr d"
  shows "sorted_wrt (<) (map od_obligation_id (va_deltas d))
    \<and> (\<forall>g \<in> set (va_deltas d). 0 < atoms (od_amount g)
         \<and> atoms (od_amount g) = obligation_total (od_obligation_id g) (va_actions d)
         \<and> currency (od_amount g) = cur \<and> mscale (od_amount g) = scale
         \<and> od_actions g = sort (map ca_id (obligation_actions (od_obligation_id g) (va_actions d))))
    \<and> (\<forall>ob. ob \<in> od_obligation_id ` set (va_deltas d) \<longleftrightarrow> obligation_total ob (va_actions d) \<noteq> 0)
    \<and> (\<forall>b. 0 \<le> action_total (\<lambda>b'. b' = b) (va_actions d))"
proof -
  note c = compile_compiled[OF assms(1)]
  obtain st n where ok: "loop_ok sha256 bu (ip_event input) n st" and acts: "va_actions d = rs_actions st"
    and deltas: "chain_deltas (rs_actions st) = Inr (va_deltas d)"
    using evaluated_actions[OF c(1) assms(2)] by blast
  note facts = loop_action_facts[OF ok]
  have "deltas_of (rs_actions st) (va_deltas d)" by (rule chain_deltas_of[OF deltas]) (use facts(1) in blast)
  then have s: "sorted_wrt (<) (map od_obligation_id (va_deltas d))"
    and each: "\<And>g. g \<in> set (va_deltas d) \<Longrightarrow> \<exists>g'. delta_for (rs_actions st) (od_obligation_id g) g'
        \<and> g = g'\<lparr>od_actions := sort (od_actions g')\<rparr> \<and> atoms (od_amount g) \<noteq> 0"
    and all: "\<And>ob. obligation_total ob (rs_actions st) \<noteq> 0 \<Longrightarrow> ob \<in> od_obligation_id ` set (va_deltas d)"
    by (simp_all add: deltas_of_def)
  have parts: "0 < atoms (od_amount g) \<and> atoms (od_amount g) = obligation_total (od_obligation_id g) (rs_actions st)
      \<and> currency (od_amount g) = cur \<and> mscale (od_amount g) = scale
      \<and> od_actions g = sort (map ca_id (obligation_actions (od_obligation_id g) (rs_actions st)))"
    if g: "g \<in> set (va_deltas d)" for g
  proof -
    obtain g' where f: "delta_for (rs_actions st) (od_obligation_id g) g'"
      and gg: "g = g'\<lparr>od_actions := sort (od_actions g')\<rparr>" and nz: "atoms (od_amount g) \<noteq> 0"
      using each[OF g] by blast
    have am: "od_amount g = od_amount g'" "od_actions g = sort (od_actions g')" by (simp_all add: gg)
    have tot: "atoms (od_amount g) = obligation_total (od_obligation_id g) (rs_actions st)"
      using f by (simp add: delta_for_def am)
    have "0 \<le> obligation_total (od_obligation_id g) (rs_actions st)"
      unfolding obligation_as_bindings[OF c(1) ok] by (rule loop_total_nonneg[OF ok])
    moreover obtain x where "x \<in> set (obligation_actions (od_obligation_id g) (rs_actions st))"
      "currency (od_amount g) = currency (ca_amount x)" "mscale (od_amount g) = mscale (ca_amount x)"
      using f by (auto simp: delta_for_def am)
    ultimately show ?thesis
      using tot nz facts(2,3)[of x] f c(2,3) by (simp add: delta_for_def am obligation_actions_def)
  qed
  show ?thesis unfolding acts
  proof (intro conjI ballI allI iffI)
    show "sorted_wrt (<) (map od_obligation_id (va_deltas d))" by (rule s)
    show "0 \<le> action_total (\<lambda>b'. b' = b) (rs_actions st)" for b by (rule loop_total_nonneg[OF ok])
    show "ob \<in> od_obligation_id ` set (va_deltas d)" if "obligation_total ob (rs_actions st) \<noteq> 0" for ob
      by (rule all[OF that])
    show "obligation_total ob (rs_actions st) \<noteq> 0" if "ob \<in> od_obligation_id ` set (va_deltas d)" for ob
    proof -
      from that obtain g where g: "g \<in> set (va_deltas d)" "ob = od_obligation_id g" by auto
      show ?thesis unfolding g(2) using parts[OF g(1)] by (elim conjE) linarith
    qed
  qed (use parts in blast)+
qed

end
