(* ===== verification/Chain_Reservations.thy ===== *)
theory Chain_Reservations
  imports Chain_Properties
begin

text \<open>
  Reservations of the chained policies: what a decision consumes and releases of the invocations
  its suppliers were authorized for, and what the chain used of one over all its decisions.
\<close>

section \<open>What was used\<close>

definition used_of :: "string \<Rightarrow> consumption list \<Rightarrow> int" where
  "used_of ident cs = sum_list (map (\<lambda>c. atoms (cn_consume c) + atoms (cn_release c))
     (filter (\<lambda>c. cn_invocation_id c = ident) cs))"

definition chain_used :: "string \<Rightarrow> evaluation list \<Rightarrow> int" where
  "chain_used ident history = sum_list (map (\<lambda>d. used_of ident (va_consumptions d)) history)"

lemma used_by_Inr: "rfold (used_by ident) cs u = Inr v \<Longrightarrow> v = u + used_of ident cs"
proof (induction cs arbitrary: u)
  case (Cons c cs)
  then obtain w where w: "used_by ident c u = Inr w" "rfold (used_by ident) cs w = Inr v"
    by (auto simp: rbind_Inr_iff)
  have "w = u + (if cn_invocation_id c = ident then atoms (cn_consume c) + atoms (cn_release c) else 0)"
    using w(1) by (auto simp: used_by_def split: if_splits)
  then show ?case using Cons.IH[OF w(2)] by (simp add: used_of_def)
qed (simp add: used_of_def)

lemma used_in_Inr:
  "rfold (used_in i) history u = Inr v \<Longrightarrow> v = u + chain_used (iv_id i) history
     \<and> (\<forall>d \<in> set history. \<forall>old. find (\<lambda>old. iv_id old = iv_id i) (va_invocations d) = Some old \<longrightarrow> same_terms i old)"
proof (induction history arbitrary: u)
  case (Cons d history)
  then obtain w where w: "used_in i d u = Inr w" "rfold (used_in i) history w = Inr v"
    by (auto simp: rbind_Inr_iff)
  from w(1) have "rfold (used_by (iv_id i)) (va_consumptions d) u = Inr w"
    and terms: "\<forall>old. find (\<lambda>old. iv_id old = iv_id i) (va_invocations d) = Some old \<longrightarrow> same_terms i old"
    by (auto simp: used_in_def rbind_Inr_iff split: option.splits)
  from used_by_Inr[OF this(1)] show ?case using Cons.IH[OF w(2)] terms by (auto simp: chain_used_def)
qed (simp add: chain_used_def)

lemma rfilter_Inr:
  "rfilter f xs = Inr ys \<Longrightarrow> set ys = {x \<in> set xs. f x = Inr True} \<and> (\<forall>x \<in> set xs. \<exists>b. f x = Inr b)"
proof (induction xs arbitrary: ys)
  case (Cons x xs)
  then obtain b zs where b: "f x = Inr b" "rfilter f xs = Inr zs" "ys = (if b then x # zs else zs)"
    by (auto simp: rbind_Inr_iff)
  then show ?case using Cons.IH[OF b(2)] by (cases b) auto
qed simp

text \<open>An invocation found is one of the input's, of the binding, with room for what it holds.\<close>

lemma find_invocation_Inr:
  assumes "find_invocation b input matched = Inr i"
  shows "i \<in> set (ip_invocations input)" "iv_binding_id i = cb_id b" "0 \<le> atoms (iv_held i)"
    "chain_used (iv_id i) (ip_history input) + atoms (iv_held i) \<le> atoms (iv_maximum_exposure i)"
    "\<exists>m. cb_maximum_exposure b = Some m \<and> atoms (iv_maximum_exposure i) \<le> atoms m"
proof -
  from assms obtain cs where cs: "rfilter (candidate_invocation b (ip_event input) matched) (ip_invocations input) = Inr cs"
    and "cs = [i]"
    by (auto simp: find_invocation_def Let_def simp del: rfold.simps split: list.splits)
  then have i: "i \<in> set (ip_invocations input)" "candidate_invocation b (ip_event input) matched i = Inr True"
    using rfilter_Inr[OF cs] by auto
  then show "i \<in> set (ip_invocations input)" "iv_binding_id i = cb_id b"
    by (auto simp: candidate_invocation_def split: if_splits)
  from assms obtain u m where u: "rfold (used_in i) (ip_history input) 0 = Inr u"
    and le: "u + atoms (iv_held i) \<le> atoms (iv_maximum_exposure i)"
    and m: "cb_maximum_exposure b = Some m" "invocation_limits i m"
    by (auto simp: find_invocation_def Let_def cs \<open>cs = [i]\<close> simp del: rfold.simps)
  show "0 \<le> atoms (iv_held i)" using m(2) by (simp add: invocation_limits_def)
  show "\<exists>m. cb_maximum_exposure b = Some m \<and> atoms (iv_maximum_exposure i) \<le> atoms m"
    using m by (auto simp: invocation_limits_def)
  show "chain_used (iv_id i) (ip_history input) + atoms (iv_held i) \<le> atoms (iv_maximum_exposure i)"
    using le used_in_Inr[OF u] by simp
qed

section \<open>The consumption of a supplier\<close>

definition supplier_total :: "chain_binding \<Rightarrow> chain_action list \<Rightarrow> int" where
  "supplier_total b actions = sum_list (map (\<lambda>a. atoms (ca_amount a))
     (filter (\<lambda>a. cb_id (ca_binding a) = cb_id b \<and> ca_book a = Supplier) actions))"

lemma total_atoms_from:
  "rfold (\<lambda>a total. add_atoms total (atoms (ca_amount a))) xs u = Inr v
     \<Longrightarrow> v = u + sum_list (map (\<lambda>a. atoms (ca_amount a)) xs)"
proof (induction xs arbitrary: u)
  case (Cons a xs)
  then have "rfold (\<lambda>a total. add_atoms total (atoms (ca_amount a))) xs (u + atoms (ca_amount a)) = Inr v"
    by (auto simp: rbind_Inr_iff)
  from Cons.IH[OF this] show ?case by simp
qed simp

lemma total_atoms_Inr: "total_atoms keep actions = Inr v \<Longrightarrow> v = sum_list (map (\<lambda>a. atoms (ca_amount a)) (filter keep actions))"
  using total_atoms_from[of "filter keep actions" 0 v] by (simp add: total_atoms_def)

lemma choose_Inr:
  assumes "rfold (choose_invocation sha256 input b) rules chosen = Inr (Some ident)"
    and "\<And>x. chosen = Some x \<Longrightarrow> \<exists>m i. find_invocation b input m = Inr i \<and> iv_id i = x"
  shows "\<exists>m i. find_invocation b input m = Inr i \<and> iv_id i = ident"
proof -
  let ?P = "\<lambda>c. \<forall>x. c = Some x \<longrightarrow> (\<exists>m i. find_invocation b input m = Inr i \<and> iv_id i = x)"
  have "?P (Some ident)"
  proof (rule rfold_invariant[where P = ?P, OF assms(1)])
    show "?P chosen" using assms(2) by blast
    fix r c c' assume "?P c" "choose_invocation sha256 input b r c = Inr c'"
    then consider "c' = c" | m i where "find_invocation b input m = Inr i" "c' = Some (iv_id i)"
      by (auto simp: choose_invocation_def split: if_splits)
    then show "?P c'" using \<open>?P c\<close> by cases auto
  qed
  then show ?thesis by blast
qed

text \<open>What is known of one consumption: the policy and the invocation it comes from.\<close>

definition consumption_of :: "chain_input \<Rightarrow> chain_action list \<Rightarrow> chain_policy \<Rightarrow> invocation \<Rightarrow> consumption \<Rightarrow> bool" where
  "consumption_of input actions p i c \<longleftrightarrow> cb_book (ch_binding p) = Supplier \<and> i \<in> set (ip_invocations input)
     \<and> iv_binding_id i = cb_id (ch_binding p) \<and> cn_invocation_id c = iv_id i
     \<and> atoms (cn_consume c) = supplier_total (ch_binding p) actions
     \<and> 0 \<le> atoms (cn_consume c) \<and> atoms (cn_consume c) \<le> atoms (iv_held i)
     \<and> atoms (cn_release c) = (if closes p input then atoms (iv_held i) - atoms (cn_consume c) else 0)
     \<and> chain_used (iv_id i) (ip_history input) + atoms (iv_held i) \<le> atoms (iv_maximum_exposure i)
     \<and> (\<exists>m. cb_maximum_exposure (ch_binding p) = Some m \<and> atoms (iv_maximum_exposure i) \<le> atoms m)"

lemma find_unique:
  assumes "distinct (map f xs)" and "x \<in> set xs"
  shows "find (\<lambda>y. f y = f x) xs = Some x"
  using assms
proof (induction xs)
  case (Cons y xs)
  have "f y \<noteq> f x" if "x \<in> set xs" using Cons.prems(1) that by auto
  then show ?case using Cons by auto
qed simp

lemma policy_consumption_Inr:
  assumes "policy_consumption sha256 bu input actions p acc = Inr acc'" and "distinct (map iv_id (ip_invocations input))"
  shows "acc' = acc \<or> (\<exists>i c. acc' = acc @ [c] \<and> consumption_of input actions p i c)"
proof (cases "cb_book (ch_binding p) \<noteq> Supplier \<or> relevant_rules p input = []")
  case False
  then have no: "(cb_book (ch_binding p) \<noteq> Supplier \<or> relevant_rules p input = []) = False" by simp
  from assms(1) obtain chosen where ch: "rfold (choose_invocation sha256 input (ch_binding p)) (relevant_rules p input) None = Inr chosen"
    and rest: "(case chosen of None \<Rightarrow> Inr acc
        | Some ident \<Rightarrow>
            rbind (ok_or (find (\<lambda>i. iv_id i = ident) (ip_invocations input)) Panic) (\<lambda>i.
            rbind (total_atoms (\<lambda>a. cb_id (ca_binding a) = cb_id (ch_binding p) \<and> ca_book a = Supplier) actions) (\<lambda>consume.
            rbind (ensure (consume \<ge> 0 \<and> consume \<le> atoms (iv_held i))
              (Error ''EXPOSURE_EXCEEDED'' ''supplier decision exceeds held authorization'')) (\<lambda>_.
            rbind (money_new (bu_currency bu) (bu_scale bu) consume) (\<lambda>consumed.
            rbind (if closes p input then trap_i128 (atoms (iv_held i) - consume) else Inr 0) (\<lambda>rest.
            rbind (money_new (bu_currency bu) (bu_scale bu) rest) (\<lambda>released.
            Inr (acc @ [\<lparr>cn_invocation_id = iv_id i, cn_consume = consumed, cn_release = released\<rparr>])))))))) = Inr acc'"
    unfolding policy_consumption_def Let_def no if_False by (rule rbind_InrE)
  show ?thesis
  proof (cases chosen)
    case (Some ident)
    with ch obtain m i where i: "find_invocation (ch_binding p) input m = Inr i" "iv_id i = ident"
      using choose_Inr[of sha256 input "ch_binding p" "relevant_rules p input" None ident] by auto
    note f = find_invocation_Inr[OF i(1)]
    have found: "find (\<lambda>x. iv_id x = ident) (ip_invocations input) = Some i"
      using find_unique[OF assms(2) f(1)] by (simp add: i(2))
    from rest Some found obtain total rest_atoms where t: "total_atoms (\<lambda>a. cb_id (ca_binding a) = cb_id (ch_binding p) \<and> ca_book a = Supplier) actions = Inr total"
      and b: "0 \<le> total" "total \<le> atoms (iv_held i)"
      and r: "rest_atoms = (if closes p input then atoms (iv_held i) - total else 0)"
      and acc': "acc' = acc @ [\<lparr>cn_invocation_id = iv_id i,
          cn_consume = \<lparr>currency = bu_currency bu, mscale = bu_scale bu, atoms = total\<rparr>,
          cn_release = \<lparr>currency = bu_currency bu, mscale = bu_scale bu, atoms = rest_atoms\<rparr>\<rparr>]"
      by (auto simp: trap_i128_def split: if_splits)
    have "total = supplier_total (ch_binding p) actions" using total_atoms_Inr[OF t] by (simp add: supplier_total_def)
    then show ?thesis
      using acc' b r f False by (auto simp: consumption_of_def)
  qed (use rest in simp)
qed (use assms(1) in \<open>auto simp: policy_consumption_def\<close>)

lemma policy_consumptions_Inr:
  assumes "rfold (policy_consumption sha256 bu input actions) ps acc = Inr out"
    and d: "distinct (map iv_id (ip_invocations input))"
  shows "\<exists>new. out = acc @ new \<and> (\<forall>c \<in> set new. \<exists>p \<in> set ps. \<exists>i. consumption_of input actions p i c)
    \<and> (distinct (map (\<lambda>p. cb_id (ch_binding p)) ps) \<longrightarrow> distinct (map cn_invocation_id new))"
  using assms(1)
proof (induction ps arbitrary: acc)
  case (Cons p ps)
  then obtain acc1 where one: "policy_consumption sha256 bu input actions p acc = Inr acc1"
    and rest: "rfold (policy_consumption sha256 bu input actions) ps acc1 = Inr out" by (auto simp: rbind_Inr_iff)
  from Cons.IH[OF rest] obtain new where new: "out = acc1 @ new"
    "\<forall>c \<in> set new. \<exists>p \<in> set ps. \<exists>i. consumption_of input actions p i c"
    "distinct (map (\<lambda>p. cb_id (ch_binding p)) ps) \<longrightarrow> distinct (map cn_invocation_id new)" by blast
  from policy_consumption_Inr[OF one d] consider "acc1 = acc"
    | i c where "acc1 = acc @ [c]" "consumption_of input actions p i c" by blast
  then show ?case
  proof cases
    case 1
    then show ?thesis using new by (intro exI[of _ new]) auto
  next
    case 2
    have "cn_invocation_id c \<notin> cn_invocation_id ` set new" if ids: "distinct (map (\<lambda>p. cb_id (ch_binding p)) (p # ps))"
    proof
      assume "cn_invocation_id c \<in> cn_invocation_id ` set new"
      then obtain c' where c': "c' \<in> set new" "cn_invocation_id c' = cn_invocation_id c" by force
      then obtain q j where q: "q \<in> set ps" "consumption_of input actions q j c'" using new(2) by blast
      have "iv_id i = iv_id j" using 2(2) q(2) c'(2) by (simp add: consumption_of_def)
      moreover have "i \<in> set (ip_invocations input)" "j \<in> set (ip_invocations input)"
        using 2(2) q(2) by (simp_all add: consumption_of_def)
      ultimately have "i = j" using d by (simp add: distinct_map inj_on_def)
      then have "cb_id (ch_binding p) = cb_id (ch_binding q)" using 2(2) q(2) by (simp add: consumption_of_def)
      then show False using ids q(1) by auto
    qed
    then show ?thesis using new 2 by (intro exI[of _ "c # new"]) auto
  qed
qed simp

lemma check_input_distinct: "check_input sha256 bu input = Inr claim \<Longrightarrow> distinct (map iv_id (ip_invocations input))"
  by (auto simp: check_input_def Let_def)

lemma evaluated_consumptions:
  assumes "compiled_bundle bu" and "bundle_evaluate sha256 bu input = Inr d"
  shows "distinct (map cn_invocation_id (va_consumptions d))
    \<and> (\<forall>c \<in> set (va_consumptions d). \<exists>p \<in> set (bu_policies bu). \<exists>i. consumption_of input (va_actions d) p i c)"
proof -
  have run: "chain_consumptions sha256 bu input (va_actions d) = Inr (va_consumptions d)"
    using evaluated_actions[OF assms] by auto
  have ids: "distinct (map iv_id (ip_invocations input))"
    using bundle_evaluate_Inr[OF assms(2)] check_input_distinct by blast
  from run obtain out where out: "rfold (policy_consumption sha256 bu input (va_actions d)) (bu_policies bu) [] = Inr out"
    and srt: "va_consumptions d = sort_key cn_invocation_id out" by (auto simp: chain_consumptions_def)
  from policy_consumptions_Inr[OF out ids] have "distinct (map cn_invocation_id out)"
    "\<forall>c \<in> set out. \<exists>p \<in> set (bu_policies bu). \<exists>i. consumption_of input (va_actions d) p i c"
    using assms(1) by (auto simp: compiled_bundle_def)
  then show ?thesis by (auto simp: srt distinct_map inj_on_def)
qed

lemma used_of_distinct:
  assumes "distinct (map cn_invocation_id cs)" and "c \<in> set cs"
  shows "used_of (cn_invocation_id c) cs = atoms (cn_consume c) + atoms (cn_release c)"
proof -
  have "filter (\<lambda>x. cn_invocation_id x = cn_invocation_id c) cs = [c]"
    using assms
  proof (induction cs)
    case (Cons x cs)
    show ?case
    proof (cases "x = c")
      case True
      have "filter (\<lambda>y. cn_invocation_id y = cn_invocation_id c) cs = []"
        using Cons.prems(1) unfolding True filter_empty_conv by (metis distinct.simps(2) image_eqI list.set_map list.simps(9))
      then show ?thesis using True by simp
    next
      case False
      then have "c \<in> set cs" using Cons.prems by simp
      moreover from this have "cn_invocation_id x \<noteq> cn_invocation_id c" using Cons.prems(1) by auto
      ultimately show ?thesis using Cons by simp
    qed
  qed simp
  then show ?thesis by (simp add: used_of_def)
qed

text \<open>
  C6: reservations are conserved. Every consumption of a decision belongs to one supplier and to
  the one invocation nominated for it, no invocation twice; it consumes exactly what the supplier
  booked in the decision, never more than the invocation holds. It releases all the rest of what is
  held when the decision closes the reservation, and nothing when it does not. With this decision
  added, the chain has consumed and
  released of that invocation at most the exposure the invocation, and so the binding, allows:
  held capacity is never replenished.
\<close>

theorem chain_reservation_conserved:
  assumes "bundle_compile cur scale ps = Inr bu" and "bundle_evaluate sha256 bu input = Inr d"
  shows "distinct (map cn_invocation_id (va_consumptions d))
    \<and> (\<forall>c \<in> set (va_consumptions d). \<exists>p \<in> set (bu_policies bu). \<exists>i \<in> set (ip_invocations input).
         cb_book (ch_binding p) = Supplier \<and> iv_binding_id i = cb_id (ch_binding p) \<and> cn_invocation_id c = iv_id i
         \<and> atoms (cn_consume c) = supplier_total (ch_binding p) (va_actions d)
         \<and> 0 \<le> atoms (cn_consume c) \<and> atoms (cn_consume c) \<le> atoms (iv_held i)
         \<and> atoms (cn_release c) = (if closes p input then atoms (iv_held i) - atoms (cn_consume c) else 0)
         \<and> chain_used (iv_id i) (ip_history input @ [d]) \<le> atoms (iv_maximum_exposure i)
         \<and> (\<exists>m. cb_maximum_exposure (ch_binding p) = Some m \<and> atoms (iv_maximum_exposure i) \<le> atoms m))"
proof -
  note c = compile_compiled(1)[OF assms(1)]
  note e = evaluated_consumptions[OF c assms(2)]
  show ?thesis
  proof (intro conjI ballI)
    show "distinct (map cn_invocation_id (va_consumptions d))" using e by blast
    fix x assume x: "x \<in> set (va_consumptions d)"
    then obtain p i where p: "p \<in> set (bu_policies bu)" "consumption_of input (va_actions d) p i x" using e by blast
    have "used_of (iv_id i) (va_consumptions d) = atoms (cn_consume x) + atoms (cn_release x)"
      using used_of_distinct[OF _ x] e p(2) by (simp add: consumption_of_def)
    then have "chain_used (iv_id i) (ip_history input @ [d])
        = chain_used (iv_id i) (ip_history input) + (atoms (cn_consume x) + atoms (cn_release x))"
      by (simp add: chain_used_def)
    then show "\<exists>p \<in> set (bu_policies bu). \<exists>i \<in> set (ip_invocations input).
         cb_book (ch_binding p) = Supplier \<and> iv_binding_id i = cb_id (ch_binding p) \<and> cn_invocation_id x = iv_id i
         \<and> atoms (cn_consume x) = supplier_total (ch_binding p) (va_actions d)
         \<and> 0 \<le> atoms (cn_consume x) \<and> atoms (cn_consume x) \<le> atoms (iv_held i)
         \<and> atoms (cn_release x) = (if closes p input then atoms (iv_held i) - atoms (cn_consume x) else 0)
         \<and> chain_used (iv_id i) (ip_history input @ [d]) \<le> atoms (iv_maximum_exposure i)
         \<and> (\<exists>m. cb_maximum_exposure (ch_binding p) = Some m \<and> atoms (iv_maximum_exposure i) \<le> atoms m)"
      using p by (intro bexI[of _ p] bexI[of _ i]) (auto simp: consumption_of_def split: if_splits)
  qed
qed

end
