(* ===== verification/Chain_Reversal.thy ===== *)
theory Chain_Reversal
  imports Chain_Properties
begin

text \<open>
  Reversals of the chained policies: the exact negation of every action of the targets, once.
\<close>

lemma obligation_total_mset:
  "obligation_total ob xs = sum_mset (image_mset (\<lambda>a. atoms (ca_amount a)) (filter_mset (\<lambda>a. payable a \<and> ca_obligation_id a = ob) (mset xs)))"
  by (simp only: obligation_total_def obligation_actions_def mset_filter[symmetric] mset_map[symmetric] sum_mset_sum_list)

text \<open>One action and its reversal.\<close>

definition reverses_action :: "chain_action \<Rightarrow> chain_action \<Rightarrow> bool" where
  "reverses_action a x \<longleftrightarrow> ca_reverses x = Some (ca_id a) \<and> ca_kind x = KReversal \<and> ca_inputs x = [ca_id a]
     \<and> ca_amount x = (ca_amount a)\<lparr>atoms := - atoms (ca_amount a)\<rparr> \<and> ca_binding x = ca_binding a \<and> ca_book x = ca_book a
     \<and> ca_component x = ca_component a \<and> ca_obligation_id x = ca_obligation_id a
     \<and> ca_allocation_parent x = ca_allocation_parent a \<and> ca_allocation_recipient x = ca_allocation_recipient a"

lemma reversal_action_Inr:
  assumes "reversal_action sha256 e (source, a) = Inr x"
  shows "reverses_action a x" "money_ok (ca_amount x)"
  using assms by (auto simp: reversal_action_def reverses_action_def trap_i128_def split: if_splits)

lemma rmap_list_all2:
  assumes "rmap f xs = Inr ys" and "\<And>x y. f x = Inr y \<Longrightarrow> R x y"
  shows "list_all2 R xs ys"
  using assms by (induction xs arbitrary: ys) (auto simp: rbind_Inr_iff)

lemma reversed_totals:
  assumes "list_all2 reverses_action xs ys"
  shows "obligation_total ob ys = - obligation_total ob xs"
  using assms
proof (induction rule: list_all2_induct)
  case (Cons x xs y ys)
  then have "payable y = payable x" "ca_obligation_id y = ca_obligation_id x" "atoms (ca_amount y) = - atoms (ca_amount x)"
    by (simp_all add: reverses_action_def payable_def)
  then show ?case using Cons.IH by (simp add: obligation_total_def obligation_actions_def)
qed (simp add: obligation_total_def obligation_actions_def)

definition target_actions :: "evaluation list \<Rightarrow> chain_action list" where
  "target_actions selected = concat (map va_actions selected)"

lemma originals_mset: "mset (map snd (originals_of selected)) = mset (target_actions selected)"
proof -
  have flat: "map snd (concat (map (\<lambda>d. map (\<lambda>a. (event_ident (va_event d), a)) (va_actions d)) selected)) = target_actions selected"
    by (induction selected) (simp_all add: target_actions_def comp_def)
  have "mset (map snd (originals_of selected))
      = mset (map snd (concat (map (\<lambda>d. map (\<lambda>a. (event_ident (va_event d), a)) (va_actions d)) selected)))"
    by (simp only: originals_of_def mset_map mset_sort)
  then show ?thesis by (simp only: flat)
qed

lemma check_target_actions_Inr:
  assumes "rfold (check_target_action e history) as ids = Inr ids'"
  shows "ids' = ids \<union> ca_id ` set as \<and> (\<forall>a \<in> set as. \<not> is_reversed (ca_id a) history)"
  using assms
proof (induction as arbitrary: ids)
  case (Cons a as)
  then obtain m where m: "check_target_action e history a ids = Inr m" "rfold (check_target_action e history) as m = Inr ids'"
    by (auto simp: rbind_Inr_iff)
  from m(1) have "m = insert (ca_id a) ids" "\<not> is_reversed (ca_id a) history" by (auto simp: check_target_action_def)
  then show ?case using Cons.IH[OF m(2)] by auto
qed simp

lemma check_targets_Inr:
  assumes "rfold (check_target e history d0) ds ids = Inr ids'"
  shows "ids' = ids \<union> ca_id ` set (target_actions ds) \<and> (\<forall>a \<in> set (target_actions ds). \<not> is_reversed (ca_id a) history)
    \<and> (\<forall>d \<in> set ds. va_actions d \<noteq> [] \<and> same_pins d d0 \<and> event_kind_of (va_event d) \<noteq> EconomicReversal)"
  using assms
proof (induction ds arbitrary: ids)
  case (Cons d ds)
  then obtain m where m: "check_target e history d0 d ids = Inr m" "rfold (check_target e history d0) ds m = Inr ids'"
    by (auto simp: rbind_Inr_iff)
  from m(1) have d: "event_kind_of (va_event d) \<noteq> EconomicReversal" "va_actions d \<noteq> []" "same_pins d d0"
    and "rfold (check_target_action e history) (va_actions d) ids = Inr m"
    by (auto simp: check_target_def simp del: rfold.simps)
  then show ?case using check_target_actions_Inr[of e history "va_actions d" ids m] Cons.IH[OF m(2)]
    by (auto simp: target_actions_def)
qed (simp add: target_actions_def)

lemma rfold_unit_all: "rfold (\<lambda>x _. f x) xs () = Inr u \<Longrightarrow> \<forall>x \<in> set xs. f x = Inr ()"
  by (induction xs) (auto simp: rbind_Inr_iff)

lemma check_reversal_Inr:
  assumes "check_reversal e history authority = Inr selected"
  shows "\<exists>targets. ev_targets (e_dto e) = Some targets \<and> select_targets history targets = Inr selected
    \<and> (\<forall>a \<in> set (target_actions selected). \<not> is_reversed (ca_id a) history)
    \<and> (\<forall>d \<in> set selected. va_actions d \<noteq> [] \<and> event_kind_of (va_event d) \<noteq> EconomicReversal)
    \<and> (\<forall>d \<in> set history. check_dependents history targets (ca_id ` set (target_actions selected)) d = Inr ())"
proof -
  from assms obtain targets d0 ids where t: "ev_targets (e_dto e) = Some targets" "select_targets history targets = Inr selected"
    and c: "rfold (check_target e history d0) selected {} = Inr ids"
    and dep: "rfold (\<lambda>d _. check_dependents history targets ids d) history () = Inr ()"
    by (auto simp: check_reversal_def simp del: rfold.simps)
  note k = check_targets_Inr[OF c]
  then have "ids = ca_id ` set (target_actions selected)" by simp
  then show ?thesis using t k rfold_unit_all[OF dep] by blast
qed

lemma chain_reverse_Inr:
  assumes "chain_reverse sha256 e history authority = Inr r"
  shows "\<exists>selected. check_reversal e history authority = Inr selected
    \<and> rmap (reversal_action sha256 e) (originals_of selected) = Inr (va_actions r)
    \<and> chain_deltas (va_actions r) = Inr (va_deltas r)"
  using assms by (auto simp: chain_reverse_def)

lemma select_targets_find:
  assumes "select_targets history targets = Inr selected" and "t \<in> set targets"
  shows "\<exists>d \<in> set selected. find (\<lambda>d. event_ident (va_event d) = t) history = Some d"
  using assms unfolding select_targets_def by (induction targets arbitrary: selected) (auto simp: rbind_Inr_iff)

lemma find_append: "find P xs = Some x \<Longrightarrow> find P (xs @ ys) = Some x"
  by (induction xs) auto

text \<open>
  C7: a reversal undoes its target decisions exactly and once. Its actions are, in some order, one
  for every action of every target: the same binding, book, component and obligation with the
  negated amount. Hence every obligation moves back by exactly what the targets moved it, which is
  what the changes it lists say. None of the originals was reversed before, no decision that still
  counts and is not reversed with them rests on one of them. From now on, whatever decisions are
  added to the history after it, every reversal that names one of the targets again is refused.
\<close>

theorem chain_reversal_exact:
  assumes "chain_reverse sha256 e history authority = Inr r"
  shows "\<exists>targets selected. ev_targets (e_dto e) = Some targets \<and> select_targets history targets = Inr selected
    \<and> (\<exists>originals. mset originals = mset (target_actions selected) \<and> list_all2 reverses_action originals (va_actions r))
    \<and> (\<forall>ob. obligation_total ob (va_actions r) = - obligation_total ob (target_actions selected))
    \<and> deltas_of (va_actions r) (va_deltas r)
    \<and> (\<forall>a \<in> set (target_actions selected). \<not> is_reversed (ca_id a) history \<and> is_reversed (ca_id a) (history @ [r]))
    \<and> (\<forall>d \<in> set history. event_ident (va_event d) \<notin> set targets \<and> event_kind_of (va_event d) \<noteq> EconomicReversal
         \<and> live_economics history d \<longrightarrow> set (decision_inputs d) \<inter> ca_id ` set (target_actions selected) = {})
    \<and> (\<forall>later hash e' authority' targets' r'. ev_targets (e_dto e') = Some targets' \<and> set targets' \<inter> set targets \<noteq> {}
         \<longrightarrow> chain_reverse hash e' (history @ r # later) authority' \<noteq> Inr r')"
proof -
  obtain selected where chk: "check_reversal e history authority = Inr selected"
    and acts: "rmap (reversal_action sha256 e) (originals_of selected) = Inr (va_actions r)"
    and dl: "chain_deltas (va_actions r) = Inr (va_deltas r)" using chain_reverse_Inr[OF assms] by blast
  from check_reversal_Inr[OF chk] obtain targets where t: "ev_targets (e_dto e) = Some targets"
    and sel: "select_targets history targets = Inr selected"
    and fresh: "\<forall>a \<in> set (target_actions selected). \<not> is_reversed (ca_id a) history"
    and dep: "\<forall>d \<in> set history. check_dependents history targets (ca_id ` set (target_actions selected)) d = Inr ()" by blast
  let ?R = "\<lambda>p x. reverses_action (snd p) x \<and> money_ok (ca_amount x)"
  have each: "?R p x" if "reversal_action sha256 e p = Inr x" for p x
    using reversal_action_Inr[of sha256 e "fst p" "snd p" x] that by simp
  have pairs: "list_all2 ?R (originals_of selected) (va_actions r)" by (rule rmap_list_all2[OF acts each])
  then have rev: "list_all2 reverses_action (map snd (originals_of selected)) (va_actions r)"
    by (simp add: list_all2_conv_all_nth)
  have mok: "\<forall>x \<in> set (va_actions r). money_ok (ca_amount x)"
    using pairs by (auto simp: list_all2_conv_all_nth in_set_conv_nth)
  have orig: "set (map snd (originals_of selected)) = set (target_actions selected)"
    by (rule mset_eq_setD[OF originals_mset])
  have now: "is_reversed (ca_id a) (hs @ r # later)" if a: "a \<in> set (target_actions selected)" for a hs later
  proof -
    obtain i where i: "i < length (map snd (originals_of selected))" "map snd (originals_of selected) ! i = a"
      using a orig by (metis in_set_conv_nth)
    then have "reverses_action a (va_actions r ! i)" "va_actions r ! i \<in> set (va_actions r)"
      using rev by (auto simp: list_all2_conv_all_nth)
    then show ?thesis by (auto simp: is_reversed_def list_ex_iff reverses_action_def)
  qed
  have again: "chain_reverse hash e' (history @ r # later) authority' \<noteq> Inr r'"
    if e': "ev_targets (e_dto e') = Some targets' \<and> set targets' \<inter> set targets \<noteq> {}" for later hash e' authority' targets' r'
  proof
    assume "chain_reverse hash e' (history @ r # later) authority' = Inr r'"
    then obtain selected' where "check_reversal e' (history @ r # later) authority' = Inr selected'"
      using chain_reverse_Inr by blast
    from check_reversal_Inr[OF this] e' have sel': "select_targets (history @ r # later) targets' = Inr selected'"
      and fresh': "\<And>a. a \<in> set (target_actions selected') \<Longrightarrow> \<not> is_reversed (ca_id a) (history @ r # later)"
      and some': "\<And>d. d \<in> set selected' \<Longrightarrow> va_actions d \<noteq> []" by auto
    obtain x where x: "x \<in> set targets'" "x \<in> set targets" using e' by blast
    obtain d where d: "d \<in> set selected" "find (\<lambda>d. event_ident (va_event d) = x) history = Some d"
      using select_targets_find[OF sel x(2)] by blast
    obtain d' where d': "d' \<in> set selected'" "find (\<lambda>d. event_ident (va_event d) = x) (history @ r # later) = Some d'"
      using select_targets_find[OF sel' x(1)] by blast
    have "d' = d" using find_append[OF d(2), of "r # later"] d'(2) by simp
    then obtain a where "a \<in> set (va_actions d)" using some'[OF d'(1)] by (cases "va_actions d") auto
    then have "a \<in> set (target_actions selected)" "a \<in> set (target_actions selected')"
      using d(1) d'(1) \<open>d' = d\<close> by (auto simp: target_actions_def)
    then show False using now[of a history later] fresh' by blast
  qed
  have dependents: "set (decision_inputs d) \<inter> ca_id ` set (target_actions selected) = {}"
    if "d \<in> set history" "event_ident (va_event d) \<notin> set targets \<and> event_kind_of (va_event d) \<noteq> EconomicReversal
         \<and> live_economics history d" for d
  proof -
    have "check_dependents history targets (ca_id ` set (target_actions selected)) d = Inr ()"
      using dep that(1) by (rule bspec)
    then show ?thesis using that(2) by (auto simp: check_dependents_def list_ex_iff)
  qed
  have total: "obligation_total ob (va_actions r) = - obligation_total ob (target_actions selected)" for ob
    using reversed_totals[OF rev] by (simp only: obligation_total_mset originals_mset)
  show ?thesis
  proof (intro exI[of _ targets] exI[of _ selected] conjI)
    show "\<exists>originals. mset originals = mset (target_actions selected) \<and> list_all2 reverses_action originals (va_actions r)"
      using originals_mset rev by blast
    show "deltas_of (va_actions r) (va_deltas r)" by (rule chain_deltas_of[OF dl mok])
    show "\<forall>d \<in> set history. event_ident (va_event d) \<notin> set targets \<and> event_kind_of (va_event d) \<noteq> EconomicReversal
         \<and> live_economics history d \<longrightarrow> set (decision_inputs d) \<inter> ca_id ` set (target_actions selected) = {}"
      using dependents by blast
    show "\<forall>later hash e' authority' targets' r'. ev_targets (e_dto e') = Some targets' \<and> set targets' \<inter> set targets \<noteq> {}
         \<longrightarrow> chain_reverse hash e' (history @ r # later) authority' \<noteq> Inr r'" using again by blast
  qed (use t sel fresh now total in blast)+
qed

end
