(* ===== verification/Chain_Safe.thy ===== *)
theory Chain_Safe
  imports Chain_Links Chain_Reservations Chain_Reversal
begin

text \<open>
  Evaluating, reversing and compiling chained policies never panics: no \<open>expect\<close> fails, no index is
  out of range and no arithmetic overflows, whatever the policies, the event and the history are.
\<close>

section \<open>Leaves\<close>

lemma safe_ok_or [calm]: "e \<noteq> Panic \<Longrightarrow> safe (ok_or m e)"
  by (cases m) (simp_all add: safe_def)

lemma safe_ok_or_some: "m \<noteq> None \<Longrightarrow> safe (ok_or m e)"
  by (cases m) simp_all

lemma safe_option [calm]:
  assumes "m = None \<Longrightarrow> safe a" and "\<And>x. m = Some x \<Longrightarrow> safe (f x)"
  shows "safe (case m of None \<Rightarrow> a | Some x \<Rightarrow> f x)"
  using assms by (cases m) simp_all

lemma safe_opt_check [calm]: "(\<And>x. v = Some x \<Longrightarrow> safe (f x)) \<Longrightarrow> safe (opt_check f v)"
  by (cases v) (simp_all add: opt_check_def)

lemma safe_rfilter [calm]: "(\<And>x. x \<in> set xs \<Longrightarrow> safe (f x)) \<Longrightarrow> safe (rfilter f xs)"
  by (induction xs) (auto intro!: safe_bind)

lemma safe_rfind [calm]: "(\<And>x. x \<in> set xs \<Longrightarrow> safe (f x)) \<Longrightarrow> safe (rfind f xs)"
  by (induction xs) (auto intro!: safe_bind)

lemma safe_index [calm]: "i < length xs \<Longrightarrow> safe (index xs i)"
  by (simp add: index_def)

lemma safe_trap [calm]: "in_i128 n \<Longrightarrow> safe (trap_i128 n)"
  by (simp add: trap_i128_def)

lemma error_leaves [simp, calm]: "Error c t \<noteq> Panic" "overflow \<noteq> Panic" "invalid_text \<noteq> Panic"
  by (simp_all add: overflow_def invalid_text_def)

lemma safe_checked_atoms [calm]: "safe (checked_atoms n)"
  by (simp add: checked_atoms_def overflow_def)

lemma safe_add_atoms [calm]: "safe (add_atoms a b)"
  unfolding add_atoms_def by (intro calm)

lemma safe_bounded [calm]: "safe (bounded n)"
  by (simp add: bounded_def overflow_def)

lemma safe_ratio_mul [calm]: "safe (ratio_mul x y)"
  unfolding ratio_mul_def Let_def by (intro calm)

lemma safe_round_atoms [calm]: "safe (round_atoms r)"
  unfolding round_atoms_def Let_def by (intro calm)

lemma safe_atoms_ratio [calm]: "safe (atoms_ratio d scale)"
  unfolding atoms_ratio_def by (intro calm)

lemma safe_atoms_exact [calm]: "safe (atoms_exact d scale)"
  unfolding atoms_exact_def by (intro calm)

lemma safe_percent [calm]: "safe (percent d)"
  unfolding percent_def ratio_div_def Let_def by (intro calm)

lemma safe_slug [calm]: "safe (slug s)"
  unfolding slug_def by (intro calm)

lemma safe_source [calm]: "safe (validate_source s)"
  unfolding validate_source_def Let_def by (intro calm)

lemma safe_decimal_leq [calm]: "safe (decimal_leq a b)"
  unfolding decimal_leq_def by (intro calm)

lemma safe_roles [calm]: "safe (roles_validate r)"
  unfolding roles_validate_def by (intro calm)

section \<open>Compilation\<close>

lemma safe_local_basis [calm]: "safe (local_basis p ri rule component ph)"
  unfolding local_basis_def by (intro calm)

lemma safe_validate_price [calm]: "safe (validate_price price scale)"
  by (cases price) (auto intro!: calm)

lemma safe_validate_discount [calm]: "safe (validate_discount d scale)"
  by (cases d) (auto intro!: calm)

lemma safe_check_priced [calm]: "safe (check_priced scale p ri rule price)"
  unfolding check_priced_def by (cases price) (auto intro!: calm)

lemma safe_check_operation [calm]: "safe (check_operation scale retail p ri rule)"
  unfolding check_operation_def check_cap_def check_share_def modifier_def
  by (cases "cr_operation rule") (auto intro!: calm)

lemma safe_check_predicate [calm]: "safe (check_predicate x)"
  by (cases x) (auto intro!: calm)

lemma safe_check_rule [calm]: "safe (check_rule scale retail p pn numbered st)"
  unfolding check_rule_def validate_matcher_def by (cases numbered; cases st) (auto intro!: calm)

lemma safe_binding_checks [calm]:
  "safe (binding_texts b)" "safe (binding_limits b)" "safe (binding_lists b)" "safe (binding_terms cur scale b)"
  unfolding binding_texts_def binding_limits_def binding_lists_def binding_terms_def by (intro calm)+

lemma safe_check_policy [calm]: "safe (check_policy cur scale retail numbered bs)"
  unfolding check_policy_def check_reserved_def Let_def
  by (cases numbered) (auto intro!: calm simp del: rfold.simps split: prod.splits)

lemma safe_compile: "safe (bundle_compile cur scale ps)"
  unfolding bundle_compile_def validate_currency_def Let_def by (intro calm)

section \<open>Inputs\<close>

text \<open>What normalization and resolution guarantee of an event of a chain.\<close>

definition chain_event_ok :: "event \<Rightarrow> bool" where
  "chain_event_ok e \<longleftrightarrow> event_ok e \<and> (event_kind_of e = Acquired \<longrightarrow> ev_occurred_at (e_dto e) \<noteq> None)
     \<and> (event_kind_of e = EconomicReversal \<longrightarrow> (\<exists>t ts. ev_targets (e_dto e) = Some (t # ts) \<and> distinct (t # ts)))"

definition chain_input_ok :: "chain_input \<Rightarrow> bool" where
  "chain_input_ok input \<longleftrightarrow> chain_event_ok (ip_event input) \<and> (\<forall>d \<in> set (ip_history input). chain_event_ok (va_event d))
     \<and> (\<forall>i \<in> set (ip_invocations input). money_ok (iv_held i))"

lemma chain_event_parts:
  assumes "chain_event_ok e"
  shows "safe (event_chain e)" "safe (operation_id (e_candidate e))" "is_work (event_kind_of e) \<Longrightarrow> safe (quantity_of e)"
    "event_kind_of e = Acquired \<Longrightarrow> safe (occurred e)" "safe (completion_claim_id sha256 e)"
  using assms safe_claim_id[of e sha256]
  by (auto simp: chain_event_ok_def event_ok_def event_chain_def operation_id_def quantity_of_def occurred_def
      event_kind_of_def intro!: safe_ok_or_some)

lemma safe_chain_claim [calm]: "chain_event_ok e \<Longrightarrow> safe (chain_claim_id sha256 e)"
  unfolding chain_claim_id_def using chain_event_parts(5) by (auto intro!: calm)

lemma safe_authority [calm]: "safe (validate_authority e a)"
  unfolding validate_authority_def by (intro calm)

lemma safe_history [calm]:
  assumes "chain_event_ok e" and "\<forall>d \<in> set history. chain_event_ok (va_event d)"
  shows "safe (validate_history e history)"
proof -
  have "safe (same_chain e d)" if "chain_event_ok d" for d
    unfolding same_chain_def using chain_event_parts(1) assms(1) that by (intro calm) auto
  moreover have "safe (history_action a h)" for a h unfolding history_action_def by (intro calm)
  ultimately have "safe (history_entry e d h)" if "d \<in> set history" for d h
    unfolding history_entry_def using assms(2) that by (intro calm) auto
  then show ?thesis unfolding validate_history_def by (intro calm)
qed

lemma safe_retail [calm]: "bu_policies bu \<noteq> [] \<Longrightarrow> safe (retail_of bu)"
  unfolding retail_of_def by (intro calm) simp

lemma safe_context [calm]: "bu_policies bu \<noteq> [] \<Longrightarrow> safe (validate_context bu input)"
  unfolding validate_context_def check_stage_def check_expected_def check_expected_component_def check_cap_stage_def Let_def
  by (intro calm) (auto intro!: calm split: chain_operation.splits)

lemma safe_depth: "safe (depth history e hops st)"
proof (induction history e hops st rule: depth.induct)
  case (1 history e hops st)
  then show ?case
    by (subst depth.simps) (auto intro!: calm simp del: rfold.simps)
qed

lemma safe_links [calm]: "safe (validate_links e history)"
  unfolding validate_links_def validate_link_def by (intro calm safe_depth)

section \<open>Bindings\<close>

lemma rfilter_true: "rfilter f xs = Inr ys \<Longrightarrow> y \<in> set ys \<Longrightarrow> f y = Inr True"
  using rfilter_Inr by fastforce

lemma link_target_history: "link_target history l = Some d \<Longrightarrow> d \<in> set history"
  by (auto simp: link_target_def find_Some_iff)

lemma parent_history: "parent child r history = Inr (Some d) \<Longrightarrow> d \<in> set history"
  by (auto simp: parent_def rbind_Inr_iff link_target_history split: option.splits)

text \<open>What a result satisfies, if there is one.\<close>

definition returns :: "('a \<Rightarrow> bool) \<Rightarrow> 'a result \<Rightarrow> bool" where
  "returns P r \<longleftrightarrow> (\<forall>x. r = Inr x \<longrightarrow> P x)"

named_theorems returning

lemma returns_leaves [returning]: "P x \<Longrightarrow> returns P (Inr x)" "returns P (Inl err)"
  by (simp_all add: returns_def)

lemma returns_bind [returning]: "(\<And>x. m = Inr x \<Longrightarrow> returns P (f x)) \<Longrightarrow> returns P (rbind m f)"
  by (cases m) (simp_all add: returns_def)

lemma returns_if [returning]: "(b \<Longrightarrow> returns P r) \<Longrightarrow> (\<not> b \<Longrightarrow> returns P s) \<Longrightarrow> returns P (if b then r else s)"
  by simp

lemma returns_option [returning]:
  "(m = None \<Longrightarrow> returns P a) \<Longrightarrow> (\<And>x. m = Some x \<Longrightarrow> returns P (f x)) \<Longrightarrow>
    returns P (case m of None \<Rightarrow> a | Some x \<Rightarrow> f x)"
  by (cases m) simp_all

lemma match_rule_returns:
  "returns (\<lambda>m. \<forall>x. m = Some x \<longrightarrow> mt_target x \<in> set history) (match_rule sha256 e m history)"
  unfolding match_rule_def Let_def by (intro returning) (auto dest: parent_history)

lemma match_rule_history: "match_rule sha256 e m history = Inr (Some x) \<Longrightarrow> mt_target x \<in> set history"
  using match_rule_returns[of history sha256 e m] by (simp add: returns_def)

lemma safe_parent [calm]: "safe (parent child r history)"
  unfolding parent_def by (intro calm)

lemma safe_link_identity [calm]: "safe (link_identity sha256 e r e')"
  unfolding link_identity_def by (intro calm) simp

lemma safe_match_rule [calm]: "safe (match_rule sha256 e m history)"
  unfolding match_rule_def Let_def by (intro calm)

definition evaluable :: "event \<Rightarrow> bool" where
  "evaluable e \<longleftrightarrow> is_work (event_kind_of e) \<or> event_kind_of e = Acquired"

definition exposed :: "chain_binding \<Rightarrow> bool" where
  "exposed b \<longleftrightarrow> (cb_book b = Supplier \<longrightarrow> cb_maximum_exposure b \<noteq> None)"

lemma safe_used_by [calm]: "safe (used_by ident c used)"
  unfolding used_by_def by (intro calm)

lemma safe_used_in [calm]: "safe (used_in i d used)"
  unfolding used_in_def by (intro calm)

lemma safe_find_invocation:
  assumes e: "chain_event_ok (ip_event input)" "evaluable (ip_event input)"
    and b: "cb_maximum_exposure b \<noteq> None"
    and m: "\<And>d. matched = Some d \<Longrightarrow> chain_event_ok (va_event d)"
  shows "safe (find_invocation b input matched)"
proof -
  let ?e = "ip_event input"
  have c: "safe (candidate_invocation b ?e matched i)" for i
    unfolding candidate_invocation_def using chain_event_parts(2)[OF e(1)] by (intro calm)
  have w: "safe (invocation_work b ?e i)" if "is_work (event_kind_of ?e)" for i
    unfolding invocation_work_def using chain_event_parts(3)[OF e(1) that] by (intro calm)
  have k: "safe (completed_by (va_event d) i)" if "matched = Some d" for d i
    unfolding completed_by_def using chain_event_parts(2)[OF m[OF that]] by (intro calm)
  have oc: "safe (invocation_outcome ?e matched i)"
    if nw: "\<not> is_work (event_kind_of ?e)" and ci: "candidate_invocation b ?e matched i = Inr True" for i
  proof -
    obtain d where d: "matched = Some d" using nw ci by (auto simp: candidate_invocation_def split: if_splits option.splits)
    have "safe (occurred ?e)" using nw e by (intro chain_event_parts(4)) (auto simp: evaluable_def)
    then show ?thesis unfolding invocation_outcome_def d using k[OF d] by (simp add: d) (intro calm)
  qed
  show ?thesis
    unfolding find_invocation_def Let_def
  proof (rule safe_bind)
    show "safe (rfilter (candidate_invocation b ?e matched) (ip_invocations input))" by (intro calm c)
    fix cs assume cs: "rfilter (candidate_invocation b ?e matched) (ip_invocations input) = Inr cs"
    show "safe (case cs of
        [i] \<Rightarrow>
          rbind (rfold (used_in i) (ip_history input) 0) (\<lambda>used.
          rbind (add_atoms used (atoms (iv_held i))) (\<lambda>total.
          rbind (ensure (total \<le> atoms (iv_maximum_exposure i))
            (Error ''EXPOSURE_EXCEEDED'' ''held capacity cannot be replenished'')) (\<lambda>_.
          rbind (check_text (iv_id i) 128) (\<lambda>_.
          rbind (check_text (iv_operation_id i) 128) (\<lambda>_.
          rbind (validate_source (iv_source i)) (\<lambda>_.
          rbind (event_chain ?e) (\<lambda>chain.
          rbind (ensure (iv_chain i = chain \<and> iv_customer i = ev_customer (e_dto ?e) \<and> iv_unit i = cb_unit b)
            (Error ''INVOCATION_SCOPE'' ''chain/customer/unit'')) (\<lambda>_.
          rbind (ok_or (cb_maximum_exposure b) Panic) (\<lambda>m.
          rbind (ensure (invocation_limits i m) (Error ''EXPOSURE_EXCEEDED'' ''invocation/held limits'')) (\<lambda>_.
          rbind (ensure (ts_micros (iv_authorized_at i) \<le> ts_micros (iv_attested_start i)
              \<and> ts_micros (iv_attested_start i) < ts_micros (iv_start_before i))
            (Error ''INVOCATION_EXPIRED'' ''attested work start, not report arrival'')) (\<lambda>_.
          rbind (decimal_leq (iv_maximum_quantity i) (cb_maximum_quantity b)) (\<lambda>ok.
          rbind (ensure ok (Error ''QUANTITY'' ''invocation ceiling'')) (\<lambda>_.
          rbind (if is_work (event_kind_of ?e) then invocation_work b ?e i else invocation_outcome ?e matched i) (\<lambda>_.
          Inr i))))))))))))))
      | _ \<Rightarrow> Inl (Error ''INVOCATION_REQUIRED'' ''one nominated supplier authorization''))"
    proof (cases cs rule: remdups_adj.cases)
      case (2 i)
      then have "candidate_invocation b ?e matched i = Inr True" using rfilter_true[OF cs] by simp
      then show ?thesis
        unfolding 2 list.case
        using w oc chain_event_parts(1)[OF e(1)] b by (intro calm safe_ok_or_some) simp_all
    qed simp_all
  qed
qed

lemma safe_validate_binding:
  assumes e: "chain_event_ok (ip_event input)" "evaluable (ip_event input)" and b: "exposed b"
    and m: "\<And>d. matched = Some d \<Longrightarrow> chain_event_ok (va_event d)"
  shows "safe (validate_binding b input matched)"
proof -
  let ?e = "ip_event input"
  have "safe (binding_work b ?e)" if "is_work (event_kind_of ?e)"
    unfolding binding_work_def using chain_event_parts(3)[OF e(1) that] by (intro calm)
  moreover have "safe (binding_outcome b input matched)" if "\<not> is_work (event_kind_of ?e)"
  proof -
    have "safe (occurred ?e)" using that e by (intro chain_event_parts(4)) (auto simp: evaluable_def)
    then have "safe (outcome_window terms ?e p received)" for terms p received
      unfolding outcome_window_def Let_def by (intro calm)
    then show ?thesis unfolding binding_outcome_def Let_def by (intro calm)
  qed
  moreover have "safe (find_invocation b input matched)" if "cb_book b = Supplier"
    using safe_find_invocation[OF e _ m] b that by (simp add: exposed_def)
  ultimately show ?thesis unfolding validate_binding_def Let_def by (intro calm)
qed

section \<open>Rules\<close>

lemma i128_sum: "\<bar>a\<bar> \<le> MAX_ATOMS \<Longrightarrow> \<bar>b\<bar> \<le> MAX_ATOMS \<Longrightarrow> in_i128 (a - b) \<and> in_i128 (- a) \<and> in_i128 (b - a)"
  by (auto simp: MAX_ATOMS_def int_ranges)

lemma safe_identities [calm]:
  "safe (action_identity sha256 e claim b component links)" "safe (obligation_identity sha256 bu e b k)"
  unfolding action_identity_def obligation_identity_def Let_def by (intro calm; simp)+

lemma safe_make_action [calm]:
  "safe (make_action sha256 bu e claim b kind k component n sources links inputs target)"
  unfolding make_action_def Let_def by (auto intro!: calm split: prod.split)

lemma safe_price_value:
  assumes "chain_event_ok e" and "\<And>rate unit. price = PriceUnit rate unit \<Longrightarrow> is_work (event_kind_of e)"
  shows "safe (price_value price scale e pn booked actions s)"
  using assms chain_event_parts(3)[OF assms(1)]
  by (cases price) (auto intro!: calm)

lemma safe_discount_value [calm]: "safe (discount_value amount scale basis)"
  unfolding discount_value_def by (cases amount) (auto intro!: calm)

lemma safe_booked_at [calm]: "safe (booked_at st target)"
  unfolding booked_at_def by (intro calm)

lemma safe_stage_prior:
  assumes "bu_policies bu \<noteq> []" and "\<forall>d \<in> set (ip_history input). chain_event_ok (va_event d)"
  shows "safe (stage_prior bu input stage)"
proof -
  have "safe (stage_operation retail (ip_history input) x acc)" for retail x acc
    unfolding stage_operation_def stage_action_def
    by (intro calm chain_event_parts(2)) (rule bspec[OF assms(2)])
  then show ?thesis unfolding stage_prior_def using assms(1) by (intro calm)
qed

lemma safe_prod [calm]: "(\<And>a b. p = (a, b) \<Longrightarrow> safe (f a b)) \<Longrightarrow> safe (case p of (a, b) \<Rightarrow> f a b)"
  by (cases p) simp

lemma atoms_exact_range: "atoms_exact d scale = Inr n \<Longrightarrow> - MAX_ATOMS \<le> n \<and> n \<le> MAX_ATOMS"
  using atoms_exact_bound[of d scale n] by linarith

lemma safe_cap:
  assumes "bu_policies bu \<noteq> []" and "\<forall>d \<in> set (ip_history input). chain_event_ok (va_event d)"
  shows "safe (cap_operation bu input pn b limit stage component st s)"
  unfolding cap_operation_def Let_def
  by (intro calm safe_stage_prior[OF assms])
    (auto simp: trap_i128_def MAX_ATOMS_def int_ranges dest!: atoms_exact_range split: if_splits)

lemma safe_operation_value:
  assumes bu: "bu_policies bu \<noteq> []" and input: "chain_input_ok input"
    and unit: "\<And>rate unit. cr_operation rule \<in> {BaseOp (PriceUnit rate unit), PremiumOp (PriceUnit rate unit)}
      \<Longrightarrow> is_work (event_kind_of (ip_event input))"
  shows "safe (chain_operation_value bu input pn b rule st s)"
proof -
  have e: "chain_event_ok (ip_event input)" and h: "\<forall>d \<in> set (ip_history input). chain_event_ok (va_event d)"
    using input by (simp_all add: chain_input_ok_def)
  have p: "safe (price_operation bu input pn b price premium st s)"
    if "\<And>rate unit. price = PriceUnit rate unit \<Longrightarrow> is_work (event_kind_of (ip_event input))" for price premium
    unfolding price_operation_def by (intro calm safe_price_value[OF e that])
  have disc: "safe (discount_operation bu pn b amount component mode st s)" for amount component mode
    unfolding discount_operation_def Let_def by (intro calm)
  have share: "safe (share_operation bu pct limit component st s)" for pct limit component
    unfolding share_operation_def Let_def using bu by (intro calm)
  have cost: "safe (cost_operation bu input b s)"
    unfolding cost_operation_def by (intro calm)
  show ?thesis
    unfolding chain_operation_value_def
    using p unit disc share cost safe_cap[OF bu h] by (cases "cr_operation rule") auto
qed

lemma share_basis_bound:
  assumes "chain_operation_value bu input pn b rule st s = Inr (Priced p)" and "pr_share_basis p = Some basis"
  shows "\<bar>basis\<bar> \<le> MAX_ATOMS"
  using assms
  by (auto simp: chain_operation_value_def price_operation_def discount_operation_def cap_operation_def
      share_operation_def cost_operation_def Let_def split: chain_operation.splits if_splits option.splits)

lemma safe_rule_actions:
  assumes "bu_policies bu \<noteq> []" and "\<bar>n\<bar> \<le> MAX_ATOMS" and "\<And>basis. pr_share_basis p = Some basis \<Longrightarrow> \<bar>basis\<bar> \<le> MAX_ATOMS"
  shows "safe (rule_actions sha256 bu e claim b component p n sources links inputs)"
proof -
  have one: "safe (allocation_action sha256 bu e claim b component share part acc)" for share part acc
    unfolding allocation_action_def using assms(1) by (intro calm)
  have "safe (allocation_actions sha256 bu e claim b component a n (pr_share_basis p))" for a
    unfolding allocation_actions_def using i128_sum[OF assms(2,3)] by (intro calm one) auto
  then show ?thesis unfolding rule_actions_def by (intro calm)
qed

lemma safe_apply_priced:
  assumes "bu_policies bu \<noteq> []" and "\<And>basis. pr_share_basis p = Some basis \<Longrightarrow> \<bar>basis\<bar> \<le> MAX_ATOMS"
    and "\<And>n. pr_override p = Some n \<Longrightarrow> \<bar>n\<bar> \<le> MAX_ATOMS"
  shows "safe (apply_priced sha256 bu input claim key b sources links p st)"
proof -
  have r: "safe (reduce_basis sha256 e claim b' component links' n basis st')" for e b' component links' n basis st'
    unfolding reduce_basis_def Let_def by (intro calm)
  have n: "\<bar>case pr_override p of None \<Rightarrow> n | Some m \<Rightarrow> m\<bar> \<le> MAX_ATOMS" if "round_atoms (pr_unrounded p) = Inr n" for n
    using assms(3) round_atoms_bound[OF that] by (cases "pr_override p") auto
  show ?thesis
    unfolding apply_priced_def Let_def
    by (intro calm r safe_rule_actions[OF assms(1)]) (erule n, erule assms(2))
qed

lemma compiled_exposed:
  assumes "compiled_bundle bu" and "p \<in> set (bu_policies bu)"
  shows "exposed (ch_binding p)"
  using compiled_policy[OF assms]
  by (auto simp: policy_checked_def binding_terms_def exposed_def rbind_Inr_iff split: if_splits)

lemma compiled_unit:
  assumes "check_operation scale retail p i rule = Inr ()"
    and "cr_operation rule \<in> {BaseOp (PriceUnit rate unit), PremiumOp (PriceUnit rate unit)}"
  shows "is_work (cr_on rule)"
  using assms by (auto simp: check_operation_def check_priced_def rbind_Inr_iff)

lemma priced_override_bound:
  assumes "priced_ok pn x st p" and "pr_override p = Some n"
  shows "\<bar>n\<bar> \<le> MAX_ATOMS"
  using assms by (cases "pr_basis p") (auto simp: priced_ok_def)

lemma safe_evaluate_rule:
  assumes bu: "compiled_bundle bu" and input: "chain_input_ok input" "evaluable (ip_event input)"
    and place: "place \<in> set (bu_order bu)"
  shows "safe (evaluate_rule sha256 bu input claim place st)"
proof -
  obtain pn ri where e: "place = (pn, ri)" by (cases place)
  let ?p = "bu_policies bu ! pn" and ?rule = "ch_rules (bu_policies bu ! pn) ! ri"
  have ne: "bu_policies bu \<noteq> []" using bu by (simp add: compiled_bundle_def)
  have "(pn, ri) \<in> all_places (bu_policies bu)" using place bu by (simp add: e compiled_bundle_def)
  then have l: "pn < length (bu_policies bu)" "ri < length (ch_rules ?p)" by (auto simp: all_places_def)
  have ev: "chain_event_ok (ip_event input)" and h: "\<And>d. d \<in> set (ip_history input) \<Longrightarrow> chain_event_ok (va_event d)"
    using input(1) by (simp_all add: chain_input_ok_def)
  have ex: "exposed (ch_binding ?p)" by (rule compiled_exposed[OF bu]) (simp add: l)
  have "safe (applicable_rule sha256 bu input claim pn (ch_binding ?p) ?rule st)"
    if on: "cr_on ?rule = event_kind_of (ip_event input)"
  proof -
    have unit: "is_work (event_kind_of (ip_event input))"
      if "cr_operation ?rule \<in> {BaseOp (PriceUnit rate unit), PremiumOp (PriceUnit rate unit)}" for rate unit
      using compiled_unit[OF compiled_checked[OF bu l] that] by (simp add: on)
    have ap: "safe (apply_priced sha256 bu input claim key b sources links p st')"
      if "chain_operation_value bu input pn b ?rule st'' s = Inr (Priced p)" for key b sources links p st' st'' s
      by (rule safe_apply_priced[OF ne share_basis_bound[OF that] priced_override_bound[OF operation_value_Priced[OF that]]])
    have v: "safe (validate_binding (ch_binding ?p) input (map_option mt_target matched))"
      if m: "match_rule sha256 (ip_event input) (cr_matcher ?rule) (ip_history input) = Inr matched" for matched
    proof (rule safe_validate_binding[OF ev input(2) ex])
      fix d assume "map_option mt_target matched = Some d"
      then obtain x where "matched = Some x" "d = mt_target x" by auto
      then show "chain_event_ok (va_event d)" using match_rule_history m h by blast
    qed
    show ?thesis
      unfolding applicable_rule_def Let_def
      by (intro calm v safe_operation_value[OF ne input(1) unit])
        (auto split: operation_outcome.split intro: ap)
  qed
  then show ?thesis unfolding evaluate_rule_def e prod.case using l by (intro calm) (auto simp: index_def)
qed

section \<open>Decisions\<close>

lemma safe_money_checked: "safe (money_checked_add x y)"
  by (intro calm)

lemma safe_chain_deltas [calm]: "safe (chain_deltas actions)"
  unfolding chain_deltas_def group_action_def by (intro calm)

lemma safe_check_correction [calm]: "safe (check_correction history ident)"
  unfolding check_correction_def by (intro calm)

lemma safe_check_input:
  assumes bu: "compiled_bundle bu" and input: "chain_input_ok input"
  shows "safe (check_input sha256 bu input)"
proof -
  have ne: "bu_policies bu \<noteq> []" using bu by (simp add: compiled_bundle_def)
  have ev: "chain_event_ok (ip_event input)" and h: "\<forall>d \<in> set (ip_history input). chain_event_ok (va_event d)"
    using input by (simp_all add: chain_input_ok_def)
  have retail: "safe (validate_binding (ch_binding r) input None)"
    if "evaluable (ip_event input)" "retail_of bu = Inr r" for r
  proof (rule safe_validate_binding[OF ev that(1)])
    have "r \<in> set (bu_policies bu)" using that(2) ne by (auto simp: retail_of_def index_def)
    then show "exposed (ch_binding r)" by (rule compiled_exposed[OF bu])
  qed simp
  show ?thesis
    unfolding check_input_def Let_def
    by (intro calm safe_history[OF ev h] safe_context[OF ne] safe_retail[OF ne] safe_chain_claim[OF ev] retail)
      (auto simp: evaluable_def)
qed

lemma safe_total_atoms [calm]: "safe (total_atoms keep actions)"
  unfolding total_atoms_def by (intro calm)

lemma total_bound: "rfold (\<lambda>a total. add_atoms total (atoms (ca_amount a))) xs u = Inr v \<Longrightarrow> \<bar>u\<bar> \<le> MAX_ATOMS \<Longrightarrow> \<bar>v\<bar> \<le> MAX_ATOMS"
  by (induction xs arbitrary: u) (auto simp: rbind_Inr_iff)

lemma safe_policy_consumption:
  assumes input: "chain_input_ok input" "evaluable (ip_event input)" and b: "exposed (ch_binding p)"
  shows "safe (policy_consumption sha256 bu input actions p acc)"
proof (cases "cb_book (ch_binding p) = Supplier")
  case True
  let ?b = "ch_binding p"
  have exposure: "cb_maximum_exposure ?b \<noteq> None" using b True by (simp add: exposed_def)
  have ev: "chain_event_ok (ip_event input)" and h: "\<And>d. d \<in> set (ip_history input) \<Longrightarrow> chain_event_ok (va_event d)"
    using input(1) by (simp_all add: chain_input_ok_def)
  have found: "safe (find_invocation ?b input (map_option mt_target matched))"
    if "match_rule sha256 (ip_event input) m (ip_history input) = Inr matched" for m matched
  proof (rule safe_find_invocation[OF ev input(2) exposure])
    fix d assume "map_option mt_target matched = Some d"
    then obtain x where "matched = Some x" "d = mt_target x" by auto
    then show "chain_event_ok (va_event d)" using match_rule_history that h by blast
  qed
  have choose: "safe (choose_invocation sha256 input ?b r chosen)" for r chosen
    unfolding choose_invocation_def by (intro calm) (erule found)
  have present: "find (\<lambda>i. iv_id i = ident) (ip_invocations input) \<noteq> None"
    if "rfold (choose_invocation sha256 input ?b) (relevant_rules p input) None = Inr (Some ident)" for ident
  proof -
    have "\<exists>i \<in> set (ip_invocations input). iv_id i = ident"
    proof -
      let ?P = "\<lambda>c. \<forall>x. c = Some x \<longrightarrow> (\<exists>i \<in> set (ip_invocations input). iv_id i = x)"
      have "?P (Some ident)"
      proof (rule rfold_invariant[where P = ?P, OF that])
        fix r c c' assume "?P c" "choose_invocation sha256 input ?b r c = Inr c'"
        then consider "c' = c" | m i where "find_invocation ?b input m = Inr i" "c' = Some (iv_id i)"
          by (auto simp: choose_invocation_def split: if_splits)
        then show "?P c'" using \<open>?P c\<close> find_invocation_Inr(1) by cases auto
      qed simp
      then show ?thesis by simp
    qed
    then show ?thesis by (auto simp: find_None_iff)
  qed
  have held: "\<bar>atoms (iv_held i)\<bar> \<le> MAX_ATOMS" if "find P (ip_invocations input) = Some i" for P i
    using that input(1) by (auto simp: chain_input_ok_def find_Some_iff money_ok_def)
  have rest: "in_i128 (atoms (iv_held i) - consume)"
    if "find P (ip_invocations input) = Some i" "total_atoms keep actions = Inr consume" for P i keep consume
    using i128_sum[OF held[OF that(1)]] total_bound[of "filter keep actions" 0 consume] that(2)
    by (auto simp: total_atoms_def MAX_ATOMS_def)
  show ?thesis
    unfolding policy_consumption_def Let_def
    by (intro calm choose safe_ok_or_some) (auto simp: present rest)
qed (simp add: policy_consumption_def)

lemma safe_consumptions:
  assumes "compiled_bundle bu" and "chain_input_ok input" and "evaluable (ip_event input)"
  shows "safe (chain_consumptions sha256 bu input actions)"
  unfolding chain_consumptions_def
  by (intro calm safe_policy_consumption assms(2,3) compiled_exposed[OF assms(1)])

lemma check_input_evaluable: "check_input sha256 bu input = Inr claim \<Longrightarrow> evaluable (ip_event input)"
  by (auto simp: check_input_def Let_def evaluable_def)

lemma safe_evaluate_bundle:
  assumes bu: "compiled_bundle bu" and input: "chain_input_ok input"
  shows "safe (bundle_evaluate sha256 bu input)"
proof -
  have ne: "bu_policies bu \<noteq> []" using bu by (simp add: compiled_bundle_def)
  have ev: "chain_event_ok (ip_event input)" using input by (simp add: chain_input_ok_def)
  have failed: "safe (evaluate_failed sha256 bu input claim)" if e: "evaluable (ip_event input)" for claim
    unfolding evaluate_failed_def Let_def
    by (intro calm safe_validate_binding[OF ev e] compiled_exposed[OF bu] safe_retail[OF ne] safe_consumptions[OF bu input e])
      simp_all
  have rules: "safe (evaluate_rules sha256 bu input claim)" if e: "evaluable (ip_event input)" for claim
    unfolding evaluate_rules_def by (intro calm safe_evaluate_rule[OF bu input e])
  have expo: "safe (check_exposure actions p)" for actions p
    unfolding check_exposure_def by (intro calm)
  show ?thesis
    unfolding bundle_evaluate_def
    by (intro calm safe_check_input[OF bu input] failed rules expo safe_consumptions[OF bu input])
      (erule check_input_evaluable)+
qed

section \<open>Resolved events\<close>

definition resolved_event :: "pinned \<Rightarrow> (json \<Rightarrow> string) \<Rightarrow> (string \<Rightarrow> string) \<Rightarrow> event \<Rightarrow> bool" where
  "resolved_event serde explain sha256 e \<longleftrightarrow> (\<exists>bytes scope df c parent.
     normalize serde explain sha256 bytes scope df = Inr c \<and> resolve sha256 c parent = Inr e
     \<and> str_ok df \<and> some_ok str_ok parent)"

lemma normal_dto_kinds:
  assumes "normal_dto df d = Inr d'"
  shows "ev_kind d' = Acquired \<Longrightarrow> ev_occurred_at d' \<noteq> None"
    and "ev_kind d' = EconomicReversal \<Longrightarrow> \<exists>t ts. ev_targets d' = Some (t # ts) \<and> distinct (t # ts)"
proof -
  let ?d0 = "d\<lparr>ev_operation_id := or_default (ev_operation_id d) (ev_id d)\<rparr>"
  from assms obtain d1 where s: "normal_sets (source_of d df) ?d0 = Inr d1" and k: "normal_kind d1 = Inr d'"
    unfolding normal_dto_Inr by blast
  from s obtain targets where t: "opt_set normal_targets (ev_targets d) = Inr targets" "ev_targets d1 = targets"
    unfolding normal_sets_Inr by auto
  note f = normal_kind_fields(3,8,13)[OF k]
  have c: "check_other d1 = Inr ()" if "\<not> is_work (ev_kind d1)"
    using k that by (auto simp: normal_kind_def rbind_Inr_iff)
  show "ev_occurred_at d' \<noteq> None" if "ev_kind d' = Acquired"
    using c that f by (auto simp: check_other_def acquisition_wrong_def is_work_def split: if_splits)
  assume r: "ev_kind d' = EconomicReversal"
  then have "ev_targets d1 \<noteq> None"
    using c f(1) by (auto simp: check_other_def reversal_wrong_def is_work_def split: if_splits)
  then obtain ids ys where y: "ev_targets d1 = Some ys" "normal_targets ids = Inr ys"
    using t by (auto simp: opt_set_Inr split: option.splits)
  then have "ids \<noteq> []" "sort_set JString ids = Inr ys" by (simp_all add: normal_targets_Inr)
  moreover from this have "distinct ids" by (simp add: sort_set_Inr distinct_map)
  ultimately have "ys \<noteq> []" "distinct ys"
    using sort_set_same(2,3)[of JString ids ys] mset_eq_imp_distinct_iff[of ys ids] by auto
  then show "\<exists>t ts. ev_targets d' = Some (t # ts) \<and> distinct (t # ts)" using y(1) f(3) by (cases ys) auto
qed

lemma resolved_chain_event:
  assumes "serde_ok serde" and "arrays_fit serde CANDIDATE_LIMIT" and "sha_ok sha256"
    and "resolved_event serde explain sha256 e"
  shows "chain_event_ok e"
proof -
  from assms(4) obtain bytes scope df c parent where n: "normalize serde explain sha256 bytes scope df = Inr c"
    and r: "resolve sha256 c parent = Inr e" and s: "str_ok df" "some_ok str_ok parent"
    unfolding resolved_event_def by blast
  obtain d0 where d0: "normal_dto df d0 = Inr (cd_dto c)" using n unfolding normalize_Inr by blast
  from r obtain chain where "e_dto e = (cd_dto c)\<lparr>ev_source := Some (cd_source c), ev_chain := Some chain\<rparr>"
    by (rule resolve_Inr)
  then show ?thesis
    using resolved_event_ok[OF assms(1,2) s(1) assms(3) n s(2) r] normal_dto_kinds[OF d0]
    by (simp add: chain_event_ok_def event_kind_of_def)
qed

section \<open>Reversal\<close>

definition history_ok :: "evaluation list \<Rightarrow> bool" where
  "history_ok history \<longleftrightarrow> (\<forall>d \<in> set history. chain_event_ok (va_event d) \<and> (\<forall>a \<in> set (va_actions d). money_ok (ca_amount a)))"

lemma select_targets_members:
  assumes "select_targets history targets = Inr selected"
  shows "set selected \<subseteq> set history" "length selected = length targets"
    "map (\<lambda>d. event_ident (va_event d)) selected = targets"
  using assms unfolding select_targets_def
  by (induction targets arbitrary: selected) (auto simp: rbind_Inr_iff find_Some_iff)

lemma safe_check_reversal:
  assumes e: "chain_event_ok e" and h: "history_ok history"
  shows "safe (check_reversal e history authority)"
proof -
  have targets: "safe (ok_or (ev_targets (e_dto e)) Panic)" if "event_kind_of e = EconomicReversal"
    using e that by (auto simp: chain_event_ok_def)
  have some: "safe (index selected 0)"
    if "event_kind_of e = EconomicReversal" "ok_or (ev_targets (e_dto e)) Panic = Inr targets"
      "select_targets history targets = Inr selected" for targets selected
    using e that select_targets_members(2)[OF that(3)] by (intro safe_index) (auto simp: chain_event_ok_def)
  have hist: "safe (validate_history e history)" using h by (intro safe_history[OF e]) (simp add: history_ok_def)
  have act: "safe (check_target e history d0 d ids)" for d0 d ids
    unfolding check_target_def check_target_action_def by (intro calm)
  have dep: "safe (check_dependents history targets ids d)" for targets ids d
    unfolding check_dependents_def by (intro calm)
  have sel: "safe (select_targets history targets)" for targets
    unfolding select_targets_def by (intro calm)
  show ?thesis
  proof (cases "event_kind_of e = EconomicReversal")
    case True
    show ?thesis
      unfolding check_reversal_def
      by (intro safe_bind safe_ensure error_leaves safe_authority hist targets[OF True] sel some[OF True] safe_rfold act dep)
        (assumption | simp)+
  qed (simp add: check_reversal_def ensure_def)
qed

lemma safe_reverse:
  assumes e: "chain_event_ok e" and h: "history_ok history"
  shows "safe (chain_reverse sha256 e history authority)"
proof -
  have act: "safe (reversal_action sha256 e p)" if "\<bar>atoms (ca_amount (snd p))\<bar> \<le> MAX_ATOMS" for p
    using that unfolding reversal_action_def
    by (auto intro!: calm simp: MAX_ATOMS_def int_ranges split: prod.split)
  have orig: "\<bar>atoms (ca_amount (snd p))\<bar> \<le> MAX_ATOMS"
    if "check_reversal e history authority = Inr selected" "p \<in> set (originals_of selected)" for selected p
  proof -
    from check_reversal_Inr[OF that(1)] obtain targets where t: "select_targets history targets = Inr selected" by blast
    have "snd p \<in> set (target_actions selected)"
      using that(2) by (auto simp: originals_of_def target_actions_def)
    then show ?thesis
      using select_targets_members(1)[OF t] h by (auto simp: target_actions_def history_ok_def money_ok_def)
  qed
  have some: "0 < length selected" if "check_reversal e history authority = Inr selected" for selected
    using that by (auto simp: check_reversal_def index_def split: if_splits)
  show ?thesis
    unfolding chain_reverse_def by (intro calm safe_check_reversal[OF e h] some act orig)
qed

end
