(* ===== verification/Chain_History.thy ===== *)
theory Chain_History
  imports Chain_Safe
begin

text \<open>
  The histories of a chain: what repeated evaluation and reversal build from nothing, each decision
  appended under the checks of its own evaluation. Invariants of every reachable history follow by
  rule induction over its decisions.
\<close>

section \<open>Reachable histories\<close>

inductive chain_history :: "pinned \<Rightarrow> (json \<Rightarrow> string) \<Rightarrow> (string \<Rightarrow> string) \<Rightarrow> evaluation list \<Rightarrow> bool"
  for serde explain sha256 where
  nothing_yet: "chain_history serde explain sha256 []"
| evaluated: "\<lbrakk>chain_history serde explain sha256 (ip_history input);
     resolved_event serde explain sha256 (ip_event input);
     \<forall>i \<in> set (ip_invocations input). money_ok (iv_held i);
     bundle_compile cur scale ps = Inr bu; bundle_evaluate sha256 bu input = Inr d\<rbrakk>
   \<Longrightarrow> chain_history serde explain sha256 (ip_history input @ [d])"
| reversed: "\<lbrakk>chain_history serde explain sha256 h; resolved_event serde explain sha256 e;
     chain_reverse sha256 e h authority = Inr r\<rbrakk>
   \<Longrightarrow> chain_history serde explain sha256 (h @ [r])"

section \<open>One decision\<close>

lemma evaluated_decision:
  assumes "compiled_bundle bu" and "bundle_evaluate sha256 bu input = Inr d"
  shows "va_event d = ip_event input" "event_kind_of (va_event d) \<noteq> EconomicReversal"
    "\<And>a. a \<in> set (va_actions d) \<Longrightarrow> money_ok (ca_amount a) \<and> ca_reverses a = None"
    "\<And>ob. 0 \<le> obligation_total ob (va_actions d)"
proof -
  have "va_event d = ip_event input \<and> evaluable (ip_event input)"
    using assms(2) by (auto simp: bundle_evaluate_def evaluate_failed_def decision_with_def check_input_evaluable
        simp del: rfold.simps split: if_splits)
  then show "va_event d = ip_event input" "event_kind_of (va_event d) \<noteq> EconomicReversal"
    by (auto simp: evaluable_def is_work_def)
  obtain st n where ok: "loop_ok sha256 bu (ip_event input) n st" and acts: "va_actions d = rs_actions st"
    using evaluated_actions[OF assms] by blast
  show "money_ok (ca_amount a) \<and> ca_reverses a = None" if "a \<in> set (va_actions d)" for a
    using ok that unfolding acts by (auto simp: loop_ok_def action_ok_def made_def)
  show "0 \<le> obligation_total ob (va_actions d)" for ob
    unfolding acts obligation_as_bindings[OF assms(1) ok] by (rule loop_total_nonneg[OF ok])
qed

definition reversal_of :: "evaluation list \<Rightarrow> string list \<Rightarrow> evaluation list \<Rightarrow> evaluation \<Rightarrow> bool" where
  "reversal_of h targets selected r \<longleftrightarrow> select_targets h targets = Inr selected
     \<and> (\<forall>a \<in> set (target_actions selected). \<not> is_reversed (ca_id a) h)
     \<and> (\<forall>d \<in> set selected. va_actions d \<noteq> [] \<and> event_kind_of (va_event d) \<noteq> EconomicReversal)
     \<and> event_kind_of (va_event r) = EconomicReversal
     \<and> (\<exists>originals. mset originals = mset (target_actions selected) \<and> list_all2 reverses_action originals (va_actions r))"

lemma reversed_decision:
  assumes "chain_reverse sha256 e h authority = Inr r"
  shows "va_event r = e" "\<And>a. a \<in> set (va_actions r) \<Longrightarrow> money_ok (ca_amount a)"
    "\<exists>targets selected. ev_targets (e_dto e) = Some targets \<and> reversal_of h targets selected r"
proof -
  obtain selected where chk: "check_reversal e h authority = Inr selected"
    and acts: "rmap (reversal_action sha256 e) (originals_of selected) = Inr (va_actions r)"
    using chain_reverse_Inr[OF assms] by blast
  have "\<exists>p. reversal_action sha256 e p = Inr a" if "a \<in> set (va_actions r)" for a
    using rmap_Inr_length[OF acts] rmap_Inr_nth[OF acts] that by (metis in_set_conv_nth)
  then show "money_ok (ca_amount a)" if "a \<in> set (va_actions r)" for a
    using reversal_action_Inr(2) that by (metis surj_pair)
  show e: "va_event r = e" using assms by (auto simp: chain_reverse_def)
  have k: "event_kind_of e = EconomicReversal" using chk by (auto simp: check_reversal_def)
  have "list_all2 (\<lambda>p x. reverses_action (snd p) x) (originals_of selected) (va_actions r)"
    by (rule rmap_list_all2[OF acts]) (metis reversal_action_Inr(1) prod.collapse)
  then have "list_all2 reverses_action (map snd (originals_of selected)) (va_actions r)"
    by (simp add: list_all2_conv_all_nth)
  then show "\<exists>targets selected. ev_targets (e_dto e) = Some targets \<and> reversal_of h targets selected r"
    using check_reversal_Inr[OF chk] originals_mset k unfolding reversal_of_def e by blast
qed

section \<open>Reversed actions\<close>

text \<open>The identities reversed so far, in order.\<close>

definition reversals :: "evaluation list \<Rightarrow> string list" where
  "reversals h = concat (map (\<lambda>a. case ca_reverses a of None \<Rightarrow> [] | Some i \<Rightarrow> [i]) (target_actions h))"

lemma target_actions_append [simp]: "target_actions (xs @ ys) = target_actions xs @ target_actions ys"
  by (simp add: target_actions_def)

lemma target_actions_Cons: "target_actions (d # ds) = va_actions d @ target_actions ds"
  by (simp add: target_actions_def)

lemma target_actions_single [simp]: "target_actions [d] = va_actions d"
  by (simp add: target_actions_def)

lemma is_reversed_reversals: "is_reversed i h \<longleftrightarrow> i \<in> set (reversals h)"
  by (auto simp: is_reversed_def reversals_def target_actions_def list_ex_iff split: option.splits) metis+

lemma reversals_original:
  "\<forall>a \<in> set (va_actions d). ca_reverses a = None \<Longrightarrow> reversals (h @ [d]) = reversals h"
  by (simp add: reversals_def)

lemma reversals_reversal:
  assumes "list_all2 reverses_action originals (va_actions r)"
  shows "reversals (h @ [r]) = reversals h @ map ca_id originals"
proof -
  have "concat (map (\<lambda>a. case ca_reverses a of None \<Rightarrow> [] | Some i \<Rightarrow> [i]) ys) = map ca_id xs"
    if "list_all2 reverses_action xs ys" for xs ys
    using that by induction (simp_all add: reverses_action_def)
  then show ?thesis using assms by (simp add: reversals_def)
qed

lemma obligation_total_append [simp]: "obligation_total ob (xs @ ys) = obligation_total ob xs + obligation_total ob ys"
  by (simp add: obligation_total_def obligation_actions_def)

lemma obligation_total_mset_cong: "mset xs = mset ys \<Longrightarrow> obligation_total ob xs = obligation_total ob ys"
  by (simp only: obligation_total_mset)

section \<open>The balance of a chain\<close>

text \<open>The decisions that still count: the originals none of whose actions was reversed.\<close>

definition standing :: "evaluation list \<Rightarrow> evaluation list" where
  "standing h = filter (\<lambda>d. event_kind_of (va_event d) \<noteq> EconomicReversal \<and> \<not> any_reversed (va_actions d) h) h"

text \<open>What a history is checked for before it is used: no event and no action twice.\<close>

definition unambiguous :: "evaluation list \<Rightarrow> bool" where
  "unambiguous h \<longleftrightarrow> distinct (map (\<lambda>d. event_ident (va_event d)) h) \<and> distinct (map ca_id (target_actions h))"

definition balanced :: "evaluation list \<Rightarrow> bool" where
  "balanced h \<longleftrightarrow> distinct (reversals h) \<and> set (reversals h) \<subseteq> ca_id ` set (target_actions h)
     \<and> (\<forall>d \<in> set h. event_kind_of (va_event d) \<noteq> EconomicReversal \<longrightarrow>
          (\<forall>a \<in> set (va_actions d). ca_reverses a = None) \<and> (\<forall>ob. 0 \<le> obligation_total ob (va_actions d))
          \<and> (any_reversed (va_actions d) h \<longrightarrow> (\<forall>a \<in> set (va_actions d). is_reversed (ca_id a) h)))
     \<and> (\<forall>ob. obligation_total ob (target_actions h) = obligation_total ob (target_actions (standing h)))"

lemma any_reversed_iff: "any_reversed as h \<longleftrightarrow> (\<exists>a \<in> set as. is_reversed (ca_id a) h)"
  by (auto simp: any_reversed_def list_ex_iff)

lemma balanced_Nil: "balanced []"
  by (simp add: balanced_def reversals_def standing_def target_actions_def)

lemma balanced_evaluated:
  assumes h: "balanced h" and u: "unambiguous (h @ [d])"
    and k: "event_kind_of (va_event d) \<noteq> EconomicReversal"
    and a: "\<And>a. a \<in> set (va_actions d) \<Longrightarrow> ca_reverses a = None"
    and n: "\<And>ob. 0 \<le> obligation_total ob (va_actions d)"
  shows "balanced (h @ [d])"
proof -
  have same: "reversals (h @ [d]) = reversals h" by (rule reversals_original) (use a in blast)
  then have rev: "is_reversed i (h @ [d]) = is_reversed i h" for i by (simp add: is_reversed_reversals)
  have fresh: "\<not> is_reversed (ca_id x) h" if "x \<in> set (va_actions d)" for x
  proof
    assume "is_reversed (ca_id x) h"
    then have "ca_id x \<in> ca_id ` set (target_actions h)" using h by (auto simp: balanced_def is_reversed_reversals)
    then show False using u that by (auto simp: unambiguous_def)
  qed
  have any: "any_reversed as (h @ [d]) = any_reversed as h" for as by (simp add: any_reversed_iff rev)
  have "standing (h @ [d]) = standing h @ [d]" using k fresh by (auto simp: standing_def any_reversed_iff rev)
  then show ?thesis
    using h a n fresh by (auto simp: balanced_def same any rev any_reversed_iff)
qed

lemma target_actions_mset: "mset (target_actions xs) = (\<Sum>d \<in># mset xs. mset (va_actions d))"
  by (induction xs) (simp_all add: target_actions_def)

lemma one_owner:
  assumes "distinct (map f (concat (map g xs)))" and "x \<in> set xs" and "y \<in> set xs"
    and "a \<in> set (g x)" and "b \<in> set (g y)" and "f a = f b"
  shows "x = y"
  using assms
proof (induction xs)
  case (Cons z zs)
  have out: "f c \<notin> f ` set (g w)" if "c \<in> set (g z)" "w \<in> set zs" for c w
    using Cons.prems(1) that by auto
  from Cons.prems(2,3) consider "x = z" "y = z" | "x = z" "y \<in> set zs" | "y = z" "x \<in> set zs" | "x \<in> set zs" "y \<in> set zs"
    by auto
  then show ?case
  proof cases
    case 2
    then show ?thesis using out[of a y] Cons.prems(4-6) by (metis imageI)
  next
    case 3
    then show ?thesis using out[of b x] Cons.prems(4-6) by (metis imageI)
  next
    case 4
    then show ?thesis using Cons.IH Cons.prems by simp
  qed simp
qed simp

text \<open>The targets are whole decisions that counted, and exactly they stop counting.\<close>

lemma standing_reversal:
  assumes h: "balanced h" and u: "unambiguous h" and r: "reversal_of h targets selected r" and d: "distinct targets"
  shows "set selected \<subseteq> set (standing h)" "distinct selected"
    "mset (standing h) = mset (standing (h @ [r])) + mset selected"
    "is_reversed i (h @ [r]) \<longleftrightarrow> is_reversed i h \<or> i \<in> ca_id ` set (target_actions selected)"
    "x \<in> set h \<Longrightarrow> any_reversed (va_actions x) (h @ [r]) \<longleftrightarrow> any_reversed (va_actions x) h \<or> x \<in> set selected"
proof -
  obtain originals where o: "mset originals = mset (target_actions selected)"
    "list_all2 reverses_action originals (va_actions r)" using r by (auto simp: reversal_of_def)
  have same: "set originals = set (target_actions selected)" using mset_eq_setD[OF o(1)] .
  show rev: "is_reversed i (h @ [r]) \<longleftrightarrow> is_reversed i h \<or> i \<in> ca_id ` set (target_actions selected)" for i
    by (simp add: is_reversed_reversals reversals_reversal[OF o(2)] same)
  have sel: "set selected \<subseteq> set h" "map (\<lambda>d. event_ident (va_event d)) selected = targets"
    using select_targets_members r by (auto simp: reversal_of_def)
  show dist: "distinct selected" using d sel(2) by (metis distinct_map)
  show sub: "set selected \<subseteq> set (standing h)"
    using r sel(1) by (auto simp: reversal_of_def standing_def any_reversed_iff target_actions_def)
  have dh: "distinct h" using u by (auto simp: unambiguous_def distinct_map)
  show hit: "any_reversed (va_actions x) (h @ [r]) \<longleftrightarrow> any_reversed (va_actions x) h \<or> x \<in> set selected"
    if x: "x \<in> set h" for x
  proof -
    have "x \<in> set selected" if a: "a \<in> set (va_actions x)" and b: "ca_id a \<in> ca_id ` set (target_actions selected)" for a
    proof -
      from b obtain s b where s: "s \<in> set selected" "b \<in> set (va_actions s)" "ca_id a = ca_id b"
        by (auto simp: target_actions_def)
      have "distinct (map ca_id (concat (map va_actions h)))" using u by (simp add: unambiguous_def target_actions_def)
      then have "x = s" using one_owner[of ca_id va_actions h x s a b] x sel(1) a s by blast
      then show ?thesis using s(1) by simp
    qed
    moreover have "\<exists>a \<in> set (va_actions x). ca_id a \<in> ca_id ` set (target_actions selected)" if "x \<in> set selected"
    proof -
      have "va_actions x \<noteq> []" using r that by (simp add: reversal_of_def)
      then obtain a where "a \<in> set (va_actions x)" by (cases "va_actions x") auto
      then show ?thesis using that by (auto simp: target_actions_def)
    qed
    ultimately show ?thesis by (auto simp only: any_reversed_iff rev)
  qed
  have "event_kind_of (va_event r) = EconomicReversal" using r by (simp add: reversal_of_def)
  then have "standing (h @ [r]) = filter (\<lambda>d. event_kind_of (va_event d) \<noteq> EconomicReversal \<and> \<not> any_reversed (va_actions d) (h @ [r])) h"
    by (simp add: standing_def)
  also have "\<dots> = filter (\<lambda>d. d \<notin> set selected) (standing h)"
    unfolding standing_def filter_filter by (rule filter_cong[OF refl]) (use hit in blast)
  finally have left: "standing (h @ [r]) = filter (\<lambda>d. d \<notin> set selected) (standing h)" .
  have "mset (filter (\<lambda>d. d \<in> set selected) (standing h)) = mset selected"
    using sub dist dh by (subst set_eq_iff_mset_eq_distinct[symmetric]) (auto simp: standing_def)
  then show "mset (standing h) = mset (standing (h @ [r])) + mset selected"
    unfolding left by (metis (no_types, lifting) add.commute filter_cong mset_filter multiset_partition)
qed

lemma target_actions_mset_cong: "mset xs = mset ys \<Longrightarrow> mset (target_actions xs) = mset (target_actions ys)"
  by (simp only: target_actions_mset)

lemma balanced_reversed:
  assumes h: "balanced h" and u: "unambiguous h" and r: "reversal_of h targets selected r" and d: "distinct targets"
  shows "balanced (h @ [r])"
proof -
  note s = standing_reversal[OF h u r d]
  obtain originals where o: "mset originals = mset (target_actions selected)"
    "list_all2 reverses_action originals (va_actions r)" using r by (auto simp: reversal_of_def)
  have k: "event_kind_of (va_event r) = EconomicReversal" using r by (simp add: reversal_of_def)
  have sub: "set selected \<subseteq> set h" using s(1) by (auto simp: standing_def)
  have same: "set (map ca_id originals) = ca_id ` set (target_actions selected)" using mset_eq_setD[OF o(1)] by simp
  have fresh: "set (reversals h) \<inter> set (map ca_id originals) = {}"
    using r same by (auto simp: reversal_of_def is_reversed_reversals)
  have "distinct h" using u by (auto simp: unambiguous_def distinct_map)
  then have "mset (filter (\<lambda>x. x \<in> set selected) h) = mset selected"
    using sub s(2) by (subst set_eq_iff_mset_eq_distinct[symmetric]) auto
  then have "mset (selected @ filter (\<lambda>x. x \<notin> set selected) h) = mset h"
    by (metis mset_append mset_filter multiset_partition)
  then have "mset (map ca_id (target_actions (selected @ filter (\<lambda>x. x \<notin> set selected) h))) = mset (map ca_id (target_actions h))"
    unfolding mset_map by (intro arg_cong[where f = "image_mset ca_id"] target_actions_mset_cong)
  from mset_eq_imp_distinct_iff[OF this] have "distinct (map ca_id (target_actions selected))"
    using u by (simp add: unambiguous_def)
  moreover have "mset (map ca_id originals) = mset (map ca_id (target_actions selected))" by (simp add: o(1))
  ultimately have "distinct (map ca_id originals)" using mset_eq_imp_distinct_iff by blast
  then have dist: "distinct (reversals (h @ [r]))"
    using h fresh by (simp add: reversals_reversal[OF o(2)] balanced_def)
  have known: "set (reversals (h @ [r])) \<subseteq> ca_id ` set (target_actions (h @ [r]))"
  proof -
    have "set (target_actions selected) \<subseteq> set (target_actions h)" using sub by (auto simp: target_actions_def)
    moreover have "set (reversals h) \<subseteq> ca_id ` set (target_actions h)" using h by (simp add: balanced_def)
    ultimately show ?thesis unfolding reversals_reversal[OF o(2)] set_append same target_actions_append by blast
  qed
  have total: "obligation_total ob (va_actions r) = - obligation_total ob (target_actions selected)" for ob
    using reversed_totals[OF o(2)] obligation_total_mset_cong[OF o(1)] by simp
  have "mset (target_actions (standing h)) = mset (target_actions (standing (h @ [r]) @ selected))"
    using s(3) by (intro target_actions_mset_cong) simp
  from obligation_total_mset_cong[OF this]
  have sum: "obligation_total ob (target_actions (h @ [r])) = obligation_total ob (target_actions (standing (h @ [r])))" for ob
    using h by (simp add: balanced_def total)
  have whole: "\<forall>a \<in> set (va_actions x). is_reversed (ca_id a) (h @ [r])"
    if x: "x \<in> set h" "event_kind_of (va_event x) \<noteq> EconomicReversal" "any_reversed (va_actions x) (h @ [r])" for x
  proof
    fix a assume a: "a \<in> set (va_actions x)"
    from s(5)[OF x(1)] x(3) consider "any_reversed (va_actions x) h" | "x \<in> set selected" by blast
    then have "is_reversed (ca_id a) h \<or> ca_id a \<in> ca_id ` set (target_actions selected)"
    proof cases
      case 1
      then have "is_reversed (ca_id a) h" using h x(1,2) a unfolding balanced_def by blast
      then show ?thesis ..
    next
      case 2
      then have "a \<in> set (target_actions selected)" using a by (auto simp: target_actions_def)
      then show ?thesis by blast
    qed
    then show "is_reversed (ca_id a) (h @ [r])" by (simp only: s(4))
  qed
  have old: "(\<forall>a \<in> set (va_actions x). ca_reverses a = None) \<and> (\<forall>ob. 0 \<le> obligation_total ob (va_actions x))
      \<and> (any_reversed (va_actions x) (h @ [r]) \<longrightarrow> (\<forall>a \<in> set (va_actions x). is_reversed (ca_id a) (h @ [r])))"
    if "x \<in> set (h @ [r])" "event_kind_of (va_event x) \<noteq> EconomicReversal" for x
  proof -
    have x: "x \<in> set h" using that k by auto
    have "(\<forall>a \<in> set (va_actions x). ca_reverses a = None) \<and> (\<forall>ob. 0 \<le> obligation_total ob (va_actions x))"
      using h x that(2) unfolding balanced_def by blast
    then show ?thesis using whole[OF x that(2)] by blast
  qed
  show ?thesis
    unfolding balanced_def by (intro conjI ballI impI allI dist known sum) (use old in blast)+
qed

section \<open>Invariants of the reachable histories\<close>

lemma unambiguous_prefix: "unambiguous (h @ [d]) \<Longrightarrow> unambiguous h"
  by (simp add: unambiguous_def)

lemma reachable_balanced:
  assumes "chain_history serde explain sha256 h" and "unambiguous h"
    and ev: "\<And>e. resolved_event serde explain sha256 e \<Longrightarrow> chain_event_ok e"
  shows "balanced h"
  using assms(1,2)
proof induction
  case nothing_yet
  show ?case by (rule balanced_Nil)
next
  case (evaluated input cur scale ps bu d)
  note d = evaluated_decision[OF compile_compiled(1)[OF evaluated.hyps(4)] evaluated.hyps(5)]
  show ?case
    by (rule balanced_evaluated[OF evaluated.IH[OF unambiguous_prefix[OF evaluated.prems]] evaluated.prems d(2) _ d(4)])
      (use d(3) in blast)
next
  case (reversed h e authority r)
  note u = unambiguous_prefix[OF reversed.prems]
  obtain targets selected where t: "ev_targets (e_dto e) = Some targets" "reversal_of h targets selected r"
    using reversed_decision(3)[OF reversed.hyps(3)] by blast
  have "event_kind_of e = EconomicReversal"
    using t(2) reversed_decision(1)[OF reversed.hyps(3)] by (simp add: reversal_of_def)
  then have "distinct targets" using ev[OF reversed.hyps(2)] t(1) by (auto simp: chain_event_ok_def)
  then show ?case by (rule balanced_reversed[OF reversed.IH[OF u] u t(2)])
qed

lemma reachable_ok:
  assumes "chain_history serde explain sha256 h"
    and ev: "\<And>e. resolved_event serde explain sha256 e \<Longrightarrow> chain_event_ok e"
  shows "history_ok h"
  using assms(1)
proof induction
  case nothing_yet
  show ?case by (simp add: history_ok_def)
next
  case (evaluated input cur scale ps bu d)
  note d = evaluated_decision[OF compile_compiled(1)[OF evaluated.hyps(4)] evaluated.hyps(5)]
  show ?case using evaluated.IH ev[OF evaluated.hyps(2)] d(1,3) by (auto simp: history_ok_def)
next
  case (reversed h e authority r)
  note r = reversed_decision[OF reversed.hyps(3)]
  show ?case using reversed.IH ev[OF reversed.hyps(2)] r(1,2) by (auto simp: history_ok_def)
qed

text \<open>What the check of a history lets through.\<close>

lemma validated_unambiguous:
  assumes "validate_history e h = Inr ()"
  shows "unambiguous h"
proof -
  obtain s where run: "rfold (history_entry e) h
       \<lparr>hs_ids = {}, hs_claims = {}, hs_actions = {}, hs_bytes = length (e_bytes e)\<rparr> = Inr s"
    using assms by (auto simp: validate_history_def simp del: rfold.simps)
  have acts: "hs_actions s' = hs_actions s \<union> ca_id ` set as \<and> hs_ids s' = hs_ids s
      \<and> distinct (map ca_id as) \<and> hs_actions s \<inter> ca_id ` set as = {}"
    if "rfold history_action as s = Inr s'" for as s s'
    using that
  proof (induction as arbitrary: s)
    case (Cons a as)
    let ?s = "s\<lparr>hs_actions := insert (ca_id a) (hs_actions s), hs_bytes := hs_bytes s + action_bytes a\<rparr>"
    from Cons.prems have a: "ca_id a \<notin> hs_actions s" "rfold history_action as ?s = Inr s'"
      by (auto simp: history_action_def[of a s] rbind_Inr_iff split: if_splits)
    show ?case using Cons.IH[OF a(2)] a(1) by auto
  qed simp
  have "distinct (map (\<lambda>d. event_ident (va_event d)) ds) \<and> distinct (map ca_id (target_actions ds))
      \<and> hs_ids s1 \<inter> (\<lambda>d. event_ident (va_event d)) ` set ds = {} \<and> hs_actions s1 \<inter> ca_id ` set (target_actions ds) = {}"
    if "rfold (history_entry e) ds s1 = Inr s'" for ds s1 s'
    using that
  proof (induction ds arbitrary: s1)
    case (Cons d ds)
    then obtain s2 where s2: "history_entry e d s1 = Inr s2" "rfold (history_entry e) ds s2 = Inr s'"
      by (auto simp: rbind_Inr_iff)
    from s2(1) obtain s3 where "rfold history_action (va_actions d) s3 = Inr s2" "hs_actions s3 = hs_actions s1"
      "hs_ids s3 = insert (event_ident (va_event d)) (hs_ids s1)" "event_ident (va_event d) \<notin> hs_ids s1"
      by (auto simp: history_entry_def simp del: rfold.simps)
    moreover from acts[OF this(1)] have "hs_actions s2 = hs_actions s3 \<union> ca_id ` set (va_actions d)" "hs_ids s2 = hs_ids s3"
      "distinct (map ca_id (va_actions d))" "hs_actions s3 \<inter> ca_id ` set (va_actions d) = {}" by blast+
    ultimately show ?case
      using Cons.IH[OF s2(2)] by (simp add: target_actions_Cons image_Un Int_Un_distrib Int_Un_distrib2)
  qed (simp add: target_actions_def)
  from this[OF run] show ?thesis by (simp add: unambiguous_def)
qed

text \<open>
  C4: the books of a chain balance. In every history built from nothing by evaluating and
  reversing resolved events, once it is accepted for a further event: no action was ever reversed
  twice; a decision is reversed as a whole or not at all; what every obligation comes to over the
  whole history, corrections included, is what the decisions that still stand booked for it; and
  that is never negative.
\<close>

theorem chain_books_balance:
  assumes "serde_ok serde" and "arrays_fit serde CANDIDATE_LIMIT" and "sha_ok sha256"
    and "chain_history serde explain sha256 h" and "validate_history e h = Inr ()"
  shows "distinct (reversals h)
    \<and> (\<forall>d \<in> set h. event_kind_of (va_event d) \<noteq> EconomicReversal \<longrightarrow>
         d \<in> set (standing h) \<or> (\<forall>a \<in> set (va_actions d). is_reversed (ca_id a) h))
    \<and> (\<forall>ob. obligation_total ob (target_actions h) = obligation_total ob (target_actions (standing h))
         \<and> 0 \<le> obligation_total ob (target_actions h))"
proof -
  have b: "balanced h"
    by (rule reachable_balanced[OF assms(4) validated_unambiguous[OF assms(5)]])
      (rule resolved_chain_event[OF assms(1-3)])
  have whole: "\<forall>a \<in> set (va_actions d). is_reversed (ca_id a) h"
    if "d \<in> set h" "event_kind_of (va_event d) \<noteq> EconomicReversal" "any_reversed (va_actions d) h" for d
    using b that unfolding balanced_def by blast
  have "0 \<le> obligation_total ob (target_actions xs)" if "set xs \<subseteq> set (standing h)" for ob xs
    using that
  proof (induction xs)
    case (Cons d xs)
    then have "d \<in> set h" "event_kind_of (va_event d) \<noteq> EconomicReversal" by (auto simp: standing_def)
    then have "0 \<le> obligation_total ob (va_actions d)" using b unfolding balanced_def by blast
    then show ?case using Cons target_actions_append[of "[d]" xs] by simp
  qed (simp add: target_actions_def obligation_total_def obligation_actions_def)
  from this[of "standing h"] show ?thesis
    using b whole by (auto simp: balanced_def standing_def)
qed

text \<open>
  C10: nothing panics on a chain. For every history built from nothing by evaluating and reversing
  resolved events, and for every further event that was normalized and resolved: compiling any
  policies, evaluating the event under any compiled bundle, context, authority, invocations, costs
  and time, and reversing it as a correction return a result or an error; no \<open>expect\<close> fails, no
  index is out of range and no arithmetic overflows.
\<close>

theorem chain_never_panics:
  assumes "serde_ok serde" and "arrays_fit serde CANDIDATE_LIMIT" and "sha_ok sha256"
    and "chain_history serde explain sha256 h" and "resolved_event serde explain sha256 e"
  shows "bundle_compile cur scale ps \<noteq> Inl Panic
    \<and> (\<forall>bu (input :: chain_input). bundle_compile cur scale ps = Inr bu \<and> ip_event input = e \<and> ip_history input = h
         \<and> (\<forall>i \<in> set (ip_invocations input). money_ok (iv_held i)) \<longrightarrow> bundle_evaluate sha256 bu input \<noteq> Inl Panic)
    \<and> chain_reverse sha256 e h authority \<noteq> Inl Panic"
proof (intro conjI allI impI)
  note ev = resolved_chain_event[OF assms(1-3)]
  have h: "history_ok h" by (rule reachable_ok[OF assms(4)]) (rule ev)
  show "bundle_compile cur scale ps \<noteq> Inl Panic" using safe_compile by (simp add: safe_def)
  show "chain_reverse sha256 e h authority \<noteq> Inl Panic"
    using safe_reverse[OF ev[OF assms(5)] h] by (simp add: safe_def)
  fix bu and input :: chain_input
  assume i: "bundle_compile cur scale ps = Inr bu \<and> ip_event input = e \<and> ip_history input = h
         \<and> (\<forall>i \<in> set (ip_invocations input). money_ok (iv_held i))"
  then have "chain_input_ok input" using ev[OF assms(5)] h by (auto simp: chain_input_ok_def history_ok_def)
  moreover have "compiled_bundle bu" using i compile_compiled(1) by blast
  ultimately show "bundle_evaluate sha256 bu input \<noteq> Inl Panic"
    using safe_evaluate_bundle[of bu input sha256] by (simp add: safe_def)
qed

end
