(* ===== verification/Chain_Sample.thy ===== *)
theory Chain_Sample
  imports Chain_History Assembly_Sample
begin

text \<open>
  Chained policies computed: a retail and a supplier policy, an event evaluated under them and its
  reversal, with a hash function of 32 bytes that ends in the sum of the bytes, so that the
  properties of chains are about something.
\<close>

section \<open>The bundle\<close>

definition zeros64 :: string where "zeros64 = replicate 64 (CHR ''0'')"
definition doc_id1 :: string where "doc_id1 = ''doc_'' @ zeros64"
definition supplier_roles :: roles where
  "supplier_roles = sample_roles\<lparr>ro_bearer := ''p'', ro_payer := ''p'', ro_recipient := ''q''\<rparr>"
definition retail_binding :: chain_binding where
  "retail_binding = \<lparr>cb_id = ''b1'', cb_agreement = ''a1'', cb_book = Retail, cb_roles = sample_roles, cb_assent = doc_id1,
     cb_offer = None, cb_sources = [''urn:a''], cb_event_types = [Generated], cb_unit = ''call'',
     cb_maximum_quantity = \<lparr>coefficient = 5, dscale = 0\<rparr>, cb_maximum_exposure = None, cb_outcome = None,
     cb_correction_sources = [''urn:a''], cb_allowed_modifiers = [], cb_allocation_view = False\<rparr>"
definition supplier_binding :: chain_binding where
  "supplier_binding = retail_binding\<lparr>cb_id := ''b2'', cb_agreement := ''a3'', cb_book := Supplier, cb_roles := supplier_roles,
     cb_offer := Some doc_id1,
     cb_maximum_exposure := Some \<lparr>currency = ''USD'', mscale = 2, atoms = 50\<rparr>\<rparr>"
definition base_rule :: "int \<Rightarrow> chain_rule" where
  "base_rule n = \<lparr>cr_id = ''fee'', cr_on = Generated, cr_component = ''fee'', cr_when = [], cr_matcher = None,
     cr_operation = BaseOp (PriceFixed \<lparr>coefficient = nat n, dscale = 2\<rparr>)\<rparr>"
definition rebate_rule :: chain_rule where
  "rebate_rule = \<lparr>cr_id = ''off'', cr_on = Generated, cr_component = ''off'', cr_when = [], cr_matcher = None,
     cr_operation = DiscountOp (DiscountPercent \<lparr>coefficient = 10, dscale = 0\<rparr>) ''fee'' Additive\<rparr>"
definition retail_policy :: chain_policy where
  "retail_policy = \<lparr>ch_binding = retail_binding, ch_rules = [base_rule 100, rebate_rule]\<rparr>"
definition supplier_policy :: chain_policy where
  "supplier_policy = \<lparr>ch_binding = supplier_binding, ch_rules = [base_rule 30]\<rparr>"
definition demo_bundle :: chain_bundle where
  "demo_bundle = \<lparr>bu_currency = ''USD'', bu_scale = 2, bu_policies = [retail_policy, supplier_policy], bu_order = [(0,0),(1,0),(0,1)]\<rparr>"

lemma texts [simp]: "check_text ''b1'' 128 = Inr ()" "check_text ''a1'' 128 = Inr ()" "check_text ''b2'' 128 = Inr ()"
  "check_text ''a3'' 128 = Inr ()" "check_text ''p'' 128 = Inr ()" "check_text ''acme'' 128 = Inr ()" "check_text ''q'' 128 = Inr ()"
  by (simp_all add: check_text_def text_ok_ascii byte_def)

lemma slugs [simp]: "slug ''fee'' = Inr ()" "slug ''off'' = Inr ()" "slug ''call'' = Inr ()"
  by (simp_all add: slug_def slug_ok_def slug_char_def is_lower_ascii_def byte_def)

lemma sources [simp]: "validate_source ''urn:a'' = Inr ()"
  by (rule source_ok_ascii[where p = "''urn''"])
      (simp_all add: byte_def is_alpha_ascii_def is_lower_ascii_def)

lemma documents [simp]: "prefixed doc_id1 ''doc_'' = Inr ()"
  by (simp add: prefixed_def strip_prefix_def doc_id1_def zeros64_def list_all_iff hash_char_def is_digit_def byte_def)

lemma parties [simp]: "roles_validate sample_roles = Inr ()" "roles_validate supplier_roles = Inr ()"
  by (simp_all add: roles_validate_def sample_roles_def supplier_roles_def opt_check_def)

lemma amounts [simp]: "atoms_exact \<lparr>coefficient = 100, dscale = 2\<rparr> 2 = Inr 100" "atoms_exact \<lparr>coefficient = 30, dscale = 2\<rparr> 2 = Inr 30"
  "percent \<lparr>coefficient = 10, dscale = 0\<rparr> = Inr \<lparr>numerator = 1, denominator = 10\<rparr>"
  by code_simp+


lemma retail_before [simp]: "policy_key retail_policy \<le> policy_key supplier_policy" "\<not> policy_key supplier_policy \<le> policy_key retail_policy"
  by (simp_all add: policy_key_def retail_policy_def supplier_policy_def retail_binding_def supplier_binding_def less_eq_book_def less_book_def)

lemmas policy_defs = retail_policy_def supplier_policy_def retail_binding_def supplier_binding_def base_rule_def rebate_rule_def

lemma parties_of [simp]: "ro_bearer sample_roles = ''acme''" "ro_payer sample_roles = ''acme''" "ro_bearer supplier_roles = ''p''" "ro_payer supplier_roles = ''p''"
  by (simp_all add: sample_roles_def supplier_roles_def)

lemmas check_defs = check_policy_def binding_texts_def binding_limits_def binding_lists_def binding_terms_def check_rule_def
  opt_check_def decimal_is_zero_def is_work_def check_reserved_def check_operation_def check_priced_def local_basis_def
  basis_at_def modifier_def

lemma demo_compiles: "bundle_compile ''USD'' 2 [retail_policy, supplier_policy] = Inr demo_bundle"
proof -
  have v: "validate_currency ''USD'' 2 = Inr ()" by (simp add: is_upper_def byte_def)
  have r: "check_policy ''USD'' 2 retail_policy (0, retail_policy)
     \<lparr>bs_order = [], bs_nodes = 1, bs_caps = 0, bs_shares = 0, bs_bindings = {}, bs_agreements = {}\<rparr>
    = Inr \<lparr>bs_order = [(0, 0), (0, 1)], bs_nodes = 5, bs_caps = 0, bs_shares = 0, bs_bindings = {''b1''}, bs_agreements = {''a1''}\<rparr>"
    by (simp add: policy_defs check_defs)
  have s: "check_policy ''USD'' 2 retail_policy (1, supplier_policy)
     \<lparr>bs_order = [(0, 0), (0, 1)], bs_nodes = 5, bs_caps = 0, bs_shares = 0, bs_bindings = {''b1''}, bs_agreements = {''a1''}\<rparr>
    = Inr \<lparr>bs_order = [(0, 0), (0, 1), (1, 0)], bs_nodes = 7, bs_caps = 0, bs_shares = 0, bs_bindings = {''b2'', ''b1''}, bs_agreements = {''a3'', ''a1''}\<rparr>"
    by (simp add: policy_defs check_defs)
  have b: "length (filter (\<lambda>p. cb_book (ch_binding p) = Retail) [retail_policy, supplier_policy]) = 1"
    by (simp add: policy_defs)
  have o: "sort_key (order_key [retail_policy, supplier_policy]) [(0, 0), (0, 1), (1, 0)] = [(0, 0), (1, 0), (0, 1)]"
    by (simp add: order_key_def policy_defs less_eq_book_def less_book_def)
  show ?thesis
    unfolding bundle_compile_def using r s b o by (simp add: v demo_bundle_def Let_def)
qed

section \<open>Resolved events\<close>

definition resolved_form :: "event_dto \<Rightarrow> event_dto" where
  "resolved_form n = n\<lparr>ev_source := Some ''urn:a'', ev_chain := Some ''main''\<rparr>"

lemma digest_exists: "good 0 v \<Longrightarrow> text_bound v \<le> 1000000 \<Longrightarrow> \<exists>h. digest sha256 d v = Inr h"
  using hash_hex_small[of v sha256 d] by (auto simp: digest_def BUNDLE_LIMIT_def)

lemma normal_resolves:
  assumes d: "dto_ok d" "normal_dto ''urn:a'' d = Inr n" and b: "text_bound (event_json d) \<le> 5000"
    "text_bound (event_json n) \<le> 5000" "text_bound (event_json (resolved_form n)) \<le> 5000"
    and src: "source_of n ''urn:a'' = ''urn:a''" and c: "ev_chain n = None" and i: "length (ev_id n) \<le> 128"
  shows "\<exists>e. resolved_event model_serde explain sha256 e \<and> e_dto e = resolved_form n \<and> event_scope e = demo_scope
    \<and> event_source e = ''urn:a'' \<and> cd_dto (e_candidate e) = n \<and> length (e_bytes e) \<le> 5000
    \<and> identity sha256 DomEvent (event_key demo_scope ''urn:a'' (ev_id n)) = Inr (event_ident e)"
proof -
  have n: "dto_ok n" using normal_dto_ok[OF d(2,1)] .
  have t: "check_text ''main'' 128 = Inr ()" "str_ok ''main''" "str_ok ''urn:a''"
    by (simp_all add: check_text_def text_ok_ascii byte_def literal_ok)
  then have r: "dto_ok (resolved_form n)" using n by (simp add: dto_ok_def resolved_form_def)
  have enc: "from_value (event_json x) = Inr (jtext (event_json x)) \<and> length (jtext (event_json x)) \<le> 5000"
    if "dto_ok x" "text_bound (event_json x) \<le> 5000" for x
    using from_value_small[OF event_json_good[OF that(1)]] text_bound[OF event_json_good[OF that(1)]] that(2)
    by (simp add: BUNDLE_LIMIT_def)
  have dec: "decoded model_serde explain (jtext (event_json d)) = Inr d"
    unfolding decoded_def
    by (rule event_text_round[OF model_serde_ok _ d(1) conjunct1[OF enc[OF d(1) b(1)]]])
      (use enc[OF d(1) b(1)] in \<open>simp_all add: sample_fit CANDIDATE_LIMIT_def\<close>)
  have "str_ok (ev_id n)" using n by (simp add: dto_ok_def)
  then have k: "good 0 (event_key demo_scope ''urn:a'' (ev_id n))" by (rule event_key_good[OF demo_scope_ok])
  have "text_bound (event_key demo_scope ''urn:a'' (ev_id n)) \<le> BUNDLE_LIMIT"
    using i by (simp add: event_key_def demo_scope_def string_bound_def BUNDLE_LIMIT_def)
  then obtain i where i: "identity sha256 DomEvent (event_key demo_scope ''urn:a'' (ev_id n)) = Inr i"
    using hash_hex_small[OF k, of sha256 DomEvent] by (auto simp: identity_def)
  obtain h where h: "digest sha256 DomIngress (event_json n) = Inr h"
    using digest_exists[OF event_json_good[OF n]] b(2) by auto
  obtain h' where h': "digest sha256 DomEventContent (event_json (resolved_form n)) = Inr h'"
    using digest_exists[OF event_json_good[OF r]] b(3) by auto
  let ?c = "\<lparr>cd_scope = demo_scope, cd_source = ''urn:a'', cd_dto = n,
       cd_ingress = jtext (event_json n), cd_ingress_hash = h, cd_event_id = i\<rparr>"
  let ?e = "\<lparr>e_candidate = ?c, e_dto = resolved_form n, e_bytes = jtext (event_json (resolved_form n)), e_content_hash = h'\<rparr>"
  have "normalize model_serde explain sha256 (jtext (event_json d)) demo_scope ''urn:a'' = Inr ?c"
    unfolding normalize_Inr using dec d(2) enc[OF n b(2)] i h src
    by (intro exI[of _ d]) (simp add: CANDIDATE_LIMIT_def)
  moreover have "resolve sha256 ?c (Some ''main'') = Inr ?e"
    using enc[OF r b(3)] h' t(1) c
    by (simp add: resolve_def opt_check_def check_parent_def resolved_chain_def Let_def CANDIDATE_LIMIT_def resolved_form_def[symmetric])
  ultimately have "resolved_event model_serde explain sha256 ?e"
    unfolding resolved_event_def using t(2,3)
    by (intro exI[of _ "jtext (event_json d)"] exI[of _ demo_scope] exI[of _ "''urn:a''"] exI[of _ ?c] exI[of _ "Some ''main''"]) simp
  then show ?thesis
    using enc[OF r b(3)] i by (intro exI[of _ ?e]) (simp add: event_scope_def event_source_def event_ident_def)
qed


definition work_raw :: event_dto where
  "work_raw = raw_event\<lparr>ev_binding_id := Some ''b2'', ev_invocation_id := Some ''i1''\<rparr>"

definition work_normal :: event_dto where
  "work_normal = normal_event\<lparr>ev_binding_id := Some ''b2'', ev_invocation_id := Some ''i1''\<rparr>"

definition undo_raw :: "string \<Rightarrow> event_dto" where
  "undo_raw t = raw_event\<lparr>ev_id := ''e2'', ev_kind := EconomicReversal, ev_targets := Some [t], ev_reason := Some ''r'',
     ev_evidence := Some [doc_id1]\<rparr>"

definition undo_normal :: "string \<Rightarrow> event_dto" where
  "undo_normal t = (undo_raw t)\<lparr>ev_operation_id := Some ''e2''\<rparr>"

lemma event_texts [simp]: "check_text ''e1'' 128 = Inr ()" "check_text ''e2'' 128 = Inr ()" "check_text ''i1'' 128 = Inr ()"
  "check_text ''r'' 256 = Inr ()"
  by (simp_all add: check_text_def text_ok_ascii byte_def)

lemma no_extensions [simp]: "check_extensions [] = Inr ()"
  by (simp add: check_extensions_def empty_object)

lemmas normal_defs = normal_dto_def Let_def source_of_def given_def check_fields_def opt_check_def or_default_def normal_sets_def
  opt_set_def normal_kind_def is_work_def normal_work_def one_decimal_value[unfolded One_nat_def] decimal_is_zero_def
  validate_link_cardinality_def relations_def relation_count_def links_of_def relation_required_def

lemma work_normalized: "normal_dto ''urn:a'' work_raw = Inr work_normal"
  by (simp add: work_raw_def work_normal_def raw_event_def normal_event_def normal_defs)

lemma work_raw_ok: "dto_ok work_raw"
  by (auto simp: dto_ok_def work_raw_def raw_event_def extensions_ok_def good_def om_ok_def byte_def intro!: literal_ok)

definition event_named :: "string \<Rightarrow> bool" where
  "event_named t \<longleftrightarrow> prefixed t ''ev_'' = Inr () \<and> length t = 67 \<and> str_ok t"

lemma doc_id1_ok: "str_ok doc_id1" "length doc_id1 = 68" "sized doc_id1"
proof -
  show s: "str_ok doc_id1" by (rule str_ok_ascii) (simp_all add: doc_id1_def zeros64_def byte_def ascii_def list_all_iff)
  show l: "length doc_id1 = 68" by (simp add: doc_id1_def zeros64_def)
  show "sized doc_id1" using s l by (simp add: sized_def)
qed

lemma undo_normalized: "event_named t \<Longrightarrow> normal_dto ''urn:a'' (undo_raw t) = Inr (undo_normal t)"
  by (simp add: undo_raw_def undo_normal_def raw_event_def normal_defs event_named_def normal_targets_def normal_evidence_def
      sized_ids_sort sized_def doc_id1_ok check_other_def reversal_wrong_def not_single_def)

lemma undo_raw_ok: "event_named t \<Longrightarrow> dto_ok (undo_raw t)"
  using doc_id1_ok
  by (auto simp: dto_ok_def undo_raw_def raw_event_def extensions_ok_def good_def om_ok_def byte_def event_named_def intro!: literal_ok)

lemmas event_sizes = event_text_bound event_members_def member_def string_bound_def strings_json_def decimal_display_def nat_str.simps
  resolved_form_def raw_event_def normal_event_def

lemma work_exists: "\<exists>e. resolved_event model_serde explain sha256 e \<and> e_dto e = resolved_form work_normal \<and> event_scope e = demo_scope
    \<and> event_source e = ''urn:a'' \<and> cd_dto (e_candidate e) = work_normal \<and> length (e_bytes e) \<le> 5000
    \<and> identity sha256 DomEvent (event_key demo_scope ''urn:a'' ''e1'') = Inr (event_ident e)"
proof -
  have s: "source_of work_normal ''urn:a'' = ''urn:a''" "ev_chain work_normal = None" "ev_id work_normal = ''e1''"
    by (simp_all add: work_normal_def normal_event_def raw_event_def source_of_def)
  have b: "text_bound (event_json work_raw) \<le> 5000" "text_bound (event_json work_normal) \<le> 5000"
    "text_bound (event_json (resolved_form work_normal)) \<le> 5000"
    by (simp_all add: event_sizes work_raw_def work_normal_def)
  show ?thesis using normal_resolves[OF work_raw_ok work_normalized b s(1,2)] by (simp add: s)
qed

lemma undo_exists:
  assumes "event_named t"
  shows "\<exists>e. resolved_event model_serde explain sha256 e \<and> e_dto e = resolved_form (undo_normal t) \<and> event_scope e = demo_scope
    \<and> event_source e = ''urn:a'' \<and> cd_dto (e_candidate e) = undo_normal t \<and> length (e_bytes e) \<le> 5000
    \<and> identity sha256 DomEvent (event_key demo_scope ''urn:a'' ''e2'') = Inr (event_ident e)"
proof -
  have s: "source_of (undo_normal t) ''urn:a'' = ''urn:a''" "ev_chain (undo_normal t) = None" "ev_id (undo_normal t) = ''e2''"
    by (simp_all add: undo_normal_def undo_raw_def raw_event_def source_of_def)
  have b: "text_bound (event_json (undo_raw t)) \<le> 5000" "text_bound (event_json (undo_normal t)) \<le> 5000"
    "text_bound (event_json (resolved_form (undo_normal t))) \<le> 5000"
    using assms by (simp_all add: event_sizes undo_raw_def undo_normal_def event_named_def doc_id1_ok)
  show ?thesis using normal_resolves[OF undo_raw_ok undo_normalized b s(1,2), OF assms assms] by (simp add: s)
qed


section \<open>Identities\<close>

text \<open>A hash of 32 bytes whose last byte is the sum of the bytes.\<close>

definition sum_hash :: "string \<Rightarrow> string" where
  "sum_hash s = replicate 31 (CHR 0x00) @ [char_of (sum_list (map byte s))]"

lemma sum_hash_ok: "sha_ok sum_hash"
  by (simp add: sha_ok_def sum_hash_def)

definition label :: "string \<Rightarrow> domain \<Rightarrow> json \<Rightarrow> string" where
  "label p d v = p @ ''_'' @ hex (sum_hash (''ledgerlab/'' @ domain_name d @ ''/1'' @ [CHR 0x00] @ jtext v))"

lemma label_identity:
  "good 0 v \<Longrightarrow> text_bound v \<le> 1000000 \<Longrightarrow> domain_prefix d = Inr p \<Longrightarrow> identity sum_hash d v = Inr (label p d v)"
  using from_value_small[of v] by (simp add: identity_def hash_hex_def hash_input_def label_def BUNDLE_LIMIT_def)

lemma label_sized: "ascii p \<Longrightarrow> length p \<le> 15 \<Longrightarrow> sized (label p d v)" "length (label p d v) = length p + 65"
proof -
  have h: "ascii (hex (sum_hash s)) \<and> length (hex (sum_hash s)) = 64" for s using hex_ok sum_hash_ok by (simp add: sha_ok_def)
  then show l: "length (label p d v) = length p + 65" by (simp add: label_def)
  show "ascii p \<Longrightarrow> length p \<le> 15 \<Longrightarrow> sized (label p d v)"
    using h l unfolding sized_def by (auto intro!: str_ok_ascii simp: label_def byte_def)
qed

definition effect_label :: "chain_binding \<Rightarrow> string \<Rightarrow> string \<Rightarrow> string" where
  "effect_label b component claim = label ''ef'' DomEffect (JArray [scope_json demo_scope, JString (cb_agreement b),
     JString component, JString claim, JString ''self'', JString ''original''])"

definition action_label :: "string \<Rightarrow> string" where
  "action_label effect = label ''ac'' DomAction (JArray [JString effect])"

definition obligation_label :: "chain_binding \<Rightarrow> string" where
  "obligation_label b = label ''ob'' DomObligation (JArray [scope_json demo_scope, JString (cb_agreement b),
     JString (book_name (cb_book b)), JString ''USD'', JInt 2, roles_json (cb_roles b)])"

lemma demo_bindings: "sized (cb_agreement b) \<and> book_name (cb_book b) \<in> {''retail'', ''supplier''} \<and> cb_roles b \<in> {sample_roles, supplier_roles}"
  if "b \<in> {retail_binding, supplier_binding}"
  using that by (auto simp: retail_binding_def supplier_binding_def sized_def literal_ok byte_def)

lemma demo_action_identity:
  assumes "event_scope e = demo_scope" and "sized claim" and "sized component" and "b \<in> {retail_binding, supplier_binding}"
  shows "action_identity sum_hash e claim b component [] = Inr (effect_label b component claim, action_label (effect_label b component claim))"
proof -
  let ?v = "JArray [scope_json demo_scope, JString (cb_agreement b), JString component, JString claim, JString ''self'', JString ''original'']"
  note s = sized_D[OF assms(2)] sized_D[OF assms(3)] demo_bindings[OF assms(4)] sized_D[of "cb_agreement b"]
  have "good 0 ?v" "text_bound ?v \<le> 1000000" using s by (simp_all add: measure_json scope_json_def demo_scope_def literal_ok byte_def)
  then have "identity sum_hash DomEffect ?v = Inr (effect_label b component claim)"
    unfolding effect_label_def by (rule label_identity) simp
  moreover have "identity sum_hash DomAction (JArray [JString (effect_label b component claim)]) = Inr (action_label (effect_label b component claim))"
    unfolding action_label_def
    by (rule label_identity) (use label_sized(1)[of "''ef''"] sized_D in \<open>simp_all add: measure_json effect_label_def byte_def label_sized(2)\<close>)
  ultimately show ?thesis by (simp add: action_identity_def assms(1) sorted_set_def)
qed


lemma demo_obligation:
  assumes "event_scope e = demo_scope" and "b \<in> {retail_binding, supplier_binding}"
  shows "obligation_identity sum_hash demo_bundle e b (cb_book b) = Inr (obligation_label b)"
  unfolding obligation_identity_def obligation_label_def
proof -
  let ?v = "JArray [scope_json demo_scope, JString (cb_agreement b), JString (book_name (cb_book b)), JString ''USD'', JInt 2, roles_json (cb_roles b)]"
  have "good 0 ?v" "text_bound ?v \<le> 1000000"
    using assms(2) by (auto simp: policy_defs scope_json_def demo_scope_def roles_json_def sample_roles_def supplier_roles_def
        member_def measure_json literal_ok byte_def)
  then have "identity sum_hash DomObligation ?v = Inr (label ''ob'' DomObligation ?v)" by (rule label_identity) simp
  then show "identity sum_hash DomObligation (JArray [scope_json (event_scope e), JString (cb_agreement b),
       JString (book_name (cb_book b)), JString (bu_currency demo_bundle), JInt (int (bu_scale demo_bundle)), roles_json (cb_roles b)])
     = Inr (label ''ob'' DomObligation ?v)"
    by (simp add: assms(1) demo_bundle_def)
qed

definition demo_action :: "event \<Rightarrow> string \<Rightarrow> chain_binding \<Rightarrow> chain_kind \<Rightarrow> string \<Rightarrow> int \<Rightarrow> string list \<Rightarrow> string option \<Rightarrow> chain_action" where
  "demo_action e claim b kind component n inputs target = \<lparr>ca_id = action_label (effect_label b component claim),
     ca_effect_id = effect_label b component claim, ca_obligation_id = obligation_label b, ca_binding = b, ca_kind = kind,
     ca_book = cb_book b, ca_component = component, ca_amount = \<lparr>currency = ''USD'', mscale = 2, atoms = n\<rparr>,
     ca_sources = [event_ident e], ca_links = [], ca_inputs = inputs, ca_reverses = None, ca_allocation_parent = None,
     ca_allocation_recipient = None, ca_discount_target = target\<rparr>"

lemma demo_make:
  assumes "event_scope e = demo_scope" and "sized claim" and "sized component" and "b \<in> {retail_binding, supplier_binding}"
    and "\<bar>n\<bar> \<le> 1000" and "sorted_set inputs = inputs"
  shows "make_action sum_hash demo_bundle e claim b kind (cb_book b) component n [event_ident e] [] inputs target
    = Inr (demo_action e claim b kind component n inputs target)"
proof -
  have m: "money_new ''USD'' 2 n = Inr \<lparr>currency = ''USD'', mscale = 2, atoms = n\<rparr>"
    using assms(5) by (simp add: is_upper_def byte_def money_ok_def MAX_ATOMS_def)
  have l: "sorted_set [event_ident e] = [event_ident e]" "sorted_set ([] :: string list) = []" by (simp_all add: sorted_set_def)
  show ?thesis
    unfolding make_action_def Let_def l assms(6) demo_action_identity[OF assms(1-4)] demo_obligation[OF assms(1,4)]
    by (simp add: demo_bundle_def m demo_action_def)
qed

section \<open>One decision\<close>

definition demo_context :: pinned_context where
  "demo_context = \<lparr>pc_document = doc_id1, pc_customer = ''acme'', pc_funding = Byok, pc_tier = None, pc_priority = None, pc_stage = None\<rparr>"

definition demo_authority :: source_authority where
  "demo_authority = \<lparr>sa_source = ''urn:a'', sa_grant = doc_id1, sa_revision = revision_make 1, sa_active = True,
     sa_event_types = [Generated, EconomicReversal], sa_relations = []\<rparr>"

definition demo_invocation :: invocation where
  "demo_invocation = \<lparr>iv_id = ''i1'', iv_binding_id = ''b2'', iv_operation_id = ''e1'', iv_chain = ''main'', iv_customer = ''acme'',
     iv_source = ''urn:a'', iv_unit = ''call'', iv_maximum_quantity = \<lparr>coefficient = 5, dscale = 0\<rparr>,
     iv_maximum_exposure = \<lparr>currency = ''USD'', mscale = 2, atoms = 50\<rparr>, iv_held = \<lparr>currency = ''USD'', mscale = 2, atoms = 40\<rparr>,
     iv_authorized_at = start, iv_start_before = start\<lparr>ts_micros := 1\<rparr>, iv_attested_start = start,
     iv_outcome_deadline = None, iv_completion_event = None\<rparr>"

definition demo_input :: "event \<Rightarrow> chain_input" where
  "demo_input e = \<lparr>ip_event = e, ip_context = demo_context, ip_history = [], ip_source_authority = demo_authority,
     ip_invocations = [demo_invocation], ip_costs = [], ip_received_at = start\<rparr>"

definition demo_work :: "event \<Rightarrow> bool" where
  "demo_work e \<longleftrightarrow> e_dto e = resolved_form work_normal \<and> event_scope e = demo_scope \<and> event_source e = ''urn:a''
    \<and> cd_dto (e_candidate e) = work_normal \<and> length (e_bytes e) \<le> 5000"

lemma work_fields:
  assumes "demo_work e"
  shows "ev_kind (e_dto e) = Generated" "ev_customer (e_dto e) = ''acme''" "links_of (e_dto e) = []" "ev_binding_id (e_dto e) = Some ''b2''"
    "ev_corrects (e_dto e) = None" "event_source e = ''urn:a''" "event_scope e = demo_scope" "event_chain e = Inr ''main''"
    "ev_unit (e_dto e) = Some ''call''" "ev_quantity (e_dto e) = Some \<lparr>coefficient = 1, dscale = 0\<rparr>" "ev_status (e_dto e) = Some Succeeded"
    "ev_invocation_id (e_dto e) = Some ''i1''" "operation_id (e_candidate e) = Inr ''e1''"
  using assms by (simp_all add: demo_work_def resolved_form_def work_normal_def normal_event_def raw_event_def links_of_def
      event_chain_def operation_id_def)

lemma demo_leq: "decimal_leq \<lparr>coefficient = 1, dscale = 0\<rparr> \<lparr>coefficient = 5, dscale = 0\<rparr> = Inr True"
    "decimal_leq \<lparr>coefficient = 5, dscale = 0\<rparr> \<lparr>coefficient = 5, dscale = 0\<rparr> = Inr True"
  by code_simp+

lemmas demo_leqs [simp] = demo_leq demo_leq[unfolded One_nat_def]

lemma small_sum [simp]: "\<bar>a\<bar> \<le> 1000 \<Longrightarrow> \<bar>b\<bar> \<le> 1000 \<Longrightarrow> add_atoms a b = Inr (a + b)"
  by (simp add: MAX_ATOMS_def)

lemma binding_fields [simp]: "cb_id retail_binding = ''b1''" "cb_id supplier_binding = ''b2''" "cb_book retail_binding = Retail"
  "cb_book supplier_binding = Supplier" "cb_sources retail_binding = [''urn:a'']" "cb_sources supplier_binding = [''urn:a'']"
  "cb_unit retail_binding = ''call''" "cb_unit supplier_binding = ''call''" "cb_event_types retail_binding = [Generated]"
  "cb_maximum_quantity retail_binding = \<lparr>coefficient = 5, dscale = 0\<rparr>" "cb_maximum_quantity supplier_binding = \<lparr>coefficient = 5, dscale = 0\<rparr>"
  "cb_maximum_exposure retail_binding = None" "cb_maximum_exposure supplier_binding = Some \<lparr>currency = ''USD'', mscale = 2, atoms = 50\<rparr>"
  "cb_allocation_view retail_binding = False" "cb_allocation_view supplier_binding = False"
  "cb_correction_sources retail_binding = [''urn:a'']" "cb_correction_sources supplier_binding = [''urn:a'']"
  by (simp_all add: retail_binding_def supplier_binding_def)

lemma input_fields [simp]: "ip_event (demo_input e) = e" "ip_history (demo_input e) = []" "ip_context (demo_input e) = demo_context"
  "ip_source_authority (demo_input e) = demo_authority" "ip_invocations (demo_input e) = [demo_invocation]" "ip_costs (demo_input e) = []"
  "ip_received_at (demo_input e) = start"
  by (simp_all add: demo_input_def)

definition claim_label :: string where
  "claim_label = label ''cl'' DomClaim (JArray [scope_json demo_scope, JString ''urn:a'', JString ''e1'', JString ''completion'', JString ''completion''])"

lemma demo_claim: "demo_work e \<Longrightarrow> chain_claim_id sum_hash e = Inr claim_label"
proof -
  assume e: "demo_work e"
  let ?v = "JArray [scope_json demo_scope, JString ''urn:a'', JString ''e1'', JString ''completion'', JString ''completion'']"
  have "good 0 ?v" "text_bound ?v \<le> 1000000" by (simp_all add: measure_json scope_json_def demo_scope_def literal_ok byte_def)
  then have "identity sum_hash DomClaim ?v = Inr (label ''cl'' DomClaim ?v)" by (rule label_identity) simp
  then show ?thesis
    by (simp add: chain_claim_id_def completion_claim_id_def event_kind_of_def work_fields[OF e] is_work_def claim_label_def)
qed

lemma demo_find: "demo_work e \<Longrightarrow> find_invocation supplier_binding (demo_input e) None = Inr demo_invocation"
  by (simp add: find_invocation_def candidate_invocation_def demo_invocation_def event_kind_of_def work_fields is_work_def
      invocation_work_def invocation_limits_def quantity_of_def start_def)

lemma demo_bound: "demo_work e \<Longrightarrow> b \<in> {retail_binding, supplier_binding} \<Longrightarrow> validate_binding b (demo_input e) None = Inr ()"
  by (auto simp: validate_binding_def binding_work_def event_kind_of_def work_fields is_work_def quantity_of_def demo_find)

lemma demo_checked: "demo_work e \<Longrightarrow> check_input sum_hash demo_bundle (demo_input e) = Inr claim_label"
proof -
  assume e: "demo_work e"
  have a: "validate_authority e demo_authority = Inr ()"
    by (simp add: validate_authority_def demo_authority_def event_kind_of_def work_fields[OF e])
  have h: "validate_history e [] = Inr ()" using e by (simp add: validate_history_def demo_work_def)
  have c: "validate_context demo_bundle (demo_input e) = Inr ()"
    by (simp add: validate_context_def demo_context_def opt_check_def demo_bundle_def policy_defs check_cap_stage_def work_fields[OF e])
  have l: "validate_links e [] = Inr ()" by (simp add: validate_links_def work_fields[OF e])
  have r: "retail_of demo_bundle = Inr retail_policy" by (simp add: retail_of_def index_def demo_bundle_def)
  have b: "list_ex (\<lambda>p. cb_id (ch_binding p) = ''b2'') (bu_policies demo_bundle)" by (simp add: demo_bundle_def supplier_policy_def)
  have k: "event_kind_of e = Generated" by (simp add: event_kind_of_def work_fields[OF e])
  have rb: "ch_binding retail_policy = retail_binding" by (simp add: retail_policy_def)
  show ?thesis
    using a h c l r b demo_claim[OF e] demo_bound[OF e, of retail_binding]
    by (simp add: check_input_def k is_work_def opt_check_def work_fields[OF e] rb)
qed


lemma prices: "atoms_ratio \<lparr>coefficient = 100, dscale = 2\<rparr> 2 = Inr (ratio_integer 100)"
  "atoms_ratio \<lparr>coefficient = 30, dscale = 2\<rparr> 2 = Inr (ratio_integer 30)"
  "round_atoms (ratio_integer 100) = Inr 100" "round_atoms (ratio_integer 30) = Inr 30"
  "discount_value (DiscountPercent \<lparr>coefficient = 10, dscale = 0\<rparr>) 2 100 = Inr (ratio_integer (-10))"
  "round_atoms (ratio_integer (-10)) = Inr (-10)"
  by code_simp+

lemma claim_sized: "sized claim_label"
  unfolding claim_label_def by (rule label_sized) (simp_all add: byte_def)

lemma component_sized: "sized ''fee''" "sized ''off''"
  by (simp_all add: sized_def literal_ok byte_def)

lemma label_is_action: "starts_ac (action_label x)"
  by (simp add: starts_ac_def action_label_def label_def)

definition charge :: "event \<Rightarrow> chain_action" where
  "charge e = demo_action e claim_label retail_binding KCharge ''fee'' 100 [] None"

definition cost :: "event \<Rightarrow> chain_action" where
  "cost e = demo_action e claim_label supplier_binding KCost ''fee'' 30 [] None"

definition rebate :: "event \<Rightarrow> chain_action" where
  "rebate e = demo_action e claim_label retail_binding KDiscount ''off'' (-10) [ca_id (charge e)] (Some (ca_id (charge e)))"

lemmas rule_defs = applicable_rule_def Let_def predicate_all_def match_rule_def event_kind_of_def
  chain_operation_value_def price_operation_def blank_step_def apply_priced_def reduce_basis_def rule_actions_def
  allocation_actions_def match_sources_def match_links_def input_sources_def zero_code_def

lemma empty_inputs: "sorted_set ([] :: string list) = []" "sorted_set [s] = [s]" for s :: string
  by (simp_all add: sorted_set_def)

lemma demo_base:
  assumes e: "demo_work e"
  shows "\<exists>x. evaluate_rule sum_hash demo_bundle (demo_input e) claim_label (0, 0) st
    = Inr (st\<lparr>rs_booked := (rs_booked st)((0, ''fee'') \<mapsto> 100), rs_actions := rs_actions st @ [charge e],
        rs_explanations := rs_explanations st @ [x]\<rparr>)"
  and "\<exists>x. evaluate_rule sum_hash demo_bundle (demo_input e) claim_label (1, 0) st
    = Inr (st\<lparr>rs_booked := (rs_booked st)((1, ''fee'') \<mapsto> 30), rs_actions := rs_actions st @ [cost e],
        rs_explanations := rs_explanations st @ [x]\<rparr>)"
proof -
  note make = demo_make[OF work_fields(7)[OF e] claim_sized component_sized(1), of retail_binding 100]
    demo_make[OF work_fields(7)[OF e] claim_sized component_sized(1), of supplier_binding 30]
  note v = demo_bound[OF e, of retail_binding] demo_bound[OF e, of supplier_binding]
  have s: "bu_scale demo_bundle = 2" by (simp add: demo_bundle_def)
  have r: "base_rule n = \<lparr>cr_id = ''fee'', cr_on = Generated, cr_component = ''fee'', cr_when = [], cr_matcher = None,
     cr_operation = BaseOp (PriceFixed \<lparr>coefficient = nat n, dscale = 2\<rparr>)\<rparr>" for n by (rule base_rule_def)
  have at: "evaluate_rule sum_hash demo_bundle (demo_input e) claim_label (0, 0) st
      = applicable_rule sum_hash demo_bundle (demo_input e) claim_label 0 retail_binding (base_rule 100) st"
    "evaluate_rule sum_hash demo_bundle (demo_input e) claim_label (1, 0) st
      = applicable_rule sum_hash demo_bundle (demo_input e) claim_label 1 supplier_binding (base_rule 30) st"
    by (simp_all add: evaluate_rule_def index_def demo_bundle_def retail_policy_def supplier_policy_def r event_kind_of_def work_fields[OF e])
  show "\<exists>x. evaluate_rule sum_hash demo_bundle (demo_input e) claim_label (0, 0) st
    = Inr (st\<lparr>rs_booked := (rs_booked st)((0, ''fee'') \<mapsto> 100), rs_actions := rs_actions st @ [charge e],
        rs_explanations := rs_explanations st @ [x]\<rparr>)"
    unfolding at r using make(1) v(1) by (simp add: rule_defs work_fields[OF e] s prices empty_inputs charge_def) (rule exI, rule refl)
  show "\<exists>x. evaluate_rule sum_hash demo_bundle (demo_input e) claim_label (1, 0) st
    = Inr (st\<lparr>rs_booked := (rs_booked st)((1, ''fee'') \<mapsto> 30), rs_actions := rs_actions st @ [cost e],
        rs_explanations := rs_explanations st @ [x]\<rparr>)"
    unfolding at r using make(2) v(2) by (simp add: rule_defs work_fields[OF e] s prices empty_inputs cost_def) (rule exI, rule refl)
qed


lemma demo_rebate:
  assumes e: "demo_work e" and st: "rs_actions st = [charge e, cost e]" "rs_booked st (0, ''fee'') = Some 100"
    "rs_adjustments st = Map.empty" "rs_net_inputs st = Map.empty"
  shows "\<exists>x adjustments inputs. evaluate_rule sum_hash demo_bundle (demo_input e) claim_label (0, 1) st
    = Inr (st\<lparr>rs_adjustments := adjustments, rs_net_inputs := inputs, rs_booked := (rs_booked st)((0, ''off'') \<mapsto> - 10),
        rs_actions := [charge e, cost e, rebate e], rs_explanations := rs_explanations st @ [x]\<rparr>)"
proof -
  have fields: "cb_id (ca_binding (charge e)) = ''b1''" "ca_component (charge e) = ''fee''" "starts_ac (ca_id (charge e))"
    by (simp_all add: charge_def demo_action_def label_is_action)
  note make = demo_make[OF work_fields(7)[OF e] claim_sized component_sized(2), of retail_binding "- 10" "[ca_id (charge e)]"]
  have s: "bu_scale demo_bundle = 2" by (simp add: demo_bundle_def)
  have at: "evaluate_rule sum_hash demo_bundle (demo_input e) claim_label (0, 1) st
      = applicable_rule sum_hash demo_bundle (demo_input e) claim_label 0 retail_binding rebate_rule st"
    by (simp add: evaluate_rule_def index_def demo_bundle_def retail_policy_def rebate_rule_def event_kind_of_def work_fields[OF e])
  show ?thesis
    unfolding at rebate_rule_def
    using make demo_bound[OF e, of retail_binding] demo_action_identity[OF work_fields(7)[OF e] claim_sized component_sized(2), of retail_binding]
    by (simp add: rule_defs discount_operation_def booked_at_def adjustment_def net_inputs_of_def st work_fields[OF e] s prices
        empty_inputs rebate_def fields) (rule exI, rule exI, rule exI, rule refl)
qed

lemma demo_order: "bu_order demo_bundle = [(0, 0), (1, 0), (0, 1)]"
  by (simp add: demo_bundle_def)

lemma demo_rules:
  assumes e: "demo_work e"
  shows "\<exists>st. evaluate_rules sum_hash demo_bundle (demo_input e) claim_label = Inr st
    \<and> rs_actions st = [charge e, cost e, rebate e] \<and> length (rs_explanations st) = 3 \<and> rs_closed st = None"
proof -
  let ?run = "evaluate_rule sum_hash demo_bundle (demo_input e) claim_label"
  obtain s1 where s1: "?run (0, 0) empty_state = Inr s1" "rs_actions s1 = [charge e]" "rs_booked s1 (0, ''fee'') = Some 100"
    "rs_adjustments s1 = Map.empty" "rs_net_inputs s1 = Map.empty" "length (rs_explanations s1) = 1" "rs_closed s1 = None"
    using demo_base(1)[OF e, of empty_state] by (auto simp: empty_state_def)
  obtain s2 where s2: "?run (1, 0) s1 = Inr s2" "rs_actions s2 = [charge e, cost e]" "rs_booked s2 (0, ''fee'') = Some 100"
    "rs_adjustments s2 = Map.empty" "rs_net_inputs s2 = Map.empty" "length (rs_explanations s2) = 2" "rs_closed s2 = None"
    using demo_base(2)[OF e, of s1] s1 by auto
  obtain s3 where s3: "?run (0, 1) s2 = Inr s3" "rs_actions s3 = [charge e, cost e, rebate e]" "length (rs_explanations s3) = 3" "rs_closed s3 = None"
    using demo_rebate[OF e s2(2-5)] s2(6,7) by auto
  show ?thesis using s1(1) s2(1) s3 by (simp add: evaluate_rules_def demo_order)
qed


lemma action_fields [simp]:
  "ca_book (charge e) = Retail" "ca_book (cost e) = Supplier" "ca_book (rebate e) = Retail"
  "ca_binding (charge e) = retail_binding" "ca_binding (cost e) = supplier_binding" "ca_binding (rebate e) = retail_binding"
  "ca_amount (charge e) = \<lparr>currency = ''USD'', mscale = 2, atoms = 100\<rparr>"
  "ca_amount (cost e) = \<lparr>currency = ''USD'', mscale = 2, atoms = 30\<rparr>"
  "ca_amount (rebate e) = \<lparr>currency = ''USD'', mscale = 2, atoms = - 10\<rparr>"
  "ca_obligation_id (charge e) = obligation_label retail_binding" "ca_obligation_id (cost e) = obligation_label supplier_binding"
  "ca_obligation_id (rebate e) = obligation_label retail_binding"
  "ca_reverses (charge e) = None" "ca_reverses (cost e) = None" "ca_reverses (rebate e) = None"
  by (simp_all add: charge_def cost_def rebate_def demo_action_def)

lemma demo_money: "\<bar>n\<bar> \<le> 1000 \<Longrightarrow> money_new ''USD'' 2 n = Inr \<lparr>currency = ''USD'', mscale = 2, atoms = n\<rparr>"
  by (simp add: is_upper_def byte_def money_ok_def MAX_ATOMS_def)

lemma demo_consumed:
  assumes e: "demo_work e"
  shows "chain_consumptions sum_hash demo_bundle (demo_input e) [charge e, cost e, rebate e]
    = Inr [\<lparr>cn_invocation_id = ''i1'', cn_consume = \<lparr>currency = ''USD'', mscale = 2, atoms = 30\<rparr>,
        cn_release = \<lparr>currency = ''USD'', mscale = 2, atoms = 10\<rparr>\<rparr>]"
proof -
  have b: "ch_binding retail_policy = retail_binding" "ch_binding supplier_policy = supplier_binding"
    by (simp_all add: retail_policy_def supplier_policy_def)
  have rel: "relevant_rules supplier_policy (demo_input e) = [base_rule 30]"
    by (simp add: relevant_rules_def supplier_policy_def base_rule_def predicate_all_def event_kind_of_def work_fields[OF e])
  have ch: "choose_invocation sum_hash (demo_input e) supplier_binding (base_rule 30) None = Inr (Some ''i1'')"
    using demo_find[OF e] by (simp add: choose_invocation_def base_rule_def match_rule_def demo_invocation_def)
  have cl: "closes supplier_policy (demo_input e)"
    by (simp add: closes_def supplier_policy_def base_rule_def)
  have i: "iv_id demo_invocation = ''i1''" "atoms (iv_held demo_invocation) = 40" by (simp_all add: demo_invocation_def)
  have bu: "bu_policies demo_bundle = [retail_policy, supplier_policy]" "bu_currency demo_bundle = ''USD''" "bu_scale demo_bundle = 2"
    by (simp_all add: demo_bundle_def)
  show ?thesis
    unfolding chain_consumptions_def bu
    by (simp add: policy_consumption_def b rel ch cl i bu total_atoms_def trap_i128_def int_ranges demo_money)
qed

lemma demo_deltas: "\<exists>ds. chain_deltas [charge e, cost e, rebate e] = Inr ds"
proof -
  have add: "money_checked_add \<lparr>currency = ''USD'', mscale = 2, atoms = a\<rparr> \<lparr>currency = ''USD'', mscale = 2, atoms = b\<rparr>
      = Inr \<lparr>currency = ''USD'', mscale = 2, atoms = a + b\<rparr>" if "\<bar>a\<bar> \<le> 500" "\<bar>b\<bar> \<le> 500" for a b
    using that by (simp add: money_checked_add_def demo_money)
  show ?thesis
    by (simp add: chain_deltas_def group_action_def delta_of_def om_insert.simps add split: if_splits)
qed


section \<open>Distinct identities\<close>

definition weight :: "string \<Rightarrow> nat" where
  "weight s = sum_list (map byte s)"

lemma weight_append [simp]: "weight (s @ t) = weight s + weight t"
  by (simp add: weight_def)

lemma weight_literal [simp]: "weight [] = 0" "weight (c # s) = byte c + weight s"
  by (simp_all add: weight_def)

definition tag :: "string \<Rightarrow> string \<Rightarrow> string" where
  "tag p x = p @ ''_'' @ replicate 62 (CHR ''0'') @ x"

lemma tag_weight [simp]: "weight (tag p x) = weight p + 3071 + weight x"
  by (simp add: tag_def weight_def sum_list_replicate byte_def)

lemma tag_plain [simp]: "plain p \<Longrightarrow> plain x \<Longrightarrow> plain (tag p x)"
  by (auto simp: tag_def plain_def list_all_iff byte_def)

lemma quoted_weight: "plain s \<Longrightarrow> weight (jstring s) = 68 + weight s"
  by (simp add: plain_jstring byte_def)

lemma hex_digits [simp]: "hex_digit 0 = CHR ''0''" "hex_digit 1 = CHR ''1''" "hex_digit (Suc 0) = CHR ''1''" "hex_digit 2 = CHR ''2''" "hex_digit 3 = CHR ''3''"
  "hex_digit 5 = CHR ''5''" "hex_digit 7 = CHR ''7''" "hex_digit 8 = CHR ''8''" "hex_digit 9 = CHR ''9''" "hex_digit 10 = CHR ''a''"
  "hex_digit 11 = CHR ''b''" "hex_digit 12 = CHR ''c''" "hex_digit 13 = CHR ''d''" "hex_digit 14 = CHR ''e''" "hex_digit 15 = CHR ''f''"
  by code_simp+

lemma hex_append: "hex (s @ t) = hex s @ hex t"
  by (simp add: hex_def)

lemma hex_zeros: "hex (replicate n (CHR 0x00)) = replicate (2 * n) (CHR ''0'')"
  by (induction n) (simp_all add: hex_def hex_byte_def byte_def)

lemma label_value: "label p d v = tag p (hex [char_of (weight (''ledgerlab/'' @ domain_name d @ ''/1'' @ jtext v))])"
proof -
  let ?n = "weight (''ledgerlab/'' @ domain_name d @ ''/1'' @ jtext v)"
  have w: "weight (''ledgerlab/'' @ domain_name d @ ''/1'' @ [CHR 0x00] @ jtext v) = ?n"
    by (simp only: weight_append) (simp add: byte_def)
  show ?thesis
    unfolding label_def tag_def sum_hash_def weight_def[symmetric] w hex_append hex_zeros by simp
qed

lemma hex_value: "hex [char_of n] = [hex_digit (n mod 256 div 16), hex_digit (n mod 256 mod 16)]"
  by (simp add: hex_def hex_byte_def byte_def of_char_of)

lemma quoted_tag: "plain p \<Longrightarrow> plain x \<Longrightarrow> weight (jstring (tag p x)) = 3139 + weight p + weight x"
  by (simp add: quoted_weight)

lemmas label_sums = hex_value scope_json_def demo_scope_def quoted_weight quoted_tag plain_def byte_def

lemma claim_tag: "claim_label = tag ''cl'' ''a9''"
  by (simp add: claim_label_def label_value label_sums)

lemma agreements: "cb_agreement retail_binding = ''a1''" "cb_agreement supplier_binding = ''a3''"
  by (simp_all add: retail_binding_def supplier_binding_def)

lemma effect_tags: "effect_label retail_binding ''fee'' claim_label = tag ''ef'' ''af''"
  "effect_label supplier_binding ''fee'' claim_label = tag ''ef'' ''b1''"
  "effect_label retail_binding ''off'' claim_label = tag ''ef'' ''ba''"
  by (simp_all add: effect_label_def claim_tag agreements label_value label_sums)

lemma action_tags: "action_label (tag ''ef'' ''af'') = tag ''ac'' ''3c''" "action_label (tag ''ef'' ''b1'') = tag ''ac'' ''08''"
  "action_label (tag ''ef'' ''ba'') = tag ''ac'' ''38''" "action_label (tag ''ef'' ''b0'') = tag ''ac'' ''07''"
  "action_label (tag ''ef'' ''82'') = tag ''ac'' ''df''" "action_label (tag ''ef'' ''85'') = tag ''ac'' ''e2''"
  by (simp_all add: action_label_def label_value label_sums)

lemma action_ids [simp]: "ca_id (charge e) = tag ''ac'' ''3c''" "ca_id (cost e) = tag ''ac'' ''08''" "ca_id (rebate e) = tag ''ac'' ''38''"
  by (simp_all add: charge_def cost_def rebate_def demo_action_def effect_tags action_tags)

lemma prefix_order: "p @ x \<le> p @ y \<longleftrightarrow> x \<le> y" for x y :: string
  by (induction p) (simp_all add: Cons_le_Cons)

lemma tag_order [simp]: "tag p x \<le> tag p y \<longleftrightarrow> x \<le> y" "tag p x = tag p y \<longleftrightarrow> x = y"
  by (simp_all only: tag_def prefix_order append_same_eq same_append_eq)

definition reversal_label :: "string \<Rightarrow> string" where
  "reversal_label a = label ''ef'' DomReversalEffect (JArray [scope_json demo_scope, JString a])"

lemma reversal_tags: "reversal_label (tag ''ac'' ''3c'') = tag ''ef'' ''b0''" "reversal_label (tag ''ac'' ''08'') = tag ''ef'' ''82''"
  "reversal_label (tag ''ac'' ''38'') = tag ''ef'' ''85''"
  by (simp_all add: reversal_label_def label_value label_sums)

lemma event_tags: "label ''ev'' DomEvent (event_key demo_scope ''urn:a'' ''e1'') = tag ''ev'' ''b9''"
  "label ''ev'' DomEvent (event_key demo_scope ''urn:a'' ''e2'') = tag ''ev'' ''ba''"
  by (simp_all add: event_key_def label_value label_sums)

section \<open>The decision and its reversal\<close>

definition decided :: "event \<Rightarrow> evaluation \<Rightarrow> bool" where
  "decided e d \<longleftrightarrow> va_event d = e \<and> va_actions d = [charge e, cost e, rebate e] \<and> va_bundle d = demo_bundle
     \<and> va_context d = demo_context \<and> va_claim_id d = Some claim_label \<and> length (va_explanations d) = 3
     \<and> va_consumptions d = [\<lparr>cn_invocation_id = ''i1'', cn_consume = \<lparr>currency = ''USD'', mscale = 2, atoms = 30\<rparr>,
        cn_release = \<lparr>currency = ''USD'', mscale = 2, atoms = 10\<rparr>\<rparr>]"

lemma demo_decides:
  assumes e: "demo_work e"
  shows "\<exists>d. bundle_evaluate sum_hash demo_bundle (demo_input e) = Inr d \<and> decided e d"
proof -
  obtain st where st: "evaluate_rules sum_hash demo_bundle (demo_input e) claim_label = Inr st"
    "rs_actions st = [charge e, cost e, rebate e]" "length (rs_explanations st) = 3" using demo_rules[OF e] by blast
  obtain ds where ds: "chain_deltas [charge e, cost e, rebate e] = Inr ds" using demo_deltas by blast
  have x: "rfold (\<lambda>p _. check_exposure (rs_actions st) p) (bu_policies demo_bundle) () = Inr ()"
    by (simp add: st(2) demo_bundle_def retail_policy_def supplier_policy_def check_exposure_def opt_check_def total_atoms_def)
  show ?thesis
    using demo_checked[OF e] st ds demo_consumed[OF e] x
    by (simp add: bundle_evaluate_def work_fields[OF e] decision_with_def decided_def del: rfold.simps)
qed

lemma demo_event: "\<exists>e. resolved_event model_serde explain sum_hash e \<and> demo_work e \<and> event_ident e = tag ''ev'' ''b9''"
proof -
  obtain e where e: "resolved_event model_serde explain sum_hash e" "demo_work e"
    "identity sum_hash DomEvent (event_key demo_scope ''urn:a'' ''e1'') = Inr (event_ident e)"
    using work_exists[of explain sum_hash] by (auto simp: demo_work_def)
  have "identity sum_hash DomEvent (event_key demo_scope ''urn:a'' ''e1'') = Inr (tag ''ev'' ''b9'')"
    unfolding event_tags[symmetric]
    by (rule label_identity) (simp_all add: event_key_def measure_json demo_scope_def literal_ok byte_def)
  then show ?thesis using e by auto
qed

definition demo_undo :: "event \<Rightarrow> bool" where
  "demo_undo e \<longleftrightarrow> e_dto e = resolved_form (undo_normal (tag ''ev'' ''b9'')) \<and> event_scope e = demo_scope
    \<and> event_source e = ''urn:a'' \<and> cd_dto (e_candidate e) = undo_normal (tag ''ev'' ''b9'') \<and> length (e_bytes e) \<le> 5000
    \<and> event_ident e = tag ''ev'' ''ba''"

lemma demo_named: "event_named (tag ''ev'' ''b9'')"
  by (auto simp: event_named_def tag_def prefixed_def strip_prefix_def list_all_iff hash_char_def is_digit_def byte_def
      ascii_def intro!: str_ok_ascii)

lemma demo_undo_event: "\<exists>e. resolved_event model_serde explain sum_hash e \<and> demo_undo e"
proof -
  obtain e where e: "resolved_event model_serde explain sum_hash e" "e_dto e = resolved_form (undo_normal (tag ''ev'' ''b9''))"
    "event_scope e = demo_scope" "event_source e = ''urn:a''" "cd_dto (e_candidate e) = undo_normal (tag ''ev'' ''b9'')"
    "length (e_bytes e) \<le> 5000" "identity sum_hash DomEvent (event_key demo_scope ''urn:a'' ''e2'') = Inr (event_ident e)"
    using undo_exists[OF demo_named, of explain sum_hash] by blast
  have "identity sum_hash DomEvent (event_key demo_scope ''urn:a'' ''e2'') = Inr (tag ''ev'' ''ba'')"
    unfolding event_tags[symmetric]
    by (rule label_identity) (simp_all add: event_key_def measure_json demo_scope_def literal_ok byte_def)
  then show ?thesis using e by (auto simp: demo_undo_def)
qed

lemma undo_fields:
  assumes "demo_undo e"
  shows "ev_kind (e_dto e) = EconomicReversal" "ev_customer (e_dto e) = ''acme''" "links_of (e_dto e) = []"
    "event_source e = ''urn:a''" "event_scope e = demo_scope" "event_chain e = Inr ''main''"
    "ev_targets (e_dto e) = Some [tag ''ev'' ''b9'']" "event_ident e = tag ''ev'' ''ba''"
  using assms by (simp_all add: demo_undo_def resolved_form_def undo_normal_def undo_raw_def raw_event_def links_of_def event_chain_def)

lemma tag_length [simp]: "length (tag p x) = length p + 63 + length x"
  by (simp add: tag_def)

lemma demo_lengths:
  "length (ca_effect_id (charge e)) = 67" "length (ca_effect_id (cost e)) = 67" "length (ca_effect_id (rebate e)) = 67"
  "length (ca_obligation_id (charge e)) = 67" "length (ca_obligation_id (cost e)) = 67" "length (ca_obligation_id (rebate e)) = 67"
  "length (obligation_label b) = 67"
  "ca_component (charge e) = ''fee''" "ca_component (cost e) = ''fee''" "ca_component (rebate e) = ''off''"
  "length (ca_inputs (charge e)) = 0" "length (ca_inputs (cost e)) = 0" "length (ca_inputs (rebate e)) = 1"
  "ca_links (charge e) = []" "ca_links (cost e) = []" "ca_links (rebate e) = []"
  "length (ca_sources (charge e)) = 1" "length (ca_sources (cost e)) = 1" "length (ca_sources (rebate e)) = 1"
  by (simp_all add: charge_def cost_def rebate_def demo_action_def effect_label_def obligation_label_def label_sized(2))

lemma demo_history:
  assumes "demo_work e" and "event_ident e = tag ''ev'' ''b9''" and "decided e d" and "demo_undo e'"
  shows "validate_history e' [d] = Inr ()"
proof -
  have l: "length (e_bytes e) \<le> 5000" "length (e_bytes e') \<le> 5000" using assms by (simp_all add: demo_work_def demo_undo_def)
  have c: "same_chain e' e = Inr True"
    by (simp add: same_chain_def work_fields[OF assms(1)] undo_fields[OF assms(4)])
  have d: "va_event d = e" "va_actions d = [charge e, cost e, rebate e]" "va_claim_id d = Some claim_label"
    using assms(3) by (simp_all add: decided_def)
  show ?thesis
    using l by (simp add: validate_history_def history_entry_def history_action_def action_bytes_def c d assms(2) undo_fields[OF assms(4)]
        demo_lengths)
qed

text \<open>The reversal of one action, with the identities of the tags.\<close>

definition undone :: "event \<Rightarrow> chain_action \<Rightarrow> string \<Rightarrow> chain_action \<Rightarrow> bool" where
  "undone e' a x b \<longleftrightarrow> ca_id b = tag ''ac'' x \<and> ca_obligation_id b = ca_obligation_id a \<and> ca_book b = ca_book a
     \<and> ca_amount b = \<lparr>currency = ''USD'', mscale = 2, atoms = - atoms (ca_amount a)\<rparr> \<and> ca_reverses b = Some (ca_id a)
     \<and> length (ca_effect_id b) = 67 \<and> ca_component b = ca_component a \<and> length (ca_inputs b) = 1
     \<and> length (ca_sources b) = 2 \<and> length (ca_links b) = 0"

lemma demo_undoes:
  assumes e': "demo_undo e'" and a: "a \<in> {charge e, cost e, rebate e}"
    and t: "reversal_label (ca_id a) = tag ''ef'' y" "action_label (tag ''ef'' y) = tag ''ac'' x" and y: "length y = 2" "plain y"
  shows "\<exists>b. reversal_action sum_hash e' (s, a) = Inr b \<and> undone e' a x b"
proof -
  have id: "ca_id a \<in> {tag ''ac'' ''3c'', tag ''ac'' ''08'', tag ''ac'' ''38''}" using a by auto
  have st: "str_ok (tag p z)" if "ascii p" "ascii z" "length p \<le> 10" "length z \<le> 10" for p z
    using that by (auto intro!: str_ok_ascii simp: tag_def ascii_def list_all_iff byte_def)
  have ok: "str_ok (ca_id a)" "length (ca_id a) = 67" using id by (auto intro!: st simp: byte_def)
  have asc: "ascii y" using y(2) by (auto simp: plain_def ascii_def list_all_iff)
  have "identity sum_hash DomReversalEffect (JArray [scope_json demo_scope, JString (ca_id a)]) = Inr (reversal_label (ca_id a))"
    unfolding reversal_label_def
    by (rule label_identity) (use ok in \<open>simp_all add: measure_json scope_json_def demo_scope_def literal_ok byte_def\<close>)
  moreover have "identity sum_hash DomAction (JArray [JString (tag ''ef'' y)]) = Inr (action_label (tag ''ef'' y))"
    unfolding action_label_def
    by (rule label_identity) (use st[of "''ef''" y] asc y(1) in \<open>simp_all add: measure_json byte_def\<close>)
  ultimately show ?thesis
    using a by (auto simp: reversal_action_def undo_fields[OF e'] t trap_i128_def int_ranges demo_money undone_def demo_lengths y(1))
qed

lemma demo_originals:
  assumes "decided e d"
  shows "originals_of [d] = [(event_ident e, cost e), (event_ident e, rebate e), (event_ident e, charge e)]"
  using assms by (simp add: originals_of_def decided_def Cons_le_Cons less_eq_char_def)

lemma demo_reversible:
  assumes "demo_work e" and "event_ident e = tag ''ev'' ''b9''" and "decided e d" and "demo_undo e'"
  shows "check_reversal e' [d] demo_authority = Inr [d]"
proof -
  have d: "va_event d = e" "va_actions d = [charge e, cost e, rebate e]"
    using assms(3) by (simp_all add: decided_def)
  have a: "validate_authority e' demo_authority = Inr ()"
    by (simp add: validate_authority_def demo_authority_def event_kind_of_def undo_fields[OF assms(4)])
  have s: "select_targets [d] [tag ''ev'' ''b9''] = Inr [d]" by (simp add: select_targets_def d assms(2))
  have c: "check_target e' [d] d d {} = Inr {tag ''ac'' ''3c'', tag ''ac'' ''08'', tag ''ac'' ''38''}"
    by (auto simp: check_target_def check_target_action_def same_pins_def d event_kind_of_def work_fields[OF assms(1)] is_reversed_def
        undo_fields[OF assms(4)])
  have dep: "check_dependents [d] [tag ''ev'' ''b9''] ids d = Inr ()" for ids
    by (simp add: check_dependents_def d assms(2))
  have k: "event_kind_of e' = EconomicReversal" by (simp add: event_kind_of_def undo_fields[OF assms(4)])
  have n: "card {tag ''ac'' ''3c'', tag ''ac'' ''08'', tag ''ac'' ''38''} \<le> 128" by simp
  show ?thesis
    unfolding check_reversal_def k undo_fields(7)[OF assms(4)]
    using a demo_history[OF assms] s c dep n by (simp add: index_def same_pins_def)
qed

lemma demo_reverses:
  assumes "demo_work e" and "event_ident e = tag ''ev'' ''b9''" and "decided e d" and "demo_undo e'"
  shows "\<exists>r x y z. chain_reverse sum_hash e' [d] demo_authority = Inr r \<and> va_event r = e' \<and> va_claim_id r = None
    \<and> va_actions r = [x, y, z] \<and> undone e' (cost e) ''df'' x \<and> undone e' (rebate e) ''e2'' y \<and> undone e' (charge e) ''07'' z"
proof -
  obtain x y z where x: "reversal_action sum_hash e' (event_ident e, cost e) = Inr x" "undone e' (cost e) ''df'' x"
    and y: "reversal_action sum_hash e' (event_ident e, rebate e) = Inr y" "undone e' (rebate e) ''e2'' y"
    and z: "reversal_action sum_hash e' (event_ident e, charge e) = Inr z" "undone e' (charge e) ''07'' z"
    using demo_undoes[OF assms(4), of "cost e" e "''82''" "''df''"] demo_undoes[OF assms(4), of "rebate e" e "''85''" "''e2''"]
      demo_undoes[OF assms(4), of "charge e" e "''b0''" "''07''"] reversal_tags action_tags
    by (simp add: plain_def byte_def) blast
  have add: "money_checked_add \<lparr>currency = ''USD'', mscale = 2, atoms = a\<rparr> \<lparr>currency = ''USD'', mscale = 2, atoms = b\<rparr>
      = Inr \<lparr>currency = ''USD'', mscale = 2, atoms = a + b\<rparr>" if "\<bar>a\<bar> \<le> 500" "\<bar>b\<bar> \<le> 500" for a b
    using that by (simp add: money_checked_add_def demo_money)
  have "\<exists>ds. chain_deltas [x, y, z] = Inr ds"
    using x(2) y(2) z(2)
    by (simp add: chain_deltas_def group_action_def delta_of_def om_insert.simps add undone_def split: if_splits)
  then show ?thesis
    using demo_reversible[OF assms] demo_originals[OF assms(3)] x y z by (auto simp: chain_reverse_def index_def)
qed

text \<open>A later event of the chain, made from the first one.\<close>

definition origin_link :: typed_link where
  "origin_link = \<lparr>link_schema = ''ledger-link/1'', link_relation = OptimizedFrom, link_from = \<lparr>ref_source = ''urn:a'', ref_id = ''e1''\<rparr>\<rparr>"

definition later :: "event \<Rightarrow> event" where
  "later e = e\<lparr>e_candidate := (e_candidate e)\<lparr>cd_event_id := ''ev_3''\<rparr>,
     e_dto := (e_dto e)\<lparr>ev_kind := Optimized, ev_links := Some [origin_link]\<rparr>\<rparr>"

lemma later_fields:
  assumes "demo_work e"
  shows "event_scope (later e) = demo_scope" "event_chain (later e) = Inr ''main''" "ev_customer (e_dto (later e)) = ''acme''"
    "event_ident (later e) = ''ev_3''" "links_of (e_dto (later e)) = [origin_link]" "e_bytes (later e) = e_bytes e"
  using assms work_fields[OF assms]
  by (simp_all add: later_def event_scope_def event_ident_def event_chain_def links_of_def)

definition chain_of :: "event \<Rightarrow> evaluation \<Rightarrow> event \<Rightarrow> evaluation \<Rightarrow> bool" where
  "chain_of e d e' r \<longleftrightarrow> demo_work e \<and> event_ident e = tag ''ev'' ''b9'' \<and> decided e d \<and> demo_undo e' \<and> va_event r = e'
     \<and> va_claim_id r = None \<and> (\<exists>x y z. va_actions r = [x, y, z] \<and> undone e' (cost e) ''df'' x \<and> undone e' (rebate e) ''e2'' y
        \<and> undone e' (charge e) ''07'' z)"

lemma demo_chain: "\<exists>e d e' r. resolved_event model_serde explain sum_hash e \<and> resolved_event model_serde explain sum_hash e'
    \<and> bundle_evaluate sum_hash demo_bundle (demo_input e) = Inr d \<and> chain_reverse sum_hash e' [d] demo_authority = Inr r
    \<and> chain_of e d e' r"
proof -
  obtain e where e: "resolved_event model_serde explain sum_hash e" "demo_work e" "event_ident e = tag ''ev'' ''b9''"
    using demo_event by blast
  obtain d where d: "bundle_evaluate sum_hash demo_bundle (demo_input e) = Inr d" "decided e d" using demo_decides[OF e(2)] by blast
  obtain e' where e': "resolved_event model_serde explain sum_hash e'" "demo_undo e'" using demo_undo_event by blast
  show ?thesis using demo_reverses[OF e(2,3) d(2) e'(2)] e d e' unfolding chain_of_def by blast
qed

lemma demo_accepted:
  assumes "chain_of e d e' r"
  shows "validate_history (later e) [d, r] = Inr ()" "validate_links (later e) [d, r] = Inr ()"
proof -
  have e: "demo_work e" "event_ident e = tag ''ev'' ''b9''" "decided e d" "demo_undo e'" "va_event r = e'" "va_claim_id r = None"
    using assms by (simp_all add: chain_of_def)
  obtain x y z where r: "va_actions r = [x, y, z]" and u: "undone e' (cost e) ''df'' x" "undone e' (rebate e) ''e2'' y" "undone e' (charge e) ''07'' z"
    using assms by (auto simp: chain_of_def)
  have l: "length (e_bytes e) \<le> 5000" "length (e_bytes e') \<le> 5000" using e by (simp_all add: demo_work_def demo_undo_def)
  have d: "va_event d = e" "va_actions d = [charge e, cost e, rebate e]" "va_claim_id d = Some claim_label"
    using e(3) by (simp_all add: decided_def)
  have c: "same_chain (later e) e = Inr True" "same_chain (later e) e' = Inr True"
    by (simp_all add: same_chain_def work_fields[OF e(1)] undo_fields[OF e(4)] later_fields[OF e(1)])
  have n: "tag p w \<noteq> ''ev_3''" for p w by (rule notI, drule arg_cong[where f = length]) simp
  have b: "action_bytes x \<le> 3000" "action_bytes y \<le> 3000" "action_bytes z \<le> 3000"
    using u by (simp_all add: action_bytes_def undone_def demo_lengths)
  have i: "ca_id x = tag ''ac'' ''df''" "ca_id y = tag ''ac'' ''e2''" "ca_id z = tag ''ac'' ''07''" using u by (simp_all add: undone_def)
  have b': "action_bytes (charge e) \<le> 3000" "action_bytes (cost e) \<le> 3000" "action_bytes (rebate e) \<le> 3000"
    by (simp_all add: action_bytes_def demo_lengths)
  show "validate_history (later e) [d, r] = Inr ()"
    using l b b' by (simp add: validate_history_def history_entry_def history_action_def c d r e n i undo_fields[OF e(4)] later_fields[OF e(1)])
  have t: "link_target [d, r] origin_link = Some d"
    using e(1) by (simp add: link_target_def origin_link_def d work_fields[OF e(1)] demo_work_def resolved_form_def work_normal_def
        normal_event_def raw_event_def)
  have lr: "link_relation origin_link = OptimizedFrom" by (simp add: origin_link_def)
  have dp: "depth [d, r] e 1 ({}, Map.empty) = Inr ({}, [event_ident e \<mapsto> 1])"
    by (subst depth.simps) (simp add: work_fields[OF e(1)])
  show "validate_links (later e) [d, r] = Inr ()"
    using dp lr by (simp add: validate_links_def validate_link_def later_fields[OF e(1)] t d event_kind_of_def work_fields[OF e(1)]
        inbound_def e undo_fields[OF e(4)])
qed

lemma demo_reachable:
  assumes "resolved_event model_serde explain sum_hash e" "resolved_event model_serde explain sum_hash e'"
    "bundle_evaluate sum_hash demo_bundle (demo_input e) = Inr d" "chain_reverse sum_hash e' [d] demo_authority = Inr r"
  shows "chain_history model_serde explain sum_hash [d]" "chain_history model_serde explain sum_hash [d, r]"
proof -
  have "chain_history model_serde explain sum_hash (ip_history (demo_input e) @ [d])"
    by (rule chain_history.evaluated[OF _ _ _ demo_compiles assms(3)])
      (simp_all add: chain_history.nothing_yet assms(1) demo_invocation_def money_ok_def is_upper_def byte_def MAX_ATOMS_def)
  then show d: "chain_history model_serde explain sum_hash [d]" by simp
  show "chain_history model_serde explain sum_hash [d, r]"
    using chain_history.reversed[OF d assms(2,4)] by simp
qed

section \<open>The properties on the sample\<close>

theorem chain_compiled_order_witness:
  "bundle_compile ''USD'' 2 [retail_policy, supplier_policy] = Inr demo_bundle \<and> sorted (map policy_key (bu_policies demo_bundle))
    \<and> set (bu_order demo_bundle) = all_places (bu_policies demo_bundle) \<and> written_before demo_bundle 2 (0, ''fee'')"
proof -
  have s: "2 < length (bu_order demo_bundle)" "(0, ''fee'') \<in> set (operation_reads (fst (bu_order demo_bundle ! 2))
      (cr_operation (rule_of (bu_policies demo_bundle) (bu_order demo_bundle ! 2))))"
    by (simp_all add: demo_bundle_def rule_of_def retail_policy_def rebate_rule_def)
  show ?thesis using chain_compiled_order[OF demo_compiles] s demo_compiles by (elim conjE) blast
qed

theorem chain_decision_deltas_witness:
  "\<exists>e d. bundle_evaluate sum_hash demo_bundle (demo_input e) = Inr d \<and> sorted_wrt (<) (map od_obligation_id (va_deltas d))
    \<and> obligation_label retail_binding \<in> od_obligation_id ` set (va_deltas d)
    \<and> 0 \<le> action_total (\<lambda>b. b = supplier_binding) (va_actions d)"
proof -
  obtain e d e' r where d: "bundle_evaluate sum_hash demo_bundle (demo_input e) = Inr d" and c: "chain_of e d e' r"
    using demo_chain by blast
  have "va_actions d = [charge e, cost e, rebate e]" using c by (simp add: chain_of_def decided_def)
  then have "obligation_total (obligation_label retail_binding) (va_actions d) \<noteq> 0"
    by (simp add: obligation_total_def obligation_actions_def payable_def)
  then show ?thesis using chain_decision_deltas[OF demo_compiles d] d by blast
qed

theorem chain_reservation_conserved_witness:
  "\<exists>e d c p (i :: invocation). bundle_evaluate sum_hash demo_bundle (demo_input e) = Inr d \<and> va_consumptions d = [c]
    \<and> atoms (cn_consume c) = 30 \<and> atoms (cn_release c) = 10 \<and> iv_id i = cn_invocation_id c
    \<and> closes p (demo_input e) \<and> atoms (iv_held i) = 40 \<and> chain_used (iv_id i) [d] \<le> atoms (iv_maximum_exposure i)"
proof -
  obtain e d e' r where d: "bundle_evaluate sum_hash demo_bundle (demo_input e) = Inr d" and c: "chain_of e d e' r"
    using demo_chain by blast
  obtain x where x: "va_consumptions d = [x]" "atoms (cn_consume x) = 30" "atoms (cn_release x) = 10"
    using c by (auto simp: chain_of_def decided_def)
  have "x \<in> set (va_consumptions d)" using x(1) by simp
  with chain_reservation_conserved[OF demo_compiles d] obtain p and i :: invocation where i: "cn_invocation_id x = iv_id i"
    "atoms (cn_release x) = (if closes p (demo_input e) then atoms (iv_held i) - atoms (cn_consume x) else 0)"
    "chain_used (iv_id i) [d] \<le> atoms (iv_maximum_exposure i)"
    unfolding input_fields append_Nil by blast
  have "closes p (demo_input e)" "atoms (iv_held i) = 40" using i(2) x(2,3) by (simp_all split: if_splits)
  then show ?thesis using d x i by (intro exI[of _ e] exI[of _ d] exI[of _ x] exI[of _ p] exI[of _ i]) simp
qed

theorem chain_links_terminate_witness:
  "\<exists>e d r x. validate_history (later e) [d, r] = Inr () \<and> validate_links (later e) [d, r] = Inr ()
    \<and> link_target [d, r] origin_link = Some x \<and> inbound [d, r] (link_from origin_link) < 128
    \<and> (later e, later e) \<notin> (predecessor [d, r])\<^sup>+"
proof -
  obtain e d e' r where c: "chain_of e d e' r" using demo_chain by blast
  note a = demo_accepted[OF c]
  have l: "origin_link \<in> set (links_of (e_dto (later e)))" using c later_fields[of e] by (simp add: chain_of_def)
  from chain_links_terminate[OF a(1)] a(2) l obtain x where "link_target [d, r] origin_link = Some x"
    "inbound [d, r] (link_from origin_link) < 128" "(later e, later e) \<notin> (predecessor [d, r])\<^sup>+" by blast
  then show ?thesis using a by blast
qed

theorem chain_reversal_exact_witness:
  "\<exists>e' d r. chain_reverse sum_hash e' [d] demo_authority = Inr r \<and> length (va_actions r) = 3
    \<and> obligation_total (obligation_label retail_binding) (va_actions r) = - obligation_total (obligation_label retail_binding) (va_actions d)
    \<and> deltas_of (va_actions r) (va_deltas r)
    \<and> (\<forall>r'. chain_reverse sum_hash e' [d, r] demo_authority \<noteq> Inr r' \<and> chain_reverse sum_hash e' [d, r, d] demo_authority \<noteq> Inr r')"
proof -
  obtain e d e' r where r: "chain_reverse sum_hash e' [d] demo_authority = Inr r" and c: "chain_of e d e' r"
    using demo_chain by blast
  have t: "ev_targets (e_dto e') = Some [tag ''ev'' ''b9'']" "va_event d = e" "event_ident e = tag ''ev'' ''b9''"
    using c undo_fields(7)[of e'] by (simp_all add: chain_of_def decided_def)
  moreover from this have "select_targets [d] [tag ''ev'' ''b9''] = Inr [d]" by (simp add: select_targets_def)
  ultimately have "obligation_total ob (va_actions r) = - obligation_total ob (va_actions d)" "deltas_of (va_actions r) (va_deltas r)" for ob
    using chain_reversal_exact[OF r] by auto
  moreover have "length (va_actions r) = 3" using c by (auto simp: chain_of_def)
  moreover have "chain_reverse sum_hash e' ([d] @ r # later) demo_authority \<noteq> Inr r'" for later r'
    using chain_reversal_exact[OF r] t by auto
  from this[of "[]"] this[of "[d]"] have "chain_reverse sum_hash e' [d, r] demo_authority \<noteq> Inr r'"
    "chain_reverse sum_hash e' [d, r, d] demo_authority \<noteq> Inr r'" for r' by simp_all
  ultimately show ?thesis using r by blast
qed

theorem chain_books_balance_witness:
  "\<exists>e d r. chain_history model_serde (\<lambda>_. []) sum_hash [d, r] \<and> validate_history (later e) [d, r] = Inr ()
    \<and> length (reversals [d, r]) = 3 \<and> distinct (reversals [d, r])
    \<and> obligation_total (obligation_label retail_binding) (target_actions [d, r])
      = obligation_total (obligation_label retail_binding) (target_actions (standing [d, r]))"
proof -
  obtain e d e' r where r: "resolved_event model_serde (\<lambda>_. []) sum_hash e" "resolved_event model_serde (\<lambda>_. []) sum_hash e'"
    "bundle_evaluate sum_hash demo_bundle (demo_input e) = Inr d" "chain_reverse sum_hash e' [d] demo_authority = Inr r"
    and c: "chain_of e d e' r" using demo_chain by blast
  note h = demo_reachable(2)[OF r] and v = demo_accepted(1)[OF c]
  have fit: "arrays_fit model_serde CANDIDATE_LIMIT" by (rule sample_fit) (simp add: CANDIDATE_LIMIT_def)
  have "length (reversals [d, r]) = 3"
    using c by (auto simp: chain_of_def decided_def reversals_def target_actions_def undone_def)
  then show ?thesis using chain_books_balance[OF model_serde_ok(1) fit sum_hash_ok h v] h v by blast
qed

theorem chain_never_panics_witness:
  "\<exists>e' d. resolved_event model_serde (\<lambda>_. []) sum_hash e' \<and> chain_history model_serde (\<lambda>_. []) sum_hash [d]
    \<and> length (va_actions d) = 3 \<and> chain_reverse sum_hash e' [d] demo_authority \<noteq> Inl Panic"
proof -
  obtain e d e' r where r: "resolved_event model_serde (\<lambda>_. []) sum_hash e" "resolved_event model_serde (\<lambda>_. []) sum_hash e'"
    "bundle_evaluate sum_hash demo_bundle (demo_input e) = Inr d" "chain_reverse sum_hash e' [d] demo_authority = Inr r"
    and c: "chain_of e d e' r" using demo_chain by blast
  note h = demo_reachable(1)[OF r]
  have fit: "arrays_fit model_serde CANDIDATE_LIMIT" by (rule sample_fit) (simp add: CANDIDATE_LIMIT_def)
  have "length (va_actions d) = 3" using c by (simp add: chain_of_def decided_def)
  then show ?thesis
    using chain_never_panics[OF model_serde_ok(1) fit sum_hash_ok h r(2)] r(2) h by blast
qed

end
