(* ===== verification/Spec2Isabelle.thy ===== *)
theory Spec2Isabelle
  imports Money_Laws Canonical_Properties Timestamp_Properties Identifiers Wire Policy_Properties
    Outbox_Properties Calendar_Properties Event_Properties Assembly_Sample
    Chain_Sample
begin

text \<open>
  A verification development of the ledger: the pure core (\<^verbatim>\<open>crates/ledgerlab-core\<close>), which
  decides what an event is worth, and the delivery outbox of the facade (\<^verbatim>\<open>crates/ledgerlab\<close>),
  which hands decisions to a destination exactly once.

  How the program is put together. Every document enters as JSON bytes through the strict parser
  and leaves as canonical bytes that are hashed with a domain (\<^verbatim>\<open>canonical/mod.rs\<close>). The values
  inside are identifiers and revisions (\<^verbatim>\<open>domain/mod.rs\<close>), timestamps (\<^verbatim>\<open>domain/time.rs\<close>), decimals,
  exact ratios and bounded atoms of money (\<^verbatim>\<open>money/mod.rs\<close>). Most of them exist twice: a plain
  function, and a metered one that announces every visit, scan, allocation and arithmetic operation
  to a \<open>ValidationWork\<close> callback before it happens (\<^verbatim>\<open>validation_work.rs\<close>). A pricing policy is a
  document compiled to rules and evaluated on an event (\<^verbatim>\<open>policy/mod.rs\<close>, \<^verbatim>\<open>wire/mod.rs\<close>); a bundle
  of them is evaluated over the events of a chain (\<^verbatim>\<open>policy/chaining\<close>). An event
  (\<^verbatim>\<open>domain/event.rs\<close>) is normalized, resolved and, with the six documents of its agreement, turned
  into a decision: a journal of records with its manifest and receipt (\<^verbatim>\<open>domain/records.rs\<close>). The
  outbox (\<^verbatim>\<open>outbox/\<close>, \<^verbatim>\<open>store/sqlite/outbox.rs\<close>) claims deliveries under a lease with a fencing
  generation, sends them, and settles the answer.

  The theories, in the order of their imports:

  \<^item> \<open>Prelude\<close>: results with errors and panics as values, checked integers, folds, decimal text.
  \<^item> \<open>Work\<close>: \<^verbatim>\<open>validation_work.rs\<close>. A metered computation takes the callback state and returns it
    with its result. \<open>erases\<close> says that a metered function, run with callbacks that refuse nothing,
    is a given plain one, and that it never changes the result otherwise; its composition rules
    carry every metered/plain equivalence of the development.
  \<^item> \<open>Money\<close>, \<open>Money_Laws\<close>: \<^verbatim>\<open>money/mod.rs\<close>. Integers that the code keeps in 512-bit or arbitrary
    precision are \<open>int\<close> with the code's bound checks; \<open>i128\<close> and \<open>u64\<close> are checked explicitly.
    The laws give each routine its value as a rational number.
  \<^item> \<open>Ordered_Map\<close>, \<open>Text\<close>: a \<open>BTreeMap\<close> as a sorted association list; strings are their UTF-8 bytes.
  \<^item> \<open>Canonical\<close>, \<open>Canonical_Laws\<close>, \<open>Json_Parser\<close>, \<open>Json_Laws\<close>, \<open>Canonical_Properties\<close>: the emitter,
    the strict parser, \<open>no_null\<close>, \<open>sort_set\<close> and the domains of hashes (\<^verbatim>\<open>canonical/mod.rs\<close>). The parser
    recurses on fuel; the entry point gives it the number of bytes plus one, and since every
    recursive call consumes a byte, the round trip theorem shows that this is enough for every
    document the emitter writes within the parser's depth.
  \<^item> \<open>Timestamp\<close>, \<open>Timestamp_Laws\<close>, \<open>Timestamp_Properties\<close>: \<^verbatim>\<open>domain/time.rs\<close>, with every checked
    operation of the calendar arithmetic and every slice that could panic.
  \<^item> \<open>Json_Values\<close>, \<open>Identifiers\<close>, \<open>Wire\<close>: the derived serde decoders, \<^verbatim>\<open>domain/mod.rs\<close> with
    \<open>validate_source\<close> of \<^verbatim>\<open>domain/event.rs\<close>, and \<^verbatim>\<open>wire/mod.rs\<close>.
  \<^item> \<open>Policy\<close>, \<open>Policy_Laws\<close>, \<open>Policy_Properties\<close>: \<^verbatim>\<open>policy/mod.rs\<close>. \<open>policy_ok\<close> is what compilation
    guarantees, \<open>rule_amount\<close> the reference amount of a rule in exact arithmetic, \<open>loop_state\<close> the
    invariant that ties the loop of \<open>evaluate_steps\<close> to it.
  \<^item> \<open>Event\<close>, \<open>Event_Laws\<close>, \<open>Event_Properties\<close>: \<^verbatim>\<open>domain/event.rs\<close>. An event document is
    normalized (defaults filled in, sets sorted, fields allowed for its kind) and then resolved
    against the chain of its parents; the laws show what a normalized document looks like and that
    its encoding is read back as itself.
  \<^item> \<open>Documents\<close>, \<open>Records\<close>, \<open>Assembly\<close>: \<^verbatim>\<open>domain/records.rs\<close>. The six input documents, the checks of
    a resolved input, and \<open>assemble_inner\<close> in the order of the code: the values before the steps
    (\<open>frame_of\<close>), the first records, one iteration of the loop (\<open>assemble_step\<close>), and the intention,
    manifest, receipt and journal (\<open>finish_plan\<close>).
  \<^item> \<open>Encoding_Laws\<close>, \<open>Encoding_Safe\<close>, \<open>Assembly_Laws\<close>, \<open>Assembly_Safe\<close>: sorted sets, the shape of
    encoded objects and the absence of panics, shared by the events and the records; what the loop
    of the assembly builds for every step.
  \<^item> \<open>Assembly_Properties\<close>, \<open>Assembly_Sample\<close>: what a decision charges, what its journal holds, and
    that it never panics; a concrete decision with one charge, assembled with a hash function of 32
    bytes that shows the length of its input.
  \<^item> \<open>Calendar\<close>, \<open>Calendar_Laws\<close>, \<open>Civil_Dates\<close>, \<open>Fiscal\<close>, \<open>Fiscal_Laws\<close>, \<open>Calendar_Properties\<close>:
    \<^verbatim>\<open>domain/calendar.rs\<close> and \<^verbatim>\<open>domain/fiscal_calendar.rs\<close>. \<open>dates\<close> and \<open>zones\<close> are the operations of
    the date and time zone crates the code calls; the locale \<open>civil_dates\<close> states what the code
    relies on and is interpreted on the proleptic Gregorian calendar. \<open>cut_at\<close> is the reference
    schedule of a billing calendar, which the records built by the code are shown to refine; the
    search for a boundary runs for the code's own \<open>MAX_BOUNDARY_SEARCH\<close> steps. \<open>year_dates\<close> and
    \<open>part_dates\<close> say what a fiscal year and its \<open>n\<close>-th part are, by counting months and days.
  \<^item> \<open>Store_Error\<close>, \<open>Outbox_Types\<close>, \<open>Destination\<close>, \<open>Outbox_Store\<close>, \<open>Outbox\<close>, \<open>Outbox_Safety\<close>,
    \<open>Outbox_Properties\<close>: the outbox. The state is the tables the statements read and write together
    with the destination; an operation is a sequence of transactions, each of which commits, fails,
    or commits without the caller knowing. An attempt may reach the destination long after the
    ledger was read for it (\<open>arrive\<close>). Locales state what a transaction and a destination
    promise; they are interpreted on the model.

  \<^item> \<open>Chaining\<close>, \<open>Chain_Evaluation\<close>: \<^verbatim>\<open>policy/chaining\<close>. The policies of up to sixteen bindings over
    the events of a chain: their compiler (\<^verbatim>\<open>compile.rs\<close>), which fixes the one order of the rules; the
    evaluator (\<^verbatim>\<open>evaluate.rs\<close>) with the checks of authority, history, pinned context, links, bindings
    and invocations, the loop over the rules, the obligations and the consumptions; and the exact
    reversal of whole decisions (\<^verbatim>\<open>reversal.rs\<close>). The walk over the predecessors of an event stops
    after sixteen hops, as the code's does; no fuel is needed.
  \<^item> \<open>Chain_Laws\<close>, \<open>Chain_Loop\<close>, \<open>Chain_Properties\<close>, \<open>Chain_Reservations\<close>, \<open>Chain_Links\<close>,
    \<open>Chain_Reversal\<close>, \<open>Chain_Safe\<close>, \<open>Chain_History\<close>, \<open>Chain_Sample\<close>: what a compiled bundle is; \<open>loop_ok\<close>, the invariant
    of the loop over the rules, which ties the actions made so far to the booked, reduced slots;
    the obligations of a decision, the conservation of reservations, the walk over the predecessors,
    the exactness of reversals and the absence of panics. \<open>chain_history\<close> are the histories that
    evaluation and reversal build from nothing; the books of every one of them balance. The sample
    is a decision of two policies with a discount and a reservation, and its reversal.

  Code outside the repository's sources is a parameter: SHA-256, \<open>serde_json\<close>'s decoder of string
  escapes and its error texts, the sizes of its value types, and the date and time zone crates.

  Not modelled: the generic workflow language (\<^verbatim>\<open>policy/workflow\<close>), the comparison and retained
  forms of chained decisions (\<^verbatim>\<open>policy/chaining/comparison.rs\<close>, \<^verbatim>\<open>retained.rs\<close>), central
  adjudication (\<^verbatim>\<open>adjudication\<close>), the service terms and workflow statements of
  \<^verbatim>\<open>domain\<close>, and the facade's
  services, billing, gateway and stores apart from the outbox: later work. The command line tool,
  the test kit and the build script are input and output around these parts.
\<close>

end
